(* ===== verification/Prelude.thy ===== *)
theory Prelude
  imports Main "HOL-Library.Word"
begin

text \<open>
  Shared vocabulary of the development: the machine types of \<open>include/types.h\<close>, the
  alignment macros, the C idioms every component uses (scanning a table for the first
  matching slot, fixed-size character arrays, bitmaps of machine words, little-endian
  fields of byte buffers) and the lemmas about them. The collections
  \<open>kernel_simps\<close> (unfold an operation) and \<open>kernel_inv\<close> (unfold an
  invariant) are filled by the components.
\<close>

unbundle bit_operations_syntax

named_theorems kernel_simps "definitions of kernel operations"
named_theorems kernel_inv "definitions of component invariants"

section \<open>Machine types (include/types.h)\<close>

type_synonym u8 = "8 word"
type_synonym u16 = "16 word"
type_synonym u32 = "32 word"
type_synonym u64 = "64 word"

text \<open>\<open>ALIGN_UP\<close> and \<open>ALIGN_DOWN\<close>: the additions wrap, as in C.\<close>

definition align_up :: "u32 \<Rightarrow> u32 \<Rightarrow> u32" where
  "align_up val al = (val + al - 1) AND NOT (al - 1)"

definition align_down :: "u32 \<Rightarrow> u32 \<Rightarrow> u32" where
  "align_down val al = val AND NOT (al - 1)"

lemma and_not_mask_unat:
  "unat ((x::'a::len word) AND NOT (mask n)) = (unat x div 2 ^ n) * 2 ^ n"
proof (cases "n < LENGTH('a)")
  case True
  have eq: "x AND NOT (mask n) = push_bit n (drop_bit n x)"
    by (rule bit_word_eqI) (auto simp: bit_simps)
  have udb: "unat (drop_bit n x) = unat x div 2 ^ n"
    by (simp add: unsigned_drop_bit_eq take_bit_nat_eq_self flip: drop_bit_eq_div)
  have "unat (push_bit n (drop_bit n x)) = take_bit LENGTH('a) (push_bit n (unat (drop_bit n x)))"
    by (rule unsigned_push_bit_eq)
  also have "\<dots> = push_bit n (unat (drop_bit n x))"
  proof -
    have "push_bit n (unat (drop_bit n x)) = (unat x div 2 ^ n) * 2 ^ n"
      by (simp add: push_bit_eq_mult udb)
    also have "\<dots> \<le> unat x"
      by (simp add: div_times_less_eq_dividend)
    also have "\<dots> < 2 ^ LENGTH('a)" by (rule unsigned_less)
    finally show ?thesis by (simp add: take_bit_nat_eq_self)
  qed
  also have "\<dots> = (unat x div 2 ^ n) * 2 ^ n"
    by (simp add: push_bit_eq_mult udb)
  finally show ?thesis using eq by simp
next
  case False
  then have "mask n = (- 1 :: 'a word)"
    by (auto intro: bit_word_eqI simp: bit_simps)
  moreover have "unat x div 2 ^ n = 0"
  proof -
    have "unat x < 2 ^ LENGTH('a)" by (rule unsigned_less)
    also have "\<dots> \<le> 2 ^ n" using False by simp
    finally show ?thesis by simp
  qed
  ultimately show ?thesis by simp
qed


lemma unat_drop_bit_div: "unat (drop_bit n (x :: 'a::len word)) = unat x div 2 ^ n"
  by (simp add: unsigned_drop_bit_eq take_bit_nat_eq_self flip: drop_bit_eq_div)

lemma nat_div_top: "(x :: nat) = a + k * r \<Longrightarrow> a < k \<Longrightarrow> x div k = r"
  by simp

lemma unat_u8_less [simp]: "unat (x :: u8) < 256"
  using unsigned_less [of x, where 'a = nat] by simp

lemma unat_u16_less [simp]: "unat (x :: u16) < 65536"
  using unsigned_less [of x, where 'a = nat] by simp

lemma unat_u32_less [simp]: "unat (x :: u32) < 4294967296"
  using unsigned_less [of x, where 'a = nat] by simp

lemma unat_u64_less [simp]: "unat (x :: u64) < 18446744073709551616"
  using unsigned_less [of x, where 'a = nat] by simp

lemma unat_u8_le [simp]: "unat (x :: u8) \<le> 255"
  using unat_u8_less [of x] by linarith

lemma unat_ucast_up:
  assumes "LENGTH('a) \<le> LENGTH('b)"
  shows "unat (ucast (x :: 'a::len word) :: 'b::len word) = unat x"
proof -
  have "unat x < 2 ^ LENGTH('a)" by (rule unsigned_less)
  also have "\<dots> \<le> 2 ^ LENGTH('b)" using assms by simp
  finally show ?thesis by (simp only: unsigned_ucast_eq) (simp add: take_bit_nat_eq_self)
qed

lemma unat_ucast_byte [simp]:
  "unat (ucast (x :: u8) :: u16) = unat x" "unat (ucast (x :: u8) :: u32) = unat x"
  "unat (ucast (x :: u8) :: u64) = unat x"
  "unat (ucast (y :: u16) :: u32) = unat y" "unat (ucast (z :: u32) :: u64) = unat z"
  by (simp_all add: unat_ucast_up)

lemma unat_not_u16: "unat (NOT (x :: u16)) = 65535 - unat x"
proof -
  have "NOT x = - 1 - x" by (simp add: not_eq_complement)
  then have "unat (NOT x) = unat (- 1 :: u16) - unat x" by (simp add: unat_sub)
  then show ?thesis by (simp add: unsigned_minus_1_eq_mask mask_eq_exp_minus_1)
qed

lemma bit_word_odd: "bit (x :: 'a::len word) n \<longleftrightarrow> odd (unat x div 2 ^ n)"
  by (metis bit_iff_odd bit_unsigned_iff bit_imp_possible_bit possible_bit_nat)

lemma bit_push1: "bit (push_bit k (1 :: 'a::len word)) n \<longleftrightarrow> n = k \<and> k < LENGTH('a)"
  by (auto simp: bit_push_bit_iff bit_1_iff simp del: push_bit_of_1)

lemma and_push1: "(x :: 'a::len word) AND push_bit k 1 = 0 \<longleftrightarrow> \<not> bit x k"
proof
  assume "x AND push_bit k 1 = 0"
  then have "\<not> bit (x AND push_bit k 1) k" by simp
  then show "\<not> bit x k"
    unfolding bit_and_iff bit_push1 using bit_imp_le_length [of x k] by blast
next
  assume "\<not> bit x k"
  then show "x AND push_bit k 1 = 0"
    by (intro bit_word_eqI) (auto simp: bit_and_iff bit_push1 simp del: push_bit_of_1)
qed

lemma page_mask_eq: "(4095 :: u32) = mask 12"
  by (simp add: mask_eq_exp_minus_1)

lemma unat_align_down_page:
  "unat (align_down a 4096) = unat a div 4096 * 4096"
  using and_not_mask_unat [of a 12] by (simp add: align_down_def page_mask_eq)

lemma unat_align_up_page:
  assumes "unat a + 4095 < 2 ^ 32"
  shows "unat (align_up a 4096) = (unat a + 4095) div 4096 * 4096"
proof -
  have "a + 4096 - 1 = a + (4095 :: u32)" by simp
  moreover have "unat (a + (4095 :: u32)) = unat a + 4095"
    using assms by (simp add: unat_word_ariths)
  ultimately show ?thesis
    using and_not_mask_unat [of "a + 4095" 12] by (simp add: align_up_def page_mask_eq add.commute)
qed

lemma unat_align_up_8:
  assumes "unat a + 7 < 2 ^ 32"
  shows "unat (align_up a 8) = (unat a + 7) div 8 * 8"
proof -
  have "a + 8 - 1 = a + (7 :: u32)" by simp
  moreover have "unat (a + (7 :: u32)) = unat a + 7"
    using assms by (simp add: unat_word_ariths)
  moreover have "(7 :: u32) = mask 3" by (simp add: mask_eq_exp_minus_1)
  ultimately show ?thesis
    using and_not_mask_unat [of "a + 7" 3] by (simp add: align_up_def add.commute)
qed

lemma sint_small: "unat (x :: u32) < 2 ^ 31 \<Longrightarrow> sint x = int (unat x)"
proof -
  assume "unat x < 2 ^ 31"
  then have "int (unat x) < int (2 ^ 31)" by (simp only: of_nat_less_iff)
  then have "uint x < 2 ^ 31" unfolding uint_nat by (simp only: of_nat_power of_nat_numeral)
  then have "signed_take_bit 31 (uint x) = uint x" using uint_ge_0 [of x] by (intro signed_take_bit_int_eq_self; linarith)
  moreover have "LENGTH(32) - Suc 0 = 31" by simp
  ultimately have "sint x = uint x" using sint_uint [of x] by (simp only:)
  then show ?thesis unfolding uint_nat .
qed

lemma unat_of_nat_fits: "n \<le> unat (e :: u32) \<Longrightarrow> unat (of_nat n :: u32) = n"
  using unat_u32_less [of e] by (simp only: unat_of_nat) (simp del: unat_u32_less)

lemma unat_plus_fits: "unat (p :: u32) + n \<le> unat (e :: u32) \<Longrightarrow> unat (p + of_nat n) = unat p + n"
  using unat_u32_less [of e] unat_of_nat_fits [of n e]
  by (simp only: unat_word_ariths) (simp del: unat_u32_less)

lemma bit_u8_bound: "bit (c :: u8) n \<Longrightarrow> n < 8"
  using bit_imp_le_length [of c n] by simp

lemma bit_u8_ge [simp]: "8 \<le> n \<Longrightarrow> \<not> bit (c :: u8) n"
  using bit_u8_bound [of c n] by auto

section \<open>Table scans\<close>

text \<open>
  The loop \<open>for (i = 0; i < N; i++) if (P(t[i])) \<dots>\<close> that stops at the first match:
  the index of the first entry that satisfies \<open>P\<close>.
\<close>

fun find_idx :: "('a \<Rightarrow> bool) \<Rightarrow> 'a list \<Rightarrow> nat option" where
  "find_idx P [] = None"
| "find_idx P (x # xs) = (if P x then Some 0 else map_option Suc (find_idx P xs))"

lemma find_idx_None: "find_idx P xs = None \<longleftrightarrow> (\<forall>x \<in> set xs. \<not> P x)"
  by (induction xs) auto

lemma find_idx_Some:
  "find_idx P xs = Some i \<longleftrightarrow> i < length xs \<and> P (xs ! i) \<and> (\<forall>j < i. \<not> P (xs ! j))"
proof (induction xs arbitrary: i)
  case (Cons x xs)
  show ?case
  proof (cases i)
    case 0
    then show ?thesis by simp
  next
    case (Suc k)
    then show ?thesis
      using Cons.IH [of k] by (auto simp: less_Suc_eq_0_disj)
  qed
qed simp

lemma find_idx_SomeD:
  assumes "find_idx P xs = Some i"
  shows "i < length xs" "P (xs ! i)" "\<And>j. j < i \<Longrightarrow> \<not> P (xs ! j)"
  using assms by (auto simp: find_idx_Some)

lemma find_idx_cong:
  assumes "length xs = length ys" and "\<And>i. i < length xs \<Longrightarrow> P (xs ! i) = Q (ys ! i)"
  shows "find_idx P xs = find_idx Q ys"
proof (cases "find_idx P xs")
  case None
  then have "find_idx Q ys = None"
    using assms by (force simp: find_idx_None in_set_conv_nth)
  with None show ?thesis by simp
next
  case (Some i)
  then have "find_idx Q ys = Some i"
    using assms unfolding find_idx_Some by (metis order_less_trans)
  with Some show ?thesis by simp
qed

lemma find_idx_unique:
  assumes "i < length xs" "P (xs ! i)" "\<And>j. j < length xs \<Longrightarrow> P (xs ! j) \<Longrightarrow> j = i"
  shows "find_idx P xs = Some i"
  unfolding find_idx_Some using assms by (metis less_trans less_irrefl)

lemma find_idx_ex: "i < length xs \<Longrightarrow> P (xs ! i) \<Longrightarrow> \<exists>k. find_idx P xs = Some k"
  by (cases "find_idx P xs") (auto simp: find_idx_None)

lemma set_list_update_iff:
  "i < length xs \<Longrightarrow> y \<in> set (xs[i := x]) \<longleftrightarrow> y = x \<or> (\<exists>j < length xs. j \<noteq> i \<and> xs ! j = y)"
  by (fastforce simp: in_set_conv_nth nth_list_update)

lemma all_nth_update:
  "\<forall>k < length xs. P (xs ! k) \<Longrightarrow> P v \<Longrightarrow> \<forall>k < length (xs[i := v]). P (xs[i := v] ! k)"
  by (metis length_list_update nth_list_update_eq nth_list_update_neq)

section \<open>Bitmaps of machine words\<close>

text \<open>
  \<open>bm[i / W] |= 1 << (i % W)\<close> and its companions, for any word size \<open>W\<close>: the page
  bitmap and the priority bitmap use 32-bit words, the swap bitmap bytes.
\<close>

definition bm_set :: "'a::len word list \<Rightarrow> nat \<Rightarrow> 'a word list" where
  "bm_set bm i = bm[i div LENGTH('a) := (bm ! (i div LENGTH('a))) OR push_bit (i mod LENGTH('a)) 1]"

definition bm_clear :: "'a::len word list \<Rightarrow> nat \<Rightarrow> 'a word list" where
  "bm_clear bm i =
     bm[i div LENGTH('a) := (bm ! (i div LENGTH('a))) AND NOT (push_bit (i mod LENGTH('a)) 1)]"

definition bm_test :: "'a::len word list \<Rightarrow> nat \<Rightarrow> bool" where
  "bm_test bm i \<longleftrightarrow> drop_bit (i mod LENGTH('a)) (bm ! (i div LENGTH('a))) AND 1 \<noteq> 0"

lemma bm_test_bit: "bm_test (bm :: 'a::len word list) i \<longleftrightarrow> bit (bm ! (i div LENGTH('a))) (i mod LENGTH('a))"
  unfolding bm_test_def bit_iff_odd_drop_bit by (simp add: and_one_eq odd_iff_mod_2_eq_one)

lemma length_bm_set [simp]: "length (bm_set bm i) = length bm"
  by (simp add: bm_set_def)

lemma length_bm_clear [simp]: "length (bm_clear bm i) = length bm"
  by (simp add: bm_clear_def)

lemma bm_test_set:
  fixes bm :: "'a::len word list"
  assumes "i < length bm * LENGTH('a)"
  shows "bm_test (bm_set bm i) j \<longleftrightarrow> j = i \<or> bm_test bm j"
proof -
  have "i div LENGTH('a) < length bm"
    using assms by (simp add: less_mult_imp_div_less)
  moreover have "j = i \<longleftrightarrow> j div LENGTH('a) = i div LENGTH('a) \<and> j mod LENGTH('a) = i mod LENGTH('a)"
    by (metis div_mult_mod_eq)
  ultimately show ?thesis
    by (auto simp: bm_test_bit bm_set_def nth_list_update bit_simps)
qed

lemma bm_test_clear:
  fixes bm :: "'a::len word list"
  assumes "i < length bm * LENGTH('a)"
  shows "bm_test (bm_clear bm i) j \<longleftrightarrow> j \<noteq> i \<and> bm_test bm j"
proof -
  have "i div LENGTH('a) < length bm"
    using assms by (simp add: less_mult_imp_div_less)
  moreover have "j = i \<longleftrightarrow> j div LENGTH('a) = i div LENGTH('a) \<and> j mod LENGTH('a) = i mod LENGTH('a)"
    by (metis div_mult_mod_eq)
  moreover have "j mod LENGTH('a) < LENGTH('a)" by simp
  ultimately show ?thesis
    by (auto simp: bm_test_bit bm_clear_def nth_list_update bit_simps)
qed

lemma bm_test_replicate_ones: "i < n * LENGTH('a) \<Longrightarrow> bm_test (replicate n (- 1 :: 'a::len word)) i"
  by (simp add: bm_test_bit less_mult_imp_div_less bit_simps)

lemma bm_test_replicate_zero: "i < n * LENGTH('a) \<Longrightarrow> \<not> bm_test (replicate n (0 :: 'a::len word)) i"
  by (simp add: bm_test_bit less_mult_imp_div_less)

section \<open>Byte buffers\<close>

text \<open>The bytes of a string literal, without its terminator.\<close>

definition asc :: "string \<Rightarrow> u8 list" where
  "asc s = map (\<lambda>c. of_nat (of_char c)) s"

text \<open>Little-endian fields of a byte buffer, as an unaligned x86 load reads them.\<close>

definition get16 :: "u8 list \<Rightarrow> nat \<Rightarrow> u16" where
  "get16 bs i = ucast (bs ! i) OR push_bit 8 (ucast (bs ! (i + 1)))"

definition get32 :: "u8 list \<Rightarrow> nat \<Rightarrow> u32" where
  "get32 bs i = ucast (bs ! i) OR push_bit 8 (ucast (bs ! (i + 1)))
     OR push_bit 16 (ucast (bs ! (i + 2))) OR push_bit 24 (ucast (bs ! (i + 3)))"

definition get64 :: "u8 list \<Rightarrow> nat \<Rightarrow> u64" where
  "get64 bs i = ucast (get32 bs i) OR push_bit 32 (ucast (get32 bs (i + 4)))"

definition bytes16 :: "u16 \<Rightarrow> u8 list" where
  "bytes16 v = [ucast v, ucast (drop_bit 8 v)]"

definition bytes32 :: "u32 \<Rightarrow> u8 list" where
  "bytes32 v = [ucast v, ucast (drop_bit 8 v), ucast (drop_bit 16 v), ucast (drop_bit 24 v)]"

lemma length_bytes16 [simp]: "length (bytes16 v) = 2"
  by (simp add: bytes16_def)

lemma length_bytes32 [simp]: "length (bytes32 v) = 4"
  by (simp add: bytes32_def)

lemma get16_at:
  "length pre = i \<Longrightarrow> get16 (pre @ bytes16 v @ post) i = v"
  by (rule bit_word_eqI) (auto simp: get16_def bytes16_def nth_append bit_simps)

lemma get32_at:
  assumes "length pre = i"
  shows "get32 (pre @ bytes32 v @ post) i = v"
proof -
  have *: "get32 (pre @ bytes32 v @ post) i =
      ucast (ucast v :: u8) OR push_bit 8 (ucast (ucast (drop_bit 8 v) :: u8)) OR
      push_bit 16 (ucast (ucast (drop_bit 16 v) :: u8)) OR push_bit 24 (ucast (ucast (drop_bit 24 v) :: u8))"
    using assms by (simp add: get32_def bytes32_def nth_append)
  show ?thesis
    unfolding *
  proof (rule bit_word_eqI)
    fix n assume n: "n < LENGTH(32)"
    then consider "n < 8" | "8 \<le> n" "n < 16" | "16 \<le> n" "n < 24" | "24 \<le> n" by linarith
    then show "bit (ucast (ucast v :: u8) OR push_bit 8 (ucast (ucast (drop_bit 8 v) :: u8)) OR
      push_bit 16 (ucast (ucast (drop_bit 16 v) :: u8)) OR
      push_bit 24 (ucast (ucast (drop_bit 24 v) :: u8)) :: u32) n \<longleftrightarrow> bit v n"
      using n by cases (auto simp: bit_simps)
  qed
qed

lemma unat_get16: "unat (get16 bs i) = unat (bs ! i) + 256 * unat (bs ! (i + 1))"
proof -
  let ?a = "ucast (bs ! i) :: u16" and ?b = "push_bit 8 (ucast (bs ! (i + 1))) :: u16"
  have "?a AND ?b = 0"
    by (rule bit_word_eqI) (auto simp: bit_simps)
  then have "get16 bs i = ?a + ?b"
    unfolding get16_def by (simp add: disjunctive_add_eq_or)
  moreover have "unat ?a = unat (bs ! i)" by simp
  moreover have "unat ?b = 256 * unat (bs ! (i + 1))"
  proof -
    have "256 * unat (bs ! (i + 1)) < 65536" using unat_u8_less [of "bs ! (i + 1)"] by linarith
    then show ?thesis by (simp add: push_bit_eq_mult unat_word_ariths mult.commute)
  qed
  moreover have "unat (bs ! i) + 256 * unat (bs ! (i + 1)) < 65536"
    using unat_u8_le [of "bs ! i"] unat_u8_le [of "bs ! (i + 1)"] by linarith
  ultimately show ?thesis by (simp add: unat_word_ariths)
qed

text \<open>The number that bytes spell, the lowest first.\<close>

primrec le_nat :: "u8 list \<Rightarrow> nat" where
  "le_nat [] = 0"
| "le_nat (b # bs) = unat b + 256 * le_nat bs"

lemma take_Suc_drop: "i < length xs \<Longrightarrow> take (Suc n) (drop i xs) = xs ! i # take n (drop (Suc i) xs)"
  by (metis Cons_nth_drop_Suc take_Suc_Cons)

lemma unat_get32:
  assumes "i + 4 \<le> length b"
  shows "unat (get32 b i) = le_nat (take 4 (drop i b))"
proof -
  let ?x = "\<lambda>k. ucast (b ! k) :: u32"
  have x: "\<not> bit (?x k) n" if "8 \<le> n" for k n using that by (simp add: bit_simps)
  have or_plus: "y OR push_bit k z = y + push_bit k z" if "\<forall>n \<ge> k. \<not> bit y n" for y z :: u32 and k
    using that by (intro disjunctive_add_eq_or [symmetric] bit_word_eqI) (auto simp: bit_simps)
  have "get32 b i = ((?x i OR push_bit 8 (?x (i + 1))) OR push_bit 16 (?x (i + 2))) + push_bit 24 (?x (i + 3))"
    unfolding get32_def or.assoc [symmetric] by (rule or_plus) (auto simp: bit_or_iff bit_push_bit_iff x)
  also have "(?x i OR push_bit 8 (?x (i + 1))) OR push_bit 16 (?x (i + 2)) = (?x i OR push_bit 8 (?x (i + 1))) + push_bit 16 (?x (i + 2))"
    by (rule or_plus) (auto simp: bit_or_iff bit_push_bit_iff x)
  also have "?x i OR push_bit 8 (?x (i + 1)) = ?x i + push_bit 8 (?x (i + 1))" by (rule or_plus) (auto simp: x)
  finally have "get32 b i = ?x i + push_bit 8 (?x (i + 1)) + push_bit 16 (?x (i + 2)) + push_bit 24 (?x (i + 3))" .
  moreover have "take 4 (drop i b) = [b ! i, b ! (i + 1), b ! (i + 2), b ! (i + 3)]"
    using assms by (simp add: numeral_eq_Suc take_Suc_drop)
  moreover define k where "k = unat (b ! i) + 256 * unat (b ! (i + 1)) + 65536 * unat (b ! (i + 2)) + 16777216 * unat (b ! (i + 3))"
  ultimately have g: "get32 b i = of_nat k" and l: "le_nat (take 4 (drop i b)) = k"
    by (simp_all add: push_bit_eq_mult mult.commute)
  have "x + 256 * y + 65536 * z + 16777216 * u < 4294967296" if "x \<le> 255" "y \<le> 255" "z \<le> 255" "u \<le> 255"
    for x y z u :: nat using that by linarith
  then have "k < 4294967296" unfolding k_def by (simp only: unat_u8_le)
  then show ?thesis by (simp add: g l unat_of_nat)
qed

lemma unat_less_u32: "unat (x :: u32) < 2 ^ 32"
  using unsigned_less [of x] by simp

text \<open>A file as the concatenation of blocks of one size.\<close>

lemma length_concat_blocks: "\<forall>b \<in> set bs. length b = k \<Longrightarrow> length (concat bs) = length bs * k"
  by (induction bs) simp_all

lemma drop_concat_blocks: "\<forall>b \<in> set bs. length b = k \<Longrightarrow> drop (n * k) (concat bs) = concat (drop n bs)"
proof (induction bs arbitrary: n)
  case (Cons b bs)
  then show ?case by (cases n) simp_all
qed simp

text \<open>The offset of a byte in the file, and in its block.\<close>

lemma drop_concat_div_mod:
  assumes "\<forall>b \<in> set bs. length b = k"
  shows "drop off (concat bs) = drop (off mod k) (concat (drop (off div k) bs))"
proof -
  have "off = off mod k + off div k * k" by simp
  then have "drop off (concat bs) = drop (off mod k) (drop (off div k * k) (concat bs))" by (metis drop_drop)
  then show ?thesis by (simp only: drop_concat_blocks [OF assms])
qed

text \<open>What one round of a block-wise copy contributes.\<close>

lemma take_drop_block:
  assumes "intra \<le> length b" "chunk = min n (length b - intra)"
  shows "take n (drop intra (b @ r)) = take chunk (drop intra b) @ take (n - chunk) r"
  using assms by (simp add: min_def)

text \<open>A range that lies inside one block.\<close>

lemma take_concat_block:
  assumes "\<forall>b \<in> set bs. length b = k" "a div k < length bs" "c \<le> k - a mod k"
  shows "take c (drop a (concat bs)) = take c (drop (a mod k) (bs ! (a div k)))"
proof -
  have "drop (a div k) bs = bs ! (a div k) # drop (Suc (a div k)) bs" using assms(2) by (rule Cons_nth_drop_Suc [symmetric])
  moreover have "length (bs ! (a div k)) = k" using assms(1,2) by simp
  ultimately show ?thesis using assms(3) by (simp add: drop_concat_div_mod [OF assms(1), of a])
qed

lemma take_split: "c \<le> n \<Longrightarrow> take n (drop a xs) = take c (drop a xs) @ take (n - c) (drop (a + c) xs)"
  using take_add [of c "n - c" "drop a xs"] by (simp add: add.commute)

text \<open>A read request cut at the end of a file of \<open>fs\<close> bytes, \<open>if (offset + size > fs) size = fs - offset\<close>.\<close>

lemma unat_clip:
  assumes "\<not> fs \<le> (off :: u32)" "unat off + unat sz < 2 ^ 32"
  shows "unat (if off + sz > fs then fs - off else sz) = min (unat sz) (unat fs - unat off)"
proof -
  have "unat (off + sz) = unat off + unat sz" using assms(2) by (simp add: unat_word_ariths)
  moreover have "unat (fs - off) = unat fs - unat off" using assms(1) by (simp add: unat_sub word_le_nat_alt)
  moreover have "unat off < unat fs" using assms(1) by (simp add: word_le_nat_alt)
  ultimately show ?thesis by (auto simp: word_less_nat_alt min_def)
qed

lemma take_clip: "take (min n (k - a)) (drop a xs) = take n (drop a (take k xs))"
  by (simp add: drop_take min.commute)

lemma sint_length: "length b \<le> unat (fs :: u32) \<Longrightarrow> unat fs < 2 ^ 31 \<Longrightarrow> sint (of_nat (length b) :: u32) = int (length b)"
  using sint_small [of "of_nat (length b)"] unat_of_nat_fits [of "length b" fs] by simp

text \<open>\<open>memcpy(buf + off, src, n)\<close> into a buffer modelled as a list of bytes.\<close>

definition put_at :: "'a list \<Rightarrow> nat \<Rightarrow> 'a list \<Rightarrow> 'a list" where
  "put_at buf off src = take off buf @ src @ drop (off + length src) buf"

lemma length_put_at [simp]: "off + length src \<le> length buf \<Longrightarrow> length (put_at buf off src) = length buf"
  by (simp add: put_at_def)

lemma nth_put_at:
  "off + length src \<le> length buf \<Longrightarrow> i < length buf \<Longrightarrow>
   put_at buf off src ! i = (if off \<le> i \<and> i < off + length src then src ! (i - off) else buf ! i)"
  by (auto simp: put_at_def nth_append min_def)

end
