(* ===== verification/KMem.thy ===== *)
theory KMem
  imports Prelude
begin

text \<open>
  The memory half of \<open>klib.c\<close>: \<open>memset\<close>, \<open>memcpy\<close>, \<open>memmove\<close>,
  \<open>memcmp\<close> and the word-at-a-time \<open>strlen\<close>, over a flat 32-bit memory. The
  code's fast paths (aligned prologue, 4-byte word loop, byte tail) are kept; the lemmas
  show that each is the plain byte-wise operation.
\<close>

type_synonym mem = "u32 \<Rightarrow> u8"

section \<open>32-bit loads and stores\<close>

definition load32 :: "mem \<Rightarrow> u32 \<Rightarrow> u32" where
  "load32 m p = ucast (m p) OR push_bit 8 (ucast (m (p + 1)))
     OR push_bit 16 (ucast (m (p + 2))) OR push_bit 24 (ucast (m (p + 3)))"

definition store32 :: "mem \<Rightarrow> u32 \<Rightarrow> u32 \<Rightarrow> mem" where
  "store32 m p v = m(p := ucast v, p + 1 := ucast (drop_bit 8 v),
     p + 2 := ucast (drop_bit 16 v), p + 3 := ucast (drop_bit 24 v))"

definition load16 :: "mem \<Rightarrow> u32 \<Rightarrow> u16" where
  "load16 m p = ucast (m p) OR push_bit 8 (ucast (m (p + 1)))"

lemma ptr_plus_neq [simp]:
  "(p :: u32) \<noteq> p + 1" "p \<noteq> p + 2" "p \<noteq> p + 3" "p + 1 \<noteq> p" "p + 2 \<noteq> p" "p + 3 \<noteq> p"
  by simp_all

lemma four_bytes_at:
  fixes a b c d :: u8
  defines "v \<equiv> (ucast a OR push_bit 8 (ucast b) OR push_bit 16 (ucast c) OR push_bit 24 (ucast d) :: u32)"
  shows "ucast v = a" "ucast (drop_bit 8 v) = b" "ucast (drop_bit 16 v) = c" "ucast (drop_bit 24 v) = d"
  by (auto intro!: bit_word_eqI simp: v_def bit_simps)

lemma load32_bytes:
  "ucast (load32 m p) = m p" "ucast (drop_bit 8 (load32 m p)) = m (p + 1)"
  "ucast (drop_bit 16 (load32 m p)) = m (p + 2)" "ucast (drop_bit 24 (load32 m p)) = m (p + 3)"
  unfolding load32_def by (rule four_bytes_at)+

lemma bytes_of_u32:
  "ucast (ucast v :: u8) OR push_bit 8 (ucast (ucast (drop_bit 8 v) :: u8)) OR
   push_bit 16 (ucast (ucast (drop_bit 16 v) :: u8)) OR
   push_bit 24 (ucast (ucast (drop_bit 24 v) :: u8)) = (v :: u32)"
  using get32_at [of "[]" 0 v "[]"] by (simp add: get32_def bytes32_def)

lemma load32_store32_same [simp]: "load32 (store32 m p v) p = v"
  by (simp add: load32_def store32_def bytes_of_u32)

lemma u32_offsets:
  assumes "unat (q - p) \<ge> 4" "unat (p - q) \<ge> 4"
  shows "q + 0 \<noteq> p" "(i::u32) < 4 \<Longrightarrow> (j::u32) < 4 \<Longrightarrow> q + i \<noteq> p + j"
proof -
  show "q + 0 \<noteq> p" using assms(1) by auto
  assume i: "i < 4" and j: "j < 4"
  show "q + i \<noteq> p + j"
  proof
    assume eq: "q + i = p + j"
    then have 1: "q - p = j - i" and 2: "p - q = i - j"
      by (simp_all add: algebra_simps)
    have "i \<le> j \<or> j \<le> i" by auto
    then show False
    proof
      assume "i \<le> j"
      then have "unat (j - i) < 4" using j by (simp add: unat_sub word_less_nat_alt)
      with assms(1) 1 show False by simp
    next
      assume "j \<le> i"
      then have "unat (i - j) < 4" using i by (simp add: unat_sub word_less_nat_alt)
      with assms(2) 2 show False by simp
    qed
  qed
qed

lemma load32_store32_other:
  assumes "unat (q - p) \<ge> 4" "unat (p - q) \<ge> 4"
  shows "load32 (store32 m p v) q = load32 m q"
proof -
  have "\<And>i j. i < (4::u32) \<Longrightarrow> j < (4::u32) \<Longrightarrow> q + i \<noteq> p + j"
    using u32_offsets [OF assms] by blast
  from this [of 0 0] this [of 0 1] this [of 0 2] this [of 0 3]
    this [of 1 0] this [of 1 1] this [of 1 2] this [of 1 3]
    this [of 2 0] this [of 2 1] this [of 2 2] this [of 2 3]
    this [of 3 0] this [of 3 1] this [of 3 2] this [of 3 3]
  show ?thesis by (simp add: load32_def store32_def)
qed

section \<open>memset\<close>

fun set_bytes :: "nat \<Rightarrow> u8 \<Rightarrow> u32 \<Rightarrow> mem \<Rightarrow> mem" where
  "set_bytes 0 c p m = m"
| "set_bytes (Suc n) c p m = set_bytes n c (p + 1) (m(p := c))"

fun set_words :: "nat \<Rightarrow> u32 \<Rightarrow> u32 \<Rightarrow> mem \<Rightarrow> mem" where
  "set_words 0 v p m = m"
| "set_words (Suc w) v p m = set_words w v (p + 4) (store32 m p v)"

text \<open>The prologue \<open>while (n && (p8 & 3))\<close>: remaining count, pointer, memory.\<close>

fun memset_head :: "nat \<Rightarrow> u8 \<Rightarrow> u32 \<Rightarrow> mem \<Rightarrow> nat \<times> u32 \<times> mem" where
  "memset_head 0 c p m = (0, p, m)"
| "memset_head (Suc n) c p m =
     (if p AND 3 \<noteq> 0 then memset_head n c (p + 1) (m(p := c)) else (Suc n, p, m))"

definition memset :: "u32 \<Rightarrow> u8 \<Rightarrow> nat \<Rightarrow> mem \<Rightarrow> mem" where
  "memset s c n m =
     (let val = ucast c;
          val = val OR push_bit 8 val;
          val = val OR push_bit 16 val;
          (n, p8, m) = memset_head n c s m;
          w = n div 4;
          m = set_words w val p8 m
      in set_bytes (n mod 4) c (p8 + of_nat (4 * w)) m)"

lemma set_bytes_add: "set_bytes (a + b) c p m = set_bytes b c (p + of_nat a) (set_bytes a c p m)"
  by (induction a arbitrary: p m) (auto simp: algebra_simps)

lemma splat_bytes:
  fixes c :: u8
  defines "v \<equiv> ((ucast c OR push_bit 8 (ucast c)) OR push_bit 16 (ucast c OR push_bit 8 (ucast c)) :: u32)"
  shows "ucast v = c" "ucast (drop_bit 8 v) = c" "ucast (drop_bit 16 v) = c" "ucast (drop_bit 24 v) = c"
  by (auto intro!: bit_word_eqI simp: v_def bit_simps)

lemma set_words_eq:
  fixes c :: u8
  defines "v \<equiv> ((ucast c OR push_bit 8 (ucast c)) OR push_bit 16 (ucast c OR push_bit 8 (ucast c)) :: u32)"
  shows "set_words w v p m = set_bytes (4 * w) c p m"
proof (induction w arbitrary: p m)
  case (Suc w)
  have "4 * Suc w = 4 + 4 * w" by simp
  moreover have "set_bytes 4 c p m = store32 m p v"
  proof -
    have "set_bytes (Suc (Suc (Suc (Suc 0)))) c p m = m(p := c, p + 1 := c, p + 2 := c, p + 3 := c)"
      by (simp add: add.assoc)
    moreover have "(4::nat) = Suc (Suc (Suc (Suc 0)))" by simp
    ultimately show ?thesis
      using splat_bytes [of c] unfolding store32_def v_def by metis
  qed
  ultimately show ?case
    using Suc.IH [of "p + 4" "store32 m p v"] by (simp only: set_bytes_add set_words.simps) simp
qed simp

lemma memset_head_eq:
  "memset_head n c p m = (n', p', m') \<Longrightarrow>
   \<exists>k. n = k + n' \<and> p' = p + of_nat k \<and> m' = set_bytes k c p m"
proof (induction n c p m rule: memset_head.induct)
  case (2 n c p m)
  show ?case
  proof (cases "p AND 3 \<noteq> 0")
    case True
    with "2.prems" have "memset_head n c (p + 1) (m(p := c)) = (n', p', m')" by simp
    from "2.IH" [OF True this] obtain k
      where "n = k + n'" "p' = p + 1 + of_nat k" "m' = set_bytes k c (p + 1) (m(p := c))" by blast
    then show ?thesis by (intro exI [of _ "Suc k"]) (simp add: algebra_simps)
  next
    case False
    with 2 show ?thesis by (intro exI [of _ 0]) simp
  qed
qed simp

lemma memset_bytes: "memset s c n m = set_bytes n c s m"
proof -
  obtain n' p' m' where h: "memset_head n c s m = (n', p', m')" by (metis prod_cases3)
  from memset_head_eq [OF h] obtain k where k: "n = k + n'" "p' = s + of_nat k" "m' = set_bytes k c s m"
    by blast
  have "memset s c n m = set_bytes (n' mod 4) c (p' + of_nat (4 * (n' div 4))) (set_bytes (4 * (n' div 4)) c p' m')"
    unfolding memset_def h Let_def prod.case set_words_eq ..
  also have "\<dots> = set_bytes n' c p' m'"
    using set_bytes_add [of "4 * (n' div 4)" "n' mod 4" c p' m'] by (simp del: of_nat_mult)
  also have "\<dots> = set_bytes n c s m" using k by (simp add: set_bytes_add)
  finally show ?thesis .
qed

lemma unat_minus_1: "(x :: u32) \<noteq> 0 \<Longrightarrow> unat (x - 1) = unat x - 1"
  by (rule unat_minus_one)

lemma set_bytes_spec:
  "n \<le> 2 ^ 32 \<Longrightarrow> set_bytes n c p m = (\<lambda>a. if unat (a - p) < n then c else m a)"
proof (induction n arbitrary: p m)
  case (Suc n)
  show ?case
  proof
    fix a
    have IH: "set_bytes n c (p + 1) (m(p := c)) a = (if unat (a - (p + 1)) < n then c else (m(p := c)) a)"
      using Suc by (simp add: fun_eq_iff)
    show "set_bytes (Suc n) c p m a = (if unat (a - p) < Suc n then c else m a)"
    proof (cases "a = p")
      case False
      then have "a - p \<noteq> 0" by simp
      then have "unat (a - (p + 1)) = unat (a - p) - 1" "unat (a - p) > 0"
        using unat_minus_1 [of "a - p"] by (simp_all add: algebra_simps unat_gt_0)
      with IH False show ?thesis by auto
    qed (use IH in auto)
  qed
qed simp

lemma memset_spec:
  "n \<le> 2 ^ 32 \<Longrightarrow> memset s c n m = (\<lambda>a. if unat (a - s) < n then c else m a)"
  by (simp add: memset_bytes set_bytes_spec)

section \<open>memcpy and memmove\<close>

fun copy_up :: "nat \<Rightarrow> u32 \<Rightarrow> u32 \<Rightarrow> mem \<Rightarrow> mem" where
  "copy_up 0 d s m = m"
| "copy_up (Suc n) d s m = copy_up n (d + 1) (s + 1) (m(d := m s))"

fun copy_words :: "nat \<Rightarrow> u32 \<Rightarrow> u32 \<Rightarrow> mem \<Rightarrow> mem" where
  "copy_words 0 d s m = m"
| "copy_words (Suc w) d s m = copy_words w (d + 4) (s + 4) (store32 m d (load32 m s))"

text \<open>The prologue of \<open>memcpy\<close>: remaining count, both pointers, memory.\<close>

fun memcpy_head :: "nat \<Rightarrow> u32 \<Rightarrow> u32 \<Rightarrow> mem \<Rightarrow> nat \<times> u32 \<times> u32 \<times> mem" where
  "memcpy_head 0 d s m = (0, d, s, m)"
| "memcpy_head (Suc n) d s m =
     (if d AND 3 \<noteq> 0 then memcpy_head n (d + 1) (s + 1) (m(d := m s)) else (Suc n, d, s, m))"

definition memcpy :: "u32 \<Rightarrow> u32 \<Rightarrow> nat \<Rightarrow> mem \<Rightarrow> mem" where
  "memcpy dst src n m =
     (if dst AND 3 = src AND 3 then
        (let (n, d8, s8, m) = memcpy_head n dst src m;
             w = n div 4;
             m = copy_words w d8 s8 m
         in copy_up (n mod 4) (d8 + of_nat (4 * w)) (s8 + of_nat (4 * w)) m)
      else copy_up n dst src m)"

text \<open>\<open>while (n--) *--d = *--s\<close>, with both pointers already advanced by \<open>n\<close>.\<close>

fun copy_down :: "nat \<Rightarrow> u32 \<Rightarrow> u32 \<Rightarrow> mem \<Rightarrow> mem" where
  "copy_down 0 d s m = m"
| "copy_down (Suc n) d s m = copy_down n (d - 1) (s - 1) (m(d - 1 := m (s - 1)))"

definition memmove :: "u32 \<Rightarrow> u32 \<Rightarrow> nat \<Rightarrow> mem \<Rightarrow> mem" where
  "memmove dst src n m =
     (if dst = src \<or> n = 0 then m
      else if dst < src then
        (if n \<ge> 4 \<and> dst AND 3 = 0 \<and> src AND 3 = 0 then
           (let w = n div 4; m = copy_words w dst src m
            in copy_up (n mod 4) (dst + of_nat (4 * w)) (src + of_nat (4 * w)) m)
         else copy_up n dst src m)
      else copy_down n (dst + of_nat n) (src + of_nat n) m)"

text \<open>
  A forward copy is safe when the destination does not start inside the part of the source
  still to be read: the wrapped distance from source to destination is 0 or at least the
  length. This covers disjoint ranges as well as a destination below an overlapping source.
\<close>

definition fwd_safe :: "nat \<Rightarrow> u32 \<Rightarrow> u32 \<Rightarrow> bool" where
  "fwd_safe n d s \<longleftrightarrow> d = s \<or> n \<le> unat (d - s)"

definition copied :: "nat \<Rightarrow> u32 \<Rightarrow> u32 \<Rightarrow> mem \<Rightarrow> mem" where
  "copied n d s m = (\<lambda>a. if unat (a - d) < n then m (s + (a - d)) else m a)"

lemma copy_up_add:
  "copy_up (a + b) d s m = copy_up b (d + of_nat a) (s + of_nat a) (copy_up a d s m)"
  by (induction a arbitrary: d s m) (auto simp: algebra_simps)

lemma fwd_safe_mono: "fwd_safe n d s \<Longrightarrow> k \<le> n \<Longrightarrow> fwd_safe k d s"
  by (auto simp: fwd_safe_def)

lemma copy_up_spec:
  "n \<le> 2 ^ 32 \<Longrightarrow> fwd_safe n d s \<Longrightarrow> copy_up n d s m = copied n d s m"
proof (induction n arbitrary: d s m)
  case (Suc n)
  have safe: "fwd_safe n (d + 1) (s + 1)"
    using Suc.prems(2) by (auto simp: fwd_safe_def)
  show ?case
  proof
    fix a
    have IH: "copy_up n (d + 1) (s + 1) (m(d := m s)) a =
        (if unat (a - (d + 1)) < n then (m(d := m s)) (s + 1 + (a - (d + 1))) else (m(d := m s)) a)"
      using Suc.IH [OF _ safe] Suc.prems(1) by (simp add: copied_def fun_eq_iff)
    have e: "s + 1 + (a - (d + 1)) = s + (a - d)" by simp
    show "copy_up (Suc n) d s m a = copied (Suc n) d s m a"
    proof (cases "a = d")
      case True
      have "unat (- 1 :: u32) = 2 ^ 32 - 1" by (simp add: unsigned_minus_1_eq_mask mask_eq_exp_minus_1)
      then have "\<not> unat (d - (d + 1)) < n" using Suc.prems(1) by simp
      with True IH show ?thesis by (simp add: copied_def)
    next
      case False
      then have "a - d \<noteq> 0" by simp
      then have u: "unat (a - (d + 1)) = unat (a - d) - 1" "unat (a - d) > 0"
        using unat_minus_1 [of "a - d"] by (simp_all add: algebra_simps unat_gt_0)
      show ?thesis
      proof (cases "unat (a - d) < Suc n")
        case True
        have "s + (a - d) \<noteq> d \<or> d = s"
        proof (rule ccontr)
          assume "\<not> ?thesis"
          then have "a - d = d - s" and "d \<noteq> s" by (auto simp: algebra_simps)
          with True Suc.prems(2) show False by (simp add: fwd_safe_def)
        qed
        with True u IH False show ?thesis by (auto simp: copied_def e)
      next
        case False
        with u IH \<open>a \<noteq> d\<close> show ?thesis by (auto simp: copied_def)
      qed
    qed
  qed
qed (simp add: copied_def)

lemma copy_word_step:
  assumes "fwd_safe 4 d s"
  shows "store32 m d (load32 m s) = copy_up 4 d s m"
proof -
  have four: "copy_up 4 d s m = copy_up (Suc (Suc (Suc (Suc 0)))) d s m"
  proof -
    have "(4 :: nat) = Suc (Suc (Suc (Suc 0)))" by simp
    then show ?thesis by (rule arg_cong)
  qed
  show ?thesis
  proof (cases "s = d")
    case True
    have "copy_up (Suc (Suc (Suc (Suc 0)))) d d m = m" by (simp add: add.assoc)
    moreover have "store32 m d (load32 m d) = m" by (simp add: store32_def load32_bytes)
    ultimately show ?thesis using True four by simp
  next
    case False
    then have u: "4 \<le> unat (d - s)" using assms by (auto simp: fwd_safe_def)
    have ne: "s + 1 \<noteq> d" "s + 2 \<noteq> d" "s + 3 \<noteq> d"
      using u by auto
    have ne': "s + 2 \<noteq> d + 1" "s + 3 \<noteq> d + 1" "s + 3 \<noteq> d + 2"
      using ne by (auto simp: algebra_simps)
    have "copy_up (Suc (Suc (Suc (Suc 0)))) d s m =
        m(d := m s, d + 1 := m (s + 1), d + 2 := m (s + 2), d + 3 := m (s + 3))"
      using ne ne' by (simp add: add.assoc)
    then show ?thesis using four by (simp add: store32_def load32_bytes)
  qed
qed


lemma copy_words_eq:
  "fwd_safe (4 * w) d s \<Longrightarrow> copy_words w d s m = copy_up (4 * w) d s m"
proof (induction w arbitrary: d s m)
  case (Suc w)
  have "fwd_safe 4 d s" "fwd_safe (4 * w) (d + 4) (s + 4)"
    using Suc.prems by (auto simp: fwd_safe_def)
  then have "copy_words (Suc w) d s m = copy_up (4 * w) (d + 4) (s + 4) (copy_up 4 d s m)"
    by (simp add: Suc.IH copy_word_step)
  then show ?case
    using copy_up_add [of 4 "4 * w" d s m] by simp
qed simp

lemma copy_words_tail:
  assumes "fwd_safe n d s"
  shows "copy_up (n mod 4) (d + of_nat (4 * (n div 4))) (s + of_nat (4 * (n div 4)))
           (copy_words (n div 4) d s m) = copy_up n d s m"
proof -
  have "fwd_safe (4 * (n div 4)) d s" using assms by (rule fwd_safe_mono) simp
  then show ?thesis
    using copy_up_add [of "4 * (n div 4)" "n mod 4" d s m] by (simp add: copy_words_eq del: of_nat_mult)
qed

lemma memcpy_head_eq:
  "memcpy_head n d s m = (n', d', s', m') \<Longrightarrow>
   \<exists>k. n = k + n' \<and> d' = d + of_nat k \<and> s' = s + of_nat k \<and> m' = copy_up k d s m"
proof (induction n d s m rule: memcpy_head.induct)
  case (2 n d s m)
  show ?case
  proof (cases "d AND 3 \<noteq> 0")
    case True
    with "2.prems" have "memcpy_head n (d + 1) (s + 1) (m(d := m s)) = (n', d', s', m')" by simp
    from "2.IH" [OF True this] obtain k where "n = k + n'" "d' = d + 1 + of_nat k"
      "s' = s + 1 + of_nat k" "m' = copy_up k (d + 1) (s + 1) (m(d := m s))" by blast
    then show ?thesis by (intro exI [of _ "Suc k"]) (simp add: algebra_simps)
  next
    case False
    with "2.prems" show ?thesis by (intro exI [of _ 0]) simp
  qed
qed simp

lemma memcpy_copy_up:
  assumes "fwd_safe n d s"
  shows "memcpy d s n m = copy_up n d s m"
proof (cases "d AND 3 = s AND 3")
  case True
  obtain n' d' s' m' where h: "memcpy_head n d s m = (n', d', s', m')" by (metis prod_cases4)
  from memcpy_head_eq [OF h] obtain k where k: "n = k + n'" "d' = d + of_nat k" "s' = s + of_nat k"
    "m' = copy_up k d s m" by blast
  have "fwd_safe n' d' s'" using assms k by (auto simp: fwd_safe_def)
  then have "memcpy d s n m = copy_up n' d' s' m'"
    unfolding memcpy_def h Let_def prod.case using True by (simp add: copy_words_tail del: of_nat_mult)
  also have "\<dots> = copy_up n d s m" using k by (simp add: copy_up_add)
  finally show ?thesis .
qed (simp add: memcpy_def)

lemma memcpy_spec:
  "n \<le> 2 ^ 32 \<Longrightarrow> fwd_safe n d s \<Longrightarrow> memcpy d s n m = copied n d s m"
  by (simp add: memcpy_copy_up copy_up_spec)

lemma copy_down_spec:
  "n \<le> 2 ^ 32 \<Longrightarrow> fwd_safe n s d \<Longrightarrow> copy_down n (d + of_nat n) (s + of_nat n) m = copied n d s m"
proof (induction n arbitrary: m)
  case (Suc n)
  let ?N = "of_nat n :: u32"
  have "fwd_safe n s d" using Suc.prems(2) by (rule fwd_safe_mono) simp
  then have IH: "copy_down n (d + ?N) (s + ?N) (m(d + ?N := m (s + ?N))) =
      copied n d s (m(d + ?N := m (s + ?N)))"
    using Suc by simp
  have step: "copy_down (Suc n) (d + of_nat (Suc n)) (s + of_nat (Suc n)) m =
      copied n d s (m(d + ?N := m (s + ?N)))"
    using IH by (simp add: algebra_simps)
  have uN: "unat ?N = n" using Suc.prems(1) by (simp add: unat_of_nat)
  show ?case
    unfolding step
  proof
    fix a
    consider "unat (a - d) < n" | "unat (a - d) = n" | "n < unat (a - d)" by linarith
    then show "copied n d s (m(d + ?N := m (s + ?N))) a = copied (Suc n) d s m a"
    proof cases
      case 1
      have "s + (a - d) \<noteq> d + ?N \<or> d = s"
      proof (rule ccontr)
        assume "\<not> ?thesis"
        then have e: "s - d = ?N - (a - d)" and ne: "s \<noteq> d" by (auto simp: algebra_simps)
        have "unat (?N - (a - d)) \<le> n"
          using 1 uN by (simp add: unat_sub word_le_nat_alt)
        then have "unat (s - d) \<le> n" by (simp only: e)
        with ne Suc.prems(2) show False by (simp add: fwd_safe_def)
      qed
      moreover have "a \<noteq> d + ?N" using 1 uN by auto
      ultimately show ?thesis using 1 by (auto simp: copied_def)
    next
      case 2
      then have "unat (a - d) = unat ?N" using uN by simp
      then have "a - d = ?N" by (rule unsigned_word_eqI)
      then have "a = d + ?N" by (simp add: algebra_simps)
      then show ?thesis using 2 uN by (simp add: copied_def)
    next
      case 3
      then have "a \<noteq> d + ?N" using uN by auto
      then show ?thesis using 3 by (simp add: copied_def)
    qed
  qed
qed (simp add: copied_def)

lemma fwd_safe_below:
  assumes "d < s" "unat s + n \<le> 2 ^ 32"
  shows "fwd_safe n d s"
proof -
  have "unat (d - s) = 2 ^ 32 + unat d - unat s"
    using assms(1) by (simp add: unat_sub_if_size word_size word_less_nat_alt)
  then have "n \<le> unat (d - s)" using assms(2) by linarith
  then show ?thesis by (simp add: fwd_safe_def)
qed

lemma memmove_spec:
  assumes "unat dst + n \<le> 2 ^ 32" "unat src + n \<le> 2 ^ 32"
  shows "memmove dst src n m = copied n dst src m"
proof -
  consider "n = 0 \<or> dst = src" | "n \<noteq> 0" "dst < src" | "n \<noteq> 0" "src < dst" by force
  then show ?thesis
  proof cases
    case 1
    then show ?thesis by (auto simp: memmove_def copied_def)
  next
    case 2
    then have "fwd_safe n dst src" using fwd_safe_below assms by blast
    moreover have "n \<le> 2 ^ 32" using assms by simp
    ultimately show ?thesis
      using 2 by (auto simp: memmove_def copy_words_tail copy_up_spec Let_def simp del: of_nat_mult)
  next
    case 3
    then have "fwd_safe n src dst" using fwd_safe_below assms by blast
    moreover have "n \<le> 2 ^ 32" using assms by simp
    ultimately show ?thesis
      using 3 by (auto simp: memmove_def copy_down_spec)
  qed
qed

section \<open>memcmp\<close>

fun memcmp :: "u32 \<Rightarrow> u32 \<Rightarrow> nat \<Rightarrow> mem \<Rightarrow> int" where
  "memcmp a b 0 m = 0"
| "memcmp a b (Suc n) m =
     (if m a \<noteq> m b then int (unat (m a)) - int (unat (m b)) else memcmp (a + 1) (b + 1) n m)"

lemma memcmp_zero: "memcmp a b n m = 0 \<longleftrightarrow> (\<forall>i < n. m (a + of_nat i) = m (b + of_nat i))"
proof (induction n arbitrary: a b)
  case (Suc n)
  then show ?case
    by (auto simp: less_Suc_eq_0_disj algebra_simps word_uint_eq_iff)
qed simp

section \<open>strlen, four bytes at a time\<close>

text \<open>The zero-byte test \<open>(v - 0x01010101) & ~v & 0x80808080\<close>.\<close>

definition has_zero_byte :: "u32 \<Rightarrow> bool" where
  "has_zero_byte v \<longleftrightarrow> (v - 0x01010101) AND NOT v AND 0x80808080 \<noteq> 0"

text \<open>
  The alignment prologue: \<open>Inl\<close> the length when it meets the NUL, \<open>Inr\<close> the
  aligned pointer otherwise.
\<close>

partial_function (option) strlen_head :: "mem \<Rightarrow> u32 \<Rightarrow> u32 \<Rightarrow> (u32 + u32) option" where
  "strlen_head m s p =
     (if p AND 3 \<noteq> 0 then if m p = 0 then Some (Inl (p - s)) else strlen_head m s (p + 1)
      else Some (Inr p))"

partial_function (option) strlen_words :: "mem \<Rightarrow> u32 \<Rightarrow> u32 option" where
  "strlen_words m w = (if has_zero_byte (load32 m w) then Some w else strlen_words m (w + 4))"

partial_function (option) strlen_tail :: "mem \<Rightarrow> u32 \<Rightarrow> u32 option" where
  "strlen_tail m p = (if m p \<noteq> 0 then strlen_tail m (p + 1) else Some p)"

definition strlen :: "mem \<Rightarrow> u32 \<Rightarrow> u32 option" where
  "strlen m s =
     (case strlen_head m s s of
        None \<Rightarrow> None
      | Some (Inl n) \<Rightarrow> Some n
      | Some (Inr p) \<Rightarrow>
          (case strlen_words m p of
             None \<Rightarrow> None
           | Some w \<Rightarrow> (case strlen_tail m w of None \<Rightarrow> None | Some e \<Rightarrow> Some (e - s))))"

lemma u32_bytes_sum:
  fixes v :: u32
  defines "b0 \<equiv> unat v mod 256" and "b1 \<equiv> unat v div 256 mod 256"
    and "b2 \<equiv> unat v div 65536 mod 256" and "b3 \<equiv> unat v div 16777216"
  shows "unat v = b0 + 256 * b1 + 65536 * b2 + 16777216 * b3" "b0 < 256" "b1 < 256" "b2 < 256" "b3 < 256"
proof -
  have lt: "unat v < 4294967296" using unsigned_less [of v] by simp
  have 1: "unat v = unat v mod 256 + 256 * (unat v div 256)" by simp
  have 2: "unat v div 256 = unat v div 256 mod 256 + 256 * (unat v div 65536)"
    using mod_mult_div_eq [of "unat v div 256" 256] by (simp add: div_mult2_eq [symmetric])
  have 3: "unat v div 65536 = unat v div 65536 mod 256 + 256 * (unat v div 16777216)"
    using mod_mult_div_eq [of "unat v div 65536" 256] by (simp add: div_mult2_eq [symmetric])
  show "unat v = b0 + 256 * b1 + 65536 * b2 + 16777216 * b3"
    unfolding assms using 1 2 3 by linarith
  show "b0 < 256" "b1 < 256" "b2 < 256" "b3 < 256"
    unfolding assms using lt by (simp_all add: less_mult_imp_div_less)
qed

lemma bit_0x80808080: "bit (0x80808080 :: u32) i \<longleftrightarrow> i = 7 \<or> i = 15 \<or> i = 23 \<or> i = 31"
proof -
  have eq: "(0x80808080 :: u32) = push_bit 7 1 OR (push_bit 15 1 OR (push_bit 23 1 OR push_bit 31 1))"
    by simp
  show ?thesis
    unfolding eq bit_or_iff bit_push1 by simp
qed

lemma word_ne_0_bit: "(x :: 'a::len word) \<noteq> 0 \<longleftrightarrow> (\<exists>i < LENGTH('a). bit x i)"
  by (metis bit_0_eq bit_word_eqI bot_apply bot_bool_def)

lemma has_zero_byte_bits:
  "has_zero_byte v \<longleftrightarrow> (\<exists>i \<in> {7, 15, 23, 31}. bit (v - 0x01010101) i \<and> \<not> bit v i)"
proof -
  define x where "x = v - 0x01010101"
  have "has_zero_byte v \<longleftrightarrow> (\<exists>i < 32. bit (x AND (NOT v AND 0x80808080)) i)"
    unfolding has_zero_byte_def x_def [symmetric] using word_ne_0_bit [of "x AND (NOT v AND 0x80808080)"]
    by simp
  also have "\<dots> \<longleftrightarrow> (\<exists>i < 32. bit x i \<and> \<not> bit v i \<and> (i = 7 \<or> i = 15 \<or> i = 23 \<or> i = 31))"
    unfolding bit_and_iff bit_not_iff bit_0x80808080 possible_bit_word by auto
  also have "\<dots> \<longleftrightarrow> (\<exists>i \<in> {7, 15, 23, 31}. bit x i \<and> \<not> bit v i)"
    by (auto intro: exI [of _ 7] exI [of _ 15] exI [of _ 23] exI [of _ 31])
  finally show ?thesis unfolding x_def .
qed
lemma odd_top_of_byte:
  assumes "x div k = c + 256 * r" "(c::nat) < 256"
  shows "odd (x div (k * 128)) \<longleftrightarrow> 128 \<le> c"
proof -
  have "x div (k * 128) = (c + 128 * (2 * r)) div 128"
    using assms(1) by (simp add: div_mult2_eq)
  also have "\<dots> = c div 128 + 2 * r" by simp
  finally have "odd (x div (k * 128)) \<longleftrightarrow> odd (c div 128)" by simp
  moreover have "c div 128 = (if 128 \<le> c then 1 else 0)"
    using assms(2) by (auto simp: div_nat_eqI)
  ultimately show ?thesis by simp
qed

text \<open>The top bit of each byte of a number written in base 256.\<close>

lemma byte_tops:
  assumes "N = b0 + 256 * b1 + 65536 * b2 + 16777216 * (b3 :: nat)"
    and "b0 < 256"
  shows "odd (N div 128) \<longleftrightarrow> 128 \<le> b0"
    and "b1 < 256 \<Longrightarrow> odd (N div 32768) \<longleftrightarrow> 128 \<le> b1"
    and "b1 < 256 \<Longrightarrow> b2 < 256 \<Longrightarrow> odd (N div 8388608) \<longleftrightarrow> 128 \<le> b2"
    and "b1 < 256 \<Longrightarrow> b2 < 256 \<Longrightarrow> b3 < 256 \<Longrightarrow> odd (N div 2147483648) \<longleftrightarrow> 128 \<le> b3"
proof -
  have "N div 1 = b0 + 256 * (b1 + 256 * b2 + 65536 * b3)" using assms(1) by simp
  from odd_top_of_byte [OF this assms(2)] show "odd (N div 128) \<longleftrightarrow> 128 \<le> b0" by simp
  have 1: "N div 256 = b1 + 256 * (b2 + 256 * b3)"
    by (rule nat_div_top [of N b0]) (use assms in simp_all)
  from odd_top_of_byte [OF 1] show "b1 < 256 \<Longrightarrow> odd (N div 32768) \<longleftrightarrow> 128 \<le> b1" by simp
  have 2: "b1 < 256 \<Longrightarrow> N div 65536 = b2 + 256 * b3"
    by (rule nat_div_top [of N "b0 + 256 * b1"]) (use assms in simp_all)
  from odd_top_of_byte [OF 2] show "b1 < 256 \<Longrightarrow> b2 < 256 \<Longrightarrow> odd (N div 8388608) \<longleftrightarrow> 128 \<le> b2" by simp
  have 3: "b1 < 256 \<Longrightarrow> b2 < 256 \<Longrightarrow> N div 16777216 = b3 + 256 * 0"
    by (rule nat_div_top [of N "b0 + 256 * b1 + 65536 * b2"]) (use assms in simp_all)
  from odd_top_of_byte [OF 3]
  show "b1 < 256 \<Longrightarrow> b2 < 256 \<Longrightarrow> b3 < 256 \<Longrightarrow> odd (N div 2147483648) \<longleftrightarrow> 128 \<le> b3" by simp
qed

text \<open>Subtracting one from every byte: without a zero byte nothing is borrowed.\<close>

lemma no_borrow:
  assumes "N = b0 + 256 * b1 + 65536 * b2 + 16777216 * (b3 :: nat)"
    and "0 < b0" "0 < b1" "0 < b2" "0 < b3"
    and "D + 16843009 = N \<or> N < 16843009 \<and> D + 16843009 = N + 4294967296"
  shows "D = (b0 - 1) + 256 * (b1 - 1) + 65536 * (b2 - 1) + 16777216 * (b3 - 1)"
proof -
  obtain c0 c1 c2 c3 where c: "b0 = Suc c0" "b1 = Suc c1" "b2 = Suc c2" "b3 = Suc c3"
    using assms(2-5) by (metis gr0_implies_Suc)
  have "16843009 \<le> N" using assms(1) unfolding c by simp
  then have "D + 16843009 = N" using assms(6) by simp
  then show ?thesis using assms(1) unfolding c by simp
qed

text \<open>The lowest zero byte becomes 255, whatever the bytes above it.\<close>

lemma borrow_0:
  "(D :: nat) + 16843009 = 256 * R \<Longrightarrow> \<exists>r. D = 255 + 256 * r"
  by (rule exI [of _ "R - 65794"]) linarith

lemma borrow_1:
  assumes "(D :: nat) + 16843009 = Suc c0 + 65536 * R" "c0 < 255"
  shows "\<exists>r. D = c0 + 256 * (255 + 256 * r)"
proof -
  have "258 \<le> R" using assms by (intro leI notI) linarith
  then obtain r where "R = 258 + r" using le_Suc_ex by blast
  with assms show ?thesis by (intro exI [of _ r]) simp
qed

lemma borrow_2:
  assumes "(D :: nat) + 16843009 = Suc c0 + 256 * Suc c1 + 16777216 * R" "c0 < 255" "c1 < 255"
  shows "\<exists>r. D = c0 + 256 * c1 + 65536 * (255 + 256 * r)"
proof -
  have "D + 16842752 = c0 + 256 * c1 + 16777216 * R" using assms(1) by simp
  then have "2 \<le> R" using assms(2,3) by (intro leI notI) linarith
  then obtain r where "R = 2 + r" using le_Suc_ex by blast
  with assms show ?thesis by (intro exI [of _ r]) simp
qed

lemma has_zero_byte_cases:
  fixes b0 b1 b2 b3 D N :: nat
  assumes N: "N = b0 + 256 * b1 + 65536 * b2 + 16777216 * b3"
    and b: "b0 < 256" "b1 < 256" "b2 < 256" "b3 < 256"
    and D: "D + 16843009 = N \<or> N < 16843009 \<and> D + 16843009 = N + 4294967296"
  shows "(odd (D div 128) \<and> even (N div 128)) \<or> (odd (D div 32768) \<and> even (N div 32768)) \<or>
      (odd (D div 8388608) \<and> even (N div 8388608)) \<or> (odd (D div 2147483648) \<and> even (N div 2147483648))
      \<longleftrightarrow> b0 = 0 \<or> b1 = 0 \<or> b2 = 0 \<or> b3 = 0" (is "?L = ?R")
proof -
  note NN = byte_tops(1) [OF N b(1)] byte_tops(2) [OF N b(1,2)] byte_tops(3) [OF N b(1-3)] byte_tops(4) [OF N b]
  show ?thesis
  proof (cases ?R)
    case False
    have b': "b0 - 1 < 256" "b1 - 1 < 256" "b2 - 1 < 256" "b3 - 1 < 256" using b by simp_all
    have DD: "D = (b0 - 1) + 256 * (b1 - 1) + 65536 * (b2 - 1) + 16777216 * (b3 - 1)"
      using no_borrow [OF N _ _ _ _ D] False by simp
    note DN = byte_tops(1) [OF DD b'(1)] byte_tops(2) [OF DD b'(1,2)] byte_tops(3) [OF DD b'(1-3)]
      byte_tops(4) [OF DD b']
    have "128 \<le> b - 1 \<Longrightarrow> 128 \<le> b" for b :: nat by simp
    from this [of b0] this [of b1] this [of b2] this [of b3] NN DN have "\<not> ?L" by blast
    with False show ?thesis by blast
  next
    case True
    define e where "e = (if D + 16843009 = N then 0 else (256 :: nat))"
    have e: "D + 16843009 = b0 + 256 * b1 + 65536 * b2 + 16777216 * (b3 + e)"
      using D N by (auto simp: e_def)
    from True consider "b0 = 0" | "b0 > 0" "b1 = 0" | "b0 > 0" "b1 > 0" "b2 = 0"
      | "b0 > 0" "b1 > 0" "b2 > 0" "b3 = 0" by blast
    then have ?L
    proof cases
      case 1
      then have "D + 16843009 = 256 * (b1 + 256 * b2 + 65536 * (b3 + e))" using e by simp
      from borrow_0 [OF this] obtain r where "D div 1 = 255 + 256 * r" by auto
      from odd_top_of_byte [OF this] have "odd (D div 128)" by simp
      with 1 NN(1) show ?thesis by simp
    next
      case 2
      then have "D + 16843009 = Suc (b0 - 1) + 65536 * (b2 + 256 * (b3 + e))" using e by simp
      moreover have "b0 - 1 < 255" using 2 b by simp
      ultimately obtain r where r: "D = (b0 - 1) + 256 * (255 + 256 * r)" using borrow_1 by blast
      have "D div 256 = 255 + 256 * r"
        by (rule nat_div_top [OF r]) (use b in simp)
      from odd_top_of_byte [OF this] have "odd (D div 32768)" by simp
      with 2 NN(2) show ?thesis by simp
    next
      case 3
      then have "D + 16843009 = Suc (b0 - 1) + 256 * Suc (b1 - 1) + 16777216 * (b3 + e)" using e by simp
      moreover have "b0 - 1 < 255" "b1 - 1 < 255" using 3 b by simp_all
      ultimately obtain r where r: "D = (b0 - 1) + 256 * (b1 - 1) + 65536 * (255 + 256 * r)"
        using borrow_2 by blast
      have "D div 65536 = 255 + 256 * r"
        by (rule nat_div_top [OF r]) (use 3 b in linarith)
      from odd_top_of_byte [OF this] have "odd (D div 8388608)" by simp
      with 3 NN(3) show ?thesis by simp
    next
      case 4
      obtain c0 c1 c2 where c: "b0 = Suc c0" "b1 = Suc c1" "b2 = Suc c2"
        using 4(1-3) by (metis gr0_implies_Suc)
      have lt: "c0 \<le> 254" "c1 \<le> 254" "c2 \<le> 254" using b c by simp_all
      have e': "D + 16777216 = c0 + 256 * c1 + 65536 * c2 + 16777216 * e"
        using e 4(4) unfolding c by simp
      then have "e \<noteq> 0" using lt by (intro notI) simp
      then have "e = 256" by (simp add: e_def split: if_splits)
      with e' have DD: "D = (c0 + 256 * c1 + 65536 * c2) + 16777216 * 255" by simp
      have "D div 16777216 = 255 + 256 * 0"
        by (rule nat_div_top [of D "c0 + 256 * c1 + 65536 * c2"]) (use DD lt in simp_all)
      from odd_top_of_byte [OF this] have "odd (D div 2147483648)" by simp
      with 4 NN(4) show ?thesis by simp
    qed
    with True show ?thesis by simp
  qed
qed

lemma has_zero_byte_iff:
  "has_zero_byte v \<longleftrightarrow> unat v mod 256 = 0 \<or> unat v div 256 mod 256 = 0
     \<or> unat v div 65536 mod 256 = 0 \<or> unat v div 16777216 = 0"
proof -
  define D where "D = unat (v - 0x01010101)"
  have D: "D + 16843009 = unat v \<or> unat v < 16843009 \<and> D + 16843009 = unat v + 4294967296"
    unfolding D_def using unsigned_less [of v]
    by (auto simp: unat_sub_if_size word_size word_le_nat_alt)
  have bits: "has_zero_byte v \<longleftrightarrow>
      (odd (D div 128) \<and> even (unat v div 128)) \<or> (odd (D div 32768) \<and> even (unat v div 32768)) \<or>
      (odd (D div 8388608) \<and> even (unat v div 8388608)) \<or> (odd (D div 2147483648) \<and> even (unat v div 2147483648))"
    by (simp add: has_zero_byte_bits bit_word_odd D_def)
  show ?thesis
    unfolding bits using has_zero_byte_cases [OF u32_bytes_sum [of v] D] .
qed

lemma has_zero_byte_load32:
  "has_zero_byte (load32 m p) \<longleftrightarrow> m p = 0 \<or> m (p + 1) = 0 \<or> m (p + 2) = 0 \<or> m (p + 3) = 0"
proof -
  have byte: "unat (ucast (drop_bit k (v :: u32)) :: u8) = unat v div 2 ^ k mod 256" for v k
    by (simp add: unsigned_ucast_eq unat_drop_bit_div take_bit_eq_mod)
  have u: "unat (m p) = unat (load32 m p) mod 256"
    using byte [of 0 "load32 m p"] by (simp add: load32_bytes)
  have u1: "unat (m (p + 1)) = unat (load32 m p) div 256 mod 256"
    using byte [of 8 "load32 m p"] by (simp add: load32_bytes)
  have u2: "unat (m (p + 2)) = unat (load32 m p) div 65536 mod 256"
    using byte [of 16 "load32 m p"] by (simp add: load32_bytes)
  have "unat (load32 m p) div 16777216 < 256"
    using u32_bytes_sum(5) [of "load32 m p"] .
  then have u3: "unat (m (p + 3)) = unat (load32 m p) div 16777216"
    using byte [of 24 "load32 m p"] by (simp add: load32_bytes)
  show ?thesis
    unfolding has_zero_byte_iff by (simp flip: u u1 u2 u3 add: unat_0_iff)
qed

lemma strlen_tail_nul:
  "(\<forall>i < k. m (p + of_nat i) \<noteq> 0) \<Longrightarrow> m (p + of_nat k) = 0 \<Longrightarrow> strlen_tail m p = Some (p + of_nat k)"
proof (induction k arbitrary: p)
  case 0
  then show ?case by (simp add: strlen_tail.simps)
next
  case (Suc k)
  have "m p \<noteq> 0" using Suc.prems(1) by force
  moreover have "strlen_tail m (p + 1) = Some (p + 1 + of_nat k)"
  proof (rule Suc.IH)
    show "\<forall>i<k. m (p + 1 + of_nat i) \<noteq> 0"
    proof (intro allI impI)
      fix i assume "i < k"
      then show "m (p + 1 + of_nat i) \<noteq> 0"
        using Suc.prems(1) [rule_format, of "Suc i"] by (simp add: algebra_simps)
    qed
    show "m (p + 1 + of_nat k) = 0" using Suc.prems(2) by (simp add: algebra_simps)
  qed
  ultimately show ?case by (simp add: strlen_tail.simps [of m p] algebra_simps)
qed

lemma strlen_words_nul:
  "(\<forall>i < k. m (p + of_nat i) \<noteq> 0) \<Longrightarrow> m (p + of_nat k) = 0 \<Longrightarrow>
   strlen_words m p = Some (p + of_nat (4 * (k div 4)))"
proof (induction k arbitrary: p rule: less_induct)
  case (less k)
  show ?case
  proof (cases "k < 4")
    case True
    then have "k = 0 \<or> k = 1 \<or> k = 2 \<or> k = 3" by auto
    then have "has_zero_byte (load32 m p)"
      using less.prems(2) by (auto simp: has_zero_byte_load32)
    then show ?thesis using True by (simp add: strlen_words.simps)
  next
    case False
    have "m (p + of_nat 0) \<noteq> 0" "m (p + of_nat 1) \<noteq> 0" "m (p + of_nat 2) \<noteq> 0" "m (p + of_nat 3) \<noteq> 0"
      using less.prems(1) False by (meson less_le_trans not_less numeral_less_iff zero_less_numeral one_less_numeral_iff semiring_norm)+
    then have nz: "\<not> has_zero_byte (load32 m p)" by (simp add: has_zero_byte_load32)
    have "strlen_words m (p + 4) = Some (p + 4 + of_nat (4 * ((k - 4) div 4)))"
    proof (rule less.IH)
      show "k - 4 < k" using False by simp
      show "\<forall>i<k - 4. m (p + 4 + of_nat i) \<noteq> 0"
      proof (intro allI impI)
        fix i assume "i < k - 4"
        then show "m (p + 4 + of_nat i) \<noteq> 0"
          using less.prems(1) [rule_format, of "i + 4"] by (simp add: algebra_simps)
      qed
      show "m (p + 4 + of_nat (k - 4)) = 0"
        using less.prems(2) False by (simp add: of_nat_diff algebra_simps)
    qed
    moreover have "4 * (k div 4) = 4 + 4 * ((k - 4) div 4)"
      using False by (simp add: le_div_geq)
    ultimately show ?thesis
      using nz by (simp add: strlen_words.simps [of m p] add.assoc del: of_nat_mult)
  qed
qed

lemma and3_cases: "(p :: u32) AND 3 = 0 \<or> (p + 1) AND 3 = 0 \<or> (p + 2) AND 3 = 0 \<or> (p + 3) AND 3 = 0"
proof -
  have m: "(x :: u32) AND 3 = 0 \<longleftrightarrow> unat x mod 4 = 0" for x
  proof -
    have "(3 :: u32) = mask 2" by (simp add: mask_eq_exp_minus_1)
    then have "unat (x AND 3) = unat (take_bit 2 x)" by (simp only: take_bit_eq_mask)
    then have "unat (x AND 3) = unat x mod 4"
      by (simp only: unsigned_take_bit_eq) (simp add: take_bit_eq_mod)
    then show ?thesis by (metis unat_eq_zero)
  qed
  have a: "unat (p + k) mod 4 = (unat p + unat k) mod 4" for k
    by (simp add: unat_word_ariths mod_mod_cancel)
  show ?thesis
    unfolding m a by simp presburger
qed

lemma strlen_head_aligned: "p AND 3 = 0 \<Longrightarrow> strlen_head m s p = Some (Inr p)"
  by (subst strlen_head.simps) simp

lemma strlen_head_unaligned:
  "p AND 3 \<noteq> 0 \<Longrightarrow>
   strlen_head m s p = (if m p = 0 then Some (Inl (p - s)) else strlen_head m s (p + 1))"
  by (subst strlen_head.simps) simp

text \<open>
  The prologue takes at most three steps: it meets the terminator there, or stops aligned
  before it.
\<close>

lemma strlen_head_run:
  assumes "\<forall>i < k. m (s + of_nat i) \<noteq> 0" "m (s + of_nat k) = 0"
  shows "j \<le> k \<Longrightarrow> (s + of_nat (j + d)) AND 3 = 0 \<Longrightarrow>
    strlen_head m s (s + of_nat j) = Some (Inl (of_nat k)) \<or>
    (\<exists>j' \<le> k. strlen_head m s (s + of_nat j) = Some (Inr (s + of_nat j')))"
proof (induction d arbitrary: j)
  case 0
  then have "strlen_head m s (s + of_nat j) = Some (Inr (s + of_nat j))"
    using strlen_head_aligned by simp
  with 0 show ?case by blast
next
  case (Suc d)
  show ?case
  proof (cases "(s + of_nat j) AND 3 = 0")
    case True
    with Suc.prems show ?thesis using strlen_head_aligned by blast
  next
    case unaligned: False
    show ?thesis
    proof (cases "j = k")
      case True
      with strlen_head_unaligned [OF unaligned] assms(2) show ?thesis by simp
    next
      case False
      with Suc.prems have jk: "Suc j \<le> k" by simp
      have "m (s + of_nat j) \<noteq> 0" using assms(1) jk by simp
      then have "strlen_head m s (s + of_nat j) = strlen_head m s (s + of_nat j + 1)"
        using strlen_head_unaligned [OF unaligned] by (simp only: if_False)
      moreover have "s + of_nat j + 1 = s + of_nat (Suc j)" by simp
      moreover have "(s + of_nat (Suc j + d)) AND 3 = 0" using Suc.prems(2) by simp
      ultimately show ?thesis using Suc.IH [OF jk] by (simp only:)
    qed
  qed
qed

lemma strlen_head_nul:
  assumes "\<forall>i < k. m (s + of_nat i) \<noteq> 0" "m (s + of_nat k) = 0"
  shows "strlen_head m s s = Some (Inl (of_nat k)) \<or>
    (\<exists>j \<le> k. strlen_head m s s = Some (Inr (s + of_nat j)))"
proof -
  obtain d :: nat where "(s + of_nat (0 + d)) AND 3 = 0"
    using and3_cases [of s] by (metis add_0 add.right_neutral of_nat_0 of_nat_1 of_nat_numeral)
  from strlen_head_run [OF assms _ this] show ?thesis by simp
qed

text \<open>\<open>strlen\<close> returns the offset of the first NUL.\<close>

lemma strlen_after_head:
  assumes nz: "\<forall>i < k. m (p + of_nat i) \<noteq> 0" and nul: "m (p + of_nat k) = 0"
  obtains w where "strlen_words m p = Some w" "strlen_tail m w = Some (p + of_nat k)"
proof -
  define q where "q = 4 * (k div 4)"
  have q: "q \<le> k" by (simp add: q_def)
  have w: "strlen_words m p = Some (p + of_nat q)"
    unfolding q_def by (rule strlen_words_nul [OF assms])
  have eq: "p + of_nat q + of_nat i = p + of_nat (q + i)" for i
    by (simp add: add.assoc)
  have "strlen_tail m (p + of_nat q) = Some (p + of_nat q + of_nat (k - q))"
  proof (rule strlen_tail_nul)
    show "\<forall>i < k - q. m (p + of_nat q + of_nat i) \<noteq> 0"
      unfolding eq using nz q by (simp del: of_nat_add)
    show "m (p + of_nat q + of_nat (k - q)) = 0"
      unfolding eq using nul q by simp
  qed
  then have "strlen_tail m (p + of_nat q) = Some (p + of_nat k)"
    unfolding eq using q by simp
  with w that show thesis by blast
qed

lemma strlen_spec:
  assumes nz: "\<forall>i < k. m (s + of_nat i) \<noteq> 0" and nul: "m (s + of_nat k) = 0"
  shows "strlen m s = Some (of_nat k)"
  using strlen_head_nul [OF assms]
proof (elim disjE exE conjE)
  assume "strlen_head m s s = Some (Inl (of_nat k))"
  then show ?thesis by (simp add: strlen_def)
next
  fix j assume j: "j \<le> k" and h: "strlen_head m s s = Some (Inr (s + of_nat j))"
  have eq: "s + of_nat j + of_nat i = s + of_nat (j + i)" for i
    by (simp add: add.assoc)
  have "\<forall>i < k - j. m (s + of_nat j + of_nat i) \<noteq> 0"
    unfolding eq using nz j by (simp del: of_nat_add)
  moreover have "m (s + of_nat j + of_nat (k - j)) = 0"
    unfolding eq using nul j by simp
  ultimately obtain w where w: "strlen_words m (s + of_nat j) = Some w"
    "strlen_tail m w = Some (s + of_nat j + of_nat (k - j))"
    using strlen_after_head by blast
  then have "strlen_tail m w = Some (s + of_nat k)"
    unfolding eq using j by simp
  with h w(1) show ?thesis by (simp add: strlen_def)
qed

section \<open>Properties\<close>

text \<open>\<open>memset(s, c, n)\<close>, with its aligned word loop, writes \<open>c\<close> to exactly the \<open>n\<close> bytes from \<open>s\<close> on.\<close>

theorem memset_writes_range:
  "n \<le> 2 ^ 32 \<Longrightarrow> memset s c n m = (\<lambda>a. if unat (a - s) < n then c else m a)"
  by (rule memset_spec)

theorem memset_writes_range_witness:
  "memset 5 7 6 (\<lambda>_. 0) = (\<lambda>a. if unat (a - 5) < 6 then 7 else 0)"
  by (rule memset_writes_range) simp

text \<open>\<open>memmove\<close> copies the source bytes as they were before the call, in either direction and
  with its word loop, for any two ranges, overlapping or not, that do not wrap around the address space.\<close>

theorem memmove_copies:
  assumes "unat dst + n \<le> 2 ^ 32" "unat src + n \<le> 2 ^ 32"
  shows "memmove dst src n m = (\<lambda>a. if unat (a - dst) < n then m (src + (a - dst)) else m a)"
  using memmove_spec [OF assms] by (simp add: copied_def)

theorem memmove_copies_witness:
  "memmove 6 4 5 (\<lambda>a. ucast a) = (\<lambda>a. if unat (a - 6) < 5 then ucast (4 + (a - 6)) else ucast a)"
  by (rule memmove_copies) simp_all

text \<open>the word-at-a-time \<open>strlen\<close> returns the offset of the first NUL byte.\<close>

theorem strlen_first_nul:
  assumes "\<forall>i < k. m (s + of_nat i) \<noteq> 0" and "m (s + of_nat k) = 0"
  shows "strlen m s = Some (of_nat k)"
  by (rule strlen_spec [OF assms])

theorem strlen_first_nul_witness:
  "strlen (\<lambda>a. if a = 8 then 0 else 65) 5 = Some (of_nat 3)"
proof (rule strlen_first_nul)
  show "\<forall>i < 3. (if (5 :: u32) + of_nat i = 8 then 0 else 65) \<noteq> (0 :: u8)"
  proof (intro allI impI)
    fix i :: nat assume "i < 3"
    then have "i = 0 \<or> i = 1 \<or> i = 2" by linarith
    then show "(if (5 :: u32) + of_nat i = 8 then 0 else 65) \<noteq> (0 :: u8)" by auto
  qed
qed simp

end
