(* ===== verification/KString.thy ===== *)
theory KString
  imports Prelude
begin

text \<open>
  The string half of \<open>klib.c\<close>. A C string is the list of its bytes; reading at or past
  the end of the list yields the terminating NUL (\<open>chr\<close>), and a 0 byte inside the list
  ends the string as well, so a whole character array can be passed. Results are lists of the
  bytes written, without the terminator.
\<close>

type_synonym cstr = "u8 list"

text \<open>\<open>*s\<close> for a string pointer.\<close>

fun chr :: "cstr \<Rightarrow> u8" where
  "chr [] = 0"
| "chr (c # s) = c"

text \<open>The bytes of a character array up to its NUL.\<close>

definition cstring :: "u8 list \<Rightarrow> cstr" where
  "cstring = takeWhile (\<lambda>c. c \<noteq> 0)"

lemma cstring_id [simp]: "0 \<notin> set s \<Longrightarrow> cstring s = s"
  unfolding cstring_def takeWhile_eq_all_conv by (metis (full_types))

lemma zero_notin_cstring [simp]: "0 \<notin> set (cstring s)"
  unfolding cstring_def by (metis (mono_tags) set_takeWhileD)

lemma cstring_append_0 [simp]: "0 \<notin> set s \<Longrightarrow> cstring (s @ 0 # t) = s"
  by (induction s) (auto simp: cstring_def)

section \<open>Copying\<close>

text \<open>
  \<open>strncpy\<close>: the copy loop with the count left (the NUL is written without counting),
  then the padding loop \<open>while (--n)\<close>. The result is the bytes written.
\<close>

fun strncpy_loop :: "nat \<Rightarrow> cstr \<Rightarrow> u8 list \<times> nat" where
  "strncpy_loop 0 s = ([], 0)"
| "strncpy_loop (Suc n) s =
     (if chr s = 0 then ([0], Suc n)
      else (let (w, r) = strncpy_loop n (tl s) in (chr s # w, r)))"

definition strncpy :: "cstr \<Rightarrow> nat \<Rightarrow> u8 list" where
  "strncpy src n = (let (w, r) = strncpy_loop n src in if r \<noteq> 0 then w @ replicate (r - 1) 0 else w)"

fun strcpy :: "cstr \<Rightarrow> u8 list" where
  "strcpy [] = [0]"
| "strcpy (c # s) = (if c = 0 then [0] else c # strcpy s)"

definition strcat :: "cstr \<Rightarrow> cstr \<Rightarrow> u8 list" where
  "strcat dst src = cstring dst @ strcpy src"

fun strncat_loop :: "nat \<Rightarrow> cstr \<Rightarrow> u8 list" where
  "strncat_loop 0 s = []"
| "strncat_loop (Suc n) s = (if chr s = 0 then [] else chr s # strncat_loop n (tl s))"

definition strncat :: "cstr \<Rightarrow> cstr \<Rightarrow> nat \<Rightarrow> u8 list" where
  "strncat dst src n = cstring dst @ strncat_loop n src @ [0]"

text \<open>\<open>strdup\<close>, with the outcome of \<open>kmalloc\<close> as an argument.\<close>

definition strdup :: "bool \<Rightarrow> cstr \<Rightarrow> u8 list option" where
  "strdup kmalloc_ok s = (if kmalloc_ok then Some (cstring s @ [0]) else None)"

lemma strncpy_loop_eq:
  "strncpy_loop n s = (if n \<le> length (cstring s) then (take n (cstring s), 0)
     else (cstring s @ [0], n - length (cstring s)))"
proof (induction n s rule: strncpy_loop.induct)
  case (2 n s)
  then show ?case by (cases s) (auto simp: cstring_def)
qed simp

text \<open>Exactly \<open>n\<close> bytes are written: the string, cut at \<open>n\<close> or padded with NULs.\<close>

lemma strncpy_eq: "strncpy src n = take n (cstring src @ replicate n 0)"
proof (cases "n \<le> length (cstring src)")
  case False
  then obtain d where d: "n = length (cstring src) + Suc d"
    by (metis add_Suc_right less_natE not_le_imp_less)
  have "take n (cstring src @ replicate n 0) = cstring src @ take (Suc d) (replicate n 0)"
    using d by simp
  with d show ?thesis by (simp add: strncpy_def strncpy_loop_eq)
qed (simp add: strncpy_def strncpy_loop_eq)

lemma length_strncpy [simp]: "length (strncpy src n) = n"
  by (simp add: strncpy_eq)

lemma strcpy_eq: "strcpy s = cstring s @ [0]"
  by (induction s) (auto simp: cstring_def)

lemma strncat_loop_eq: "strncat_loop n s = take n (cstring s)"
proof (induction n s rule: strncat_loop.induct)
  case (2 n s)
  then show ?case by (cases s) (auto simp: cstring_def)
qed simp

text \<open>A name stored with \<open>strncpy(dst, s, N - 1)\<close> and read back.\<close>

lemma cstring_strncpy: "cstring (strncpy s n @ [0]) = take n (cstring s)"
proof (cases "n \<le> length (cstring s)")
  case True
  have "0 \<notin> set (take n (cstring s))" using zero_notin_cstring in_set_takeD by metis
  with True show ?thesis by (simp add: strncpy_eq)
next
  case False
  then have "take n (cstring s @ replicate n 0) = cstring s @ 0 # replicate (n - length (cstring s) - 1) 0"
    using strncpy_eq [of s n] by (simp add: strncpy_def strncpy_loop_eq)
  with False show ?thesis by (simp add: strncpy_eq)
qed

section \<open>Comparing and searching\<close>

fun strcmp :: "cstr \<Rightarrow> cstr \<Rightarrow> int" where
  "strcmp (a # as) b =
     (if a \<noteq> 0 \<and> a = chr b then strcmp as (tl b) else int (unat a) - int (unat (chr b)))"
| "strcmp [] b = - int (unat (chr b))"

fun strncmp :: "cstr \<Rightarrow> cstr \<Rightarrow> nat \<Rightarrow> int" where
  "strncmp a b 0 = 0"
| "strncmp a b (Suc n) =
     (if chr a \<noteq> 0 \<and> chr a = chr b then strncmp (tl a) (tl b) n
      else int (unat (chr a)) - int (unat (chr b)))"

text \<open>Pointers into the string are offsets.\<close>

fun strchr :: "cstr \<Rightarrow> u8 \<Rightarrow> nat option" where
  "strchr [] c = (if c = 0 then Some 0 else None)"
| "strchr (x # s) c =
     (if x = 0 then (if c = 0 then Some 0 else None)
      else if x = c then Some 0 else map_option Suc (strchr s c))"

fun strrchr_loop :: "cstr \<Rightarrow> u8 \<Rightarrow> nat \<Rightarrow> nat option \<Rightarrow> nat option" where
  "strrchr_loop [] c i l = l"
| "strrchr_loop (x # s) c i l =
     (if x = 0 then l else strrchr_loop s c (Suc i) (if x = c then Some i else l))"

definition strrchr :: "cstr \<Rightarrow> u8 \<Rightarrow> nat option" where
  "strrchr s c = strrchr_loop s c 0 None"

fun strstr_loop :: "cstr \<Rightarrow> cstr \<Rightarrow> nat \<Rightarrow> nat option" where
  "strstr_loop [] n nl = None"
| "strstr_loop (x # h) n nl =
     (if x = 0 then None else if strncmp (x # h) n nl = 0 then Some 0
      else map_option Suc (strstr_loop h n nl))"

definition strstr :: "cstr \<Rightarrow> cstr \<Rightarrow> nat option" where
  "strstr h n = (if chr n = 0 then Some 0 else strstr_loop h n (length (cstring n)))"

fun strrev_loop :: "nat \<Rightarrow> nat \<Rightarrow> u8 list \<Rightarrow> u8 list" where
  "strrev_loop 0 i s = s"
| "strrev_loop (Suc k) i s =
     (let t = s ! i in strrev_loop k (Suc i) (s[i := s ! (length s - 1 - i), length s - 1 - i := t]))"

definition strrev :: "cstr \<Rightarrow> cstr" where
  "strrev s = strrev_loop (length s div 2) 0 s"

text \<open>
  \<open>strsplit_next\<close>: the cursor \<open>*str\<close> is the rest of the string or NULL; the token and
  the new cursor are returned.
\<close>

definition strsplit_next :: "cstr option \<Rightarrow> u8 \<Rightarrow> cstr option \<times> cstr option" where
  "strsplit_next str delim =
     (case str of
        None \<Rightarrow> (None, None)
      | Some s \<Rightarrow>
          (let start = dropWhile (\<lambda>c. c = delim) s
           in if start = [] then (None, None)
              else (let tok = takeWhile (\<lambda>c. c \<noteq> delim) start;
                        rest = dropWhile (\<lambda>c. c \<noteq> delim) start
                    in if rest \<noteq> [] then (Some tok, Some (tl rest)) else (Some tok, None))))"

lemma strcmp_zero: "0 \<notin> set a \<Longrightarrow> 0 \<notin> set b \<Longrightarrow> strcmp a b = 0 \<longleftrightarrow> a = b"
proof (induction a b rule: strcmp.induct)
  case (1 a as b)
  then show ?case by (cases b) (auto simp: uint_0_iff simp flip: word_uint_eq_iff)
next
  case (2 b)
  then show ?case by (cases b) (auto simp: uint_0_iff simp flip: word_uint_eq_iff)
qed

lemma strncmp_zero:
  "0 \<notin> set a \<Longrightarrow> 0 \<notin> set b \<Longrightarrow> strncmp a b n = 0 \<longleftrightarrow> take n a = take n b"
proof (induction a b n rule: strncmp.induct)
  case (2 a b n)
  then show ?case by (cases a; cases b) (auto simp: uint_0_iff simp flip: word_uint_eq_iff)
qed simp

lemma strstr_loop_spec:
  "0 \<notin> set h \<Longrightarrow> 0 \<notin> set n \<Longrightarrow> n \<noteq> [] \<Longrightarrow> strstr_loop h n (length n) = Some i \<longleftrightarrow>
     take (length n) (drop i h) = n \<and> (\<forall>j < i. take (length n) (drop j h) \<noteq> n)"
proof (induction h arbitrary: i)
  case (Cons x h)
  have cmp: "strncmp (x # h) n (length n) = 0 \<longleftrightarrow> take (length n) (x # h) = n"
    using strncmp_zero [of "x # h" n "length n"] Cons.prems by simp
  show ?case
  proof (cases i)
    case 0
    then show ?thesis using Cons.prems cmp by auto
  next
    case (Suc k)
    have "(\<forall>j < Suc k. take (length n) (drop j (x # h)) \<noteq> n) \<longleftrightarrow>
        take (length n) (x # h) \<noteq> n \<and> (\<forall>j < k. take (length n) (drop j h) \<noteq> n)"
      by (auto simp: less_Suc_eq_0_disj)
    then show ?thesis using Suc Cons cmp by auto
  qed
qed auto

lemma strrev_loop_eq:
  "j < length s \<Longrightarrow> i + k = length s div 2 \<Longrightarrow>
   strrev_loop k i s ! j = (if i \<le> j \<and> j < length s - i then s ! (length s - 1 - j) else s ! j)"
proof (induction k i s arbitrary: j rule: strrev_loop.induct)
  case (1 i s)
  have "i \<le> j \<Longrightarrow> j < length s - i \<Longrightarrow> length s - 1 - j = j"
    using 1 by simp
  then show ?case by simp
next
  case (2 k i s)
  define L where "L = length s"
  define s' where "s' = s[i := s ! (L - 1 - i), L - 1 - i := s ! i]"
  have len: "length s' = L" by (simp add: s'_def L_def)
  have i: "i < L - 1 - i" using "2.prems" by (simp add: L_def)
  have s': "s' ! m = (if m = i then s ! (L - 1 - i) else if m = L - 1 - i then s ! i else s ! m)"
    if "m < L" for m
    using that i by (simp add: s'_def L_def nth_list_update)
  have j: "j < L" using "2.prems" by (simp add: L_def)
  have "strrev_loop k (Suc i) s' ! j =
      (if Suc i \<le> j \<and> j < L - Suc i then s' ! (L - 1 - j) else s' ! j)"
    using "2.IH" [of "s ! i" j] "2.prems" len by (simp add: s'_def L_def)
  also have "\<dots> = (if i \<le> j \<and> j < L - i then s ! (L - 1 - j) else s ! j)"
  proof -
    consider "j < i" | "j = i" | "i < j" "j < L - Suc i" | "j = L - 1 - i" | "L - i \<le> j"
      using j i by linarith
    then show ?thesis
    proof cases
      case 3
      then have "L - 1 - j \<noteq> i" "L - 1 - j \<noteq> L - 1 - i" "L - 1 - j < L" by linarith+
      then have "s' ! (L - 1 - j) = s ! (L - 1 - j)" using s' by presburger
      moreover have "i \<le> j" "j < L - i" "Suc i \<le> j" using 3 by linarith+
      ultimately show ?thesis using 3 by presburger
    next
      case 4
      then have m: "L - 1 - j = i" "j \<noteq> i" using i by linarith+
      have np: "\<not> (Suc i \<le> j \<and> j < L - Suc i)" and q: "i \<le> j \<and> j < L - i" using 4 i j by linarith+
      have "s' ! j = s ! i" using s' [OF j] m(2) 4 by presburger
      then show ?thesis unfolding if_not_P [OF np] if_P [OF q] m(1) .
    next
      case 1
      then have np: "\<not> (Suc i \<le> j \<and> j < L - Suc i)" "\<not> (i \<le> j \<and> j < L - i)" "j \<noteq> i" "j \<noteq> L - 1 - i"
        using i by linarith+
      then have "s' ! j = s ! j" using s' [OF j] by presburger
      then show ?thesis unfolding if_not_P [OF np(1)] if_not_P [OF np(2)] .
    next
      case 2
      then have np: "\<not> (Suc i \<le> j \<and> j < L - Suc i)" and q: "i \<le> j \<and> j < L - i" using i by linarith+
      have "s' ! j = s ! (L - 1 - j)" using s' [OF j] 2 by presburger
      then show ?thesis unfolding if_not_P [OF np] if_P [OF q] .
    next
      case 5
      then have np: "\<not> (Suc i \<le> j \<and> j < L - Suc i)" "\<not> (i \<le> j \<and> j < L - i)" "j \<noteq> i" "j \<noteq> L - 1 - i"
        using i by linarith+
      then have "s' ! j = s ! j" using s' [OF j] by presburger
      then show ?thesis unfolding if_not_P [OF np(1)] if_not_P [OF np(2)] .
    qed
  qed
  finally show ?case by (simp add: Let_def L_def s'_def)
qed

lemma length_strrev_loop: "length (strrev_loop k i s) = length s"
  by (induction k i s rule: strrev_loop.induct) (simp_all add: Let_def)

lemma strrev_eq: "strrev s = rev s"
  by (rule nth_equalityI)
    (auto simp: strrev_def length_strrev_loop strrev_loop_eq rev_nth)

text \<open>
  All tokens of a string, by repeated calls of \<open>strsplit_next\<close>; each call consumes at
  least one byte, so the length of the string bounds the number of calls.
\<close>

fun strsplit_all :: "nat \<Rightarrow> cstr option \<Rightarrow> u8 \<Rightarrow> cstr list" where
  "strsplit_all 0 str d = []"
| "strsplit_all (Suc f) str d =
     (case strsplit_next str d of
        (None, _) \<Rightarrow> []
      | (Some tok, str') \<Rightarrow> tok # strsplit_all f str' d)"

text \<open>The maximal runs of bytes other than the delimiter.\<close>

fun tokens :: "u8 \<Rightarrow> cstr \<Rightarrow> cstr \<Rightarrow> cstr list" where
  "tokens d acc [] = (if acc = [] then [] else [acc])"
| "tokens d acc (c # s) =
     (if c = d then (if acc = [] then tokens d [] s else acc # tokens d [] s)
      else tokens d (acc @ [c]) s)"

lemma tokens_skip: "tokens d [] s = tokens d [] (dropWhile (\<lambda>c. c = d) s)"
  by (induction s) auto

lemma tokens_take:
  "tokens d acc s = (let tok = acc @ takeWhile (\<lambda>c. c \<noteq> d) s; rest = dropWhile (\<lambda>c. c \<noteq> d) s
     in if tok = [] then tokens d [] (tl rest) else tok # tokens d [] (tl rest))"
  by (induction d acc s rule: tokens.induct) (auto simp: Let_def)

lemma length_dropWhile_tl: "s \<noteq> [] \<Longrightarrow> length (tl (dropWhile P s)) < length s"
proof -
  assume "s \<noteq> []"
  then have "0 < length s" by simp
  moreover have "length (dropWhile P s) \<le> length s" by (rule length_dropWhile_le)
  ultimately show ?thesis unfolding length_tl by linarith
qed

text \<open>Repeated calls yield the tokens, in order, and stop.\<close>

lemma strsplit_all_tokens: "length s < f \<Longrightarrow> strsplit_all f (Some s) d = tokens d [] s"
proof (induction f arbitrary: s)
  case (Suc f)
  define start where "start = dropWhile (\<lambda>c. c = d) s"
  have tok: "tokens d [] s = tokens d [] start" unfolding start_def by (rule tokens_skip)
  show ?case
  proof (cases "start = []")
    case True
    with tok show ?thesis by (simp add: strsplit_next_def start_def [symmetric])
  next
    case False
    then have hd: "hd start \<noteq> d" unfolding start_def by (rule hd_dropWhile)
    define w rest where "w = takeWhile (\<lambda>c. c \<noteq> d) start" and "rest = dropWhile (\<lambda>c. c \<noteq> d) start"
    have w: "w \<noteq> []" using hd False by (cases start) (auto simp: w_def)
    have split: "tokens d [] start = w # tokens d [] (tl rest)"
      using tokens_take [of d "[]" start] w by (simp add: w_def rest_def Let_def)
    have "length start \<le> length s" unfolding start_def by (rule length_dropWhile_le)
    moreover have "length (tl rest) < length start"
      unfolding rest_def by (rule length_dropWhile_tl [OF False])
    ultimately have "length (tl rest) < f" using Suc.prems by linarith
    then have IH: "strsplit_all f (Some (tl rest)) d = tokens d [] (tl rest)" by (rule Suc.IH)
    have nx: "strsplit_next (Some s) d = (Some w, if rest \<noteq> [] then Some (tl rest) else None)"
      using False by (simp add: strsplit_next_def Let_def w_def rest_def flip: start_def)
    have none: "strsplit_all f None d = []" by (cases f) (simp_all add: strsplit_next_def)
    show ?thesis
      by (cases "rest = []") (simp_all add: nx tok split IH none)
  qed
qed simp

section \<open>Properties\<close>

text \<open>calling \<open>strsplit_next\<close> until it returns NULL yields the maximal runs of bytes other
  than the delimiter, in order; the string's length bounds the number of calls.\<close>

theorem strsplit_yields_tokens:
  "length s < f \<Longrightarrow> strsplit_all f (Some s) d = tokens d [] s"
  by (rule strsplit_all_tokens)

theorem strsplit_yields_tokens_witness:
  "strsplit_all 8 (Some [47, 97, 98, 47, 47, 99]) 47 = tokens 47 [] [47, 97, 98, 47, 47, 99] \<and>
   tokens 47 [] [47, 97, 98, 47, 47, 99] = [[97, 98], [99 :: u8]]"
  using strsplit_yields_tokens [of "[47, 97, 98, 47, 47, 99]" 8 47] by simp

text \<open>\<open>strstr\<close> returns the first offset at which the needle occurs.\<close>

theorem strstr_first_match:
  assumes "0 \<notin> set h" "0 \<notin> set n" "n \<noteq> []"
  shows "strstr h n = Some i \<longleftrightarrow>
    take (length n) (drop i h) = n \<and> (\<forall>j < i. take (length n) (drop j h) \<noteq> n)"
proof -
  have "strstr h n = strstr_loop h n (length n)"
    using assms by (cases n) (auto simp: strstr_def)
  then show ?thesis using strstr_loop_spec [OF assms] by simp
qed

theorem strstr_first_match_witness:
  "strstr [97, 97, 98, 99] [97, 98] = Some 1"
  by (subst strstr_first_match) (simp_all add: All_less_Suc)

text \<open>Two arrays compare equal exactly when they hold the same string.\<close>

lemma strcmp_cstring: "strcmp a b = 0 \<longleftrightarrow> cstring a = cstring b"
proof (induction a b rule: strcmp.induct)
  case (1 a as b)
  then show ?case by (cases b) (auto simp: cstring_def uint_0_iff simp flip: word_uint_eq_iff)
next
  case (2 b)
  then show ?case by (cases b) (auto simp: cstring_def uint_0_iff simp flip: word_uint_eq_iff)
qed

end
