(* ===== verification/KFormat.thy ===== *)
theory KFormat
  imports KString
begin

text \<open>
  Number parsing and printing of \<open>klib.c\<close> (\<open>strtoul\<close>, \<open>uitoa\<close>, \<open>itoa\<close>) and the
  kernel's \<open>vsnprintf\<close>. Characters are written as their ASCII codes. Shown: parsing a printed
  number gives it back in every base, and \<open>vsnprintf\<close> writes exactly the truncated output
  and its terminator, never past \<open>size\<close>.
\<close>

section \<open>Number parsing\<close>

definition char_digit :: "u8 \<Rightarrow> int \<Rightarrow> int" where
  "char_digit c base =
     (let v = (if 48 \<le> c \<and> c \<le> 57 then uint c - 48
               else if 97 \<le> c \<and> c \<le> 122 then uint c - 97 + 10
               else if 65 \<le> c \<and> c \<le> 90 then uint c - 65 + 10 else - 1)
      in if v \<ge> 0 \<and> v < base then v else - 1)"

fun strtoul_loop :: "cstr \<Rightarrow> int \<Rightarrow> u32 \<Rightarrow> u32 \<times> cstr" where
  "strtoul_loop [] base r = (r, [])"
| "strtoul_loop (c # s) base r =
     (let d = char_digit c base
      in if d \<ge> 0 then strtoul_loop s base (r * of_int base + of_int d) else (r, c # s))"

text \<open>The result and the end pointer (the unread rest of the string).\<close>

definition strtoul :: "cstr \<Rightarrow> int \<Rightarrow> u32 \<times> cstr" where
  "strtoul str base =
     (let str = dropWhile (\<lambda>c. c = 32 \<or> c = 9) str;
          (neg, str) = (if chr str = 45 then (True, tl str)
                        else if chr str = 43 then (False, tl str) else (False, str));
          hex = (chr str = 48 \<and> (chr (tl str) = 120 \<or> chr (tl str) = 88));
          (base, str) =
            (if base = 0 then
               (if hex then (16, tl (tl str)) else if chr str = 48 then (8, tl str) else (10, str))
             else if base = 16 \<and> hex then (base, tl (tl str)) else (base, str));
          (r, rest) = strtoul_loop str base 0
      in (if neg then - r else r, rest))"

definition strtol :: "cstr \<Rightarrow> int \<Rightarrow> int \<times> cstr" where
  "strtol str base = (let (r, rest) = strtoul str base in (sint r, rest))"

section \<open>Number formatting\<close>

definition digits_lo :: "u8 list" where
  "digits_lo = [48,49,50,51,52,53,54,55,56,57,97,98,99,100,101,102,103,104,105,106,107,108,109,
     110,111,112,113,114,115,116,117,118,119,120,121,122]"

definition digits_hi :: "u8 list" where
  "digits_hi = [48,49,50,51,52,53,54,55,56,57,65,66,67,68,69,70,71,72,73,74,75,76,77,78,79,80,81,
     82,83,84,85,86,87,88,89,90]"

text \<open>\<open>while (val) { tmp[t++] = d[val % base]; val /= base; }\<close>, least digit first.\<close>

function uitoa_loop :: "u8 list \<Rightarrow> u32 \<Rightarrow> u32 \<Rightarrow> u8 list" where
  "uitoa_loop d base val =
     (if val = 0 \<or> base < 2 then [] else d ! unat (val mod base) # uitoa_loop d base (val div base))"
  by pat_completeness auto
termination
proof (relation "measure (\<lambda>(d, base, val). unat val)", goal_cases)
  case (2 d base val)
  then have "2 \<le> unat base" "0 < unat val"
    by (simp_all add: word_le_nat_alt not_less unat_gt_0)
  then show ?case by (simp add: unat_div)
qed simp

declare uitoa_loop.simps [simp del]

text \<open>The characters written, without the terminator; their number is the return value.\<close>

definition uitoa :: "u32 \<Rightarrow> int \<Rightarrow> bool \<Rightarrow> u8 list" where
  "uitoa val base upper =
     (let d = (if upper then digits_hi else digits_lo)
      in if base < 2 \<or> base > 36 then []
         else if val = 0 then [48]
         else rev (uitoa_loop d (of_int base) val))"

definition itoa :: "u32 \<Rightarrow> u8 list" where
  "itoa val = (if sint val < 0 then 45 # uitoa (- val) 10 False else uitoa val 10 False)"

lemma digits_value:
  assumes "d < 36"
  shows "char_digit (digits_lo ! d) 36 = int d" "char_digit (digits_hi ! d) 36 = int d"
proof -
  have "list_all (\<lambda>d. char_digit (digits_lo ! d) 36 = int d \<and> char_digit (digits_hi ! d) 36 = int d) [0..<36]"
    by code_simp
  then show "char_digit (digits_lo ! d) 36 = int d" "char_digit (digits_hi ! d) 36 = int d"
    using assms by (simp_all add: list_all_iff)
qed

lemma char_digit_base: "char_digit c 36 = int d \<Longrightarrow> int d < base \<Longrightarrow> base \<le> 36 \<Longrightarrow> char_digit c base = int d"
  by (auto simp: char_digit_def Let_def split: if_splits)

lemma char_digit_digits:
  assumes "D = digits_lo \<or> D = digits_hi" "int d < base" "base \<le> 36"
  shows "char_digit (D ! d) base = int d"
proof -
  have "d < 36" using assms(2,3) by linarith
  then have "char_digit (D ! d) 36 = int d" using digits_value assms(1) by blast
  then show ?thesis using assms(2,3) by (rule char_digit_base)
qed

lemma strtoul_loop_digits:
  assumes "D = digits_lo \<or> D = digits_hi" "base \<le> 36"
  shows "\<forall>d \<in> set ds. int d < base \<Longrightarrow>
    strtoul_loop (map (\<lambda>d. D ! d) ds) base r = (foldl (\<lambda>r d. r * of_int base + of_nat d) r ds, [])"
proof (induction ds arbitrary: r)
  case (Cons d ds)
  have "char_digit (D ! d) base = int d"
    using char_digit_digits [OF assms(1) _ assms(2)] Cons.prems by simp
  then show ?case using Cons.IH [of "r * of_int base + of_nat d"] Cons.prems by simp
qed simp

text \<open>The digits as numbers.\<close>

function word_digits :: "u32 \<Rightarrow> u32 \<Rightarrow> nat list" where
  "word_digits base val =
     (if val = 0 \<or> base < 2 then [] else unat (val mod base) # word_digits base (val div base))"
  by pat_completeness auto
termination
proof (relation "measure (\<lambda>(base, val). unat val)", goal_cases)
  case (2 base val)
  then have "2 \<le> unat base" "0 < unat val"
    by (simp_all add: word_le_nat_alt not_less unat_gt_0)
  then show ?case by (simp add: unat_div)
qed simp

declare word_digits.simps [simp del]

lemma uitoa_loop_digits: "uitoa_loop D base val = map (\<lambda>d. D ! d) (word_digits base val)"
proof (induction base val rule: word_digits.induct)
  case (1 base val)
  then show ?case by (simp add: uitoa_loop.simps [of D base val] word_digits.simps [of base val])
qed

lemma word_digits_less: "2 \<le> base \<Longrightarrow> d \<in> set (word_digits base val) \<Longrightarrow> d < unat base"
proof (induction base val rule: word_digits.induct)
  case (1 base val)
  have "unat base \<noteq> 0" using 1(2) by (auto simp: word_le_nat_alt)
  then have "unat (val mod base) < unat base" by (simp add: unat_mod)
  with 1 show ?case
    by (auto simp: word_digits.simps [of base val] split: if_splits)
qed

lemma word_digits_value:
  "2 \<le> base \<Longrightarrow> foldl (\<lambda>r d. r * base + of_nat d) 0 (rev (word_digits base val)) = val"
proof (induction base val rule: word_digits.induct)
  case (1 base val)
  show ?case
  proof (cases "val = 0")
    case False
    then have "foldl (\<lambda>r d. r * base + of_nat d) 0 (rev (word_digits base (val div base))) = val div base"
      using 1 by (simp add: not_less)
    moreover have "val div base * base + val mod base = val" by (rule div_mult_mod_eq)
    ultimately show ?thesis
      using False 1(2) by (simp add: word_digits.simps [of base val] not_less)
  qed (simp add: word_digits.simps)
qed

lemma word_digits_nonempty: "2 \<le> base \<Longrightarrow> val \<noteq> 0 \<Longrightarrow> word_digits base val \<noteq> []"
  by (subst word_digits.simps) (simp add: not_less)

lemma word_digits_top: "2 \<le> base \<Longrightarrow> val \<noteq> 0 \<Longrightarrow> last (word_digits base val) \<noteq> 0"
proof (induction base val rule: word_digits.induct)
  case (1 base val)
  show ?case
  proof (cases "val div base = 0")
    case True
    then have "val mod base = val" using div_mult_mod_eq [of val base] by simp
    moreover have "word_digits base 0 = []" by (simp add: word_digits.simps [of base 0])
    moreover have "\<not> base < 2" "unat val \<noteq> 0" using 1(2,3) by (simp_all add: not_less unat_eq_zero)
    ultimately show ?thesis
      using 1(3) True by (simp add: word_digits.simps [of base val])
  next
    case False
    moreover have "\<not> base < 2" using 1(2) by (simp add: not_less)
    ultimately show ?thesis
      using 1 word_digits_nonempty [of base "val div base"]
      by (simp add: word_digits.simps [of base val])
  qed
qed

lemma digit_not_prefix:
  assumes "d < 36" "D = digits_lo \<or> D = digits_hi"
  shows "D ! d \<noteq> 32" "D ! d \<noteq> 9" "D ! d \<noteq> 45" "D ! d \<noteq> 43" "D ! d = 48 \<longleftrightarrow> d = 0"
proof -
  have "list_all (\<lambda>d. list_all (\<lambda>D. D ! d \<noteq> 32 \<and> D ! d \<noteq> 9 \<and> D ! d \<noteq> 45 \<and> D ! d \<noteq> 43 \<and>
      (D ! d = 48 \<longleftrightarrow> d = 0)) [digits_lo, digits_hi]) [0..<36]"
    by code_simp
  then have *: "\<And>d. d < 36 \<Longrightarrow> list_all (\<lambda>D. D ! d \<noteq> 32 \<and> D ! d \<noteq> 9 \<and> D ! d \<noteq> 45 \<and> D ! d \<noteq> 43 \<and>
      (D ! d = 48 \<longleftrightarrow> d = 0)) [digits_lo, digits_hi]"
    by (simp only: list_all_iff set_upt) simp
  show "D ! d \<noteq> 32" "D ! d \<noteq> 9" "D ! d \<noteq> 45" "D ! d \<noteq> 43" "D ! d = 48 \<longleftrightarrow> d = 0"
    using * [OF assms(1)] assms(2) by auto
qed

lemma strtoul_plain:
  assumes "s = c # s'" "c \<noteq> 32" "c \<noteq> 9" "c \<noteq> 45" "c \<noteq> 43" "c = 48 \<longrightarrow> s' = []" "2 \<le> base"
  shows "strtoul s base = strtoul_loop s base 0"
  using assms by (auto simp: strtoul_def Let_def split: prod.splits)

lemma strtoul_uitoa:
  assumes "2 \<le> base" "base \<le> 36"
  shows "strtoul (uitoa val base upper) base = (val, [])"
proof -
  define D where "D = (if upper then digits_hi else digits_lo)"
  have D: "D = digits_lo \<or> D = digits_hi" by (simp add: D_def)
  define ds where "ds = (if val = 0 then [0] else rev (word_digits (of_int base) val))"
  have ub: "unat (of_int base :: u32) = nat base"
    using assms by (simp add: unsigned_of_int take_bit_int_eq_self)
  have b2: "2 \<le> (of_int base :: u32)" using ub assms by (simp add: word_le_nat_alt)
  have u: "uitoa val base upper = map (\<lambda>d. D ! d) ds"
  proof (cases "val = 0")
    case True
    then show ?thesis
      using assms D by (auto simp: uitoa_def ds_def digits_lo_def digits_hi_def)
  next
    case False
    then show ?thesis
      using assms by (simp add: uitoa_def ds_def D_def uitoa_loop_digits rev_map)
  qed
  have less: "\<forall>d \<in> set ds. int d < base"
    using word_digits_less [OF b2] ub assms by (auto simp: ds_def zless_nat_eq_int_zless)
  have value_ds: "foldl (\<lambda>r d. r * of_int base + of_nat d) 0 ds = val"
    using word_digits_value [OF b2] by (simp add: ds_def)
  have ne: "ds \<noteq> []" using word_digits_nonempty [OF b2] by (simp add: ds_def)
  then obtain d ds' where ds: "ds = d # ds'" by (cases ds) auto
  have d36: "d < 36" using less assms ds by force
  have zero: "d = 0 \<longrightarrow> ds' = []"
  proof (cases "val = 0")
    case True
    then show ?thesis using ds by (simp add: ds_def)
  next
    case False
    have "d = hd (rev (word_digits (of_int base) val))" using ds False by (simp add: ds_def)
    also have "\<dots> = last (word_digits (of_int base) val)" by (simp add: hd_rev)
    finally show ?thesis using word_digits_top [OF b2 False] by simp
  qed
  have "strtoul (map (\<lambda>d. D ! d) ds) base = strtoul_loop (map (\<lambda>d. D ! d) ds) base 0"
    using digit_not_prefix [OF d36 D] zero assms
    by (intro strtoul_plain [where c = "D ! d" and s' = "map (\<lambda>d. D ! d) ds'"]) (simp_all add: ds)
  then show ?thesis
    unfolding u using strtoul_loop_digits [OF D assms(2) less, of 0] value_ds by simp
qed

section \<open>vsnprintf\<close>

text \<open>
  The variadic arguments: a 32-bit value (\<open>int\<close>, \<open>long\<close>, pointer; a \<open>char\<close> is
  passed as one) or a string pointer, possibly NULL. Reading an argument of the other kind, or
  more arguments than were passed, is undefined in C and has no result here.
\<close>

datatype varg = AInt u32 | AStr "cstr option"

fun va_int :: "varg list \<Rightarrow> (u32 \<times> varg list) option" where
  "va_int (AInt v # ap) = Some (v, ap)"
| "va_int _ = None"

fun va_str :: "varg list \<Rightarrow> (cstr option \<times> varg list) option" where
  "va_str (AStr v # ap) = Some (v, ap)"
| "va_str _ = None"

fun fmt_width :: "nat \<Rightarrow> cstr \<Rightarrow> nat \<times> cstr" where
  "fmt_width w [] = (w, [])"
| "fmt_width w (c # s) =
     (if 48 \<le> c \<and> c \<le> 57 then fmt_width (w * 10 + unat (c - 48)) s else (w, c # s))"

text \<open>Padding \<open>for (int i = l; i < w; i++)\<close> before or after the text.\<close>

definition padded :: "bool \<Rightarrow> u8 \<Rightarrow> nat \<Rightarrow> u8 list \<Rightarrow> u8 list" where
  "padded la pc w txt =
     (if la then txt @ replicate (w - length txt) 32 else replicate (w - length txt) pc @ txt)"

text \<open>\<open>"(null)"\<close>\<close>

definition null_text :: cstr where
  "null_text = [40, 110, 117, 108, 108, 41]"

text \<open>The \<open>switch\<close> over the conversion character: what is emitted, and the arguments left.\<close>

definition vsn_conv :: "u8 \<Rightarrow> bool \<Rightarrow> u8 \<Rightarrow> nat \<Rightarrow> varg list \<Rightarrow> (u8 list \<times> varg list) option" where
  "vsn_conv c la pc w ap =
     (if c = 99 then map_option (\<lambda>(v, ap). (padded la 32 w [ucast v], ap)) (va_int ap)
      else if c = 115 then
        map_option (\<lambda>(v, ap). (padded la 32 w (case v of None \<Rightarrow> null_text | Some s \<Rightarrow> cstring s), ap)) (va_str ap)
      else if c = 100 \<or> c = 105 then map_option (\<lambda>(v, ap). (padded la pc w (itoa v), ap)) (va_int ap)
      else if c = 117 then map_option (\<lambda>(v, ap). (padded la pc w (uitoa v 10 False), ap)) (va_int ap)
      else if c = 120 \<or> c = 88 then
        map_option (\<lambda>(v, ap). (padded la pc w (uitoa v 16 (c = 88)), ap)) (va_int ap)
      else if c = 112 then
        map_option (\<lambda>(v, ap). ([48, 120] @ padded False 48 8 (uitoa v 16 False), ap)) (va_int ap)
      else if c = 98 then
        map_option (\<lambda>(v, ap).
          (if la then uitoa v 2 False else padded la pc w (uitoa v 2 False), ap)) (va_int ap)
      else if c = 37 then Some ([37], ap)
      else Some ([37, c], ap))"

text \<open>Flags, width and length modifier of a directive, and the rest of the format.\<close>

definition vsn_flags :: "cstr \<Rightarrow> bool \<times> u8 \<times> nat \<times> cstr" where
  "vsn_flags fmt =
     (let la = (chr fmt = 45);
          fmt = (if la then tl fmt else fmt);
          zero = (chr fmt = 48 \<and> \<not> la);
          fmt = (if zero then tl fmt else fmt);
          w = fst (fmt_width 0 fmt);
          fmt = snd (fmt_width 0 fmt);
          fmt = (if chr fmt = 108 then tl fmt else fmt)
      in (la, if zero then 48 else 32, w, fmt))"

text \<open>
  One directive after its \<open>%\<close>. At the end of the format string the code would read past
  the terminator, so there is no result.
\<close>

definition vsn_directive :: "cstr \<Rightarrow> varg list \<Rightarrow> (u8 list \<times> cstr \<times> varg list) option" where
  "vsn_directive fmt ap =
     (case vsn_flags fmt of (la, pc, w, fmt) \<Rightarrow>
        (case fmt of
           [] \<Rightarrow> None
         | c # fmt \<Rightarrow> map_option (\<lambda>(out, ap). (out, fmt, ap)) (vsn_conv c la pc w ap)))"

lemma fmt_width_length: "length (snd (fmt_width w s)) \<le> length s"
  by (induction w s rule: fmt_width.induct) auto

lemma length_tl_le: "length (tl s) \<le> length s"
  by simp

lemma vsn_flags_length: "vsn_flags fmt = (la, pc, w, fmt') \<Longrightarrow> length fmt' \<le> length fmt"
proof -
  assume d: "vsn_flags fmt = (la, pc, w, fmt')"
  define f1 where "f1 = (if chr fmt = 45 then tl fmt else fmt)"
  define f2 where "f2 = (if chr f1 = 48 \<and> chr fmt \<noteq> 45 then tl f1 else f1)"
  define f3 where "f3 = snd (fmt_width 0 f2)"
  have "length f1 \<le> length fmt" "length f2 \<le> length f1" "length f3 \<le> length f2"
    using fmt_width_length [of 0 f2] by (simp_all add: f1_def f2_def f3_def)
  moreover have "fmt' = (if chr f3 = 108 then tl f3 else f3)"
    using d unfolding vsn_flags_def Let_def f1_def f2_def f3_def prod.inject by blast
  then have "length fmt' \<le> length f3" by simp
  ultimately show ?thesis by linarith
qed

lemma vsn_directive_length:
  assumes "vsn_directive fmt ap = Some (out, fmt', ap')"
  shows "length fmt' < length fmt"
proof -
  obtain la pc w f where f: "vsn_flags fmt = (la, pc, w, f)" by (metis prod_cases4)
  with assms obtain c where "f = c # fmt'"
    unfolding vsn_directive_def by (cases f) auto
  with vsn_flags_length [OF f] show ?thesis by simp
qed

text \<open>All characters passed to \<open>EMIT\<close>, in order.\<close>

function vsn_out :: "cstr \<Rightarrow> varg list \<Rightarrow> u8 list option" where
  "vsn_out fmt ap =
     (case fmt of
        [] \<Rightarrow> Some []
      | c # fmt \<Rightarrow>
          if c \<noteq> 37 then map_option ((#) c) (vsn_out fmt ap)
          else (case vsn_directive fmt ap of
                  None \<Rightarrow> None
                | Some (out, fmt, ap) \<Rightarrow> map_option ((@) out) (vsn_out fmt ap)))"
  by pat_completeness auto
termination
proof (relation "measure (\<lambda>(fmt, ap). length fmt)", goal_cases)
  case (3 fmt ap c fmt' r out y fmt'' ap')
  then show ?case using vsn_directive_length [of fmt' ap out fmt'' ap'] by auto
qed auto

declare vsn_out.simps [simp del]

text \<open>\<open>EMIT(c)\<close>: the buffer is written only below \<open>size - 1\<close>, the position always counts.\<close>

definition emit :: "nat \<Rightarrow> u8 \<Rightarrow> u8 list \<times> nat \<Rightarrow> u8 list \<times> nat" where
  "emit sz c bp = (case bp of (buf, pos) \<Rightarrow> (if pos + 1 < sz then buf[pos := c] else buf, pos + 1))"

definition vsnprintf :: "u8 list \<Rightarrow> nat \<Rightarrow> cstr \<Rightarrow> varg list \<Rightarrow> (u8 list \<times> nat) option" where
  "vsnprintf buf sz fmt ap =
     map_option (\<lambda>out.
        let (buf, pos) = fold (emit sz) out (buf, 0)
        in (if sz > 0 then buf[(if pos < sz then pos else sz - 1) := 0] else buf, pos))
       (vsn_out fmt ap)"

lemma emit_fold:
  assumes "sz \<le> length buf"
  shows "fold (emit sz) out (buf, 0) =
    (take (sz - 1) out @ drop (min (sz - 1) (length out)) buf, length out)"
proof (induction out rule: rev_induct)
  case (snoc c out)
  let ?k = "min (sz - 1) (length out)"
  show ?case
  proof (cases "length out + 1 < sz")
    case True
    then have lt: "length out < length buf" using assms by simp
    have "(out @ drop (length out) buf)[length out := c] = out @ c # drop (Suc (length out)) buf"
      using lt by (simp add: list_update_append Cons_nth_drop_Suc [symmetric])
    moreover have "min (sz - 1) (length out) = length out" "min (sz - 1) (length (out @ [c])) = Suc (length out)"
      "take (sz - 1) out = out" "take (sz - 1) (out @ [c]) = out @ [c]"
      using True by auto
    ultimately show ?thesis using True snoc by (simp add: emit_def)
  next
    case False
    then have "take (sz - 1) (out @ [c]) = take (sz - 1) out" "min (sz - 1) (length (out @ [c])) = ?k"
      by auto
    with False snoc show ?thesis by (simp add: emit_def)
  qed
qed simp

lemma vsnprintf_writes:
  assumes "vsnprintf buf sz fmt ap = Some (buf', n)" "0 < sz" "sz \<le> length buf"
  obtains out where "vsn_out fmt ap = Some out" "n = length out"
    "buf' = take (sz - 1) out @ [0] @ drop (min (sz - 1) n + 1) buf"
proof -
  from assms(1) obtain out where out: "vsn_out fmt ap = Some out"
    by (auto simp: vsnprintf_def)
  let ?k = "min (sz - 1) (length out)"
  have k: "?k < length buf" using assms(2,3) by simp
  have "(if length out < sz then length out else sz - 1) = ?k" using assms(2) by auto
  moreover have "(take (sz - 1) out @ drop ?k buf)[?k := 0] = take (sz - 1) out @ 0 # drop (Suc ?k) buf"
    using k by (simp add: list_update_append min.commute Cons_nth_drop_Suc [symmetric])
  ultimately have "vsnprintf buf sz fmt ap = Some (take (sz - 1) out @ 0 # drop (Suc ?k) buf, length out)"
    using assms(2) out by (simp add: vsnprintf_def emit_fold [OF assms(3)])
  with assms(1) have "buf' = take (sz - 1) out @ [0] @ drop (?k + 1) buf" "n = length out" by auto
  with out that show thesis by blast
qed

text \<open>The number of characters \<open>%b\<close> prints reaches the 32 bytes of \<open>tmp\<close>.\<close>

lemma uitoa_binary_32: "length (uitoa 0x80000000 2 False) = 32"
  by code_simp

text \<open>A format string that ends in \<open>%\<close> is read past its terminator.\<close>

lemma vsnprintf_trailing_percent: "vsnprintf buf sz [37] ap = None"
  by (simp add: vsnprintf_def vsn_out.simps [of "[37]"] vsn_directive_def vsn_flags_def)

section \<open>Properties\<close>

text \<open>\<open>strtoul\<close> reads back what \<open>uitoa\<close> printed, in every base from 2 to 36 and either
  letter case, and consumes all of it.\<close>

theorem strtoul_reads_uitoa:
  assumes "2 \<le> base" "base \<le> 36"
  shows "strtoul (uitoa val base upper) base = (val, [])"
  by (rule strtoul_uitoa [OF assms])

theorem strtoul_reads_uitoa_witness:
  "strtoul (uitoa 0xBEEF 16 True) 16 = (0xBEEF, [])"
  by (rule strtoul_reads_uitoa) simp_all

text \<open>\<open>vsnprintf\<close> stores its output cut to \<open>size - 1\<close> bytes, then the terminator, leaves the
  rest of the buffer alone, and returns the length of the whole output.\<close>

theorem vsnprintf_truncates:
  assumes "vsnprintf buf sz fmt ap = Some (buf', n)" "0 < sz" "sz \<le> length buf"
  shows "\<exists>out. vsn_out fmt ap = Some out \<and> n = length out \<and>
    buf' = take (sz - 1) out @ [0] @ drop (min (sz - 1) n + 1) buf"
  using vsnprintf_writes [OF assms] by metis

lemma vsnprintf_example: "vsnprintf [1, 1, 1, 1] 3 [65, 66, 67] [] = Some ([65, 66, 0, 1], 3)"
  by (simp add: vsnprintf_def vsn_out.simps emit_def)

theorem vsnprintf_truncates_witness:
  "\<exists>out. vsn_out [65, 66, 67] [] = Some out \<and> (3 :: nat) = length out \<and>
    [65, 66, 0, 1] = take (3 - 1) out @ [0] @ drop (min (3 - 1) 3 + 1) [1, 1, 1, 1]"
  by (rule vsnprintf_truncates [OF vsnprintf_example]) simp_all

end
