(* ===== verification/KArith.thy ===== *)
theory KArith
  imports Prelude
begin

text \<open>
  The arithmetic half of \<open>klib.c\<close>: the internet checksum, the byte sum and the 64-bit
  division helpers the compiler calls. Shown: the checksum of a packet that carries its own
  checksum is 0 (what a receiver tests), and the shift-based division is the quotient.
\<close>

section \<open>Checksums\<close>

text \<open>The accumulation loop of \<open>klib_checksum16\<close>, two bytes at a time and an odd last byte.\<close>

fun sum16 :: "u8 list \<Rightarrow> u32 \<Rightarrow> u32" where
  "sum16 (a # b # bs) s = sum16 bs (s + ucast (get16 [a, b] 0))"
| "sum16 [a] s = s + ucast a"
| "sum16 [] s = s"

definition klib_checksum16 :: "u8 list \<Rightarrow> u16" where
  "klib_checksum16 data =
     (let s = sum16 data 0;
          s = drop_bit 16 s + (s AND 0xFFFF);
          s = s + drop_bit 16 s
      in ucast (NOT s))"

fun klib_checksum8_acc :: "u8 list \<Rightarrow> u8 \<Rightarrow> u8" where
  "klib_checksum8_acc [] s = s"
| "klib_checksum8_acc (b # bs) s = klib_checksum8_acc bs (s + b)"

definition klib_checksum8 :: "u8 list \<Rightarrow> u8" where
  "klib_checksum8 data = klib_checksum8_acc data 0"

text \<open>The sum of the 16-bit little-endian words of a buffer, as a number.\<close>

fun word_sum :: "u8 list \<Rightarrow> nat" where
  "word_sum (a # b # bs) = unat a + 256 * unat b + word_sum bs"
| "word_sum [a] = unat a"
| "word_sum [] = 0"

lemma word_sum_bound: "word_sum bs \<le> 65535 * ((length bs + 1) div 2)"
proof (induction bs rule: word_sum.induct)
  case (1 a b bs)
  have "unat a + 256 * unat b \<le> 65535"
    using unat_u8_le [of a] unat_u8_le [of b] by linarith
  with 1 show ?case by simp
next
  case (2 a)
  have "unat a \<le> 65535" using unat_u8_le [of a] by linarith
  then show ?case by simp
qed simp

lemma sum16_eq: "unat s + word_sum bs < 2 ^ 32 \<Longrightarrow> unat (sum16 bs s) = unat s + word_sum bs"
proof (induction bs s rule: sum16.induct)
  case (1 a b bs s)
  have "unat (ucast (get16 [a, b] 0) :: u32) = unat a + 256 * unat b"
    by (simp add: unat_get16)
  with 1 show ?case by (simp add: unat_word_ariths)
next
  case (2 a s)
  then show ?case by (simp add: unat_word_ariths)
qed simp

text \<open>The two folding steps of the code compute the end-around-carry sum.\<close>

definition carry_fold :: "nat \<Rightarrow> nat" where
  "carry_fold S = (let s = S div 65536 + S mod 65536 in (s + s div 65536) mod 65536)"

lemma mod_carry: "t < 65535 \<Longrightarrow> (65537 + t) mod 65536 = Suc t"
proof -
  assume "t < 65535"
  moreover have "65537 + t = Suc t + 65536" by simp
  ultimately show ?thesis by (simp only: mod_add_self2) simp
qed

lemma carry_fold_cong: "S < 2 ^ 32 \<Longrightarrow> carry_fold S mod 65535 = S mod 65535"
proof -
  assume S: "S < 2 ^ 32"
  define h l where "h = S div 65536" and "l = S mod 65536"
  have hl: "S = 65536 * h + l" "h < 65536" "l < 65536"
    using S by (simp_all add: h_def l_def less_mult_imp_div_less)
  define s where "s = h + l"
  have s: "s < 131071" using hl by (simp add: s_def)
  have "(s + s div 65536) mod 65536 mod 65535 = s mod 65535"
  proof (cases "s < 65536")
    case True
    then show ?thesis by simp
  next
    case False
    then have d: "s div 65536 = 1" using s by simp
    obtain t where t: "s = 65536 + t" using False le_Suc_ex [of 65536 s] by auto
    then have "t < 65535" using s by simp
    then have "(s + s div 65536) mod 65536 = Suc t" using d t mod_carry by simp
    moreover have "s mod 65535 = Suc t mod 65535"
    proof -
      have "s = Suc t + 65535" using t by simp
      then show ?thesis by (simp only: mod_add_self2)
    qed
    ultimately show ?thesis by simp
  qed
  moreover have "S mod 65535 = s mod 65535"
  proof -
    have "S = s + h * 65535" using hl by (simp add: s_def)
    then show ?thesis by simp
  qed
  ultimately show ?thesis by (simp add: carry_fold_def Let_def s_def h_def l_def)
qed

lemma carry_fold_bound: "carry_fold S < 65536"
  by (simp add: carry_fold_def Let_def)

lemma carry_fold_pos: "0 < S \<Longrightarrow> S < 2 ^ 32 \<Longrightarrow> 0 < carry_fold S"
proof -
  assume S: "0 < S" "S < 2 ^ 32"
  define h l where "h = S div 65536" and "l = S mod 65536"
  have hl: "S = 65536 * h + l" "h < 65536" "l < 65536"
    using S by (simp_all add: h_def l_def less_mult_imp_div_less)
  then have s: "0 < h + l" "h + l < 131071" using S by auto
  show ?thesis
  proof (cases "h + l < 65536")
    case True
    then show ?thesis using s by (simp add: carry_fold_def Let_def flip: h_def l_def)
  next
    case False
    then obtain t where "h + l = 65536 + t" using le_Suc_ex [of 65536 "h + l"] by auto
    moreover have "(65536 + t) div 65536 = 1" "t < 65535" using s calculation by simp_all
    ultimately have "carry_fold S = Suc t"
      by (simp add: carry_fold_def Let_def mod_carry flip: h_def l_def)
    then show ?thesis by simp
  qed
qed

lemma unat_checksum16:
  assumes "word_sum data < 2 ^ 32"
  shows "unat (klib_checksum16 data) = 65535 - carry_fold (word_sum data)"
proof -
  define s where "s = sum16 data 0"
  have us: "unat s = word_sum data" using sum16_eq [of 0 data] assms by (simp add: s_def)
  have m: "unat (x AND 0xFFFF) = unat x mod 65536" for x :: u32
  proof -
    have "(0xFFFF :: u32) = mask 16" by (simp add: mask_eq_exp_minus_1)
    then have "unat (x AND 0xFFFF) = unat (take_bit 16 x)" by (simp only: take_bit_eq_mask)
    then show ?thesis by (simp only: unsigned_take_bit_eq) (simp add: take_bit_eq_mod)
  qed
  have hi: "unat s div 65536 < 65536"
    using unat_u32_less [of s] by (simp add: less_mult_imp_div_less)
  define t where "t = drop_bit 16 s + (s AND 0xFFFF)"
  have lo: "unat s mod 65536 < 65536" by simp
  have t: "unat t = unat s div 65536 + unat s mod 65536"
    using hi lo by (simp add: t_def unat_word_ariths unat_drop_bit_div m)
  define u where "u = t + drop_bit 16 t"
  have tb: "unat t < 131072" using hi lo t by linarith
  then have "unat t div 65536 < 2" by (simp add: less_mult_imp_div_less)
  then have u: "unat u = unat t + unat t div 65536"
    using tb by (simp add: u_def unat_word_ariths unat_drop_bit_div)
  have "klib_checksum16 data = ucast (NOT u)"
    by (simp add: klib_checksum16_def Let_def s_def t_def u_def)
  also have "\<dots> = NOT (ucast u :: u16)"
    by (rule bit_word_eqI) (simp add: bit_simps)
  finally have "unat (klib_checksum16 data) = 65535 - unat (ucast u :: u16)"
    by (simp only: unat_not_u16)
  also have "unat (ucast u :: u16) = unat u mod 65536"
    by (simp add: unsigned_ucast_eq take_bit_eq_mod)
  also have "\<dots> = carry_fold (word_sum data)"
    by (simp add: carry_fold_def Let_def u t us)
  finally show ?thesis .
qed

lemma word_sum_append: "even (length xs) \<Longrightarrow> word_sum (xs @ ys) = word_sum xs + word_sum ys"
  by (induction xs rule: word_sum.induct) auto

lemma word_sum_bytes16: "word_sum (bytes16 v) = unat v"
proof -
  have "get16 ([] @ bytes16 v @ []) 0 = v" by (rule get16_at) simp
  from arg_cong [OF this, of unat] show ?thesis
    by (simp add: unat_get16 bytes16_def)
qed

text \<open>
  The receiver's test: a packet whose 16-bit aligned checksum field holds the checksum
  computed with that field 0 sums to 0.
\<close>

lemma checksum16_verifies:
  assumes "even (length pre)" "length pre + 2 + length post \<le> 131070"
    and "c = klib_checksum16 (pre @ bytes16 0 @ post)"
  shows "klib_checksum16 (pre @ bytes16 c @ post) = 0"
proof -
  define S where "S = word_sum pre + word_sum post"
  have len: "even (length (pre @ bytes16 v))" for v using assms(1) by simp
  have ws: "word_sum (pre @ bytes16 v @ post) = S + unat v" for v
    using word_sum_append [OF len, of v post] word_sum_append [OF assms(1), of "bytes16 v"]
    by (simp add: S_def word_sum_bytes16)
  have "word_sum (pre @ bytes16 v @ post) \<le> 65535 * 65535" for v
  proof -
    have "(length (pre @ bytes16 v @ post) + 1) div 2 \<le> 65535" using assms(2) by simp
    then show ?thesis using word_sum_bound [of "pre @ bytes16 v @ post"] by linarith
  qed
  then have b: "word_sum (pre @ bytes16 v @ post) < 2 ^ 32" for v
    by (rule order_le_less_trans) simp
  have c: "unat c = 65535 - carry_fold S"
    using unat_checksum16 [OF b [of 0]] ws [of 0] assms(3) by simp
  have F: "carry_fold S \<le> 65535" using carry_fold_bound [of S] by simp
  define T where "T = S + unat c"
  have T32: "T < 2 ^ 32" using b [of c] ws [of c] by (simp add: T_def)
  then have S32: "S < 2 ^ 32" by (simp add: T_def)
  have "T mod 65535 = (carry_fold S mod 65535 + (65535 - carry_fold S)) mod 65535"
    unfolding T_def c using mod_add_left_eq [of S 65535 "65535 - carry_fold S"] carry_fold_cong [OF S32]
    by (simp only:)
  also have "\<dots> = (carry_fold S + (65535 - carry_fold S)) mod 65535"
    by (rule mod_add_left_eq)
  also have "\<dots> = 0" using F by simp
  finally have T0: "T mod 65535 = 0" .
  have "0 < T"
  proof (cases "S = 0")
    case True
    then show ?thesis by (simp add: T_def c carry_fold_def)
  qed (simp add: T_def)
  then have "0 < carry_fold T" "carry_fold T < 65536" "carry_fold T mod 65535 = 0"
    using carry_fold_pos T32 carry_fold_bound carry_fold_cong [OF T32] T0 by simp_all
  then have "carry_fold T = 65535" by (cases "carry_fold T < 65535") simp_all
  then have "unat (klib_checksum16 (pre @ bytes16 c @ post)) = 0"
    using unat_checksum16 [OF b [of c]] ws [of c] by (simp add: T_def)
  then show ?thesis by (simp add: unat_eq_zero)
qed

lemma checksum8_acc: "klib_checksum8_acc bs s = s + sum_list bs"
  by (induction bs arbitrary: s) (simp_all add: add.assoc)

section \<open>64-bit division\<close>

text \<open>
  The normalisation loop of \<open>__udivdi3\<close>: it doubles the divisor until it exceeds the
  dividend or its top bit is set. At most 63 doublings fit in 64 bits, so fuel 64 is enough.
\<close>

fun udiv_norm :: "nat \<Rightarrow> u64 \<Rightarrow> u64 \<Rightarrow> nat \<Rightarrow> u64 \<times> nat" where
  "udiv_norm 0 n d sh = (d, sh)"
| "udiv_norm (Suc f) n d sh =
     (if d \<le> n \<and> d AND push_bit 63 1 = 0 then udiv_norm f n (push_bit 1 d) (Suc sh) else (d, sh))"

text \<open>The loop \<open>for (int i = sh; i >= 0; i--)\<close>.\<close>

fun udiv_loop :: "nat \<Rightarrow> u64 \<Rightarrow> u64 \<Rightarrow> u64 \<Rightarrow> u64" where
  "udiv_loop 0 n d q = (if d \<le> n then q OR push_bit 0 1 else q)"
| "udiv_loop (Suc i) n d q =
     (if d \<le> n then udiv_loop i (n - d) (drop_bit 1 d) (q OR push_bit (Suc i) 1)
      else udiv_loop i n (drop_bit 1 d) q)"

definition udivdi3 :: "u64 \<Rightarrow> u64 \<Rightarrow> u64" where
  "udivdi3 n d =
     (if d = 0 \<or> n < d then (if (d = 0 \<or> n < d) \<and> d \<noteq> 0 then 0 else 1)
      else if d = n then 1
      else (let (d, sh) = udiv_norm 64 n d 0;
                (d, sh) = (if n < d then (drop_bit 1 d, sh - 1) else (d, sh))
            in udiv_loop sh n d 0))"

definition umoddi3 :: "u64 \<Rightarrow> u64 \<Rightarrow> u64" where
  "umoddi3 n d = (if d = 0 then 0 else n - d * udivdi3 n d)"

lemma top_bit_clear: "(d :: u64) AND push_bit 63 1 = 0 \<longleftrightarrow> unat d < 2 ^ 63"
proof -
  have "d AND push_bit 63 1 = 0 \<longleftrightarrow> even (unat d div 2 ^ 63)"
    by (simp only: and_push1 bit_word_odd) simp
  also have "\<dots> \<longleftrightarrow> unat d div 2 ^ 63 = 0"
  proof -
    have "unat d div 2 ^ 63 < 2" using unat_u64_less [of d] by (simp add: less_mult_imp_div_less)
    then show ?thesis by (cases "unat d div 2 ^ 63") auto
  qed
  also have "\<dots> \<longleftrightarrow> unat d < 2 ^ 63" by (simp add: div_eq_0_iff)
  finally show ?thesis .
qed

lemma unat_double: "unat (d :: u64) < 2 ^ 63 \<Longrightarrow> unat (push_bit 1 d) = 2 * unat d"
  by (simp add: push_bit_eq_mult unat_word_ariths)

lemma udiv_norm_spec:
  "udiv_norm f n d sh = (d', sh') \<Longrightarrow> 0 < unat d \<Longrightarrow> 2 ^ 64 \<le> unat d * 2 ^ f \<Longrightarrow> d \<le> n \<Longrightarrow>
   \<exists>k. sh' = sh + k \<and> unat d' = unat d * 2 ^ k \<and>
     (if n < d' then 0 < k \<and> unat d * 2 ^ (k - 1) \<le> unat n else 2 ^ 63 \<le> unat d')"
proof (induction f n d sh rule: udiv_norm.induct)
  case (1 n d sh)
  then show ?case using unat_u64_less [of d] by simp
next
  case (2 f n d sh)
  show ?case
  proof (cases "unat d < 2 ^ 63")
    case True
    then have step: "udiv_norm f n (push_bit 1 d) (Suc sh) = (d', sh')"
      using "2.prems" top_bit_clear [of d] by simp
    have dbl: "unat (push_bit 1 d) = 2 * unat d" by (rule unat_double [OF True])
    show ?thesis
    proof (cases "push_bit 1 d \<le> n")
      case le: True
      have "d \<le> n \<and> d AND push_bit 63 1 = 0" using "2.prems" True top_bit_clear by blast
      moreover have "0 < unat (push_bit 1 d)" "2 ^ 64 \<le> unat (push_bit 1 d) * 2 ^ f"
        unfolding dbl using "2.prems"(2,3) by simp_all
      ultimately obtain k where
        "sh' = Suc sh + k" "unat d' = 2 * unat d * 2 ^ k"
        "if n < d' then 0 < k \<and> 2 * unat d * 2 ^ (k - 1) \<le> unat n else 2 ^ 63 \<le> unat d'"
        using "2.IH" [OF _ step _ _ le] unfolding dbl by blast
      then show ?thesis
        by (intro exI [of _ "Suc k"]) (cases k; auto split: if_splits simp: mult.assoc)
    next
      case False
      then have "udiv_norm f n (push_bit 1 d) (Suc sh) = (push_bit 1 d, Suc sh)"
        by (cases f) auto
      then have "d' = push_bit 1 d" "sh' = Suc sh" using step by simp_all
      moreover have "n < push_bit 1 d" using False by simp
      ultimately show ?thesis
        using dbl "2.prems"(4) by (intro exI [of _ 1]) (simp add: word_le_nat_alt)
    qed
  next
    case False
    then have "d' = d" "sh' = sh" using "2.prems" top_bit_clear [of d] by auto
    with False "2.prems" show ?thesis by (intro exI [of _ 0]) auto
  qed
qed

lemma or_bit_add:
  assumes "2 ^ Suc i dvd unat (q :: u64)" "unat q + 2 ^ Suc i \<le> 2 ^ 64"
  shows "unat (q OR push_bit i 1) = unat q + 2 ^ i"
proof -
  have i: "i < 64"
  proof (rule ccontr)
    assume "\<not> i < 64"
    then have "(2::nat) ^ 65 \<le> 2 ^ Suc i" by (intro power_increasing) auto
    with assms(2) show False by simp
  qed
  obtain c where c: "unat q = 2 ^ Suc i * c" using assms(1) by (auto elim: dvdE)
  have "unat q div 2 ^ i = 2 * c"
    unfolding c by (simp add: mult.assoc mult.left_commute)
  then have "q AND push_bit i 1 = 0"
    by (simp only: and_push1 bit_word_odd) simp
  then have "q OR push_bit i 1 = q + push_bit i 1" by (simp add: disjunctive_add_eq_or)
  moreover have "unat (push_bit i 1 :: u64) = 2 ^ i"
  proof -
    have "(2 :: nat) ^ i < 2 ^ 64" using i by (intro power_strict_increasing) auto
    then show ?thesis
      by (simp only: unsigned_push_bit_eq) (simp add: take_bit_nat_eq_self push_bit_eq_mult i)
  qed
  moreover have "unat q + 2 ^ i < 2 ^ 64"
  proof -
    have "(0 :: nat) < 2 ^ i" by simp
    moreover have "unat q + 2 * 2 ^ i \<le> 2 ^ 64" using assms(2) by simp
    ultimately show ?thesis by linarith
  qed
  ultimately show ?thesis by (simp add: unat_word_ariths)
qed

lemma div_sub_mult: "d0 * k \<le> (n :: nat) \<Longrightarrow> 0 < d0 \<Longrightarrow> (n - d0 * k) div d0 + k = n div d0"
proof -
  assume "d0 * k \<le> n" "0 < d0"
  then obtain t where "n = d0 * k + t" using le_Suc_ex by blast
  then show ?thesis using \<open>0 < d0\<close> by simp
qed

lemma udiv_loop_spec:
  assumes "0 < d0"
  shows "unat d = d0 * 2 ^ i \<Longrightarrow> unat n < 2 * (d0 * 2 ^ i) \<Longrightarrow> 2 ^ Suc i dvd unat q \<Longrightarrow>
    unat q + 2 ^ Suc i \<le> 2 ^ 64 \<Longrightarrow> unat (udiv_loop i n d q) = unat q + unat n div d0"
proof (induction i n d q rule: udiv_loop.induct)
  case (1 n d q)
  have "unat n div d0 = (if d \<le> n then 1 else 0)"
    using 1(1,2) assms by (auto simp: word_le_nat_alt div_nat_eqI)
  with 1 or_bit_add [of 0 q] show ?case by simp
next
  case (2 i n d q)
  have half: "unat (drop_bit 1 d) = d0 * 2 ^ i"
    using "2.prems"(1) by (simp add: unat_drop_bit_div)
  show ?case
  proof (cases "d \<le> n")
    case True
    have sub: "unat (n - d) = unat n - d0 * 2 ^ Suc i"
      using True "2.prems"(1) by (simp add: unat_sub)
    have q: "unat (q OR push_bit (Suc i) 1) = unat q + 2 ^ Suc i"
      using "2.prems"(3,4) by (rule or_bit_add)
    have "unat (udiv_loop i (n - d) (drop_bit 1 d) (q OR push_bit (Suc i) 1)) =
        unat (q OR push_bit (Suc i) 1) + unat (n - d) div d0"
    proof (rule "2.IH"(1) [OF True half])
      show "unat (n - d) < 2 * (d0 * 2 ^ i)" using sub "2.prems"(2) True "2.prems"(1)
        by (simp add: word_le_nat_alt)
      show "2 ^ Suc i dvd unat (q OR push_bit (Suc i) 1)"
        unfolding q using "2.prems"(3) by (metis dvd_add dvd_refl dvd_mult_right power_Suc)
      show "unat (q OR push_bit (Suc i) 1) + 2 ^ Suc i \<le> 2 ^ 64"
        unfolding q using "2.prems"(4) by simp
    qed
    moreover have "d0 * 2 ^ Suc i \<le> unat n" using True "2.prems"(1) by (simp add: word_le_nat_alt)
    ultimately show ?thesis
      using True sub q div_sub_mult [of d0 "2 ^ Suc i" "unat n"] assms by simp
  next
    case False
    have "unat (udiv_loop i n (drop_bit 1 d) q) = unat q + unat n div d0"
    proof (rule "2.IH"(2) [OF False half])
      show "unat n < 2 * (d0 * 2 ^ i)" using False "2.prems"(1) by (simp add: word_le_nat_alt)
      show "2 ^ Suc i dvd unat q" using "2.prems"(3) by (metis dvd_mult_right power_Suc)
      show "unat q + 2 ^ Suc i \<le> 2 ^ 64" using "2.prems"(4) by simp
    qed
    with False show ?thesis by simp
  qed
qed

lemma udivdi3_spec:
  assumes "d \<noteq> 0"
  shows "unat (udivdi3 n d) = unat n div unat d"
proof -
  have pos: "0 < unat d" using assms by (simp add: unat_gt_0)
  consider "n < d" | "n = d" | "d < n" by (rule linorder_cases)
  then show ?thesis
  proof cases
    case 1
    then show ?thesis using assms by (simp add: udivdi3_def word_less_nat_alt)
  next
    case 2
    then show ?thesis using assms pos by (simp add: udivdi3_def)
  next
    case 3
    obtain d' sh' where r: "udiv_norm 64 n d 0 = (d', sh')" by fastforce
    have "2 ^ 64 \<le> unat d * 2 ^ 64" using pos by simp
    moreover have "d \<le> n" using 3 by simp
    ultimately obtain k where
      k: "sh' = k" "unat d' = unat d * 2 ^ k"
        "if n < d' then 0 < k \<and> unat d * 2 ^ (k - 1) \<le> unat n else 2 ^ 63 \<le> unat d'"
      using udiv_norm_spec [OF r pos] by auto
    obtain d'' s where ds: "(if n < d' then (drop_bit 1 d', sh' - 1) else (d', sh')) = (d'', s)"
      by fastforce
    have u: "unat d'' = unat d * 2 ^ s \<and> unat n < 2 * (unat d * 2 ^ s)"
    proof (cases "n < d'")
      case True
      then obtain k' where "k = Suc k'" using k(3) by (cases k) auto
      with True ds k show ?thesis by (auto simp: unat_drop_bit_div word_less_nat_alt)
    next
      case False
      then have "d'' = d'" "s = k" using ds k(1) by simp_all
      moreover have "2 ^ 63 \<le> unat d'" using False k(3) by simp
      moreover have "unat n < 2 * 2 ^ 63" by simp
      ultimately have "unat n < 2 * unat d'" by linarith
      with \<open>d'' = d'\<close> \<open>s = k\<close> k(2) show ?thesis by simp
    qed
    moreover have "(2::nat) ^ Suc s \<le> 2 ^ 64"
    proof (intro power_increasing)
      have "2 ^ s \<le> unat d * 2 ^ s" using pos by simp
      also have "\<dots> = unat d''" using u by simp
      also have "\<dots> < 2 ^ 64" by simp
      finally have "(2::nat) ^ s < 2 ^ 64" .
      then show "Suc s \<le> 64" by (simp only: power_strict_increasing_iff)
    qed simp
    ultimately have "unat (udiv_loop s n d'' 0) = unat n div unat d"
      using udiv_loop_spec [OF pos, of d'' s n 0] by simp
    moreover have "udivdi3 n d = udiv_loop s n d'' 0"
    proof -
      have "\<not> n < d" "d \<noteq> n" using 3 by auto
      with assms show ?thesis by (simp add: udivdi3_def r ds)
    qed
    ultimately show ?thesis by simp
  qed
qed

lemma umoddi3_spec:
  assumes "d \<noteq> 0"
  shows "unat (umoddi3 n d) = unat n mod unat d"
proof -
  have le: "unat d * (unat n div unat d) \<le> unat n" by simp
  then have "unat d * (unat n div unat d) < 2 ^ 64"
    by (rule order_le_less_trans) simp
  then have m: "unat (d * udivdi3 n d) = unat d * (unat n div unat d)"
    by (simp add: unat_word_ariths udivdi3_spec [OF assms])
  then have "d * udivdi3 n d \<le> n" using le by (simp add: word_le_nat_alt)
  then show ?thesis using assms m by (simp add: umoddi3_def unat_sub minus_mult_div_eq_mod)
qed

section \<open>Properties\<close>

text \<open>A packet whose aligned checksum field holds the checksum computed with that field 0 has
  checksum 0, which is the receiver's test.\<close>

theorem checksum16_self_verifies:
  assumes "even (length pre)" "length pre + 2 + length post \<le> 131070"
    and "c = klib_checksum16 (pre @ bytes16 0 @ post)"
  shows "klib_checksum16 (pre @ bytes16 c @ post) = 0"
  by (rule checksum16_verifies [OF assms])

theorem checksum16_self_verifies_witness:
  "klib_checksum16 ([0x45, 0x00] @ bytes16 (klib_checksum16 ([0x45, 0x00] @ bytes16 0 @ [7])) @ [7]) = 0"
  by (rule checksum16_self_verifies) simp_all

text \<open>C13: the shift-and-subtract \<open>__udivdi3\<close> and \<open>__umoddi3\<close> are quotient and remainder for every
  non-zero divisor.\<close>

theorem udivmod_correct:
  assumes "d \<noteq> 0"
  shows "unat (udivdi3 n d) = unat n div unat d \<and> unat (umoddi3 n d) = unat n mod unat d"
  using udivdi3_spec [OF assms] umoddi3_spec [OF assms] by simp

theorem udivmod_correct_witness:
  "unat (udivdi3 1000000 7) = unat (1000000 :: u64) div unat (7 :: u64) \<and>
   unat (umoddi3 1000000 7) = unat (1000000 :: u64) mod unat (7 :: u64)"
  by (rule udivmod_correct) simp

end
