(* ===== verification/Interfaces.thy ===== *)
theory Interfaces
  imports Prelude
begin

text \<open>
  The contracts the kernel's components share, as locales: a bounded FIFO (keyboard, mouse,
  pipe and socket buffers), a keyed table (environment, ARP cache, swap directory) and a table
  with deletion. Clients' consequences are proved once here, from the laws alone; each
  provider's theory interprets the locale on its own definitions. The operation sequences the
  consequences talk about are top-level functions, so that they can be stated without a locale.
\<close>

section \<open>Rings\<close>

text \<open>The \<open>n\<close> elements of a ring from index \<open>start\<close> on.\<close>

definition ring_seg :: "'a list \<Rightarrow> nat \<Rightarrow> nat \<Rightarrow> 'a list" where
  "ring_seg buf start n = map (\<lambda>i. buf ! ((start + i) mod length buf)) [0..<n]"

lemma length_ring_seg [simp]: "length (ring_seg buf start n) = n"
  by (simp add: ring_seg_def)

lemma ring_seg_0 [simp]: "ring_seg buf start 0 = []"
  by (simp add: ring_seg_def)

lemma ring_seg_mod [simp]: "ring_seg buf (start mod length buf) n = ring_seg buf start n"
  by (simp add: ring_seg_def mod_add_left_eq)

lemma ring_seg_Suc: "ring_seg buf start (Suc n) = buf ! (start mod length buf) # ring_seg buf (Suc start) n"
proof -
  have "[0..<Suc n] = 0 # map Suc [0..<n]"
    by (simp add: upt_conv_Cons map_Suc_upt del: upt_Suc)
  then show ?thesis by (simp add: ring_seg_def del: upt_Suc)
qed

lemma mod_offset_inj:
  assumes "i < N" "j < N" "(s + i) mod N = (s + j) mod (N :: nat)"
  shows "i = j"
proof (rule ccontr)
  assume "i \<noteq> j"
  then consider "i < j" | "j < i" by linarith
  then show False
  proof cases
    case 1
    have "(s + j - (s + i)) mod N = 0"
      using assms(3) 1 by (metis mod_eq_dvd_iff_nat nat_add_left_cancel_le less_imp_le mod_0_imp_dvd dvd_imp_mod_0)
    then show False using 1 assms by simp
  next
    case 2
    have "(s + i - (s + j)) mod N = 0"
      using assms(3) 2 by (metis mod_eq_dvd_iff_nat nat_add_left_cancel_le less_imp_le mod_0_imp_dvd dvd_imp_mod_0)
    then show False using 2 assms by simp
  qed
qed

lemma ring_seg_snoc:
  assumes "n < length buf" "w = (start + n) mod length buf"
  shows "ring_seg (buf[w := x]) start (Suc n) = ring_seg buf start n @ [x]"
proof -
  have "0 < length buf" using assms(1) by linarith
  then have w: "w < length buf" using assms(2) by simp
  have "buf[w := x] ! ((start + i) mod length buf) = buf ! ((start + i) mod length buf)" if "i < n" for i
  proof -
    have "(start + i) mod length buf \<noteq> w"
      using that assms mod_offset_inj [of i "length buf" n start] by auto
    then show ?thesis by (metis nth_list_update_neq)
  qed
  then have "map (\<lambda>i. buf[w := x] ! ((start + i) mod length buf)) [0..<n] = ring_seg buf start n"
    by (simp add: ring_seg_def)
  moreover have "buf[w := x] ! ((start + n) mod length buf) = x" using w assms(2) by simp
  ultimately show ?thesis by (simp add: ring_seg_def)
qed

text \<open>Several elements written one after the other.\<close>

fun ring_write :: "'a list \<Rightarrow> nat \<Rightarrow> 'a list \<Rightarrow> 'a list" where
  "ring_write buf w [] = buf"
| "ring_write buf w (x # xs) = ring_write (buf[w mod length buf := x]) (Suc w) xs"

lemma length_ring_write [simp]: "length (ring_write buf w xs) = length buf"
  by (induction xs arbitrary: buf w) simp_all

lemma ring_write_mod: "w mod length buf = w' mod length buf \<Longrightarrow> ring_write buf w xs = ring_write buf w' xs"
proof (induction xs arbitrary: buf w w')
  case (Cons x xs)
  have "Suc w mod length buf = Suc w' mod length buf"
    using Cons.prems by (metis mod_Suc_eq)
  then show ?case using Cons.IH [of "Suc w" "buf[w mod length buf := x]" "Suc w'"] Cons.prems by simp
qed simp

lemma ring_seg_write:
  "n + length xs \<le> length buf \<Longrightarrow> w mod length buf = (start + n) mod length buf \<Longrightarrow>
   ring_seg (ring_write buf w xs) start (n + length xs) = ring_seg buf start n @ xs"
proof (induction xs arbitrary: buf n w)
  case (Cons x xs)
  let ?b = "buf[w mod length buf := x]"
  have "ring_seg ?b start (Suc n) = ring_seg buf start n @ [x]"
    using Cons.prems by (intro ring_seg_snoc) simp_all
  moreover have "Suc w mod length buf = (start + Suc n) mod length buf"
    using Cons.prems(2) by (metis add_Suc_right mod_Suc_eq)
  ultimately show ?case
    using Cons.IH [of "Suc n" ?b "Suc w"] Cons.prems by simp
qed simp

lemma ring_seg_add: "ring_seg buf start (a + b) = ring_seg buf start a @ ring_seg buf (start + a) b"
proof (induction a arbitrary: start)
  case (Suc a)
  then show ?case using Suc.IH [of "Suc start"] by (simp add: ring_seg_Suc)
qed simp

lemma take_ring_seg: "k \<le> n \<Longrightarrow> take k (ring_seg buf start n) = ring_seg buf start k"
  using ring_seg_add [of buf start k "n - k"] by simp

lemma drop_ring_seg: "k \<le> n \<Longrightarrow> drop k (ring_seg buf start n) = ring_seg buf (start + k) (n - k)"
  using ring_seg_add [of buf start k "n - k"] by simp

lemma ring_seg_start_mod:
  "start mod length buf = start' mod length buf \<Longrightarrow> ring_seg buf start n = ring_seg buf start' n"
  using ring_seg_mod by metis

text \<open>Two indices with one slot kept empty: how many elements there are, and the full test.\<close>

definition ring_count :: "nat \<Rightarrow> nat \<Rightarrow> nat \<Rightarrow> nat" where
  "ring_count N rd wr = (wr + N - rd) mod N"

lemma ring_count_less: "0 < N \<Longrightarrow> ring_count N rd wr < N"
  by (simp add: ring_count_def)

lemma ring_count_cases:
  "rd < N \<Longrightarrow> wr < N \<Longrightarrow> ring_count N rd wr = (if rd \<le> wr then wr - rd else wr + N - rd)"
  by (auto simp: ring_count_def mod_if)

lemma ring_count_empty: "rd < N \<Longrightarrow> wr < N \<Longrightarrow> ring_count N rd wr = 0 \<longleftrightarrow> rd = wr"
  by (auto simp: ring_count_cases)

lemma Suc_mod_cases: "i < N \<Longrightarrow> Suc i mod N = (if Suc i = N then 0 else Suc i)"
  by (simp add: mod_Suc)

lemma ring_count_full: "rd < N \<Longrightarrow> wr < N \<Longrightarrow> Suc wr mod N = rd \<longleftrightarrow> ring_count N rd wr = N - 1"
  by (auto simp: ring_count_cases Suc_mod_cases)

lemma ring_count_push:
  "rd < N \<Longrightarrow> wr < N \<Longrightarrow> Suc wr mod N \<noteq> rd \<Longrightarrow> ring_count N rd (Suc wr mod N) = Suc (ring_count N rd wr)"
  by (auto simp: ring_count_cases Suc_mod_cases)

lemma ring_count_pop:
  "rd < N \<Longrightarrow> wr < N \<Longrightarrow> rd \<noteq> wr \<Longrightarrow> ring_count N rd wr = Suc (ring_count N (Suc rd mod N) wr)"
  by (auto simp: ring_count_cases Suc_mod_cases)

lemma ring_wr: "rd < N \<Longrightarrow> wr < N \<Longrightarrow> (rd + ring_count N rd wr) mod N = wr"
  by (auto simp: ring_count_cases)

section \<open>Bounded FIFO\<close>

datatype 'a fifo_op = Push 'a | Pop

text \<open>A run of operations: what each \<open>Pop\<close> returned, and the final state.\<close>

fun fifo_run :: "('a \<Rightarrow> 's \<Rightarrow> 's) \<Rightarrow> ('s \<Rightarrow> ('a \<times> 's) option) \<Rightarrow> 'a fifo_op list \<Rightarrow> 's \<Rightarrow> 'a option list \<times> 's"
where
  "fifo_run psh pp [] s = ([], s)"
| "fifo_run psh pp (Push x # ops) s = fifo_run psh pp ops (psh x s)"
| "fifo_run psh pp (Pop # ops) s =
     (case pp s of
        None \<Rightarrow> (let (out, s') = fifo_run psh pp ops s in (None # out, s'))
      | Some (x, s1) \<Rightarrow> (let (out, s') = fifo_run psh pp ops s1 in (Some x # out, s')))"

text \<open>The specification: a list that drops what does not fit.\<close>

definition queue_push :: "nat \<Rightarrow> 'a \<Rightarrow> 'a list \<Rightarrow> 'a list" where
  "queue_push cap x q = (if length q < cap then q @ [x] else q)"

fun queue_pop :: "'a list \<Rightarrow> ('a \<times> 'a list) option" where
  "queue_pop [] = None"
| "queue_pop (x # q) = Some (x, q)"

locale fifo =
  fixes enq :: "'a \<Rightarrow> 's \<Rightarrow> 's"
    and deq :: "'s \<Rightarrow> ('a \<times> 's) option"
    and contents :: "'s \<Rightarrow> 'a list"
    and cap :: nat
    and inv :: "'s \<Rightarrow> bool"
  assumes inv_enq: "inv s \<Longrightarrow> inv (enq x s)"
    and inv_deq: "inv s \<Longrightarrow> deq s = Some (x, s') \<Longrightarrow> inv s'"
    and contents_enq: "inv s \<Longrightarrow> contents (enq x s) = queue_push cap x (contents s)"
    and deq_None: "inv s \<Longrightarrow> deq s = None \<longleftrightarrow> contents s = []"
    and deq_Some: "inv s \<Longrightarrow> deq s = Some (x, s') \<Longrightarrow> contents s = x # contents s'"
    and contents_cap: "inv s \<Longrightarrow> length (contents s) \<le> cap"
begin

lemma deq_queue:
  "inv s \<Longrightarrow> map_option (\<lambda>(x, s'). (x, contents s')) (deq s) = queue_pop (contents s)"
proof (cases "deq s")
  case None
  assume "inv s"
  then show ?thesis using None deq_None [of s] by simp
next
  case (Some p)
  assume "inv s"
  then show ?thesis using Some deq_Some [of s "fst p" "snd p"] by (cases p) simp
qed

text \<open>Any run returns what the bounded list queue returns, and ends in the same contents.\<close>

lemma run_refines:
  "inv s \<Longrightarrow> (let (out, s') = fifo_run enq deq ops s
     in (out, contents s') = fifo_run (queue_push cap) queue_pop ops (contents s) \<and> inv s')"
proof (induction ops arbitrary: s)
  case (Cons op ops)
  show ?case
  proof (cases op)
    case (Push x)
    then show ?thesis using Cons.IH [OF inv_enq [OF Cons.prems], of x] contents_enq [OF Cons.prems] by simp
  next
    case Pop
    show ?thesis
    proof (cases "deq s")
      case None
      then have "contents s = []" using deq_None Cons.prems by simp
      with Cons.IH [OF Cons.prems] None Pop show ?thesis by (auto split: prod.splits)
    next
      case (Some p)
      obtain x s1 where p: "p = (x, s1)" by (cases p)
      have "contents s = x # contents s1" "inv s1"
        using Some p deq_Some inv_deq Cons.prems by auto
      with Cons.IH [of s1] Some p Pop show ?thesis by (auto split: prod.splits)
    qed
  qed
qed simp

lemma enq_deq_empty: "inv s \<Longrightarrow> contents s = [] \<Longrightarrow> 0 < cap \<Longrightarrow> \<exists>s'. deq (enq x s) = Some (x, s')"
  using inv_enq [of s x] contents_enq [of s x] deq_None [of "enq x s"] deq_Some [of "enq x s"]
  by (cases "deq (enq x s)") (auto simp: queue_push_def)

end

section \<open>Keyed tables\<close>

text \<open>A run of \<open>put\<close>s that all succeed, on a table and on a partial map.\<close>

fun puts :: "('s \<Rightarrow> 'k \<Rightarrow> 'v \<Rightarrow> 's option) \<Rightarrow> 's \<Rightarrow> ('k \<times> 'v) list \<Rightarrow> 's option" where
  "puts put s [] = Some s"
| "puts put s ((k, v) # kvs) = (case put s k v of None \<Rightarrow> None | Some s' \<Rightarrow> puts put s' kvs)"

locale kv_table =
  fixes lookup :: "'s \<Rightarrow> 'k \<Rightarrow> 'v option"
    and store :: "'s \<Rightarrow> 'k \<Rightarrow> 'v \<Rightarrow> 's option"
    and inv :: "'s \<Rightarrow> bool"
    and ok :: "'k \<Rightarrow> bool"
    and norm :: "'v \<Rightarrow> 'v"
  assumes inv_store: "inv s \<Longrightarrow> ok k \<Longrightarrow> store s k v = Some s' \<Longrightarrow> inv s'"
    and lookup_store: "inv s \<Longrightarrow> ok k \<Longrightarrow> ok k' \<Longrightarrow> store s k v = Some s' \<Longrightarrow>
      lookup s' k' = (if k' = k then Some (norm v) else lookup s k')"
    and store_full: "inv s \<Longrightarrow> ok k \<Longrightarrow> store s k v = None \<Longrightarrow> lookup s k = None"
begin

lemma store_existing: "inv s \<Longrightarrow> ok k \<Longrightarrow> lookup s k = Some w \<Longrightarrow> \<exists>s'. store s k v = Some s'"
  using store_full [of s k v] by (cases "store s k v") auto

text \<open>After a run of stores the last value stored under a key is the one found.\<close>

lemma lookup_puts:
  "inv s \<Longrightarrow> \<forall>(k, v) \<in> set kvs. ok k \<Longrightarrow> ok k' \<Longrightarrow> puts store s kvs = Some s' \<Longrightarrow>
   inv s' \<and> lookup s' k' = (case map_of (rev kvs) k' of Some v \<Rightarrow> Some (norm v) | None \<Rightarrow> lookup s k')"
proof (induction kvs arbitrary: s)
  case (Cons kv kvs)
  obtain k v where kv: "kv = (k, v)" by (cases kv)
  with Cons.prems obtain s1 where s1: "store s k v = Some s1" "puts store s1 kvs = Some s'"
    by (auto split: option.splits)
  have ok: "ok k" using Cons.prems kv by simp
  have IH: "inv s' \<and> lookup s' k' = (case map_of (rev kvs) k' of Some v \<Rightarrow> Some (norm v) | None \<Rightarrow> lookup s1 k')"
    using Cons.IH [OF inv_store [OF Cons.prems(1) ok s1(1)] _ Cons.prems(3) s1(2)] Cons.prems(2) by simp
  then show ?case
    using lookup_store [OF Cons.prems(1) ok Cons.prems(3) s1(1)]
    by (auto simp: kv map_add_def split: option.splits)
qed simp

end

locale kv_table_del = kv_table +
  fixes del :: "'s \<Rightarrow> 'k \<Rightarrow> 's option"
  assumes inv_del: "inv s \<Longrightarrow> ok k \<Longrightarrow> del s k = Some s' \<Longrightarrow> inv s'"
    and lookup_del: "inv s \<Longrightarrow> ok k \<Longrightarrow> ok k' \<Longrightarrow> del s k = Some s' \<Longrightarrow>
      lookup s' k' = (if k' = k then None else lookup s k')"
    and del_None: "inv s \<Longrightarrow> ok k \<Longrightarrow> del s k = None \<longleftrightarrow> lookup s k = None"
begin

lemma store_del:
  assumes "inv s" "ok k" "store s k v = Some s1"
  shows "\<exists>s2. del s1 k = Some s2 \<and> lookup s2 k = None"
proof -
  have "inv s1" using inv_store assms by blast
  moreover have "lookup s1 k = Some (norm v)" using lookup_store assms by auto
  ultimately show ?thesis using del_None [of s1 k] lookup_del [of s1 k k] assms(2) by auto
qed

end

section \<open>Page source\<close>

text \<open>\<open>n\<close> allocations in a row; a failed one returns 0.\<close>

fun alloc_many :: "('s \<Rightarrow> u32 \<times> 's) \<Rightarrow> nat \<Rightarrow> 's \<Rightarrow> u32 list \<times> 's" where
  "alloc_many al 0 s = ([], s)"
| "alloc_many al (Suc n) s =
     (let (a, s1) = al s; (as, s2) = alloc_many al n s1 in (a # as, s2))"

locale page_source =
  fixes palloc :: "'s \<Rightarrow> u32 \<times> 's"
    and pfree :: "u32 \<Rightarrow> 's \<Rightarrow> 's"
    and owned :: "'s \<Rightarrow> u32 set"
    and inv :: "'s \<Rightarrow> bool"
  assumes inv_palloc: "inv s \<Longrightarrow> palloc s = (a, s') \<Longrightarrow> inv s'"
    and inv_pfree: "inv s \<Longrightarrow> inv (pfree a s)"
    and palloc_fresh: "inv s \<Longrightarrow> palloc s = (a, s') \<Longrightarrow> a \<noteq> 0 \<Longrightarrow>
      a \<notin> owned s \<and> owned s' = insert a (owned s) \<and> unat a mod 4096 = 0"
    and palloc_none: "inv s \<Longrightarrow> palloc s = (0, s') \<Longrightarrow> owned s' = owned s"
    and pfree_owned: "inv s \<Longrightarrow> a \<in> owned s \<Longrightarrow> a \<noteq> 0 \<Longrightarrow> owned (pfree a s) = owned s - {a}"
begin

lemma palloc_owned: "inv s \<Longrightarrow> palloc s = (a, s') \<Longrightarrow> owned s' = (if a = 0 then owned s else insert a (owned s))"
  using palloc_fresh palloc_none by (cases "a = 0") auto

text \<open>Pages handed out while none is freed are pairwise different, and new.\<close>

lemma alloc_many_distinct:
  "inv s \<Longrightarrow> alloc_many palloc n s = (as, s') \<Longrightarrow>
   inv s' \<and> distinct (filter (\<lambda>a. a \<noteq> 0) as) \<and> set (filter (\<lambda>a. a \<noteq> 0) as) \<inter> owned s = {} \<and>
   owned s' = owned s \<union> set (filter (\<lambda>a. a \<noteq> 0) as)"
proof (induction n arbitrary: s as)
  case (Suc n)
  obtain a s1 where a: "palloc s = (a, s1)" by fastforce
  obtain bs where bs: "alloc_many palloc n s1 = (bs, s')" "as = a # bs"
    using Suc.prems(2) a by (auto split: prod.splits)
  have IH: "inv s' \<and> distinct (filter (\<lambda>a. a \<noteq> 0) bs) \<and> set (filter (\<lambda>a. a \<noteq> 0) bs) \<inter> owned s1 = {} \<and>
      owned s' = owned s1 \<union> set (filter (\<lambda>a. a \<noteq> 0) bs)"
    by (rule Suc.IH [OF inv_palloc [OF Suc.prems(1) a] bs(1)])
  then show ?case
    using palloc_owned [OF Suc.prems(1) a] palloc_fresh [OF Suc.prems(1) a] bs(2) by auto
qed simp

lemma free_alloc_owned: "inv s \<Longrightarrow> palloc s = (a, s') \<Longrightarrow> a \<noteq> 0 \<Longrightarrow> owned (pfree a s') = owned s"
  using palloc_fresh [of s a s'] pfree_owned [of s' a] inv_palloc [of s a s'] by auto

end

end
