(* ===== verification/Keyboard.thy ===== *)
theory Keyboard
  imports Interfaces
begin

text \<open>
  The PS/2 keyboard and mouse drivers (\<open>drivers/keyboard.c\<close>, \<open>drivers/mouse.c\<close>): the
  interrupt handlers as functions of the driver state and the byte the controller delivers, and
  the event queues they feed. Port input is an argument; the log lines are not modelled. Shown:
  both event rings are bounded FIFO queues that drop the newest event when full, and the mouse
  position stays on the screen.
\<close>

section \<open>Keyboard state (keyboard.h)\<close>

record kbd_event =
  ev_scancode :: u8
  ev_ascii :: u8
  ev_modifiers :: u8
  ev_released :: bool

datatype kbd_layout = KBD_LAYOUT_US | KBD_LAYOUT_DE

definition KBD_BUFFER_SIZE :: nat where "KBD_BUFFER_SIZE = 64"

definition KBD_MOD_SHIFT :: u8 where "KBD_MOD_SHIFT = 1"
definition KBD_MOD_CTRL :: u8 where "KBD_MOD_CTRL = 2"
definition KBD_MOD_ALT :: u8 where "KBD_MOD_ALT = 4"
definition KBD_MOD_CAPS :: u8 where "KBD_MOD_CAPS = 8"

record kbd_state =
  kbd_buf :: "kbd_event list"
  kbd_head :: nat
  kbd_tail :: nat
  modifiers :: u8
  layout :: kbd_layout

text \<open>\<open>us_map\<close> and \<open>de_map\<close>: (normal, shifted) for the scancodes 0 to 57; the rest of the 128 entries is 0.\<close>

definition us_map :: "(u8 \<times> u8) list" where
  "us_map = [(0,0), (0,0), (49,33), (50,64), (51,35), (52,36), (53,37), (54,94), (55,38), (56,42),
     (57,40), (48,41), (45,95), (61,43), (8,8), (9,9), (113,81), (119,87), (101,69), (114,82),
     (116,84), (121,89), (117,85), (105,73), (111,79), (112,80), (91,123), (93,125), (10,10), (0,0),
     (97,65), (115,83), (100,68), (102,70), (103,71), (104,72), (106,74), (107,75), (108,76), (59,58),
     (39,34), (96,126), (0,0), (92,124), (122,90), (120,88), (99,67), (118,86), (98,66), (110,78),
     (109,77), (44,60), (46,62), (47,63), (0,0), (42,42), (0,0), (32,32), (0,0)] @ replicate 69 (0,0)"

definition de_map :: "(u8 \<times> u8) list" where
  "de_map = [(0,0), (0,0), (49,33), (50,34), (51,0), (52,36), (53,37), (54,38), (55,47), (56,40),
     (57,41), (48,61), (0,0), (0,0), (8,8), (9,9), (113,81), (119,87), (101,69), (114,82),
     (116,84), (122,90), (117,85), (105,73), (111,79), (112,80), (0,0), (43,42), (10,10), (0,0),
     (97,65), (115,83), (100,68), (102,70), (103,71), (104,72), (106,74), (107,75), (108,76), (0,0),
     (0,0), (94,0), (0,0), (35,39), (121,89), (120,88), (99,67), (118,86), (98,66), (110,78),
     (109,77), (44,59), (46,58), (45,95), (0,0), (42,42), (0,0), (32,32), (0,0)] @ replicate 69 (0,0)"

section \<open>Keyboard operations\<close>

definition kbd_buf_push :: "kbd_event \<Rightarrow> kbd_state \<Rightarrow> kbd_state" where
  "kbd_buf_push ev s =
     (let nxt = (kbd_tail s + 1) mod KBD_BUFFER_SIZE
      in if nxt \<noteq> kbd_head s
         then s\<lparr>kbd_buf := (kbd_buf s)[kbd_tail s := ev], kbd_tail := nxt\<rparr>
         else s)"

definition kbd_buf_pop :: "kbd_state \<Rightarrow> (kbd_event \<times> kbd_state) option" where
  "kbd_buf_pop s =
     (if kbd_head s = kbd_tail s then None
      else Some (kbd_buf s ! kbd_head s, s\<lparr>kbd_head := (kbd_head s + 1) mod KBD_BUFFER_SIZE\<rparr>))"

text \<open>\<open>kbd_poll\<close> and \<open>kbd_has_input\<close>.\<close>

definition kbd_poll :: "kbd_state \<Rightarrow> (kbd_event \<times> kbd_state) option" where
  "kbd_poll s = kbd_buf_pop s"

definition kbd_has_input :: "kbd_state \<Rightarrow> bool" where
  "kbd_has_input s \<longleftrightarrow> kbd_head s \<noteq> kbd_tail s"

definition set_mod :: "bool \<Rightarrow> u8 \<Rightarrow> kbd_state \<Rightarrow> kbd_state" where
  "set_mod released m s =
     s\<lparr>modifiers := (if released then modifiers s AND NOT m else modifiers s OR m)\<rparr>"

text \<open>\<open>kbd_irq_handler\<close>, for a byte \<open>byte\<close> in the output buffer (\<open>None\<close>: status bit clear).\<close>

definition kbd_irq_handler :: "u8 option \<Rightarrow> kbd_state \<Rightarrow> kbd_state" where
  "kbd_irq_handler byte s =
     (case byte of
        None \<Rightarrow> s
      | Some b \<Rightarrow>
          (let released = (b AND 0x80 \<noteq> 0);
               sc = b AND 0x7F
           in if sc = 0x2A \<or> sc = 0x36 then set_mod released KBD_MOD_SHIFT s
              else if sc = 0x1D then set_mod released KBD_MOD_CTRL s
              else if sc = 0x38 then set_mod released KBD_MOD_ALT s
              else if sc = 0x3A then
                (if \<not> released then s\<lparr>modifiers := modifiers s XOR KBD_MOD_CAPS\<rparr> else s)
              else if released then s
              else (let m = (if layout s = KBD_LAYOUT_DE then de_map else us_map);
                        shifted = (modifiers s AND KBD_MOD_SHIFT \<noteq> 0 \<or> modifiers s AND KBD_MOD_CAPS \<noteq> 0);
                        a = (if unat sc < 128 then (if shifted then snd else fst) (m ! unat sc) else 0)
                    in kbd_buf_push \<lparr>ev_scancode = sc, ev_ascii = a, ev_modifiers = modifiers s,
                                      ev_released = released\<rparr> s)))"

text \<open>The state set by \<open>kbd_init\<close> (the controller handshake is port input and output only).\<close>

definition kbd_init :: "kbd_state \<Rightarrow> kbd_state" where
  "kbd_init s = s\<lparr>kbd_head := 0, kbd_tail := 0, modifiers := 0, layout := KBD_LAYOUT_US\<rparr>"

definition kbd_set_layout :: "kbd_layout \<Rightarrow> kbd_state \<Rightarrow> kbd_state" where
  "kbd_set_layout l s = s\<lparr>layout := l\<rparr>"

section \<open>The keyboard ring is a FIFO\<close>

definition kbd_inv :: "kbd_state \<Rightarrow> bool" where
  "kbd_inv s \<longleftrightarrow> length (kbd_buf s) = KBD_BUFFER_SIZE \<and> kbd_head s < KBD_BUFFER_SIZE \<and> kbd_tail s < KBD_BUFFER_SIZE"

definition kbd_contents :: "kbd_state \<Rightarrow> kbd_event list" where
  "kbd_contents s = ring_seg (kbd_buf s) (kbd_head s) (ring_count KBD_BUFFER_SIZE (kbd_head s) (kbd_tail s))"

lemma kbd_size_pos [simp]: "0 < KBD_BUFFER_SIZE"
  by (simp add: KBD_BUFFER_SIZE_def)

text \<open>A ring with one slot kept empty, for any element type and size.\<close>

lemma ring_push_contents:
  assumes "length buf = N" "rd < N" "wr < N" "Suc wr mod N \<noteq> rd"
  shows "ring_seg (buf[wr := x]) rd (ring_count N rd (Suc wr mod N)) = ring_seg buf rd (ring_count N rd wr) @ [x]"
proof -
  have "ring_count N rd wr < N" using assms by (simp add: ring_count_less)
  moreover have "wr = (rd + ring_count N rd wr) mod N" using ring_wr assms by simp
  ultimately show ?thesis
    using ring_seg_snoc [of "ring_count N rd wr" buf wr rd x] ring_count_push [of rd N wr] assms by simp
qed

lemma ring_pop_contents:
  assumes "length buf = N" "rd < N" "wr < N" "rd \<noteq> wr"
  shows "ring_seg buf rd (ring_count N rd wr) = buf ! rd # ring_seg buf (Suc rd mod N) (ring_count N (Suc rd mod N) wr)"
proof -
  have "ring_count N rd wr = Suc (ring_count N (Suc rd mod N) wr)"
    by (rule ring_count_pop [OF assms(2-4)])
  moreover have "ring_seg buf (Suc rd mod N) n = ring_seg buf (Suc rd) n" for n
    using ring_seg_mod [of buf "Suc rd" n] assms(1) by simp
  ultimately show ?thesis using ring_seg_Suc [of buf rd] assms by simp
qed

interpretation kbd_q: fifo kbd_buf_push kbd_buf_pop kbd_contents 63 kbd_inv
proof
  fix s :: kbd_state and x s'
  assume inv: "kbd_inv s"
  then have i: "length (kbd_buf s) = KBD_BUFFER_SIZE" "kbd_head s < KBD_BUFFER_SIZE"
    "kbd_tail s < KBD_BUFFER_SIZE" by (simp_all add: kbd_inv_def)
  show "kbd_inv (kbd_buf_push x s)"
    using inv by (simp add: kbd_inv_def kbd_buf_push_def Let_def)
  show "kbd_contents (kbd_buf_push x s) = queue_push 63 x (kbd_contents s)"
  proof (cases "Suc (kbd_tail s) mod KBD_BUFFER_SIZE = kbd_head s")
    case True
    then have "ring_count KBD_BUFFER_SIZE (kbd_head s) (kbd_tail s) = 63"
      using ring_count_full [OF i(2,3)] by (simp add: KBD_BUFFER_SIZE_def)
    with True show ?thesis by (simp add: kbd_buf_push_def Let_def kbd_contents_def queue_push_def)
  next
    case False
    then have "ring_count KBD_BUFFER_SIZE (kbd_head s) (kbd_tail s) < 63"
      using ring_count_full [OF i(2,3)] ring_count_less [of KBD_BUFFER_SIZE "kbd_head s" "kbd_tail s"]
      by (simp add: KBD_BUFFER_SIZE_def)
    with False show ?thesis
      using ring_push_contents [OF i False, of x] by (simp add: kbd_buf_push_def Let_def kbd_contents_def queue_push_def)
  qed
  show "kbd_buf_pop s = None \<longleftrightarrow> kbd_contents s = []"
    using ring_count_empty [OF i(2,3)] by (auto simp: kbd_buf_pop_def kbd_contents_def simp flip: length_0_conv)
  show "length (kbd_contents s) \<le> 63"
    using ring_count_less [of KBD_BUFFER_SIZE "kbd_head s" "kbd_tail s"]
    by (simp add: kbd_contents_def KBD_BUFFER_SIZE_def)
  assume pop: "kbd_buf_pop s = Some (x, s')"
  then have ne: "kbd_head s \<noteq> kbd_tail s" by (auto simp: kbd_buf_pop_def)
  then show "kbd_inv s'" using pop inv by (auto simp: kbd_buf_pop_def kbd_inv_def)
  show "kbd_contents s = x # kbd_contents s'"
    using pop ne ring_pop_contents [OF i ne] by (auto simp: kbd_buf_pop_def kbd_contents_def)
qed

lemma kbd_inv_irq: "kbd_inv s \<Longrightarrow> kbd_inv (kbd_irq_handler byte s)"
  using kbd_q.inv_enq by (auto simp: kbd_irq_handler_def set_mod_def kbd_inv_def Let_def split: option.splits)

section \<open>Mouse (mouse.h, mouse.c)\<close>

record mouse_event =
  me_dx :: int
  me_dy :: int
  me_abs_x :: int
  me_abs_y :: int
  me_buttons :: u8
  me_clicked :: u8
  me_released :: u8

definition MOUSE_QUEUE_SIZE :: nat where "MOUSE_QUEUE_SIZE = 64"

record mouse_state =
  evt_queue :: "mouse_event list"
  q_head :: nat
  q_tail :: nat
  pkt :: "u8 list"
  pkt_idx :: nat
  mouse_x :: int
  mouse_y :: int
  mouse_buttons :: u8
  prev_buttons :: u8
  screen_w :: int
  screen_h :: int

text \<open>The enqueue step shared by the interrupt handler and \<open>mouse_set_abs_position\<close>.\<close>

definition mouse_enqueue :: "mouse_event \<Rightarrow> mouse_state \<Rightarrow> mouse_state" where
  "mouse_enqueue ev s =
     (let nxt = (q_head s + 1) mod MOUSE_QUEUE_SIZE
      in if nxt \<noteq> q_tail s then s\<lparr>evt_queue := (evt_queue s)[q_head s := ev], q_head := nxt\<rparr> else s)"

definition mouse_poll :: "mouse_state \<Rightarrow> (mouse_event \<times> mouse_state) option" where
  "mouse_poll s =
     (if q_head s = q_tail s then None
      else Some (evt_queue s ! q_tail s, s\<lparr>q_tail := (q_tail s + 1) mod MOUSE_QUEUE_SIZE\<rparr>))"

text \<open>The two clamping tests of the handler, in the code's order.\<close>

definition clamp_pos :: "int \<Rightarrow> int \<Rightarrow> int" where
  "clamp_pos v bound = (let v = (if v < 0 then 0 else v) in if v \<ge> bound then bound - 1 else v)"

text \<open>
  \<open>mouse_irq_handler\<close> for a byte from the mouse (\<open>None\<close>: nothing in the output buffer);
  \<open>vm\<close> is the result of \<open>vmmouse_poll\<close>, which when true has already delivered an
  absolute event.
\<close>

definition mouse_irq_handler :: "u8 option \<Rightarrow> bool \<Rightarrow> mouse_state \<Rightarrow> mouse_state" where
  "mouse_irq_handler inp vm s =
     (case inp of
        None \<Rightarrow> s
      | Some b \<Rightarrow>
          if vm then s
          else (let s = s\<lparr>pkt := (pkt s)[pkt_idx s := b], pkt_idx := pkt_idx s + 1\<rparr>
                in if pkt_idx s < 3 then s
                   else (let s = s\<lparr>pkt_idx := 0\<rparr>; p0 = pkt s ! 0
                         in if p0 AND 0x08 = 0 then s
                            else if p0 AND 0xC0 \<noteq> 0 then s
                            else (let dx = uint (pkt s ! 1) - (if p0 AND 0x10 \<noteq> 0 then 256 else 0);
                                      dy = - (uint (pkt s ! 2) - (if p0 AND 0x20 \<noteq> 0 then 256 else 0));
                                      buttons = p0 AND 0x07;
                                      s = s\<lparr>mouse_x := clamp_pos (mouse_x s + dx) (screen_w s),
                                            mouse_y := clamp_pos (mouse_y s + dy) (screen_h s),
                                            mouse_buttons := buttons\<rparr>;
                                      s = mouse_enqueue
                                            \<lparr>me_dx = dx, me_dy = dy, me_abs_x = mouse_x s, me_abs_y = mouse_y s,
                                             me_buttons = buttons, me_clicked = buttons AND NOT (prev_buttons s),
                                             me_released = prev_buttons s AND NOT buttons\<rparr> s
                                  in s\<lparr>prev_buttons := buttons\<rparr>))))"

definition mouse_init :: "mouse_state \<Rightarrow> mouse_state" where
  "mouse_init s = s\<lparr>pkt_idx := 0, q_head := 0, q_tail := 0, prev_buttons := 0\<rparr>"

definition mouse_set_bounds :: "int \<Rightarrow> int \<Rightarrow> mouse_state \<Rightarrow> mouse_state" where
  "mouse_set_bounds width height s =
     s\<lparr>screen_w := (if width > 0 then width else 1), screen_h := (if height > 0 then height else 1)\<rparr>"

text \<open>\<open>mouse_set_abs_position\<close>; C division truncates, the products are assumed not to overflow.\<close>

definition cdiv :: "int \<Rightarrow> int \<Rightarrow> int" where
  "cdiv a b = sgn a * sgn b * (\<bar>a\<bar> div \<bar>b\<bar>)"

definition mouse_set_abs_position :: "int \<Rightarrow> int \<Rightarrow> u8 \<Rightarrow> mouse_state \<Rightarrow> mouse_state" where
  "mouse_set_abs_position x y buttons s =
     (let s = s\<lparr>mouse_x := cdiv (x * screen_w s) 65535, mouse_y := cdiv (y * screen_h s) 65535\<rparr>;
          s = mouse_enqueue
                \<lparr>me_dx = 0, me_dy = 0, me_abs_x = mouse_x s, me_abs_y = mouse_y s, me_buttons = buttons,
                 me_clicked = buttons AND NOT (prev_buttons s), me_released = prev_buttons s AND NOT buttons\<rparr> s
      in s\<lparr>mouse_buttons := buttons, prev_buttons := buttons\<rparr>)"

definition mouse_inv :: "mouse_state \<Rightarrow> bool" where
  "mouse_inv s \<longleftrightarrow> length (evt_queue s) = MOUSE_QUEUE_SIZE \<and> q_head s < MOUSE_QUEUE_SIZE \<and>
     q_tail s < MOUSE_QUEUE_SIZE \<and> length (pkt s) = 3 \<and> pkt_idx s < 3 \<and> 0 < screen_w s \<and> 0 < screen_h s"

definition mouse_contents :: "mouse_state \<Rightarrow> mouse_event list" where
  "mouse_contents s = ring_seg (evt_queue s) (q_tail s) (ring_count MOUSE_QUEUE_SIZE (q_tail s) (q_head s))"

lemma mouse_size_pos [simp]: "0 < MOUSE_QUEUE_SIZE"
  by (simp add: MOUSE_QUEUE_SIZE_def)

interpretation mouse_q: fifo mouse_enqueue mouse_poll mouse_contents 63 mouse_inv
proof
  fix s :: mouse_state and x s'
  assume inv: "mouse_inv s"
  then have i: "length (evt_queue s) = MOUSE_QUEUE_SIZE" "q_tail s < MOUSE_QUEUE_SIZE"
    "q_head s < MOUSE_QUEUE_SIZE" by (simp_all add: mouse_inv_def)
  show "mouse_inv (mouse_enqueue x s)"
    using inv by (simp add: mouse_inv_def mouse_enqueue_def Let_def)
  show "mouse_contents (mouse_enqueue x s) = queue_push 63 x (mouse_contents s)"
  proof (cases "Suc (q_head s) mod MOUSE_QUEUE_SIZE = q_tail s")
    case True
    then have "ring_count MOUSE_QUEUE_SIZE (q_tail s) (q_head s) = 63"
      using ring_count_full [OF i(2,3)] by (simp add: MOUSE_QUEUE_SIZE_def)
    with True show ?thesis by (simp add: mouse_enqueue_def Let_def mouse_contents_def queue_push_def)
  next
    case False
    then have "ring_count MOUSE_QUEUE_SIZE (q_tail s) (q_head s) < 63"
      using ring_count_full [OF i(2,3)] ring_count_less [of MOUSE_QUEUE_SIZE "q_tail s" "q_head s"]
      by (simp add: MOUSE_QUEUE_SIZE_def)
    with False show ?thesis
      using ring_push_contents [OF i False, of x]
      by (simp add: mouse_enqueue_def Let_def mouse_contents_def queue_push_def)
  qed
  show "mouse_poll s = None \<longleftrightarrow> mouse_contents s = []"
    using ring_count_empty [OF i(2,3)] by (auto simp: mouse_poll_def mouse_contents_def simp flip: length_0_conv)
  show "length (mouse_contents s) \<le> 63"
    using ring_count_less [of MOUSE_QUEUE_SIZE "q_tail s" "q_head s"]
    by (simp add: mouse_contents_def MOUSE_QUEUE_SIZE_def)
  assume pop: "mouse_poll s = Some (x, s')"
  then have ne: "q_tail s \<noteq> q_head s" by (auto simp: mouse_poll_def)
  then show "mouse_inv s'" using pop inv by (auto simp: mouse_poll_def mouse_inv_def)
  show "mouse_contents s = x # mouse_contents s'"
    using pop ne ring_pop_contents [OF i ne] by (auto simp: mouse_poll_def mouse_contents_def)
qed

lemma clamp_pos_range: "0 < bound \<Longrightarrow> 0 \<le> clamp_pos v bound \<and> clamp_pos v bound < bound"
  by (auto simp: clamp_pos_def Let_def)

definition on_screen :: "mouse_state \<Rightarrow> bool" where
  "on_screen s \<longleftrightarrow> 0 \<le> mouse_x s \<and> mouse_x s < screen_w s \<and> 0 \<le> mouse_y s \<and> mouse_y s < screen_h s"

lemma mouse_enqueue_fields [simp]:
  "mouse_x (mouse_enqueue ev s) = mouse_x s" "mouse_y (mouse_enqueue ev s) = mouse_y s"
  "screen_w (mouse_enqueue ev s) = screen_w s" "screen_h (mouse_enqueue ev s) = screen_h s"
  "pkt (mouse_enqueue ev s) = pkt s" "pkt_idx (mouse_enqueue ev s) = pkt_idx s"
  "prev_buttons (mouse_enqueue ev s) = prev_buttons s"
  by (simp_all add: mouse_enqueue_def Let_def)

lemma mouse_irq_on_screen:
  "mouse_inv s \<Longrightarrow> on_screen s \<Longrightarrow> on_screen (mouse_irq_handler inp vm s)"
  using clamp_pos_range by (auto simp: mouse_irq_handler_def on_screen_def mouse_inv_def Let_def split: option.splits)

section \<open>Properties\<close>

text \<open>C12: any sequence of keyboard events stored and polled behaves as a FIFO queue of capacity 63
  that drops the newest event when full.\<close>

theorem keyboard_ring_is_queue:
  assumes "kbd_inv s"
  shows "let (out, s') = fifo_run kbd_buf_push kbd_buf_pop ops s
    in (out, kbd_contents s') = fifo_run (queue_push 63) queue_pop ops (kbd_contents s) \<and> kbd_inv s'"
  by (rule kbd_q.run_refines [OF assms])

definition kbd_fresh :: kbd_state where
  "kbd_fresh = \<lparr>kbd_buf = replicate 64 \<lparr>ev_scancode = 0, ev_ascii = 0, ev_modifiers = 0, ev_released = False\<rparr>,
     kbd_head = 0, kbd_tail = 0, modifiers = 0, layout = KBD_LAYOUT_US\<rparr>"

theorem keyboard_ring_is_queue_witness:
  "let (out, s') = fifo_run kbd_buf_push kbd_buf_pop [Pop] kbd_fresh
   in (out, kbd_contents s') = fifo_run (queue_push 63) queue_pop [Pop] (kbd_contents kbd_fresh) \<and> kbd_inv s'"
  by (rule keyboard_ring_is_queue) (simp add: kbd_inv_def kbd_fresh_def KBD_BUFFER_SIZE_def)

text \<open>After any mouse interrupt the absolute position is inside the screen.\<close>

theorem mouse_stays_on_screen:
  assumes "mouse_inv s" "on_screen s"
  shows "on_screen (mouse_irq_handler inp vm s)"
  by (rule mouse_irq_on_screen [OF assms])

definition mouse_fresh :: mouse_state where
  "mouse_fresh = \<lparr>evt_queue = replicate 64 \<lparr>me_dx = 0, me_dy = 0, me_abs_x = 0, me_abs_y = 0, me_buttons = 0,
      me_clicked = 0, me_released = 0\<rparr>, q_head = 0, q_tail = 0, pkt = [0x18, 5, 0], pkt_idx = 2,
     mouse_x = 2, mouse_y = 0, mouse_buttons = 0, prev_buttons = 0, screen_w = 1280, screen_h = 720\<rparr>"

theorem mouse_stays_on_screen_witness:
  "on_screen (mouse_irq_handler (Some 0) False mouse_fresh)"
  by (rule mouse_stays_on_screen)
    (simp_all add: mouse_inv_def on_screen_def mouse_fresh_def MOUSE_QUEUE_SIZE_def)

end
