(* ===== verification/Sync.thy ===== *)
theory Sync
  imports Prelude
begin

text \<open>
  The synchronisation objects of \<open>sync/sync.c\<close>: semaphore, recursive mutex, condition
  variable, reader-writer lock and wait queue. A section under the object's spinlock is one
  atomic step; a blocking call is the step its retry loop performs, with the outcome
  (acquired, or to be retried after sleeping) as a value. The caller's task id is an argument,
  0 when there is no current task. Shown: with every task unlocking only what it holds the
  mutex excludes, and a semaphore never admits more holders than its initial value.
\<close>

definition SEM_MAX_WAITERS :: nat where "SEM_MAX_WAITERS = 16"
definition WAITQ_MAX :: nat where "WAITQ_MAX = 16"

section \<open>Objects (sync.h)\<close>

record semaphore =
  sem_value :: "32 word"
  sem_waiters :: "u32 list"
  sem_waiter_count :: nat

record mutex =
  owner_tid :: u32
  mtx_depth :: u32
  mtx_waiters :: "u32 list"
  mtx_waiter_count :: nat

record condvar =
  cv_waiters :: "u32 list"
  cv_waiter_count :: nat

record rwlock =
  rw_readers :: "32 word"
  write_sem :: semaphore
  read_sem :: semaphore

record wait_queue =
  wq_task_ids :: "u32 list"
  wq_count :: nat

section \<open>Semaphore\<close>

definition sem_init :: "u32 \<Rightarrow> semaphore" where
  "sem_init initial = \<lparr>sem_value = initial, sem_waiters = replicate SEM_MAX_WAITERS 0, sem_waiter_count = 0\<rparr>"

text \<open>One pass of the loop of \<open>sem_wait\<close>: \<open>True\<close> when it returns.\<close>

definition sem_wait_pass :: "u32 option \<Rightarrow> semaphore \<Rightarrow> bool \<times> semaphore" where
  "sem_wait_pass t s =
     (if sint (sem_value s) > 0 then (True, s\<lparr>sem_value := sem_value s - 1\<rparr>)
      else (case t of
              Some tid \<Rightarrow>
                if sem_waiter_count s < SEM_MAX_WAITERS
                then (False, s\<lparr>sem_waiters := (sem_waiters s)[sem_waiter_count s := tid],
                               sem_waiter_count := sem_waiter_count s + 1\<rparr>)
                else (False, s)
            | None \<Rightarrow> (False, s)))"

definition sem_trywait :: "semaphore \<Rightarrow> bool \<times> semaphore" where
  "sem_trywait s =
     (let k = sint (sem_value s) > 0
      in (k, if k then s\<lparr>sem_value := sem_value s - 1\<rparr> else s))"

definition sem_post :: "semaphore \<Rightarrow> semaphore" where
  "sem_post s =
     (let s = s\<lparr>sem_value := sem_value s + 1\<rparr>
      in if sem_waiter_count s > 0 then s\<lparr>sem_waiter_count := sem_waiter_count s - 1\<rparr> else s)"

section \<open>Mutex\<close>

definition mutex_init :: mutex where
  "mutex_init = \<lparr>owner_tid = 0, mtx_depth = 0, mtx_waiters = replicate SEM_MAX_WAITERS 0, mtx_waiter_count = 0\<rparr>"

text \<open>One pass of the loop of \<open>mutex_lock\<close>: \<open>True\<close> when it returns.\<close>

definition mutex_lock_pass :: "u32 \<Rightarrow> mutex \<Rightarrow> bool \<times> mutex" where
  "mutex_lock_pass my_id m =
     (if owner_tid m = my_id then (True, m\<lparr>mtx_depth := mtx_depth m + 1\<rparr>)
      else if owner_tid m = 0 then (True, m\<lparr>owner_tid := my_id, mtx_depth := 1\<rparr>)
      else if mtx_waiter_count m < SEM_MAX_WAITERS \<and> my_id \<noteq> 0
      then (False, m\<lparr>mtx_waiters := (mtx_waiters m)[mtx_waiter_count m := my_id],
                     mtx_waiter_count := mtx_waiter_count m + 1\<rparr>)
      else (False, m))"

definition mutex_trylock :: "u32 \<Rightarrow> mutex \<Rightarrow> bool \<times> mutex" where
  "mutex_trylock my_id m =
     (let k = (owner_tid m = 0 \<or> owner_tid m = my_id)
      in (k, if k then m\<lparr>owner_tid := my_id, mtx_depth := mtx_depth m + 1\<rparr> else m))"

definition mutex_unlock :: "mutex \<Rightarrow> mutex" where
  "mutex_unlock m =
     (if mtx_depth m > 1 then m\<lparr>mtx_depth := mtx_depth m - 1\<rparr>
      else (let m = m\<lparr>owner_tid := 0, mtx_depth := 0\<rparr>
            in if mtx_waiter_count m > 0 then m\<lparr>mtx_waiter_count := mtx_waiter_count m - 1\<rparr> else m))"

section \<open>Condition variable, reader-writer lock, wait queue\<close>

definition condvar_init :: condvar where
  "condvar_init = \<lparr>cv_waiters = replicate SEM_MAX_WAITERS 0, cv_waiter_count = 0\<rparr>"

text \<open>
  \<open>condvar_wait\<close> up to \<open>task_sleep(5)\<close>: the waiter is recorded and the mutex released;
  the \<open>mutex_lock\<close> after the sleep is a \<open>mutex_lock_pass\<close> of its own.
\<close>

definition condvar_wait_begin :: "u32 option \<Rightarrow> condvar \<Rightarrow> mutex \<Rightarrow> condvar \<times> mutex" where
  "condvar_wait_begin t cv m =
     ((case t of
         Some tid \<Rightarrow>
           if cv_waiter_count cv < SEM_MAX_WAITERS
           then cv\<lparr>cv_waiters := (cv_waiters cv)[cv_waiter_count cv := tid],
                   cv_waiter_count := cv_waiter_count cv + 1\<rparr>
           else cv
       | None \<Rightarrow> cv),
      mutex_unlock m)"

definition condvar_signal :: "condvar \<Rightarrow> condvar" where
  "condvar_signal cv = (if cv_waiter_count cv > 0 then cv\<lparr>cv_waiter_count := cv_waiter_count cv - 1\<rparr> else cv)"

definition condvar_broadcast :: "condvar \<Rightarrow> condvar" where
  "condvar_broadcast cv = cv\<lparr>cv_waiter_count := 0\<rparr>"

definition rwlock_init :: rwlock where
  "rwlock_init = \<lparr>rw_readers = 0, write_sem = sem_init 1, read_sem = sem_init 1\<rparr>"

text \<open>
  \<open>rwlock_read_lock\<close>: the first reader takes \<open>write_sem\<close> while the spinlock is held. The
  result tells whether the call returns or is left waiting inside \<open>sem_wait\<close>, with the
  spinlock held.
\<close>

definition rwlock_read_lock :: "u32 option \<Rightarrow> rwlock \<Rightarrow> bool \<times> rwlock" where
  "rwlock_read_lock t rw =
     (let rw = rw\<lparr>rw_readers := rw_readers rw + 1\<rparr>
      in if rw_readers rw = 1
         then (let (k, s) = sem_wait_pass t (write_sem rw) in (k, rw\<lparr>write_sem := s\<rparr>))
         else (True, rw))"

definition rwlock_read_unlock :: "rwlock \<Rightarrow> rwlock" where
  "rwlock_read_unlock rw =
     (let rw = rw\<lparr>rw_readers := rw_readers rw - 1\<rparr>
      in if rw_readers rw = 0 then rw\<lparr>write_sem := sem_post (write_sem rw)\<rparr> else rw)"

definition rwlock_write_lock :: "u32 option \<Rightarrow> rwlock \<Rightarrow> bool \<times> rwlock" where
  "rwlock_write_lock t rw = (let (k, s) = sem_wait_pass t (write_sem rw) in (k, rw\<lparr>write_sem := s\<rparr>))"

definition rwlock_write_unlock :: "rwlock \<Rightarrow> rwlock" where
  "rwlock_write_unlock rw = rw\<lparr>write_sem := sem_post (write_sem rw)\<rparr>"

definition waitq_init :: wait_queue where
  "waitq_init = \<lparr>wq_task_ids = replicate WAITQ_MAX 0, wq_count = 0\<rparr>"

definition waitq_wait :: "u32 option \<Rightarrow> wait_queue \<Rightarrow> wait_queue" where
  "waitq_wait t wq =
     (case t of
        Some tid \<Rightarrow>
          if wq_count wq < WAITQ_MAX
          then wq\<lparr>wq_task_ids := (wq_task_ids wq)[wq_count wq := tid], wq_count := wq_count wq + 1\<rparr>
          else wq
      | None \<Rightarrow> wq)"

definition waitq_wake_one :: "wait_queue \<Rightarrow> wait_queue" where
  "waitq_wake_one wq = (if wq_count wq > 0 then wq\<lparr>wq_count := wq_count wq - 1\<rparr> else wq)"

definition waitq_wake_all :: "wait_queue \<Rightarrow> wait_queue" where
  "waitq_wake_all wq = wq\<lparr>wq_count := 0\<rparr>"

section \<open>The mutex protocol\<close>

text \<open>
  Tasks using one mutex: \<open>h t\<close> counts the acquisitions task \<open>t\<close> has not released. Task
  ids are not 0, a task unlocks only what it holds, and nobody nests \<open>2 ^ 32\<close> deep.
\<close>

inductive mutex_step :: "mutex \<times> (u32 \<Rightarrow> nat) \<Rightarrow> mutex \<times> (u32 \<Rightarrow> nat) \<Rightarrow> bool" where
  lock_pass: "t \<noteq> 0 \<Longrightarrow> h t + 1 < 2 ^ 32 \<Longrightarrow> mutex_lock_pass t m = (k, m') \<Longrightarrow>
    mutex_step (m, h) (m', if k then h(t := h t + 1) else h)"
| trylock: "t \<noteq> 0 \<Longrightarrow> h t + 1 < 2 ^ 32 \<Longrightarrow> mutex_trylock t m = (k, m') \<Longrightarrow>
    mutex_step (m, h) (m', if k then h(t := h t + 1) else h)"
| unlock: "0 < h t \<Longrightarrow> mutex_step (m, h) (mutex_unlock m, h(t := h t - 1))"

inductive_cases mutex_stepE: "mutex_step (m, h) mh'"

inductive mutex_reach :: "mutex \<times> (u32 \<Rightarrow> nat) \<Rightarrow> bool" where
  start: "mutex_reach (mutex_init, \<lambda>_. 0)"
| step: "mutex_reach mh \<Longrightarrow> mutex_step mh mh' \<Longrightarrow> mutex_reach mh'"

definition mutex_ok :: "mutex \<times> (u32 \<Rightarrow> nat) \<Rightarrow> bool" where
  "mutex_ok mh \<longleftrightarrow> (case mh of (m, h) \<Rightarrow>
     unat (mtx_depth m) = h (owner_tid m) \<and> h 0 = 0 \<and>
     (owner_tid m \<noteq> 0 \<longrightarrow> 0 < h (owner_tid m)) \<and> (\<forall>t. t \<noteq> owner_tid m \<longrightarrow> h t = 0) \<and>
     length (mtx_waiters m) = SEM_MAX_WAITERS \<and> mtx_waiter_count m \<le> SEM_MAX_WAITERS)"

lemma unat_Suc_word: "unat (x :: u32) + 1 < 2 ^ 32 \<Longrightarrow> unat (x + 1) = unat x + 1"
  by (simp add: unat_word_ariths)

lemma mutex_ok_step: "mutex_step mh mh' \<Longrightarrow> mutex_ok mh \<Longrightarrow> mutex_ok mh'"
proof (induction rule: mutex_step.induct)
  case (lock_pass t h m k m')
  consider "owner_tid m = t" | "owner_tid m = 0" "t \<noteq> 0" | "owner_tid m \<noteq> 0" "owner_tid m \<noteq> t"
    by blast
  then show ?case
  proof cases
    case 1
    then show ?thesis
      using lock_pass unat_Suc_word [of "mtx_depth m"]
      by (auto simp: mutex_ok_def mutex_lock_pass_def)
  next
    case 2
    then have "h u = 0" for u using lock_pass by (cases "u = 0") (auto simp: mutex_ok_def)
    then show ?thesis using 2 lock_pass by (auto simp: mutex_ok_def mutex_lock_pass_def)
  next
    case 3
    then show ?thesis using lock_pass by (auto simp: mutex_ok_def mutex_lock_pass_def split: if_splits)
  qed
next
  case (trylock t h m k m')
  consider "owner_tid m = t" | "owner_tid m = 0" "t \<noteq> 0" | "owner_tid m \<noteq> 0" "owner_tid m \<noteq> t"
    by blast
  then show ?case
  proof cases
    case 1
    then show ?thesis
      using trylock unat_Suc_word [of "mtx_depth m"]
      by (auto simp: mutex_ok_def mutex_trylock_def Let_def)
  next
    case 2
    then have "h u = 0" for u using trylock by (cases "u = 0") (auto simp: mutex_ok_def)
    then show ?thesis using 2 trylock by (auto simp: mutex_ok_def mutex_trylock_def Let_def unat_eq_zero)
  next
    case 3
    then show ?thesis using trylock by (auto simp: mutex_ok_def mutex_trylock_def Let_def)
  qed
next
  case (unlock h t m)
  then have t: "t = owner_tid m" by (auto simp: mutex_ok_def)
  with unlock have nz: "owner_tid m \<noteq> 0" by (auto simp: mutex_ok_def)
  show ?case
  proof (cases "mtx_depth m > 1")
    case True
    then have "unat (mtx_depth m) > 1" "mtx_depth m \<noteq> 0" by (auto simp: word_less_nat_alt)
    then show ?thesis
      using True unlock t nz by (auto simp: mutex_ok_def mutex_unlock_def unat_minus_one)
  next
    case False
    then have "unat (mtx_depth m) \<le> 1" by (simp add: word_less_nat_alt not_less)
    then show ?thesis
      using False unlock t nz by (auto simp: mutex_ok_def mutex_unlock_def Let_def)
  qed
qed

lemma mutex_reach_ok: "mutex_reach mh \<Longrightarrow> mutex_ok mh"
proof (induction rule: mutex_reach.induct)
  case start
  then show ?case by (simp add: mutex_ok_def mutex_init_def)
qed (rule mutex_ok_step)

section \<open>The semaphore protocol\<close>

text \<open>Holders of a semaphore: successful waits not yet followed by a post.\<close>

inductive sem_step :: "semaphore \<times> nat \<Rightarrow> semaphore \<times> nat \<Rightarrow> bool" where
  wait_pass: "sem_wait_pass t s = (k, s') \<Longrightarrow> sem_step (s, n) (s', if k then n + 1 else n)"
| trywait: "sem_trywait s = (k, s') \<Longrightarrow> sem_step (s, n) (s', if k then n + 1 else n)"
| post: "0 < n \<Longrightarrow> sem_step (s, n) (sem_post s, n - 1)"

inductive sem_reach :: "u32 \<Rightarrow> semaphore \<times> nat \<Rightarrow> bool" for initial where
  start: "sem_reach initial (sem_init initial, 0)"
| step: "sem_reach initial sn \<Longrightarrow> sem_step sn sn' \<Longrightarrow> sem_reach initial sn'"

lemma sint_minus_1: "0 < sint (v :: u32) \<Longrightarrow> sint (v - 1) = sint v - 1"
  using sint_lt [of v] by (simp add: sint_word_ariths signed_take_bit_int_eq_self)

lemma sint_plus_1: "0 \<le> sint (v :: u32) \<Longrightarrow> sint v < 2 ^ 31 - 1 \<Longrightarrow> sint (v + 1) = sint v + 1"
  by (simp add: sint_word_ariths signed_take_bit_int_eq_self)

definition sem_ok :: "u32 \<Rightarrow> semaphore \<times> nat \<Rightarrow> bool" where
  "sem_ok initial sn \<longleftrightarrow> (case sn of (s, n) \<Rightarrow>
     0 \<le> sint (sem_value s) \<and> sint (sem_value s) + int n = sint initial \<and>
     length (sem_waiters s) = SEM_MAX_WAITERS \<and> sem_waiter_count s \<le> SEM_MAX_WAITERS)"

lemma sem_ok_step: "sem_step sn sn' \<Longrightarrow> sem_ok initial sn \<Longrightarrow> sem_ok initial sn'"
proof (induction rule: sem_step.induct)
  case (wait_pass t s k s' n)
  then show ?case
    by (cases "0 < sint (sem_value s)")
      (auto simp: sem_ok_def sem_wait_pass_def sint_minus_1 split: option.splits if_splits)
next
  case (trywait s k s' n)
  then show ?case
    by (cases "0 < sint (sem_value s)") (auto simp: sem_ok_def sem_trywait_def Let_def sint_minus_1)
next
  case (post n s)
  have "sint initial < 2 ^ 31" using sint_lt [of initial] by simp
  then have "sint (sem_value s + 1) = sint (sem_value s) + 1"
    using post by (intro sint_plus_1) (auto simp: sem_ok_def)
  with post show ?case by (auto simp: sem_ok_def sem_post_def Let_def)
qed

lemma sem_reach_ok: "sem_reach initial sn \<Longrightarrow> 0 \<le> sint initial \<Longrightarrow> sem_ok initial sn"
proof (induction rule: sem_reach.induct)
  case start
  then show ?case by (simp add: sem_ok_def sem_init_def)
next
  case (step sn sn')
  then show ?case using sem_ok_step by blast
qed

text \<open>
  A reader that arrives while a writer holds the lock does not return: it waits inside
  \<open>sem_wait\<close> with the spinlock of the lock held, and has already been counted.
\<close>

lemma rwlock_reader_stuck:
  "rwlock_read_lock t (snd (rwlock_write_lock t rwlock_init)) =
     (False, (snd (rwlock_write_lock t rwlock_init))
        \<lparr>rw_readers := 1, write_sem := snd (sem_wait_pass t (write_sem (snd (rwlock_write_lock t rwlock_init))))\<rparr>)"
  by (simp add: rwlock_read_lock_def rwlock_write_lock_def rwlock_init_def sem_init_def sem_wait_pass_def
      Let_def split: option.splits)

text \<open>
  Without a current task (\<open>my_id = 0\<close>) \<open>mutex_lock\<close> returns with the mutex still free, so
  another task gets it too.
\<close>

lemma mutex_lock_no_task:
  "mutex_lock_pass 0 mutex_init = (True, mutex_init\<lparr>mtx_depth := 1\<rparr>) \<and>
   fst (mutex_lock_pass 7 (snd (mutex_lock_pass 0 mutex_init)))"
  by (simp add: mutex_lock_pass_def mutex_init_def)

section \<open>Properties\<close>

text \<open>C10: in every reachable state of the mutex protocol at most one task holds the mutex, it is the
  recorded owner, and the recorded depth is the number of its open acquisitions.\<close>

theorem mutex_excludes:
  assumes "mutex_reach (m, h)"
  shows "(\<forall>t u. 0 < h t \<longrightarrow> 0 < h u \<longrightarrow> t = u) \<and> (\<forall>t. 0 < h t \<longrightarrow> owner_tid m = t \<and> unat (mtx_depth m) = h t)"
  using mutex_reach_ok [OF assms] by (auto simp: mutex_ok_def) (metis gr_implies_not_zero)+

definition held_by_7 :: "u32 \<Rightarrow> nat" where
  "held_by_7 = (\<lambda>_. 0)(7 := 1)"

lemma mutex_reach_example: "mutex_reach (mutex_init\<lparr>owner_tid := 7, mtx_depth := 1\<rparr>, held_by_7)"
proof -
  have "mutex_step (mutex_init, \<lambda>_. 0)
      (mutex_init\<lparr>owner_tid := 7, mtx_depth := 1\<rparr>, if True then (\<lambda>_. 0)(7 := (\<lambda>_. 0) (7 :: u32) + 1) else (\<lambda>_. 0))"
    by (rule mutex_step.lock_pass) (simp_all add: mutex_lock_pass_def mutex_init_def)
  from mutex_reach.step [OF mutex_reach.start this] show ?thesis by (simp add: held_by_7_def)
qed

theorem mutex_excludes_witness:
  "owner_tid (mutex_init\<lparr>owner_tid := 7, mtx_depth := 1\<rparr>) = 7 \<and>
   unat (mtx_depth (mutex_init\<lparr>owner_tid := 7, mtx_depth := 1\<rparr>)) = held_by_7 7"
  using mutex_excludes [OF mutex_reach_example] by (auto simp: held_by_7_def)

text \<open>a semaphore initialised with a non-negative count never has more holders than that count.\<close>

theorem semaphore_bounds_holders:
  assumes "sem_reach initial (s, n)" "0 \<le> sint initial"
  shows "int n + sint (sem_value s) = sint initial \<and> 0 \<le> sint (sem_value s)"
  using sem_reach_ok [OF assms] by (simp add: sem_ok_def)

theorem semaphore_bounds_holders_witness:
  "int 0 + sint (sem_value (sem_init 3)) = sint (3 :: u32) \<and> 0 \<le> sint (sem_value (sem_init 3))"
  by (rule semaphore_bounds_holders [OF sem_reach.start]) simp

end
