(* ===== verification/Env.thy ===== *)
theory Env
  imports KString Interfaces
begin

text \<open>
  The environment table of \<open>ipc/env.c\<close>: 64 slots of fixed-size key and value arrays, searched
  with \<open>strncmp\<close> over the whole key array. NULL arguments are \<open>None\<close>. Shown: for keys
  shorter than the key array the block is a keyed table (an interpretation of
  \<open>kv_table_del\<close>) that returns the last value stored, cut to 255 bytes; longer keys are stored
  but never found again.
\<close>

definition ENV_MAX_VARS :: nat where "ENV_MAX_VARS = 64"
definition ENV_KEY_LEN :: nat where "ENV_KEY_LEN = 64"
definition ENV_VAL_LEN :: nat where "ENV_VAL_LEN = 256"

record env_var =
  env_key :: "u8 list"
  env_val :: "u8 list"
  env_used :: bool

type_synonym env_block = "env_var list"

section \<open>Operations\<close>

definition env_zero_var :: env_var where
  "env_zero_var = \<lparr>env_key = replicate ENV_KEY_LEN 0, env_val = replicate ENV_VAL_LEN 0, env_used = False\<rparr>"

definition env_matches :: "cstr \<Rightarrow> env_var \<Rightarrow> bool" where
  "env_matches key v \<longleftrightarrow> env_used v \<and> strncmp (env_key v) key ENV_KEY_LEN = 0"

text \<open>\<open>env_get\<close>: the array \<open>vars[i].val\<close> the code returns a pointer to.\<close>

definition env_get :: "env_block \<Rightarrow> cstr option \<Rightarrow> u8 list option" where
  "env_get env key =
     (case key of
        None \<Rightarrow> None
      | Some key \<Rightarrow>
          (case find_idx (env_matches key) env of
             Some i \<Rightarrow> Some (env_val (env ! i))
           | None \<Rightarrow> None))"

definition env_set :: "env_block \<Rightarrow> cstr option \<Rightarrow> cstr option \<Rightarrow> int \<times> env_block" where
  "env_set env key value =
     (case (key, value) of
        (Some key, Some value) \<Rightarrow>
          (let val = strncpy value (ENV_VAL_LEN - 1) @ [0]
           in case find_idx (env_matches key) env of
                Some i \<Rightarrow> (0, env[i := (env ! i)\<lparr>env_val := val\<rparr>])
              | None \<Rightarrow>
                  (case find_idx (\<lambda>v. \<not> env_used v) env of
                     Some i \<Rightarrow> (0, env[i := (env ! i)\<lparr>env_key := strncpy key (ENV_KEY_LEN - 1) @ [0],
                                                   env_val := val, env_used := True\<rparr>])
                   | None \<Rightarrow> (- 1, env)))
      | _ \<Rightarrow> (- 1, env))"

definition env_unset :: "env_block \<Rightarrow> cstr option \<Rightarrow> int \<times> env_block" where
  "env_unset env key =
     (case key of
        None \<Rightarrow> (- 1, env)
      | Some key \<Rightarrow>
          (case find_idx (env_matches key) env of
             Some i \<Rightarrow> (0, env[i := env_zero_var])
           | None \<Rightarrow> (- 1, env)))"

text \<open>\<open>env_clone\<close>, with the outcome of \<open>kmalloc\<close> as an argument.\<close>

definition env_clone :: "bool \<Rightarrow> env_block \<Rightarrow> env_block option" where
  "env_clone kmalloc_ok src = (if kmalloc_ok then Some src else None)"

text \<open>\<open>env_init\<close>: a zeroed block and the six kernel defaults.\<close>

definition env_init :: env_block where
  "env_init =
     fold (\<lambda>(k, v) env. snd (env_set env (Some k) (Some v)))
       [([79,83], [80,105,110,103,117,105,110,79,83]),
        ([86,69,82,83,73,79,78], [51,46,48]),
        ([65,82,67,72], [105,54,56,54]),
        ([80,65,84,72], [47,98,105,110,58,47,117,115,114,47,98,105,110]),
        ([72,79,77,69], [47]),
        ([84,69,82,77], [118,116,49,48,48])]
       (replicate ENV_MAX_VARS env_zero_var)"

section \<open>Keys\<close>

definition key_ok :: "cstr \<Rightarrow> bool" where
  "key_ok k \<longleftrightarrow> 0 \<notin> set k \<and> length k < ENV_KEY_LEN"

definition key_array :: "u8 list \<Rightarrow> bool" where
  "key_array a \<longleftrightarrow> length a = ENV_KEY_LEN \<and> a ! (ENV_KEY_LEN - 1) = 0"

lemma strncmp_cstring: "strncmp a b n = strncmp (cstring a) (cstring b) n"
proof (induction a b n rule: strncmp.induct)
  case (2 a b n)
  then show ?case by (cases a; cases b) (auto simp: cstring_def)
qed simp

lemma length_cstring_NUL: "i < length a \<Longrightarrow> a ! i = 0 \<Longrightarrow> length (cstring a) \<le> i"
proof (induction a arbitrary: i)
  case (Cons c a)
  then show ?case by (cases i) (auto simp: cstring_def)
qed simp

lemma key_array_cstring: "key_array a \<Longrightarrow> length (cstring a) < ENV_KEY_LEN"
  using length_cstring_NUL [of "ENV_KEY_LEN - 1" a] by (auto simp: key_array_def ENV_KEY_LEN_def)

lemma strncmp_key_array:
  assumes "key_array a" "0 \<notin> set k"
  shows "strncmp a k ENV_KEY_LEN = 0 \<longleftrightarrow> length k < ENV_KEY_LEN \<and> cstring a = k"
proof -
  have "strncmp a k ENV_KEY_LEN = 0 \<longleftrightarrow> take ENV_KEY_LEN (cstring a) = take ENV_KEY_LEN k"
    using strncmp_cstring [of a k] strncmp_zero [of "cstring a" k ENV_KEY_LEN] assms(2) by simp
  moreover have "take ENV_KEY_LEN (cstring a) = cstring a" using key_array_cstring [OF assms(1)] by simp
  ultimately show ?thesis
    using key_array_cstring [OF assms(1)]
    by (metis length_take min.strict_order_iff min.commute not_less take_all min_def)
qed

lemma key_array_strncpy: "key_array (strncpy k (ENV_KEY_LEN - 1) @ [0])"
  by (simp add: key_array_def nth_append ENV_KEY_LEN_def)

lemma cstring_key_array: "key_ok k \<Longrightarrow> cstring (strncpy k (ENV_KEY_LEN - 1) @ [0]) = k"
  by (simp add: cstring_strncpy key_ok_def ENV_KEY_LEN_def)

section \<open>The block is a keyed table\<close>

definition env_inv :: "env_block \<Rightarrow> bool" where
  "env_inv env \<longleftrightarrow> length env = ENV_MAX_VARS \<and>
     (\<forall>i < length env. env_used (env ! i) \<longrightarrow> key_array (env_key (env ! i))) \<and>
     (\<forall>i < length env. \<forall>j < length env. env_used (env ! i) \<longrightarrow> env_used (env ! j) \<longrightarrow>
        cstring (env_key (env ! i)) = cstring (env_key (env ! j)) \<longrightarrow> i = j)"

definition env_lookup :: "env_block \<Rightarrow> cstr \<Rightarrow> cstr option" where
  "env_lookup env k = map_option cstring (env_get env (Some k))"

definition env_store :: "env_block \<Rightarrow> cstr \<Rightarrow> cstr \<Rightarrow> env_block option" where
  "env_store env k v = (case env_set env (Some k) (Some v) of (r, env') \<Rightarrow> if r = 0 then Some env' else None)"

definition env_delete :: "env_block \<Rightarrow> cstr \<Rightarrow> env_block option" where
  "env_delete env k = (case env_unset env (Some k) of (r, env') \<Rightarrow> if r = 0 then Some env' else None)"

text \<open>What a stored value reads back as.\<close>

definition env_norm :: "cstr \<Rightarrow> cstr" where
  "env_norm v = take (ENV_VAL_LEN - 1) (cstring v)"

definition env_slot :: "env_block \<Rightarrow> nat \<Rightarrow> cstr \<Rightarrow> bool" where
  "env_slot env i k \<longleftrightarrow> i < length env \<and> env_used (env ! i) \<and> cstring (env_key (env ! i)) = k"

lemma env_matches_iff:
  "env_inv env \<Longrightarrow> key_ok k \<Longrightarrow> i < length env \<Longrightarrow> env_matches k (env ! i) \<longleftrightarrow> env_slot env i k"
  using strncmp_key_array [of "env_key (env ! i)" k] by (auto simp: env_matches_def env_inv_def key_ok_def env_slot_def)

lemma env_slot_unique: "env_inv env \<Longrightarrow> env_slot env i k \<Longrightarrow> env_slot env j k \<Longrightarrow> i = j"
  by (auto simp: env_inv_def env_slot_def)

lemma find_env_Some:
  "env_inv env \<Longrightarrow> key_ok k \<Longrightarrow> find_idx (env_matches k) env = Some i \<longleftrightarrow> env_slot env i k"
proof
  assume inv: "env_inv env" and k: "key_ok k"
  {
    assume "find_idx (env_matches k) env = Some i"
    from find_idx_SomeD(1,2) [OF this] env_matches_iff [OF inv k] show "env_slot env i k" by blast
  next
    assume s: "env_slot env i k"
    then have i: "i < length env" by (simp add: env_slot_def)
    show "find_idx (env_matches k) env = Some i"
    proof (rule find_idx_unique [OF i])
      show "env_matches k (env ! i)" using env_matches_iff [OF inv k i] s by simp
      show "j = i" if "j < length env" "env_matches k (env ! j)" for j
        using env_slot_unique [OF inv _ s] env_matches_iff [OF inv k that(1)] that(2) by blast
    qed
  }
qed

lemma find_env_None:
  "env_inv env \<Longrightarrow> key_ok k \<Longrightarrow> find_idx (env_matches k) env = None \<longleftrightarrow> (\<forall>i. \<not> env_slot env i k)"
  using find_env_Some [of env k] by (metis not_None_eq)

lemma env_lookup_slot: "env_inv env \<Longrightarrow> key_ok k \<Longrightarrow> env_slot env i k \<Longrightarrow> env_lookup env k = Some (cstring (env_val (env ! i)))"
  by (simp add: env_lookup_def env_get_def find_env_Some [THEN iffD2])

lemma env_lookup_none: "env_inv env \<Longrightarrow> key_ok k \<Longrightarrow> (\<forall>i. \<not> env_slot env i k) \<Longrightarrow> env_lookup env k = None"
  by (simp add: env_lookup_def env_get_def find_env_None [THEN iffD2])

text \<open>Replacing slot \<open>i\<close> by a variable with key \<open>k\<close> that no other slot has.\<close>

lemma env_update_slot:
  assumes inv: "env_inv env" and i: "i < length env" and k: "key_ok k"
    and v: "env_used v" "key_array (env_key v)" "cstring (env_key v) = k"
    and other: "\<forall>j. j \<noteq> i \<longrightarrow> \<not> env_slot env j k"
    and old: "env_used (env ! i) \<Longrightarrow> cstring (env_key (env ! i)) = k"
  shows "env_inv (env[i := v])"
    and "\<And>k'. key_ok k' \<Longrightarrow> env_lookup (env[i := v]) k' =
      (if k' = k then Some (cstring (env_val v)) else env_lookup env k')"
proof -
  have slot: "env_slot (env[i := v]) j k' \<longleftrightarrow> (if j = i then k' = k else env_slot env j k')" for j k'
    using i v by (auto simp: env_slot_def nth_list_update)
  show inv': "env_inv (env[i := v])"
    unfolding env_inv_def
  proof (intro conjI allI impI)
    show "length (env[i := v]) = ENV_MAX_VARS" using inv by (simp add: env_inv_def)
    fix j assume "j < length (env[i := v])" "env_used (env[i := v] ! j)"
    then show "key_array (env_key (env[i := v] ! j))"
      using inv v(2) i by (cases "j = i") (auto simp: env_inv_def)
  next
    fix j l
    assume "j < length (env[i := v])" "l < length (env[i := v])" "env_used (env[i := v] ! j)"
      "env_used (env[i := v] ! l)" "cstring (env_key (env[i := v] ! j)) = cstring (env_key (env[i := v] ! l))"
    then obtain k' where "env_slot (env[i := v]) j k'" "env_slot (env[i := v]) l k'"
      by (auto simp: env_slot_def)
    then show "j = l"
      unfolding slot using env_slot_unique [OF inv, of j k' l] other by (auto split: if_splits)
  qed
  fix k' assume k': "key_ok k'"
  show "env_lookup (env[i := v]) k' = (if k' = k then Some (cstring (env_val v)) else env_lookup env k')"
  proof (cases "k' = k")
    case True
    then show ?thesis using env_lookup_slot [OF inv' k', of i] slot [of i k'] i by simp
  next
    case False
    show ?thesis
    proof (cases "\<exists>j. env_slot env j k'")
      case True
      then obtain j where j: "env_slot env j k'" by blast
      then have "j \<noteq> i" using old False by (auto simp: env_slot_def)
      then have "env_slot (env[i := v]) j k'" using slot [of j k'] j by simp
      from env_lookup_slot [OF inv' k' this] env_lookup_slot [OF inv k' j] False \<open>j \<noteq> i\<close>
      show ?thesis by simp
    next
      case none: False
      then have "\<forall>j. \<not> env_slot (env[i := v]) j k'" using slot False by (auto split: if_splits)
      then show ?thesis
        using env_lookup_none [OF inv' k'] env_lookup_none [OF inv k'] none False by simp
    qed
  qed
qed

text \<open>Clearing slot \<open>i\<close>.\<close>

lemma env_clear_slot:
  assumes inv: "env_inv env" and s: "env_slot env i k" and v: "\<not> env_used v"
  shows "env_inv (env[i := v])"
    and "\<And>k'. key_ok k' \<Longrightarrow> env_lookup (env[i := v]) k' = (if k' = k then None else env_lookup env k')"
proof -
  have i: "i < length env" using s by (simp add: env_slot_def)
  have slot: "env_slot (env[i := v]) j k' \<longleftrightarrow> j \<noteq> i \<and> env_slot env j k'" for j k'
    using i v by (auto simp: env_slot_def nth_list_update)
  show inv': "env_inv (env[i := v])"
    unfolding env_inv_def
  proof (intro conjI allI impI)
    show "length (env[i := v]) = ENV_MAX_VARS" using inv by (simp add: env_inv_def)
    fix j assume "j < length (env[i := v])" "env_used (env[i := v] ! j)"
    then show "key_array (env_key (env[i := v] ! j))"
      using inv v i by (cases "j = i") (auto simp: env_inv_def)
  next
    fix j l
    assume "j < length (env[i := v])" "l < length (env[i := v])" "env_used (env[i := v] ! j)"
      "env_used (env[i := v] ! l)" "cstring (env_key (env[i := v] ! j)) = cstring (env_key (env[i := v] ! l))"
    then obtain k' where "env_slot (env[i := v]) j k'" "env_slot (env[i := v]) l k'"
      by (auto simp: env_slot_def)
    then show "j = l" unfolding slot using env_slot_unique [OF inv, of j k' l] by simp
  qed
  fix k' assume k': "key_ok k'"
  show "env_lookup (env[i := v]) k' = (if k' = k then None else env_lookup env k')"
  proof (cases "\<exists>j. env_slot (env[i := v]) j k'")
    case True
    then obtain j where j: "env_slot (env[i := v]) j k'" by blast
    then have j': "env_slot env j k'" "j \<noteq> i" using slot by auto
    then have "k' \<noteq> k" using env_slot_unique [OF inv s, of j] by auto
    then show ?thesis
      using env_lookup_slot [OF inv' k' j] env_lookup_slot [OF inv k' j'(1)] j'(2) by simp
  next
    case False
    moreover from this have "\<forall>j. \<not> env_slot env j k'" if "k' \<noteq> k"
      using that slot s by (metis env_slot_def)
    ultimately show ?thesis
      using env_lookup_none [OF inv' k'] env_lookup_none [OF inv k'] by simp
  qed
qed

lemma env_store_cases:
  assumes "env_store env k v = Some env'"
  obtains i where "find_idx (env_matches k) env = Some i"
      "env' = env[i := (env ! i)\<lparr>env_val := strncpy v (ENV_VAL_LEN - 1) @ [0]\<rparr>]"
  | i where "find_idx (env_matches k) env = None" "find_idx (\<lambda>v. \<not> env_used v) env = Some i"
      "env' = env[i := (env ! i)\<lparr>env_key := strncpy k (ENV_KEY_LEN - 1) @ [0],
                      env_val := strncpy v (ENV_VAL_LEN - 1) @ [0], env_used := True\<rparr>]"
  using assms by (auto simp: env_store_def env_set_def Let_def split: option.splits)

lemma env_store_spec:
  assumes inv: "env_inv env" and k: "key_ok k" and st: "env_store env k v = Some env'"
  shows "env_inv env'"
    and "\<And>k'. key_ok k' \<Longrightarrow> env_lookup env' k' = (if k' = k then Some (env_norm v) else env_lookup env k')"
proof -
  let ?val = "strncpy v (ENV_VAL_LEN - 1) @ [0]"
  have val: "cstring ?val = env_norm v" by (simp add: cstring_strncpy env_norm_def)
  have "env_inv env' \<and> (\<forall>k'. key_ok k' \<longrightarrow>
      env_lookup env' k' = (if k' = k then Some (env_norm v) else env_lookup env k'))"
    using st
  proof (cases rule: env_store_cases)
    case (1 i)
    then have s: "env_slot env i k" using find_env_Some [OF inv k] by simp
    then have i: "i < length env" "env_used (env ! i)" "cstring (env_key (env ! i)) = k"
      by (simp_all add: env_slot_def)
    have other: "\<forall>j. j \<noteq> i \<longrightarrow> \<not> env_slot env j k" using env_slot_unique [OF inv s] by blast
    have arr: "key_array (env_key (env ! i))" using inv i by (simp add: env_inv_def)
    show ?thesis
      using env_update_slot [OF inv i(1) k, of "(env ! i)\<lparr>env_val := ?val\<rparr>"] i arr other 1(2) val by simp
  next
    case (2 i)
    then have i: "i < length env" "\<not> env_used (env ! i)" by (simp_all add: find_idx_Some)
    have other: "\<forall>j. j \<noteq> i \<longrightarrow> \<not> env_slot env j k" using 2(1) find_env_None [OF inv k] by simp
    show ?thesis
      using env_update_slot [OF inv i(1) k, of "(env ! i)\<lparr>env_key := strncpy k (ENV_KEY_LEN - 1) @ [0],
          env_val := ?val, env_used := True\<rparr>"] i other 2(3) val key_array_strncpy [of k] cstring_key_array [OF k]
      by simp
  qed
  then show "env_inv env'"
    and "\<And>k'. key_ok k' \<Longrightarrow> env_lookup env' k' = (if k' = k then Some (env_norm v) else env_lookup env k')"
    by auto
qed

lemma env_store_None:
  assumes "env_inv env" "key_ok k" "env_store env k v = None"
  shows "env_lookup env k = None"
proof -
  have "find_idx (env_matches k) env = None"
    using assms(3) by (cases "find_idx (env_matches k) env") (auto simp: env_store_def env_set_def Let_def)
  then show ?thesis by (simp add: env_lookup_def env_get_def)
qed

lemma env_delete_spec:
  assumes inv: "env_inv env" and k: "key_ok k"
  shows "env_delete env k = None \<longleftrightarrow> env_lookup env k = None"
    and "env_delete env k = Some env' \<Longrightarrow> env_inv env'"
    and "env_delete env k = Some env' \<Longrightarrow> key_ok k' \<Longrightarrow>
      env_lookup env' k' = (if k' = k then None else env_lookup env k')"
proof -
  show "env_delete env k = None \<longleftrightarrow> env_lookup env k = None"
    by (auto simp: env_delete_def env_unset_def env_lookup_def env_get_def split: option.splits)
  assume d: "env_delete env k = Some env'"
  then obtain i where i: "find_idx (env_matches k) env = Some i" "env' = env[i := env_zero_var]"
    by (auto simp: env_delete_def env_unset_def split: option.splits)
  have z: "\<not> env_used env_zero_var" by (simp add: env_zero_var_def)
  have "env_slot env i k" using i(1) find_env_Some [OF inv k] by simp
  note clear = env_clear_slot [OF inv this z]
  show "env_inv env'" using clear(1) i(2) by simp
  assume "key_ok k'"
  then show "env_lookup env' k' = (if k' = k then None else env_lookup env k')" using clear(2) i(2) by simp
qed

interpretation env_tab: kv_table_del env_lookup env_store env_inv key_ok env_norm env_delete
proof
  fix s s' :: env_block and k k' v :: cstr
  assume inv: "env_inv s" and k: "key_ok k"
  show "env_delete s k = None \<longleftrightarrow> env_lookup s k = None" by (rule env_delete_spec(1) [OF inv k])
  show "env_store s k v = None \<Longrightarrow> env_lookup s k = None" by (rule env_store_None [OF inv k])
  show "env_store s k v = Some s' \<Longrightarrow> env_inv s'" by (rule env_store_spec(1) [OF inv k])
  show "env_delete s k = Some s' \<Longrightarrow> env_inv s'" by (rule env_delete_spec(2) [OF inv k])
  assume k': "key_ok k'"
  show "env_store s k v = Some s' \<Longrightarrow> env_lookup s' k' = (if k' = k then Some (env_norm v) else env_lookup s k')"
    by (rule env_store_spec(2) [OF inv k _ k'])
  show "env_delete s k = Some s' \<Longrightarrow> env_lookup s' k' = (if k' = k then None else env_lookup s k')"
    by (rule env_delete_spec(3) [OF inv k _ k'])
qed

lemma env_empty_inv: "env_inv (replicate ENV_MAX_VARS env_zero_var)"
  by (simp add: env_inv_def env_zero_var_def)

lemma env_init_inv: "env_inv env_init"
proof -
  have step: "env_inv env \<Longrightarrow> key_ok k \<Longrightarrow> env_inv (snd (env_set env (Some k) (Some v)))" for env k v
    using env_store_spec(1) [of env k v "snd (env_set env (Some k) (Some v))"]
    by (auto simp: env_store_def env_set_def Let_def split: option.splits prod.splits if_splits)
  show ?thesis
    unfolding env_init_def fold.simps o_def id_def prod.case
    by (intro step env_empty_inv) (simp_all add: key_ok_def ENV_KEY_LEN_def)
qed

section \<open>Long keys\<close>

text \<open>A key of 64 bytes or more is accepted by \<open>env_set\<close> but found by none of the operations.\<close>

lemma env_long_key_lost:
  assumes "env_inv env" "0 \<notin> set k" "ENV_KEY_LEN \<le> length k"
  shows "env_get env (Some k) = None" "env_unset env (Some k) = (- 1, env)"
proof -
  have "find_idx (env_matches k) env = None"
    using assms strncmp_key_array [of _ k]
    by (auto simp: find_idx_None in_set_conv_nth env_matches_def env_inv_def)
  then show "env_get env (Some k) = None" "env_unset env (Some k) = (- 1, env)"
    by (simp_all add: env_get_def env_unset_def)
qed

section \<open>Properties\<close>

text \<open>after any sequence of successful \<open>env_set\<close>s with keys below 64 bytes, \<open>env_get\<close> returns
  the last value stored under the key (its first 255 bytes), and the old value otherwise.\<close>

theorem env_last_write_wins:
  assumes "env_inv env" "\<forall>(k, v) \<in> set kvs. key_ok k" "key_ok k'" "puts env_store env kvs = Some env'"
  shows "env_lookup env' k' =
    (case map_of (rev kvs) k' of Some v \<Rightarrow> Some (env_norm v) | None \<Rightarrow> env_lookup env k')"
  using env_tab.lookup_puts [OF assms] by simp

lemma env_example:
  "puts env_store (replicate ENV_MAX_VARS env_zero_var) [([65], [66])] =
     Some ((replicate ENV_MAX_VARS env_zero_var)[0 := \<lparr>env_key = strncpy [65] 63 @ [0],
        env_val = strncpy [66] 255 @ [0], env_used = True\<rparr>])"
proof -
  have "find_idx (env_matches [65]) (replicate ENV_MAX_VARS env_zero_var) = None"
    by (auto simp: find_idx_None env_matches_def env_zero_var_def)
  moreover have "find_idx (\<lambda>v. \<not> env_used v) (replicate ENV_MAX_VARS env_zero_var) = Some 0"
    by (simp add: find_idx_Some ENV_MAX_VARS_def env_zero_var_def)
  ultimately show ?thesis
    by (simp add: env_store_def env_set_def ENV_KEY_LEN_def ENV_VAL_LEN_def)
      (simp add: env_zero_var_def ENV_MAX_VARS_def)
qed

theorem env_last_write_wins_witness:
  "env_lookup ((replicate ENV_MAX_VARS env_zero_var)[0 := \<lparr>env_key = strncpy [65] 63 @ [0],
        env_val = strncpy [66] 255 @ [0], env_used = True\<rparr>]) [65] =
    (case map_of (rev [([65], [66])]) [65 :: u8] of Some v \<Rightarrow> Some (env_norm v)
     | None \<Rightarrow> env_lookup (replicate ENV_MAX_VARS env_zero_var) [65])"
  by (rule env_last_write_wins [OF env_empty_inv _ _ env_example]) (simp_all add: key_ok_def ENV_KEY_LEN_def)

end
