(* ===== verification/MsgQueue.thy ===== *)
theory MsgQueue
  imports KString
begin

text \<open>
  The message queues of \<open>ipc/msgqueue.c\<close>: a table of 16 named queues, each an array of 32
  messages kept in order of decreasing priority by shifting. The critical section under the
  queue's mutex is one step; a full queue in \<open>mq_send\<close> and an empty one in \<open>mq_recv\<close> make
  the call wait, which is the outcome \<open>Blocks\<close>. Shown: sending keeps the array sorted and
  first-in first-out within each priority, receiving takes the oldest message of the highest
  priority, and never more than 32 messages are queued.
\<close>

definition MQ_MAX_QUEUES :: nat where "MQ_MAX_QUEUES = 16"
definition MQ_MAX_MSGS :: nat where "MQ_MAX_MSGS = 32"
definition MQ_MAX_MSG_SIZE :: nat where "MQ_MAX_MSG_SIZE = 512"
definition MQ_NAME_LEN :: nat where "MQ_NAME_LEN = 32"

record mq_msg =
  mq_data :: "u8 list"
  mq_len :: nat
  mq_priority :: u8
  mq_msg_used :: bool

record mq_queue =
  mq_name :: "u8 list"
  mq_msgs :: "mq_msg list"
  mq_count :: nat
  mq_used :: bool
  mq_id :: nat

record mq_state =
  mq_queues :: "mq_queue list"
  next_qid :: nat

datatype 'a mq_outcome = Blocks | Returns 'a

section \<open>The message array\<close>

text \<open>\<open>for (int i = msg_count; i > ins; i--) msgs[i] = msgs[i - 1];\<close>\<close>

fun mq_shift_down :: "nat \<Rightarrow> nat \<Rightarrow> 'a list \<Rightarrow> 'a list" where
  "mq_shift_down 0 ins msgs = msgs"
| "mq_shift_down (Suc i) ins msgs =
     (if ins \<le> i then mq_shift_down i ins (msgs[Suc i := msgs ! i]) else msgs)"

text \<open>\<open>for (i = 1; i < msg_count; i++) msgs[i-1] = msgs[i];\<close> with the remaining count.\<close>

fun mq_shift_up :: "nat \<Rightarrow> nat \<Rightarrow> 'a list \<Rightarrow> 'a list" where
  "mq_shift_up i 0 msgs = msgs"
| "mq_shift_up i (Suc k) msgs = mq_shift_up (Suc i) k (msgs[i - 1 := msgs ! i])"

definition mq_insert_pos :: "u8 \<Rightarrow> mq_queue \<Rightarrow> nat" where
  "mq_insert_pos p q =
     (case find_idx (\<lambda>m. mq_priority m < p) (take (mq_count q) (mq_msgs q)) of
        Some i \<Rightarrow> i
      | None \<Rightarrow> mq_count q)"

text \<open>The body of \<open>mq_send\<close> on one queue; the message length has been cut already.\<close>

definition mq_put :: "u8 list \<Rightarrow> nat \<Rightarrow> u8 \<Rightarrow> mq_queue \<Rightarrow> mq_queue mq_outcome" where
  "mq_put data len p q =
     (if mq_count q \<ge> MQ_MAX_MSGS then Blocks
      else (let ins = mq_insert_pos p q;
                msgs = mq_shift_down (mq_count q) ins (mq_msgs q);
                m = msgs ! ins;
                m = m\<lparr>mq_data := put_at (mq_data m) 0 (take len data), mq_len := len,
                      mq_priority := p, mq_msg_used := True\<rparr>
            in Returns (q\<lparr>mq_msgs := msgs[ins := m], mq_count := mq_count q + 1\<rparr>)))"

text \<open>The common part of \<open>mq_recv\<close> and \<open>mq_tryrecv\<close>: the bytes copied and the queue after.\<close>

definition mq_take :: "nat \<Rightarrow> mq_queue \<Rightarrow> (u8 list \<times> mq_queue) option" where
  "mq_take maxlen q =
     (if mq_count q = 0 then None
      else (let m = mq_msgs q ! 0;
                n = (if mq_len m < maxlen then mq_len m else maxlen)
            in Some (take n (mq_data m),
                     q\<lparr>mq_msgs := mq_shift_up 1 (mq_count q - 1) (mq_msgs q), mq_count := mq_count q - 1\<rparr>)))"

section \<open>The queue table\<close>

definition mq_find :: "nat \<Rightarrow> mq_state \<Rightarrow> nat option" where
  "mq_find qid s = find_idx (\<lambda>q. mq_used q \<and> mq_id q = qid) (mq_queues s)"

definition mq_zero_msg :: mq_msg where
  "mq_zero_msg = \<lparr>mq_data = replicate MQ_MAX_MSG_SIZE 0, mq_len = 0, mq_priority = 0, mq_msg_used = False\<rparr>"

definition mq_zero_queue :: mq_queue where
  "mq_zero_queue = \<lparr>mq_name = replicate MQ_NAME_LEN 0, mq_msgs = replicate MQ_MAX_MSGS mq_zero_msg,
     mq_count = 0, mq_used = False, mq_id = 0\<rparr>"

text \<open>\<open>mq_init\<close> clears the table only; the id counter starts at 1.\<close>

definition mq_init :: "mq_state \<Rightarrow> mq_state" where
  "mq_init s = s\<lparr>mq_queues := replicate MQ_MAX_QUEUES mq_zero_queue\<rparr>"

definition mq_open :: "cstr \<Rightarrow> mq_state \<Rightarrow> int \<times> mq_state" where
  "mq_open name s =
     (case find_idx (\<lambda>q. mq_used q \<and> strncmp (mq_name q) name (MQ_NAME_LEN - 1) = 0) (mq_queues s) of
        Some i \<Rightarrow> (int (mq_id (mq_queues s ! i)), s)
      | None \<Rightarrow>
          (case find_idx (\<lambda>q. \<not> mq_used q) (mq_queues s) of
             None \<Rightarrow> (- 1, s)
           | Some i \<Rightarrow>
               (int (next_qid s),
                s\<lparr>mq_queues := (mq_queues s)[i := mq_zero_queue
                     \<lparr>mq_name := strncpy name (MQ_NAME_LEN - 1) @ [0], mq_id := next_qid s, mq_used := True\<rparr>],
                  next_qid := next_qid s + 1\<rparr>)))"

definition mq_close :: "nat \<Rightarrow> mq_state \<Rightarrow> mq_state" where
  "mq_close qid s =
     (case mq_find qid s of
        None \<Rightarrow> s
      | Some i \<Rightarrow> s\<lparr>mq_queues := (mq_queues s)[i := (mq_queues s ! i)\<lparr>mq_used := False\<rparr>]\<rparr>)"

definition mq_send :: "nat \<Rightarrow> u8 list \<Rightarrow> nat \<Rightarrow> u8 \<Rightarrow> mq_state \<Rightarrow> (int \<times> mq_state) mq_outcome" where
  "mq_send qid data len p s =
     (case mq_find qid s of
        None \<Rightarrow> Returns (- 1, s)
      | Some i \<Rightarrow>
          (let len = (if len > MQ_MAX_MSG_SIZE then MQ_MAX_MSG_SIZE else len)
           in case mq_put data len p (mq_queues s ! i) of
                Blocks \<Rightarrow> Blocks
              | Returns q \<Rightarrow> Returns (0, s\<lparr>mq_queues := (mq_queues s)[i := q]\<rparr>)))"

text \<open>\<open>mq_recv\<close> returns the copied bytes with their count; \<open>mq_tryrecv\<close> returns 0 on an empty queue.\<close>

definition mq_recv :: "nat \<Rightarrow> nat \<Rightarrow> mq_state \<Rightarrow> (int \<times> u8 list \<times> mq_state) mq_outcome" where
  "mq_recv qid maxlen s =
     (case mq_find qid s of
        None \<Rightarrow> Returns (- 1, [], s)
      | Some i \<Rightarrow>
          (case mq_take maxlen (mq_queues s ! i) of
             None \<Rightarrow> Blocks
           | Some (bs, q) \<Rightarrow> Returns (int (length bs), bs, s\<lparr>mq_queues := (mq_queues s)[i := q]\<rparr>)))"

definition mq_tryrecv :: "nat \<Rightarrow> nat \<Rightarrow> mq_state \<Rightarrow> int \<times> u8 list \<times> mq_state" where
  "mq_tryrecv qid maxlen s =
     (case mq_find qid s of
        None \<Rightarrow> (- 1, [], s)
      | Some i \<Rightarrow>
          (case mq_take maxlen (mq_queues s ! i) of
             None \<Rightarrow> (0, [], s)
           | Some (bs, q) \<Rightarrow> (int (length bs), bs, s\<lparr>mq_queues := (mq_queues s)[i := q]\<rparr>)))"

section \<open>The shifting loops\<close>

lemma mq_shift_down_eq:
  "ins \<le> n \<Longrightarrow> n < length msgs \<Longrightarrow>
   take (Suc n) ((mq_shift_down n ins msgs)[ins := x]) = take ins msgs @ x # drop ins (take n msgs)
   \<and> length (mq_shift_down n ins msgs) = length msgs
   \<and> drop (Suc n) (mq_shift_down n ins msgs) = drop (Suc n) msgs"
proof (induction n ins msgs rule: mq_shift_down.induct)
  case (1 ins msgs)
  then show ?case by (cases msgs) auto
next
  case (2 i ins msgs)
  show ?case
  proof (cases "ins \<le> i")
    case True
    let ?m = "msgs[Suc i := msgs ! i]"
    have IH: "take (Suc i) ((mq_shift_down i ins ?m)[ins := x]) = take ins ?m @ x # drop ins (take i ?m)"
      "length (mq_shift_down i ins ?m) = length ?m"
      "drop (Suc i) (mq_shift_down i ins ?m) = drop (Suc i) ?m"
      using "2.IH" [OF True True] "2.prems" by simp_all
    let ?r = "mq_shift_down i ins ?m"
    have nth: "?r ! Suc i = msgs ! i"
    proof -
      have "drop (Suc i) ?r ! 0 = drop (Suc i) ?m ! 0" using IH(3) by simp
      then show ?thesis using "2.prems" IH(2) by simp
    qed
    have "take (Suc (Suc i)) (?r[ins := x]) = take (Suc i) (?r[ins := x]) @ [?r[ins := x] ! Suc i]"
      using "2.prems" IH(2) by (intro take_Suc_conv_app_nth) simp
    also have "?r[ins := x] ! Suc i = msgs ! i" using True nth by simp
    also have "take (Suc i) (?r[ins := x]) = take ins msgs @ x # drop ins (take i msgs)"
      using IH(1) True by simp
    finally have "take (Suc (Suc i)) (?r[ins := x]) = take ins msgs @ x # drop ins (take (Suc i) msgs)"
      using True "2.prems" by (simp add: take_Suc_conv_app_nth)
    moreover have "drop (Suc (Suc i)) ?r = drop (Suc (Suc i)) msgs"
    proof -
      have "drop 1 (drop (Suc i) ?r) = drop 1 (drop (Suc i) ?m)" using IH(3) by simp
      then show ?thesis by simp
    qed
    ultimately show ?thesis using True IH(2) by simp
  next
    case False
    then have ins: "ins = Suc i" using "2.prems" by simp
    show ?thesis using "2.prems" unfolding ins by (simp add: take_Suc_conv_app_nth)
  qed
qed

lemma set_mq_shift_down: "n < length msgs \<Longrightarrow> set (mq_shift_down n ins msgs) \<subseteq> set msgs"
proof (induction n ins msgs rule: mq_shift_down.induct)
  case (2 i ins msgs)
  have "set (msgs[Suc i := msgs ! i]) \<subseteq> set msgs"
    using "2.prems" by (intro set_update_subsetI) auto
  then show ?case using 2 by auto
qed simp

lemma set_mq_shift_up: "i + k \<le> length msgs \<Longrightarrow> set (mq_shift_up i k msgs) \<subseteq> set msgs"
proof (induction i k msgs rule: mq_shift_up.induct)
  case (2 i k msgs)
  have "set (msgs[i - 1 := msgs ! i]) \<subseteq> set msgs"
    using "2.prems" by (intro set_update_subsetI) auto
  then show ?case using 2 by auto
qed simp

lemma mq_shift_up_eq:
  "0 < i \<Longrightarrow> i + k \<le> length msgs \<Longrightarrow>
   take (i + k - 1) (mq_shift_up i k msgs) = take (i - 1) msgs @ drop i (take (i + k) msgs)
   \<and> length (mq_shift_up i k msgs) = length msgs"
proof (induction i k msgs rule: mq_shift_up.induct)
  case (1 i msgs)
  then show ?case by simp
next
  case (2 i k msgs)
  let ?m = "msgs[i - 1 := msgs ! i]"
  have IH: "take (i + k) (mq_shift_up (Suc i) k ?m) = take i ?m @ drop (Suc i) (take (Suc i + k) ?m)"
    "length (mq_shift_up (Suc i) k ?m) = length msgs"
    using 2 by simp_all
  have "take i ?m = take (i - 1) msgs @ [msgs ! i]"
    using 2 by (cases i) (simp_all add: take_Suc_conv_app_nth)
  moreover have "drop (Suc i) (take (Suc i + k) ?m) = drop (Suc i) (take (Suc i + k) msgs)"
    using 2 by (simp add: drop_take)
  moreover have "drop i (take (Suc (i + k)) msgs) = msgs ! i # drop (Suc i) (take (Suc (i + k)) msgs)"
    using 2 by (subst Cons_nth_drop_Suc [symmetric]) simp_all
  ultimately show ?case using IH by simp
qed

section \<open>One queue as an abstract priority queue\<close>

definition mq_wf :: "mq_queue \<Rightarrow> bool" where
  "mq_wf q \<longleftrightarrow> length (mq_msgs q) = MQ_MAX_MSGS \<and> mq_count q \<le> MQ_MAX_MSGS \<and>
     (\<forall>m \<in> set (mq_msgs q). length (mq_data m) = MQ_MAX_MSG_SIZE \<and> mq_len m \<le> MQ_MAX_MSG_SIZE)"

text \<open>The queued messages as (priority, payload), in array order.\<close>

definition mq_contents :: "mq_queue \<Rightarrow> (u8 \<times> u8 list) list" where
  "mq_contents q = map (\<lambda>m. (mq_priority m, take (mq_len m) (mq_data m))) (take (mq_count q) (mq_msgs q))"

definition by_priority :: "(u8 \<times> 'a) list \<Rightarrow> bool" where
  "by_priority xs \<longleftrightarrow> sorted_wrt (\<lambda>a b. fst b \<le> fst a) xs"

text \<open>Insertion after every message of the same or a higher priority.\<close>

definition mq_insert :: "u8 \<times> 'a \<Rightarrow> (u8 \<times> 'a) list \<Rightarrow> (u8 \<times> 'a) list" where
  "mq_insert m xs = takeWhile (\<lambda>x. fst m \<le> fst x) xs @ m # dropWhile (\<lambda>x. fst m \<le> fst x) xs"

lemma find_idx_takeWhile:
  "(case find_idx P xs of Some i \<Rightarrow> i | None \<Rightarrow> length xs) = length (takeWhile (\<lambda>x. \<not> P x) xs)"
  by (induction xs) (auto split: option.splits)

lemma mq_put_cases:
  assumes wf: "mq_wf q" and len: "len \<le> MQ_MAX_MSG_SIZE" "len \<le> length data"
  shows "if mq_count q = MQ_MAX_MSGS then mq_put data len p q = Blocks
    else (\<exists>q'. mq_put data len p q = Returns q' \<and> mq_wf q' \<and>
      mq_contents q' = mq_insert (p, take len data) (mq_contents q))"
proof (cases "mq_count q = MQ_MAX_MSGS")
  case False
  then have room: "mq_count q < MQ_MAX_MSGS" using wf by (simp add: mq_wf_def)
  let ?live = "take (mq_count q) (mq_msgs q)"
  define ins where "ins = mq_insert_pos p q"
  have ins: "ins = length (takeWhile (\<lambda>m. p \<le> mq_priority m) ?live)"
  proof -
    have "length ?live = mq_count q" using wf room by (simp add: mq_wf_def)
    then show ?thesis
      using find_idx_takeWhile [where P = "\<lambda>m. mq_priority m < p" and xs = ?live]
      by (simp only: ins_def mq_insert_pos_def not_less)
  qed
  have insle: "ins \<le> mq_count q"
    using length_takeWhile_le [of "\<lambda>m. p \<le> mq_priority m" ?live] wf room by (simp add: ins mq_wf_def)
  have lt: "mq_count q < length (mq_msgs q)" using room wf by (simp add: mq_wf_def)
  define sh where "sh = mq_shift_down (mq_count q) ins (mq_msgs q)"
  define m where "m = (sh ! ins)\<lparr>mq_data := put_at (mq_data (sh ! ins)) 0 (take len data), mq_len := len,
      mq_priority := p, mq_msg_used := True\<rparr>"
  define q' where "q' = q\<lparr>mq_msgs := sh[ins := m], mq_count := mq_count q + 1\<rparr>"
  have put: "mq_put data len p q = Returns q'"
    using room by (simp add: mq_put_def Let_def q'_def m_def sh_def ins_def)
  note shift = mq_shift_down_eq [OF insle lt, folded sh_def]
  have lsh: "length sh = length (mq_msgs q)" using shift by blast
  have live': "take (Suc (mq_count q)) (sh[ins := x]) = take ins ?live @ x # drop ins ?live" for x
    using shift insle by (simp add: min_absorb1)
  have sub: "set sh \<subseteq> set (mq_msgs q)" unfolding sh_def by (rule set_mq_shift_down [OF lt])
  have "sh ! ins \<in> set (mq_msgs q)" using sub insle lt lsh by (metis le_less_trans nth_mem subsetD)
  then have dm: "length (mq_data (sh ! ins)) = MQ_MAX_MSG_SIZE" using wf by (simp add: mq_wf_def)
  have take_len: "length (take len data) = len" using len(2) by simp
  have m: "length (mq_data m) = MQ_MAX_MSG_SIZE" "mq_len m = len" "mq_priority m = p"
    "take len (mq_data m) = take len data"
    using dm len take_len by (simp_all add: m_def put_at_def)
  have "mq_wf q'"
    unfolding mq_wf_def
  proof (intro conjI ballI)
    show "length (mq_msgs q') = MQ_MAX_MSGS" "mq_count q' \<le> MQ_MAX_MSGS"
      using wf lsh room by (simp_all add: q'_def mq_wf_def)
    fix x assume "x \<in> set (mq_msgs q')"
    then have "x = m \<or> x \<in> set (mq_msgs q)"
      using sub set_update_subset_insert [of sh ins m] by (auto simp: q'_def)
    then show "length (mq_data x) = MQ_MAX_MSG_SIZE" "mq_len x \<le> MQ_MAX_MSG_SIZE"
      using m len wf by (auto simp: mq_wf_def)
  qed
  moreover have "mq_contents q' = mq_insert (p, take len data) (mq_contents q)"
  proof -
    let ?f = "\<lambda>m. (mq_priority m, take (mq_len m) (mq_data m))"
    have "mq_contents q' = map ?f (take ins ?live) @ ?f m # map ?f (drop ins ?live)"
      using live' [of m] by (simp add: mq_contents_def q'_def)
    also have "take ins ?live = takeWhile (\<lambda>m. p \<le> mq_priority m) ?live"
      unfolding ins by (rule takeWhile_eq_take [symmetric])
    also have "drop ins ?live = dropWhile (\<lambda>m. p \<le> mq_priority m) ?live"
      unfolding ins by (rule dropWhile_eq_drop [symmetric])
    finally show ?thesis
      using m by (simp add: mq_insert_def mq_contents_def takeWhile_map dropWhile_map o_def)
  qed
  ultimately show ?thesis using False put by auto
qed (simp add: mq_put_def)

lemma mq_take_cases:
  assumes wf: "mq_wf q"
  shows "case mq_contents q of
      [] \<Rightarrow> mq_take maxlen q = None
    | m # ms \<Rightarrow> \<exists>q'. mq_take maxlen q = Some (take maxlen (snd m), q') \<and> mq_wf q' \<and> mq_contents q' = ms"
proof (cases "mq_count q")
  case 0
  then show ?thesis by (simp add: mq_contents_def mq_take_def)
next
  case (Suc n)
  let ?f = "\<lambda>m. (mq_priority m, take (mq_len m) (mq_data m))"
  let ?ms = "mq_msgs q"
  have le: "Suc n \<le> length ?ms" using wf Suc by (simp add: mq_wf_def)
  then have hd: "take (Suc n) ?ms = ?ms ! 0 # drop 1 (take (Suc n) ?ms)"
    by (cases ?ms) auto
  have up: "take n (mq_shift_up 1 n ?ms) = drop 1 (take (Suc n) ?ms)" "length (mq_shift_up 1 n ?ms) = length ?ms"
    using mq_shift_up_eq [of 1 n ?ms] le by simp_all
  have sub: "set (mq_shift_up 1 n ?ms) \<subseteq> set ?ms" using set_mq_shift_up [of 1 n ?ms] le by simp
  define q' where "q' = q\<lparr>mq_msgs := mq_shift_up 1 n ?ms, mq_count := n\<rparr>"
  have c: "mq_contents q = ?f (?ms ! 0) # mq_contents q'"
    using arg_cong [OF hd, of "map ?f"] up(1) Suc by (simp add: mq_contents_def q'_def)
  have "take (if mq_len (?ms ! 0) < maxlen then mq_len (?ms ! 0) else maxlen) (mq_data (?ms ! 0)) =
      take maxlen (take (mq_len (?ms ! 0)) (mq_data (?ms ! 0)))"
    by (simp add: min_def)
  then have "mq_take maxlen q = Some (take maxlen (snd (?f (?ms ! 0))), q')"
    using Suc by (simp add: mq_take_def Let_def q'_def)
  moreover have "mq_wf q'" using wf up(2) sub Suc by (auto simp: mq_wf_def q'_def)
  ultimately show ?thesis unfolding c by simp
qed

lemma mq_insert_simps:
  "mq_insert m [] = [m]"
  "mq_insert m (x # xs) = (if fst m \<le> fst x then x # mq_insert m xs else m # x # xs)"
  by (simp_all add: mq_insert_def)

lemma set_mq_insert: "set (mq_insert m xs) = insert m (set xs)"
  by (induction xs) (auto simp: mq_insert_simps)

lemma sorted_insert: "by_priority xs \<Longrightarrow> by_priority (mq_insert m xs)"
  by (induction xs) (auto simp: by_priority_def mq_insert_simps set_mq_insert)

lemma fifo_insert:
  "by_priority xs \<Longrightarrow> filter (\<lambda>x. fst x = p) (mq_insert m xs) =
     filter (\<lambda>x. fst x = p) xs @ (if fst m = p then [m] else [])"
proof (induction xs)
  case (Cons x xs)
  show ?case
  proof (cases "fst m \<le> fst x")
    case True
    with Cons show ?thesis by (simp add: mq_insert_simps by_priority_def)
  next
    case False
    have "fst y \<noteq> fst m" if "y \<in> set (x # xs)" for y
      using that Cons.prems False by (auto simp: by_priority_def)
    then have "filter (\<lambda>y. fst y = fst m) (x # xs) = []" by (auto simp: filter_empty_conv)
    then show ?thesis using False by (auto simp: mq_insert_simps)
  qed
qed (simp add: mq_insert_simps)

section \<open>Properties\<close>

text \<open>sending to a well-formed queue blocks exactly when 32 messages are queued; otherwise the
  queue stays sorted by priority, and within every priority the new message comes last.\<close>

theorem mq_send_priority_fifo:
  assumes "mq_wf q" "by_priority (mq_contents q)" "len \<le> MQ_MAX_MSG_SIZE" "len \<le> length data"
  shows "if mq_count q = MQ_MAX_MSGS then mq_put data len p q = Blocks
    else (\<exists>q'. mq_put data len p q = Returns q' \<and> mq_wf q' \<and> by_priority (mq_contents q') \<and>
      (\<forall>r. filter (\<lambda>x. fst x = r) (mq_contents q') =
        filter (\<lambda>x. fst x = r) (mq_contents q) @ (if p = r then [(p, take len data)] else [])))"
  using mq_put_cases [OF assms(1,3,4), of p] sorted_insert [OF assms(2), of "(p, take len data)"]
    fifo_insert [OF assms(2), where m = "(p, take len data)"]
  by (cases "mq_count q = MQ_MAX_MSGS") auto

lemma mq_zero_wf: "mq_wf mq_zero_queue \<and> mq_contents mq_zero_queue = []"
  by (simp add: mq_wf_def mq_zero_queue_def mq_zero_msg_def mq_contents_def)

theorem mq_send_priority_fifo_witness:
  "if mq_count mq_zero_queue = MQ_MAX_MSGS then mq_put [1, 2] 2 9 mq_zero_queue = Blocks
    else (\<exists>q'. mq_put [1, 2] 2 9 mq_zero_queue = Returns q' \<and> mq_wf q' \<and> by_priority (mq_contents q') \<and>
      (\<forall>r. filter (\<lambda>x. fst x = r) (mq_contents q') =
        filter (\<lambda>x. fst x = r) (mq_contents mq_zero_queue) @ (if 9 = r then [(9, take 2 [1, 2])] else [])))"
  by (rule mq_send_priority_fifo) (simp_all add: mq_zero_wf by_priority_def MQ_MAX_MSG_SIZE_def)

text \<open>Receiving takes the first message in priority order, at most \<open>maxlen\<close> bytes of it, and leaves
  the others; it blocks exactly when the queue is empty.\<close>

theorem mq_recv_takes_first:
  assumes "mq_wf q"
  shows "case mq_contents q of
      [] \<Rightarrow> mq_take maxlen q = None
    | m # ms \<Rightarrow> \<exists>q'. mq_take maxlen q = Some (take maxlen (snd m), q') \<and> mq_wf q' \<and> mq_contents q' = ms"
  by (rule mq_take_cases [OF assms])

definition mq_one :: mq_queue where
  "mq_one = mq_zero_queue\<lparr>mq_msgs := (replicate MQ_MAX_MSGS mq_zero_msg)
      [0 := mq_zero_msg\<lparr>mq_len := 3, mq_priority := 5\<rparr>], mq_count := 1\<rparr>"

theorem mq_recv_takes_first_witness:
  "case mq_contents mq_one of
      [] \<Rightarrow> mq_take 2 mq_one = None
    | m # ms \<Rightarrow> \<exists>q'. mq_take 2 mq_one = Some (take 2 (snd m), q') \<and> mq_wf q' \<and> mq_contents q' = ms"
proof (rule mq_recv_takes_first)
  show "mq_wf mq_one"
    by (auto simp: mq_wf_def mq_one_def mq_zero_msg_def MQ_MAX_MSGS_def MQ_MAX_MSG_SIZE_def
        dest: set_update_subset_insert [THEN subsetD])
qed

end
