(* ===== verification/Pipe.thy ===== *)
theory Pipe
  imports Interfaces
begin

text \<open>
  Anonymous pipes (\<open>ipc/pipe.c\<close>): a 4096-byte ring with free-running 32-bit positions and
  reference counts for both ends. The section under the pipe's mutex is one step; waiting on a
  condition variable is an outcome, and a write that waits has already stored what fitted.
  Shown: whatever the interleaving of reads, writes and closes, the bytes read are a prefix of
  the bytes accepted and the rest is in the ring.
\<close>

definition PIPE_BUF_SIZE :: nat where "PIPE_BUF_SIZE = 4096"
definition PIPE_MAX :: nat where "PIPE_MAX = 32"

record pipe =
  p_buf :: "u8 list"
  read_pos :: u32
  write_pos :: u32
  p_count :: nat
  ref_read :: nat
  ref_write :: nat
  p_used :: bool

section \<open>Operations\<close>

definition pipe_fresh :: pipe where
  "pipe_fresh = \<lparr>p_buf = replicate PIPE_BUF_SIZE 0, read_pos = 0, write_pos = 0, p_count = 0,
     ref_read = 1, ref_write = 1, p_used = True\<rparr>"

text \<open>\<open>pipe_create\<close>: the slot taken; \<open>nodes_ok\<close> tells whether both \<open>kzalloc\<close>s succeeded.\<close>

definition pipe_create :: "bool \<Rightarrow> pipe list \<Rightarrow> nat option \<times> pipe list" where
  "pipe_create nodes_ok tab =
     (case find_idx (\<lambda>p. \<not> p_used p) tab of
        None \<Rightarrow> (None, tab)
      | Some i \<Rightarrow>
          if nodes_ok then (Some i, tab[i := pipe_fresh])
          else (None, tab[i := pipe_fresh\<lparr>p_used := False\<rparr>]))"

datatype pipe_read_result = PR_Waits | PR_Eof | PR_Data "u8 list"

text \<open>The copy loop of \<open>pipe_read\<close>.\<close>

fun pipe_read_bytes :: "nat \<Rightarrow> pipe \<Rightarrow> u8 list \<times> pipe" where
  "pipe_read_bytes 0 p = ([], p)"
| "pipe_read_bytes (Suc n) p =
     (let b = p_buf p ! (unat (read_pos p) mod PIPE_BUF_SIZE);
          (bs, p') = pipe_read_bytes n (p\<lparr>read_pos := read_pos p + 1\<rparr>)
      in (b # bs, p'))"

definition pipe_read :: "nat \<Rightarrow> pipe \<Rightarrow> pipe_read_result \<times> pipe" where
  "pipe_read len p =
     (if p_count p = 0 then (if ref_write p = 0 then (PR_Eof, p) else (PR_Waits, p))
      else (let n = (if len < p_count p then len else p_count p);
                (bs, p) = pipe_read_bytes n p
            in (PR_Data bs, p\<lparr>p_count := p_count p - n\<rparr>)))"

datatype pipe_write_result = PW_Done nat | PW_Waits nat | PW_NoReader

fun pipe_write_bytes :: "u8 list \<Rightarrow> pipe \<Rightarrow> pipe" where
  "pipe_write_bytes [] p = p"
| "pipe_write_bytes (b # bs) p =
     pipe_write_bytes bs
       (p\<lparr>p_buf := (p_buf p)[unat (write_pos p) mod PIPE_BUF_SIZE := b], write_pos := write_pos p + 1\<rparr>)"

text \<open>
  The loop \<open>while (written < len)\<close>: it ends with everything written, or waiting on a full
  ring with the number of bytes written so far, or with the last reader gone.
\<close>

function pipe_write_loop :: "u8 list \<Rightarrow> nat \<Rightarrow> pipe \<Rightarrow> pipe_write_result \<times> pipe" where
  "pipe_write_loop bs written p =
     (if bs = [] then (PW_Done written, p)
      else if p_count p \<ge> PIPE_BUF_SIZE then
        (if ref_read p = 0 then (PW_NoReader, p) else (PW_Waits written, p))
      else (let space = PIPE_BUF_SIZE - p_count p;
                chunk = (if length bs < space then length bs else space);
                p = pipe_write_bytes (take chunk bs) p;
                p = p\<lparr>p_count := p_count p + chunk\<rparr>
            in pipe_write_loop (drop chunk bs) (written + chunk) p))"
  by pat_completeness auto
termination
  by (relation "measure (\<lambda>(bs, w, p). length bs)") auto

declare pipe_write_loop.simps [simp del]

definition pipe_write :: "u8 list \<Rightarrow> pipe \<Rightarrow> pipe_write_result \<times> pipe" where
  "pipe_write bs p = (if ref_read p = 0 then (PW_NoReader, p) else pipe_write_loop bs 0 p)"

definition pipe_close_read :: "pipe \<Rightarrow> pipe" where
  "pipe_close_read p =
     (let p = (if ref_read p > 0 then p\<lparr>ref_read := ref_read p - 1\<rparr> else p)
      in if ref_read p = 0 \<and> ref_write p = 0 then p\<lparr>p_used := False\<rparr> else p)"

definition pipe_close_write :: "pipe \<Rightarrow> pipe" where
  "pipe_close_write p =
     (let p = (if ref_write p > 0 then p\<lparr>ref_write := ref_write p - 1\<rparr> else p)
      in if ref_read p = 0 \<and> ref_write p = 0 then p\<lparr>p_used := False\<rparr> else p)"

section \<open>The ring\<close>

definition pipe_contents :: "pipe \<Rightarrow> u8 list" where
  "pipe_contents p = ring_seg (p_buf p) (unat (read_pos p)) (p_count p)"

definition pipe_inv :: "pipe \<Rightarrow> bool" where
  "pipe_inv p \<longleftrightarrow> length (p_buf p) = PIPE_BUF_SIZE \<and> p_count p \<le> PIPE_BUF_SIZE \<and>
     unat (write_pos p) mod PIPE_BUF_SIZE = (unat (read_pos p) + p_count p) mod PIPE_BUF_SIZE"

text \<open>The ring size divides the range of the positions, so their wrap-around is harmless.\<close>

lemma pos_add_mod: "unat (x + of_nat k :: u32) mod PIPE_BUF_SIZE = (unat x + k) mod PIPE_BUF_SIZE"
proof -
  have "unat (x + of_nat k) = (unat x + k mod 2 ^ 32) mod 2 ^ 32"
    by (simp add: unat_word_ariths unat_of_nat)
  then have "unat (x + of_nat k) mod 4096 = (unat x + k mod 2 ^ 32) mod 2 ^ 32 mod 4096" by simp
  also have "\<dots> = (unat x + k mod 2 ^ 32) mod 4096" by (rule mod_mod_cancel) simp
  also have "\<dots> = (unat x + k) mod 4096"
  proof -
    have "k mod 2 ^ 32 mod 4096 = k mod 4096" by (rule mod_mod_cancel) simp
    then show ?thesis by (metis mod_add_right_eq)
  qed
  finally show ?thesis by (simp add: PIPE_BUF_SIZE_def)
qed

lemma pipe_read_bytes_eq:
  "length (p_buf p) = PIPE_BUF_SIZE \<Longrightarrow>
   pipe_read_bytes n p = (ring_seg (p_buf p) (unat (read_pos p)) n, p\<lparr>read_pos := read_pos p + of_nat n\<rparr>)"
proof (induction n p rule: pipe_read_bytes.induct)
  case (2 n p)
  have "ring_seg (p_buf p) (unat (read_pos p + 1)) n = ring_seg (p_buf p) (Suc (unat (read_pos p))) n"
    using pos_add_mod [of "read_pos p" 1] "2.prems" by (intro ring_seg_start_mod) simp
  with 2 show ?case by (simp add: ring_seg_Suc Let_def add.assoc)
qed simp

lemma pipe_write_bytes_eq:
  "length (p_buf p) = PIPE_BUF_SIZE \<Longrightarrow>
   pipe_write_bytes bs p = p\<lparr>p_buf := ring_write (p_buf p) (unat (write_pos p)) bs,
     write_pos := write_pos p + of_nat (length bs)\<rparr>"
proof (induction bs p rule: pipe_write_bytes.induct)
  case (2 b bs p)
  let ?b = "(p_buf p)[unat (write_pos p) mod PIPE_BUF_SIZE := b]"
  have "ring_write ?b (unat (write_pos p + 1)) bs = ring_write ?b (Suc (unat (write_pos p))) bs"
    using pos_add_mod [of "write_pos p" 1] "2.prems" by (intro ring_write_mod) simp
  with 2 show ?case by (simp add: add.assoc)
qed simp

lemma pipe_read_spec:
  assumes "pipe_inv p" "pipe_read len p = (r, p')"
  shows "pipe_inv p'"
    and "r = PR_Data bs \<Longrightarrow> bs = take len (pipe_contents p) \<and> pipe_contents p' = drop len (pipe_contents p)"
    and "(\<forall>bs. r \<noteq> PR_Data bs) \<Longrightarrow> p' = p \<and> pipe_contents p = []"
proof -
  have "pipe_inv p' \<and> (\<forall>bs. r = PR_Data bs \<longrightarrow> bs = take len (pipe_contents p) \<and>
      pipe_contents p' = drop len (pipe_contents p)) \<and>
      ((\<forall>bs. r \<noteq> PR_Data bs) \<longrightarrow> p' = p \<and> pipe_contents p = [])"
  proof (cases "p_count p = 0")
    case True
    then show ?thesis using assms by (auto simp: pipe_read_def pipe_contents_def split: if_splits)
  next
    case False
    define n where "n = min len (p_count p)"
    have len: "length (p_buf p) = PIPE_BUF_SIZE" using assms(1) by (simp add: pipe_inv_def)
    have n: "n \<le> p_count p" by (simp add: n_def)
    have "(if len < p_count p then len else p_count p) = n" by (simp add: n_def min_def)
    then have "pipe_read len p = (PR_Data (ring_seg (p_buf p) (unat (read_pos p)) n),
        p\<lparr>read_pos := read_pos p + of_nat n, p_count := p_count p - n\<rparr>)"
      using False by (simp add: pipe_read_def pipe_read_bytes_eq [OF len])
    then have r: "r = PR_Data (ring_seg (p_buf p) (unat (read_pos p)) n)"
      and p': "p' = p\<lparr>read_pos := read_pos p + of_nat n, p_count := p_count p - n\<rparr>"
      using assms(2) by simp_all
    have rp: "unat (read_pos p + of_nat n) mod PIPE_BUF_SIZE = (unat (read_pos p) + n) mod PIPE_BUF_SIZE"
      by (rule pos_add_mod)
    have "ring_seg (p_buf p) (unat (read_pos p + of_nat n)) (p_count p - n) =
        ring_seg (p_buf p) (unat (read_pos p) + n) (p_count p - n)"
      by (rule ring_seg_start_mod) (simp add: len rp)
    then have c: "pipe_contents p' = drop n (pipe_contents p)"
      unfolding pipe_contents_def using p' n by (simp add: drop_ring_seg)
    have "(unat (read_pos p + of_nat n) + (p_count p - n)) mod PIPE_BUF_SIZE = (unat (read_pos p) + p_count p) mod PIPE_BUF_SIZE"
      using rp n by (metis add.assoc le_add_diff_inverse mod_add_left_eq)
    moreover have "p_count p - n \<le> PIPE_BUF_SIZE"
      using assms(1) diff_le_self order_trans by (auto simp: pipe_inv_def)
    ultimately have "pipe_inv p'" using assms(1) p' by (simp add: pipe_inv_def)
    moreover have "take len (pipe_contents p) = ring_seg (p_buf p) (unat (read_pos p)) n"
      by (cases "len \<le> p_count p") (simp_all add: pipe_contents_def n_def take_ring_seg)
    moreover have "drop len (pipe_contents p) = drop n (pipe_contents p)"
      by (cases "len \<le> p_count p") (simp_all add: n_def pipe_contents_def)
    ultimately show ?thesis using r c by simp
  qed
  then show "pipe_inv p'"
    and "r = PR_Data bs \<Longrightarrow> bs = take len (pipe_contents p) \<and> pipe_contents p' = drop len (pipe_contents p)"
    and "(\<forall>bs. r \<noteq> PR_Data bs) \<Longrightarrow> p' = p \<and> pipe_contents p = []" by blast+
qed

lemma pipe_write_chunk:
  assumes "pipe_inv p" "p_count p + length bs \<le> PIPE_BUF_SIZE"
  defines "p' \<equiv> (pipe_write_bytes bs p)\<lparr>p_count := p_count p + length bs\<rparr>"
  shows "pipe_inv p'" "pipe_contents p' = pipe_contents p @ bs" "ref_read p' = ref_read p" "p_count p' = p_count p + length bs"
proof -
  have len: "length (p_buf p) = PIPE_BUF_SIZE" using assms(1) by (simp add: pipe_inv_def)
  have wp: "unat (write_pos p) mod PIPE_BUF_SIZE = (unat (read_pos p) + p_count p) mod PIPE_BUF_SIZE"
    using assms(1) by (simp add: pipe_inv_def)
  have p': "p' = p\<lparr>p_buf := ring_write (p_buf p) (unat (write_pos p)) bs,
      write_pos := write_pos p + of_nat (length bs), p_count := p_count p + length bs\<rparr>"
    unfolding p'_def by (simp add: pipe_write_bytes_eq [OF len])
  show "pipe_contents p' = pipe_contents p @ bs"
    using ring_seg_write [of "p_count p" bs "p_buf p" "unat (write_pos p)" "unat (read_pos p)"] assms(2) len wp
    by (simp add: pipe_contents_def p')
  have "unat (write_pos p + of_nat (length bs)) mod PIPE_BUF_SIZE = (unat (read_pos p) + (p_count p + length bs)) mod PIPE_BUF_SIZE"
    unfolding pos_add_mod using wp by (metis add.assoc mod_add_left_eq)
  then show "pipe_inv p'" using assms(2) len by (simp add: pipe_inv_def p')
  show "ref_read p' = ref_read p" "p_count p' = p_count p + length bs" by (simp_all add: p')
qed

text \<open>However a write ends, the ring holds the old bytes and then the bytes written so far.\<close>

lemma pipe_write_loop_spec:
  "pipe_inv p \<Longrightarrow> pipe_write_loop bs written p = (r, p') \<Longrightarrow>
   pipe_inv p' \<and> (\<exists>k \<le> length bs. pipe_contents p' = pipe_contents p @ take k bs \<and>
     (case r of PW_Done n \<Rightarrow> k = length bs \<and> n = written + k
      | PW_Waits n \<Rightarrow> k < length bs \<and> n = written + k \<and> p_count p' = PIPE_BUF_SIZE
      | PW_NoReader \<Rightarrow> ref_read p = 0))"
proof (induction bs written p arbitrary: r p' rule: pipe_write_loop.induct)
  case (1 bs written p)
  consider "bs = []" | "bs \<noteq> []" "p_count p \<ge> PIPE_BUF_SIZE" | "bs \<noteq> []" "p_count p < PIPE_BUF_SIZE"
    by linarith
  then show ?case
  proof cases
    case 1
    then have "r = PW_Done written" "p' = p" using "1.prems" by (simp_all add: pipe_write_loop.simps [of "[]"])
    with 1 "1.prems" show ?thesis by simp
  next
    case 2
    then have "(r, p') = (if ref_read p = 0 then (PW_NoReader, p) else (PW_Waits written, p))"
      using "1.prems" by (simp add: pipe_write_loop.simps [of bs])
    moreover have "p_count p = PIPE_BUF_SIZE" using 2 "1.prems" by (simp add: pipe_inv_def)
    ultimately show ?thesis using "1.prems" 2 by (intro conjI exI [of _ 0]) (auto split: if_splits)
  next
    case 3
    define chunk where "chunk = (if length bs < PIPE_BUF_SIZE - p_count p then length bs else PIPE_BUF_SIZE - p_count p)"
    have ch: "0 < chunk" "chunk \<le> length bs" "p_count p + chunk \<le> PIPE_BUF_SIZE" "length (take chunk bs) = chunk"
      using 3 by (auto simp: chunk_def)
    define p1 where "p1 = (pipe_write_bytes (take chunk bs) p)\<lparr>p_count := p_count (pipe_write_bytes (take chunk bs) p) + chunk\<rparr>"
    have len: "length (p_buf p) = PIPE_BUF_SIZE" using "1.prems" by (simp add: pipe_inv_def)
    have p1: "p1 = (pipe_write_bytes (take chunk bs) p)\<lparr>p_count := p_count p + length (take chunk bs)\<rparr>"
      using ch(4) by (simp add: p1_def pipe_write_bytes_eq [OF len])
    have "p_count p + length (take chunk bs) \<le> PIPE_BUF_SIZE" using ch by simp
    note w = pipe_write_chunk [OF "1.prems"(1) this, folded p1]
    have rec: "pipe_write_loop (drop chunk bs) (written + chunk) p1 = (r, p')"
      using "1.prems"(2) 3 by (simp add: pipe_write_loop.simps [of bs] Let_def p1_def chunk_def not_le split: if_splits)
    have nf: "\<not> PIPE_BUF_SIZE \<le> p_count p" using 3 by simp
    obtain k where k: "pipe_inv p'" "k \<le> length (drop chunk bs)" "pipe_contents p' = pipe_contents p1 @ take k (drop chunk bs)"
      "case r of PW_Done n \<Rightarrow> k = length (drop chunk bs) \<and> n = written + chunk + k
        | PW_Waits n \<Rightarrow> k < length (drop chunk bs) \<and> n = written + chunk + k \<and> p_count p' = PIPE_BUF_SIZE
        | PW_NoReader \<Rightarrow> ref_read p1 = 0"
      using "1.IH" [OF 3(1) nf refl _ refl refl, of chunk r p'] w(1) rec
      unfolding p1_def chunk_def by blast
    have "take chunk bs @ take k (drop chunk bs) = take (chunk + k) bs"
      by (simp add: take_add)
    then have "pipe_contents p' = pipe_contents p @ take (chunk + k) bs" using k(3) w(2) by simp
    moreover have "chunk + k \<le> length bs" using k(2) ch(2) by simp
    ultimately show ?thesis
      using k(1,4) ch(2) w(3) by (intro conjI exI [of _ "chunk + k"]) (auto split: pipe_write_result.splits)
  qed
qed

section \<open>The byte stream\<close>

text \<open>
  A pipe in use, with the history of the bytes accepted from writers and delivered to readers.
  A waiting write is resumed by a further \<open>write\<close> step with what is left.
\<close>

inductive pipe_step :: "pipe \<times> u8 list \<times> u8 list \<Rightarrow> pipe \<times> u8 list \<times> u8 list \<Rightarrow> bool" where
  do_write: "pipe_write bs p = (r, p') \<Longrightarrow>
    n = (case r of PW_Done k \<Rightarrow> k | PW_Waits k \<Rightarrow> k | PW_NoReader \<Rightarrow> 0) \<Longrightarrow>
    pipe_step (p, sent, got) (p', sent @ take n bs, got)"
| do_read: "pipe_read len p = (r, p') \<Longrightarrow>
    pipe_step (p, sent, got) (p', sent, got @ (case r of PR_Data bs \<Rightarrow> bs | _ \<Rightarrow> []))"
| close_read: "pipe_step (p, sent, got) (pipe_close_read p, sent, got)"
| close_write: "pipe_step (p, sent, got) (pipe_close_write p, sent, got)"

inductive pipe_reach :: "pipe \<times> u8 list \<times> u8 list \<Rightarrow> bool" where
  start: "pipe_reach (pipe_fresh, [], [])"
| step: "pipe_reach s \<Longrightarrow> pipe_step s s' \<Longrightarrow> pipe_reach s'"

lemma pipe_close_keeps:
  "pipe_inv (pipe_close_read p) = pipe_inv p" "pipe_contents (pipe_close_read p) = pipe_contents p"
  "pipe_inv (pipe_close_write p) = pipe_inv p" "pipe_contents (pipe_close_write p) = pipe_contents p"
  by (auto simp: pipe_close_read_def pipe_close_write_def pipe_inv_def pipe_contents_def Let_def)

lemma pipe_step_stream:
  "pipe_step s s' \<Longrightarrow> (case s of (p, sent, got) \<Rightarrow> pipe_inv p \<and> sent = got @ pipe_contents p) \<Longrightarrow>
   (case s' of (p, sent, got) \<Rightarrow> pipe_inv p \<and> sent = got @ pipe_contents p)"
proof (induction rule: pipe_step.induct)
  case (do_write bs p r p' n sent got)
  show ?case
  proof (cases "ref_read p = 0")
    case True
    then show ?thesis using do_write by (simp add: pipe_write_def)
  next
    case False
    then have "pipe_write_loop bs 0 p = (r, p')" using do_write(1) by (simp add: pipe_write_def)
    with do_write(3) obtain k where k: "pipe_inv p'" "k \<le> length bs" "pipe_contents p' = pipe_contents p @ take k bs"
      "case r of PW_Done n \<Rightarrow> k = length bs \<and> n = 0 + k
        | PW_Waits n \<Rightarrow> k < length bs \<and> n = 0 + k \<and> p_count p' = PIPE_BUF_SIZE
        | PW_NoReader \<Rightarrow> ref_read p = 0"
      using pipe_write_loop_spec by fast
    then have "n = k" using do_write(2) False by (auto split: pipe_write_result.splits)
    with k do_write(3) show ?thesis by simp
  qed
next
  case (do_read len p r p' sent got)
  then have inv: "pipe_inv p" and sent: "sent = got @ pipe_contents p" by simp_all
  note spec = pipe_read_spec [OF inv do_read(1)]
  show ?case
  proof (cases "\<exists>bs. r = PR_Data bs")
    case True
    then obtain bs where bs: "r = PR_Data bs" by blast
    then show ?thesis using spec(1) spec(2) [OF bs] sent by simp
  next
    case False
    then have "p' = p" using spec(3) by blast
    moreover have "(case r of PR_Data bs \<Rightarrow> bs | _ \<Rightarrow> []) = []"
      using False by (auto split: pipe_read_result.splits)
    ultimately show ?thesis using inv sent by simp
  qed
qed (simp_all add: pipe_close_keeps)

lemma pipe_reach_stream:
  "pipe_reach s \<Longrightarrow> (case s of (p, sent, got) \<Rightarrow> pipe_inv p \<and> sent = got @ pipe_contents p)"
proof (induction rule: pipe_reach.induct)
  case start
  then show ?case by (simp add: pipe_inv_def pipe_fresh_def pipe_contents_def)
next
  case (step s s')
  then show ?case using pipe_step_stream by blast
qed

section \<open>Properties\<close>

text \<open>C22: in every reachable state of a pipe the bytes accepted from writers are the bytes delivered to
  readers followed by the bytes in the ring, in order, and at most 4096 bytes are in the ring.\<close>

theorem pipe_is_byte_stream:
  assumes "pipe_reach (p, sent, got)"
  shows "sent = got @ pipe_contents p \<and> length (pipe_contents p) \<le> PIPE_BUF_SIZE"
  using pipe_reach_stream [OF assms] by (simp add: pipe_inv_def pipe_contents_def)

lemma pipe_write_example:
  "pipe_write [7, 8] pipe_fresh = (PW_Done 2, (pipe_write_bytes [7, 8] pipe_fresh)\<lparr>p_count := 2\<rparr>)"
  by (simp add: pipe_write_def pipe_write_loop.simps pipe_fresh_def PIPE_BUF_SIZE_def)

lemma pipe_reach_example:
  "pipe_reach ((pipe_write_bytes [7, 8] pipe_fresh)\<lparr>p_count := 2\<rparr>, [7, 8], [])"
  using pipe_reach.step [OF pipe_reach.start pipe_step.do_write [OF pipe_write_example refl, of "[]" "[]"]] by simp

theorem pipe_is_byte_stream_witness:
  "[7, 8] = [] @ pipe_contents ((pipe_write_bytes [7, 8] pipe_fresh)\<lparr>p_count := 2\<rparr>) \<and>
   length (pipe_contents ((pipe_write_bytes [7, 8] pipe_fresh)\<lparr>p_count := 2\<rparr>)) \<le> PIPE_BUF_SIZE"
  by (rule pipe_is_byte_stream [OF pipe_reach_example])

end
