(* ===== verification/UnixSock.thy ===== *)
theory UnixSock
  imports KString Interfaces
begin

text \<open>
  Unix domain sockets (\<open>ipc/unix_sock.c\<close>): a table of 16 sockets whose \<open>rx\<close> and \<open>tx\<close>
  are pointers to ring buffers, so the buffers live in a store indexed by address and a
  connection shares them crosswise. \<open>kzalloc\<close> and its addresses are arguments. Shown: what
  one side of a connection sends the other side receives, in order and unchanged.
\<close>

definition UNIX_SOCK_MAX :: nat where "UNIX_SOCK_MAX = 16"
definition UNIX_SOCK_NAME_LEN :: nat where "UNIX_SOCK_NAME_LEN = 64"
definition UNIX_SOCK_BUF_SIZE :: nat where "UNIX_SOCK_BUF_SIZE = 4096"

datatype sock_zustand = SOCK_FREI | SOCK_HOERT | SOCK_VERBUNDEN

record ringpuffer =
  daten :: "u8 list"
  lesen :: nat
  schreiben :: nat
  rp_count :: u32

record unix_socket =
  sk_id :: nat
  zustand :: sock_zustand
  sk_name :: "u8 list"
  sk_rx :: u32
  sk_tx :: u32
  peer_id :: nat

record sock_state =
  sockets :: "unix_socket list"
  naechste_id :: nat
  puffer :: "u32 \<Rightarrow> ringpuffer option"

section \<open>Ring buffers\<close>

definition ring_leer :: ringpuffer where
  "ring_leer = \<lparr>daten = replicate UNIX_SOCK_BUF_SIZE 0, lesen = 0, schreiben = 0, rp_count = 0\<rparr>"

text \<open>\<open>puffer_allozieren\<close>: \<open>kzalloc\<close> gave the address \<open>a\<close>, or NULL.\<close>

definition puffer_allozieren :: "u32 option \<Rightarrow> (u32 \<Rightarrow> ringpuffer option) \<Rightarrow> u32 \<times> (u32 \<Rightarrow> ringpuffer option)" where
  "puffer_allozieren a h = (case a of None \<Rightarrow> (0, h) | Some p \<Rightarrow> (p, h(p := Some ring_leer)))"

fun ring_schreibe :: "u8 list \<Rightarrow> ringpuffer \<Rightarrow> ringpuffer" where
  "ring_schreibe [] p = p"
| "ring_schreibe (b # bs) p =
     ring_schreibe bs (p\<lparr>daten := (daten p)[schreiben p := b],
       schreiben := (schreiben p + 1) mod UNIX_SOCK_BUF_SIZE, rp_count := rp_count p + 1\<rparr>)"

text \<open>
  \<open>puffer_schreiben\<close>: it waits (\<open>None\<close>) while the 32-bit sum \<open>count + len\<close> exceeds the
  ring size; \<open>len\<close> bytes of \<open>src\<close> are written.
\<close>

definition puffer_schreiben :: "u8 list \<Rightarrow> u32 \<Rightarrow> ringpuffer \<Rightarrow> ringpuffer option" where
  "puffer_schreiben src len p =
     (if rp_count p + len > of_nat UNIX_SOCK_BUF_SIZE then None
      else Some (ring_schreibe (take (unat len) src) p))"

fun ring_lese :: "nat \<Rightarrow> ringpuffer \<Rightarrow> u8 list \<times> ringpuffer" where
  "ring_lese 0 p = ([], p)"
| "ring_lese (Suc n) p =
     (let b = daten p ! lesen p;
          (bs, p') = ring_lese n (p\<lparr>lesen := (lesen p + 1) mod UNIX_SOCK_BUF_SIZE, rp_count := rp_count p - 1\<rparr>)
      in (b # bs, p'))"

text \<open>\<open>puffer_lesen\<close>: \<open>None\<close> while the ring is empty.\<close>

definition puffer_lesen :: "u32 \<Rightarrow> ringpuffer \<Rightarrow> (u8 list \<times> ringpuffer) option" where
  "puffer_lesen maxlen p =
     (if rp_count p = 0 then None
      else Some (ring_lese (unat (if rp_count p < maxlen then rp_count p else maxlen)) p))"

section \<open>The socket table\<close>

definition sock_leer :: unix_socket where
  "sock_leer = \<lparr>sk_id = 0, zustand = SOCK_FREI, sk_name = replicate UNIX_SOCK_NAME_LEN 0,
     sk_rx = 0, sk_tx = 0, peer_id = 0\<rparr>"

definition unix_sock_init :: "sock_state \<Rightarrow> sock_state" where
  "unix_sock_init s = s\<lparr>sockets := replicate UNIX_SOCK_MAX sock_leer\<rparr>"

definition freier_slot :: "sock_state \<Rightarrow> nat option" where
  "freier_slot s = find_idx (\<lambda>k. zustand k = SOCK_FREI) (sockets s)"

definition suche_name :: "cstr \<Rightarrow> sock_state \<Rightarrow> nat option" where
  "suche_name name s = find_idx (\<lambda>k. zustand k \<noteq> SOCK_FREI \<and> strcmp (sk_name k) name = 0) (sockets s)"

definition suche_id :: "nat \<Rightarrow> sock_state \<Rightarrow> nat option" where
  "suche_id i s = find_idx (\<lambda>k. zustand k \<noteq> SOCK_FREI \<and> sk_id k = i) (sockets s)"

text \<open>\<open>strncpy(s->name, name, 63)\<close>: the last byte of the array keeps its old value.\<close>

definition sk_set_name :: "cstr \<Rightarrow> unix_socket \<Rightarrow> unix_socket" where
  "sk_set_name name k = k\<lparr>sk_name := put_at (sk_name k) 0 (strncpy name (UNIX_SOCK_NAME_LEN - 1))\<rparr>"

text \<open>
  \<open>unix_sock_create\<close>; \<open>a\<close> and \<open>b\<close> are what the two \<open>kzalloc\<close>s return. When one fails
  the other buffer is freed and the free slot keeps the stale pointers.
\<close>

definition unix_sock_create :: "u32 option \<Rightarrow> u32 option \<Rightarrow> cstr \<Rightarrow> sock_state \<Rightarrow> int \<times> sock_state" where
  "unix_sock_create a b name s =
     (if suche_name name s \<noteq> None then (- 1, s)
      else (case freier_slot s of
              None \<Rightarrow> (- 1, s)
            | Some i \<Rightarrow>
                (let (rx, h) = puffer_allozieren a (puffer s);
                     (tx, h) = puffer_allozieren b h;
                     k = (sockets s ! i)\<lparr>sk_rx := rx, sk_tx := tx\<rparr>
                 in if rx = 0 \<or> tx = 0
                    then (- 1, s\<lparr>sockets := (sockets s)[i := k],
                                 puffer := h(rx := None, tx := None)\<rparr>)
                    else (int (naechste_id s),
                          s\<lparr>sockets := (sockets s)[i := sk_set_name name
                                 (k\<lparr>sk_id := naechste_id s, zustand := SOCK_HOERT, peer_id := 0\<rparr>)],
                            naechste_id := naechste_id s + 1, puffer := h\<rparr>))))"

definition unix_sock_connect :: "cstr \<Rightarrow> sock_state \<Rightarrow> int \<times> sock_state" where
  "unix_sock_connect name s =
     (case suche_name name s of
        None \<Rightarrow> (- 1, s)
      | Some v \<Rightarrow>
          if zustand (sockets s ! v) \<noteq> SOCK_HOERT then (- 1, s)
          else (case freier_slot s of
                  None \<Rightarrow> (- 1, s)
                | Some c \<Rightarrow>
                    (let server = sockets s ! v;
                         client = sk_set_name name
                           ((sockets s ! c)\<lparr>sk_id := naechste_id s, zustand := SOCK_VERBUNDEN,
                              sk_rx := sk_tx server, sk_tx := sk_rx server, peer_id := sk_id server\<rparr>)
                     in (int (naechste_id s),
                         s\<lparr>sockets := (sockets s)[c := client,
                                v := server\<lparr>zustand := SOCK_VERBUNDEN, peer_id := naechste_id s\<rparr>],
                           naechste_id := naechste_id s + 1\<rparr>))))"

datatype sock_result = Wartet | Fehler | Ergebnis "u8 list"

text \<open>\<open>unix_sock_send\<close>: the bytes accepted, an error, or waiting (the state is unchanged then).\<close>

definition unix_sock_send :: "nat \<Rightarrow> u8 list \<Rightarrow> sock_state \<Rightarrow> sock_result \<times> sock_state" where
  "unix_sock_send i bs s =
     (case suche_id i s of
        None \<Rightarrow> (Fehler, s)
      | Some k \<Rightarrow>
          (case puffer s (sk_tx (sockets s ! k)) of
             None \<Rightarrow> (Fehler, s)
           | Some p \<Rightarrow>
               (case puffer_schreiben bs (of_nat (length bs)) p of
                  None \<Rightarrow> (Wartet, s)
                | Some p' \<Rightarrow> (Ergebnis bs, s\<lparr>puffer := (puffer s)(sk_tx (sockets s ! k) := Some p')\<rparr>))))"

definition unix_sock_recv :: "nat \<Rightarrow> u32 \<Rightarrow> sock_state \<Rightarrow> sock_result \<times> sock_state" where
  "unix_sock_recv i maxlen s =
     (case suche_id i s of
        None \<Rightarrow> (Fehler, s)
      | Some k \<Rightarrow>
          (case puffer s (sk_rx (sockets s ! k)) of
             None \<Rightarrow> (Fehler, s)
           | Some p \<Rightarrow>
               (case puffer_lesen maxlen p of
                  None \<Rightarrow> (Wartet, s)
                | Some (bs, p') \<Rightarrow>
                    (Ergebnis bs, s\<lparr>puffer := (puffer s)(sk_rx (sockets s ! k) := Some p')\<rparr>))))"

definition unix_sock_close :: "nat \<Rightarrow> sock_state \<Rightarrow> sock_state" where
  "unix_sock_close i s =
     (case suche_id i s of
        None \<Rightarrow> s
      | Some k \<Rightarrow>
          (let sk = sockets s ! k;
               h = (if zustand sk = SOCK_HOERT \<and> sk_rx sk \<noteq> 0
                    then (puffer s)(sk_rx sk := None, sk_tx sk := None) else puffer s)
           in s\<lparr>sockets := (sockets s)[k := sock_leer], puffer := h\<rparr>))"

section \<open>The ring as a queue of bytes\<close>

definition ring_ok :: "ringpuffer \<Rightarrow> bool" where
  "ring_ok p \<longleftrightarrow> length (daten p) = UNIX_SOCK_BUF_SIZE \<and> lesen p < UNIX_SOCK_BUF_SIZE \<and>
     schreiben p < UNIX_SOCK_BUF_SIZE \<and> unat (rp_count p) \<le> UNIX_SOCK_BUF_SIZE \<and>
     schreiben p = (lesen p + unat (rp_count p)) mod UNIX_SOCK_BUF_SIZE"

definition ring_inhalt :: "ringpuffer \<Rightarrow> u8 list" where
  "ring_inhalt p = ring_seg (daten p) (lesen p) (unat (rp_count p))"

lemma ring_schreibe_spec:
  "ring_ok p \<Longrightarrow> unat (rp_count p) + length bs \<le> UNIX_SOCK_BUF_SIZE \<Longrightarrow>
   ring_ok (ring_schreibe bs p) \<and> ring_inhalt (ring_schreibe bs p) = ring_inhalt p @ bs"
proof (induction bs p rule: ring_schreibe.induct)
  case (2 b bs p)
  define p1 where "p1 = p\<lparr>daten := (daten p)[schreiben p := b],
      schreiben := (schreiben p + 1) mod UNIX_SOCK_BUF_SIZE, rp_count := rp_count p + 1\<rparr>"
  have lt: "unat (rp_count p) < UNIX_SOCK_BUF_SIZE" using "2.prems" by simp
  then have c: "unat (rp_count p + 1) = Suc (unat (rp_count p))"
    by (simp add: unat_word_ariths UNIX_SOCK_BUF_SIZE_def)
  have "ring_ok p1"
    using "2.prems" lt by (simp add: ring_ok_def p1_def c UNIX_SOCK_BUF_SIZE_def mod_Suc_eq)
  moreover have "ring_inhalt p1 = ring_inhalt p @ [b]"
    using ring_seg_snoc [of "unat (rp_count p)" "daten p" "schreiben p" "lesen p" b] "2.prems" lt
    by (simp add: ring_inhalt_def p1_def c ring_ok_def)
  moreover have "unat (rp_count p1) + length bs \<le> UNIX_SOCK_BUF_SIZE"
    using "2.prems" by (simp add: p1_def c)
  moreover have "ring_schreibe (b # bs) p = ring_schreibe bs p1" by (simp add: p1_def)
  ultimately show ?case using "2.IH" [folded p1_def] by simp
qed simp

lemma ring_lese_spec:
  "ring_ok p \<Longrightarrow> n \<le> unat (rp_count p) \<Longrightarrow>
   (case ring_lese n p of (bs, p') \<Rightarrow> ring_ok p' \<and> bs = take n (ring_inhalt p) \<and> ring_inhalt p' = drop n (ring_inhalt p))"
proof (induction n p rule: ring_lese.induct)
  case (2 n p)
  define p1 where "p1 = p\<lparr>lesen := (lesen p + 1) mod UNIX_SOCK_BUF_SIZE, rp_count := rp_count p - 1\<rparr>"
  obtain m where m: "unat (rp_count p) = Suc m" using "2.prems"(2) by (cases "unat (rp_count p)") auto
  then have c: "unat (rp_count p - 1) = m"
    by (metis diff_Suc_1 nat.simps(3) unat_0 unat_minus_one)
  have ok: "ring_ok p1"
    using "2.prems" m by (simp add: ring_ok_def p1_def c UNIX_SOCK_BUF_SIZE_def mod_add_left_eq mod_Suc_eq)
  have cont: "ring_inhalt p = daten p ! lesen p # ring_inhalt p1"
  proof -
    have "ring_seg (daten p) (Suc (lesen p) mod UNIX_SOCK_BUF_SIZE) m = ring_seg (daten p) (Suc (lesen p)) m"
      using "2.prems" ring_seg_mod [of "daten p" "Suc (lesen p)" m] by (simp add: ring_ok_def)
    then show ?thesis using "2.prems" by (simp add: ring_inhalt_def p1_def c m ring_seg_Suc ring_ok_def)
  qed
  have "n \<le> unat (rp_count p1)" using "2.prems" m by (simp add: p1_def c)
  from "2.IH" [OF refl, folded p1_def, OF ok this]
  have "case ring_lese n p1 of (bs, p') \<Rightarrow> ring_ok p' \<and> bs = take n (ring_inhalt p1) \<and> ring_inhalt p' = drop n (ring_inhalt p1)" .
  moreover have "ring_lese (Suc n) p = (daten p ! lesen p # fst (ring_lese n p1), snd (ring_lese n p1))"
    by (simp add: p1_def Let_def split: prod.splits)
  ultimately show ?case by (simp add: cont split: prod.splits)
qed simp

text \<open>
  For a length that makes \<open>count + len\<close> wrap, the waiting test lets the write through although
  the ring has no room: four free bytes and a length of \<open>2 ^ 32 - 4096\<close>.
\<close>

lemma puffer_schreiben_wrap:
  "rp_count p = 4096 \<Longrightarrow> puffer_schreiben src 0xFFFFF000 p \<noteq> None"
  by (simp add: puffer_schreiben_def UNIX_SOCK_BUF_SIZE_def)

text \<open>A message longer than the ring waits for ever: no state of the ring lets it through.\<close>

lemma puffer_schreiben_too_long:
  "unat (rp_count p) \<le> UNIX_SOCK_BUF_SIZE \<Longrightarrow> 4096 < len \<Longrightarrow> len < 0x80000000 \<Longrightarrow> puffer_schreiben src len p = None"
  by (auto simp: puffer_schreiben_def UNIX_SOCK_BUF_SIZE_def word_less_nat_alt unat_word_ariths)

section \<open>Connections\<close>

lemma sk_set_name_fields [simp]:
  "sk_rx (sk_set_name n k) = sk_rx k" "sk_tx (sk_set_name n k) = sk_tx k" "sk_id (sk_set_name n k) = sk_id k"
  "zustand (sk_set_name n k) = zustand k" "peer_id (sk_set_name n k) = peer_id k"
  by (simp_all add: sk_set_name_def)

text \<open>Ids in use are distinct and below the counter.\<close>

definition ids_ok :: "sock_state \<Rightarrow> bool" where
  "ids_ok s \<longleftrightarrow>
     (\<forall>i < length (sockets s). zustand (sockets s ! i) \<noteq> SOCK_FREI \<longrightarrow> sk_id (sockets s ! i) < naechste_id s) \<and>
     (\<forall>i < length (sockets s). \<forall>j < length (sockets s). zustand (sockets s ! i) \<noteq> SOCK_FREI \<longrightarrow>
        zustand (sockets s ! j) \<noteq> SOCK_FREI \<longrightarrow> sk_id (sockets s ! i) = sk_id (sockets s ! j) \<longrightarrow> i = j)"

lemma suche_id_Some:
  "ids_ok s \<Longrightarrow> i < length (sockets s) \<Longrightarrow> zustand (sockets s ! i) \<noteq> SOCK_FREI \<Longrightarrow>
   suche_id (sk_id (sockets s ! i)) s = Some i"
  unfolding suche_id_def by (rule find_idx_unique) (auto simp: ids_ok_def)

lemma connect_wires:
  assumes ids: "ids_ok s" and conn: "unix_sock_connect name s = (int cid, s')"
  obtains v c where "v \<noteq> c" "v < length (sockets s)" "c < length (sockets s)"
    "ids_ok s'" "length (sockets s') = length (sockets s)" "puffer s' = puffer s"
    "suche_id cid s' = Some c" "suche_id (sk_id (sockets s ! v)) s' = Some v"
    "sk_tx (sockets s' ! c) = sk_rx (sockets s ! v)" "sk_rx (sockets s' ! c) = sk_tx (sockets s ! v)"
    "sk_rx (sockets s' ! v) = sk_rx (sockets s ! v)" "sk_tx (sockets s' ! v) = sk_tx (sockets s ! v)"
    "suche_name name s = Some v"
proof -
  from conn obtain v c where v: "suche_name name s = Some v" and h: "zustand (sockets s ! v) = SOCK_HOERT"
    and c: "freier_slot s = Some c"
    and s': "cid = naechste_id s"
      "s' = s\<lparr>sockets := (sockets s)[c := sk_set_name name ((sockets s ! c)\<lparr>sk_id := naechste_id s, zustand := SOCK_VERBUNDEN,
              sk_rx := sk_tx (sockets s ! v), sk_tx := sk_rx (sockets s ! v), peer_id := sk_id (sockets s ! v)\<rparr>),
              v := (sockets s ! v)\<lparr>zustand := SOCK_VERBUNDEN, peer_id := naechste_id s\<rparr>],
          naechste_id := naechste_id s + 1\<rparr>"
    by (auto simp: unix_sock_connect_def Let_def split: option.splits if_splits)
  have vl: "v < length (sockets s)" using v by (simp add: suche_name_def find_idx_Some)
  have cl: "c < length (sockets s)" "zustand (sockets s ! c) = SOCK_FREI"
    using c by (simp_all add: freier_slot_def find_idx_Some)
  have ne: "v \<noteq> c" using h cl by auto
  have kv: "sockets s' ! v = (sockets s ! v)\<lparr>zustand := SOCK_VERBUNDEN, peer_id := naechste_id s\<rparr>"
    using s' vl by simp
  have kc: "sockets s' ! c = sk_set_name name ((sockets s ! c)\<lparr>sk_id := naechste_id s, zustand := SOCK_VERBUNDEN,
      sk_rx := sk_tx (sockets s ! v), sk_tx := sk_rx (sockets s ! v), peer_id := sk_id (sockets s ! v)\<rparr>)"
    using s' vl cl ne by simp
  have ko: "sockets s' ! i = sockets s ! i" if "i \<noteq> v" "i \<noteq> c" for i using s' that by simp
  have len: "length (sockets s') = length (sockets s)" using s' by simp
  have nid: "naechste_id s' = naechste_id s + 1" using s' by simp
  have idf: "sk_id (sockets s' ! i) = (if i = c then naechste_id s else sk_id (sockets s ! i))" for i
    using kv kc ko ne by (cases "i = v"; cases "i = c") simp_all
  have zf: "zustand (sockets s' ! i) \<noteq> SOCK_FREI \<longleftrightarrow> i = c \<or> zustand (sockets s ! i) \<noteq> SOCK_FREI" for i
    using kv kc ko ne h by (cases "i = v"; cases "i = c") simp_all
  have ids': "ids_ok s'"
    unfolding ids_ok_def len nid idf zf
  proof (intro conjI allI impI)
    fix i assume "i < length (sockets s)" "i = c \<or> zustand (sockets s ! i) \<noteq> SOCK_FREI"
    then show "(if i = c then naechste_id s else sk_id (sockets s ! i)) < naechste_id s + 1"
      using ids by (auto simp: ids_ok_def less_Suc_eq)
  next
    fix i j
    assume "i < length (sockets s)" "j < length (sockets s)"
      "i = c \<or> zustand (sockets s ! i) \<noteq> SOCK_FREI" "j = c \<or> zustand (sockets s ! j) \<noteq> SOCK_FREI"
      "(if i = c then naechste_id s else sk_id (sockets s ! i)) = (if j = c then naechste_id s else sk_id (sockets s ! j))"
    then show "i = j"
      using ids by (cases "i = c"; cases "j = c") (auto simp: ids_ok_def)
  qed
  have "suche_id cid s' = Some c"
    using suche_id_Some [OF ids', of c] cl len kc s' by simp
  moreover have "suche_id (sk_id (sockets s ! v)) s' = Some v"
    using suche_id_Some [OF ids', of v] vl len kv by simp
  ultimately show thesis
    using that [of v c] ne vl cl ids' len s' kv kc v by simp
qed

section \<open>Properties\<close>

text \<open>after a successful \<open>unix_sock_connect\<close>, bytes the client sends are appended to what the
  server's receive buffer holds, and a receive on the server returns the first of those bytes.\<close>

theorem connected_sockets_transfer:
  assumes ids: "ids_ok s" and conn: "unix_sock_connect name s = (int cid, s1)"
    and v: "suche_name name s = Some v"
    and ring: "puffer s (sk_rx (sockets s ! v)) = Some p" "ring_ok p"
    and room: "unat (rp_count p) + length bs \<le> UNIX_SOCK_BUF_SIZE" "0 < unat (rp_count p) + length bs"
    and n: "unat maxlen \<le> unat (rp_count p) + length bs"
  shows "\<exists>s2 s3. unix_sock_send cid bs s1 = (Ergebnis bs, s2) \<and>
    unix_sock_recv (sk_id (sockets s ! v)) maxlen s2 = (Ergebnis (take (unat maxlen) (ring_inhalt p @ bs)), s3)"
proof -
  from connect_wires [OF ids conn] obtain c where w: "ids_ok s1" "puffer s1 = puffer s"
    "suche_id cid s1 = Some c" "suche_id (sk_id (sockets s ! v)) s1 = Some v"
    "sk_tx (sockets s1 ! c) = sk_rx (sockets s ! v)" "sk_rx (sockets s1 ! v) = sk_rx (sockets s ! v)"
    using v by (metis option.inject)
  let ?a = "sk_rx (sockets s ! v)"
  have lb: "unat (of_nat (length bs) :: u32) = length bs"
    using room(1) by (simp add: unat_of_nat UNIX_SOCK_BUF_SIZE_def)
  have "\<not> of_nat UNIX_SOCK_BUF_SIZE < rp_count p + of_nat (length bs)"
    using room(1) lb by (simp add: word_less_nat_alt unat_word_ariths UNIX_SOCK_BUF_SIZE_def)
  then have wr: "puffer_schreiben bs (of_nat (length bs)) p = Some (ring_schreibe bs p)"
    by (simp add: puffer_schreiben_def lb)
  let ?p = "ring_schreibe bs p"
  have p1: "ring_ok ?p" "ring_inhalt ?p = ring_inhalt p @ bs"
    using ring_schreibe_spec [OF ring(2) room(1)] by simp_all
  have cnt: "unat (rp_count ?p) = unat (rp_count p) + length bs"
    using arg_cong [OF p1(2), of length] by (simp add: ring_inhalt_def)
  define s2 where "s2 = s1\<lparr>puffer := (puffer s1)(?a := Some ?p)\<rparr>"
  have send: "unix_sock_send cid bs s1 = (Ergebnis bs, s2)"
    using w ring(1) wr by (simp add: unix_sock_send_def s2_def)
  have fid: "suche_id i s2 = suche_id i s1" for i by (simp add: suche_id_def s2_def)
  define m where "m = unat (if rp_count ?p < maxlen then rp_count ?p else maxlen)"
  have m: "m = unat maxlen" using n cnt by (auto simp: m_def word_less_nat_alt)
  have le: "m \<le> unat (rp_count ?p)" using m n cnt by simp
  obtain bs' p' where rd: "ring_lese m ?p = (bs', p')" by fastforce
  have bs': "bs' = take (unat maxlen) (ring_inhalt p @ bs)"
    using ring_lese_spec [OF p1(1) le] rd p1(2) m by simp
  have "rp_count ?p \<noteq> 0" using cnt room(2) by (metis unat_0 less_irrefl)
  then have "puffer_lesen maxlen ?p = Some (bs', p')"
    using rd by (simp add: puffer_lesen_def m_def)
  then have "\<exists>s3. unix_sock_recv (sk_id (sockets s ! v)) maxlen s2 = (Ergebnis bs', s3)"
    using w fid by (simp add: unix_sock_recv_def s2_def)
  with send bs' show ?thesis by blast
qed

definition sock_example :: sock_state where
  "sock_example = \<lparr>sockets =
       [\<lparr>sk_id = 1, zustand = SOCK_HOERT, sk_name = [97], sk_rx = 0x1000, sk_tx = 0x3000, peer_id = 0\<rparr>, sock_leer],
     naechste_id = 2, puffer = [0x1000 \<mapsto> ring_leer, 0x3000 \<mapsto> ring_leer]\<rparr>"

theorem connected_sockets_transfer_witness:
  "\<exists>s2 s3. unix_sock_send 2 [7, 8] (snd (unix_sock_connect [97] sock_example)) = (Ergebnis [7, 8], s2) \<and>
    unix_sock_recv (sk_id (sockets sock_example ! 0)) 2 s2 =
      (Ergebnis (take (unat (2 :: u32)) (ring_inhalt ring_leer @ [7, 8])), s3)"
proof (rule connected_sockets_transfer)
  show "ids_ok sock_example" by (auto simp: ids_ok_def sock_example_def sock_leer_def less_Suc_eq)
  show "suche_name [97] sock_example = Some 0"
    by (simp add: suche_name_def sock_example_def)
  show "unix_sock_connect [97] sock_example = (int 2, snd (unix_sock_connect [97] sock_example))"
    by (simp add: unix_sock_connect_def suche_name_def freier_slot_def sock_example_def sock_leer_def Let_def)
  show "puffer sock_example (sk_rx (sockets sock_example ! 0)) = Some ring_leer"
    by (simp add: sock_example_def)
  show "ring_ok ring_leer" by (simp add: ring_ok_def ring_leer_def UNIX_SOCK_BUF_SIZE_def)
qed (simp_all add: ring_leer_def UNIX_SOCK_BUF_SIZE_def)

end
