(* ===== verification/PhysAlloc.thy ===== *)
theory PhysAlloc
  imports KMem Interfaces
begin

text \<open>
  The physical page allocator (\<open>mm/phys_alloc.c\<close>): one bit per 4 KB frame, 1 = used. The
  state holds the bitmap, the two counters and the physical memory that allocations zero. The
  bitmap's own storage lies in frames \<open>pmm_init\<close> marks used and is kept apart from the memory.
  Shown: the free counter counts the clear bits, an allocation returns a free frame and
  zeroes exactly it, a contiguous allocation finds a run whenever one exists, and the
  allocator is a \<open>page_source\<close>.
\<close>

definition PAGE_SIZE :: nat where "PAGE_SIZE = 4096"
definition PHYS_MEM_MAX :: u32 where "PHYS_MEM_MAX = 0x40000000"
definition MAX_PAGES :: nat where "MAX_PAGES = 262144"

definition ADDR_TO_PFN :: "u32 \<Rightarrow> nat" where
  "ADDR_TO_PFN a = unat (drop_bit 12 a)"

definition PFN_TO_ADDR :: "nat \<Rightarrow> u32" where
  "PFN_TO_ADDR p = push_bit 12 (of_nat p)"

section \<open>State and memory map\<close>

record pmm =
  bitmap :: "u32 list"
  total_pages :: nat
  free_pages :: u32
  pmem :: mem

record mmap_entry =
  mm_addr :: u64
  mm_len :: u64
  mm_type :: u32

definition MULTIBOOT_MMAP_AVAILABLE :: u32 where "MULTIBOOT_MMAP_AVAILABLE = 1"

text \<open>
  What \<open>pmm_init\<close> reads of \<open>multiboot_info_t\<close>: the memory map (when the MMAP flag is set) as
  the list of entries its walk visits, and the two size fields.
\<close>

record multiboot_info =
  mb_mmap :: "mmap_entry list option"
  mem_lower :: u32
  mem_upper :: u32

section \<open>Operations\<close>

definition pmm_mark_used_page :: "nat \<Rightarrow> pmm \<Rightarrow> pmm" where
  "pmm_mark_used_page pfn s =
     (if \<not> bm_test (bitmap s) pfn
      then s\<lparr>bitmap := bm_set (bitmap s) pfn,
             free_pages := (if free_pages s > 0 then free_pages s - 1 else free_pages s)\<rparr>
      else s)"

definition pmm_mark_used :: "u32 \<Rightarrow> u32 \<Rightarrow> pmm \<Rightarrow> pmm" where
  "pmm_mark_used start fin s =
     fold pmm_mark_used_page [ADDR_TO_PFN start..<min (ADDR_TO_PFN fin) (total_pages s)] s"

definition pmm_mark_free_page :: "nat \<Rightarrow> pmm \<Rightarrow> pmm" where
  "pmm_mark_free_page pfn s =
     (if bm_test (bitmap s) pfn
      then s\<lparr>bitmap := bm_clear (bitmap s) pfn, free_pages := free_pages s + 1\<rparr> else s)"

definition pmm_mark_free :: "u32 \<Rightarrow> u32 \<Rightarrow> pmm \<Rightarrow> pmm" where
  "pmm_mark_free start fin s =
     fold pmm_mark_free_page
       [ADDR_TO_PFN (align_up start 4096)..<min (ADDR_TO_PFN (align_down fin 4096)) (total_pages s)] s"

definition pmm_alloc_page :: "pmm \<Rightarrow> u32 \<times> pmm" where
  "pmm_alloc_page s =
     (case find (\<lambda>pfn. \<not> bm_test (bitmap s) pfn) [1..<total_pages s] of
        None \<Rightarrow> (0, s)
      | Some pfn \<Rightarrow>
          (let addr = PFN_TO_ADDR pfn
           in (addr, s\<lparr>bitmap := bm_set (bitmap s) pfn, free_pages := free_pages s - 1,
                       pmem := memset addr 0 PAGE_SIZE (pmem s)\<rparr>)))"

definition pmm_free_page :: "u32 \<Rightarrow> pmm \<Rightarrow> pmm" where
  "pmm_free_page addr s =
     (let pfn = ADDR_TO_PFN addr
      in if pfn = 0 \<or> pfn \<ge> total_pages s then s
         else if bm_test (bitmap s) pfn
         then s\<lparr>bitmap := bm_clear (bitmap s) pfn, free_pages := free_pages s + 1\<rparr>
         else s)"

text \<open>The search loop of \<open>pmm_alloc_pages\<close> over the remaining frames: the start of the run found.\<close>

fun pmm_find_run :: "u32 list \<Rightarrow> nat \<Rightarrow> nat list \<Rightarrow> nat \<Rightarrow> nat \<Rightarrow> nat option" where
  "pmm_find_run bm count [] run_start run_len = None"
| "pmm_find_run bm count (pfn # pfns) run_start run_len =
     (if \<not> bm_test bm pfn then
        (let run_start = (if run_len = 0 then pfn else run_start)
         in if run_len + 1 = count then Some run_start
            else pmm_find_run bm count pfns run_start (run_len + 1))
      else pmm_find_run bm count pfns run_start 0)"

definition pmm_alloc_pages :: "nat \<Rightarrow> pmm \<Rightarrow> u32 \<times> pmm" where
  "pmm_alloc_pages count s =
     (if count = 0 then (0, s)
      else if count = 1 then pmm_alloc_page s
      else (case pmm_find_run (bitmap s) count [1..<total_pages s] 0 0 of
              None \<Rightarrow> (0, s)
            | Some run_start \<Rightarrow>
                (let s = fold (\<lambda>i s. s\<lparr>bitmap := bm_set (bitmap s) i, free_pages := free_pages s - 1\<rparr>)
                           [run_start..<run_start + count] s;
                     addr = PFN_TO_ADDR run_start
                 in (addr, s\<lparr>pmem := memset addr 0 (count * PAGE_SIZE) (pmem s)\<rparr>))))"

definition pmm_free_pages :: "u32 \<Rightarrow> nat \<Rightarrow> pmm \<Rightarrow> pmm" where
  "pmm_free_pages addr count s = fold (\<lambda>i. pmm_free_page (addr + of_nat i * 4096)) [0..<count] s"

definition pmm_free_page_count :: "pmm \<Rightarrow> u32" where "pmm_free_page_count s = free_pages s"
definition pmm_total_page_count :: "pmm \<Rightarrow> nat" where "pmm_total_page_count s = total_pages s"

section \<open>Initialisation\<close>

definition mmap_step :: "mmap_entry \<Rightarrow> u32 \<Rightarrow> u32" where
  "mmap_step e mem_bytes =
     (let fin = mm_addr e + mm_len e
      in if fin > ucast mem_bytes \<and> mm_type e = MULTIBOOT_MMAP_AVAILABLE
         then (if fin > 0xFFFFFFFF then 0xFFFFFFFF else ucast fin) else mem_bytes)"

definition pmm_mem_bytes :: "multiboot_info \<Rightarrow> u32" where
  "pmm_mem_bytes mbi =
     (let m = (case mb_mmap mbi of Some es \<Rightarrow> fold mmap_step es 0 | None \<Rightarrow> 0);
          m = (if m = 0 then (1024 + mem_upper mbi) * 1024 else m)
      in if m > PHYS_MEM_MAX then PHYS_MEM_MAX else m)"

text \<open>The page-aligned range an available entry contributes.\<close>

definition mmap_range :: "mmap_entry \<Rightarrow> u32 \<times> u32" where
  "mmap_range e =
     (let start = align_up (if mm_addr e > 0xFFFFFFFF then 0xFFFFFFFF else ucast (mm_addr e)) 4096;
          end64 = mm_addr e + mm_len e;
          fin = align_down (if end64 > 0xFFFFFFFF then 0xFFFFFFFF else ucast end64) 4096
      in (start, fin))"

definition pmm_free_entry :: "mmap_entry \<Rightarrow> pmm \<Rightarrow> pmm" where
  "pmm_free_entry e s =
     (if mm_type e = MULTIBOOT_MMAP_AVAILABLE
      then (case mmap_range e of (start, fin) \<Rightarrow> if fin > start then pmm_mark_free start fin s else s)
      else s)"

text \<open>\<open>pmm_init\<close>; the linker's \<open>_kernel_start\<close> and \<open>_kernel_end\<close> are arguments.\<close>

definition pmm_init :: "u32 \<Rightarrow> u32 \<Rightarrow> multiboot_info \<Rightarrow> mem \<Rightarrow> pmm" where
  "pmm_init kernel_start kernel_end mbi m =
     (let mem_bytes = pmm_mem_bytes mbi;
          total = ADDR_TO_PFN (align_up mem_bytes 4096);
          bitmap_bytes = align_up (of_nat ((total + 7) div 8)) 4096;
          s = \<lparr>bitmap = replicate (unat bitmap_bytes div 4) (- 1), total_pages = total,
               free_pages = 0, pmem = m\<rparr>;
          s = (case mb_mmap mbi of
                 Some es \<Rightarrow> fold pmm_free_entry es s
               | None \<Rightarrow> pmm_mark_free 0x100000 mem_bytes (pmm_mark_free 0x1000 (mem_lower mbi * 1024) s));
          bmap_end = kernel_end + bitmap_bytes;
          s = pmm_mark_used 0 4096 s;
          s = pmm_mark_used (align_down kernel_start 4096) (align_up kernel_end 4096) s
      in pmm_mark_used (align_down kernel_end 4096) (align_up bmap_end 4096) s)"

section \<open>The free counter\<close>

definition free_set :: "pmm \<Rightarrow> nat set" where
  "free_set s = {p. p < total_pages s \<and> \<not> bm_test (bitmap s) p}"

definition pmm_inv :: "pmm \<Rightarrow> bool" where
  "pmm_inv s \<longleftrightarrow> total_pages s \<le> length (bitmap s) * 32 \<and> total_pages s \<le> MAX_PAGES \<and>
     unat (free_pages s) = card (free_set s)"

lemma finite_free_set [simp]: "finite (free_set s)"
  by (simp add: free_set_def)

lemma card_free_set: "card (free_set s) \<le> total_pages s"
proof -
  have "card (free_set s) \<le> card {..<total_pages s}"
    by (intro card_mono) (auto simp: free_set_def)
  then show ?thesis by simp
qed

text \<open>Taking a clear bit: used by both allocation and marking.\<close>

lemma take_page:
  assumes inv: "pmm_inv s" and p: "p \<in> free_set s"
  defines "s' \<equiv> s\<lparr>bitmap := bm_set (bitmap s) p, free_pages := free_pages s - 1\<rparr>"
  shows "pmm_inv s'" "free_set s' = free_set s - {p}" "free_pages s > 0"
proof -
  have b: "p < length (bitmap s) * 32" using inv p by (auto simp: pmm_inv_def free_set_def)
  show fs: "free_set s' = free_set s - {p}"
    using bm_test_set [of p "bitmap s"] b by (auto simp: free_set_def s'_def)
  have "0 < card (free_set s)" using p by (auto simp: card_gt_0_iff)
  then have pos: "0 < unat (free_pages s)" using inv by (simp add: pmm_inv_def)
  then show "free_pages s > 0" by (simp add: word_less_nat_alt)
  have "unat (free_pages s - 1) = unat (free_pages s) - 1"
    using pos by (intro unat_minus_one) auto
  then show "pmm_inv s'"
    using inv p fs by (simp add: pmm_inv_def) (simp add: s'_def)
qed

lemma give_page:
  assumes inv: "pmm_inv s" and p: "p < total_pages s" "bm_test (bitmap s) p"
  defines "s' \<equiv> s\<lparr>bitmap := bm_clear (bitmap s) p, free_pages := free_pages s + 1\<rparr>"
  shows "pmm_inv s'" "free_set s' = insert p (free_set s)"
proof -
  have b: "p < length (bitmap s) * 32" using inv p by (auto simp: pmm_inv_def)
  show fs: "free_set s' = insert p (free_set s)"
    using bm_test_clear [of p "bitmap s"] b p by (auto simp: free_set_def s'_def)
  have "p \<notin> free_set s" using p by (simp add: free_set_def)
  then have card: "card (free_set s') = Suc (card (free_set s))" using fs by simp
  have "card (free_set s) \<le> 262144"
    using card_free_set [of s] inv by (simp add: pmm_inv_def MAX_PAGES_def)
  then have "unat (free_pages s + 1) = unat (free_pages s) + 1"
    using inv by (simp add: pmm_inv_def unat_word_ariths)
  then show "pmm_inv s'" using inv card by (simp add: pmm_inv_def) (simp add: s'_def)
qed

lemma pmm_inv_pmem [simp]: "pmm_inv (s\<lparr>pmem := m\<rparr>) = pmm_inv s" "free_set (s\<lparr>pmem := m\<rparr>) = free_set s"
  by (simp_all add: pmm_inv_def free_set_def)

lemma PFN_TO_ADDR_unat: "p < 2 ^ 20 \<Longrightarrow> unat (PFN_TO_ADDR p) = p * 4096"
  by (simp add: PFN_TO_ADDR_def push_bit_eq_mult unat_word_ariths unat_of_nat)

lemma ADDR_TO_PFN_eq: "ADDR_TO_PFN a = unat a div 4096"
  by (simp add: ADDR_TO_PFN_def unat_drop_bit_div)

lemma ADDR_PFN_inv: "p < 2 ^ 20 \<Longrightarrow> ADDR_TO_PFN (PFN_TO_ADDR p) = p"
  by (simp add: ADDR_TO_PFN_eq PFN_TO_ADDR_unat)

lemma pfn_bound: "pmm_inv s \<Longrightarrow> p < total_pages s \<Longrightarrow> p < 2 ^ 20"
  by (simp add: pmm_inv_def MAX_PAGES_def)

section \<open>Single pages\<close>

lemma find_upt_Some:
  "find P [a..<b] = Some i \<longleftrightarrow> a \<le> i \<and> i < b \<and> P i \<and> (\<forall>j. a \<le> j \<longrightarrow> j < i \<longrightarrow> \<not> P j)"
proof -
  have "find P [a..<b] = Some i \<longleftrightarrow>
      (\<exists>k < b - a. P (a + k) \<and> i = a + k \<and> (\<forall>j < k. \<not> P (a + j)))"
    by (auto simp: find_Some_iff)
  also have "\<dots> \<longleftrightarrow> a \<le> i \<and> i < b \<and> P i \<and> (\<forall>j. a \<le> j \<longrightarrow> j < i \<longrightarrow> \<not> P j)"
    (is "?L \<longleftrightarrow> ?R")
  proof
    assume ?L
    then obtain k where k: "k < b - a" "P (a + k)" "i = a + k" "\<forall>j < k. \<not> P (a + j)" by blast
    have "\<not> P j" if "a \<le> j" "j < i" for j using k(4) [rule_format, of "j - a"] that k(3) by simp
    with k show ?R by auto
  next
    assume ?R
    then show ?L by (intro exI [of _ "i - a"]) auto
  qed
  finally show ?thesis .
qed

lemma pmm_alloc_page_cases:
  assumes inv: "pmm_inv s"
  obtains (found) p where "p \<in> free_set s" "p \<noteq> 0" "\<forall>q \<in> free_set s. q = 0 \<or> p \<le> q"
      "pmm_alloc_page s = (PFN_TO_ADDR p, s\<lparr>bitmap := bm_set (bitmap s) p, free_pages := free_pages s - 1,
         pmem := memset (PFN_TO_ADDR p) 0 PAGE_SIZE (pmem s)\<rparr>)"
  | (full) "free_set s \<subseteq> {0}" "pmm_alloc_page s = (0, s)"
proof (cases "find (\<lambda>pfn. \<not> bm_test (bitmap s) pfn) [1..<total_pages s]")
  case None
  then have "free_set s \<subseteq> {0}"
    by (auto simp: find_None_iff free_set_def)
  with None full show thesis by (simp add: pmm_alloc_page_def)
next
  case (Some p)
  then have p: "1 \<le> p" "p < total_pages s" "\<not> bm_test (bitmap s) p"
    "\<forall>j. 1 \<le> j \<longrightarrow> j < p \<longrightarrow> bm_test (bitmap s) j"
    unfolding find_upt_Some by auto
  show thesis
  proof (rule found [of p])
    show "p \<in> free_set s" "p \<noteq> 0" using p by (auto simp: free_set_def)
    show "\<forall>q \<in> free_set s. q = 0 \<or> p \<le> q"
      using p(4) by (auto simp: free_set_def) (metis Suc_leI not_less neq0_conv)
    show "pmm_alloc_page s = (PFN_TO_ADDR p, s\<lparr>bitmap := bm_set (bitmap s) p, free_pages := free_pages s - 1,
         pmem := memset (PFN_TO_ADDR p) 0 PAGE_SIZE (pmem s)\<rparr>)"
      using Some by (simp add: pmm_alloc_page_def Let_def)
  qed
qed

text \<open>The addresses of the frames in use.\<close>

definition pmm_owned :: "pmm \<Rightarrow> u32 set" where
  "pmm_owned s = {a. \<exists>p. p < total_pages s \<and> p \<notin> free_set s \<and> a = PFN_TO_ADDR p}"

lemma PFN_TO_ADDR_inj: "pmm_inv s \<Longrightarrow> p < total_pages s \<Longrightarrow> q < total_pages s \<Longrightarrow> PFN_TO_ADDR p = PFN_TO_ADDR q \<Longrightarrow> p = q"
  using ADDR_PFN_inv pfn_bound by metis

lemma pmm_owned_iff: "pmm_inv s \<Longrightarrow> p < total_pages s \<Longrightarrow> PFN_TO_ADDR p \<in> pmm_owned s \<longleftrightarrow> p \<notin> free_set s"
  using PFN_TO_ADDR_inj by (auto simp: pmm_owned_def)

lemma pmm_free_page_inv: "pmm_inv s \<Longrightarrow> pmm_inv (pmm_free_page a s)"
  using give_page [of s "ADDR_TO_PFN a"] by (auto simp: pmm_free_page_def Let_def)

interpretation pmm_src: page_source pmm_alloc_page pmm_free_page pmm_owned pmm_inv
proof
  fix s s' :: pmm and a
  assume inv: "pmm_inv s"
  show "pmm_inv (pmm_free_page a s)" by (rule pmm_free_page_inv [OF inv])
  {
    assume al: "pmm_alloc_page s = (a, s')"
    show "pmm_inv s'"
      using al take_page [OF inv] inv by (cases rule: pmm_alloc_page_cases [OF inv, case_names found full]) auto
    show "a \<notin> pmm_owned s \<and> pmm_owned s' = insert a (pmm_owned s) \<and> unat a mod 4096 = 0" if "a \<noteq> 0"
    proof (cases rule: pmm_alloc_page_cases [OF inv, case_names found full])
      case (found p)
      have pt: "p < total_pages s" using found by (simp add: free_set_def)
      have a: "a = PFN_TO_ADDR p" and tot: "total_pages s' = total_pages s"
        using al found by auto
      have "free_set s' = free_set s - {p}" using al found take_page(2) [OF inv found(1)] by auto
      then have "pmm_owned s' = insert a (pmm_owned s)"
        using pt a tot by (auto simp: pmm_owned_def)
      moreover have "a \<notin> pmm_owned s" using pmm_owned_iff [OF inv pt] found(1) a by simp
      moreover have "unat a mod 4096 = 0" using a PFN_TO_ADDR_unat pfn_bound [OF inv pt] by simp
      ultimately show ?thesis by simp
    qed (use al that in auto)
  next
    assume al: "pmm_alloc_page s = (0, s')"
    show "pmm_owned s' = pmm_owned s"
    proof (cases rule: pmm_alloc_page_cases [OF inv, case_names found full])
      case (found p)
      have pt: "p < total_pages s" using found by (simp add: free_set_def)
      have "PFN_TO_ADDR p = 0" using al found by simp
      then have "p * 4096 = 0" using PFN_TO_ADDR_unat pfn_bound [OF inv pt] by (metis unat_0)
      with found show ?thesis by simp
    qed (use al in auto)
  next
    assume a: "a \<in> pmm_owned s" "a \<noteq> 0"
    then obtain p where p: "p < total_pages s" "p \<notin> free_set s" "a = PFN_TO_ADDR p"
      by (auto simp: pmm_owned_def)
    have pfn: "ADDR_TO_PFN a = p" using p ADDR_PFN_inv pfn_bound [OF inv] by simp
    have "p \<noteq> 0" using a p by (cases "p = 0") (auto simp: PFN_TO_ADDR_def)
    moreover have "bm_test (bitmap s) p" using p by (simp add: free_set_def)
    ultimately have s': "pmm_free_page a s = s\<lparr>bitmap := bm_clear (bitmap s) p, free_pages := free_pages s + 1\<rparr>"
      using p pfn by (simp add: pmm_free_page_def)
    have "free_set (pmm_free_page a s) = insert p (free_set s)"
      unfolding s' using give_page(2) [OF inv p(1)] \<open>bm_test (bitmap s) p\<close> by simp
    moreover have "total_pages (pmm_free_page a s) = total_pages s" by (simp add: s')
    ultimately show "pmm_owned (pmm_free_page a s) = pmm_owned s - {a}"
      using p PFN_TO_ADDR_inj [OF inv] by (auto simp: pmm_owned_def)
  }
qed

text \<open>What a client of the allocator needs of a frame it was given.\<close>

lemma pmm_alloc_page_fresh:
  assumes "pmm_inv s" "pmm_alloc_page s = (a, s')"
  shows "pmm_inv s'"
    and "a \<noteq> 0 \<Longrightarrow> a \<notin> pmm_owned s \<and> pmm_owned s' = insert a (pmm_owned s) \<and> unat a mod 4096 = 0"
    and "a \<noteq> 0 \<Longrightarrow> pmem s' = (\<lambda>x. if unat (x - a) < 4096 then 0 else pmem s x)"
    and "a = 0 \<Longrightarrow> s' = s"
proof -
  show "pmm_inv s'" by (rule pmm_src.inv_palloc [OF assms])
  show "a \<noteq> 0 \<Longrightarrow> a \<notin> pmm_owned s \<and> pmm_owned s' = insert a (pmm_owned s) \<and> unat a mod 4096 = 0"
    by (rule pmm_src.palloc_fresh [OF assms])
  have "(a \<noteq> 0 \<longrightarrow> pmem s' = (\<lambda>x. if unat (x - a) < 4096 then 0 else pmem s x)) \<and> (a = 0 \<longrightarrow> s' = s)"
  proof (cases rule: pmm_alloc_page_cases [OF assms(1), case_names found full])
    case (found p)
    have "p < 2 ^ 20" using found(1) pfn_bound [OF assms(1)] by (simp add: free_set_def)
    from PFN_TO_ADDR_unat [OF this] have "PFN_TO_ADDR p \<noteq> 0" using found(2) by (metis mult_eq_0_iff unat_0 zero_neq_numeral)
    moreover have "memset (PFN_TO_ADDR p) 0 PAGE_SIZE (pmem s) = (\<lambda>x. if unat (x - PFN_TO_ADDR p) < PAGE_SIZE then 0 else pmem s x)"
      by (rule memset_spec) (simp add: PAGE_SIZE_def)
    ultimately show ?thesis using assms(2) found(4) by (auto simp: PAGE_SIZE_def)
  next
    case full
    then show ?thesis using assms(2) by simp
  qed
  then show "a \<noteq> 0 \<Longrightarrow> pmem s' = (\<lambda>x. if unat (x - a) < 4096 then 0 else pmem s x)"
    and "a = 0 \<Longrightarrow> s' = s" by blast+
qed

lemma pmm_alloc_page_avail:
  assumes "pmm_inv s" "p \<in> free_set s" "p \<noteq> 0"
  shows "fst (pmm_alloc_page s) \<noteq> 0"
proof (cases rule: pmm_alloc_page_cases [OF assms(1), case_names found full])
  case (found q)
  have "q < 2 ^ 20" using found(1) pfn_bound [OF assms(1)] by (simp add: free_set_def)
  from PFN_TO_ADDR_unat [OF this] have "PFN_TO_ADDR q \<noteq> 0" using found(2) by (metis mult_eq_0_iff unat_0 zero_neq_numeral)
  then show ?thesis using found(4) by simp
qed (use assms in auto)

lemma pmm_free_page_free: "pmm_inv s \<Longrightarrow> free_set s \<subseteq> free_set (pmm_free_page a s)"
  using give_page [of s "ADDR_TO_PFN a"] by (auto simp: pmm_free_page_def Let_def not_le)

section \<open>Contiguous allocation\<close>

lemma pmm_find_run_Some:
  "pmm_find_run bm count [k..<n] rs rl = Some r \<Longrightarrow> 0 < count \<Longrightarrow> lo \<le> k \<Longrightarrow>
   (0 < rl \<Longrightarrow> lo \<le> rs \<and> rs + rl = k \<and> (\<forall>i. rs \<le> i \<longrightarrow> i < k \<longrightarrow> \<not> bm_test bm i)) \<Longrightarrow>
   lo \<le> r \<and> r + count \<le> n \<and> (\<forall>i. r \<le> i \<longrightarrow> i < r + count \<longrightarrow> \<not> bm_test bm i)"
proof (induction "n - k" arbitrary: k rs rl)
  case 0
  then show ?case by simp
next
  case (Suc d)
  then have k: "k < n" by simp
  then have up: "[k..<n] = k # [Suc k..<n]" by (rule upt_conv_Cons)
  show ?case
  proof (cases "bm_test bm k")
    case True
    then have "pmm_find_run bm count [Suc k..<n] rs 0 = Some r" using Suc.prems(1) up by simp
    with Suc show ?thesis by (intro Suc.hyps(1) [of "Suc k" rs 0]) auto
  next
    case False
    define rs' where "rs' = (if rl = 0 then k else rs)"
    have run: "lo \<le> rs'" "rs' + Suc rl = Suc k" "\<forall>i. rs' \<le> i \<longrightarrow> i < Suc k \<longrightarrow> \<not> bm_test bm i"
      using Suc.prems(3,4) False by (auto simp: rs'_def less_Suc_eq)
    show ?thesis
    proof (cases "rl + 1 = count")
      case True
      then have "r = rs'" using Suc.prems(1) False up by (simp add: rs'_def Let_def)
      with True run k show ?thesis by auto
    next
      case ne: False
      then have rec: "pmm_find_run bm count [Suc k..<n] rs' (Suc rl) = Some r"
        using Suc.prems(1) False up by (simp add: rs'_def Let_def)
      show ?thesis
        by (rule Suc.hyps(1) [OF _ rec Suc.prems(2)]) (use Suc.hyps(2) run Suc.prems(3) in auto)
    qed
  qed
qed

lemma pmm_find_run_None:
  "pmm_find_run bm count [k..<n] rs rl = None \<Longrightarrow> rl < count \<Longrightarrow> rl \<le> k \<Longrightarrow>
   k - rl \<le> r \<Longrightarrow> r + count \<le> n \<Longrightarrow> \<exists>i. r \<le> i \<and> i < r + count \<and> bm_test bm i"
proof (induction "n - k" arbitrary: k rs rl)
  case 0
  then show ?case by simp
next
  case (Suc d)
  then have k: "k < n" by simp
  then have up: "[k..<n] = k # [Suc k..<n]" by (rule upt_conv_Cons)
  show ?case
  proof (cases "bm_test bm k")
    case True
    then have rec: "pmm_find_run bm count [Suc k..<n] rs 0 = None" using Suc.prems(1) up by simp
    show ?thesis
    proof (cases "r \<le> k")
      case True
      then have "r \<le> k \<and> k < r + count" using Suc.prems by linarith
      with \<open>bm_test bm k\<close> show ?thesis by blast
    next
      case False
      then show ?thesis using Suc.hyps(2) Suc.prems by (intro Suc.hyps(1) [OF _ rec]) auto
    qed
  next
    case False
    have ne: "rl + 1 \<noteq> count" using Suc.prems(1) False up by (auto simp: Let_def)
    then have rec: "pmm_find_run bm count [Suc k..<n] (if rl = 0 then k else rs) (Suc rl) = None"
      using Suc.prems(1) False up by (simp add: Let_def)
    show ?thesis using Suc.hyps(2) Suc.prems ne by (intro Suc.hyps(1) [OF _ rec]) auto
  qed
qed

definition take_frame :: "nat \<Rightarrow> pmm \<Rightarrow> pmm" where
  "take_frame i s = s\<lparr>bitmap := bm_set (bitmap s) i, free_pages := free_pages s - 1\<rparr>"

lemma take_frames:
  "pmm_inv s \<Longrightarrow> distinct ps \<Longrightarrow> set ps \<subseteq> free_set s \<Longrightarrow>
   pmm_inv (fold take_frame ps s) \<and> free_set (fold take_frame ps s) = free_set s - set ps
   \<and> pmem (fold take_frame ps s) = pmem s \<and> total_pages (fold take_frame ps s) = total_pages s"
proof (induction ps arbitrary: s)
  case (Cons p ps)
  have p: "p \<in> free_set s" using Cons.prems by simp
  note step = take_page(1,2) [OF Cons.prems(1) p, folded take_frame_def]
  have "set ps \<subseteq> free_set (take_frame p s)" using Cons.prems step(2) by auto
  from Cons.IH [OF step(1) _ this] Cons.prems step(2) show ?case
    by (auto simp: take_frame_def)
qed simp

lemma pmm_alloc_pages_cases:
  assumes inv: "pmm_inv s" and count: "1 < count"
  obtains (found) p where "1 \<le> p" "{p..<p + count} \<subseteq> free_set s"
      "pmm_alloc_pages count s = (PFN_TO_ADDR p, (fold take_frame [p..<p + count] s)
         \<lparr>pmem := memset (PFN_TO_ADDR p) 0 (count * PAGE_SIZE) (pmem s)\<rparr>)"
  | (full) "\<forall>p \<ge> 1. \<not> {p..<p + count} \<subseteq> free_set s" "pmm_alloc_pages count s = (0, s)"
proof (cases "pmm_find_run (bitmap s) count [1..<total_pages s] 0 0")
  case None
  have "\<not> {p..<p + count} \<subseteq> free_set s" if "1 \<le> p" for p
  proof (cases "p + count \<le> total_pages s")
    case True
    from pmm_find_run_None [OF None, of p] that count True
    obtain i where "p \<le> i" "i < p + count" "bm_test (bitmap s) i" by auto
    then show ?thesis by (auto simp: free_set_def)
  next
    case False
    then have "total_pages s \<le> p + count - 1" using count by linarith
    then have "p + count - 1 \<notin> free_set s" unfolding free_set_def by simp
    moreover have "p + count - 1 \<in> {p..<p + count}" using count by simp
    ultimately show ?thesis by blast
  qed
  with None count show thesis by (intro full) (simp_all add: pmm_alloc_pages_def)
next
  case (Some p)
  from pmm_find_run_Some [OF Some, of 1] count
  have p: "1 \<le> p" "p + count \<le> total_pages s" "\<forall>i. p \<le> i \<longrightarrow> i < p + count \<longrightarrow> \<not> bm_test (bitmap s) i"
    by auto
  show thesis
  proof (rule found [of p])
    show sub: "{p..<p + count} \<subseteq> free_set s" using p by (auto simp: free_set_def)
    have "pmem (fold take_frame [p..<p + count] s) = pmem s"
      using take_frames [OF inv, of "[p..<p + count]"] sub by simp
    then show "pmm_alloc_pages count s = (PFN_TO_ADDR p, (fold take_frame [p..<p + count] s)
         \<lparr>pmem := memset (PFN_TO_ADDR p) 0 (count * PAGE_SIZE) (pmem s)\<rparr>)"
      using Some count by (simp add: pmm_alloc_pages_def Let_def take_frame_def [abs_def])
  qed (rule p(1))
qed

section \<open>Marking ranges and initialisation\<close>

lemma mark_used_page:
  assumes "pmm_inv s" "p < total_pages s"
  shows "pmm_inv (pmm_mark_used_page p s)" "free_set (pmm_mark_used_page p s) = free_set s - {p}"
    "total_pages (pmm_mark_used_page p s) = total_pages s"
proof -
  show "total_pages (pmm_mark_used_page p s) = total_pages s" by (simp add: pmm_mark_used_page_def)
  have "pmm_inv (pmm_mark_used_page p s) \<and> free_set (pmm_mark_used_page p s) = free_set s - {p}"
  proof (cases "bm_test (bitmap s) p")
    case True
    then have "p \<notin> free_set s" by (simp add: free_set_def)
    with True assms show ?thesis by (simp add: pmm_mark_used_page_def)
  next
    case False
    then have "p \<in> free_set s" using assms by (simp add: free_set_def)
    from take_page [OF assms(1) this] False show ?thesis by (simp add: pmm_mark_used_page_def)
  qed
  then show "pmm_inv (pmm_mark_used_page p s)" "free_set (pmm_mark_used_page p s) = free_set s - {p}"
    by simp_all
qed

lemma mark_free_page:
  assumes "pmm_inv s" "p < total_pages s"
  shows "pmm_inv (pmm_mark_free_page p s)" "free_set (pmm_mark_free_page p s) = insert p (free_set s)"
    "total_pages (pmm_mark_free_page p s) = total_pages s"
proof -
  show "total_pages (pmm_mark_free_page p s) = total_pages s" by (simp add: pmm_mark_free_page_def)
  have "pmm_inv (pmm_mark_free_page p s) \<and> free_set (pmm_mark_free_page p s) = insert p (free_set s)"
  proof (cases "bm_test (bitmap s) p")
    case True
    from give_page [OF assms True] True show ?thesis by (simp add: pmm_mark_free_page_def)
  next
    case False
    then have "p \<in> free_set s" using assms by (simp add: free_set_def)
    with False assms show ?thesis by (simp add: pmm_mark_free_page_def insert_absorb)
  qed
  then show "pmm_inv (pmm_mark_free_page p s)" "free_set (pmm_mark_free_page p s) = insert p (free_set s)"
    by simp_all
qed

lemma mark_used_fold:
  "pmm_inv s \<Longrightarrow> set ps \<subseteq> {..<total_pages s} \<Longrightarrow>
   pmm_inv (fold pmm_mark_used_page ps s) \<and> free_set (fold pmm_mark_used_page ps s) = free_set s - set ps \<and>
   total_pages (fold pmm_mark_used_page ps s) = total_pages s"
proof (induction ps arbitrary: s)
  case (Cons p ps)
  then have "p < total_pages s" by simp
  note step = mark_used_page [OF Cons.prems(1) this]
  have "set ps \<subseteq> {..<total_pages (pmm_mark_used_page p s)}" using Cons.prems step(3) by simp
  from Cons.IH [OF step(1) this] step(2,3) show ?case by auto
qed simp

lemma mark_free_fold:
  "pmm_inv s \<Longrightarrow> set ps \<subseteq> {..<total_pages s} \<Longrightarrow>
   pmm_inv (fold pmm_mark_free_page ps s) \<and> free_set (fold pmm_mark_free_page ps s) = free_set s \<union> set ps \<and>
   total_pages (fold pmm_mark_free_page ps s) = total_pages s"
proof (induction ps arbitrary: s)
  case (Cons p ps)
  then have "p < total_pages s" by simp
  note step = mark_free_page [OF Cons.prems(1) this]
  have "set ps \<subseteq> {..<total_pages (pmm_mark_free_page p s)}" using Cons.prems step(3) by simp
  from Cons.IH [OF step(1) this] step(2,3) show ?case by auto
qed simp

lemma pmm_mark_used_spec:
  assumes "pmm_inv s"
  shows "pmm_inv (pmm_mark_used a b s)"
    "free_set (pmm_mark_used a b s) = free_set s - {ADDR_TO_PFN a..<ADDR_TO_PFN b}"
    "total_pages (pmm_mark_used a b s) = total_pages s"
proof -
  let ?ps = "[ADDR_TO_PFN a..<min (ADDR_TO_PFN b) (total_pages s)]"
  have "set ?ps \<subseteq> {..<total_pages s}" by auto
  from mark_used_fold [OF assms this]
  have f: "pmm_inv (pmm_mark_used a b s)" "free_set (pmm_mark_used a b s) = free_set s - set ?ps"
    "total_pages (pmm_mark_used a b s) = total_pages s"
    unfolding pmm_mark_used_def by blast+
  then show "pmm_inv (pmm_mark_used a b s)" "total_pages (pmm_mark_used a b s) = total_pages s" by blast+
  have "free_set s - set ?ps = free_set s - {ADDR_TO_PFN a..<ADDR_TO_PFN b}"
    by (auto simp: free_set_def)
  with f show "free_set (pmm_mark_used a b s) = free_set s - {ADDR_TO_PFN a..<ADDR_TO_PFN b}" by simp
qed

lemma pmm_mark_free_spec:
  assumes "pmm_inv s"
  shows "pmm_inv (pmm_mark_free a b s)"
    "free_set (pmm_mark_free a b s) = free_set s \<union>
       {ADDR_TO_PFN (align_up a 4096)..<min (ADDR_TO_PFN (align_down b 4096)) (total_pages s)}"
    "total_pages (pmm_mark_free a b s) = total_pages s"
proof -
  let ?ps = "[ADDR_TO_PFN (align_up a 4096)..<min (ADDR_TO_PFN (align_down b 4096)) (total_pages s)]"
  have "set ?ps \<subseteq> {..<total_pages s}" by auto
  from mark_free_fold [OF assms this]
  show "pmm_inv (pmm_mark_free a b s)" "total_pages (pmm_mark_free a b s) = total_pages s"
    "free_set (pmm_mark_free a b s) = free_set s \<union>
       {ADDR_TO_PFN (align_up a 4096)..<min (ADDR_TO_PFN (align_down b 4096)) (total_pages s)}"
    unfolding pmm_mark_free_def by simp_all
qed

lemma pmm_free_entries:
  "pmm_inv s \<Longrightarrow> pmm_inv (fold pmm_free_entry es s) \<and> total_pages (fold pmm_free_entry es s) = total_pages s"
proof (induction es arbitrary: s)
  case (Cons e es)
  have "pmm_inv (pmm_free_entry e s) \<and> total_pages (pmm_free_entry e s) = total_pages s"
    using pmm_mark_free_spec [OF Cons.prems] Cons.prems by (auto simp: pmm_free_entry_def split: prod.splits)
  with Cons.IH show ?case by simp
qed simp

lemma pmm_mem_bytes_cap: "pmm_mem_bytes mbi \<le> 0x40000000"
  by (simp add: pmm_mem_bytes_def PHYS_MEM_MAX_def Let_def not_less)

lemma pmm_total_le: "ADDR_TO_PFN (align_up (pmm_mem_bytes mbi) 4096) \<le> MAX_PAGES"
proof -
  have le: "unat (pmm_mem_bytes mbi) \<le> 0x40000000"
    using pmm_mem_bytes_cap [of mbi] by (simp add: word_le_nat_alt)
  then have "unat (pmm_mem_bytes mbi) + 4095 < 2 ^ 32" by simp
  from unat_align_up_page [OF this] have "ADDR_TO_PFN (align_up (pmm_mem_bytes mbi) 4096) = (unat (pmm_mem_bytes mbi) + 4095) div 4096"
    by (simp add: ADDR_TO_PFN_eq)
  also have "\<dots> \<le> (0x40000000 + 4095) div 4096" using le by (intro div_le_mono) simp
  finally show ?thesis by (simp add: MAX_PAGES_def)
qed

text \<open>Bytes of the bitmap, as \<open>pmm_init\<close> rounds them.\<close>

definition pmm_bitmap_bytes :: "multiboot_info \<Rightarrow> u32" where
  "pmm_bitmap_bytes mbi = align_up (of_nat ((ADDR_TO_PFN (align_up (pmm_mem_bytes mbi) 4096) + 7) div 8)) 4096"

lemma pmm_bitmap_room:
  "ADDR_TO_PFN (align_up (pmm_mem_bytes mbi) 4096) \<le> unat (pmm_bitmap_bytes mbi) div 4 * 32"
proof -
  define t where "t = ADDR_TO_PFN (align_up (pmm_mem_bytes mbi) 4096)"
  have t: "t \<le> 262144" using pmm_total_le [of mbi] by (simp add: t_def MAX_PAGES_def)
  define b where "b = (t + 7) div 8"
  have b: "b \<le> 32768" "t \<le> 8 * b" using t by (simp_all add: b_def)
  have ub: "unat (of_nat b :: u32) = b" using b by (simp add: unat_of_nat)
  have "unat (pmm_bitmap_bytes mbi) = (b + 4095) div 4096 * 4096"
    using unat_align_up_page [of "of_nat b"] ub b by (simp add: pmm_bitmap_bytes_def t_def [symmetric] b_def [symmetric])
  moreover have "b \<le> (b + 4095) div 4096 * 4096"
    using div_mult_mod_eq [of "b + 4095" 4096] mod_less_divisor [of 4096 "b + 4095"] by linarith
  moreover have "(b + 4095) div 4096 * 4096 div 4 * 32 = (b + 4095) div 4096 * 4096 * 8" by simp
  ultimately show ?thesis using b(2) by (simp add: t_def [symmetric])
qed

lemma pmm_init_spec:
  fixes ks ke mbi m
  defines "s \<equiv> pmm_init ks ke mbi m"
  shows "pmm_inv s"
    and "0 \<notin> free_set s"
    and "p \<in> {ADDR_TO_PFN (align_down ks 4096)..<ADDR_TO_PFN (align_up ke 4096)} \<Longrightarrow> p \<notin> free_set s"
    and "p \<in> {ADDR_TO_PFN (align_down ke 4096)..<ADDR_TO_PFN (align_up (ke + pmm_bitmap_bytes mbi) 4096)} \<Longrightarrow> p \<notin> free_set s"
proof -
  define t where "t = ADDR_TO_PFN (align_up (pmm_mem_bytes mbi) 4096)"
  define s0 where "s0 = \<lparr>bitmap = replicate (unat (pmm_bitmap_bytes mbi) div 4) (- 1), total_pages = t,
      free_pages = 0, pmem = m\<rparr>"
  have room: "t \<le> unat (pmm_bitmap_bytes mbi) div 4 * 32" using pmm_bitmap_room by (simp add: t_def)
  have "free_set s0 = {}"
    using room bm_test_replicate_ones [where 'a = 32, of _ "unat (pmm_bitmap_bytes mbi) div 4"]
    by (auto simp: free_set_def s0_def)
  then have inv0: "pmm_inv s0"
    using room pmm_total_le [of mbi] by (simp add: pmm_inv_def) (simp add: s0_def t_def)
  define s1 where "s1 = (case mb_mmap mbi of
      Some es \<Rightarrow> fold pmm_free_entry es s0
    | None \<Rightarrow> pmm_mark_free 0x100000 (pmm_mem_bytes mbi) (pmm_mark_free 0x1000 (mem_lower mbi * 1024) s0))"
  have inv1: "pmm_inv s1"
    using pmm_free_entries [OF inv0] pmm_mark_free_spec(1) inv0 by (auto simp: s1_def split: option.splits)
  define s2 where "s2 = pmm_mark_used 0 4096 s1"
  define s3 where "s3 = pmm_mark_used (align_down ks 4096) (align_up ke 4096) s2"
  define s4 where "s4 = pmm_mark_used (align_down ke 4096) (align_up (ke + pmm_bitmap_bytes mbi) 4096) s3"
  have s: "s = s4"
    unfolding s_def pmm_init_def Let_def s4_def s3_def s2_def s1_def s0_def t_def pmm_bitmap_bytes_def ..
  have inv2: "pmm_inv s2" unfolding s2_def by (rule pmm_mark_used_spec(1) [OF inv1])
  have inv3: "pmm_inv s3" unfolding s3_def by (rule pmm_mark_used_spec(1) [OF inv2])
  show "pmm_inv s" unfolding s s4_def by (rule pmm_mark_used_spec(1) [OF inv3])
  note f4 = pmm_mark_used_spec(2) [OF inv3, of "align_down ke 4096" "align_up (ke + pmm_bitmap_bytes mbi) 4096", folded s4_def]
  note f3 = pmm_mark_used_spec(2) [OF inv2, of "align_down ks 4096" "align_up ke 4096", folded s3_def]
  note f2 = pmm_mark_used_spec(2) [OF inv1, of 0 4096, folded s2_def]
  have "0 \<notin> free_set s2" unfolding f2 by (simp add: ADDR_TO_PFN_eq)
  then show "0 \<notin> free_set s" unfolding s f4 f3 by simp
  show "p \<in> {ADDR_TO_PFN (align_down ks 4096)..<ADDR_TO_PFN (align_up ke 4096)} \<Longrightarrow> p \<notin> free_set s"
    unfolding s f4 f3 by simp
  show "p \<in> {ADDR_TO_PFN (align_down ke 4096)..<ADDR_TO_PFN (align_up (ke + pmm_bitmap_bytes mbi) 4096)} \<Longrightarrow> p \<notin> free_set s"
    unfolding s f4 by simp
qed

text \<open>
  An available memory-map entry above 4 GB: its start is clamped to \<open>0xFFFFFFFF\<close>, whose
  rounding up wraps to 0, so every frame is marked free, whatever was reserved before.
\<close>

lemma mmap_high_entry:
  assumes "mm_addr e > 0xFFFFFFFF" "mm_addr e + mm_len e > 0xFFFFFFFF" "mm_type e = MULTIBOOT_MMAP_AVAILABLE"
    and inv: "pmm_inv s"
  shows "free_set (pmm_free_entry e s) = {..<total_pages s}"
proof -
  have r: "mmap_range e = (0, 0xFFFFF000)"
    using assms(1,2) by (simp add: mmap_range_def Let_def align_up_def align_down_def)
  have e: "pmm_free_entry e s = pmm_mark_free 0 0xFFFFF000 s"
    using assms(3) r by (simp add: pmm_free_entry_def)
  have a: "ADDR_TO_PFN (align_up 0 4096) = 0" "ADDR_TO_PFN (align_down 0xFFFFF000 4096) = 0xFFFFF"
    by (simp_all add: ADDR_TO_PFN_eq align_up_def align_down_def)
  have "min 0xFFFFF (total_pages s) = total_pages s" using inv by (simp add: pmm_inv_def MAX_PAGES_def)
  then have "free_set (pmm_free_entry e s) = free_set s \<union> {0..<total_pages s}"
    using pmm_mark_free_spec(2) [OF inv, of 0 "0xFFFFF000"] by (simp only: e a)
  moreover have "free_set s \<subseteq> {0..<total_pages s}" by (auto simp: free_set_def)
  ultimately show ?thesis by auto
qed

section \<open>Properties\<close>

text \<open>\<open>pmm_alloc_page\<close> on a consistent allocator returns the lowest free frame above frame 0, marks
  only that frame used, zeroes exactly its 4096 bytes and keeps the free counter exact; it returns
  0, and changes nothing, only when no such frame is free.\<close>

theorem pmm_alloc_page_correct:
  assumes "pmm_inv s" "pmm_alloc_page s = (a, s')"
  shows "pmm_inv s' \<and>
    (if a = 0 then s' = s \<and> free_set s \<subseteq> {0}
     else (\<exists>p \<in> free_set s. a = PFN_TO_ADDR p \<and> p \<noteq> 0 \<and> (\<forall>q \<in> free_set s. q = 0 \<or> p \<le> q) \<and>
       free_set s' = free_set s - {p} \<and>
       pmem s' = (\<lambda>x. if unat (x - a) < PAGE_SIZE then 0 else pmem s x)))"
proof (cases rule: pmm_alloc_page_cases [OF assms(1), case_names found full])
  case (found p)
  have pt: "p < 2 ^ 20" using found(1) pfn_bound [OF assms(1)] by (simp add: free_set_def)
  have nz: "PFN_TO_ADDR p \<noteq> 0" using PFN_TO_ADDR_unat [OF pt] found(2) by (metis mult_eq_0_iff unat_0 zero_neq_numeral)
  have "memset (PFN_TO_ADDR p) 0 PAGE_SIZE (pmem s) = (\<lambda>x. if unat (x - PFN_TO_ADDR p) < PAGE_SIZE then 0 else pmem s x)"
    by (rule memset_spec) (simp add: PAGE_SIZE_def)
  then show ?thesis
    using assms(2) found nz take_page(1,2) [OF assms(1) found(1)] by auto
qed (use assms in auto)

definition pmm_example :: pmm where
  "pmm_example = \<lparr>bitmap = [0xFFFFFFFB], total_pages = 4, free_pages = 1, pmem = (\<lambda>_. 9)\<rparr>"

lemma pmm_example_free: "free_set pmm_example = {2}"
proof -
  have "bm_test [0xFFFFFFFB :: u32] 0" "bm_test [0xFFFFFFFB :: u32] 1" "\<not> bm_test [0xFFFFFFFB :: u32] 2"
    "bm_test [0xFFFFFFFB :: u32] 3"
    by (simp_all add: bm_test_def)
  moreover have "p < 4 \<longleftrightarrow> p = 0 \<or> p = 1 \<or> p = 2 \<or> p = 3" for p :: nat by linarith
  ultimately show ?thesis by (auto simp: free_set_def pmm_example_def)
qed

lemma pmm_example_inv: "pmm_inv pmm_example"
  unfolding pmm_inv_def pmm_example_free by (simp add: pmm_example_def MAX_PAGES_def)

theorem pmm_alloc_page_correct_witness:
  "pmm_inv (snd (pmm_alloc_page pmm_example)) \<and> fst (pmm_alloc_page pmm_example) = PFN_TO_ADDR 2 \<and>
   free_set (snd (pmm_alloc_page pmm_example)) = {}"
  using pmm_alloc_page_correct [OF pmm_example_inv surjective_pairing]
  by (auto simp: pmm_example_free split: if_splits)

text \<open>pages allocated one after the other without a free in between are pairwise different, and
  none was in use before.\<close>

theorem pmm_allocations_distinct:
  assumes "pmm_inv s" "alloc_many pmm_alloc_page n s = (as, s')"
  shows "distinct (filter (\<lambda>a. a \<noteq> 0) as) \<and> set (filter (\<lambda>a. a \<noteq> 0) as) \<inter> pmm_owned s = {}"
  using pmm_src.alloc_many_distinct [OF assms] by blast

theorem pmm_allocations_distinct_witness:
  "distinct (filter (\<lambda>a. a \<noteq> 0) (fst (alloc_many pmm_alloc_page 3 pmm_example))) \<and>
   set (filter (\<lambda>a. a \<noteq> 0) (fst (alloc_many pmm_alloc_page 3 pmm_example))) \<inter> pmm_owned pmm_example = {}"
  by (rule pmm_allocations_distinct [OF pmm_example_inv, where n = 3 and s' = "snd (alloc_many pmm_alloc_page 3 pmm_example)"]) simp

text \<open>C11: a contiguous allocation of two or more pages finds a run of free frames whenever there is one
  above frame 0, marks exactly the run used and keeps the free counter exact.\<close>

theorem pmm_alloc_pages_correct:
  assumes "pmm_inv s" "1 < count"
  shows "if \<exists>p \<ge> 1. {p..<p + count} \<subseteq> free_set s
    then \<exists>p s'. 1 \<le> p \<and> {p..<p + count} \<subseteq> free_set s \<and> pmm_alloc_pages count s = (PFN_TO_ADDR p, s') \<and>
      pmm_inv s' \<and> free_set s' = free_set s - {p..<p + count}
    else pmm_alloc_pages count s = (0, s)"
proof (cases rule: pmm_alloc_pages_cases [OF assms, case_names found full])
  case (found p)
  have "pmm_inv (fold take_frame [p..<p + count] s)"
    "free_set (fold take_frame [p..<p + count] s) = free_set s - {p..<p + count}"
    using take_frames [OF assms(1), of "[p..<p + count]"] found(2) by simp_all
  with found show ?thesis by auto
next
  case full
  then show ?thesis by auto
qed

lemma pmm_example_pair:
  "pmm_inv (pmm_example\<lparr>bitmap := [0xFFFFFFF3], free_pages := 2\<rparr>)"
  "free_set (pmm_example\<lparr>bitmap := [0xFFFFFFF3], free_pages := 2\<rparr>) = {2, 3}"
proof -
  have "bm_test [0xFFFFFFF3 :: u32] 0" "bm_test [0xFFFFFFF3 :: u32] 1" "\<not> bm_test [0xFFFFFFF3 :: u32] 2"
    "\<not> bm_test [0xFFFFFFF3 :: u32] 3"
    by (simp_all add: bm_test_def)
  moreover have "p < 4 \<longleftrightarrow> p = 0 \<or> p = 1 \<or> p = 2 \<or> p = 3" for p :: nat by linarith
  ultimately show f: "free_set (pmm_example\<lparr>bitmap := [0xFFFFFFF3], free_pages := 2\<rparr>) = {2, 3}"
    by (auto simp: free_set_def pmm_example_def)
  show "pmm_inv (pmm_example\<lparr>bitmap := [0xFFFFFFF3], free_pages := 2\<rparr>)"
    unfolding pmm_inv_def f by (simp add: pmm_example_def MAX_PAGES_def)
qed

theorem pmm_alloc_pages_correct_witness:
  "\<exists>s'. pmm_alloc_pages 2 (pmm_example\<lparr>bitmap := [0xFFFFFFF3], free_pages := 2\<rparr>) = (PFN_TO_ADDR 2, s') \<and>
    pmm_inv s' \<and> free_set s' = {}"
proof -
  have run: "{p..<p + 2} \<subseteq> {2, 3} \<longleftrightarrow> p = 2" for p :: nat
  proof
    assume "{p..<p + 2} \<subseteq> {2, 3}"
    moreover have "p \<in> {p..<p + 2}" "p + 1 \<in> {p..<p + 2}" by simp_all
    ultimately have "p \<in> {2, 3}" "p + 1 \<in> {2, 3}" by blast+
    then show "p = 2" by auto
  qed auto
  show ?thesis
    using pmm_alloc_pages_correct [OF pmm_example_pair(1), of 2] unfolding pmm_example_pair(2) run by auto
qed

text \<open>C24: whatever the memory map, after \<open>pmm_init\<close> the free counter is exact, frame 0 is not free, and
  neither are the frames of the kernel image and of the bitmap.\<close>

theorem pmm_init_protects_kernel:
  "pmm_inv (pmm_init ks ke mbi m) \<and> 0 \<notin> free_set (pmm_init ks ke mbi m) \<and>
   {ADDR_TO_PFN (align_down ks 4096)..<ADDR_TO_PFN (align_up ke 4096)} \<inter> free_set (pmm_init ks ke mbi m) = {} \<and>
   {ADDR_TO_PFN (align_down ke 4096)..<ADDR_TO_PFN (align_up (ke + pmm_bitmap_bytes mbi) 4096)}
     \<inter> free_set (pmm_init ks ke mbi m) = {}"
  using pmm_init_spec [where ks = ks and ke = ke and mbi = mbi and m = m] by blast

text \<open>An available memory-map entry that lies above 4 GB marks every frame below the limit free, because
  its clamped start wraps to 0 when it is rounded up.\<close>

theorem mmap_entry_above_4g_frees_all:
  assumes "pmm_inv s" "mm_type e = MULTIBOOT_MMAP_AVAILABLE" "mm_addr e > 0xFFFFFFFF" "mm_addr e + mm_len e > 0xFFFFFFFF"
  shows "free_set (pmm_free_entry e s) = {..<total_pages s}"
  by (rule mmap_high_entry [OF assms(3,4,2,1)])

theorem mmap_entry_above_4g_frees_all_witness:
  "free_set (pmm_free_entry \<lparr>mm_addr = 0x100000000, mm_len = 0x40000000, mm_type = 1\<rparr> pmm_example) = {..<4}"
  using mmap_entry_above_4g_frees_all [OF pmm_example_inv, of "\<lparr>mm_addr = 0x100000000, mm_len = 0x40000000, mm_type = 1\<rparr>"]
  by (simp add: MULTIBOOT_MMAP_AVAILABLE_def pmm_example_def)

end
