(* ===== verification/Paging.thy ===== *)
theory Paging
  imports PhysAlloc
begin

text \<open>
  The kernel page directory and its page tables (\<open>mm/paging.c\<close>). The directory is the
  static array \<open>kernel_pd\<close>; page tables live in physical frames of the allocator and are
  read and written through \<open>load32\<close> and \<open>store32\<close>, as the code does through its
  identity mapping. TLB flushes have no effect on these tables and are left out; the page-fault
  handler is in \<open>PageFault\<close>.
\<close>

section \<open>Constants and state (include/paging.h)\<close>

definition PDE_PRESENT :: u32 where "PDE_PRESENT = 1"
definition PDE_WRITABLE :: u32 where "PDE_WRITABLE = 2"
definition PDE_USER :: u32 where "PDE_USER = 4"
definition PDE_NOCACHE :: u32 where "PDE_NOCACHE = 16"
definition PDE_HUGE :: u32 where "PDE_HUGE = 128"
definition PD_ENTRIES :: nat where "PD_ENTRIES = 1024"
definition PAGE_MASK :: u32 where "PAGE_MASK = NOT (4096 - 1)"

record paging =
  kernel_pd :: "u32 list"
  pg_pmm :: pmm
  pg_cr0 :: u32
  pg_cr3 :: u32
  pg_cr4 :: u32

definition pd_index :: "u32 \<Rightarrow> nat" where
  "pd_index va = unat (drop_bit 22 va)"

definition pt_index :: "u32 \<Rightarrow> u32" where
  "pt_index va = drop_bit 12 va AND 0x3FF"

section \<open>Operations\<close>

text \<open>The table for a directory entry, 0 for \<open>NULL\<close>.\<close>

definition get_or_alloc_pt :: "nat \<Rightarrow> bool \<Rightarrow> u32 \<Rightarrow> paging \<Rightarrow> u32 \<times> paging" where
  "get_or_alloc_pt pd_idx create flags s =
     (let pde = kernel_pd s ! pd_idx in
      if pde AND PDE_PRESENT \<noteq> 0 then
        (if pde AND PDE_HUGE \<noteq> 0 then (0, s) else (pde AND PAGE_MASK, s))
      else if \<not> create then (0, s)
      else
        let (pt_phys, pm) = pmm_alloc_page (pg_pmm s) in
        if pt_phys = 0 then (0, s\<lparr>pg_pmm := pm\<rparr>)
        else (pt_phys, s\<lparr>pg_pmm := pm\<lparr>pmem := memset pt_phys 0 PAGE_SIZE (pmem pm)\<rparr>,
          kernel_pd := (kernel_pd s)[pd_idx := pt_phys OR PDE_PRESENT OR PDE_WRITABLE OR (flags AND PDE_USER)]\<rparr>))"

text \<open>\<open>n\<close> 4 MB entries for the physical addresses \<open>a * 4 MB\<close> on, from entry \<open>off + a\<close> on.\<close>

definition pse_entries :: "nat \<Rightarrow> nat \<Rightarrow> nat \<Rightarrow> u32 \<Rightarrow> u32 list \<Rightarrow> u32 list" where
  "pse_entries off a b flags pd = fold (\<lambda>i pd. pd[off + i := (of_nat i * 0x400000) OR flags]) [a..<b] pd"

definition paging_init :: "u32 \<Rightarrow> paging \<Rightarrow> paging" where
  "paging_init pd_addr s =
     (let rw_huge = PDE_PRESENT OR PDE_WRITABLE OR PDE_HUGE;
          pd = replicate PD_ENTRIES 0;
          pd = pse_entries 0 0 64 rw_huge pd;
          pd = pse_entries 0 224 240 (rw_huge OR PDE_NOCACHE) pd;
          pd = pse_entries 0 240 256 (rw_huge OR PDE_NOCACHE) pd;
          pd = pse_entries 768 0 64 rw_huge pd
      in s\<lparr>kernel_pd := pd, pg_cr4 := pg_cr4 s OR push_bit 4 1, pg_cr3 := pd_addr,
           pg_cr0 := pg_cr0 s OR (push_bit 31 1 OR push_bit 16 1)\<rparr>)"

definition paging_map_page :: "u32 \<Rightarrow> u32 \<Rightarrow> u32 \<Rightarrow> paging \<Rightarrow> int \<times> paging" where
  "paging_map_page virt phys flags s =
     (let (pt, s) = get_or_alloc_pt (pd_index virt) True flags s in
      if pt = 0 then (- 1, s)
      else (0, s\<lparr>pg_pmm := (pg_pmm s)\<lparr>pmem := store32 (pmem (pg_pmm s)) (pt + pt_index virt * 4)
        ((phys AND PAGE_MASK) OR PDE_PRESENT OR (flags AND 0xFFF))\<rparr>\<rparr>))"

text \<open>The loop of \<open>paging_map_range\<close> with \<open>n\<close> iterations left, at index \<open>i\<close>.\<close>

fun paging_map_from :: "nat \<Rightarrow> u32 \<Rightarrow> u32 \<Rightarrow> u32 \<Rightarrow> u32 \<Rightarrow> paging \<Rightarrow> int \<times> paging" where
  "paging_map_from 0 i virt phys flags s = (0, s)"
| "paging_map_from (Suc n) i virt phys flags s =
     (let (r, s) = paging_map_page (virt + i * 4096) (phys + i * 4096) flags s in
      if r \<noteq> 0 then (- 1, s) else paging_map_from n (i + 1) virt phys flags s)"

definition paging_map_range :: "u32 \<Rightarrow> u32 \<Rightarrow> u32 \<Rightarrow> u32 \<Rightarrow> paging \<Rightarrow> int \<times> paging" where
  "paging_map_range virt phys count flags s = paging_map_from (unat count) 0 virt phys flags s"

definition paging_unmap_page :: "u32 \<Rightarrow> paging \<Rightarrow> paging" where
  "paging_unmap_page virt s =
     (let (pt, s) = get_or_alloc_pt (pd_index virt) False 0 s in
      if pt = 0 then s
      else s\<lparr>pg_pmm := (pg_pmm s)\<lparr>pmem := store32 (pmem (pg_pmm s)) (pt + pt_index virt * 4) 0\<rparr>\<rparr>)"

definition paging_get_phys :: "paging \<Rightarrow> u32 \<Rightarrow> u32" where
  "paging_get_phys s virt =
     (let pde = kernel_pd s ! pd_index virt in
      if pde AND PDE_PRESENT = 0 then 0
      else if pde AND PDE_HUGE \<noteq> 0 then (pde AND 0xFFC00000) OR (virt AND 0x3FFFFF)
      else
        let pt = pde AND PAGE_MASK;
            pte = load32 (pmem (pg_pmm s)) (pt + pt_index virt * 4)
        in if pte AND PDE_PRESENT = 0 then 0 else (pte AND PAGE_MASK) OR (virt AND 0xFFF))"

definition paging_copy_on_write :: "u32 \<Rightarrow> paging \<Rightarrow> int \<times> paging" where
  "paging_copy_on_write virt s =
     (let old_phys = paging_get_phys s (virt AND PAGE_MASK) in
      if old_phys = 0 then (- 1, s)
      else
        let (new_phys, pm) = pmm_alloc_page (pg_pmm s) in
        if new_phys = 0 then (- 1, s\<lparr>pg_pmm := pm\<rparr>)
        else paging_map_page (virt AND PAGE_MASK) new_phys (PDE_PRESENT OR PDE_WRITABLE OR PDE_USER)
               (s\<lparr>pg_pmm := pm\<lparr>pmem := memcpy new_phys old_phys PAGE_SIZE (pmem pm)\<rparr>\<rparr>))"

definition paging_get_cr3 :: "u32 \<Rightarrow> u32" where
  "paging_get_cr3 pd_addr = pd_addr"

section \<open>Addresses\<close>

lemma PAGE_MASK_mask: "PAGE_MASK = NOT (mask 12)"
  by (simp add: PAGE_MASK_def mask_eq_exp_minus_1)

lemma bit_PAGE_MASK: "bit PAGE_MASK n \<longleftrightarrow> 12 \<le> n \<and> n < 32"
  by (auto simp: PAGE_MASK_mask bit_simps)

lemma bit_0xFFF: "bit (0xFFF :: u32) n \<longleftrightarrow> n < 12"
proof -
  have "(0xFFF :: u32) = mask 12" by (simp add: mask_eq_exp_minus_1)
  then have "bit (0xFFF :: u32) n \<longleftrightarrow> bit (mask 12 :: u32) n" by (simp only:)
  then show ?thesis by (simp only: bit_mask_iff possible_bit_word) auto
qed

lemma bit_0x3FF: "bit (0x3FF :: u32) n \<longleftrightarrow> n < 10"
proof -
  have "(0x3FF :: u32) = mask 10" by (simp add: mask_eq_exp_minus_1)
  then have "bit (0x3FF :: u32) n \<longleftrightarrow> bit (mask 10 :: u32) n" by (simp only:)
  then show ?thesis by (simp only: bit_mask_iff possible_bit_word) auto
qed

lemma aligned_bits: "unat (a :: u32) mod 4096 = 0 \<Longrightarrow> n < 12 \<Longrightarrow> \<not> bit a n"
proof -
  assume a: "unat a mod 4096 = 0" and n: "n < 12"
  have "take_bit 12 (unat a) = 0" using a by (simp add: take_bit_eq_mod)
  then have "\<not> bit (take_bit 12 (unat a)) n" by simp
  then show ?thesis using n by (simp add: bit_simps)
qed

lemma mask_aligned: "unat (x AND PAGE_MASK) mod 4096 = 0"
proof -
  have "unat (x AND PAGE_MASK) = unat x div 4096 * 4096"
    using and_not_mask_unat [of x 12] by (simp add: PAGE_MASK_mask)
  then show ?thesis by simp
qed

lemma mask_of_aligned: "unat (a :: u32) mod 4096 = 0 \<Longrightarrow> f AND PAGE_MASK = 0 \<Longrightarrow> (a OR f) AND PAGE_MASK = a"
proof (rule bit_word_eqI)
  fix n assume a: "unat a mod 4096 = 0" and f: "f AND PAGE_MASK = 0" and n: "n < LENGTH(32)"
  have "\<not> bit (f AND PAGE_MASK) n" using f by simp
  then show "bit ((a OR f) AND PAGE_MASK) n \<longleftrightarrow> bit a n"
    using aligned_bits [OF a, of n] n by (cases "n < 12") (auto simp: bit_simps bit_PAGE_MASK)
qed

lemma pt_index_less: "unat (pt_index v) < 1024"
proof -
  have "pt_index v = take_bit 10 (drop_bit 12 v)"
    by (rule bit_word_eqI) (simp only: pt_index_def bit_and_iff bit_take_bit_iff bit_0x3FF conj_commute)
  then have "unat (pt_index v) = take_bit 10 (unat (drop_bit 12 v))" by (simp only: unsigned_take_bit_eq)
  also have "\<dots> < 2 ^ 10" by (rule take_bit_nat_less_exp)
  finally show ?thesis by simp
qed

lemma pd_index_less: "pd_index v < 1024"
proof -
  have "unat v < 1024 * 4194304" using unsigned_less [of v, where 'a = nat] by simp
  then show ?thesis unfolding pd_index_def unat_drop_bit_div by (simp add: less_mult_imp_div_less)
qed

lemma same_page_iff: "pd_index v = pd_index w \<and> pt_index v = pt_index w \<longleftrightarrow> drop_bit 12 v = drop_bit 12 w"
proof
  assume "drop_bit 12 v = drop_bit 12 w"
  moreover from arg_cong [OF this, of "drop_bit 10"] have "drop_bit 22 v = drop_bit 22 w" by simp
  ultimately show "pd_index v = pd_index w \<and> pt_index v = pt_index w" by (simp add: pd_index_def pt_index_def)
next
  assume *: "pd_index v = pd_index w \<and> pt_index v = pt_index w"
  then have hi: "drop_bit 22 v = drop_bit 22 w" by (simp only: pd_index_def word_unat_eq_iff)
  from * have lo: "drop_bit 12 v AND 0x3FF = drop_bit 12 w AND 0x3FF" by (simp add: pt_index_def)
  show "drop_bit 12 v = drop_bit 12 w"
  proof (rule bit_word_eqI)
    fix n assume "n < LENGTH(32)"
    show "bit (drop_bit 12 v) n \<longleftrightarrow> bit (drop_bit 12 w) n"
    proof (cases "n < 10")
      case True
      have "bit (drop_bit 12 v AND 0x3FF) n \<longleftrightarrow> bit (drop_bit 12 w AND 0x3FF) n" by (simp only: lo)
      then show ?thesis using True by (simp only: bit_and_iff bit_0x3FF simp_thms)
    next
      case False
      then have "bit (drop_bit 22 v) (n - 10) \<longleftrightarrow> bit (drop_bit 22 w) (n - 10)" using hi by simp
      then show ?thesis using False by (simp add: bit_simps)
    qed
  qed
qed

text \<open>Entries of page tables do not overlap.\<close>

lemma pte_addr:
  assumes "unat (a :: u32) mod 4096 = 0" "unat i < 1024"
  shows "unat (a + i * 4) = unat a + 4 * unat i"
proof -
  have "unat (i * 4) = unat i * 4" using assms(2) by (simp add: unat_word_ariths)
  moreover have "unat a + 4 * unat i < 2 ^ 32"
  proof -
    obtain k where k: "unat a = 4096 * k" using assms(1) by (auto simp: mod_eq_0_iff_dvd dvd_def)
    have "unat a < 2 ^ 32" using unsigned_less [of a, where 'a = nat] by simp
    then have "k < 1048576" using k by simp
    then show ?thesis using k assms(2) by simp
  qed
  ultimately show ?thesis by (simp add: unat_word_ariths)
qed

lemma word_apart:
  assumes "unat (p :: u32) mod 4 = 0" "unat q mod 4 = 0" "p \<noteq> q"
  shows "4 \<le> unat (p - q)"
proof -
  obtain a b where ab: "unat p = 4 * a" "unat q = 4 * b"
    using assms(1,2) by (auto simp: mod_eq_0_iff_dvd dvd_def)
  have "a \<noteq> b" using ab assms(3) by (auto simp: word_unat_eq_iff)
  have q: "4 * b < 2 ^ 32" using ab unsigned_less [of q, where 'a = nat] by simp
  have "unat (p - q) = (if unat q \<le> unat p then unat p - unat q else unat p + 2 ^ 32 - unat q)"
    by (simp add: unat_sub_if')
  then show ?thesis unfolding ab using \<open>a \<noteq> b\<close> q by (cases "b < a") auto
qed

lemma pte_other:
  assumes "unat (a :: u32) mod 4096 = 0" "unat b mod 4096 = 0" "unat i < 1024" "unat j < 1024"
    and "a \<noteq> b \<or> i \<noteq> j"
  shows "load32 (store32 m (a + i * 4) v) (b + j * 4) = load32 m (b + j * 4)"
proof (rule load32_store32_other)
  note u = pte_addr [OF assms(1,3)] pte_addr [OF assms(2,4)]
  have m4: "unat (a + i * 4) mod 4 = 0" "unat (b + j * 4) mod 4 = 0"
    unfolding u using assms(1,2) by (auto simp: mod_eq_0_iff_dvd intro: dvd_add dvd_trans [of 4 4096])
  have ne: "a + i * 4 \<noteq> b + j * 4"
  proof
    assume "a + i * 4 = b + j * 4"
    then have e: "unat a + 4 * unat i = unat b + 4 * unat j" using u by metis
    obtain k l where k: "unat a = 4096 * k" "unat b = 4096 * l"
      using assms(1,2) by (auto simp: mod_eq_0_iff_dvd dvd_def)
    have "k = l" using e assms(3,4) unfolding k by simp
    with e k have "unat a = unat b" "unat i = unat j" by simp_all
    then show False using assms(5) by (simp add: word_unat_eq_iff)
  qed
  show "4 \<le> unat (b + j * 4 - (a + i * 4))" by (rule word_apart [OF m4(2,1)]) (use ne in simp)
  show "4 \<le> unat (a + i * 4 - (b + j * 4))" by (rule word_apart [OF m4 ne])
qed

section \<open>Invariant\<close>

text \<open>Entry \<open>i\<close> refers to a page table.\<close>

definition has_table :: "paging \<Rightarrow> nat \<Rightarrow> bool" where
  "has_table s i \<longleftrightarrow> kernel_pd s ! i AND PDE_PRESENT \<noteq> 0 \<and> kernel_pd s ! i AND PDE_HUGE = 0"

definition table_of :: "paging \<Rightarrow> nat \<Rightarrow> u32" where
  "table_of s i = kernel_pd s ! i AND PAGE_MASK"

definition pte_of :: "paging \<Rightarrow> u32 \<Rightarrow> u32" where
  "pte_of s v = load32 (pmem (pg_pmm s)) (table_of s (pd_index v) + pt_index v * 4)"

definition pg_inv :: "paging \<Rightarrow> bool" where
  "pg_inv s \<longleftrightarrow> length (kernel_pd s) = PD_ENTRIES \<and> pmm_inv (pg_pmm s) \<and>
     (\<forall>i < PD_ENTRIES. has_table s i \<longrightarrow> table_of s i \<noteq> 0 \<and> table_of s i \<in> pmm_owned (pg_pmm s)) \<and>
     (\<forall>i < PD_ENTRIES. \<forall>j < PD_ENTRIES. has_table s i \<longrightarrow> has_table s j \<longrightarrow> table_of s i = table_of s j \<longrightarrow> i = j)"

lemma table_aligned: "unat (table_of s i) mod 4096 = 0"
  by (simp add: table_of_def mask_aligned)

lemma paging_get_phys_cases:
  "paging_get_phys s v =
    (if has_table s (pd_index v) then
       (if pte_of s v AND PDE_PRESENT = 0 then 0 else (pte_of s v AND PAGE_MASK) OR (v AND 0xFFF))
     else if kernel_pd s ! pd_index v AND PDE_PRESENT = 0 then 0
     else (kernel_pd s ! pd_index v AND 0xFFC00000) OR (v AND 0x3FFFFF))"
  by (simp add: paging_get_phys_def has_table_def table_of_def pte_of_def Let_def)

lemma pg_inv_pmem [simp]: "pg_inv (s\<lparr>pg_pmm := (pg_pmm s)\<lparr>pmem := m\<rparr>\<rparr>) = pg_inv s"
  by (simp add: pg_inv_def has_table_def table_of_def pmm_owned_def)

text \<open>Writing one entry of one table.\<close>

definition set_pte :: "u32 \<Rightarrow> u32 \<Rightarrow> paging \<Rightarrow> paging" where
  "set_pte v e s = s\<lparr>pg_pmm := (pg_pmm s)\<lparr>pmem := store32 (pmem (pg_pmm s)) (table_of s (pd_index v) + pt_index v * 4) e\<rparr>\<rparr>"

lemma set_pte_simps [simp]:
  "kernel_pd (set_pte v e s) = kernel_pd s" "has_table (set_pte v e s) = has_table s"
  "table_of (set_pte v e s) = table_of s" "pg_inv (set_pte v e s) = pg_inv s"
  "pmm_owned (pg_pmm (set_pte v e s)) = pmm_owned (pg_pmm s)"
  by (auto simp: set_pte_def has_table_def table_of_def pmm_owned_def)

lemma pte_of_set_pte:
  assumes "pg_inv s" "has_table s (pd_index v)" "has_table s (pd_index w)"
  shows "pte_of (set_pte v e s) w = (if drop_bit 12 w = drop_bit 12 v then e else pte_of s w)"
proof (cases "drop_bit 12 w = drop_bit 12 v")
  case True
  then have "pd_index w = pd_index v" "pt_index w = pt_index v" using same_page_iff by blast+
  then show ?thesis using True by (simp add: pte_of_def) (simp add: set_pte_def)
next
  case False
  have idx: "pd_index v < PD_ENTRIES" "pd_index w < PD_ENTRIES" by (simp_all add: PD_ENTRIES_def pd_index_less)
  have "table_of s (pd_index v) \<noteq> table_of s (pd_index w) \<or> pt_index v \<noteq> pt_index w"
    using assms idx False same_page_iff [of v w] unfolding pg_inv_def by metis
  from pte_other [OF table_aligned table_aligned pt_index_less pt_index_less this]
  show ?thesis using False by (simp add: pte_of_def) (simp add: set_pte_def)
qed

lemma get_phys_set_pte:
  assumes "pg_inv s" "has_table s (pd_index v)"
  shows "paging_get_phys (set_pte v e s) w =
    (if drop_bit 12 w = drop_bit 12 v then (if e AND PDE_PRESENT = 0 then 0 else (e AND PAGE_MASK) OR (w AND 0xFFF))
     else paging_get_phys s w)"
proof (cases "has_table s (pd_index w)")
  case True
  then show ?thesis using pte_of_set_pte [OF assms True, of e] by (simp add: paging_get_phys_cases)
next
  case False
  then have "drop_bit 12 w \<noteq> drop_bit 12 v" using assms(2) same_page_iff by metis
  then show ?thesis using False by (simp add: paging_get_phys_cases)
qed

section \<open>Frames\<close>

lemma in_frame_iff:
  assumes "unat (a :: u32) mod 4096 = 0"
  shows "unat (x - a) < 4096 \<longleftrightarrow> unat x div 4096 = unat a div 4096"
proof -
  obtain k where k: "unat a = 4096 * k" using assms by (auto simp: mod_eq_0_iff_dvd dvd_def)
  have kl: "k < 1048576" using k unsigned_less [of a, where 'a = nat] by simp
  have xl: "unat x < 4294967296" by simp
  have "unat (x - a) = (if unat a \<le> unat x then unat x - unat a else unat x + 2 ^ 32 - unat a)"
    by (simp add: unat_sub_if')
  then show ?thesis
  proof (cases "unat a \<le> unat x")
    case True
    then obtain r where r: "unat x = 4096 * k + r" using k le_Suc_ex by metis
    then have "unat (x - a) = r" using \<open>unat (x - a) = _\<close> k True by simp
    then show ?thesis using r k by (simp add: div_add1_eq) (metis div_eq_0_iff zero_neq_numeral)
  next
    case False
    then have "4096 \<le> unat (x - a)" using \<open>unat (x - a) = _\<close> k kl by simp
    moreover have "unat x div 4096 < k" using False k by (simp add: less_mult_imp_div_less mult.commute)
    ultimately show ?thesis using k by simp
  qed
qed

lemma pte_byte_frame:
  assumes "unat (b :: u32) mod 4096 = 0" "unat j < 1024" "k < (4 :: u32)"
  shows "unat (b + j * 4 + k) div 4096 = unat b div 4096"
proof -
  obtain l where l: "unat b = 4096 * l" using assms(1) by (auto simp: mod_eq_0_iff_dvd dvd_def)
  have ll: "l < 1048576" using l unsigned_less [of b, where 'a = nat] by simp
  have k: "unat k < 4" using assms(3) by (simp add: word_less_nat_alt)
  have u: "unat (b + j * 4) = 4096 * l + 4 * unat j" using pte_addr [OF assms(1,2)] l by simp
  then have "unat (b + j * 4 + k) = 4096 * l + (4 * unat j + unat k)"
    using ll k assms(2) by (simp add: unat_word_ariths)
  moreover have "4 * unat j + unat k < 4096" using k assms(2) by simp
  ultimately show ?thesis using l by simp
qed

text \<open>Memory that changes only inside frame \<open>a\<close> keeps the entries of any other table.\<close>

lemma load32_other_frame:
  assumes ab: "unat a mod 4096 = 0" "unat b mod 4096 = 0" "a \<noteq> b" and j: "unat j < 1024"
    and same: "\<And>x. \<not> unat (x - a) < 4096 \<Longrightarrow> m' x = m x"
  shows "load32 m' (b + j * 4) = load32 m (b + j * 4)"
proof -
  have "unat a div 4096 \<noteq> unat b div 4096"
    using ab by (metis add.right_neutral div_mult_mod_eq word_unat_eq_iff)
  then have "m' (b + j * 4 + k) = m (b + j * 4 + k)" if "k < 4" for k
    using same in_frame_iff [OF ab(1)] pte_byte_frame [OF ab(2) j that] by metis
  from this [of 0] this [of 1] this [of 2] this [of 3] show ?thesis by (simp add: load32_def)
qed

lemma load32_zero_frame:
  assumes a: "unat a mod 4096 = 0" and j: "unat j < 1024" and z: "\<And>x. unat (x - a) < 4096 \<Longrightarrow> m x = 0"
  shows "load32 m (a + j * 4) = 0"
proof -
  have "m (a + j * 4 + k) = 0" if "k < 4" for k
    using z in_frame_iff [OF a] pte_byte_frame [OF a j that] by metis
  from this [of 0] this [of 1] this [of 2] this [of 3] show ?thesis by (simp add: load32_def)
qed

text \<open>The directory entry written for a new table.\<close>

lemma new_pde:
  fixes flags :: u32
  assumes "unat a mod 4096 = 0"
  defines "e \<equiv> a OR PDE_PRESENT OR PDE_WRITABLE OR (flags AND PDE_USER)"
  shows "e AND PDE_PRESENT \<noteq> 0" "e AND PDE_HUGE = 0" "e AND PAGE_MASK = a"
proof -
  have P: "PDE_PRESENT = push_bit 0 1" "PDE_WRITABLE = push_bit 1 1" "PDE_USER = push_bit 2 1" "PDE_HUGE = push_bit 7 1"
    by (simp_all add: PDE_PRESENT_def PDE_WRITABLE_def PDE_USER_def PDE_HUGE_def)
  have "bit e 0" by (simp add: e_def P bit_or_iff bit_push1 del: push_bit_of_1)
  then show "e AND PDE_PRESENT \<noteq> 0" unfolding P and_push1 by simp
  have "\<not> bit e 7"
    using aligned_bits [OF assms(1), of 7] by (simp add: e_def P bit_or_iff bit_and_iff bit_push1 del: push_bit_of_1)
  then show "e AND PDE_HUGE = 0" unfolding P and_push1 by simp
  have "(PDE_PRESENT OR PDE_WRITABLE OR (flags AND PDE_USER)) AND PAGE_MASK = 0"
    by (rule bit_word_eqI, simp only: P bit_or_iff bit_and_iff bit_push1 bit_PAGE_MASK) auto
  then show "e AND PAGE_MASK = a" unfolding e_def by (rule mask_of_aligned [OF assms(1)])
qed

section \<open>Operations keep the other mappings\<close>

lemma get_or_alloc_pt_spec:
  assumes inv: "pg_inv s" and i: "i < PD_ENTRIES" and g: "get_or_alloc_pt i create flags s = (pt, s')"
  shows "pg_inv s'"
    and "paging_get_phys s' w = paging_get_phys s w"
    and "pt \<noteq> 0 \<Longrightarrow> has_table s' i \<and> table_of s' i = pt"
    and "pmm_owned (pg_pmm s) \<subseteq> pmm_owned (pg_pmm s')"
proof -
  have "pg_inv s' \<and> (\<forall>w. paging_get_phys s' w = paging_get_phys s w) \<and> (pt \<noteq> 0 \<longrightarrow> has_table s' i \<and> table_of s' i = pt) \<and>
    pmm_owned (pg_pmm s) \<subseteq> pmm_owned (pg_pmm s')"
  proof (cases "kernel_pd s ! i AND PDE_PRESENT = 0 \<and> create")
    case False
    then show ?thesis
      using g inv by (auto simp: get_or_alloc_pt_def Let_def has_table_def table_of_def split: if_splits)
  next
    case True
    obtain a pm where al: "pmm_alloc_page (pg_pmm s) = (a, pm)" by fastforce
    have pinv: "pmm_inv (pg_pmm s)" using inv by (simp add: pg_inv_def)
    note fresh = pmm_alloc_page_fresh [OF pinv al]
    show ?thesis
    proof (cases "a = 0")
      case True
      then have "pt = 0 \<and> s' = s"
        using g al fresh(4) \<open>kernel_pd s ! i AND PDE_PRESENT = 0 \<and> create\<close> by (auto simp: get_or_alloc_pt_def)
      then show ?thesis using inv by simp
    next
      case False
      let ?e = "a OR PDE_PRESENT OR PDE_WRITABLE OR (flags AND PDE_USER)"
      let ?pm = "pm\<lparr>pmem := memset a 0 PAGE_SIZE (pmem pm)\<rparr>"
      have s': "s' = s\<lparr>pg_pmm := ?pm, kernel_pd := (kernel_pd s)[i := ?e]\<rparr>" and pt: "pt = a"
        using g al False True by (auto simp: get_or_alloc_pt_def Let_def)
      have al4: "unat a mod 4096 = 0" and new: "a \<notin> pmm_owned (pg_pmm s)" and own: "pmm_owned pm = insert a (pmm_owned (pg_pmm s))"
        using fresh(2) [OF False] by auto
      have len: "length (kernel_pd s) = PD_ENTRIES" using inv by (simp add: pg_inv_def)
      note pde = new_pde [OF al4, of flags]
      have ht: "has_table s' j \<longleftrightarrow> j = i \<or> has_table s j" if "j < PD_ENTRIES" for j
        using pde(1,2) i len that by (auto simp: has_table_def s' nth_list_update)
      have tb: "table_of s' j = (if j = i then a else table_of s j)" if "j < PD_ENTRIES" for j
        using pde(3) i len that by (auto simp: table_of_def s' nth_list_update)
      have own': "pmm_owned (pg_pmm s') = insert a (pmm_owned (pg_pmm s))"
        using own by (simp add: s' pmm_owned_def)
      have not_i: "\<not> has_table s i" using True by (simp add: has_table_def)
      have inv': "pg_inv s'"
        unfolding pg_inv_def own'
      proof (intro conjI allI impI)
        show "length (kernel_pd s') = PD_ENTRIES" using len by (simp add: s')
        show "pmm_inv (pg_pmm s')" using fresh(1) by (simp add: s')
      next
        fix j assume "j < PD_ENTRIES" "has_table s' j"
        then show "table_of s' j \<noteq> 0" "table_of s' j \<in> insert a (pmm_owned (pg_pmm s))"
          using inv False by (auto simp: ht tb pg_inv_def)
      next
        fix j k assume "j < PD_ENTRIES" "k < PD_ENTRIES" "has_table s' j" "has_table s' k" "table_of s' j = table_of s' k"
        then show "j = k"
          using inv new by (auto simp: ht tb pg_inv_def split: if_splits)
      qed
      have zero: "pmem (pg_pmm s') x = (if unat (x - a) < 4096 then 0 else pmem (pg_pmm s) x)" for x
        using fresh(3) [OF False] by (simp add: s' memset_spec PAGE_SIZE_def)
      have "paging_get_phys s' w = paging_get_phys s w" for w
      proof (cases "pd_index w = i")
        case wi: True
        have "pte_of s' w = 0"
          using load32_zero_frame [OF al4 pt_index_less] zero by (simp add: pte_of_def wi tb [OF i])
        then have "paging_get_phys s' w = 0" using ht [OF i] wi by (simp add: paging_get_phys_cases)
        moreover have "paging_get_phys s w = 0" using not_i True wi by (simp add: paging_get_phys_cases)
        ultimately show ?thesis by simp
      next
        case wi: False
        have w: "pd_index w < PD_ENTRIES" by (simp add: PD_ENTRIES_def pd_index_less)
        show ?thesis
        proof (cases "has_table s (pd_index w)")
          case True
          then have "table_of s (pd_index w) \<noteq> a" using inv new w by (auto simp: pg_inv_def)
          from load32_other_frame [OF al4 table_aligned this [symmetric] pt_index_less, of "pmem (pg_pmm s')" "pmem (pg_pmm s)"] zero
          have "pte_of s' w = pte_of s w" by (simp add: pte_of_def tb [OF w] wi)
          then show ?thesis using True wi by (simp add: paging_get_phys_cases ht [OF w])
        next
          case False
          then show ?thesis using wi by (simp add: paging_get_phys_cases ht [OF w]) (simp add: s')
        qed
      qed
      then show ?thesis using inv' own' ht [OF i] tb [OF i] pt by auto
    qed
  qed
  then show "pg_inv s'" "paging_get_phys s' w = paging_get_phys s w"
    "pt \<noteq> 0 \<Longrightarrow> has_table s' i \<and> table_of s' i = pt" "pmm_owned (pg_pmm s) \<subseteq> pmm_owned (pg_pmm s')"
    by blast+
qed

text \<open>Mapping, unmapping and copying a page are one table write each.\<close>

lemma pte_value:
  "((phys AND PAGE_MASK) OR PDE_PRESENT OR (flags AND 0xFFF)) AND PDE_PRESENT \<noteq> 0"
  "((phys AND PAGE_MASK) OR PDE_PRESENT OR (flags AND 0xFFF)) AND PAGE_MASK = phys AND PAGE_MASK"
proof -
  have P: "PDE_PRESENT = push_bit 0 1" by (simp add: PDE_PRESENT_def)
  show "((phys AND PAGE_MASK) OR PDE_PRESENT OR (flags AND 0xFFF)) AND PDE_PRESENT \<noteq> 0"
    unfolding P and_push1 by (simp only: bit_or_iff bit_push1) simp
  have "(PDE_PRESENT OR (flags AND 0xFFF)) AND PAGE_MASK = 0"
    by (rule bit_word_eqI, simp only: P bit_or_iff bit_and_iff bit_push1 bit_PAGE_MASK bit_0xFFF) auto
  then show "((phys AND PAGE_MASK) OR PDE_PRESENT OR (flags AND 0xFFF)) AND PAGE_MASK = phys AND PAGE_MASK"
    by (rule mask_of_aligned [OF mask_aligned])
qed

lemma paging_map_page_cases:
  assumes inv: "pg_inv s"
  obtains (mapped) s1 where
      "paging_map_page v p f s = (0, set_pte v ((p AND PAGE_MASK) OR PDE_PRESENT OR (f AND 0xFFF)) s1)"
      "pg_inv s1" "has_table s1 (pd_index v)" "\<And>w. paging_get_phys s1 w = paging_get_phys s w"
      "pmm_owned (pg_pmm s) \<subseteq> pmm_owned (pg_pmm s1)"
      "has_table s (pd_index v) \<Longrightarrow> s1 = s"
  | (failed) s1 where "paging_map_page v p f s = (- 1, s1)" "pg_inv s1" "\<And>w. paging_get_phys s1 w = paging_get_phys s w"
      "pmm_owned (pg_pmm s) \<subseteq> pmm_owned (pg_pmm s1)" "\<not> has_table s (pd_index v)"
proof -
  have i: "pd_index v < PD_ENTRIES" by (simp add: PD_ENTRIES_def pd_index_less)
  obtain pt s1 where g: "get_or_alloc_pt (pd_index v) True f s = (pt, s1)" by fastforce
  note spec = get_or_alloc_pt_spec [OF inv i g]
  have old: "s1 = s \<and> pt \<noteq> 0" if "has_table s (pd_index v)"
    using that g inv i by (auto simp: get_or_alloc_pt_def has_table_def pg_inv_def table_of_def)
  show thesis
  proof (cases "pt = 0")
    case True
    then have "paging_map_page v p f s = (- 1, s1)" by (simp add: paging_map_page_def g)
    with spec old True failed show thesis by blast
  next
    case False
    with spec(3) have t: "has_table s1 (pd_index v)" "table_of s1 (pd_index v) = pt" by blast+
    have "paging_map_page v p f s = (0, set_pte v ((p AND PAGE_MASK) OR PDE_PRESENT OR (f AND 0xFFF)) s1)"
      using False by (simp add: paging_map_page_def g set_pte_def t(2))
    with mapped [OF this spec(1) t(1) spec(2) spec(4)] old show thesis by blast
  qed
qed

lemma paging_map_page_spec:
  assumes inv: "pg_inv s" and m: "paging_map_page v p f s = (r, s')"
  shows "pg_inv s'"
    and "pmm_owned (pg_pmm s) \<subseteq> pmm_owned (pg_pmm s')"
    and "r = 0 \<or> r = - 1"
    and "paging_get_phys s' w = (if r = 0 \<and> drop_bit 12 w = drop_bit 12 v then (p AND PAGE_MASK) OR (w AND 0xFFF)
      else paging_get_phys s w)"
proof -
  have "pg_inv s' \<and> pmm_owned (pg_pmm s) \<subseteq> pmm_owned (pg_pmm s') \<and> (r = 0 \<or> r = - 1) \<and>
    (\<forall>w. paging_get_phys s' w = (if r = 0 \<and> drop_bit 12 w = drop_bit 12 v then (p AND PAGE_MASK) OR (w AND 0xFFF)
      else paging_get_phys s w))"
  proof (cases rule: paging_map_page_cases [OF inv, of v p f, case_names mapped failed])
    case (mapped s1)
    have "s' = set_pte v ((p AND PAGE_MASK) OR PDE_PRESENT OR (f AND 0xFFF)) s1" "r = 0" using m mapped(1) by simp_all
    then show ?thesis
      using get_phys_set_pte [OF mapped(2,3), of "(p AND PAGE_MASK) OR PDE_PRESENT OR (f AND 0xFFF)"] mapped(2,4,5)
        pte_value [of p f] by simp
  next
    case (failed s1)
    then show ?thesis using m by simp
  qed
  then show "pg_inv s'" "pmm_owned (pg_pmm s) \<subseteq> pmm_owned (pg_pmm s')" "r = 0 \<or> r = - 1"
    "paging_get_phys s' w = (if r = 0 \<and> drop_bit 12 w = drop_bit 12 v then (p AND PAGE_MASK) OR (w AND 0xFFF)
      else paging_get_phys s w)" by blast+
qed

lemma paging_unmap_page_spec:
  assumes inv: "pg_inv s" and t: "kernel_pd s ! pd_index v AND PDE_PRESENT = 0 \<or> has_table s (pd_index v)"
  shows "pg_inv (paging_unmap_page v s)"
    and "paging_get_phys (paging_unmap_page v s) w = (if drop_bit 12 w = drop_bit 12 v then 0 else paging_get_phys s w)"
proof -
  have i: "pd_index v < PD_ENTRIES" by (simp add: PD_ENTRIES_def pd_index_less)
  have "pg_inv (paging_unmap_page v s) \<and> (\<forall>w. paging_get_phys (paging_unmap_page v s) w =
      (if drop_bit 12 w = drop_bit 12 v then 0 else paging_get_phys s w))"
  proof (cases "has_table s (pd_index v)")
    case True
    then have "table_of s (pd_index v) \<noteq> 0" using inv i by (simp add: pg_inv_def)
    then have u: "paging_unmap_page v s = set_pte v 0 s"
      using True by (simp add: paging_unmap_page_def get_or_alloc_pt_def has_table_def table_of_def set_pte_def Let_def)
    show ?thesis unfolding u using get_phys_set_pte [OF inv True, of 0] inv by simp
  next
    case False
    with t have np: "kernel_pd s ! pd_index v AND PDE_PRESENT = 0" by blast
    then have u: "paging_unmap_page v s = s" by (simp add: paging_unmap_page_def get_or_alloc_pt_def)
    have "paging_get_phys s w = 0" if "drop_bit 12 w = drop_bit 12 v" for w
      using that np False same_page_iff [of w v] by (simp add: paging_get_phys_cases)
    then show ?thesis unfolding u using inv by simp
  qed
  then show "pg_inv (paging_unmap_page v s)"
    "paging_get_phys (paging_unmap_page v s) w = (if drop_bit 12 w = drop_bit 12 v then 0 else paging_get_phys s w)"
    by blast+
qed

section \<open>Ranges\<close>

lemma page_steps_distinct:
  assumes "i < j" "j \<le> 1048576" "i + 1048576 > j"
  shows "drop_bit 12 (v + of_nat i * 4096) \<noteq> drop_bit 12 (v + of_nat j * (4096 :: u32))"
proof
  let ?x = "v + of_nat i * (4096 :: u32)" and ?y = "v + of_nat j * (4096 :: u32)"
  assume "drop_bit 12 ?x = drop_bit 12 ?y"
  then have "unat (drop_bit 12 ?x) = unat (drop_bit 12 ?y)" by (rule arg_cong)
  then have q: "unat ?x div 4096 = unat ?y div 4096" by (simp only: unat_drop_bit_div) simp
  have d: "?y - ?x = of_nat ((j - i) * 4096)"
    using assms(1) by (simp add: of_nat_diff left_diff_distrib)
  have n: "(j - i) * 4096 < 2 ^ 32" using assms by simp
  have u: "unat (?y - ?x) = (j - i) * 4096" unfolding d using n by (simp add: unat_of_nat del: of_nat_mult)
  obtain r where r: "r < 4096" "unat ?x = 4096 * (unat ?x div 4096) + r"
    by (metis mod_less_divisor mult_div_mod_eq zero_less_numeral)
  obtain t where t: "t < 4096" "unat ?y = 4096 * (unat ?y div 4096) + t"
    by (metis mod_less_divisor mult_div_mod_eq zero_less_numeral)
  have "unat (?y - ?x) = (if unat ?x \<le> unat ?y then unat ?y - unat ?x else unat ?y + 2 ^ 32 - unat ?x)"
    by (simp only: unat_sub_if') simp
  then have "unat (?y - ?x) < 4096 \<or> 2 ^ 32 - 4096 < unat (?y - ?x)" using r t q by (auto split: if_splits)
  then show False unfolding u using assms by auto
qed

lemma paging_map_from_spec:
  "pg_inv s \<Longrightarrow> k + n \<le> 1048576 \<Longrightarrow> paging_map_from n (of_nat k) v p f s = (r, s') \<Longrightarrow>
   pg_inv s' \<and> pmm_owned (pg_pmm s) \<subseteq> pmm_owned (pg_pmm s') \<and> (r = 0 \<or> r = - 1) \<and>
   (\<forall>w. (\<forall>i. k \<le> i \<and> i < k + n \<longrightarrow> drop_bit 12 w \<noteq> drop_bit 12 (v + of_nat i * 4096)) \<longrightarrow>
      paging_get_phys s' w = paging_get_phys s w) \<and>
   (r = 0 \<longrightarrow> (\<forall>i w. k \<le> i \<and> i < k + n \<and> drop_bit 12 w = drop_bit 12 (v + of_nat i * 4096) \<longrightarrow>
      paging_get_phys s' w = ((p + of_nat i * 4096) AND PAGE_MASK) OR (w AND 0xFFF)))"
proof (induction n arbitrary: k s)
  case 0
  then show ?case by auto
next
  case (Suc n)
  obtain r1 s1 where m: "paging_map_page (v + of_nat k * 4096) (p + of_nat k * 4096) f s = (r1, s1)" by fastforce
  note step = paging_map_page_spec [OF Suc.prems(1) m]
  show ?case
  proof (cases "r1 = 0")
    case False
    then have "r = - 1" "s' = s1" using Suc.prems(3) m by auto
    then show ?thesis using step False by auto
  next
    case True
    then have rest: "paging_map_from n (of_nat (Suc k)) v p f s1 = (r, s')"
      using Suc.prems(3) m by (simp add: add.commute)
    have kn: "Suc k + n \<le> 1048576" using Suc.prems(2) by simp
    from Suc.IH [OF step(1) kn rest]
    have IH: "pg_inv s'" "pmm_owned (pg_pmm s1) \<subseteq> pmm_owned (pg_pmm s')" "r = 0 \<or> r = - 1"
      "\<And>w. (\<forall>i. Suc k \<le> i \<and> i < Suc k + n \<longrightarrow> drop_bit 12 w \<noteq> drop_bit 12 (v + of_nat i * 4096)) \<Longrightarrow>
         paging_get_phys s' w = paging_get_phys s1 w"
      "\<And>i w. r = 0 \<Longrightarrow> Suc k \<le> i \<and> i < Suc k + n \<and> drop_bit 12 w = drop_bit 12 (v + of_nat i * 4096) \<Longrightarrow>
         paging_get_phys s' w = ((p + of_nat i * 4096) AND PAGE_MASK) OR (w AND 0xFFF)"
      by blast+
    have frame: "paging_get_phys s' w = paging_get_phys s w"
      if w: "\<forall>i. k \<le> i \<and> i < k + Suc n \<longrightarrow> drop_bit 12 w \<noteq> drop_bit 12 (v + of_nat i * 4096)" for w
    proof -
      have "drop_bit 12 w \<noteq> drop_bit 12 (v + of_nat k * 4096)" using w by simp
      then have "paging_get_phys s1 w = paging_get_phys s w" using step(4) [of w] by simp
      moreover have "paging_get_phys s' w = paging_get_phys s1 w" by (rule IH(4)) (use w in simp)
      ultimately show ?thesis by simp
    qed
    have hit: "paging_get_phys s' w = ((p + of_nat i * 4096) AND PAGE_MASK) OR (w AND 0xFFF)"
      if "r = 0" and i: "k \<le> i" "i < k + Suc n" and w: "drop_bit 12 w = drop_bit 12 (v + of_nat i * 4096)" for i w
    proof (cases "i = k")
      case False
      with i have "Suc k \<le> i \<and> i < Suc k + n" by simp
      with w IH(5) [OF that(1)] show ?thesis by blast
    next
      case ik: True
      have "drop_bit 12 w \<noteq> drop_bit 12 (v + of_nat j * 4096)" if "Suc k \<le> j \<and> j < Suc k + n" for j
        using page_steps_distinct [of k j v] that Suc.prems(2) w ik by simp
      then have "paging_get_phys s' w = paging_get_phys s1 w" by (intro IH(4)) blast
      then show ?thesis using step(4) [of w] True w ik by simp
    qed
    show ?thesis using IH(1,3) step(2) IH(2) frame hit by blast
  qed
qed

section \<open>Copy on write\<close>

text \<open>Taking a frame and writing inside it does not disturb the tables.\<close>

lemma frame_alloc_keeps:
  assumes inv: "pg_inv s" and pm: "pmm_inv pm" "pmm_owned pm = insert a (pmm_owned (pg_pmm s))"
    and a: "a \<notin> pmm_owned (pg_pmm s)" "unat a mod 4096 = 0"
    and same: "\<And>x. \<not> unat (x - a) < 4096 \<Longrightarrow> pmem pm x = pmem (pg_pmm s) x"
  shows "pg_inv (s\<lparr>pg_pmm := pm\<rparr>)" "paging_get_phys (s\<lparr>pg_pmm := pm\<rparr>) w = paging_get_phys s w"
    "has_table (s\<lparr>pg_pmm := pm\<rparr>) = has_table s" "table_of (s\<lparr>pg_pmm := pm\<rparr>) = table_of s"
proof -
  show ht: "has_table (s\<lparr>pg_pmm := pm\<rparr>) = has_table s" and tb: "table_of (s\<lparr>pg_pmm := pm\<rparr>) = table_of s"
    by (auto simp: has_table_def table_of_def)
  show "pg_inv (s\<lparr>pg_pmm := pm\<rparr>)"
    using inv pm unfolding pg_inv_def ht tb by simp
  show "paging_get_phys (s\<lparr>pg_pmm := pm\<rparr>) w = paging_get_phys s w"
  proof (cases "has_table s (pd_index w)")
    case True
    have "pd_index w < PD_ENTRIES" by (simp add: PD_ENTRIES_def pd_index_less)
    then have "table_of s (pd_index w) \<noteq> a" using True inv a by (auto simp: pg_inv_def)
    from load32_other_frame [OF a(2) table_aligned this [symmetric] pt_index_less, of "pmem pm" "pmem (pg_pmm s)"] same
    have "pte_of (s\<lparr>pg_pmm := pm\<rparr>) w = pte_of s w" by (simp add: pte_of_def tb)
    then show ?thesis by (simp add: paging_get_phys_cases ht)
  next
    case False
    then show ?thesis by (simp add: paging_get_phys_cases ht)
  qed
qed

lemma store32_other_frame:
  assumes "unat b mod 4096 = 0" "unat j < 1024" "unat x div 4096 \<noteq> unat b div 4096"
  shows "store32 m (b + j * 4) v x = m x"
proof -
  have "x \<noteq> b + j * 4 + k" if "k < 4" for k
    using pte_byte_frame [OF assms(1,2) that] assms(3) by auto
  from this [of 0] this [of 1] this [of 2] this [of 3] show ?thesis by (simp add: store32_def)
qed

lemma page_of_mask: "drop_bit 12 (v AND PAGE_MASK) = drop_bit 12 v"
proof (rule bit_word_eqI)
  fix n assume "n < LENGTH(32)"
  have "bit v (12 + n) \<Longrightarrow> 12 + n < 32" using bit_imp_le_length [of v "12 + n"] by simp
  then show "bit (drop_bit 12 (v AND PAGE_MASK)) n \<longleftrightarrow> bit (drop_bit 12 v) n"
    unfolding bit_drop_bit_eq o_def bit_and_iff bit_PAGE_MASK by auto
qed

lemma map_page_table: "pg_inv s \<Longrightarrow> has_table s (pd_index v) \<Longrightarrow> fst (paging_map_page v p f s) = 0"
  by (cases rule: paging_map_page_cases [of s v p f, case_names mapped failed]) auto

text \<open>Mapping a page writes into its page table only.\<close>

lemma map_page_set_pte:
  assumes "pg_inv s" "has_table s (pd_index v)"
  obtains e where "paging_map_page v p f s = (0, set_pte v e s)"
  by (cases rule: paging_map_page_cases [OF assms(1), of v p f, case_names mapped failed]) (use assms(2) that in auto)

lemma set_pte_other_frame:
  assumes "unat a mod 4096 = 0" "table_of s (pd_index v) \<noteq> a" "k < 4096"
  shows "pmem (pg_pmm (set_pte v e s)) (a + of_nat k) = pmem (pg_pmm s) (a + of_nat k)"
proof -
  have "unat (a + of_nat k - a) < 4096" using assms(3) by (simp add: unat_of_nat)
  then have "unat (a + of_nat k) div 4096 = unat a div 4096" using in_frame_iff [OF assms(1)] by blast
  moreover have "unat (table_of s (pd_index v)) div 4096 \<noteq> unat a div 4096"
    using assms(1,2) table_aligned [of s "pd_index v"] by (metis add.right_neutral div_mult_mod_eq word_unat_eq_iff)
  ultimately show ?thesis
    using store32_other_frame [OF table_aligned pt_index_less] by (simp add: set_pte_def)
qed

text \<open>The state after the copy, before the page is remapped.\<close>

lemma cow_copied:
  fixes s :: paging and old a :: u32 and pm :: pmm
  defines "s1 \<equiv> s\<lparr>pg_pmm := pm\<lparr>pmem := memcpy a old PAGE_SIZE (pmem pm)\<rparr>\<rparr>"
  assumes inv: "pg_inv s" and own: "old \<in> pmm_owned (pg_pmm s)"
    and al: "pmm_alloc_page (pg_pmm s) = (a, pm)" and nz: "a \<noteq> 0"
  shows "pg_inv s1" "paging_get_phys s1 w = paging_get_phys s w" "has_table s1 = has_table s" "table_of s1 = table_of s"
    and "k < 4096 \<Longrightarrow> pmem (pg_pmm s1) (a + of_nat k) = pmem (pg_pmm s) (old + of_nat k)"
proof -
  have pinv: "pmm_inv (pg_pmm s)" using inv by (simp add: pg_inv_def)
  note fresh = pmm_alloc_page_fresh [OF pinv al]
  have new: "a \<notin> pmm_owned (pg_pmm s)" "unat a mod 4096 = 0" "pmm_owned pm = insert a (pmm_owned (pg_pmm s))"
    using fresh(2) [OF nz] by blast+
  obtain p where "p < total_pages (pg_pmm s)" "old = PFN_TO_ADDR p" using own by (auto simp: pmm_owned_def)
  then have olda: "unat old mod 4096 = 0" using PFN_TO_ADDR_unat pfn_bound [OF pinv] by simp
  have "a \<noteq> old" using new(1) own by auto
  then have ne: "unat old div 4096 \<noteq> unat a div 4096"
    using olda new(2) by (metis add.right_neutral div_mult_mod_eq word_unat_eq_iff)
  then have fs: "fwd_safe 4096 a old"
    using in_frame_iff [OF olda, of a] by (auto simp: fwd_safe_def)
  have outside: "memcpy a old PAGE_SIZE (pmem pm) x = pmem (pg_pmm s) x" if "\<not> unat (x - a) < 4096" for x
    using that fs fresh(3) [OF nz] by (simp add: memcpy_spec PAGE_SIZE_def copied_def)
  have pmok: "pmm_inv (pm\<lparr>pmem := memcpy a old PAGE_SIZE (pmem pm)\<rparr>)"
    "pmm_owned (pm\<lparr>pmem := memcpy a old PAGE_SIZE (pmem pm)\<rparr>) = insert a (pmm_owned (pg_pmm s))"
    using fresh(1) new(3) by (simp_all add: pmm_owned_def)
  note keep = frame_alloc_keeps [OF inv pmok new(1,2)]
  show "pg_inv s1" "paging_get_phys s1 w = paging_get_phys s w" "has_table s1 = has_table s" "table_of s1 = table_of s"
    unfolding s1_def by (rule keep; simp add: outside)+
  assume k: "k < 4096"
  have "unat (a + of_nat k - a) < 4096" "unat (old + of_nat k - old) < 4096" using k by (simp_all add: unat_of_nat)
  moreover from this(2) have "\<not> unat (old + of_nat k - a) < 4096"
    using in_frame_iff [OF olda] in_frame_iff [OF new(2)] ne by metis
  ultimately show "pmem (pg_pmm s1) (a + of_nat k) = pmem (pg_pmm s) (old + of_nat k)"
    using fs fresh(3) [OF nz] by (simp add: s1_def memcpy_spec PAGE_SIZE_def copied_def)
qed

lemma cow_succeeds:
  assumes "pg_inv s" "paging_get_phys s (v AND PAGE_MASK) \<in> pmm_owned (pg_pmm s)" "paging_get_phys s (v AND PAGE_MASK) \<noteq> 0"
    and "has_table s (pd_index (v AND PAGE_MASK))" "pmm_alloc_page (pg_pmm s) = (a, pm)" "a \<noteq> 0"
  shows "fst (paging_copy_on_write v s) = 0"
proof -
  let ?s1 = "s\<lparr>pg_pmm := pm\<lparr>pmem := memcpy a (paging_get_phys s (v AND PAGE_MASK)) PAGE_SIZE (pmem pm)\<rparr>\<rparr>"
  note c = cow_copied [OF assms(1,2,5,6)]
  have "fst (paging_map_page (v AND PAGE_MASK) a (PDE_PRESENT OR PDE_WRITABLE OR PDE_USER) ?s1) = 0"
    by (rule map_page_table [OF c(1)]) (simp only: c(3) assms(4))
  then show ?thesis using assms(3,5,6) by (simp add: paging_copy_on_write_def Let_def)
qed

lemma paging_copy_on_write_spec:
  assumes inv: "pg_inv s" and own: "paging_get_phys s (v AND PAGE_MASK) \<in> pmm_owned (pg_pmm s)"
    and c: "paging_copy_on_write v s = (0, s')"
  shows "\<exists>a. a \<noteq> 0 \<and> a \<notin> pmm_owned (pg_pmm s) \<and> pg_inv s' \<and>
    (\<forall>w. paging_get_phys s' w = (if drop_bit 12 w = drop_bit 12 v then a OR (w AND 0xFFF) else paging_get_phys s w)) \<and>
    (\<forall>k < 4096. pmem (pg_pmm s') (a + of_nat k) = pmem (pg_pmm s) (paging_get_phys s (v AND PAGE_MASK) + of_nat k))"
proof -
  define old where "old = paging_get_phys s (v AND PAGE_MASK)"
  obtain a pm where al: "pmm_alloc_page (pg_pmm s) = (a, pm)" by fastforce
  have pinv: "pmm_inv (pg_pmm s)" using inv by (simp add: pg_inv_def)
  note fresh = pmm_alloc_page_fresh [OF pinv al]
  let ?v = "v AND PAGE_MASK"
  define s1 where "s1 = s\<lparr>pg_pmm := pm\<lparr>pmem := memcpy a old PAGE_SIZE (pmem pm)\<rparr>\<rparr>"
  have nz: "old \<noteq> 0" "a \<noteq> 0" and m: "paging_map_page ?v a (PDE_PRESENT OR PDE_WRITABLE OR PDE_USER) s1 = (0, s')"
    using c al by (auto simp: paging_copy_on_write_def old_def s1_def Let_def split: if_splits)
  have new: "a \<notin> pmm_owned (pg_pmm s)" "unat a mod 4096 = 0"
    using fresh(2) [OF nz(2)] by blast+
  note keep = cow_copied [OF inv own [folded old_def] al nz(2), folded s1_def]
  have t: "has_table s1 (pd_index ?v)"
  proof (rule ccontr)
    assume no: "\<not> has_table s1 (pd_index ?v)"
    have kp: "kernel_pd s1 = kernel_pd s" by (simp add: s1_def)
    have "kernel_pd s ! pd_index ?v AND PDE_PRESENT \<noteq> 0"
      using nz(1) no by (auto simp: old_def paging_get_phys_cases keep(3))
    moreover from this have "kernel_pd s ! pd_index ?v AND PDE_HUGE \<noteq> 0" using no by (simp add: has_table_def kp)
    ultimately have "get_or_alloc_pt (pd_index ?v) True (PDE_PRESENT OR PDE_WRITABLE OR PDE_USER) s1 = (0, s1)"
      by (simp add: get_or_alloc_pt_def kp)
    then show False using m by (simp add: paging_map_page_def)
  qed
  obtain e where s': "s' = set_pte ?v e s1"
    using m map_page_set_pte [OF keep(1) t, of a "PDE_PRESENT OR PDE_WRITABLE OR PDE_USER"] by (metis prod.inject)
  have idx: "pd_index ?v < PD_ENTRIES" by (simp add: PD_ENTRIES_def pd_index_less)
  have tne: "table_of s1 (pd_index ?v) \<noteq> a" using t inv idx new(1) by (auto simp: pg_inv_def keep)
  have mem: "pmem (pg_pmm s') (a + of_nat k) = pmem (pg_pmm s) (old + of_nat k)" if k: "k < 4096" for k
    using set_pte_other_frame [OF new(2) tne k] keep(5) [OF k] by (simp add: s')
  have am: "a AND PAGE_MASK = a" using mask_of_aligned [OF new(2), of 0] by simp
  note map = paging_map_page_spec [OF keep(1) m]
  show ?thesis
    using nz(2) new(1) map(1) map(4) [unfolded page_of_mask am keep(2)] mem [unfolded old_def] by (intro exI [of _ a]) auto
qed

text \<open>Freeing a frame that is no page table.\<close>

lemma free_page_keeps:
  assumes inv: "pg_inv s" and a: "a \<in> pmm_owned (pg_pmm s)" "a \<noteq> 0"
    and nt: "\<And>i. i < PD_ENTRIES \<Longrightarrow> has_table s i \<Longrightarrow> table_of s i \<noteq> a"
  defines "s' \<equiv> s\<lparr>pg_pmm := pmm_free_page a (pg_pmm s)\<rparr>"
  shows "pg_inv s'" "paging_get_phys s' w = paging_get_phys s w" "has_table s' = has_table s" "table_of s' = table_of s"
proof -
  have pinv: "pmm_inv (pg_pmm s)" using inv by (simp add: pg_inv_def)
  have mem: "pmem (pmm_free_page a (pg_pmm s)) = pmem (pg_pmm s)" by (simp add: pmm_free_page_def Let_def)
  show ht: "has_table s' = has_table s" and tb: "table_of s' = table_of s"
    by (auto simp: has_table_def table_of_def s'_def)
  have "pmm_owned (pg_pmm s') = pmm_owned (pg_pmm s) - {a}"
    using pmm_src.pfree_owned [OF pinv a] by (simp add: s'_def)
  moreover have "pmm_inv (pg_pmm s')" using pmm_src.inv_pfree [OF pinv] by (simp add: s'_def)
  moreover have "kernel_pd s' = kernel_pd s" by (simp add: s'_def)
  ultimately show "pg_inv s'" using inv nt unfolding pg_inv_def ht tb by auto
  have "pte_of s' w = pte_of s w" by (simp add: pte_of_def tb) (simp add: s'_def mem)
  then show "paging_get_phys s' w = paging_get_phys s w"
    by (simp add: paging_get_phys_cases ht) (simp add: s'_def)
qed

section \<open>The initial directory\<close>

lemma pse_entries_nth:
  assumes "off + b \<le> length pd" "a \<le> b"
  shows "length (pse_entries off a b fl pd) = length pd"
    "pse_entries off a b fl pd ! k = (if off + a \<le> k \<and> k < off + b then (of_nat (k - off) * 0x400000) OR fl else pd ! k)"
proof -
  have "length (pse_entries off a b fl pd) = length pd \<and>
    pse_entries off a b fl pd ! k = (if off + a \<le> k \<and> k < off + b then (of_nat (k - off) * 0x400000) OR fl else pd ! k)"
    using assms(2,1)
  proof (induction b rule: dec_induct)
    case (step b)
    have e: "pse_entries off a (Suc b) fl pd = (pse_entries off a b fl pd)[off + b := (of_nat b * 0x400000) OR fl]"
      using step.hyps by (simp add: pse_entries_def)
    show ?case using step by (cases "k = off + b") (auto simp: e less_Suc_eq)
  qed (auto simp: pse_entries_def)
  then show "length (pse_entries off a b fl pd) = length pd"
    "pse_entries off a b fl pd ! k = (if off + a \<le> k \<and> k < off + b then (of_nat (k - off) * 0x400000) OR fl else pd ! k)"
    by blast+
qed

lemma paging_init_pd:
  assumes "k < PD_ENTRIES"
  shows "kernel_pd (paging_init pd s) ! k =
    (if k < 64 then (of_nat k * 0x400000) OR 0x83
     else if 224 \<le> k \<and> k < 256 then (of_nat k * 0x400000) OR 0x93
     else if 768 \<le> k \<and> k < 832 then (of_nat (k - 768) * 0x400000) OR 0x83 else 0)"
  using assms
  by (simp add: paging_init_def Let_def pse_entries_nth PD_ENTRIES_def PDE_PRESENT_def PDE_WRITABLE_def
      PDE_HUGE_def PDE_NOCACHE_def)

lemma length_paging_init: "length (kernel_pd (paging_init pd s)) = PD_ENTRIES"
  by (simp add: paging_init_def Let_def pse_entries_nth PD_ENTRIES_def)

text \<open>A 4 MB entry for physical block \<open>n\<close>.\<close>

lemma pse_entry:
  fixes n :: u32
  assumes "fl = 0x83 \<or> fl = 0x93"
  shows "((n * 0x400000) OR fl) AND PDE_PRESENT \<noteq> 0" "((n * 0x400000) OR fl) AND PDE_HUGE \<noteq> 0"
    "((n * 0x400000) OR fl) AND 0xFFC00000 = n * 0x400000"
proof -
  have sh: "n * 0x400000 = push_bit 22 n" by (simp add: push_bit_eq_mult mult.commute)
  have fl: "fl AND 1 = 1" "fl AND 128 = 128" "fl AND 0xFFC00000 = 0" using assms by auto
  have "((n * 0x400000) OR fl) AND 1 = (n * 0x400000 AND 1) OR 1" by (simp only: bit.conj_disj_distrib2 fl)
  then have "bit (((n * 0x400000) OR fl) AND PDE_PRESENT) 0" by (simp add: PDE_PRESENT_def bit_simps)
  then show "((n * 0x400000) OR fl) AND PDE_PRESENT \<noteq> 0" by auto
  have "((n * 0x400000) OR fl) AND 128 = (n * 0x400000 AND 128) OR 128" by (simp only: bit.conj_disj_distrib2 fl)
  then have "bit (((n * 0x400000) OR fl) AND PDE_HUGE) 7" by (simp add: PDE_HUGE_def bit_simps)
  then show "((n * 0x400000) OR fl) AND PDE_HUGE \<noteq> 0" by auto
  have m: "(0xFFC00000 :: u32) = NOT (mask 22)" by (simp add: mask_eq_exp_minus_1)
  have "push_bit 22 n AND NOT (mask 22) = push_bit 22 n"
    by (rule bit_word_eqI) (auto simp: bit_push_bit_iff bit_and_iff bit_not_iff bit_mask_iff)
  then show "((n * 0x400000) OR fl) AND 0xFFC00000 = n * 0x400000"
    by (simp only: bit.conj_disj_distrib2 fl m sh) (simp add: fl m [symmetric])
qed

lemma pd_index_ranges:
  "pd_index v < 64 \<longleftrightarrow> v < 0x10000000"
  "224 \<le> pd_index v \<and> pd_index v < 256 \<longleftrightarrow> 0x38000000 \<le> v \<and> v < 0x40000000"
  "768 \<le> pd_index v \<and> pd_index v < 832 \<longleftrightarrow> 0xC0000000 \<le> v \<and> v < 0xD0000000"
proof -
  have "pd_index v = unat v div 4194304" unfolding pd_index_def unat_drop_bit_div by simp
  then show "pd_index v < 64 \<longleftrightarrow> v < 0x10000000"
    "224 \<le> pd_index v \<and> pd_index v < 256 \<longleftrightarrow> 0x38000000 \<le> v \<and> v < 0x40000000"
    "768 \<le> pd_index v \<and> pd_index v < 832 \<longleftrightarrow> 0xC0000000 \<le> v \<and> v < 0xD0000000"
    by (auto simp: word_less_nat_alt word_le_nat_alt div_less_iff_less_mult less_eq_div_iff_mult_less_eq)
qed

lemma block_split: "of_nat (pd_index v) * 0x400000 OR (v AND 0x3FFFFF) = v"
proof -
  have n: "of_nat (pd_index v) = drop_bit 22 v" by (simp add: pd_index_def)
  have m: "(0x3FFFFF :: u32) = mask 22" by (simp add: mask_eq_exp_minus_1)
  have s: "drop_bit 22 v * 0x400000 = push_bit 22 (drop_bit 22 v)" by (simp add: push_bit_eq_mult mult.commute)
  show ?thesis
    unfolding n m s
    by (rule bit_word_eqI) (auto simp: bit_or_iff bit_push_bit_iff bit_drop_bit_eq bit_and_iff bit_mask_iff)
qed

lemma mirror_split:
  assumes "0xC0000000 \<le> v"
  shows "of_nat (pd_index v - 768) * 0x400000 OR (v AND 0x3FFFFF) = v - 0xC0000000"
proof -
  define u where "u = v - 0xC0000000"
  have uv: "unat v = 3221225472 + unat u"
    using assms by (simp add: u_def unat_sub word_le_nat_alt)
  have pd: "pd_index x = unat x div 4194304" for x unfolding pd_index_def unat_drop_bit_div by simp
  have "pd_index v = 768 + pd_index u" unfolding pd uv by simp
  then have i: "pd_index v - 768 = pd_index u" by simp
  have m: "unat (x AND 0x3FFFFF) = unat x mod 4194304" for x :: u32
  proof -
    have "x AND 0x3FFFFF = take_bit 22 x" by (simp only: take_bit_eq_mask) (simp add: mask_eq_exp_minus_1)
    then have "unat (x AND 0x3FFFFF) = take_bit 22 (unat x)" by (simp only: unsigned_take_bit_eq)
    then show ?thesis by (simp add: take_bit_eq_mod)
  qed
  have "(3221225472 + unat u) mod 4194304 = unat u mod 4194304"
    using mod_mult_self2 [of "unat u" 4194304 768] by (simp add: add.commute)
  then have "unat (v AND 0x3FFFFF) = unat (u AND 0x3FFFFF)" unfolding m uv .
  then have "v AND 0x3FFFFF = u AND 0x3FFFFF" by (simp only: word_unat_eq_iff)
  then show ?thesis using block_split [of u] unfolding i u_def [symmetric] by simp
qed

lemma paging_init_translation:
  "paging_get_phys (paging_init pd s) v =
    (if v < 0x10000000 \<or> 0x38000000 \<le> v \<and> v < 0x40000000 then v
     else if 0xC0000000 \<le> v \<and> v < 0xD0000000 then v - 0xC0000000 else 0)"
proof -
  have i: "pd_index v < PD_ENTRIES" by (simp add: PD_ENTRIES_def pd_index_less)
  note e = paging_init_pd [OF i, of pd s]
  note big = pse_entry [where fl = "0x83"] pse_entry [where fl = "0x93"]
  have split: "paging_get_phys (paging_init pd s) v =
    (if kernel_pd (paging_init pd s) ! pd_index v AND PDE_PRESENT = 0 then 0
     else (kernel_pd (paging_init pd s) ! pd_index v AND 0xFFC00000) OR (v AND 0x3FFFFF))"
    if "kernel_pd (paging_init pd s) ! pd_index v AND PDE_HUGE \<noteq> 0 \<or> kernel_pd (paging_init pd s) ! pd_index v = 0"
    using that by (auto simp: paging_get_phys_def Let_def)
  consider "pd_index v < 64" | "224 \<le> pd_index v" "pd_index v < 256" | "768 \<le> pd_index v" "pd_index v < 832"
    | "\<not> pd_index v < 64" "\<not> (224 \<le> pd_index v \<and> pd_index v < 256)" "\<not> (768 \<le> pd_index v \<and> pd_index v < 832)"
    by linarith
  then show ?thesis
  proof cases
    case 1
    have e': "kernel_pd (paging_init pd s) ! pd_index v = (of_nat (pd_index v) * 0x400000) OR 0x83"
      using e 1 by simp
    have "paging_get_phys (paging_init pd s) v = of_nat (pd_index v) * 0x400000 OR (v AND 0x3FFFFF)"
      using split unfolding e' by (simp only: big simp_thms if_False)
    then show ?thesis using 1 pd_index_ranges(1) block_split by simp
  next
    case 2
    have e': "kernel_pd (paging_init pd s) ! pd_index v = (of_nat (pd_index v) * 0x400000) OR 0x93"
      using e 2 by simp
    have "paging_get_phys (paging_init pd s) v = of_nat (pd_index v) * 0x400000 OR (v AND 0x3FFFFF)"
      using split unfolding e' by (simp only: big simp_thms if_False)
    moreover have "0x38000000 \<le> v" "v < 0x40000000" using 2 pd_index_ranges(2) by blast+
    ultimately show ?thesis using block_split by simp
  next
    case 3
    have e': "kernel_pd (paging_init pd s) ! pd_index v = (of_nat (pd_index v - 768) * 0x400000) OR 0x83"
      using e 3 by simp
    have r: "0xC0000000 \<le> v" "v < 0xD0000000" using 3 pd_index_ranges(3) by blast+
    have nr: "\<not> v < 0x10000000" "\<not> v < 0x40000000" using r(1) by (simp_all add: word_less_nat_alt word_le_nat_alt)
    have "paging_get_phys (paging_init pd s) v = of_nat (pd_index v - 768) * 0x400000 OR (v AND 0x3FFFFF)"
      using split unfolding e' by (simp only: big simp_thms if_False)
    then show ?thesis using r nr mirror_split [OF r(1)] by simp
  next
    case 4
    have e': "kernel_pd (paging_init pd s) ! pd_index v = 0" using e 4 by auto
    have "paging_get_phys (paging_init pd s) v = 0" using split unfolding e' by simp
    moreover have "\<not> v < 0x10000000" "\<not> (0x38000000 \<le> v \<and> v < 0x40000000)" "\<not> (0xC0000000 \<le> v \<and> v < 0xD0000000)"
      using 4 pd_index_ranges by blast+
    ultimately show ?thesis by (simp only: simp_thms if_False)
  qed
qed

lemma paging_init_inv: "pmm_inv (pg_pmm s) \<Longrightarrow> pg_inv (paging_init pd s)"
proof -
  assume p: "pmm_inv (pg_pmm s)"
  have "\<not> has_table (paging_init pd s) i" if "i < PD_ENTRIES" for i
  proof -
    let ?e = "kernel_pd (paging_init pd s) ! i"
    have "(\<exists>n. ?e = n * 0x400000 OR 0x83) \<or> (\<exists>n. ?e = n * 0x400000 OR 0x93) \<or> ?e = 0"
      unfolding paging_init_pd [OF that, of pd s] by (simp only: split: if_split) blast
    then show ?thesis
      using pse_entry(2) [where fl = "0x83"] pse_entry(2) [where fl = "0x93"]
      by (elim disjE exE) (simp_all add: has_table_def)
  qed
  then show ?thesis using p by (simp add: pg_inv_def length_paging_init) (simp add: paging_init_def Let_def)
qed

section \<open>Properties\<close>

text \<open>C2: \<open>paging_map_page\<close> either succeeds and translates every address of the page to the frame given,
  or fails; every other translation is unchanged, including those of the other pages behind a page
  table it had to allocate.\<close>

theorem paging_map_page_correct:
  assumes "pg_inv s" "paging_map_page v p f s = (r, s')"
  shows "pg_inv s' \<and> r \<in> {0, - 1} \<and>
    (\<forall>w. paging_get_phys s' w =
      (if r = 0 \<and> drop_bit 12 w = drop_bit 12 v then (p AND PAGE_MASK) OR (w AND 0xFFF) else paging_get_phys s w))"
  using paging_map_page_spec [OF assms] by blast

text \<open>One page table in frame 1 behind directory entry 832, whose first entry maps frame 3; frame 2 is free.\<close>

definition paging_example :: paging where
  "paging_example = \<lparr>kernel_pd = (replicate 1024 0)[832 := 0x1003],
     pg_pmm = pmm_example\<lparr>pmem := store32 (\<lambda>_. 0) 0x1000 0x3003\<rparr>, pg_cr0 = 1, pg_cr3 = 0, pg_cr4 = 0\<rparr>"

lemma paging_example_table: "i < PD_ENTRIES \<Longrightarrow> has_table paging_example i \<longleftrightarrow> i = 832"
  "table_of paging_example 832 = 0x1000"
  by (auto simp: has_table_def table_of_def paging_example_def nth_list_update PD_ENTRIES_def PDE_PRESENT_def
      PDE_HUGE_def PAGE_MASK_def)

lemma paging_example_owned: "PFN_TO_ADDR 1 \<in> pmm_owned (pg_pmm paging_example)"
  "PFN_TO_ADDR 3 \<in> pmm_owned (pg_pmm paging_example)"
proof -
  have f: "free_set (pg_pmm paging_example) = {2}"
    using pmm_example_free by (simp add: paging_example_def)
  have t: "total_pages (pg_pmm paging_example) = 4" by (simp add: paging_example_def pmm_example_def)
  show "PFN_TO_ADDR 1 \<in> pmm_owned (pg_pmm paging_example)" "PFN_TO_ADDR 3 \<in> pmm_owned (pg_pmm paging_example)"
    unfolding pmm_owned_def f t by force+
qed

lemma paging_example_inv: "pg_inv paging_example"
proof -
  have "length (kernel_pd paging_example) = PD_ENTRIES" "pmm_inv (pg_pmm paging_example)"
    using pmm_example_inv by (simp_all add: paging_example_def PD_ENTRIES_def)
  moreover have "(0x1000 :: u32) \<in> pmm_owned (pg_pmm paging_example)"
    using paging_example_owned(1) by (simp add: PFN_TO_ADDR_def)
  ultimately show ?thesis unfolding pg_inv_def by (auto simp: paging_example_table)
qed

lemma paging_example_phys: "paging_get_phys paging_example 0xD0000000 = 0x3000"
proof -
  have "pd_index 0xD0000000 = 832" "pt_index 0xD0000000 = 0" by (simp_all add: pd_index_def pt_index_def)
  then show ?thesis
    by (simp add: paging_get_phys_def Let_def paging_example_def PDE_PRESENT_def PDE_HUGE_def PAGE_MASK_def)
qed

lemma page_0xD0000: "pd_index 0xD0000000 = 832" "pd_index 0xD0001000 = 832"
  by (simp_all add: pd_index_def)

theorem paging_map_page_correct_witness:
  "paging_get_phys (snd (paging_map_page 0xD0000000 0x5000 3 paging_example)) 0xD0000008 = 0x5008"
proof -
  have "fst (paging_map_page 0xD0000000 0x5000 3 paging_example) = 0"
    by (rule map_page_table [OF paging_example_inv]) (simp add: page_0xD0000 paging_example_table PD_ENTRIES_def)
  moreover have "drop_bit 12 (0xD0000008 :: u32) = drop_bit 12 0xD0000000" by simp
  ultimately show ?thesis
    using paging_map_page_correct [OF paging_example_inv, where v = "0xD0000000" and p = "0x5000" and f = 3, OF surjective_pairing]
    by (simp add: PAGE_MASK_def)
qed

text \<open>a successful \<open>paging_map_range\<close> of at most 2 to the 20 pages maps page \<open>i\<close> of the range to frame
  \<open>i\<close> of the physical range, and leaves every page outside the range as it was.\<close>

theorem paging_map_range_correct:
  assumes "pg_inv s" "unat count \<le> 1048576" "paging_map_range v p count f s = (0, s')"
  shows "pg_inv s' \<and>
    (\<forall>i < unat count. \<forall>w. drop_bit 12 w = drop_bit 12 (v + of_nat i * 4096) \<longrightarrow>
       paging_get_phys s' w = ((p + of_nat i * 4096) AND PAGE_MASK) OR (w AND 0xFFF)) \<and>
    (\<forall>w. (\<forall>i < unat count. drop_bit 12 w \<noteq> drop_bit 12 (v + of_nat i * 4096)) \<longrightarrow>
       paging_get_phys s' w = paging_get_phys s w)"
proof -
  have "paging_map_from (unat count) (of_nat 0) v p f s = (0, s')"
    using assms(3) by (simp add: paging_map_range_def)
  from paging_map_from_spec [OF assms(1) _ this] assms(2) show ?thesis by simp
qed

theorem paging_map_range_correct_witness:
  "paging_get_phys (snd (paging_map_range 0xD0000000 0x5000 2 3 paging_example)) 0xD0001008 = 0x6008"
proof -
  let ?m = "paging_map_page 0xD0000000 0x5000 3 paging_example"
  have one: "fst ?m = 0"
    by (rule map_page_table [OF paging_example_inv]) (simp add: page_0xD0000 paging_example_table PD_ENTRIES_def)
  have t: "pg_inv (snd ?m)" "has_table (snd ?m) 832"
  proof -
    have ht: "has_table paging_example (pd_index 0xD0000000)"
      by (simp add: page_0xD0000 paging_example_table PD_ENTRIES_def)
    show "pg_inv (snd ?m)" "has_table (snd ?m) 832"
      by (cases rule: paging_map_page_cases [OF paging_example_inv, of "0xD0000000" "0x5000" 3, case_names mapped failed];
          use ht paging_example_inv in \<open>simp add: page_0xD0000\<close>)+
  qed
  have two: "fst (paging_map_page 0xD0001000 0x6000 3 (snd ?m)) = 0"
    by (rule map_page_table [OF t(1)]) (simp add: page_0xD0000 t(2))
  have "fst (paging_map_range 0xD0000000 0x5000 2 3 paging_example) = 0"
  proof -
    have u: "unat (2 :: u32) = Suc (Suc 0)" by simp
    show ?thesis unfolding paging_map_range_def u using one two by (simp add: case_prod_unfold)
  qed
  then have r: "paging_map_range 0xD0000000 0x5000 2 3 paging_example =
      (0, snd (paging_map_range 0xD0000000 0x5000 2 3 paging_example))"
    by (metis prod.collapse)
  from paging_map_range_correct [OF paging_example_inv _ r]
  have "\<forall>i < 2. \<forall>w. drop_bit 12 w = drop_bit 12 (0xD0000000 + of_nat i * 4096) \<longrightarrow>
      paging_get_phys (snd (paging_map_range 0xD0000000 0x5000 2 3 paging_example)) w =
      ((0x5000 + of_nat i * 4096) AND PAGE_MASK) OR (w AND 0xFFF)" by simp
  from this [rule_format, of 1 "0xD0001008"] show ?thesis by (simp add: PAGE_MASK_def)
qed

text \<open>C18: a successful copy-on-write gives the page a fresh frame that holds the bytes of the old one, and
  leaves every other translation alone.\<close>

theorem copy_on_write_copies:
  assumes "pg_inv s" "paging_get_phys s (v AND PAGE_MASK) \<in> pmm_owned (pg_pmm s)" "paging_copy_on_write v s = (0, s')"
  shows "\<exists>a. a \<noteq> 0 \<and> a \<notin> pmm_owned (pg_pmm s) \<and> pg_inv s' \<and>
    (\<forall>w. paging_get_phys s' w = (if drop_bit 12 w = drop_bit 12 v then a OR (w AND 0xFFF) else paging_get_phys s w)) \<and>
    (\<forall>k < 4096. pmem (pg_pmm s') (a + of_nat k) = pmem (pg_pmm s) (paging_get_phys s (v AND PAGE_MASK) + of_nat k))"
  by (rule paging_copy_on_write_spec [OF assms])

theorem copy_on_write_copies_witness:
  "\<exists>a. a \<noteq> 0x3000 \<and>
     paging_get_phys (snd (paging_copy_on_write 0xD0000004 paging_example)) 0xD0000000 = a \<and>
     pmem (pg_pmm (snd (paging_copy_on_write 0xD0000004 paging_example))) (a + 8) = pmem (pg_pmm paging_example) 0x3008"
proof -
  have m: "0xD0000004 AND PAGE_MASK = 0xD0000000" by (simp add: PAGE_MASK_def)
  have own: "0x3000 \<in> pmm_owned (pg_pmm paging_example)"
    using paging_example_owned(2) by (simp add: PFN_TO_ADDR_def)
  have pinv: "pmm_inv (pg_pmm paging_example)" using paging_example_inv by (simp add: pg_inv_def)
  obtain a pm where al: "pmm_alloc_page (pg_pmm paging_example) = (a, pm)" by fastforce
  have f: "free_set (pg_pmm paging_example) = {2}" using pmm_example_free by (simp add: paging_example_def)
  have nz: "a \<noteq> 0"
  proof (cases rule: pmm_alloc_page_cases [OF pinv, case_names found full])
    case (found p)
    then have "p = 2" using f by simp
    then show ?thesis using al found(4) by (simp add: PFN_TO_ADDR_def)
  next
    case full
    then show ?thesis using f by simp
  qed
  have "fst (paging_copy_on_write 0xD0000004 paging_example) = 0"
    by (rule cow_succeeds [OF paging_example_inv _ _ _ al nz])
      (simp_all add: m paging_example_phys own page_0xD0000 paging_example_table PD_ENTRIES_def)
  then have r: "paging_copy_on_write 0xD0000004 paging_example =
      (0, snd (paging_copy_on_write 0xD0000004 paging_example))" by (metis prod.collapse)
  from copy_on_write_copies [OF paging_example_inv _ r, unfolded m paging_example_phys, OF own]
  obtain b where b: "b \<notin> pmm_owned (pg_pmm paging_example)"
    "\<forall>w. paging_get_phys (snd (paging_copy_on_write 0xD0000004 paging_example)) w =
      (if drop_bit 12 w = drop_bit 12 (0xD0000004 :: u32) then b OR (w AND 0xFFF) else paging_get_phys paging_example w)"
    "\<forall>k < 4096. pmem (pg_pmm (snd (paging_copy_on_write 0xD0000004 paging_example))) (b + of_nat k) =
      pmem (pg_pmm paging_example) (0x3000 + of_nat k)"
    by blast
  have "b \<noteq> 0x3000" using b(1) own by auto
  moreover have "paging_get_phys (snd (paging_copy_on_write 0xD0000004 paging_example)) 0xD0000000 = b"
    using b(2) [rule_format, of "0xD0000000"] by simp
  ultimately show ?thesis using b(3) [rule_format, of 8] by auto
qed

text \<open>the translation \<open>paging_init\<close> sets up: the low 256 MB and their mirror at 3 GB, and an identity
  window at \<open>0x38000000\<close>. The device range from \<open>0xE0000000\<close> on, which the comments of the code promise,
  is not mapped: directory entries 224 to 255 cover \<open>0x38000000\<close> to \<open>0x3FFFFFFF\<close>.\<close>

theorem paging_init_maps:
  "paging_get_phys (paging_init pd s) v =
    (if v < 0x10000000 \<or> 0x38000000 \<le> v \<and> v < 0x40000000 then v
     else if 0xC0000000 \<le> v \<and> v < 0xD0000000 then v - 0xC0000000 else 0)"
  by (rule paging_init_translation)

end
