(* ===== verification/Heap.thy ===== *)
theory Heap
  imports Paging
begin

text \<open>
  The first-fit kernel heap (\<open>mm/heap.c\<close>). The headers, which the code chains through the
  heap memory itself, are the list \<open>hp_blocks\<close> in chain order, each with its address; all other
  bytes are \<open>hp_mem\<close>, and \<open>heap_memory\<close> is the memory with the headers in place, which is what a look at
  the words before a pointer reads. A pointer before which the magic of a used block stands although no block of the chain starts
  there is freed by the code, which writes into and links what is not a header: the model stops with \<open>Heap_corrupt\<close>.
  The result of \<open>paging_map_page\<close> is ignored, as in the code; a header written to a page that could not be mapped would
  fault there, which is not modelled.
\<close>

section \<open>State\<close>

definition HEAP_MAGIC_FREE :: u32 where "HEAP_MAGIC_FREE = 0xDEADBEEF"
definition HEAP_MAGIC_USED :: u32 where "HEAP_MAGIC_USED = 0xBEEFCAFE"
definition HEAP_MIN_SPLIT :: u32 where "HEAP_MIN_SPLIT = 32"
definition HEAP_HDR :: u32 where "HEAP_HDR = 16"
definition KHEAP_START :: u32 where "KHEAP_START = 0xD0000000"
definition KHEAP_MAX :: u32 where "KHEAP_MAX = 0xDFFFFFFF"
definition LEAK_TABLE_SIZE :: nat where "LEAK_TABLE_SIZE = 1024"

record heap_block =
  hb_addr :: u32
  hb_magic :: u32
  hb_size :: u32
  hb_free :: bool

record alloc_record =
  ar_ptr :: u32
  ar_size :: u32
  ar_file :: "u8 list option"
  ar_line :: int

record heap =
  hp_blocks :: "heap_block list"
  hp_brk :: u32
  hp_used :: u32
  hp_total :: u32
  hp_pg :: paging
  hp_mem :: mem
  leak_table :: "alloc_record list"
  leak_count :: u32

definition leak_empty :: alloc_record where
  "leak_empty = \<lparr>ar_ptr = 0, ar_size = 0, ar_file = None, ar_line = 0\<rparr>"

section \<open>Leak table\<close>

definition leak_record :: "u32 \<Rightarrow> u32 \<Rightarrow> u8 list option \<Rightarrow> int \<Rightarrow> heap \<Rightarrow> heap" where
  "leak_record p sz file line s =
     (let r = \<lparr>ar_ptr = p, ar_size = sz, ar_file = file, ar_line = line\<rparr> in
      case find_idx (\<lambda>r. ar_ptr r = 0) (leak_table s) of
        Some i \<Rightarrow> s\<lparr>leak_table := (leak_table s)[i := r]\<rparr>
      | None \<Rightarrow> s\<lparr>leak_table := (leak_table s)[unat (leak_count s) mod LEAK_TABLE_SIZE := r],
                  leak_count := leak_count s + 1\<rparr>)"

definition leak_unrecord :: "u32 \<Rightarrow> heap \<Rightarrow> heap" where
  "leak_unrecord p s =
     (case find_idx (\<lambda>r. ar_ptr r = p) (leak_table s) of
        Some i \<Rightarrow> s\<lparr>leak_table := (leak_table s)[i := leak_empty]\<rparr>
      | None \<Rightarrow> s)"

section \<open>Growing\<close>

fun heap_grow_pages :: "nat \<Rightarrow> heap \<Rightarrow> bool \<times> heap" where
  "heap_grow_pages 0 s = (True, s)"
| "heap_grow_pages (Suc n) s =
     (if hp_brk s + 4096 > KHEAP_MAX then (False, s)
      else
        let (phys, pm) = pmm_alloc_page (pg_pmm (hp_pg s)); pg = (hp_pg s)\<lparr>pg_pmm := pm\<rparr> in
        if phys = 0 then (False, s\<lparr>hp_pg := pg\<rparr>)
        else heap_grow_pages n (s\<lparr>hp_pg := snd (paging_map_page (hp_brk s) phys (PDE_PRESENT OR PDE_WRITABLE) pg),
               hp_brk := hp_brk s + 4096, hp_total := hp_total s + 4096\<rparr>))"

definition heap_grow :: "u32 \<Rightarrow> heap \<Rightarrow> bool \<times> heap" where
  "heap_grow needed s = heap_grow_pages (unat ((needed + 4096 - 1) div 4096)) s"

definition heap_init :: "heap \<Rightarrow> heap option" where
  "heap_init s =
     (let s = s\<lparr>hp_brk := KHEAP_START, leak_table := replicate LEAK_TABLE_SIZE leak_empty\<rparr>;
          (ok, s) = heap_grow (4 * 4096) s
      in if \<not> ok then None
         else Some (s\<lparr>hp_blocks := [\<lparr>hb_addr = KHEAP_START, hb_magic = HEAP_MAGIC_FREE,
                hb_size = hp_total s - HEAP_HDR, hb_free = True\<rparr>]\<rparr>))"

section \<open>Allocation\<close>

text \<open>The block itself, and the rest of a block that is worth splitting.\<close>

definition heap_split :: "heap_block \<Rightarrow> u32 \<Rightarrow> heap_block list" where
  "heap_split blk sz =
     (if hb_size blk < sz + HEAP_HDR + HEAP_MIN_SPLIT then [blk]
      else [blk\<lparr>hb_size := sz\<rparr>,
            \<lparr>hb_addr = hb_addr blk + HEAP_HDR + sz, hb_magic = HEAP_MAGIC_FREE,
             hb_size = hb_size blk - sz - HEAP_HDR, hb_free = True\<rparr>])"

definition heap_take :: "nat \<Rightarrow> u32 \<Rightarrow> heap \<Rightarrow> u32 \<times> heap" where
  "heap_take i sz s =
     (let blks = heap_split (hp_blocks s ! i) sz;
          blk = (hd blks)\<lparr>hb_free := False, hb_magic := HEAP_MAGIC_USED\<rparr>
      in (hb_addr blk + HEAP_HDR,
          s\<lparr>hp_blocks := take i (hp_blocks s) @ blk # tl blks @ drop (Suc i) (hp_blocks s),
            hp_used := hp_used s + hb_size blk\<rparr>))"

definition heap_fits :: "u32 \<Rightarrow> heap_block \<Rightarrow> bool" where
  "heap_fits sz b \<longleftrightarrow> hb_free b \<and> hb_size b \<ge> sz"

lemma heap_grow_pages_measure:
  "heap_grow_pages n s = (True, s') \<Longrightarrow> unat (KHEAP_MAX - hp_brk s') + n * 4096 = unat (KHEAP_MAX - hp_brk s)"
proof (induction n arbitrary: s)
  case (Suc n)
  obtain phys pm where al: "pmm_alloc_page (pg_pmm (hp_pg s)) = (phys, pm)" by fastforce
  have le: "hp_brk s + 4096 \<le> KHEAP_MAX" using Suc.prems by (auto split: if_splits)
  define x where "x = KHEAP_MAX - (hp_brk s + 4096)"
  have "unat x \<le> unat KHEAP_MAX" using le by (simp add: x_def unat_sub)
  then have "unat x + 4096 < 2 ^ 32" by (simp add: KHEAP_MAX_def)
  moreover have x: "KHEAP_MAX - hp_brk s = x + 4096" by (simp add: x_def)
  ultimately have "unat (KHEAP_MAX - hp_brk s) = unat x + 4096" unfolding x by (simp add: unat_word_ariths)
  moreover have "\<exists>s1. hp_brk s1 = hp_brk s + 4096 \<and> heap_grow_pages n s1 = (True, s')"
    using Suc.prems al by (auto simp: Let_def split: if_splits intro!: exI)
  then obtain s1 where "hp_brk s1 = hp_brk s + 4096" "heap_grow_pages n s1 = (True, s')" by blast
  ultimately show ?case using Suc.IH [of s1] by (simp add: x_def)
qed simp

lemma heap_grow_pages_blocks: "hp_blocks (snd (heap_grow_pages n s)) = hp_blocks s"
  by (induction n arbitrary: s) (auto simp: Let_def split: prod.splits)

lemma align_up_8_mask: "align_up a 8 = (a + 7) AND NOT (mask 3)"
  by (simp add: align_up_def mask_eq_exp_minus_1 add.commute)

lemma align_up_8_mod: "unat (align_up a 8) mod 8 = 0"
  unfolding align_up_8_mask by (simp add: and_not_mask_unat)

lemma align_up_8_idem: "align_up (align_up a 8) 8 = align_up a 8"
proof -
  define y where "y = align_up a 8"
  have m: "unat y mod 8 = 0" unfolding y_def by (rule align_up_8_mod)
  obtain k where k: "unat y = 8 * k" using m by (auto simp: mod_eq_0_iff_dvd dvd_def)
  have "k < 536870912" using k unsigned_less [of y, where 'a = nat] by simp
  then have "8 * k + 7 < 2 ^ 32" by simp
  then have "unat (align_up y 8) = (8 * k + 7) div 8 * 8" using unat_align_up_8 [of y] k by simp
  then have "unat (align_up y 8) = unat y" using k by simp
  then show ?thesis by (simp only: y_def word_unat_eq_iff)
qed

function heap_alloc_raw :: "u32 \<Rightarrow> heap \<Rightarrow> u32 \<times> heap" where
  "heap_alloc_raw sz0 s =
     (if sz0 = 0 then (0, s)
      else
        let sz = align_up sz0 8 in
        case find_idx (heap_fits sz) (hp_blocks s) of
          Some i \<Rightarrow> heap_take i sz s
        | None \<Rightarrow>
            let grow_size = HEAP_HDR + sz;
                grow_size = (if grow_size < 4096 then 4096 else grow_size);
                old_brk = hp_brk s;
                (ok, s) = heap_grow grow_size s
            in if \<not> ok then (0, s)
               else heap_alloc_raw sz (s\<lparr>hp_blocks := hp_blocks s @ [\<lparr>hb_addr = old_brk, hb_magic = HEAP_MAGIC_FREE,
                      hb_size = (hp_brk s - old_brk) - HEAP_HDR, hb_free = True\<rparr>]\<rparr>))"
  by pat_completeness auto
termination
proof (relation "measure (\<lambda>(sz, s). 2 * unat (KHEAP_MAX - hp_brk s) +
    (if find_idx (heap_fits (align_up sz 8)) (hp_blocks s) = None then 1 else 0))", goal_cases)
  case 1
  then show ?case by simp
next
  case (2 sz0 s sz gs0 gs ob p ok s')
  have sz: "sz = align_up sz0 8" and idem: "align_up sz 8 = sz" using 2 align_up_8_idem by simp_all
  have gr: "heap_grow_pages (unat ((gs + 4096 - 1) div 4096)) s = (True, s')"
    using 2 by (simp add: heap_grow_def)
  note m = heap_grow_pages_measure [OF gr]
  have none: "find_idx (heap_fits (align_up sz0 8)) (hp_blocks s) = None" using 2 sz by simp
  let ?b = "\<lparr>hb_addr = ob, hb_magic = HEAP_MAGIC_FREE, hb_size = hp_brk s' - ob - HEAP_HDR, hb_free = True\<rparr>"
  show ?case
  proof (cases "(gs + 4096 - 1) div 4096 = 0")
    case False
    then have "0 < unat ((gs + 4096 - 1) div 4096)" by (simp add: unat_gt_0)
    then have "unat (KHEAP_MAX - hp_brk s') < unat (KHEAP_MAX - hp_brk s)" using m by linarith
    then show ?thesis using none by simp
  next
    case True
    then have same: "s' = s" using gr by simp
    have gs: "gs = (if HEAP_HDR + sz < 4096 then 4096 else HEAP_HDR + sz)" "ob = hp_brk s" using 2 by simp_all
    have "unat sz \<le> unat (- 16 :: u32)"
    proof (cases "HEAP_HDR + sz < 4096")
      case small: True
      then have "(gs + 4096 - 1) div 4096 = (8191 :: u32) div 4096" using gs by simp
      also have "\<dots> = 1" by (simp add: word_unat_eq_iff unat_div)
      finally show ?thesis using True by simp
    next
      case False
      show ?thesis
      proof (rule ccontr)
        assume "\<not> unat sz \<le> unat (- 16 :: u32)"
        moreover have "unat (- 16 :: u32) = 4294967280" by simp
        ultimately have ge: "4294967280 \<le> unat sz" by simp
        define d where "d = unat sz - 4294967280"
        have d: "unat sz = 4294967280 + d" "d < 16"
          using ge unat_u32_less [of sz] unfolding d_def by linarith+
        then have "unat (HEAP_HDR + sz) = d" by (simp add: HEAP_HDR_def unat_word_ariths)
        then show False using False d(2) by (simp add: word_less_nat_alt)
      qed
    qed
    then have "unat sz \<le> unat (hp_brk s' - ob - HEAP_HDR)"
      using gs(2) same by (simp add: HEAP_HDR_def)
    then have "heap_fits sz ?b" by (simp add: heap_fits_def word_le_nat_alt)
    then have "find_idx (heap_fits sz) (hp_blocks s' @ [?b]) \<noteq> None" by (simp add: find_idx_None)
    then show ?thesis using none same idem sz by simp
  qed
qed

declare heap_alloc_raw.simps [simp del]

section \<open>Freeing and the public interface\<close>

function heap_coalesce :: "heap_block list \<Rightarrow> heap_block list" where
  "heap_coalesce [] = []"
| "heap_coalesce [b] = [b]"
| "heap_coalesce (b # c # bs) =
     (if hb_free b \<and> hb_free c then heap_coalesce (b\<lparr>hb_size := hb_size b + (HEAP_HDR + hb_size c)\<rparr> # bs)
      else b # heap_coalesce (c # bs))"
  by pat_completeness auto
termination by (relation "measure length") auto

text \<open>The header of a block: magic, size, the free byte (the three bytes behind it are padding), the address of the next.\<close>

definition next_addr :: "heap_block list \<Rightarrow> u32" where
  "next_addr bs = (case bs of [] \<Rightarrow> 0 | b # _ \<Rightarrow> hb_addr b)"

definition put_header :: "heap_block \<Rightarrow> u32 \<Rightarrow> mem \<Rightarrow> mem" where
  "put_header b nx m =
     store32 (store32 ((store32 m (hb_addr b + 12) nx)(hb_addr b + 8 := (if hb_free b then 1 else 0))) (hb_addr b + 4) (hb_size b))
       (hb_addr b) (hb_magic b)"

fun put_headers :: "heap_block list \<Rightarrow> mem \<Rightarrow> mem" where
  "put_headers [] m = m"
| "put_headers (b # bs) m = put_header b (next_addr bs) (put_headers bs m)"

definition heap_memory :: "heap \<Rightarrow> mem" where
  "heap_memory s = put_headers (hp_blocks s) (hp_mem s)"

text \<open>The header of a block that \<open>heap_coalesce\<close> merges into the one before it stays where it is, as bytes of that block.\<close>

function stale_headers :: "heap_block list \<Rightarrow> mem \<Rightarrow> mem" where
  "stale_headers [] m = m"
| "stale_headers [b] m = m"
| "stale_headers (b # c # bs) m =
     (if hb_free b \<and> hb_free c then stale_headers (b\<lparr>hb_size := hb_size b + (HEAP_HDR + hb_size c)\<rparr> # bs) (put_header c (next_addr bs) m)
      else stale_headers (c # bs) m)"
  by pat_completeness auto
termination by (relation "measure (length \<circ> fst)") auto

datatype heap_fault = Heap_panic | Heap_corrupt

definition heap_free_raw :: "u32 \<Rightarrow> heap \<Rightarrow> heap_fault + heap" where
  "heap_free_raw p s =
     (if p = 0 then Inr s
      else if load32 (heap_memory s) (p - HEAP_HDR) \<noteq> HEAP_MAGIC_USED then Inl Heap_panic
      else case find_idx (\<lambda>b. hb_addr b = p - HEAP_HDR) (hp_blocks s) of
        None \<Rightarrow> Inl Heap_corrupt
      | Some i \<Rightarrow>
          let blk = hp_blocks s ! i; blks = (hp_blocks s)[i := blk\<lparr>hb_free := True, hb_magic := HEAP_MAGIC_FREE\<rparr>]
          in Inr (s\<lparr>hp_blocks := heap_coalesce blks, hp_mem := stale_headers blks (hp_mem s),
                 hp_used := hp_used s - hb_size blk\<rparr>))"

definition kmalloc :: "u32 \<Rightarrow> heap \<Rightarrow> u32 \<times> heap" where
  "kmalloc sz s = heap_alloc_raw sz s"

definition kzalloc :: "u32 \<Rightarrow> heap \<Rightarrow> u32 \<times> heap" where
  "kzalloc sz s =
     (let (p, s) = heap_alloc_raw sz s in
      if p \<noteq> 0 then (p, s\<lparr>hp_mem := memset p 0 (unat sz) (hp_mem s)\<rparr>) else (p, s))"

definition kfree :: "u32 \<Rightarrow> heap \<Rightarrow> heap_fault + heap" where
  "kfree p s = heap_free_raw p s"

definition kmalloc_aligned :: "u32 \<Rightarrow> u32 \<Rightarrow> heap \<Rightarrow> u32 \<times> heap" where
  "kmalloc_aligned sz al s =
     (let (raw, s) = kmalloc (sz + al + 4) s in
      if raw = 0 then (0, s)
      else let addr = align_up (raw + 4) al in (addr, s\<lparr>hp_mem := store32 (hp_mem s) (addr - 4) raw\<rparr>))"

text \<open>The size is read in front of the pointer, whatever is there.\<close>

definition krealloc :: "u32 \<Rightarrow> u32 \<Rightarrow> heap \<Rightarrow> heap_fault + u32 \<times> heap" where
  "krealloc p sz s =
     (if p = 0 then Inr (kmalloc sz s)
      else if sz = 0 then (case kfree p s of Inl e \<Rightarrow> Inl e | Inr s \<Rightarrow> Inr (0, s))
      else
        let old = load32 (heap_memory s) (p - HEAP_HDR + 4) in
        if old \<ge> sz then Inr (p, s)
        else
          let (new, s) = kmalloc sz s in
          if new = 0 then Inr (0, s)
          else
            let old = load32 (heap_memory s) (p - HEAP_HDR + 4) in
            case kfree p (s\<lparr>hp_mem := memcpy new p (unat old) (heap_memory s)\<rparr>) of
              Inl e \<Rightarrow> Inl e
            | Inr s \<Rightarrow> Inr (new, s))"

definition kmalloc_tracked :: "u32 \<Rightarrow> u8 list option \<Rightarrow> int \<Rightarrow> heap \<Rightarrow> u32 \<times> heap" where
  "kmalloc_tracked sz file line s =
     (let (p, s) = heap_alloc_raw sz s in if p \<noteq> 0 then (p, leak_record p sz file line s) else (p, s))"

definition kzalloc_tracked :: "u32 \<Rightarrow> u8 list option \<Rightarrow> int \<Rightarrow> heap \<Rightarrow> u32 \<times> heap" where
  "kzalloc_tracked sz file line s =
     (let (p, s) = heap_alloc_raw sz s in
      if p \<noteq> 0 then (p, leak_record p sz file line (s\<lparr>hp_mem := memset p 0 (unat sz) (hp_mem s)\<rparr>)) else (p, s))"

definition kfree_tracked :: "u32 \<Rightarrow> heap \<Rightarrow> heap_fault + heap" where
  "kfree_tracked p s = (if p = 0 then Inr s else heap_free_raw p (leak_unrecord p s))"

definition heap_leaks :: "heap \<Rightarrow> nat" where
  "heap_leaks s = length (filter (\<lambda>r. ar_ptr r \<noteq> 0) (leak_table s))"

definition heap_used :: "heap \<Rightarrow> u32" where
  "heap_used s = hp_used s"

definition heap_available :: "heap \<Rightarrow> u32" where
  "heap_available s = hp_total s - hp_used s"

section \<open>Invariant\<close>

text \<open>Blocks in address order, without overlap, between \<open>lo\<close> and \<open>hi\<close>, magic as the state says.\<close>

fun blocks_ok :: "nat \<Rightarrow> heap_block list \<Rightarrow> nat \<Rightarrow> bool" where
  "blocks_ok lo [] hi \<longleftrightarrow> lo \<le> hi"
| "blocks_ok lo (b # bs) hi \<longleftrightarrow>
     lo \<le> unat (hb_addr b) \<and> hb_magic b = (if hb_free b then HEAP_MAGIC_FREE else HEAP_MAGIC_USED) \<and>
     blocks_ok (unat (hb_addr b) + 16 + unat (hb_size b)) bs hi"

text \<open>Payloads in use: start and size.\<close>

definition live :: "heap_block list \<Rightarrow> (u32 \<times> u32) list" where
  "live bs = map (\<lambda>b. (hb_addr b + HEAP_HDR, hb_size b)) (filter (\<lambda>b. \<not> hb_free b) bs)"

definition heap_inv :: "heap \<Rightarrow> bool" where
  "heap_inv s \<longleftrightarrow> KHEAP_START \<le> hp_brk s \<and> hp_brk s \<le> KHEAP_MAX \<and>
     blocks_ok (unat KHEAP_START) (hp_blocks s) (unat (hp_brk s)) \<and>
     unat (hp_used s) = sum_list (map (unat \<circ> snd) (live (hp_blocks s)))"

lemma live_simps [simp]: "live [] = []"
  "live (b # bs) = (if hb_free b then live bs else (hb_addr b + HEAP_HDR, hb_size b) # live bs)"
  "live (xs @ ys) = live xs @ live ys"
  by (simp_all add: live_def)

lemma blocks_ok_append: "blocks_ok lo (xs @ ys) hi \<longleftrightarrow> (\<exists>m. blocks_ok lo xs m \<and> blocks_ok m ys hi)"
proof (induction xs arbitrary: lo)
  case Nil
  have "blocks_ok m ys hi \<Longrightarrow> lo \<le> m \<Longrightarrow> blocks_ok lo ys hi" for m by (cases ys) auto
  then show ?case by auto
qed auto

lemma blocks_ok_le: "blocks_ok lo bs hi \<Longrightarrow> lo \<le> hi"
  by (induction bs arbitrary: lo) (auto, fastforce)

lemma blocks_ok_mono: "blocks_ok lo bs hi \<Longrightarrow> lo' \<le> lo \<Longrightarrow> hi \<le> hi' \<Longrightarrow> blocks_ok lo' bs hi'"
  by (induction bs arbitrary: lo lo') auto

lemma blocks_ok_live:
  "blocks_ok lo bs hi \<Longrightarrow> hi < 2 ^ 32 \<Longrightarrow> (p, n) \<in> set (live bs) \<Longrightarrow> lo + 16 \<le> unat p \<and> unat p + unat n \<le> hi"
proof (induction bs arbitrary: lo)
  case (Cons b bs)
  let ?m = "unat (hb_addr b) + 16 + unat (hb_size b)"
  have m: "?m \<le> hi" "blocks_ok ?m bs hi" "lo \<le> unat (hb_addr b)" using Cons.prems(1) blocks_ok_le by auto
  have u: "unat (hb_addr b + HEAP_HDR) = unat (hb_addr b) + 16"
    using m Cons.prems(2) by (simp add: HEAP_HDR_def unat_word_ariths)
  show ?case
  proof (cases "(p, n) \<in> set (live bs)")
    case True
    from Cons.IH [OF m(2) Cons.prems(2) this] m show ?thesis by simp
  next
    case False
    then have "p = hb_addr b + HEAP_HDR" "n = hb_size b" using Cons.prems(3) by (auto split: if_splits)
    then show ?thesis using u m by simp
  qed
qed simp

text \<open>Live payloads are pairwise disjoint.\<close>

definition apart :: "u32 \<times> u32 \<Rightarrow> u32 \<times> u32 \<Rightarrow> bool" where
  "apart x y \<longleftrightarrow> unat (fst x) + unat (snd x) \<le> unat (fst y) \<or> unat (fst y) + unat (snd y) \<le> unat (fst x)"

lemma blocks_ok_apart: "blocks_ok lo bs hi \<Longrightarrow> hi < 2 ^ 32 \<Longrightarrow> sorted_wrt (\<lambda>x y. unat (fst x) + unat (snd x) + 16 \<le> unat (fst y)) (live bs)"
proof (induction bs arbitrary: lo)
  case (Cons b bs)
  let ?m = "unat (hb_addr b) + 16 + unat (hb_size b)"
  have m: "?m \<le> hi" "blocks_ok ?m bs hi" using Cons.prems(1) blocks_ok_le by auto
  have u: "unat (hb_addr b + HEAP_HDR) = unat (hb_addr b) + 16"
    using m Cons.prems(2) by (simp add: HEAP_HDR_def unat_word_ariths)
  have "\<forall>(p, n) \<in> set (live bs). ?m + 16 \<le> unat p" using blocks_ok_live [OF m(2) Cons.prems(2)] by auto
  then show ?case using Cons.IH [OF m(2) Cons.prems(2)] u by (auto simp: case_prod_unfold)
qed simp

lemma live_sum:
  "blocks_ok lo bs hi \<Longrightarrow> sum_list (map (unat \<circ> snd) (live bs)) + lo \<le> hi"
proof (induction bs arbitrary: lo)
  case (Cons b bs)
  from Cons.IH [of "unat (hb_addr b) + 16 + unat (hb_size b)"] Cons.prems show ?case by simp
qed simp

section \<open>Operations keep the invariant\<close>

fun no_free_pair :: "heap_block list \<Rightarrow> bool" where
  "no_free_pair (b # c # bs) \<longleftrightarrow> \<not> (hb_free b \<and> hb_free c) \<and> no_free_pair (c # bs)"
| "no_free_pair _ \<longleftrightarrow> True"

lemma coalesce_head: "bs \<noteq> [] \<Longrightarrow> \<exists>c cs. heap_coalesce bs = c # cs \<and> hb_free c = hb_free (hd bs) \<and> hb_addr c = hb_addr (hd bs)"
  by (induction bs rule: heap_coalesce.induct) auto

lemma coalesce_no_free_pair: "no_free_pair (heap_coalesce bs)"
proof (induction bs rule: heap_coalesce.induct)
  case (3 b c bs)
  show ?case
  proof (cases "hb_free b \<and> hb_free c")
    case False
    moreover obtain d ds where "heap_coalesce (c # bs) = d # ds" "hb_free d = hb_free c"
      using coalesce_head [of "c # bs"] by auto
    ultimately show ?thesis using 3(2) by auto
  qed (use 3(1) in simp)
qed simp_all

lemma coalesce_spec:
  "blocks_ok lo bs hi \<Longrightarrow> hi < 2 ^ 32 \<Longrightarrow> blocks_ok lo (heap_coalesce bs) hi \<and> live (heap_coalesce bs) = live bs"
proof (induction bs arbitrary: lo rule: heap_coalesce.induct)
  case (3 b c bs)
  let ?mb = "unat (hb_addr b) + 16 + unat (hb_size b)" and ?mc = "unat (hb_addr c) + 16 + unat (hb_size c)"
  have m: "?mb \<le> unat (hb_addr c)" "blocks_ok ?mc bs hi" "?mc \<le> hi"
    using 3(3) blocks_ok_le by auto
  show ?case
  proof (cases "hb_free b \<and> hb_free c")
    case True
    let ?d = "b\<lparr>hb_size := hb_size b + (HEAP_HDR + hb_size c)\<rparr>"
    have "unat (hb_size ?d) = unat (hb_size b) + 16 + unat (hb_size c)"
      using m 3(4) by (simp add: HEAP_HDR_def unat_word_ariths)
    then have "blocks_ok (unat (hb_addr ?d) + 16 + unat (hb_size ?d)) bs hi"
      using m by (intro blocks_ok_mono [OF m(2)]) simp_all
    then have "blocks_ok lo (?d # bs) hi" using 3(3) by simp
    from 3(1) [OF True this 3(4)] True show ?thesis by simp
  next
    case False
    have "blocks_ok ?mb (c # bs) hi" using 3(3) by simp
    from 3(2) [OF False this 3(4)] False 3(3) show ?thesis by simp
  qed
qed simp_all

lemma heap_take_spec:
  assumes inv: "heap_inv s" and i: "find_idx (heap_fits sz) (hp_blocks s) = Some i" and sz: "unat sz + 48 < 2 ^ 32"
    and t: "heap_take i sz s = (p, s')"
  shows "heap_inv s' \<and> hp_mem s' = hp_mem s \<and> leak_table s' = leak_table s \<and>
    (\<exists>xs ys n. live (hp_blocks s) = xs @ ys \<and> live (hp_blocks s') = xs @ (p, n) # ys \<and> sz \<le> n \<and> p \<noteq> 0)"
proof -
  define b where "b = hp_blocks s ! i"
  define xs where "xs = take i (hp_blocks s)"
  define ys where "ys = drop (Suc i) (hp_blocks s)"
  have f: "hb_free b" "sz \<le> hb_size b" and il: "i < length (hp_blocks s)"
    using find_idx_SomeD [OF i] by (simp_all add: heap_fits_def b_def)
  have bs: "hp_blocks s = xs @ b # ys" unfolding xs_def ys_def b_def by (rule id_take_nth_drop [OF il])
  let ?hi = "unat (hp_brk s)" and ?e = "unat (hb_addr b) + 16 + unat (hb_size b)"
  obtain m where m: "blocks_ok (unat KHEAP_START) xs m" "m \<le> unat (hb_addr b)" "hb_magic b = HEAP_MAGIC_FREE"
    "blocks_ok ?e ys ?hi" using inv f(1) by (auto simp: heap_inv_def bs blocks_ok_append)
  have e: "?e \<le> ?hi" "?hi < 2 ^ 32" using blocks_ok_le [OF m(4)] by simp_all
  have "unat (hb_addr b) + 16 < 4294967296" using e(1) unat_u32_less [of "hp_brk s"] by linarith
  then have a: "unat (hb_addr b + HEAP_HDR) = unat (hb_addr b) + 16" by (simp add: HEAP_HDR_def unat_word_ariths)
  define blk where "blk = (hd (heap_split b sz))\<lparr>hb_free := False, hb_magic := HEAP_MAGIC_USED\<rparr>"
  define rest where "rest = tl (heap_split b sz)"
  have split: "hb_addr blk = hb_addr b" "sz \<le> hb_size blk" "unat (hb_size blk) \<le> unat (hb_size b)"
    "blocks_ok (unat (hb_addr b)) (blk # rest) ?e" "live rest = []"
  proof -
    have z: "unat (sz + HEAP_HDR + HEAP_MIN_SPLIT) = unat sz + 48"
      using sz by (simp add: HEAP_HDR_def HEAP_MIN_SPLIT_def unat_word_ariths)
    have "hb_addr blk = hb_addr b \<and> sz \<le> hb_size blk \<and> unat (hb_size blk) \<le> unat (hb_size b) \<and>
      blocks_ok (unat (hb_addr b)) (blk # rest) ?e \<and> live rest = []"
    proof (cases "hb_size b < sz + HEAP_HDR + HEAP_MIN_SPLIT")
      case True
      then show ?thesis using f by (simp add: blk_def rest_def heap_split_def)
    next
      case False
      then have big: "unat sz + 48 \<le> unat (hb_size b)" using z by (simp add: word_less_nat_alt)
      have "unat (hb_addr b) + 16 + unat sz < 4294967296" using big e(1) unat_u32_less [of "hp_brk s"] by linarith
      then have "unat (hb_addr b + HEAP_HDR + sz) = unat (hb_addr b) + 16 + unat sz"
        using a by (simp add: unat_word_ariths)
      moreover have "unat (hb_size b - sz - HEAP_HDR) = unat (hb_size b) - unat sz - 16"
      proof -
        have s1: "unat (hb_size b - sz) = unat (hb_size b) - unat sz" using f(2) by (simp add: unat_sub)
        then have "HEAP_HDR \<le> hb_size b - sz" using big by (simp add: HEAP_HDR_def word_le_nat_alt)
        then show ?thesis using s1 by (simp add: unat_sub) (simp add: HEAP_HDR_def)
      qed
      ultimately show ?thesis using False f big by (simp add: blk_def rest_def heap_split_def word_le_nat_alt)
    qed
    then show "hb_addr blk = hb_addr b" "sz \<le> hb_size blk" "unat (hb_size blk) \<le> unat (hb_size b)"
      "blocks_ok (unat (hb_addr b)) (blk # rest) ?e" "live rest = []" by blast+
  qed
  have blk: "\<not> hb_free blk" by (simp add: blk_def)
  have s': "s' = s\<lparr>hp_blocks := xs @ blk # rest @ ys, hp_used := hp_used s + hb_size blk\<rparr>" "p = hb_addr b + HEAP_HDR"
    using t split(1) by (auto simp: heap_take_def Let_def xs_def ys_def b_def blk_def rest_def)
  have lv: "live (hp_blocks s) = live xs @ live ys" using f by (simp add: bs)
  have lv': "live (hp_blocks s') = live xs @ (p, hb_size blk) # live ys" using blk split(1,5) by (simp add: s')
  have ok: "blocks_ok (unat KHEAP_START) (hp_blocks s') ?hi"
  proof -
    have "blocks_ok m (blk # rest @ ys) ?hi"
      using split(4) m(2,4) blocks_ok_append [of "unat (hb_addr b)" "blk # rest" ys ?hi] by auto
    then show ?thesis using m(1) blocks_ok_append by (auto simp: s')
  qed
  have sum: "sum_list (map (unat \<circ> snd) (live (hp_blocks s'))) = unat (hp_used s) + unat (hb_size blk)"
    using inv by (simp add: heap_inv_def lv lv')
  moreover have "sum_list (map (unat \<circ> snd) (live (hp_blocks s'))) < 2 ^ 32"
    using live_sum [OF ok] e(2) by linarith
  ultimately have "unat (hp_used s') = sum_list (map (unat \<circ> snd) (live (hp_blocks s')))"
    by (simp add: s' unat_word_ariths)
  then have "heap_inv s'" using inv ok by (simp add: heap_inv_def) (simp add: s')
  moreover have "p \<noteq> 0" using a s'(2) by auto
  moreover have "hp_mem s' = hp_mem s" "leak_table s' = leak_table s" by (simp_all add: s'(1))
  ultimately show ?thesis using lv lv' split(2) by blast
qed

lemma heap_grow_pages_spec:
  "heap_inv s \<Longrightarrow> heap_grow_pages n s = (r, s') \<Longrightarrow>
   heap_inv s' \<and> hp_blocks s' = hp_blocks s \<and> hp_used s' = hp_used s \<and> hp_mem s' = hp_mem s \<and>
   leak_table s' = leak_table s \<and> (r \<longrightarrow> unat (hp_brk s') = unat (hp_brk s) + n * 4096)"
proof (induction n arbitrary: s)
  case (Suc n)
  obtain phys pm where al: "pmm_alloc_page (pg_pmm (hp_pg s)) = (phys, pm)" by fastforce
  show ?case
  proof (cases "hp_brk s + 4096 > KHEAP_MAX \<or> phys = 0")
    case True
    then show ?thesis using Suc.prems al by (auto simp: heap_inv_def Let_def split: if_splits)
  next
    case False
    let ?s = "s\<lparr>hp_pg := snd (paging_map_page (hp_brk s) phys (PDE_PRESENT OR PDE_WRITABLE) ((hp_pg s)\<lparr>pg_pmm := pm\<rparr>)),
               hp_brk := hp_brk s + 4096, hp_total := hp_total s + 4096\<rparr>"
    have g: "heap_grow_pages n ?s = (r, s')" using Suc.prems(2) False al by (simp add: Let_def)
    have "unat (hp_brk s) \<le> unat KHEAP_MAX" using Suc.prems(1) by (simp add: heap_inv_def word_le_nat_alt)
    then have b: "unat (hp_brk s + 4096) = unat (hp_brk s) + 4096" by (simp add: KHEAP_MAX_def unat_word_ariths)
    have "blocks_ok (unat KHEAP_START) (hp_blocks s) (unat (hp_brk s + 4096))"
      unfolding b using Suc.prems(1) blocks_ok_mono [of _ _ _ _ "unat (hp_brk s) + 4096"] by (auto simp: heap_inv_def)
    moreover have "KHEAP_START \<le> hp_brk s + 4096" using Suc.prems(1) b by (simp add: heap_inv_def word_le_nat_alt)
    moreover have "hp_brk s + 4096 \<le> KHEAP_MAX" using False by (simp add: not_less)
    ultimately have "heap_inv ?s" using Suc.prems(1) by (simp add: heap_inv_def)
    from Suc.IH [OF this g] b show ?thesis by simp
  qed
qed simp

lemma heap_inv_extend:
  assumes inv: "heap_inv s" "heap_inv s1" and same: "hp_blocks s1 = hp_blocks s" "hp_used s1 = hp_used s"
    and brk: "unat (hp_brk s1) = unat (hp_brk s) + n * 4096" "0 < n"
  shows "heap_inv (s1\<lparr>hp_blocks := hp_blocks s1 @ [\<lparr>hb_addr = hp_brk s, hb_magic = HEAP_MAGIC_FREE,
           hb_size = (hp_brk s1 - hp_brk s) - HEAP_HDR, hb_free = True\<rparr>]\<rparr>)"
proof -
  have le: "hp_brk s \<le> hp_brk s1" using brk by (simp add: word_le_nat_alt)
  have d: "unat (hp_brk s1 - hp_brk s) = n * 4096" using le brk by (simp add: unat_sub)
  then have "HEAP_HDR \<le> hp_brk s1 - hp_brk s" using brk(2) by (simp add: word_le_nat_alt HEAP_HDR_def)
  then have u: "unat (hp_brk s1 - hp_brk s - HEAP_HDR) = n * 4096 - 16"
    using d by (simp add: unat_sub) (simp add: HEAP_HDR_def)
  have "blocks_ok (unat (hp_brk s)) [\<lparr>hb_addr = hp_brk s, hb_magic = HEAP_MAGIC_FREE,
           hb_size = (hp_brk s1 - hp_brk s) - HEAP_HDR, hb_free = True\<rparr>] (unat (hp_brk s1))"
    using u brk by simp
  then have "blocks_ok (unat KHEAP_START) (hp_blocks s1 @ [\<lparr>hb_addr = hp_brk s, hb_magic = HEAP_MAGIC_FREE,
           hb_size = (hp_brk s1 - hp_brk s) - HEAP_HDR, hb_free = True\<rparr>]) (unat (hp_brk s1))"
    using inv(1) same blocks_ok_append by (auto simp: heap_inv_def)
  then show ?thesis using inv(2) by (simp add: heap_inv_def)
qed

lemma heap_alloc_raw_spec:
  "heap_inv s \<Longrightarrow> unat sz0 + 7 < 2 ^ 32 \<Longrightarrow> unat (align_up sz0 8) + 8192 < 2 ^ 32 \<Longrightarrow>
   heap_alloc_raw sz0 s = (p, s') \<Longrightarrow>
   heap_inv s' \<and> hp_mem s' = hp_mem s \<and> leak_table s' = leak_table s \<and>
   (if p = 0 then live (hp_blocks s') = live (hp_blocks s)
    else \<exists>xs ys n. live (hp_blocks s) = xs @ ys \<and> live (hp_blocks s') = xs @ (p, n) # ys \<and> sz0 \<le> n)"
proof (induction sz0 s rule: heap_alloc_raw.induct)
  case (1 sz0 s)
  note inv = 1(2) and run = 1(5)
  show ?case
  proof (cases "sz0 = 0")
    case True
    then show ?thesis using run inv by (subst (asm) heap_alloc_raw.simps) simp
  next
    case nz: False
    define sz where "sz = align_up sz0 8"
    have sz: "unat sz0 \<le> unat sz"
      using unat_align_up_8 [OF 1(3)] div_mult_mod_eq [of "unat sz0 + 7" 8] mod_less_divisor [of 8 "unat sz0 + 7"]
      unfolding sz_def by linarith
    have bound: "unat sz + 8192 < 2 ^ 32" using 1(4) by (simp only: sz_def)
    have idem: "align_up sz 8 = sz" unfolding sz_def by (rule align_up_8_idem)
    have weaken: "\<exists>xs ys n. A = xs @ ys \<and> B = xs @ (p, n) # ys \<and> sz0 \<le> n"
      if "\<exists>xs ys n. A = xs @ ys \<and> B = xs @ (p, n) # ys \<and> sz \<le> n" for A B :: "(u32 \<times> u32) list"
      using that sz order_trans unfolding word_le_nat_alt by blast
    show ?thesis
    proof (cases "find_idx (heap_fits sz) (hp_blocks s)")
      case (Some i)
      then have t: "heap_take i sz s = (p, s')" using run nz by (subst (asm) heap_alloc_raw.simps) (simp add: sz_def)
      have "unat sz + 48 < 2 ^ 32" using bound by simp
      from heap_take_spec [OF inv Some this t]
      have keep: "heap_inv s'" "hp_mem s' = hp_mem s" "leak_table s' = leak_table s" "p \<noteq> 0"
        and ex: "\<exists>xs ys n. live (hp_blocks s) = xs @ ys \<and> live (hp_blocks s') = xs @ (p, n) # ys \<and> sz \<le> n"
        by blast+
      with weaken [OF ex] show ?thesis by simp
    next
      case None
      define gs where "gs = (if HEAP_HDR + sz < 4096 then 4096 else HEAP_HDR + sz)"
      have hs: "unat (HEAP_HDR + sz) = 16 + unat sz" using sz bound by (simp add: HEAP_HDR_def unat_word_ariths)
      then have gsu: "4096 \<le> unat gs" "unat gs + 4095 < 2 ^ 32"
        using sz bound by (auto simp: gs_def word_less_nat_alt)
      obtain ok s1 where g: "heap_grow gs s = (ok, s1)" by fastforce
      have gp: "heap_grow_pages (unat ((gs + 4096 - 1) div 4096)) s = (ok, s1)" using g by (simp add: heap_grow_def)
      have np: "unat ((gs + 4096 - 1) div 4096) = (unat gs + 4095) div 4096"
        using gsu by (simp add: unat_div unat_word_ariths)
      note grow = heap_grow_pages_spec [OF inv gp]
      let ?s2 = "s1\<lparr>hp_blocks := hp_blocks s1 @ [\<lparr>hb_addr = hp_brk s, hb_magic = HEAP_MAGIC_FREE,
           hb_size = (hp_brk s1 - hp_brk s) - HEAP_HDR, hb_free = True\<rparr>]\<rparr>"
      have unf: "(p, s') = (if ok then heap_alloc_raw sz ?s2 else (0, s1))"
        using run nz None g by (subst (asm) heap_alloc_raw.simps) (simp add: sz_def [symmetric] gs_def [symmetric] Let_def split: if_splits)
      show ?thesis
      proof (cases ok)
        case False
        then show ?thesis using unf grow by simp
      next
        case True
        have "heap_inv ?s2"
          by (rule heap_inv_extend [OF inv, of s1 "(unat gs + 4095) div 4096"]) (use grow np True gsu in auto)
        moreover have "unat sz + 7 < 2 ^ 32" "unat (align_up sz 8) + 8192 < 2 ^ 32" using bound idem by simp_all
        moreover have "heap_alloc_raw sz ?s2 = (p, s')" using unf True by simp
        ultimately have IH: "heap_inv s' \<and> hp_mem s' = hp_mem ?s2 \<and> leak_table s' = leak_table ?s2 \<and>
          (if p = 0 then live (hp_blocks s') = live (hp_blocks ?s2)
           else \<exists>xs ys n. live (hp_blocks ?s2) = xs @ ys \<and> live (hp_blocks s') = xs @ (p, n) # ys \<and> sz \<le> n)"
          using 1(1) [OF nz sz_def None refl gs_def refl g [symmetric] refl] True by blast
        have "live (hp_blocks ?s2) = live (hp_blocks s)" using grow by simp
        with IH grow weaken show ?thesis by (auto split: if_splits)
      qed
    qed
  qed
qed

lemma blocks_ok_addr:
  "blocks_ok lo bs hi \<Longrightarrow> sorted_wrt (\<lambda>b c. unat (hb_addr b) < unat (hb_addr c)) bs \<and> (\<forall>b \<in> set bs. lo \<le> unat (hb_addr b))"
proof (induction bs arbitrary: lo)
  case (Cons b bs)
  from Cons.IH [of "unat (hb_addr b) + 16 + unat (hb_size b)"] Cons.prems show ?case by fastforce
qed simp

lemma find_block:
  assumes "blocks_ok lo bs hi" "i < length bs"
  shows "find_idx (\<lambda>b. hb_addr b = hb_addr (bs ! i)) bs = Some i"
proof (rule find_idx_unique [OF assms(2)])
  fix j assume j: "j < length bs" "hb_addr (bs ! j) = hb_addr (bs ! i)"
  have "sorted_wrt (\<lambda>b c. unat (hb_addr b) < unat (hb_addr c)) bs" using blocks_ok_addr [OF assms(1)] by blast
  then show "j = i" using j assms(2) by (metis linorder_neqE_nat nat_less_le sorted_wrt_iff_nth_less)
qed simp

lemma live_block:
  assumes "(p, n) \<in> set (live bs)"
  obtains i where "i < length bs" "\<not> hb_free (bs ! i)" "p = hb_addr (bs ! i) + HEAP_HDR" "n = hb_size (bs ! i)"
  using assms by (auto simp: live_def in_set_conv_nth filter_set)

text \<open>Reading the headers.\<close>

definition in_header :: "heap_block \<Rightarrow> u32 \<Rightarrow> bool" where
  "in_header b a \<longleftrightarrow> unat (a - hb_addr b) < 16"

definition headers_apart :: "heap_block list \<Rightarrow> bool" where
  "headers_apart bs = sorted_wrt (\<lambda>b c. \<forall>a. \<not> (in_header b a \<and> in_header c a)) bs"

lemma in_header_same [simp]: "in_header (b\<lparr>hb_size := n\<rparr>) a = in_header b a"
  by (simp add: in_header_def)

lemma put_header_outside: "\<not> in_header b a \<Longrightarrow> put_header b nx m a = m a"
proof -
  assume "\<not> in_header b a"
  then have "a \<noteq> hb_addr b + of_nat k" if "k < 16" for k
    using that by (auto simp: in_header_def unat_of_nat)
  from this [of 0] this [of 1] this [of 2] this [of 3] this [of 4] this [of 5] this [of 6] this [of 7] this [of 8]
    this [of 12] this [of 13] this [of 14] this [of 15]
  show ?thesis by (simp add: put_header_def store32_def add.assoc)
qed

lemma in_header_I: "k < 16 \<Longrightarrow> in_header b (hb_addr b + of_nat k)"
  by (simp add: in_header_def unat_of_nat)

lemma load32_put_header:
  "load32 (put_header b nx m) (hb_addr b) = hb_magic b" "load32 (put_header b nx m) (hb_addr b + 4) = hb_size b"
proof -
  show "load32 (put_header b nx m) (hb_addr b) = hb_magic b" by (simp add: put_header_def)
  have "load32 (store32 m' (hb_addr b) v) (hb_addr b + 4) = load32 m' (hb_addr b + 4)" for m' v
    by (simp add: load32_def store32_def add.assoc)
  then show "load32 (put_header b nx m) (hb_addr b + 4) = hb_size b" by (simp add: put_header_def)
qed

lemma load32_header_cong:
  assumes "\<And>a. in_header b a \<Longrightarrow> m a = m' a"
  shows "load32 m (hb_addr b) = load32 m' (hb_addr b)" "load32 m (hb_addr b + 4) = load32 m' (hb_addr b + 4)"
proof -
  have "m (hb_addr b + of_nat k) = m' (hb_addr b + of_nat k)" if "k < 16" for k using assms in_header_I [OF that] by blast
  from this [of 0] this [of 1] this [of 2] this [of 3] this [of 4] this [of 5] this [of 6] this [of 7]
  show "load32 m (hb_addr b) = load32 m' (hb_addr b)" "load32 m (hb_addr b + 4) = load32 m' (hb_addr b + 4)"
    by (simp_all add: load32_def add.assoc)
qed

lemma put_headers_outside: "(\<And>b. b \<in> set bs \<Longrightarrow> \<not> in_header b a) \<Longrightarrow> put_headers bs m a = m a"
  by (induction bs) (simp_all add: put_header_outside)

lemma stale_headers_outside:
  assumes "\<And>b. b \<in> set bs \<Longrightarrow> \<not> in_header b a"
  shows "stale_headers bs m a = m a"
proof -
  from assms have "\<forall>b \<in> set bs. \<not> in_header b a" by blast
  then show ?thesis by (induction bs m rule: stale_headers.induct) (simp_all add: put_header_outside)
qed

lemma coalesce_addrs: "b \<in> set (heap_coalesce bs) \<Longrightarrow> \<exists>c \<in> set bs. hb_addr c = hb_addr b"
  by (induction bs rule: heap_coalesce.induct) (auto split: if_splits)

lemma headers_apart_Cons:
  "headers_apart (b # bs) \<longleftrightarrow> headers_apart bs \<and> (\<forall>c \<in> set bs. \<forall>a. in_header c a \<longrightarrow> \<not> in_header b a)"
  by (auto simp: headers_apart_def)

text \<open>Each header reads as the block says, before and after merging.\<close>

lemma put_headers_read:
  "headers_apart bs \<Longrightarrow> b \<in> set bs \<Longrightarrow>
     load32 (put_headers bs m) (hb_addr b) = hb_magic b \<and> load32 (put_headers bs m) (hb_addr b + 4) = hb_size b"
proof (induction bs)
  case (Cons c bs)
  show ?case
  proof (cases "b = c")
    case False
    then have "put_headers (c # bs) m a = put_headers bs m a" if "in_header b a" for a
      using Cons.prems that by (simp add: headers_apart_Cons put_header_outside)
    then show ?thesis
      using load32_header_cong [of b "put_headers (c # bs) m" "put_headers bs m"] Cons False by (simp add: headers_apart_Cons)
  qed (simp add: load32_put_header)
qed simp

lemma coalesce_read:
  "headers_apart bs \<Longrightarrow> b \<in> set bs \<Longrightarrow> load32 (put_headers (heap_coalesce bs) (stale_headers bs m)) (hb_addr b) = hb_magic b"
proof (induction bs m arbitrary: b rule: stale_headers.induct)
  case (3 c d bs m)
  show ?case
  proof (cases "hb_free c \<and> hb_free d")
    case True
    let ?c = "c\<lparr>hb_size := hb_size c + (HEAP_HDR + hb_size d)\<rparr>" and ?m = "put_header d (next_addr bs) m"
    have h: "in_header ?c a = in_header c a" for a by (simp add: in_header_def)
    have ap: "headers_apart (?c # bs)" using 3(3) by (simp add: headers_apart_Cons h)
    note IH = 3(1) [OF True ap]
    have eq: "heap_coalesce (c # d # bs) = heap_coalesce (?c # bs)" "stale_headers (c # d # bs) m = stale_headers (?c # bs) ?m"
      using True by simp_all
    consider "b = c" | "b = d" "b \<noteq> c" | "b \<in> set bs" using 3(4) by auto
    then show ?thesis
    proof cases
      case 1
      then show ?thesis unfolding eq using IH [of ?c] by simp
    next
      case 2
      have out: "\<not> in_header x a" if "in_header d a" "x \<in> set (?c # bs)" for x a
        using 3(3) that h by (auto simp: headers_apart_Cons)
      have "put_headers (heap_coalesce (?c # bs)) (stale_headers (?c # bs) ?m) a = ?m a" if "in_header d a" for a
      proof -
        have "\<not> in_header x a" if "x \<in> set (heap_coalesce (?c # bs))" for x
          using coalesce_addrs [OF that] out [OF \<open>in_header d a\<close>] by (metis in_header_def)
        then have "put_headers (heap_coalesce (?c # bs)) (stale_headers (?c # bs) ?m) a = stale_headers (?c # bs) ?m a"
          by (rule put_headers_outside)
        also have "\<dots> = ?m a" by (rule stale_headers_outside) (rule out [OF that])
        finally show ?thesis .
      qed
      from load32_header_cong(1) [OF this] show ?thesis unfolding eq 2 by (simp add: load32_put_header)
    next
      case 3
      then show ?thesis unfolding eq by (intro IH) simp
    qed
  next
    case False
    let ?L = "put_headers (heap_coalesce (d # bs)) (stale_headers (d # bs) m)"
    have ap: "headers_apart (d # bs)" using 3(3) by (simp add: headers_apart_Cons)
    have eq: "put_headers (heap_coalesce (c # d # bs)) (stale_headers (c # d # bs) m) =
        put_header c (next_addr (heap_coalesce (d # bs))) ?L" using False by auto
    show ?thesis
    proof (cases "b = c")
      case True
      then show ?thesis unfolding eq by (simp add: load32_put_header)
    next
      case b: False
      then have "put_header c nx ?L a = ?L a" if "in_header b a" for a nx
        using 3(3,4) that by (intro put_header_outside) (auto simp: headers_apart_Cons)
      from load32_header_cong(1) [OF this] show ?thesis unfolding eq using 3(2) [OF False ap] b 3(4) by simp
    qed
  qed
qed (simp_all add: load32_put_header)

text \<open>Headers of blocks in order are apart from each other and from the payloads.\<close>

lemma blocks_ok_order:
  "blocks_ok lo bs hi \<Longrightarrow> sorted_wrt (\<lambda>b c. unat (hb_addr b) + 16 + unat (hb_size b) \<le> unat (hb_addr c)) bs \<and>
     (\<forall>b \<in> set bs. lo \<le> unat (hb_addr b) \<and> unat (hb_addr b) + 16 + unat (hb_size b) \<le> hi)"
proof (induction bs arbitrary: lo)
  case (Cons b bs)
  let ?m = "unat (hb_addr b) + 16 + unat (hb_size b)"
  have "blocks_ok ?m bs hi" "lo \<le> unat (hb_addr b)" using Cons.prems by auto
  with Cons.IH [of ?m] blocks_ok_le [of ?m bs hi] show ?case by fastforce
qed simp

lemma in_header_iff:
  assumes "unat (hb_addr b) + 16 \<le> 2 ^ 32"
  shows "in_header b a \<longleftrightarrow> unat (hb_addr b) \<le> unat a \<and> unat a < unat (hb_addr b) + 16"
proof -
  have "unat (a - hb_addr b) = (if unat (hb_addr b) \<le> unat a then unat a - unat (hb_addr b) else unat a + 2 ^ 32 - unat (hb_addr b))"
    by (simp add: unat_sub_if')
  then show ?thesis using assms unfolding in_header_def by auto
qed

lemma blocks_ok_headers_apart:
  assumes "blocks_ok lo bs hi" "hi < 2 ^ 32"
  shows "headers_apart bs"
  unfolding headers_apart_def
proof (rule sorted_wrt_mono_rel [OF _ blocks_ok_order [OF assms(1), THEN conjunct1]])
  fix b c assume bc: "b \<in> set bs" "c \<in> set bs" "unat (hb_addr b) + 16 + unat (hb_size b) \<le> unat (hb_addr c)"
  have "unat (hb_addr b) + 16 \<le> 2 ^ 32" "unat (hb_addr c) + 16 \<le> 2 ^ 32"
    using blocks_ok_order [OF assms(1)] bc(1,2) assms(2) by fastforce+
  then show "\<forall>a. \<not> (in_header b a \<and> in_header c a)" using bc(3) by (auto simp: in_header_iff)
qed

lemma payload_no_header:
  assumes "blocks_ok lo bs hi" "hi < 2 ^ 32" "(p, n) \<in> set (live bs)" "i < unat n" "c \<in> set bs"
  shows "\<not> in_header c (p + of_nat i)"
proof -
  obtain k where k: "k < length bs" "p = hb_addr (bs ! k) + HEAP_HDR" "n = hb_size (bs ! k)" using live_block [OF assms(3)] by blast
  obtain j where j: "j < length bs" "c = bs ! j" using assms(5) by (auto simp: in_set_conv_nth)
  let ?a = "\<lambda>i. unat (hb_addr (bs ! i))" and ?e = "\<lambda>i. unat (hb_addr (bs ! i)) + 16 + unat (hb_size (bs ! i))"
  note o = blocks_ok_order [OF assms(1)]
  have le: "?e x \<le> hi" if "x < length bs" for x using o nth_mem [OF that] by blast
  have pi: "unat (p + of_nat i) = ?a k + 16 + i"
    using le [OF k(1)] assms(2,4) k(2,3) by (simp add: HEAP_HDR_def unat_word_ariths unat_of_nat)
  have "?e x \<le> ?a y" if "x < y" "y < length bs" for x y
    using o that by (auto simp: sorted_wrt_iff_nth_less)
  then have "j = k \<or> ?e k \<le> ?a j \<or> ?e j \<le> ?a k" using k(1) j(1) by (metis linorder_neqE_nat)
  then show ?thesis using pi assms(4) k(3) le [OF j(1)] assms(2) j(2) by (subst in_header_iff) auto
qed

lemma heap_free_raw_live:
  assumes inv: "heap_inv s" and l: "(p, n) \<in> set (live (hp_blocks s))"
  obtains xs ys s' where "heap_free_raw p s = Inr s'" "heap_inv s'" "live (hp_blocks s) = xs @ (p, n) # ys"
    "live (hp_blocks s') = xs @ ys" "no_free_pair (hp_blocks s')"
    "\<forall>(q, m) \<in> set (live (hp_blocks s)). \<forall>i < unat m. hp_mem s' (q + of_nat i) = hp_mem s (q + of_nat i)"
    "load32 (heap_memory s') (p - HEAP_HDR) = HEAP_MAGIC_FREE" "leak_table s' = leak_table s"
proof -
  obtain i where i: "i < length (hp_blocks s)" "\<not> hb_free (hp_blocks s ! i)" "p = hb_addr (hp_blocks s ! i) + HEAP_HDR"
    "n = hb_size (hp_blocks s ! i)" using live_block [OF l] by blast
  define b where "b = hp_blocks s ! i"
  define xs where "xs = take i (hp_blocks s)"
  define ys where "ys = drop (Suc i) (hp_blocks s)"
  have bs: "hp_blocks s = xs @ b # ys" unfolding xs_def ys_def b_def by (rule id_take_nth_drop [OF i(1)])
  let ?hi = "unat (hp_brk s)"
  have ok: "blocks_ok (unat KHEAP_START) (hp_blocks s) ?hi" using inv by (simp add: heap_inv_def)
  obtain m where m: "blocks_ok (unat KHEAP_START) xs m" "blocks_ok m (b # ys) ?hi"
    using ok unfolding bs blocks_ok_append by blast
  have mag: "hb_magic b = HEAP_MAGIC_USED" using m(2) i(2) by (simp add: b_def)
  have "unat (KHEAP_START) + 16 \<le> unat p" using blocks_ok_live [OF ok _ l] by simp
  then have pnz: "p \<noteq> 0" by auto
  have pb: "p - HEAP_HDR = hb_addr b" using i(3) by (simp add: b_def)
  have f: "find_idx (\<lambda>c. hb_addr c = p - HEAP_HDR) (hp_blocks s) = Some i"
    using find_block [OF ok i(1)] i(3) by simp
  have rd: "load32 (heap_memory s) (p - HEAP_HDR) = HEAP_MAGIC_USED"
    using put_headers_read [OF blocks_ok_headers_apart [OF ok], of b] mag by (simp add: heap_memory_def pb bs)
  let ?b = "b\<lparr>hb_free := True, hb_magic := HEAP_MAGIC_FREE\<rparr>"
  let ?bs = "xs @ ?b # ys"
  let ?s' = "s\<lparr>hp_blocks := heap_coalesce ?bs, hp_mem := stale_headers ?bs (hp_mem s), hp_used := hp_used s - hb_size b\<rparr>"
  have upd: "(hp_blocks s)[i := ?b] = ?bs"
    by (simp add: xs_def ys_def upd_conv_take_nth_drop i(1))
  have fr: "heap_free_raw p s = Inr ?s'"
    using pnz f rd upd by (simp add: heap_free_raw_def Let_def b_def)
  have "blocks_ok m (?b # ys) ?hi" using m(2) by simp
  then have ok': "blocks_ok (unat KHEAP_START) ?bs ?hi" using m(1) blocks_ok_append by blast
  note co = coalesce_spec [OF ok', simplified]
  have bp: "\<not> hb_free b" "p = hb_addr b + HEAP_HDR" "n = hb_size b" using i(2-4) unfolding b_def by blast+
  have lv: "live (hp_blocks s) = live xs @ (p, n) # live ys" unfolding bs using bp by simp
  have lv': "live (hp_blocks ?s') = live xs @ live ys" using co by simp
  have used: "unat (hp_used s) = sum_list (map (unat \<circ> snd) (live xs @ live ys)) + unat n"
    using inv by (simp add: heap_inv_def lv)
  then have "unat (hp_used s - n) = sum_list (map (unat \<circ> snd) (live xs @ live ys))"
    by (simp add: unat_sub word_le_nat_alt)
  then have inv': "heap_inv ?s'"
    using inv co i(4) lv' by (simp add: heap_inv_def b_def)
  have mem: "\<forall>(q, m) \<in> set (live (hp_blocks s)). \<forall>i < unat m. hp_mem ?s' (q + of_nat i) = hp_mem s (q + of_nat i)"
  proof -
    have "\<not> in_header c (q + of_nat k)" if "(q, l) \<in> set (live (hp_blocks s))" "k < unat l" "c \<in> set ?bs" for q l k c
    proof -
      have "\<exists>d \<in> set (hp_blocks s). hb_addr d = hb_addr c" using that(3) by (auto simp: bs)
      then obtain d where d: "d \<in> set (hp_blocks s)" "hb_addr d = hb_addr c" by blast
      have "\<not> in_header d (q + of_nat k)" by (rule payload_no_header [OF ok _ that(1,2) d(1)]) simp
      then show ?thesis by (simp add: in_header_def d(2))
    qed
    then show ?thesis by (auto intro!: stale_headers_outside)
  qed
  have "load32 (heap_memory ?s') (p - HEAP_HDR) = HEAP_MAGIC_FREE"
    using coalesce_read [OF blocks_ok_headers_apart [OF ok'], of ?b "hp_mem s"] by (simp add: heap_memory_def pb)
  from that [OF fr inv' lv lv' _ mem this] show thesis by (simp add: coalesce_no_free_pair)
qed

lemma heap_free_raw_live_ex: "heap_inv s \<Longrightarrow> (p, n) \<in> set (live (hp_blocks s)) \<Longrightarrow> \<exists>s'. heap_free_raw p s = Inr s'"
  by (rule heap_free_raw_live) blast+

lemma heap_free_raw_dead:
  assumes inv: "heap_inv s" and p: "p \<noteq> 0" "\<And>n. (p, n) \<notin> set (live (hp_blocks s))"
  shows "heap_free_raw p s = Inl (if load32 (heap_memory s) (p - HEAP_HDR) = HEAP_MAGIC_USED then Heap_corrupt else Heap_panic)"
proof (cases "find_idx (\<lambda>c. hb_addr c = p - HEAP_HDR) (hp_blocks s)")
  case (Some i)
  then have i: "i < length (hp_blocks s)" "hb_addr (hp_blocks s ! i) = p - HEAP_HDR" using find_idx_SomeD by fast+
  have "hb_free (hp_blocks s ! i)"
  proof (rule ccontr)
    assume "\<not> hb_free (hp_blocks s ! i)"
    then have "(hb_addr (hp_blocks s ! i) + HEAP_HDR, hb_size (hp_blocks s ! i)) \<in> set (live (hp_blocks s))"
      using i(1) by (auto simp: live_def)
    then show False using p(2) i(2) by simp
  qed
  moreover have ok: "blocks_ok (unat KHEAP_START) (hp_blocks s) (unat (hp_brk s))" using inv by (simp add: heap_inv_def)
  then have "\<exists>m. blocks_ok m (hp_blocks s ! i # drop (Suc i) (hp_blocks s)) (unat (hp_brk s))"
    using id_take_nth_drop [OF i(1)] blocks_ok_append by metis
  ultimately have "hb_magic (hp_blocks s ! i) = HEAP_MAGIC_FREE" by auto
  then have "load32 (heap_memory s) (p - HEAP_HDR) = HEAP_MAGIC_FREE"
    using put_headers_read [OF blocks_ok_headers_apart [OF ok], of "hp_blocks s ! i"] i by (simp add: heap_memory_def)
  then show ?thesis using p(1) by (simp add: heap_free_raw_def HEAP_MAGIC_FREE_def HEAP_MAGIC_USED_def)
qed (use p in \<open>simp add: heap_free_raw_def\<close>)

section \<open>Properties\<close>

lemma live_split_apart:
  assumes ok: "blocks_ok lo bs hi" "hi < 2 ^ 32" and l: "live bs = xs @ (p, n) # ys" and q: "(q, m) \<in> set (xs @ ys)"
  shows "apart (p, n) (q, m)"
  using blocks_ok_apart [OF ok] q unfolding l by (auto simp: sorted_wrt_append apart_def)

lemma kmalloc_spec:
  assumes "heap_inv s" "unat sz + 8200 < 2 ^ 32" "kmalloc sz s = (p, s')"
  shows "heap_inv s' \<and> hp_mem s' = hp_mem s \<and>
    (if p = 0 then live (hp_blocks s') = live (hp_blocks s)
     else \<exists>n. sz \<le> n \<and> set (live (hp_blocks s')) = insert (p, n) (set (live (hp_blocks s))) \<and>
       unat KHEAP_START + 16 \<le> unat p \<and> unat p + unat n \<le> unat KHEAP_MAX \<and>
       (\<forall>(q, m) \<in> set (live (hp_blocks s)). apart (p, n) (q, m)))"
proof -
  have al: "unat sz + 7 < 2 ^ 32" "unat (align_up sz 8) + 8192 < 2 ^ 32"
  proof -
    show *: "unat sz + 7 < 2 ^ 32" using assms(2) by simp
    have "unat (align_up sz 8) \<le> unat sz + 7" using unat_align_up_8 [OF *] by simp
    then show "unat (align_up sz 8) + 8192 < 2 ^ 32" using assms(2) by linarith
  qed
  note spec = heap_alloc_raw_spec [OF assms(1) al assms(3) [unfolded kmalloc_def]]
  show ?thesis
  proof (cases "p = 0")
    case False
    then obtain xs ys n where l: "live (hp_blocks s) = xs @ ys" "live (hp_blocks s') = xs @ (p, n) # ys" "sz \<le> n"
      using spec by auto
    have ok: "blocks_ok (unat KHEAP_START) (hp_blocks s') (unat (hp_brk s'))" "unat (hp_brk s') \<le> unat KHEAP_MAX"
      using spec by (auto simp: heap_inv_def word_le_nat_alt)
    have b: "unat (hp_brk s') < 2 ^ 32" by simp
    have "unat KHEAP_START + 16 \<le> unat p \<and> unat p + unat n \<le> unat (hp_brk s')"
      by (rule blocks_ok_live [OF ok(1) b]) (simp add: l(2))
    moreover have "\<forall>(q, m) \<in> set (live (hp_blocks s)). apart (p, n) (q, m)"
      using live_split_apart [OF ok(1) b l(2)] l(1) by auto
    moreover have "set (live (hp_blocks s')) = insert (p, n) (set (live (hp_blocks s)))" using l by auto
    ultimately show ?thesis using spec False l(3) ok(2) by (intro conjI) auto
  qed (use spec in simp)
qed

text \<open>C1: for a size up to 8200 bytes below 4 GB (above that the rounding and the growing overflow), \<open>kmalloc\<close> either returns 0 and leaves the allocations as they are, or returns a new payload of at
  least the size asked for that lies inside the heap and overlaps no allocation; the other allocations
  and all payload bytes are unchanged.\<close>

theorem kmalloc_correct:
  assumes "heap_inv s" "unat sz + 8200 < 2 ^ 32" "kmalloc sz s = (p, s')"
  shows "heap_inv s' \<and> hp_mem s' = hp_mem s \<and>
    (if p = 0 then live (hp_blocks s') = live (hp_blocks s)
     else \<exists>n. sz \<le> n \<and> set (live (hp_blocks s')) = insert (p, n) (set (live (hp_blocks s))) \<and>
       unat KHEAP_START + 16 \<le> unat p \<and> unat p + unat n \<le> unat KHEAP_MAX \<and>
       (\<forall>(q, m) \<in> set (live (hp_blocks s)). apart (p, n) (q, m)))"
  by (rule kmalloc_spec [OF assms])

text \<open>C17: freeing a live payload removes exactly that allocation, keeps the bytes of all payloads and leaves no two
  neighbouring free blocks, and freeing it a second time panics, also when its block was merged into the one before. Freeing
  0 does nothing. Freeing any other pointer panics, unless the four bytes 16 before it, be they
  payload or a header, happen to be the magic of a used block: then the code takes them for a header
  and corrupts the heap.\<close>

theorem kfree_correct:
  assumes "heap_inv s"
  shows "if p = 0 then kfree p s = Inr s
    else case kfree p s of
      Inl e \<Rightarrow> p \<notin> fst ` set (live (hp_blocks s)) \<and> (e = Heap_panic \<longleftrightarrow> load32 (heap_memory s) (p - 16) \<noteq> 0xBEEFCAFE)
    | Inr s' \<Rightarrow> \<exists>n. (p, n) \<in> set (live (hp_blocks s)) \<and> heap_inv s' \<and>
        set (live (hp_blocks s')) = set (live (hp_blocks s)) - {(p, n)} \<and> no_free_pair (hp_blocks s') \<and>
        (\<forall>(q, m) \<in> set (live (hp_blocks s)). \<forall>i < unat m. hp_mem s' (q + of_nat i) = hp_mem s (q + of_nat i)) \<and>
        kfree p s' = Inl Heap_panic"
proof (cases "p = 0")
  case True
  then show ?thesis by (simp add: kfree_def heap_free_raw_def)
next
  case pz: False
  show ?thesis
  proof (cases "\<exists>n. (p, n) \<in> set (live (hp_blocks s))")
    case False
    then show ?thesis using heap_free_raw_dead [OF assms pz] pz
      by (auto simp: kfree_def HEAP_HDR_def HEAP_MAGIC_USED_def)
  next
    case True
    then obtain n where n: "(p, n) \<in> set (live (hp_blocks s))" by blast
    obtain xs ys s' where f: "heap_free_raw p s = Inr s'" "heap_inv s'" "live (hp_blocks s) = xs @ (p, n) # ys"
      "live (hp_blocks s') = xs @ ys" "no_free_pair (hp_blocks s')"
      "\<forall>(q, m) \<in> set (live (hp_blocks s)). \<forall>i < unat m. hp_mem s' (q + of_nat i) = hp_mem s (q + of_nat i)"
      "load32 (heap_memory s') (p - HEAP_HDR) = HEAP_MAGIC_FREE"
      by (rule heap_free_raw_live [OF assms(1) n])
    have s: "sorted_wrt (\<lambda>x y. unat (fst x) + unat (snd x) + 16 \<le> unat (fst y)) (xs @ (p, n) # ys)"
      using blocks_ok_apart [of "unat KHEAP_START" "hp_blocks s" "unat (hp_brk s)"] assms(1) by (simp add: heap_inv_def f(3))
    then have gone: "\<And>m. (p, m) \<notin> set (xs @ ys)" by (fastforce simp: sorted_wrt_append)
    then have "set (live (hp_blocks s')) = set (live (hp_blocks s)) - {(p, n)}" using f(3,4) by auto
    moreover have "heap_free_raw p s' = Inl Heap_panic"
      using heap_free_raw_dead [OF f(2) pz] gone f(4,7) by (simp add: HEAP_MAGIC_FREE_def HEAP_MAGIC_USED_def)
    ultimately show ?thesis using f(1,2,5,6) n pz by (auto simp: kfree_def)
  qed
qed

text \<open>A heap of one page at the start of the area: a used block of 32 bytes, and the free rest.\<close>

definition heap_example :: heap where
  "heap_example = \<lparr>hp_blocks = [\<lparr>hb_addr = 0xD0000000, hb_magic = HEAP_MAGIC_USED, hb_size = 32, hb_free = False\<rparr>,
      \<lparr>hb_addr = 0xD0000030, hb_magic = HEAP_MAGIC_FREE, hb_size = 4032, hb_free = True\<rparr>],
    hp_brk = 0xD0001000, hp_used = 32, hp_total = 4096, hp_pg = paging_example, hp_mem = (\<lambda>_. 0),
    leak_table = [], leak_count = 0\<rparr>"

lemma heap_example_inv: "heap_inv heap_example"
  by (simp add: heap_inv_def heap_example_def KHEAP_START_def KHEAP_MAX_def)

lemma heap_example_live: "live (hp_blocks heap_example) = [(0xD0000010, 32)]"
  by (simp add: heap_example_def HEAP_HDR_def)

lemma heap_example_alloc:
  "heap_alloc_raw 100 heap_example = heap_take 1 104 heap_example"
proof -
  have "align_up 100 8 = 104" by (simp add: align_up_def)
  then show ?thesis by (subst heap_alloc_raw.simps) (simp add: heap_example_def heap_fits_def)
qed

theorem kmalloc_correct_witness:
  "\<exists>n. 100 \<le> n \<and> set (live (hp_blocks (snd (kmalloc 100 heap_example)))) = {(0xD0000040, n), (0xD0000010, 32)}"
proof -
  have "fst (kmalloc 100 heap_example) = 0xD0000040"
    by (simp add: kmalloc_def heap_example_alloc) (simp add: heap_take_def heap_example_def heap_split_def HEAP_HDR_def HEAP_MIN_SPLIT_def)
  then show ?thesis
    using kmalloc_correct [OF heap_example_inv, of 100, OF _ surjective_pairing] by (simp add: heap_example_live) blast
qed

theorem kfree_correct_witness:
  "case kfree 0xD0000010 heap_example of Inl e \<Rightarrow> False
   | Inr s' \<Rightarrow> live (hp_blocks s') = [] \<and> kfree 0xD0000010 s' = Inl Heap_panic"
proof -
  obtain s1 where "heap_free_raw 0xD0000010 heap_example = Inr s1"
    using heap_free_raw_live_ex [OF heap_example_inv, of "0xD0000010" 32] by (auto simp: heap_example_live)
  then show ?thesis
    using kfree_correct [OF heap_example_inv, of "0xD0000010"] by (auto simp: heap_example_live kfree_def)
qed

lemma live_size:
  assumes "heap_inv s" "(p, n) \<in> set (live (hp_blocks s))"
  shows "load32 (heap_memory s) (p - HEAP_HDR + 4) = n"
    "i < unat n \<Longrightarrow> heap_memory s (p + of_nat i) = hp_mem s (p + of_nat i)"
proof -
  have ok: "blocks_ok (unat KHEAP_START) (hp_blocks s) (unat (hp_brk s))" using assms(1) by (simp add: heap_inv_def)
  obtain b where "b \<in> set (hp_blocks s)" "p = hb_addr b + HEAP_HDR" "n = hb_size b" using assms(2) by (auto simp: live_def)
  then show "load32 (heap_memory s) (p - HEAP_HDR + 4) = n"
    using put_headers_read [OF blocks_ok_headers_apart [OF ok]] by (simp add: heap_memory_def)
  show "i < unat n \<Longrightarrow> heap_memory s (p + of_nat i) = hp_mem s (p + of_nat i)"
    unfolding heap_memory_def by (intro put_headers_outside payload_no_header [OF ok _ assms(2)]) simp_all
qed

text \<open>Growing a live allocation through \<open>krealloc\<close> to a larger size, when it succeeds, moves it: the new
  payload starts with the bytes of the old one, and the old one is no longer allocated.\<close>

theorem krealloc_preserves:
  assumes "heap_inv s" "(p, n) \<in> set (live (hp_blocks s))" "n < sz" "unat sz + 8200 < 2 ^ 32"
    and "krealloc p sz s = Inr (q, s')" "q \<noteq> 0"
  shows "heap_inv s' \<and> (\<exists>m \<ge> sz. (q, m) \<in> set (live (hp_blocks s'))) \<and> (\<forall>m. (p, m) \<notin> set (live (hp_blocks s'))) \<and>
    (\<forall>i < unat n. hp_mem s' (q + of_nat i) = hp_mem s (p + of_nat i))"
proof -
  have ok: "blocks_ok (unat KHEAP_START) (hp_blocks s) (unat (hp_brk s))" and brk: "unat (hp_brk s) < 2 ^ 32"
    using assms(1) by (simp_all add: heap_inv_def)
  have pb: "unat KHEAP_START + 16 \<le> unat p" "unat p + unat n \<le> unat (hp_brk s)"
    using blocks_ok_live [OF ok brk assms(2)] by simp_all
  then have pz: "p \<noteq> 0" by auto
  obtain new s1 where m: "kmalloc sz s = (new, s1)" by fastforce
  note old = live_size(1) [OF assms(1,2)]
  have nz: "new \<noteq> 0"
    using assms(3,5,6) pz m old by (auto simp: krealloc_def Let_def not_le [symmetric] split: if_splits)
  have sp: "heap_inv s1" "hp_mem s1 = hp_mem s"
    "\<exists>k. sz \<le> k \<and> set (live (hp_blocks s1)) = insert (new, k) (set (live (hp_blocks s))) \<and>
       unat KHEAP_START + 16 \<le> unat new \<and> unat new + unat k \<le> unat KHEAP_MAX \<and>
       (\<forall>(r, l) \<in> set (live (hp_blocks s)). apart (new, k) (r, l))"
    using kmalloc_spec [OF assms(1,4) m] nz by simp_all
  then obtain k where k: "sz \<le> k" "set (live (hp_blocks s1)) = insert (new, k) (set (live (hp_blocks s)))"
    "unat new + unat k \<le> unat KHEAP_MAX" "apart (new, k) (p, n)" using assms(2) by blast
  have l1: "(p, n) \<in> set (live (hp_blocks s1))" using k(2) assms(2) by simp
  let ?s2 = "s1\<lparr>hp_mem := memcpy new p (unat n) (heap_memory s1)\<rparr>"
  have q: "q = new" and fr: "kfree p ?s2 = Inr s'"
    using assms(3,5) pz nz m old live_size(1) [OF sp(1) l1]
    by (auto simp: krealloc_def Let_def not_le [symmetric] split: if_splits sum.splits)
  have inv2: "heap_inv ?s2" using sp(1) by (simp add: heap_inv_def)
  have l2: "(p, n) \<in> set (live (hp_blocks ?s2))" using k(2) assms(2) by simp
  obtain xs ys s3 where r: "heap_free_raw p ?s2 = Inr s3" "heap_inv s3" "live (hp_blocks ?s2) = xs @ (p, n) # ys"
    "live (hp_blocks s3) = xs @ ys"
    "\<forall>(q, m) \<in> set (live (hp_blocks ?s2)). \<forall>i < unat m. hp_mem s3 (q + of_nat i) = hp_mem ?s2 (q + of_nat i)"
    by (rule heap_free_raw_live [OF inv2 l2])
  have s3: "s3 = s'" using r(1) fr by (simp add: kfree_def)
  have "sorted_wrt (\<lambda>x y. unat (fst x) + unat (snd x) + 16 \<le> unat (fst y)) (xs @ (p, n) # ys)"
    using blocks_ok_apart [of "unat KHEAP_START" "hp_blocks ?s2" "unat (hp_brk ?s2)"] inv2 by (simp add: heap_inv_def r(3) [simplified])
  then have gone: "\<And>l. (p, l) \<notin> set (xs @ ys)" by (fastforce simp: sorted_wrt_append)
  have "n < k" using assms(3) k(1) by simp
  then have nk: "unat n < unat k" by (simp add: word_less_nat_alt)
  have mem: "(new, k) \<in> set (xs @ (p, n) # ys)" using k(2) r(3) by simp
  have ne: "new \<noteq> p"
  proof
    assume "new = p"
    with mem nk have "(p, k) \<in> set (xs @ ys)" by auto
    with gone show False by blast
  qed
  from mem have qk: "(q, k) \<in> set (live (hp_blocks s'))" using ne q r(4) s3 by simp
  have "fwd_safe (unat n) new p"
  proof -
    have "unat (new - p) = (if unat p \<le> unat new then unat new - unat p else unat new + 2 ^ 32 - unat p)"
      by (simp add: unat_sub_if')
    moreover have "unat p + unat n \<le> unat new \<or> unat new + unat k \<le> unat p" using k(4) by (auto simp: apart_def)
    moreover have "unat p + unat n < 4294967296" using pb(2) unat_u32_less [of "hp_brk s"] by linarith
    ultimately have "unat n \<le> unat (new - p)" using nk by (auto split: if_splits)
    then show ?thesis by (simp add: fwd_safe_def)
  qed
  then have c: "hp_mem ?s2 = copied (unat n) new p (heap_memory s1)"
    using memcpy_spec [of "unat n" new p] unat_u32_less [of n] by (simp del: unat_u32_less)
  have "hp_mem s' (q + of_nat i) = hp_mem s (p + of_nat i)" if "i < unat n" for i
  proof -
    have "unat (new + of_nat i - new) = i" using that unat_u32_less [of n] by (simp add: unat_of_nat del: unat_u32_less)
    then have "hp_mem ?s2 (q + of_nat i) = heap_memory s1 (p + of_nat i)" using that unfolding c by (simp add: copied_def q)
    moreover have "(q, k) \<in> set (live (hp_blocks ?s2))" using k(2) q by simp
    then have "hp_mem s3 (q + of_nat i) = hp_mem ?s2 (q + of_nat i)" using r(5) that nk by fastforce
    ultimately show ?thesis using live_size(2) [OF sp(1) l1 that] sp(2) s3 by simp
  qed
  then show ?thesis using r(2,4) s3 gone qk k(1) by auto
qed

theorem krealloc_preserves_witness:
  "\<exists>s'. krealloc 0xD0000010 100 heap_example = Inr (0xD0000040, s') \<and> heap_inv s' \<and> hp_mem s' (0xD0000040 + 5) = 0"
proof -
  have a: "fst (kmalloc 100 heap_example) = 0xD0000040"
    by (simp add: kmalloc_def heap_example_alloc) (simp add: heap_take_def heap_example_def heap_split_def HEAP_HDR_def HEAP_MIN_SPLIT_def)
  obtain s1 where s1: "kmalloc 100 heap_example = (0xD0000040, s1)" using a by (metis prod.collapse)
  have k: "heap_inv s1" "(0xD0000010, 32) \<in> set (live (hp_blocks s1))"
    using kmalloc_spec [OF heap_example_inv _ s1] by (auto simp: heap_example_live)
  let ?s2 = "s1\<lparr>hp_mem := memcpy 0xD0000040 0xD0000010 (unat (32 :: u32)) (heap_memory s1)\<rparr>"
  have "heap_inv ?s2" "(0xD0000010, 32) \<in> set (live (hp_blocks ?s2))" using k by (simp_all add: heap_inv_def)
  from heap_free_raw_live_ex [OF this] obtain s' where "heap_free_raw 0xD0000010 ?s2 = Inr s'" by blast
  moreover have "load32 (heap_memory heap_example) (0xD0000010 - HEAP_HDR + 4) = 32" "load32 (heap_memory s1) (0xD0000010 - HEAP_HDR + 4) = 32"
    using live_size(1) [OF heap_example_inv, of "0xD0000010" 32] live_size(1) [OF k] by (simp_all add: heap_example_live)
  ultimately have s': "krealloc 0xD0000010 100 heap_example = Inr (0xD0000040, s')" using s1 by (simp add: krealloc_def kfree_def Let_def)
  have "heap_inv s' \<and> (\<forall>i < 32. hp_mem s' (0xD0000040 + of_nat i) = hp_mem heap_example (0xD0000010 + of_nat i))"
    using krealloc_preserves [OF heap_example_inv _ _ _ s', of 32] by (simp add: heap_example_live)
  moreover from this have "hp_mem s' (0xD0000040 + of_nat 5) = 0"
    by (simp add: heap_example_def del: of_nat_numeral)
  ultimately show ?thesis using s' by auto
qed

text \<open>A request between \<open>0xFFFFFFF9\<close> and \<open>0xFFFFFFFF\<close> wraps to 0 when it is rounded up, and the heap
  hands out a payload of 0 bytes for it.\<close>

theorem kmalloc_huge_returns_empty:
  assumes "heap_inv s" "0xFFFFFFF9 \<le> sz" "find_idx hb_free (hp_blocks s) = Some i" "48 \<le> hb_size (hp_blocks s ! i)"
  shows "(fst (kmalloc sz s), 0) \<in> set (live (hp_blocks (snd (kmalloc sz s)))) \<and> fst (kmalloc sz s) = hb_addr (hp_blocks s ! i) + 16"
proof -
  have ge: "4294967289 \<le> unat sz" using assms(2) by (simp add: word_le_nat_alt)
  then have "unat (sz + 7) = unat sz + 7 - 4294967296"
    using unat_u32_less [of sz] by (simp add: unat_word_ariths mod_if del: unat_u32_less)
  then have "unat (sz + 7) < 8" using unat_u32_less [of sz] by linarith
  then have "unat (align_up sz 8) = 0" unfolding align_up_8_mask and_not_mask_unat by simp
  then have al: "align_up sz 8 = 0" by (simp add: unat_eq_zero)
  have "heap_fits 0 = hb_free" by (auto simp: heap_fits_def)
  then have f: "find_idx (heap_fits 0) (hp_blocks s) = Some i" using assms(3) by simp
  have "sz \<noteq> 0" using ge by auto
  then have r: "kmalloc sz s = heap_take i 0 s"
    unfolding kmalloc_def by (subst heap_alloc_raw.simps) (simp add: al f)
  have "hb_addr (hd (heap_split (hp_blocks s ! i) 0)) = hb_addr (hp_blocks s ! i)"
    "hb_size (hd (heap_split (hp_blocks s ! i) 0)) = 0"
    using assms(4) by (auto simp: heap_split_def HEAP_HDR_def HEAP_MIN_SPLIT_def not_le [symmetric])
  then show ?thesis unfolding r by (simp add: heap_take_def Let_def) (simp add: HEAP_HDR_def)
qed

theorem kmalloc_huge_returns_empty_witness:
  "(0xD0000040, 0) \<in> set (live (hp_blocks (snd (kmalloc 0xFFFFFFFF heap_example))))"
proof -
  have "find_idx hb_free (hp_blocks heap_example) = Some 1" "48 \<le> hb_size (hp_blocks heap_example ! 1)"
    "hb_addr (hp_blocks heap_example ! 1) = 0xD0000030"
    by (simp_all add: heap_example_def)
  with kmalloc_huge_returns_empty [OF heap_example_inv _ this(1,2), of "0xFFFFFFFF"] show ?thesis by auto
qed

end
