(* ===== verification/Ide.thy ===== *)
theory Ide
  imports Prelude
begin

text \<open>
  The PIO driver for IDE drives (\<open>drivers/ide.c\<close>). The drives themselves are outside the
  code: a drive is its sectors, addressed by the 28-bit number it latches from the task-file
  registers; the status bytes it answers with are an argument, and so is the sector of a
  transfer at which it reports an error.
\<close>

definition IDE_MAX_DRIVES :: nat where "IDE_MAX_DRIVES = 4"
definition IDE_SECTOR_SIZE :: nat where "IDE_SECTOR_SIZE = 512"
definition IDE_BSY :: u8 where "IDE_BSY = 0x80"
definition IDE_DRQ :: u8 where "IDE_DRQ = 0x08"
definition IDE_ERR :: u8 where "IDE_ERR = 0x01"

record ide_drive =
  dr_exists :: bool
  dr_base :: u16
  dr_ctrl :: u16
  dr_drive :: u8
  dr_channel :: u8
  dr_lba28 :: u32
  dr_model :: "u8 list"

record ide_state =
  ide_drives :: "ide_drive list"
  ide_count :: u32
  ide_sectors :: "nat \<Rightarrow> u32 \<Rightarrow> u8 list"

text \<open>The status loop of \<open>ide_wait\<close> over the bytes read, at most \<open>0x100000 - 1\<close> of them.\<close>

fun ide_wait_loop :: "bool \<Rightarrow> u8 list \<Rightarrow> int" where
  "ide_wait_loop drq [] = - 1"
| "ide_wait_loop drq (st # sts) =
     (if st AND IDE_ERR \<noteq> 0 then - 1
      else if st AND IDE_BSY \<noteq> 0 then ide_wait_loop drq sts
      else if \<not> drq \<or> st AND IDE_DRQ \<noteq> 0 then 0
      else ide_wait_loop drq sts)"

definition ide_wait :: "bool \<Rightarrow> u8 list \<Rightarrow> int" where
  "ide_wait drq sts = ide_wait_loop drq (take (0x100000 - 1) sts)"

text \<open>The task-file registers, and the sector number a drive reads from them.\<close>

record ata_regs =
  at_select :: u8
  at_nsec :: u8
  at_lo :: u8
  at_mi :: u8
  at_hi :: u8

definition ide_select_lba :: "ide_drive \<Rightarrow> u32 \<Rightarrow> u8 \<Rightarrow> ata_regs" where
  "ide_select_lba d lba count =
     \<lparr>at_select = 0xE0 OR push_bit 4 (dr_drive d) OR ucast (drop_bit 24 lba AND 0x0F), at_nsec = count,
      at_lo = ucast (lba AND 0xFF), at_mi = ucast (drop_bit 8 lba AND 0xFF), at_hi = ucast (drop_bit 16 lba AND 0xFF)\<rparr>"

definition ata_lba :: "ata_regs \<Rightarrow> u32" where
  "ata_lba r = push_bit 24 (ucast (at_select r AND 0x0F)) OR push_bit 16 (ucast (at_hi r)) OR
     push_bit 8 (ucast (at_mi r)) OR ucast (at_lo r)"

section \<open>Identification\<close>

text \<open>Trailing blanks of the model string become terminators.\<close>

fun ide_trim :: "nat \<Rightarrow> u8 list \<Rightarrow> u8 list" where
  "ide_trim 0 m = m"
| "ide_trim (Suc i) m = (if m ! i = 32 then ide_trim i (m[i := 0]) else m)"

definition ide_identify :: "bool \<Rightarrow> u16 list \<Rightarrow> ide_drive \<Rightarrow> bool \<times> ide_drive" where
  "ide_identify answers ident d =
     (if \<not> answers then (False, d)
      else
        let m = concat (map (\<lambda>i. [ucast (drop_bit 8 (ident ! (27 + i))), ucast (ident ! (27 + i) AND 0xFF)]) [0..<20]) @ [0]
        in (True, d\<lparr>dr_lba28 := push_bit 16 (ucast (ident ! 61)) OR ucast (ident ! 60),
              dr_model := ide_trim 40 m, dr_exists := True\<rparr>))"

definition ide_cfg :: "(u16 \<times> u16 \<times> u8 \<times> u8) list" where
  "ide_cfg = [(0x1F0, 0x3F6, 0, 0), (0x1F0, 0x3F6, 1, 0), (0x170, 0x376, 0, 1), (0x170, 0x376, 1, 1)]"

text \<open>\<open>idents\<close>: for each of the four positions, the identification words if a drive answers.\<close>

definition ide_init :: "u16 list option list \<Rightarrow> ide_state \<Rightarrow> ide_state" where
  "ide_init idents s =
     (let probe = map (\<lambda>((base, ctrl, drv, ch), id).
            ide_identify (id \<noteq> None) (case id of Some ws \<Rightarrow> ws | None \<Rightarrow> [])
              \<lparr>dr_exists = False, dr_base = base, dr_ctrl = ctrl, dr_drive = drv, dr_channel = ch,
               dr_lba28 = 0, dr_model = replicate 41 0\<rparr>) (zip ide_cfg idents)
      in s\<lparr>ide_drives := map snd probe, ide_count := of_nat (length (filter fst probe))\<rparr>)"

section \<open>Transfers\<close>

definition ide_has :: "u8 \<Rightarrow> ide_state \<Rightarrow> bool" where
  "ide_has drv s \<longleftrightarrow> unat drv < IDE_MAX_DRIVES \<and> dr_exists (ide_drives s ! unat drv)"

text \<open>\<open>fault\<close>: the sector of the transfer at which the drive reports an error.\<close>

definition ide_read :: "nat option \<Rightarrow> u8 \<Rightarrow> u32 \<Rightarrow> u8 \<Rightarrow> ide_state \<Rightarrow> int \<times> u8 list" where
  "ide_read fault drv lba count s =
     (if \<not> ide_has drv s then (- 1, [])
      else
        let base = ata_lba (ide_select_lba (ide_drives s ! unat drv) lba count);
            secs = (\<lambda>n. concat (map (\<lambda>i. ide_sectors s (unat drv) (base + of_nat i)) [0..<n]))
        in case fault of
             Some k \<Rightarrow> if k < unat count then (- 1, secs k) else (0, secs (unat count))
           | None \<Rightarrow> (0, secs (unat count)))"

text \<open>Sectors \<open>base, base + 1, \<dots>\<close> replaced by \<open>n\<close> sectors of a buffer.\<close>

definition put_sectors :: "u32 \<Rightarrow> nat \<Rightarrow> u8 list \<Rightarrow> (u32 \<Rightarrow> u8 list) \<Rightarrow> u32 \<Rightarrow> u8 list" where
  "put_sectors base n buf d = (\<lambda>l. if unat (l - base) < n
     then take IDE_SECTOR_SIZE (drop (unat (l - base) * IDE_SECTOR_SIZE) buf) else d l)"

definition ide_write :: "nat option \<Rightarrow> u8 \<Rightarrow> u32 \<Rightarrow> u8 \<Rightarrow> u8 list \<Rightarrow> ide_state \<Rightarrow> int \<times> ide_state" where
  "ide_write fault drv lba count buf s =
     (if \<not> ide_has drv s then (- 1, s)
      else
        let base = ata_lba (ide_select_lba (ide_drives s ! unat drv) lba count);
            upd = (\<lambda>n. s\<lparr>ide_sectors := (ide_sectors s)(unat drv := put_sectors base n buf (ide_sectors s (unat drv)))\<rparr>)
        in case fault of
             Some k \<Rightarrow> if k < unat count then (- 1, upd k) else (0, upd (unat count))
           | None \<Rightarrow> (0, upd (unat count)))"

section \<open>Facts\<close>

text \<open>A drive sees the sector number modulo 2 to the 28.\<close>

lemma bit_0x0F: "bit (0x0F :: 'a::len word) n \<longleftrightarrow> n < 4 \<and> n < LENGTH('a)"
proof -
  have "(0x0F :: 'a word) = mask 4" by (simp add: mask_eq_exp_minus_1)
  then have "bit (0x0F :: 'a word) n \<longleftrightarrow> bit (mask 4 :: 'a word) n" by (simp only:)
  then show ?thesis by (simp only: bit_mask_iff possible_bit_word) auto
qed

lemma bit_0xFF: "bit (0xFF :: 'a::len word) n \<longleftrightarrow> n < 8 \<and> n < LENGTH('a)"
proof -
  have "(0xFF :: 'a word) = mask 8" by (simp add: mask_eq_exp_minus_1)
  then have "bit (0xFF :: 'a word) n \<longleftrightarrow> bit (mask 8 :: 'a word) n" by (simp only:)
  then show ?thesis by (simp only: bit_mask_iff possible_bit_word) auto
qed

lemma bit_0xE0: "n < 4 \<Longrightarrow> \<not> bit (0xE0 :: u8) n"
proof -
  assume "n < 4"
  then consider "n = 0" | "n = 1" | "n = 2" | "n = 3" by linarith
  then show ?thesis by cases simp_all
qed

lemma ata_lba_select: "ata_lba (ide_select_lba d lba count) = take_bit 28 lba"
proof (rule bit_word_eqI)
  fix n assume n: "n < LENGTH(32)"
  then consider "n < 8" | "8 \<le> n" "n < 16" | "16 \<le> n" "n < 24" | "24 \<le> n" "n < 28" | "28 \<le> n" "n < 32" by fastforce
  then show "bit (ata_lba (ide_select_lba d lba count)) n \<longleftrightarrow> bit (take_bit 28 lba) n"
    using bit_0xE0 [of "n - 24"]
    by cases (simp_all add: ata_lba_def ide_select_lba_def bit_or_iff bit_and_iff bit_push_bit_iff bit_drop_bit_eq
        bit_ucast_iff bit_take_bit_iff bit_0x0F bit_0xFF del: bit_numeral_word_iff, auto)
qed

lemma concat_sectors:
  "length buf = n * k \<Longrightarrow> concat (map (\<lambda>i. take k (drop (i * k) buf)) [0..<n]) = buf"
proof (induction n arbitrary: buf)
  case (Suc n)
  have "concat (map (\<lambda>i. take k (drop (i * k) (take (n * k) buf))) [0..<n]) = take (n * k) buf"
    using Suc by simp
  moreover have "take k (drop (i * k) (take (n * k) buf)) = take k (drop (i * k) buf)" if "i < n" for i
  proof -
    have "Suc i * k \<le> n * k" using that by (intro mult_le_mono1) simp
    then have "k \<le> n * k - i * k" by simp
    then show ?thesis by (simp add: drop_take min_def)
  qed
  ultimately have "concat (map (\<lambda>i. take k (drop (i * k) buf)) [0..<n]) = take (n * k) buf"
    by (metis (no_types, lifting) atLeastLessThan_iff map_eq_conv set_upt)
  then show ?case using Suc.prems by simp
qed simp

lemma ide_read_write:
  assumes w: "ide_write None drv lba count buf s = (0, s')" and len: "length buf = unat count * IDE_SECTOR_SIZE"
  shows "ide_read None drv lba count s' = (0, buf)"
proof -
  have has: "ide_has drv s" using w by (cases "ide_has drv s") (simp_all add: ide_write_def)
  let ?base = "ata_lba (ide_select_lba (ide_drives s ! unat drv) lba count)"
  have s': "s' = s\<lparr>ide_sectors := (ide_sectors s)(unat drv := put_sectors ?base (unat count) buf (ide_sectors s (unat drv)))\<rparr>"
    using w has by (simp add: ide_write_def Let_def)
  have "put_sectors ?base (unat count) buf (ide_sectors s (unat drv)) (?base + of_nat i) =
      take IDE_SECTOR_SIZE (drop (i * IDE_SECTOR_SIZE) buf)" if "i < unat count" for i
  proof -
    have "i < 256" using that unat_u8_less [of count] by linarith
    then have "i < 2 ^ 32" by simp
    then have "unat (?base + of_nat i - ?base) = i" by (simp add: unat_of_nat)
    then show ?thesis using that by (simp add: put_sectors_def)
  qed
  then have "concat (map (\<lambda>i. put_sectors ?base (unat count) buf (ide_sectors s (unat drv)) (?base + of_nat i)) [0..<unat count]) = buf"
    using concat_sectors [OF len] by (metis (no_types, lifting) atLeastLessThan_iff map_eq_conv set_upt)
  then show ?thesis using has by (simp add: s' ide_read_def ide_has_def Let_def)
qed

section \<open>The bytes of a drive\<close>

lemma sector_in_reach: "l < 2 ^ 28 \<Longrightarrow> take_bit 28 (of_nat l :: u32) = of_nat l"
  by (simp add: take_bit_of_nat take_bit_nat_eq_self)

text \<open>A drive as one row of bytes.\<close>

definition disk_byte :: "ide_state \<Rightarrow> nat \<Rightarrow> nat \<Rightarrow> u8" where
  "disk_byte s d i = ide_sectors s d (of_nat (i div 512)) ! (i mod 512)"

definition disk_bytes :: "ide_state \<Rightarrow> nat \<Rightarrow> nat \<Rightarrow> nat \<Rightarrow> u8 list" where
  "disk_bytes s d i n = map (disk_byte s d) [i..<i + n]"

text \<open>The 32-bit number at a place of the drive.\<close>

definition disk_word :: "ide_state \<Rightarrow> nat \<Rightarrow> nat \<Rightarrow> nat" where
  "disk_word s d i = le_nat (disk_bytes s d i 4)"

lemma length_disk_bytes [simp]: "length (disk_bytes s d i n) = n"
  by (simp add: disk_bytes_def)

lemma disk_bytes_add: "disk_bytes s d i (m + n) = disk_bytes s d i m @ disk_bytes s d (i + m) n"
  using upt_add_eq_append [of i "i + m" n] by (simp add: disk_bytes_def add.assoc)

lemma take_drop_disk_bytes: "o' + n \<le> m \<Longrightarrow> take n (drop o' (disk_bytes s d i m)) = disk_bytes s d (i + o') n"
  by (simp add: disk_bytes_def drop_map take_map drop_upt take_upt add.assoc)

lemma disk_bytes_sector:
  assumes "length (ide_sectors s d (of_nat l)) = 512"
  shows "disk_bytes s d (512 * l) 512 = ide_sectors s d (of_nat l)"
  by (rule nth_equalityI) (use assms in \<open>simp_all add: disk_bytes_def disk_byte_def\<close>)

lemma disk_bytes_sectors:
  assumes "\<And>l. length (ide_sectors s d l) = 512"
  shows "disk_bytes s d (512 * l) (512 * n) = concat (map (\<lambda>i. ide_sectors s d (of_nat (l + i))) [0..<n])"
proof (induction n)
  case (Suc n)
  have "disk_bytes s d (512 * l) (512 * Suc n) = disk_bytes s d (512 * l) (512 * n) @ disk_bytes s d (512 * (l + n)) 512"
    using disk_bytes_add [of s d "512 * l" "512 * n" 512] by (simp add: algebra_simps)
  then show ?case using Suc disk_bytes_sector [of s d "l + n"] assms by simp
qed (simp add: disk_bytes_def)

lemma get32_disk: "o' + 4 \<le> m \<Longrightarrow> unat (get32 (disk_bytes s d i m) o') = disk_word s d (i + o')"
  by (simp add: unat_get32 take_drop_disk_bytes disk_word_def)

lemma disk_word_less: "disk_word s d i < 2 ^ 32"
  using get32_disk [of 0 4 s d i] unat_less_u32 [of "get32 (disk_bytes s d i 4) 0"] by simp

end
