(* ===== verification/Swap.thy ===== *)
theory Swap
  imports Paging Ide
begin

text \<open>
  Swapping pages to disk (\<open>mm/swap.c\<close>): the slot bitmap, the table from pages to slots, and the
  two transfers. \<open>fault\<close> is the disk error an operation meets, if any.
\<close>

definition SWAP_SLOTS_MAX :: nat where "SWAP_SLOTS_MAX = 4096"
definition SEKTOREN_PRO_SLOT :: nat where "SEKTOREN_PRO_SLOT = 8"
definition SWAP_LOOKUP_SIZE :: nat where "SWAP_LOOKUP_SIZE = 1024"

record swap_entry =
  se_virt :: u32
  se_slot :: int

record swap =
  sw_bereit :: bool
  sw_laufwerk :: u8
  sw_lba_start :: u32
  sw_slot_count :: u32
  sw_bitmap :: "u8 list"
  sw_lookup :: "swap_entry list"
  sw_aus :: u32
  sw_ein :: u32
  sw_pg :: paging
  sw_ide :: ide_state

text \<open>A slot number indexes a byte and a bit of it, as \<open>bm_test\<close> does for 8-bit words.\<close>

definition slot_allozieren :: "swap \<Rightarrow> int \<times> swap" where
  "slot_allozieren s =
     (case find (\<lambda>i. \<not> bm_test (sw_bitmap s) i) [0..<unat (sw_slot_count s)] of
        Some i \<Rightarrow> (int i, s\<lparr>sw_bitmap := bm_set (sw_bitmap s) i\<rparr>)
      | None \<Rightarrow> (- 1, s))"

definition slot_freigeben :: "u32 \<Rightarrow> swap \<Rightarrow> swap" where
  "slot_freigeben slot s =
     (if slot < sw_slot_count s then s\<lparr>sw_bitmap := bm_clear (sw_bitmap s) (unat slot)\<rparr> else s)"

definition lookup_set :: "u32 \<Rightarrow> int \<Rightarrow> swap \<Rightarrow> swap" where
  "lookup_set virt slot s =
     (case find_idx (\<lambda>e. se_virt e = 0 \<or> se_virt e = virt) (sw_lookup s) of
        Some i \<Rightarrow> s\<lparr>sw_lookup := (sw_lookup s)[i := \<lparr>se_virt = virt, se_slot = slot\<rparr>]\<rparr>
      | None \<Rightarrow> s)"

definition lookup_get :: "u32 \<Rightarrow> swap \<Rightarrow> int" where
  "lookup_get virt s =
     (case find_idx (\<lambda>e. se_virt e = virt) (sw_lookup s) of
        Some i \<Rightarrow> se_slot (sw_lookup s ! i)
      | None \<Rightarrow> - 1)"

definition swap_init :: "u8 \<Rightarrow> u32 \<Rightarrow> u32 \<Rightarrow> swap \<Rightarrow> swap" where
  "swap_init drive lba size_sectors s =
     (if unat size_sectors < SEKTOREN_PRO_SLOT then s
      else
        let header = put_at (replicate 512 0) 0 (asc ''SWAP'');
            header = header[4 := ucast (size_sectors AND 0xFF)];
            n = (size_sectors - 1) div 8
        in s\<lparr>sw_ide := snd (ide_write None drive lba 1 header (sw_ide s)), sw_laufwerk := drive,
             sw_lba_start := lba + 1, sw_slot_count := (if n > 4096 then 4096 else n),
             sw_bitmap := replicate (SWAP_SLOTS_MAX div 8) 0,
             sw_lookup := replicate SWAP_LOOKUP_SIZE \<lparr>se_virt = 0, se_slot = 0\<rparr>, sw_bereit := True\<rparr>)"

text \<open>A frame as a buffer: reading it out, and writing a buffer over it.\<close>

definition frame_bytes :: "mem \<Rightarrow> u32 \<Rightarrow> u8 list" where
  "frame_bytes m a = map (\<lambda>i. m (a + of_nat i)) [0..<4096]"

definition frame_store :: "u32 \<Rightarrow> u8 list \<Rightarrow> mem \<Rightarrow> mem" where
  "frame_store a bs m = (\<lambda>x. if unat (x - a) < length bs then bs ! unat (x - a) else m x)"

definition swap_out :: "nat option \<Rightarrow> u32 \<Rightarrow> swap \<Rightarrow> int \<times> swap" where
  "swap_out fault virt s =
     (if \<not> sw_bereit s then (- 1, s)
      else
        let phys = paging_get_phys (sw_pg s) (virt AND PAGE_MASK) in
        if phys = 0 then (- 1, s)
        else
          let (slot, s) = slot_allozieren s in
          if slot < 0 then (- 1, s)
          else
            let lba = sw_lba_start s + of_int slot * 8;
                (r, ide) = ide_write fault (sw_laufwerk s) lba 8 (frame_bytes (pmem (pg_pmm (sw_pg s))) phys) (sw_ide s);
                s = s\<lparr>sw_ide := ide\<rparr>
            in if r \<noteq> 0 then (- 1, slot_freigeben (of_int slot) s)
               else
                 let pg = paging_unmap_page (virt AND PAGE_MASK) (sw_pg s);
                     pg = pg\<lparr>pg_pmm := pmm_free_page phys (pg_pmm pg)\<rparr>;
                     s = lookup_set (virt AND PAGE_MASK) slot (s\<lparr>sw_pg := pg\<rparr>)
                 in (0, s\<lparr>sw_aus := sw_aus s + 1\<rparr>))"

definition swap_in :: "nat option \<Rightarrow> u32 \<Rightarrow> u32 \<Rightarrow> swap \<Rightarrow> int \<times> swap" where
  "swap_in fault virt swap_slot s =
     (if \<not> sw_bereit s then (- 1, s)
      else
        let pg = sw_pg s; (phys, pm) = pmm_alloc_page (pg_pmm pg) in
        if phys = 0 then (- 1, s\<lparr>sw_pg := pg\<lparr>pg_pmm := pm\<rparr>\<rparr>)
        else
          let lba = sw_lba_start s + swap_slot * 8;
              (r, bs) = ide_read fault (sw_laufwerk s) lba 8 (sw_ide s);
              pm = pm\<lparr>pmem := frame_store phys bs (pmem pm)\<rparr>
          in if r \<noteq> 0 then (- 1, s\<lparr>sw_pg := pg\<lparr>pg_pmm := pmm_free_page phys pm\<rparr>\<rparr>)
             else
               let pg = snd (paging_map_page (virt AND PAGE_MASK) phys (PDE_PRESENT OR PDE_WRITABLE OR PDE_USER)
                               (pg\<lparr>pg_pmm := pm\<rparr>));
                   s = lookup_set (virt AND PAGE_MASK) (- 1) (slot_freigeben swap_slot (s\<lparr>sw_pg := pg\<rparr>))
               in (0, s\<lparr>sw_ein := sw_ein s + 1\<rparr>))"

definition swap_ready_p :: "swap \<Rightarrow> bool" where
  "swap_ready_p s = sw_bereit s"

definition swap_belegt :: "swap \<Rightarrow> nat" where
  "swap_belegt s = length (filter (\<lambda>i. bm_test (sw_bitmap s) i) [0..<unat (sw_slot_count s)])"

section \<open>The lookup table\<close>

text \<open>Clearing an entry through \<open>lookup_set virt (- 1)\<close> keeps the entry occupied.\<close>

lemma lookup_set_never_frees:
  assumes "virt \<noteq> 0"
  shows "length (filter (\<lambda>e. se_virt e = 0) (sw_lookup (lookup_set virt (- 1) s)))
    \<le> length (filter (\<lambda>e. se_virt e = 0) (sw_lookup s))"
proof (cases "find_idx (\<lambda>e. se_virt e = 0 \<or> se_virt e = virt) (sw_lookup s)")
  case (Some i)
  let ?P = "\<lambda>e. se_virt e = 0"
  have i: "i < length (sw_lookup s)" using find_idx_SomeD(1) [OF Some] .
  have "filter ?P ((sw_lookup s)[i := \<lparr>se_virt = virt, se_slot = - 1\<rparr>]) =
      filter ?P (take i (sw_lookup s)) @ filter ?P (drop (Suc i) (sw_lookup s))"
    using i assms by (simp add: upd_conv_take_nth_drop)
  moreover have "filter ?P (sw_lookup s) = filter ?P (take i (sw_lookup s) @ sw_lookup s ! i # drop (Suc i) (sw_lookup s))"
    using id_take_nth_drop [OF i] by simp
  ultimately show ?thesis using Some by (simp add: lookup_set_def)
qed (simp add: lookup_set_def)

text \<open>When the table is full of other pages, the slot of a page is not recorded.\<close>

lemma lookup_set_full:
  assumes "\<forall>e \<in> set (sw_lookup s). se_virt e \<noteq> 0 \<and> se_virt e \<noteq> virt"
  shows "lookup_set virt slot s = s" "lookup_get virt (lookup_set virt slot s) = - 1"
proof -
  have n: "find_idx (\<lambda>e. se_virt e = 0 \<or> se_virt e = virt) (sw_lookup s) = None"
    "find_idx (\<lambda>e. se_virt e = virt) (sw_lookup s) = None"
    using assms by (auto simp: find_idx_None)
  then show "lookup_set virt slot s = s" by (simp add: lookup_set_def)
  then show "lookup_get virt (lookup_set virt slot s) = - 1" using n by (simp add: lookup_get_def)
qed

lemma lookup_set_fields [simp]:
  "sw_pg (lookup_set v k s) = sw_pg s" "sw_ide (lookup_set v k s) = sw_ide s" "sw_bereit (lookup_set v k s) = sw_bereit s"
  "sw_laufwerk (lookup_set v k s) = sw_laufwerk s" "sw_lba_start (lookup_set v k s) = sw_lba_start s"
  by (auto simp: lookup_set_def split: option.splits)

lemma slot_freigeben_fields [simp]: "sw_pg (slot_freigeben k s) = sw_pg s"
  by (simp add: slot_freigeben_def)

lemma lookup_get_set: "lookup_get v (lookup_set v k s) = k \<or> lookup_get v (lookup_set v k s) = - 1"
proof (cases "find_idx (\<lambda>e. se_virt e = 0 \<or> se_virt e = v) (sw_lookup s)")
  case (Some i)
  note i = find_idx_SomeD [OF Some]
  have "find_idx (\<lambda>e. se_virt e = v) ((sw_lookup s)[i := \<lparr>se_virt = v, se_slot = k\<rparr>]) = Some i"
    unfolding find_idx_Some using i by (auto simp: nth_list_update)
  then show ?thesis using Some i(1) by (simp add: lookup_set_def lookup_get_def)
next
  case None
  then have "find_idx (\<lambda>e. se_virt e = v) (sw_lookup s) = None" by (auto simp: find_idx_None)
  then show ?thesis using None by (simp add: lookup_set_def lookup_get_def)
qed

lemma lookup_get_aus: "lookup_get v (s\<lparr>sw_aus := n\<rparr>) = lookup_get v s"
  by (cases "find_idx (\<lambda>e. se_virt e = v) (sw_lookup s)") (simp_all add: lookup_get_def)

section \<open>Transfers\<close>

lemma length_frame_bytes [simp]: "length (frame_bytes m a) = 4096"
  by (simp add: frame_bytes_def)

lemma swap_out_cases:
  assumes "swap_out None v s = (0, s1)"
  obtains i ide where "sw_bereit s" "paging_get_phys (sw_pg s) (v AND PAGE_MASK) \<noteq> 0"
    "ide_write None (sw_laufwerk s) (sw_lba_start s + of_nat i * 8) 8
       (frame_bytes (pmem (pg_pmm (sw_pg s))) (paging_get_phys (sw_pg s) (v AND PAGE_MASK))) (sw_ide s) = (0, ide)"
    "sw_ide s1 = ide" "sw_bereit s1" "sw_laufwerk s1 = sw_laufwerk s" "sw_lba_start s1 = sw_lba_start s"
    "sw_pg s1 = (paging_unmap_page (v AND PAGE_MASK) (sw_pg s))\<lparr>pg_pmm :=
       pmm_free_page (paging_get_phys (sw_pg s) (v AND PAGE_MASK)) (pg_pmm (paging_unmap_page (v AND PAGE_MASK) (sw_pg s)))\<rparr>"
    "lookup_get (v AND PAGE_MASK) s1 = int i \<or> lookup_get (v AND PAGE_MASK) s1 = - 1"
proof -
  let ?w = "v AND PAGE_MASK" and ?ph = "paging_get_phys (sw_pg s) (v AND PAGE_MASK)"
  have b: "sw_bereit s" "?ph \<noteq> 0" using assms by (simp_all add: swap_out_def Let_def split: if_splits)
  obtain i where i: "find (\<lambda>i. \<not> bm_test (sw_bitmap s) i) [0..<unat (sw_slot_count s)] = Some i"
    using assms b by (cases "find (\<lambda>i. \<not> bm_test (sw_bitmap s) i) [0..<unat (sw_slot_count s)]")
      (simp_all add: swap_out_def slot_allozieren_def)
  obtain r ide where w: "ide_write None (sw_laufwerk s) (sw_lba_start s + of_nat i * 8) 8
       (frame_bytes (pmem (pg_pmm (sw_pg s))) ?ph) (sw_ide s) = (r, ide)" by fastforce
  let ?pg = "paging_unmap_page ?w (sw_pg s)"
  let ?s = "s\<lparr>sw_bitmap := bm_set (sw_bitmap s) i, sw_ide := ide, sw_pg := ?pg\<lparr>pg_pmm := pmm_free_page ?ph (pg_pmm ?pg)\<rparr>\<rparr>"
  have r: "r = 0" and s1: "s1 = (lookup_set ?w (int i) ?s)\<lparr>sw_aus := sw_aus (lookup_set ?w (int i) ?s) + 1\<rparr>"
    using assms b i w by (simp_all add: swap_out_def slot_allozieren_def Let_def split: if_splits)
  have "lookup_get ?w s1 = lookup_get ?w (lookup_set ?w (int i) ?s)" unfolding s1 by (rule lookup_get_aus)
  with lookup_get_set [of ?w "int i" ?s] have "lookup_get ?w s1 = int i \<or> lookup_get ?w s1 = - 1" by simp
  with that [OF b w [unfolded r]] show thesis by (simp add: s1 b(1))
qed

lemma swap_in_cases:
  assumes "swap_in None v k s = (0, s2)"
  obtains a pm bs where "pmm_alloc_page (pg_pmm (sw_pg s)) = (a, pm)" "a \<noteq> 0"
    "ide_read None (sw_laufwerk s) (sw_lba_start s + k * 8) 8 (sw_ide s) = (0, bs)"
    "sw_pg s2 = snd (paging_map_page (v AND PAGE_MASK) a (PDE_PRESENT OR PDE_WRITABLE OR PDE_USER)
       ((sw_pg s)\<lparr>pg_pmm := pm\<lparr>pmem := frame_store a bs (pmem pm)\<rparr>\<rparr>))"
proof -
  obtain a pm where al: "pmm_alloc_page (pg_pmm (sw_pg s)) = (a, pm)" by fastforce
  obtain r bs where rd: "ide_read None (sw_laufwerk s) (sw_lba_start s + k * 8) 8 (sw_ide s) = (r, bs)" by fastforce
  have "sw_bereit s" "a \<noteq> 0" "r = 0" using assms al rd by (auto simp: swap_in_def Let_def split: if_splits)
  then show thesis using assms al rd that by (auto simp: swap_in_def Let_def split: if_splits)
qed

lemma swap_roundtrip_spec:
  assumes inv: "pg_inv (sw_pg s)" and t: "has_table (sw_pg s) (pd_index (v AND PAGE_MASK))"
    and own: "paging_get_phys (sw_pg s) (v AND PAGE_MASK) \<in> pmm_owned (pg_pmm (sw_pg s))"
    and nt: "\<And>i. i < PD_ENTRIES \<Longrightarrow> has_table (sw_pg s) i \<Longrightarrow> table_of (sw_pg s) i \<noteq> paging_get_phys (sw_pg s) (v AND PAGE_MASK)"
    and o: "swap_out None v s = (0, s1)" and l: "lookup_get (v AND PAGE_MASK) s1 \<noteq> - 1"
    and i: "swap_in None v (of_int (lookup_get (v AND PAGE_MASK) s1)) s1 = (0, s2)"
  shows "paging_get_phys (sw_pg s1) (v AND PAGE_MASK) = 0 \<and> paging_get_phys (sw_pg s2) (v AND PAGE_MASK) \<noteq> 0 \<and>
    frame_bytes (pmem (pg_pmm (sw_pg s2))) (paging_get_phys (sw_pg s2) (v AND PAGE_MASK)) =
    frame_bytes (pmem (pg_pmm (sw_pg s))) (paging_get_phys (sw_pg s) (v AND PAGE_MASK))"
proof -
  let ?w = "v AND PAGE_MASK"
  define ph where "ph = paging_get_phys (sw_pg s) ?w"
  define u where "u = paging_unmap_page ?w (sw_pg s)"
  let ?buf = "frame_bytes (pmem (pg_pmm (sw_pg s))) ph"
  have idx: "pd_index ?w < PD_ENTRIES" by (simp add: PD_ENTRIES_def pd_index_less)
  obtain k ide where O: "ph \<noteq> 0" "ide_write None (sw_laufwerk s) (sw_lba_start s + of_nat k * 8) 8 ?buf (sw_ide s) = (0, ide)"
    "sw_ide s1 = ide" "sw_laufwerk s1 = sw_laufwerk s" "sw_lba_start s1 = sw_lba_start s"
    "sw_pg s1 = u\<lparr>pg_pmm := pmm_free_page ph (pg_pmm u)\<rparr>" "lookup_get ?w s1 = int k"
    by (rule swap_out_cases [OF o]) (use l in \<open>auto simp: ph_def u_def\<close>)
  have u: "u = set_pte ?w 0 (sw_pg s)"
  proof -
    have "table_of (sw_pg s) (pd_index ?w) \<noteq> 0" using inv t idx by (simp add: pg_inv_def)
    then show ?thesis
      using t by (simp add: u_def paging_unmap_page_def get_or_alloc_pt_def has_table_def table_of_def set_pte_def Let_def)
  qed
  have uinv: "pg_inv u" using inv by (simp add: u)
  have fr: "pg_inv (sw_pg s1)" "paging_get_phys (sw_pg s1) ?w = paging_get_phys u ?w"
    "has_table (sw_pg s1) = has_table (sw_pg s)" "table_of (sw_pg s1) = table_of (sw_pg s)"
    using free_page_keeps [OF uinv, of ph] own nt O(1) by (simp_all add: O(6) ph_def u)
  have zero: "paging_get_phys (sw_pg s1) ?w = 0"
    unfolding fr(2) u using get_phys_set_pte [OF inv t, of 0 ?w] by simp
  obtain a pm bs where I: "pmm_alloc_page (pg_pmm (sw_pg s1)) = (a, pm)" "a \<noteq> 0"
    "ide_read None (sw_laufwerk s1) (sw_lba_start s1 + of_nat k * 8) 8 (sw_ide s1) = (0, bs)"
    "sw_pg s2 = snd (paging_map_page ?w a (PDE_PRESENT OR PDE_WRITABLE OR PDE_USER)
       ((sw_pg s1)\<lparr>pg_pmm := pm\<lparr>pmem := frame_store a bs (pmem pm)\<rparr>\<rparr>))"
    by (rule swap_in_cases [OF i]) (auto simp: O(7))
  have bs: "bs = ?buf"
    using ide_read_write [OF O(2)] I(3) by (simp add: O IDE_SECTOR_SIZE_def)
  have pinv: "pmm_inv (pg_pmm (sw_pg s1))" using fr(1) by (simp add: pg_inv_def)
  note fresh = pmm_alloc_page_fresh [OF pinv I(1)]
  have new: "a \<notin> pmm_owned (pg_pmm (sw_pg s1))" "unat a mod 4096 = 0" "pmm_owned pm = insert a (pmm_owned (pg_pmm (sw_pg s1)))"
    using fresh(2) [OF I(2)] by blast+
  define g where "g = (sw_pg s1)\<lparr>pg_pmm := pm\<lparr>pmem := frame_store a bs (pmem pm)\<rparr>\<rparr>"
  have "pmm_inv (pm\<lparr>pmem := frame_store a bs (pmem pm)\<rparr>)"
    "pmm_owned (pm\<lparr>pmem := frame_store a bs (pmem pm)\<rparr>) = insert a (pmm_owned (pg_pmm (sw_pg s1)))"
    using fresh(1) new(3) by (simp_all add: pmm_owned_def)
  note keep = frame_alloc_keeps [OF fr(1) this new(1,2)]
  have same: "frame_store a bs (pmem pm) x = pmem (pg_pmm (sw_pg s1)) x" if "\<not> unat (x - a) < 4096" for x
    using that fresh(3) [OF I(2)] bs by (simp add: frame_store_def)
  have ginv: "pg_inv g" unfolding g_def by (rule keep(1)) (simp add: same)
  have gt: "has_table g = has_table (sw_pg s1)" unfolding g_def by (rule keep(3)) (simp add: same)
  have gtab: "table_of g = table_of (sw_pg s1)" unfolding g_def by (rule keep(4)) (simp add: same)
  have ht: "has_table g (pd_index ?w)" using t by (simp add: gt fr(3))
  obtain e where m: "paging_map_page ?w a (PDE_PRESENT OR PDE_WRITABLE OR PDE_USER) g = (0, set_pte ?w e g)"
    by (rule map_page_set_pte [OF ginv ht])
  have s2: "sw_pg s2 = set_pte ?w e g" using I(4) m by (simp add: g_def)
  have am: "a AND PAGE_MASK = a" using mask_of_aligned [OF new(2), of 0] by simp
  have w0: "?w AND 0xFFF = 0"
    by (rule bit_word_eqI, simp only: bit_and_iff bit_PAGE_MASK bit_0xFFF bit_0_eq bot_apply) auto
  have phys: "paging_get_phys (sw_pg s2) ?w = a"
    using paging_map_page_spec(4) [OF ginv m, of ?w] unfolding s2 am w0 by simp
  have "table_of g (pd_index ?w) \<noteq> a" using ht fr(1) idx new(1) by (auto simp: gt gtab pg_inv_def)
  from set_pte_other_frame [OF new(2) this]
  have "pmem (pg_pmm (sw_pg s2)) (a + of_nat j) = ?buf ! j" if "j < 4096" for j
    using that bs by (simp add: s2 g_def frame_store_def unat_of_nat)
  then have "frame_bytes (pmem (pg_pmm (sw_pg s2))) a = ?buf"
    by (intro nth_equalityI) (simp_all add: frame_bytes_def)
  then show ?thesis using zero phys I(2) by (simp add: ph_def)
qed

section \<open>Properties\<close>

text \<open>C5: a page that is swapped out is unmapped, and swapping it in again from the slot the table records
  maps it to a frame with the bytes it had, whatever frame that is.\<close>

theorem swap_roundtrip:
  assumes "pg_inv (sw_pg s)" "has_table (sw_pg s) (pd_index (v AND PAGE_MASK))"
    and "paging_get_phys (sw_pg s) (v AND PAGE_MASK) \<in> pmm_owned (pg_pmm (sw_pg s))"
    and "\<And>i. i < PD_ENTRIES \<Longrightarrow> has_table (sw_pg s) i \<Longrightarrow> table_of (sw_pg s) i \<noteq> paging_get_phys (sw_pg s) (v AND PAGE_MASK)"
    and "swap_out None v s = (0, s1)" "lookup_get (v AND PAGE_MASK) s1 \<noteq> - 1"
    and "swap_in None v (of_int (lookup_get (v AND PAGE_MASK) s1)) s1 = (0, s2)"
  shows "paging_get_phys (sw_pg s1) (v AND PAGE_MASK) = 0 \<and> paging_get_phys (sw_pg s2) (v AND PAGE_MASK) \<noteq> 0 \<and>
    frame_bytes (pmem (pg_pmm (sw_pg s2))) (paging_get_phys (sw_pg s2) (v AND PAGE_MASK)) =
    frame_bytes (pmem (pg_pmm (sw_pg s))) (paging_get_phys (sw_pg s) (v AND PAGE_MASK))"
  by (rule swap_roundtrip_spec [OF assms])

definition swap_example :: swap where
  "swap_example = \<lparr>sw_bereit = True, sw_laufwerk = 0, sw_lba_start = 1, sw_slot_count = 1, sw_bitmap = [0],
     sw_lookup = [\<lparr>se_virt = 0, se_slot = 0\<rparr>], sw_aus = 0, sw_ein = 0, sw_pg = paging_example,
     sw_ide = \<lparr>ide_drives = [\<lparr>dr_exists = True, dr_base = 0x1F0, dr_ctrl = 0x3F6, dr_drive = 0, dr_channel = 0,
        dr_lba28 = 100, dr_model = []\<rparr>], ide_count = 1, ide_sectors = (\<lambda>_ _. [])\<rparr>\<rparr>"

lemma swap_example_simps:
  "sw_bereit swap_example" "sw_laufwerk swap_example = 0" "sw_slot_count swap_example = 1" "sw_bitmap swap_example = [0]"
  "sw_pg swap_example = paging_example" "ide_has 0 (sw_ide swap_example)"
  "sw_lookup swap_example = [\<lparr>se_virt = 0, se_slot = 0\<rparr>]"
  by (simp_all add: swap_example_def ide_has_def IDE_MAX_DRIVES_def)

lemma ide_write_ok: "ide_has drv s \<Longrightarrow> \<exists>s'. ide_write None drv lba n buf s = (0, s') \<and> ide_has drv s'"
  by (simp add: ide_write_def ide_has_def Let_def)

lemma ide_read_ok: "ide_has drv s \<Longrightarrow> \<exists>bs. ide_read None drv lba n s = (0, bs)"
  by (simp add: ide_read_def Let_def)

lemma swap_example_out:
  "\<exists>s1. swap_out None 0xD0000000 swap_example = (0, s1) \<and> lookup_get 0xD0000000 s1 = 0 \<and> sw_bereit s1 \<and>
     ide_has (sw_laufwerk s1) (sw_ide s1) \<and> pmm_inv (pg_pmm (sw_pg s1)) \<and> 2 \<in> free_set (pg_pmm (sw_pg s1))"
proof -
  let ?w = "0xD0000000 :: u32"
  have m: "0xD0000000 AND PAGE_MASK = ?w" by (simp add: PAGE_MASK_def)
  have f: "find (\<lambda>i. \<not> bm_test [0 :: u8] i) [0..<unat (1 :: u32)] = Some 0" by (simp add: bm_test_def)
  obtain ide where w: "ide_write None 0 (sw_lba_start swap_example + of_int 0 * 8) 8 (frame_bytes (pmem (pg_pmm paging_example)) 0x3000)
      (sw_ide swap_example) = (0, ide)" "ide_has 0 ide"
    using ide_write_ok [OF swap_example_simps(6)] by blast
  define u where "u = paging_unmap_page ?w paging_example"
  define sx where "sx = swap_example\<lparr>sw_bitmap := bm_set [0] 0, sw_ide := ide, sw_pg := u\<lparr>pg_pmm := pmm_free_page 0x3000 (pg_pmm u)\<rparr>\<rparr>"
  have out: "swap_out None ?w swap_example = (0, (lookup_set ?w 0 sx)\<lparr>sw_aus := sw_aus (lookup_set ?w 0 sx) + 1\<rparr>)"
    using w f by (simp add: swap_out_def m swap_example_simps paging_example_phys slot_allozieren_def Let_def u_def sx_def)
  have "sw_lookup sx = [\<lparr>se_virt = 0, se_slot = 0\<rparr>]" by (simp add: sx_def swap_example_simps)
  then have l: "lookup_get ?w (lookup_set ?w 0 sx) = 0" by (simp add: lookup_set_def lookup_get_def)
  have ht: "has_table paging_example (pd_index ?w)" by (simp add: page_0xD0000 paging_example_table PD_ENTRIES_def)
  have "pg_inv u" unfolding u_def by (rule paging_unmap_page_spec(1) [OF paging_example_inv]) (use ht in blast)
  then have pinv: "pmm_inv (pg_pmm u)" by (simp add: pg_inv_def)
  have "pmm_inv (pg_pmm (sw_pg sx))" using pmm_free_page_inv [OF pinv] by (simp add: sx_def)
  moreover have "free_set (pg_pmm u) = {2}"
    using pmm_example_free by (auto simp: u_def paging_unmap_page_def get_or_alloc_pt_def Let_def paging_example_def)
  then have "2 \<in> free_set (pg_pmm (sw_pg sx))" using pmm_free_page_free [OF pinv] by (auto simp: sx_def)
  moreover have "sw_bereit sx" "ide_has (sw_laufwerk sx) (sw_ide sx)" using w(2) by (simp_all add: sx_def swap_example_simps)
  ultimately show ?thesis using l unfolding out by (simp add: lookup_get_aus)
qed

theorem swap_roundtrip_witness:
  "\<exists>s1 s2. swap_out None 0xD0000000 swap_example = (0, s1) \<and> swap_in None 0xD0000000 0 s1 = (0, s2) \<and>
     paging_get_phys (sw_pg s1) 0xD0000000 = 0 \<and>
     frame_bytes (pmem (pg_pmm (sw_pg s2))) (paging_get_phys (sw_pg s2) 0xD0000000) =
     frame_bytes (pmem (pg_pmm (sw_pg swap_example))) 0x3000"
proof -
  have m: "0xD0000000 AND PAGE_MASK = 0xD0000000" by (simp add: PAGE_MASK_def)
  have pg: "sw_pg swap_example = paging_example" by (simp add: swap_example_def)
  have own: "paging_get_phys paging_example 0xD0000000 \<in> pmm_owned (pg_pmm paging_example)"
    using paging_example_owned(2) by (simp add: paging_example_phys PFN_TO_ADDR_def)
  have ht: "has_table paging_example (pd_index 0xD0000000)"
    by (simp add: page_0xD0000 paging_example_table PD_ENTRIES_def)
  have nt: "\<And>i. i < PD_ENTRIES \<Longrightarrow> has_table paging_example i \<Longrightarrow> table_of paging_example i \<noteq> paging_get_phys paging_example 0xD0000000"
    by (auto simp: paging_example_table paging_example_phys)
  obtain s1 where s1: "swap_out None 0xD0000000 swap_example = (0, s1)" "lookup_get 0xD0000000 s1 = 0" "sw_bereit s1"
    "ide_has (sw_laufwerk s1) (sw_ide s1)" "pmm_inv (pg_pmm (sw_pg s1))" "2 \<in> free_set (pg_pmm (sw_pg s1))"
    using swap_example_out by blast
  obtain a pm where al: "pmm_alloc_page (pg_pmm (sw_pg s1)) = (a, pm)" by fastforce
  have "a \<noteq> 0" using pmm_alloc_page_avail [OF s1(5,6)] al by simp
  moreover obtain bs where "ide_read None (sw_laufwerk s1) (sw_lba_start s1 + 0 * 8) 8 (sw_ide s1) = (0, bs)"
    using ide_read_ok [OF s1(4)] by blast
  ultimately have "\<exists>s2. swap_in None 0xD0000000 0 s1 = (0, s2)"
    using al s1(3) by (simp add: swap_in_def Let_def)
  then obtain s2 where s2: "swap_in None 0xD0000000 0 s1 = (0, s2)" ..
  from swap_roundtrip [of swap_example "0xD0000000" s1 s2, unfolded m pg, OF paging_example_inv ht own nt s1(1)]
  show ?thesis using s1(1,2) s2 by (auto simp: pg paging_example_phys)
qed

end
