(* ===== verification/Slab.thy ===== *)
theory Slab
  imports PhysAlloc KString
begin

text \<open>
  The slab allocator (\<open>mm/slab.c\<close>). Slab descriptors are heap objects linked by pointers and the
  three lists of a cache can share a descriptor, so descriptors are kept in a map from their
  address (0 is \<open>NULL\<close>) with explicit \<open>next\<close> pointers; the free list of a slab runs through the
  slab's own memory. The address the heap returns for a new descriptor is an argument.
\<close>

definition SLAB_NAME_LEN :: nat where "SLAB_NAME_LEN = 32"
definition SLAB_MAX_CACHES :: nat where "SLAB_MAX_CACHES = 64"

record slab =
  sl_base :: u32
  sl_total :: u32
  sl_free_count :: u32
  sl_freelist :: u32
  sl_next :: u32

record slab_cache =
  sc_name :: "u8 list"
  sc_obj_size :: u32
  sc_obj_align :: u32
  sc_objs_per_slab :: u32
  sc_slab_pages :: u32
  sc_partial :: u32
  sc_full :: u32
  sc_empty :: u32
  sc_alloc_count :: u64
  sc_free_count :: u64

record slab_heap =
  sm_slabs :: "u32 \<Rightarrow> slab"
  sm_pmm :: pmm

definition slab_stride :: "slab_cache \<Rightarrow> u32" where
  "slab_stride c = align_up (sc_obj_size c) (sc_obj_align c)"

text \<open>The free list: slot \<open>i\<close> points to slot \<open>i + 1\<close>, the last one to \<open>NULL\<close>.\<close>

definition slab_chain :: "u32 \<Rightarrow> u32 \<Rightarrow> u32 \<Rightarrow> mem \<Rightarrow> mem" where
  "slab_chain p stride objs m =
     (let m = fold (\<lambda>i m. store32 m (p + of_nat i * stride) (p + (of_nat i + 1) * stride)) [0..<unat (objs - 1)] m
      in store32 m (p + (objs - 1) * stride) 0)"

definition slab_new :: "u32 \<Rightarrow> slab_cache \<Rightarrow> slab_heap \<Rightarrow> u32 \<times> slab_heap" where
  "slab_new desc c s =
     (if desc = 0 then (0, s)
      else
        let (phys, pm) = pmm_alloc_pages (unat (sc_slab_pages c)) (sm_pmm s) in
        if phys = 0 then (0, s\<lparr>sm_pmm := pm\<rparr>)
        else (desc, \<lparr>sm_slabs = (sm_slabs s)(desc := \<lparr>sl_base = phys, sl_total = sc_objs_per_slab c,
                 sl_free_count = sc_objs_per_slab c, sl_freelist = phys, sl_next = 0\<rparr>),
               sm_pmm = pm\<lparr>pmem := slab_chain phys (slab_stride c) (sc_objs_per_slab c) (pmem pm)\<rparr>\<rparr>))"

text \<open>The loop that widens a slab to at most 4 pages until it holds 8 objects.\<close>

function slab_widen :: "nat \<Rightarrow> nat \<Rightarrow> nat" where
  "slab_widen pages stride = (if pages * 4096 div stride < 8 \<and> pages < 4 then slab_widen (Suc pages) stride else pages)"
  by pat_completeness auto
termination by (relation "measure (\<lambda>(pages, stride). 4 - pages)") auto

declare slab_widen.simps [simp del]

text \<open>\<open>n\<close> is the number of caches so far, \<open>ok\<close> whether the heap has room for the descriptor.\<close>

definition slab_cache_create :: "nat \<Rightarrow> bool \<Rightarrow> u8 list option \<Rightarrow> u32 \<Rightarrow> u32 \<Rightarrow> slab_cache option" where
  "slab_cache_create n ok name obj_size al =
     (if n \<ge> SLAB_MAX_CACHES then None
      else
        let obj_size = (if obj_size < 4 then 4 else obj_size) in
        if \<not> ok then None
        else
          let al = (if al \<noteq> 0 then al else 8);
              stride = align_up obj_size al;
              pages = slab_widen 1 (unat stride)
          in Some \<lparr>sc_name = strncpy (case name of Some nm \<Rightarrow> nm | None \<Rightarrow> [63]) (SLAB_NAME_LEN - 1) @ [0],
               sc_obj_size = obj_size, sc_obj_align = al, sc_objs_per_slab = of_nat (pages * 4096 div unat stride),
               sc_slab_pages = of_nat pages, sc_partial = 0, sc_full = 0, sc_empty = 0,
               sc_alloc_count = 0, sc_free_count = 0\<rparr>)"

definition slab_alloc :: "u32 \<Rightarrow> slab_cache \<Rightarrow> slab_heap \<Rightarrow> u32 \<times> slab_cache \<times> slab_heap" where
  "slab_alloc desc c s =
     (let sl = (if sc_partial c \<noteq> 0 then sc_partial c else sc_empty c);
          (sl, s) = (if sl \<noteq> 0 then (sl, s) else slab_new desc c s)
      in if sl = 0 then (0, c, s)
         else
           let d = sm_slabs s sl;
               obj = sl_freelist d;
               d = d\<lparr>sl_freelist := load32 (pmem (sm_pmm s)) (sl_freelist d), sl_free_count := sl_free_count d - 1\<rparr>;
               c = c\<lparr>sc_alloc_count := sc_alloc_count c + 1\<rparr>;
               (d, c) =
                 (if sl_free_count d = 0 then
                    (let c = (if sc_partial c = sl then c\<lparr>sc_partial := sl_next d\<rparr> else c)
                     in (d\<lparr>sl_next := sc_full c\<rparr>, c\<lparr>sc_full := sl\<rparr>))
                  else if sl_free_count d = sl_total d - 1 then
                    (let c = (if sc_empty c = sl then c\<lparr>sc_empty := sl_next d\<rparr> else c)
                     in (d\<lparr>sl_next := sc_partial c\<rparr>, c\<lparr>sc_partial := sl\<rparr>))
                  else (d, c))
           in (obj, c, \<lparr>sm_slabs = (sm_slabs s)(sl := d),
                 sm_pmm = (sm_pmm s)\<lparr>pmem := memset obj 0 (unat (sc_obj_size c)) (pmem (sm_pmm s))\<rparr>\<rparr>))"

text \<open>The walk along one list: the descriptor that owns \<open>obj\<close> with its predecessor (0 for the head).
  \<open>None\<close> when the list runs in a circle that does not hold it.\<close>

partial_function (option) slab_walk :: "(u32 \<Rightarrow> slab) \<Rightarrow> u32 \<Rightarrow> u32 \<Rightarrow> u32 \<Rightarrow> u32 \<Rightarrow> (u32 \<times> u32) option" where
  "slab_walk slabs slab_bytes obj prev sl =
     (if sl = 0 then Some (0, prev)
      else if obj \<ge> sl_base (slabs sl) \<and> obj < sl_base (slabs sl) + slab_bytes then Some (sl, prev)
      else slab_walk slabs slab_bytes obj sl (sl_next (slabs sl)))"

text \<open>Unlinking it from the list that starts at \<open>head\<close>: the new head and the new descriptors.\<close>

definition slab_unlink :: "u32 \<Rightarrow> u32 \<Rightarrow> u32 \<Rightarrow> (u32 \<Rightarrow> slab) \<Rightarrow> u32 \<times> (u32 \<Rightarrow> slab)" where
  "slab_unlink sl prev head slabs =
     (if prev \<noteq> 0 then (head, slabs(prev := (slabs prev)\<lparr>sl_next := sl_next (slabs sl)\<rparr>))
      else (sl_next (slabs sl), slabs))"

definition slab_find :: "slab_cache \<Rightarrow> (u32 \<Rightarrow> slab) \<Rightarrow> u32 \<Rightarrow> (u32 \<times> slab_cache \<times> (u32 \<Rightarrow> slab)) option" where
  "slab_find c slabs obj =
     (let bytes = sc_slab_pages c * 4096 in
      case slab_walk slabs bytes obj 0 (sc_full c) of
        None \<Rightarrow> None
      | Some (sl, prev) \<Rightarrow>
          if sl \<noteq> 0 then (let (h, slabs) = slab_unlink sl prev (sc_full c) slabs in Some (sl, c\<lparr>sc_full := h\<rparr>, slabs))
          else case slab_walk slabs bytes obj 0 (sc_partial c) of
            None \<Rightarrow> None
          | Some (sl, prev) \<Rightarrow>
              if sl \<noteq> 0 then (let (h, slabs) = slab_unlink sl prev (sc_partial c) slabs in Some (sl, c\<lparr>sc_partial := h\<rparr>, slabs))
              else case slab_walk slabs bytes obj 0 (sc_empty c) of
                None \<Rightarrow> None
              | Some (sl, prev) \<Rightarrow>
                  if sl \<noteq> 0 then (let (h, slabs) = slab_unlink sl prev (sc_empty c) slabs in Some (sl, c\<lparr>sc_empty := h\<rparr>, slabs))
                  else Some (0, c, slabs))"

text \<open>\<open>None\<close>: the panic for a foreign object, or the endless walk.\<close>

definition slab_free :: "slab_cache \<Rightarrow> u32 \<Rightarrow> slab_heap \<Rightarrow> (slab_cache \<times> slab_heap) option" where
  "slab_free c obj s =
     (if obj = 0 then Some (c, s)
      else case slab_find c (sm_slabs s) obj of
        None \<Rightarrow> None
      | Some (sl, c, slabs) \<Rightarrow>
          if sl = 0 then None
          else
            let d = slabs sl;
                m = store32 (pmem (sm_pmm s)) obj (sl_freelist d);
                d = d\<lparr>sl_freelist := obj, sl_free_count := sl_free_count d + 1\<rparr>;
                c = c\<lparr>sc_free_count := sc_free_count c + 1\<rparr>;
                (d, c) = (if sl_free_count d = sl_total d then (d\<lparr>sl_next := sc_empty c\<rparr>, c\<lparr>sc_empty := sl\<rparr>)
                          else (d\<lparr>sl_next := sc_partial c\<rparr>, c\<lparr>sc_partial := sl\<rparr>))
            in Some (c, \<lparr>sm_slabs = slabs(sl := d), sm_pmm = (sm_pmm s)\<lparr>pmem := m\<rparr>\<rparr>))"

text \<open>Destroying a cache frees the pages along its \<open>empty\<close> list; \<open>None\<close> when that list is a circle.\<close>

partial_function (option) slab_destroy_walk :: "u32 \<Rightarrow> u32 \<Rightarrow> slab_heap \<Rightarrow> slab_heap option" where
  "slab_destroy_walk pages sl s =
     (if sl = 0 then Some s
      else slab_destroy_walk pages (sl_next (sm_slabs s sl))
             (s\<lparr>sm_pmm := pmm_free_pages (sl_base (sm_slabs s sl)) (unat pages) (sm_pmm s)\<rparr>))"

definition slab_cache_destroy :: "slab_cache \<Rightarrow> slab_heap \<Rightarrow> slab_heap option" where
  "slab_cache_destroy c s = slab_destroy_walk (sc_slab_pages c) (sc_empty c) s"

section \<open>Geometry\<close>

lemma slab_widen_bounds: "1 \<le> pages \<Longrightarrow> pages \<le> 4 \<Longrightarrow> 1 \<le> slab_widen pages stride \<and> slab_widen pages stride \<le> 4"
proof (induction pages stride rule: slab_widen.induct)
  case (1 pages stride)
  then show ?case by (cases "pages * 4096 div stride < 8 \<and> pages < 4") (simp_all add: slab_widen.simps [of pages stride])
qed

lemma slab_geometry:
  assumes "slab_cache_create n ok name sz al = Some c"
  shows "unat (sc_objs_per_slab c) * unat (slab_stride c) \<le> unat (sc_slab_pages c) * 4096"
    "1 \<le> unat (sc_slab_pages c)" "unat (sc_slab_pages c) \<le> 4"
proof -
  define z where "z = (if sz < 4 then 4 else sz)"
  define a where "a = (if al \<noteq> 0 then al else 8)"
  define p where "p = slab_widen 1 (unat (align_up z a))"
  have p: "1 \<le> p" "p \<le> 4" using slab_widen_bounds [of 1] by (simp_all add: p_def)
  have c: "sc_slab_pages c = of_nat p" "slab_stride c = align_up z a" "sc_objs_per_slab c = of_nat (p * 4096 div unat (align_up z a))"
    using assms by (auto simp: slab_cache_create_def Let_def z_def a_def p_def slab_stride_def split: if_splits)
  have u: "unat (of_nat p :: u32) = p" using p by (simp add: unat_of_nat)
  have "p * 4096 div unat (align_up z a) \<le> p * 4096" by (rule div_le_dividend)
  then have "p * 4096 div unat (align_up z a) \<le> 16384" using p by linarith
  then have "unat (of_nat (p * 4096 div unat (align_up z a)) :: u32) = p * 4096 div unat (align_up z a)" by (simp add: unat_of_nat)
  then show "unat (sc_objs_per_slab c) * unat (slab_stride c) \<le> unat (sc_slab_pages c) * 4096"
    unfolding c u by (metis div_times_less_eq_dividend)
  show "1 \<le> unat (sc_slab_pages c)" "unat (sc_slab_pages c) \<le> 4" unfolding c u using p by blast+
qed

text \<open>With one object per slab, an allocation from the \<open>empty\<close> list leaves the slab there while it also
  enters the \<open>full\<close> list.\<close>

lemma slab_single_object_aliased:
  assumes "sc_partial c = 0" "sc_empty c = sl" "sl \<noteq> 0" "sl_free_count (sm_slabs s sl) = 1"
  shows "sc_empty (fst (snd (slab_alloc desc c s))) = sl" "sc_full (fst (snd (slab_alloc desc c s))) = sl"
  using assms by (simp_all add: slab_alloc_def Let_def)

end
