(* ===== verification/Process.thy ===== *)
theory Process
  imports Paging KString
begin

text \<open>
  Processes, signals and virtual memory areas (\<open>mm/process.c\<close>) and the page-fault handler of
  \<open>mm/paging.c\<close>, which looks them up. A process pointer is its index in the table. The list of
  areas holds the areas themselves; whether the slab allocator has room for a new one is an
  argument. Handlers other than \<open>SIG_DFL\<close> and \<open>SIG_IGN\<close> are code outside the kernel: the
  signals they are called with are returned.
\<close>

section \<open>State (include/process.h)\<close>

definition SIGKILL :: nat where "SIGKILL = 9"
definition SIGTERM :: nat where "SIGTERM = 15"
definition SIGCHLD :: nat where "SIGCHLD = 17"
definition SIGCONT :: nat where "SIGCONT = 18"
definition SIGSTOP :: nat where "SIGSTOP = 19"
definition NSIG :: nat where "NSIG = 32"
definition SIG_DFL :: u32 where "SIG_DFL = 0"
definition SIG_IGN :: u32 where "SIG_IGN = 1"
definition VMA_WRITE :: u32 where "VMA_WRITE = 2"
definition PROC_MAX :: nat where "PROC_MAX = 64"
definition PROC_NAME_LEN :: nat where "PROC_NAME_LEN = 32"

record vma =
  vma_start :: u32
  vma_end :: u32
  vma_flags :: u32
  vma_file_offset :: u32

datatype proc_state = PROC_UNUSED | PROC_RUNNING | PROC_READY | PROC_BLOCKED | PROC_ZOMBIE | PROC_STOPPED

record process =
  pr_pid :: u32
  pr_ppid :: u32
  pr_pgid :: u32
  pr_sid :: u32
  pr_state :: proc_state
  pr_exit_code :: int
  pr_cr3 :: u32
  pr_vmas :: "vma list"
  sig_pending :: u32
  sig_mask :: u32
  sig_handlers :: "u32 list"
  pr_kstack_top :: u32
  pr_kstack_phys :: u32
  pr_name :: "u8 list"

record proc_table =
  pt_procs :: "process list"
  pt_current :: "nat option"
  pt_next_pid :: u32
  pt_pg :: paging

definition proc_zero :: process where
  "proc_zero = \<lparr>pr_pid = 0, pr_ppid = 0, pr_pgid = 0, pr_sid = 0, pr_state = PROC_UNUSED, pr_exit_code = 0,
     pr_cr3 = 0, pr_vmas = [], sig_pending = 0, sig_mask = 0, sig_handlers = replicate NSIG SIG_DFL,
     pr_kstack_top = 0, pr_kstack_phys = 0, pr_name = replicate PROC_NAME_LEN 0\<rparr>"

definition upd_proc :: "nat \<Rightarrow> (process \<Rightarrow> process) \<Rightarrow> proc_table \<Rightarrow> proc_table" where
  "upd_proc i f s = s\<lparr>pt_procs := (pt_procs s)[i := f (pt_procs s ! i)]\<rparr>"

section \<open>Areas\<close>

definition vma_find :: "vma list \<Rightarrow> u32 \<Rightarrow> nat option" where
  "vma_find vs addr = find_idx (\<lambda>v. addr \<ge> vma_start v \<and> addr < vma_end v) vs"

text \<open>The new area goes before the first one that does not start below it.\<close>

definition vma_insert :: "bool \<Rightarrow> u32 \<Rightarrow> u32 \<Rightarrow> u32 \<Rightarrow> vma list \<Rightarrow> nat option \<times> vma list" where
  "vma_insert ok start end_addr flags vs =
     (if \<not> ok then (None, vs)
      else
        let v = \<lparr>vma_start = align_down start 4096, vma_end = align_up end_addr 4096, vma_flags = flags, vma_file_offset = 0\<rparr>;
            before = takeWhile (\<lambda>u. vma_start u < vma_start v) vs
        in (Some (length before), before @ v # drop (length before) vs))"

definition vma_remove :: "nat \<Rightarrow> vma list \<Rightarrow> vma list" where
  "vma_remove i vs = take i vs @ drop (Suc i) vs"

section \<open>Processes\<close>

definition proc_init :: "proc_table \<Rightarrow> proc_table" where
  "proc_init s = s\<lparr>pt_procs := replicate PROC_MAX proc_zero, pt_current := None\<rparr>"

definition proc_find :: "u32 \<Rightarrow> proc_table \<Rightarrow> nat option" where
  "proc_find pid s = find_idx (\<lambda>p. pr_pid p = pid \<and> pr_state p \<noteq> PROC_UNUSED) (pt_procs s)"

definition proc_create :: "u8 list option \<Rightarrow> proc_table \<Rightarrow> nat option \<times> proc_table" where
  "proc_create name s =
     (case find_idx (\<lambda>p. pr_state p = PROC_UNUSED) (pt_procs s) of
        None \<Rightarrow> (None, s)
      | Some i \<Rightarrow>
          let pid = pt_next_pid s;
              ppid = (case pt_current s of Some c \<Rightarrow> pr_pid (pt_procs s ! c) | None \<Rightarrow> 0);
              (kstack, pm) = pmm_alloc_pages 2 (pg_pmm (pt_pg s));
              p = proc_zero\<lparr>pr_pid := pid, pr_ppid := (if pt_current s = Some i then pid else ppid), pr_pgid := pid, pr_sid := pid,
                    pr_state := PROC_READY,
                    pr_name := strncpy (case name of Some n \<Rightarrow> n | None \<Rightarrow> asc ''unknown'') (PROC_NAME_LEN - 1) @ [0],
                    pr_kstack_phys := kstack, pr_kstack_top := kstack + 2 * 4096\<rparr>
          in (Some i, s\<lparr>pt_procs := (pt_procs s)[i := p], pt_next_pid := pid + 1,
                pt_pg := (pt_pg s)\<lparr>pg_pmm := pm\<rparr>\<rparr>))"

section \<open>Signals\<close>

definition sig_default_action :: "nat \<Rightarrow> process \<Rightarrow> process" where
  "sig_default_action sig p =
     (if sig = SIGKILL \<or> sig = SIGTERM then p\<lparr>pr_state := PROC_ZOMBIE, pr_exit_code := 128 + int sig\<rparr>
      else if sig = SIGSTOP then p\<lparr>pr_state := PROC_STOPPED\<rparr>
      else if sig = SIGCONT then (if pr_state p = PROC_STOPPED then p\<lparr>pr_state := PROC_READY\<rparr> else p)
      else if sig = SIGCHLD then p
      else p\<lparr>pr_state := PROC_ZOMBIE, pr_exit_code := 128 + int sig\<rparr>)"

definition proc_signal :: "int \<Rightarrow> process \<Rightarrow> process" where
  "proc_signal sig p =
     (if sig \<le> 0 \<or> sig \<ge> int NSIG then p
      else if sig_mask p AND push_bit (nat sig) 1 \<noteq> 0 then p
      else p\<lparr>sig_pending := sig_pending p OR push_bit (nat sig) 1\<rparr>)"

definition proc_set_sighandler :: "int \<Rightarrow> u32 \<Rightarrow> process \<Rightarrow> process" where
  "proc_set_sighandler sig handler p =
     (if sig \<le> 0 \<or> sig \<ge> int NSIG then p
      else if sig = int SIGKILL \<or> sig = int SIGSTOP then p
      else p\<lparr>sig_handlers := (sig_handlers p)[nat sig := handler]\<rparr>)"

text \<open>One turn of the delivery loop, and the loop: the process and the calls of its handlers.\<close>

definition deliver_one :: "nat \<Rightarrow> process \<times> (u32 \<times> nat) list \<Rightarrow> process \<times> (u32 \<times> nat) list" where
  "deliver_one sig pc =
     (let (p, calls) = pc in
      if sig_pending p AND push_bit sig 1 = 0 then (p, calls)
      else
        let p = p\<lparr>sig_pending := sig_pending p AND NOT (push_bit sig 1)\<rparr>; h = sig_handlers p ! sig
        in if h = SIG_IGN then (p, calls)
           else if h = SIG_DFL then (sig_default_action sig p, calls)
           else (p, calls @ [(h, sig)]))"

definition proc_handle_signals :: "process \<Rightarrow> process \<times> (u32 \<times> nat) list" where
  "proc_handle_signals p =
     (if sig_pending p = 0 then (p, []) else fold deliver_one [1..<NSIG] (p, []))"

text \<open>\<open>proc_exit\<close> marks the current process and its parent, then halts for good.\<close>

definition proc_exit :: "int \<Rightarrow> proc_table \<Rightarrow> proc_table" where
  "proc_exit code s =
     (case pt_current s of
        None \<Rightarrow> s
      | Some c \<Rightarrow>
          let s = upd_proc c (\<lambda>p. p\<lparr>pr_exit_code := code, pr_state := PROC_ZOMBIE\<rparr>) s in
          case proc_find (pr_ppid (pt_procs s ! c)) s of
            None \<Rightarrow> s
          | Some i \<Rightarrow> upd_proc i (proc_signal (int SIGCHLD)) s)"

datatype fork_result = Forked nat | Fork_NULL | Fork_Halts

text \<open>The copies of the parent's areas; \<open>oks\<close> says which insertions find memory.\<close>

fun fork_vmas :: "bool list \<Rightarrow> vma list \<Rightarrow> vma list \<Rightarrow> vma list" where
  "fork_vmas (ok # oks) (v # vs) child =
     (let (r, child) = vma_insert ok (vma_start v) (vma_end v) (vma_flags v AND NOT VMA_WRITE) child
      in fork_vmas oks vs (case r of Some i \<Rightarrow> child[i := (child ! i)\<lparr>vma_file_offset := vma_file_offset v\<rparr>] | None \<Rightarrow> child))"
| "fork_vmas _ _ child = child"

text \<open>The copy of the kernel page directory into a frame.\<close>

definition copy_pd :: "u32 \<Rightarrow> u32 list \<Rightarrow> mem \<Rightarrow> mem" where
  "copy_pd a pd m = fold (\<lambda>i m. store32 m (a + of_nat i * 4) (pd ! i)) [0..<length pd] m"

definition proc_fork :: "bool list \<Rightarrow> nat \<Rightarrow> proc_table \<Rightarrow> fork_result \<times> proc_table" where
  "proc_fork oks parent s =
     (case proc_create (Some (cstring (pr_name (pt_procs s ! parent)))) s of
        (None, s) \<Rightarrow> (Fork_NULL, s)
      | (Some ch, s) \<Rightarrow>
          let par = pt_procs s ! parent;
              s = upd_proc ch (\<lambda>p. p\<lparr>pr_ppid := pr_pid par, pr_pgid := pr_pgid par, pr_sid := pr_sid par,
                    sig_handlers := sig_handlers par, sig_mask := sig_mask par,
                    pr_vmas := fork_vmas oks (pr_vmas par) []\<rparr>) s;
              (new_pd, pm) = pmm_alloc_page (pg_pmm (pt_pg s));
              s = s\<lparr>pt_pg := (pt_pg s)\<lparr>pg_pmm := pm\<rparr>\<rparr>
          in if new_pd = 0 then (Fork_Halts, proc_exit 1 s)
             else (Forked ch, upd_proc ch (\<lambda>p. p\<lparr>pr_cr3 := new_pd\<rparr>)
                    (s\<lparr>pt_pg := (pt_pg s)\<lparr>pg_pmm := pm\<lparr>pmem := copy_pd new_pd (kernel_pd (pt_pg s)) (pmem pm)\<rparr>\<rparr>\<rparr>)))"

section \<open>Page faults\<close>

datatype fault_result = Handled | Panic

definition user_page_flags :: "vma \<Rightarrow> u32" where
  "user_page_flags v = (if vma_flags v AND VMA_WRITE \<noteq> 0 then PDE_PRESENT OR PDE_USER OR PDE_WRITABLE else PDE_PRESENT OR PDE_USER)"

definition page_fault_handler :: "u32 \<Rightarrow> u32 \<Rightarrow> proc_table \<Rightarrow> fault_result \<times> proc_table" where
  "page_fault_handler err fault_addr s =
     (if err AND 1 \<noteq> 0 \<and> err AND 2 \<noteq> 0 then
        (let (r, pg) = paging_copy_on_write fault_addr (pt_pg s)
         in (if r = 0 then Handled else Panic, s\<lparr>pt_pg := pg\<rparr>))
      else if err AND 1 = 0 \<and> fault_addr \<ge> 0xD0000000 \<and> fault_addr < 0xDFFFFFFF then
        (let (phys, pm) = pmm_alloc_page (pg_pmm (pt_pg s)); pg = (pt_pg s)\<lparr>pg_pmm := pm\<rparr>
         in if phys = 0 then (Panic, s\<lparr>pt_pg := pg\<rparr>)
            else
              let (r, pg) = paging_map_page (fault_addr AND PAGE_MASK) phys (PDE_PRESENT OR PDE_WRITABLE) pg
              in (if r \<noteq> 0 then Panic else Handled, s\<lparr>pt_pg := pg\<rparr>))
      else if err AND 1 = 0 then
        (case pt_current s of
           None \<Rightarrow> (Panic, s)
         | Some c \<Rightarrow>
             (case vma_find (pr_vmas (pt_procs s ! c)) fault_addr of
                None \<Rightarrow> (Panic, s)
              | Some i \<Rightarrow>
                  let (phys, pm) = pmm_alloc_page (pg_pmm (pt_pg s)); pg = (pt_pg s)\<lparr>pg_pmm := pm\<rparr>
                  in if phys = 0 then (Panic, s\<lparr>pt_pg := pg\<rparr>)
                     else (Handled, s\<lparr>pt_pg := snd (paging_map_page (fault_addr AND PAGE_MASK) phys
                             (user_page_flags (pr_vmas (pt_procs s ! c) ! i)) pg)\<rparr>)))
      else (Panic, s))"

section \<open>Facts\<close>

definition vmas_sorted :: "vma list \<Rightarrow> bool" where
  "vmas_sorted vs \<longleftrightarrow> sorted_wrt (\<lambda>u v. vma_start u \<le> vma_start v) vs"

lemma vma_insert_sorted:
  assumes "vmas_sorted vs" "vma_insert True start end_addr fl vs = (r, vs')"
  shows "vmas_sorted vs'" "\<exists>i. r = Some i \<and> i < length vs' \<and> vma_start (vs' ! i) = align_down start 4096"
proof -
  define v where "v = \<lparr>vma_start = align_down start 4096, vma_end = align_up end_addr 4096, vma_flags = fl, vma_file_offset = 0\<rparr>"
  define b where "b = takeWhile (\<lambda>u. vma_start u < vma_start v) vs"
  define a where "a = drop (length b) vs"
  have vs: "vs = b @ a" using takeWhile_dropWhile_id [of "\<lambda>u. vma_start u < vma_start v" vs] by (simp add: a_def b_def dropWhile_eq_drop)
  have r: "r = Some (length b)" "vs' = b @ v # a" using assms(2) by (simp_all add: vma_insert_def Let_def v_def b_def a_def)
  have lo: "\<forall>u \<in> set b. vma_start u < vma_start v" unfolding b_def by (meson set_takeWhileD)
  have hd: "a = [] \<or> \<not> vma_start (hd a) < vma_start v"
    using hd_dropWhile [of "\<lambda>u. vma_start u < vma_start v" vs] by (auto simp: a_def b_def dropWhile_eq_drop)
  have sa: "sorted_wrt (\<lambda>u v. vma_start u \<le> vma_start v) b" "sorted_wrt (\<lambda>u v. vma_start u \<le> vma_start v) a"
    "\<forall>x \<in> set b. \<forall>y \<in> set a. vma_start x \<le> vma_start y"
    using assms(1) by (simp_all add: vmas_sorted_def vs sorted_wrt_append)
  have "\<forall>u \<in> set a. vma_start v \<le> vma_start u"
  proof
    fix u assume u: "u \<in> set a"
    then obtain h t where a: "a = h # t" by (cases a) auto
    have "vma_start v \<le> vma_start h" using hd a by (simp add: not_less)
    moreover have "vma_start h \<le> vma_start u" using sa(2) u a by auto
    ultimately show "vma_start v \<le> vma_start u" by simp
  qed
  then show "vmas_sorted vs'" using sa lo by (auto simp: vmas_sorted_def r sorted_wrt_append less_imp_le)
  show "\<exists>i. r = Some i \<and> i < length vs' \<and> vma_start (vs' ! i) = align_down start 4096"
    by (simp add: r v_def)
qed

text \<open>Process identifiers: those in use are different, and below the next one.\<close>

definition procs_ok :: "proc_table \<Rightarrow> bool" where
  "procs_ok s \<longleftrightarrow> length (pt_procs s) = PROC_MAX \<and>
     (\<forall>i < PROC_MAX. pr_state (pt_procs s ! i) \<noteq> PROC_UNUSED \<longrightarrow> 0 < pr_pid (pt_procs s ! i) \<and> pr_pid (pt_procs s ! i) < pt_next_pid s) \<and>
     (\<forall>i < PROC_MAX. \<forall>j < PROC_MAX. pr_state (pt_procs s ! i) \<noteq> PROC_UNUSED \<longrightarrow> pr_state (pt_procs s ! j) \<noteq> PROC_UNUSED \<longrightarrow>
        pr_pid (pt_procs s ! i) = pr_pid (pt_procs s ! j) \<longrightarrow> i = j)"

lemma proc_create_spec:
  assumes ok: "procs_ok s" and nw: "pt_next_pid s \<noteq> - 1" "0 < pt_next_pid s" and c: "proc_create name s = (Some i, s')"
  shows "procs_ok s' \<and> i < PROC_MAX \<and> pr_state (pt_procs s ! i) = PROC_UNUSED \<and> proc_find (pt_next_pid s) s = None \<and>
    proc_find (pt_next_pid s) s' = Some i \<and> pt_next_pid s' = pt_next_pid s + 1 \<and>
    (\<forall>j < PROC_MAX. j \<noteq> i \<longrightarrow> pt_procs s' ! j = pt_procs s ! j)"
proof -
  obtain kstack pm where al: "pmm_alloc_pages 2 (pg_pmm (pt_pg s)) = (kstack, pm)" by fastforce
  have f: "find_idx (\<lambda>p. pr_state p = PROC_UNUSED) (pt_procs s) = Some i"
    using c al by (auto simp: proc_create_def Let_def split: option.splits)
  obtain p where s': "pt_procs s' = (pt_procs s)[i := p]" "pr_pid p = pt_next_pid s" "pr_state p = PROC_READY"
    "pt_next_pid s' = pt_next_pid s + 1"
    using c al f by (auto simp: proc_create_def Let_def)
  have i: "i < PROC_MAX" "pr_state (pt_procs s ! i) = PROC_UNUSED" "length (pt_procs s) = PROC_MAX"
    using find_idx_SomeD [OF f] ok by (simp_all add: procs_ok_def)
  have inc: "pt_next_pid s < pt_next_pid s + 1"
  proof -
    define y where "y = pt_next_pid s + 1"
    have "y \<noteq> 0" using nw(1) by (simp add: y_def add_eq_0_iff2)
    then have "unat (y - 1) = unat y - 1" "0 < unat y" by (simp_all add: unat_minus_1 unat_gt_0)
    then show ?thesis by (simp add: y_def word_less_nat_alt)
  qed
  have n: "pt_procs s' ! j = (if j = i then p else pt_procs s ! j)" if "j < PROC_MAX" for j
    using that i by (simp add: s' nth_list_update)
  have old: "pr_pid (pt_procs s ! j) < pt_next_pid s" if "j < PROC_MAX" "pr_state (pt_procs s ! j) \<noteq> PROC_UNUSED" for j
    using ok that by (simp add: procs_ok_def)
  have "procs_ok s'"
    unfolding procs_ok_def
  proof (intro conjI allI impI)
    show "length (pt_procs s') = PROC_MAX" using i by (simp add: s')
  next
    fix j assume j: "j < PROC_MAX" "pr_state (pt_procs s' ! j) \<noteq> PROC_UNUSED"
    show "0 < pr_pid (pt_procs s' ! j)" using ok j n [OF j(1)] nw(2) s'(2) by (auto simp: procs_ok_def split: if_splits)
    show "pr_pid (pt_procs s' ! j) < pt_next_pid s'"
      using old [of j] j n [OF j(1)] s' inc by (auto split: if_splits)
  next
    fix j k assume jk: "j < PROC_MAX" "k < PROC_MAX" "pr_state (pt_procs s' ! j) \<noteq> PROC_UNUSED"
      "pr_state (pt_procs s' ! k) \<noteq> PROC_UNUSED" "pr_pid (pt_procs s' ! j) = pr_pid (pt_procs s' ! k)"
    consider "j = i" "k = i" | "j = i" "k \<noteq> i" | "j \<noteq> i" "k = i" | "j \<noteq> i" "k \<noteq> i" by blast
    then show "j = k"
    proof cases
      case 2
      then show ?thesis using jk n [OF jk(1)] n [OF jk(2)] old [of k] s'(2) by simp
    next
      case 3
      then show ?thesis using jk n [OF jk(1)] n [OF jk(2)] old [of j] s'(2) by simp
    next
      case 4
      have "\<forall>i < PROC_MAX. \<forall>j < PROC_MAX. pr_state (pt_procs s ! i) \<noteq> PROC_UNUSED \<longrightarrow> pr_state (pt_procs s ! j) \<noteq> PROC_UNUSED \<longrightarrow>
        pr_pid (pt_procs s ! i) = pr_pid (pt_procs s ! j) \<longrightarrow> i = j" using ok by (simp add: procs_ok_def)
      then show ?thesis using jk 4 n [OF jk(1)] n [OF jk(2)] by simp
    qed simp
  qed
  moreover have none: "proc_find (pt_next_pid s) s = None"
    using old i(3) by (force simp: proc_find_def find_idx_None in_set_conv_nth)
  moreover have "proc_find (pt_next_pid s) s' = Some i"
    unfolding proc_find_def
  proof (rule find_idx_unique)
    show "i < length (pt_procs s')" using i by (simp add: s')
    show "pr_pid (pt_procs s' ! i) = pt_next_pid s \<and> pr_state (pt_procs s' ! i) \<noteq> PROC_UNUSED" using n [OF i(1)] s' by simp
    fix j assume j: "j < length (pt_procs s')" "pr_pid (pt_procs s' ! j) = pt_next_pid s \<and> pr_state (pt_procs s' ! j) \<noteq> PROC_UNUSED"
    then have "j < PROC_MAX" using i by (simp add: s')
    then show "j = i" using n old j(2) by (metis less_irrefl)
  qed
  ultimately show ?thesis using i n s'(4) by simp
qed

text \<open>Delivery clears the pending bits it walks over, and only them.\<close>

lemma deliver_one_pending:
  assumes "n < 32"
  shows "bit (sig_pending (fst (deliver_one n pc))) k \<longleftrightarrow> k \<noteq> n \<and> bit (sig_pending (fst pc)) k"
proof -
  obtain p calls where pc: "pc = (p, calls)" by (cases pc)
  have d: "sig_pending (sig_default_action n q) = sig_pending q" for q by (simp add: sig_default_action_def)
  have k: "k < 32" if "bit (sig_pending p) k" using bit_imp_le_length [OF that] by simp
  have "bit (sig_pending p AND NOT (push_bit n 1)) k \<longleftrightarrow> bit (sig_pending p) k \<and> k \<noteq> n"
    using k assms by (auto simp: bit_and_iff bit_not_iff bit_push1 simp del: push_bit_of_1)
  then show ?thesis using assms
    by (auto simp: pc deliver_one_def Let_def and_push1 d simp del: push_bit_of_1)
qed

lemma deliver_pending:
  "b \<le> 32 \<Longrightarrow> bit (sig_pending (fst (fold deliver_one [a..<b] pc))) k \<longleftrightarrow> \<not> (a \<le> k \<and> k < b) \<and> bit (sig_pending (fst pc)) k"
proof (induction b)
  case (Suc b)
  show ?case
  proof (cases "a \<le> b")
    case True
    then show ?thesis using Suc deliver_one_pending [of b "fold deliver_one [a..<b] pc" k] by (auto simp: less_Suc_eq)
  next
    case False
    then show ?thesis by simp
  qed
qed simp

section \<open>Properties\<close>

text \<open>\<open>proc_create\<close> puts the new process in an unused slot under a process identifier nobody has,
  finds it again under that identifier and leaves every other process alone, as long as the identifiers
  have not wrapped around.\<close>

theorem proc_create_unique_pid:
  assumes "procs_ok s" "pt_next_pid s \<noteq> - 1" "0 < pt_next_pid s" "proc_create name s = (Some i, s')"
  shows "procs_ok s' \<and> i < PROC_MAX \<and> pr_state (pt_procs s ! i) = PROC_UNUSED \<and> proc_find (pt_next_pid s) s = None \<and>
    proc_find (pt_next_pid s) s' = Some i \<and> pt_next_pid s' = pt_next_pid s + 1 \<and>
    (\<forall>j < PROC_MAX. j \<noteq> i \<longrightarrow> pt_procs s' ! j = pt_procs s ! j)"
  by (rule proc_create_spec [OF assms])

definition proc_example :: proc_table where
  "proc_example = \<lparr>pt_procs = replicate PROC_MAX proc_zero, pt_current = None, pt_next_pid = 1, pt_pg = paging_example\<rparr>"

theorem proc_create_unique_pid_witness:
  "proc_find 1 (snd (proc_create None proc_example)) = Some 0"
proof -
  have ok: "procs_ok proc_example" by (simp add: procs_ok_def proc_example_def proc_zero_def PROC_MAX_def)
  have "find_idx (\<lambda>p. pr_state p = PROC_UNUSED) (pt_procs proc_example) = Some 0"
    by (simp add: find_idx_Some proc_example_def proc_zero_def PROC_MAX_def)
  then have "fst (proc_create None proc_example) = Some 0"
    by (simp add: proc_create_def Let_def split: prod.splits)
  then obtain s' where "proc_create None proc_example = (Some 0, s')" by (metis prod.collapse)
  from proc_create_unique_pid [OF ok _ _ this] this show ?thesis by (simp add: proc_example_def)
qed

lemma deliver_skip: "(\<And>n. n \<in> set ns \<Longrightarrow> \<not> bit (sig_pending (fst pc)) n) \<Longrightarrow> fold deliver_one ns pc = pc"
proof (induction ns)
  case (Cons n ns)
  have "deliver_one n pc = pc"
    using Cons.prems [of n] by (cases pc) (simp add: deliver_one_def and_push1 del: push_bit_of_1)
  then show ?case using Cons by simp
qed simp

text \<open>signals are delivered in number order, so a process with both \<open>SIGKILL\<close> and \<open>SIGSTOP\<close> pending is
  first made a zombie and then stopped: it ends \<open>PROC_STOPPED\<close> with the exit code of a killed process,
  and \<open>SIGCONT\<close> would make it ready again.\<close>

theorem sigkill_undone_by_sigstop:
  assumes "sig_pending p = push_bit SIGKILL 1 OR push_bit SIGSTOP 1" "sig_handlers p ! SIGKILL = SIG_DFL" "sig_handlers p ! SIGSTOP = SIG_DFL"
  shows "proc_handle_signals p = (p\<lparr>sig_pending := 0, pr_state := PROC_STOPPED, pr_exit_code := 137\<rparr>, [])"
proof -
  have pend: "bit (sig_pending p) n \<longleftrightarrow> n = 9 \<or> n = 19" for n
    unfolding assms(1) SIGKILL_def SIGSTOP_def by (auto simp: bit_or_iff bit_push1 simp del: push_bit_of_1)
  have upt: "[1..<32] = [1..<9] @ 9 # [10..<19] @ 19 # [20..<(32 :: nat)]" by code_simp
  define q where "q = p\<lparr>sig_pending := sig_pending p AND NOT (push_bit 9 1), pr_state := PROC_ZOMBIE, pr_exit_code := 137\<rparr>"
  have d9: "deliver_one 9 (p, []) = (q, [])"
    using assms(2) pend [of 9]
    by (simp add: deliver_one_def and_push1 q_def SIGKILL_def SIG_DFL_def SIG_IGN_def sig_default_action_def del: push_bit_of_1)
  have pq: "bit (sig_pending q) n \<longleftrightarrow> n = 19" for n
    using deliver_one_pending [of 9 "(p, [])" n] pend d9 by auto
  define r where "r = q\<lparr>sig_pending := sig_pending q AND NOT (push_bit 19 1), pr_state := PROC_STOPPED\<rparr>"
  have "sig_handlers q ! 19 = SIG_DFL" using assms(3) by (simp add: q_def SIGSTOP_def)
  then have d19: "deliver_one 19 (q, []) = (r, [])"
    using pq [of 19]
    by (simp add: deliver_one_def and_push1 r_def SIGKILL_def SIGTERM_def SIGSTOP_def SIG_DFL_def SIG_IGN_def sig_default_action_def del: push_bit_of_1)
  have pr: "\<not> bit (sig_pending r) n" for n
    using deliver_one_pending [of 19 "(q, [])" n] pq d19 by auto
  have r0: "sig_pending r = 0" by (rule bit_word_eqI) (simp add: pr)
  have "fold deliver_one [1..<32] (p, []) = (r, [])"
  proof -
    have "fold deliver_one [1..<9] (p, []) = (p, [])" "fold deliver_one [10..<19] (q, []) = (q, [])"
      "fold deliver_one [20..<32] (r, []) = (r, [])"
      by (rule deliver_skip, simp add: pend pq pr del: upt_rec_numeral)+
    then show ?thesis unfolding upt by (simp only: fold_append fold.simps o_apply d9 d19)
  qed
  moreover have "sig_pending p \<noteq> 0" using pend [of 9] by auto
  moreover have "r = p\<lparr>sig_pending := 0, pr_state := PROC_STOPPED, pr_exit_code := 137\<rparr>"
    using r0 by (simp add: r_def q_def)
  ultimately show ?thesis by (simp add: proc_handle_signals_def NSIG_def)
qed

theorem sigkill_undone_by_sigstop_witness:
  "pr_state (fst (proc_handle_signals (proc_zero\<lparr>pr_state := PROC_READY, sig_pending := 0x80200\<rparr>))) = PROC_STOPPED"
  using sigkill_undone_by_sigstop [of "proc_zero\<lparr>pr_state := PROC_READY, sig_pending := 0x80200\<rparr>"]
  by (simp add: SIGKILL_def SIGSTOP_def proc_zero_def NSIG_def)

end
