(* ===== verification/Scheduler.thy ===== *)
theory Scheduler
  imports PhysAlloc KString
begin

text \<open>
  The scheduler (\<open>sched/scheduler.c\<close>): the task table, the bitmap of ready priorities, the timer
  interrupt and the task operations. A task pointer is its index. A context switch is the pair of
  tasks it goes between; what \<open>timer_handler\<close> does after the switch, when the interrupted task is
  resumed, is \<open>timer_resume\<close>. Programming the timer chip and the task-state segment is port and
  register output and is left out.
\<close>

section \<open>State (include/scheduler.h)\<close>

definition SCHED_MAX_TASKS :: nat where "SCHED_MAX_TASKS = 64"
definition SCHED_STACK_SIZE :: u32 where "SCHED_STACK_SIZE = 8192"
definition SCHED_QUANTUM_TICKS :: u32 where "SCHED_QUANTUM_TICKS = 10"
definition ZOMBIE_REAP_TICKS :: u32 where "ZOMBIE_REAP_TICKS = 200"
definition AGING_THRESHOLD :: u32 where "AGING_THRESHOLD = 500"
definition TASK_PRIO_IDLE :: u8 where "TASK_PRIO_IDLE = 0"
definition TASK_PRIO_NORMAL :: u8 where "TASK_PRIO_NORMAL = 128"
definition TASK_PRIO_RT :: u8 where "TASK_PRIO_RT = 255"

datatype task_state = TASK_UNUSED | TASK_READY | TASK_RUNNING | TASK_BLOCKED | TASK_ZOMBIE | TASK_SLEEPING

record task =
  t_id :: u32
  t_name :: "u8 list"
  t_state :: task_state
  t_esp :: u32
  t_eip :: u32
  t_eflags :: u32
  t_stack_top :: u32
  t_stack_phys :: u32
  t_priority :: u8
  t_base_priority :: u8
  t_quantum_ticks :: u32
  t_wait_ticks :: u32
  t_run_ticks :: u32
  t_sleep_until :: u32
  t_total_ticks :: u64
  t_switches :: u32
  t_last_run :: u32
  t_created :: u32
  t_exit_code :: int
  t_zombie_ticks :: u32

record sched =
  sd_tasks :: "task list"
  sd_current :: "nat option"
  sd_next_id :: u32
  sd_uptime :: u32
  sd_bitmap :: "u32 list"
  sd_pmm :: pmm

definition task_zero :: task where
  "task_zero = \<lparr>t_id = 0, t_name = replicate 32 0, t_state = TASK_UNUSED, t_esp = 0, t_eip = 0, t_eflags = 0,
     t_stack_top = 0, t_stack_phys = 0, t_priority = 0, t_base_priority = 0, t_quantum_ticks = 0, t_wait_ticks = 0,
     t_run_ticks = 0, t_sleep_until = 0, t_total_ticks = 0, t_switches = 0, t_last_run = 0, t_created = 0,
     t_exit_code = 0, t_zombie_ticks = 0\<rparr>"

definition upd_task :: "nat \<Rightarrow> (task \<Rightarrow> task) \<Rightarrow> sched \<Rightarrow> sched" where
  "upd_task i f s = s\<lparr>sd_tasks := (sd_tasks s)[i := f (sd_tasks s ! i)]\<rparr>"

section \<open>The bitmap of ready priorities\<close>

definition prio_set :: "u8 \<Rightarrow> sched \<Rightarrow> sched" where
  "prio_set prio s = s\<lparr>sd_bitmap := bm_set (sd_bitmap s) (unat prio)\<rparr>"

definition prio_clear :: "u8 \<Rightarrow> sched \<Rightarrow> sched" where
  "prio_clear prio s = s\<lparr>sd_bitmap := bm_clear (sd_bitmap s) (unat prio)\<rparr>"

text \<open>\<open>__builtin_clz\<close> of a non-zero word.\<close>

definition clz32 :: "u32 \<Rightarrow> nat" where
  "clz32 x = (case find (bit x) (rev [0..<32]) of Some b \<Rightarrow> 31 - b | None \<Rightarrow> 32)"

definition bitmap_top :: "u32 list \<Rightarrow> nat" where
  "bitmap_top bm =
     (case find (\<lambda>w. bm ! w \<noteq> 0) (rev [0..<8]) of
        Some w \<Rightarrow> w * 32 + (31 - clz32 (bm ! w))
      | None \<Rightarrow> 0xFF)"

definition bitmap_rebuild :: "sched \<Rightarrow> sched" where
  "bitmap_rebuild s =
     fold (\<lambda>i s. if t_state (sd_tasks s ! i) = TASK_READY then prio_set (t_priority (sd_tasks s ! i)) s else s)
       [0..<SCHED_MAX_TASKS] (s\<lparr>sd_bitmap := replicate 8 0\<rparr>)"

section \<open>Periodic work\<close>

definition wake_one :: "nat \<Rightarrow> sched \<Rightarrow> sched" where
  "wake_one i s =
     (if t_state (sd_tasks s ! i) = TASK_SLEEPING \<and> sd_uptime s \<ge> t_sleep_until (sd_tasks s ! i)
      then prio_set (t_priority (sd_tasks s ! i)) (upd_task i (\<lambda>t. t\<lparr>t_state := TASK_READY\<rparr>) s)
      else s)"

definition wake_sleepers :: "sched \<Rightarrow> sched" where
  "wake_sleepers s = fold wake_one [0..<SCHED_MAX_TASKS] s"

definition age_one :: "nat \<Rightarrow> sched \<Rightarrow> sched" where
  "age_one i s =
     (if t_state (sd_tasks s ! i) \<noteq> TASK_READY then s
      else
        let s = upd_task i (\<lambda>t. t\<lparr>t_wait_ticks := t_wait_ticks t + 1\<rparr>) s; t = sd_tasks s ! i in
        if t_wait_ticks t \<ge> AGING_THRESHOLD \<and> t_priority t < 254
        then prio_set (t_priority t + 1)
               (upd_task i (\<lambda>t. t\<lparr>t_priority := t_priority t + 1, t_wait_ticks := 0\<rparr>) (prio_clear (t_priority t) s))
        else s)"

definition age_tasks :: "sched \<Rightarrow> sched" where
  "age_tasks s = fold age_one [0..<SCHED_MAX_TASKS] s"

definition reap_one :: "nat \<Rightarrow> sched \<Rightarrow> sched" where
  "reap_one i s =
     (if t_state (sd_tasks s ! i) \<noteq> TASK_ZOMBIE then s
      else
        let s = upd_task i (\<lambda>t. t\<lparr>t_zombie_ticks := t_zombie_ticks t + 1\<rparr>) s; t = sd_tasks s ! i in
        if t_zombie_ticks t \<ge> ZOMBIE_REAP_TICKS \<and> t_stack_phys t \<noteq> 0
        then upd_task i (\<lambda>t. t\<lparr>t_stack_phys := 0, t_state := TASK_UNUSED\<rparr>)
               (s\<lparr>sd_pmm := pmm_free_pages (t_stack_phys t) 2 (sd_pmm s)\<rparr>)
        else s)"

definition reap_zombies :: "sched \<Rightarrow> sched" where
  "reap_zombies s = fold reap_one [0..<SCHED_MAX_TASKS] s"

section \<open>Choosing the next task\<close>

text \<open>The slots in the order they are looked at: from the one after the current task, round.\<close>

definition pick_order :: "nat option \<Rightarrow> nat list" where
  "pick_order cur = map (\<lambda>i. (case cur of Some c \<Rightarrow> c + Suc i | None \<Rightarrow> i) mod SCHED_MAX_TASKS) [0..<SCHED_MAX_TASKS]"

definition sched_pick_next :: "sched \<Rightarrow> nat option" where
  "sched_pick_next s =
     (let top = bitmap_top (sd_bitmap s) in
      if top = 0xFF then None
      else find (\<lambda>i. t_state (sd_tasks s ! i) = TASK_READY \<and> unat (t_priority (sd_tasks s ! i)) = top) (pick_order (sd_current s)))"

definition mlfq_demote :: "nat \<Rightarrow> sched \<Rightarrow> sched" where
  "mlfq_demote i s =
     (let t = sd_tasks s ! i in
      if t_priority t \<le> TASK_PRIO_IDLE then s
      else if t_base_priority t \<ge> TASK_PRIO_RT then s
      else if t_priority t > 1 then
        (let s = upd_task i (\<lambda>t. t\<lparr>t_priority := t_priority t - 1\<rparr>) (prio_clear (t_priority t) s)
         in if t_state t = TASK_READY then prio_set (t_priority t - 1) s else s)
      else s)"

section \<open>The timer interrupt\<close>

definition timer_resume :: "sched \<Rightarrow> sched" where
  "timer_resume s = (if sd_uptime s mod 50 = 0 then reap_zombies (age_tasks s) else s)"

text \<open>The end of a quantum: the current task is demoted and becomes ready again.\<close>

definition timer_requeue :: "nat \<Rightarrow> sched \<Rightarrow> sched" where
  "timer_requeue c s =
     (let s = upd_task c (\<lambda>t. t\<lparr>t_run_ticks := 0\<rparr>) (mlfq_demote c s) in
      if t_state (sd_tasks s ! c) = TASK_RUNNING
      then prio_set (t_priority (sd_tasks s ! c)) (upd_task c (\<lambda>t. t\<lparr>t_state := TASK_READY\<rparr>) s)
      else s)"

definition keep_running :: "nat \<Rightarrow> sched \<Rightarrow> sched" where
  "keep_running c s = prio_clear (t_priority (sd_tasks s ! c)) (upd_task c (\<lambda>t. t\<lparr>t_state := TASK_RUNNING\<rparr>) s)"

definition switch_to :: "nat \<Rightarrow> sched \<Rightarrow> sched" where
  "switch_to n s =
     upd_task n (\<lambda>t. t\<lparr>t_state := TASK_RUNNING, t_wait_ticks := 0, t_switches := t_switches t + 1, t_last_run := sd_uptime s\<rparr>)
       (prio_clear (t_priority (sd_tasks s ! n)) (s\<lparr>sd_current := Some n\<rparr>))"

definition timer_handler :: "sched \<Rightarrow> (nat \<times> nat) option \<times> sched" where
  "timer_handler s =
     (let s = wake_sleepers (s\<lparr>sd_uptime := sd_uptime s + 1\<rparr>) in
      case sd_current s of
        None \<Rightarrow> (None, s)
      | Some c \<Rightarrow>
          let s = upd_task c (\<lambda>t. t\<lparr>t_total_ticks := t_total_ticks t + 1, t_run_ticks := t_run_ticks t + 1\<rparr>) s in
          if t_run_ticks (sd_tasks s ! c) < SCHED_QUANTUM_TICKS then (None, timer_resume s)
          else
            let s = timer_requeue c s in
            case sched_pick_next s of
              None \<Rightarrow> (None, keep_running c s)
            | Some n \<Rightarrow> if n = c then (None, keep_running c s) else (Some (c, n), switch_to n s))"

section \<open>Tasks\<close>

definition alloc_task :: "u32 \<Rightarrow> u8 list option \<Rightarrow> u8 \<Rightarrow> sched \<Rightarrow> nat option \<times> sched" where
  "alloc_task fn name prio s =
     (case find_idx (\<lambda>t. t_state t = TASK_UNUSED) (sd_tasks s) of
        None \<Rightarrow> (None, s)
      | Some i \<Rightarrow>
          let (sp, pm) = pmm_alloc_pages 2 (sd_pmm s) in
          if sp = 0 then (None, s\<lparr>sd_pmm := pm\<rparr>)
          else
            let top = sp + SCHED_STACK_SIZE;
                t = task_zero\<lparr>t_id := sd_next_id s, t_state := TASK_READY, t_priority := prio, t_base_priority := prio,
                      t_quantum_ticks := SCHED_QUANTUM_TICKS, t_stack_phys := sp, t_stack_top := top,
                      t_created := sd_uptime s,
                      t_name := strncpy (case name of Some n \<Rightarrow> n | None \<Rightarrow> asc ''unnamed'') 31 @ [0],
                      t_esp := top - 8, t_eip := fn, t_eflags := 0x0202\<rparr>
            in (Some i, prio_set prio (s\<lparr>sd_tasks := (sd_tasks s)[i := t], sd_next_id := sd_next_id s + 1,
                  sd_pmm := pm\<lparr>pmem := store32 (store32 (pmem pm) (top - 4) 0) (top - 8) fn\<rparr>\<rparr>)))"

definition task_create :: "u32 \<Rightarrow> u8 list option \<Rightarrow> sched \<Rightarrow> nat option \<times> sched" where
  "task_create fn name s = alloc_task fn name TASK_PRIO_NORMAL s"

definition task_create_prio :: "u32 \<Rightarrow> u8 list option \<Rightarrow> u8 \<Rightarrow> sched \<Rightarrow> nat option \<times> sched" where
  "task_create_prio fn name prio s = alloc_task fn name prio s"

text \<open>\<open>idle_fn\<close> is the address of \<open>idle_task_fn\<close>; \<open>None\<close> is the panic.\<close>

definition sched_init :: "u32 \<Rightarrow> sched \<Rightarrow> sched option" where
  "sched_init idle_fn s =
     (case task_create_prio idle_fn (Some (asc ''idle'')) TASK_PRIO_IDLE
             (s\<lparr>sd_tasks := replicate SCHED_MAX_TASKS task_zero, sd_bitmap := replicate 8 0\<rparr>) of
        (None, _) \<Rightarrow> None
      | (Some i, s) \<Rightarrow>
          Some (prio_clear TASK_PRIO_IDLE ((upd_task i (\<lambda>t. t\<lparr>t_state := TASK_RUNNING\<rparr>) s)\<lparr>sd_current := Some i\<rparr>)))"

definition task_set_priority :: "nat \<Rightarrow> u8 \<Rightarrow> sched \<Rightarrow> sched" where
  "task_set_priority i prio s =
     (let ready = (t_state (sd_tasks s ! i) = TASK_READY);
          s = (if ready then prio_clear (t_priority (sd_tasks s ! i)) s else s);
          s = upd_task i (\<lambda>t. t\<lparr>t_priority := prio, t_base_priority := prio\<rparr>) s
      in if ready then prio_set prio s else s)"

definition task_yield :: "sched \<Rightarrow> (nat \<times> nat) option \<times> sched" where
  "task_yield s = timer_handler s"

definition task_exit :: "int \<Rightarrow> sched \<Rightarrow> (nat \<times> nat) option \<times> sched" where
  "task_exit code s =
     (let s = (case sd_current s of
          Some c \<Rightarrow> upd_task c (\<lambda>t. t\<lparr>t_exit_code := code, t_state := TASK_ZOMBIE, t_zombie_ticks := 0\<rparr>) s
        | None \<Rightarrow> s)
      in task_yield s)"

definition task_sleep :: "u32 \<Rightarrow> sched \<Rightarrow> (nat \<times> nat) option \<times> sched" where
  "task_sleep ms s =
     (case sd_current s of
        None \<Rightarrow> (None, s)
      | Some c \<Rightarrow>
          if ms = 0 then (None, s)
          else task_yield (prio_clear (t_priority (sd_tasks s ! c))
                 (upd_task c (\<lambda>t. t\<lparr>t_sleep_until := sd_uptime s + ms, t_state := TASK_SLEEPING\<rparr>) s)))"

definition task_wake :: "nat \<Rightarrow> sched \<Rightarrow> sched" where
  "task_wake i s =
     (if t_state (sd_tasks s ! i) = TASK_SLEEPING \<or> t_state (sd_tasks s ! i) = TASK_BLOCKED
      then prio_set (t_priority (sd_tasks s ! i)) (upd_task i (\<lambda>t. t\<lparr>t_sleep_until := 0, t_state := TASK_READY\<rparr>) s)
      else s)"

definition sched_task_count :: "sched \<Rightarrow> nat" where
  "sched_task_count s = length (filter (\<lambda>t. t_state t = TASK_READY \<or> t_state t = TASK_RUNNING) (sd_tasks s))"

section \<open>The bitmap\<close>

lemma find_rev_upt:
  "find P (rev [0..<n]) = Some w \<longleftrightarrow> w < n \<and> P w \<and> (\<forall>j. w < j \<and> j < n \<longrightarrow> \<not> P j)"
  "find P (rev [0..<n]) = None \<longleftrightarrow> (\<forall>j < n. \<not> P j)"
proof (induction n)
  case (Suc n)
  {
    case 1
    then show ?case using Suc by (auto simp: less_Suc_eq)
  next
    case 2
    then show ?case using Suc by (auto simp: less_Suc_eq)
  }
qed simp_all

lemma clz32_top:
  assumes "x \<noteq> 0"
  shows "bit x (31 - clz32 x)" "\<And>j. bit x j \<Longrightarrow> j \<le> 31 - clz32 x" "31 - clz32 x < 32"
proof -
  obtain k where k: "k < 32" "bit x k"
    using assms by (auto simp: word_ne_0_bit)
  obtain b where b: "find (bit x) (rev [0..<32]) = Some b"
    using find_rev_upt(2) [of "bit x" 32] k by (cases "find (bit x) (rev [0..<32])") auto
  then have bb: "b < 32" "bit x b" "\<forall>j. b < j \<and> j < 32 \<longrightarrow> \<not> bit x j" unfolding find_rev_upt(1) by blast+
  have c: "31 - clz32 x = b" using b bb(1) by (simp add: clz32_def del: upt_rec_numeral)
  show "bit x (31 - clz32 x)" "31 - clz32 x < 32" unfolding c using bb by blast+
  fix j assume "bit x j"
  moreover have "j < 32" using bit_imp_le_length [OF \<open>bit x j\<close>] by simp
  ultimately show "j \<le> 31 - clz32 x" unfolding c using bb(3) not_le by blast
qed

lemma bitmap_top_spec:
  assumes len: "length bm = 8" and q: "q < 256" "bm_test bm q"
  shows "bm_test bm (bitmap_top bm)" "bitmap_top bm < 256" "\<And>p. p < 256 \<Longrightarrow> bm_test bm p \<Longrightarrow> p \<le> bitmap_top bm"
proof -
  have nz: "bm ! (p div 32) \<noteq> 0" if "bm_test bm p" for p using that by (auto simp: bm_test_bit)
  have "q div 32 < 8" using q(1) by simp
  then obtain w where w: "find (\<lambda>w. bm ! w \<noteq> 0) (rev [0..<8]) = Some w"
    using find_rev_upt(2) [of "\<lambda>w. bm ! w \<noteq> 0" 8] nz [OF q(2)] by (cases "find (\<lambda>w. bm ! w \<noteq> 0) (rev [0..<8])") auto
  then have ww: "w < 8" "bm ! w \<noteq> 0" "\<forall>j. w < j \<and> j < 8 \<longrightarrow> bm ! j = 0" unfolding find_rev_upt(1) by blast+
  define b where "b = 31 - clz32 (bm ! w)"
  have b: "b < 32" "bit (bm ! w) b" "\<And>j. bit (bm ! w) j \<Longrightarrow> j \<le> b" using clz32_top [OF ww(2)] by (simp_all add: b_def)
  have top: "bitmap_top bm = w * 32 + b" using w by (simp add: bitmap_top_def b_def del: upt_rec_numeral)
  show "bm_test bm (bitmap_top bm)" unfolding top using b(1,2) by (simp add: bm_test_bit)
  show "bitmap_top bm < 256" unfolding top using ww(1) b(1) by linarith
  fix p assume p: "p < 256" "bm_test bm p"
  have pb: "bit (bm ! (p div 32)) (p mod 32)" using p(2) by (simp add: bm_test_bit)
  have "p div 32 < 8" using p(1) by simp
  then have "p div 32 \<le> w" using ww(3) nz [OF p(2)] by (metis linorder_not_le)
  moreover have "p mod 32 \<le> b" if "p div 32 = w" using b(3) pb that by simp
  ultimately show "p \<le> bitmap_top bm" unfolding top
    using div_mult_mod_eq [of p 32] mod_less_divisor [of 32 p] by (cases "p div 32 = w") linarith+
qed

lemma bitmap_top_empty: "\<forall>p < 256. \<not> bm_test bm p \<Longrightarrow> length bm = 8 \<Longrightarrow> bitmap_top bm = 255"
proof -
  assume none: "\<forall>p < 256. \<not> bm_test bm p" and len: "length bm = 8"
  have "bm ! w = 0" if "w < 8" for w
  proof (rule ccontr)
    assume "bm ! w \<noteq> 0"
    from clz32_top(1,3) [OF this] have "bm_test bm (w * 32 + (31 - clz32 (bm ! w)))" by (simp add: bm_test_bit)
    moreover have "w * 32 + (31 - clz32 (bm ! w)) < 256" using clz32_top(3) [OF \<open>bm ! w \<noteq> 0\<close>] that by linarith
    ultimately show False using none by blast
  qed
  then have "find (\<lambda>w. bm ! w \<noteq> 0) (rev [0..<8]) = None" unfolding find_rev_upt(2) by blast
  then show ?thesis by (simp add: bitmap_top_def del: upt_rec_numeral)
qed

section \<open>Choosing\<close>

definition ready :: "sched \<Rightarrow> nat \<Rightarrow> bool" where
  "ready s i \<longleftrightarrow> i < SCHED_MAX_TASKS \<and> t_state (sd_tasks s ! i) = TASK_READY"

definition prio_of :: "sched \<Rightarrow> nat \<Rightarrow> nat" where
  "prio_of s i = unat (t_priority (sd_tasks s ! i))"

definition bitmap_exact :: "sched \<Rightarrow> bool" where
  "bitmap_exact s \<longleftrightarrow> length (sd_bitmap s) = 8 \<and>
     (\<forall>p < 256. bm_test (sd_bitmap s) p \<longleftrightarrow> (\<exists>i. ready s i \<and> prio_of s i = p))"

lemma set_pick_order: "set (pick_order cur) = {..<SCHED_MAX_TASKS}"
proof
  show "set (pick_order cur) \<subseteq> {..<SCHED_MAX_TASKS}" by (auto simp: pick_order_def SCHED_MAX_TASKS_def)
  show "{..<SCHED_MAX_TASKS} \<subseteq> set (pick_order cur)"
  proof
    fix j assume j: "j \<in> {..<SCHED_MAX_TASKS}"
    show "j \<in> set (pick_order cur)"
    proof (cases cur)
      case None
      then show ?thesis using j by (auto simp: pick_order_def)
    next
      case (Some c)
      let ?i = "(j + 64 - Suc c mod 64) mod 64"
      have "(c + Suc ?i) mod 64 = (Suc c mod 64 + (j + 64 - Suc c mod 64)) mod 64"
        by (metis add_Suc_right add_Suc_shift mod_add_eq mod_mod_trivial)
      also have "Suc c mod 64 + (j + 64 - Suc c mod 64) = j + 64"
        using mod_less_divisor [of 64 "Suc c"] by linarith
      finally have "(c + Suc ?i) mod 64 = j" using j by (simp add: SCHED_MAX_TASKS_def)
      moreover have "?i < 64" by simp
      ultimately show ?thesis using Some by (auto simp: pick_order_def SCHED_MAX_TASKS_def intro!: image_eqI [of _ _ ?i])
    qed
  qed
qed

lemma pick_Some: "sched_pick_next s = Some i \<Longrightarrow> ready s i \<and> prio_of s i = bitmap_top (sd_bitmap s)"
proof -
  assume "sched_pick_next s = Some i"
  then have "find (\<lambda>i. t_state (sd_tasks s ! i) = TASK_READY \<and> unat (t_priority (sd_tasks s ! i)) = bitmap_top (sd_bitmap s))
      (pick_order (sd_current s)) = Some i" by (simp add: sched_pick_next_def Let_def split: if_splits)
  then have "i \<in> set (pick_order (sd_current s)) \<and> t_state (sd_tasks s ! i) = TASK_READY \<and>
      unat (t_priority (sd_tasks s ! i)) = bitmap_top (sd_bitmap s)"
    unfolding find_Some_iff by auto
  then show ?thesis unfolding set_pick_order by (simp add: ready_def prio_of_def)
qed

lemma pick_spec:
  assumes ex: "bitmap_exact s" and r: "ready s i"
  shows "case sched_pick_next s of
      Some j \<Rightarrow> ready s j \<and> (\<forall>k. ready s k \<longrightarrow> prio_of s k \<le> prio_of s j)
    | None \<Rightarrow> \<exists>k. ready s k \<and> prio_of s k = 255"
proof -
  let ?bm = "sd_bitmap s"
  have len: "length ?bm = 8" and bm: "\<And>p. p < 256 \<Longrightarrow> bm_test ?bm p \<longleftrightarrow> (\<exists>i. ready s i \<and> prio_of s i = p)"
    using ex by (simp_all add: bitmap_exact_def)
  have p: "prio_of s k < 256" for k by (simp add: prio_of_def)
  have q: "bm_test ?bm (prio_of s i)" using bm [OF p] r by blast
  note top = bitmap_top_spec [OF len p q]
  obtain j where j: "ready s j" "prio_of s j = bitmap_top ?bm" using bm [OF top(2)] top(1) by blast
  have max: "\<forall>k. ready s k \<longrightarrow> prio_of s k \<le> bitmap_top ?bm" using top(3) bm p by blast
  show ?thesis
  proof (cases "bitmap_top ?bm = 255")
    case True
    then show ?thesis using j by (auto simp: sched_pick_next_def Let_def)
  next
    case False
    have "j \<in> set (pick_order (sd_current s))" unfolding set_pick_order using j(1) by (simp add: ready_def)
    then obtain k where k: "sched_pick_next s = Some k"
      using False j by (cases "sched_pick_next s") (auto simp: sched_pick_next_def find_None_iff ready_def prio_of_def)
    then show ?thesis using pick_Some [OF k] max by simp
  qed
qed


lemma bitmap_top_cases: "length bm = 8 \<Longrightarrow> bitmap_top bm = 255 \<or> bm_test bm (bitmap_top bm)"
  using bitmap_top_spec(1) [of bm] bitmap_top_empty [of bm] by blast

lemma pick_test: "length (sd_bitmap s) = 8 \<Longrightarrow> sched_pick_next s = Some k \<Longrightarrow> bm_test (sd_bitmap s) (prio_of s k)"
proof -
  assume a: "length (sd_bitmap s) = 8" "sched_pick_next s = Some k"
  then have "bitmap_top (sd_bitmap s) \<noteq> 255" by (auto simp: sched_pick_next_def Let_def)
  then show ?thesis using bitmap_top_cases [OF a(1)] pick_Some [OF a(2)] by simp
qed

section \<open>What an event leaves of a task's state\<close>

abbreviation st :: "sched \<Rightarrow> nat \<Rightarrow> task_state" where
  "st s i \<equiv> t_state (sd_tasks s ! i)"

abbreviation awake :: "sched \<Rightarrow> nat \<Rightarrow> bool" where
  "awake s i \<equiv> st s i = TASK_READY \<or> st s i = TASK_RUNNING"

text \<open>
  \<open>calm i s s'\<close>: between the two states the clock has not moved and task \<open>i\<close>, unless its slot was
  free or a zombie, has kept its state and its wake-up time or is awake.
\<close>

definition calm :: "nat \<Rightarrow> sched \<Rightarrow> sched \<Rightarrow> bool" where
  "calm i s s' \<longleftrightarrow> sd_uptime s' = sd_uptime s \<and> length (sd_tasks s') = length (sd_tasks s) \<and>
     (st s i = TASK_ZOMBIE \<or> st s i = TASK_UNUSED \<or> awake s' i \<or>
      st s' i = st s i \<and> t_sleep_until (sd_tasks s' ! i) = t_sleep_until (sd_tasks s ! i))"

lemma calm_refl [simp, intro]: "calm i s s" by (simp add: calm_def)

lemma calm_trans: "calm i s s' \<Longrightarrow> calm i s' s'' \<Longrightarrow> calm i s s''" unfolding calm_def by (elim conjE disjE) simp_all

lemma calm_prio [simp]: "calm i s (prio_set p s') = calm i s s'" "calm i s (prio_clear p s') = calm i s s'"
  by (simp_all add: calm_def prio_set_def prio_clear_def)

lemma upd_task_sel [simp]:
  "length (sd_tasks (upd_task j f s)) = length (sd_tasks s)" "sd_uptime (upd_task j f s) = sd_uptime s"
  "sd_current (upd_task j f s) = sd_current s" "sd_bitmap (upd_task j f s) = sd_bitmap s"
  "i < length (sd_tasks s) \<Longrightarrow> sd_tasks (upd_task i f s) ! i = f (sd_tasks s ! i)"
  "i \<noteq> j \<Longrightarrow> sd_tasks (upd_task j f s) ! i = sd_tasks s ! i"
  by (simp_all add: upd_task_def)

lemma calm_upd:
  assumes "calm i s s'"
    and "j = i \<Longrightarrow> i < length (sd_tasks s') \<Longrightarrow> st s' i = TASK_ZOMBIE \<or> st s' i = TASK_UNUSED \<or>
      (let t' = f (sd_tasks s' ! i) in t_state t' = TASK_READY \<or> t_state t' = TASK_RUNNING \<or>
        t_state t' = st s' i \<and> t_sleep_until t' = t_sleep_until (sd_tasks s' ! i))"
  shows "calm i s (upd_task j f s')"
proof -
  have "sd_tasks (upd_task j f s') ! i = (if j = i \<and> i < length (sd_tasks s') then f (sd_tasks s' ! i) else sd_tasks s' ! i)"
    by (cases "j = i"; cases "i < length (sd_tasks s')") (simp_all add: upd_task_def not_less list_update_beyond)
  then have "calm i s' (upd_task j f s')"
    using assms(2) by (cases "j = i \<and> i < length (sd_tasks s')") (auto simp: calm_def Let_def)
  then show ?thesis by (rule calm_trans [OF assms(1)])
qed

lemma calm_fold: "(\<And>j s. calm i s (f j s)) \<Longrightarrow> calm i s (fold f js s)"
  by (induction js arbitrary: s) (auto intro: calm_trans)

lemma st_prio [simp]: "sd_tasks (prio_set p s) = sd_tasks s" "sd_tasks (prio_clear p s) = sd_tasks s"
    "sd_uptime (prio_set p s) = sd_uptime s" "sd_uptime (prio_clear p s) = sd_uptime s"
    "sd_current (prio_set p s) = sd_current s" "sd_current (prio_clear p s) = sd_current s"
  by (simp_all add: prio_set_def prio_clear_def)

lemma calm_wake_one: "calm i s (wake_one j s)"
  by (auto simp: wake_one_def intro!: calm_upd)

lemma calm_age_one: "calm i s (age_one j s)"
  by (auto simp: age_one_def Let_def intro!: calm_upd)

lemma calm_pmm [simp]: "calm i s (s'\<lparr>sd_pmm := p\<rparr>) = calm i s s'" "calm i s (s'\<lparr>sd_current := c\<rparr>) = calm i s s'"
  by (simp_all add: calm_def)

lemma calm_reap_one: "calm i s (reap_one j s)"
  by (auto simp: reap_one_def Let_def intro!: calm_upd)

lemma calm_timer_resume: "calm i s (timer_resume s)"
  by (auto simp: timer_resume_def age_tasks_def reap_zombies_def
      intro: calm_trans [OF calm_fold calm_fold] calm_age_one calm_reap_one)

lemma calm_demote: "calm i s (mlfq_demote j s)"
  by (auto simp: mlfq_demote_def Let_def intro!: calm_upd)


lemma calm_requeue: "calm i s (timer_requeue j s)"
  by (auto simp: timer_requeue_def Let_def calm_demote intro!: calm_upd)

lemma calm_run: "calm i s (keep_running j s)" "calm i s (switch_to j s)"
  by (auto simp: keep_running_def switch_to_def Let_def intro!: calm_upd)

lemma calm_timer_handler: "calm i (wake_sleepers (s\<lparr>sd_uptime := sd_uptime s + 1\<rparr>)) (snd (timer_handler s))"
proof -
  define w where "w = wake_sleepers (s\<lparr>sd_uptime := sd_uptime s + 1\<rparr>)"
  have t: "calm i w (upd_task c (\<lambda>t. t\<lparr>t_total_ticks := t_total_ticks t + 1, t_run_ticks := t_run_ticks t + 1\<rparr>) w)" for c
    by (auto intro!: calm_upd)
  have "calm i w (snd (timer_handler s))"
    unfolding timer_handler_def w_def [symmetric] Let_def
    by (auto split: option.splits intro: calm_trans [OF t] calm_timer_resume calm_trans [OF calm_requeue] calm_run)
  then show ?thesis by (simp add: w_def)
qed

section \<open>Sleeping tasks wake up\<close>

text \<open>Task \<open>i\<close> is awake, or asleep with its wake-up time \<open>d\<close> still ahead.\<close>

definition sleeps_until :: "nat \<Rightarrow> u32 \<Rightarrow> sched \<Rightarrow> bool" where
  "sleeps_until i d s \<longleftrightarrow> awake s i \<or> st s i = TASK_SLEEPING \<and> t_sleep_until (sd_tasks s ! i) = d \<and> sd_uptime s < d"

lemma sleeps_calm: "sleeps_until i d s \<Longrightarrow> calm i s s' \<Longrightarrow> sleeps_until i d s'"
  by (auto simp: sleeps_until_def calm_def)

lemma wake_one_wakes:
  assumes "awake s i \<or> st s i = TASK_SLEEPING \<and> t_sleep_until (sd_tasks s ! i) = d" "i < length (sd_tasks s)"
  shows "sleeps_until i d (wake_one i s)"
  using assms by (auto simp: sleeps_until_def wake_one_def not_le)

lemma wake_sleepers_wakes:
  assumes a: "awake s i \<or> st s i = TASK_SLEEPING \<and> t_sleep_until (sd_tasks s ! i) = d"
    and i: "i < SCHED_MAX_TASKS" "length (sd_tasks s) = SCHED_MAX_TASKS"
  shows "sleeps_until i d (wake_sleepers s)"
proof -
  have "[0..<SCHED_MAX_TASKS] = [0..<i] @ i # [Suc i..<SCHED_MAX_TASKS]"
    using i(1) by (metis upt_add_eq_append upt_conv_Cons le_add1 less_imp_le le_add_diff_inverse zero_le)
  then have eq: "wake_sleepers s = fold wake_one [Suc i..<SCHED_MAX_TASKS] (wake_one i (fold wake_one [0..<i] s))"
    by (simp add: wake_sleepers_def)
  have c: "calm i s (fold wake_one [0..<i] s)" by (rule calm_fold [OF calm_wake_one])
  have "sleeps_until i d (wake_one i (fold wake_one [0..<i] s))"
    by (rule wake_one_wakes) (use a i c in \<open>auto simp: calm_def\<close>)
  then show ?thesis unfolding eq by (rule sleeps_calm [OF _ calm_fold [OF calm_wake_one]])
qed

datatype sched_event = Tick | Resume | Create u32 "u8 list option" u8 | Wake nat | Set_priority nat u8

fun handle_event :: "sched_event \<Rightarrow> sched \<Rightarrow> sched" where
  "handle_event Tick s = snd (timer_handler s)"
| "handle_event Resume s = timer_resume s"
| "handle_event (Create fn name prio) s = snd (alloc_task fn name prio s)"
| "handle_event (Wake j) s = task_wake j s"
| "handle_event (Set_priority j prio) s = task_set_priority j prio s"

lemma calm_alloc_task: "calm i s (snd (alloc_task fn name prio s))"
proof (cases "find_idx (\<lambda>t. t_state t = TASK_UNUSED) (sd_tasks s)")
  case (Some j)
  then have "st s j = TASK_UNUSED" using find_idx_SomeD by fast
  then have "calm i s (s\<lparr>sd_tasks := (sd_tasks s)[j := t], sd_next_id := n, sd_pmm := p\<rparr>)" for t n p
    by (cases "i = j") (auto simp: calm_def)
  then show ?thesis using Some by (simp add: alloc_task_def Let_def case_prod_unfold)
qed (simp add: alloc_task_def)

lemma calm_event: "e \<noteq> Tick \<Longrightarrow> calm i s (handle_event e s)"
  by (cases e) (auto simp: calm_timer_resume calm_alloc_task task_wake_def task_set_priority_def Let_def intro!: calm_upd)

lemma events_sleep:
  assumes "sleeps_until i d s" "i < SCHED_MAX_TASKS" "length (sd_tasks s) = SCHED_MAX_TASKS"
    "unat (sd_uptime s) + count_list evs Tick < 2 ^ 32"
  shows "sleeps_until i d (fold handle_event evs s) \<and>
    unat (sd_uptime (fold handle_event evs s)) = unat (sd_uptime s) + count_list evs Tick"
  using assms
proof (induction evs arbitrary: s)
  case (Cons e evs)
  show ?case
  proof (cases "e = Tick")
    case True
    define w where "w = wake_sleepers (s\<lparr>sd_uptime := sd_uptime s + 1\<rparr>)"
    have c: "calm i w (handle_event e s)" unfolding w_def True handle_event.simps by (rule calm_timer_handler)
    have w: "calm i (s\<lparr>sd_uptime := sd_uptime s + 1\<rparr>) w" unfolding w_def wake_sleepers_def by (rule calm_fold [OF calm_wake_one])
    have "sleeps_until i d w" unfolding w_def using Cons.prems by (intro wake_sleepers_wakes) (auto simp: sleeps_until_def)
    then have 1: "sleeps_until i d (handle_event e s)" by (rule sleeps_calm [OF _ c])
    have "unat (sd_uptime s) + 1 < 2 ^ 32" using Cons.prems(4) True by simp
    then have "unat (sd_uptime s + 1) = unat (sd_uptime s) + 1" by (simp add: unat_word_ariths)
    then have 2: "unat (sd_uptime (handle_event e s)) = unat (sd_uptime s) + 1" "length (sd_tasks (handle_event e s)) = SCHED_MAX_TASKS"
      using c w Cons.prems(3) by (simp_all add: calm_def)
    show ?thesis using Cons.IH [OF 1 Cons.prems(2) 2(2)] Cons.prems(4) 2(1) True by simp
  next
    case False
    have c: "calm i s (handle_event e s)" by (rule calm_event [OF False])
    then have 2: "sd_uptime (handle_event e s) = sd_uptime s" "length (sd_tasks (handle_event e s)) = SCHED_MAX_TASKS"
      using Cons.prems(3) by (simp_all add: calm_def)
    show ?thesis using Cons.IH [OF sleeps_calm [OF Cons.prems(1) c] Cons.prems(2) 2(2)] Cons.prems(4) 2(1) False by simp
  qed
qed simp


section \<open>What the scheduler does\<close>

lemma switch_clears:
  assumes "length (sd_bitmap s) = 8" "n < length (sd_tasks s)"
  shows "\<not> bm_test (sd_bitmap (switch_to n s)) (prio_of (switch_to n s) n)"
proof -
  have "prio_of (switch_to n s) n = prio_of s n" using assms(2) by (simp add: prio_of_def switch_to_def)
  moreover have "prio_of s n div 32 < 8"
    using unat_u8_less [of "t_priority (sd_tasks s ! n)"] unfolding prio_of_def by (intro less_mult_imp_div_less) linarith
  ultimately show ?thesis using assms(1) bm_test_clear [of "prio_of s n" "sd_bitmap s" "prio_of s n"]
    by (simp add: switch_to_def prio_clear_def prio_of_def)
qed

text \<open>C19: as long as the bitmap records exactly the priorities of the ready tasks and none of them has
  priority 255, \<open>sched_pick_next\<close> returns a ready task of the highest priority.\<close>

theorem sched_picks_highest:
  assumes "bitmap_exact s" "ready s i" "\<forall>k. ready s k \<longrightarrow> prio_of s k < 255"
  shows "\<exists>j. sched_pick_next s = Some j \<and> ready s j \<and> (\<forall>k. ready s k \<longrightarrow> prio_of s k \<le> prio_of s j)"
  using pick_spec [OF assms(1,2)] assms(3) by (cases "sched_pick_next s") auto

text \<open>Three tasks: the first is running and at the end of its quantum, two of equal priority are ready.\<close>

definition sched_demo :: sched where
  "sched_demo =
     \<lparr>sd_tasks = (replicate 64 task_zero)
        [0 := task_zero\<lparr>t_state := TASK_RUNNING, t_run_ticks := 9, t_priority := 3\<rparr>,
         1 := task_zero\<lparr>t_state := TASK_READY, t_priority := 128\<rparr>,
         2 := task_zero\<lparr>t_state := TASK_READY, t_priority := 128\<rparr>],
      sd_current = Some 0, sd_next_id = 4, sd_uptime = 4, sd_bitmap = bm_set (replicate 8 0) 128, sd_pmm = pmm_example\<rparr>"

lemma sched_demo_ready: "ready sched_demo i \<longleftrightarrow> i = 1 \<or> i = 2"
  by (auto simp: ready_def sched_demo_def SCHED_MAX_TASKS_def nth_list_update task_zero_def split: if_splits)

lemma sched_demo_prio: "i = 1 \<or> i = 2 \<Longrightarrow> prio_of sched_demo i = 128"
  by (auto simp: prio_of_def sched_demo_def nth_list_update)

lemma sched_demo_exact: "bitmap_exact sched_demo"
proof -
  have "bm_test (sd_bitmap sched_demo) p \<longleftrightarrow> p = 128" if "p < 256" for p
    using that bm_test_set [of 128 "replicate 8 (0 :: u32)" p] less_mult_imp_div_less [of p 8 32]
    by (simp add: bm_test_bit sched_demo_def)
  moreover have "length (sd_bitmap sched_demo) = 8" by (simp add: sched_demo_def)
  ultimately show ?thesis using sched_demo_prio by (auto simp: bitmap_exact_def sched_demo_ready)
qed

theorem sched_picks_highest_witness:
  "\<exists>j. sched_pick_next sched_demo = Some j \<and> prio_of sched_demo j = 128"
  using sched_picks_highest [OF sched_demo_exact, of 1] by (auto simp: sched_demo_ready sched_demo_prio)

text \<open>after the timer has switched to a task, no ready task of the same priority can be picked: the
  switch clears the priority's bit although its other tasks stay ready.\<close>

theorem switch_hides_peers:
  assumes "timer_handler s = (Some (c, n), s')" "length (sd_bitmap s') = 8" "n < length (sd_tasks s')"
    "ready s' k" "prio_of s' k = prio_of s' n"
  shows "sched_pick_next s' \<noteq> Some k"
proof
  assume k: "sched_pick_next s' = Some k"
  obtain t where s': "s' = switch_to n t"
    using assms(1) by (auto simp: timer_handler_def Let_def split: option.splits if_splits)
  have "length (sd_bitmap t) = 8" "n < length (sd_tasks t)"
    using assms(2,3) by (simp_all add: s' switch_to_def prio_clear_def)
  from switch_clears [OF this] pick_test [OF assms(2) k] show False using assms(5) by (simp add: s')
qed

theorem switch_hides_peers_witness:
  "ready (snd (timer_handler sched_demo)) 2 \<and> sched_pick_next (snd (timer_handler sched_demo)) \<noteq> Some 2"
proof -
  let ?r = "timer_handler sched_demo"
  have "fst ?r = Some (0, 1) \<and> length (sd_bitmap (snd ?r)) = 8 \<and> length (sd_tasks (snd ?r)) = 64 \<and>
      st (snd ?r) 2 = TASK_READY \<and> t_priority (sd_tasks (snd ?r) ! 2) = 128 \<and> t_priority (sd_tasks (snd ?r) ! 1) = 128"
    by code_simp
  then show ?thesis using switch_hides_peers [of sched_demo 0 1 "snd ?r" 2]
    by (cases ?r) (simp add: ready_def prio_of_def SCHED_MAX_TASKS_def)
qed

text \<open>C27: a task that sleeps until \<open>d\<close> is awake once the clock has ticked to \<open>d\<close>, whatever task creations,
  wake-ups, priority changes and context switches happen in between, as long as the millisecond clock
  does not wrap.\<close>

theorem sleeping_task_wakes:
  assumes "st s i = TASK_SLEEPING" "sd_uptime s < t_sleep_until (sd_tasks s ! i)"
    "i < SCHED_MAX_TASKS" "length (sd_tasks s) = SCHED_MAX_TASKS"
    "unat (t_sleep_until (sd_tasks s ! i)) \<le> unat (sd_uptime s) + count_list evs Tick"
    "unat (sd_uptime s) + count_list evs Tick < 2 ^ 32"
  shows "awake (fold handle_event evs s) i"
proof -
  have "sleeps_until i (t_sleep_until (sd_tasks s ! i)) s" using assms(1,2) by (simp add: sleeps_until_def)
  from events_sleep [OF this assms(3,4,6)] assms(5) show ?thesis
    by (auto simp: sleeps_until_def word_less_nat_alt)
qed

theorem sleeping_task_wakes_witness:
  "awake (fold handle_event [Tick, Wake 2, Resume, Tick, Tick]
     (upd_task 1 (\<lambda>t. t\<lparr>t_state := TASK_SLEEPING, t_sleep_until := 7\<rparr>) sched_demo)) 1"
  using sleeping_task_wakes [of "upd_task 1 (\<lambda>t. t\<lparr>t_state := TASK_SLEEPING, t_sleep_until := 7\<rparr>) sched_demo" 1
      "[Tick, Wake 2, Resume, Tick, Tick]"]
  by (simp add: upd_task_def sched_demo_def SCHED_MAX_TASKS_def)

text \<open>A ready task of real-time priority 255 stops the scheduler from choosing any task: its bit makes the top
  of the bitmap 255, which is also the value for an empty bitmap.\<close>

theorem rt_task_blocks_scheduling:
  assumes "bitmap_exact s" "ready s i" "t_priority (sd_tasks s ! i) = TASK_PRIO_RT"
  shows "sched_pick_next s = None"
proof (cases "sched_pick_next s")
  case (Some j)
  then have "bitmap_top (sd_bitmap s) \<noteq> 255" by (auto simp: sched_pick_next_def Let_def)
  moreover have "prio_of s j \<ge> 255" "prio_of s j = bitmap_top (sd_bitmap s)" "prio_of s j < 256"
    using pick_spec [OF assms(1,2)] assms(2,3) Some pick_Some [OF Some] unat_u8_less [of "t_priority (sd_tasks s ! j)"]
    by (auto simp: prio_of_def TASK_PRIO_RT_def)
  ultimately show ?thesis by linarith
qed

definition sched_rt :: sched where
  "sched_rt = sched_demo\<lparr>sd_tasks := (replicate 64 task_zero)[5 := task_zero\<lparr>t_state := TASK_READY, t_priority := 255\<rparr>],
     sd_bitmap := bm_set (replicate 8 0) 255\<rparr>"

lemma sched_rt_ready: "ready sched_rt i \<longleftrightarrow> i = 5"
  by (auto simp: ready_def sched_rt_def SCHED_MAX_TASKS_def nth_list_update task_zero_def split: if_splits)

lemma sched_rt_exact: "bitmap_exact sched_rt"
proof -
  have "bm_test (sd_bitmap sched_rt) p \<longleftrightarrow> p = 255" if "p < 256" for p
    using that bm_test_set [of 255 "replicate 8 (0 :: u32)" p] less_mult_imp_div_less [of p 8 32]
    by (simp add: bm_test_bit sched_rt_def)
  moreover have "length (sd_bitmap sched_rt) = 8" "prio_of sched_rt 5 = 255" by (simp_all add: sched_rt_def prio_of_def)
  ultimately show ?thesis by (auto simp: bitmap_exact_def sched_rt_ready)
qed

theorem rt_task_blocks_scheduling_witness: "ready sched_rt 5 \<and> sched_pick_next sched_rt = None"
  using rt_task_blocks_scheduling [OF sched_rt_exact, of 5] by (simp add: sched_rt_ready) (simp add: sched_rt_def TASK_PRIO_RT_def)

end
