(* ===== verification/Vfs.thy ===== *)
theory Vfs
  imports KString
begin

text \<open>
  The virtual file-system layer (\<open>fs/vfs.c\<close>, \<open>include/vfs.h\<close>). A \<open>vfs_node_t\<close> pointer is an index into a
  pool of nodes, an \<open>fs_ops_t\<close> pointer an index into a table \<open>tab\<close> of operation records, whose function
  pointers are optional functions. The operations run on a world: the pool and the private data
  \<open>'d\<close> of the file systems. A \<open>write\<close> that would leave its buffer is the result \<open>None\<close>.
\<close>

section \<open>Types (include/vfs.h)\<close>

definition VFS_FILE :: u32 where "VFS_FILE = 0x01"
definition VFS_DIR :: u32 where "VFS_DIR = 0x02"
definition VFS_CHARDEV :: u32 where "VFS_CHARDEV = 0x08"
definition O_CREAT :: u32 where "O_CREAT = 0x040"
definition VFS_MAX_MOUNTS :: nat where "VFS_MAX_MOUNTS = 16"
definition VFS_PATH_MAX :: nat where "VFS_PATH_MAX = 256"
definition VFS_MAX_FS :: nat where "VFS_MAX_FS = 16"

record vfs_dirent =
  de_name :: "u8 list"
  de_inode :: u32
  de_type :: u8

record vfs_node =
  vn_name :: "u8 list"
  vn_inode :: u32
  vn_flags :: u32
  vn_size :: u32
  vn_permissions :: u32
  vn_mtime :: u32
  vn_ops :: "nat option"
  vn_fs_data :: nat
  vn_ref_count :: u32

record 'd fs_world =
  fw_nodes :: "vfs_node list"
  fw_data :: 'd

record 'd fs_ops =
  op_name :: cstr
  op_read :: "(nat \<Rightarrow> u32 \<Rightarrow> u32 \<Rightarrow> 'd fs_world \<Rightarrow> int \<times> u8 list) option"
  op_write :: "(nat \<Rightarrow> u32 \<Rightarrow> u32 \<Rightarrow> u8 list \<Rightarrow> 'd fs_world \<Rightarrow> (int \<times> 'd fs_world) option) option"
  op_close :: "(nat \<Rightarrow> 'd fs_world \<Rightarrow> 'd fs_world) option"
  op_readdir :: "(nat \<Rightarrow> u32 \<Rightarrow> vfs_dirent \<Rightarrow> 'd fs_world \<Rightarrow> vfs_dirent option) option"
  op_finddir :: "(nat \<Rightarrow> cstr \<Rightarrow> 'd fs_world \<Rightarrow> nat option \<times> 'd fs_world) option"
  op_mkdir :: "(nat \<Rightarrow> cstr \<Rightarrow> u32 \<Rightarrow> 'd fs_world \<Rightarrow> int \<times> 'd fs_world) option"
  op_unlink :: "(nat \<Rightarrow> cstr \<Rightarrow> 'd fs_world \<Rightarrow> int \<times> 'd fs_world) option"
  op_mount :: "(cstr option \<Rightarrow> u32 \<Rightarrow> 'd fs_world \<Rightarrow> nat option \<times> 'd fs_world) option"

record mount_entry =
  mt_path :: "u8 list"
  mt_root :: nat
  mt_ops :: nat
  mt_used :: bool

record 'd vfs =
  vf_mounts :: "mount_entry list"
  vf_registry :: "nat list"
  vf_world :: "'d fs_world"

definition node_zero :: vfs_node where
  "node_zero = \<lparr>vn_name = replicate 256 0, vn_inode = 0, vn_flags = 0, vn_size = 0, vn_permissions = 0, vn_mtime = 0,
     vn_ops = None, vn_fs_data = 0, vn_ref_count = 0\<rparr>"

definition upd_node :: "nat \<Rightarrow> (vfs_node \<Rightarrow> vfs_node) \<Rightarrow> 'd fs_world \<Rightarrow> 'd fs_world" where
  "upd_node n f w = w\<lparr>fw_nodes := (fw_nodes w)[n := f (fw_nodes w ! n)]\<rparr>"

text \<open>The operations a node points to.\<close>

definition node_op :: "('d fs_ops \<Rightarrow> 'f option) \<Rightarrow> (nat \<Rightarrow> 'd fs_ops) \<Rightarrow> nat \<Rightarrow> 'd fs_world \<Rightarrow> 'f option" where
  "node_op sel tab n w = (case vn_ops (fw_nodes w ! n) of None \<Rightarrow> None | Some k \<Rightarrow> sel (tab k))"

section \<open>Mounts\<close>

definition vfs_init :: "'d vfs \<Rightarrow> 'd vfs" where
  "vfs_init s = s\<lparr>vf_mounts := replicate VFS_MAX_MOUNTS \<lparr>mt_path = replicate VFS_PATH_MAX 0, mt_root = 0, mt_ops = 0, mt_used = False\<rparr>,
     vf_registry := []\<rparr>"

definition vfs_register_fs :: "nat \<Rightarrow> 'd vfs \<Rightarrow> 'd vfs" where
  "vfs_register_fs k s = (if length (vf_registry s) < VFS_MAX_FS then s\<lparr>vf_registry := vf_registry s @ [k]\<rparr> else s)"

definition vfs_mount :: "(nat \<Rightarrow> 'd fs_ops) \<Rightarrow> cstr \<Rightarrow> cstr option \<Rightarrow> cstr \<Rightarrow> u32 \<Rightarrow> 'd vfs \<Rightarrow> int \<times> 'd vfs" where
  "vfs_mount tab path device fsname flags s =
     (case find_idx (\<lambda>m. \<not> mt_used m) (vf_mounts s) of
        None \<Rightarrow> (- 1, s)
      | Some i \<Rightarrow>
          (case find (\<lambda>k. strcmp (op_name (tab k)) fsname = 0) (vf_registry s) of
             None \<Rightarrow> (- 2, s)
           | Some k \<Rightarrow>
               (case op_mount (tab k) of
                  None \<Rightarrow> (- 2, s)
                | Some mount \<Rightarrow>
                    (case mount device flags (vf_world s) of
                       (None, w) \<Rightarrow> (- 3, s\<lparr>vf_world := w\<rparr>)
                     | (Some root, w) \<Rightarrow>
                         (0, s\<lparr>vf_world := w, vf_mounts := (vf_mounts s)[i :=
                              \<lparr>mt_path = strncpy path (VFS_PATH_MAX - 1) @ [0], mt_root = root, mt_ops = k, mt_used = True\<rparr>]\<rparr>)))))"

definition vfs_umount :: "cstr \<Rightarrow> 'd vfs \<Rightarrow> int \<times> 'd vfs" where
  "vfs_umount path s =
     (case find_idx (\<lambda>m. mt_used m \<and> strcmp (mt_path m) path = 0) (vf_mounts s) of
        None \<Rightarrow> (- 1, s)
      | Some i \<Rightarrow> (0, s\<lparr>vf_mounts := (vf_mounts s)[i := (vf_mounts s ! i)\<lparr>mt_used := False\<rparr>]\<rparr>))"

section \<open>Path lookup\<close>

text \<open>The mount with the longest path that is a prefix, the first of equally long ones.\<close>

definition better_mount :: "cstr \<Rightarrow> mount_entry \<Rightarrow> mount_entry option \<Rightarrow> mount_entry option" where
  "better_mount path m best =
     (let plen = length (cstring (mt_path m)); best_len = (case best of None \<Rightarrow> 0 | Some b \<Rightarrow> length (cstring (mt_path b))) in
      if mt_used m \<and> strncmp (mt_path m) path plen = 0 \<and> plen > best_len then Some m else best)"

definition best_mount :: "cstr \<Rightarrow> mount_entry list \<Rightarrow> mount_entry option" where
  "best_mount path ms = fold (better_mount path) ms None"

definition skip_slashes :: "cstr \<Rightarrow> cstr" where
  "skip_slashes rel = dropWhile (\<lambda>c. c = 47) rel"

definition component_len :: "cstr \<Rightarrow> nat" where
  "component_len rel = (case strchr rel 47 of Some k \<Rightarrow> k | None \<Rightarrow> length rel)"

lemma skip_shorter: "rel \<noteq> [] \<Longrightarrow> length (skip_slashes (drop (component_len rel) rel)) < length rel"
proof (cases rel)
  case (Cons c cs)
  have le: "length (skip_slashes s) \<le> length s" for s unfolding skip_slashes_def by (rule length_dropWhile_le)
  show ?thesis
  proof (cases "component_len rel")
    case 0
    then have "c = 47" using Cons by (auto simp: component_len_def split: option.splits if_splits)
    then show ?thesis using 0 Cons le [of cs] by (simp add: skip_slashes_def)
  next
    case (Suc k)
    then show ?thesis using Cons le [of "drop k cs"] by simp
  qed
qed simp

function vfs_walk :: "(nat \<Rightarrow> 'd fs_ops) \<Rightarrow> nat option \<Rightarrow> cstr \<Rightarrow> 'd fs_world \<Rightarrow> nat option \<times> 'd fs_world" where
  "vfs_walk tab node rel w =
     (case node of
        None \<Rightarrow> (None, w)
      | Some n \<Rightarrow>
          if rel = [] then (Some n, w)
          else
            let len = component_len rel in
            if len \<ge> 256 then (None, w)
            else
              (case node_op op_finddir tab n w of
                 None \<Rightarrow> (None, w)
               | Some finddir \<Rightarrow>
                   let (node', w') = finddir n (strncpy rel len @ [0]) w
                   in vfs_walk tab node' (skip_slashes (drop len rel)) w'))"
  by pat_completeness auto

termination
proof (relation "measure (\<lambda>(tab, node, rel, w). length rel)", goal_cases)
  case (2 tab node rel w)
  then show ?case by (simp add: skip_shorter)
qed simp


declare vfs_walk.simps [simp del]

definition vfs_lookup :: "(nat \<Rightarrow> 'd fs_ops) \<Rightarrow> cstr \<Rightarrow> 'd vfs \<Rightarrow> nat option \<times> 'd vfs" where
  "vfs_lookup tab path s =
     (case best_mount path (vf_mounts s) of
        None \<Rightarrow> (None, s)
      | Some m \<Rightarrow>
          let rel = skip_slashes (drop (length (cstring (mt_path m))) (cstring path));
              (n, w) = vfs_walk tab (Some (mt_root m)) rel (vf_world s)
          in (n, s\<lparr>vf_world := w\<rparr>))"

section \<open>Files\<close>

definition vfs_open :: "(nat \<Rightarrow> 'd fs_ops) \<Rightarrow> cstr \<Rightarrow> u32 \<Rightarrow> 'd vfs \<Rightarrow> nat option \<times> 'd vfs" where
  "vfs_open tab path flags s =
     (case vfs_lookup tab path s of
        (None, s) \<Rightarrow> (None, s)
      | (Some n, s) \<Rightarrow> (Some n, s\<lparr>vf_world := upd_node n (\<lambda>v. v\<lparr>vn_ref_count := vn_ref_count v + 1\<rparr>) (vf_world s)\<rparr>))"

definition vfs_close :: "(nat \<Rightarrow> 'd fs_ops) \<Rightarrow> nat option \<Rightarrow> 'd fs_world \<Rightarrow> 'd fs_world" where
  "vfs_close tab node w =
     (case node of
        None \<Rightarrow> w
      | Some n \<Rightarrow>
          let w = (if vn_ref_count (fw_nodes w ! n) > 0 then upd_node n (\<lambda>v. v\<lparr>vn_ref_count := vn_ref_count v - 1\<rparr>) w else w)
          in case node_op op_close tab n w of None \<Rightarrow> w | Some close \<Rightarrow> close n w)"

definition vfs_read :: "(nat \<Rightarrow> 'd fs_ops) \<Rightarrow> nat option \<Rightarrow> u32 \<Rightarrow> u32 \<Rightarrow> 'd fs_world \<Rightarrow> int \<times> u8 list" where
  "vfs_read tab node off sz w =
     (case node of
        None \<Rightarrow> (- 1, [])
      | Some n \<Rightarrow> (case node_op op_read tab n w of None \<Rightarrow> (- 1, []) | Some rd \<Rightarrow> rd n off sz w))"

definition vfs_write :: "(nat \<Rightarrow> 'd fs_ops) \<Rightarrow> nat option \<Rightarrow> u32 \<Rightarrow> u32 \<Rightarrow> u8 list \<Rightarrow> 'd fs_world \<Rightarrow> (int \<times> 'd fs_world) option" where
  "vfs_write tab node off sz buf w =
     (case node of
        None \<Rightarrow> Some (- 1, w)
      | Some n \<Rightarrow> (case node_op op_write tab n w of None \<Rightarrow> Some (- 1, w) | Some wr \<Rightarrow> wr n off sz buf w))"

definition vfs_readdir :: "(nat \<Rightarrow> 'd fs_ops) \<Rightarrow> nat option \<Rightarrow> u32 \<Rightarrow> vfs_dirent \<Rightarrow> 'd fs_world \<Rightarrow> vfs_dirent option" where
  "vfs_readdir tab node idx out w =
     (case node of
        None \<Rightarrow> None
      | Some n \<Rightarrow> (case node_op op_readdir tab n w of None \<Rightarrow> None | Some rd \<Rightarrow> rd n idx out w))"

definition vfs_finddir :: "(nat \<Rightarrow> 'd fs_ops) \<Rightarrow> nat option \<Rightarrow> cstr \<Rightarrow> 'd fs_world \<Rightarrow> nat option \<times> 'd fs_world" where
  "vfs_finddir tab node name w =
     (case node of
        None \<Rightarrow> (None, w)
      | Some n \<Rightarrow> (case node_op op_finddir tab n w of None \<Rightarrow> (None, w) | Some fd \<Rightarrow> fd n name w))"

section \<open>The mount that is chosen\<close>

definition mount_path :: "mount_entry \<Rightarrow> cstr" where
  "mount_path m = cstring (mt_path m)"

text \<open>A used mount whose path is a non-empty prefix of the looked-up path.\<close>

definition applies :: "cstr \<Rightarrow> mount_entry \<Rightarrow> bool" where
  "applies path m \<longleftrightarrow> mt_used m \<and> mount_path m \<noteq> [] \<and> take (length (mount_path m)) path = mount_path m"

lemma cstring_strncmp: "strncmp (cstring a) b n = strncmp a b n"
proof (induction a b n rule: strncmp.induct)
  case (2 a b n)
  then show ?case by (cases a) (auto simp: cstring_def)
qed simp

lemma better_mount_eq:
  "0 \<notin> set path \<Longrightarrow> better_mount path m best =
    (if applies path m \<and> (case best of None \<Rightarrow> 0 | Some b \<Rightarrow> length (mount_path b)) < length (mount_path m) then Some m else best)"
  using strncmp_zero [of "cstring (mt_path m)" path "length (cstring (mt_path m))"]
  by (cases "mount_path m = []")
    (auto simp: better_mount_def applies_def mount_path_def cstring_strncmp Let_def split: option.splits)

lemma best_mount_spec:
  assumes "0 \<notin> set path"
    and "\<And>b. best = Some b \<Longrightarrow> b \<noteq> m \<Longrightarrow> length (mount_path b) < length (mount_path m)"
    and "\<And>k. k \<in> set ms \<Longrightarrow> applies path k \<Longrightarrow> k \<noteq> m \<Longrightarrow> length (mount_path k) < length (mount_path m)"
    and "applies path m" "best = Some m \<or> m \<in> set ms"
  shows "fold (better_mount path) ms best = Some m"
  using assms(2,3,5)
proof (induction ms arbitrary: best)
  case (Cons k ms)
  let ?b = "better_mount path k best"
  have b: "?b = (if applies path k \<and> (case best of None \<Rightarrow> 0 | Some b \<Rightarrow> length (mount_path b)) < length (mount_path k) then Some k else best)"
    by (rule better_mount_eq [OF assms(1)])
  have 1: "length (mount_path b) < length (mount_path m)" if "?b = Some b" "b \<noteq> m" for b
    using that Cons.prems(1,2) unfolding b by (auto split: if_splits)
  have 2: "?b = Some m \<or> m \<in> set ms"
  proof (cases "best = Some m")
    case True
    then show ?thesis using Cons.prems(2) [of k] unfolding b by (cases "k = m") (auto dest: less_asym)
  next
    case False
    then show ?thesis using Cons.prems(1,3) assms(4) unfolding b
      by (cases best) (auto simp: applies_def)
  qed
  show ?case using Cons.IH [OF 1 _ 2] Cons.prems(2) by simp
qed simp

section \<open>A path is walked component by component\<close>

fun walk_components :: "(nat \<Rightarrow> 'd fs_ops) \<Rightarrow> nat option \<Rightarrow> cstr list \<Rightarrow> 'd fs_world \<Rightarrow> nat option \<times> 'd fs_world" where
  "walk_components tab node [] w = (node, w)"
| "walk_components tab None (c # cs) w = (None, w)"
| "walk_components tab (Some n) (c # cs) w =
     (case node_op op_finddir tab n w of
        None \<Rightarrow> (None, w)
      | Some finddir \<Rightarrow> let (node', w') = finddir n (c @ [0]) w in walk_components tab node' cs w')"

lemma walk_None [simp]: "vfs_walk tab None rel w = (None, w)" "walk_components tab None cs w = (None, w)"
  by (simp_all add: vfs_walk.simps) (cases cs, simp_all)

lemma strchr_component: "0 \<notin> set rel \<Longrightarrow> component_len rel = length (takeWhile (\<lambda>c. c \<noteq> 47) rel)"
proof (induction rel)
  case (Cons c rel)
  then show ?case by (cases "strchr rel 47") (auto simp: component_len_def)
qed (simp add: component_len_def)

lemma walk_eq_components:
  assumes "0 \<notin> set rel" "rel = [] \<or> hd rel \<noteq> 47" "\<forall>c \<in> set (tokens 47 [] rel). length c < 256"
  shows "vfs_walk tab node rel w = walk_components tab node (tokens 47 [] rel) w"
  using assms
proof (induction "length rel" arbitrary: rel node w rule: less_induct)
  case less
  show ?case
  proof (cases "node = None \<or> rel = []")
    case True
    then show ?thesis by (cases node) (auto simp: vfs_walk.simps)
  next
    case False
    then obtain n where n: "node = Some n" and ne: "rel \<noteq> []" by auto
    define c where "c = takeWhile (\<lambda>c. c \<noteq> 47) rel"
    define rest where "rest = skip_slashes (drop (length c) rel)"
    have len: "component_len rel = length c" using strchr_component [OF less.prems(1)] by (simp add: c_def)
    have cn: "c \<noteq> []" using ne less.prems(2) by (cases rel) (auto simp: c_def)
    have drop: "drop (length c) rel = dropWhile (\<lambda>c. c \<noteq> 47) rel" by (simp add: c_def dropWhile_eq_drop)
    have "skip_slashes (dropWhile (\<lambda>c. c \<noteq> 47) rel) = skip_slashes (tl (dropWhile (\<lambda>c. c \<noteq> 47) rel))"
    proof (cases "dropWhile (\<lambda>c. c \<noteq> 47) rel")
      case (Cons x xs)
      then have "x = 47" using hd_dropWhile [of "\<lambda>c. c \<noteq> 47" rel] by simp
      then show ?thesis using Cons by (simp add: skip_slashes_def)
    next
      case Nil
      show ?thesis unfolding Nil by simp
    qed
    then have "skip_slashes (drop (length c) rel) = dropWhile (\<lambda>c. c = 47) (tl (dropWhile (\<lambda>c. c \<noteq> 47) rel))"
      by (simp add: drop skip_slashes_def)
    then have "tokens 47 [] (tl (dropWhile (\<lambda>c. c \<noteq> 47) rel)) = tokens 47 [] rest"
      unfolding rest_def using tokens_skip [of 47 "tl (dropWhile (\<lambda>c. c \<noteq> 47) rel)"] by (simp only:)
    then have toks: "tokens 47 [] rel = c # tokens 47 [] rest"
      using cn by (subst tokens_take) (simp add: c_def [symmetric] Let_def)
    have short: "length c < 256" using less.prems(3) by (simp add: toks)
    have le: "length c \<le> length rel" by (simp add: c_def length_takeWhile_le)
    have "take (length c) rel = c" unfolding c_def by (rule takeWhile_eq_take [symmetric])
    then have arg: "strncpy rel (length c) = c" using le less.prems(1) by (simp add: strncpy_eq)
    have sub: "set rest \<subseteq> set rel"
      unfolding rest_def skip_slashes_def by (blast dest: set_dropWhileD in_set_dropD)
    have IH: "vfs_walk tab node' rest w' = walk_components tab node' (tokens 47 [] rest) w'" for node' w'
    proof (rule less.hyps)
      show "length rest < length rel" using skip_shorter [OF ne] by (simp add: rest_def len)
      show "0 \<notin> set rest" using sub less.prems(1) by blast
      show "rest = [] \<or> hd rest \<noteq> 47" unfolding rest_def skip_slashes_def using hd_dropWhile [of "\<lambda>c. c = 47"] by blast
      show "\<forall>c\<in>set (tokens 47 [] rest). length c < 256" using less.prems(3) by (simp add: toks)
    qed
    have "vfs_walk tab node rel w =
        (case node_op op_finddir tab n w of None \<Rightarrow> (None, w)
         | Some finddir \<Rightarrow> let (node', w') = finddir n (c @ [0]) w in vfs_walk tab node' rest w')"
      using ne short by (subst vfs_walk.simps) (simp add: n len arg Let_def rest_def [symmetric] split: option.split)
    then show ?thesis by (simp add: n toks IH case_prod_unfold Let_def split: option.split)
  qed
qed


lemma set_tokens: "c \<in> set (tokens d acc s) \<Longrightarrow> length c \<le> length acc + length s"
  by (induction d acc s rule: tokens.induct) (auto split: if_splits)

text \<open>C16: a path is looked up in the mount with the longest path that is a prefix of it, by looking up its
  non-empty components one after the other; repeated and trailing slashes do not matter.\<close>

theorem vfs_lookup_walks_components:
  assumes "0 \<notin> set path" "m \<in> set (vf_mounts s)" "applies path m"
    "\<And>k. k \<in> set (vf_mounts s) \<Longrightarrow> applies path k \<Longrightarrow> k \<noteq> m \<Longrightarrow> length (mount_path k) < length (mount_path m)"
    "\<forall>c \<in> set (tokens 47 [] (drop (length (mount_path m)) path)). length c < 256"
  shows "vfs_lookup tab path s =
    (let (n, w) = walk_components tab (Some (mt_root m)) (tokens 47 [] (drop (length (mount_path m)) path)) (vf_world s)
     in (n, s\<lparr>vf_world := w\<rparr>))"
proof -
  let ?rel = "skip_slashes (drop (length (mount_path m)) path)"
  have best: "best_mount path (vf_mounts s) = Some m"
    unfolding best_mount_def using assms(2-4) by (intro best_mount_spec [OF assms(1)]) auto
  have rel: "0 \<notin> set ?rel" "?rel = [] \<or> hd ?rel \<noteq> 47"
    using assms(1) hd_dropWhile [of "\<lambda>c. c = 47" "drop (length (mount_path m)) path"]
    by (auto simp: skip_slashes_def dest: set_dropWhileD in_set_dropD)
  have toks: "tokens 47 [] ?rel = tokens 47 [] (drop (length (mount_path m)) path)"
    unfolding skip_slashes_def by (rule tokens_skip [symmetric])
  have "vfs_walk tab (Some (mt_root m)) ?rel (vf_world s) =
      walk_components tab (Some (mt_root m)) (tokens 47 [] (drop (length (mount_path m)) path)) (vf_world s)"
    using walk_eq_components [OF rel] assms(5) by (simp add: toks)
  then show ?thesis using assms(1) by (simp add: vfs_lookup_def best mount_path_def)
qed

end
