(* ===== verification/Ramfs.thy ===== *)
theory Ramfs
  imports Vfs
begin

text \<open>
  The memory file system (\<open>fs/ramfs.c\<close>). A node's \<open>fs_data\<close> is its own address, so a
  \<open>ramfs_node_t\<close> and its embedded \<open>vfs_node_t\<close> share an index; the child list linked through \<open>siblings\<close> is a
  list of indices, and freed nodes' indices are not used again. What the kernel heap hands out is the
  function \<open>rf_heap\<close>: for a size, the stale bytes of the block, or \<open>None\<close> when it is exhausted.
\<close>

section \<open>State\<close>

definition RAMFS_BLOCK_SIZE :: u32 where "RAMFS_BLOCK_SIZE = 4096"
definition RAMFS_MAX_SIZE :: u32 where "RAMFS_MAX_SIZE = 16 * 1024 * 1024"
definition RAMFS_NODE_BYTES :: u32 where "RAMFS_NODE_BYTES = 324"

record ramfs_node =
  rn_data :: "u8 list option"
  rn_alloc_size :: u32
  rn_children :: "nat list"
  rn_parent :: "nat option"

record ramfs =
  rf_nodes :: "nat \<Rightarrow> ramfs_node option"
  rf_inode_counter :: u32
  rf_heap :: "u32 \<Rightarrow> u8 list option"

type_synonym ramfs_world = "ramfs fs_world"

abbreviation rnode :: "ramfs_world \<Rightarrow> nat \<Rightarrow> ramfs_node" where
  "rnode w n \<equiv> the (rf_nodes (fw_data w) n)"

definition set_rnode :: "nat \<Rightarrow> ramfs_node option \<Rightarrow> ramfs_world \<Rightarrow> ramfs_world" where
  "set_rnode n r w = w\<lparr>fw_data := (fw_data w)\<lparr>rf_nodes := (rf_nodes (fw_data w))(n := r)\<rparr>\<rparr>"

text \<open>\<open>self\<close> is the index of \<open>ramfs_ops\<close> in the operation table.\<close>

definition ramfs_new_node :: "nat \<Rightarrow> cstr \<Rightarrow> u32 \<Rightarrow> ramfs_world \<Rightarrow> nat option \<times> ramfs_world" where
  "ramfs_new_node self name flags w =
     (if rf_heap (fw_data w) RAMFS_NODE_BYTES = None then (None, w)
      else
        let n = length (fw_nodes w); d = fw_data w in
        (Some n, w\<lparr>fw_nodes := fw_nodes w @ [node_zero\<lparr>vn_name := strncpy name 255 @ [0], vn_inode := rf_inode_counter d,
                     vn_flags := flags, vn_ops := Some self, vn_fs_data := n\<rparr>],
                   fw_data := d\<lparr>rf_inode_counter := rf_inode_counter d + 1,
                     rf_nodes := (rf_nodes d)(n := Some \<lparr>rn_data = None, rn_alloc_size = 0, rn_children = [], rn_parent = None\<rparr>)\<rparr>\<rparr>))"

section \<open>Files\<close>

definition ramfs_read :: "nat \<Rightarrow> u32 \<Rightarrow> u32 \<Rightarrow> ramfs_world \<Rightarrow> int \<times> u8 list" where
  "ramfs_read n off sz w =
     (let size = vn_size (fw_nodes w ! n) in
      case rn_data (rnode w (vn_fs_data (fw_nodes w ! n))) of
        None \<Rightarrow> (0, [])
      | Some data \<Rightarrow>
          if off \<ge> size then (0, [])
          else
            let avail = size - off; to_read = (if sz < avail then sz else avail)
            in (sint to_read, take (unat to_read) (drop (unat off) data)))"

text \<open>\<open>krealloc\<close>: the old bytes, then the stale bytes of the new block.\<close>

definition ramfs_grow :: "u32 \<Rightarrow> ramfs_node \<Rightarrow> (u32 \<Rightarrow> u8 list option) \<Rightarrow> ramfs_node option" where
  "ramfs_grow needed r heap =
     (if needed \<le> rn_alloc_size r then Some r
      else
        let new_size = align_up needed RAMFS_BLOCK_SIZE in
        case heap new_size of
          None \<Rightarrow> None
        | Some blk \<Rightarrow> Some (r\<lparr>rn_data := Some (put_at blk 0 (case rn_data r of Some d \<Rightarrow> d | None \<Rightarrow> [])), rn_alloc_size := new_size\<rparr>))"

definition ramfs_write :: "nat \<Rightarrow> u32 \<Rightarrow> u32 \<Rightarrow> u8 list \<Rightarrow> ramfs_world \<Rightarrow> (int \<times> ramfs_world) option" where
  "ramfs_write n off sz buf w =
     (let rn = vn_fs_data (fw_nodes w ! n); needed = off + sz in
      if needed > RAMFS_MAX_SIZE then Some (- 1, w)
      else case ramfs_grow needed (rnode w rn) (rf_heap (fw_data w)) of
        None \<Rightarrow> Some (- 1, w)
      | Some r \<Rightarrow>
          let data = (case rn_data r of Some d \<Rightarrow> d | None \<Rightarrow> []) in
          if unat off + unat sz \<le> length data
          then Some (sint sz,
                 upd_node n (\<lambda>v. if off + sz > vn_size v then v\<lparr>vn_size := off + sz\<rparr> else v)
                   (set_rnode rn (Some (r\<lparr>rn_data := map_option (\<lambda>d. put_at d (unat off) (take (unat sz) buf)) (rn_data r)\<rparr>)) w))
          else None)"

section \<open>Directories\<close>

definition ramfs_readdir :: "nat \<Rightarrow> u32 \<Rightarrow> vfs_dirent \<Rightarrow> ramfs_world \<Rightarrow> vfs_dirent option" where
  "ramfs_readdir n index out w =
     (let r = rnode w (vn_fs_data (fw_nodes w ! n)) in
      if index = 0 then
        Some (out\<lparr>de_name := put_at (de_name out) 0 (strcpy (asc ''.'')), de_inode := vn_inode (fw_nodes w ! n), de_type := ucast VFS_DIR\<rparr>)
      else if index = 1 then
        Some (out\<lparr>de_name := put_at (de_name out) 0 (strcpy (asc ''..'')),
                de_inode := (case rn_parent r of Some p \<Rightarrow> vn_inode (fw_nodes w ! p) | None \<Rightarrow> 1), de_type := ucast VFS_DIR\<rparr>)
      else if unat (index - 2) < length (rn_children r) then
        (let c = fw_nodes w ! (rn_children r ! unat (index - 2)) in
         Some (out\<lparr>de_name := put_at (de_name out) 0 (strncpy (vn_name c) 255), de_inode := vn_inode c,
                 de_type := ucast (vn_flags c AND 0xFF)\<rparr>))
      else None)"

definition ramfs_finddir :: "nat \<Rightarrow> cstr \<Rightarrow> ramfs_world \<Rightarrow> nat option \<times> ramfs_world" where
  "ramfs_finddir n name w =
     (find (\<lambda>c. strcmp (vn_name (fw_nodes w ! c)) name = 0) (rn_children (rnode w (vn_fs_data (fw_nodes w ! n)))), w)"

definition ramfs_mkdir :: "nat \<Rightarrow> nat \<Rightarrow> cstr \<Rightarrow> u32 \<Rightarrow> ramfs_world \<Rightarrow> int \<times> ramfs_world" where
  "ramfs_mkdir self parent name flags w =
     (let prn = vn_fs_data (fw_nodes w ! parent) in
      case ramfs_new_node self name VFS_DIR w of
        (None, w) \<Rightarrow> (- 1, w)
      | (Some dir, w) \<Rightarrow>
          (0, set_rnode prn (Some ((rnode w prn)\<lparr>rn_children := dir # rn_children (rnode w prn)\<rparr>))
                (set_rnode dir (Some ((rnode w dir)\<lparr>rn_parent := Some prn\<rparr>)) w)))"

definition ramfs_unlink :: "nat \<Rightarrow> cstr \<Rightarrow> ramfs_world \<Rightarrow> int \<times> ramfs_world" where
  "ramfs_unlink parent name w =
     (let prn = vn_fs_data (fw_nodes w ! parent) in
      case find_idx (\<lambda>c. strcmp (vn_name (fw_nodes w ! c)) name = 0) (rn_children (rnode w prn)) of
        None \<Rightarrow> (- 1, w)
      | Some i \<Rightarrow>
          let cs = rn_children (rnode w prn) in
          (0, set_rnode (cs ! i) None (set_rnode prn (Some ((rnode w prn)\<lparr>rn_children := take i cs @ drop (Suc i) cs\<rparr>)) w)))"

definition ramfs_mount :: "nat \<Rightarrow> cstr option \<Rightarrow> u32 \<Rightarrow> ramfs_world \<Rightarrow> nat option \<times> ramfs_world" where
  "ramfs_mount self device flags w = ramfs_new_node self (asc ''/'') VFS_DIR w"

definition ramfs_ops :: "nat \<Rightarrow> ramfs fs_ops" where
  "ramfs_ops self = \<lparr>op_name = asc ''ramfs'', op_read = Some ramfs_read, op_write = Some ramfs_write, op_close = None,
     op_readdir = Some ramfs_readdir, op_finddir = Some ramfs_finddir, op_mkdir = Some (ramfs_mkdir self),
     op_unlink = Some ramfs_unlink, op_mount = Some (ramfs_mount self)\<rparr>"

section \<open>Invariant\<close>

definition file_ok :: "ramfs_world \<Rightarrow> nat \<Rightarrow> bool" where
  "file_ok w n \<longleftrightarrow> n < length (fw_nodes w) \<and> vn_fs_data (fw_nodes w ! n) = n \<and>
     (\<exists>r. rf_nodes (fw_data w) n = Some r \<and> vn_size (fw_nodes w ! n) \<le> rn_alloc_size r \<and> rn_alloc_size r \<le> RAMFS_MAX_SIZE \<and>
        length (case rn_data r of Some d \<Rightarrow> d | None \<Rightarrow> []) = unat (rn_alloc_size r))"

text \<open>The bytes of a file.\<close>

definition content :: "ramfs_world \<Rightarrow> nat \<Rightarrow> u8 list" where
  "content w n = take (unat (vn_size (fw_nodes w ! n))) (case rn_data (rnode w n) of Some d \<Rightarrow> d | None \<Rightarrow> [])"

text \<open>The heap hands out blocks of the size asked for.\<close>

definition heap_sized :: "ramfs_world \<Rightarrow> bool" where
  "heap_sized w \<longleftrightarrow> (\<forall>k b. rf_heap (fw_data w) k = Some b \<longrightarrow> length b = unat k)"

text \<open>File \<open>n\<close> has room for \<open>k\<close> bytes, or the heap has a block, rounded up to pages, for them.\<close>

definition ramfs_room :: "ramfs_world \<Rightarrow> nat \<Rightarrow> u32 \<Rightarrow> bool" where
  "ramfs_room w n k \<longleftrightarrow> k \<le> rn_alloc_size (rnode w n) \<or> rf_heap (fw_data w) (align_up k RAMFS_BLOCK_SIZE) \<noteq> None"

text \<open>\<open>w'\<close> is \<open>w\<close> but for the size, the bytes and the block of file \<open>n\<close>.\<close>

definition only_file :: "ramfs_world \<Rightarrow> nat \<Rightarrow> ramfs_world \<Rightarrow> bool" where
  "only_file w n w' \<longleftrightarrow> (\<exists>v d a.
     w' = w\<lparr>fw_nodes := (fw_nodes w)[n := (fw_nodes w ! n)\<lparr>vn_size := v\<rparr>],
       fw_data := (fw_data w)\<lparr>rf_nodes := (rf_nodes (fw_data w))(n \<mapsto> (rnode w n)\<lparr>rn_data := d, rn_alloc_size := a\<rparr>)\<rparr>\<rparr>)"


section \<open>Reading and writing\<close>

abbreviation bytes_of :: "ramfs_node \<Rightarrow> u8 list" where
  "bytes_of r \<equiv> case rn_data r of Some d \<Rightarrow> d | None \<Rightarrow> []"

lemma file_ok_node:
  assumes "file_ok w n"
  obtains r where "rf_nodes (fw_data w) n = Some r" "unat (vn_size (fw_nodes w ! n)) \<le> length (bytes_of r)"
    "length (bytes_of r) = unat (rn_alloc_size r)" "unat (rn_alloc_size r) \<le> 16777216" "vn_fs_data (fw_nodes w ! n) = n"
    "n < length (fw_nodes w)"
  using assms by (auto simp: file_ok_def word_le_nat_alt RAMFS_MAX_SIZE_def)

lemma length_content: "file_ok w n \<Longrightarrow> length (content w n) = unat (vn_size (fw_nodes w ! n))"
  by (erule file_ok_node) (simp add: content_def)

lemma ramfs_read_spec:
  assumes "file_ok w n"
  shows "ramfs_read n off sz w =
    (let b = take (unat sz) (drop (unat off) (content w n)) in (int (length b), b))"
proof -
  obtain r where r: "rf_nodes (fw_data w) n = Some r" "unat (vn_size (fw_nodes w ! n)) \<le> length (bytes_of r)"
    "length (bytes_of r) = unat (rn_alloc_size r)" "unat (rn_alloc_size r) \<le> 16777216" "vn_fs_data (fw_nodes w ! n) = n"
    using file_ok_node [OF assms] by metis
  define size where "size = vn_size (fw_nodes w ! n)"
  have size: "unat size \<le> 16777216" using r(2-4) by (simp add: size_def)
  show ?thesis
  proof (cases "rn_data r")
    case None
    then show ?thesis using r by (simp add: ramfs_read_def content_def Let_def)
  next
    case (Some d)
    have c: "content w n = take (unat size) d" using r(1) Some by (simp add: content_def size_def)
    have d: "unat size \<le> length d" using r(2) Some by (simp add: size_def)
    show ?thesis
    proof (cases "off \<ge> size")
      case True
      then show ?thesis using r(1,5) Some c d by (simp add: ramfs_read_def size_def [symmetric] word_le_nat_alt)
    next
      case False
      define m where "m = (if sz < size - off then sz else size - off)"
      have sub: "unat (size - off) = unat size - unat off" using False by (simp add: unat_sub word_le_nat_alt)
      then have m: "unat m = min (unat sz) (unat size - unat off)" by (auto simp: m_def min_def word_less_nat_alt)
      have "sint m = int (unat m)"
        using m size by (intro sint_small) simp
      moreover have "take (unat m) (drop (unat off) d) = take (unat sz) (drop (unat off) (take (unat size) d))"
        by (simp add: m drop_take min.commute)
      moreover have "length (take (unat sz) (drop (unat off) (take (unat size) d))) = unat m" using d by (simp add: m min_def)
      ultimately show ?thesis using False r(1,5) Some c
        by (simp add: ramfs_read_def size_def [symmetric] m_def [symmetric] Let_def)
    qed
  qed
qed

lemma align_ramfs:
  assumes "unat k \<le> 16777216"
  shows "unat k \<le> unat (align_up k RAMFS_BLOCK_SIZE)" "unat (align_up k RAMFS_BLOCK_SIZE) \<le> 16777216"
proof -
  have eq: "unat (align_up k RAMFS_BLOCK_SIZE) = (unat k + 4095) div 4096 * 4096"
    unfolding RAMFS_BLOCK_SIZE_def by (rule unat_align_up_page) (use assms in simp)
  show "unat k \<le> unat (align_up k RAMFS_BLOCK_SIZE)" unfolding eq by linarith
  show "unat (align_up k RAMFS_BLOCK_SIZE) \<le> 16777216" 
    unfolding eq using less_mult_imp_div_less [of "unat k + 4095" 4097 4096] assms by linarith
qed

lemma ramfs_grow_spec:
  assumes "length (bytes_of r) = unat (rn_alloc_size r)" "unat (rn_alloc_size r) \<le> 16777216" "unat needed \<le> 16777216"
    "\<And>k b. heap k = Some b \<Longrightarrow> length b = unat k"
    "needed \<le> rn_alloc_size r \<or> heap (align_up needed RAMFS_BLOCK_SIZE) \<noteq> None"
  obtains d a where "ramfs_grow needed r heap = Some (r\<lparr>rn_data := d, rn_alloc_size := a\<rparr>)"
    "length (case d of Some d \<Rightarrow> d | None \<Rightarrow> []) = unat a" "unat needed \<le> unat a" "unat a \<le> 16777216"
    "take (length (bytes_of r)) (case d of Some d \<Rightarrow> d | None \<Rightarrow> []) = bytes_of r" "0 < unat needed \<Longrightarrow> d \<noteq> None"
proof (cases "needed \<le> rn_alloc_size r")
  case True
  then have "0 < unat needed \<Longrightarrow> rn_data r \<noteq> None" using assms(1) by (cases "rn_data r") (auto simp: word_le_nat_alt)
  with True show ?thesis using that [of "rn_alloc_size r" "rn_data r"] assms(1,2) by (simp add: ramfs_grow_def word_le_nat_alt)
next
  case False
  obtain b where b: "heap (align_up needed RAMFS_BLOCK_SIZE) = Some b" "length b = unat (align_up needed RAMFS_BLOCK_SIZE)"
    using assms(4,5) False by blast
  have le: "length (bytes_of r) \<le> length b" using False assms(1) align_ramfs(1) [OF assms(3)] b(2) by (simp add: word_le_nat_alt)
  show ?thesis
    by (rule that [of "align_up needed RAMFS_BLOCK_SIZE" "Some (put_at b 0 (bytes_of r))"])
      (use False b le align_ramfs [OF assms(3)] in \<open>simp_all add: ramfs_grow_def Let_def put_at_def\<close>)
qed

lemma put_at_take:
  assumes "off + length src \<le> length d" "m \<le> length d"
  shows "\<exists>gap. take (max m (off + length src)) (put_at d off src) =
    take off (take m d) @ gap @ src @ drop (off + length src) (take m d) \<and> length gap = off - m"
proof (cases "off \<le> m")
  case True
  then have "off \<le> length d" "min m off = off" using assms by simp_all
  with True show ?thesis using assms by (intro exI [of _ "[]"]) (auto simp: put_at_def max_def drop_take)
next
  case False
  have "take off d = take m d @ take (off - m) (drop m d)" using False take_add [of m "off - m" d] by simp
  then show ?thesis using assms False
    by (intro exI [of _ "take (off - m) (drop m d)"]) (simp add: put_at_def max_def)
qed


lemma ramfs_write_spec:
  assumes ok: "file_ok w n" and fits: "unat off + unat sz \<le> 16777216" "length buf = unat sz"
    and heap: "heap_sized w" and room: "ramfs_room w n (off + sz)"
  shows "\<exists>w' gap. ramfs_write n off sz buf w = Some (int (length buf), w') \<and> file_ok w' n \<and> only_file w n w' \<and>
    content w' n = take (unat off) (content w n) @ gap @ buf @ drop (unat off + length buf) (content w n) \<and>
    length gap = unat off - length (content w n) \<and> vn_ops (fw_nodes w' ! n) = vn_ops (fw_nodes w ! n)"
proof -
  obtain r where r: "rf_nodes (fw_data w) n = Some r" "unat (vn_size (fw_nodes w ! n)) \<le> length (bytes_of r)"
    "length (bytes_of r) = unat (rn_alloc_size r)" "unat (rn_alloc_size r) \<le> 16777216" "vn_fs_data (fw_nodes w ! n) = n"
    "n < length (fw_nodes w)"
    using file_ok_node [OF ok] by metis
  define size where "size = vn_size (fw_nodes w ! n)"
  have need: "unat (off + sz) = unat off + unat sz" using fits(1) by (simp add: unat_word_ariths)
  have needed: "unat (off + sz) \<le> 16777216" using fits(1) need by simp
  have sized: "rf_heap (fw_data w) k = Some b \<Longrightarrow> length b = unat k" for k b
    using heap by (simp add: heap_sized_def)
  have space: "off + sz \<le> rn_alloc_size r \<or> rf_heap (fw_data w) (align_up (off + sz) RAMFS_BLOCK_SIZE) \<noteq> None"
    using room r(1) by (simp add: ramfs_room_def)
  obtain d a where grow: "ramfs_grow (off + sz) r (rf_heap (fw_data w)) = Some (r\<lparr>rn_data := d, rn_alloc_size := a\<rparr>)"
    "length (case d of Some d \<Rightarrow> d | None \<Rightarrow> []) = unat a" "unat (off + sz) \<le> unat a" "unat a \<le> 16777216"
    "take (length (bytes_of r)) (case d of Some d \<Rightarrow> d | None \<Rightarrow> []) = bytes_of r" "0 < unat (off + sz) \<Longrightarrow> d \<noteq> None"
    by (rule ramfs_grow_spec [where heap = "rf_heap (fw_data w)", OF r(3,4) needed sized space]) (assumption, rule that)
  define r' where "r' = r\<lparr>rn_data := d, rn_alloc_size := a\<rparr>"
  have r': "ramfs_grow (off + sz) r (rf_heap (fw_data w)) = Some r'" "length (bytes_of r') = unat (rn_alloc_size r')"
    "unat (off + sz) \<le> unat (rn_alloc_size r')" "unat (rn_alloc_size r') \<le> 16777216"
    "take (length (bytes_of r)) (bytes_of r') = bytes_of r" "0 < unat (off + sz) \<Longrightarrow> rn_data r' \<noteq> None"
    using grow by (simp_all add: r'_def)
  define r2 where "r2 = r'\<lparr>rn_data := map_option (\<lambda>d. put_at d (unat off) buf) (rn_data r')\<rparr>"
  define w2 where "w2 = upd_node n (\<lambda>v. if off + sz > vn_size v then v\<lparr>vn_size := off + sz\<rparr> else v) (set_rnode n (Some r2) w)"
  have "\<not> off + sz > RAMFS_MAX_SIZE" using needed by (simp add: word_less_nat_alt RAMFS_MAX_SIZE_def)
  moreover have "sint sz = int (length buf)" using fits by (intro trans [OF sint_small]) simp_all
  ultimately have run: "ramfs_write n off sz buf w = Some (int (length buf), w2)"
    using r(1,5) r' fits need by (simp add: ramfs_write_def Let_def w2_def r2_def)
  have n2: "fw_nodes w2 ! n = (if off + sz > size then (fw_nodes w ! n)\<lparr>vn_size := off + sz\<rparr> else fw_nodes w ! n)"
    "length (fw_nodes w2) = length (fw_nodes w)" "rf_nodes (fw_data w2) n = Some r2"
    using r(6) by (simp_all add: w2_def upd_node_def set_rnode_def size_def)
  have "w2 = w\<lparr>fw_nodes := (fw_nodes w)[n := (fw_nodes w ! n)\<lparr>vn_size := vn_size (fw_nodes w2 ! n)\<rparr>],
      fw_data := (fw_data w)\<lparr>rf_nodes := (rf_nodes (fw_data w))(n \<mapsto> (rnode w n)\<lparr>rn_data := rn_data r2, rn_alloc_size := a\<rparr>)\<rparr>\<rparr>"
  proof (rule fs_world.equality)
    have "r2 = (rnode w n)\<lparr>rn_data := rn_data r2, rn_alloc_size := a\<rparr>" using r(1) by (simp add: r2_def r'_def)
    then show "fw_data w2 = fw_data (w\<lparr>fw_nodes := (fw_nodes w)[n := (fw_nodes w ! n)\<lparr>vn_size := vn_size (fw_nodes w2 ! n)\<rparr>],
      fw_data := (fw_data w)\<lparr>rf_nodes := (rf_nodes (fw_data w))(n \<mapsto> (rnode w n)\<lparr>rn_data := rn_data r2, rn_alloc_size := a\<rparr>)\<rparr>\<rparr>)"
      by (simp add: w2_def upd_node_def set_rnode_def)
  qed (unfold n2, simp_all add: w2_def upd_node_def set_rnode_def size_def)
  then have frame: "only_file w n w2" unfolding only_file_def by blast
  have size2: "unat (vn_size (fw_nodes w2 ! n)) = max (unat size) (unat off + length buf)"
    unfolding n2 using need fits(2) by (auto simp: size_def word_less_nat_alt)
  have b2: "bytes_of r2 = (if rn_data r' = None then [] else put_at (bytes_of r') (unat off) buf)"
    by (auto simp: r2_def split: option.splits)
  have le: "unat off + length buf \<le> length (bytes_of r')" using r'(2,3) need fits(2) by simp
  have len2: "length (bytes_of r2) = length (bytes_of r')" unfolding b2 using le by (cases "rn_data r'") simp_all
  have old: "unat size \<le> length (bytes_of r')"
    using r(2) arg_cong [OF r'(5), of length] by (simp add: size_def)
  have take_old: "take (unat size) (bytes_of r') = content w n"
    using arg_cong [OF r'(5), of "take (unat size)"] r(1,2) by (simp add: content_def size_def)
  have "unat (vn_size (fw_nodes w2 ! n)) \<le> length (bytes_of r')" unfolding size2 using old le by simp
  then have ok2: "file_ok w2 n"
    using r(5,6) r'(2,4) n2 len2 by (auto simp: file_ok_def word_le_nat_alt RAMFS_MAX_SIZE_def r2_def)
  have put: "bytes_of r2 = put_at (bytes_of r') (unat off) buf"
    using b2 le by (cases "rn_data r'") (simp_all add: put_at_def)
  obtain gap where "take (max (unat size) (unat off + length buf)) (put_at (bytes_of r') (unat off) buf) =
      take (unat off) (content w n) @ gap @ buf @ drop (unat off + length buf) (content w n)" "length gap = unat off - unat size"
    using put_at_take [OF le old] unfolding take_old by blast
  then have "content w2 n = take (unat off) (content w n) @ gap @ buf @ drop (unat off + length buf) (content w n)"
    "length gap = unat off - length (content w n)"
    using n2(3) put size2 length_content [OF ok] by (simp_all add: content_def size_def)
  moreover have "vn_ops (fw_nodes w2 ! n) = vn_ops (fw_nodes w ! n)" unfolding n2 by simp
  ultimately show ?thesis using run ok2 frame by blast
qed

lemma only_file_others: "only_file w n w' \<Longrightarrow> m \<noteq> n \<Longrightarrow> content w' m = content w m"
  by (auto simp: only_file_def content_def)

lemma ramfs_write_no_room:
  assumes "file_ok w n" "unat off + unat sz \<le> 16777216" "\<not> ramfs_room w n (off + sz)"
  shows "ramfs_write n off sz buf w = Some (- 1, w)"
proof -
  have "vn_fs_data (fw_nodes w ! n) = n" using assms(1) by (simp add: file_ok_def)
  then show ?thesis using assms(3) by (simp add: ramfs_write_def ramfs_grow_def ramfs_room_def Let_def)
qed

text \<open>C4: a write of up to 16 MB through the virtual file-system layer, at any offset of a file. When the file has
  room or the heap has a block for it, the write succeeds and changes exactly the bytes of its range (a gap after the
  old end gets unspecified bytes); nothing else changes, neither another node, the directory tree nor the bytes of
  another file; and every later read, at any offset and of any size, returns the bytes of the new content that are
  there. When the heap has no block, the result is - 1 and the file system is as before. (Blocks of the heap have the
  size that was asked for.)\<close>

theorem ramfs_read_after_write:
  assumes "vn_ops (fw_nodes w ! n) = Some k" "tab k = ramfs_ops k" "file_ok w n"
    "unat off + unat sz \<le> 16777216" "length buf = unat sz" "heap_sized w"
  shows "if ramfs_room w n (off + sz) then
      \<exists>w' gap. vfs_write tab (Some n) off sz buf w = Some (int (length buf), w') \<and> file_ok w' n \<and>
        length gap = unat off - length (content w n) \<and>
        content w' n = take (unat off) (content w n) @ gap @ buf @ drop (unat off + length buf) (content w n) \<and>
        only_file w n w' \<and> (\<forall>m. m \<noteq> n \<longrightarrow> content w' m = content w m) \<and>
        (\<forall>o' s'. vfs_read tab (Some n) o' s' w' =
           (let b = take (unat s') (drop (unat o') (content w' n)) in (int (length b), b)))
    else vfs_write tab (Some n) off sz buf w = Some (- 1, w)"
proof (cases "ramfs_room w n (off + sz)")
  case False
  then show ?thesis using assms(1,2) ramfs_write_no_room [OF assms(3,4)]
    by (simp add: vfs_write_def node_op_def ramfs_ops_def)
next
  case True
  obtain w' gap where w': "ramfs_write n off sz buf w = Some (int (length buf), w')" "file_ok w' n" "only_file w n w'"
    "content w' n = take (unat off) (content w n) @ gap @ buf @ drop (unat off + length buf) (content w n)"
    "length gap = unat off - length (content w n)" "vn_ops (fw_nodes w' ! n) = vn_ops (fw_nodes w ! n)"
    using ramfs_write_spec [OF assms(3-6) True] by blast
  have "vfs_write tab (Some n) off sz buf w = Some (int (length buf), w')"
    using assms(1,2) w'(1) by (simp add: vfs_write_def node_op_def ramfs_ops_def)
  moreover have "vfs_read tab (Some n) o' s' w' = (let b = take (unat s') (drop (unat o') (content w' n)) in (int (length b), b))" for o' s'
    using assms(1,2) w'(6) ramfs_read_spec [OF w'(2)] by (simp add: vfs_read_def node_op_def ramfs_ops_def)
  ultimately show ?thesis unfolding if_P [OF True]
    by (intro exI [of _ w'] exI [of _ gap] conjI allI impI) (use w'(2-5) only_file_others [OF w'(3)] in blast)+
qed


section \<open>An example\<close>

text \<open>A file system mounted at \<open>/\<close> and another at \<open>/tmp\<close>, which has a directory \<open>a\<close>.\<close>

definition ramfs_demo :: "ramfs vfs" where
  "ramfs_demo =
     (let tab = (\<lambda>_. ramfs_ops 0);
          s = vfs_register_fs 0 (vfs_init \<lparr>vf_mounts = [], vf_registry = [],
            vf_world = \<lparr>fw_nodes = [], fw_data = \<lparr>rf_nodes = (\<lambda>_. None), rf_inode_counter = 1, rf_heap = (\<lambda>k. Some (replicate (unat k) 7))\<rparr>\<rparr>\<rparr>);
          s = snd (vfs_mount tab (asc ''/'') None (asc ''ramfs'') 0 s);
          s = snd (vfs_mount tab (asc ''/tmp'') None (asc ''ramfs'') 0 s)
      in s\<lparr>vf_world := snd (ramfs_mkdir 0 1 (asc ''a'') 0 (vf_world s))\<rparr>)"

lemma ramfs_demo_mounts:
  "vf_mounts ramfs_demo =
     \<lparr>mt_path = strncpy (asc ''/'') 255 @ [0], mt_root = 0, mt_ops = 0, mt_used = True\<rparr> #
     \<lparr>mt_path = strncpy (asc ''/tmp'') 255 @ [0], mt_root = 1, mt_ops = 0, mt_used = True\<rparr> #
     replicate 14 \<lparr>mt_path = replicate 256 0, mt_root = 0, mt_ops = 0, mt_used = False\<rparr>"
  by code_simp

abbreviation demo_tmp :: mount_entry where
  "demo_tmp \<equiv> \<lparr>mt_path = strncpy (asc ''/tmp'') 255 @ [0], mt_root = 1, mt_ops = 0, mt_used = True\<rparr>"

lemma ramfs_demo_applies: "applies (asc ''/tmpa'') demo_tmp"
  by code_simp

lemma ramfs_demo_longest:
  assumes "k \<in> set (vf_mounts ramfs_demo)" "applies (asc ''/tmpa'') k" "k \<noteq> demo_tmp"
  shows "length (mount_path k) < length (mount_path demo_tmp)"
proof -
  have "k = \<lparr>mt_path = strncpy (asc ''/'') 255 @ [0], mt_root = 0, mt_ops = 0, mt_used = True\<rparr>"
    using assms by (auto simp: ramfs_demo_mounts applies_def)
  moreover have "length (mount_path \<lparr>mt_path = strncpy (asc ''/'') 255 @ [0], mt_root = 0, mt_ops = 0, mt_used = True\<rparr>) <
      length (mount_path demo_tmp)"
    by code_simp
  ultimately show ?thesis by simp
qed

text \<open>The mount at \<open>/tmp\<close> takes \<open>/tmpa\<close> for its own file \<open>a\<close>.\<close>

theorem vfs_lookup_walks_components_witness:
  "fst (vfs_lookup (\<lambda>_. ramfs_ops 0) (asc ''/tmpa'') ramfs_demo) = Some 2"
proof -
  have "0 \<notin> set (asc ''/tmpa'')" by code_simp
  moreover have "demo_tmp \<in> set (vf_mounts ramfs_demo)" unfolding ramfs_demo_mounts by simp
  moreover have "\<forall>c \<in> set (tokens 47 [] (drop (length (mount_path demo_tmp)) (asc ''/tmpa''))). length c < 256" by code_simp
  moreover have "fst (walk_components (\<lambda>_. ramfs_ops 0) (Some (mt_root demo_tmp))
      (tokens 47 [] (drop (length (mount_path demo_tmp)) (asc ''/tmpa''))) (vf_world ramfs_demo)) = Some 2"
    by code_simp
  ultimately show ?thesis
    using vfs_lookup_walks_components [OF _ _ ramfs_demo_applies ramfs_demo_longest, of ramfs_demo "\<lambda>_. ramfs_ops 0"]
    by (simp add: case_prod_unfold Let_def)
qed

lemma ramfs_demo_file: "file_ok (vf_world ramfs_demo) 2" "vn_ops (fw_nodes (vf_world ramfs_demo) ! 2) = Some 0"
    "content (vf_world ramfs_demo) 2 = []"
proof -
  have "fw_nodes (vf_world ramfs_demo) = [node_zero\<lparr>vn_name := strncpy (asc ''/'') 255 @ [0], vn_inode := 1, vn_flags := 2, vn_ops := Some 0\<rparr>,
      node_zero\<lparr>vn_name := strncpy (asc ''/'') 255 @ [0], vn_inode := 2, vn_flags := 2, vn_ops := Some 0, vn_fs_data := 1\<rparr>,
      node_zero\<lparr>vn_name := strncpy (asc ''a'') 255 @ [0], vn_inode := 3, vn_flags := 2, vn_ops := Some 0, vn_fs_data := 2\<rparr>]"
    "rf_nodes (fw_data (vf_world ramfs_demo)) 2 = Some \<lparr>rn_data = None, rn_alloc_size = 0, rn_children = [], rn_parent = Some 1\<rparr>"
    by code_simp+
  then show "file_ok (vf_world ramfs_demo) 2" "vn_ops (fw_nodes (vf_world ramfs_demo) ! 2) = Some 0"
    "content (vf_world ramfs_demo) 2 = []"
    by (simp_all add: file_ok_def content_def node_zero_def)
qed

lemma ramfs_keeps_heap [simp]:
  "rf_heap (fw_data (snd (ramfs_new_node self name flags w))) = rf_heap (fw_data w)"
  "rf_heap (fw_data (set_rnode n r w)) = rf_heap (fw_data w)"
  by (simp_all add: ramfs_new_node_def set_rnode_def Let_def)

lemma ramfs_mkdir_heap [simp]: "rf_heap (fw_data (snd (ramfs_mkdir self n name flags w))) = rf_heap (fw_data w)"
  using ramfs_keeps_heap(1) [of self name VFS_DIR w]
  by (cases "ramfs_new_node self name VFS_DIR w") (auto simp: ramfs_mkdir_def Let_def split: option.split)

lemma ramfs_mount_heap [simp]:
  "rf_heap (fw_data (vf_world (snd (vfs_mount (\<lambda>_. ramfs_ops self) path dev name flags s)))) = rf_heap (fw_data (vf_world s))"
  using ramfs_keeps_heap(1) [of self "asc ''/''" VFS_DIR "vf_world s"]
  by (cases "ramfs_new_node self (asc ''/'') VFS_DIR (vf_world s)")
    (auto simp: vfs_mount_def ramfs_ops_def ramfs_mount_def split: option.split)

lemma ramfs_demo_heap: "rf_heap (fw_data (vf_world ramfs_demo)) k = Some (replicate (unat k) 7)"
  by (simp add: ramfs_demo_def Let_def vfs_init_def vfs_register_fs_def)

lemma ramfs_demo_room: "heap_sized (vf_world ramfs_demo)" "ramfs_room (vf_world ramfs_demo) 2 k"
  by (simp_all add: heap_sized_def ramfs_room_def ramfs_demo_heap)

theorem ramfs_read_after_write_witness:
  "\<exists>w'. vfs_write (\<lambda>_. ramfs_ops 0) (Some 2) 0 3 (asc ''abc'') (vf_world ramfs_demo) = Some (3, w') \<and>
     vfs_read (\<lambda>_. ramfs_ops 0) (Some 2) 1 9 w' = (2, asc ''bc'')"
proof -
  have len: "length (asc ''abc'') = unat (3 :: u32)" by code_simp
  have bc: "take 9 (drop 1 (asc ''abc'')) = asc ''bc''" "length (asc ''abc'') = 3" "length (asc ''bc'') = 2" by code_simp+
  show ?thesis
    using ramfs_read_after_write [of "vf_world ramfs_demo" 2 0 "\<lambda>_. ramfs_ops 0" 0 3 "asc ''abc''"] len bc
    by (auto simp: ramfs_demo_file ramfs_demo_room Let_def)
qed

end
