(* ===== verification/Initrd.thy ===== *)
theory Initrd
  imports Vfs KMem
begin

text \<open>
  The initial RAM disk (\<open>fs/initrd.c\<close>): a PIRD archive in memory, parsed once into a table of names,
  addresses and sizes, and the read-only file system over that table. Memory is the function of \<open>KMem\<close>;
  whether \<open>kzalloc\<close> finds room for another node is the argument \<open>ir_can\<close> of the state, given the number of nodes.
\<close>

section \<open>State\<close>

definition INITRD_MAGIC :: u32 where "INITRD_MAGIC = 0x50495244"
definition INITRD_NAME_LEN :: nat where "INITRD_NAME_LEN = 64"
definition INITRD_MAX_FILES :: u32 where "INITRD_MAX_FILES = 64"

record initrd_datei =
  idt_name :: "u8 list"
  idt_daten :: u32
  idt_groesse :: u32

record initrd =
  ir_dateien :: "initrd_datei list"
  ir_count :: u32
  ir_ok :: bool
  ir_mem :: mem
  ir_can :: "nat \<Rightarrow> bool"

text \<open>\<open>n\<close> bytes from an address on.\<close>

definition mem_bytes :: "mem \<Rightarrow> u32 \<Rightarrow> nat \<Rightarrow> u8 list" where
  "mem_bytes m p n = map (\<lambda>k. m (p + of_nat k)) [0..<n]"

section \<open>Parsing the archive\<close>

text \<open>The loop over the files: \<open>r\<close> rounds are left, \<open>p\<close> is the read pointer; its additions wrap.\<close>

fun initrd_parse :: "nat \<Rightarrow> nat \<Rightarrow> u32 \<Rightarrow> u32 \<Rightarrow> initrd \<Rightarrow> initrd" where
  "initrd_parse 0 i p ende s = s"
| "initrd_parse (Suc r) i p ende s =
     (if p + 64 + 4 \<le> ende then
        let d = ir_dateien s ! i;
            d = d\<lparr>idt_name := put_at (idt_name d) 0 (strncpy (mem_bytes (ir_mem s) p (INITRD_NAME_LEN - 1)) (INITRD_NAME_LEN - 1))\<rparr>;
            g = load32 (ir_mem s) (p + 64);
            d = d\<lparr>idt_groesse := g\<rparr>;
            q = p + 64 + 4
        in if q + g > ende then s\<lparr>ir_dateien := (ir_dateien s)[i := d]\<rparr>
           else initrd_parse r (Suc i) (q + g) ende
                  (s\<lparr>ir_dateien := (ir_dateien s)[i := d\<lparr>idt_daten := q\<rparr>], ir_count := ir_count s + 1\<rparr>)
      else s)"

definition initrd_init :: "u32 \<Rightarrow> initrd \<Rightarrow> initrd" where
  "initrd_init mods_addr s =
     (if mods_addr = 0 then s
      else
        let mod_start = load32 (ir_mem s) mods_addr; mod_end = load32 (ir_mem s) (mods_addr + 4) in
        if mod_end \<le> mod_start + 8 then s
        else
          let magic = load32 (ir_mem s) mod_start; anzahl = load32 (ir_mem s) (mod_start + 4) in
          if magic \<noteq> INITRD_MAGIC then s
          else
            let anzahl = (if anzahl > INITRD_MAX_FILES then INITRD_MAX_FILES else anzahl)
            in (initrd_parse (unat anzahl) 0 (mod_start + 8) mod_end s)\<lparr>ir_ok := True\<rparr>)"

definition initrd_get_file :: "cstr \<Rightarrow> initrd \<Rightarrow> (u32 \<times> u32) option" where
  "initrd_get_file name s =
     (case find_idx (\<lambda>d. strcmp (idt_name d) name = 0) (take (unat (ir_count s)) (ir_dateien s)) of
        Some i \<Rightarrow> Some (idt_daten (ir_dateien s ! i), idt_groesse (ir_dateien s ! i))
      | None \<Rightarrow> None)"

section \<open>The file system\<close>

type_synonym initrd_world = "initrd fs_world"

definition initrd_read :: "nat \<Rightarrow> u32 \<Rightarrow> u32 \<Rightarrow> initrd_world \<Rightarrow> int \<times> u8 list" where
  "initrd_read n offset sz w =
     (let idx = vn_inode (fw_nodes w ! n); s = fw_data w in
      if idx \<ge> ir_count s then (- 1, [])
      else
        let d = ir_dateien s ! unat idx in
        if offset \<ge> idt_groesse d then (0, [])
        else
          let rest = idt_groesse d - offset; kopieren = (if rest < sz then rest else sz)
          in (sint kopieren, mem_bytes (ir_mem s) (idt_daten d + offset) (unat kopieren)))"

definition initrd_readdir :: "nat \<Rightarrow> u32 \<Rightarrow> vfs_dirent \<Rightarrow> initrd_world \<Rightarrow> vfs_dirent option" where
  "initrd_readdir n index out w =
     (if index \<ge> ir_count (fw_data w) then None
      else Some (out\<lparr>de_name := put_at (de_name out) 0 (strncpy (idt_name (ir_dateien (fw_data w) ! unat index)) 255),
                   de_inode := index, de_type := ucast VFS_FILE\<rparr>))"

text \<open>A zeroed node, or none when the heap is exhausted.\<close>

definition initrd_node :: "vfs_node \<Rightarrow> initrd_world \<Rightarrow> nat option \<times> initrd_world" where
  "initrd_node v w =
     (if ir_can (fw_data w) (length (fw_nodes w)) then (Some (length (fw_nodes w)), w\<lparr>fw_nodes := fw_nodes w @ [v]\<rparr>)
      else (None, w))"

definition initrd_finddir :: "nat \<Rightarrow> nat \<Rightarrow> cstr \<Rightarrow> initrd_world \<Rightarrow> nat option \<times> initrd_world" where
  "initrd_finddir self parent name w =
     (let s = fw_data w in
      case find_idx (\<lambda>d. strcmp (idt_name d) name = 0) (take (unat (ir_count s)) (ir_dateien s)) of
        None \<Rightarrow> (None, w)
      | Some i \<Rightarrow>
          let d = ir_dateien s ! i in
          initrd_node (node_zero\<lparr>vn_name := put_at (vn_name node_zero) 0 (strncpy (idt_name d) 255), vn_size := idt_groesse d,
            vn_inode := of_nat i, vn_flags := VFS_FILE, vn_ops := Some self\<rparr>) w)"

definition initrd_mount :: "nat \<Rightarrow> cstr option \<Rightarrow> u32 \<Rightarrow> initrd_world \<Rightarrow> nat option \<times> initrd_world" where
  "initrd_mount self device flags w =
     (if \<not> ir_ok (fw_data w) then (None, w)
      else initrd_node (node_zero\<lparr>vn_name := put_at (vn_name node_zero) 0 (asc ''/'' @ [0]), vn_flags := VFS_DIR, vn_ops := Some self\<rparr>) w)"

definition initrd_ops :: "nat \<Rightarrow> initrd fs_ops" where
  "initrd_ops self = \<lparr>op_name = asc ''initrd'', op_read = Some initrd_read, op_write = None, op_close = None,
     op_readdir = Some initrd_readdir, op_finddir = Some (initrd_finddir self), op_mkdir = None, op_unlink = None,
     op_mount = Some (initrd_mount self)\<rparr>"

section \<open>The archive format\<close>

text \<open>The bytes of an archive that holds the given files, and what makes it a valid one.\<close>

definition pird_entry :: "cstr \<times> u8 list \<Rightarrow> u8 list" where
  "pird_entry f = fst f @ replicate (INITRD_NAME_LEN - length (fst f)) 0 @ bytes32 (of_nat (length (snd f))) @ snd f"

definition pird :: "(cstr \<times> u8 list) list \<Rightarrow> u8 list" where
  "pird fs = bytes32 INITRD_MAGIC @ bytes32 (of_nat (length fs)) @ concat (map pird_entry fs)"

definition pird_name :: "cstr \<Rightarrow> bool" where
  "pird_name n \<longleftrightarrow> 0 \<notin> set n \<and> length n < INITRD_NAME_LEN"

definition initrd_fresh :: "initrd \<Rightarrow> bool" where
  "initrd_fresh s \<longleftrightarrow> length (ir_dateien s) = 64 \<and> (\<forall>d \<in> set (ir_dateien s). length (idt_name d) = 64 \<and> idt_name d ! 63 = 0) \<and> ir_count s = 0"

text \<open>A table entry as a file: its name and the bytes it points to.\<close>

definition datei_view :: "mem \<Rightarrow> initrd_datei \<Rightarrow> cstr \<times> u8 list" where
  "datei_view m d = (cstring (idt_name d), mem_bytes m (idt_daten d) (unat (idt_groesse d)))"

lemma length_mem_bytes [simp]: "length (mem_bytes m p n) = n"
  by (simp add: mem_bytes_def)

lemma mem_bytes_add: "mem_bytes m p (a + b) = mem_bytes m p a @ mem_bytes m (p + of_nat a) b"
  by (rule nth_equalityI) (auto simp: mem_bytes_def nth_append algebra_simps of_nat_diff simp flip: of_nat_add)

lemma mem_bytes_take: "a \<le> n \<Longrightarrow> mem_bytes m p a = take a (mem_bytes m p n)"
  using mem_bytes_add [of m p a "n - a"] by simp

lemma mem_bytes_append:
  "mem_bytes m p (length (a @ b)) = a @ b \<longleftrightarrow> mem_bytes m p (length a) = a \<and> mem_bytes m (p + of_nat (length a)) (length b) = b"
  by (simp add: mem_bytes_add)

declare initrd_parse.simps [simp del]

lemma load32_mem_bytes: "mem_bytes m p 4 = bytes32 v \<Longrightarrow> load32 m p = v"
proof -
  assume "mem_bytes m p 4 = bytes32 v"
  moreover have "[0..<4] = [0, 1, 2, 3 :: nat]" by (simp add: upt_rec)
  ultimately have "m p = ucast v" "m (p + 1) = ucast (drop_bit 8 v)" "m (p + 2) = ucast (drop_bit 16 v)" "m (p + 3) = ucast (drop_bit 24 v)"
    by (simp_all add: mem_bytes_def bytes32_def)
  then show ?thesis unfolding load32_def using bytes_of_u32 [of v] by simp
qed

lemma name_array:
  assumes "pird_name n" "length a = 64" "a ! 63 = 0"
  shows "cstring (put_at a 0 (strncpy (n @ replicate (63 - length n) 0) 63)) = n"
    "length (put_at a 0 (strncpy (n @ replicate (63 - length n) 0) 63)) = 64"
    "put_at a 0 (strncpy (n @ replicate (63 - length n) 0) 63) ! 63 = 0"
proof -
  have n: "0 \<notin> set n" "length n \<le> 63" using assms(1) by (simp_all add: pird_name_def INITRD_NAME_LEN_def)
  have c: "cstring (n @ replicate (63 - length n) 0) = n"
    using n by (cases "63 - length n") simp_all
  have "drop 63 a = [0]" using assms(2,3) Cons_nth_drop_Suc [of 63 a] by simp
  then have p: "put_at a 0 (strncpy (n @ replicate (63 - length n) 0) 63) = strncpy (n @ replicate (63 - length n) 0) 63 @ [0]"
    by (simp add: put_at_def)
  show "cstring (put_at a 0 (strncpy (n @ replicate (63 - length n) 0) 63)) = n"
    unfolding p cstring_strncpy c using n by simp
  show "length (put_at a 0 (strncpy (n @ replicate (63 - length n) 0) 63)) = 64" unfolding p by simp
  show "put_at a 0 (strncpy (n @ replicate (63 - length n) 0) 63) ! 63 = 0" unfolding p by (simp add: nth_append)
qed

definition table_ok :: "initrd \<Rightarrow> bool" where
  "table_ok s \<longleftrightarrow> length (ir_dateien s) = 64 \<and> (\<forall>d \<in> set (ir_dateien s). length (idt_name d) = 64 \<and> idt_name d ! 63 = 0)"

text \<open>One round of the loop: a whole entry is in memory, and enters the table.\<close>

lemma initrd_parse_step:
  assumes ok: "table_ok s" and i: "i < 64" and n: "pird_name (fst f)"
    and mem: "mem_bytes (ir_mem s) p (length (pird_entry f)) = pird_entry f"
    and fits: "unat p + length (pird_entry f) \<le> unat ende"
  obtains d where "initrd_parse (Suc r) i p ende s =
      initrd_parse r (Suc i) (p + of_nat (length (pird_entry f))) ende (s\<lparr>ir_dateien := (ir_dateien s)[i := d], ir_count := ir_count s + 1\<rparr>)"
    "datei_view (ir_mem s) d = f" "length (idt_name d) = 64" "idt_name d ! 63 = 0"
proof -
  obtain nm dt where f: "f = (nm, dt)" by (cases f)
  have nl: "length nm \<le> 63" "0 \<notin> set nm" using n by (simp_all add: f pird_name_def INITRD_NAME_LEN_def)
  have len: "length (pird_entry f) = 68 + length dt" using nl by (simp add: f pird_entry_def INITRD_NAME_LEN_def)
  have dtl: "unat (of_nat (length dt) :: u32) = length dt" using fits len by (intro unat_of_nat_fits [of _ ende]) simp
  have eq: "mem_bytes (ir_mem s) p (length (nm @ replicate (64 - length nm) 0 @ bytes32 (of_nat (length dt)) @ dt)) =
      nm @ replicate (64 - length nm) 0 @ bytes32 (of_nat (length dt)) @ dt"
    using mem by (simp add: f pird_entry_def INITRD_NAME_LEN_def)
  define h where "h = nm @ replicate (64 - length nm) 0"
  have h: "length h = 64" using nl by (simp add: h_def)
  have "mem_bytes (ir_mem s) p (length (h @ bytes32 (of_nat (length dt)) @ dt)) = h @ bytes32 (of_nat (length dt)) @ dt"
    using eq by (simp add: h_def)
  then have parts: "mem_bytes (ir_mem s) p 64 = nm @ replicate (64 - length nm) 0"
    "mem_bytes (ir_mem s) (p + 64) 4 = bytes32 (of_nat (length dt))"
    "mem_bytes (ir_mem s) (p + 64 + 4) (length dt) = dt"
    unfolding mem_bytes_append by (simp_all add: h add.assoc h_def [symmetric])
  have nm63: "mem_bytes (ir_mem s) p 63 = nm @ replicate (63 - length nm) 0"
  proof -
    have "mem_bytes (ir_mem s) p 63 = take 63 (nm @ replicate (64 - length nm) 0)"
      using mem_bytes_take [of 63 64 "ir_mem s" p] parts(1) by simp
    then show ?thesis using nl by simp
  qed
  let ?d0 = "ir_dateien s ! i"
  let ?a = "put_at (idt_name ?d0) 0 (strncpy (nm @ replicate (63 - length nm) 0) 63)"
  have d0: "length (idt_name ?d0) = 64" "idt_name ?d0 ! 63 = 0"
    using ok i by (simp_all add: table_ok_def)
  note na = name_array [OF n [unfolded f fst_conv] d0]
  have g: "load32 (ir_mem s) (p + 64) = of_nat (length dt)" using load32_mem_bytes [OF parts(2)] .
  have p68: "unat (p + 64 + 4) = unat p + 68" using unat_plus_fits [of p 68 ende] fits len by (simp add: add.assoc)
  have pg: "unat (p + 64 + 4 + of_nat (length dt)) = unat p + 68 + length dt"
    using unat_plus_fits [of "p + 64 + 4" "length dt" ende] fits len p68 by simp
  have c1: "p + 64 + 4 \<le> ende" "\<not> p + 64 + 4 + of_nat (length dt) > ende"
    using fits len p68 pg unfolding word_le_nat_alt word_less_nat_alt by linarith+
  let ?d = "?d0\<lparr>idt_name := ?a, idt_groesse := of_nat (length dt), idt_daten := p + 64 + 4\<rparr>"
  show ?thesis
  proof (rule that [of ?d])
    show "initrd_parse (Suc r) i p ende s =
      initrd_parse r (Suc i) (p + of_nat (length (pird_entry f))) ende (s\<lparr>ir_dateien := (ir_dateien s)[i := ?d], ir_count := ir_count s + 1\<rparr>)"
      using c1 by (simp add: initrd_parse.simps Let_def g nm63 INITRD_NAME_LEN_def len add.assoc)
    show "datei_view (ir_mem s) ?d = f" using na(1) parts(3) dtl by (simp add: datei_view_def f)
    show "length (idt_name ?d) = 64" "idt_name ?d ! 63 = 0" using na by simp_all
  qed
qed

lemma initrd_parse_files:
  assumes "table_ok s" "i + length fs \<le> 64" "\<forall>f \<in> set fs. pird_name (fst f)"
    "mem_bytes (ir_mem s) p (length (concat (map pird_entry fs))) = concat (map pird_entry fs)"
    "unat p + length (concat (map pird_entry fs)) \<le> unat ende"
  shows "let s' = initrd_parse (length fs) i p ende s in
    ir_mem s' = ir_mem s \<and> ir_count s' = ir_count s + of_nat (length fs) \<and> ir_can s' = ir_can s \<and>
    table_ok s' \<and> take i (ir_dateien s') = take i (ir_dateien s) \<and>
    map (datei_view (ir_mem s)) (take (length fs) (drop i (ir_dateien s'))) = fs"
  using assms
proof (induction fs arbitrary: i p s)
  case Nil
  then show ?case by (simp add: initrd_parse.simps)
next
  case (Cons f fs)
  let ?e = "pird_entry f"
  have m: "mem_bytes (ir_mem s) p (length ?e) = ?e"
    "mem_bytes (ir_mem s) (p + of_nat (length ?e)) (length (concat (map pird_entry fs))) = concat (map pird_entry fs)"
    using Cons.prems(4) mem_bytes_append [of "ir_mem s" p ?e "concat (map pird_entry fs)"] by simp_all
  have fit: "unat p + length ?e \<le> unat ende" using Cons.prems(5) by simp
  then have up: "unat (p + of_nat (length ?e)) = unat p + length ?e" by (rule unat_plus_fits)
  have i: "i < 64" using Cons.prems(2) by simp
  obtain d where d: "initrd_parse (Suc (length fs)) i p ende s =
      initrd_parse (length fs) (Suc i) (p + of_nat (length ?e)) ende (s\<lparr>ir_dateien := (ir_dateien s)[i := d], ir_count := ir_count s + 1\<rparr>)"
    "datei_view (ir_mem s) d = f" "length (idt_name d) = 64" "idt_name d ! 63 = 0"
    using initrd_parse_step [OF Cons.prems(1) i _ m(1) fit, of "length fs"] Cons.prems(3) by auto
  let ?s = "s\<lparr>ir_dateien := (ir_dateien s)[i := d], ir_count := ir_count s + 1\<rparr>"
  have L: "length (ir_dateien s) = 64" using Cons.prems(1) by (simp add: table_ok_def)
  have ok: "table_ok ?s" using Cons.prems(1) d(3,4) L i
    by (auto simp: table_ok_def set_list_update_iff)
  define s' where "s' = initrd_parse (length fs) (Suc i) (p + of_nat (length ?e)) ende ?s"
  have IH: "ir_mem s' = ir_mem s \<and> ir_count s' = ir_count s + 1 + of_nat (length fs) \<and> ir_can s' = ir_can s \<and>
    table_ok s' \<and> take (Suc i) (ir_dateien s') = take (Suc i) ((ir_dateien s)[i := d]) \<and>
    map (datei_view (ir_mem s)) (take (length fs) (drop (Suc i) (ir_dateien s'))) = fs"
    using Cons.IH [OF ok, of "Suc i" "p + of_nat (length ?e)"] Cons.prems(2,3,5) m(2) up
    by (simp add: Let_def s'_def)
  have L': "length (ir_dateien s') = 64" using IH by (simp add: table_ok_def)
  have nth: "ir_dateien s' ! i = d"
    using arg_cong [where f = "\<lambda>l. l ! i", OF IH [THEN conjunct2, THEN conjunct2, THEN conjunct2, THEN conjunct2, THEN conjunct1]] L L' i by simp
  have tk: "take i (ir_dateien s') = take i (ir_dateien s)"
    using arg_cong [where f = "take i", OF IH [THEN conjunct2, THEN conjunct2, THEN conjunct2, THEN conjunct2, THEN conjunct1]] by simp
  have "drop i (ir_dateien s') = d # drop (Suc i) (ir_dateien s')"
    using Cons_nth_drop_Suc [of i "ir_dateien s'"] L' i nth by simp
  then show ?case using IH tk d(2) by (simp add: Let_def d(1) s'_def [symmetric])
qed

section \<open>Files\<close>

text \<open>The table holds exactly the given files.\<close>

definition holds_files :: "(cstr \<times> u8 list) list \<Rightarrow> initrd \<Rightarrow> bool" where
  "holds_files fs s \<longleftrightarrow> length fs \<le> 64 \<and> ir_count s = of_nat (length fs) \<and> length (ir_dateien s) = 64 \<and>
     map (datei_view (ir_mem s)) (take (length fs) (ir_dateien s)) = fs"

lemma initrd_init_holds:
  assumes "table_ok s" "ir_count s = 0" "fs \<noteq> []" "length fs \<le> 64" "\<forall>f \<in> set fs. pird_name (fst f)"
    and a: "mods_addr \<noteq> 0" "load32 (ir_mem s) mods_addr = start" "load32 (ir_mem s) (mods_addr + 4) = ende"
    and mem: "mem_bytes (ir_mem s) start (length (pird fs)) = pird fs" "unat ende = unat start + length (pird fs)"
  shows "holds_files fs (initrd_init mods_addr s)" "ir_ok (initrd_init mods_addr s)"
    "ir_mem (initrd_init mods_addr s) = ir_mem s" "ir_can (initrd_init mods_addr s) = ir_can s"
proof -
  let ?c = "concat (map pird_entry fs)"
  have l: "length (pird fs) = 8 + length ?c" by (simp add: pird_def)
  have "mem_bytes (ir_mem s) start (length (bytes32 INITRD_MAGIC @ bytes32 (of_nat (length fs)) @ ?c)) =
      bytes32 INITRD_MAGIC @ bytes32 (of_nat (length fs)) @ ?c" using mem(1) by (simp only: pird_def)
  then have parts: "mem_bytes (ir_mem s) start 4 = bytes32 INITRD_MAGIC" "mem_bytes (ir_mem s) (start + 4) 4 = bytes32 (of_nat (length fs))"
    "mem_bytes (ir_mem s) (start + 8) (length ?c) = ?c"
    unfolding mem_bytes_append by (simp_all add: add.assoc)
  have s8: "unat (start + 8) = unat start + 8" using unat_plus_fits [of start 8 ende] mem(2) l by simp
  have "?c \<noteq> []" using assms(3) by (cases fs) (auto simp: pird_entry_def bytes32_def)
  then have big: "\<not> ende \<le> start + 8" using mem(2) l s8 by (simp add: word_le_nat_alt)
  have n: "unat (of_nat (length fs) :: u32) = length fs" using assms(4) by (simp add: unat_of_nat)
  then have cap: "\<not> (of_nat (length fs) :: u32) > INITRD_MAX_FILES" using assms(4) by (simp add: word_less_nat_alt INITRD_MAX_FILES_def)
  let ?s = "initrd_parse (length fs) 0 (start + 8) ende s"
  have init: "initrd_init mods_addr s = ?s\<lparr>ir_ok := True\<rparr>"
    using a big cap n load32_mem_bytes [OF parts(1)] load32_mem_bytes [OF parts(2)] by (simp add: initrd_init_def Let_def)
  have p: "ir_mem ?s = ir_mem s \<and> ir_count ?s = ir_count s + of_nat (length fs) \<and> ir_can ?s = ir_can s \<and> table_ok ?s \<and>
    take 0 (ir_dateien ?s) = take 0 (ir_dateien s) \<and> map (datei_view (ir_mem s)) (take (length fs) (drop 0 (ir_dateien ?s))) = fs"
    using initrd_parse_files [of s 0 fs "start + 8" ende] assms(1,4,5) parts(3) s8 mem(2) l by (simp add: Let_def)
  show "holds_files fs (initrd_init mods_addr s)" "ir_ok (initrd_init mods_addr s)"
    "ir_mem (initrd_init mods_addr s) = ir_mem s" "ir_can (initrd_init mods_addr s) = ir_can s"
    using p assms(2,4) by (simp_all add: init holds_files_def table_ok_def)
qed

lemma strcmp_name: "0 \<notin> set n \<Longrightarrow> strcmp a n = 0 \<longleftrightarrow> cstring a = n"
proof (induction a arbitrary: n)
  case Nil
  then show ?case by (cases n) (auto simp: cstring_def uint_0_iff)
next
  case (Cons x a)
  then show ?case by (cases n) (auto simp: cstring_def uint_0_iff simp flip: word_uint_eq_iff)
qed

lemma find_idx_map_of:
  "map_of fs n = map_option (\<lambda>i. snd (fs ! i)) (find_idx (\<lambda>f. fst f = n) fs)"
  by (induction fs) (auto simp: option.map_comp o_def)

lemma holds_files_find:
  assumes "holds_files fs s" "0 \<notin> set n"
  shows "find_idx (\<lambda>d. strcmp (idt_name d) n = 0) (take (unat (ir_count s)) (ir_dateien s)) = find_idx (\<lambda>f. fst f = n) fs"
    "unat (ir_count s) = length fs"
    "i < length fs \<Longrightarrow> mem_bytes (ir_mem s) (idt_daten (ir_dateien s ! i)) (unat (idt_groesse (ir_dateien s ! i))) = snd (fs ! i)"
proof -
  have le: "length fs \<le> 64" "length (ir_dateien s) = 64" using assms(1) by (simp_all add: holds_files_def)
  show c: "unat (ir_count s) = length fs" using assms(1) le by (simp add: holds_files_def unat_of_nat)
  have v: "datei_view (ir_mem s) (ir_dateien s ! i) = fs ! i" if "i < length fs" for i
  proof -
    have "map (datei_view (ir_mem s)) (take (length fs) (ir_dateien s)) ! i = datei_view (ir_mem s) (ir_dateien s ! i)"
      using that le by simp
    then show ?thesis using assms(1) by (simp add: holds_files_def)
  qed
  show "find_idx (\<lambda>d. strcmp (idt_name d) n = 0) (take (unat (ir_count s)) (ir_dateien s)) = find_idx (\<lambda>f. fst f = n) fs"
  proof (rule find_idx_cong)
    show "length (take (unat (ir_count s)) (ir_dateien s)) = length fs" using c le by simp
    fix i assume "i < length (take (unat (ir_count s)) (ir_dateien s))"
    then have i: "i < length fs" using c by simp
    show "(strcmp (idt_name (take (unat (ir_count s)) (ir_dateien s) ! i)) n = 0) = (fst (fs ! i) = n)"
      using v [OF i, symmetric] i c strcmp_name [OF assms(2)] by (simp add: datei_view_def)
  qed
  show "mem_bytes (ir_mem s) (idt_daten (ir_dateien s ! i)) (unat (idt_groesse (ir_dateien s ! i))) = snd (fs ! i)" if "i < length fs"
    using v [OF that, symmetric] by (simp add: datei_view_def)
qed

lemma initrd_get_file_spec:
  assumes "holds_files fs s" "0 \<notin> set n"
  shows "map_option (\<lambda>(p, g). mem_bytes (ir_mem s) p (unat g)) (initrd_get_file n s) = map_of fs n"
  unfolding initrd_get_file_def holds_files_find(1) [OF assms] find_idx_map_of
  using holds_files_find(3) [OF assms] find_idx_SomeD(1) [of "\<lambda>f. fst f = n" fs]
  by (auto split: option.split)

lemma initrd_read_spec:
  assumes h: "holds_files fs (fw_data w)" and i: "vn_inode (fw_nodes w ! n) = of_nat i" "i < length fs"
    and small: "length (snd (fs ! i)) < 2 ^ 31"
  shows "initrd_read n off sz w = (let b = take (unat sz) (drop (unat off) (snd (fs ! i))) in (int (length b), b))"
proof -
  let ?d = "ir_dateien (fw_data w) ! i" and ?m = "ir_mem (fw_data w)"
  have le: "length fs \<le> 64" using h by (simp add: holds_files_def)
  have ui: "unat (of_nat i :: u32) = i" using i le by (simp add: unat_of_nat)
  have b: "mem_bytes ?m (idt_daten ?d) (unat (idt_groesse ?d)) = snd (fs ! i)"
    using holds_files_find(3) [OF h, of "[]" i] i by simp
  then have len: "length (snd (fs ! i)) = unat (idt_groesse ?d)" by (metis length_mem_bytes)
  have c: "\<not> of_nat i \<ge> ir_count (fw_data w)"
    using holds_files_find(2) [OF h, of "[]"] i ui by (simp add: word_le_nat_alt)
  show ?thesis
  proof (cases "off \<ge> idt_groesse ?d")
    case True
    then show ?thesis using i c ui len by (simp add: initrd_read_def word_le_nat_alt)
  next
    case False
    define k where "k = (if idt_groesse ?d - off < sz then idt_groesse ?d - off else sz)"
    have sub: "unat (idt_groesse ?d - off) = unat (idt_groesse ?d) - unat off" using False by (simp add: unat_sub word_le_nat_alt)
    have k: "unat k = min (unat sz) (unat (idt_groesse ?d) - unat off)" using sub by (auto simp: k_def word_less_nat_alt)
    have "sint k = int (unat k)" using k small len by (intro sint_small) simp
    moreover have "mem_bytes ?m (idt_daten ?d + off) (unat k) = take (unat sz) (drop (unat off) (snd (fs ! i)))"
    proof -
      have "unat (idt_groesse ?d) = unat off + (unat (idt_groesse ?d) - unat off)" using False by (simp add: word_le_nat_alt)
      then have "drop (unat off) (snd (fs ! i)) = mem_bytes ?m (idt_daten ?d + of_nat (unat off)) (unat (idt_groesse ?d) - unat off)"
        using b mem_bytes_add [of ?m "idt_daten ?d" "unat off" "unat (idt_groesse ?d) - unat off"] by simp
      then show ?thesis
        using mem_bytes_take [of "unat k" "unat (idt_groesse ?d) - unat off" ?m "idt_daten ?d + off"] k
        by (cases "unat sz \<le> unat (idt_groesse ?d) - unat off") (simp_all add: min_def)
    qed
    ultimately show ?thesis using False i c ui len k
      by (simp add: initrd_read_def k_def [symmetric] Let_def)
  qed
qed

section \<open>From the archive to the file system\<close>

lemma initrd_serves:
  assumes h: "holds_files fs (fw_data w)" "ir_ok (fw_data w)" "\<And>k. ir_can (fw_data w) k" "0 \<notin> set n"
    and tab: "tab k = initrd_ops k"
  shows "\<exists>root w1. initrd_mount k dev fl w = (Some root, w1) \<and>
    (case map_of fs n of
       None \<Rightarrow> vfs_finddir tab (Some root) n w1 = (None, w1)
     | Some d \<Rightarrow> \<exists>f w2. vfs_finddir tab (Some root) n w1 = (Some f, w2) \<and>
         (length d < 2 ^ 31 \<longrightarrow> (\<forall>off sz. vfs_read tab (Some f) off sz w2 =
            (let b = take (unat sz) (drop (unat off) d) in (int (length b), b)))))"
proof -
  let ?rn = "node_zero\<lparr>vn_name := put_at (vn_name node_zero) 0 (asc ''/'' @ [0]), vn_flags := VFS_DIR, vn_ops := Some k\<rparr>"
  let ?w1 = "w\<lparr>fw_nodes := fw_nodes w @ [?rn]\<rparr>"
  have m: "initrd_mount k dev fl w = (Some (length (fw_nodes w)), ?w1)"
    using h(2,3) by (simp add: initrd_mount_def initrd_node_def)
  have fd: "vfs_finddir tab (Some (length (fw_nodes w))) n ?w1 = initrd_finddir k (length (fw_nodes w)) n ?w1"
    by (simp add: vfs_finddir_def node_op_def tab initrd_ops_def)
  note find = holds_files_find(1) [OF h(1,4)]
  show ?thesis
  proof (cases "find_idx (\<lambda>f. fst f = n) fs")
    case None
    then show ?thesis by (intro exI [of _ "length (fw_nodes w)"] exI [of _ ?w1])
        (simp add: m fd initrd_finddir_def find find_idx_map_of)
  next
    case (Some i)
    then have i: "i < length fs" by (rule find_idx_SomeD)
    let ?d = "ir_dateien (fw_data w) ! i"
    let ?fn = "node_zero\<lparr>vn_name := put_at (vn_name node_zero) 0 (strncpy (idt_name ?d) 255), vn_size := idt_groesse ?d,
      vn_inode := of_nat i, vn_flags := VFS_FILE, vn_ops := Some k\<rparr>"
    let ?w2 = "?w1\<lparr>fw_nodes := fw_nodes ?w1 @ [?fn]\<rparr>"
    have f: "vfs_finddir tab (Some (length (fw_nodes w))) n ?w1 = (Some (Suc (length (fw_nodes w))), ?w2)"
      unfolding fd using Some h(3) by (simp add: initrd_finddir_def find initrd_node_def Let_def)
    have nth: "fw_nodes ?w2 ! Suc (length (fw_nodes w)) = ?fn"
      using nth_append_length [of "fw_nodes ?w1" ?fn "[]"] by simp
    have "vfs_read tab (Some (Suc (length (fw_nodes w)))) off sz ?w2 = initrd_read (Suc (length (fw_nodes w))) off sz ?w2" for off sz
      using nth by (simp add: vfs_read_def node_op_def tab initrd_ops_def)
    moreover have "initrd_read (Suc (length (fw_nodes w))) off sz ?w2 =
        (let b = take (unat sz) (drop (unat off) (snd (fs ! i))) in (int (length b), b))" if "length (snd (fs ! i)) < 2 ^ 31" for off sz
      by (rule initrd_read_spec [OF _ _ i that]) (use h(1) nth in simp_all)
    ultimately show ?thesis using Some f
      by (intro exI [of _ "length (fw_nodes w)"] exI [of _ ?w1]) (simp add: m find_idx_map_of)
  qed
qed

text \<open>C20: an archive with at most 64 files, loaded as a boot module and parsed, is served by the file system
  as it was packed: each name is found, with the bytes of its first file at every offset and size, and no
  other name is found.\<close>

theorem initrd_serves_archive:
  assumes "table_ok s" "ir_count s = 0" "\<And>k. ir_can s k" "tab k = initrd_ops k"
    "fs \<noteq> []" "length fs \<le> 64" "\<forall>f \<in> set fs. pird_name (fst f) \<and> length (snd f) < 2 ^ 31" "0 \<notin> set n"
    "mods_addr \<noteq> 0" "load32 (ir_mem s) mods_addr = start" "load32 (ir_mem s) (mods_addr + 4) = ende"
    "mem_bytes (ir_mem s) start (length (pird fs)) = pird fs" "unat ende = unat start + length (pird fs)"
  shows "\<exists>root w1. initrd_mount k dev fl \<lparr>fw_nodes = nodes, fw_data = initrd_init mods_addr s\<rparr> = (Some root, w1) \<and>
    (case map_of fs n of
       None \<Rightarrow> vfs_finddir tab (Some root) n w1 = (None, w1)
     | Some d \<Rightarrow> \<exists>f w2. vfs_finddir tab (Some root) n w1 = (Some f, w2) \<and>
         (\<forall>off sz. vfs_read tab (Some f) off sz w2 = (let b = take (unat sz) (drop (unat off) d) in (int (length b), b))))"
proof -
  note init = initrd_init_holds [OF assms(1,2,5,6) _ assms(9-13)]
  have "\<forall>f \<in> set fs. pird_name (fst f)" using assms(7) by blast
  note init = init [OF this]
  have small: "length d < 2 ^ 31" if "map_of fs n = Some d" for d using map_of_SomeD [OF that] assms(7) by fastforce
  from initrd_serves [of fs "\<lparr>fw_nodes = nodes, fw_data = initrd_init mods_addr s\<rparr>" n tab k dev fl]
  show ?thesis using init assms(3,4,8) small by (auto split: option.splits)
qed

text \<open>Memory with the bytes \<open>bs\<close> placed at \<open>a\<close>.\<close>

definition mem_with :: "u32 \<Rightarrow> u8 list \<Rightarrow> mem \<Rightarrow> mem" where
  "mem_with a bs m = (\<lambda>p. if unat (p - a) < length bs then bs ! unat (p - a) else m p)"

lemma mem_bytes_mem_with: "length bs \<le> 2 ^ 32 \<Longrightarrow> mem_bytes (mem_with a bs m) a (length bs) = bs"
  by (rule nth_equalityI) (simp_all add: mem_bytes_def mem_with_def unat_of_nat)

definition initrd_demo_archive :: "u8 list" where
  "initrd_demo_archive = pird [([97], [1, 2, 3])]"

definition initrd_demo :: initrd where
  "initrd_demo = \<lparr>ir_dateien = replicate 64 \<lparr>idt_name = replicate 64 0, idt_daten = 0, idt_groesse = 0\<rparr>, ir_count = 0, ir_ok = False,
     ir_mem = mem_with 0x100000 initrd_demo_archive (mem_with 0x9000 (bytes32 0x100000 @ bytes32 0x10004F) (\<lambda>_. 0)), ir_can = (\<lambda>_. True)\<rparr>"

lemma length_initrd_demo_archive: "length initrd_demo_archive = 79"
  by (simp add: initrd_demo_archive_def pird_def pird_entry_def INITRD_NAME_LEN_def)

lemma initrd_demo_ok:
  "table_ok initrd_demo" "ir_count initrd_demo = 0" "ir_can initrd_demo k" "load32 (ir_mem initrd_demo) 0x9000 = 0x100000"
  "load32 (ir_mem initrd_demo) (0x9000 + 4) = 0x10004F"
  "mem_bytes (ir_mem initrd_demo) 0x100000 (length (pird [([97], [1, 2, 3])])) = pird [([97], [1, 2, 3])]"
  "length (pird [([97], [1, 2, 3])]) = 79" "pird_name [97]"
proof -
  note len = length_initrd_demo_archive
  show "length (pird [([97], [1, 2, 3])]) = 79" using len by (simp add: initrd_demo_archive_def)
  show "mem_bytes (ir_mem initrd_demo) 0x100000 (length (pird [([97], [1, 2, 3])])) = pird [([97], [1, 2, 3])]"
    unfolding initrd_demo_def initrd_demo_archive_def [symmetric] initrd.simps by (rule mem_bytes_mem_with) (simp add: len)
  show "load32 (ir_mem initrd_demo) 0x9000 = 0x100000" "load32 (ir_mem initrd_demo) (0x9000 + 4) = 0x10004F"
    by (simp_all add: load32_def initrd_demo_def mem_with_def len bytes32_def)
  show "table_ok initrd_demo" "ir_count initrd_demo = 0" "ir_can initrd_demo k" by (simp_all add: table_ok_def initrd_demo_def)
  show "pird_name [97]" by (simp add: pird_name_def INITRD_NAME_LEN_def)
qed

theorem initrd_serves_archive_witness:
  "\<exists>root w1 f w2. initrd_mount 0 None 0 \<lparr>fw_nodes = [], fw_data = initrd_init 0x9000 initrd_demo\<rparr> = (Some root, w1) \<and>
     vfs_finddir (\<lambda>_. initrd_ops 0) (Some root) [97] w1 = (Some f, w2) \<and>
     vfs_read (\<lambda>_. initrd_ops 0) (Some f) 1 9 w2 = (2, [2, 3])"
proof -
  let ?fs = "[([97], [1, 2, 3])] :: (cstr \<times> u8 list) list"
  have "\<exists>root w1. initrd_mount 0 None 0 \<lparr>fw_nodes = [], fw_data = initrd_init 0x9000 initrd_demo\<rparr> = (Some root, w1) \<and>
    (case map_of ?fs [97] of
       None \<Rightarrow> vfs_finddir (\<lambda>_. initrd_ops 0) (Some root) [97] w1 = (None, w1)
     | Some d \<Rightarrow> \<exists>f w2. vfs_finddir (\<lambda>_. initrd_ops 0) (Some root) [97] w1 = (Some f, w2) \<and>
         (\<forall>off sz. vfs_read (\<lambda>_. initrd_ops 0) (Some f) off sz w2 = (let b = take (unat sz) (drop (unat off) d) in (int (length b), b))))"
    by (rule initrd_serves_archive [OF initrd_demo_ok(1-3) _ _ _ _ _ _ initrd_demo_ok(4-6)])
      (simp_all add: initrd_demo_ok(7,8))
  then obtain root w1 f w2 where m: "initrd_mount 0 None 0 \<lparr>fw_nodes = [], fw_data = initrd_init 0x9000 initrd_demo\<rparr> = (Some root, w1)"
    "vfs_finddir (\<lambda>_. initrd_ops 0) (Some root) [97] w1 = (Some f, w2)"
    "\<forall>off sz. vfs_read (\<lambda>_. initrd_ops 0) (Some f) off sz w2 = (let b = take (unat sz) (drop (unat off) [1, 2, 3]) in (int (length b), b))"
    by auto
  have "vfs_read (\<lambda>_. initrd_ops 0) (Some f) 1 9 w2 = (2, [2, 3])"
    using m(3) [rule_format, of 1 9] by simp
  with m(1,2) show ?thesis by blast
qed

end
