(* ===== verification/Fat32.thy ===== *)
theory Fat32
  imports Vfs Ide
begin

text \<open>
  The FAT32 file system (\<open>fs/fat32.c\<close>), read-only, over the disk model of \<open>Ide\<close>. Volumes and inodes are
  addressed by numbers. What \<open>kmalloc\<close> hands out is the function \<open>ft_heap\<close>: for a size, the stale bytes of the
  block, or \<open>None\<close>; \<open>ft_fault\<close> tells which reads the drive fails. An operation whose result is \<open>None\<close> divides by
  zero, reads outside a buffer, or does not return.
\<close>

section \<open>State\<close>

definition FAT32_ATTR_VOLUME_ID :: u8 where "FAT32_ATTR_VOLUME_ID = 0x08"
definition FAT32_ATTR_DIRECTORY :: u8 where "FAT32_ATTR_DIRECTORY = 0x10"
definition FAT32_ATTR_LFN :: u8 where "FAT32_ATTR_LFN = 0x0F"
definition FAT32_EOC :: u32 where "FAT32_EOC = 0x0FFFFFF8"
definition FAT32_DIRENT_BYTES :: nat where "FAT32_DIRENT_BYTES = 32"

record fat32_vol =
  fv_drive :: u8
  fv_fat_start :: u32
  fv_data_start :: u32
  fv_sectors_per_cluster :: u32
  fv_bytes_per_cluster :: u32
  fv_root_cluster :: u32
  fv_bytes_per_sector :: u32

record fat32_inode =
  fi_vol :: nat
  fi_first_cluster :: u32
  fi_file_size :: u32

record fat32 =
  ft_ide :: ide_state
  ft_fault :: "u32 \<Rightarrow> nat option"
  ft_heap :: "u32 \<Rightarrow> u8 list option"
  ft_vols :: "nat \<Rightarrow> fat32_vol option"
  ft_inodes :: "nat \<Rightarrow> fat32_inode option"
  ft_next :: nat

type_synonym fat32_world = "fat32 fs_world"

text \<open>A directory entry, decoded from its 32 bytes.\<close>

record fat32_dirent =
  fd_name :: "u8 list"
  fd_ext :: "u8 list"
  fd_attrib :: u8
  fd_cluster_high :: u16
  fd_cluster_low :: u16
  fd_file_size :: u32

definition fat32_dirent_at :: "u8 list \<Rightarrow> nat \<Rightarrow> fat32_dirent" where
  "fat32_dirent_at buf i =
     (let e = take FAT32_DIRENT_BYTES (drop (i * FAT32_DIRENT_BYTES) buf) in
      \<lparr>fd_name = take 8 e, fd_ext = take 3 (drop 8 e), fd_attrib = e ! 11, fd_cluster_high = get16 e 20,
       fd_cluster_low = get16 e 26, fd_file_size = get32 e 28\<rparr>)"

section \<open>Clusters\<close>

definition cluster_to_lba :: "fat32_vol \<Rightarrow> u32 \<Rightarrow> u32" where
  "cluster_to_lba v cluster = fv_data_start v + (cluster - 2) * fv_sectors_per_cluster v"

definition fat32_next_cluster :: "fat32 \<Rightarrow> fat32_vol \<Rightarrow> u32 \<Rightarrow> u32 option" where
  "fat32_next_cluster s v cluster =
     (if fv_bytes_per_sector v = 0 then None
      else
        let fat_offset = cluster * 4;
            fat_sector = fv_fat_start v + fat_offset div fv_bytes_per_sector v;
            entry_offset = fat_offset mod fv_bytes_per_sector v;
            (r, sector) = ide_read (ft_fault s fat_sector) (fv_drive v) fat_sector 1 (ft_ide s)
        in if r \<noteq> 0 then Some FAT32_EOC
           else if unat entry_offset + 4 \<le> IDE_SECTOR_SIZE then Some (get32 sector (unat entry_offset) AND 0x0FFFFFFF)
           else None)"

text \<open>Batches of at most 255 sectors; \<open>pos\<close> is the place in the buffer, which moves by the sector size of the
  volume while the drive transfers 512 bytes for each sector.\<close>

function fat32_read_sectors :: "fat32 \<Rightarrow> fat32_vol \<Rightarrow> u32 \<Rightarrow> u32 \<Rightarrow> nat \<Rightarrow> u8 list \<Rightarrow> int \<times> u8 list" where
  "fat32_read_sectors s v lba n_sectors pos buf =
     (if n_sectors = 0 then (0, buf)
      else
        let batch = (if n_sectors > 255 then 255 else ucast n_sectors) :: u8;
            (r, bytes) = ide_read (ft_fault s lba) (fv_drive v) lba batch (ft_ide s);
            buf = put_at buf pos bytes
        in if r \<noteq> 0 then (- 1, buf)
           else fat32_read_sectors s v (lba + ucast batch) (n_sectors - ucast batch)
                  (pos + unat batch * unat (fv_bytes_per_sector v)) buf)"
  by pat_completeness auto

termination
proof (relation "measure (\<lambda>(s, v, lba, n, pos, buf). unat n)", goal_cases)
  case (2 s v lba n pos buf batch p r bytes b)
  have b: "unat (ucast batch :: u32) = unat batch" by (simp add: unat_ucast_up)
  have pos: "0 < unat n" using 2(1) by (simp add: unat_gt_0)
  have u: "unat (ucast n :: u8) = unat n" if "\<not> n > 255" using that
    by (simp add: unsigned_ucast_eq take_bit_nat_eq_self word_less_nat_alt)
  have "0 < unat batch \<and> unat batch \<le> unat n"
  proof (cases "n > 255")
    case True
    then show ?thesis using 2(2) by (simp add: word_less_nat_alt)
  next
    case False
    then show ?thesis using 2(2) u pos by simp
  qed
  then show ?case using b by (simp add: unat_sub word_le_nat_alt)
qed simp

declare fat32_read_sectors.simps [simp del]

section \<open>Names\<close>

definition to_lower_az :: "u8 \<Rightarrow> u8" where
  "to_lower_az c = (if 65 \<le> c \<and> c \<le> 90 then c + 32 else c)"

definition fat32_short_name :: "fat32_dirent \<Rightarrow> cstr" where
  "fat32_short_name de =
     map to_lower_az (takeWhile (\<lambda>c. c \<noteq> 32) (fd_name de) @
       (if fd_ext de ! 0 \<noteq> 32 then 46 # takeWhile (\<lambda>c. c \<noteq> 32) (fd_ext de) else []))"

section \<open>Reading a file\<close>

text \<open>The walk to the first cluster of the range: \<open>Some None\<close> when the chain ends before it.\<close>

fun fat32_walk :: "fat32 \<Rightarrow> fat32_vol \<Rightarrow> nat \<Rightarrow> u32 \<Rightarrow> u32 option option" where
  "fat32_walk s v 0 cluster = Some (Some cluster)"
| "fat32_walk s v (Suc n) cluster =
     (case fat32_next_cluster s v cluster of
        None \<Rightarrow> None
      | Some c \<Rightarrow> if c \<ge> FAT32_EOC then Some None else fat32_walk s v n c)"

text \<open>The copying loop; \<open>out\<close> is what was copied so far.\<close>

partial_function (option) fat32_copy_loop ::
    "fat32 \<Rightarrow> fat32_vol \<Rightarrow> u32 \<Rightarrow> u32 \<Rightarrow> u32 \<Rightarrow> u8 list \<Rightarrow> u8 list \<Rightarrow> u8 list option" where
  "fat32_copy_loop s v cluster intra sz cbuf out =
     (if sz = 0 \<or> cluster \<ge> FAT32_EOC then Some out
      else
        let (r, cbuf) = fat32_read_sectors s v (cluster_to_lba v cluster) (fv_sectors_per_cluster v) 0 cbuf in
        if r \<noteq> 0 then Some out
        else
          let avail = fv_bytes_per_cluster v - intra;
              chunk = (if sz < avail then sz else avail);
              out = out @ take (unat chunk) (drop (unat intra) cbuf)
          in case fat32_next_cluster s v cluster of
               None \<Rightarrow> None
             | Some c \<Rightarrow> fat32_copy_loop s v c 0 (sz - chunk) cbuf out)"

definition fat32_read :: "nat \<Rightarrow> u32 \<Rightarrow> u32 \<Rightarrow> fat32_world \<Rightarrow> (int \<times> u8 list) option" where
  "fat32_read n offset sz w =
     (let s = fw_data w in
      case ft_inodes s (vn_fs_data (fw_nodes w ! n)) of
        None \<Rightarrow> Some (0, [])
      | Some ino \<Rightarrow>
          if offset \<ge> fi_file_size ino then Some (0, [])
          else
            let v = the (ft_vols s (fi_vol ino));
                sz = (if offset + sz > fi_file_size ino then fi_file_size ino - offset else sz)
            in if fv_bytes_per_cluster v = 0 then None
               else
                 let cluster_idx = offset div fv_bytes_per_cluster v; intra = offset mod fv_bytes_per_cluster v in
                 case fat32_walk s v (unat cluster_idx) (fi_first_cluster ino) of
                   None \<Rightarrow> None
                 | Some None \<Rightarrow> Some (0, [])
                 | Some (Some cluster) \<Rightarrow>
                     (case ft_heap s (fv_bytes_per_cluster v) of
                        None \<Rightarrow> Some (- 1, [])
                      | Some cbuf \<Rightarrow>
                          map_option (\<lambda>out. (sint (of_nat (length out) :: u32), out))
                            (fat32_copy_loop s v cluster intra sz cbuf [])))"

section \<open>Directories\<close>

text \<open>What the loops over the entries of one cluster end with: the terminating entry, a hit, or the next
  cluster with the count of entries seen.\<close>

datatype fat32_scan = ScanEnd | ScanFound fat32_dirent | ScanNext u32

definition fat32_visible :: "fat32_dirent \<Rightarrow> bool" where
  "fat32_visible de \<longleftrightarrow> fd_name de ! 0 \<noteq> 0xE5 \<and> fd_attrib de \<noteq> FAT32_ATTR_LFN \<and> fd_attrib de AND FAT32_ATTR_VOLUME_ID = 0"

fun fat32_readdir_scan :: "u8 list \<Rightarrow> u32 \<Rightarrow> nat list \<Rightarrow> u32 \<Rightarrow> fat32_scan" where
  "fat32_readdir_scan buf index [] entry_idx = ScanNext entry_idx"
| "fat32_readdir_scan buf index (i # is) entry_idx =
     (let de = fat32_dirent_at buf i in
      if fd_name de ! 0 = 0 then ScanEnd
      else if \<not> fat32_visible de then fat32_readdir_scan buf index is entry_idx
      else if entry_idx = index then ScanFound de
      else fat32_readdir_scan buf index is (entry_idx + 1))"

text \<open>\<open>can\<close>: the allocations of the inode and the node succeed.\<close>

fun fat32_finddir_scan :: "bool \<Rightarrow> u8 list \<Rightarrow> cstr \<Rightarrow> nat list \<Rightarrow> fat32_scan" where
  "fat32_finddir_scan can buf name [] = ScanNext 0"
| "fat32_finddir_scan can buf name (i # is) =
     (let de = fat32_dirent_at buf i in
      if fd_name de ! 0 = 0 then ScanEnd
      else if \<not> fat32_visible de then fat32_finddir_scan can buf name is
      else if strncmp (fat32_short_name de) name 12 \<noteq> 0 then fat32_finddir_scan can buf name is
      else if can then ScanFound de else ScanEnd)"

text \<open>The loop over the clusters of a directory; \<open>scan\<close> is the loop over the entries. A hit still reads the
  next cluster number before the loop ends.\<close>

partial_function (option) fat32_dir_loop ::
    "(u8 list \<Rightarrow> u32 \<Rightarrow> fat32_scan) \<Rightarrow> fat32 \<Rightarrow> fat32_vol \<Rightarrow> u32 \<Rightarrow> u32 \<Rightarrow> u8 list \<Rightarrow> fat32_dirent option option" where
  "fat32_dir_loop scan s v cluster entry_idx cbuf =
     (if cluster \<ge> FAT32_EOC then Some None
      else
        let (r, cbuf) = fat32_read_sectors s v (cluster_to_lba v cluster) (fv_sectors_per_cluster v) 0 cbuf in
        if r \<noteq> 0 then Some None
        else case scan cbuf entry_idx of
               ScanEnd \<Rightarrow> Some None
             | ScanFound de \<Rightarrow> (case fat32_next_cluster s v cluster of None \<Rightarrow> None | Some c \<Rightarrow> Some (Some de))
             | ScanNext entry_idx \<Rightarrow>
                 (case fat32_next_cluster s v cluster of
                    None \<Rightarrow> None
                  | Some c \<Rightarrow> fat32_dir_loop scan s v c entry_idx cbuf))"

definition fat32_entries :: "fat32_vol \<Rightarrow> nat list" where
  "fat32_entries v = [0..<unat (fv_bytes_per_cluster v) div FAT32_DIRENT_BYTES]"

definition fat32_first_cluster :: "fat32_dirent \<Rightarrow> u32" where
  "fat32_first_cluster de = push_bit 16 (ucast (fd_cluster_high de)) OR ucast (fd_cluster_low de)"

definition fat32_flags :: "fat32_dirent \<Rightarrow> u32" where
  "fat32_flags de = (if fd_attrib de AND FAT32_ATTR_DIRECTORY \<noteq> 0 then VFS_DIR else VFS_FILE)"

text \<open>The result of \<open>readdir\<close> is the entry it fills in, or none.\<close>

definition fat32_readdir :: "nat \<Rightarrow> u32 \<Rightarrow> vfs_dirent \<Rightarrow> fat32_world \<Rightarrow> vfs_dirent option option" where
  "fat32_readdir n index out w =
     (let s = fw_data w in
      case ft_inodes s (vn_fs_data (fw_nodes w ! n)) of
        None \<Rightarrow> Some None
      | Some ino \<Rightarrow>
          let v = the (ft_vols s (fi_vol ino)) in
          case ft_heap s (fv_bytes_per_cluster v) of
            None \<Rightarrow> Some None
          | Some cbuf \<Rightarrow>
              map_option (map_option (\<lambda>de. out\<lparr>de_name := put_at (de_name out) 0 (strncpy (fat32_short_name de) 255),
                                               de_inode := fat32_first_cluster de, de_type := ucast (fat32_flags de)\<rparr>))
                (fat32_dir_loop (\<lambda>b. fat32_readdir_scan b index (fat32_entries v)) s v (fi_first_cluster ino) 0 cbuf))"

definition FAT32_INODE_BYTES :: u32 where "FAT32_INODE_BYTES = 12"
definition FAT32_VOL_BYTES :: u32 where "FAT32_VOL_BYTES = 28"
definition VFS_NODE_BYTES :: u32 where "VFS_NODE_BYTES = 308"

definition fat32_new_node :: "cstr \<Rightarrow> u32 \<Rightarrow> u32 \<Rightarrow> nat \<Rightarrow> fat32_inode \<Rightarrow> fat32_world \<Rightarrow> nat \<times> fat32_world" where
  "fat32_new_node name sz flags self ino w =
     (let s = fw_data w; a = ft_next s in
      (length (fw_nodes w),
       w\<lparr>fw_nodes := fw_nodes w @ [node_zero\<lparr>vn_name := put_at (vn_name node_zero) 0 name, vn_size := sz, vn_flags := flags,
            vn_ops := Some self, vn_fs_data := a\<rparr>],
         fw_data := s\<lparr>ft_inodes := (ft_inodes s)(a \<mapsto> ino), ft_next := a + 1\<rparr>\<rparr>))"

definition fat32_finddir :: "nat \<Rightarrow> nat \<Rightarrow> cstr \<Rightarrow> fat32_world \<Rightarrow> (nat option \<times> fat32_world) option" where
  "fat32_finddir self n name w =
     (let s = fw_data w in
      case ft_inodes s (vn_fs_data (fw_nodes w ! n)) of
        None \<Rightarrow> Some (None, w)
      | Some ino \<Rightarrow>
          let v = the (ft_vols s (fi_vol ino)) in
          case ft_heap s (fv_bytes_per_cluster v) of
            None \<Rightarrow> Some (None, w)
          | Some cbuf \<Rightarrow>
              map_option (\<lambda>hit. case hit of
                  None \<Rightarrow> (None, w)
                | Some de \<Rightarrow>
                      let (k, w) = fat32_new_node (strncpy (fat32_short_name de) 255) (fd_file_size de) (fat32_flags de) self
                            \<lparr>fi_vol = fi_vol ino, fi_first_cluster = fat32_first_cluster de, fi_file_size = fd_file_size de\<rparr> w
                      in (Some k, w))
                (fat32_dir_loop (\<lambda>b _. fat32_finddir_scan (ft_heap s FAT32_INODE_BYTES \<noteq> None \<and> ft_heap s VFS_NODE_BYTES \<noteq> None)
                    b name (fat32_entries v)) s v (fi_first_cluster ino) 0 cbuf))"

section \<open>Mounting\<close>

definition fat32_mount :: "nat \<Rightarrow> cstr option \<Rightarrow> u32 \<Rightarrow> fat32_world \<Rightarrow> nat option \<times> fat32_world" where
  "fat32_mount self device flags w =
     (let s = fw_data w;
          c = (case device of Some d \<Rightarrow> chr (drop 3 d) | None \<Rightarrow> 0);
          drive = (if 48 \<le> c \<and> c \<le> 51 then c - 48 else 0);
          (r, sector) = ide_read (ft_fault s 0) drive 0 1 (ft_ide s);
          bps = get16 sector 11; spc = sector ! 13; reserved = get16 sector 14; fat_count = sector ! 16;
          fat_size = get32 sector 36
      in if r \<noteq> 0 then (None, w)
         else if bps \<noteq> 512 \<and> bps \<noteq> 1024 \<and> bps \<noteq> 2048 \<and> bps \<noteq> 4096 then (None, w)
         else if fat_size = 0 then (None, w)
         else if ft_heap s FAT32_VOL_BYTES = None \<or> ft_heap s FAT32_INODE_BYTES = None \<or> ft_heap s VFS_NODE_BYTES = None then (None, w)
         else
           let vol = \<lparr>fv_drive = drive, fv_fat_start = ucast reserved, fv_data_start = ucast reserved + ucast fat_count * fat_size,
                 fv_sectors_per_cluster = ucast spc, fv_bytes_per_cluster = ucast bps * ucast spc,
                 fv_root_cluster = get32 sector 44, fv_bytes_per_sector = ucast bps\<rparr>;
               a = ft_next s;
               (k, w) = fat32_new_node (asc ''/'' @ [0]) 0 VFS_DIR self
                  \<lparr>fi_vol = a, fi_first_cluster = fv_root_cluster vol, fi_file_size = 0\<rparr>
                  (w\<lparr>fw_data := s\<lparr>ft_vols := (ft_vols s)(a \<mapsto> vol), ft_next := a + 1\<rparr>\<rparr>)
           in (Some k, w))"

section \<open>Volumes and cluster chains\<close>

text \<open>A readable volume with sectors of 512 bytes and at least one sector to a cluster.\<close>

definition fat32_vol_ok :: "fat32 \<Rightarrow> fat32_vol \<Rightarrow> bool" where
  "fat32_vol_ok s v \<longleftrightarrow> fv_bytes_per_sector v = 512 \<and> 0 < unat (fv_sectors_per_cluster v) \<and> unat (fv_sectors_per_cluster v) \<le> 255 \<and>
     fv_bytes_per_cluster v = 512 * fv_sectors_per_cluster v \<and> ide_has (fv_drive v) (ft_ide s) \<and>
     (\<forall>d l. length (ide_sectors (ft_ide s) d l) = 512) \<and> (\<forall>l. ft_fault s l = None)"

definition cluster_bytes :: "fat32 \<Rightarrow> fat32_vol \<Rightarrow> u32 \<Rightarrow> u8 list" where
  "cluster_bytes s v c = concat (map (\<lambda>i. ide_sectors (ft_ide s) (unat (fv_drive v)) (take_bit 28 (cluster_to_lba v c) + of_nat i))
     [0..<unat (fv_sectors_per_cluster v)])"

text \<open>The clusters that the table chains from \<open>c\<close> to the end mark.\<close>

primrec fat_chain :: "fat32 \<Rightarrow> fat32_vol \<Rightarrow> u32 \<Rightarrow> u32 list \<Rightarrow> bool" where
  "fat_chain s v c [] \<longleftrightarrow> c \<ge> FAT32_EOC"
| "fat_chain s v c (x # xs) \<longleftrightarrow> c = x \<and> x < FAT32_EOC \<and> (\<exists>c'. fat32_next_cluster s v x = Some c' \<and> fat_chain s v c' xs)"

lemma vol_ok_bpc:
  assumes "fat32_vol_ok s v"
  shows "unat (fv_bytes_per_cluster v) = 512 * unat (fv_sectors_per_cluster v)" "0 < unat (fv_bytes_per_cluster v)"
    "unat (fv_bytes_per_cluster v) \<le> 130560"
proof -
  have a: "0 < unat (fv_sectors_per_cluster v)" "unat (fv_sectors_per_cluster v) \<le> 255" "fv_bytes_per_cluster v = 512 * fv_sectors_per_cluster v"
    using assms by (simp_all add: fat32_vol_ok_def)
  then show u: "unat (fv_bytes_per_cluster v) = 512 * unat (fv_sectors_per_cluster v)" by (simp add: unat_word_ariths)
  show "0 < unat (fv_bytes_per_cluster v)" "unat (fv_bytes_per_cluster v) \<le> 130560" using a(1,2) u by linarith+
qed

lemma length_cluster_bytes: "fat32_vol_ok s v \<Longrightarrow> length (cluster_bytes s v c) = unat (fv_bytes_per_cluster v)"
proof -
  assume ok: "fat32_vol_ok s v"
  then have "\<forall>d l. length (ide_sectors (ft_ide s) d l) = 512" by (simp add: fat32_vol_ok_def)
  then show ?thesis using vol_ok_bpc(1) [OF ok] by (simp add: cluster_bytes_def length_concat o_def sum_list_triv)
qed

lemma fat32_read_cluster:
  assumes ok: "fat32_vol_ok s v" and len: "length cbuf = unat (fv_bytes_per_cluster v)"
  shows "fat32_read_sectors s v (cluster_to_lba v c) (fv_sectors_per_cluster v) 0 cbuf = (0, cluster_bytes s v c)"
proof -
  let ?n = "fv_sectors_per_cluster v"
  have n: "0 < unat ?n" "unat ?n \<le> 255" using ok by (simp_all add: fat32_vol_ok_def)
  have nz: "?n \<noteq> 0" and small: "\<not> ?n > 255" using n by (auto simp: word_less_nat_alt)
  have u: "unat (ucast ?n :: u8) = unat ?n" using n by (simp add: unsigned_ucast_eq take_bit_nat_eq_self)
  have uu: "ucast (ucast ?n :: u8) = ?n" using u by (simp add: word_unat_eq_iff unat_ucast_up)
  have rd: "ide_read None (fv_drive v) (cluster_to_lba v c) (ucast ?n) (ft_ide s) = (0, cluster_bytes s v c)"
    using ok by (simp add: ide_read_def fat32_vol_ok_def ata_lba_select cluster_bytes_def u Let_def)
  have "put_at cbuf 0 (cluster_bytes s v c) = cluster_bytes s v c"
    using length_cluster_bytes [OF ok] len by (simp add: put_at_def)
  then show ?thesis using ok nz small rd uu
    by (subst fat32_read_sectors.simps) (simp add: fat32_vol_ok_def Let_def fat32_read_sectors.simps [of _ _ _ 0])
qed

lemma fat32_next_ok:
  assumes "fat32_vol_ok s v"
  obtains x where "fat32_next_cluster s v c = Some x"
proof -
  have "unat (c * 4 mod 512) + 4 \<le> 512"
  proof -
    have "unat (c * 4 mod 512) = 4 * unat c mod 4294967296 mod 512" by (simp add: unat_mod unat_word_ariths mult.commute)
    also have "\<dots> = 4 * unat c mod 512" by (simp add: mod_mod_cancel)
    also have "\<dots> = 4 * (unat c mod 128)" using mult_mod_right [of 4 "unat c" 128] by simp
    finally show ?thesis using mod_less_divisor [of 128 "unat c"] by linarith
  qed
  then have "\<exists>x. fat32_next_cluster s v c = Some x" using assms
    by (simp add: fat32_next_cluster_def fat32_vol_ok_def Let_def IDE_SECTOR_SIZE_def split: prod.split)
  then show ?thesis using that by blast
qed

lemma fat_chain_drop: "fat_chain s v c cs \<Longrightarrow> n < length cs \<Longrightarrow> fat32_walk s v n c = Some (Some (cs ! n)) \<and> fat_chain s v (cs ! n) (drop n cs)"
proof (induction n arbitrary: c cs)
  case 0
  then show ?case by (cases cs) auto
next
  case (Suc n)
  then obtain x xs c' where cs: "cs = x # xs" "fat32_next_cluster s v c = Some c'" "fat_chain s v c' xs" "n < length xs" by (cases cs) auto
  then have "\<not> c' \<ge> FAT32_EOC" by (cases xs) auto
  then show ?case using Suc.IH [OF cs(3,4)] cs by simp
qed

text \<open>The bytes of the chained clusters.\<close>

definition chain_bytes :: "fat32 \<Rightarrow> fat32_vol \<Rightarrow> u32 list \<Rightarrow> u8 list" where
  "chain_bytes s v cs = concat (map (cluster_bytes s v) cs)"

lemma fat32_copy_loop_spec:
  assumes ok: "fat32_vol_ok s v"
  shows "fat_chain s v c cs \<Longrightarrow> unat intra < unat (fv_bytes_per_cluster v) \<Longrightarrow>
    unat intra + unat sz \<le> length cs * unat (fv_bytes_per_cluster v) \<Longrightarrow> length cbuf = unat (fv_bytes_per_cluster v) \<Longrightarrow>
    fat32_copy_loop s v c intra sz cbuf out = Some (out @ take (unat sz) (drop (unat intra) (chain_bytes s v cs)))"
proof (induction cs arbitrary: c intra sz cbuf out)
  case Nil
  then have "sz = 0" by (simp add: unat_eq_0)
  then show ?case by (subst fat32_copy_loop.simps) simp
next
  case (Cons x cs)
  let ?k = "fv_bytes_per_cluster v" and ?b = "cluster_bytes s v x"
  obtain c' where x: "c = x" "\<not> x \<ge> FAT32_EOC" "fat32_next_cluster s v x = Some c'" "fat_chain s v c' cs"
    using Cons.prems(1) by (auto simp: not_le)
  show ?case
  proof (cases "sz = 0")
    case True
    then show ?thesis by (subst fat32_copy_loop.simps) simp
  next
    case False
    define chunk where "chunk = (if sz < ?k - intra then sz else ?k - intra)"
    have sub: "unat (?k - intra) = unat ?k - unat intra" using Cons.prems(2) by (simp add: unat_sub word_le_nat_alt)
    have ch: "unat chunk = min (unat sz) (unat ?k - unat intra)" using sub by (auto simp: chunk_def word_less_nat_alt)
    have rest: "unat (sz - chunk) = unat sz - unat chunk" using ch by (simp add: unat_sub word_le_nat_alt)
    have len: "length ?b = unat ?k" by (rule length_cluster_bytes [OF ok])
    have fit: "unat (0 :: u32) + unat (sz - chunk) \<le> length cs * unat ?k" 
      using Cons.prems(2,3) ch unfolding rest by (cases "unat sz \<le> unat ?k - unat intra") (simp_all, linarith?)
    have "fat32_copy_loop s v c intra sz cbuf out =
        fat32_copy_loop s v c' 0 (sz - chunk) ?b (out @ take (unat chunk) (drop (unat intra) ?b))"
      using False x fat32_read_cluster [OF ok Cons.prems(4)]
      by (subst fat32_copy_loop.simps) (simp add: Let_def chunk_def)
    also have "\<dots> = Some ((out @ take (unat chunk) (drop (unat intra) ?b)) @ take (unat (sz - chunk)) (drop (unat (0 :: u32)) (chain_bytes s v cs)))"
      using Cons.IH [OF x(4) _ fit len] vol_ok_bpc(2) [OF ok] by simp
    also have "\<dots> = Some (out @ take (unat sz) (drop (unat intra) (chain_bytes s v (x # cs))))"
      using take_drop_block [of "unat intra" ?b "unat chunk" "unat sz" "chain_bytes s v cs"] ch len rest Cons.prems(2)
      by (simp add: chain_bytes_def)
    finally show ?thesis .
  qed
qed

lemma fat32_read_chain:
  assumes ok: "fat32_vol_ok (fw_data w) v" and ino: "ft_inodes (fw_data w) (vn_fs_data (fw_nodes w ! n)) = Some ino"
    "ft_vols (fw_data w) (fi_vol ino) = Some v"
    and chain: "fat_chain (fw_data w) v (fi_first_cluster ino) cs"
    and size: "unat (fi_file_size ino) \<le> length (chain_bytes (fw_data w) v cs)" "unat (fi_file_size ino) < 2 ^ 31"
    and heap: "ft_heap (fw_data w) (fv_bytes_per_cluster v) = Some blk" "length blk = unat (fv_bytes_per_cluster v)"
    and nowrap: "unat off + unat sz < 2 ^ 32"
  shows "fat32_read n off sz w =
    (let b = take (unat sz) (drop (unat off) (take (unat (fi_file_size ino)) (chain_bytes (fw_data w) v cs))) in Some (int (length b), b))"
proof (cases "off \<ge> fi_file_size ino")
  case True
  then show ?thesis using ino by (simp add: fat32_read_def word_le_nat_alt)
next
  case False
  let ?s = "fw_data w" and ?fs = "fi_file_size ino"
  let ?k = "fv_bytes_per_cluster v" and ?d = "chain_bytes ?s v cs"
  define sz' where "sz' = (if off + sz > ?fs then ?fs - off else sz)"
  have lt: "unat off < unat ?fs" using False by (simp add: word_le_nat_alt)
  have sz': "unat sz' = min (unat sz) (unat ?fs - unat off)" unfolding sz'_def by (rule unat_clip [OF False nowrap])
  have k: "0 < unat ?k" by (rule vol_ok_bpc(2) [OF ok])
  then have knz: "?k \<noteq> 0" by auto
  have blocks: "\<forall>b \<in> set (map (cluster_bytes ?s v) cs). length b = unat ?k" using length_cluster_bytes [OF ok] by simp
  have len: "length ?d = length cs * unat ?k" using length_concat_blocks [OF blocks] by (simp add: chain_bytes_def)
  define i where "i = unat off div unat ?k"
  have i: "i < length cs" using lt size(1) len k by (simp add: i_def less_mult_imp_div_less)
  have od: "unat (off div ?k) = i" "unat (off mod ?k) = unat off mod unat ?k" by (simp_all add: i_def unat_div unat_mod)
  note walk = fat_chain_drop [OF chain i]
  have dropeq: "drop (unat off mod unat ?k) (chain_bytes ?s v (drop i cs)) = drop (unat off) ?d"
    using drop_concat_div_mod [OF blocks, of "unat off"] by (simp add: chain_bytes_def i_def drop_map)
  have "unat off mod unat ?k + unat sz' \<le> length (drop i cs) * unat ?k"
  proof -
    have "unat off = i * unat ?k + unat off mod unat ?k" by (simp add: i_def)
    moreover have "unat off + unat sz' \<le> length cs * unat ?k" using sz' size(1) lt len by simp
    ultimately show ?thesis using i by (simp add: diff_mult_distrib)
  qed
  then have loop: "fat32_copy_loop ?s v (cs ! i) (off mod ?k) sz' blk [] = Some (take (unat sz') (drop (unat off) ?d))"
    using fat32_copy_loop_spec [OF ok walk [THEN conjunct2], of "off mod ?k" sz' blk "[]"] heap(2) k od(2) dropeq by simp
  define b where "b = take (unat sz) (drop (unat off) (take (unat ?fs) ?d))"
  have b: "take (unat sz') (drop (unat off) ?d) = b" by (simp only: b_def sz' take_clip)
  have lb: "length b \<le> unat ?fs" by (simp add: b_def)
  have "sint (of_nat (length b) :: u32) = int (length b)" by (rule sint_length [OF lb size(2)])
  then have "fat32_read n off sz w = Some (int (length b), b)"
    using False ino knz heap(1) walk [THEN conjunct1] loop
    by (simp add: fat32_read_def sz'_def [symmetric] od(1) b Let_def)
  then show ?thesis by (simp add: b_def Let_def)
qed

section \<open>The volume as the format describes it\<close>

text \<open>The entry of a cluster in the table: the lower 28 bits of the 32-bit number at four times its number behind the start
  of the table. The data of cluster 2 start at the first data sector, those of the next ones follow. All in natural numbers,
  over the bytes of the drive.\<close>

definition fat_entry :: "fat32 \<Rightarrow> fat32_vol \<Rightarrow> nat \<Rightarrow> nat" where
  "fat_entry s v c = disk_word (ft_ide s) (unat (fv_drive v)) (512 * unat (fv_fat_start v) + 4 * c) mod 2 ^ 28"

definition cluster_data :: "fat32 \<Rightarrow> fat32_vol \<Rightarrow> nat \<Rightarrow> u8 list" where
  "cluster_data s v c = disk_bytes (ft_ide s) (unat (fv_drive v))
     (512 * (unat (fv_data_start v) + (c - 2) * unat (fv_sectors_per_cluster v))) (512 * unat (fv_sectors_per_cluster v))"

text \<open>The clusters of a file: from its first one along the table to an end mark (from \<open>0x0FFFFFF8\<close> on), all of
  them within the \<open>2\<^sup>2\<^sup>8\<close> sectors that a drive can have.\<close>

primrec fat_file :: "fat32 \<Rightarrow> fat32_vol \<Rightarrow> nat \<Rightarrow> nat list \<Rightarrow> bool" where
  "fat_file s v c [] \<longleftrightarrow> 0x0FFFFFF8 \<le> c"
| "fat_file s v c (x # xs) \<longleftrightarrow> c = x \<and> 2 \<le> x \<and> x < 0x0FFFFFF8 \<and> unat (fv_fat_start v) + x div 128 < 2 ^ 28 \<and>
     unat (fv_data_start v) + (x - 1) * unat (fv_sectors_per_cluster v) \<le> 2 ^ 28 \<and> fat_file s v (fat_entry s v x) xs"

lemma fat32_next_entry:
  assumes ok: "fat32_vol_ok s v" and c: "unat c < 0x0FFFFFF8" "unat (fv_fat_start v) + unat c div 128 < 2 ^ 28"
  shows "fat32_next_cluster s v c = Some (of_nat (fat_entry s v (unat c)))"
proof -
  let ?d = "unat (fv_drive v)" and ?l = "unat (fv_fat_start v) + unat c div 128"
  have c4: "unat (c * 4) = 4 * unat c" using c(1) by (simp add: unat_word_ariths)
  have off: "unat (c * 4 mod 512) = 4 * (unat c mod 128)" using mult_mod_right [of 4 "unat c" 128] by (simp add: unat_mod c4)
  have q: "unat c div 128 = unat (c * 4 div 512)" using div_mult2_eq [of "4 * unat c" 4 128] by (simp add: unat_div c4)
  have sec: "fv_fat_start v + c * 4 div 512 = of_nat ?l" unfolding q by simp
  have tb: "take_bit 28 (of_nat ?l :: u32) = of_nat ?l" by (rule sector_in_reach [OF c(2)])
  have len: "length (ide_sectors (ft_ide s) d l) = 512" for d l using ok by (simp add: fat32_vol_ok_def)
  have rd: "ide_read (ft_fault s (of_nat ?l)) (fv_drive v) (of_nat ?l) 1 (ft_ide s) = (0, disk_bytes (ft_ide s) ?d (512 * ?l) 512)"
    using ok disk_bytes_sector [of "ft_ide s" ?d ?l, OF len] tb
    by (simp add: ide_read_def fat32_vol_ok_def ata_lba_select Let_def)
  have le: "4 * (unat c mod 128) + 4 \<le> 512" using mod_less_divisor [of 128 "unat c"] by linarith
  have pos: "512 * ?l + 4 * (unat c mod 128) = 512 * unat (fv_fat_start v) + 4 * unat c"
    using mult_div_mod_eq [of 128 "unat c"] by (simp only: distrib_left)
  have g: "unat (get32 (disk_bytes (ft_ide s) ?d (512 * ?l) 512) (4 * (unat c mod 128))) = disk_word (ft_ide s) ?d (512 * unat (fv_fat_start v) + 4 * unat c)"
    by (simp only: get32_disk [OF le] pos)
  have "x AND 0x0FFFFFFF = of_nat (unat x mod 2 ^ 28)" for x :: u32
  proof -
    have "(0x0FFFFFFF :: u32) = mask 28" by (simp add: mask_eq_exp_minus_1)
    then have "x AND 0x0FFFFFFF = x mod 2 ^ 28" by (metis take_bit_eq_mask take_bit_eq_mod)
    moreover have "unat x mod 2 ^ 28 < 2 ^ 32" using mod_less_divisor [of "2 ^ 28" "unat x"] by simp
    ultimately show ?thesis by (simp add: word_unat_eq_iff unat_mod unat_of_nat)
  qed
  then show ?thesis
    using ok rd le off sec g
    by (simp add: fat32_next_cluster_def fat32_vol_ok_def IDE_SECTOR_SIZE_def fat_entry_def Let_def)
qed

lemma cluster_bytes_data:
  assumes ok: "fat32_vol_ok s v" and c: "2 \<le> unat c" "unat (fv_data_start v) + (unat c - 1) * unat (fv_sectors_per_cluster v) \<le> 2 ^ 28"
  shows "cluster_bytes s v c = cluster_data s v (unat c)"
proof -
  let ?n = "unat (fv_sectors_per_cluster v)"
  define l where "l = unat (fv_data_start v) + (unat c - 2) * ?n"
  have "l + ?n = unat (fv_data_start v) + (unat c - 1) * ?n"
    using c(1) by (simp add: l_def) (metis Suc_diff_Suc mult_Suc numeral_2_eq_2 Suc_le_lessD add.commute diff_Suc_1)
  moreover have "0 < ?n" using ok by (simp add: fat32_vol_ok_def)
  ultimately have l: "l + ?n \<le> 2 ^ 28" "l < 2 ^ 28" using c(2) by simp_all
  have "cluster_to_lba v c = of_nat l"
    using c(1) by (simp add: cluster_to_lba_def l_def unat_sub word_le_nat_alt)
  moreover have "take_bit 28 (of_nat l :: u32) = of_nat l"
    by (rule sector_in_reach [OF l(2)])
  ultimately have "cluster_bytes s v c = concat (map (\<lambda>i. ide_sectors (ft_ide s) (unat (fv_drive v)) (of_nat (l + i))) [0..<?n])"
    by (simp add: cluster_bytes_def)
  then show ?thesis using ok by (simp add: cluster_data_def l_def [symmetric] disk_bytes_sectors fat32_vol_ok_def)
qed

lemma fat_file_chain:
  assumes "fat32_vol_ok s v"
  shows "fat_file s v (unat c) cs \<Longrightarrow>
    fat_chain s v c (map of_nat cs) \<and> chain_bytes s v (map of_nat cs) = concat (map (cluster_data s v) cs)"
proof (induction cs arbitrary: c)
  case Nil
  then show ?case by (simp add: FAT32_EOC_def word_le_nat_alt chain_bytes_def)
next
  case (Cons x cs)
  have x: "unat c = x" "c = of_nat x" using Cons.prems by auto
  have e: "unat (of_nat (fat_entry s v x) :: u32) = fat_entry s v x"
    using mod_less_divisor [of "2 ^ 28" "disk_word (ft_ide s) (unat (fv_drive v)) (512 * unat (fv_fat_start v) + 4 * x)"]
    by (simp add: fat_entry_def unat_of_nat)
  have "fat_chain s v (of_nat (fat_entry s v x)) (map of_nat cs) \<and> chain_bytes s v (map of_nat cs) = concat (map (cluster_data s v) cs)"
    using Cons.IH [of "of_nat (fat_entry s v x)"] Cons.prems by (simp add: e)
  moreover have "fat32_next_cluster s v c = Some (of_nat (fat_entry s v x))" "cluster_bytes s v c = cluster_data s v x"
    using fat32_next_entry [OF assms, of c] cluster_bytes_data [OF assms, of c] Cons.prems x(1) by simp_all
  moreover have "c < FAT32_EOC" using Cons.prems x(1) by (simp add: FAT32_EOC_def word_less_nat_alt)
  ultimately show ?case by (simp add: x(2) [symmetric] chain_bytes_def)
qed

text \<open>C14: on a readable volume with sectors of 512 bytes, a file whose clusters, as the format defines them over the bytes of the drive, are enough for its size reads
  back the bytes of these clusters in their order, cut at the size of the file: at every offset and for every length whose sum fits 32 bits, when the
  heap has a block for one cluster.\<close>

theorem fat32_read_correct:
  assumes ok: "fat32_vol_ok (fw_data w) v" and ino: "ft_inodes (fw_data w) (vn_fs_data (fw_nodes w ! n)) = Some ino"
    "ft_vols (fw_data w) (fi_vol ino) = Some v"
    and clusters: "fat_file (fw_data w) v (unat (fi_first_cluster ino)) cs"
    and size: "unat (fi_file_size ino) \<le> length (concat (map (cluster_data (fw_data w) v) cs))" "unat (fi_file_size ino) < 2 ^ 31"
    and heap: "ft_heap (fw_data w) (fv_bytes_per_cluster v) = Some blk" "length blk = unat (fv_bytes_per_cluster v)"
    and nowrap: "unat off + unat sz < 2 ^ 32"
  shows "fat32_read n off sz w =
    (let b = take (unat sz) (drop (unat off) (take (unat (fi_file_size ino)) (concat (map (cluster_data (fw_data w) v) cs))))
     in Some (int (length b), b))"
  using fat32_read_chain [OF ok ino fat_file_chain [OF ok clusters, THEN conjunct1] _ size(2) heap nowrap]
    fat_file_chain [OF ok clusters, THEN conjunct2] size(1) by simp


section \<open>Directory contents\<close>

text \<open>The entries up to the terminating one that are neither deleted, nor long names, nor volume labels.\<close>

definition live_entries :: "fat32_dirent list \<Rightarrow> fat32_dirent list" where
  "live_entries ds = takeWhile (\<lambda>d. fd_name d ! 0 \<noteq> 0) ds"

definition visible_entries :: "fat32_dirent list \<Rightarrow> fat32_dirent list" where
  "visible_entries ds = filter fat32_visible (live_entries ds)"

definition chain_dirents :: "fat32 \<Rightarrow> fat32_vol \<Rightarrow> u32 list \<Rightarrow> fat32_dirent list" where
  "chain_dirents s v cs = concat (map (\<lambda>c. map (fat32_dirent_at (cluster_bytes s v c)) (fat32_entries v)) cs)"

lemma visible_append:
  "visible_entries (xs @ ys) = visible_entries xs @ (if length (live_entries xs) < length xs then [] else visible_entries ys)"
proof (cases "\<exists>d \<in> set xs. fd_name d ! 0 = 0")
  case True
  then have "takeWhile (\<lambda>d. fd_name d ! 0 \<noteq> 0) xs \<noteq> xs" by (metis (mono_tags) takeWhile_eq_all_conv)
  then have "length (live_entries xs) < length xs"
    unfolding live_entries_def by (metis length_takeWhile_le nat_less_le takeWhile_eq_take take_all)
  with True show ?thesis by (auto simp: visible_entries_def live_entries_def takeWhile_append1)
next
  case False
  then have "live_entries xs = xs" unfolding live_entries_def by (metis (mono_tags) takeWhile_eq_all_conv)
  moreover have "live_entries (xs @ ys) = xs @ live_entries ys" using False by (simp add: live_entries_def takeWhile_append2)
  ultimately show ?thesis by (simp add: visible_entries_def)
qed

text \<open>What \<open>readdir\<close> and \<open>finddir\<close> promise of their scan of one cluster: it picks an entry among the visible ones,
  and the pick of a longer list continues where the scan of the first part stopped.\<close>

locale dir_scan =
  fixes scan :: "u8 list \<Rightarrow> nat list \<Rightarrow> u32 \<Rightarrow> fat32_scan"
    and pick :: "u32 \<Rightarrow> fat32_dirent list \<Rightarrow> fat32_dirent option"
    and advance :: "u32 \<Rightarrow> fat32_dirent list \<Rightarrow> u32"
    and fine :: "u32 \<Rightarrow> bool"
  assumes scan_pick: "fine e \<Longrightarrow> scan buf js e =
      (let ds = map (fat32_dirent_at buf) js in
       case pick e (visible_entries ds) of
         Some d \<Rightarrow> ScanFound d
       | None \<Rightarrow> if length (live_entries ds) < length ds then ScanEnd else ScanNext (advance e (visible_entries ds)))"
    and pick_append: "fine e \<Longrightarrow> pick e (xs @ ys) = (case pick e xs of Some d \<Rightarrow> Some d | None \<Rightarrow> pick (advance e xs) ys)"
    and pick_nil: "pick e [] = None"
    and fine_advance: "fine e \<Longrightarrow> pick e xs = None \<Longrightarrow> fine (advance e xs)"
begin

lemma dir_loop:
  assumes ok: "fat32_vol_ok s v"
  shows "fat_chain s v c cs \<Longrightarrow> length cbuf = unat (fv_bytes_per_cluster v) \<Longrightarrow> fine e \<Longrightarrow>
    fat32_dir_loop (\<lambda>b. scan b (fat32_entries v)) s v c e cbuf = Some (pick e (visible_entries (chain_dirents s v cs)))"
proof (induction cs arbitrary: c e cbuf)
  case Nil
  then show ?case by (subst fat32_dir_loop.simps) (simp add: chain_dirents_def visible_entries_def live_entries_def pick_nil)
next
  case (Cons x cs)
  let ?b = "cluster_bytes s v x"
  let ?ds = "map (fat32_dirent_at ?b) (fat32_entries v)"
  obtain c' where x: "c = x" "\<not> x \<ge> FAT32_EOC" "fat32_next_cluster s v x = Some c'" "fat_chain s v c' cs"
    using Cons.prems(1) by (auto simp: not_le)
  have cons: "chain_dirents s v (x # cs) = ?ds @ chain_dirents s v cs" by (simp add: chain_dirents_def)
  have un: "fat32_dir_loop (\<lambda>b. scan b (fat32_entries v)) s v c e cbuf =
      (case scan ?b (fat32_entries v) e of
         ScanEnd \<Rightarrow> Some None
       | ScanFound de \<Rightarrow> Some (Some de)
       | ScanNext e' \<Rightarrow> fat32_dir_loop (\<lambda>b. scan b (fat32_entries v)) s v c' e' ?b)"
    using x fat32_read_cluster [OF ok Cons.prems(2)]
    by (subst fat32_dir_loop.simps) (simp add: Let_def split: fat32_scan.split)
  show ?case
  proof (cases "pick e (visible_entries ?ds)")
    case (Some d)
    then show ?thesis
      unfolding un cons visible_append using scan_pick [OF Cons.prems(3), of ?b "fat32_entries v"] pick_append [OF Cons.prems(3)]
      by (simp add: Let_def)
  next
    case None
    note adv = fine_advance [OF Cons.prems(3) None]
    show ?thesis
    proof (cases "length (live_entries ?ds) < length ?ds")
      case True
      then show ?thesis
        unfolding un cons visible_append using None scan_pick [OF Cons.prems(3), of ?b "fat32_entries v"]
        by (simp add: Let_def)
    next
      case False
      then have "scan ?b (fat32_entries v) e = ScanNext (advance e (visible_entries ?ds))"
        using None scan_pick [OF Cons.prems(3), of ?b "fat32_entries v"] by (simp add: Let_def)
      then show ?thesis
        unfolding un cons visible_append
        using Cons.IH [OF x(4) length_cluster_bytes [OF ok] adv] pick_append [OF Cons.prems(3), of "visible_entries ?ds"] None False
        by simp
    qed
  qed
qed

end

definition nth_from :: "u32 \<Rightarrow> u32 \<Rightarrow> 'a list \<Rightarrow> 'a option" where
  "nth_from index e xs = (if unat index - unat e < length xs then Some (xs ! (unat index - unat e)) else None)"

lemma visible_Cons:
  "visible_entries (d # ds) = (if fd_name d ! 0 = 0 then [] else if fat32_visible d then d # visible_entries ds else visible_entries ds)"
  "live_entries (d # ds) = (if fd_name d ! 0 = 0 then [] else d # live_entries ds)"
  by (simp_all add: visible_entries_def live_entries_def)

lemma readdir_scan_pick:
  "e \<le> index \<Longrightarrow> fat32_readdir_scan buf index js e =
      (let ds = map (fat32_dirent_at buf) js in
       case nth_from index e (visible_entries ds) of
         Some d \<Rightarrow> ScanFound d
       | None \<Rightarrow> if length (live_entries ds) < length ds then ScanEnd else ScanNext (e + of_nat (length (visible_entries ds))))"
proof (induction buf index js e rule: fat32_readdir_scan.induct)
  case (1 buf index e)
  then show ?case by (simp add: nth_from_def visible_entries_def live_entries_def)
next
  case (2 buf index i js e)
  let ?d = "fat32_dirent_at buf i"
  consider "fd_name ?d ! 0 = 0" | "fd_name ?d ! 0 \<noteq> 0" "\<not> fat32_visible ?d" | "fd_name ?d ! 0 \<noteq> 0" "fat32_visible ?d" "e = index"
    | "fd_name ?d ! 0 \<noteq> 0" "fat32_visible ?d" "e \<noteq> index" by blast
  then show ?case
  proof cases
    case 4
    then have lt: "unat e < unat index" using 2(3) by (simp add: word_le_nat_alt le_less word_unat_eq_iff)
    then have e1: "unat (e + 1) = Suc (unat e)" using unat_plus_fits [of e 1 index] by simp
    have "e + 1 \<le> index" using lt e1 by (simp add: word_le_nat_alt)
    note IH = 2(2) [OF refl 4(1) _ 4(3) this]
    have "unat index - unat e = Suc (unat index - unat (e + 1))" using lt e1 by simp
    then show ?thesis using 4 IH by (simp add: visible_Cons Let_def nth_from_def add.assoc split: option.split)
  qed (use 2 in \<open>simp_all add: visible_Cons Let_def nth_from_def visible_entries_def live_entries_def\<close>)
qed

interpretation readdir: dir_scan "\<lambda>buf js e. fat32_readdir_scan buf index js e" "nth_from index" "\<lambda>e xs. e + of_nat (length xs)" "\<lambda>e. e \<le> index"
  for index
proof (unfold_locales, goal_cases)
  case (1 e buf js)
  then show ?case by (rule readdir_scan_pick)
next
  case (2 e xs ys)
  show ?case
  proof (cases "unat index - unat e < length xs")
    case False
    then have "unat e + length xs \<le> unat index" using 2 by (simp add: word_le_nat_alt)
    then show ?thesis using False unat_plus_fits [of e "length xs" index] by (auto simp: nth_from_def nth_append)
  qed (simp add: nth_from_def nth_append)
next
  case (4 e xs)
  then have "unat e + length xs \<le> unat index" by (simp add: word_le_nat_alt nth_from_def split: if_splits)
  then show ?case using unat_plus_fits [of e "length xs" index] by (simp add: word_le_nat_alt)
qed (simp add: nth_from_def)

definition find_name :: "cstr \<Rightarrow> fat32_dirent list \<Rightarrow> fat32_dirent option" where
  "find_name name = find (\<lambda>d. strncmp (fat32_short_name d) name 12 = 0)"

lemma finddir_scan_pick:
  "fat32_finddir_scan True buf name js =
      (let ds = map (fat32_dirent_at buf) js in
       case find_name name (visible_entries ds) of
         Some d \<Rightarrow> ScanFound d
       | None \<Rightarrow> if length (live_entries ds) < length ds then ScanEnd else ScanNext 0)"
proof (induction js)
  case (Cons i js)
  then show ?case
    by (cases "fd_name (fat32_dirent_at buf i) ! 0 = 0"; cases "fat32_visible (fat32_dirent_at buf i)")
      (simp_all add: visible_Cons find_name_def Let_def)
qed (simp add: visible_entries_def live_entries_def find_name_def)

lemma find_append: "find P (xs @ ys) = (case find P xs of Some x \<Rightarrow> Some x | None \<Rightarrow> find P ys)"
  by (induction xs) simp_all

interpretation finddir: dir_scan "\<lambda>buf js e. fat32_finddir_scan True buf name js" "\<lambda>e. find_name name" "\<lambda>e xs. 0" "\<lambda>e. True"
  for name
  by unfold_locales (simp_all add: finddir_scan_pick find_name_def find_append Let_def split: option.split)

text \<open>on a readable volume, \<open>readdir\<close> with index \<open>i\<close> returns the \<open>i\<close>-th entry of the directory that is not deleted,
  no long name and no volume label, and no entry past the last one.\<close>

theorem fat32_readdir_lists:
  assumes "fat32_vol_ok (fw_data w) v" "ft_inodes (fw_data w) (vn_fs_data (fw_nodes w ! n)) = Some ino"
    "ft_vols (fw_data w) (fi_vol ino) = Some v" "fat_chain (fw_data w) v (fi_first_cluster ino) cs"
    "ft_heap (fw_data w) (fv_bytes_per_cluster v) = Some blk" "length blk = unat (fv_bytes_per_cluster v)"
  shows "fat32_readdir n index out w =
    (let vs = visible_entries (chain_dirents (fw_data w) v cs) in
     Some (if unat index < length vs then
             let d = vs ! unat index in
             Some (out\<lparr>de_name := put_at (de_name out) 0 (strncpy (fat32_short_name d) 255), de_inode := fat32_first_cluster d,
                     de_type := ucast (fat32_flags d)\<rparr>)
           else None))"
  using readdir.dir_loop [OF assms(1,4,6), of 0 index] assms(2,3,5)
  by (simp add: fat32_readdir_def nth_from_def Let_def)

text \<open>Looking a name up compares 12 characters of it: the first visible entry whose short name agrees so far.\<close>

lemma fat32_finddir_spec:
  assumes "fat32_vol_ok (fw_data w) v" "ft_inodes (fw_data w) (vn_fs_data (fw_nodes w ! n)) = Some ino"
    "ft_vols (fw_data w) (fi_vol ino) = Some v" "fat_chain (fw_data w) v (fi_first_cluster ino) cs"
    "ft_heap (fw_data w) (fv_bytes_per_cluster v) = Some blk" "length blk = unat (fv_bytes_per_cluster v)"
    "ft_heap (fw_data w) FAT32_INODE_BYTES \<noteq> None" "ft_heap (fw_data w) VFS_NODE_BYTES \<noteq> None"
  shows "fat32_finddir self n name w =
    Some (case find_name name (visible_entries (chain_dirents (fw_data w) v cs)) of
            None \<Rightarrow> (None, w)
          | Some d \<Rightarrow>
              let (k, w') = fat32_new_node (strncpy (fat32_short_name d) 255) (fd_file_size d) (fat32_flags d) self
                \<lparr>fi_vol = fi_vol ino, fi_first_cluster = fat32_first_cluster d, fi_file_size = fd_file_size d\<rparr> w
              in (Some k, w'))"
  using finddir.dir_loop [OF assms(1,4,6), where e = 0 and name = name] assms(2,3,5,7,8)
  by (simp add: fat32_finddir_def Let_def split: option.split)

text \<open>A name of more than 12 characters is found under its first 12.\<close>

lemma fat32_long_name_matches:
  "strncmp (asc ''abcdefgh.txt'') (asc ''abcdefgh.txt.old'') 12 = 0"
  by code_simp

text \<open>A volume whose clusters have no sectors passes the checks of \<open>mount\<close>; reading any of its files divides by 0.\<close>

lemma fat32_no_sectors:
  assumes "ft_inodes (fw_data w) (vn_fs_data (fw_nodes w ! n)) = Some ino" "ft_vols (fw_data w) (fi_vol ino) = Some v"
    "fv_bytes_per_cluster v = 0" "off < fi_file_size ino"
  shows "fat32_read n off sz w = None"
  using assms by (simp add: fat32_read_def linorder_not_le [symmetric])

text \<open>A cluster chain that runs into a cycle without a terminating entry keeps \<open>readdir\<close> in its loop.\<close>

lemma fat32_dir_cycle_hangs:
  assumes ok: "fat32_vol_ok s v" and c: "c < FAT32_EOC" "fat32_next_cluster s v c = Some c"
    and scan: "\<And>e. \<exists>e'. scan (cluster_bytes s v c) e = ScanNext e'"
    and len: "length cbuf = unat (fv_bytes_per_cluster v)"
  shows "fat32_dir_loop scan s v c e cbuf = None"
proof (cases "fat32_dir_loop scan s v c e cbuf")
  case (Some r)
  have "sc = scan \<and> s' = s \<and> v' = v \<and> c' = c \<longrightarrow> length cb = unat (fv_bytes_per_cluster v) \<longrightarrow> False"
    if "fat32_dir_loop sc s' v' c' e' cb = Some r'" for sc s' v' c' e' cb r'
    using that
  proof (rule fat32_dir_loop.raw_induct [where P = "\<lambda>sc s' v' c' e' cb r'. sc = scan \<and> s' = s \<and> v' = v \<and> c' = c \<longrightarrow>
      length cb = unat (fv_bytes_per_cluster v) \<longrightarrow> False", rotated], goal_cases)
    case (1 loop sc s' v' c' e' cb r')
    show ?case
    proof (intro impI)
      assume eq: "sc = scan \<and> s' = s \<and> v' = v \<and> c' = c" and l: "length cb = unat (fv_bytes_per_cluster v)"
      then have e: "sc = scan" "s' = s" "v' = v" "c' = c" by simp_all
      obtain e'' where "scan (cluster_bytes s v c) e' = ScanNext e''" using scan by blast
      then have "loop scan s v c e'' (cluster_bytes s v c) = Some r'"
        using 1(2) [unfolded e] c fat32_read_cluster [OF ok l] by (simp add: Let_def linorder_not_le [symmetric])
      then show False using 1(1) [of scan s v c e'' "cluster_bytes s v c" r'] length_cluster_bytes [OF ok] by simp
    qed
  qed
  then show ?thesis using Some len by blast
qed

section \<open>A small volume\<close>

text \<open>One sector to a cluster, a table of one sector, a root directory in cluster 2 with the file \<open>A.TXT\<close> of 600 bytes
  in the clusters 3 and 4.\<close>

definition fat_demo_table :: "u8 list" where
  "fat_demo_table = concat (map bytes32 [0, 0, 0x0FFFFFFF, 4, 0x0FFFFFFF]) @ replicate 492 0"

definition fat_demo_root :: "u8 list" where
  "fat_demo_root = asc ''A       TXT'' @ [0x20] @ replicate 14 0 @ bytes16 3 @ bytes32 600 @ replicate 480 0"

definition fat_demo_vol :: fat32_vol where
  "fat_demo_vol = \<lparr>fv_drive = 0, fv_fat_start = 1, fv_data_start = 2, fv_sectors_per_cluster = 1, fv_bytes_per_cluster = 512,
     fv_root_cluster = 2, fv_bytes_per_sector = 512\<rparr>"

definition fat_demo :: fat32 where
  "fat_demo = \<lparr>ft_ide = \<lparr>ide_drives = [\<lparr>dr_exists = True, dr_base = 0x1F0, dr_ctrl = 0x3F6, dr_drive = 0, dr_channel = 0, dr_lba28 = 100, dr_model = []\<rparr>],
       ide_count = 1, ide_sectors = (\<lambda>d l. if l = 1 then fat_demo_table else if l = 2 then fat_demo_root else if l = 3 then replicate 512 65
         else replicate 512 66)\<rparr>,
     ft_fault = (\<lambda>_. None), ft_heap = (\<lambda>n. Some (replicate (unat n) 0)), ft_vols = [0 \<mapsto> fat_demo_vol],
     ft_inodes = [1 \<mapsto> \<lparr>fi_vol = 0, fi_first_cluster = 2, fi_file_size = 0\<rparr>, 2 \<mapsto> \<lparr>fi_vol = 0, fi_first_cluster = 3, fi_file_size = 600\<rparr>],
     ft_next = 3\<rparr>"

definition fat_demo_world :: fat32_world where
  "fat_demo_world = \<lparr>fw_nodes = [node_zero\<lparr>vn_fs_data := 1\<rparr>, node_zero\<lparr>vn_fs_data := 2\<rparr>], fw_data = fat_demo\<rparr>"

lemma fat_demo_ok: "fat32_vol_ok fat_demo fat_demo_vol"
  by (simp add: fat32_vol_ok_def fat_demo_vol_def fat_demo_def fat_demo_table_def fat_demo_root_def asc_def ide_has_def IDE_MAX_DRIVES_def)

lemma fat_demo_chains:
  "fat_chain fat_demo fat_demo_vol 3 [3, 4]" "fat_chain fat_demo fat_demo_vol 2 [2]"
proof -
  have "fat32_next_cluster fat_demo fat_demo_vol 3 = Some 4" "fat32_next_cluster fat_demo fat_demo_vol 4 = Some 0x0FFFFFFF"
    "fat32_next_cluster fat_demo fat_demo_vol 2 = Some 0x0FFFFFFF" by code_simp+
  then show "fat_chain fat_demo fat_demo_vol 3 [3, 4]" "fat_chain fat_demo fat_demo_vol 2 [2]"
    by (simp_all add: FAT32_EOC_def)
qed

lemma fat_demo_sector: "disk_bytes (ft_ide fat_demo) 0 (512 * l) 512 = ide_sectors (ft_ide fat_demo) 0 (of_nat l)"
  by (rule disk_bytes_sector) (simp add: fat_demo_def fat_demo_table_def fat_demo_root_def asc_def)

lemma fat_demo_entries: "fat_entry fat_demo fat_demo_vol 3 = 4" "fat_entry fat_demo fat_demo_vol 4 = 0x0FFFFFFF"
proof -
  have t: "disk_bytes (ft_ide fat_demo) 0 512 512 = fat_demo_table"
    using fat_demo_sector [of 1] by (simp add: fat_demo_def)
  have "get32 fat_demo_table 12 = 4" "get32 fat_demo_table 16 = 0x0FFFFFFF" by code_simp+
  then have "disk_word (ft_ide fat_demo) 0 524 = 4" "disk_word (ft_ide fat_demo) 0 528 = 0x0FFFFFFF"
    using get32_disk [of 12 512 "ft_ide fat_demo" 0 512] get32_disk [of 16 512 "ft_ide fat_demo" 0 512] by (simp_all add: t)
  then show "fat_entry fat_demo fat_demo_vol 3 = 4" "fat_entry fat_demo fat_demo_vol 4 = 0x0FFFFFFF"
    by (simp_all add: fat_entry_def fat_demo_vol_def)
qed

lemma fat_demo_file:
  "fat_file fat_demo fat_demo_vol 3 [3, 4]" "concat (map (cluster_data fat_demo fat_demo_vol) [3, 4]) = replicate 512 65 @ replicate 512 66"
proof -
  show "fat_file fat_demo fat_demo_vol 3 [3, 4]" using fat_demo_entries by simp (simp add: fat_demo_vol_def)
  from fat_demo_sector [of 3] fat_demo_sector [of 4]
  show "concat (map (cluster_data fat_demo fat_demo_vol) [3, 4]) = replicate 512 65 @ replicate 512 66"
    by (simp add: cluster_data_def fat_demo_vol_def) (simp add: fat_demo_def)
qed

lemma fat_demo_fields:
  "ft_inodes (fw_data fat_demo_world) (vn_fs_data (fw_nodes fat_demo_world ! 0)) = Some \<lparr>fi_vol = 0, fi_first_cluster = 2, fi_file_size = 0\<rparr>"
  "ft_inodes (fw_data fat_demo_world) (vn_fs_data (fw_nodes fat_demo_world ! 1)) = Some \<lparr>fi_vol = 0, fi_first_cluster = 3, fi_file_size = 600\<rparr>"
  "ft_vols (fw_data fat_demo_world) 0 = Some fat_demo_vol" "fw_data fat_demo_world = fat_demo"
  "ft_heap (fw_data fat_demo_world) (fv_bytes_per_cluster fat_demo_vol) = Some (replicate 512 0)"
  by (simp_all add: fat_demo_world_def fat_demo_def fat_demo_vol_def)

theorem fat32_read_correct_witness: "fat32_read 1 510 4 fat_demo_world = Some (4, [65, 65, 66, 66])"
proof -
  have cut: "take 4 (drop 510 (take 600 (replicate 512 65 @ replicate 512 66))) = [65, 65, 66, 66 :: u8]"
    by (simp add: drop_replicate numeral_eq_Suc)
  have off: "unat (510 :: u32) = 510" "unat (4 :: u32) = 4" "unat (600 :: u32) = 600" by simp_all
  define ino where "ino = \<lparr>fi_vol = 0, fi_first_cluster = 3 :: u32, fi_file_size = 600 :: u32\<rparr>"
  have "fat32_read 1 510 4 fat_demo_world =
      (let b = take (unat (4 :: u32)) (drop (unat (510 :: u32)) (take (unat (fi_file_size ino))
         (concat (map (cluster_data (fw_data fat_demo_world) fat_demo_vol) [3, 4])))) in Some (int (length b), b))"
  proof (rule fat32_read_correct [where blk = "replicate 512 0"])
    show "ft_inodes (fw_data fat_demo_world) (vn_fs_data (fw_nodes fat_demo_world ! 1)) = Some ino"
      unfolding fat_demo_fields(2) ino_def ..
    show "length (replicate 512 (0 :: u8)) = unat (fv_bytes_per_cluster fat_demo_vol)" by (simp add: fat_demo_vol_def)
    show "ft_vols (fw_data fat_demo_world) (fi_vol ino) = Some fat_demo_vol"
      "ft_heap (fw_data fat_demo_world) (fv_bytes_per_cluster fat_demo_vol) = Some (replicate 512 0)"
      using fat_demo_fields(3,5) by (simp_all add: ino_def)
    show "fat_file (fw_data fat_demo_world) fat_demo_vol (unat (fi_first_cluster ino)) [3, 4]"
      using fat_demo_file(1) by (simp add: ino_def fat_demo_fields(4) del: fat_file.simps)
  qed (simp_all only: fat_demo_fields(4) fat_demo_ok fat_demo_file(2) ino_def fat32_inode.simps off, simp_all)
  then show ?thesis by (simp only: fat_demo_fields(4) fat_demo_file(2) ino_def fat32_inode.simps off cut Let_def) simp
qed

lemma fat_demo_dirents:
  "fat32_dirent_at fat_demo_root 0 =
     \<lparr>fd_name = asc ''A       '', fd_ext = asc ''TXT'', fd_attrib = 0x20, fd_cluster_high = 0, fd_cluster_low = 3, fd_file_size = 600\<rparr>"
  "fd_name (fat32_dirent_at fat_demo_root 1) ! 0 = 0"
  by code_simp+

lemma fat_demo_visible:
  "visible_entries (chain_dirents fat_demo fat_demo_vol [2]) =
     [\<lparr>fd_name = asc ''A       '', fd_ext = asc ''TXT'', fd_attrib = 0x20, fd_cluster_high = 0, fd_cluster_low = 3, fd_file_size = 600\<rparr>]"
proof -
  have "cluster_bytes fat_demo fat_demo_vol 2 = fat_demo_root"
    by (simp add: cluster_bytes_def fat_demo_vol_def fat_demo_def cluster_to_lba_def)
  moreover have "fat32_entries fat_demo_vol = 0 # 1 # [2..<16]"
    by (simp add: fat32_entries_def fat_demo_vol_def FAT32_DIRENT_BYTES_def upt_conv_Cons)
  ultimately have c: "chain_dirents fat_demo fat_demo_vol [2] =
      fat32_dirent_at fat_demo_root 0 # fat32_dirent_at fat_demo_root 1 # map (fat32_dirent_at fat_demo_root) [2..<16]"
    by (simp add: chain_dirents_def)
  show ?thesis unfolding c using fat_demo_dirents(2)
    by (simp add: visible_Cons fat_demo_dirents(1) asc_def fat32_visible_def FAT32_ATTR_LFN_def FAT32_ATTR_VOLUME_ID_def)
qed

theorem fat32_readdir_lists_witness:
  "\<exists>d. fat32_readdir 0 0 \<lparr>de_name = replicate 256 0, de_inode = 0, de_type = 0\<rparr> fat_demo_world = Some (Some d) \<and> de_inode d = 3"
proof -
  have "fat32_vol_ok (fw_data fat_demo_world) fat_demo_vol" "fat_chain (fw_data fat_demo_world) fat_demo_vol 2 [2]"
    using fat_demo_ok fat_demo_chains(2) by (simp_all only: fat_demo_fields(4))
  then have "fat32_readdir 0 0 out fat_demo_world =
    (let vs = visible_entries (chain_dirents (fw_data fat_demo_world) fat_demo_vol [2]) in
     Some (if unat (0 :: u32) < length vs then
             let d = vs ! unat (0 :: u32) in
             Some (out\<lparr>de_name := put_at (de_name out) 0 (strncpy (fat32_short_name d) 255), de_inode := fat32_first_cluster d,
                     de_type := ucast (fat32_flags d)\<rparr>)
           else None))" for out
    using fat32_readdir_lists [OF _ fat_demo_fields(1), of fat_demo_vol "[2]" "replicate 512 0" 0 out] fat_demo_fields
    by (simp add: fat_demo_vol_def [THEN arg_cong, of fv_bytes_per_cluster] del: fat_chain.simps)
  then show ?thesis unfolding fat_demo_fields(4) fat_demo_visible by (simp add: fat32_first_cluster_def Let_def)
qed

end
