(* ===== verification/Ext2.thy ===== *)
theory Ext2
  imports Vfs Ide
begin

text \<open>
  The ext2 file system (\<open>fs/ext2.c\<close>), read-only, over the disk model of \<open>Ide\<close>. A mount is a slot of the table
  \<open>mounts\<close>, addressed by its index plus one (0 is \<open>NULL\<close>). What \<open>kmalloc\<close> hands out is the function \<open>ex_heap\<close>;
  \<open>ex_fault\<close> tells which reads the drive fails. The result \<open>None\<close> is a division by zero or an access outside a buffer.
\<close>

section \<open>State\<close>

definition EXT2_MAGIC :: u16 where "EXT2_MAGIC = 0xEF53"
definition EXT2_S_IFDIR :: u16 where "EXT2_S_IFDIR = 0x4000"
definition EXT2_MAX_MOUNTS :: nat where "EXT2_MAX_MOUNTS = 4"
definition EXT2_INODE_BYTES :: nat where "EXT2_INODE_BYTES = 128"
definition EXT2_BGD_BYTES :: u32 where "EXT2_BGD_BYTES = 32"

record ext2_mount =
  em_used :: bool
  em_block_size :: u32
  em_inodes_per_group :: u32
  em_inode_size :: u32
  em_first_data_block :: u32
  em_num_groups :: u32
  em_bgdt :: "u8 list"

record ext2_inode =
  ei_mode :: u16
  ei_size :: u32
  ei_block :: "u32 list"

record ext2 =
  ex_ide :: ide_state
  ex_fault :: "u32 \<Rightarrow> nat option"
  ex_heap :: "u32 \<Rightarrow> u8 list option"
  ex_mounts :: "ext2_mount list"

type_synonym ext2_world = "ext2 fs_world"

definition ext2_inode_at :: "u8 list \<Rightarrow> ext2_inode" where
  "ext2_inode_at b = \<lparr>ei_mode = get16 b 0, ei_size = get32 b 4, ei_block = map (\<lambda>i. get32 b (40 + 4 * i)) [0..<15]\<rparr>"

section \<open>Blocks and inodes\<close>

fun ext2_read_loop :: "ext2 \<Rightarrow> u32 \<Rightarrow> nat list \<Rightarrow> u8 list \<Rightarrow> int \<times> u8 list" where
  "ext2_read_loop s lba [] buf = (0, buf)"
| "ext2_read_loop s lba (i # is) buf =
     (let (r, bytes) = ide_read (ex_fault s (lba + of_nat i)) 0 (lba + of_nat i) 1 (ex_ide s); buf = put_at buf (i * 512) bytes
      in if r \<noteq> 0 then (- 1, buf) else ext2_read_loop s lba is buf)"

definition ext2_read_block :: "ext2 \<Rightarrow> ext2_mount \<Rightarrow> u32 \<Rightarrow> u8 list \<Rightarrow> int \<times> u8 list" where
  "ext2_read_block s m block_nr buf =
     (let byte_off = block_nr * em_block_size m; lba_start = byte_off div 512; sectors = em_block_size m div 512
      in ext2_read_loop s lba_start [0..<unat sectors] buf)"

text \<open>\<open>Some None\<close> is the result \<open>-1\<close>.\<close>

definition ext2_read_inode :: "ext2 \<Rightarrow> ext2_mount \<Rightarrow> u32 \<Rightarrow> ext2_inode option option" where
  "ext2_read_inode s m ino =
     (if ino = 0 then Some None
      else if em_inodes_per_group m = 0 then None
      else
        let group = (ino - 1) div em_inodes_per_group m; index = (ino - 1) mod em_inodes_per_group m in
        if group \<ge> em_num_groups m then Some None
        else if em_inode_size m = 0 \<or> em_block_size m div em_inode_size m = 0 \<or> unat group * 32 + 12 > length (em_bgdt m) then None
        else
          let inode_table_block = get32 (em_bgdt m) (unat group * 32 + 8);
              inodes_per_block = em_block_size m div em_inode_size m;
              block_off = index div inodes_per_block; block_idx = index mod inodes_per_block
          in case ex_heap s (em_block_size m) of
               None \<Rightarrow> Some None
             | Some buf \<Rightarrow>
                 let (r, buf) = ext2_read_block s m (inode_table_block + block_off) buf in
                 if r \<noteq> 0 then Some None
                 else if unat (block_idx * em_inode_size m) + EXT2_INODE_BYTES > length buf then None
                 else Some (Some (ext2_inode_at (drop (unat (block_idx * em_inode_size m)) buf))))"

text \<open>A block of pointers: the number of its \<open>i\<close>-th entry.\<close>

definition ext2_pointer :: "u8 list \<Rightarrow> u32 \<Rightarrow> u32" where
  "ext2_pointer b i = get32 b (4 * unat i)"

definition ext2_read_inode_block :: "ext2 \<Rightarrow> ext2_mount \<Rightarrow> ext2_inode \<Rightarrow> u32 \<Rightarrow> u8 list \<Rightarrow> int \<times> u8 list" where
  "ext2_read_inode_block s m ino block_idx buf =
     (if block_idx < 12 then ext2_read_block s m (ei_block ino ! unat block_idx) buf
      else
        let ptrs_per_block = em_block_size m div 4; indirect_end = 12 + ptrs_per_block in
        if block_idx < indirect_end then
          (case ex_heap s (em_block_size m) of
             None \<Rightarrow> (- 1, buf)
           | Some ind \<Rightarrow>
               let (r, ind) = ext2_read_block s m (ei_block ino ! 12) ind in
               if r \<noteq> 0 then (- 1, buf)
               else ext2_read_block s m (ext2_pointer ind (block_idx - 12)) buf)
        else if block_idx < indirect_end + ptrs_per_block * ptrs_per_block then
          (case ex_heap s (em_block_size m) of
             None \<Rightarrow> (- 1, buf)
           | Some blk \<Rightarrow>
               let (r, l1) = ext2_read_block s m (ei_block ino ! 13) blk in
               if r \<noteq> 0 then (- 1, buf)
               else
                 let rel = block_idx - indirect_end; idx1 = rel div ptrs_per_block; idx2 = rel mod ptrs_per_block;
                     (r, l2) = ext2_read_block s m (ext2_pointer l1 idx1) blk
                 in if r \<noteq> 0 then (- 1, buf)
                    else ext2_read_block s m (ext2_pointer l2 idx2) buf)
        else (- 1, buf))"

section \<open>Reading a file\<close>

definition ext2_chunk :: "ext2_mount \<Rightarrow> u32 \<Rightarrow> u32 \<Rightarrow> u32 \<Rightarrow> u32" where
  "ext2_chunk m offset sz bytes_read =
     (let block_off = (offset + bytes_read) mod em_block_size m; can_read = em_block_size m - block_off
      in if can_read > sz - bytes_read then sz - bytes_read else can_read)"

lemma ext2_chunk_bounds:
  assumes "em_block_size m \<noteq> 0" "bytes_read < sz"
  shows "0 < unat (ext2_chunk m offset sz bytes_read)" "unat bytes_read + unat (ext2_chunk m offset sz bytes_read) \<le> unat sz"
    "unat (bytes_read + ext2_chunk m offset sz bytes_read) = unat bytes_read + unat (ext2_chunk m offset sz bytes_read)"
proof -
  let ?b = "em_block_size m" and ?c = "ext2_chunk m offset sz bytes_read"
  have p: "0 < unat ?b" using assms(1) by (simp add: unat_gt_0)
  have "unat ((offset + bytes_read) mod ?b) < unat ?b" using p by (simp only: unat_mod mod_less_divisor)
  then have s1: "unat (?b - (offset + bytes_read) mod ?b) = unat ?b - unat ((offset + bytes_read) mod ?b)"
    by (intro unat_sub) (simp add: word_le_nat_alt)
  have s2: "unat (sz - bytes_read) = unat sz - unat bytes_read" using assms(2) by (simp add: unat_sub word_le_nat_alt word_less_nat_alt)
  show a: "0 < unat ?c" using s1 s2 assms(2) \<open>unat ((offset + bytes_read) mod ?b) < unat ?b\<close>
    by (simp add: ext2_chunk_def Let_def word_less_nat_alt)
  have "unat ?c \<le> unat (sz - bytes_read)" by (auto simp: ext2_chunk_def Let_def word_less_nat_alt)
  then show b: "unat bytes_read + unat ?c \<le> unat sz" using s2 assms(2) by (simp add: word_less_nat_alt)
  show "unat (bytes_read + ?c) = unat bytes_read + unat ?c" using unat_plus_fits [of bytes_read "unat ?c" sz] b by simp
qed

function ext2_copy_loop :: "ext2 \<Rightarrow> ext2_mount \<Rightarrow> ext2_inode \<Rightarrow> u32 \<Rightarrow> u32 \<Rightarrow> u32 \<Rightarrow> u8 list \<Rightarrow> u8 list \<Rightarrow> u8 list option" where
  "ext2_copy_loop s m ino offset sz bytes_read bbuf out =
     (if \<not> bytes_read < sz then Some out
      else if em_block_size m = 0 then None
      else
        let file_off = offset + bytes_read; block_idx = file_off div em_block_size m; block_off = file_off mod em_block_size m;
            can_read = ext2_chunk m offset sz bytes_read;
            (r, bbuf) = ext2_read_inode_block s m ino block_idx bbuf
        in if r \<noteq> 0 then Some out
           else ext2_copy_loop s m ino offset sz (bytes_read + can_read) bbuf (out @ take (unat can_read) (drop (unat block_off) bbuf)))"
  by pat_completeness auto

termination
proof (relation "measure (\<lambda>(s, m, ino, offset, sz, n, bbuf, out). unat sz - unat n)", goal_cases)
  case (2 s m ino offset sz n bbuf out)
  then show ?case using ext2_chunk_bounds [of m n sz offset] by (simp add: word_less_nat_alt)
qed simp

declare ext2_copy_loop.simps [simp del]

definition ext2_mount_of :: "ext2 \<Rightarrow> nat \<Rightarrow> ext2_mount option" where
  "ext2_mount_of s a = (if a = 0 then None else Some (ex_mounts s ! (a - 1)))"

definition ext2_vfs_read :: "nat \<Rightarrow> u32 \<Rightarrow> u32 \<Rightarrow> ext2_world \<Rightarrow> (int \<times> u8 list) option" where
  "ext2_vfs_read n offset sz w =
     (let s = fw_data w in
      case ext2_mount_of s (vn_fs_data (fw_nodes w ! n)) of
        None \<Rightarrow> Some (- 1, [])
      | Some m \<Rightarrow>
          (case ext2_read_inode s m (vn_inode (fw_nodes w ! n)) of
             None \<Rightarrow> None
           | Some None \<Rightarrow> Some (- 1, [])
           | Some (Some ino) \<Rightarrow>
               if offset \<ge> ei_size ino then Some (0, [])
               else
                 let sz = (if offset + sz > ei_size ino then ei_size ino - offset else sz) in
                 case ex_heap s (em_block_size m) of
                   None \<Rightarrow> Some (- 1, [])
                 | Some bbuf \<Rightarrow> map_option (\<lambda>out. (sint (of_nat (length out) :: u32), out)) (ext2_copy_loop s m ino offset sz 0 bbuf [])))"

section \<open>Directories\<close>

record ext2_dirent =
  ed_inode :: u32
  ed_rec_len :: u16
  ed_file_type :: u8
  ed_name :: "u8 list"

text \<open>The entry at a place of a block, with the \<open>nlen\<close> bytes of its name; none when it extends past the block.\<close>

definition ext2_dirent_at :: "u8 list \<Rightarrow> nat \<Rightarrow> ext2_dirent option" where
  "ext2_dirent_at b pos =
     (if pos + 8 > length b then None
      else
        let nlen = min (unat (b ! (pos + 6))) 255 in
        if pos + 8 + nlen > length b then None
        else Some \<lparr>ed_inode = get32 b pos, ed_rec_len = get16 b (pos + 4), ed_file_type = b ! (pos + 7), ed_name = take nlen (drop (pos + 8) b)\<rparr>)"

text \<open>What the loop over the entries of one block ends with.\<close>

datatype 'a ext2_scan = EScanStop 'a | EScanNext u32

function ext2_readdir_scan :: "u8 list \<Rightarrow> u32 \<Rightarrow> nat \<Rightarrow> u32 \<Rightarrow> ext2_dirent ext2_scan option" where
  "ext2_readdir_scan b idx pos entry_count =
     (if pos \<ge> length b then Some (EScanNext entry_count)
      else case ext2_dirent_at b pos of
        None \<Rightarrow> None
      | Some de \<Rightarrow>
          if ed_rec_len de = 0 then Some (EScanNext entry_count)
          else if ed_inode de \<noteq> 0 then
            (if entry_count = idx then Some (EScanStop de)
             else ext2_readdir_scan b idx (pos + unat (ed_rec_len de)) (entry_count + 1))
          else ext2_readdir_scan b idx (pos + unat (ed_rec_len de)) entry_count)"
  by pat_completeness auto

termination
  by (relation "measure (\<lambda>(b, idx, pos, n). length b - pos)") (auto simp: unat_gt_0 diff_less_mono2)

declare ext2_readdir_scan.simps [simp del]

text \<open>The entry \<open>finddir\<close> stops at: the first in use whose name is the one looked for.\<close>

definition ext2_name_matches :: "cstr \<Rightarrow> ext2_dirent \<Rightarrow> bool" where
  "ext2_name_matches name de \<longleftrightarrow> strncmp (ed_name de) name (length (ed_name de)) = 0 \<and> chr (drop (length (ed_name de)) name) = 0"

function ext2_finddir_scan :: "u8 list \<Rightarrow> cstr \<Rightarrow> nat \<Rightarrow> ext2_dirent ext2_scan option" where
  "ext2_finddir_scan b name pos =
     (if pos \<ge> length b then Some (EScanNext 0)
      else case ext2_dirent_at b pos of
        None \<Rightarrow> None
      | Some de \<Rightarrow>
          if ed_rec_len de = 0 then Some (EScanNext 0)
          else if ed_inode de \<noteq> 0 \<and> ext2_name_matches name de then Some (EScanStop de)
          else ext2_finddir_scan b name (pos + unat (ed_rec_len de)))"
  by pat_completeness auto

termination
  by (relation "measure (\<lambda>(b, name, pos). length b - pos)") (auto simp: unat_gt_0 diff_less_mono2)

declare ext2_finddir_scan.simps [simp del]

text \<open>The loop over the direct blocks of a directory: \<open>visit\<close> handles one block and says how to go on.\<close>

fun ext2_dir_loop :: "(u8 list \<Rightarrow> u32 \<Rightarrow> 'a ext2_scan option) \<Rightarrow> ext2 \<Rightarrow> ext2_mount \<Rightarrow> ext2_inode \<Rightarrow> nat list \<Rightarrow> u32 \<Rightarrow> u8 list \<Rightarrow> 'a option option" where
  "ext2_dir_loop visit s m ino [] entry_count bbuf = Some None"
| "ext2_dir_loop visit s m ino (bi # bis) entry_count bbuf =
     (if ei_block ino ! bi = 0 then Some None
      else
        let (r, bbuf) = ext2_read_inode_block s m ino (of_nat bi) bbuf in
        if r \<noteq> 0 then Some None
        else case visit bbuf entry_count of
               None \<Rightarrow> None
             | Some (EScanStop x) \<Rightarrow> Some (Some x)
             | Some (EScanNext n) \<Rightarrow> ext2_dir_loop visit s m ino bis n bbuf)"

definition ext2_type :: "ext2_dirent \<Rightarrow> u32" where
  "ext2_type de = (if ed_file_type de = 2 then VFS_DIR else VFS_FILE)"

definition ext2_vfs_readdir :: "nat \<Rightarrow> u32 \<Rightarrow> vfs_dirent \<Rightarrow> ext2_world \<Rightarrow> vfs_dirent option option" where
  "ext2_vfs_readdir n idx out w =
     (let s = fw_data w in
      case ext2_mount_of s (vn_fs_data (fw_nodes w ! n)) of
        None \<Rightarrow> Some None
      | Some m \<Rightarrow>
          (case ext2_read_inode s m (vn_inode (fw_nodes w ! n)) of
             None \<Rightarrow> None
           | Some None \<Rightarrow> Some None
           | Some (Some ino) \<Rightarrow>
               if ei_mode ino AND EXT2_S_IFDIR = 0 then Some None
               else case ex_heap s (em_block_size m) of
                      None \<Rightarrow> Some None
                    | Some bbuf \<Rightarrow>
                        map_option (map_option (\<lambda>de. out\<lparr>de_name := put_at (de_name out) 0 (ed_name de @ [0]), de_inode := ed_inode de,
                                                         de_type := ucast (ext2_type de)\<rparr>))
                          (ext2_dir_loop (\<lambda>b n. ext2_readdir_scan b idx 0 n) s m ino [0..<12] 0 bbuf)))"

text \<open>At a hit the inode is loaded and a node allocated; when either fails the search goes on in the next block.
  \<open>can\<close> tells whether the heap has room for a node.\<close>

definition ext2_finddir_visit :: "ext2 \<Rightarrow> ext2_mount \<Rightarrow> bool \<Rightarrow> cstr \<Rightarrow> u8 list \<Rightarrow> u32 \<Rightarrow> (ext2_dirent \<times> ext2_inode) ext2_scan option" where
  "ext2_finddir_visit s m can name b n =
     (case ext2_finddir_scan b name 0 of
        None \<Rightarrow> None
      | Some (EScanNext k) \<Rightarrow> Some (EScanNext k)
      | Some (EScanStop de) \<Rightarrow>
          (case ext2_read_inode s m (ed_inode de) of
             None \<Rightarrow> None
           | Some None \<Rightarrow> Some (EScanNext 0)
           | Some (Some child) \<Rightarrow> if can then Some (EScanStop (de, child)) else Some (EScanNext 0)))"

definition EXT2_NODE_BYTES :: u32 where "EXT2_NODE_BYTES = 308"

definition ext2_vfs_finddir :: "nat \<Rightarrow> nat \<Rightarrow> cstr \<Rightarrow> ext2_world \<Rightarrow> (nat option \<times> ext2_world) option" where
  "ext2_vfs_finddir self n name w =
     (let s = fw_data w; fd = vn_fs_data (fw_nodes w ! n) in
      case ext2_mount_of s fd of
        None \<Rightarrow> Some (None, w)
      | Some m \<Rightarrow>
          (case ext2_read_inode s m (vn_inode (fw_nodes w ! n)) of
             None \<Rightarrow> None
           | Some None \<Rightarrow> Some (None, w)
           | Some (Some ino) \<Rightarrow>
               (case ex_heap s (em_block_size m) of
                  None \<Rightarrow> Some (None, w)
                | Some bbuf \<Rightarrow>
                    map_option (\<lambda>hit. case hit of
                        None \<Rightarrow> (None, w)
                      | Some (de, child) \<Rightarrow>
                          (Some (length (fw_nodes w)),
                           w\<lparr>fw_nodes := fw_nodes w @ [node_zero\<lparr>vn_name := put_at (vn_name node_zero) 0 (strncpy name 255),
                                vn_inode := ed_inode de, vn_size := ei_size child, vn_flags := ext2_type de, vn_fs_data := fd, vn_ops := Some self\<rparr>]\<rparr>))
                      (ext2_dir_loop (ext2_finddir_visit s m (ex_heap s EXT2_NODE_BYTES \<noteq> None) name) s m ino [0..<12] 0 bbuf))))"

section \<open>Mounting\<close>

fun ext2_read_bgdt :: "ext2 \<Rightarrow> ext2_mount \<Rightarrow> u32 \<Rightarrow> nat list \<Rightarrow> u8 list \<Rightarrow> u8 list option" where
  "ext2_read_bgdt s m first [] tab = Some tab"
| "ext2_read_bgdt s m first (i # is) tab =
     (let b = unat (em_block_size m); (r, blk) = ext2_read_block s m (first + of_nat i) (take b (drop (i * b) tab))
      in if r \<noteq> 0 then None else ext2_read_bgdt s m first is (put_at tab (i * b) blk))"

definition set_ext2_mount :: "nat \<Rightarrow> ext2_mount \<Rightarrow> ext2_world \<Rightarrow> ext2_world" where
  "set_ext2_mount i m w = w\<lparr>fw_data := (fw_data w)\<lparr>ex_mounts := (ex_mounts (fw_data w))[i := m]\<rparr>\<rparr>"

definition ext2_vfs_mount :: "nat \<Rightarrow> cstr option \<Rightarrow> u32 \<Rightarrow> ext2_world \<Rightarrow> (nat option \<times> ext2_world) option" where
  "ext2_vfs_mount self device flags w =
     (let s = fw_data w in
      case find_idx (\<lambda>m. \<not> em_used m) (ex_mounts s) of
        None \<Rightarrow> Some (None, w)
      | Some i \<Rightarrow>
          let (r1, lo) = ide_read (ex_fault s 2) 0 2 1 (ex_ide s); (r2, hi) = ide_read (ex_fault s 3) 0 3 1 (ex_ide s); sb = lo @ hi in
          if r1 \<noteq> 0 \<or> r2 \<noteq> 0 then Some (None, w)
          else if get16 sb 56 \<noteq> EXT2_MAGIC then Some (None, w)
          else if unat (get32 sb 24) \<ge> 32 \<or> get32 sb 32 = 0 then None
          else
            let m = \<lparr>em_used = False, em_block_size = push_bit (unat (get32 sb 24)) 1024, em_inodes_per_group = get32 sb 40,
                  em_inode_size = (if get32 sb 76 \<ge> 1 then ucast (get16 sb 88) else 128), em_first_data_block = get32 sb 20,
                  em_num_groups = (get32 sb 4 + get32 sb 32 - 1) div get32 sb 32, em_bgdt = []\<rparr>;
                bs = em_block_size m; bgdt_size = em_num_groups m * EXT2_BGD_BYTES; w = set_ext2_mount i m w
            in if bs = 0 then None
               else
                 let bgdt_blocks = (bgdt_size + bs - 1) div bs in
                 case ex_heap s (bgdt_blocks * bs) of
                   None \<Rightarrow> Some (None, w)
                 | Some tab \<Rightarrow>
                     (case ext2_read_bgdt s m (em_first_data_block m + 1) [0..<unat bgdt_blocks] tab of
                        None \<Rightarrow> Some (None, w)
                      | Some tab \<Rightarrow>
                          let m = m\<lparr>em_used := True, em_bgdt := tab\<rparr>; off = set_ext2_mount i (m\<lparr>em_used := False\<rparr>) w; on = set_ext2_mount i m w in
                          (case ext2_read_inode s m 2 of
                             None \<Rightarrow> None
                           | Some None \<Rightarrow> Some (None, off)
                           | Some (Some root) \<Rightarrow>
                               if ex_heap s EXT2_NODE_BYTES = None then Some (None, off)
                               else Some (Some (length (fw_nodes w)),
                                 on\<lparr>fw_nodes := fw_nodes w @ [node_zero\<lparr>vn_name := put_at (vn_name node_zero) 0 (asc ''/'' @ [0]),
                                      vn_inode := 2, vn_flags := VFS_DIR, vn_size := ei_size root, vn_fs_data := i + 1, vn_ops := Some self\<rparr>]\<rparr>))))"

definition ext2_vfs_unmount :: "nat option \<Rightarrow> ext2_world \<Rightarrow> ext2_world" where
  "ext2_vfs_unmount root w =
     (case root of
        None \<Rightarrow> w
      | Some n \<Rightarrow>
          let a = vn_fs_data (fw_nodes w ! n) in
          if a = 0 then w else set_ext2_mount (a - 1) ((ex_mounts (fw_data w) ! (a - 1))\<lparr>em_used := False\<rparr>) w)"

section \<open>Readable volumes\<close>

text \<open>The disk answers every read, blocks are whole sectors, and the heap has room for a block.\<close>

definition ext2_ok :: "ext2 \<Rightarrow> ext2_mount \<Rightarrow> bool" where
  "ext2_ok s m \<longleftrightarrow> (\<exists>k. em_block_size m = of_nat (k * 512) \<and> 0 < k \<and> k \<le> 128) \<and> ide_has 0 (ex_ide s) \<and>
     (\<forall>d l. length (ide_sectors (ex_ide s) d l) = 512) \<and> (\<forall>l. ex_fault s l = None) \<and>
     (\<exists>blk. ex_heap s (em_block_size m) = Some blk \<and> length blk = unat (em_block_size m))"

definition ext2_block :: "ext2 \<Rightarrow> ext2_mount \<Rightarrow> u32 \<Rightarrow> u8 list" where
  "ext2_block s m nr = concat (map (\<lambda>i. ide_sectors (ex_ide s) 0 (take_bit 28 (nr * em_block_size m div 512 + of_nat i)))
     [0..<unat (em_block_size m) div 512])"

lemma ext2_ok_size:
  assumes "ext2_ok s m"
  obtains k where "unat (em_block_size m) = k * 512" "0 < k" "k \<le> 128"
proof -
  obtain k where k: "em_block_size m = of_nat (k * 512)" "0 < k" "k \<le> 128" using assms by (auto simp: ext2_ok_def)
  then have "unat (em_block_size m) = k * 512" by (simp only: unat_of_nat) simp
  then show ?thesis using that k by blast
qed

lemma ext2_ok_pos: "ext2_ok s m \<Longrightarrow> 0 < unat (em_block_size m)" "ext2_ok s m \<Longrightarrow> em_block_size m \<noteq> 0"
  by (erule ext2_ok_size, simp)+ (erule ext2_ok_size, auto)

lemma length_ext2_block: "ext2_ok s m \<Longrightarrow> length (ext2_block s m nr) = unat (em_block_size m)"
proof -
  assume ok: "ext2_ok s m"
  obtain k where k: "unat (em_block_size m) = k * 512" by (rule ext2_ok_size [OF ok])
  have "\<forall>d l. length (ide_sectors (ex_ide s) d l) = 512" using ok by (simp add: ext2_ok_def)
  then show ?thesis using k by (simp add: ext2_block_def length_concat o_def sum_list_triv)
qed

lemma ext2_read_loop_spec:
  assumes ok: "ext2_ok s m"
  shows "j \<le> k \<Longrightarrow> length buf = k * 512 \<Longrightarrow>
    ext2_read_loop s lba [j..<k] buf = (0, take (j * 512) buf @ concat (map (\<lambda>i. ide_sectors (ex_ide s) 0 (take_bit 28 (lba + of_nat i))) [j..<k]))"
proof (induction "k - j" arbitrary: j buf)
  case 0
  then show ?case by simp
next
  case (Suc n)
  let ?sec = "ide_sectors (ex_ide s) 0 (take_bit 28 (lba + of_nat j))"
  have j: "j < k" "n = k - Suc j" using Suc.hyps(2) by simp_all
  have sec: "length ?sec = 512" using ok by (simp add: ext2_ok_def)
  have rd: "ide_read (ex_fault s (lba + of_nat j)) 0 (lba + of_nat j) 1 (ex_ide s) = (0, ?sec)"
    using ok by (simp add: ide_read_def ext2_ok_def ata_lba_select Let_def)
  have "Suc j * 512 \<le> k * 512" using j by (intro mult_le_mono1) simp
  then have len: "j * 512 + length ?sec \<le> length buf" using Suc.prems sec by simp
  have IH: "ext2_read_loop s lba [Suc j..<k] (put_at buf (j * 512) ?sec) =
      (0, take (Suc j * 512) (put_at buf (j * 512) ?sec) @ concat (map (\<lambda>i. ide_sectors (ex_ide s) 0 (take_bit 28 (lba + of_nat i))) [Suc j..<k]))"
    using Suc.hyps(1) [of "Suc j" "put_at buf (j * 512) ?sec"] j Suc.prems len by simp
  have "take (Suc j * 512) (put_at buf (j * 512) ?sec) = take (j * 512) buf @ ?sec"
    using len sec by (simp add: put_at_def)
  then show ?case using IH rd j by (simp add: upt_conv_Cons Let_def)
qed

lemma ext2_read_block_spec:
  assumes ok: "ext2_ok s m" and len: "length buf = unat (em_block_size m)"
  shows "ext2_read_block s m nr buf = (0, ext2_block s m nr)"
proof -
  obtain k where k: "unat (em_block_size m) = k * 512" "k \<le> 128" by (rule ext2_ok_size [OF ok])
  then have "unat (em_block_size m div 512) = k" by (simp add: unat_div)
  then show ?thesis using ext2_read_loop_spec [OF ok, of 0 k buf "nr * em_block_size m div 512"] k len
    by (simp add: ext2_read_block_def ext2_block_def Let_def)
qed

text \<open>The disk block that holds the \<open>k\<close>-th block of a file, through the direct, indirect and doubly indirect pointers.\<close>

definition ext2_block_nr :: "ext2 \<Rightarrow> ext2_mount \<Rightarrow> ext2_inode \<Rightarrow> nat \<Rightarrow> u32" where
  "ext2_block_nr s m ino k =
     (let p = unat (em_block_size m) div 4; ptr = (\<lambda>b i. get32 (ext2_block s m b) (4 * i)) in
      if k < 12 then ei_block ino ! k
      else if k < 12 + p then ptr (ei_block ino ! 12) (k - 12)
      else ptr (ptr (ei_block ino ! 13) ((k - 12 - p) div p)) ((k - 12 - p) mod p))"

definition ext2_max_blocks :: "ext2_mount \<Rightarrow> nat" where
  "ext2_max_blocks m = (let p = unat (em_block_size m) div 4 in 12 + p + p * p)"

lemma ext2_read_inode_block_spec:
  assumes ok: "ext2_ok s m" and len: "length buf = unat (em_block_size m)" and k: "unat k < ext2_max_blocks m"
  shows "ext2_read_inode_block s m ino k buf = (0, ext2_block s m (ext2_block_nr s m ino (unat k)))"
proof -
  let ?bs = "em_block_size m"
  obtain q where q: "unat ?bs = q * 512" "0 < q" "q \<le> 128" by (rule ext2_ok_size [OF ok])
  obtain blk where blk: "ex_heap s ?bs = Some blk" "length blk = unat ?bs" using ok by (auto simp: ext2_ok_def)
  define p where "p = unat ?bs div 4"
  have p: "p = q * 128" "0 < p" "p \<le> 16384" using q by (simp_all add: p_def)
  have pw: "unat (?bs div 4) = p" by (simp add: unat_div p_def)
  have e: "unat (12 + ?bs div 4) = 12 + p" using p(3) pw by (simp add: unat_word_ariths)
  have "p * p \<le> 16384 * 16384" using p(3) by (intro mult_le_mono)
  then have pp: "unat (12 + ?bs div 4 + ?bs div 4 * (?bs div 4)) = 12 + p + p * p"
    using pw e unat_word_ariths(1) [of "12 + ?bs div 4" "?bs div 4 * (?bs div 4)"] unat_word_ariths(2) [of "?bs div 4" "?bs div 4"] p(3) by simp
  note rd = ext2_read_block_spec [OF ok]
  consider "unat k < 12" | "12 \<le> unat k" "unat k < 12 + p" | "12 + p \<le> unat k" "unat k < 12 + p + p * p"
    using k by (force simp: ext2_max_blocks_def p_def Let_def)
  then show ?thesis
  proof cases
    case 1
    then have "k < 12" by (simp add: word_less_nat_alt)
    then show ?thesis using rd [OF len] 1 by (simp add: ext2_read_inode_block_def ext2_block_nr_def Let_def)
  next
    case 2
    then have c: "\<not> k < 12" "k < 12 + ?bs div 4" by (simp_all add: word_less_nat_alt e)
    then have "unat (k - 12) = unat k - 12" using 2 by (simp add: unat_sub word_le_nat_alt)
    then show ?thesis using rd [OF len] rd [OF blk(2)] 2 c blk
      by (simp add: ext2_read_inode_block_def ext2_block_nr_def ext2_pointer_def Let_def p_def [symmetric])
  next
    case 3
    then have c: "\<not> k < 12" "\<not> k < 12 + ?bs div 4" "k < 12 + ?bs div 4 + ?bs div 4 * (?bs div 4)"
      by (simp_all add: word_less_nat_alt e pp)
    have u: "unat (k - (12 + ?bs div 4)) = unat k - 12 - p" using 3 by (simp add: unat_sub word_le_nat_alt e)
    have r: "ext2_pointer b ((k - (12 + ?bs div 4)) div (?bs div 4)) = get32 b (4 * ((unat k - 12 - p) div p))"
      "ext2_pointer b ((k - (12 + ?bs div 4)) mod (?bs div 4)) = get32 b (4 * ((unat k - 12 - p) mod p))" for b
      by (simp_all only: ext2_pointer_def unat_div [of "k - (12 + ?bs div 4)"] unat_mod [of "k - (12 + ?bs div 4)"] u pw)
    show ?thesis
      unfolding ext2_read_inode_block_def ext2_block_nr_def Let_def blk(1) option.case rd [OF blk(2)] rd [OF len] prod.case r p_def [symmetric]
      using 3(1) c by simp
  qed
qed

section \<open>What a file holds\<close>

definition ext2_content :: "ext2 \<Rightarrow> ext2_mount \<Rightarrow> ext2_inode \<Rightarrow> nat \<Rightarrow> u8 list" where
  "ext2_content s m ino n = concat (map (\<lambda>k. ext2_block s m (ext2_block_nr s m ino k)) [0..<n])"

lemma ext2_content_blocks:
  assumes "ext2_ok s m"
  shows "\<forall>b \<in> set (map (\<lambda>k. ext2_block s m (ext2_block_nr s m ino k)) [0..<n]). length b = unat (em_block_size m)"
    "length (ext2_content s m ino n) = n * unat (em_block_size m)"
proof -
  show b: "\<forall>b \<in> set (map (\<lambda>k. ext2_block s m (ext2_block_nr s m ino k)) [0..<n]). length b = unat (em_block_size m)"
    using length_ext2_block [OF assms] by simp
  show "length (ext2_content s m ino n) = n * unat (em_block_size m)"
    unfolding ext2_content_def using length_concat_blocks [OF b] by simp
qed

lemma ext2_copy_loop_spec:
  assumes ok: "ext2_ok s m" and n: "n \<le> ext2_max_blocks m" and fit: "unat off + unat sz \<le> n * unat (em_block_size m)" "unat off + unat sz < 2 ^ 32"
  shows "unat br \<le> unat sz \<Longrightarrow> length bbuf = unat (em_block_size m) \<Longrightarrow>
    ext2_copy_loop s m ino off sz br bbuf out =
      Some (out @ take (unat sz - unat br) (drop (unat off + unat br) (ext2_content s m ino n)))"
proof (induction "unat sz - unat br" arbitrary: br bbuf out rule: less_induct)
  case less
  let ?bs = "em_block_size m" and ?d = "ext2_content s m ino n"
  note p = ext2_ok_pos [OF ok]
  show ?case
  proof (cases "br < sz")
    case False
    then have "unat br = unat sz" using less.prems by (simp add: word_less_nat_alt)
    then show ?thesis using False by (subst ext2_copy_loop.simps) simp
  next
    case True
    define c where "c = ext2_chunk m off sz br"
    note cb = ext2_chunk_bounds [OF p(2) True, of off, folded c_def]
    define a where "a = unat off + unat br"
    have a: "unat (off + br) = a" using fit(2) less.prems(1) by (simp add: a_def unat_word_ariths)
    have idx: "unat ((off + br) div ?bs) = a div unat ?bs" "unat ((off + br) mod ?bs) = a mod unat ?bs"
      by (simp_all add: unat_div unat_mod a)
    have "a < n * unat ?bs" using True fit(1) by (simp add: a_def word_less_nat_alt)
    then have in_file: "a div unat ?bs < n" by (simp add: less_mult_imp_div_less)
    have cle: "unat c \<le> unat ?bs - a mod unat ?bs"
    proof -
      have "unat (?bs - (off + br) mod ?bs) = unat ?bs - a mod unat ?bs"
        using p(1) idx(2) by (subst unat_sub) (simp_all add: word_le_nat_alt less_imp_le)
      then show ?thesis by (auto simp: c_def ext2_chunk_def Let_def word_less_nat_alt)
    qed
    let ?blk = "ext2_block s m (ext2_block_nr s m ino (a div unat ?bs))"
    have piece: "take (unat c) (drop (a mod unat ?bs) ?blk) = take (unat c) (drop a ?d)"
      using take_concat_block [OF ext2_content_blocks(1) [OF ok, of ino n], of a "unat c"]
        in_file cle by (simp add: ext2_content_def)
    have rd: "ext2_read_inode_block s m ino ((off + br) div ?bs) bbuf = (0, ?blk)"
      using ext2_read_inode_block_spec [OF ok less.prems(2), of "(off + br) div ?bs" ino] in_file n idx(1) by simp
    have "ext2_copy_loop s m ino off sz br bbuf out =
        ext2_copy_loop s m ino off sz (br + c) ?blk (out @ take (unat c) (drop a ?d))"
      using True p(2) rd idx(2) piece by (subst ext2_copy_loop.simps) (simp add: c_def [symmetric] Let_def)
    also have "\<dots> = Some ((out @ take (unat c) (drop a ?d)) @ take (unat sz - unat (br + c)) (drop (unat off + unat (br + c)) ?d))"
      using cb True by (intro less.hyps) (simp_all add: length_ext2_block [OF ok] word_less_nat_alt)
    also have "\<dots> = Some (out @ take (unat sz - unat br) (drop a ?d))"
      using take_split [of "unat c" "unat sz - unat br" a ?d] cb(2) by (simp add: cb(3) a_def add.assoc)
    finally show ?thesis by (simp add: a_def)
  qed
qed

lemma ext2_read_inode_content:
  assumes ok: "ext2_ok (fw_data w) m" and m: "ext2_mount_of (fw_data w) (vn_fs_data (fw_nodes w ! i)) = Some m"
    and ino: "ext2_read_inode (fw_data w) m (vn_inode (fw_nodes w ! i)) = Some (Some ino)"
    and size: "unat (ei_size ino) \<le> n * unat (em_block_size m)" "n \<le> ext2_max_blocks m" "unat (ei_size ino) < 2 ^ 31"
    and nowrap: "unat off + unat sz < 2 ^ 32"
  shows "ext2_vfs_read i off sz w =
    (let b = take (unat sz) (drop (unat off) (take (unat (ei_size ino)) (ext2_content (fw_data w) m ino n))) in Some (int (length b), b))"
proof (cases "off \<ge> ei_size ino")
  case True
  then show ?thesis using m ino by (simp add: ext2_vfs_read_def word_le_nat_alt)
next
  case False
  let ?s = "fw_data w" and ?fs = "ei_size ino"
  let ?d = "ext2_content ?s m ino n"
  obtain blk where blk: "ex_heap ?s (em_block_size m) = Some blk" "length blk = unat (em_block_size m)"
    using ok by (auto simp: ext2_ok_def)
  define sz' where "sz' = (if off + sz > ?fs then ?fs - off else sz)"
  have lt: "unat off < unat ?fs" using False by (simp add: word_le_nat_alt)
  have sz': "unat sz' = min (unat sz) (unat ?fs - unat off)" unfolding sz'_def by (rule unat_clip [OF False nowrap])
  have fit: "unat off + unat sz' \<le> n * unat (em_block_size m)" "unat off + unat sz' < 2 ^ 32"
    using sz' size(1,3) lt by simp_all
  have loop: "ext2_copy_loop ?s m ino off sz' 0 blk [] = Some (take (unat sz') (drop (unat off) ?d))"
    using ext2_copy_loop_spec [OF ok size(2) fit, of 0 blk ino "[]"] blk(2) by simp
  define b where "b = take (unat sz) (drop (unat off) (take (unat ?fs) ?d))"
  have b: "take (unat sz') (drop (unat off) ?d) = b" by (simp only: b_def sz' take_clip)
  have "length b \<le> unat ?fs" by (simp add: b_def)
  then have "sint (of_nat (length b) :: u32) = int (length b)" by (rule sint_length [OF _ size(3)])
  then have "ext2_vfs_read i off sz w = Some (int (length b), b)"
    using False m ino blk(1) loop by (simp add: ext2_vfs_read_def sz'_def [symmetric] b Let_def)
  then show ?thesis by (simp add: b_def Let_def)
qed

section \<open>The volume as the format describes it\<close>

text \<open>All in natural numbers over the bytes of drive 0. An inode lies in the table of its group, whose first block is at byte 8 of
  the group's descriptor of 32 bytes; tables hold whole inodes in each block. An inode has its size at byte 4 and its block
  pointers from byte 40 on.\<close>

definition ext2_inode_pos :: "ext2_mount \<Rightarrow> nat \<Rightarrow> nat" where
  "ext2_inode_pos m i =
     (let bs = unat (em_block_size m); isz = unat (em_inode_size m); ipg = unat (em_inodes_per_group m);
          g = (i - 1) div ipg; x = (i - 1) mod ipg; table = le_nat (take 4 (drop (32 * g + 8) (em_bgdt m)))
      in (table + x div (bs div isz)) * bs + x mod (bs div isz) * isz)"

text \<open>The blocks on the way to the \<open>k\<close>-th block of the file whose inode is at byte \<open>pos\<close>: the blocks of pointers, then the one
  with the data.\<close>

definition ext2_path :: "ext2 \<Rightarrow> ext2_mount \<Rightarrow> nat \<Rightarrow> nat \<Rightarrow> nat list" where
  "ext2_path s m pos k =
     (let bs = unat (em_block_size m); p = bs div 4; at = disk_word (ex_ide s) 0 in
      if k < 12 then [at (pos + 40 + 4 * k)]
      else if k < 12 + p then
        let b1 = at (pos + 88) in [b1, at (b1 * bs + 4 * (k - 12))]
      else
        let b2 = at (pos + 92); b1 = at (b2 * bs + 4 * ((k - 12 - p) div p)) in [b2, b1, at (b1 * bs + 4 * ((k - 12 - p) mod p))])"

text \<open>An inode that the groups hold, in the first 4 GB of the drive, with the blocks of pointers and of data of its first \<open>n\<close> blocks
  there too.\<close>

definition ext2_file_low :: "ext2 \<Rightarrow> ext2_mount \<Rightarrow> nat \<Rightarrow> nat \<Rightarrow> bool" where
  "ext2_file_low s m i n \<longleftrightarrow>
     0 < i \<and> 0 < unat (em_inodes_per_group m) \<and> (i - 1) div unat (em_inodes_per_group m) < unat (em_num_groups m) \<and>
     32 * ((i - 1) div unat (em_inodes_per_group m)) + 32 \<le> length (em_bgdt m) \<and> length (em_bgdt m) < 2 ^ 32 \<and>
     128 \<le> unat (em_inode_size m) \<and> unat (em_inode_size m) \<le> unat (em_block_size m) \<and>
     (ext2_inode_pos m i div unat (em_block_size m) + 1) * unat (em_block_size m) \<le> 2 ^ 32 \<and>
     (\<forall>k < n. \<forall>b \<in> set (ext2_path s m (ext2_inode_pos m i) k). (b + 1) * unat (em_block_size m) \<le> 2 ^ 32)"

definition ext2_size :: "ext2 \<Rightarrow> ext2_mount \<Rightarrow> nat \<Rightarrow> nat" where
  "ext2_size s m i = disk_word (ex_ide s) 0 (ext2_inode_pos m i + 4)"

text \<open>The data of the first \<open>n\<close> blocks.\<close>

definition ext2_data :: "ext2 \<Rightarrow> ext2_mount \<Rightarrow> nat \<Rightarrow> nat \<Rightarrow> u8 list" where
  "ext2_data s m i n =
     concat (map (\<lambda>k. disk_bytes (ex_ide s) 0 (last (ext2_path s m (ext2_inode_pos m i) k) * unat (em_block_size m)) (unat (em_block_size m))) [0..<n])"

lemma ext2_block_disk:
  assumes ok: "ext2_ok s m" and nr: "(unat nr + 1) * unat (em_block_size m) \<le> 2 ^ 32"
  shows "ext2_block s m nr = disk_bytes (ex_ide s) 0 (unat nr * unat (em_block_size m)) (unat (em_block_size m))"
proof -
  let ?bs = "em_block_size m"
  obtain k where k: "unat ?bs = k * 512" "0 < k" "k \<le> 128" by (rule ext2_ok_size [OF ok])
  have "((unat nr + 1) * k) * 512 \<le> 2 ^ 23 * 512" using nr by (simp only: k(1) mult.assoc) simp
  then have fit: "(unat nr + 1) * k \<le> 2 ^ 23" by linarith
  have "unat nr * (k * 512) + k * 512 \<le> 2 ^ 32" using nr unfolding k(1) by (simp add: add.commute)
  then have "unat nr * (k * 512) < 2 ^ 32" using k(2) by linarith
  then have "unat (nr * ?bs) = unat nr * k * 512" by (simp add: unat_word_ariths k(1) mult.assoc)
  then have q: "unat nr * k = unat (nr * ?bs div 512)" by (simp add: unat_div)
  have l: "nr * ?bs div 512 = of_nat (unat nr * k)" unfolding q by simp
  have "take_bit 28 (of_nat (unat nr * k) + of_nat i :: u32) = of_nat (unat nr * k + i)" if "i < k" for i
    using fit that sector_in_reach [of "unat nr * k + i"] by simp
  then have "ext2_block s m nr = concat (map (\<lambda>i. ide_sectors (ex_ide s) 0 (of_nat (unat nr * k + i))) [0..<k])"
    unfolding ext2_block_def l by (intro arg_cong [where f = concat] map_cong) (simp_all add: k(1))
  moreover have "512 * (unat nr * k) = unat nr * (k * 512)" "512 * k = k * 512" by simp_all
  moreover have "length (ide_sectors (ex_ide s) 0 l) = 512" for l using ok by (simp add: ext2_ok_def)
  ultimately show ?thesis using disk_bytes_sectors [of "ex_ide s" 0 "unat nr * k" k] by (simp only: k(1))
qed

lemma get32_ext2_block:
  assumes "ext2_ok s m" "(unat nr + 1) * unat (em_block_size m) \<le> 2 ^ 32" "o' + 4 \<le> unat (em_block_size m)"
  shows "unat (get32 (ext2_block s m nr) o') = disk_word (ex_ide s) 0 (unat nr * unat (em_block_size m) + o')"
  unfolding ext2_block_disk [OF assms(1,2)] by (rule get32_disk [OF assms(3)])

lemma ext2_read_inode_low:
  assumes ok: "ext2_ok s m" and low: "ext2_file_low s m (unat i) n"
  obtains ino where "ext2_read_inode s m i = Some (Some ino)" "unat (ei_size ino) = ext2_size s m (unat i)"
    "\<And>j. j < 15 \<Longrightarrow> unat (ei_block ino ! j) = disk_word (ex_ide s) 0 (ext2_inode_pos m (unat i) + 40 + 4 * j)"
proof -
  let ?bs = "em_block_size m" and ?isz = "em_inode_size m" and ?ipg = "em_inodes_per_group m"
  let ?ide = "ex_ide s" and ?pos = "ext2_inode_pos m (unat i)"
  define g x p where "g = (unat i - 1) div unat ?ipg" and "x = (unat i - 1) mod unat ?ipg" and "p = unat ?bs div unat ?isz"
  define t where "t = le_nat (take 4 (drop (32 * g + 8) (em_bgdt m)))"
  note l = low [unfolded ext2_file_low_def]
  obtain blk where blk: "ex_heap s ?bs = Some blk" "length blk = unat ?bs" using ok by (auto simp: ext2_ok_def)
  have isz: "0 < unat ?isz" "unat ?isz \<le> unat ?bs" using l by simp_all
  then have p: "0 < p" by (simp add: p_def div_greater_zero_iff)
  have i1: "unat (i - 1) = unat i - 1" using l by (simp add: unat_sub word_le_nat_alt)
  have gw: "unat ((i - 1) div ?ipg) = g" and xw: "unat ((i - 1) mod ?ipg) = x"
    by (simp_all add: unat_div unat_mod i1 g_def x_def)
  have pw: "unat (?bs div ?isz) = p" by (simp add: unat_div p_def)
  have yw: "unat ((i - 1) mod ?ipg mod (?bs div ?isz)) = x mod p" "unat ((i - 1) mod ?ipg div (?bs div ?isz)) = x div p"
    by (simp_all add: unat_div [of "(i - 1) mod ?ipg"] unat_mod [of "(i - 1) mod ?ipg" "?bs div ?isz"] xw pw)
  have "x mod p < p" using p by simp
  then have "(x mod p + 1) * unat ?isz \<le> p * unat ?isz" by (intro mult_le_mono1) simp
  also have "p * unat ?isz \<le> unat ?bs" by (simp add: p_def)
  finally have fit: "x mod p * unat ?isz + unat ?isz \<le> unat ?bs" by simp
  have o32: "unat ?bs < 2 ^ 32" by (rule unat_less_u32)
  have "x mod p * unat ?isz < 2 ^ 32" using fit o32 by linarith
  then have ow: "unat ((i - 1) mod ?ipg mod (?bs div ?isz) * ?isz) = x mod p * unat ?isz"
    by (simp add: unat_word_ariths(2) yw)
  have tab: "unat (get32 (em_bgdt m) (g * 32 + 8)) = t"
    using l by (simp add: unat_get32 t_def g_def mult.commute)
  have pos: "?pos = (t + x div p) * unat ?bs + x mod p * unat ?isz"
    by (simp add: ext2_inode_pos_def Let_def t_def g_def x_def p_def)
  have "x mod p * unat ?isz < unat ?bs" using fit isz by linarith
  then have q: "?pos div unat ?bs = t + x div p" using ext2_ok_pos(1) [OF ok] by (simp add: pos)
  then have low4: "(t + x div p + 1) * unat ?bs \<le> 2 ^ 32" using l by simp
  have "t + x div p + 1 \<le> (t + x div p + 1) * unat ?bs"
    using mult_le_mono2 [of 1 "unat ?bs" "t + x div p + 1"] ext2_ok_pos(1) [OF ok] by simp
  then have bw: "unat (get32 (em_bgdt m) (g * 32 + 8) + (i - 1) mod ?ipg div (?bs div ?isz)) = t + x div p"
    using low4 by (simp add: unat_word_ariths(1) tab yw)
  define b where "b = ext2_block s m (get32 (em_bgdt m) (g * 32 + 8) + (i - 1) mod ?ipg div (?bs div ?isz))"
  define ino where "ino = ext2_inode_at (drop (x mod p * unat ?isz) b)"
  have lb: "length b = unat ?bs" by (simp add: b_def length_ext2_block [OF ok])
  have word: "unat (get32 b (x mod p * unat ?isz + o')) = disk_word ?ide 0 (?pos + o')" if "o' + 4 \<le> 128" for o'
    using get32_ext2_block [OF ok, of "get32 (em_bgdt m) (g * 32 + 8) + (i - 1) mod ?ipg div (?bs div ?isz)" "x mod p * unat ?isz + o'"]
      bw low4 fit that l by (simp add: b_def pos add.assoc)
  have g_drop: "get32 (drop k b) o' = get32 b (k + o')" if "k \<le> length b" for k o'
    using that by (simp add: get32_def add.assoc)
  have nz: "i \<noteq> 0" "?ipg \<noteq> 0" "?isz \<noteq> 0" "?bs div ?isz \<noteq> 0" "\<not> (i - 1) div ?ipg \<ge> em_num_groups m"
    using l p pw isz gw by (auto simp: word_le_nat_alt g_def)
  have "ext2_read_inode s m i = Some (Some ino)"
    using nz blk ext2_read_block_spec [OF ok blk(2)] l fit lb ow
    by (simp add: ext2_read_inode_def Let_def gw ino_def b_def g_def EXT2_INODE_BYTES_def)
  moreover have "unat (ei_size ino) = ext2_size s m (unat i)"
    using word [of 4] fit lb by (simp add: ino_def ext2_inode_at_def g_drop ext2_size_def)
  moreover have "unat (ei_block ino ! j) = disk_word ?ide 0 (?pos + 40 + 4 * j)" if "j < 15" for j
    using word [of "40 + 4 * j"] that fit lb by (simp add: ino_def ext2_inode_at_def g_drop add.assoc)
  ultimately show ?thesis using that by blast
qed

lemma ext2_path_blocks:
  assumes ok: "ext2_ok s m" and k: "k < ext2_max_blocks m"
    and low: "\<forall>b \<in> set (ext2_path s m pos k). (b + 1) * unat (em_block_size m) \<le> 2 ^ 32"
    and ptr: "\<And>j. j < 15 \<Longrightarrow> unat (ei_block ino ! j) = disk_word (ex_ide s) 0 (pos + 40 + 4 * j)"
  shows "unat (ext2_block_nr s m ino k) = last (ext2_path s m pos k)"
proof -
  define p where "p = unat (em_block_size m) div 4"
  have at: "unat (get32 (ext2_block s m nr) (4 * j)) = disk_word (ex_ide s) 0 (unat nr * unat (em_block_size m) + 4 * j)"
    if "(unat nr + 1) * unat (em_block_size m) \<le> 2 ^ 32" "j < p" for nr j
    using that by (intro get32_ext2_block [OF ok]) (auto simp: p_def)
  have ptr': "unat (ei_block ino ! 12) = disk_word (ex_ide s) 0 (pos + 88)" "unat (ei_block ino ! 13) = disk_word (ex_ide s) 0 (pos + 92)"
    using ptr [of 12] ptr [of 13] by (simp_all add: add.commute)
  consider "k < 12" | "12 \<le> k" "k < 12 + p" | "12 + p \<le> k" "k < 12 + p + p * p"
    using k by (force simp: ext2_max_blocks_def p_def Let_def)
  then show ?thesis
  proof cases
    case 1
    then show ?thesis using ptr [of k] by (simp add: ext2_block_nr_def ext2_path_def Let_def)
  next
    case 2
    then show ?thesis using low ptr'(1) at [of "ei_block ino ! 12" "k - 12"]
      by (simp add: ext2_block_nr_def ext2_path_def Let_def p_def [symmetric])
  next
    case 3
    then have "0 < p" by (cases p) simp_all
    then have j: "(k - 12 - p) div p < p" "(k - 12 - p) mod p < p"
      using 3 by (simp_all add: less_mult_imp_div_less)
    let ?b = "get32 (ext2_block s m (ei_block ino ! 13)) (4 * ((k - 12 - p) div p))"
    have "unat ?b = disk_word (ex_ide s) 0 (disk_word (ex_ide s) 0 (pos + 92) * unat (em_block_size m) + 4 * ((k - 12 - p) div p))"
      using 3 low ptr'(2) at [OF _ j(1), of "ei_block ino ! 13"] by (simp add: ext2_path_def Let_def p_def [symmetric])
    then show ?thesis using 3 low at [OF _ j(2), of ?b]
      by (simp add: ext2_block_nr_def ext2_path_def Let_def p_def [symmetric])
  qed
qed

lemma last_in_ext2_path: "last (ext2_path s m pos k) \<in> set (ext2_path s m pos k)"
  by (simp add: ext2_path_def Let_def)

text \<open>C15: on a readable volume, the file of an inode, whose place, size and blocks (direct, indirect and doubly indirect) are those that the format
  defines over the bytes of the drive, reads back the bytes of its blocks in their order, cut at its size: at every offset and for every length
  whose sum fits 32 bits. The inode and the blocks lie in the first 4 GB of the drive (the code computes byte offsets in
  32 bits, and reads other blocks past that).\<close>

theorem ext2_read_correct:
  assumes ok: "ext2_ok (fw_data w) m" and m: "ext2_mount_of (fw_data w) (vn_fs_data (fw_nodes w ! j)) = Some m"
    and i: "i = unat (vn_inode (fw_nodes w ! j))" and low: "ext2_file_low (fw_data w) m i n"
    and size: "ext2_size (fw_data w) m i \<le> n * unat (em_block_size m)" "n \<le> ext2_max_blocks m" "ext2_size (fw_data w) m i < 2 ^ 31"
    and nowrap: "unat off + unat sz < 2 ^ 32"
  shows "ext2_vfs_read j off sz w =
    (let b = take (unat sz) (drop (unat off) (take (ext2_size (fw_data w) m i) (ext2_data (fw_data w) m i n))) in Some (int (length b), b))"
proof -
  let ?s = "fw_data w" and ?bs = "unat (em_block_size m)" and ?pos = "ext2_inode_pos m i"
  obtain ino where ino: "ext2_read_inode ?s m (vn_inode (fw_nodes w ! j)) = Some (Some ino)" "unat (ei_size ino) = ext2_size ?s m i"
    "\<And>j. j < 15 \<Longrightarrow> unat (ei_block ino ! j) = disk_word (ex_ide ?s) 0 (?pos + 40 + 4 * j)"
    using ext2_read_inode_low [OF ok low [unfolded i]] unfolding i by blast
  have "ext2_block ?s m (ext2_block_nr ?s m ino k) = disk_bytes (ex_ide ?s) 0 (last (ext2_path ?s m ?pos k) * ?bs) ?bs" if "k < n" for k
  proof -
    have b: "\<forall>b \<in> set (ext2_path ?s m ?pos k). (b + 1) * ?bs \<le> 2 ^ 32" using low that by (simp add: ext2_file_low_def)
    have "unat (ext2_block_nr ?s m ino k) = last (ext2_path ?s m ?pos k)"
      by (rule ext2_path_blocks [OF ok _ b ino(3)]) (use that size(2) in simp_all)
    then show ?thesis using ext2_block_disk [OF ok, of "ext2_block_nr ?s m ino k"] b last_in_ext2_path [of ?s m ?pos k] by simp
  qed
  then have "ext2_content ?s m ino n = ext2_data ?s m i n"
    unfolding ext2_content_def ext2_data_def by (intro arg_cong [where f = concat] map_cong) simp_all
  then show ?thesis using ext2_read_inode_content [OF ok m ino(1) _ size(2) _ nowrap] ino(2) size(1,3) by simp
qed

text \<open>The byte offset of a block is computed in 32 bits: past 4 GB the volume starts again.\<close>

lemma ext2_block_wraps:
  assumes "em_block_size m = 1024"
  shows "ext2_block s m (nr + 0x400000) = ext2_block s m nr"
proof -
  have "(4294967296 :: u32) = 0" by simp
  then have "(nr + 0x400000) * 1024 = nr * 1024" by (simp add: distrib_right)
  then show ?thesis by (simp only: ext2_block_def assms)
qed

text \<open>Whatever the device, drive 0 is mounted.\<close>

lemma ext2_mount_ignores_device: "ext2_vfs_mount self d flags w = ext2_vfs_mount self d' flags w"
  by (simp add: ext2_vfs_mount_def)

section \<open>A small volume\<close>

text \<open>Blocks of 1024 bytes, one group with its inode table in block 5; inode 3 is a file of 1500 bytes in the blocks
  20 and 21.\<close>

definition ext2_demo_table :: "u8 list" where
  "ext2_demo_table = replicate 256 0 @ bytes16 0x8000 @ bytes16 0 @ bytes32 1500 @ replicate 32 0 @ bytes32 20 @ bytes32 21 @ replicate 208 0"

definition ext2_demo_mount :: ext2_mount where
  "ext2_demo_mount = \<lparr>em_used = True, em_block_size = 1024, em_inodes_per_group = 8, em_inode_size = 128, em_first_data_block = 1,
     em_num_groups = 1, em_bgdt = replicate 8 0 @ bytes32 5 @ replicate 20 0\<rparr>"

definition ext2_demo :: ext2 where
  "ext2_demo = \<lparr>ex_ide = \<lparr>ide_drives = [\<lparr>dr_exists = True, dr_base = 0x1F0, dr_ctrl = 0x3F6, dr_drive = 0, dr_channel = 0, dr_lba28 = 100, dr_model = []\<rparr>],
       ide_count = 1, ide_sectors = (\<lambda>d l. if l = 10 then ext2_demo_table else if l = 40 \<or> l = 41 then replicate 512 65
         else replicate 512 66)\<rparr>,
     ex_fault = (\<lambda>_. None), ex_heap = (\<lambda>n. Some (replicate (unat n) 0)), ex_mounts = [ext2_demo_mount]\<rparr>"

definition ext2_demo_world :: ext2_world where
  "ext2_demo_world = \<lparr>fw_nodes = [node_zero\<lparr>vn_fs_data := 1, vn_inode := 3\<rparr>], fw_data = ext2_demo\<rparr>"

lemma ext2_demo_ok: "ext2_ok ext2_demo ext2_demo_mount"
proof -
  have "em_block_size ext2_demo_mount = of_nat (2 * 512) \<and> 0 < (2 :: nat) \<and> 2 \<le> (128 :: nat)" by (simp add: ext2_demo_mount_def)
  moreover have "length ext2_demo_table = 512" by (simp add: ext2_demo_table_def)
  ultimately show ?thesis unfolding ext2_ok_def
    by (intro conjI exI [of _ "2 :: nat"] exI [of _ "replicate 1024 0"])
      (simp_all add: ext2_demo_mount_def ext2_demo_def ide_has_def IDE_MAX_DRIVES_def)
qed

lemma ext2_demo_sector: "disk_bytes (ex_ide ext2_demo) 0 (512 * l) 512 = ide_sectors (ex_ide ext2_demo) 0 (of_nat l)"
  by (rule disk_bytes_sector) (simp add: ext2_demo_def ext2_demo_table_def)

lemma ext2_demo_words:
  "disk_word (ex_ide ext2_demo) 0 5380 = 1500" "disk_word (ex_ide ext2_demo) 0 5416 = 20" "disk_word (ex_ide ext2_demo) 0 5420 = 21"
proof -
  have t: "disk_bytes (ex_ide ext2_demo) 0 5120 512 = ext2_demo_table"
    using ext2_demo_sector [of 10] by (simp add: ext2_demo_def)
  have "get32 ext2_demo_table 260 = 1500" "get32 ext2_demo_table 296 = 20" "get32 ext2_demo_table 300 = 21" by code_simp+
  then show "disk_word (ex_ide ext2_demo) 0 5380 = 1500" "disk_word (ex_ide ext2_demo) 0 5416 = 20" "disk_word (ex_ide ext2_demo) 0 5420 = 21"
    using get32_disk [of 260 512 "ex_ide ext2_demo" 0 5120] get32_disk [of 296 512 "ex_ide ext2_demo" 0 5120]
      get32_disk [of 300 512 "ex_ide ext2_demo" 0 5120] by (simp_all add: t)
qed

lemma ext2_demo_pos: "ext2_inode_pos ext2_demo_mount 3 = 5376"
proof -
  have "get32 (em_bgdt ext2_demo_mount) 8 = 5" by code_simp
  then have "le_nat (take 4 (drop 8 (em_bgdt ext2_demo_mount))) = 5"
    using unat_get32 [of 8 "em_bgdt ext2_demo_mount"] by (simp add: ext2_demo_mount_def)
  then show ?thesis by (simp add: ext2_inode_pos_def) (simp add: ext2_demo_mount_def)
qed

lemma ext2_demo_file:
  "ext2_path ext2_demo ext2_demo_mount 5376 0 = [20]" "ext2_path ext2_demo ext2_demo_mount 5376 1 = [21]"
  "ext2_size ext2_demo ext2_demo_mount 3 = 1500"
  by (simp_all add: ext2_path_def ext2_demo_words ext2_size_def ext2_demo_pos Let_def)

lemma ext2_demo_block_size: "unat (em_block_size ext2_demo_mount) = 1024"
  by (simp add: ext2_demo_mount_def)

lemma ext2_demo_data: "ext2_data ext2_demo ext2_demo_mount 3 2 = replicate 1024 65 @ replicate 1024 66"
proof -
  have "disk_bytes (ex_ide ext2_demo) 0 (512 * l) 1024 = disk_bytes (ex_ide ext2_demo) 0 (512 * l) 512 @ disk_bytes (ex_ide ext2_demo) 0 (512 * (l + 1)) 512" for l
    using disk_bytes_add [of "ex_ide ext2_demo" 0 "512 * l" 512 512] by (simp add: add.commute)
  from this [of 40] this [of 42] ext2_demo_sector [of 40] ext2_demo_sector [of 41] ext2_demo_sector [of 42] ext2_demo_sector [of 43]
  have "disk_bytes (ex_ide ext2_demo) 0 20480 1024 = replicate 1024 65" "disk_bytes (ex_ide ext2_demo) 0 21504 1024 = replicate 1024 66"
    by (simp_all add: ext2_demo_def flip: replicate_add)
  then show ?thesis
    using ext2_demo_file(1,2) by (simp add: ext2_data_def ext2_demo_pos ext2_demo_block_size upt_conv_Cons)
qed

lemma ext2_demo_low: "ext2_file_low ext2_demo ext2_demo_mount 3 2"
proof -
  have "\<forall>k < 2. \<forall>b \<in> set (ext2_path ext2_demo ext2_demo_mount 5376 k). (b + 1) * 1024 \<le> (2 :: nat) ^ 32"
    using ext2_demo_file(1,2) by (auto simp: less_2_cases_iff)
  then show ?thesis
    unfolding ext2_file_low_def ext2_demo_block_size ext2_demo_pos by (simp add: ext2_demo_mount_def)
qed

theorem ext2_read_correct_witness: "ext2_vfs_read 0 1022 4 ext2_demo_world = Some (4, [65, 65, 66, 66])"
proof -
  have cut: "take 4 (drop 1022 (take 1500 (replicate 1024 65 @ replicate 1024 66))) = [65, 65, 66, 66 :: u8]"
    by (simp add: drop_replicate numeral_2_eq_2)
  have w: "fw_data ext2_demo_world = ext2_demo" "ext2_mount_of ext2_demo (vn_fs_data (fw_nodes ext2_demo_world ! 0)) = Some ext2_demo_mount"
    "vn_inode (fw_nodes ext2_demo_world ! 0) = 3"
    by (simp_all add: ext2_demo_world_def ext2_mount_of_def ext2_demo_def)
  have u: "unat (4 :: u32) = 4" "unat (1022 :: u32) = 1022" "unat (em_block_size ext2_demo_mount) = 1024"
    by (simp_all add: ext2_demo_mount_def)
  have "ext2_vfs_read 0 1022 4 ext2_demo_world =
    (let b = take (unat (4 :: u32)) (drop (unat (1022 :: u32)) (take (ext2_size (fw_data ext2_demo_world) ext2_demo_mount 3)
       (ext2_data (fw_data ext2_demo_world) ext2_demo_mount 3 2))) in Some (int (length b), b))"
    by (rule ext2_read_correct) (simp_all add: w u ext2_demo_ok ext2_demo_file ext2_demo_data ext2_demo_low ext2_max_blocks_def)
  then show ?thesis by (simp only: w ext2_demo_file ext2_demo_data u cut Let_def) simp
qed

end
