(* ===== verification/Iso9660.thy ===== *)
theory Iso9660
  imports Vfs Ide
begin

text \<open>
  The ISO 9660 file system (\<open>fs/iso9660.c\<close>), read-only, over the disk model of \<open>Ide\<close>: sectors of 2048 bytes
  are four sectors of the drive. Volumes and inodes are addressed by numbers, with none for \<open>NULL\<close>. \<open>io_heap\<close> is
  what \<open>kmalloc\<close> hands out for a size, \<open>io_fault\<close> tells which reads the drive fails; a result \<open>None\<close> is an
  access outside the sector buffer.
\<close>

section \<open>State\<close>

definition ISO_SECTOR_SIZE :: nat where "ISO_SECTOR_SIZE = 2048"
definition ISO_IDE_SECS :: u32 where "ISO_IDE_SECS = 4"
definition ISO_PVD_SECTOR :: u32 where "ISO_PVD_SECTOR = 16"
definition ISO_FLAG_DIR :: u8 where "ISO_FLAG_DIR = 0x02"

record iso_vol =
  iv_drive :: u8
  iv_root_lba :: u32
  iv_root_size :: u32

record iso_ino =
  ii_vol :: nat
  ii_lba :: u32
  ii_size :: u32
  ii_is_dir :: bool

record iso9660 =
  io_ide :: ide_state
  io_fault :: "u32 \<Rightarrow> nat option"
  io_heap :: "u32 \<Rightarrow> u8 list option"
  io_vols :: "nat \<Rightarrow> iso_vol option"
  io_inos :: "nat \<Rightarrow> iso_ino option"
  io_next :: nat

type_synonym iso_world = "iso9660 fs_world"

definition iso_read_sector :: "iso9660 \<Rightarrow> iso_vol \<Rightarrow> u32 \<Rightarrow> u8 list \<Rightarrow> int \<times> u8 list" where
  "iso_read_sector s v lba buf =
     (let ide_lba = lba * ISO_IDE_SECS; (r, bytes) = ide_read (io_fault s ide_lba) (iv_drive v) ide_lba 4 (io_ide s)
      in (r, put_at buf 0 bytes))"

text \<open>The version suffix is cut off and letters become small; the result is the string without its terminator.\<close>

definition iso_clean_name :: "u8 list \<Rightarrow> cstr" where
  "iso_clean_name src = map (\<lambda>c. if 65 \<le> c \<and> c \<le> 90 then c + 32 else c) (takeWhile (\<lambda>c. c \<noteq> 59) src)"

section \<open>Reading a file\<close>

function iso_copy_loop :: "iso9660 \<Rightarrow> iso_vol \<Rightarrow> u32 \<Rightarrow> u32 \<Rightarrow> u32 \<Rightarrow> u32 \<Rightarrow> u8 list \<Rightarrow> u8 list \<Rightarrow> u8 list" where
  "iso_copy_loop s v lba sec_offset intra sz sec out =
     (if sz = 0 then out
      else
        let (r, sec) = iso_read_sector s v (lba + sec_offset) sec in
        if r \<noteq> 0 then out
        else
          let avail = 2048 - intra; chunk = (if sz < avail then sz else avail)
          in iso_copy_loop s v lba (sec_offset + 1) 0 (sz - chunk) sec (out @ take (unat chunk) (drop (unat intra) sec)))"
  by pat_completeness auto

termination
proof (relation "measures [\<lambda>(s, v, lba, so, intra, sz, sec, out). unat sz, \<lambda>(s, v, lba, so, intra, sz, sec, out). if intra = 2048 then 1 else 0]", goal_cases)
  case (2 s v lba so intra sz sec out p r sec' avail chunk)
  show ?case
  proof (cases "intra = 2048")
    case True
    then have "chunk = 0" using 2 by (simp add: word_less_nat_alt)
    then show ?thesis using True by simp
  next
    case False
    then have a: "0 < unat avail" using 2(5) by (auto simp: unat_gt_0)
    have "0 < unat chunk \<and> unat chunk \<le> unat sz" using 2(1,6) a by (auto simp: unat_gt_0 word_less_nat_alt)
    then have "unat (sz - chunk) < unat sz" by (simp add: unat_sub word_le_nat_alt)
    then show ?thesis by simp
  qed
qed simp

declare iso_copy_loop.simps [simp del]

definition iso9660_read :: "nat \<Rightarrow> u32 \<Rightarrow> u32 \<Rightarrow> iso_world \<Rightarrow> int \<times> u8 list" where
  "iso9660_read n offset sz w =
     (let s = fw_data w in
      case io_inos s (vn_fs_data (fw_nodes w ! n)) of
        None \<Rightarrow> (0, [])
      | Some ino \<Rightarrow>
          if offset \<ge> ii_size ino then (0, [])
          else
            let sz = (if offset + sz > ii_size ino then ii_size ino - offset else sz); v = the (io_vols s (ii_vol ino)) in
            case io_heap s 2048 of
              None \<Rightarrow> (- 1, [])
            | Some sec \<Rightarrow>
                let out = iso_copy_loop s v (ii_lba ino) (offset div 2048) (offset mod 2048) sz sec []
                in (sint (of_nat (length out) :: u32), out))"

section \<open>Directories\<close>

record iso_dirrec =
  ir_record_len :: nat
  ir_lba :: u32
  ir_data_len :: u32
  ir_flags :: u8
  ir_name :: "u8 list"

text \<open>The record at an offset of a sector; none when it extends past the sector buffer. A record of length 0 ends
  the sector, and only its first byte is read.\<close>

definition iso_dirrec_at :: "u8 list \<Rightarrow> nat \<Rightarrow> iso_dirrec option" where
  "iso_dirrec_at sec off =
     (if sec ! off = 0 then Some \<lparr>ir_record_len = 0, ir_lba = 0, ir_data_len = 0, ir_flags = 0, ir_name = []\<rparr>
      else if off + 33 > length sec \<or> off + 33 + unat (sec ! (off + 32)) > length sec then None
      else Some \<lparr>ir_record_len = unat (sec ! off), ir_lba = get32 sec (off + 2), ir_data_len = get32 sec (off + 10),
                 ir_flags = sec ! (off + 25), ir_name = take (unat (sec ! (off + 32))) (drop (off + 33) sec)\<rparr>)"

text \<open>\<open>readdir\<close>: the entry with the given number, or the count of entries seen.\<close>

function iso_readdir_scan :: "u8 list \<Rightarrow> u32 \<Rightarrow> nat \<Rightarrow> u32 \<Rightarrow> (iso_dirrec + u32) option" where
  "iso_readdir_scan sec index off dirs_seen =
     (if off \<ge> length sec then Some (Inr dirs_seen)
      else case iso_dirrec_at sec off of
        None \<Rightarrow> None
      | Some dr \<Rightarrow>
          if ir_record_len dr = 0 then Some (Inr dirs_seen)
          else if ir_name dr \<noteq> [] \<and> hd (ir_name dr) \<noteq> 0 \<and> hd (ir_name dr) \<noteq> 1 then
            (if dirs_seen = index then Some (Inl dr) else iso_readdir_scan sec index (off + ir_record_len dr) (dirs_seen + 1))
          else iso_readdir_scan sec index (off + ir_record_len dr) dirs_seen)"
  by pat_completeness auto

termination
  by (relation "measure (\<lambda>(sec, index, off, n). length sec - off)") auto

declare iso_readdir_scan.simps [simp del]

text \<open>\<open>finddir\<close> goes on after a hit, so the last matching record of the sector is the result; it stops when the heap
  has no room for the node of a hit.\<close>

function iso_finddir_scan :: "bool \<Rightarrow> u8 list \<Rightarrow> cstr \<Rightarrow> nat \<Rightarrow> iso_dirrec option \<Rightarrow> iso_dirrec option option" where
  "iso_finddir_scan can sec name off found =
     (if off \<ge> length sec then Some found
      else case iso_dirrec_at sec off of
        None \<Rightarrow> None
      | Some dr \<Rightarrow>
          if ir_record_len dr = 0 then Some found
          else if ir_name dr \<noteq> [] \<and> strcmp (iso_clean_name (ir_name dr)) name = 0 then
            (if can then iso_finddir_scan can sec name (off + ir_record_len dr) (Some dr) else Some None)
          else iso_finddir_scan can sec name (off + ir_record_len dr) found)"
  by pat_completeness auto

termination
  by (relation "measure (\<lambda>(can, sec, name, off, found). length sec - off)") auto

declare iso_finddir_scan.simps [simp del]

fun iso_dir_loop :: "(u8 list \<Rightarrow> u32 \<Rightarrow> (iso_dirrec + u32) option) \<Rightarrow> iso9660 \<Rightarrow> iso_vol \<Rightarrow> u32 \<Rightarrow> nat list \<Rightarrow> u32 \<Rightarrow> u8 list \<Rightarrow> iso_dirrec option option" where
  "iso_dir_loop visit s v lba [] n sec = Some None"
| "iso_dir_loop visit s v lba (k # ks) n sec =
     (let (r, sec) = iso_read_sector s v (lba + of_nat k) sec in
      if r \<noteq> 0 then Some None
      else case visit sec n of
             None \<Rightarrow> None
           | Some (Inl dr) \<Rightarrow> Some (Some dr)
           | Some (Inr n) \<Rightarrow> iso_dir_loop visit s v lba ks n sec)"

definition iso_sectors :: "iso_ino \<Rightarrow> nat list" where
  "iso_sectors ino = [0..<unat ((ii_size ino + 2048 - 1) div 2048)]"

definition iso_type :: "iso_dirrec \<Rightarrow> u32" where
  "iso_type dr = (if ir_flags dr AND ISO_FLAG_DIR \<noteq> 0 then VFS_DIR else VFS_FILE)"

definition iso9660_readdir :: "nat \<Rightarrow> u32 \<Rightarrow> vfs_dirent \<Rightarrow> iso_world \<Rightarrow> vfs_dirent option option" where
  "iso9660_readdir n index out w =
     (let s = fw_data w in
      case io_inos s (vn_fs_data (fw_nodes w ! n)) of
        None \<Rightarrow> Some None
      | Some ino \<Rightarrow>
          if \<not> ii_is_dir ino then Some None
          else case io_heap s 2048 of
                 None \<Rightarrow> Some None
               | Some sec \<Rightarrow>
                   map_option (map_option (\<lambda>dr. out\<lparr>de_name := put_at (de_name out) 0 (strncpy (iso_clean_name (ir_name dr)) 255),
                                                    de_inode := ir_lba dr, de_type := ucast (iso_type dr)\<rparr>))
                     (iso_dir_loop (\<lambda>b k. iso_readdir_scan b index 0 k) s (the (io_vols s (ii_vol ino))) (ii_lba ino) (iso_sectors ino) 0 sec))"

definition ISO_INO_BYTES :: u32 where "ISO_INO_BYTES = 16"
definition ISO_VOL_BYTES :: u32 where "ISO_VOL_BYTES = 12"
definition ISO_NODE_BYTES :: u32 where "ISO_NODE_BYTES = 308"

definition iso_new_node :: "u8 list \<Rightarrow> u32 \<Rightarrow> u32 \<Rightarrow> nat \<Rightarrow> iso_ino \<Rightarrow> iso_world \<Rightarrow> nat \<times> iso_world" where
  "iso_new_node name sz flags self ino w =
     (let s = fw_data w; a = io_next s in
      (length (fw_nodes w),
       w\<lparr>fw_nodes := fw_nodes w @ [node_zero\<lparr>vn_name := put_at (vn_name node_zero) 0 name, vn_size := sz, vn_flags := flags,
            vn_ops := Some self, vn_fs_data := a\<rparr>],
         fw_data := s\<lparr>io_inos := (io_inos s)(a \<mapsto> ino), io_next := a + 1\<rparr>\<rparr>))"

definition iso9660_finddir :: "nat \<Rightarrow> nat \<Rightarrow> cstr \<Rightarrow> iso_world \<Rightarrow> (nat option \<times> iso_world) option" where
  "iso9660_finddir self n name w =
     (let s = fw_data w; can = io_heap s ISO_INO_BYTES \<noteq> None \<and> io_heap s ISO_NODE_BYTES \<noteq> None in
      case io_inos s (vn_fs_data (fw_nodes w ! n)) of
        None \<Rightarrow> Some (None, w)
      | Some ino \<Rightarrow>
          if \<not> ii_is_dir ino then Some (None, w)
          else case io_heap s 2048 of
                 None \<Rightarrow> Some (None, w)
               | Some sec \<Rightarrow>
                   map_option (\<lambda>hit. case hit of
                       None \<Rightarrow> (None, w)
                     | Some dr \<Rightarrow>
                         let (k, w) = iso_new_node (strncpy (iso_clean_name (ir_name dr)) 255) (ir_data_len dr) (iso_type dr) self
                               \<lparr>ii_vol = ii_vol ino, ii_lba = ir_lba dr, ii_size = ir_data_len dr,
                                ii_is_dir = (ir_flags dr AND ISO_FLAG_DIR \<noteq> 0)\<rparr> w
                         in (Some k, w))
                     (iso_dir_loop (\<lambda>b k. map_option (\<lambda>f. case f of Some dr \<Rightarrow> Inl dr | None \<Rightarrow> Inr k) (iso_finddir_scan can b name 0 None))
                        s (the (io_vols s (ii_vol ino))) (ii_lba ino) (iso_sectors ino) 0 sec))"

section \<open>Mounting\<close>

definition iso9660_mount :: "nat \<Rightarrow> cstr option \<Rightarrow> u32 \<Rightarrow> iso_world \<Rightarrow> nat option \<times> iso_world" where
  "iso9660_mount self device flags w =
     (let s = fw_data w;
          c = (case device of Some d \<Rightarrow> chr (drop 3 d) | None \<Rightarrow> 0);
          drive = (if 48 \<le> c \<and> c \<le> 51 then c - 48 else 0);
          lba = ISO_PVD_SECTOR * ISO_IDE_SECS; (r, sec) = ide_read (io_fault s lba) drive lba 4 (io_ide s)
      in if io_heap s 2048 = None \<or> r \<noteq> 0 then (None, w)
         else if sec ! 0 \<noteq> 1 \<or> take 5 (drop 1 sec) \<noteq> asc ''CD001'' then (None, w)
         else if io_heap s ISO_VOL_BYTES = None \<or> io_heap s ISO_INO_BYTES = None \<or> io_heap s ISO_NODE_BYTES = None then (None, w)
         else
           let rec = drop 134 sec; a = io_next s;
               vol = \<lparr>iv_drive = drive, iv_root_lba = get32 rec 2, iv_root_size = get32 rec 10\<rparr>;
               (k, w) = iso_new_node (asc ''/'' @ [0]) 0 VFS_DIR self
                 \<lparr>ii_vol = a, ii_lba = iv_root_lba vol, ii_size = iv_root_size vol, ii_is_dir = True\<rparr>
                 (w\<lparr>fw_data := s\<lparr>io_vols := (io_vols s)(a \<mapsto> vol), io_next := a + 1\<rparr>\<rparr>)
           in (Some k, w))"

section \<open>Readable volumes\<close>

definition iso_ok :: "iso9660 \<Rightarrow> iso_vol \<Rightarrow> bool" where
  "iso_ok s v \<longleftrightarrow> ide_has (iv_drive v) (io_ide s) \<and> (\<forall>d l. length (ide_sectors (io_ide s) d l) = 512) \<and> (\<forall>l. io_fault s l = None) \<and>
     (\<exists>sec. io_heap s 2048 = Some sec \<and> length sec = 2048)"

definition iso_sector :: "iso9660 \<Rightarrow> iso_vol \<Rightarrow> u32 \<Rightarrow> u8 list" where
  "iso_sector s v lba = concat (map (\<lambda>i. ide_sectors (io_ide s) (unat (iv_drive v)) (take_bit 28 (lba * 4) + of_nat i)) [0..<4])"

definition iso_extent :: "iso9660 \<Rightarrow> iso_vol \<Rightarrow> u32 \<Rightarrow> nat \<Rightarrow> u8 list" where
  "iso_extent s v lba n = concat (map (\<lambda>k. iso_sector s v (lba + of_nat k)) [0..<n])"

lemma length_iso_sector: "iso_ok s v \<Longrightarrow> length (iso_sector s v lba) = 2048"
  by (simp add: iso_sector_def length_concat o_def sum_list_triv iso_ok_def)

lemma iso_read_sector_spec:
  assumes ok: "iso_ok s v" and "length buf = 2048"
  shows "iso_read_sector s v lba buf = (0, iso_sector s v lba)"
proof -
  have "ide_read None (iv_drive v) (lba * 4) 4 (io_ide s) = (0, iso_sector s v lba)"
    using ok by (simp add: ide_read_def iso_ok_def ata_lba_select iso_sector_def Let_def)
  then show ?thesis using ok length_iso_sector [OF ok, of lba] assms(2)
    by (simp add: iso_read_sector_def iso_ok_def ISO_IDE_SECS_def put_at_def)
qed

lemma iso_extent_blocks:
  assumes "iso_ok s v"
  shows "\<forall>b \<in> set (map (\<lambda>k. iso_sector s v (lba + of_nat k)) [0..<n]). length b = 2048" "length (iso_extent s v lba n) = n * 2048"
  using length_iso_sector [OF assms] length_concat_blocks [of "map (\<lambda>k. iso_sector s v (lba + of_nat k)) [0..<n]" 2048]
  by (simp_all add: iso_extent_def)

lemma iso_copy_loop_spec:
  assumes ok: "iso_ok s v"
  shows "unat so * 2048 + unat intra + unat sz \<le> n * 2048 \<Longrightarrow> n < 2 ^ 32 \<Longrightarrow> unat intra < 2048 \<Longrightarrow> length sec = 2048 \<Longrightarrow>
    iso_copy_loop s v lba so intra sz sec out = out @ take (unat sz) (drop (unat so * 2048 + unat intra) (iso_extent s v lba n))"
proof (induction "unat sz" arbitrary: so intra sz sec out rule: less_induct)
  case less
  let ?d = "iso_extent s v lba n" and ?a = "unat so * 2048 + unat intra"
  show ?case
  proof (cases "sz = 0")
    case True
    then show ?thesis by (subst iso_copy_loop.simps) simp
  next
    case False
    define c where "c = (if sz < 2048 - intra then sz else 2048 - intra)"
    have sub: "unat (2048 - intra) = 2048 - unat intra" using less.prems(3) by (subst unat_sub) (simp_all add: word_le_nat_alt)
    have c: "unat c = min (unat sz) (2048 - unat intra)" using sub by (auto simp: c_def word_less_nat_alt)
    have pos: "0 < unat sz" using False by (simp add: unat_gt_0)
    have rest: "unat (sz - c) = unat sz - unat c" using c by (simp add: unat_sub word_le_nat_alt)
    have so: "unat so < n" using less.prems(1,3) pos by linarith
    then have so1: "unat (so + 1) = Suc (unat so)" using less.prems(2) by (simp add: unat_word_ariths)
    have dm: "?a div 2048 = unat so" "?a mod 2048 = unat intra" using less.prems(3) by simp_all
    have piece: "take (unat c) (drop (unat intra) (iso_sector s v (lba + so))) = take (unat c) (drop ?a ?d)"
      using take_concat_block [OF iso_extent_blocks(1) [OF ok, of lba n], of ?a "unat c"] so c dm
      by (simp add: iso_extent_def)
    have more: "unat (so + 1) * 2048 + unat (0 :: u32) + unat (sz - c) \<le> n * 2048 \<and>
        take (unat (sz - c)) (drop (unat (so + 1) * 2048) ?d) = take (unat sz - unat c) (drop (?a + unat c) ?d)"
    proof (cases "unat sz \<le> 2048 - unat intra")
      case True
      then show ?thesis using c rest so so1 by simp
    next
      case f: False
      then have "?a + unat c = Suc (unat so) * 2048" using c less.prems(3) by simp
      then show ?thesis using f c rest so1 less.prems(1) by (simp add: add.commute)
    qed
    have "iso_copy_loop s v lba so intra sz sec out =
        iso_copy_loop s v lba (so + 1) 0 (sz - c) (iso_sector s v (lba + so)) (out @ take (unat c) (drop ?a ?d))"
      using False iso_read_sector_spec [OF ok less.prems(4), of "lba + so"] piece
      by (subst iso_copy_loop.simps) (simp add: c_def [symmetric] Let_def)
    also have "\<dots> = (out @ take (unat c) (drop ?a ?d)) @ take (unat (sz - c)) (drop (unat (so + 1) * 2048 + unat (0 :: u32)) ?d)"
      using more c pos less.prems(2,3) rest by (intro less.hyps) (simp_all add: length_iso_sector [OF ok] min_def)
    also have "\<dots> = out @ take (unat sz) (drop ?a ?d)"
      using more take_split [of "unat c" "unat sz" ?a ?d] c by simp
    finally show ?thesis .
  qed
qed

text \<open>on a readable disc a file reads back the bytes of its extent, cut at its size.\<close>

theorem iso9660_read_correct:
  assumes ok: "iso_ok (fw_data w) v" and ino: "io_inos (fw_data w) (vn_fs_data (fw_nodes w ! i)) = Some ino" "io_vols (fw_data w) (ii_vol ino) = Some v"
    and size: "unat (ii_size ino) \<le> n * 2048" "unat (ii_size ino) < 2 ^ 31" "n < 2 ^ 32" and nowrap: "unat off + unat sz < 2 ^ 32"
  shows "iso9660_read i off sz w =
    (let b = take (unat sz) (drop (unat off) (take (unat (ii_size ino)) (iso_extent (fw_data w) v (ii_lba ino) n))) in (int (length b), b))"
proof (cases "off \<ge> ii_size ino")
  case True
  then show ?thesis using ino by (simp add: iso9660_read_def word_le_nat_alt)
next
  case False
  let ?s = "fw_data w" and ?fs = "ii_size ino"
  let ?d = "iso_extent ?s v (ii_lba ino) n"
  obtain sec where sec: "io_heap ?s 2048 = Some sec" "length sec = 2048" using ok by (auto simp: iso_ok_def)
  define sz' where "sz' = (if off + sz > ?fs then ?fs - off else sz)"
  have sz': "unat sz' = min (unat sz) (unat ?fs - unat off)" unfolding sz'_def by (rule unat_clip [OF False nowrap])
  have od: "unat (off div 2048) * 2048 + unat (off mod 2048) = unat off" "unat (off mod 2048) < 2048"
    by (simp_all add: unat_div unat_mod)
  have lt: "unat off < unat ?fs" using False by (simp add: word_le_nat_alt)
  have fit: "unat (off div 2048) * 2048 + unat (off mod 2048) + unat sz' \<le> n * 2048" using od(1) sz' size(1) lt by simp
  have loop: "iso_copy_loop ?s v (ii_lba ino) (off div 2048) (off mod 2048) sz' sec [] = take (unat sz') (drop (unat off) ?d)"
    using iso_copy_loop_spec [OF ok fit size(3) od(2) sec(2), of "ii_lba ino" "[]"] od(1) by simp
  define b where "b = take (unat sz) (drop (unat off) (take (unat ?fs) ?d))"
  have b: "take (unat sz') (drop (unat off) ?d) = b" by (simp only: b_def sz' take_clip)
  have "sint (of_nat (length b) :: u32) = int (length b)" by (rule sint_length [OF _ size(2)]) (simp add: b_def)
  then have "iso9660_read i off sz w = (int (length b), b)"
    using False ino sec(1) loop by (simp add: iso9660_read_def sz'_def [symmetric] b Let_def)
  then show ?thesis by (simp add: b_def Let_def)
qed

section \<open>A small disc\<close>

text \<open>A file of 3000 bytes in the sectors 100 and 101.\<close>

definition iso_demo_world :: iso_world where
  "iso_demo_world = \<lparr>fw_nodes = [node_zero\<lparr>vn_fs_data := 1\<rparr>],
     fw_data = \<lparr>io_ide = \<lparr>ide_drives = [\<lparr>dr_exists = True, dr_base = 0x1F0, dr_ctrl = 0x3F6, dr_drive = 0, dr_channel = 0, dr_lba28 = 1000, dr_model = []\<rparr>],
         ide_count = 1, ide_sectors = (\<lambda>d l. if l < 404 then replicate 512 65 else replicate 512 66)\<rparr>,
       io_fault = (\<lambda>_. None), io_heap = (\<lambda>n. Some (replicate (unat n) 0)), io_vols = [0 \<mapsto> \<lparr>iv_drive = 0, iv_root_lba = 20, iv_root_size = 2048\<rparr>],
       io_inos = [1 \<mapsto> \<lparr>ii_vol = 0, ii_lba = 100, ii_size = 3000, ii_is_dir = False\<rparr>], io_next = 2\<rparr>\<rparr>"

lemma iso_demo_extent:
  "iso_extent (fw_data iso_demo_world) \<lparr>iv_drive = 0, iv_root_lba = 20, iv_root_size = 2048\<rparr> 100 2 = replicate 2048 65 @ replicate 2048 66"
  by (simp add: iso_extent_def iso_sector_def iso_demo_world_def upt_conv_Cons flip: replicate_add)

theorem iso9660_read_correct_witness: "iso9660_read 0 2046 4 iso_demo_world = (4, [65, 65, 66, 66])"
proof -
  let ?v = "\<lparr>iv_drive = 0, iv_root_lba = 20, iv_root_size = 2048\<rparr>" and ?ino = "\<lparr>ii_vol = 0, ii_lba = 100, ii_size = 3000, ii_is_dir = False\<rparr>"
  have ok: "iso_ok (fw_data iso_demo_world) ?v"
    unfolding iso_ok_def by (intro conjI exI [of _ "replicate 2048 0"]) (simp_all add: iso_demo_world_def ide_has_def IDE_MAX_DRIVES_def)
  have cut: "take 4 (drop 2046 (take 3000 (replicate 2048 65 @ replicate 2048 66))) = [65, 65, 66, 66 :: u8]"
    by (simp add: drop_replicate numeral_2_eq_2)
  have u: "unat (4 :: u32) = 4" "unat (2046 :: u32) = 2046" "unat (3000 :: u32) = 3000" by simp_all
  have "iso9660_read 0 2046 4 iso_demo_world =
      (let b = take (unat (4 :: u32)) (drop (unat (2046 :: u32)) (take (unat (ii_size ?ino)) (iso_extent (fw_data iso_demo_world) ?v (ii_lba ?ino) 2))) in (int (length b), b))"
    by (rule iso9660_read_correct [OF ok]) (simp_all add: iso_demo_world_def)
  then show ?thesis by (simp only: iso_ino.select_convs iso_demo_extent u cut Let_def) simp
qed

end
