(* ===== verification/Partition.thy ===== *)
theory Partition
  imports KFormat Ide
begin

text \<open>
  Partition tables (\<open>fs/partition.c\<close>, \<open>include/partition.h\<close>): the MBR and GPT layouts, read from the disk of \<open>Ide\<close>.
  \<open>fault\<close> tells which reads the drive fails, \<open>heap\<close> what \<open>kmalloc\<close> hands out for a size. The caller's table is not
  \<open>NULL\<close>. The result \<open>None\<close> is a read outside the buffer of entries.
\<close>

section \<open>Types\<close>

definition PART_MAX :: u32 where "PART_MAX = 128"
definition PART_TYPE_EMPTY :: u8 where "PART_TYPE_EMPTY = 0x00"
definition PART_TYPE_GPT :: u8 where "PART_TYPE_GPT = 0xEE"
definition GPT_SIGNATURE :: u64 where "GPT_SIGNATURE = 0x5452415020494645"

record partition =
  pt_type :: u8
  pt_lba_start :: u64
  pt_lba_size :: u64
  pt_bootable :: bool
  pt_label :: "u8 list"

record partition_table =
  tb_count :: u32
  tb_is_gpt :: bool
  tb_parts :: "partition list"

definition partition_zero :: partition where
  "partition_zero = \<lparr>pt_type = 0, pt_lba_start = 0, pt_lba_size = 0, pt_bootable = False, pt_label = replicate 36 0\<rparr>"

definition partition_table_zero :: partition_table where
  "partition_table_zero = \<lparr>tb_count = 0, tb_is_gpt = False, tb_parts = replicate (unat PART_MAX) partition_zero\<rparr>"

text \<open>\<open>table->parts[table->count++]\<close> filled in.\<close>

definition add_part :: "(partition \<Rightarrow> partition) \<Rightarrow> partition_table \<Rightarrow> partition_table" where
  "add_part f t = t\<lparr>tb_parts := (tb_parts t)[unat (tb_count t) := f (tb_parts t ! unat (tb_count t))], tb_count := tb_count t + 1\<rparr>"

section \<open>Decoding\<close>

text \<open>The characters stored from a name in UTF-16, with the terminator.\<close>

definition utf16_to_ascii :: "u16 list \<Rightarrow> nat \<Rightarrow> u8 list" where
  "utf16_to_ascii src room = map (\<lambda>c. if c < 0x80 then ucast c else 63) (takeWhile (\<lambda>c. c \<noteq> 0) (take (room - 1) src)) @ [0]"

definition guid_is_zero :: "u8 list \<Rightarrow> bool" where
  "guid_is_zero g \<longleftrightarrow> (\<forall>b \<in> set g. b = 0)"

record mbr_entry =
  me_status :: u8
  me_type :: u8
  me_lba_start :: u32
  me_lba_size :: u32

definition mbr_entry_at :: "u8 list \<Rightarrow> nat \<Rightarrow> mbr_entry" where
  "mbr_entry_at sector i =
     (let o' = 446 + 16 * i in
      \<lparr>me_status = sector ! o', me_type = sector ! (o' + 4), me_lba_start = get32 sector (o' + 8), me_lba_size = get32 sector (o' + 12)\<rparr>)"

record gpt_entry =
  ge_type_guid :: "u8 list"
  ge_start_lba :: u64
  ge_end_lba :: u64
  ge_attributes :: u64
  ge_name :: "u16 list"

definition gpt_entry_at :: "u8 list \<Rightarrow> nat \<Rightarrow> gpt_entry" where
  "gpt_entry_at b o' = \<lparr>ge_type_guid = take 16 (drop o' b), ge_start_lba = get64 b (o' + 32), ge_end_lba = get64 b (o' + 40),
     ge_attributes = get64 b (o' + 48), ge_name = map (\<lambda>i. get16 b (o' + 56 + 2 * i)) [0..<36]\<rparr>"

section \<open>Reading a table\<close>

text \<open>\<open>snprintf(p->label, sizeof(p->label), "part%d", i + 1)\<close>\<close>

definition mbr_label :: "nat \<Rightarrow> u8 list \<Rightarrow> u8 list" where
  "mbr_label i label = (case vsnprintf label 36 (asc ''part%d'') [AInt (of_nat i + 1)] of Some (l, _) \<Rightarrow> l | None \<Rightarrow> label)"

fun mbr_loop :: "u8 list \<Rightarrow> nat list \<Rightarrow> partition_table \<Rightarrow> partition_table" where
  "mbr_loop sector [] t = t"
| "mbr_loop sector (i # is) t =
     (let e = mbr_entry_at sector i in
      if me_type e = PART_TYPE_EMPTY then mbr_loop sector is t
      else mbr_loop sector is (add_part (\<lambda>p. p\<lparr>pt_type := me_type e, pt_lba_start := ucast (me_lba_start e), pt_lba_size := ucast (me_lba_size e),
             pt_bootable := (me_status e = 0x80), pt_label := mbr_label i (pt_label p)\<rparr>) t))"

text \<open>The loop over the entries of a GPT; the offset \<open>i * entry_size\<close> wraps.\<close>

fun gpt_loop :: "u8 list \<Rightarrow> u32 \<Rightarrow> nat list \<Rightarrow> partition_table \<Rightarrow> partition_table option" where
  "gpt_loop buf entry_size [] t = Some t"
| "gpt_loop buf entry_size (i # is) t =
     (let o' = unat (of_nat i * entry_size) in
      if o' + 128 > length buf then None
      else
        let e = gpt_entry_at buf o' in
        if guid_is_zero (ge_type_guid e) then gpt_loop buf entry_size is t
        else gpt_loop buf entry_size is (add_part (\<lambda>p. p\<lparr>pt_type := 0, pt_lba_start := ge_start_lba e, pt_lba_size := ge_end_lba e - ge_start_lba e + 1,
               pt_bootable := (ge_attributes e AND 4 \<noteq> 0), pt_label := put_at (pt_label p) 0 (utf16_to_ascii (ge_name e) 36)\<rparr>) t))"

definition partition_read_gpt :: "(u32 \<Rightarrow> nat option) \<Rightarrow> (u32 \<Rightarrow> u8 list option) \<Rightarrow> u8 \<Rightarrow> ide_state \<Rightarrow> partition_table \<Rightarrow> (int \<times> partition_table) option" where
  "partition_read_gpt fault heap drive s t =
     (let (r, hdr) = ide_read (fault 1) drive 1 1 s in
      if r \<noteq> 0 then Some (- 1, t)
      else if get64 hdr 0 \<noteq> GPT_SIGNATURE then Some (- 1, t)
      else
        let n = get32 hdr 80; max_entries = (if n > PART_MAX then PART_MAX else n); entry_size = get32 hdr 84; entry_lba = get64 hdr 72;
            k = (max_entries * entry_size + 512 - 1) div 512; sectors_needed = (if k > 32 then 32 else k)
        in case heap (sectors_needed * 512) of
             None \<Rightarrow> Some (- 1, t)
           | Some blk \<Rightarrow>
               let lba = ucast entry_lba; (r, bytes) = ide_read (fault lba) drive lba (ucast sectors_needed) s; buf = put_at blk 0 bytes in
               if r \<noteq> 0 then Some (- 1, t)
               else map_option (\<lambda>t. (0, t)) (gpt_loop buf entry_size [0..<unat max_entries] t))"

definition partition_read :: "(u32 \<Rightarrow> nat option) \<Rightarrow> (u32 \<Rightarrow> u8 list option) \<Rightarrow> u8 \<Rightarrow> ide_state \<Rightarrow> (int \<times> partition_table) option" where
  "partition_read fault heap drive s =
     (let t = partition_table_zero; (r, sector) = ide_read (fault 0) drive 0 1 s in
      if r \<noteq> 0 then Some (- 1, t)
      else if get16 sector 510 \<noteq> 0xAA55 then Some (- 1, t)
      else if \<exists>i \<in> {0..<4}. me_type (mbr_entry_at sector i) = PART_TYPE_GPT then partition_read_gpt fault heap drive s (t\<lparr>tb_is_gpt := True\<rparr>)
      else Some (0, mbr_loop sector [0..<4] (t\<lparr>tb_is_gpt := False\<rparr>)))"

section \<open>The partitions of a table\<close>

definition table_parts :: "partition_table \<Rightarrow> partition list" where
  "table_parts t = take (unat (tb_count t)) (tb_parts t)"

text \<open>A table that still has the zeroed slots after its partitions.\<close>

definition table_inv :: "partition_table \<Rightarrow> bool" where
  "table_inv t \<longleftrightarrow> length (tb_parts t) = 128 \<and> unat (tb_count t) \<le> 128 \<and>
     drop (unat (tb_count t)) (tb_parts t) = replicate (128 - unat (tb_count t)) partition_zero"

lemma table_inv_zero: "table_inv partition_table_zero" "table_parts partition_table_zero = []"
  by (simp_all add: table_inv_def table_parts_def partition_table_zero_def PART_MAX_def)

lemma add_part_spec:
  assumes "table_inv t" "unat (tb_count t) < 128"
  shows "table_inv (add_part f t)" "table_parts (add_part f t) = table_parts t @ [f partition_zero]"
    "unat (tb_count (add_part f t)) = Suc (unat (tb_count t))" "tb_is_gpt (add_part f t) = tb_is_gpt t"
proof -
  let ?n = "unat (tb_count t)"
  have len: "length (tb_parts t) = 128" and d: "drop ?n (tb_parts t) = replicate (128 - ?n) partition_zero"
    using assms(1) by (simp_all add: table_inv_def)
  have n1: "unat (tb_count t + 1) = Suc ?n" using assms(2) by (simp add: unat_word_ariths)
  have "128 - ?n = Suc (128 - Suc ?n)" using assms(2) by simp
  then have c: "tb_parts t ! ?n # drop (Suc ?n) (tb_parts t) = partition_zero # replicate (128 - Suc ?n) partition_zero"
    using d assms(2) len by (simp add: Cons_nth_drop_Suc)
  then show "table_inv (add_part f t)" "table_parts (add_part f t) = table_parts t @ [f partition_zero]"
    using assms(2) len n1 by (simp_all add: table_inv_def table_parts_def add_part_def take_Suc_conv_app_nth)
  show "unat (tb_count (add_part f t)) = Suc ?n" "tb_is_gpt (add_part f t) = tb_is_gpt t"
    using n1 by (simp_all add: add_part_def)
qed

definition mbr_partition :: "nat \<Rightarrow> mbr_entry \<Rightarrow> partition" where
  "mbr_partition i e = \<lparr>pt_type = me_type e, pt_lba_start = ucast (me_lba_start e), pt_lba_size = ucast (me_lba_size e),
     pt_bootable = (me_status e = 0x80), pt_label = asc ''part'' @ [49 + of_nat i] @ replicate 31 0\<rparr>"

lemma mbr_label_eq: "i < 4 \<Longrightarrow> mbr_label i (replicate 36 0) = asc ''part'' @ [49 + of_nat i] @ replicate 31 0"
proof -
  assume "i < 4"
  then consider "i = 0" | "i = 1" | "i = 2" | "i = 3" by linarith
  moreover have "mbr_label 0 (replicate 36 0) = asc ''part'' @ [49 + of_nat 0] @ replicate 31 0"
    "mbr_label 1 (replicate 36 0) = asc ''part'' @ [49 + of_nat 1] @ replicate 31 0"
    "mbr_label 2 (replicate 36 0) = asc ''part'' @ [49 + of_nat 2] @ replicate 31 0"
    "mbr_label 3 (replicate 36 0) = asc ''part'' @ [49 + of_nat 3] @ replicate 31 0" by code_simp+
  ultimately show ?thesis by cases (simp_all only:)
qed

lemma mbr_loop_spec:
  assumes "table_inv t" "unat (tb_count t) + length is \<le> 128" "\<forall>i \<in> set is. i < 4"
  shows "table_inv (mbr_loop sector is t) \<and> tb_is_gpt (mbr_loop sector is t) = tb_is_gpt t \<and>
    table_parts (mbr_loop sector is t) = table_parts t @
      map (\<lambda>i. mbr_partition i (mbr_entry_at sector i)) (filter (\<lambda>i. me_type (mbr_entry_at sector i) \<noteq> PART_TYPE_EMPTY) is)"
  using assms
proof (induction sector "is" t rule: mbr_loop.induct)
  case (2 sector i js t)
  show ?case
  proof (cases "me_type (mbr_entry_at sector i) = PART_TYPE_EMPTY")
    case True
    then show ?thesis using 2 by simp
  next
    case False
    let ?e = "mbr_entry_at sector i"
    let ?f = "\<lambda>p. p\<lparr>pt_type := me_type ?e, pt_lba_start := ucast (me_lba_start ?e), pt_lba_size := ucast (me_lba_size ?e),
             pt_bootable := (me_status ?e = 0x80), pt_label := mbr_label i (pt_label p)\<rparr>"
    have n: "unat (tb_count t) < 128" using 2(4) by simp
    note a = add_part_spec [OF 2(3) n, of ?f]
    have "?f partition_zero = mbr_partition i ?e" using 2(5) by (simp add: partition_zero_def mbr_partition_def mbr_label_eq)
    then show ?thesis using 2(2) [OF refl False a(1)] 2(4,5) a(2-4) False by (simp add: Let_def)
  qed
qed simp

definition gpt_partition :: "gpt_entry \<Rightarrow> partition" where
  "gpt_partition e = \<lparr>pt_type = 0, pt_lba_start = ge_start_lba e, pt_lba_size = ge_end_lba e - ge_start_lba e + 1,
     pt_bootable = (ge_attributes e AND 4 \<noteq> 0), pt_label = put_at (replicate 36 0) 0 (utf16_to_ascii (ge_name e) 36)\<rparr>"

lemma gpt_loop_spec:
  assumes "table_inv t" "unat (tb_count t) + length is \<le> 128" "gpt_loop buf entry_size is t = Some t'"
  shows "table_inv t' \<and> tb_is_gpt t' = tb_is_gpt t \<and>
    table_parts t' = table_parts t @ map gpt_partition (filter (\<lambda>e. \<not> guid_is_zero (ge_type_guid e))
      (map (\<lambda>i. gpt_entry_at buf (unat (of_nat i * entry_size))) is))"
  using assms
proof (induction buf entry_size "is" t rule: gpt_loop.induct)
  case (2 buf entry_size i js t)
  let ?o = "unat (of_nat i * entry_size)"
  have o: "\<not> ?o + 128 > length buf" using 2(5) by (auto simp: Let_def split: if_splits)
  show ?case
  proof (cases "guid_is_zero (ge_type_guid (gpt_entry_at buf ?o))")
    case True
    then show ?thesis using 2(1) [OF refl o refl True 2(3)] 2(4,5) o by (simp add: Let_def)
  next
    case False
    let ?e = "gpt_entry_at buf ?o"
    let ?f = "\<lambda>p. p\<lparr>pt_type := 0, pt_lba_start := ge_start_lba ?e, pt_lba_size := ge_end_lba ?e - ge_start_lba ?e + 1,
               pt_bootable := (ge_attributes ?e AND 4 \<noteq> 0), pt_label := put_at (pt_label p) 0 (utf16_to_ascii (ge_name ?e) 36)\<rparr>"
    have n: "unat (tb_count t) < 128" using 2(4) by simp
    note a = add_part_spec [OF 2(3) n, of ?f]
    have g: "gpt_loop buf entry_size js (add_part ?f t) = Some t'" using 2(5) o False by (simp add: Let_def)
    have "?f partition_zero = gpt_partition ?e" by (simp add: partition_zero_def gpt_partition_def)
    then show ?thesis using 2(2) [OF refl o refl False a(1) _ g] 2(4) a(2-4) False by simp
  qed
qed simp

lemma gpt_loop_total:
  "\<forall>i \<in> set is. unat (of_nat i * entry_size) + 128 \<le> length buf \<Longrightarrow> gpt_loop buf entry_size is t \<noteq> None"
  by (induction buf entry_size "is" t rule: gpt_loop.induct) (simp_all add: Let_def)

text \<open>Without a protective entry, the table lists the used entries of the MBR in order, named \<open>part1\<close> to \<open>part4\<close>.\<close>

theorem partition_read_mbr:
  assumes disk: "ide_read (fault 0) drive 0 1 s = (0, sector)" "get16 sector 510 = 0xAA55"
    and no: "\<not> (\<exists>i \<in> {0..<4}. me_type (mbr_entry_at sector i) = PART_TYPE_GPT)"
  shows "\<exists>t. partition_read fault heap drive s = Some (0, t) \<and> \<not> tb_is_gpt t \<and> table_parts t =
    map (\<lambda>i. mbr_partition i (mbr_entry_at sector i)) (filter (\<lambda>i. me_type (mbr_entry_at sector i) \<noteq> PART_TYPE_EMPTY) [0..<4])"
proof -
  let ?t = "partition_table_zero\<lparr>tb_is_gpt := False\<rparr>"
  have z: "table_inv ?t" "unat (tb_count ?t) + length [0..<4] \<le> 128" "table_parts ?t = []"
    using table_inv_zero by (simp_all add: table_inv_def table_parts_def partition_table_zero_def)
  have "partition_read fault heap drive s = Some (0, mbr_loop sector [0..<4] ?t)"
    using disk no by (simp add: partition_read_def Let_def del: bex_simps)
  then show ?thesis using mbr_loop_spec [OF z(1,2), of sector] z(3) by simp
qed

lemma gpt_sectors:
  assumes "k \<le> 128"
  shows "(of_nat k * 128 + 512 - 1) div 512 = (of_nat ((k * 128 + 511) div 512) :: u32)" "(k * 128 + 511) div 512 \<le> 32"
proof -
  show le: "(k * 128 + 511) div 512 \<le> 32" using assms by simp
  have "of_nat k * 128 + 512 - 1 = (of_nat (k * 128 + 511) :: u32)" by simp
  then have "unat (of_nat k * 128 + 512 - 1 :: u32) = k * 128 + 511" using assms by (simp only: unat_of_nat) simp
  then have "unat ((of_nat k * 128 + 512 - 1) div 512 :: u32) = (k * 128 + 511) div 512" by (simp only: unat_div) simp
  moreover have "unat (of_nat ((k * 128 + 511) div 512) :: u32) = (k * 128 + 511) div 512" using le by (simp only: unat_of_nat) simp
  ultimately show "(of_nat k * 128 + 512 - 1) div 512 = (of_nat ((k * 128 + 511) div 512) :: u32)" by (simp only: word_unat_eq_iff)
qed

text \<open>behind a protective MBR, \<open>partition_read\<close> lists in order the used ones of the first 128 entries of the GPT.\<close>

theorem partition_read_gpt_correct:
  assumes disk: "ide_read (fault 0) drive 0 1 s = (0, sector)" "get16 sector 510 = 0xAA55"
      "\<exists>i \<in> {0..<4}. me_type (mbr_entry_at sector i) = PART_TYPE_GPT"
    and hdr: "ide_read (fault 1) drive 1 1 s = (0, hdr)" "get64 hdr 0 = GPT_SIGNATURE" "get32 hdr 84 = 128"
    and k: "k = min 128 (unat (get32 hdr 80))" "m = (k * 128 + 511) div 512" "lba = ucast (get64 hdr 72)"
    and buf: "heap (of_nat m * 512) = Some blk" "length blk = m * 512"
      "ide_read (fault lba) drive lba (of_nat m) s = (0, entries)" "length entries = m * 512"
  shows "\<exists>t. partition_read fault heap drive s = Some (0, t) \<and> tb_is_gpt t \<and> table_parts t =
    map gpt_partition (filter (\<lambda>e. \<not> guid_is_zero (ge_type_guid e)) (map (\<lambda>i. gpt_entry_at entries (i * 128)) [0..<k]))"
proof -
  let ?t = "partition_table_zero\<lparr>tb_is_gpt := True\<rparr>"
  have k128: "k \<le> 128" using k(1) by simp
  have uk: "unat (of_nat k :: u32) = k" using k128 by (simp only: unat_of_nat) simp
  have kw: "(if get32 hdr 80 > PART_MAX then PART_MAX else get32 hdr 80) = of_nat k"
    using k(1) uk by (simp add: word_unat_eq_iff PART_MAX_def word_less_nat_alt min_def)
  note sec = gpt_sectors [OF k128, folded k(2)]
  have um: "unat (of_nat m :: u32) = m" using sec(2) by (simp only: unat_of_nat) simp
  have le: "(if (of_nat m :: u32) > 32 then 32 else of_nat m) = (of_nat m :: u32)" using sec(2) um by (simp add: word_less_nat_alt)
  have uc: "ucast (of_nat m :: u32) = (of_nat m :: u8)" using sec(2) um by (simp add: word_unat_eq_iff unsigned_ucast_eq unat_of_nat take_bit_nat_eq_self)
  have z: "table_inv ?t" "unat (tb_count ?t) + length [0..<k] \<le> 128" "table_parts ?t = []"
    using table_inv_zero k128 by (simp_all add: table_inv_def table_parts_def partition_table_zero_def)
  have off: "unat (of_nat i * 128 :: u32) = i * 128" if "i < k" for i
  proof -
    have "of_nat i * 128 = (of_nat (i * 128) :: u32)" by simp
    then show ?thesis using that k128 by (simp only: unat_of_nat) simp
  qed
  have pb: "put_at blk 0 entries = entries" using buf(2,4) by (simp add: put_at_def)
  have room: "k * 128 \<le> m * 512" 
    unfolding k(2) using div_mult_mod_eq [of "k * 128 + 511" 512] mod_less_divisor [of 512 "k * 128 + 511"] by linarith
  have "\<forall>i \<in> set [0..<k]. unat (of_nat i * 128 :: u32) + 128 \<le> length entries"
    using off room buf(4) by auto
  then have "gpt_loop entries 128 [0..<k] ?t \<noteq> None" by (rule gpt_loop_total)
  then obtain t where t: "gpt_loop entries 128 [0..<k] ?t = Some t" by blast
  have g: "partition_read_gpt fault heap drive s ?t = Some (0, t)"
    unfolding partition_read_gpt_def Let_def hdr(1) prod.case hdr(3) kw uk sec(1) le uc buf(1) option.case k(3) [symmetric] buf(3) pb t
    by (simp only: hdr(2) simp_thms if_False option.map)
  have "partition_read fault heap drive s = Some (0, t)"
    unfolding partition_read_def Let_def disk(1) prod.case by (simp only: disk(2,3) g simp_thms if_False if_True)
  moreover have m: "map (\<lambda>i. gpt_entry_at entries (unat (of_nat i * 128 :: u32))) [0..<k] = map (\<lambda>i. gpt_entry_at entries (i * 128)) [0..<k]"
    using off by simp
  ultimately show ?thesis using gpt_loop_spec [OF z(1,2) t, unfolded m z(3)] by simp
qed

text \<open>With entries of 4096 bytes, the ninth lies outside the 32 sectors that are read at most.\<close>

lemma gpt_entry_outside: "length buf = 32 * 512 \<Longrightarrow> 4 \<in> set is \<Longrightarrow> gpt_loop buf 4096 is t = None"
  by (induction buf "4096 :: u32" "is" t rule: gpt_loop.induct) (auto simp: Let_def)

section \<open>A small disk\<close>

text \<open>A protective MBR, a GPT header for four entries at sector 2, and one partition from sector 2048 to 4095 named \<open>D\<close>.\<close>

definition gpt_demo_mbr :: "u8 list" where
  "gpt_demo_mbr = replicate 450 0 @ [0xEE] @ replicate 59 0 @ [0x55, 0xAA]"

definition gpt_demo_hdr :: "u8 list" where
  "gpt_demo_hdr = asc ''EFI PART'' @ replicate 64 0 @ bytes32 2 @ bytes32 0 @ bytes32 4 @ bytes32 128 @ replicate 424 0"

definition gpt_demo_entries :: "u8 list" where
  "gpt_demo_entries = replicate 16 1 @ replicate 16 2 @ bytes32 2048 @ bytes32 0 @ bytes32 4095 @ bytes32 0 @ replicate 8 0 @ bytes16 68 @ replicate 454 0"

definition gpt_demo :: ide_state where
  "gpt_demo = \<lparr>ide_drives = [\<lparr>dr_exists = True, dr_base = 0x1F0, dr_ctrl = 0x3F6, dr_drive = 0, dr_channel = 0, dr_lba28 = 9000, dr_model = []\<rparr>],
     ide_count = 1, ide_sectors = (\<lambda>d l. if l = 0 then gpt_demo_mbr else if l = 1 then gpt_demo_hdr else gpt_demo_entries)\<rparr>"

lemma gpt_demo_reads:
  "ide_read None 0 0 1 gpt_demo = (0, gpt_demo_mbr)" "ide_read None 0 1 1 gpt_demo = (0, gpt_demo_hdr)"
  "ide_read None 0 2 1 gpt_demo = (0, gpt_demo_entries)"
  by (simp_all add: ide_read_def ide_has_def IDE_MAX_DRIVES_def gpt_demo_def ata_lba_select Let_def)

lemma gpt_demo_fields:
  "get16 gpt_demo_mbr 510 = 0xAA55" "me_type (mbr_entry_at gpt_demo_mbr 0) = PART_TYPE_GPT" "get64 gpt_demo_hdr 0 = GPT_SIGNATURE"
  "get32 gpt_demo_hdr 84 = 128" "get32 gpt_demo_hdr 80 = 4" "get64 gpt_demo_hdr 72 = 2"
  by code_simp+

lemma gpt_demo_partitions:
  "map (\<lambda>p. (pt_lba_start p, pt_lba_size p)) (map gpt_partition (filter (\<lambda>e. \<not> guid_is_zero (ge_type_guid e))
     (map (\<lambda>i. gpt_entry_at gpt_demo_entries (i * 128)) [0..<4]))) = [(2048, 2048)]"
  by code_simp

theorem partition_read_gpt_correct_witness:
  "\<exists>t. partition_read (\<lambda>_. None) (\<lambda>k. Some (replicate (unat k) 0)) 0 gpt_demo = Some (0, t) \<and> tb_is_gpt t \<and>
     map (\<lambda>p. (pt_lba_start p, pt_lba_size p)) (table_parts t) = [(2048, 2048)]"
proof -
  have ex: "\<exists>i \<in> {0..<4}. me_type (mbr_entry_at gpt_demo_mbr i) = PART_TYPE_GPT"
    using gpt_demo_fields(2) by (intro bexI [of _ 0]) simp_all
  have n: "4 = min 128 (unat (get32 gpt_demo_hdr 80))" "1 = (4 * 128 + 511) div (512 :: nat)" "2 = (ucast (get64 gpt_demo_hdr 72) :: u32)"
    unfolding gpt_demo_fields by simp_all
  have len: "length gpt_demo_entries = 1 * 512" by (simp add: gpt_demo_entries_def)
  have blk: "Some (replicate (unat (of_nat 1 * 512 :: u32)) 0) = Some (replicate 512 (0 :: u8))" by simp
  have len0: "length (replicate 512 (0 :: u8)) = 1 * 512" by simp
  have e: "ide_read None 0 2 (of_nat 1) gpt_demo = (0, gpt_demo_entries)" using gpt_demo_reads(3) by simp
  have "\<exists>t. partition_read (\<lambda>_. None) (\<lambda>k. Some (replicate (unat k) 0)) 0 gpt_demo = Some (0, t) \<and> tb_is_gpt t \<and> table_parts t =
      map gpt_partition (filter (\<lambda>e. \<not> guid_is_zero (ge_type_guid e)) (map (\<lambda>i. gpt_entry_at gpt_demo_entries (i * 128)) [0..<4]))"
    by (rule partition_read_gpt_correct [where fault = "\<lambda>_. None" and drive = 0 and s = gpt_demo and sector = gpt_demo_mbr
          and hdr = gpt_demo_hdr and k = 4 and m = 1 and lba = 2 and heap = "\<lambda>k. Some (replicate (unat k) 0)"
          and blk = "replicate 512 0" and entries = gpt_demo_entries,
          OF gpt_demo_reads(1) gpt_demo_fields(1) ex gpt_demo_reads(2) gpt_demo_fields(3,4) n blk len0 e len])
  then obtain t where t: "partition_read (\<lambda>_. None) (\<lambda>k. Some (replicate (unat k) 0)) 0 gpt_demo = Some (0, t)" "tb_is_gpt t"
    "table_parts t = map gpt_partition (filter (\<lambda>e. \<not> guid_is_zero (ge_type_guid e)) (map (\<lambda>i. gpt_entry_at gpt_demo_entries (i * 128)) [0..<4]))"
    by (elim exE conjE)
  show ?thesis by (intro exI [of _ t] conjI t(1,2)) (simp only: t(3) gpt_demo_partitions)
qed

end
