(* ===== verification/NetBytes.thy ===== *)
theory NetBytes
  imports Prelude
begin

text \<open>
  Network byte order. A received packet is the memory from its first byte on, a function from offsets;
  a packet that is built is a list of bytes. \<open>HTONS\<close> and \<open>HTONL\<close> of \<open>include/net.h\<close> appear as the
  big-endian bytes they put in memory on the little-endian processor.
\<close>

text \<open>A big-endian halfword and its bytes.\<close>

definition be16_at :: "(nat \<Rightarrow> u8) \<Rightarrow> nat \<Rightarrow> u16" where
  "be16_at pkt i = push_bit 8 (ucast (pkt i)) OR ucast (pkt (i + 1))"

definition be16_bytes :: "u16 \<Rightarrow> u8 list" where
  "be16_bytes v = [ucast (drop_bit 8 v), ucast v]"

definition be32_at :: "(nat \<Rightarrow> u8) \<Rightarrow> nat \<Rightarrow> u32" where
  "be32_at pkt i = push_bit 24 (ucast (pkt i)) OR push_bit 16 (ucast (pkt (i + 1))) OR
     push_bit 8 (ucast (pkt (i + 2))) OR ucast (pkt (i + 3))"

definition be32_bytes :: "u32 \<Rightarrow> u8 list" where
  "be32_bytes v = [ucast (drop_bit 24 v), ucast (drop_bit 16 v), ucast (drop_bit 8 v), ucast v]"

text \<open>The packet has the bytes \<open>bs\<close> at offset \<open>i\<close>.\<close>

definition has_at :: "(nat \<Rightarrow> u8) \<Rightarrow> nat \<Rightarrow> u8 list \<Rightarrow> bool" where
  "has_at pkt i bs \<longleftrightarrow> (\<forall>k < length bs. pkt (i + k) = bs ! k)"

lemma has_at_append: "has_at pkt i (a @ b) \<longleftrightarrow> has_at pkt i a \<and> has_at pkt (i + length a) b"
proof
  assume h: "has_at pkt i (a @ b)"
  have "pkt (i + length a + k) = b ! k" if "k < length b" for k
    using h [unfolded has_at_def, rule_format, of "length a + k"] that by (simp add: add.assoc)
  then show "has_at pkt i a \<and> has_at pkt (i + length a) b" using h by (auto simp: has_at_def nth_append)
next
  assume h: "has_at pkt i a \<and> has_at pkt (i + length a) b"
  show "has_at pkt i (a @ b)" unfolding has_at_def
  proof (intro allI impI)
    fix k assume "k < length (a @ b)"
    then show "pkt (i + k) = (a @ b) ! k"
      using h [THEN conjunct1, unfolded has_at_def, rule_format, of k]
        h [THEN conjunct2, unfolded has_at_def, rule_format, of "k - length a"]
      by (cases "k < length a") (auto simp: nth_append)
  qed
qed

lemma has_at_Cons: "has_at pkt i (x # bs) \<longleftrightarrow> pkt i = x \<and> has_at pkt (Suc i) bs"
  using has_at_append [of pkt i "[x]" bs] by (simp add: has_at_def)

lemma has_at_map: "has_at pkt i bs \<Longrightarrow> map (\<lambda>k. pkt (i + k)) [0..<length bs] = bs"
  by (rule nth_equalityI) (simp_all add: has_at_def)

definition pkt_of :: "u8 list \<Rightarrow> nat \<Rightarrow> u8" where
  "pkt_of bs i = (if i < length bs then bs ! i else 0)"

lemma has_at_pkt_of [simp]: "has_at (pkt_of bs) 0 bs"
  by (simp add: has_at_def pkt_of_def)

lemma length_be16_bytes [simp]: "length (be16_bytes v) = 2"
  by (simp add: be16_bytes_def)

lemma be16_at_bytes: "has_at pkt i (be16_bytes v) \<Longrightarrow> be16_at pkt i = v"
  by (auto simp: be16_bytes_def has_at_Cons be16_at_def intro!: bit_word_eqI)
    (auto simp: bit_simps)

lemma length_be32_bytes [simp]: "length (be32_bytes v) = 4"
  by (simp add: be32_bytes_def)

lemma be32_join:
  "(push_bit 24 (ucast (ucast (drop_bit 24 v) :: u8)) OR push_bit 16 (ucast (ucast (drop_bit 16 v) :: u8)) OR
    push_bit 8 (ucast (ucast (drop_bit 8 v) :: u8)) OR ucast (ucast v :: u8) :: u32) = v"
proof (rule bit_word_eqI)
  fix n assume "n < LENGTH(32)"
  then consider "n < 8" | "8 \<le> n" "n < 16" | "16 \<le> n" "n < 24" | "24 \<le> n" "n < 32" by force
  then show "bit (push_bit 24 (ucast (ucast (drop_bit 24 v) :: u8)) OR push_bit 16 (ucast (ucast (drop_bit 16 v) :: u8)) OR
    push_bit 8 (ucast (ucast (drop_bit 8 v) :: u8)) OR ucast (ucast v :: u8) :: u32) n \<longleftrightarrow> bit v n"
    by cases (auto simp: bit_simps)
qed

lemma be32_at_bytes: "has_at pkt i (be32_bytes v) \<Longrightarrow> be32_at pkt i = v"
proof -
  assume "has_at pkt i (be32_bytes v)"
  then have "pkt i = ucast (drop_bit 24 v)" "pkt (i + 1) = ucast (drop_bit 16 v)" "pkt (i + 2) = ucast (drop_bit 8 v)"
    "pkt (i + 3) = ucast v"
    by (simp_all add: be32_bytes_def has_at_Cons numeral_2_eq_2 numeral_3_eq_3)
  then show ?thesis unfolding be32_at_def by (simp only: be32_join)
qed

end
