(* ===== verification/Dns.thy ===== *)
theory Dns
  imports KString NetBytes
begin

text \<open>
  The DNS client (\<open>net/dns.c\<close>). A received packet is the memory from its first byte on, a function from
  offsets, so that a read past its end is a read of whatever lies there. Decoding a name may follow
  compression pointers for ever: its loop is a partial function, \<open>None\<close> when it does not return.
  Sending and receiving go through the sockets, whose results are arguments of \<open>dns_resolve\<close>.
\<close>

section \<open>Packets\<close>

definition DNS_PORT :: u16 where "DNS_PORT = 53"
definition DNS_CLIENT_PORT :: u16 where "DNS_CLIENT_PORT = 5353"
definition DNS_MAX_PKT :: nat where "DNS_MAX_PKT = 512"
definition DNS_TYPE_A :: u16 where "DNS_TYPE_A = 1"
definition DNS_CLASS_IN :: u16 where "DNS_CLASS_IN = 1"
definition DNS_HDR :: nat where "DNS_HDR = 12"

record dns =
  dns_server :: u32
  dns_txid :: u16

definition dns_set_server :: "u32 \<Rightarrow> dns \<Rightarrow> dns" where
  "dns_set_server server s = s\<lparr>dns_server := server\<rparr>"

section \<open>Names\<close>

function dns_labels :: "cstr \<Rightarrow> u8 list" where
  "dns_labels p =
     (if p = [] then []
      else
        let label = takeWhile (\<lambda>c. c \<noteq> 46) p; label_len = (of_nat (length label) :: u8)
        in label_len # take (unat label_len) label @ dns_labels (tl (dropWhile (\<lambda>c. c \<noteq> 46) p)))"
  by pat_completeness auto

termination
  by (relation "measure length") (simp_all add: length_dropWhile_tl del: length_tl)

declare dns_labels.simps [simp del]

definition dns_encode_name :: "cstr \<Rightarrow> u8 list" where
  "dns_encode_name hostname = dns_labels (cstring hostname) @ [0]"

partial_function (option) dns_decode_loop ::
  "(nat \<Rightarrow> u8) \<Rightarrow> nat \<Rightarrow> nat \<Rightarrow> nat \<Rightarrow> nat \<Rightarrow> bool \<Rightarrow> nat \<Rightarrow> u8 list \<Rightarrow> (nat \<times> u8 list) option" where
  "dns_decode_loop pkt pkt_len offset out_max pos jumped consumed out =
     (if pos \<ge> pkt_len then Some (consumed, out)
      else if pkt pos AND 0xC0 = 0xC0 then
        (if pos + 1 \<ge> pkt_len then Some (consumed, out)
         else dns_decode_loop pkt pkt_len offset out_max
                (unat (push_bit 8 (ucast (pkt pos AND 0x3F)) OR ucast (pkt (pos + 1)) :: u16))
                True (if jumped then consumed else pos - offset + 2) out)
      else if pkt pos = 0 then Some (if jumped then consumed else pos - offset + 1, out)
      else
        let k = min (unat (pkt pos)) (out_max - 1 - length out);
            out = out @ map (\<lambda>i. pkt (pos + 1 + i)) [0..<k]
        in dns_decode_loop pkt pkt_len offset out_max (pos + 1 + k) jumped consumed
             (if length out < out_max then out @ [46] else out))"

text \<open>The number of bytes the name takes at \<open>offset\<close>, and the name; a final dot is dropped.\<close>

definition dns_decode_name :: "(nat \<Rightarrow> u8) \<Rightarrow> nat \<Rightarrow> nat \<Rightarrow> nat \<Rightarrow> (nat \<times> cstr) option" where
  "dns_decode_name pkt pkt_len offset out_max =
     (case dns_decode_loop pkt pkt_len offset out_max offset False 0 [] of
        None \<Rightarrow> None
      | Some (consumed, out) \<Rightarrow> Some (consumed, if out \<noteq> [] \<and> last out = 46 then butlast out else out))"

section \<open>Resolving\<close>

definition dns_query :: "u16 \<Rightarrow> cstr \<Rightarrow> u8 list" where
  "dns_query tid hostname =
     be16_bytes tid @ be16_bytes 0x0100 @ be16_bytes 1 @ be16_bytes 0 @ be16_bytes 0 @ be16_bytes 0 @
     dns_encode_name hostname @ [0, ucast DNS_TYPE_A, 0, ucast DNS_CLASS_IN]"

text \<open>What a datagram does to the wait: it is skipped, ends the wait, or has the address.\<close>

datatype dns_verdict = Skip | Give_up | Address u32

fun dns_answers :: "(nat \<Rightarrow> u8) \<Rightarrow> nat \<Rightarrow> nat \<Rightarrow> nat \<Rightarrow> dns_verdict option" where
  "dns_answers pkt n 0 pos = Some Give_up"
| "dns_answers pkt n (Suc i) pos =
     (if pos + 10 > n then Some Give_up
      else case dns_decode_name pkt n pos 256 of
        None \<Rightarrow> None
      | Some (skip, _) \<Rightarrow>
          let pos = pos + skip; rtype = be16_at pkt pos; rdlen = be16_at pkt (pos + 8) in
          if rtype = DNS_TYPE_A \<and> rdlen = 4 then Some (Address (be32_at pkt (pos + 10)))
          else dns_answers pkt n i (pos + 10 + unat rdlen))"

definition dns_response :: "u16 \<Rightarrow> int \<Rightarrow> (nat \<Rightarrow> u8) \<Rightarrow> dns_verdict option" where
  "dns_response tid n pkt =
     (if n < int DNS_HDR then Some Skip
      else if be16_at pkt 0 \<noteq> tid then Some Skip
      else
        let rflags = be16_at pkt 2 in
        if rflags AND 0x8000 = 0 then Some Skip
        else if rflags AND 0x000F \<noteq> 0 then Some Give_up
        else if be16_at pkt 6 = 0 then Some Give_up
        else case dns_decode_name pkt (nat n) DNS_HDR 256 of
          None \<Rightarrow> None
        | Some (skip, _) \<Rightarrow> dns_answers pkt (nat n) (unat (be16_at pkt 6)) (DNS_HDR + skip + 4))"

text \<open>\<open>rx\<close>: what the polls of the socket return until the deadline.\<close>

fun dns_wait :: "u16 \<Rightarrow> (int \<times> (nat \<Rightarrow> u8)) list \<Rightarrow> u32 option option" where
  "dns_wait tid [] = Some None"
| "dns_wait tid ((n, pkt) # rx) =
     (case dns_response tid n pkt of
        None \<Rightarrow> None
      | Some Skip \<Rightarrow> dns_wait tid rx
      | Some Give_up \<Rightarrow> Some None
      | Some (Address ip) \<Rightarrow> Some (Some ip))"

text \<open>\<open>sock\<close> is the result of \<open>sock_open\<close>, \<open>sent\<close> that of \<open>sock_sendto\<close> on the query.\<close>

definition dns_resolve :: "int \<Rightarrow> (u8 list \<Rightarrow> int) \<Rightarrow> (int \<times> (nat \<Rightarrow> u8)) list \<Rightarrow> cstr \<Rightarrow> dns \<Rightarrow> u32 option option \<times> dns" where
  "dns_resolve sock sent rx hostname s =
     (if sock < 0 then (Some None, s)
      else
        let tid = dns_txid s; s = s\<lparr>dns_txid := tid + 1\<rparr> in
        if sent (dns_query tid hostname) < 0 then (Some None, s) else (dns_wait tid rx, s))"


section \<open>Encoding and decoding names\<close>

text \<open>Host names: non-empty labels of at most 63 bytes without dots, joined by dots.\<close>

definition label_ok :: "u8 list \<Rightarrow> bool" where
  "label_ok l \<longleftrightarrow> l \<noteq> [] \<and> length l \<le> 63 \<and> 46 \<notin> set l \<and> 0 \<notin> set l"

fun join_labels :: "u8 list list \<Rightarrow> cstr" where
  "join_labels [] = []"
| "join_labels [l] = l"
| "join_labels (l # ls) = l @ 46 # join_labels ls"

definition label_bytes :: "u8 list \<Rightarrow> u8 list" where
  "label_bytes l = of_nat (length l) # l"

lemma label_step:
  assumes "label_ok l" "rest = [] \<or> hd rest = 46"
  shows "dns_labels (l @ rest) = label_bytes l @ dns_labels (tl rest)"
proof -
  have no: "\<And>c. c \<in> set l \<Longrightarrow> c \<noteq> 46" using assms(1) by (auto simp: label_ok_def)
  have "takeWhile (\<lambda>c. c \<noteq> 46) rest = []" "dropWhile (\<lambda>c. c \<noteq> 46) rest = rest" using assms(2) by (cases rest; simp)+
  then have tw: "takeWhile (\<lambda>c. c \<noteq> 46) (l @ rest) = l" "dropWhile (\<lambda>c. c \<noteq> 46) (l @ rest) = rest"
    by (simp_all add: takeWhile_append2 [OF no] dropWhile_append2 [OF no])
  have "l \<noteq> []" "unat (of_nat (length l) :: u8) = length l"
    using assms(1) by (simp_all add: label_ok_def unat_of_nat take_bit_nat_eq_self)
  then show ?thesis by (subst dns_labels.simps) (simp add: tw label_bytes_def Let_def)
qed

lemma dns_labels_join: "\<forall>l \<in> set ls. label_ok l \<Longrightarrow> dns_labels (join_labels ls) = concat (map label_bytes ls)"
proof (induction ls rule: join_labels.induct)
  case (2 l)
  then show ?case using label_step [of l "[]"] by (simp add: dns_labels.simps [of "[]"])
next
  case (3 l l' ls)
  then show ?case using label_step [of l "46 # join_labels (l' # ls)"] by simp
qed (simp add: dns_labels.simps)

lemma join_no_nul: "\<forall>l \<in> set ls. label_ok l \<Longrightarrow> 0 \<notin> set (join_labels ls)"
  by (induction ls rule: join_labels.induct) (auto simp: label_ok_def)


lemma label_byte:
  assumes "label_ok l"
  shows "unat (of_nat (length l) :: u8) = length l" "(of_nat (length l) :: u8) AND 0xC0 = 0"
proof -
  have le: "length l < 64" using assms by (simp add: label_ok_def)
  then show "unat (of_nat (length l) :: u8) = length l" by (simp add: unat_of_nat take_bit_nat_eq_self)
  have "list_all (\<lambda>n. (of_nat n :: u8) AND 0xC0 = 0) [0..<64]" by code_simp
  then show "(of_nat (length l) :: u8) AND 0xC0 = 0" using le unfolding list_all_iff set_upt by simp
qed

definition dotted :: "u8 list list \<Rightarrow> u8 list" where
  "dotted ls = concat (map (\<lambda>l. l @ [46]) ls)"

lemma butlast_dotted: "ls \<noteq> [] \<Longrightarrow> dotted ls = join_labels ls @ [46]"
  by (induction ls rule: join_labels.induct) (simp_all add: dotted_def)

lemma decode_labels:
  assumes "\<forall>l \<in> set ls. label_ok l" "has_at pkt pos (concat (map label_bytes ls) @ [0])"
    "pos + length (concat (map label_bytes ls)) < pkt_len" "length out + length (dotted ls) \<le> out_max" "jumped \<or> offset \<le> pos"
  shows "dns_decode_loop pkt pkt_len offset out_max pos jumped consumed out =
    Some (if jumped then consumed else pos - offset + length (concat (map label_bytes ls)) + 1, out @ dotted ls)"
  using assms
proof (induction ls arbitrary: pos out)
  case Nil
  then show ?case by (subst dns_decode_loop.simps) (simp add: has_at_def dotted_def)
next
  case (Cons l ls)
  have l: "label_ok l" using Cons.prems(1) by simp
  have at: "has_at pkt pos (label_bytes l)" "has_at pkt (pos + length l + 1) (concat (map label_bytes ls) @ [0])"
    using Cons.prems(2) has_at_append [of pkt pos "label_bytes l" "concat (map label_bytes ls) @ [0]"]
    by (simp_all add: label_bytes_def [of l])
  have p: "pkt pos = of_nat (length l)" "has_at pkt (Suc pos) l" using at(1) by (simp_all add: label_bytes_def has_at_Cons)
  note lb = label_byte [OF l]
  have ne: "(of_nat (length l) :: u8) \<noteq> 0" using lb(1) l by (auto simp: label_ok_def)
  have room: "length out + length l < out_max" using Cons.prems(4) by (simp add: dotted_def)
  then have k: "min (length l) (out_max - Suc (length out)) = length l" by simp
  have copy: "map (\<lambda>i. pkt (Suc (pos + i))) [0..<length l] = l" using has_at_map [OF p(2)] by simp
  have "dns_decode_loop pkt pkt_len offset out_max pos jumped consumed out =
      dns_decode_loop pkt pkt_len offset out_max (pos + length l + 1) jumped consumed (out @ l @ [46])"
    using Cons.prems(3) ne lb room k copy
    by (subst dns_decode_loop.simps) (simp add: p(1) Let_def)
  also have "\<dots> = Some (if jumped then consumed else pos - offset + length (concat (map label_bytes (l # ls))) + 1, out @ dotted (l # ls))"
    using Cons.prems at(2) by (subst Cons.IH) (auto simp: label_bytes_def [of l] dotted_def)
  finally show ?case .
qed

lemma decode_name_spec:
  assumes "\<forall>l \<in> set ls. label_ok l" "has_at pkt offset (dns_encode_name (join_labels ls))"
    "offset + length (dns_encode_name (join_labels ls)) \<le> pkt_len" "length (join_labels ls) < out_max"
  shows "dns_decode_name pkt pkt_len offset out_max = Some (length (dns_encode_name (join_labels ls)), join_labels ls)"
proof -
  have enc: "dns_encode_name (join_labels ls) = concat (map label_bytes ls) @ [0]"
    using assms(1) by (simp add: dns_encode_name_def dns_labels_join join_no_nul)
  have "length (dotted ls) \<le> out_max" using assms(4) butlast_dotted [of ls] by (cases ls) (auto simp: dotted_def)
  then have "dns_decode_loop pkt pkt_len offset out_max offset False 0 [] = Some (length (concat (map label_bytes ls)) + 1, dotted ls)"
    using assms enc by (subst decode_labels [where ls = ls]) auto
  moreover have "length (dns_encode_name (join_labels ls)) = length (concat (map label_bytes ls)) + 1" by (simp add: enc)
  moreover have "if dotted ls \<noteq> [] \<and> last (dotted ls) = 46 then butlast (dotted ls) = join_labels ls else dotted ls = join_labels ls"
    using butlast_dotted [of ls] by (cases "ls = []") (simp_all add: dotted_def)
  ultimately show ?thesis by (simp add: dns_decode_name_def split: if_splits)
qed

lemma decode_pointer_spec:
  assumes "\<forall>l \<in> set ls. label_ok l" "has_at pkt target (dns_encode_name (join_labels ls))"
    "target + length (dns_encode_name (join_labels ls)) \<le> pkt_len" "length (join_labels ls) < out_max"
    "pkt offset = 0xC0" "unat (pkt (offset + 1)) = target" "offset + 1 < pkt_len"
  shows "dns_decode_name pkt pkt_len offset out_max = Some (2, join_labels ls)"
proof -
  have enc: "dns_encode_name (join_labels ls) = concat (map label_bytes ls) @ [0]"
    using assms(1) by (simp add: dns_encode_name_def dns_labels_join join_no_nul)
  have len: "length (dotted ls) \<le> out_max" using assms(4) butlast_dotted [of ls] by (cases ls) (auto simp: dotted_def)
  have "unat (ucast (pkt (offset + 1)) :: u16) = target" using assms(6) by simp
  then have "dns_decode_loop pkt pkt_len offset out_max offset False 0 [] =
      dns_decode_loop pkt pkt_len offset out_max target True 2 []"
    using assms(5,7) by (subst dns_decode_loop.simps) (simp add: numeral_2_eq_2)
  also have "\<dots> = Some (2, dotted ls)"
    using assms enc len by (subst decode_labels [where ls = ls]) (auto simp del: One_nat_def)
  finally show ?thesis using butlast_dotted [of ls] by (cases ls) (simp_all add: dns_decode_name_def dotted_def)
qed


section \<open>What the client does\<close>

text \<open>A host name of non-empty labels of at most 63 bytes, joined by dots, is read back by \<open>dns_decode_name\<close>
  from where \<open>dns_encode_name\<close> wrote it, and from a compression pointer to it, and the decoder reports how
  many bytes it took.\<close>

theorem dns_name_roundtrip:
  assumes "\<forall>l \<in> set ls. label_ok l" "length (join_labels ls) < out_max" "target < 256"
    "has_at pkt target (dns_encode_name (join_labels ls))" "target + length (dns_encode_name (join_labels ls)) \<le> pkt_len"
    "has_at pkt offset [0xC0, of_nat target]" "offset + 2 \<le> pkt_len"
  shows "dns_decode_name pkt pkt_len target out_max = Some (length (dns_encode_name (join_labels ls)), join_labels ls) \<and>
    dns_decode_name pkt pkt_len offset out_max = Some (2, join_labels ls)"
proof
  show "dns_decode_name pkt pkt_len target out_max = Some (length (dns_encode_name (join_labels ls)), join_labels ls)"
    using assms(1,2,4,5) by (intro decode_name_spec)
  have "unat (of_nat target :: u8) = target" using assms(3) by (simp add: unat_of_nat take_bit_nat_eq_self)
  then have "pkt offset = 0xC0" "unat (pkt (offset + 1)) = target" using assms(6) by (simp_all add: has_at_Cons)
  then show "dns_decode_name pkt pkt_len offset out_max = Some (2, join_labels ls)"
    using assms(1,2,4,5,7) by (intro decode_pointer_spec) auto
qed

text \<open>A well-formed answer: the question echoed, then one address record whose name points to it.\<close>

definition dns_reply :: "u16 \<Rightarrow> u16 \<Rightarrow> u8 list list \<Rightarrow> u8 list \<Rightarrow> u8 list \<Rightarrow> u8 list" where
  "dns_reply tid flags ls cls_ttl ip =
     be16_bytes tid @ be16_bytes flags @ be16_bytes 1 @ be16_bytes 1 @ be16_bytes 0 @ be16_bytes 0 @
     dns_encode_name (join_labels ls) @ [0, 1, 0, 1] @
     [0xC0, 12] @ be16_bytes DNS_TYPE_A @ cls_ttl @ be16_bytes 4 @ ip"

lemma dns_answer_spec:
  assumes "dns_decode_name pkt n pos 256 = Some (2, name)" "has_at pkt (pos + 2) (be16_bytes DNS_TYPE_A @ cls_ttl @ be16_bytes 4 @ ip)"
    "length cls_ttl = 6" "length ip = 4" "pos + 10 \<le> n"
  shows "dns_answers pkt n (Suc k) pos = Some (Address (be32_at ((!) ip) 0))"
proof -
  have "has_at pkt (pos + 2) (be16_bytes DNS_TYPE_A)" "has_at pkt (pos + 10) (be16_bytes 4)" "has_at pkt (pos + 12) ip"
    using assms(2-4) by (simp_all add: has_at_append ac_simps)
  moreover have "be32_at pkt (pos + 12) = be32_at ((!) ip) 0"
  proof -
    obtain a b c d where "ip = [a, b, c, d]" using assms(4) by (auto simp: eval_nat_numeral length_Suc_conv)
    then show ?thesis using calculation(3) by (simp add: be32_at_def has_at_Cons eval_nat_numeral)
  qed
  ultimately show ?thesis using assms(1,5) be16_at_bytes [of pkt] by (simp add: Let_def ac_simps)
qed

lemma dns_response_spec:
  assumes ls: "\<forall>l \<in> set ls. label_ok l" "length (join_labels ls) < 256"
    and flags: "flags AND 0x8000 \<noteq> 0" "flags AND 0x000F = 0"
    and "length cls_ttl = 6" "length ip = 4" and at: "has_at pkt 0 (dns_reply tid flags ls cls_ttl ip)"
  shows "dns_response tid (int (length (dns_reply tid flags ls cls_ttl ip))) pkt = Some (Address (be32_at ((!) ip) 0))"
proof -
  define name where "name = dns_encode_name (join_labels ls)"
  define n where "n = length (dns_reply tid flags ls cls_ttl ip)"
  have n: "n = length name + 32" using assms(5,6) by (simp add: n_def dns_reply_def name_def)
  define rr where "rr = be16_bytes DNS_TYPE_A @ cls_ttl @ be16_bytes 4 @ ip"
  have "has_at pkt 0 (be16_bytes tid @ be16_bytes flags @ be16_bytes 1 @ be16_bytes 1 @ be16_bytes 0 @ be16_bytes 0 @
      name @ [0, 1, 0, 1] @ [0xC0, 12] @ rr)"
    using at unfolding dns_reply_def name_def rr_def .
  then have parts: "has_at pkt 0 (be16_bytes tid)" "has_at pkt 2 (be16_bytes flags)" "has_at pkt 6 (be16_bytes 1)"
    "has_at pkt 12 name" "has_at pkt (12 + length name + 4) [0xC0, 12]" "has_at pkt (12 + length name + 4 + 2) rr"
    unfolding has_at_append by (simp_all add: eval_nat_numeral)
  have q: "dns_decode_name pkt n 12 256 = Some (length name, join_labels ls)"
    unfolding name_def using ls parts(4) n by (intro decode_name_spec) (simp_all add: name_def)
  have a: "dns_decode_name pkt n (12 + length name + 4) 256 = Some (2, join_labels ls)"
    using ls parts(4,5) n by (intro decode_pointer_spec [where target = 12]) (simp_all add: name_def has_at_Cons)
  have "dns_answers pkt n (Suc 0) (12 + length name + 4) = Some (Address (be32_at ((!) ip) 0))"
    by (rule dns_answer_spec [OF a parts(6) [unfolded rr_def] assms(5,6)]) (simp add: n)
  moreover have "\<not> int n < 12" using n by simp
  ultimately show ?thesis
    using be16_at_bytes [OF parts(1)] be16_at_bytes [OF parts(2)] be16_at_bytes [OF parts(3)] flags q
    by (simp add: dns_response_def n_def [symmetric] DNS_HDR_def Let_def del: dns_answers.simps)
qed

lemma dns_wait_skips:
  "\<forall>(n, pkt) \<in> set early. dns_response tid n pkt = Some Skip \<Longrightarrow> dns_wait tid (early @ rx) = dns_wait tid rx"
  by (induction early) auto

text \<open>C21: \<open>dns_resolve\<close> returns the address of a well-formed answer to its query: it passes over the
  datagrams that are too short, have another identifier or are not responses, skips the question, follows
  the compression pointer of the answer and takes the four address bytes.\<close>

theorem dns_resolve_finds_address:
  assumes "\<forall>l \<in> set ls. label_ok l" "length (join_labels ls) < 256"
    "flags AND 0x8000 \<noteq> 0" "flags AND 0x000F = 0" "length cls_ttl = 6" "length ip = 4"
    "has_at pkt 0 (dns_reply (dns_txid s) flags ls cls_ttl ip)"
    "\<forall>(n, pkt) \<in> set early. dns_response (dns_txid s) n pkt = Some Skip"
    "0 \<le> sock" "0 \<le> sent (dns_query (dns_txid s) (join_labels ls))"
  shows "fst (dns_resolve sock sent (early @ (int (length (dns_reply (dns_txid s) flags ls cls_ttl ip)), pkt) # rx) (join_labels ls) s)
    = Some (Some (be32_at ((!) ip) 0))"
  using dns_response_spec [OF assms(1-7)] dns_wait_skips [OF assms(8)] assms(9,10)
  by (simp add: dns_resolve_def Let_def)


section \<open>A name that never ends\<close>

text \<open>At \<open>pos\<close> is a compression pointer to itself.\<close>

definition self_pointer :: "(nat \<Rightarrow> u8) \<Rightarrow> nat \<Rightarrow> bool" where
  "self_pointer pkt pos \<longleftrightarrow> pkt pos AND 0xC0 = 0xC0 \<and>
     unat (push_bit 8 (ucast (pkt pos AND 0x3F)) OR ucast (pkt (pos + 1)) :: u16) = pos"

lemma decode_loop_hangs:
  "dns_decode_loop pkt pkt_len offset out_max pos jumped consumed out = Some y \<Longrightarrow> \<not> (self_pointer pkt pos \<and> pos + 1 < pkt_len)"
proof (erule dns_decode_loop.raw_induct
    [where P = "\<lambda>pkt pkt_len _ _ pos _ _ _ _. \<not> (self_pointer pkt pos \<and> pos + 1 < pkt_len)", rotated], goal_cases)
  case (1 loop pkt pkt_len offset out_max pos jumped consumed out y)
  show ?case
  proof
    assume self: "self_pointer pkt pos \<and> pos + 1 < pkt_len"
    then have "loop pkt pkt_len offset out_max pos True (if jumped then consumed else pos - offset + 2) out = Some y"
      using 1(2) by (auto simp: self_pointer_def)
    from 1(1) [OF this] self show False by blast
  qed
qed

text \<open>C38: the decoder follows a compression pointer to itself for ever, so one datagram with the right identifier
  and such a name as its question makes \<open>dns_resolve\<close> never return.\<close>

theorem dns_self_pointer_hangs:
  assumes "DNS_HDR + 2 \<le> nat n" "be16_at pkt 0 = dns_txid s" "be16_at pkt 2 AND 0x8000 \<noteq> 0" "be16_at pkt 2 AND 0x000F = 0"
    "be16_at pkt 6 \<noteq> 0" "self_pointer pkt DNS_HDR" "0 \<le> sock" "0 \<le> sent (dns_query (dns_txid s) hostname)"
  shows "fst (dns_resolve sock sent ((n, pkt) # rx) hostname s) = None"
proof -
  have "dns_decode_loop pkt (nat n) DNS_HDR 256 DNS_HDR False 0 [] = None"
    using decode_loop_hangs [of pkt "nat n" DNS_HDR 256 DNS_HDR False 0 "[]"] assms(1,6)
    by (cases "dns_decode_loop pkt (nat n) DNS_HDR 256 DNS_HDR False 0 []") auto
  then have "dns_response (dns_txid s) n pkt = None"
    using assms(1-5) by (simp add: dns_response_def dns_decode_name_def Let_def DNS_HDR_def)
  then show ?thesis using assms(7,8) by (simp add: dns_resolve_def Let_def)
qed


section \<open>Examples\<close>

definition dns_demo :: "u8 list" where
  "dns_demo = dns_reply 0x1234 0x8180 [asc ''os'', asc ''net''] [0, 1, 0, 0, 0, 60] [10, 0, 2, 15]"

lemma dns_demo_labels: "\<forall>l \<in> set [asc ''os'', asc ''net'']. label_ok l"
  by code_simp

theorem dns_name_roundtrip_witness:
  "dns_decode_name (pkt_of (dns_encode_name (asc ''os.net'') @ [0xC0, 0])) 10 0 256 = Some (8, asc ''os.net'') \<and>
   dns_decode_name (pkt_of (dns_encode_name (asc ''os.net'') @ [0xC0, 0])) 10 8 256 = Some (2, asc ''os.net'')"
proof -
  have j: "join_labels [asc ''os'', asc ''net''] = asc ''os.net''" "length (asc ''os.net'') = 6" by code_simp+
  have len: "length (dns_encode_name (asc ''os.net'')) = 8"
    using dns_labels_join [OF dns_demo_labels] join_no_nul [OF dns_demo_labels] j
    by (simp add: dns_encode_name_def) (simp add: label_bytes_def asc_def)
  let ?bs = "dns_encode_name (asc ''os.net'') @ [0xC0, 0]"
  have "has_at (pkt_of ?bs) 0 (dns_encode_name (asc ''os.net''))" "has_at (pkt_of ?bs) 8 [0xC0, 0]"
    using has_at_pkt_of [of ?bs] unfolding has_at_append by (simp_all add: len)
  then show ?thesis
    using dns_name_roundtrip [OF dns_demo_labels, of 256 0 "pkt_of ?bs" 10 8]
    by (simp add: j len del: join_labels.simps)
qed

theorem dns_resolve_finds_address_witness:
  "fst (dns_resolve 3 (\<lambda>_. 0) [(5, \<lambda>_. 0), (int (length dns_demo), pkt_of dns_demo)] (asc ''os.net'')
     \<lparr>dns_server = 0x08080808, dns_txid = 0x1234\<rparr>) = Some (Some 0x0A00020F)"
proof -
  have j: "join_labels [asc ''os'', asc ''net''] = asc ''os.net''" "length (asc ''os.net'') < 256" by code_simp+
  have ip: "be32_at ((!) [10, 0, 2, 15]) 0 = 0x0A00020F" by code_simp
  have short: "dns_response 0x1234 5 (\<lambda>_. 0) = Some Skip" by (simp add: dns_response_def DNS_HDR_def)
  show ?thesis
    using dns_resolve_finds_address [OF dns_demo_labels, where flags = "0x8180" and cls_ttl = "[0, 1, 0, 0, 0, 60]" and ip = "[10, 0, 2, 15]"
        and pkt = "pkt_of dns_demo" and s = "\<lparr>dns_server = 0x08080808, dns_txid = 0x1234\<rparr>" and early = "[(5, \<lambda>_. 0)]"
        and sock = 3 and sent = "\<lambda>_. 0" and rx = "[]"]
    by (simp add: j ip short dns_demo_def [symmetric] del: join_labels.simps)
qed

theorem dns_self_pointer_hangs_witness:
  "fst (dns_resolve 3 (\<lambda>_. 0) [(14, pkt_of [0x12, 0x34, 0x81, 0x80, 0, 1, 0, 1, 0, 0, 0, 0, 0xC0, 12])] (asc ''a'')
     \<lparr>dns_server = 0x08080808, dns_txid = 0x1234\<rparr>) = None"
proof -
  let ?pkt = "pkt_of [0x12, 0x34, 0x81, 0x80, 0, 1, 0, 1, 0, 0, 0, 0, 0xC0, 12]"
  have "be16_at ?pkt 0 = 0x1234" "be16_at ?pkt 2 AND 0x8000 \<noteq> 0" "be16_at ?pkt 2 AND 0x000F = 0" "be16_at ?pkt 6 \<noteq> 0"
    "self_pointer ?pkt 12" by code_simp+
  then show ?thesis
    using dns_self_pointer_hangs [of 14 ?pkt "\<lparr>dns_server = 0x08080808, dns_txid = 0x1234\<rparr>" 3 "\<lambda>_. 0" "asc ''a''" "[]"]
    by (simp add: DNS_HDR_def)
qed

end
