(* ===== verification/Net.thy ===== *)
theory Net
  imports KArith NetBytes Interfaces
begin

text \<open>
  The network stack (\<open>net/net.c\<close>, \<open>include/net.h\<close>): the ARP cache, ICMP echo, IPv4, UDP and the sockets.
  A driver's \<open>send\<close> is a function from the frame to its result; the frames handed to it are collected in
  \<open>nt_tx\<close>. \<open>can\<close> says which sizes \<open>kmalloc\<close> can serve.
\<close>

section \<open>Types (include/net.h)\<close>

definition MAX_IFACES :: nat where "MAX_IFACES = 4"
definition ETH_HDR :: u32 where "ETH_HDR = 14"
definition ETH_TYPE_IPV4 :: u16 where "ETH_TYPE_IPV4 = 0x0800"
definition ETH_TYPE_ARP :: u16 where "ETH_TYPE_ARP = 0x0806"
definition IP_PROTO_ICMP :: u8 where "IP_PROTO_ICMP = 1"
definition IP_PROTO_TCP :: u8 where "IP_PROTO_TCP = 6"
definition IP_PROTO_UDP :: u8 where "IP_PROTO_UDP = 17"
definition ICMP_ECHO_REPLY :: u8 where "ICMP_ECHO_REPLY = 0"
definition ICMP_ECHO_REQUEST :: u8 where "ICMP_ECHO_REQUEST = 8"
definition ARP_REQUEST :: u16 where "ARP_REQUEST = 1"
definition ARP_REPLY :: u16 where "ARP_REPLY = 2"
definition ARP_CACHE_SIZE :: nat where "ARP_CACHE_SIZE = 16"
definition SOCK_MAX :: nat where "SOCK_MAX = 16"
definition SOCK_RXBUF :: u32 where "SOCK_RXBUF = 2048"
definition MAC_BROADCAST :: "u8 list" where "MAC_BROADCAST = replicate 6 0xFF"

record net_iface =
  if_mac :: "u8 list"
  if_ip :: u32
  if_netmask :: u32
  if_gateway :: u32
  if_up :: bool
  if_send :: "(u8 list \<Rightarrow> int) option"

record arp_entry =
  ae_ip :: u32
  ae_mac :: "u8 list"
  ae_ttl :: u32
  ae_valid :: bool

record socket =
  sk_used :: bool
  sk_protocol :: u8
  sk_local_port :: u16
  sk_rx_buf :: "u8 list"
  sk_rx_head :: u32
  sk_rx_tail :: u32

record net_stats =
  tx_packets :: u64
  tx_bytes :: u64
  rx_packets :: u64
  rx_bytes :: u64
  rx_dropped :: u64
  arp_requests :: u64
  arp_replies :: u64
  icmp_pings :: u64
  icmp_pongs :: u64
  udp_sent :: u64
  udp_recv :: u64

record net =
  nt_ifaces :: "net_iface list"
  nt_arp :: "arp_entry list"
  nt_sockets :: "socket list"
  nt_stats :: net_stats
  nt_ip_id :: u16
  nt_tx :: "u8 list list"

definition arp_empty :: arp_entry where
  "arp_empty = \<lparr>ae_ip = 0, ae_mac = replicate 6 0, ae_ttl = 0, ae_valid = False\<rparr>"

definition sock_zero :: socket where
  "sock_zero = \<lparr>sk_used = False, sk_protocol = 0, sk_local_port = 0, sk_rx_buf = replicate 2048 0, sk_rx_head = 0, sk_rx_tail = 0\<rparr>"

definition stats_zero :: net_stats where
  "stats_zero = \<lparr>tx_packets = 0, tx_bytes = 0, rx_packets = 0, rx_bytes = 0, rx_dropped = 0, arp_requests = 0, arp_replies = 0,
     icmp_pings = 0, icmp_pongs = 0, udp_sent = 0, udp_recv = 0\<rparr>"

definition count_stat :: "(net_stats \<Rightarrow> net_stats) \<Rightarrow> net \<Rightarrow> net" where
  "count_stat f s = s\<lparr>nt_stats := f (nt_stats s)\<rparr>"

lemma count_stat_sel [simp]: "nt_tx (count_stat f s) = nt_tx s" "nt_sockets (count_stat f s) = nt_sockets s"
    "nt_arp (count_stat f s) = nt_arp s" "nt_ip_id (count_stat f s) = nt_ip_id s"
  by (simp_all add: count_stat_def)

section \<open>Initialisation and interfaces\<close>

definition net_init :: "net \<Rightarrow> net" where
  "net_init s = s\<lparr>nt_ifaces := [], nt_arp := replicate ARP_CACHE_SIZE arp_empty, nt_sockets := replicate SOCK_MAX sock_zero,
     nt_stats := stats_zero\<rparr>"

definition net_register_iface :: "net_iface \<Rightarrow> net \<Rightarrow> int \<times> net" where
  "net_register_iface iface s =
     (if length (nt_ifaces s) \<ge> MAX_IFACES then (- 1, s) else (0, s\<lparr>nt_ifaces := nt_ifaces s @ [iface]\<rparr>))"

definition net_get_primary :: "net \<Rightarrow> net_iface option" where
  "net_get_primary s = (case nt_ifaces s of [] \<Rightarrow> None | iface # _ \<Rightarrow> Some iface)"

definition ip_checksum :: "u8 list \<Rightarrow> u16" where
  "ip_checksum data =
     (let sum = sum16 data 0; sum = drop_bit 16 sum + (sum AND 0xFFFF); sum = sum + drop_bit 16 sum in ucast (NOT sum))"

definition transmit :: "net_iface \<Rightarrow> u8 list \<Rightarrow> net \<Rightarrow> int \<times> net" where
  "transmit iface frame s = (case if_send iface of None \<Rightarrow> (0, s) | Some f \<Rightarrow> (f frame, s\<lparr>nt_tx := nt_tx s @ [frame]\<rparr>))"

definition eth_hdr :: "u8 list \<Rightarrow> u8 list \<Rightarrow> u16 \<Rightarrow> u8 list" where
  "eth_hdr dst src ty = dst @ src @ be16_bytes ty"

section \<open>ARP\<close>

definition arp_add :: "u32 \<Rightarrow> u8 list \<Rightarrow> arp_entry list \<Rightarrow> arp_entry list" where
  "arp_add ip mac cache =
     (case find_idx (\<lambda>e. ae_valid e \<and> ae_ip e = ip) cache of
        Some i \<Rightarrow> cache[i := (cache ! i)\<lparr>ae_mac := mac, ae_ttl := 300\<rparr>]
      | None \<Rightarrow>
          (case find_idx (\<lambda>e. \<not> ae_valid e) cache of
             Some i \<Rightarrow> cache[i := \<lparr>ae_ip = ip, ae_mac = mac, ae_ttl = 300, ae_valid = True\<rparr>]
           | None \<Rightarrow> cache))"

definition arp_lookup :: "u32 \<Rightarrow> arp_entry list \<Rightarrow> u8 list option" where
  "arp_lookup ip cache = map_option ae_mac (find (\<lambda>e. ae_valid e \<and> ae_ip e = ip) cache)"

definition arp_pkt :: "u16 \<Rightarrow> u8 list \<Rightarrow> u32 \<Rightarrow> u8 list \<Rightarrow> u32 \<Rightarrow> u8 list" where
  "arp_pkt opcode smac sip tmac tip =
     be16_bytes 1 @ be16_bytes ETH_TYPE_IPV4 @ [6, 4] @ be16_bytes opcode @ smac @ be32_bytes sip @ tmac @ be32_bytes tip"

definition arp_send_request :: "net_iface \<Rightarrow> u32 \<Rightarrow> net \<Rightarrow> net" where
  "arp_send_request iface target_ip s =
     count_stat (\<lambda>t. t\<lparr>arp_requests := arp_requests t + 1\<rparr>)
       (snd (transmit iface (eth_hdr MAC_BROADCAST (if_mac iface) ETH_TYPE_ARP @
          arp_pkt ARP_REQUEST (if_mac iface) (if_ip iface) (replicate 6 0) target_ip) s))"

definition arp_handle :: "net_iface \<Rightarrow> (nat \<Rightarrow> u8) \<Rightarrow> u32 \<Rightarrow> net \<Rightarrow> net" where
  "arp_handle iface data len s =
     (if len < 28 then s
      else
        let smac = map (\<lambda>i. data (8 + i)) [0..<6]; sip = be32_at data 14;
            s = s\<lparr>nt_arp := arp_add sip smac (nt_arp s)\<rparr> in
        if be16_at data 6 = ARP_REQUEST then
          (if be32_at data 24 \<noteq> if_ip iface then s
           else count_stat (\<lambda>t. t\<lparr>arp_replies := arp_replies t + 1\<rparr>)
                  (snd (transmit iface (eth_hdr smac (if_mac iface) ETH_TYPE_ARP @
                     arp_pkt ARP_REPLY (if_mac iface) (if_ip iface) smac sip) s)))
        else s)"

section \<open>IPv4\<close>

definition ip4_hdr :: "u16 \<Rightarrow> u16 \<Rightarrow> u8 \<Rightarrow> u16 \<Rightarrow> u32 \<Rightarrow> u32 \<Rightarrow> u8 list" where
  "ip4_hdr total_len ip_id proto checksum src dst =
     [0x45, 0] @ be16_bytes total_len @ be16_bytes ip_id @ [0, 0, 64, proto] @ bytes16 checksum @ be32_bytes src @ be32_bytes dst"

definition ip4_send :: "(u32 \<Rightarrow> bool) \<Rightarrow> net_iface \<Rightarrow> u32 \<Rightarrow> u8 \<Rightarrow> u8 list \<Rightarrow> net \<Rightarrow> int \<times> net" where
  "ip4_send can iface dst proto payload s =
     (if if_send iface = None then (- 1, s)
      else
        let len = of_nat (length payload); total = 14 + 20 + len in
        if \<not> can total then (- 1, s)
        else
          let next_hop = (if dst AND if_netmask iface \<noteq> if_ip iface AND if_netmask iface then if_gateway iface else dst) in
          case arp_lookup next_hop (nt_arp s) of
            None \<Rightarrow> (- 2, arp_send_request iface next_hop s)
          | Some mac \<Rightarrow>
              let cid = nt_ip_id s; s = s\<lparr>nt_ip_id := cid + 1\<rparr>; tot = ucast (20 + len :: u32);
                  c = ip_checksum (ip4_hdr tot cid proto 0 (if_ip iface) dst);
                  (ret, s) = transmit iface (eth_hdr mac (if_mac iface) ETH_TYPE_IPV4 @
                     ip4_hdr tot cid proto c (if_ip iface) dst @ payload) s
              in (ret, count_stat (\<lambda>t. t\<lparr>tx_packets := tx_packets t + 1, tx_bytes := tx_bytes t + ucast total\<rparr>) s))"

section \<open>ICMP\<close>

definition icmp_reply :: "u8 list \<Rightarrow> u8 list" where
  "icmp_reply req =
     (let r = put_at (put_at req 0 [ICMP_ECHO_REPLY]) 2 (bytes16 0) in put_at r 2 (bytes16 (ip_checksum r)))"

definition icmp_handle :: "(u32 \<Rightarrow> bool) \<Rightarrow> net_iface \<Rightarrow> u32 \<Rightarrow> (nat \<Rightarrow> u8) \<Rightarrow> u32 \<Rightarrow> net \<Rightarrow> net" where
  "icmp_handle can iface src data len s =
     (if len < 8 then s
      else if data 0 = ICMP_ECHO_REQUEST then
        (let s = count_stat (\<lambda>t. t\<lparr>icmp_pings := icmp_pings t + 1\<rparr>) s in
         if \<not> can len then s
         else count_stat (\<lambda>t. t\<lparr>icmp_pongs := icmp_pongs t + 1\<rparr>)
                (snd (ip4_send can iface src IP_PROTO_ICMP (icmp_reply (map data [0..<unat len])) s)))
      else s)"

definition icmp_ping :: "(u32 \<Rightarrow> bool) \<Rightarrow> net_iface \<Rightarrow> u32 \<Rightarrow> u16 \<Rightarrow> net \<Rightarrow> int \<times> net" where
  "icmp_ping can iface target seq s =
     (let b = [ICMP_ECHO_REQUEST, 0] @ bytes16 0 @ be16_bytes 0x1234 @ be16_bytes seq @ replicate 32 0xAB
      in ip4_send can iface target IP_PROTO_ICMP (put_at b 2 (bytes16 (ip_checksum b))) s)"

section \<open>UDP and the sockets\<close>

definition udp_send :: "(u32 \<Rightarrow> bool) \<Rightarrow> net_iface \<Rightarrow> u32 \<Rightarrow> u16 \<Rightarrow> u16 \<Rightarrow> u8 list \<Rightarrow> net \<Rightarrow> int \<times> net" where
  "udp_send can iface dst src_port dst_port data s =
     (let total = 8 + of_nat (length data) in
      if \<not> can total then (- 1, s)
      else
        let (ret, s) = ip4_send can iface dst IP_PROTO_UDP
              (be16_bytes src_port @ be16_bytes dst_port @ be16_bytes (ucast (total :: u32)) @ be16_bytes 0 @ data) s
        in (ret, count_stat (\<lambda>t. t\<lparr>udp_sent := udp_sent t + 1\<rparr>) s))"

text \<open>One received byte: when the ring is full it is not stored, but the tail moves on.\<close>

definition sock_push :: "u8 \<Rightarrow> socket \<Rightarrow> socket" where
  "sock_push b k =
     (let nxt = (sk_rx_tail k + 1) mod SOCK_RXBUF in
      (if nxt \<noteq> sk_rx_head k then k\<lparr>sk_rx_buf := (sk_rx_buf k)[unat (sk_rx_tail k) := b]\<rparr> else k)\<lparr>sk_rx_tail := nxt\<rparr>)"

definition sock_wants :: "u16 \<Rightarrow> socket \<Rightarrow> bool" where
  "sock_wants dport k \<longleftrightarrow> sk_used k \<and> sk_protocol k = IP_PROTO_UDP \<and> sk_local_port k = dport"

definition udp_deliver :: "(nat \<Rightarrow> u8) \<Rightarrow> u32 \<Rightarrow> net \<Rightarrow> net" where
  "udp_deliver payload plen s =
     (if plen < 8 then s
      else
        let dport = be16_at payload 2; dlen = ucast (be16_at payload 4) - 8 :: u32 in
        count_stat (\<lambda>t. t\<lparr>udp_recv := udp_recv t + of_nat (length (filter (sock_wants dport) (nt_sockets s)))\<rparr>)
          (s\<lparr>nt_sockets := map (\<lambda>k. if sock_wants dport k
               then fold sock_push (map (\<lambda>i. payload (8 + i)) [0..<unat dlen]) k else k) (nt_sockets s)\<rparr>))"

definition ipv4_handle :: "(u32 \<Rightarrow> bool) \<Rightarrow> net_iface \<Rightarrow> (nat \<Rightarrow> u8) \<Rightarrow> u32 \<Rightarrow> net \<Rightarrow> net" where
  "ipv4_handle can iface data len s =
     (if len < 20 then s
      else
        let ihl = ucast (data 0 AND 0x0F) * 4 :: u32; totlen = ucast (be16_at data 2) :: u32 in
        if totlen > len \<or> ihl < 20 then s
        else
          let payload = (\<lambda>i. data (unat ihl + i)); plen = totlen - ihl; dst = be32_at data 16 in
          if if_ip iface \<noteq> 0 \<and> dst \<noteq> if_ip iface \<and> dst \<noteq> 0xFFFFFFFF then s
          else if data 9 = IP_PROTO_ICMP then icmp_handle can iface (be32_at data 12) payload plen s
          else if data 9 = IP_PROTO_UDP then udp_deliver payload plen s
          else s)"

definition net_receive :: "(u32 \<Rightarrow> bool) \<Rightarrow> net_iface \<Rightarrow> (nat \<Rightarrow> u8) \<Rightarrow> u32 \<Rightarrow> net \<Rightarrow> net" where
  "net_receive can iface data len s =
     (if len < ETH_HDR then s
      else
        let s = count_stat (\<lambda>t. t\<lparr>rx_packets := rx_packets t + 1, rx_bytes := rx_bytes t + ucast len\<rparr>) s;
            payload = (\<lambda>i. data (14 + i)); plen = len - ETH_HDR; ty = be16_at data 12 in
        if ty = ETH_TYPE_ARP then arp_handle iface payload plen s
        else if ty = ETH_TYPE_IPV4 then ipv4_handle can iface payload plen s
        else count_stat (\<lambda>t. t\<lparr>rx_dropped := rx_dropped t + 1\<rparr>) s)"

definition sock_fd_ok :: "int \<Rightarrow> net \<Rightarrow> bool" where
  "sock_fd_ok fd s \<longleftrightarrow> 0 \<le> fd \<and> fd < int SOCK_MAX \<and> sk_used (nt_sockets s ! nat fd)"

definition sock_open :: "u8 \<Rightarrow> net \<Rightarrow> int \<times> net" where
  "sock_open protocol s =
     (case find_idx (\<lambda>k. \<not> sk_used k) (nt_sockets s) of
        None \<Rightarrow> (- 1, s)
      | Some i \<Rightarrow> (int i, s\<lparr>nt_sockets := (nt_sockets s)[i := sock_zero\<lparr>sk_used := True, sk_protocol := protocol\<rparr>]\<rparr>))"

definition sock_close :: "int \<Rightarrow> net \<Rightarrow> net" where
  "sock_close fd s =
     (if 0 \<le> fd \<and> fd < int SOCK_MAX
      then s\<lparr>nt_sockets := (nt_sockets s)[nat fd := (nt_sockets s ! nat fd)\<lparr>sk_used := False\<rparr>]\<rparr> else s)"

definition sock_bind :: "int \<Rightarrow> u16 \<Rightarrow> net \<Rightarrow> int \<times> net" where
  "sock_bind fd port s =
     (if \<not> sock_fd_ok fd s then (- 1, s)
      else (0, s\<lparr>nt_sockets := (nt_sockets s)[nat fd := (nt_sockets s ! nat fd)\<lparr>sk_local_port := port\<rparr>]\<rparr>))"

definition sock_sendto :: "(u32 \<Rightarrow> bool) \<Rightarrow> int \<Rightarrow> u32 \<Rightarrow> u16 \<Rightarrow> u8 list \<Rightarrow> net \<Rightarrow> int \<times> net" where
  "sock_sendto can fd dst port buf s =
     (if \<not> sock_fd_ok fd s then (- 1, s)
      else case nt_ifaces s of
        [] \<Rightarrow> (- 1, s)
      | iface # _ \<Rightarrow> udp_send can iface dst (sk_local_port (nt_sockets s ! nat fd)) port buf s)"

fun sock_take :: "nat \<Rightarrow> socket \<Rightarrow> u8 list \<times> socket" where
  "sock_take 0 k = ([], k)"
| "sock_take (Suc n) k =
     (if sk_rx_head k = sk_rx_tail k then ([], k)
      else
        let b = sk_rx_buf k ! unat (sk_rx_head k);
            (out, k') = sock_take n (k\<lparr>sk_rx_head := (sk_rx_head k + 1) mod SOCK_RXBUF\<rparr>)
        in (b # out, k'))"

definition sock_recvfrom :: "int \<Rightarrow> u32 \<Rightarrow> net \<Rightarrow> int \<times> u8 list \<times> net" where
  "sock_recvfrom fd len s =
     (if \<not> sock_fd_ok fd s then (- 1, [], s)
      else
        let (out, k) = sock_take (unat len) (nt_sockets s ! nat fd)
        in (int (length out), out, s\<lparr>nt_sockets := (nt_sockets s)[nat fd := k]\<rparr>))"


section \<open>The ARP cache as a keyed table\<close>

definition arp_inv :: "arp_entry list \<Rightarrow> bool" where
  "arp_inv c \<longleftrightarrow> (\<forall>i < length c. \<forall>j < length c. ae_valid (c ! i) \<longrightarrow> ae_valid (c ! j) \<longrightarrow> ae_ip (c ! i) = ae_ip (c ! j) \<longrightarrow> i = j)"

text \<open>\<open>None\<close> when the address is new and the cache is full.\<close>

definition arp_store :: "arp_entry list \<Rightarrow> u32 \<Rightarrow> u8 list \<Rightarrow> arp_entry list option" where
  "arp_store c ip mac =
     (if find_idx (\<lambda>e. ae_valid e \<and> ae_ip e = ip) c = None \<and> find_idx (\<lambda>e. \<not> ae_valid e) c = None then None
      else Some (arp_add ip mac c))"

lemma arp_lookup_iff:
  assumes "arp_inv c"
  shows "arp_lookup ip c = Some m \<longleftrightarrow> (\<exists>i < length c. ae_valid (c ! i) \<and> ae_ip (c ! i) = ip \<and> ae_mac (c ! i) = m)"
proof
  assume "arp_lookup ip c = Some m"
  then show "\<exists>i < length c. ae_valid (c ! i) \<and> ae_ip (c ! i) = ip \<and> ae_mac (c ! i) = m"
    by (auto simp: arp_lookup_def find_Some_iff)
next
  assume "\<exists>i < length c. ae_valid (c ! i) \<and> ae_ip (c ! i) = ip \<and> ae_mac (c ! i) = m"
  then obtain i where i: "i < length c" "ae_valid (c ! i)" "ae_ip (c ! i) = ip" "ae_mac (c ! i) = m" by blast
  then have "find (\<lambda>e. ae_valid e \<and> ae_ip e = ip) c = Some (c ! i)"
    using assms unfolding find_Some_iff arp_inv_def by (intro exI [of _ i]) (metis less_trans nat_neq_iff)
  then show "arp_lookup ip c = Some m" using i(4) by (simp add: arp_lookup_def)
qed

lemma arp_store_slot:
  assumes "arp_inv c" "arp_store c ip mac = Some c'"
  obtains i e where "i < length c" "c' = c[i := e]" "ae_valid e" "ae_ip e = ip" "ae_mac e = mac"
    "\<And>j. j < length c \<Longrightarrow> j \<noteq> i \<Longrightarrow> ae_valid (c ! j) \<Longrightarrow> ae_ip (c ! j) \<noteq> ip" "ae_valid (c ! i) \<Longrightarrow> ae_ip (c ! i) = ip"
proof (cases "find_idx (\<lambda>e. ae_valid e \<and> ae_ip e = ip) c")
  case (Some i)
  then have i: "i < length c" "ae_valid (c ! i)" "ae_ip (c ! i) = ip" using find_idx_SomeD by fast+
  show ?thesis
    by (rule that [of i "(c ! i)\<lparr>ae_mac := mac, ae_ttl := 300\<rparr>"])
      (use assms i Some in \<open>auto simp: arp_store_def arp_add_def arp_inv_def\<close>)
next
  case None
  then obtain i where s: "find_idx (\<lambda>e. \<not> ae_valid e) c = Some i" using assms(2)
    by (cases "find_idx (\<lambda>e. \<not> ae_valid e) c") (auto simp: arp_store_def)
  then have i: "i < length c" "\<not> ae_valid (c ! i)" using find_idx_SomeD by fast+
  show ?thesis
    by (rule that [of i "\<lparr>ae_ip = ip, ae_mac = mac, ae_ttl = 300, ae_valid = True\<rparr>"])
      (use assms(2) i s None in \<open>auto simp: arp_store_def arp_add_def find_idx_None all_set_conv_all_nth\<close>)
qed

interpretation arp: kv_table "\<lambda>c ip. arp_lookup ip c" arp_store arp_inv "\<lambda>_. True" "\<lambda>m. m"
proof
  fix c c' :: "arp_entry list" and ip ip' mac
  assume inv: "arp_inv c"
  show "arp_inv c'" if st: "arp_store c ip mac = Some c'"
  proof -
    obtain i e where "i < length c" "c' = c[i := e]" "ae_ip e = ip"
      "\<And>j. j < length c \<Longrightarrow> j \<noteq> i \<Longrightarrow> ae_valid (c ! j) \<Longrightarrow> ae_ip (c ! j) \<noteq> ip"
      using arp_store_slot [OF inv st] by metis
    then show ?thesis using inv by (auto simp: arp_inv_def nth_list_update; metis)
  qed
  show "arp_lookup ip' c' = (if ip' = ip then Some mac else arp_lookup ip' c)" if st: "arp_store c ip mac = Some c'"
  proof -
    obtain i e where s: "i < length c" "c' = c[i := e]" "ae_valid e" "ae_ip e = ip" "ae_mac e = mac"
      "\<And>j. j < length c \<Longrightarrow> j \<noteq> i \<Longrightarrow> ae_valid (c ! j) \<Longrightarrow> ae_ip (c ! j) \<noteq> ip" "ae_valid (c ! i) \<Longrightarrow> ae_ip (c ! i) = ip"
      using arp_store_slot [OF inv st] by metis
    have inv': "arp_inv c'" using inv s by (auto simp: arp_inv_def nth_list_update; metis)
    show ?thesis
    proof (cases "ip' = ip")
      case True
      have "arp_lookup ip c' = Some mac"
        unfolding arp_lookup_iff [OF inv'] using s(1-5) by (intro exI [of _ i]) simp
      then show ?thesis using True by simp
    next
      case False
      then have "arp_lookup ip' c' = Some m \<longleftrightarrow> arp_lookup ip' c = Some m" for m
        unfolding arp_lookup_iff [OF inv'] arp_lookup_iff [OF inv] using s by (auto simp: nth_list_update) metis+
      then show ?thesis using False by (metis not_None_eq)
    qed
  qed
  show "arp_lookup ip c = None" if "arp_store c ip mac = None"
    using that by (auto simp: arp_store_def arp_lookup_def find_idx_None find_None_iff split: if_splits)
qed

section \<open>Checksums\<close>

lemma ip_checksum_eq: "ip_checksum = klib_checksum16"
  by (rule ext) (simp add: ip_checksum_def klib_checksum16_def)

lemma ip4_hdr_verifies:
  "ip_checksum (ip4_hdr tot cid proto (ip_checksum (ip4_hdr tot cid proto 0 src dst)) src dst) = 0"
  using checksum16_verifies [of "[0x45, 0] @ be16_bytes tot @ be16_bytes cid @ [0, 0, 64, proto]" "be32_bytes src @ be32_bytes dst"]
  by (simp add: ip_checksum_eq ip4_hdr_def)

lemma icmp_reply_verifies:
  assumes "8 \<le> length req" "length req \<le> 65535"
  shows "ip_checksum (icmp_reply req) = 0 \<and> icmp_reply req ! 0 = ICMP_ECHO_REPLY \<and>
    drop 4 (icmp_reply req) = drop 4 req \<and> length (icmp_reply req) = length req"
proof -
  obtain a b c d r where req: "req = a # b # c # d # r"
  proof -
    have "Suc (Suc (Suc (Suc 0))) \<le> length req" using assms(1) by simp
    then show thesis using that by (auto simp: Suc_le_length_iff)
  qed
  have rep: "icmp_reply req = [0, b] @ bytes16 (ip_checksum ([0, b] @ bytes16 0 @ r)) @ r"
    by (simp add: icmp_reply_def put_at_def ICMP_ECHO_REPLY_def Let_def req)
  show ?thesis
    unfolding rep using checksum16_verifies [of "[0, b]" r] assms(2)
    by (simp add: ip_checksum_eq ICMP_ECHO_REPLY_def req)
qed


section \<open>Socket buffers\<close>

definition sock_ok :: "socket \<Rightarrow> bool" where
  "sock_ok k \<longleftrightarrow> length (sk_rx_buf k) = 2048 \<and> unat (sk_rx_head k) < 2048 \<and> unat (sk_rx_tail k) < 2048"

definition rx_count :: "socket \<Rightarrow> nat" where
  "rx_count k = ring_count 2048 (unat (sk_rx_head k)) (unat (sk_rx_tail k))"

text \<open>The bytes that wait in the socket.\<close>

definition rx_bytes_of :: "socket \<Rightarrow> u8 list" where
  "rx_bytes_of k = ring_seg (sk_rx_buf k) (unat (sk_rx_head k)) (rx_count k)"

lemma unat_next: "unat x < 2048 \<Longrightarrow> unat ((x + 1) mod SOCK_RXBUF) = Suc (unat x) mod 2048"
  by (simp add: SOCK_RXBUF_def unat_mod unat_word_ariths)

lemma sock_push_room:
  assumes ok: "sock_ok k" and room: "rx_count k < 2047"
  shows "sock_ok (sock_push b k) \<and> rx_bytes_of (sock_push b k) = rx_bytes_of k @ [b] \<and> rx_count (sock_push b k) = Suc (rx_count k)"
proof -
  define h tl' where "h = unat (sk_rx_head k)" and "tl' = unat (sk_rx_tail k)"
  have lim: "h < 2048" "tl' < 2048" "length (sk_rx_buf k) = 2048" using ok by (simp_all add: sock_ok_def h_def tl'_def)
  have nx: "unat ((sk_rx_tail k + 1) mod SOCK_RXBUF) = Suc tl' mod 2048" using unat_next lim by (simp add: tl'_def)
  have nf: "Suc tl' mod 2048 \<noteq> h" using ring_count_full [OF lim(1,2)] room by (simp add: rx_count_def h_def tl'_def)
  then have "(sk_rx_tail k + 1) mod SOCK_RXBUF \<noteq> sk_rx_head k" using nx by (metis h_def)
  then have p: "sock_push b k = k\<lparr>sk_rx_buf := (sk_rx_buf k)[tl' := b], sk_rx_tail := (sk_rx_tail k + 1) mod SOCK_RXBUF\<rparr>"
    by (simp add: sock_push_def Let_def tl'_def)
  have c: "rx_count (sock_push b k) = Suc (rx_count k)"
    using ring_count_push [OF lim(1,2) nf] by (simp add: p rx_count_def nx h_def tl'_def)
  have "ring_seg ((sk_rx_buf k)[tl' := b]) h (Suc (rx_count k)) = ring_seg (sk_rx_buf k) h (rx_count k) @ [b]"
    using room lim ring_wr [OF lim(1,2)] by (intro ring_seg_snoc) (simp_all add: rx_count_def h_def tl'_def)
  then show ?thesis using c lim nx by (simp add: rx_bytes_of_def p sock_ok_def h_def)
qed

lemma sock_push_many:
  "sock_ok k \<Longrightarrow> rx_count k + length bs \<le> 2047 \<Longrightarrow>
   sock_ok (fold sock_push bs k) \<and> rx_bytes_of (fold sock_push bs k) = rx_bytes_of k @ bs \<and>
   rx_count (fold sock_push bs k) = rx_count k + length bs"
proof (induction bs arbitrary: k)
  case (Cons b bs)
  show ?case using sock_push_room [of k b] Cons.IH [of "sock_push b k"] Cons.prems by simp
qed simp

lemma sock_push_keeps [simp]:
  "sk_used (sock_push b k) = sk_used k" "sk_protocol (sock_push b k) = sk_protocol k" "sk_local_port (sock_push b k) = sk_local_port k"
  by (simp_all add: sock_push_def Let_def)

lemma sock_push_fold_keeps [simp]: "sk_used (fold sock_push bs k) = sk_used k"
  by (induction bs arbitrary: k) simp_all

text \<open>On a full ring one more byte makes it look empty.\<close>

lemma sock_push_full:
  assumes "sock_ok k" "rx_count k = 2047"
  shows "rx_bytes_of (sock_push b k) = []"
proof -
  have lim: "unat (sk_rx_head k) < 2048" "unat (sk_rx_tail k) < 2048" using assms(1) by (simp_all add: sock_ok_def)
  then have "unat ((sk_rx_tail k + 1) mod SOCK_RXBUF) = unat (sk_rx_head k)"
    using ring_count_full [OF lim] assms(2) unat_next by (simp add: rx_count_def)
  then have "(sk_rx_tail k + 1) mod SOCK_RXBUF = sk_rx_head k" by (simp only: word_unat_eq_iff)
  then have "sk_rx_tail (sock_push b k) = sk_rx_head (sock_push b k)" by (simp add: sock_push_def Let_def)
  then show ?thesis using lim by (simp add: rx_bytes_of_def rx_count_def ring_count_def)
qed

lemma sock_take_spec:
  "sock_ok k \<Longrightarrow> sock_take n k = (out, k') \<Longrightarrow>
   out = take n (rx_bytes_of k) \<and> rx_bytes_of k' = drop n (rx_bytes_of k) \<and> sock_ok k'"
proof (induction n arbitrary: k out k')
  case (Suc n)
  define h tl' where "h = unat (sk_rx_head k)" and "tl' = unat (sk_rx_tail k)"
  have lim: "h < 2048" "tl' < 2048" "length (sk_rx_buf k) = 2048" using Suc.prems(1) by (simp_all add: sock_ok_def h_def tl'_def)
  show ?case
  proof (cases "sk_rx_head k = sk_rx_tail k")
    case True
    then have "rx_bytes_of k = []" using lim by (simp add: rx_bytes_of_def rx_count_def ring_count_def)
    then show ?thesis using True Suc.prems by simp
  next
    case False
    define k1 where "k1 = k\<lparr>sk_rx_head := (sk_rx_head k + 1) mod SOCK_RXBUF\<rparr>"
    have h1: "unat (sk_rx_head k1) = Suc h mod 2048" using unat_next lim by (simp add: k1_def h_def)
    have "h \<noteq> tl'" using False unfolding h_def tl'_def by (metis word_unat_eq_iff)
    then have cnt: "rx_count k = Suc (rx_count k1)"
      using ring_count_pop [OF lim(1,2)] h1 by (simp add: rx_count_def h_def tl'_def k1_def)
    have ok1: "sock_ok k1" using Suc.prems(1) h1 by (simp add: sock_ok_def k1_def)
    have "ring_seg (sk_rx_buf k1) (unat (sk_rx_head k1)) (rx_count k1) = ring_seg (sk_rx_buf k) (Suc h) (rx_count k1)"
    proof -
      have "sk_rx_buf k1 = sk_rx_buf k" by (simp add: k1_def)
      then show ?thesis by (simp only:) (rule ring_seg_start_mod, simp add: h1 lim(3))
    qed
    then have c1: "rx_bytes_of k = sk_rx_buf k ! h # rx_bytes_of k1"
      using cnt lim by (simp add: rx_bytes_of_def ring_seg_Suc h_def)
    obtain o1 where o1: "sock_take n k1 = (o1, k')" "out = sk_rx_buf k ! h # o1"
      using Suc.prems(2) False by (auto simp: k1_def h_def Let_def split: prod.splits)
    show ?thesis using Suc.IH [OF ok1 o1(1)] c1 o1(2) by simp
  qed
qed simp


section \<open>From socket to socket\<close>

lemma has_at_shift: "has_at (\<lambda>i. p (k + i)) j bs \<longleftrightarrow> has_at p (k + j) bs"
  by (simp add: has_at_def add.assoc)

definition udp_pkt :: "u16 \<Rightarrow> u16 \<Rightarrow> u8 list \<Rightarrow> u8 list" where
  "udp_pkt sp dp data = be16_bytes sp @ be16_bytes dp @ be16_bytes (of_nat (8 + length data)) @ be16_bytes 0 @ data"

lemma of_nat_u16: "n < 65536 \<Longrightarrow> (ucast (of_nat n :: u32) :: u16) = of_nat n"
  by (rule word_unat_eq_iff [THEN iffD2]) (simp add: unsigned_ucast_eq unat_of_nat take_bit_eq_mod)

lemma udp_deliver_spec:
  assumes at: "has_at payload 0 (udp_pkt sp dp data)" and len: "length data \<le> 2047" "plen = of_nat (8 + length data)"
  shows "nt_sockets (udp_deliver payload plen s) = map (\<lambda>k. if sock_wants dp k then fold sock_push data k else k) (nt_sockets s)"
proof -
  have parts: "has_at payload 2 (be16_bytes dp)" "has_at payload 4 (be16_bytes (of_nat (8 + length data)))" "has_at payload 8 data"
    using at by (simp_all add: udp_pkt_def has_at_append eval_nat_numeral del: of_nat_add of_nat_Suc)
  have "unat plen = 8 + length data" using len by (simp add: unat_of_nat take_bit_nat_eq_self del: of_nat_add)
  then have p: "\<not> plen < 8" by (simp add: word_less_nat_alt)
  have "unat (of_nat (8 + length data) :: u16) = 8 + length data" using len(1) by (simp add: unat_of_nat take_bit_nat_eq_self del: of_nat_add)
  then have "unat (ucast (of_nat (8 + length data) :: u16) - 8 :: u32) = length data"
    using len(1) by (simp add: unat_sub word_le_nat_alt unat_ucast_up del: of_nat_add)
  moreover have "map (\<lambda>i. payload (8 + i)) [0..<length data] = data" by (rule has_at_map [OF parts(3)])
  ultimately show ?thesis
    using p be16_at_bytes [OF parts(1)] be16_at_bytes [OF parts(2)]
    by (simp add: udp_deliver_def count_stat_def Let_def del: of_nat_add)
qed

lemma net_receive_udp:
  assumes at: "has_at d 0 (eth_hdr m1 m2 ETH_TYPE_IPV4 @ ip4_hdr (of_nat (28 + length data)) cid IP_PROTO_UDP c src dst @ udp_pkt sp dp data)"
    and "length m1 = 6" "length m2 = 6" and dst: "if_ip iface = dst \<or> if_ip iface = 0 \<or> dst = 0xFFFFFFFF"
    and len: "length data \<le> 2047" "n = of_nat (42 + length data)"
  shows "nt_sockets (net_receive can iface d n s) = map (\<lambda>k. if sock_wants dp k then fold sock_push data k else k) (nt_sockets s)"
proof -
  let ?ip = "\<lambda>i. d (14 + i)" and ?pl = "\<lambda>i. d (14 + (20 + i))"
  define h where "h = ip4_hdr (of_nat (28 + length data)) cid IP_PROTO_UDP c src dst"
  have lh: "length h = 20" by (simp add: h_def ip4_hdr_def)
  have at3: "has_at d 12 (be16_bytes ETH_TYPE_IPV4)" "has_at d 14 h" "has_at d 34 (udp_pkt sp dp data)"
    using at [folded h_def] assms(2,3) lh by (simp_all add: eth_hdr_def has_at_append)
  then have ip: "has_at ?ip 0 h" "has_at ?pl 0 (udp_pkt sp dp data)" by (simp_all add: has_at_shift)
  have f: "?ip 0 = 0x45" "has_at ?ip 2 (be16_bytes (of_nat (28 + length data)))" "?ip 9 = IP_PROTO_UDP" "has_at ?ip 16 (be32_bytes dst)"
    using ip(1) by (simp_all add: h_def ip4_hdr_def has_at_append has_at_Cons eval_nat_numeral del: of_nat_add of_nat_Suc)
  have un: "unat n = 42 + length data" using len by (simp add: unat_of_nat take_bit_nat_eq_self del: of_nat_add)
  have nl: "unat (n - 14) = 28 + length data" using un by (simp add: unat_sub word_le_nat_alt)
  define tot where "tot = (ucast (of_nat (28 + length data) :: u16) :: u32)"
  have tot: "unat tot = 28 + length data" using len(1)
    by (simp add: tot_def unat_ucast_up unat_of_nat take_bit_nat_eq_self del: of_nat_add)
  have tn: "n - 14 = tot" by (simp only: word_unat_eq_iff nl tot)
  have pl: "tot - 20 = of_nat (8 + length data)"
    using len(1) tot by (simp only: word_unat_eq_iff) (simp add: unat_sub word_le_nat_alt unat_of_nat take_bit_nat_eq_self del: of_nat_add)
  have "\<not> n < 14" "\<not> tot < 20" using un tot by (simp_all add: word_less_nat_alt)
  have ihl: "ucast ((0x45 :: u8) AND 0x0F) * 4 = (20 :: u32)" by simp
  have "ipv4_handle can iface ?ip tot s' = udp_deliver ?pl (tot - 20) s'" for s'
    using f(1,3) be16_at_bytes [OF f(2)] be32_at_bytes [OF f(4)] dst \<open>\<not> tot < 20\<close>
    by (auto simp: ipv4_handle_def Let_def ihl tot_def [symmetric] IP_PROTO_UDP_def IP_PROTO_ICMP_def simp del: of_nat_add)
  then show ?thesis
    using \<open>\<not> n < 14\<close> be16_at_bytes [OF at3(1)] udp_deliver_spec [OF ip(2) len(1) pl]
    by (simp add: net_receive_def ETH_HDR_def tn ETH_TYPE_IPV4_def ETH_TYPE_ARP_def count_stat_def Let_def)
qed


definition next_hop :: "net_iface \<Rightarrow> u32 \<Rightarrow> u32" where
  "next_hop iface dst = (if dst AND if_netmask iface \<noteq> if_ip iface AND if_netmask iface then if_gateway iface else dst)"

definition ip4_frame :: "net_iface \<Rightarrow> u8 list \<Rightarrow> u32 \<Rightarrow> u8 \<Rightarrow> u16 \<Rightarrow> u8 list \<Rightarrow> u8 list" where
  "ip4_frame iface mac dst proto cid payload =
     (let tot = of_nat (20 + length payload) in
      eth_hdr mac (if_mac iface) ETH_TYPE_IPV4 @
      ip4_hdr tot cid proto (ip_checksum (ip4_hdr tot cid proto 0 (if_ip iface) dst)) (if_ip iface) dst @ payload)"

lemma ip4_send_spec:
  assumes "if_send iface = Some f" "\<forall>k. can k" "arp_lookup (next_hop iface dst) (nt_arp s) = Some mac" "length payload < 65516"
  shows "fst (ip4_send can iface dst proto payload s) = f (ip4_frame iface mac dst proto (nt_ip_id s) payload) \<and>
    nt_tx (snd (ip4_send can iface dst proto payload s)) = nt_tx s @ [ip4_frame iface mac dst proto (nt_ip_id s) payload]"
proof -
  have "20 + of_nat (length payload) = (of_nat (20 + length payload) :: u32)" by simp
  then have u: "ucast (20 + of_nat (length payload) :: u32) = (of_nat (20 + length payload) :: u16)"
    using assms(4) of_nat_u16 [of "20 + length payload"] by (simp only:)
  show ?thesis
    unfolding ip4_send_def Let_def u next_hop_def [symmetric] ip4_frame_def
    using assms(1-3) by (simp add: transmit_def count_stat_def del: of_nat_add)
qed

lemma udp_send_spec:
  assumes "if_send iface = Some f" "\<forall>k. can k" "arp_lookup (next_hop iface dst) (nt_arp s) = Some mac" "length data \<le> 2047"
  shows "nt_tx (snd (udp_send can iface dst sp dp data s)) = nt_tx s @ [ip4_frame iface mac dst IP_PROTO_UDP (nt_ip_id s) (udp_pkt sp dp data)]"
proof -
  have "8 + of_nat (length data) = (of_nat (8 + length data) :: u32)" by simp
  then have u: "ucast (8 + of_nat (length data) :: u32) = (of_nat (8 + length data) :: u16)"
    using assms(4) of_nat_u16 [of "8 + length data"] by (simp only:)
  have "length (udp_pkt sp dp data) < 65516" using assms(4) by (simp add: udp_pkt_def)
  from ip4_send_spec [OF assms(1-3) this, of IP_PROTO_UDP]
  have sent: "nt_tx (snd (ip4_send can iface dst IP_PROTO_UDP (udp_pkt sp dp data) s)) =
      nt_tx s @ [ip4_frame iface mac dst IP_PROTO_UDP (nt_ip_id s) (udp_pkt sp dp data)]" by (rule conjunct2)
  have "can (8 + of_nat (length data))" using assms(2) by blast
  with sent show ?thesis
    unfolding udp_send_def Let_def u
    by (simp add: udp_pkt_def count_stat_def case_prod_unfold del: of_nat_add)
qed

text \<open>C7: a datagram sent on one socket arrives at another machine's socket. The frame that \<open>sock_sendto\<close> hands to
  the driver, received by a machine with the destination address, appends the sent bytes to every UDP
  socket bound to the port; \<open>sock_recvfrom\<close> then returns them after those already waiting there, as long as
  the receive ring has room for them.\<close>

theorem udp_end_to_end:
  assumes "sock_fd_ok fd s" "nt_ifaces s = iface # ifs" "if_send iface = Some f" "\<forall>k. can k"
    "arp_lookup (next_hop iface dst) (nt_arp s) = Some mac" "length mac = 6" "length (if_mac iface) = 6"
    and "if_ip iface' = dst" "sock_fd_ok fd' r" "nat fd' < length (nt_sockets r)" "sock_wants port (nt_sockets r ! nat fd')"
    and "sock_ok (nt_sockets r ! nat fd')" "rx_count (nt_sockets r ! nat fd') + length data \<le> 2047"
    and "frame = last (nt_tx (snd (sock_sendto can fd dst port data s)))"
  shows "\<exists>r'. sock_recvfrom fd' 4096 (net_receive can' iface' (pkt_of frame) (of_nat (length frame)) r) =
    (int (length (rx_bytes_of (nt_sockets r ! nat fd') @ data)), rx_bytes_of (nt_sockets r ! nat fd') @ data, r')"
proof -
  define sp where "sp = sk_local_port (nt_sockets s ! nat fd)"
  let ?k = "nt_sockets r ! nat fd'"
  have le: "length data \<le> 2047" using assms(13) by simp
  have fr: "frame = ip4_frame iface mac dst IP_PROTO_UDP (nt_ip_id s) (udp_pkt sp port data)"
    using udp_send_spec [OF assms(3-5) le, of sp port] assms(1,2,14) by (simp add: sock_sendto_def sp_def)
  have lu: "length (udp_pkt sp port data) = 8 + length data" by (simp add: udp_pkt_def)
  have lf: "length frame = 42 + length data"
    unfolding fr ip4_frame_def using assms(6,7) lu by (simp add: eth_hdr_def ip4_hdr_def Let_def)
  define c where "c = ip_checksum (ip4_hdr (of_nat (28 + length data)) (nt_ip_id s) IP_PROTO_UDP 0 (if_ip iface) dst)"
  have "frame = eth_hdr mac (if_mac iface) ETH_TYPE_IPV4 @
      ip4_hdr (of_nat (28 + length data)) (nt_ip_id s) IP_PROTO_UDP c (if_ip iface) dst @ udp_pkt sp port data"
    unfolding fr ip4_frame_def c_def Let_def lu by (simp add: add.assoc [symmetric] del: of_nat_add)
  then have at: "has_at (pkt_of frame) 0 (eth_hdr mac (if_mac iface) ETH_TYPE_IPV4 @
      ip4_hdr (of_nat (28 + length data)) (nt_ip_id s) IP_PROTO_UDP c (if_ip iface) dst @ udp_pkt sp port data)"
    using has_at_pkt_of [of frame] by (simp del: of_nat_add)
  define r1 where "r1 = net_receive can' iface' (pkt_of frame) (of_nat (length frame)) r"
  have r1: "nt_sockets r1 = map (\<lambda>k. if sock_wants port k then fold sock_push data k else k) (nt_sockets r)"
    unfolding r1_def by (rule net_receive_udp [OF at assms(6,7) _ le]) (simp_all add: assms(8) lf)
  have k: "nt_sockets r1 ! nat fd' = fold sock_push data ?k" using assms(10,11) by (simp add: r1)
  have many: "sock_ok (fold sock_push data ?k) \<and> rx_bytes_of (fold sock_push data ?k) = rx_bytes_of ?k @ data"
    using sock_push_many [OF assms(12,13)] by simp
  obtain out k' where tk: "sock_take 4096 (fold sock_push data ?k) = (out, k')" by fastforce
  have "length (rx_bytes_of ?k) = rx_count ?k" by (simp add: rx_bytes_of_def)
  then have "out = rx_bytes_of ?k @ data" using sock_take_spec [OF _ tk] many assms(13) by simp
  moreover have "sock_fd_ok fd' r1" using assms(9,10) k by (simp add: sock_fd_ok_def)
  ultimately show ?thesis using tk by (simp add: r1_def [symmetric] sock_recvfrom_def k del: sock_take.simps)
qed

text \<open>an echo request for this machine is answered: the reply goes to its sender, carries the same identifier,
  sequence number and data, and both its ICMP and its IP checksum verify.\<close>

theorem icmp_echo_answered:
  assumes "if_send iface = Some f" "\<forall>k. can k" "arp_lookup (next_hop iface src) (nt_arp s) = Some mac"
    "length mac = 6" "length (if_mac iface) = 6" "data 0 = ICMP_ECHO_REQUEST" "8 \<le> len" "len < 65516"
  shows "\<exists>hdr reply. nt_tx (icmp_handle can iface src data len s) = nt_tx s @ [eth_hdr mac (if_mac iface) ETH_TYPE_IPV4 @ hdr @ reply] \<and>
    length hdr = 20 \<and> ip_checksum hdr = 0 \<and> drop 16 hdr = be32_bytes src \<and>
    ip_checksum reply = 0 \<and> reply ! 0 = ICMP_ECHO_REPLY \<and> length reply = unat len \<and> (\<forall>i. 4 \<le> i \<longrightarrow> i < unat len \<longrightarrow> reply ! i = data i)"
proof -
  define req where "req = map data [0..<unat len]"
  have len: "8 \<le> unat len" "unat len < 65516" using assms(7,8) by (simp_all add: word_le_nat_alt word_less_nat_alt)
  then have lr: "length req = unat len" "8 \<le> length req" "length req \<le> 65535" by (simp_all add: req_def)
  note rep = icmp_reply_verifies [OF lr(2,3)]
  define s1 where "s1 = count_stat (\<lambda>t. t\<lparr>icmp_pings := icmp_pings t + 1\<rparr>) s"
  have s1: "nt_arp s1 = nt_arp s" "nt_tx s1 = nt_tx s" "nt_ip_id s1 = nt_ip_id s" by (simp_all add: s1_def count_stat_def)
  define tot where "tot = (of_nat (20 + unat len) :: u16)"
  define hdr where "hdr = ip4_hdr tot (nt_ip_id s) IP_PROTO_ICMP
      (ip_checksum (ip4_hdr tot (nt_ip_id s) IP_PROTO_ICMP 0 (if_ip iface) src)) (if_ip iface) src"
  have sent: "nt_tx (snd (ip4_send can iface src IP_PROTO_ICMP (icmp_reply req) s1)) =
      nt_tx s @ [ip4_frame iface mac src IP_PROTO_ICMP (nt_ip_id s) (icmp_reply req)]"
    using ip4_send_spec [OF assms(1,2), of src s1 mac "icmp_reply req" IP_PROTO_ICMP] assms(3) rep lr(1) len(2) s1 by metis
  have "can len" "\<not> len < 8" using assms(2,7) by (simp_all add: not_less)
  then have "nt_tx (icmp_handle can iface src data len s) = nt_tx s @ [ip4_frame iface mac src IP_PROTO_ICMP (nt_ip_id s) (icmp_reply req)]"
    using assms(6) sent by (simp add: icmp_handle_def s1_def [symmetric] req_def [symmetric] Let_def)
  moreover have "ip4_frame iface mac src IP_PROTO_ICMP (nt_ip_id s) (icmp_reply req) =
      eth_hdr mac (if_mac iface) ETH_TYPE_IPV4 @ hdr @ icmp_reply req"
    using rep lr(1) by (simp add: ip4_frame_def hdr_def tot_def Let_def)
  moreover have "length hdr = 20 \<and> ip_checksum hdr = 0 \<and> drop 16 hdr = be32_bytes src"
    using ip4_hdr_verifies by (simp add: hdr_def) (simp add: ip4_hdr_def)
  moreover have "\<forall>i. 4 \<le> i \<longrightarrow> i < unat len \<longrightarrow> icmp_reply req ! i = data i"
  proof (intro allI impI)
    fix i assume i: "4 \<le> i" "i < unat len"
    have l: "length (icmp_reply req) = length req" and d: "drop 4 (icmp_reply req) = drop 4 req" using rep by simp_all
    have "icmp_reply req ! i = req ! i" using arg_cong [OF d, of "\<lambda>xs. xs ! (i - 4)"] i l lr(1) by simp
    then show "icmp_reply req ! i = data i" using i(2) by (simp add: req_def)
  qed
  ultimately show ?thesis using rep lr(1) by (intro exI [of _ hdr] exI [of _ "icmp_reply req"]) simp
qed


text \<open>the cache answers with the last address announced for a host, for as many hosts as it has room for:
  when all announcements have found a slot, a lookup returns the last one for its address.\<close>

theorem arp_last_announcement_wins:
  assumes "arp_inv c" "puts arp_store c anns = Some c'"
  shows "arp_lookup ip c' = (case map_of (rev anns) ip of Some mac \<Rightarrow> Some mac | None \<Rightarrow> arp_lookup ip c)"
  using arp.lookup_puts [OF assms(1) _ _ assms(2), of ip] by simp

section \<open>Well-formedness\<close>

definition net_wf :: "net \<Rightarrow> bool" where
  "net_wf s \<longleftrightarrow> length (nt_ifaces s) \<le> MAX_IFACES \<and> length (nt_arp s) = ARP_CACHE_SIZE \<and> arp_inv (nt_arp s) \<and>
     length (nt_sockets s) = SOCK_MAX \<and> (\<forall>k \<in> set (nt_sockets s). sock_ok k)"

text \<open>What user programs and drivers can do, in any order.\<close>

inductive net_step :: "net \<Rightarrow> net \<Rightarrow> bool" where
  register: "net_step s (snd (net_register_iface iface s))"
| receive: "net_step s (net_receive can iface data len s)"
| ping: "net_step s (snd (icmp_ping can iface target seq s))"
| opened: "net_step s (snd (sock_open protocol s))"
| closed: "net_step s (sock_close fd s)"
| bound: "net_step s (snd (sock_bind fd port s))"
| sent: "net_step s (snd (sock_sendto can fd dst port buf s))"
| received: "net_step s (snd (snd (sock_recvfrom fd len s)))"

lemma net_wf_tables:
  "nt_ifaces s' = nt_ifaces s \<Longrightarrow> nt_arp s' = nt_arp s \<Longrightarrow> nt_sockets s' = nt_sockets s \<Longrightarrow> net_wf s \<Longrightarrow> net_wf s'"
  by (simp add: net_wf_def)

lemma count_stat_wf [simp]: "net_wf (count_stat f s) = net_wf s"
  by (simp add: net_wf_def count_stat_def)

lemma transmit_wf [simp]: "net_wf (snd (transmit iface frame s)) = net_wf s"
  by (simp add: transmit_def net_wf_def split: option.split)

lemma ip4_send_wf [simp]: "net_wf s \<Longrightarrow> net_wf (snd (ip4_send can iface dst proto p s))"
proof -
  assume wf: "net_wf s"
  have "net_wf (s\<lparr>nt_ip_id := k\<rparr>)" for k using wf by (simp add: net_wf_def)
  with wf show ?thesis
    by (simp add: ip4_send_def Let_def case_prod_unfold arp_send_request_def split: option.split)
qed

lemma udp_send_wf [simp]: "net_wf s \<Longrightarrow> net_wf (snd (udp_send can iface dst sp dp p s))"
  by (simp add: udp_send_def Let_def case_prod_unfold)

lemma sock_push_ok: "sock_ok k \<Longrightarrow> sock_ok (sock_push b k)"
  using unat_next [of "sk_rx_tail k"] by (simp add: sock_ok_def sock_push_def Let_def)

lemma sock_push_fold_ok: "sock_ok k \<Longrightarrow> sock_ok (fold sock_push bs k)"
  by (induction bs arbitrary: k) (simp_all add: sock_push_ok)

lemma net_wf_sockets:
  "net_wf s \<Longrightarrow> length ks = length (nt_sockets s) \<Longrightarrow> (\<And>k. k \<in> set ks \<Longrightarrow> sock_ok k) \<Longrightarrow> net_wf (s\<lparr>nt_sockets := ks\<rparr>)"
  by (simp add: net_wf_def)

lemma net_wf_sock_update:
  "net_wf s \<Longrightarrow> (i < length (nt_sockets s) \<Longrightarrow> sock_ok (nt_sockets s ! i) \<Longrightarrow> sock_ok k) \<Longrightarrow> net_wf (s\<lparr>nt_sockets := (nt_sockets s)[i := k]\<rparr>)"
  by (cases "i < length (nt_sockets s)") (auto simp: net_wf_def not_less list_update_beyond set_list_update_iff dest: set_update_subset_insert [THEN subsetD])

lemma arp_add_wf: "arp_inv c \<Longrightarrow> arp_inv (arp_add ip mac c) \<and> length (arp_add ip mac c) = length c"
proof -
  assume inv: "arp_inv c"
  have "arp_inv (arp_add ip mac c)"
  proof (cases "arp_store c ip mac")
    case None
    then show ?thesis using inv by (auto simp: arp_store_def arp_add_def split: if_splits)
  next
    case (Some c')
    then have "c' = arp_add ip mac c" by (simp add: arp_store_def split: if_splits)
    then show ?thesis using arp.inv_store [OF inv _ Some] by simp
  qed
  then show ?thesis by (simp add: arp_add_def split: option.split)
qed

lemma net_receive_wf: "net_wf s \<Longrightarrow> net_wf (net_receive can iface data len s)"
proof -
  have arp: "net_wf (arp_handle iface d n s)" if "net_wf s" for d n s
  proof -
    have "net_wf (s\<lparr>nt_arp := arp_add ip m (nt_arp s)\<rparr>)" for ip m using that arp_add_wf [of "nt_arp s" ip m] by (simp add: net_wf_def)
    then show ?thesis using that by (simp add: arp_handle_def Let_def)
  qed
  have icmp: "net_wf (icmp_handle can iface src d n s)" if "net_wf s" for src d n s
    using that by (simp add: icmp_handle_def Let_def)
  have udp: "net_wf (udp_deliver d n s)" if "net_wf s" for d n s
  proof -
    have "net_wf (s\<lparr>nt_sockets := map (\<lambda>k. if P k then fold sock_push bs k else k) (nt_sockets s)\<rparr>)" for P bs
      using that by (intro net_wf_sockets) (auto simp: net_wf_def sock_push_fold_ok)
    then show ?thesis using that by (simp add: udp_deliver_def Let_def)
  qed
  have ip: "net_wf (ipv4_handle can iface d n s)" if "net_wf s" for d n s
    using that icmp udp by (simp add: ipv4_handle_def Let_def)
  assume "net_wf s"
  then show ?thesis using arp ip by (simp add: net_receive_def Let_def)
qed

lemma sock_take_ok: "sock_ok k \<Longrightarrow> sock_ok (snd (sock_take n k))"
  using sock_take_spec [of k n "fst (sock_take n k)" "snd (sock_take n k)"] by simp

text \<open>C23: whatever frames arrive and whatever socket calls are made, the tables stay well formed: at most four
  interfaces, sixteen ARP slots with no address twice, and sixteen sockets whose ring indices stay inside
  their 2048-byte buffers.\<close>

theorem net_stays_wf:
  assumes "net_step\<^sup>*\<^sup>* s s'" "net_wf s"
  shows "net_wf s'"
  using assms
proof (induction rule: rtranclp_induct)
  case (step y z)
  then have wf: "net_wf y" by simp
  from step(2) show ?case
  proof cases
    case (register iface)
    then show ?thesis using wf by (auto simp: net_register_iface_def net_wf_def)
  next
    case (opened protocol)
    have "sock_ok (sock_zero\<lparr>sk_used := True, sk_protocol := protocol\<rparr>)" by (simp add: sock_ok_def sock_zero_def)
    then show ?thesis using wf opened by (auto simp: sock_open_def intro: net_wf_sock_update split: option.split)
  next
    case (closed fd)
    then show ?thesis using wf by (auto simp: sock_close_def sock_ok_def intro!: net_wf_sock_update)
  next
    case (bound fd port)
    then show ?thesis using wf by (auto simp: sock_bind_def sock_ok_def intro!: net_wf_sock_update)
  next
    case (received fd len)
    then show ?thesis using wf
      by (auto simp: sock_recvfrom_def case_prod_unfold Let_def intro!: net_wf_sock_update sock_take_ok)
  qed (use wf in \<open>auto simp: net_receive_wf icmp_ping_def sock_sendto_def Let_def split: list.split\<close>)
qed

section \<open>Examples\<close>

definition mac_a :: "u8 list" where "mac_a = [2, 0, 0, 0, 0, 1]"
definition mac_b :: "u8 list" where "mac_b = [2, 0, 0, 0, 0, 2]"

definition iface_a :: net_iface where
  "iface_a = \<lparr>if_mac = mac_a, if_ip = 0x0A000201, if_netmask = 0xFFFFFF00, if_gateway = 0x0A000202, if_up = True, if_send = Some (\<lambda>_. 0)\<rparr>"

definition iface_b :: net_iface where
  "iface_b = \<lparr>if_mac = mac_b, if_ip = 0x0A00020F, if_netmask = 0xFFFFFF00, if_gateway = 0x0A000202, if_up = True, if_send = Some (\<lambda>_. 0)\<rparr>"

definition net_demo :: "net_iface \<Rightarrow> net" where
  "net_demo iface = \<lparr>nt_ifaces = [iface], nt_arp = arp_add 0x0A00020F mac_b (replicate 16 arp_empty),
     nt_sockets = (replicate 16 sock_zero)[2 := sock_zero\<lparr>sk_used := True, sk_protocol := 17, sk_local_port := 7\<rparr>],
     nt_stats = stats_zero, nt_ip_id = 1, nt_tx = []\<rparr>"

lemma arp_inv_empty: "arp_inv (replicate n arp_empty)"
  by (auto simp: arp_inv_def arp_empty_def)

theorem arp_last_announcement_wins_witness:
  "arp_lookup 5 (arp_add 5 mac_b (arp_add 6 mac_a (arp_add 5 mac_a (replicate 16 arp_empty)))) = Some mac_b"
proof -
  have "puts arp_store (replicate 16 arp_empty) [(5, mac_a), (6, mac_a), (5, mac_b)] =
      Some (arp_add 5 mac_b (arp_add 6 mac_a (arp_add 5 mac_a (replicate 16 arp_empty))))"
    by code_simp
  from arp_last_announcement_wins [OF arp_inv_empty this, of 5] show ?thesis by simp
qed

lemma net_demo_arp: "arp_lookup (next_hop iface_a 0x0A00020F) (nt_arp (net_demo iface)) = Some mac_b"
proof -
  have "next_hop iface_a 0x0A00020F = 0x0A00020F" by code_simp
  moreover have "arp_lookup 0x0A00020F (arp_add 0x0A00020F mac_b (replicate 16 arp_empty)) = Some mac_b" by code_simp
  ultimately show ?thesis by (simp add: net_demo_def)
qed

lemma net_demo_sock: "sock_fd_ok 2 (net_demo iface)" "sock_wants 7 (nt_sockets (net_demo iface) ! 2)"
    "sock_ok (nt_sockets (net_demo iface) ! 2)" "rx_count (nt_sockets (net_demo iface) ! 2) = 0" "length (nt_sockets (net_demo iface)) = 16"
  by (simp_all add: net_demo_def sock_fd_ok_def SOCK_MAX_def sock_wants_def IP_PROTO_UDP_def sock_ok_def sock_zero_def rx_count_def ring_count_def)

theorem udp_end_to_end_witness:
  "\<exists>r'. sock_recvfrom 2 4096 (net_receive (\<lambda>_. True) iface_b
      (pkt_of (last (nt_tx (snd (sock_sendto (\<lambda>_. True) 2 0x0A00020F 7 [1, 2, 3] (net_demo iface_a))))))
      (of_nat (length (last (nt_tx (snd (sock_sendto (\<lambda>_. True) 2 0x0A00020F 7 [1, 2, 3] (net_demo iface_a))))))) (net_demo iface_b)) =
    (3, [1, 2, 3], r')"
proof -
  have nat2: "nat 2 = 2" by simp
  have rx: "rx_bytes_of (nt_sockets (net_demo iface_b) ! 2) = []"
    using net_demo_sock(4) [of iface_b] by (simp add: rx_bytes_of_def)
  have "nt_ifaces (net_demo iface_a) = iface_a # []" "if_send iface_a = Some (\<lambda>_. 0)" "length mac_b = 6" "length (if_mac iface_a) = 6"
    "if_ip iface_b = 0x0A00020F"
    by (simp_all add: net_demo_def iface_a_def iface_b_def mac_a_def mac_b_def)
  from udp_end_to_end [where fd = 2 and fd' = 2 and s = "net_demo iface_a" and r = "net_demo iface_b" and data = "[1, 2, 3]" and port = 7
      and can = "\<lambda>_. True" and can' = "\<lambda>_. True", OF net_demo_sock(1) this(1,2) _ net_demo_arp this(3-5) net_demo_sock(1) _ _ _ _ refl]
  show ?thesis using net_demo_sock [of iface_b] rx by (simp add: nat2)
qed

theorem icmp_echo_answered_witness:
  "\<exists>hdr reply. nt_tx (icmp_handle (\<lambda>_. True) iface_a 0x0A00020F (pkt_of [8, 0, 0, 0, 1, 2, 3, 4, 5]) 9 (net_demo iface_a)) =
     [eth_hdr mac_b mac_a ETH_TYPE_IPV4 @ hdr @ reply] \<and> ip_checksum hdr = 0 \<and> ip_checksum reply = 0 \<and> reply ! 8 = 5"
proof -
  have "pkt_of [8, 0, 0, 0, 1, 2, 3, 4, 5] 0 = ICMP_ECHO_REQUEST" "pkt_of [8, 0, 0, 0, 1, 2, 3, 4, 5] 8 = 5"
    by (simp_all add: pkt_of_def ICMP_ECHO_REQUEST_def)
  moreover have send: "if_send iface_a = Some (\<lambda>_. 0)" and mac: "length mac_b = 6" "if_mac iface_a = mac_a" "length mac_a = 6"
    and "nt_tx (net_demo iface_a) = []"
    by (simp_all add: net_demo_def iface_a_def mac_a_def mac_b_def)
  ultimately obtain hdr reply where "nt_tx (icmp_handle (\<lambda>_. True) iface_a 0x0A00020F (pkt_of [8, 0, 0, 0, 1, 2, 3, 4, 5]) 9 (net_demo iface_a)) =
      [eth_hdr mac_b mac_a ETH_TYPE_IPV4 @ hdr @ reply]" "ip_checksum hdr = 0" "ip_checksum reply = 0"
      "\<forall>i. 4 \<le> i \<longrightarrow> i < 9 \<longrightarrow> reply ! i = pkt_of [8, 0, 0, 0, 1, 2, 3, 4, 5] i"
    using icmp_echo_answered [where can = "\<lambda>_. True" and data = "pkt_of [8, 0, 0, 0, 1, 2, 3, 4, 5]" and len = 9
        and s = "net_demo iface_a", OF send _ net_demo_arp mac(1)]
    by auto
  moreover from this(4) have "reply ! 8 = 5" using \<open>pkt_of [8, 0, 0, 0, 1, 2, 3, 4, 5] 8 = 5\<close> by simp
  ultimately show ?thesis by blast
qed


theorem net_stays_wf_witness:
  "net_wf (snd (snd (sock_recvfrom 0 4 (snd (sock_open IP_PROTO_UDP (net_init (net_demo iface_a)))))))"
proof -
  let ?s = "net_init (net_demo iface_a)"
  have "net_wf ?s" by (auto simp: net_wf_def net_init_def arp_inv_empty sock_ok_def sock_zero_def)
  moreover have "net_step\<^sup>*\<^sup>* ?s (snd (snd (sock_recvfrom 0 4 (snd (sock_open IP_PROTO_UDP ?s)))))"
    using net_step.opened [of ?s] net_step.received [of "snd (sock_open IP_PROTO_UDP ?s)" 0 4]
    by (meson rtranclp.rtrancl_into_rtrancl rtranclp.rtrancl_refl)
  ultimately show ?thesis using net_stays_wf by blast
qed

end
