(* ===== verification/Tcp.thy ===== *)
theory Tcp
  imports Net
begin

text \<open>
  TCP (\<open>net/tcp.c\<close>, \<open>include/tcp.h\<close>) on top of the network stack. A received segment is the memory from
  its header on. \<open>now\<close> is \<open>sched_uptime_ms\<close>, \<open>rnd\<close> a value of \<open>rand_u32\<close>. The waits of
  \<open>tcp_connect\<close>, \<open>tcp_send\<close> and \<open>tcp_recv\<close> are results: each definition is what the function does
  up to its next sleep.
\<close>

section \<open>Types (include/tcp.h)\<close>

definition TCP_FIN :: u8 where "TCP_FIN = 0x01"
definition TCP_SYN :: u8 where "TCP_SYN = 0x02"
definition TCP_PSH :: u8 where "TCP_PSH = 0x08"
definition TCP_ACK :: u8 where "TCP_ACK = 0x10"
definition TCP_RXBUF_SIZE :: u32 where "TCP_RXBUF_SIZE = 4096"
definition TCP_MAX_CONNS :: nat where "TCP_MAX_CONNS = 16"
definition TCP_DEFAULT_WIN :: u32 where "TCP_DEFAULT_WIN = 8192"
definition TCP_MSS :: nat where "TCP_MSS = 1460"

datatype tcp_state = TCP_CLOSED | TCP_LISTEN | TCP_SYN_SENT | TCP_SYN_RECEIVED | TCP_ESTABLISHED | TCP_FIN_WAIT_1 |
  TCP_FIN_WAIT_2 | TCP_CLOSE_WAIT | TCP_CLOSING | TCP_LAST_ACK | TCP_TIME_WAIT

record tcp_conn =
  tc_used :: bool
  tc_state :: tcp_state
  tc_local_ip :: u32
  tc_local_port :: u16
  tc_remote_ip :: u32
  tc_remote_port :: u16
  tc_snd_una :: u32
  tc_snd_nxt :: u32
  tc_snd_wnd :: u32
  tc_rcv_nxt :: u32
  tc_rcv_wnd :: u32
  tc_iss :: u32
  tc_rxbuf :: "u8 list"
  tc_rx_head :: u32
  tc_rx_tail :: u32
  tc_retx_timeout_ms :: u32
  tc_retx_last_ms :: u32
  tc_iface :: "net_iface option"

record tcp =
  tp_conns :: "tcp_conn list"
  tp_net :: net

definition conn_zero :: tcp_conn where
  "conn_zero = \<lparr>tc_used = False, tc_state = TCP_CLOSED, tc_local_ip = 0, tc_local_port = 0, tc_remote_ip = 0,
     tc_remote_port = 0, tc_snd_una = 0, tc_snd_nxt = 0, tc_snd_wnd = 0, tc_rcv_nxt = 0, tc_rcv_wnd = 0, tc_iss = 0,
     tc_rxbuf = replicate 4096 0, tc_rx_head = 0, tc_rx_tail = 0, tc_retx_timeout_ms = 0, tc_retx_last_ms = 0, tc_iface = None\<rparr>"

section \<open>Ring arithmetic and the checksum\<close>

definition rb_free :: "u32 \<Rightarrow> u32 \<Rightarrow> u32 \<Rightarrow> u32" where
  "rb_free head tail sz = (sz - 1) - ((head - tail + sz) mod sz)"

definition rb_used :: "u32 \<Rightarrow> u32 \<Rightarrow> u32 \<Rightarrow> u32" where
  "rb_used head tail sz = (head - tail + sz) mod sz"

definition tcp_checksum :: "u32 \<Rightarrow> u32 \<Rightarrow> u8 list \<Rightarrow> u16" where
  "tcp_checksum src dst segment =
     (let sum = (drop_bit 16 src AND 0xFFFF) + (src AND 0xFFFF) + (drop_bit 16 dst AND 0xFFFF) + (dst AND 0xFFFF) +
            ucast IP_PROTO_TCP + ucast (of_nat (length segment) :: u16);
          sum = sum16 segment sum;
          sum = drop_bit 16 sum + (sum AND 0xFFFF);
          sum = sum + drop_bit 16 sum
      in ucast (NOT sum))"

section \<open>Sending\<close>

definition tcp_hdr :: "tcp_conn \<Rightarrow> u8 \<Rightarrow> u16 \<Rightarrow> u8 list" where
  "tcp_hdr c flags checksum =
     be16_bytes (tc_local_port c) @ be16_bytes (tc_remote_port c) @ be32_bytes (tc_snd_nxt c) @
     be32_bytes (if flags AND TCP_ACK \<noteq> 0 then tc_rcv_nxt c else 0) @ [0x50, flags] @
     be16_bytes (ucast (tc_rcv_wnd c)) @ bytes16 checksum @ [0, 0]"

definition tcp_send_segment :: "(u32 \<Rightarrow> bool) \<Rightarrow> u32 \<Rightarrow> u8 \<Rightarrow> u8 list \<Rightarrow> tcp_conn \<times> net \<Rightarrow> tcp_conn \<times> net" where
  "tcp_send_segment can now flags data = (\<lambda>(c, s).
     let ck = tcp_checksum (tc_local_ip c) (tc_remote_ip c) (tcp_hdr c flags 0 @ data);
         s = (case tc_iface c of None \<Rightarrow> s
              | Some iface \<Rightarrow> snd (ip4_send can iface (tc_remote_ip c) IP_PROTO_TCP (tcp_hdr c flags ck @ data) s))
     in (c\<lparr>tc_snd_nxt := tc_snd_nxt c + of_nat (length data) + (if flags AND TCP_SYN \<noteq> 0 then 1 else 0) +
              (if flags AND TCP_FIN \<noteq> 0 then 1 else 0), tc_retx_last_ms := now\<rparr>, s))"

section \<open>Connections\<close>

definition tcp_init :: "tcp \<Rightarrow> tcp" where
  "tcp_init s = s\<lparr>tp_conns := replicate TCP_MAX_CONNS conn_zero\<rparr>"

definition tcp_socket :: "tcp \<Rightarrow> int \<times> tcp" where
  "tcp_socket s =
     (case find_idx (\<lambda>c. \<not> tc_used c) (tp_conns s) of
        None \<Rightarrow> (- 1, s)
      | Some i \<Rightarrow> (int i, s\<lparr>tp_conns := (tp_conns s)[i := conn_zero\<lparr>tc_used := True, tc_rcv_wnd := TCP_DEFAULT_WIN, tc_retx_timeout_ms := 1000\<rparr>]\<rparr>))"

definition conn_ok :: "int \<Rightarrow> tcp \<Rightarrow> bool" where
  "conn_ok k s \<longleftrightarrow> 0 \<le> k \<and> k < int TCP_MAX_CONNS \<and> tc_used (tp_conns s ! nat k)"

text \<open>A function on one connection and the network.\<close>

definition on_conn :: "nat \<Rightarrow> (tcp_conn \<times> net \<Rightarrow> tcp_conn \<times> net) \<Rightarrow> tcp \<Rightarrow> tcp" where
  "on_conn i f s = (let (c, n) = f (tp_conns s ! i, tp_net s) in s\<lparr>tp_conns := (tp_conns s)[i := c], tp_net := n\<rparr>)"

definition tcp_connect_begin :: "(u32 \<Rightarrow> bool) \<Rightarrow> u32 \<Rightarrow> u32 \<Rightarrow> u32 \<Rightarrow> int \<Rightarrow> u32 \<Rightarrow> u16 \<Rightarrow> tcp \<Rightarrow> bool \<times> tcp" where
  "tcp_connect_begin can now rnd1 rnd2 k remote_ip remote_port s =
     (if \<not> conn_ok k s then (False, s)
      else
        let s1 = on_conn (nat k) (\<lambda>(c, n). (c\<lparr>tc_iface := net_get_primary n\<rparr>, n)) s in
        case net_get_primary (tp_net s) of
          None \<Rightarrow> (False, s1)
        | Some iface \<Rightarrow>
            (True, on_conn (nat k) (\<lambda>(c, n). tcp_send_segment can now TCP_SYN []
               (c\<lparr>tc_local_ip := if_ip iface, tc_local_port := ucast (49152 + rnd1 mod 16383), tc_remote_ip := remote_ip,
                   tc_remote_port := remote_port, tc_iss := rnd2, tc_snd_una := rnd2, tc_snd_nxt := rnd2,
                   tc_state := TCP_SYN_SENT\<rparr>, n)) s1))"

text \<open>One look at the connection: \<open>None\<close> sleeps on.\<close>

definition tcp_connect_poll :: "u32 \<Rightarrow> u32 \<Rightarrow> nat \<Rightarrow> tcp \<Rightarrow> int option \<times> tcp" where
  "tcp_connect_poll now deadline i s =
     (if now < deadline then
        (if tc_state (tp_conns s ! i) = TCP_ESTABLISHED then (Some 0, s)
         else if tc_state (tp_conns s ! i) = TCP_CLOSED then (Some (- 1), s)
         else (None, s))
      else (Some (- 1), s\<lparr>tp_conns := (tp_conns s)[i := (tp_conns s ! i)\<lparr>tc_state := TCP_CLOSED\<rparr>]\<rparr>))"

definition tcp_chunk :: "nat \<Rightarrow> u32 \<Rightarrow> nat" where
  "tcp_chunk len wnd = min (min len TCP_MSS) (unat wnd)"

text \<open>Sends chunks until all is sent (the rest is empty) or the peer's window is closed.\<close>

function tcp_send_loop :: "(u32 \<Rightarrow> bool) \<Rightarrow> u32 \<Rightarrow> u8 list \<Rightarrow> tcp_conn \<times> net \<Rightarrow> u8 list \<times> tcp_conn \<times> net" where
  "tcp_send_loop can now data cn =
     (let chunk = tcp_chunk (length data) (tc_snd_wnd (fst cn)) in
      if chunk = 0 then (data, cn)
      else tcp_send_loop can now (drop chunk data) (tcp_send_segment can now (TCP_ACK OR TCP_PSH) (take chunk data) cn))"
  by pat_completeness auto
termination
  by (relation "measure (\<lambda>(can, now, data, cn). length data)") (auto simp: tcp_chunk_def)

declare tcp_send_loop.simps [simp del]

definition tcp_send :: "(u32 \<Rightarrow> bool) \<Rightarrow> u32 \<Rightarrow> int \<Rightarrow> u8 list \<Rightarrow> tcp \<Rightarrow> (int + u8 list) \<times> tcp" where
  "tcp_send can now k data s =
     (if \<not> conn_ok k s \<or> tc_state (tp_conns s ! nat k) \<noteq> TCP_ESTABLISHED then (Inl (- 1), s)
      else
        let (rest, c, n) = tcp_send_loop can now data (tp_conns s ! nat k, tp_net s);
            s = s\<lparr>tp_conns := (tp_conns s)[nat k := c], tp_net := n\<rparr>
        in (if rest = [] then Inl (int (length data)) else Inr rest, s))"

fun tcp_copy_out :: "nat \<Rightarrow> tcp_conn \<Rightarrow> u8 list \<times> tcp_conn" where
  "tcp_copy_out 0 c = ([], c)"
| "tcp_copy_out (Suc n) c =
     (let b = tc_rxbuf c ! unat (tc_rx_head c mod TCP_RXBUF_SIZE);
          (out, c') = tcp_copy_out n (c\<lparr>tc_rx_head := tc_rx_head c + 1, tc_rx_tail := tc_rx_tail c + 1\<rparr>)
      in (b # out, c'))"

text \<open>\<open>None\<close> sleeps on.\<close>

definition tcp_recv_poll :: "u32 \<Rightarrow> u32 \<Rightarrow> int \<Rightarrow> nat \<Rightarrow> tcp \<Rightarrow> (int \<times> u8 list) option \<times> tcp" where
  "tcp_recv_poll now deadline k len s =
     (if \<not> conn_ok k s then (Some (- 1, []), s)
      else
        let c = tp_conns s ! nat k; used = rb_used (tc_rx_head c) (tc_rx_tail c) TCP_RXBUF_SIZE in
        if used = 0 then
          (if tc_state c = TCP_CLOSE_WAIT \<or> tc_state c = TCP_CLOSED then (Some (0, []), s)
           else if now \<ge> deadline then (Some (- 1, []), s)
           else (None, s))
        else
          let (out, c) = tcp_copy_out (min (unat used) len) c;
              c = c\<lparr>tc_rcv_wnd := rb_free (tc_rx_head c) (tc_rx_tail c) TCP_RXBUF_SIZE\<rparr>
          in (Some (int (length out), out), s\<lparr>tp_conns := (tp_conns s)[nat k := c]\<rparr>))"

definition tcp_close :: "(u32 \<Rightarrow> bool) \<Rightarrow> u32 \<Rightarrow> int \<Rightarrow> tcp \<Rightarrow> tcp" where
  "tcp_close can now k s =
     (if \<not> conn_ok k s then s
      else on_conn (nat k) (\<lambda>(c, n).
        let (c, n) = (if tc_state c = TCP_ESTABLISHED \<or> tc_state c = TCP_CLOSE_WAIT
              then tcp_send_segment can now (TCP_FIN OR TCP_ACK) [] (c\<lparr>tc_state := TCP_FIN_WAIT_1\<rparr>, n) else (c, n))
        in (c\<lparr>tc_used := False, tc_state := TCP_CLOSED\<rparr>, n)) s)"

section \<open>Receiving\<close>

record tcp_segment =
  sg_src_ip :: u32
  sg_src_port :: u16
  sg_dst_port :: u16
  sg_flags :: u8
  sg_seq :: u32
  sg_ack :: u32
  sg_win :: u16
  sg_data_len :: u32
  sg_data :: "nat \<Rightarrow> u8"

definition parse_segment :: "u32 \<Rightarrow> (nat \<Rightarrow> u8) \<Rightarrow> u32 \<Rightarrow> tcp_segment" where
  "parse_segment src_ip h len =
     (let hdr_len = drop_bit 4 (h 12) * 4 in
      \<lparr>sg_src_ip = src_ip, sg_src_port = be16_at h 0, sg_dst_port = be16_at h 2, sg_flags = h 13, sg_seq = be32_at h 4,
       sg_ack = be32_at h 8, sg_win = be16_at h 14, sg_data_len = len - ucast hdr_len, sg_data = (\<lambda>i. h (unat hdr_len + i))\<rparr>)"

definition rx_store :: "tcp_conn \<Rightarrow> u8 \<Rightarrow> tcp_conn" where
  "rx_store c b = c\<lparr>tc_rxbuf := (tc_rxbuf c)[unat (tc_rx_head c mod TCP_RXBUF_SIZE) := b], tc_rx_head := tc_rx_head c + 1\<rparr>"

text \<open>Data in order fills the receive ring as far as it goes and is acknowledged.\<close>

definition tcp_accept_data :: "(u32 \<Rightarrow> bool) \<Rightarrow> u32 \<Rightarrow> tcp_segment \<Rightarrow> tcp_conn \<times> net \<Rightarrow> tcp_conn \<times> net" where
  "tcp_accept_data can now g = (\<lambda>(c, n).
     if sg_data_len g \<noteq> 0 \<and> sg_seq g = tc_rcv_nxt c then
       let fr = rb_free (tc_rx_head c) (tc_rx_tail c) TCP_RXBUF_SIZE;
           copy = (if sg_data_len g < fr then sg_data_len g else fr);
           c = foldl rx_store c (map (sg_data g) [0..<unat copy]);
           c = c\<lparr>tc_rcv_nxt := tc_rcv_nxt c + copy, tc_rcv_wnd := rb_free (tc_rx_head c) (tc_rx_tail c) TCP_RXBUF_SIZE\<rparr>
       in tcp_send_segment can now TCP_ACK [] (c, n)
     else (c, n))"

definition tcp_input :: "(u32 \<Rightarrow> bool) \<Rightarrow> u32 \<Rightarrow> tcp_segment \<Rightarrow> tcp_conn \<times> net \<Rightarrow> tcp_conn \<times> net" where
  "tcp_input can now g = (\<lambda>(c, n).
     let c = c\<lparr>tc_snd_wnd := ucast (sg_win g)\<rparr> in
     case tc_state c of
       TCP_SYN_SENT \<Rightarrow>
         if sg_flags g AND (TCP_SYN OR TCP_ACK) = TCP_SYN OR TCP_ACK
         then tcp_send_segment can now TCP_ACK []
                (c\<lparr>tc_rcv_nxt := sg_seq g + 1, tc_snd_una := sg_ack g, tc_state := TCP_ESTABLISHED\<rparr>, n)
         else (c, n)
     | TCP_ESTABLISHED \<Rightarrow>
         let c = (if sg_flags g AND TCP_ACK \<noteq> 0 then c\<lparr>tc_snd_una := sg_ack g\<rparr> else c);
             (c, n) = tcp_accept_data can now g (c, n) in
         if sg_flags g AND TCP_FIN \<noteq> 0 then
           let (c, n) = tcp_send_segment can now TCP_ACK [] (c\<lparr>tc_rcv_nxt := tc_rcv_nxt c + 1, tc_state := TCP_CLOSE_WAIT\<rparr>, n)
           in tcp_send_segment can now (TCP_FIN OR TCP_ACK) [] (c\<lparr>tc_state := TCP_LAST_ACK\<rparr>, n)
         else (c, n)
     | TCP_LAST_ACK \<Rightarrow> if sg_flags g AND TCP_ACK \<noteq> 0 then (c\<lparr>tc_state := TCP_CLOSED, tc_used := False\<rparr>, n) else (c, n)
     | TCP_FIN_WAIT_1 \<Rightarrow> if sg_flags g AND TCP_ACK \<noteq> 0 then (c\<lparr>tc_state := TCP_FIN_WAIT_2\<rparr>, n) else (c, n)
     | TCP_FIN_WAIT_2 \<Rightarrow>
         if sg_flags g AND TCP_FIN \<noteq> 0 then
           let (c, n) = tcp_send_segment can now TCP_ACK [] (c\<lparr>tc_rcv_nxt := tc_rcv_nxt c + 1\<rparr>, n)
           in (c\<lparr>tc_state := TCP_CLOSED, tc_used := False\<rparr>, n)
         else (c, n)
     | _ \<Rightarrow> (c, n))"

definition tcp_match :: "tcp_segment \<Rightarrow> tcp_conn \<Rightarrow> bool" where
  "tcp_match g c \<longleftrightarrow> tc_used c \<and> tc_remote_ip c = sg_src_ip g \<and> tc_remote_port c = sg_src_port g \<and> tc_local_port c = sg_dst_port g"

definition tcp_receive :: "(u32 \<Rightarrow> bool) \<Rightarrow> u32 \<Rightarrow> u32 \<Rightarrow> (nat \<Rightarrow> u8) \<Rightarrow> u32 \<Rightarrow> tcp \<Rightarrow> tcp" where
  "tcp_receive can now src_ip h len s =
     (let g = parse_segment src_ip h len in
      case find_idx (tcp_match g) (tp_conns s) of
        None \<Rightarrow> s
      | Some i \<Rightarrow> on_conn i (tcp_input can now g) s)"

definition tcp_state_of :: "int \<Rightarrow> tcp \<Rightarrow> tcp_state" where
  "tcp_state_of k s = (if k < 0 \<or> k \<ge> int TCP_MAX_CONNS then TCP_CLOSED else tc_state (tp_conns s ! nat k))"


section \<open>The order of the states\<close>

text \<open>The numbers of the enumeration.\<close>

fun tcp_rank :: "tcp_state \<Rightarrow> nat" where
  "tcp_rank TCP_CLOSED = 0" | "tcp_rank TCP_LISTEN = 1" | "tcp_rank TCP_SYN_SENT = 2" | "tcp_rank TCP_SYN_RECEIVED = 3"
| "tcp_rank TCP_ESTABLISHED = 4" | "tcp_rank TCP_FIN_WAIT_1 = 5" | "tcp_rank TCP_FIN_WAIT_2 = 6" | "tcp_rank TCP_CLOSE_WAIT = 7"
| "tcp_rank TCP_CLOSING = 8" | "tcp_rank TCP_LAST_ACK = 9" | "tcp_rank TCP_TIME_WAIT = 10"

lemma tcp_rank_inj: "tcp_rank a = tcp_rank b \<Longrightarrow> a = b"
  by (cases a; cases b) simp_all

instantiation tcp_state :: linorder
begin

definition less_eq_tcp_state :: "tcp_state \<Rightarrow> tcp_state \<Rightarrow> bool" where
  "less_eq_tcp_state a b \<longleftrightarrow> tcp_rank a \<le> tcp_rank b"

definition less_tcp_state :: "tcp_state \<Rightarrow> tcp_state \<Rightarrow> bool" where
  "less_tcp_state a b \<longleftrightarrow> tcp_rank a < tcp_rank b"

instance
  by standard (auto simp: less_eq_tcp_state_def less_tcp_state_def intro: tcp_rank_inj)

end

text \<open>The state diagram of RFC 793: its arrows with the events they are labelled with. \<open>Ev_ack\<close> is the acknowledgement
  of the last SYN or FIN that was sent, \<open>Ev_timeout\<close> the end of the wait of two segment life times.\<close>

datatype rfc_event = Ev_listen | Ev_open | Ev_send | Ev_close | Ev_syn | Ev_synack | Ev_ack | Ev_fin | Ev_timeout

inductive rfc793 :: "rfc_event \<Rightarrow> tcp_state \<Rightarrow> tcp_state \<Rightarrow> bool" where
  passive_open: "rfc793 Ev_listen TCP_CLOSED TCP_LISTEN"
| active_open: "rfc793 Ev_open TCP_CLOSED TCP_SYN_SENT"
| listen_send: "rfc793 Ev_send TCP_LISTEN TCP_SYN_SENT"
| listen_syn: "rfc793 Ev_syn TCP_LISTEN TCP_SYN_RECEIVED"
| listen_close: "rfc793 Ev_close TCP_LISTEN TCP_CLOSED"
| syn_sent_syn: "rfc793 Ev_syn TCP_SYN_SENT TCP_SYN_RECEIVED"
| syn_sent_synack: "rfc793 Ev_synack TCP_SYN_SENT TCP_ESTABLISHED"
| syn_sent_close: "rfc793 Ev_close TCP_SYN_SENT TCP_CLOSED"
| syn_received_ack: "rfc793 Ev_ack TCP_SYN_RECEIVED TCP_ESTABLISHED"
| syn_received_close: "rfc793 Ev_close TCP_SYN_RECEIVED TCP_FIN_WAIT_1"
| established_close: "rfc793 Ev_close TCP_ESTABLISHED TCP_FIN_WAIT_1"
| established_fin: "rfc793 Ev_fin TCP_ESTABLISHED TCP_CLOSE_WAIT"
| fin_wait_1_ack: "rfc793 Ev_ack TCP_FIN_WAIT_1 TCP_FIN_WAIT_2"
| fin_wait_1_fin: "rfc793 Ev_fin TCP_FIN_WAIT_1 TCP_CLOSING"
| fin_wait_2_fin: "rfc793 Ev_fin TCP_FIN_WAIT_2 TCP_TIME_WAIT"
| close_wait_close: "rfc793 Ev_close TCP_CLOSE_WAIT TCP_LAST_ACK"
| closing_ack: "rfc793 Ev_ack TCP_CLOSING TCP_TIME_WAIT"
| last_ack_ack: "rfc793 Ev_ack TCP_LAST_ACK TCP_CLOSED"
| time_wait_timeout: "rfc793 Ev_timeout TCP_TIME_WAIT TCP_CLOSED"

inductive_simps rfc793_simps: "rfc793 e s t"

text \<open>An event leads from a state to one state at most.\<close>

lemma rfc793_deterministic: "rfc793 e s t \<Longrightarrow> rfc793 e s t' \<Longrightarrow> t = t'"
  by (induction rule: rfc793.induct) (auto simp: rfc793_simps)

fun rfc_path :: "rfc_event list \<Rightarrow> tcp_state \<Rightarrow> tcp_state \<Rightarrow> bool" where
  "rfc_path [] s t = (s = t)"
| "rfc_path (e # es) s t = (\<exists>u. rfc793 e s u \<and> rfc_path es u t)"

lemma rfc_path_deterministic: "rfc_path es s t \<Longrightarrow> rfc_path es s t' \<Longrightarrow> t = t'"
  by (induction es arbitrary: s) (auto dest: rfc793_deterministic)

text \<open>What a segment with the control bits \<open>fl\<close> (FIN, SYN and ACK are bits 0, 1 and 4) is for a connection in a
  state. The code closes its own side as soon as the other side has closed, and does not wait in \<open>TIME_WAIT\<close>.\<close>

definition seg_events :: "tcp_state \<Rightarrow> u8 \<Rightarrow> rfc_event list" where
  "seg_events s fl =
     (if s = TCP_SYN_SENT \<and> bit fl 1 \<and> bit fl 4 then [Ev_synack]
      else if s = TCP_ESTABLISHED \<and> bit fl 0 then [Ev_fin, Ev_close]
      else if s = TCP_FIN_WAIT_1 \<and> bit fl 4 then [Ev_ack]
      else if s = TCP_FIN_WAIT_2 \<and> bit fl 0 then [Ev_fin, Ev_timeout]
      else if s = TCP_LAST_ACK \<and> bit fl 4 then [Ev_ack]
      else [])"

text \<open>Along an arrow that is not a return to \<open>CLOSED\<close> the enumeration goes up.\<close>

lemma rfc793_forward: "rfc793 e a b \<Longrightarrow> b = TCP_CLOSED \<or> a < b"
  by (induction rule: rfc793.induct) (simp_all add: less_tcp_state_def)

lemma send_segment_state [simp]:
  "tc_state (fst (tcp_send_segment can now fl d (c, n))) = tc_state c" "tc_used (fst (tcp_send_segment can now fl d (c, n))) = tc_used c"
  by (simp_all add: tcp_send_segment_def Let_def)

lemma rx_store_state [simp]: "tc_state (foldl rx_store c bs) = tc_state c"
  by (induction bs arbitrary: c) (simp_all add: rx_store_def)

lemma accept_data_state [simp]: "tc_state (fst (tcp_accept_data can now g (c, n))) = tc_state c"
  by (simp add: tcp_accept_data_def Let_def)

lemma and_two_bits: "a < 8 \<Longrightarrow> b < 8 \<Longrightarrow> fl AND (2 ^ a OR 2 ^ b) = 2 ^ a OR 2 ^ b \<longleftrightarrow> bit fl a \<and> bit fl b" for fl :: u8
  by (subst bit_eq_iff) (auto simp: bit_and_iff bit_or_iff bit_exp_iff)

lemma tcp_flag_bits:
  "fl AND TCP_FIN = 0 \<longleftrightarrow> \<not> bit fl 0" "fl AND TCP_ACK = 0 \<longleftrightarrow> \<not> bit fl 4"
  "fl AND (TCP_SYN OR TCP_ACK) = TCP_SYN OR TCP_ACK \<longleftrightarrow> bit fl 1 \<and> bit fl 4"
proof -
  have f: "TCP_FIN = 2 ^ 0" "TCP_ACK = 2 ^ 4" "TCP_SYN = 2 ^ 1" by (simp_all add: TCP_FIN_def TCP_ACK_def TCP_SYN_def)
  show "fl AND TCP_FIN = 0 \<longleftrightarrow> \<not> bit fl 0" "fl AND TCP_ACK = 0 \<longleftrightarrow> \<not> bit fl 4"
    unfolding f by (rule and_exp_eq_0_iff_not_bit)+
  show "fl AND (TCP_SYN OR TCP_ACK) = TCP_SYN OR TCP_ACK \<longleftrightarrow> bit fl 1 \<and> bit fl 4"
    unfolding f by (rule and_two_bits) simp_all
qed

lemma rx_store_used [simp]: "tc_used (foldl rx_store c bs) = tc_used c"
  by (induction bs arbitrary: c) (simp_all add: rx_store_def)

lemma accept_data_used [simp]: "tc_used (fst (tcp_accept_data can now g (c, n))) = tc_used c"
  by (simp add: tcp_accept_data_def Let_def)

lemmas rfc_path_simps = seg_events_def rfc793_simps tcp_flag_bits

lemma tcp_input_rfc:
  "rfc_path (seg_events (tc_state c) (sg_flags g)) (tc_state c) (tc_state (fst (tcp_input can now g (c, n))))"
  "tc_used (fst (tcp_input can now g (c, n))) =
     (tc_used c \<and> (seg_events (tc_state c) (sg_flags g) = [] \<or> tc_state (fst (tcp_input can now g (c, n))) \<noteq> TCP_CLOSED))"
  by (cases "tc_state c"; simp add: tcp_input_def Let_def case_prod_unfold rfc_path_simps)+


section \<open>Received data\<close>

definition conn_ring_ok :: "tcp_conn \<Rightarrow> bool" where
  "conn_ring_ok c \<longleftrightarrow> length (tc_rxbuf c) = 4096"

lemma unat_head_mod: "unat (x mod TCP_RXBUF_SIZE) = unat x mod 4096"
  by (simp add: TCP_RXBUF_SIZE_def unat_mod)

lemma head_plus_mod: "(unat (x + 1 :: u32)) mod 4096 = Suc (unat x) mod 4096"
proof -
  have "(4096 :: nat) dvd 2 ^ 32" by simp
  then show ?thesis by (simp add: unat_word_ariths mod_mod_cancel)
qed

lemma rx_store_spec:
  "length (tc_rxbuf c) = 4096 \<Longrightarrow> foldl rx_store c bs = c\<lparr>tc_rxbuf := ring_write (tc_rxbuf c) (unat (tc_rx_head c)) bs,
     tc_rx_head := tc_rx_head c + of_nat (length bs)\<rparr>"
proof (induction bs arbitrary: c)
  case (Cons b bs)
  let ?b = "(tc_rxbuf c)[unat (tc_rx_head c) mod 4096 := b]"
  have "ring_write ?b (unat (tc_rx_head c + 1)) bs = ring_write ?b (Suc (unat (tc_rx_head c))) bs"
    using head_plus_mod [of "tc_rx_head c"] Cons.prems by (intro ring_write_mod) simp
  with Cons show ?case by (simp add: rx_store_def unat_head_mod add.assoc)
qed simp

lemma tcp_copy_out_spec:
  "length (tc_rxbuf c) = 4096 \<Longrightarrow> tcp_copy_out n c =
     (ring_seg (tc_rxbuf c) (unat (tc_rx_head c)) n, c\<lparr>tc_rx_head := tc_rx_head c + of_nat n, tc_rx_tail := tc_rx_tail c + of_nat n\<rparr>)"
proof (induction n arbitrary: c)
  case (Suc n)
  have "ring_seg (tc_rxbuf c) (unat (tc_rx_head c + 1)) n = ring_seg (tc_rxbuf c) (Suc (unat (tc_rx_head c))) n"
    using head_plus_mod [of "tc_rx_head c"] Suc.prems by (intro ring_seg_start_mod) simp
  with Suc show ?case by (simp add: ring_seg_Suc unat_head_mod Let_def add.assoc)
qed simp


lemma fst_tcp_input_established:
  assumes "tc_state c = TCP_ESTABLISHED" "sg_flags g AND TCP_FIN = 0" "sg_seq g = tc_rcv_nxt c" "tc_rx_head c = 0" "tc_rx_tail c = 0"
    "length (tc_rxbuf c) = 4096" "0 < unat (sg_data_len g)" "unat (sg_data_len g) \<le> 4095"
  shows "\<exists>c' n'. tcp_input can now g (c, n) = (c', n') \<and> tc_rx_head c' = sg_data_len g \<and> tc_rx_tail c' = 0 \<and>
    tc_rxbuf c' = ring_write (tc_rxbuf c) 0 (map (sg_data g) [0..<unat (sg_data_len g)]) \<and>
    tc_rcv_nxt c' = tc_rcv_nxt c + sg_data_len g \<and> tc_used c' = tc_used c"
proof -
  define l where "l = sg_data_len g"
  have copy: "(if l < rb_free 0 0 TCP_RXBUF_SIZE then l else rb_free 0 0 TCP_RXBUF_SIZE) = l"
  proof -
    have r: "rb_free 0 0 TCP_RXBUF_SIZE = 4095" by (simp add: rb_free_def TCP_RXBUF_SIZE_def)
    have "l \<le> 4095" using assms(8) by (simp add: l_def word_le_nat_alt)
    then show ?thesis unfolding r by (auto simp: not_less)
  qed
  have ne: "l \<noteq> 0" using assms(7) by (auto simp: l_def)
  show ?thesis
    unfolding l_def [symmetric]
    using assms(1-6) ne copy
    by (auto simp: tcp_input_def tcp_accept_data_def Let_def rx_store_spec tcp_send_segment_def l_def [symmetric])
qed


lemma ring_write_linear:
  "w + length bs \<le> length buf \<Longrightarrow> ring_write buf w bs = take w buf @ bs @ drop (w + length bs) buf"
proof (induction bs arbitrary: buf w)
  case (Cons b bs)
  then have "w < length buf" by simp
  then show ?case using Cons.prems Cons.IH [of "Suc w" "buf[w := b]"]
    by (simp add: take_Suc_conv_app_nth drop_update_cancel)
qed simp

text \<open>\<open>tcp_recv\<close> does not return what was received. It reads from the end of the ring that incoming data is
  written to and moves both indices, so after \<open>n\<close> bytes have arrived on a fresh connection it returns
  \<open>n\<close> bytes of the untouched buffer and the ring still counts \<open>n\<close> bytes as waiting.\<close>

theorem tcp_recv_returns_stale:
  assumes "find_idx (tcp_match g) (tp_conns s) = Some i" "g = parse_segment src h len" "i < TCP_MAX_CONNS" "c = tp_conns s ! i"
    "tc_state c = TCP_ESTABLISHED" "sg_flags g AND TCP_FIN = 0" "sg_seq g = tc_rcv_nxt c"
    "tc_rx_head c = 0" "tc_rx_tail c = 0" "tc_rxbuf c = replicate 4096 0" "0 < unat (sg_data_len g)" "unat (sg_data_len g) \<le> 2048"
    "k = unat (sg_data_len g)" "tcp_recv_poll now' deadline (int i) k (tcp_receive can now src h len s) = (r, s')"
  shows "r = Some (int k, replicate k 0) \<and> rb_used (tc_rx_head (tp_conns s' ! i)) (tc_rx_tail (tp_conns s' ! i)) TCP_RXBUF_SIZE = of_nat k"
proof -
  define d where "d = map (sg_data g) [0..<k]"
  have ld: "length d = k" by (simp add: d_def)
  have i: "i < length (tp_conns s)" "tc_used c" using find_idx_SomeD [OF assms(1)] assms(4) by (simp_all add: tcp_match_def)
  obtain c1 n1 where c1: "tcp_input can now g (c, tp_net s) = (c1, n1)" "tc_rx_head c1 = sg_data_len g" "tc_rx_tail c1 = 0"
      "tc_rxbuf c1 = ring_write (tc_rxbuf c) 0 d" "tc_used c1 = tc_used c"
    using fst_tcp_input_established [of c g can now "tp_net s"] assms(5-13) by (auto simp: d_def)
  have conns: "tp_conns (tcp_receive can now src h len s) ! i = c1" "length (tp_conns (tcp_receive can now src h len s)) = length (tp_conns s)"
    using assms(1,2,4) c1(1) i(1) by (simp_all add: tcp_receive_def on_conn_def Let_def)
  have buf: "tc_rxbuf c1 = d @ replicate (4096 - k) 0" using c1(4) assms(10,12,13) by (simp add: ring_write_linear ld)
  have lb: "length (tc_rxbuf c1) = 4096" using buf assms(12,13) ld by simp
  have used: "rb_used (sg_data_len g) 0 TCP_RXBUF_SIZE = sg_data_len g"
    using assms(12) by (simp only: word_unat_eq_iff) (simp add: rb_used_def TCP_RXBUF_SIZE_def unat_mod unat_word_ariths)
  have uk: "of_nat k = sg_data_len g" using assms(13) by simp
  have "ring_seg (tc_rxbuf c1) k k = replicate k 0"
    using assms(12,13) lb by (intro nth_equalityI) (simp_all add: ring_seg_def buf ld nth_append)
  then have copy: "tcp_copy_out k c1 = (replicate k 0, c1\<lparr>tc_rx_head := sg_data_len g + of_nat k, tc_rx_tail := of_nat k\<rparr>)"
    using tcp_copy_out_spec [OF lb, of k] assms(13) by (simp add: c1(2,3))
  have ne: "sg_data_len g \<noteq> 0" using assms(11) by auto
  have ok: "conn_ok (int i) (tcp_receive can now src h len s)" using assms(3) conns i c1(5) by (simp add: conn_ok_def)
  have "r = Some (int k, replicate k 0) \<and> tp_conns s' ! i = c1\<lparr>tc_rx_head := sg_data_len g + of_nat k, tc_rx_tail := of_nat k,
      tc_rcv_wnd := rb_free (sg_data_len g + of_nat k) (of_nat k) TCP_RXBUF_SIZE\<rparr>"
    using assms(13,14) ok used ne copy conns i(1) by (auto simp: tcp_recv_poll_def c1(2,3) Let_def)
  moreover have "rb_used (sg_data_len g + of_nat k) (of_nat k) TCP_RXBUF_SIZE = of_nat k"
    using used by (simp add: rb_used_def uk)
  ultimately show ?thesis by simp
qed


section \<open>An example\<close>

definition tcp_demo :: tcp where
  "tcp_demo = \<lparr>tp_conns = (replicate 16 conn_zero)[1 := conn_zero\<lparr>tc_used := True, tc_state := TCP_ESTABLISHED,
     tc_remote_ip := 0x0A00020F, tc_remote_port := 80, tc_local_port := 7, tc_rcv_nxt := 9\<rparr>], tp_net = net_demo iface_a\<rparr>"

text \<open>The two bytes \<open>hi\<close> at sequence number 9.\<close>

definition tcp_hi :: "nat \<Rightarrow> u8" where
  "tcp_hi = pkt_of ([0, 80, 0, 7, 0, 0, 0, 9, 0, 0, 0, 0, 0x50, 0x10, 0, 100, 0, 0, 0, 0] @ asc ''hi'')"

lemma tcp_hi_parsed:
  "sg_src_ip (parse_segment 0x0A00020F tcp_hi 22) = 0x0A00020F" "sg_src_port (parse_segment 0x0A00020F tcp_hi 22) = 80"
  "sg_dst_port (parse_segment 0x0A00020F tcp_hi 22) = 7" "sg_flags (parse_segment 0x0A00020F tcp_hi 22) AND TCP_FIN = 0"
  "sg_seq (parse_segment 0x0A00020F tcp_hi 22) = 9" "unat (sg_data_len (parse_segment 0x0A00020F tcp_hi 22)) = 2"
  by code_simp+

lemma tcp_demo_found: "find_idx (tcp_match (parse_segment 0x0A00020F tcp_hi 22)) (tp_conns tcp_demo) = Some 1"
proof -
  have "tp_conns tcp_demo = conn_zero # tp_conns tcp_demo ! 1 # replicate 14 conn_zero"
    by (simp add: tcp_demo_def numeral_eq_Suc)
  then show ?thesis
    by (simp add: tcp_match_def tcp_hi_parsed conn_zero_def) (simp add: tcp_demo_def tcp_match_def tcp_hi_parsed)
qed

lemma tcp_demo_conn:
  "tc_state (tp_conns tcp_demo ! 1) = TCP_ESTABLISHED" "tc_rcv_nxt (tp_conns tcp_demo ! 1) = 9" "tc_rx_head (tp_conns tcp_demo ! 1) = 0"
  "tc_rx_tail (tp_conns tcp_demo ! 1) = 0" "tc_rxbuf (tp_conns tcp_demo ! 1) = replicate 4096 0"
  by (simp_all add: tcp_demo_def conn_zero_def)

theorem tcp_recv_returns_stale_witness:
  "fst (tcp_recv_poll 0 0 1 2 (tcp_receive (\<lambda>_. True) 0 0x0A00020F tcp_hi 22 tcp_demo)) = Some (2, [0, 0])"
  using tcp_recv_returns_stale [OF tcp_demo_found refl _ refl _ _ _ _ _ _ _ _ refl prod.collapse [symmetric], of 0 0 "\<lambda>_. True" 0]
  by (simp add: tcp_hi_parsed tcp_demo_conn TCP_MAX_CONNS_def numeral_2_eq_2 del: One_nat_def)

text \<open>The other side closes: a FIN with ACK.\<close>

definition tcp_bye :: "nat \<Rightarrow> u8" where
  "tcp_bye = pkt_of [0, 80, 0, 7, 0, 0, 0, 9, 0, 0, 0, 0, 0x50, 0x11, 0, 100, 0, 0, 0, 0]"


text \<open>The checksum adds the halves of the addresses as numbers to the words of the segment as they lie in memory, so
  the sum over the bytes that RFC 793 prescribes does not come out right.\<close>

lemma tcp_checksum_not_rfc:
  "klib_checksum16 (be32_bytes 0x0A000201 @ be32_bytes 0x0A00020F @ [0, 6, 0, 20] @
     tcp_hdr conn_zero TCP_SYN (tcp_checksum 0x0A000201 0x0A00020F (tcp_hdr conn_zero TCP_SYN 0))) \<noteq> 0"
  by code_simp

end
