(* ===== verification/Dhcp.thy ===== *)
theory Dhcp
  imports Net
begin

text \<open>
  The DHCP client (\<open>net/dhcp.c\<close>). Packets are built as byte lists and read as memory from their first
  byte; the options start at byte 240 and end at byte 552. What \<open>sock_recvfrom\<close> returns on the polls of
  a wait is an argument of \<open>dhcp_discover\<close>.
\<close>

definition DHCP_SERVER_PORT :: u16 where "DHCP_SERVER_PORT = 67"
definition DHCP_CLIENT_PORT :: u16 where "DHCP_CLIENT_PORT = 68"
definition DHCP_MAGIC_COOKIE :: u32 where "DHCP_MAGIC_COOKIE = 0x63825363"
definition DHCP_OPT_SUBNET_MASK :: u8 where "DHCP_OPT_SUBNET_MASK = 1"
definition DHCP_OPT_ROUTER :: u8 where "DHCP_OPT_ROUTER = 3"
definition DHCP_OPT_DNS :: u8 where "DHCP_OPT_DNS = 6"
definition DHCP_OPT_LEASE_TIME :: u8 where "DHCP_OPT_LEASE_TIME = 51"
definition DHCP_OPT_MSG_TYPE :: u8 where "DHCP_OPT_MSG_TYPE = 53"
definition DHCP_OPT_SERVER_ID :: u8 where "DHCP_OPT_SERVER_ID = 54"
definition DHCP_OPT_PARAM_REQ :: u8 where "DHCP_OPT_PARAM_REQ = 55"
definition DHCP_OPT_END :: u8 where "DHCP_OPT_END = 255"
definition DHCP_MSG_DISCOVER :: u8 where "DHCP_MSG_DISCOVER = 1"
definition DHCP_MSG_OFFER :: u8 where "DHCP_MSG_OFFER = 2"
definition DHCP_MSG_REQUEST :: u8 where "DHCP_MSG_REQUEST = 3"
definition DHCP_MSG_ACK :: u8 where "DHCP_MSG_ACK = 5"
definition DHCP_OPTIONS :: nat where "DHCP_OPTIONS = 240"
definition DHCP_PKT :: nat where "DHCP_PKT = 552"

record dhcp_lease =
  ls_ip :: u32
  ls_netmask :: u32
  ls_gateway :: u32
  ls_dns :: u32
  ls_server_id :: u32
  ls_lease_secs :: u32

record dhcp =
  dh_lease :: dhcp_lease
  dh_valid :: bool
  dh_xid :: u32

definition lease_zero :: dhcp_lease where
  "lease_zero = \<lparr>ls_ip = 0, ls_netmask = 0, ls_gateway = 0, ls_dns = 0, ls_server_id = 0, ls_lease_secs = 0\<rparr>"

section \<open>Building packets\<close>

definition dhcp_options :: "u8 \<Rightarrow> u32 \<Rightarrow> u32 \<Rightarrow> u8 list" where
  "dhcp_options msg_type server_id offered_ip =
     [DHCP_OPT_MSG_TYPE, 1, msg_type] @
     (if msg_type = DHCP_MSG_REQUEST then [DHCP_OPT_SERVER_ID, 4] @ be32_bytes server_id @ [50, 4] @ be32_bytes offered_ip else []) @
     [DHCP_OPT_PARAM_REQ, 4, DHCP_OPT_SUBNET_MASK, DHCP_OPT_ROUTER, DHCP_OPT_DNS, DHCP_OPT_LEASE_TIME, DHCP_OPT_END]"

definition dhcp_build_pkt :: "u32 \<Rightarrow> u8 list \<Rightarrow> u8 \<Rightarrow> u32 \<Rightarrow> u32 \<Rightarrow> u8 list" where
  "dhcp_build_pkt xid mac msg_type server_id offered_ip =
     (let opts = dhcp_options msg_type server_id offered_ip in
      [1, 1, 6, 0] @ be32_bytes xid @ [0, 0] @ be16_bytes 0x8000 @ replicate 16 0 @ take 6 mac @ replicate 10 0 @
      replicate 192 0 @ be32_bytes DHCP_MAGIC_COOKIE @ opts @ replicate (312 - length opts) 0)"

section \<open>Parsing replies\<close>

definition dhcp_option :: "u8 \<Rightarrow> u8 \<Rightarrow> (nat \<Rightarrow> u8) \<Rightarrow> u8 \<times> dhcp_lease \<Rightarrow> u8 \<times> dhcp_lease" where
  "dhcp_option code len opt = (\<lambda>(msg_type, l).
     if code = DHCP_OPT_MSG_TYPE then (if len \<ge> 1 then opt 0 else msg_type, l)
     else if code = DHCP_OPT_SUBNET_MASK then (msg_type, if len = 4 then l\<lparr>ls_netmask := be32_at opt 0\<rparr> else l)
     else if code = DHCP_OPT_ROUTER then (msg_type, if len \<ge> 4 then l\<lparr>ls_gateway := be32_at opt 0\<rparr> else l)
     else if code = DHCP_OPT_DNS then (msg_type, if len \<ge> 4 then l\<lparr>ls_dns := be32_at opt 0\<rparr> else l)
     else if code = DHCP_OPT_SERVER_ID then (msg_type, if len = 4 then l\<lparr>ls_server_id := be32_at opt 0\<rparr> else l)
     else if code = DHCP_OPT_LEASE_TIME then (msg_type, if len = 4 then l\<lparr>ls_lease_secs := be32_at opt 0\<rparr> else l)
     else (msg_type, l))"

function dhcp_parse_options :: "(nat \<Rightarrow> u8) \<Rightarrow> nat \<Rightarrow> u8 \<times> dhcp_lease \<Rightarrow> u8 \<times> dhcp_lease" where
  "dhcp_parse_options pkt pos ml =
     (if pos \<ge> DHCP_PKT \<or> pkt pos = DHCP_OPT_END then ml
      else if pkt pos = 0 then dhcp_parse_options pkt (pos + 1) ml
      else if pos + 1 \<ge> DHCP_PKT then ml
      else
        let len = pkt (pos + 1) in
        if pos + 2 + unat len > DHCP_PKT then ml
        else dhcp_parse_options pkt (pos + 2 + unat len) (dhcp_option (pkt pos) len (\<lambda>i. pkt (pos + 2 + i)) ml))"
  by pat_completeness auto
termination
  by (relation "measure (\<lambda>(pkt, pos, ml). DHCP_PKT - pos)") auto

declare dhcp_parse_options.simps [simp del]

definition dhcp_parse_reply :: "(nat \<Rightarrow> u8) \<Rightarrow> u8 \<Rightarrow> dhcp_lease \<Rightarrow> bool \<times> dhcp_lease" where
  "dhcp_parse_reply pkt expected_type lease =
     (if be32_at pkt 236 \<noteq> DHCP_MAGIC_COOKIE then (False, lease)
      else
        let (msg_type, l) = dhcp_parse_options pkt DHCP_OPTIONS (0, lease\<lparr>ls_ip := be32_at pkt 16\<rparr>)
        in (msg_type = expected_type, l))"

section \<open>The exchange\<close>

text \<open>A reply that is refused can still have changed the lease that is being filled.\<close>

fun dhcp_wait :: "u32 \<Rightarrow> u8 \<Rightarrow> (int \<times> (nat \<Rightarrow> u8)) list \<Rightarrow> dhcp_lease \<Rightarrow> bool \<times> dhcp_lease" where
  "dhcp_wait xid ty [] lease = (False, lease)"
| "dhcp_wait xid ty ((n, pkt) # polls) lease =
     (if n \<ge> int DHCP_PKT \<and> be32_at pkt 4 = xid then
        (case dhcp_parse_reply pkt ty lease of (True, l) \<Rightarrow> (True, l) | (False, l) \<Rightarrow> dhcp_wait xid ty polls l)
      else dhcp_wait xid ty polls lease)"

definition dhcp_discover :: "(u32 \<Rightarrow> bool) \<Rightarrow> (int \<times> (nat \<Rightarrow> u8)) list \<Rightarrow> (int \<times> (nat \<Rightarrow> u8)) list \<Rightarrow>
    net_iface \<Rightarrow> dhcp \<times> net \<Rightarrow> bool \<times> net_iface \<times> dhcp \<times> net" where
  "dhcp_discover can polls1 polls2 iface = (\<lambda>(d, s).
     let (sock, s) = sock_open IP_PROTO_UDP s in
     if sock < 0 then (False, iface, d, s)
     else
       let s = snd (sock_bind sock DHCP_CLIENT_PORT s);
           s = snd (sock_sendto can sock 0xFFFFFFFF DHCP_SERVER_PORT (dhcp_build_pkt (dh_xid d) (if_mac iface) DHCP_MSG_DISCOVER 0 0) s);
           (got_offer, off) = dhcp_wait (dh_xid d) DHCP_MSG_OFFER polls1 lease_zero in
       if \<not> got_offer then (False, iface, d, sock_close sock s)
       else
         let s = snd (sock_sendto can sock 0xFFFFFFFF DHCP_SERVER_PORT
                   (dhcp_build_pkt (dh_xid d) (if_mac iface) DHCP_MSG_REQUEST (ls_server_id off) (ls_ip off)) s);
             (got_ack, ack) = dhcp_wait (dh_xid d) DHCP_MSG_ACK polls2 lease_zero;
             s = sock_close sock s in
         if \<not> got_ack then (False, iface, d, s)
         else (True, iface\<lparr>if_ip := ls_ip ack, if_netmask := ls_netmask ack, if_gateway := ls_gateway ack\<rparr>,
                 d\<lparr>dh_lease := ack, dh_valid := True, dh_xid := dh_xid d + 1\<rparr>, s))"

definition dhcp_get_lease :: "dhcp \<Rightarrow> (u32 \<times> u32 \<times> u32 \<times> u32) option" where
  "dhcp_get_lease d =
     (if \<not> dh_valid d then None
      else Some (ls_ip (dh_lease d), ls_netmask (dh_lease d), ls_gateway (dh_lease d), ls_dns (dh_lease d)))"

section \<open>The option parser reads every well-formed option list\<close>

text \<open>Options as pairs of code and value; code 0 is padding and code 255 the end.\<close>

definition opt_ok :: "u8 \<times> u8 list \<Rightarrow> bool" where
  "opt_ok = (\<lambda>(code, v). code \<noteq> 0 \<and> code \<noteq> 255 \<and> length v < 256)"

definition opt_bytes :: "u8 \<times> u8 list \<Rightarrow> u8 list" where
  "opt_bytes = (\<lambda>(code, v). code # of_nat (length v) # v)"

definition apply_opt :: "u8 \<times> u8 list \<Rightarrow> u8 \<times> dhcp_lease \<Rightarrow> u8 \<times> dhcp_lease" where
  "apply_opt = (\<lambda>(code, v). dhcp_option code (of_nat (length v)) (pkt_of v))"

lemma dhcp_option_cong:
  assumes "\<And>i. i < unat len \<Longrightarrow> a i = b i"
  shows "dhcp_option code len a ml = dhcp_option code len b ml"
proof -
  have "a 0 = b 0" if "1 \<le> len" using that assms [of 0] by (simp add: word_le_nat_alt)
  moreover have "be32_at a 0 = be32_at b 0" if "4 \<le> len"
  proof -
    have "4 \<le> unat len" using that by (simp add: word_le_nat_alt)
    then have "a 0 = b 0" "a (0 + 1) = b (0 + 1)" "a (0 + 2) = b (0 + 2)" "a (0 + 3) = b (0 + 3)" by (simp_all add: assms)
    then show ?thesis unfolding be32_at_def by (simp only:)
  qed
  ultimately show ?thesis by (auto simp: dhcp_option_def split: prod.splits)
qed

lemma parse_options_spec:
  "\<forall>q \<in> set opts. opt_ok q \<Longrightarrow> has_at pkt pos (concat (map opt_bytes opts) @ [DHCP_OPT_END]) \<Longrightarrow>
   pos + length (concat (map opt_bytes opts)) < DHCP_PKT \<Longrightarrow> dhcp_parse_options pkt pos ml = fold apply_opt opts ml"
proof (induction opts arbitrary: pos ml)
  case Nil
  then show ?case by (subst dhcp_parse_options.simps) (simp add: has_at_Cons)
next
  case (Cons q opts)
  obtain code v where q: "q = (code, v)" by (cases q)
  have ok: "code \<noteq> 0" "code \<noteq> DHCP_OPT_END" "length v < 256" using Cons.prems(1) by (auto simp: q opt_ok_def DHCP_OPT_END_def)
  have at: "pkt pos = code" "pkt (Suc pos) = of_nat (length v)" "has_at pkt (pos + 2) v"
    "has_at pkt (pos + 2 + length v) (concat (map opt_bytes opts) @ [DHCP_OPT_END])"
    using Cons.prems(2) by (simp_all add: q opt_bytes_def has_at_Cons has_at_append)
  have len: "unat (of_nat (length v) :: u8) = length v" using ok(3) by (simp add: unat_of_nat take_bit_nat_eq_self)
  have opt: "dhcp_option code (of_nat (length v)) (\<lambda>i. pkt (pos + 2 + i)) ml = apply_opt q ml"
    unfolding apply_opt_def q prod.case
    by (rule dhcp_option_cong) (use at(3) len in \<open>simp add: pkt_of_def has_at_def\<close>)
  have "pos + 2 + length v + length (concat (map opt_bytes opts)) < DHCP_PKT" using Cons.prems(3) by (simp add: q opt_bytes_def)
  then have "dhcp_parse_options pkt pos ml = dhcp_parse_options pkt (pos + 2 + length v) (apply_opt q ml)"
    using at(1,2) ok len opt by (subst dhcp_parse_options.simps) (simp add: Let_def)
  also have "\<dots> = fold apply_opt (q # opts) ml"
    using Cons.IH [OF _ at(4)] Cons.prems(1) \<open>pos + 2 + length v + _ < DHCP_PKT\<close> by simp
  finally show ?case .
qed


text \<open>Before the first lease an interface has no address, so the broadcast needs an ARP entry for
  255.255.255.255, which no host announces: instead of the packet an ARP request is sent.\<close>

lemma broadcast_not_sent:
  assumes "if_send iface = Some f" "if_ip iface = 0" "if_netmask iface = 0" "arp_lookup 0xFFFFFFFF (nt_arp s) = None" "can (14 + 20 + of_nat (length p))"
  shows "ip4_send can iface 0xFFFFFFFF proto p s = (- 2, arp_send_request iface 0xFFFFFFFF s)"
  using assms by (simp add: ip4_send_def Let_def)

end
