(* ===== verification/Loopback.thy ===== *)
theory Loopback
  imports Net
begin

text \<open>
  The loopback interface (\<open>net/loopback.c\<close>). Its \<open>send\<close> callback wraps what it is given in an Ethernet header with
  zero addresses and calls \<open>net_receive\<close>. Shown: since \<open>ip4_send\<close> and the ARP code hand it complete Ethernet
  frames, which are wrapped a second time, nothing sent on the interface arrives.
\<close>

definition LO_BUF_SIZE :: u32 where "LO_BUF_SIZE = 1500 + 14 + 64"

definition lo_frame :: "u8 list \<Rightarrow> u8 list" where
  "lo_frame data = eth_hdr (replicate 6 0) (replicate 6 0) ETH_TYPE_IPV4 @ take (unat (LO_BUF_SIZE - ETH_HDR)) data"

definition lo_send :: "(u32 \<Rightarrow> bool) \<Rightarrow> net_iface \<Rightarrow> u8 list \<Rightarrow> net \<Rightarrow> int \<times> net" where
  "lo_send can iface data s =
     (if of_nat (length data) > LO_BUF_SIZE then (- 1, s)
      else (0, net_receive can iface (pkt_of (lo_frame data)) (of_nat (length (lo_frame data))) s))"

text \<open>The interface as \<open>loopback_init\<close> registers it; \<open>ret\<close> is what its callback returns.\<close>

definition lo_iface :: "(u8 list \<Rightarrow> int) \<Rightarrow> net_iface" where
  "lo_iface ret = \<lparr>if_mac = replicate 6 0, if_ip = 0x7F000001, if_netmask = 0xFF000000, if_gateway = 0x7F000001, if_up = True, if_send = Some ret\<rparr>"

definition loopback_init :: "(u8 list \<Rightarrow> int) \<Rightarrow> net \<Rightarrow> net" where
  "loopback_init ret s = snd (net_register_iface (lo_iface ret) s)"

section \<open>What arrives\<close>

text \<open>The header in front of the frame is skipped; the frame's own header is then read as an IPv4 header.\<close>

lemma lo_frame_bytes: "i < length data \<Longrightarrow> i < 1564 \<Longrightarrow> pkt_of (lo_frame data) (14 + i) = data ! i"
  by (simp add: pkt_of_def lo_frame_def eth_hdr_def LO_BUF_SIZE_def ETH_HDR_def nth_append)

lemma lo_frame_type: "be16_at (pkt_of (lo_frame data)) 12 = ETH_TYPE_IPV4"
proof (rule be16_at_bytes)
  have "lo_frame data = replicate 12 0 @ be16_bytes ETH_TYPE_IPV4 @ take (unat (LO_BUF_SIZE - ETH_HDR)) data"
    by (simp add: lo_frame_def eth_hdr_def numeral_eq_Suc)
  then show "has_at (pkt_of (lo_frame data)) 12 (be16_bytes ETH_TYPE_IPV4)"
    using has_at_pkt_of [of "lo_frame data"] by (simp only: has_at_append length_replicate) simp
qed

lemma unat_lo_length: "unat (of_nat (length (lo_frame data)) :: u32) = length (lo_frame data)" "length (lo_frame data) \<le> 1578"
proof -
  show "length (lo_frame data) \<le> 1578" by (simp add: lo_frame_def eth_hdr_def LO_BUF_SIZE_def ETH_HDR_def)
  then show "unat (of_nat (length (lo_frame data)) :: u32) = length (lo_frame data)" by (simp add: unat_of_nat)
qed

lemma ipv4_handle_drops:
  "data 0 = 0 \<or> data 2 = 0xFF \<and> data 3 = 0xFF \<and> len < 0xFFFF \<Longrightarrow> ipv4_handle can iface data len s = s"
  by (auto simp: ipv4_handle_def be16_at_def Let_def)

text \<open>A frame whose destination is the broadcast address or the zero address of the interface is dropped.\<close>

theorem loopback_drops_frames:
  assumes "data = eth_hdr dst src ty @ rest" "dst = MAC_BROADCAST \<or> dst = replicate 6 0" "length src = 6"
  shows "nt_sockets (snd (lo_send can iface data s)) = nt_sockets s" "nt_arp (snd (lo_send can iface data s)) = nt_arp s"
    "nt_tx (snd (lo_send can iface data s)) = nt_tx s"
proof -
  let ?p = "pkt_of (lo_frame data)" and ?l = "of_nat (length (lo_frame data)) :: u32"
  have len: "14 \<le> length data" using assms by (auto simp: eth_hdr_def MAC_BROADCAST_def)
  have b: "?p 14 = dst ! 0" "?p 16 = dst ! 2" "?p 17 = dst ! 3"
    using lo_frame_bytes [of 0 data] lo_frame_bytes [of 2 data] lo_frame_bytes [of 3 data] len assms
    by (auto simp: eth_hdr_def MAC_BROADCAST_def nth_append)
  have l14: "14 \<le> length (lo_frame data)" by (simp add: lo_frame_def eth_hdr_def)
  have "?l - 14 < 0xFFFF"
    using unat_lo_length [of data] l14 by (simp add: word_less_nat_alt unat_sub word_le_nat_alt)
  then have "ipv4_handle can iface (\<lambda>i. ?p (14 + i)) (?l - 14) s' = s'" for s'
    using b assms(2) by (intro ipv4_handle_drops) (auto simp: MAC_BROADCAST_def)
  then show "nt_sockets (snd (lo_send can iface data s)) = nt_sockets s" "nt_arp (snd (lo_send can iface data s)) = nt_arp s"
    "nt_tx (snd (lo_send can iface data s)) = nt_tx s"
    by (simp_all add: lo_send_def net_receive_def Let_def lo_frame_type ETH_TYPE_ARP_def ETH_TYPE_IPV4_def ETH_HDR_def count_stat_def)
qed

end
