(* ===== verification/Interrupts.thy ===== *)
theory Interrupts
  imports Prelude
begin

text \<open>
  Descriptor tables and interrupt dispatch (\<open>cpu/gdt.c\<close>, \<open>cpu/idt.c\<close>). Descriptors are records of the packed C
  structures; the vector stubs of \<open>isr.S\<close> are the parameter \<open>isr\<close> (their addresses). Port output is the list of
  writes, newest first; an input from the data port of the interrupt controller reads back what was last
  written there, as the 8259 documents. Handlers are names of any type, run by the parameter \<open>run\<close>; a kernel panic is
  \<open>None\<close>. Shown: descriptors decode to what was encoded, which vectors have a gate, masking and unmasking of lines,
  and the acknowledgement of hardware interrupts.
\<close>

section \<open>Segment descriptors (gdt.c)\<close>

definition GDT_KERNEL_CODE :: u16 where "GDT_KERNEL_CODE = 0x08"
definition GDT_KERNEL_DATA :: u16 where "GDT_KERNEL_DATA = 0x10"
definition GDT_USER_CODE :: u16 where "GDT_USER_CODE = 0x18"
definition GDT_USER_DATA :: u16 where "GDT_USER_DATA = 0x20"
definition GDT_ACCESS_PRESENT :: u8 where "GDT_ACCESS_PRESENT = push_bit 7 1"
definition GDT_ACCESS_RING0 :: u8 where "GDT_ACCESS_RING0 = push_bit 5 0"
definition GDT_ACCESS_RING3 :: u8 where "GDT_ACCESS_RING3 = push_bit 5 3"
definition GDT_ACCESS_CODE_DATA :: u8 where "GDT_ACCESS_CODE_DATA = push_bit 4 1"
definition GDT_ACCESS_EXEC :: u8 where "GDT_ACCESS_EXEC = push_bit 3 1"
definition GDT_ACCESS_RW :: u8 where "GDT_ACCESS_RW = push_bit 1 1"
definition GDT_FLAG_GRANULARITY :: u8 where "GDT_FLAG_GRANULARITY = push_bit 3 1"
definition GDT_FLAG_SIZE :: u8 where "GDT_FLAG_SIZE = push_bit 2 1"

record gdt_entry =
  gd_limit_low :: u16
  gd_base_low :: u16
  gd_base_mid :: u8
  gd_access :: u8
  gd_limit_flags :: u8
  gd_base_high :: u8

definition gdt_zero :: gdt_entry where
  "gdt_zero = \<lparr>gd_limit_low = 0, gd_base_low = 0, gd_base_mid = 0, gd_access = 0, gd_limit_flags = 0, gd_base_high = 0\<rparr>"

text \<open>The fields of \<open>tss_entry_t\<close> the kernel sets; the others stay zero.\<close>

record tss_entry =
  tss_ss0 :: u32
  tss_esp0 :: u32
  tss_iomap_base :: u16

record gdt =
  gdt_entries :: "gdt_entry list"
  gdt_tss :: tss_entry

definition gdt_set_entry :: "nat \<Rightarrow> u32 \<Rightarrow> u32 \<Rightarrow> u8 \<Rightarrow> u8 \<Rightarrow> gdt \<Rightarrow> gdt" where
  "gdt_set_entry idx base limit access flags s =
     s\<lparr>gdt_entries := (gdt_entries s)[idx :=
       \<lparr>gd_limit_low = ucast (limit AND 0xFFFF), gd_base_low = ucast (base AND 0xFFFF),
        gd_base_mid = ucast (drop_bit 16 base AND 0xFF), gd_access = access,
        gd_limit_flags = push_bit 4 (flags AND 0x0F) OR ucast (drop_bit 16 limit AND 0x0F),
        gd_base_high = ucast (drop_bit 24 base AND 0xFF)\<rparr>]\<rparr>"

text \<open>\<open>tss_addr\<close> is the address of \<open>tss\<close>; \<open>sizeof(tss_entry_t)\<close> is 104.\<close>

definition tss_init :: "u32 \<Rightarrow> gdt \<Rightarrow> gdt" where
  "tss_init tss_addr s =
     s\<lparr>gdt_tss := \<lparr>tss_ss0 = ucast GDT_KERNEL_DATA, tss_esp0 = 0, tss_iomap_base = 104\<rparr>,
       gdt_entries := (gdt_entries s)[5 :=
         \<lparr>gd_limit_low = ucast ((104 - 1 :: u32) AND 0xFFFF), gd_base_low = ucast (tss_addr AND 0xFFFF),
          gd_base_mid = ucast (drop_bit 16 tss_addr AND 0xFF), gd_access = 0x89,
          gd_limit_flags = ucast (drop_bit 16 (104 - 1 :: u32) AND 0x0F),
          gd_base_high = ucast (drop_bit 24 tss_addr AND 0xFF)\<rparr>]\<rparr>"

definition gdt_init :: "u32 \<Rightarrow> gdt \<Rightarrow> gdt" where
  "gdt_init tss_addr s =
     (let kcode_acc = GDT_ACCESS_PRESENT OR GDT_ACCESS_RING0 OR GDT_ACCESS_CODE_DATA OR GDT_ACCESS_EXEC OR GDT_ACCESS_RW;
          kdata_acc = GDT_ACCESS_PRESENT OR GDT_ACCESS_RING0 OR GDT_ACCESS_CODE_DATA OR GDT_ACCESS_RW;
          ucode_acc = GDT_ACCESS_PRESENT OR GDT_ACCESS_RING3 OR GDT_ACCESS_CODE_DATA OR GDT_ACCESS_EXEC OR GDT_ACCESS_RW;
          udata_acc = GDT_ACCESS_PRESENT OR GDT_ACCESS_RING3 OR GDT_ACCESS_CODE_DATA OR GDT_ACCESS_RW;
          flags32 = GDT_FLAG_GRANULARITY OR GDT_FLAG_SIZE;
          s = gdt_set_entry 0 0 0 0 0 s;
          s = gdt_set_entry 1 0 0xFFFFFFFF kcode_acc flags32 s;
          s = gdt_set_entry 2 0 0xFFFFFFFF kdata_acc flags32 s;
          s = gdt_set_entry 3 0 0xFFFFFFFF ucode_acc flags32 s;
          s = gdt_set_entry 4 0 0xFFFFFFFF udata_acc flags32 s
      in tss_init tss_addr s)"

definition tss_set_kernel_stack :: "u32 \<Rightarrow> gdt \<Rightarrow> gdt" where
  "tss_set_kernel_stack stack s = s\<lparr>gdt_tss := (gdt_tss s)\<lparr>tss_esp0 := stack\<rparr>\<rparr>"

text \<open>What the processor reads from a descriptor: base, limit (in units of the granularity), flags, privilege level.\<close>

definition gdt_base :: "gdt_entry \<Rightarrow> u32" where
  "gdt_base e = ucast (gd_base_low e) OR push_bit 16 (ucast (gd_base_mid e)) OR push_bit 24 (ucast (gd_base_high e))"

definition gdt_limit :: "gdt_entry \<Rightarrow> u32" where
  "gdt_limit e = ucast (gd_limit_low e) OR push_bit 16 (ucast (gd_limit_flags e AND 0x0F))"

definition gdt_flags :: "gdt_entry \<Rightarrow> u8" where
  "gdt_flags e = drop_bit 4 (gd_limit_flags e)"

definition gdt_dpl :: "gdt_entry \<Rightarrow> u8" where
  "gdt_dpl e = drop_bit 5 (gd_access e) AND 3"

section \<open>Interrupt gates (idt.h, idt.c)\<close>

definition IDT_ENTRIES :: nat where "IDT_ENTRIES = 256"
definition IRQ_BASE :: nat where "IRQ_BASE = 32"
definition IRQ_CASCADE :: nat where "IRQ_CASCADE = 2"
definition IDT_FLAG_PRESENT :: u8 where "IDT_FLAG_PRESENT = push_bit 7 1"
definition IDT_FLAG_RING0 :: u8 where "IDT_FLAG_RING0 = push_bit 5 0"
definition IDT_GATE_INTERRUPT :: u8 where "IDT_GATE_INTERRUPT = 0x0E"
definition PIC1_CMD :: u16 where "PIC1_CMD = 0x20"
definition PIC1_DATA :: u16 where "PIC1_DATA = 0x21"
definition PIC2_CMD :: u16 where "PIC2_CMD = 0xA0"
definition PIC2_DATA :: u16 where "PIC2_DATA = 0xA1"
definition PIC_EOI :: u8 where "PIC_EOI = 0x20"

record idt_entry =
  ie_offset_low :: u16
  ie_selector :: u16
  ie_zero :: u8
  ie_type_attr :: u8
  ie_offset_high :: u16

definition idt_zero :: idt_entry where
  "idt_zero = \<lparr>ie_offset_low = 0, ie_selector = 0, ie_zero = 0, ie_type_attr = 0, ie_offset_high = 0\<rparr>"

record cpu_regs =
  r_gs :: u32
  r_fs :: u32
  r_es :: u32
  r_ds :: u32
  r_edi :: u32
  r_esi :: u32
  r_ebp :: u32
  r_esp_dummy :: u32
  r_ebx :: u32
  r_edx :: u32
  r_ecx :: u32
  r_eax :: u32
  r_int_no :: u32
  r_err_code :: u32
  r_eip :: u32
  r_cs :: u32
  r_eflags :: u32
  r_esp :: u32
  r_ss :: u32

definition regs_zero :: cpu_regs where
  "regs_zero = \<lparr>r_gs = 0, r_fs = 0, r_es = 0, r_ds = 0, r_edi = 0, r_esi = 0, r_ebp = 0, r_esp_dummy = 0, r_ebx = 0, r_edx = 0,
     r_ecx = 0, r_eax = 0, r_int_no = 0, r_err_code = 0, r_eip = 0, r_cs = 0, r_eflags = 0, r_esp = 0, r_ss = 0\<rparr>"

datatype io_event = Outb u16 u8 | Apic_eoi

text \<open>
  The module's tables; \<open>io_log\<close> the output so far, newest first; \<open>port_init\<close> what an input reads before any
  output to the port; \<open>apic_mapped\<close> whether \<open>apic\<close> is set (\<open>apic_init\<close> ran).
\<close>

record 'h intr =
  idt_entries :: "idt_entry list"
  irq_handlers :: "'h option list"
  exc_handlers :: "'h option list"
  io_log :: "io_event list"
  port_init :: "u16 \<Rightarrow> u8"
  apic_mapped :: bool

definition outb :: "u16 \<Rightarrow> u8 \<Rightarrow> ('h, 'z) intr_scheme \<Rightarrow> ('h, 'z) intr_scheme" where
  "outb port v s = s\<lparr>io_log := Outb port v # io_log s\<rparr>"

fun last_out :: "u16 \<Rightarrow> io_event list \<Rightarrow> u8 option" where
  "last_out port [] = None"
| "last_out port (Outb p v # l) = (if p = port then Some v else last_out port l)"
| "last_out port (Apic_eoi # l) = last_out port l"

definition inb :: "u16 \<Rightarrow> ('h, 'z) intr_scheme \<Rightarrow> u8" where
  "inb port s = (case last_out port (io_log s) of None \<Rightarrow> port_init s port | Some v \<Rightarrow> v)"

definition idt_set_gate :: "nat \<Rightarrow> u32 \<Rightarrow> u16 \<Rightarrow> u8 \<Rightarrow> ('h, 'z) intr_scheme \<Rightarrow> ('h, 'z) intr_scheme" where
  "idt_set_gate vec handler sel type_attr s =
     s\<lparr>idt_entries := (idt_entries s)[vec :=
       \<lparr>ie_offset_low = ucast (handler AND 0xFFFF), ie_selector = sel, ie_zero = 0, ie_type_attr = type_attr,
        ie_offset_high = ucast (drop_bit 16 handler AND 0xFFFF)\<rparr>]\<rparr>"

text \<open>\<open>io_wait\<close> only takes time and is left out.\<close>

definition pic_remap :: "u8 \<Rightarrow> u8 \<Rightarrow> ('h, 'z) intr_scheme \<Rightarrow> ('h, 'z) intr_scheme" where
  "pic_remap offset1 offset2 s =
     (let mask1 = inb PIC1_DATA s; mask2 = inb PIC2_DATA s;
          s = outb PIC2_CMD 0x11 (outb PIC1_CMD 0x11 s);
          s = outb PIC2_DATA offset2 (outb PIC1_DATA offset1 s);
          s = outb PIC2_DATA 0x02 (outb PIC1_DATA 0x04 s);
          s = outb PIC2_DATA 0x01 (outb PIC1_DATA 0x01 s)
      in outb PIC2_DATA mask2 (outb PIC1_DATA mask1 s))"

definition idt_init :: "(nat \<Rightarrow> u32) \<Rightarrow> ('h, 'z) intr_scheme \<Rightarrow> ('h, 'z) intr_scheme" where
  "idt_init isr s =
     (let s = s\<lparr>idt_entries := replicate IDT_ENTRIES idt_zero, irq_handlers := replicate 16 None,
                exc_handlers := replicate 32 None\<rparr>;
          s = pic_remap (of_nat IRQ_BASE) (of_nat IRQ_BASE + 8) s;
          s = outb PIC2_DATA 0xFF (outb PIC1_DATA 0xFF s);
          kgate = IDT_FLAG_PRESENT OR IDT_FLAG_RING0 OR IDT_GATE_INTERRUPT;
          s = fold (\<lambda>n. idt_set_gate n (isr n) GDT_KERNEL_CODE kgate) [0..<32] s
      in fold (\<lambda>n. idt_set_gate n (isr n) GDT_KERNEL_CODE kgate) [32..<48] s)"

definition irq_mask :: "nat \<Rightarrow> ('h, 'z) intr_scheme \<Rightarrow> ('h, 'z) intr_scheme" where
  "irq_mask irq s =
     (let (port, irq) = (if irq < 8 then (PIC1_DATA, irq) else (PIC2_DATA, irq - 8))
      in outb port (inb port s OR push_bit irq 1) s)"

definition irq_unmask :: "nat \<Rightarrow> ('h, 'z) intr_scheme \<Rightarrow> ('h, 'z) intr_scheme" where
  "irq_unmask irq s =
     (let is_slave = irq \<ge> 8;
          (port, irq) = (if \<not> is_slave then (PIC1_DATA, irq) else (PIC2_DATA, irq - 8));
          s = outb port (inb port s AND NOT (push_bit irq 1)) s
      in if is_slave then outb PIC1_DATA (inb PIC1_DATA s AND NOT (push_bit IRQ_CASCADE 1)) s else s)"

definition irq_register :: "nat \<Rightarrow> 'h \<Rightarrow> ('h, 'z) intr_scheme \<Rightarrow> ('h, 'z) intr_scheme" where
  "irq_register irq handler s =
     (if irq < 16 then irq_unmask irq (s\<lparr>irq_handlers := (irq_handlers s)[irq := Some handler]\<rparr>) else s)"

definition irq_unregister :: "nat \<Rightarrow> ('h, 'z) intr_scheme \<Rightarrow> ('h, 'z) intr_scheme" where
  "irq_unregister irq s =
     (if irq < 16 then irq_mask irq (s\<lparr>irq_handlers := (irq_handlers s)[irq := None]\<rparr>) else s)"

definition exception_register :: "nat \<Rightarrow> 'h \<Rightarrow> ('h, 'z) intr_scheme \<Rightarrow> ('h, 'z) intr_scheme" where
  "exception_register vec handler s =
     (if vec < 32 then s\<lparr>exc_handlers := (exc_handlers s)[vec := Some handler]\<rparr> else s)"

definition pic_send_eoi :: "nat \<Rightarrow> ('h, 'z) intr_scheme \<Rightarrow> ('h, 'z) intr_scheme" where
  "pic_send_eoi irq s = outb PIC1_CMD PIC_EOI (if irq \<ge> 8 then outb PIC2_CMD PIC_EOI s else s)"

definition apic_eoi :: "('h, 'z) intr_scheme \<Rightarrow> ('h, 'z) intr_scheme" where
  "apic_eoi s = (if apic_mapped s then s\<lparr>io_log := Apic_eoi # io_log s\<rparr> else s)"

definition isr_dispatch :: "('h \<Rightarrow> cpu_regs \<Rightarrow> ('h, 'z) intr_scheme \<Rightarrow> cpu_regs \<times> ('h, 'z) intr_scheme) \<Rightarrow>
    cpu_regs \<Rightarrow> ('h, 'z) intr_scheme \<Rightarrow> (cpu_regs \<times> ('h, 'z) intr_scheme) option" where
  "isr_dispatch run regs s =
     (let n = unat (r_int_no regs) in
      if n < 32 then
        (case exc_handlers s ! n of
           Some h \<Rightarrow> Some (run h regs s)
         | None \<Rightarrow> None)
      else if n < 48 then
        (let irq = n - IRQ_BASE;
             (regs, s) = (case irq_handlers s ! irq of Some h \<Rightarrow> run h regs s | None \<Rightarrow> (regs, s))
         in Some (regs, pic_send_eoi irq (apic_eoi s)))
      else Some (regs, s))"

section \<open>Descriptors\<close>

lemma u16_of_low: "(ucast (ucast (x AND 0xFFFF :: u32) :: u16) :: u32) = take_bit 16 x"
proof -
  have m: "(0xFFFF :: u32) = mask 16" by (simp add: mask_eq_exp_minus_1)
  show ?thesis unfolding m by (rule bit_word_eqI) (auto simp: bit_simps)
qed

lemma u8_of_byte: "(ucast (ucast (x AND 0xFF :: u32) :: u8) :: u32) = take_bit 8 x"
proof -
  have m: "(0xFF :: u32) = mask 8" by (simp add: mask_eq_exp_minus_1)
  show ?thesis unfolding m by (rule bit_word_eqI) (auto simp: bit_simps)
qed

lemma word_split_16: "take_bit 16 (x :: u32) OR push_bit 16 (take_bit 16 (drop_bit 16 x)) = x"
  by (rule bit_word_eqI) (auto simp: bit_simps)

lemma word_split_16_8: "take_bit 16 (x :: u32) OR push_bit 16 (take_bit 8 (drop_bit 16 x)) OR push_bit 24 (take_bit 8 (drop_bit 24 x)) = x"
proof (rule bit_word_eqI)
  fix n assume "n < LENGTH(32)"
  then show "bit (take_bit 16 x OR push_bit 16 (take_bit 8 (drop_bit 16 x)) OR push_bit 24 (take_bit 8 (drop_bit 24 x))) n = bit x n"
    by (cases "n < 24"; cases "n < 16") (auto simp: bit_simps)
qed

lemma nibble_join:
  fixes f g :: u8
  shows "drop_bit 4 (push_bit 4 f) AND 0x0F = f AND 0x0F" "(push_bit 4 f AND 0xF0 OR (g AND 0x0F)) AND 0x0F = g AND 0x0F"
proof -
  have m: "(0x0F :: u8) = mask 4" "(0xF0 :: u8) = push_bit 4 (mask 4)" by (simp_all add: mask_eq_exp_minus_1 push_bit_eq_mult)
  show "drop_bit 4 (push_bit 4 f) AND 0x0F = f AND 0x0F" unfolding m by (rule bit_word_eqI) (auto simp: bit_simps)
  show "(push_bit 4 f AND 0xF0 OR (g AND 0x0F)) AND 0x0F = g AND 0x0F"
    unfolding m by (rule bit_word_eqI) (auto simp: bit_simps)
qed

lemma nibble_ucast: "(ucast (x AND 0x0F :: u32) :: u8) = ucast x AND 0x0F"
proof -
  have m: "(0x0F :: u8) = mask 4" "(0x0F :: u32) = mask 4" by (simp_all add: mask_eq_exp_minus_1)
  show ?thesis unfolding m by (rule bit_word_eqI) (auto simp: bit_simps)
qed

lemma limit_join: "take_bit 16 (x :: u32) OR push_bit 16 (ucast (ucast (drop_bit 16 x) AND (0x0F :: u8))) = x AND 0xFFFFF"
proof -
  have m: "(0x0F :: u8) = mask 4" "(0xFFFFF :: u32) = mask 20" by (simp_all add: mask_eq_exp_minus_1)
  show ?thesis unfolding m by (rule bit_word_eqI) (auto simp: bit_simps)
qed

lemma gdt_set_entry_decodes:
  assumes "idx < length (gdt_entries s)" "e = gdt_entries (gdt_set_entry idx base limit access flags s) ! idx"
  shows "gdt_base e = base" "gdt_limit e = limit AND 0xFFFFF" "gdt_flags e = flags AND 0x0F" "gd_access e = access"
  using assms by (simp_all add: gdt_set_entry_def gdt_base_def gdt_limit_def gdt_flags_def u16_of_low u8_of_byte
      word_split_16_8 nibble_ucast nibble_join limit_join)

lemma tss_entry_decodes:
  assumes "5 < length (gdt_entries s)" "e = gdt_entries (tss_init a s) ! 5"
  shows "gdt_base e = a" "gdt_limit e = 103" "gdt_flags e = 0" "gd_access e = 0x89"
  using assms by (simp_all add: tss_init_def gdt_base_def gdt_limit_def gdt_flags_def u16_of_low u8_of_byte word_split_16_8)

lemma length_gdt_set_entry [simp]: "length (gdt_entries (gdt_set_entry i b l a f s)) = length (gdt_entries s)"
  by (simp add: gdt_set_entry_def)

lemma gdt_set_entry_other: "j \<noteq> i \<Longrightarrow> gdt_entries (gdt_set_entry i b l a f s) ! j = gdt_entries s ! j"
  by (simp add: gdt_set_entry_def)

lemma tss_init_other: "j \<noteq> 5 \<Longrightarrow> gdt_entries (tss_init a s) ! j = gdt_entries s ! j"
  by (simp add: tss_init_def)

text \<open>
  C0: After \<open>gdt_init\<close> the processor reads from the table what the kernel means: the four code and data segments of
  the selectors cover the whole address space with 32-bit operands, the user selectors at privilege level 3 and the
  kernel selectors at 0, and the task segment is the kernel's, of 104 bytes.
\<close>

theorem gdt_init_segments:
  fixes a :: u32 and s :: gdt
  assumes "length (gdt_entries s) = 6"
  defines "g \<equiv> gdt_entries (gdt_init a s)"
  shows "map (\<lambda>e. (gdt_base e, gdt_limit e, gdt_flags e, gdt_dpl e))
      [g ! (unat GDT_KERNEL_CODE div 8), g ! (unat GDT_KERNEL_DATA div 8), g ! (unat GDT_USER_CODE div 8), g ! (unat GDT_USER_DATA div 8)] =
    [(0, 0xFFFFF, 0xC, 0), (0, 0xFFFFF, 0xC, 0), (0, 0xFFFFF, 0xC, 3), (0, 0xFFFFF, 0xC, 3)]"
    "gdt_base (g ! 5) = a" "gdt_limit (g ! 5) = 103"
proof -
  note [simp] = gdt_set_entry_decodes [OF _ refl] tss_entry_decodes [OF _ refl] gdt_set_entry_other tss_init_other
  show "map (\<lambda>e. (gdt_base e, gdt_limit e, gdt_flags e, gdt_dpl e))
      [g ! (unat GDT_KERNEL_CODE div 8), g ! (unat GDT_KERNEL_DATA div 8), g ! (unat GDT_USER_CODE div 8), g ! (unat GDT_USER_DATA div 8)] =
    [(0, 0xFFFFF, 0xC, 0), (0, 0xFFFFF, 0xC, 0), (0, 0xFFFFF, 0xC, 3), (0, 0xFFFFF, 0xC, 3)]"
    using assms(1) by (simp add: g_def gdt_init_def Let_def GDT_KERNEL_CODE_def GDT_KERNEL_DATA_def GDT_USER_CODE_def
        GDT_USER_DATA_def gdt_dpl_def GDT_ACCESS_PRESENT_def GDT_ACCESS_RING0_def GDT_ACCESS_RING3_def GDT_ACCESS_CODE_DATA_def
        GDT_ACCESS_EXEC_def GDT_ACCESS_RW_def GDT_FLAG_GRANULARITY_def GDT_FLAG_SIZE_def)
  show "gdt_base (g ! 5) = a" "gdt_limit (g ! 5) = 103"
    using assms(1) by (simp_all add: g_def gdt_init_def Let_def)
qed

section \<open>Gates\<close>

definition gate_handler :: "idt_entry \<Rightarrow> u32" where
  "gate_handler e = ucast (ie_offset_low e) OR push_bit 16 (ucast (ie_offset_high e))"

definition gate_present :: "idt_entry \<Rightarrow> bool" where
  "gate_present e \<longleftrightarrow> ie_type_attr e AND IDT_FLAG_PRESENT \<noteq> 0"

definition kernel_gate :: "u32 \<Rightarrow> idt_entry" where
  "kernel_gate a = \<lparr>ie_offset_low = ucast (a AND 0xFFFF), ie_selector = GDT_KERNEL_CODE, ie_zero = 0, ie_type_attr = 0x8E,
     ie_offset_high = ucast (drop_bit 16 a AND 0xFFFF)\<rparr>"

lemma gate_handler_kernel_gate [simp]: "gate_handler (kernel_gate a) = a"
  by (simp add: gate_handler_def kernel_gate_def u16_of_low word_split_16)

lemma gate_present_kernel_gate [simp]: "gate_present (kernel_gate a)" "\<not> gate_present idt_zero"
  by (simp_all add: gate_present_def kernel_gate_def idt_zero_def IDT_FLAG_PRESENT_def)

lemma fold_gates:
  "idt_entries (fold (\<lambda>n. idt_set_gate n (isr n) GDT_KERNEL_CODE 0x8E) ns s) =
     fold (\<lambda>n es. es[n := kernel_gate (isr n)]) ns (idt_entries s)"
  "irq_handlers (fold (\<lambda>n. idt_set_gate n (isr n) sel ty) ns s) = irq_handlers s"
  "exc_handlers (fold (\<lambda>n. idt_set_gate n (isr n) sel ty) ns s) = exc_handlers s"
  "io_log (fold (\<lambda>n. idt_set_gate n (isr n) sel ty) ns s) = io_log s"
  by (induction ns arbitrary: s) (simp_all add: idt_set_gate_def kernel_gate_def)

lemma fold_list_update_nth:
  "distinct ns \<Longrightarrow> v < length es \<Longrightarrow> fold (\<lambda>n es. es[n := f n]) ns es ! v = (if v \<in> set ns then f v else es ! v)"
  by (induction ns arbitrary: es) (auto simp: nth_list_update)

lemma outb_tables [simp]:
  "idt_entries (outb p v s) = idt_entries s" "irq_handlers (outb p v s) = irq_handlers s" "exc_handlers (outb p v s) = exc_handlers s"
  "port_init (outb p v s) = port_init s" "apic_mapped (outb p v s) = apic_mapped s" "io_log (outb p v s) = Outb p v # io_log s"
  by (simp_all add: outb_def)

lemma inb_outb: "inb p (outb q v s) = (if p = q then v else inb p s)"
  by (simp add: inb_def split: option.split)

lemma pic_remap_tables [simp]:
  "idt_entries (pic_remap a b s) = idt_entries s" "irq_handlers (pic_remap a b s) = irq_handlers s"
  "exc_handlers (pic_remap a b s) = exc_handlers s"
  by (simp_all add: pic_remap_def Let_def)

lemma idt_init_tables:
  "irq_handlers (idt_init isr s) = replicate 16 None" "exc_handlers (idt_init isr s) = replicate 32 None"
  by (simp_all add: idt_init_def Let_def fold_gates del: upt_rec_numeral)

lemma idt_init_gate:
  assumes "v < 256"
  shows "idt_entries (idt_init isr s) ! v = (if v < 48 then kernel_gate (isr v) else idt_zero)"
proof -
  have kg: "IDT_FLAG_PRESENT OR IDT_FLAG_RING0 OR IDT_GATE_INTERRUPT = 0x8E"
    by (simp add: IDT_FLAG_PRESENT_def IDT_FLAG_RING0_def IDT_GATE_INTERRUPT_def)
  have [simp]: "length (fold (\<lambda>n es. es[n := f n]) ns es) = length es" for f ns and es :: "idt_entry list"
    by (induction ns arbitrary: es) simp_all
  show ?thesis
    using assms by (simp add: idt_init_def Let_def fold_gates fold_list_update_nth IDT_ENTRIES_def kg del: upt_rec_numeral)
qed

text \<open>
  C0: The interrupt table \<open>idt_init\<close> loads: a vector has a present gate exactly if it is a processor exception or one of the
  sixteen remapped hardware lines (below 48); the gate leads to the vector's stub, in the kernel code segment, and
  every hardware line is masked.
\<close>

theorem idt_init_gates:
  assumes "v < 256"
  shows "gate_present (idt_entries (idt_init isr s) ! v) \<longleftrightarrow> v < 48"
    "v < 48 \<Longrightarrow> gate_handler (idt_entries (idt_init isr s) ! v) = isr v"
    "inb PIC1_DATA (idt_init isr s) = 0xFF" "inb PIC2_DATA (idt_init isr s) = 0xFF"
proof -
  have "io_log (idt_init isr s) = Outb PIC2_DATA 0xFF # Outb PIC1_DATA 0xFF # io_log (pic_remap (of_nat IRQ_BASE) (of_nat IRQ_BASE + 8)
      (s\<lparr>idt_entries := replicate IDT_ENTRIES idt_zero, irq_handlers := replicate 16 None, exc_handlers := replicate 32 None\<rparr>))"
    by (simp add: idt_init_def Let_def fold_gates del: upt_rec_numeral)
  then show "inb PIC1_DATA (idt_init isr s) = 0xFF" "inb PIC2_DATA (idt_init isr s) = 0xFF"
    by (simp_all add: inb_def PIC1_DATA_def PIC2_DATA_def)
qed (use assms in \<open>simp_all add: idt_init_gate\<close>)

section \<open>Hardware lines\<close>

definition pic_data :: "nat \<Rightarrow> u16" where "pic_data irq = (if irq < 8 then PIC1_DATA else PIC2_DATA)"

text \<open>A line reaches the processor if its bit is clear and, for a line of the second controller, the cascade is open.\<close>

definition line_open :: "nat \<Rightarrow> ('h, 'z) intr_scheme \<Rightarrow> bool" where
  "line_open irq s \<longleftrightarrow> \<not> bit (inb (pic_data irq) s) (irq mod 8) \<and> (irq < 8 \<or> \<not> bit (inb PIC1_DATA s) IRQ_CASCADE)"

lemma PIC_ports [simp]: "PIC1_DATA \<noteq> PIC2_DATA" "PIC2_DATA \<noteq> PIC1_DATA"
  by (simp_all add: PIC1_DATA_def PIC2_DATA_def)

lemma clear_bit_u8: "bit (m AND NOT (2 ^ i) :: u8) k \<longleftrightarrow> bit m k \<and> k \<noteq> i"
proof (cases "k < 8")
  case True
  then show ?thesis by (auto simp: bit_simps)
next
  case False
  then show ?thesis using bit_u8_bound by blast
qed

lemma set_bit_u8: "i < 8 \<Longrightarrow> bit (m OR 2 ^ i :: u8) k \<longleftrightarrow> bit m k \<or> k = i"
  by (auto simp: bit_simps)

lemma irq_unmask_inb:
  assumes "irq < 16"
  shows "bit (inb PIC1_DATA (irq_unmask irq s)) k \<longleftrightarrow> bit (inb PIC1_DATA s) k \<and> k \<noteq> (if irq < 8 then irq else IRQ_CASCADE)"
    "bit (inb PIC2_DATA (irq_unmask irq s)) k \<longleftrightarrow> bit (inb PIC2_DATA s) k \<and> (irq < 8 \<or> k \<noteq> irq - 8)"
  by (auto simp: irq_unmask_def inb_outb clear_bit_u8 Let_def)

lemma irq_mask_inb:
  assumes "irq < 16"
  shows "bit (inb PIC1_DATA (irq_mask irq s)) k \<longleftrightarrow> bit (inb PIC1_DATA s) k \<or> k = irq \<and> irq < 8"
    "bit (inb PIC2_DATA (irq_mask irq s)) k \<longleftrightarrow> bit (inb PIC2_DATA s) k \<or> k + 8 = irq"
  using assms by (auto simp: irq_mask_def inb_outb set_bit_u8)

lemma inb_update [simp]: "inb p (s\<lparr>irq_handlers := h\<rparr>) = inb p s" "inb p (s\<lparr>exc_handlers := h\<rparr>) = inb p s"
  by (simp_all add: inb_def split: option.split)

lemma irq_mask_tables [simp]:
  "irq_handlers (irq_unmask irq s) = irq_handlers s" "irq_handlers (irq_mask irq s) = irq_handlers s"
  by (simp_all add: irq_unmask_def irq_mask_def Let_def)

lemma bit_index_cases: "(i :: nat) < 16 \<Longrightarrow> i mod 8 = (if i < 8 then i else i - 8)"
  by (auto simp: le_mod_geq)

text \<open>
  C0: Registering a handler for a hardware line stores it and opens the line, the cascade of the second controller
  included, and closes no other line; unregistering it closes the line and leaves every other line as it was, unless it is the
  cascade line itself.
\<close>

theorem irq_register_opens_line:
  assumes "irq < 16" "length (irq_handlers s) = 16"
  shows "line_open irq (irq_register irq h s)" "irq_handlers (irq_register irq h s) ! irq = Some h"
    "\<And>j. j < 16 \<Longrightarrow> line_open j s \<Longrightarrow> line_open j (irq_register irq h s)"
    "\<not> line_open irq (irq_unregister irq s)" "irq_handlers (irq_unregister irq s) ! irq = None"
    "\<And>j. j < 16 \<Longrightarrow> j \<noteq> irq \<Longrightarrow> irq \<noteq> IRQ_CASCADE \<Longrightarrow> line_open j (irq_unregister irq s) = line_open j s"
  using assms by (auto simp: irq_register_def irq_unregister_def line_open_def pic_data_def irq_unmask_inb irq_mask_inb
      IRQ_CASCADE_def bit_index_cases split: if_splits)

section \<open>Dispatch\<close>

text \<open>
  C0: A hardware interrupt is acknowledged after its handler has returned, at the local APIC when it is mapped, then at the second
  controller for the lines from 8 on, then at the first; an exception without a handler stops the kernel.
\<close>

theorem isr_dispatch_acknowledges:
  assumes "unat (r_int_no regs) = IRQ_BASE + irq" "irq < 16" "irq_handlers s ! irq = Some h" "run h regs s = (regs', s')"
  shows "isr_dispatch run regs s = Some (regs', s'\<lparr>io_log := Outb PIC1_CMD PIC_EOI # (if 8 \<le> irq then [Outb PIC2_CMD PIC_EOI] else []) @
    (if apic_mapped s' then [Apic_eoi] else []) @ io_log s'\<rparr>)"
  using assms by (simp add: isr_dispatch_def IRQ_BASE_def pic_send_eoi_def apic_eoi_def outb_def Let_def)

lemma isr_dispatch_exception:
  "unat (r_int_no regs) < 32 \<Longrightarrow>
     isr_dispatch run regs s = (case exc_handlers s ! unat (r_int_no regs) of Some h \<Rightarrow> Some (run h regs s) | None \<Rightarrow> None)"
  by (simp add: isr_dispatch_def)

lemma isr_dispatch_other: "48 \<le> unat (r_int_no regs) \<Longrightarrow> isr_dispatch run regs s = Some (regs, s)"
  by (simp add: isr_dispatch_def)

end
