(* ===== verification/Kprobes.thy ===== *)
theory Kprobes
  imports Interrupts KMem
begin

text \<open>
  Kernel probes (\<open>debug/kprobes.c\<close>): breakpoints patched into kernel code, with the original instruction stepped over.
  Handlers are functions of the address and the registers, as C callbacks taking a pointer to them. Shown: at every moment
  the kernel code under the probes is the original one, one breakpoint runs both handlers around the original instruction and leaves
  the probe armed, and a probe removed while its instruction is stepped over leaves the trap flag set.
\<close>

type_synonym probe_fn = "u32 \<Rightarrow> cpu_regs \<Rightarrow> cpu_regs"

definition KPROBE_MAX :: nat where "KPROBE_MAX = 32"

record kprobe =
  kp_addr :: u32
  kp_saved :: u8
  kp_pre :: "probe_fn option"
  kp_post :: "probe_fn option"
  kp_active :: bool
  kp_stepping :: bool

record kprobes =
  kp_probes :: "kprobe list"
  kp_mem :: mem

definition kprobe_zero :: kprobe where
  "kprobe_zero = \<lparr>kp_addr = 0, kp_saved = 0, kp_pre = None, kp_post = None, kp_active = False, kp_stepping = False\<rparr>"

definition TF :: u32 where "TF = push_bit 8 1"

definition call_probe :: "probe_fn option \<Rightarrow> u32 \<Rightarrow> cpu_regs \<Rightarrow> cpu_regs" where
  "call_probe f a regs = (case f of Some h \<Rightarrow> h a regs | None \<Rightarrow> regs)"

definition find_probe :: "u32 \<Rightarrow> kprobes \<Rightarrow> nat option" where
  "find_probe a s = find_idx (\<lambda>k. kp_active k \<and> kp_addr k = a) (kp_probes s)"

definition kprobe_int3_handler :: "cpu_regs \<Rightarrow> kprobes \<Rightarrow> cpu_regs \<times> kprobes" where
  "kprobe_int3_handler regs s =
     (case find_probe (r_eip regs - 1) s of
        None \<Rightarrow> (regs, s)
      | Some i \<Rightarrow>
          let kp = kp_probes s ! i; regs = call_probe (kp_pre kp) (kp_addr kp) regs
          in (regs\<lparr>r_eflags := r_eflags regs OR TF, r_eip := kp_addr kp\<rparr>,
              s\<lparr>kp_mem := (kp_mem s)(kp_addr kp := kp_saved kp), kp_probes := (kp_probes s)[i := kp\<lparr>kp_stepping := True\<rparr>]\<rparr>))"

definition kprobe_debug_handler :: "cpu_regs \<Rightarrow> kprobes \<Rightarrow> cpu_regs \<times> kprobes" where
  "kprobe_debug_handler regs s =
     (case find_idx (\<lambda>k. kp_active k \<and> kp_stepping k) (kp_probes s) of
        None \<Rightarrow> (regs, s)
      | Some i \<Rightarrow>
          let kp = kp_probes s ! i; regs = regs\<lparr>r_eflags := r_eflags regs AND NOT TF\<rparr>
          in (call_probe (kp_post kp) (kp_addr kp) regs,
              s\<lparr>kp_mem := (kp_mem s)(kp_addr kp := 0xCC), kp_probes := (kp_probes s)[i := kp\<lparr>kp_stepping := False\<rparr>]\<rparr>))"

text \<open>The exception handlers of the debugging modules, by name.\<close>

datatype debug_handler = Kprobe_debug | Kprobe_int3 | Gdb_debug | Gdb_int3

definition kprobes_init :: "kprobes \<times> (debug_handler, 'z) intr_scheme \<Rightarrow> kprobes \<times> (debug_handler, 'z) intr_scheme" where
  "kprobes_init si = (case si of (s, it) \<Rightarrow>
     (s\<lparr>kp_probes := replicate KPROBE_MAX kprobe_zero\<rparr>,
      exception_register 3 Kprobe_int3 (exception_register 1 Kprobe_debug it)))"

definition kprobe_register :: "u32 \<Rightarrow> probe_fn option \<Rightarrow> probe_fn option \<Rightarrow> kprobes \<Rightarrow> int \<times> kprobes" where
  "kprobe_register a pre post s =
     (if find_probe a s \<noteq> None then (- 1, s)
      else case find_idx (\<lambda>k. \<not> kp_active k) (kp_probes s) of
        None \<Rightarrow> (- 1, s)
      | Some i \<Rightarrow> (0, s\<lparr>kp_probes := (kp_probes s)[i :=
            \<lparr>kp_addr = a, kp_saved = kp_mem s a, kp_pre = pre, kp_post = post, kp_active = True, kp_stepping = False\<rparr>],
          kp_mem := (kp_mem s)(a := 0xCC)\<rparr>))"

definition kprobe_unregister :: "u32 \<Rightarrow> kprobes \<Rightarrow> kprobes" where
  "kprobe_unregister a s =
     (case find_probe a s of
        None \<Rightarrow> s
      | Some i \<Rightarrow> let kp = kp_probes s ! i
          in s\<lparr>kp_mem := (kp_mem s)(kp_addr kp := kp_saved kp), kp_probes := (kp_probes s)[i := kp\<lparr>kp_active := False\<rparr>]\<rparr>)"

section \<open>The code under the probes\<close>

text \<open>
  The invariant: active probes have different addresses, and in memory there is a breakpoint at the address of
  each probe that is not being stepped over, and the original byte at that of one that is. The original code is the memory with
  each active probe's saved byte in place.
\<close>

definition kp_ok :: "kprobes \<Rightarrow> bool" where
  "kp_ok s \<longleftrightarrow>
     (\<forall>i < length (kp_probes s). \<forall>j < length (kp_probes s). kp_active (kp_probes s ! i) \<longrightarrow> kp_active (kp_probes s ! j) \<longrightarrow>
        kp_addr (kp_probes s ! i) = kp_addr (kp_probes s ! j) \<longrightarrow> i = j) \<and>
     (\<forall>k \<in> set (kp_probes s). kp_active k \<longrightarrow> kp_mem s (kp_addr k) = (if kp_stepping k then kp_saved k else 0xCC))"

definition kernel_code :: "kprobes \<Rightarrow> mem" where
  "kernel_code s a = (case find_probe a s of Some i \<Rightarrow> kp_saved (kp_probes s ! i) | None \<Rightarrow> kp_mem s a)"

lemma find_probe_iff:
  assumes "kp_ok s"
  shows "find_probe a s = Some i \<longleftrightarrow> i < length (kp_probes s) \<and> kp_active (kp_probes s ! i) \<and> kp_addr (kp_probes s ! i) = a"
proof
  assume *: "i < length (kp_probes s) \<and> kp_active (kp_probes s ! i) \<and> kp_addr (kp_probes s ! i) = a"
  then show "find_probe a s = Some i"
    unfolding find_probe_def by (intro find_idx_unique) (use assms in \<open>auto simp: kp_ok_def\<close>)
qed (auto simp: find_probe_def find_idx_Some)

lemma kp_ok_mem:
  "kp_ok s \<Longrightarrow> k \<in> set (kp_probes s) \<Longrightarrow> kp_active k \<Longrightarrow> kp_mem s (kp_addr k) = (if kp_stepping k then kp_saved k else 0xCC)"
  by (simp add: kp_ok_def)

lemma find_probe_none: "find_probe a s = None \<longleftrightarrow> (\<forall>k \<in> set (kp_probes s). kp_active k \<longrightarrow> kp_addr k \<noteq> a)"
  by (auto simp: find_probe_def find_idx_None)

lemma kernel_code_probe:
  "kp_ok s \<Longrightarrow> i < length (kp_probes s) \<Longrightarrow> kp_active (kp_probes s ! i) \<Longrightarrow> kernel_code s (kp_addr (kp_probes s ! i)) = kp_saved (kp_probes s ! i)"
  using find_probe_iff [of s "kp_addr (kp_probes s ! i)" i] by (simp add: kernel_code_def)

lemma kernel_code_eqI:
  assumes "kp_ok s" "kp_ok s'"
    "\<And>i. i < length (kp_probes s') \<Longrightarrow> kp_active (kp_probes s' ! i) \<Longrightarrow>
       kernel_code s (kp_addr (kp_probes s' ! i)) = kp_saved (kp_probes s' ! i)"
    "\<And>a. find_probe a s' = None \<Longrightarrow> kernel_code s a = kp_mem s' a"
  shows "kernel_code s' = kernel_code s"
proof
  fix a
  show "kernel_code s' a = kernel_code s a"
  proof (cases "find_probe a s'")
    case None
    then show ?thesis using assms(4) [OF None] by (simp add: kernel_code_def)
  next
    case (Some i)
    then have "i < length (kp_probes s')" "kp_active (kp_probes s' ! i)" "kp_addr (kp_probes s' ! i) = a"
      using find_probe_iff [OF assms(2)] by auto
    moreover have "kernel_code s' a = kp_saved (kp_probes s' ! i)" using Some by (simp add: kernel_code_def)
    ultimately show ?thesis using assms(3) by auto
  qed
qed

text \<open>The state after index \<open>i\<close> changes to \<open>k\<close> and its address to the byte \<open>b\<close>.\<close>

definition set_probe :: "nat \<Rightarrow> kprobe \<Rightarrow> u8 \<Rightarrow> kprobes \<Rightarrow> kprobes" where
  "set_probe i k b s = s\<lparr>kp_probes := (kp_probes s)[i := k], kp_mem := (kp_mem s)(kp_addr k := b)\<rparr>"

lemma kprobes_update_commute: "s\<lparr>kp_mem := m, kp_probes := p\<rparr> = s\<lparr>kp_probes := p, kp_mem := m\<rparr>"
  by simp

lemma set_probe_keeps:
  assumes ok: "kp_ok s" and i: "i < length (kp_probes s)"
    and sv: "kp_saved k = kernel_code s (kp_addr k)"
    and b: "b = (if kp_active k \<and> \<not> kp_stepping k then 0xCC else kp_saved k)"
    and new: "\<And>j. j < length (kp_probes s) \<Longrightarrow> kp_active (kp_probes s ! j) \<Longrightarrow> kp_addr (kp_probes s ! j) = kp_addr k \<Longrightarrow> j = i"
    and old: "kp_active (kp_probes s ! i) \<Longrightarrow> kp_addr (kp_probes s ! i) = kp_addr k"
  shows "kp_ok (set_probe i k b s)" "kernel_code (set_probe i k b s) = kernel_code s"
proof -
  have mem: "kp_active k' \<Longrightarrow> kp_mem s (kp_addr k') = (if kp_stepping k' then kp_saved k' else 0xCC)" if "k' \<in> set (kp_probes s)" for k'
    using ok that by (auto simp: kp_ok_def)
  have uniq: "j = l" if "j < length (kp_probes s)" "l < length (kp_probes s)" "kp_active (kp_probes s ! j)" "kp_active (kp_probes s ! l)"
    "kp_addr (kp_probes s ! j) = kp_addr (kp_probes s ! l)" for j l
    using ok that by (auto simp: kp_ok_def)
  show ok': "kp_ok (set_probe i k b s)"
    unfolding kp_ok_def set_probe_def
  proof (intro conjI allI impI ballI)
    fix j l
    assume "j < length (kp_probes (s\<lparr>kp_probes := (kp_probes s)[i := k], kp_mem := (kp_mem s)(kp_addr k := b)\<rparr>))"
      "l < length (kp_probes (s\<lparr>kp_probes := (kp_probes s)[i := k], kp_mem := (kp_mem s)(kp_addr k := b)\<rparr>))"
      "kp_active (kp_probes (s\<lparr>kp_probes := (kp_probes s)[i := k], kp_mem := (kp_mem s)(kp_addr k := b)\<rparr>) ! j)"
      "kp_active (kp_probes (s\<lparr>kp_probes := (kp_probes s)[i := k], kp_mem := (kp_mem s)(kp_addr k := b)\<rparr>) ! l)"
      "kp_addr (kp_probes (s\<lparr>kp_probes := (kp_probes s)[i := k], kp_mem := (kp_mem s)(kp_addr k := b)\<rparr>) ! j) =
       kp_addr (kp_probes (s\<lparr>kp_probes := (kp_probes s)[i := k], kp_mem := (kp_mem s)(kp_addr k := b)\<rparr>) ! l)"
    then show "j = l"
      using new [of j] new [of l] uniq [of j l] i by (auto simp: nth_list_update split: if_splits)
  next
    fix q assume "q \<in> set (kp_probes (s\<lparr>kp_probes := (kp_probes s)[i := k], kp_mem := (kp_mem s)(kp_addr k := b)\<rparr>))" "kp_active q"
    then obtain j where j: "j < length (kp_probes s)" "q = (kp_probes s)[i := k] ! j"
      by (auto simp: in_set_conv_nth)
    then show "kp_mem (s\<lparr>kp_probes := (kp_probes s)[i := k], kp_mem := (kp_mem s)(kp_addr k := b)\<rparr>) (kp_addr q) =
        (if kp_stepping q then kp_saved q else 0xCC)"
      using new [of j] mem [of q] b i \<open>kp_active q\<close> by (auto simp: nth_list_update split: if_splits)
  qed
  show "kernel_code (set_probe i k b s) = kernel_code s"
  proof (rule kernel_code_eqI [OF ok ok'])
    fix j assume "j < length (kp_probes (set_probe i k b s))" "kp_active (kp_probes (set_probe i k b s) ! j)"
    then show "kernel_code s (kp_addr (kp_probes (set_probe i k b s) ! j)) = kp_saved (kp_probes (set_probe i k b s) ! j)"
      using sv kernel_code_probe [OF ok, of j] i by (auto simp: set_probe_def nth_list_update split: if_splits)
  next
    fix a assume none: "find_probe a (set_probe i k b s) = None"
    show "kernel_code s a = kp_mem (set_probe i k b s) a"
    proof (cases "a = kp_addr k")
      case True
      have "\<not> kp_active k" using none i True by (auto simp: find_probe_none set_probe_def set_update_memI)
      then show ?thesis using sv b True by (simp add: set_probe_def)
    next
      case False
      then have "find_probe a s = None"
      proof -
        have "kp_addr (kp_probes s ! j) \<noteq> a" if "j < length (kp_probes s)" "kp_active (kp_probes s ! j)" for j
        proof (cases "j = i")
          case True
          then show ?thesis using False old that by auto
        next
          case False
          then have "kp_probes s ! j \<in> set ((kp_probes s)[i := k])"
            using that by (metis length_list_update nth_list_update_neq nth_mem)
          then show ?thesis using none that by (auto simp: find_probe_none set_probe_def)
        qed
        then show ?thesis by (metis find_probe_none in_set_conv_nth)
      qed
      then show ?thesis using False by (simp add: kernel_code_def set_probe_def)
    qed
  qed
qed

lemma kprobe_step_keeps:
  assumes "kp_ok s"
  shows "kp_ok (snd (kprobe_register a pre post s))" "kernel_code (snd (kprobe_register a pre post s)) = kernel_code s"
    "kp_ok (kprobe_unregister a s)" "kernel_code (kprobe_unregister a s) = kernel_code s"
    "kp_ok (snd (kprobe_int3_handler regs s))" "kernel_code (snd (kprobe_int3_handler regs s)) = kernel_code s"
    "kp_ok (snd (kprobe_debug_handler regs s))" "kernel_code (snd (kprobe_debug_handler regs s)) = kernel_code s"
proof -
  have reg: "kp_ok (snd (kprobe_register a pre post s)) \<and> kernel_code (snd (kprobe_register a pre post s)) = kernel_code s"
  proof (cases "find_probe a s = None \<and> find_idx (\<lambda>k. \<not> kp_active k) (kp_probes s) \<noteq> None")
    case True
    then obtain i where i: "find_idx (\<lambda>k. \<not> kp_active k) (kp_probes s) = Some i" by auto
    let ?k = "\<lparr>kp_addr = a, kp_saved = kp_mem s a, kp_pre = pre, kp_post = post, kp_active = True, kp_stepping = False\<rparr>"
    have mem: "kernel_code s a = kp_mem s a" using True by (simp add: kernel_code_def)
    have "kp_addr (kp_probes s ! j) \<noteq> a" if "j < length (kp_probes s)" "kp_active (kp_probes s ! j)" for j
      using True that by (auto simp: find_probe_none)
    then have "kp_ok (set_probe i ?k 0xCC s)" "kernel_code (set_probe i ?k 0xCC s) = kernel_code s"
      by (intro set_probe_keeps [OF assms]; use find_idx_SomeD [OF i] mem in auto)+
    then show ?thesis using True i by (simp add: kprobe_register_def set_probe_def)
  qed (use assms in \<open>auto simp: kprobe_register_def split: option.split\<close>)
  have unreg: "kp_ok (kprobe_unregister a s) \<and> kernel_code (kprobe_unregister a s) = kernel_code s"
  proof (cases "find_probe a s")
    case (Some i)
    note i = Some [unfolded find_probe_iff [OF assms]]
    let ?k = "(kp_probes s ! i)\<lparr>kp_active := False\<rparr>"
    have "kp_ok (set_probe i ?k (kp_saved ?k) s)" "kernel_code (set_probe i ?k (kp_saved ?k) s) = kernel_code s"
      by (rule set_probe_keeps [OF assms]; use i assms kernel_code_probe [OF assms, of i] in \<open>auto simp: kp_ok_def\<close>)+
    then show ?thesis using Some by (simp add: kprobe_unregister_def set_probe_def Let_def kprobes_update_commute)
  qed (use assms in \<open>simp add: kprobe_unregister_def\<close>)
  have hit: "kp_ok (snd (kprobe_int3_handler regs s)) \<and> kernel_code (snd (kprobe_int3_handler regs s)) = kernel_code s"
  proof (cases "find_probe (r_eip regs - 1) s")
    case (Some i)
    note i = Some [unfolded find_probe_iff [OF assms]]
    let ?k = "(kp_probes s ! i)\<lparr>kp_stepping := True\<rparr>"
    have "kp_ok (set_probe i ?k (kp_saved ?k) s)" "kernel_code (set_probe i ?k (kp_saved ?k) s) = kernel_code s"
      by (rule set_probe_keeps [OF assms]; use i assms kernel_code_probe [OF assms, of i] in \<open>auto simp: kp_ok_def\<close>)+
    then show ?thesis using Some by (simp add: kprobe_int3_handler_def set_probe_def Let_def kprobes_update_commute)
  qed (use assms in \<open>simp add: kprobe_int3_handler_def\<close>)
  have step: "kp_ok (snd (kprobe_debug_handler regs s)) \<and> kernel_code (snd (kprobe_debug_handler regs s)) = kernel_code s"
  proof (cases "find_idx (\<lambda>k. kp_active k \<and> kp_stepping k) (kp_probes s)")
    case (Some i)
    note i = find_idx_SomeD [OF Some]
    let ?k = "(kp_probes s ! i)\<lparr>kp_stepping := False\<rparr>"
    have "kp_ok (set_probe i ?k 0xCC s)" "kernel_code (set_probe i ?k 0xCC s) = kernel_code s"
      by (rule set_probe_keeps [OF assms]; use i assms kernel_code_probe [OF assms, of i] in \<open>auto simp: kp_ok_def\<close>)+
    then show ?thesis using Some by (simp add: kprobe_debug_handler_def set_probe_def Let_def kprobes_update_commute)
  qed (use assms in \<open>simp add: kprobe_debug_handler_def\<close>)
  show "kp_ok (snd (kprobe_register a pre post s))" "kernel_code (snd (kprobe_register a pre post s)) = kernel_code s"
    "kp_ok (kprobe_unregister a s)" "kernel_code (kprobe_unregister a s) = kernel_code s"
    "kp_ok (snd (kprobe_int3_handler regs s))" "kernel_code (snd (kprobe_int3_handler regs s)) = kernel_code s"
    "kp_ok (snd (kprobe_debug_handler regs s))" "kernel_code (snd (kprobe_debug_handler regs s)) = kernel_code s"
    using reg unreg hit step by auto
qed

text \<open>What can happen to the probes: the calls of the kernel and the two exceptions, each with the registers it finds.\<close>

datatype kp_event = Kp_register u32 "probe_fn option" "probe_fn option" | Kp_unregister u32 | Kp_breakpoint cpu_regs | Kp_trap cpu_regs

fun kp_step :: "kp_event \<Rightarrow> kprobes \<Rightarrow> kprobes" where
  "kp_step (Kp_register a pre post) s = snd (kprobe_register a pre post s)"
| "kp_step (Kp_unregister a) s = kprobe_unregister a s"
| "kp_step (Kp_breakpoint regs) s = snd (kprobe_int3_handler regs s)"
| "kp_step (Kp_trap regs) s = snd (kprobe_debug_handler regs s)"

lemma kp_steps_keep: "kp_ok s \<Longrightarrow> kp_ok (fold kp_step es s) \<and> kernel_code (fold kp_step es s) = kernel_code s"
proof (induction es arbitrary: s)
  case (Cons e es)
  have "kp_ok (kp_step e s) \<and> kernel_code (kp_step e s) = kernel_code s"
    using kprobe_step_keeps [OF Cons.prems] by (cases e) simp_all
  then show ?case using Cons.IH by simp
qed simp

lemma kprobes_init_ok: "kp_ok (fst (kprobes_init (s, it)))" "kernel_code (fst (kprobes_init (s, it))) = kp_mem s"
proof -
  have "find_probe a (fst (kprobes_init (s, it))) = None" for a
    by (auto simp: kprobes_init_def find_probe_none kprobe_zero_def)
  then show "kernel_code (fst (kprobes_init (s, it))) = kp_mem s" by (auto simp: kernel_code_def kprobes_init_def)
qed (auto simp: kprobes_init_def kp_ok_def kprobe_zero_def)

lemma kprobe_register_spec:
  "kprobe_register a pre post s =
     (if (\<exists>k \<in> set (kp_probes s). kp_active k \<and> kp_addr k = a) \<or> list_all kp_active (kp_probes s) then (- 1, s)
      else (0, snd (kprobe_register a pre post s)))"
proof -
  have "find_probe a s \<noteq> None \<longleftrightarrow> (\<exists>k \<in> set (kp_probes s). kp_active k \<and> kp_addr k = a)" by (auto simp: find_probe_none)
  moreover have "find_idx (\<lambda>k. \<not> kp_active k) (kp_probes s) = None \<longleftrightarrow> list_all kp_active (kp_probes s)"
    by (simp add: find_idx_None list_all_iff)
  ultimately show ?thesis by (auto simp: kprobe_register_def split: option.split)
qed

lemma kprobe_register_arms:
  assumes "fst (kprobe_register a pre post s) = 0"
  shows "kp_mem (snd (kprobe_register a pre post s)) = (kp_mem s)(a := 0xCC)"
    "\<exists>k \<in> set (kp_probes (snd (kprobe_register a pre post s))). kp_active k \<and> kp_addr k = a \<and> kp_pre k = pre \<and> kp_post k = post"
proof -
  obtain i where "find_idx (\<lambda>k. \<not> kp_active k) (kp_probes s) = Some i" "find_probe a s = None"
    using assms by (auto simp: kprobe_register_def split: if_splits option.splits)
  moreover from this have "i < length (kp_probes s)" by (auto dest: find_idx_SomeD)
  ultimately show "kp_mem (snd (kprobe_register a pre post s)) = (kp_mem s)(a := 0xCC)"
    "\<exists>k \<in> set (kp_probes (snd (kprobe_register a pre post s))). kp_active k \<and> kp_addr k = a \<and> kp_pre k = pre \<and> kp_post k = post"
    by (simp_all add: kprobe_register_def bexI [OF _ set_update_memI])
qed

text \<open>
  C8: Whatever sequence of registrations, removals, hits and single steps follows the initialisation, in any
  order, there is a breakpoint (\<open>0xCC\<close>) at the address of every active probe that is not just being stepped over, and the
  original byte at that of one that is; each active probe has saved the byte that was there in the beginning; and everywhere else
  memory is what it was, so all of it once every probe has been removed. In any such state a registration
  is refused exactly when there is a probe at the address or the table is full, and otherwise plants the breakpoint and
  enters the probe with its handlers.
\<close>

theorem kprobes_preserve_code:
  "let s = fold kp_step es (fst (kprobes_init (s0, it))) in
     (\<forall>k \<in> set (kp_probes s). kp_active k \<longrightarrow>
        kp_saved k = kp_mem s0 (kp_addr k) \<and> kp_mem s (kp_addr k) = (if kp_stepping k then kp_mem s0 (kp_addr k) else 0xCC)) \<and>
     (\<forall>a. (\<forall>k \<in> set (kp_probes s). kp_active k \<longrightarrow> kp_addr k \<noteq> a) \<longrightarrow> kp_mem s a = kp_mem s0 a) \<and>
     (\<forall>a pre post. let (r, s') = kprobe_register a pre post s in
        if (\<exists>k \<in> set (kp_probes s). kp_active k \<and> kp_addr k = a) \<or> list_all kp_active (kp_probes s) then r = - 1 \<and> s' = s
        else r = 0 \<and> kp_mem s' = (kp_mem s)(a := 0xCC) \<and>
          (\<exists>k \<in> set (kp_probes s'). kp_active k \<and> kp_addr k = a \<and> kp_pre k = pre \<and> kp_post k = post))"
proof -
  define s where "s = fold kp_step es (fst (kprobes_init (s0, it)))"
  have ok: "kp_ok s" and k: "kernel_code s = kp_mem s0"
    using kp_steps_keep [OF kprobes_init_ok(1) [of s0 it]] kprobes_init_ok(2) [of s0 it] by (simp_all add: s_def)
  have saved: "kp_saved k = kp_mem s0 (kp_addr k)" if "k \<in> set (kp_probes s)" "kp_active k" for k
    using that kernel_code_probe [OF ok] by (metis in_set_conv_nth k)
  have armed: "kp_mem s (kp_addr k) = (if kp_stepping k then kp_mem s0 (kp_addr k) else 0xCC)"
    if "k \<in> set (kp_probes s)" "kp_active k" for k
    using kp_ok_mem [OF ok that] saved [OF that] by simp
  have else_same: "kp_mem s a = kp_mem s0 a" if "\<forall>k \<in> set (kp_probes s). kp_active k \<longrightarrow> kp_addr k \<noteq> a" for a
    using that find_probe_none [of a s] fun_cong [OF k, of a] by (simp add: kernel_code_def)
  have reg: "let (r, s') = kprobe_register a pre post s in
      if (\<exists>k \<in> set (kp_probes s). kp_active k \<and> kp_addr k = a) \<or> list_all kp_active (kp_probes s) then r = - 1 \<and> s' = s
      else r = 0 \<and> kp_mem s' = (kp_mem s)(a := 0xCC) \<and>
        (\<exists>k \<in> set (kp_probes s'). kp_active k \<and> kp_addr k = a \<and> kp_pre k = pre \<and> kp_post k = post)" for a pre post
    using kprobe_register_spec [of a pre post s] kprobe_register_arms [of a pre post s]
    by (cases "kprobe_register a pre post s") (auto split: if_splits)
  show ?thesis unfolding s_def [symmetric] Let_def using saved armed else_same reg by (auto simp: Let_def)
qed

definition kp_demo :: "kprobes \<times> (debug_handler, unit) intr_scheme" where
  "kp_demo = (\<lparr>kp_probes = [], kp_mem = (\<lambda>a. ucast a)\<rparr>,
     \<lparr>idt_entries = [], irq_handlers = [], exc_handlers = [], io_log = [], port_init = (\<lambda>_. 0), apic_mapped = False\<rparr>)"

theorem kprobes_preserve_code_witness:
  "let s = fold kp_step [Kp_register 16 None None] (fst (kprobes_init kp_demo)) in kp_mem s 16 = 0xCC \<and> kp_mem s 17 = 17"
proof -
  define s where "s = fold kp_step [Kp_register 16 None None] (fst (kprobes_init kp_demo))"
  have "replicate 32 kprobe_zero = kprobe_zero # replicate 31 kprobe_zero" by (simp add: numeral_eq_Suc)
  then have p: "kp_probes s = \<lparr>kp_addr = 16, kp_saved = 16, kp_pre = None, kp_post = None, kp_active = True, kp_stepping = False\<rparr> #
      replicate 31 kprobe_zero"
    by (simp add: s_def kprobes_init_def kp_demo_def kprobe_register_def find_probe_def KPROBE_MAX_def kprobe_zero_def find_idx_None)
  show ?thesis
    using kprobes_preserve_code [of "[Kp_register 16 None None]" "fst kp_demo" "snd kp_demo"] p
    unfolding prod.collapse s_def [symmetric]
    by (simp add: Let_def kp_demo_def kprobe_zero_def)
qed

text \<open>
  C0: One hit of a probe, with no other being stepped over: the processor resumes at the probed address, on the original instruction, with the trap
  flag set, after the first handler; the trap that follows clears the flag, runs the second handler and leaves the probes and the
  memory exactly as before the hit.
\<close>

theorem kprobe_hit_cycle:
  assumes ok: "kp_ok s" and i: "find_probe (r_eip regs - 1) s = Some i"
    and idle: "find_idx (\<lambda>k. kp_active k \<and> kp_stepping k) (kp_probes s) = None"
    and hit: "kprobe_int3_handler regs s = (regs1, s1)"
  shows "r_eip regs1 = r_eip regs - 1" "bit (r_eflags regs1) 8"
    "kp_mem s1 (r_eip regs - 1) = kernel_code s (r_eip regs - 1)"
    "kprobe_debug_handler regs2 s1 =
       (call_probe (kp_post (kp_probes s ! i)) (r_eip regs - 1) (regs2\<lparr>r_eflags := r_eflags regs2 AND NOT TF\<rparr>), s)"
proof -
  let ?kp = "kp_probes s ! i"
  note ip = i [unfolded find_probe_iff [OF ok]]
  have ns: "\<not> kp_stepping k" if "k \<in> set (kp_probes s)" "kp_active k" for k
    using idle that by (auto simp: find_idx_None)
  have armed: "kp_mem s (kp_addr ?kp) = 0xCC" using kp_ok_mem [OF ok, of ?kp] ns [of ?kp] ip by simp
  have s1: "s1 = s\<lparr>kp_mem := (kp_mem s)(kp_addr ?kp := kp_saved ?kp), kp_probes := (kp_probes s)[i := ?kp\<lparr>kp_stepping := True\<rparr>]\<rparr>"
    "regs1 = (call_probe (kp_pre ?kp) (kp_addr ?kp) regs)\<lparr>r_eflags := r_eflags (call_probe (kp_pre ?kp) (kp_addr ?kp) regs) OR TF, r_eip := kp_addr ?kp\<rparr>"
    using hit i by (simp_all add: kprobe_int3_handler_def Let_def)
  show "r_eip regs1 = r_eip regs - 1" using s1 ip by simp
  show "bit (r_eflags regs1) 8" by (simp add: s1 TF_def bit_simps)
  show "kp_mem s1 (r_eip regs - 1) = kernel_code s (r_eip regs - 1)"
    using s1 ip kernel_code_probe [OF ok, of i] by simp
  have f: "find_idx (\<lambda>k. kp_active k \<and> kp_stepping k) (kp_probes s1) = Some i"
    using ip ns [OF nth_mem] by (intro find_idx_unique) (auto simp: s1 nth_list_update split: if_splits)
  have "\<not> kp_stepping ?kp" using ns ip by simp
  then have "?kp\<lparr>kp_stepping := False\<rparr> = ?kp" by simp
  then show "kprobe_debug_handler regs2 s1 =
       (call_probe (kp_post ?kp) (r_eip regs - 1) (regs2\<lparr>r_eflags := r_eflags regs2 AND NOT TF\<rparr>), s)"
    using f ip armed by (simp add: kprobe_debug_handler_def s1 Let_def fun_upd_idem)
qed

text \<open>A probe removed (for instance by its own first handler) while it is stepped over: the trap handler finds nothing and the trap flag stays set.\<close>

theorem kprobe_removed_while_stepping:
  assumes "kp_ok s" "find_idx (\<lambda>k. kp_active k \<and> kp_stepping k) (kp_probes s) = Some i"
    and "\<forall>j < length (kp_probes s). kp_active (kp_probes s ! j) \<and> kp_stepping (kp_probes s ! j) \<longrightarrow> j = i"
  shows "kprobe_debug_handler regs (kprobe_unregister (kp_addr (kp_probes s ! i)) s) = (regs, kprobe_unregister (kp_addr (kp_probes s ! i)) s)"
proof -
  note i = find_idx_SomeD [OF assms(2)]
  have f: "find_probe (kp_addr (kp_probes s ! i)) s = Some i" using i find_probe_iff [OF assms(1)] by simp
  then have "find_idx (\<lambda>k. kp_active k \<and> kp_stepping k) (kp_probes (kprobe_unregister (kp_addr (kp_probes s ! i)) s)) = None"
    unfolding find_idx_None
  proof (intro ballI)
    fix k assume "k \<in> set (kp_probes (kprobe_unregister (kp_addr (kp_probes s ! i)) s))"
    then obtain j where "j < length (kp_probes s)" "k = (kp_probes s)[i := (kp_probes s ! i)\<lparr>kp_active := False\<rparr>] ! j"
      using f by (auto simp: kprobe_unregister_def Let_def in_set_conv_nth)
    moreover have "\<not> (kp_active (kp_probes s ! j) \<and> kp_stepping (kp_probes s ! j))" if "j \<noteq> i"
      using assms(3) that \<open>j < length (kp_probes s)\<close> by blast
    ultimately show "\<not> (kp_active k \<and> kp_stepping k)" using i(1) by (cases "j = i") simp_all
  qed
  then show ?thesis by (simp add: kprobe_debug_handler_def)
qed

end
