(* ===== verification/Gdbstub.thy ===== *)
theory Gdbstub
  imports Kprobes KFormat
begin

text \<open>
  The debugger stub (\<open>debug/gdbstub.c\<close>): the remote serial protocol over COM1. The bytes that arrive on the line are a
  list, and a function that waits for a byte that never arrives has no result (\<open>None\<close>); the bytes sent are returned. Shown: a framed packet is received as
  it was sent, a damaged one is refused, the replies describe registers and memory, a whole session is answered
  request by request, and the stub replaces the handlers of the kernel probes.
\<close>

definition GDB_BUF_SIZE :: nat where "GDB_BUF_SIZE = 512"

definition nibble_zu_hex :: "u8 \<Rightarrow> u8" where
  "nibble_zu_hex n = (if n < 10 then 48 + n else 97 + n - 10)"

text \<open>\<open>char\<close> is signed: bytes from 128 on are below \<open>'0'\<close>.\<close>

definition hex_zu_nibble :: "u8 \<Rightarrow> int" where
  "hex_zu_nibble c =
     (if 48 \<le> sint c \<and> sint c \<le> 57 then sint c - 48
      else if 97 \<le> sint c \<and> sint c \<le> 102 then sint c - 97 + 10
      else if 65 \<le> sint c \<and> sint c \<le> 70 then sint c - 65 + 10
      else - 1)"

definition u32_le_hex :: "u32 \<Rightarrow> u8 list" where
  "u32_le_hex val = concat (map (\<lambda>i. let b = ucast (drop_bit (i * 8) val) :: u8
     in [nibble_zu_hex (drop_bit 4 b), nibble_zu_hex (b AND 0xF)]) [0..<4])"

definition checksum :: "u8 list \<Rightarrow> u8" where
  "checksum bs = foldl (+) 0 bs"

definition gdb_frame :: "cstr \<Rightarrow> u8 list" where
  "gdb_frame daten =
     (let d = cstring daten; ks = checksum d
      in [36] @ d @ [35, nibble_zu_hex (drop_bit 4 ks), nibble_zu_hex (ks AND 0xF)])"

text \<open>The frame is sent again after every answer that is not an acknowledgement.\<close>

fun gdb_send_packet :: "cstr \<Rightarrow> u8 list \<Rightarrow> (u8 list \<times> u8 list) option" where
  "gdb_send_packet daten [] = None"
| "gdb_send_packet daten (c # i) =
     (if c = 43 then Some (gdb_frame daten, i)
      else map_option (\<lambda>(out, i). (gdb_frame daten @ out, i)) (gdb_send_packet daten i))"

fun gdb_start :: "u8 list \<Rightarrow> u8 list option" where
  "gdb_start [] = None"
| "gdb_start (c # i) = (if c = 36 then Some i else gdb_start i)"

fun gdb_data :: "nat \<Rightarrow> nat \<Rightarrow> u8 list \<Rightarrow> (u8 list \<times> u8 list) option" where
  "gdb_data maxlen len [] = None"
| "gdb_data maxlen len (c # i) =
     (if c \<noteq> 35 \<and> len + 1 < maxlen then map_option (\<lambda>(bs, i). (c # bs, i)) (gdb_data maxlen (len + 1) i)
      else Some ([], i))"

text \<open>The length or -1, the buffer, the acknowledgement sent, the bytes left.\<close>

definition gdb_recv_packet :: "nat \<Rightarrow> u8 list \<Rightarrow> (int \<times> u8 list \<times> u8 \<times> u8 list) option" where
  "gdb_recv_packet maxlen i =
     (case gdb_start i of
        None \<Rightarrow> None
      | Some i \<Rightarrow> (case gdb_data maxlen 0 i of
          Some (bs, h1 # h2 # i) \<Rightarrow>
            let erw = (push_bit 4 (of_int (hex_zu_nibble h1)) OR of_int (hex_zu_nibble h2) :: u32)
            in if ucast erw \<noteq> checksum bs then Some (- 1, bs @ [0], 45, i) else Some (int (length bs), bs @ [0], 43, i)
        | _ \<Rightarrow> None))"

record gdb =
  gdb_aktiv :: bool
  gdb_verbunden :: bool
  halt_regs :: "cpu_regs option"
  halt_signal :: u32

definition halt_text :: "u32 \<Rightarrow> cstr" where
  "halt_text sig = (case vsnprintf (replicate GDB_BUF_SIZE 0) GDB_BUF_SIZE (asc ''S%02x'') [AInt sig] of
     Some (b, _) \<Rightarrow> cstring b | None \<Rightarrow> [])"

definition regs_hex :: "cpu_regs \<Rightarrow> u8 list" where
  "regs_hex r = u32_le_hex (r_eax r) @ u32_le_hex (r_ecx r) @ u32_le_hex (r_edx r) @ u32_le_hex (r_ebx r) @ u32_le_hex (r_esp r) @
     u32_le_hex (r_ebp r) @ u32_le_hex (r_esi r) @ u32_le_hex (r_edi r) @ u32_le_hex (r_eip r) @ u32_le_hex (r_eflags r)"

definition mem_hex :: "mem \<Rightarrow> u32 \<Rightarrow> u32 \<Rightarrow> u8 list" where
  "mem_hex m a len = concat (map (\<lambda>i. let b = m (a + of_nat i)
     in [nibble_zu_hex (drop_bit 4 b), nibble_zu_hex (b AND 0xF)]) [0..<unat len])"

text \<open>The \<open>switch\<close> on the packet in \<open>paket\<close> (a C string).\<close>

definition gdb_answer :: "mem \<Rightarrow> u8 list \<Rightarrow> gdb \<Rightarrow> cstr \<times> gdb" where
  "gdb_answer m paket s =
     (let c = chr paket; arg = tl paket in
      if c = 63 then (halt_text (halt_signal s), s)
      else if c = 103 then
        ((case halt_regs s of Some r \<Rightarrow> regs_hex r | None \<Rightarrow> asc ''00000000''), s)
      else if c = 109 then
        (case strchr arg 44 of
           None \<Rightarrow> (asc ''E01'', s)
         | Some k \<Rightarrow>
             let addr = fst (strtoul arg 16); len = fst (strtoul (drop (Suc k) arg) 16)
             in (mem_hex m addr (if len > 128 then 128 else len), s))
      else if c = 99 then (asc ''OK'', s\<lparr>gdb_aktiv := False\<rparr>)
      else if c = 115 then
        (asc ''OK'', s\<lparr>halt_regs := map_option (\<lambda>r. r\<lparr>r_eflags := r_eflags r OR TF\<rparr>) (halt_regs s), gdb_aktiv := False\<rparr>)
      else if c = 113 then
        (if strncmp arg (asc ''Supported'') 9 = 0 then (asc ''PacketSize=200'', s)
         else if strncmp arg (asc ''Attached'') 8 = 0 then (asc ''1'', s)
         else ([], s))
      else ([], s))"

lemma gdb_start_shorter: "gdb_start i = Some j \<Longrightarrow> length j < length i"
  by (induction i) (fastforce split: if_splits)+

lemma gdb_data_shorter: "gdb_data m n i = Some (bs, j) \<Longrightarrow> length j < length i"
  by (induction m n i arbitrary: bs j rule: gdb_data.induct) (fastforce split: if_splits)+

lemma gdb_recv_shorter: "gdb_recv_packet m i = Some (n, b, a, j) \<Longrightarrow> length j < length i"
  using gdb_start_shorter gdb_data_shorter
  by (fastforce simp: gdb_recv_packet_def Let_def split: option.splits list.splits if_splits)

lemma gdb_send_shorter: "gdb_send_packet d i = Some (out, j) \<Longrightarrow> length j < length i"
  by (induction i arbitrary: out j) (fastforce split: if_splits)+

text \<open>The request loop: the final state, everything sent, and what is left on the line.\<close>

function gdb_requests :: "mem \<Rightarrow> gdb \<Rightarrow> u8 list \<Rightarrow> (gdb \<times> u8 list \<times> u8 list) option" where
  "gdb_requests m s i =
     (if \<not> gdb_aktiv s then Some (s, [], i)
      else case gdb_recv_packet GDB_BUF_SIZE i of
        None \<Rightarrow> None
      | Some (n, paket, ack, i1) \<Rightarrow>
          if n < 0 then map_option (\<lambda>(s, out, i). (s, ack # out, i)) (gdb_requests m s i1)
          else
            let (antwort, s) = gdb_answer m paket (s\<lparr>gdb_verbunden := True\<rparr>) in
            case gdb_send_packet antwort i1 of
              None \<Rightarrow> None
            | Some (out1, i2) \<Rightarrow> map_option (\<lambda>(s, out, i). (s, ack # out1 @ out, i)) (gdb_requests m s i2))"
  by pat_completeness auto
termination
  by (relation "measure (\<lambda>(m, s, i). length i)") (auto dest!: gdb_recv_shorter gdb_send_shorter)

declare gdb_requests.simps [simp del]

definition gdb_schleife :: "mem \<Rightarrow> gdb \<Rightarrow> u8 list \<Rightarrow> (gdb \<times> u8 list \<times> u8 list) option" where
  "gdb_schleife m s i =
     (case gdb_send_packet (halt_text (halt_signal s)) i of
        None \<Rightarrow> None
      | Some (out, i) \<Rightarrow> map_option (\<lambda>(s, out', i). (s, out @ out', i)) (gdb_requests m (s\<lparr>gdb_aktiv := True\<rparr>) i))"

definition gdb_int3_handler :: "mem \<Rightarrow> cpu_regs \<Rightarrow> gdb \<Rightarrow> u8 list \<Rightarrow> (gdb \<times> u8 list \<times> u8 list) option" where
  "gdb_int3_handler m regs s i = gdb_schleife m (s\<lparr>halt_regs := Some regs, halt_signal := 5\<rparr>) i"

definition gdb_debug_handler :: "mem \<Rightarrow> cpu_regs \<Rightarrow> gdb \<Rightarrow> u8 list \<Rightarrow> (gdb \<times> u8 list \<times> u8 list) option" where
  "gdb_debug_handler m regs s i =
     gdb_schleife m (s\<lparr>halt_regs := Some (regs\<lparr>r_eflags := r_eflags regs AND NOT TF\<rparr>), halt_signal := 5\<rparr>) i"

definition gdbstub_init :: "(debug_handler, 'z) intr_scheme \<Rightarrow> (debug_handler, 'z) intr_scheme" where
  "gdbstub_init it = exception_register 3 Gdb_int3 (exception_register 1 Gdb_debug it)"

section \<open>Framing\<close>

lemma hex_nibble_all:
  "list_all (\<lambda>n :: u8. hex_zu_nibble (nibble_zu_hex n) = uint n \<and> nibble_zu_hex n \<noteq> 35 \<and> nibble_zu_hex n \<noteq> 36) (map word_of_nat [0..<16])"
  by code_simp

lemma hex_nibble:
  assumes "n < 16"
  shows "hex_zu_nibble (nibble_zu_hex n) = uint n" "nibble_zu_hex n \<noteq> 35 \<and> nibble_zu_hex n \<noteq> 36"
proof -
  have "n \<in> set (map word_of_nat [0..<16])"
    using assms by (auto simp: word_less_nat_alt intro!: image_eqI [of _ _ "unat n"])
  then have "hex_zu_nibble (nibble_zu_hex n) = uint n \<and> nibble_zu_hex n \<noteq> 35 \<and> nibble_zu_hex n \<noteq> 36"
    using hex_nibble_all unfolding list_all_iff by blast
  then show "hex_zu_nibble (nibble_zu_hex n) = uint n" "nibble_zu_hex n \<noteq> 35 \<and> nibble_zu_hex n \<noteq> 36" by auto
qed

lemma nibbles_small: "drop_bit 4 (b :: u8) < 16" "(b AND 0xF :: u8) < 16"
proof -
  have "unat b < 16 * 16" using unsigned_less [of b, where 'a = nat] by simp
  then have "unat b div 16 < 16" by (simp add: less_mult_imp_div_less)
  then show "drop_bit 4 b < 16" by (simp add: word_less_nat_alt unat_drop_bit_div)
  have m: "(0xF :: u8) = mask 4" by (simp add: mask_eq_exp_minus_1)
  show "b AND 0xF < 16" using and_mask_less' [of 4 b] unfolding m by simp
qed

lemma nibbles_join: "ucast (push_bit 4 (ucast (drop_bit 4 (b :: u8))) OR ucast (b AND 0xF) :: u32) = b"
proof -
  have m: "(0xF :: u8) = mask 4" by (simp add: mask_eq_exp_minus_1)
  show ?thesis unfolding m by (rule bit_word_eqI) (auto simp: bit_simps)
qed

lemma gdb_data_reads:
  "35 \<notin> set d \<Longrightarrow> n + length d < m \<Longrightarrow> gdb_data m n (d @ 35 # i) = Some (d, i)"
  by (induction d arbitrary: n) auto

lemma gdb_start_skips: "36 \<notin> set noise \<Longrightarrow> gdb_start (noise @ 36 # i) = Some i"
  by (induction noise) auto

lemma gdb_recv_packet_spec:
  assumes "36 \<notin> set noise" "35 \<notin> set d" "length d < 511"
  shows "gdb_recv_packet GDB_BUF_SIZE (noise @ 36 # d @ 35 # h1 # h2 # i) =
    (if ucast (push_bit 4 (of_int (hex_zu_nibble h1)) OR of_int (hex_zu_nibble h2) :: u32) = checksum d
     then Some (int (length d), d @ [0], 43, i) else Some (- 1, d @ [0], 45, i))"
  using assms gdb_data_reads [of d 0 512 "h1 # h2 # i"] by (simp add: gdb_recv_packet_def GDB_BUF_SIZE_def gdb_start_skips Let_def)

lemma gdb_recv_frame:
  assumes "36 \<notin> set noise" "0 \<notin> set d" "35 \<notin> set d" "length d < 511"
  shows "gdb_recv_packet GDB_BUF_SIZE (noise @ gdb_frame d @ i) = Some (int (length d), d @ [0], 43, i)"
  using gdb_recv_packet_spec [OF assms(1,3,4)] assms(2)
  by (simp add: gdb_frame_def Let_def hex_nibble nibbles_small nibbles_join)

text \<open>
  C0: A packet framed for the line is received as it was sent, whatever precedes its start, and acknowledged; the same bytes with a checksum field that
  does not spell their sum are refused.
\<close>

theorem gdb_packet_roundtrip:
  assumes "36 \<notin> set noise" "0 \<notin> set d" "35 \<notin> set d" "length d < 511"
  shows "gdb_recv_packet GDB_BUF_SIZE (noise @ gdb_frame d @ i) = Some (int (length d), d @ [0], 43, i)"
    "ucast (push_bit 4 (of_int (hex_zu_nibble h1)) OR of_int (hex_zu_nibble h2) :: u32) \<noteq> checksum d \<Longrightarrow>
     gdb_recv_packet GDB_BUF_SIZE (noise @ 36 # d @ 35 # h1 # h2 # i) = Some (- 1, d @ [0], 45, i)"
  using gdb_recv_frame [OF assms] gdb_recv_packet_spec [OF assms(1,3,4)] by simp_all

theorem gdb_packet_roundtrip_witness:
  "gdb_recv_packet GDB_BUF_SIZE ([43, 13] @ gdb_frame [109, 49, 44, 52] @ [43]) = Some (4, [109, 49, 44, 52, 0], 43, [43]) \<and>
   gdb_recv_packet GDB_BUF_SIZE ([43] @ 36 # [109, 49] @ 35 # 48 # 48 # [43]) = Some (- 1, [109, 49, 0], 45, [43])"
  using gdb_packet_roundtrip(1) [of "[43, 13]" "[109, 49, 44, 52]" "[43]"] gdb_packet_roundtrip(2) [of "[43]" "[109, 49]" 48 48 "[43]"]
  by (simp add: hex_zu_nibble_def checksum_def)

section \<open>Requests\<close>

text \<open>What a debugger reads from a reply: two hexadecimal digits per byte.\<close>

fun hex_bytes :: "u8 list \<Rightarrow> u8 list" where
  "hex_bytes (a # b # r) = ucast (push_bit 4 (of_int (hex_zu_nibble a)) OR of_int (hex_zu_nibble b) :: u32) # hex_bytes r"
| "hex_bytes _ = []"

lemma hex_bytes_pair: "hex_bytes (nibble_zu_hex (drop_bit 4 b) # nibble_zu_hex (b AND 0xF) # r) = b # hex_bytes r"
  by (simp add: hex_nibble nibbles_small nibbles_join)

lemma hex_bytes_concat:
  "hex_bytes (concat (map (\<lambda>i. let b = f i in [nibble_zu_hex (drop_bit 4 b), nibble_zu_hex (b AND 0xF)]) is) @ r) = map f is @ hex_bytes r"
  by (induction "is") (simp_all add: Let_def hex_bytes_pair del: hex_bytes.simps(1))

lemma hex_bytes_u32: "hex_bytes (u32_le_hex v @ r) = [ucast v, ucast (drop_bit 8 v), ucast (drop_bit 16 v), ucast (drop_bit 24 v)] @ hex_bytes r"
proof -
  have "[0..<4] = [0, 1, 2, 3 :: nat]" by code_simp
  then show ?thesis unfolding u32_le_hex_def hex_bytes_concat [of "\<lambda>i. ucast (drop_bit (i * 8) v)"] by simp
qed

lemma mem_hex_decodes: "hex_bytes (mem_hex m a len) = map (\<lambda>i. m (a + of_nat i)) [0..<unat len]"
  using hex_bytes_concat [of "\<lambda>i. m (a + of_nat i)" "[0..<unat len]" "[]"] by (simp add: mem_hex_def)

lemma gdb_answer_keeps: "chr q \<noteq> 99 \<Longrightarrow> chr q \<noteq> 115 \<Longrightarrow> snd (gdb_answer m q s) = s"
  by (auto simp: gdb_answer_def Let_def split: option.splits)

text \<open>The requests a session may contain before the one that resumes.\<close>

definition request_ok :: "cstr \<Rightarrow> bool" where
  "request_ok q \<longleftrightarrow> 0 \<notin> set q \<and> 35 \<notin> set q \<and> length q < 511 \<and> chr q \<noteq> 99 \<and> chr q \<noteq> 115"

lemma gdb_requests_one:
  assumes "0 \<notin> set q" "35 \<notin> set q" "length q < 511" "gdb_aktiv s" "gdb_answer m (q @ [0]) (s\<lparr>gdb_verbunden := True\<rparr>) = (a, s')"
  shows "gdb_requests m s (gdb_frame q @ 43 # i) = map_option (\<lambda>(s, out, i). (s, 43 # gdb_frame a @ out, i)) (gdb_requests m s' i)"
  using assms gdb_recv_frame [of "[]" q "43 # i"] by (simp add: gdb_requests.simps [of m s])

lemma gdb_requests_serve:
  assumes "\<forall>q \<in> set qs. request_ok q" "gdb_aktiv s"
  shows "gdb_requests m s (concat (map (\<lambda>q. gdb_frame q @ [43]) qs) @ gdb_frame [99] @ 43 # rest) =
    Some (s\<lparr>gdb_verbunden := True, gdb_aktiv := False\<rparr>,
      concat (map (\<lambda>q. 43 # gdb_frame (fst (gdb_answer m (q @ [0]) (s\<lparr>gdb_verbunden := True\<rparr>)))) qs) @ 43 # gdb_frame (asc ''OK''), rest)"
  using assms
proof (induction qs arbitrary: s)
  case Nil
  then show ?case
    using gdb_requests_one [of "[99]" s m "asc ''OK''" "s\<lparr>gdb_verbunden := True, gdb_aktiv := False\<rparr>" rest]
    by (simp add: gdb_answer_def gdb_requests.simps [of m "s\<lparr>gdb_verbunden := True, gdb_aktiv := False\<rparr>"])
next
  case (Cons q qs)
  let ?s = "s\<lparr>gdb_verbunden := True\<rparr>"
  have q: "request_ok q" using Cons.prems by simp
  have "chr (q @ [0]) = chr q" by (cases q) simp_all
  then have a: "gdb_answer m (q @ [0]) ?s = (fst (gdb_answer m (q @ [0]) ?s), ?s)"
    using gdb_answer_keeps [of "q @ [0]" m ?s] q by (auto simp: request_ok_def intro!: prod_eqI)
  show ?case
    using gdb_requests_one [OF _ _ _ _ a, of "concat (map (\<lambda>q. gdb_frame q @ [43]) qs) @ gdb_frame [99] @ 43 # rest"] q Cons.prems Cons.IH [of ?s]
    by (simp add: request_ok_def)
qed

text \<open>
  C9: A whole session after a breakpoint: the stub reports the stop, answers every request of the debugger in order with the framed reply
  (acknowledging each), and resumes at the first continue request, registers unchanged; nothing else is sent.
\<close>

theorem gdb_session:
  assumes "\<forall>q \<in> set qs. request_ok q" "s0 = s\<lparr>halt_regs := Some regs, halt_signal := 5, gdb_aktiv := True, gdb_verbunden := True\<rparr>"
  shows "gdb_int3_handler m regs s (43 # concat (map (\<lambda>q. gdb_frame q @ [43]) qs) @ gdb_frame (asc ''c'') @ 43 # rest) =
    Some (s0\<lparr>gdb_aktiv := False\<rparr>,
      gdb_frame (asc ''S05'') @ concat (map (\<lambda>q. 43 # gdb_frame (fst (gdb_answer m (q @ [0]) s0))) qs) @ 43 # gdb_frame (asc ''OK''), rest)"
proof -
  have halt: "halt_text 5 = asc ''S05''" by code_simp
  have c: "asc ''c'' = [99]" by code_simp
  show ?thesis
    using gdb_requests_serve [OF assms(1), of "s\<lparr>halt_regs := Some regs, halt_signal := 5, gdb_aktiv := True\<rparr>" m rest] assms(2)
    by (simp add: gdb_int3_handler_def gdb_schleife_def halt c)
qed

theorem gdb_session_witness:
  "gdb_int3_handler (\<lambda>a. ucast a) regs_zero \<lparr>gdb_aktiv = False, gdb_verbunden = False, halt_regs = None, halt_signal = 0\<rparr>
      (43 # gdb_frame (asc ''m10,2'') @ 43 # gdb_frame (asc ''c'') @ [43]) =
    Some (\<lparr>gdb_aktiv = False, gdb_verbunden = True, halt_regs = Some regs_zero, halt_signal = 5\<rparr>,
      gdb_frame (asc ''S05'') @ 43 # gdb_frame (asc ''1011'') @ 43 # gdb_frame (asc ''OK''), [])"
proof -
  have "request_ok (asc ''m10,2'')" by code_simp
  moreover have "fst (gdb_answer (\<lambda>a. ucast a) (asc ''m10,2'' @ [0]) s) = asc ''1011''" for s
    by code_simp
  ultimately show ?thesis
    using gdb_session [of "[asc ''m10,2'']" _ regs_zero "\<lparr>gdb_aktiv = False, gdb_verbunden = False, halt_regs = None, halt_signal = 0\<rparr>"
        "\<lambda>a. ucast a" "[]"] by simp
qed

section \<open>The exception handlers\<close>

text \<open>
  C0: The kernel installs the handlers of its probes and then those of the debugger stub: afterwards a breakpoint and a trap both enter the stub, the
  handlers of the probes are no longer reachable, and every other processor exception, page faults included, has no
  handler and stops the kernel.
\<close>

theorem boot_exception_handlers:
  assumes "unat (r_int_no regs) < 32" "it = gdbstub_init (snd (kprobes_init (kp, idt_init isr it0)))"
  shows "exc_handlers it ! 1 = Some Gdb_debug" "exc_handlers it ! 3 = Some Gdb_int3"
    "unat (r_int_no regs) \<noteq> 1 \<Longrightarrow> unat (r_int_no regs) \<noteq> 3 \<Longrightarrow> isr_dispatch run regs it = None"
  using assms by (simp_all add: gdbstub_init_def kprobes_init_def exception_register_def idt_init_tables isr_dispatch_exception)

end
