(* ===== verification/Profiler.thy ===== *)
theory Profiler
  imports Prelude "HOL-Library.Multiset"
begin

text \<open>
  The sampling profiler (\<open>debug/profiler.c\<close>). The report's text is formatting; modelled are the lines it has: rank, address, hits and percentage.
  Shown: the number of samples is the sum of the buckets, and the report lists the fullest buckets in descending order.
\<close>

definition PROFILER_BUCKETS :: nat where "PROFILER_BUCKETS = 256"
definition PROFILER_SHIFT :: nat where "PROFILER_SHIFT = 4"

record profiler_bucket =
  eip_basis :: u32
  treffer :: u32

record profiler =
  buckets :: "profiler_bucket list"
  gesamt_samples :: u32
  prof_aktiv :: bool

definition bucket_zero :: profiler_bucket where "bucket_zero = \<lparr>eip_basis = 0, treffer = 0\<rparr>"

definition profiler_init :: "profiler \<Rightarrow> profiler" where
  "profiler_init s = \<lparr>buckets = replicate PROFILER_BUCKETS bucket_zero, gesamt_samples = 0, prof_aktiv = False\<rparr>"

definition profiler_start :: "profiler \<Rightarrow> profiler" where "profiler_start s = s\<lparr>prof_aktiv := True\<rparr>"
definition profiler_stop :: "profiler \<Rightarrow> profiler" where "profiler_stop s = s\<lparr>prof_aktiv := False\<rparr>"

definition profiler_reset :: "profiler \<Rightarrow> profiler" where
  "profiler_reset s = s\<lparr>buckets := replicate PROFILER_BUCKETS bucket_zero, gesamt_samples := 0\<rparr>"

definition bucket_of :: "u32 \<Rightarrow> nat" where
  "bucket_of eip = unat (drop_bit PROFILER_SHIFT eip AND (of_nat PROFILER_BUCKETS - 1))"

definition profiler_sample :: "u32 \<Rightarrow> profiler \<Rightarrow> profiler" where
  "profiler_sample eip s =
     (if \<not> prof_aktiv s then s
      else
        let i = bucket_of eip; b = buckets s ! i;
            b = (if treffer b = 0 then b\<lparr>eip_basis := eip AND NOT (push_bit PROFILER_SHIFT 1 - 1)\<rparr> else b)
        in s\<lparr>buckets := (buckets s)[i := b\<lparr>treffer := treffer b + 1\<rparr>], gesamt_samples := gesamt_samples s + 1\<rparr>)"

text \<open>The inner loop of the report: the first fullest bucket not yet shown, and its hits.\<close>

definition best_bucket :: "bool list \<Rightarrow> profiler_bucket list \<Rightarrow> nat \<times> u32" where
  "best_bucket gezeigt bs =
     fold (\<lambda>i (best_idx, best_treffer).
        if \<not> gezeigt ! i \<and> treffer (bs ! i) > best_treffer then (i, treffer (bs ! i)) else (best_idx, best_treffer))
       [0..<length bs] (0, 0)"

fun profiler_lines :: "nat \<Rightarrow> nat \<Rightarrow> bool list \<Rightarrow> profiler \<Rightarrow> (nat \<times> u32 \<times> u32 \<times> u32) list" where
  "profiler_lines 0 n gezeigt s = []"
| "profiler_lines (Suc k) n gezeigt s =
     (let (i, t) = best_bucket gezeigt (buckets s)
      in if t = 0 then []
         else (n + 1, eip_basis (buckets s ! i), t, t * 100 div gesamt_samples s) # profiler_lines k (n + 1) (gezeigt[i := True]) s)"

definition profiler_dump :: "u32 \<Rightarrow> profiler \<Rightarrow> (nat \<times> u32 \<times> u32 \<times> u32) list" where
  "profiler_dump top_n s =
     (let top_n = (if top_n = 0 \<or> unat top_n > PROFILER_BUCKETS then 10 else top_n)
      in if gesamt_samples s = 0 then [] else profiler_lines (unat top_n) 0 (replicate PROFILER_BUCKETS False) s)"

section \<open>Counting\<close>

definition prof_ok :: "profiler \<Rightarrow> bool" where
  "prof_ok s \<longleftrightarrow> length (buckets s) = PROFILER_BUCKETS \<and> gesamt_samples s = sum_list (map treffer (buckets s))"

lemma bucket_of_less: "bucket_of eip < PROFILER_BUCKETS"
proof -
  have "(of_nat PROFILER_BUCKETS - 1 :: u32) = mask 8" by (simp add: PROFILER_BUCKETS_def mask_eq_exp_minus_1)
  then have "bucket_of eip = unat (take_bit 8 (drop_bit PROFILER_SHIFT eip))"
    by (simp add: bucket_of_def take_bit_eq_mask)
  also have "\<dots> = take_bit 8 (unat (drop_bit PROFILER_SHIFT eip))" by (simp only: unsigned_take_bit_eq)
  also have "\<dots> < 2 ^ 8" by (rule take_bit_nat_less_exp)
  finally show ?thesis by (simp add: PROFILER_BUCKETS_def)
qed

lemma sum_list_update_word: "i < length xs \<Longrightarrow> sum_list (xs[i := x]) = sum_list xs + x - (xs ! i :: u32)"
  by (induction xs arbitrary: i) (auto split: nat.splits)

lemma prof_ok_init: "prof_ok (profiler_init s)" "prof_ok s \<Longrightarrow> prof_ok (profiler_reset s)"
  by (simp_all add: prof_ok_def profiler_init_def profiler_reset_def bucket_zero_def sum_list_replicate)

lemma prof_ok_sample:
  assumes "prof_ok s"
  shows "prof_ok (profiler_sample eip s)"
  using assms bucket_of_less [of eip]
  by (auto simp: prof_ok_def profiler_sample_def Let_def map_update sum_list_update_word)

section \<open>The report\<close>

lemma best_bucket_spec:
  assumes "best_bucket g bs = (i, t)"
  shows "t = 0 \<or> i < length bs \<and> \<not> g ! i \<and> t = treffer (bs ! i)" "\<And>j. j < length bs \<Longrightarrow> \<not> g ! j \<Longrightarrow> treffer (bs ! j) \<le> t"
proof -
  let ?f = "\<lambda>i (best_idx, best_treffer).
        if \<not> g ! i \<and> treffer (bs ! i) > best_treffer then (i, treffer (bs ! i)) else (best_idx, best_treffer)"
  have "case fold ?f [0..<n] (0, 0) of (i, t) \<Rightarrow>
      (t = 0 \<or> i < n \<and> \<not> g ! i \<and> t = treffer (bs ! i)) \<and> (\<forall>j < n. \<not> g ! j \<longrightarrow> treffer (bs ! j) \<le> t)" for n
  proof (induction n)
    case (Suc n)
    then show ?case by (auto simp: less_Suc_eq word_gt_0 split: prod.splits if_splits)
  qed simp
  from this [of "length bs"] show "t = 0 \<or> i < length bs \<and> \<not> g ! i \<and> t = treffer (bs ! i)"
    "\<And>j. j < length bs \<Longrightarrow> \<not> g ! j \<Longrightarrow> treffer (bs ! j) \<le> t"
    using assms by (auto simp: best_bucket_def)
qed

lemma rev_sort_max:
  fixes t :: "'a :: linorder"
  assumes "t \<in> set xs" "\<And>x. x \<in> set xs \<Longrightarrow> x \<le> t"
  shows "rev (sort xs) = t # rev (sort (remove1 t xs))"
proof -
  have "sort xs = sort (remove1 t xs) @ [t]"
  proof (rule properties_for_sort)
    show "mset (sort (remove1 t xs) @ [t]) = mset xs" using assms(1) by simp
    show "sorted (sort (remove1 t xs) @ [t])" using assms(2) set_remove1_subset [of t xs] by (auto simp: sorted_append)
  qed
  then show ?thesis by simp
qed

lemma sort_cong: "mset xs = mset ys \<Longrightarrow> sort xs = sort (ys :: 'a :: linorder list)"
  by (metis properties_for_sort sorted_sort mset_sort)

text \<open>The hits of the nonempty buckets not yet shown.\<close>

definition unshown :: "bool list \<Rightarrow> profiler_bucket list \<Rightarrow> u32 list" where
  "unshown g bs = map (\<lambda>j. treffer (bs ! j)) (filter (\<lambda>j. \<not> g ! j \<and> treffer (bs ! j) \<noteq> 0) [0..<length bs])"

lemma mset_filter_remove: "distinct js \<Longrightarrow> i \<in> set js \<Longrightarrow> P i \<Longrightarrow>
  mset (map f (filter P js)) = add_mset (f i) (mset (map f (filter (\<lambda>j. P j \<and> j \<noteq> i) js)))"
proof (induction js)
  case (Cons j js)
  then show ?case
  proof (cases "j = i")
    case True
    then have "filter (\<lambda>j. P j \<and> j \<noteq> i) js = filter P js" using Cons.prems(1) by (intro filter_cong) auto
    then show ?thesis using True Cons.prems by simp
  qed (use Cons in auto)
qed simp

lemma unshown_show:
  assumes "i < length bs" "length g = length bs" "\<not> g ! i" "treffer (bs ! i) \<noteq> 0"
  shows "mset (unshown g bs) = add_mset (treffer (bs ! i)) (mset (unshown (g[i := True]) bs))"
proof -
  have "filter (\<lambda>j. (\<not> g ! j \<and> treffer (bs ! j) \<noteq> 0) \<and> j \<noteq> i) [0..<length bs] =
      filter (\<lambda>j. \<not> g[i := True] ! j \<and> treffer (bs ! j) \<noteq> 0) [0..<length bs]"
    using assms(1,2) by (intro filter_cong) (auto simp: nth_list_update split: if_splits)
  then show ?thesis
    using mset_filter_remove [of "[0..<length bs]" i "\<lambda>j. \<not> g ! j \<and> treffer (bs ! j) \<noteq> 0" "\<lambda>j. treffer (bs ! j)"] assms
    by (simp add: unshown_def)
qed

lemma profiler_lines_spec:
  "length g = length (buckets s) \<Longrightarrow>
   map (\<lambda>(r, a, t, p). t) (profiler_lines k n g s) = take k (rev (sort (unshown g (buckets s))))"
proof (induction k arbitrary: n g)
  case (Suc k)
  obtain i t where b: "best_bucket g (buckets s) = (i, t)" by force
  note sp = best_bucket_spec [OF b]
  have le: "x \<le> t" if "x \<in> set (unshown g (buckets s))" for x
    using that sp(2) by (auto simp: unshown_def)
  show ?case
  proof (cases "t = 0")
    case True
    then have "unshown g (buckets s) = []" using sp(2) by (force simp: unshown_def filter_empty_conv)
    then show ?thesis using b True by simp
  next
    case False
    then have i: "i < length (buckets s)" "\<not> g ! i" "t = treffer (buckets s ! i)" using sp(1) by auto
    note m = unshown_show [OF i(1) Suc.prems i(2), folded i(3), OF False]
    have "t \<in> set (unshown g (buckets s))" using m by (metis set_mset_mset union_single_eq_member)
    from rev_sort_max [OF this le] have "rev (sort (unshown g (buckets s))) = t # rev (sort (remove1 t (unshown g (buckets s))))"
      by blast
    moreover have "sort (remove1 t (unshown g (buckets s))) = sort (unshown (g[i := True]) (buckets s))"
      using m by (intro sort_cong) simp
    ultimately show ?thesis using b False Suc.IH [of "g[i := True]"] Suc.prems by simp
  qed
qed simp

text \<open>
  C0: The profiler's count of samples is the sum of its buckets after any sample, and its report lists, of the non-empty buckets, as many as
  asked for, the fullest first.
\<close>

theorem profiler_report_sorted:
  assumes "prof_ok s" "0 < n" "unat n \<le> PROFILER_BUCKETS" "gesamt_samples s \<noteq> 0"
  shows "prof_ok (profiler_sample eip s)"
    "map (\<lambda>(r, a, t, p). t) (profiler_dump n s) = take (unat n) (rev (sort (filter (\<lambda>t. t \<noteq> 0) (map treffer (buckets s)))))"
proof -
  have "unshown (replicate PROFILER_BUCKETS False) (buckets s) = filter (\<lambda>t. t \<noteq> 0) (map treffer (buckets s))"
  proof -
    have "unshown (replicate PROFILER_BUCKETS False) (buckets s) =
        map (\<lambda>j. treffer (buckets s ! j)) (filter (\<lambda>j. treffer (buckets s ! j) \<noteq> 0) [0..<length (buckets s)])"
      unfolding unshown_def using assms(1) by (intro arg_cong2 [where f = map] refl filter_cong) (auto simp: prof_ok_def)
    also have "\<dots> = filter (\<lambda>t. t \<noteq> 0) (map (\<lambda>j. treffer (buckets s ! j)) [0..<length (buckets s)])"
      by (simp add: filter_map comp_def)
    also have "map (\<lambda>j. treffer (buckets s ! j)) [0..<length (buckets s)] = map treffer (buckets s)"
      by (rule nth_equalityI) simp_all
    finally show ?thesis .
  qed
  moreover have "profiler_dump n s = profiler_lines (unat n) 0 (replicate PROFILER_BUCKETS False) s"
    using assms by (auto simp: profiler_dump_def)
  ultimately show "map (\<lambda>(r, a, t, p). t) (profiler_dump n s) = take (unat n) (rev (sort (filter (\<lambda>t. t \<noteq> 0) (map treffer (buckets s)))))"
    using profiler_lines_spec [of "replicate PROFILER_BUCKETS False" s "unat n" 0] assms(1) by (simp add: prof_ok_def)
qed (rule prof_ok_sample [OF assms(1)])

text \<open>Code 4096 bytes apart shares a bucket, and the report attributes all its samples to the address seen first.\<close>

lemma profiler_merges_addresses:
  "bucket_of (eip + 4096) = bucket_of eip"
proof -
  have m: "(of_nat PROFILER_BUCKETS - 1 :: u32) = mask 8" by (simp add: PROFILER_BUCKETS_def mask_eq_exp_minus_1)
  have "take_bit 8 (drop_bit 4 (eip + 4096)) = take_bit 8 (drop_bit 4 eip)"
  proof -
    have "unat (take_bit 12 (eip + 4096)) = unat (take_bit 12 eip)"
      by (simp add: unsigned_take_bit_eq take_bit_eq_mod unat_word_ariths mod_mod_cancel)
    then have t: "take_bit 12 (eip + 4096) = take_bit 12 eip" by (simp only: word_unat_eq_iff)
    have "take_bit 8 (drop_bit 4 x) = drop_bit 4 (take_bit 12 x)" for x :: u32
      by (rule bit_word_eqI) (auto simp: bit_simps)
    then show ?thesis by (simp only: t)
  qed
  then show ?thesis by (simp only: bucket_of_def PROFILER_SHIFT_def m take_bit_eq_mask [symmetric])
qed

end
