(* ===== verification/Elf.thy ===== *)
theory Elf
  imports Paging
begin

text \<open>
  The ELF loader (\<open>elf32_load\<close> of \<open>ipc/syscall.c\<close>). The file is the memory from \<open>elf_data\<close> on, as a function of the offset (the
  loader reads headers wherever the offsets in the file lead); the loader is modelled for files outside the memory it fills. Stores to virtual addresses go
  through the kernel's page tables byte by byte, and one the processor refuses has no result (\<open>None\<close>): there is no
  handler for page faults. Shown: the error codes; what a program finds in the pages of a segment; segments that share a page; and segments in the
  identity-mapped low memory.
\<close>

section \<open>Headers (include/syscall.h)\<close>

definition ET_EXEC :: u16 where "ET_EXEC = 2"
definition EM_386 :: u16 where "EM_386 = 3"
definition PT_LOAD :: u32 where "PT_LOAD = 1"
definition ELF_HDR_SIZE :: u32 where "ELF_HDR_SIZE = 52"
definition ELF_PHDR_SIZE :: u32 where "ELF_PHDR_SIZE = 32"

record elf32_hdr =
  e_type :: u16
  e_machine :: u16
  e_entry :: u32
  e_phoff :: u32
  e_phnum :: u16

definition elf32_hdr_of :: "mem \<Rightarrow> elf32_hdr" where
  "elf32_hdr_of f = \<lparr>e_type = load16 f 16, e_machine = load16 f 18, e_entry = load32 f 24, e_phoff = load32 f 28, e_phnum = load16 f 44\<rparr>"

record elf32_phdr =
  p_type :: u32
  p_offset :: u32
  p_vaddr :: u32
  p_filesz :: u32
  p_memsz :: u32

definition elf32_phdr_of :: "mem \<Rightarrow> u32 \<Rightarrow> elf32_phdr" where
  "elf32_phdr_of f a = \<lparr>p_type = load32 f a, p_offset = load32 f (a + 4), p_vaddr = load32 f (a + 8),
     p_filesz = load32 f (a + 16), p_memsz = load32 f (a + 20)\<rparr>"

section \<open>Stores through the page tables\<close>

text \<open>The physical address of a virtual address the kernel may write (supervisor mode, write protection on), as the processor finds it.\<close>

definition va_write :: "paging \<Rightarrow> u32 \<Rightarrow> u32 option" where
  "va_write s va =
     (let pde = kernel_pd s ! pd_index va in
      if pde AND PDE_PRESENT = 0 \<or> pde AND PDE_WRITABLE = 0 then None
      else if pde AND PDE_HUGE \<noteq> 0 then Some ((pde AND 0xFFC00000) OR (va AND 0x3FFFFF))
      else
        let pte = load32 (pmem (pg_pmm s)) ((pde AND PAGE_MASK) + pt_index va * 4)
        in if pte AND PDE_PRESENT = 0 \<or> pte AND PDE_WRITABLE = 0 then None
           else Some ((pte AND PAGE_MASK) OR (va AND 0xFFF)))"

definition poke :: "u32 \<Rightarrow> u8 \<Rightarrow> paging \<Rightarrow> paging" where
  "poke pa b s = s\<lparr>pg_pmm := (pg_pmm s)\<lparr>pmem := (pmem (pg_pmm s))(pa := b)\<rparr>\<rparr>"

fun vfill :: "u32 \<Rightarrow> u8 list \<Rightarrow> paging \<Rightarrow> paging option" where
  "vfill va [] s = Some s"
| "vfill va (b # bs) s = (case va_write s va of None \<Rightarrow> None | Some pa \<Rightarrow> vfill (va + 1) bs (poke pa b s))"

section \<open>The loader\<close>

text \<open>\<open>n\<close> pages from page \<open>p\<close> of the segment on: whether the frames were there, and the tables.\<close>

fun elf_map_pages :: "nat \<Rightarrow> u32 \<Rightarrow> u32 \<Rightarrow> paging \<Rightarrow> bool \<times> paging" where
  "elf_map_pages 0 p v s = (True, s)"
| "elf_map_pages (Suc n) p v s =
     (let (phys, pm) = pmm_alloc_page (pg_pmm s); s = s\<lparr>pg_pmm := pm\<rparr> in
      if phys = 0 then (False, s)
      else elf_map_pages n (p + 1) v
             (snd (paging_map_page (v + p * 4096) phys (PDE_PRESENT OR PDE_WRITABLE OR PDE_USER) s)))"

definition elf_segment :: "mem \<Rightarrow> u32 \<Rightarrow> elf32_phdr \<Rightarrow> paging \<Rightarrow> (int \<times> paging) option" where
  "elf_segment f elf_size ph s =
     (let vaddr = align_down (p_vaddr ph) 4096;
          pages = (align_up (p_vaddr ph + p_memsz ph) 4096 - vaddr) div 4096;
          (ok, s) = elf_map_pages (unat pages) 0 vaddr s
      in if \<not> ok then Some (- 5, s)
         else case vfill (p_vaddr ph) (replicate (unat (p_memsz ph)) 0) s of
             None \<Rightarrow> None
           | Some s \<Rightarrow>
               if p_filesz ph \<noteq> 0 \<and> p_offset ph + p_filesz ph \<le> elf_size
               then map_option (\<lambda>s. (0, s)) (vfill (p_vaddr ph) (map (\<lambda>i. f (p_offset ph + of_nat i)) [0..<unat (p_filesz ph)]) s)
               else Some (0, s))"

fun elf_segments :: "mem \<Rightarrow> u32 \<Rightarrow> u32 \<Rightarrow> nat \<Rightarrow> paging \<Rightarrow> (int \<times> paging) option" where
  "elf_segments f elf_size a 0 s = Some (0, s)"
| "elf_segments f elf_size a (Suc n) s =
     (let ph = elf32_phdr_of f a in
      if p_type ph \<noteq> PT_LOAD then elf_segments f elf_size (a + ELF_PHDR_SIZE) n s
      else case elf_segment f elf_size ph s of
          None \<Rightarrow> None
        | Some (r, s) \<Rightarrow> if r \<noteq> 0 then Some (r, s) else elf_segments f elf_size (a + ELF_PHDR_SIZE) n s)"

text \<open>The result, the entry point stored (unless an error), and the tables; \<open>None\<close> for a null \<open>elf_data\<close>.\<close>

definition elf32_load :: "mem option \<Rightarrow> u32 \<Rightarrow> paging \<Rightarrow> (int \<times> u32 option \<times> paging) option" where
  "elf32_load elf_data elf_size s =
     (case elf_data of
        None \<Rightarrow> Some (- 1, None, s)
      | Some f \<Rightarrow>
          if elf_size < ELF_HDR_SIZE then Some (- 1, None, s)
          else
            let hdr = elf32_hdr_of f in
            if f 0 \<noteq> 0x7F \<or> f 1 \<noteq> 69 \<or> f 2 \<noteq> 76 \<or> f 3 \<noteq> 70 then Some (- 2, None, s)
            else if e_type hdr \<noteq> ET_EXEC then Some (- 3, None, s)
            else if e_machine hdr \<noteq> EM_386 then Some (- 4, None, s)
            else map_option (\<lambda>(r, s). (r, if r = 0 then Some (e_entry hdr) else None, s))
                   (elf_segments f elf_size (e_phoff hdr) (unat (e_phnum hdr)) s))"

section \<open>Frames that hold no table\<close>

definition off_tables :: "paging \<Rightarrow> u32 set \<Rightarrow> bool" where
  "off_tables s X \<longleftrightarrow> X \<subseteq> pmm_owned (pg_pmm s) \<and> (\<forall>i < PD_ENTRIES. has_table s i \<longrightarrow> table_of s i \<notin> X)"

definition same_frames :: "u32 set \<Rightarrow> paging \<Rightarrow> paging \<Rightarrow> bool" where
  "same_frames X s s' \<longleftrightarrow> (\<forall>a \<in> X. \<forall>k < 4096. pmem (pg_pmm s') (a + of_nat k) = pmem (pg_pmm s) (a + of_nat k))"

text \<open>The directory entry of \<open>v\<close> is no large page.\<close>

definition small_pages :: "paging \<Rightarrow> u32 \<Rightarrow> bool" where
  "small_pages s v \<longleftrightarrow> kernel_pd s ! pd_index v AND PDE_PRESENT = 0 \<or> has_table s (pd_index v)"

lemma pd_index_bound: "pd_index v < PD_ENTRIES"
  by (simp add: PD_ENTRIES_def pd_index_less)

lemma owned_aligned:
  assumes "pg_inv s" "a \<in> pmm_owned (pg_pmm s)"
  shows "unat a mod 4096 = 0"
proof -
  have pinv: "pmm_inv (pg_pmm s)" using assms(1) by (simp add: pg_inv_def)
  obtain p where "p < total_pages (pg_pmm s)" "a = PFN_TO_ADDR p" using assms(2) by (auto simp: pmm_owned_def)
  then show ?thesis using PFN_TO_ADDR_unat pfn_bound [OF pinv] by simp
qed

lemma in_own_frame: "k < 4096 \<Longrightarrow> unat ((a :: u32) + of_nat k - a) < 4096"
  by (simp add: unat_of_nat)

lemma other_frame:
  assumes "unat (a :: u32) mod 4096 = 0" "unat b mod 4096 = 0" "a \<noteq> b" "k < 4096"
  shows "\<not> unat (a + of_nat k - b) < 4096"
proof -
  have "unat (a + of_nat k) div 4096 = unat a div 4096" using in_own_frame [OF assms(4), of a] in_frame_iff [OF assms(1)] by blast
  moreover have "unat a div 4096 \<noteq> unat b div 4096"
    using assms(1-3) by (metis add.right_neutral div_mult_mod_eq word_unat_eq_iff)
  ultimately show ?thesis using in_frame_iff [OF assms(2)] by metis
qed

lemma pt_keeps_frames:
  assumes inv: "pg_inv s" and g: "get_or_alloc_pt i create f s = (pt, s')" and i: "i < PD_ENTRIES" and X: "off_tables s X"
  shows "off_tables s' X" "same_frames X s s'" "small_pages s w \<Longrightarrow> small_pages s' w"
    and "pt = 0 \<Longrightarrow> kernel_pd s' = kernel_pd s"
proof -
  have "off_tables s' X \<and> same_frames X s s' \<and> (small_pages s w \<longrightarrow> small_pages s' w) \<and> (pt = 0 \<longrightarrow> kernel_pd s' = kernel_pd s)"
  proof (cases "kernel_pd s ! i AND PDE_PRESENT = 0 \<and> create")
    case False
    then have "s' = s" using g by (auto simp: get_or_alloc_pt_def Let_def split: if_splits)
    then show ?thesis using X by (simp add: same_frames_def)
  next
    case True
    obtain b pm where al: "pmm_alloc_page (pg_pmm s) = (b, pm)" by fastforce
    have pinv: "pmm_inv (pg_pmm s)" using inv by (simp add: pg_inv_def)
    note fresh = pmm_alloc_page_fresh [OF pinv al]
    show ?thesis
    proof (cases "b = 0")
      case True
      then have "s' = s" using g al fresh(4) \<open>kernel_pd s ! i AND PDE_PRESENT = 0 \<and> create\<close> by (auto simp: get_or_alloc_pt_def)
      then show ?thesis using X by (simp add: same_frames_def)
    next
      case False
      let ?e = "b OR PDE_PRESENT OR PDE_WRITABLE OR (f AND PDE_USER)"
      let ?pm = "pm\<lparr>pmem := memset b 0 PAGE_SIZE (pmem pm)\<rparr>"
      have s': "s' = s\<lparr>pg_pmm := ?pm, kernel_pd := (kernel_pd s)[i := ?e]\<rparr>" and pt: "pt = b"
        using g al False True by (auto simp: get_or_alloc_pt_def Let_def)
      have b: "unat b mod 4096 = 0" "b \<notin> pmm_owned (pg_pmm s)" "pmm_owned pm = insert b (pmm_owned (pg_pmm s))"
        using fresh(2) [OF False] by auto
      have len: "length (kernel_pd s) = PD_ENTRIES" using inv by (simp add: pg_inv_def)
      note pde = new_pde [OF b(1), of f]
      have tb: "table_of s' j = (if j = i then b else table_of s j)" and ht: "has_table s' j \<longleftrightarrow> j = i \<or> has_table s j"
        if "j < PD_ENTRIES" for j
        using pde i len that by (auto simp: table_of_def has_table_def s' nth_list_update)
      have mem: "pmem (pg_pmm s') x = (if unat (x - b) < 4096 then 0 else pmem (pg_pmm s) x)" for x
        using fresh(3) [OF False] by (simp add: s' memset_spec PAGE_SIZE_def)
      have X': "X \<subseteq> pmm_owned (pg_pmm s)" using X by (simp add: off_tables_def)
      have own: "pmm_owned (pg_pmm s') = insert b (pmm_owned (pg_pmm s))" using b(3) by (simp add: s' pmm_owned_def)
      have "off_tables s' X"
        unfolding off_tables_def own
      proof (intro conjI allI impI)
        fix j assume "j < PD_ENTRIES" "has_table s' j"
        then show "table_of s' j \<notin> X" using tb ht X b(2) by (auto simp: off_tables_def)
      qed (use X in \<open>auto simp: off_tables_def\<close>)
      moreover have "same_frames X s s'"
        unfolding same_frames_def
      proof (intro ballI allI impI)
        fix a and k :: nat assume a: "a \<in> X" and k: "k < 4096"
        then have "a \<noteq> b" using X' b(2) by auto
        from other_frame [OF owned_aligned [OF inv subsetD [OF X' a]] b(1) this k]
        show "pmem (pg_pmm s') (a + of_nat k) = pmem (pg_pmm s) (a + of_nat k)" by (simp add: mem)
      qed
      moreover have "small_pages s w \<longrightarrow> small_pages s' w"
      proof (cases "pd_index w = i")
        case True
        then show ?thesis using ht [OF i] by (simp add: small_pages_def)
      next
        case False
        then have "kernel_pd s' ! pd_index w = kernel_pd s ! pd_index w" by (simp add: s')
        then show ?thesis using False ht [OF pd_index_bound, of w] by (simp add: small_pages_def)
      qed
      ultimately show ?thesis using pt False by simp
    qed
  qed
  then show "off_tables s' X" "same_frames X s s'" "small_pages s w \<Longrightarrow> small_pages s' w" "pt = 0 \<Longrightarrow> kernel_pd s' = kernel_pd s"
    by blast+
qed

lemma map_page_keeps_frames:
  assumes inv: "pg_inv s" and m: "paging_map_page v p f s = (r, s')" and X: "off_tables s X"
  shows "off_tables s' X" "same_frames X s s'" "small_pages s w \<Longrightarrow> small_pages s' w"
    and "r \<noteq> 0 \<Longrightarrow> kernel_pd s' = kernel_pd s"
proof -
  obtain pt s1 where g: "get_or_alloc_pt (pd_index v) True f s = (pt, s1)" by fastforce
  note k1 = pt_keeps_frames [OF inv g pd_index_bound X]
  note spec = get_or_alloc_pt_spec [OF inv pd_index_bound g]
  have "off_tables s' X \<and> same_frames X s s' \<and> (small_pages s w \<longrightarrow> small_pages s' w) \<and> (r \<noteq> 0 \<longrightarrow> kernel_pd s' = kernel_pd s)"
  proof (cases "pt = 0")
    case True
    then have "s' = s1" using m g by (simp add: paging_map_page_def)
    then show ?thesis using k1 True by auto
  next
    case False
    then have t: "has_table s1 (pd_index v)" "table_of s1 (pd_index v) = pt" using spec(3) by auto
    obtain e where s': "s' = set_pte v e s1" and r: "r = 0"
      using m g False by (auto simp: paging_map_page_def set_pte_def t(2))
    have "same_frames X s1 s'"
      unfolding same_frames_def
    proof (intro ballI allI impI)
      fix a and k :: nat assume a: "a \<in> X" and k: "k < 4096"
      have "a \<in> pmm_owned (pg_pmm s1)" "table_of s1 (pd_index v) \<noteq> a" using k1(1) a t(1) pd_index_bound by (auto simp: off_tables_def)
      from set_pte_other_frame [OF owned_aligned [OF spec(1) this(1)] this(2) k]
      show "pmem (pg_pmm s') (a + of_nat k) = pmem (pg_pmm s1) (a + of_nat k)" by (simp add: s')
    qed
    moreover have "off_tables s' X" "small_pages s1 w = small_pages s' w" using k1(1) by (simp_all add: off_tables_def small_pages_def s')
    ultimately show ?thesis using k1 r by (auto simp: same_frames_def)
  qed
  then show "off_tables s' X" "same_frames X s s'" "small_pages s w \<Longrightarrow> small_pages s' w" "r \<noteq> 0 \<Longrightarrow> kernel_pd s' = kernel_pd s"
    by blast+
qed

text \<open>No address of the page of \<open>w\<close> is mapped.\<close>

definition unmapped :: "paging \<Rightarrow> u32 \<Rightarrow> bool" where
  "unmapped s w \<longleftrightarrow> small_pages s w \<and> (\<forall>x. drop_bit 12 x = drop_bit 12 w \<longrightarrow> paging_get_phys s x = 0)"

lemma va_write_phys: "va_write s w = Some pa \<Longrightarrow> paging_get_phys s w = pa"
  by (auto simp: va_write_def paging_get_phys_def Let_def split: if_splits)

lemma va_write_unmapped:
  assumes "unmapped s w"
  shows "va_write s w = None"
proof (cases "kernel_pd s ! pd_index w AND PDE_PRESENT = 0")
  case True
  then show ?thesis by (simp add: va_write_def)
next
  case False
  then have t: "has_table s (pd_index w)" using assms by (simp add: unmapped_def small_pages_def)
  let ?x = "(w AND PAGE_MASK) OR 1"
  have sp: "drop_bit 12 ?x = drop_bit 12 w"
    using page_of_mask [of w] by (simp add: drop_bit_or)
  then have ix: "pd_index ?x = pd_index w" "pt_index ?x = pt_index w" using same_page_iff by blast+
  have "pte_of s w AND PDE_PRESENT = 0"
  proof (rule ccontr)
    assume p: "pte_of s w AND PDE_PRESENT \<noteq> 0"
    have "pte_of s ?x = pte_of s w" by (simp add: pte_of_def ix)
    then have g: "paging_get_phys s ?x = (pte_of s w AND PAGE_MASK) OR (?x AND 0xFFF)"
      using p t by (simp add: paging_get_phys_cases ix)
    have "bit (?x AND 0xFFF) 0" using bit_0xFFF [of 0] by (simp add: bit_simps)
    then have "bit (paging_get_phys s ?x) 0" unfolding g by (simp add: bit_or_iff)
    moreover have "paging_get_phys s ?x = 0" using assms sp by (simp add: unmapped_def)
    ultimately show False by simp
  qed
  then show ?thesis using t by (simp add: va_write_def has_table_def pte_of_def table_of_def Let_def)
qed

lemma alloc_keeps:
  assumes inv: "pg_inv s" and al: "pmm_alloc_page (pg_pmm s) = (a, pm)" and nz: "a \<noteq> 0" and X: "off_tables s X"
  defines "s1 \<equiv> s\<lparr>pg_pmm := pm\<rparr>"
  shows "pg_inv s1" "paging_get_phys s1 w = paging_get_phys s w" "has_table s1 = has_table s" "off_tables s1 (insert a X)"
    "same_frames X s s1" "a \<notin> pmm_owned (pg_pmm s)" "unat a mod 4096 = 0" "k < 4096 \<Longrightarrow> pmem (pg_pmm s1) (a + of_nat k) = 0"
    "pmm_owned (pg_pmm s1) = insert a (pmm_owned (pg_pmm s))"
proof -
  have pinv: "pmm_inv (pg_pmm s)" using inv by (simp add: pg_inv_def)
  note fresh = pmm_alloc_page_fresh [OF pinv al]
  have new: "a \<notin> pmm_owned (pg_pmm s)" "unat a mod 4096 = 0" "pmm_owned pm = insert a (pmm_owned (pg_pmm s))"
    using fresh(2) [OF nz] by blast+
  have mem: "pmem pm = (\<lambda>x. if unat (x - a) < 4096 then 0 else pmem (pg_pmm s) x)" using fresh(3) [OF nz] .
  have same: "\<not> unat (x - a) < 4096 \<Longrightarrow> pmem pm x = pmem (pg_pmm s) x" for x by (simp add: mem)
  note keep = frame_alloc_keeps [OF inv fresh(1) new(3,1,2) same]
  show "pg_inv s1" "paging_get_phys s1 w = paging_get_phys s w" "has_table s1 = has_table s"
    unfolding s1_def by (rule keep; assumption)+
  show "a \<notin> pmm_owned (pg_pmm s)" "unat a mod 4096 = 0" by (rule new)+
  show own: "pmm_owned (pg_pmm s1) = insert a (pmm_owned (pg_pmm s))" by (simp add: s1_def new(3))
  have "table_of s1 = table_of s" "has_table s1 = has_table s" unfolding s1_def by (rule keep; assumption)+
  then show "off_tables s1 (insert a X)"
    using X inv new(1) unfolding off_tables_def own by (auto simp: pg_inv_def)
  show "same_frames X s s1"
    unfolding same_frames_def
  proof (intro ballI allI impI)
    fix b and k :: nat assume b: "b \<in> X" and k: "k < 4096"
    then have bo: "b \<in> pmm_owned (pg_pmm s)" using X by (auto simp: off_tables_def)
    then have "b \<noteq> a" using new(1) by auto
    from other_frame [OF owned_aligned [OF inv bo] new(2) this k]
    show "pmem (pg_pmm s1) (b + of_nat k) = pmem (pg_pmm s) (b + of_nat k)" by (simp add: s1_def mem)
  qed
  assume "k < 4096"
  then show "pmem (pg_pmm s1) (a + of_nat k) = 0" using in_own_frame [of k a] by (simp add: s1_def mem)
qed

lemma elf_map_step:
  assumes inv: "pg_inv s" and al: "pmm_alloc_page (pg_pmm s) = (a, pm)" and nz: "a \<noteq> 0" and X: "off_tables s X"
    and m: "paging_map_page v a f (s\<lparr>pg_pmm := pm\<rparr>) = (r, s')"
  shows "pg_inv s'" "pmm_owned (pg_pmm s) \<subseteq> pmm_owned (pg_pmm s')" "off_tables s' (insert a X)" "same_frames X s s'"
    "k < 4096 \<Longrightarrow> pmem (pg_pmm s') (a + of_nat k) = 0"
    "paging_get_phys s' w = (if r = 0 \<and> drop_bit 12 w = drop_bit 12 v then a OR (w AND 0xFFF) else paging_get_phys s w)"
    "small_pages s w \<Longrightarrow> small_pages s' w" "r \<noteq> 0 \<Longrightarrow> small_pages s v \<Longrightarrow> unmapped s' v"
proof -
  let ?s1 = "s\<lparr>pg_pmm := pm\<rparr>"
  note k1 = alloc_keeps [OF inv al nz X]
  note k2 = paging_map_page_spec [OF k1(1) m]
  note k3 = map_page_keeps_frames [OF k1(1) m k1(4)]
  have am: "a AND PAGE_MASK = a" using mask_of_aligned [OF k1(7), of 0] by simp
  show "pg_inv s'" by (rule k2)
  show "pmm_owned (pg_pmm s) \<subseteq> pmm_owned (pg_pmm s')" using k1(9) k2(2) by blast
  show "off_tables s' (insert a X)" by (rule k3)
  show "same_frames X s s'" using k1(5) k3(2) by (simp add: same_frames_def)
  show "k < 4096 \<Longrightarrow> pmem (pg_pmm s') (a + of_nat k) = 0" using k1(8) k3(2) by (simp add: same_frames_def)
  show "paging_get_phys s' w = (if r = 0 \<and> drop_bit 12 w = drop_bit 12 v then a OR (w AND 0xFFF) else paging_get_phys s w)"
    using k2(4) [of w] by (simp add: am k1(2))
  have sp1: "small_pages ?s1 x = small_pages s x" for x by (simp add: small_pages_def k1(3))
  show "small_pages s w \<Longrightarrow> small_pages s' w" using k3(3) sp1 by simp
  assume r: "r \<noteq> 0" and sp: "small_pages s v"
  have "\<not> has_table ?s1 (pd_index v)" using map_page_table [OF k1(1), of v a f] m r by auto
  then have np: "kernel_pd s ! pd_index v AND PDE_PRESENT = 0" using sp by (simp add: small_pages_def k1(3))
  then have np': "kernel_pd s' ! pd_index v AND PDE_PRESENT = 0" using k3(4) [OF r] by simp
  show "unmapped s' v"
    unfolding unmapped_def
  proof (intro conjI allI impI)
    show "small_pages s' v" using np' by (simp add: small_pages_def)
    fix x assume "drop_bit 12 x = drop_bit 12 v"
    then have "pd_index x = pd_index v" using same_page_iff by blast
    then show "paging_get_phys s' x = 0" using np' by (simp add: paging_get_phys_def)
  qed
qed

definition page_k :: "u32 \<Rightarrow> nat \<Rightarrow> u32" where "page_k v j = v + of_nat j * 4096"

text \<open>The frame of page \<open>j\<close> of the segment after the loader's loop: fresh, zeroed, no table, and where the page is mapped at all it is mapped there.\<close>

definition fresh_page :: "paging \<Rightarrow> paging \<Rightarrow> u32 \<Rightarrow> u32 \<Rightarrow> bool" where
  "fresh_page s s' w a \<longleftrightarrow> a \<noteq> 0 \<and> a \<notin> pmm_owned (pg_pmm s) \<and> (\<forall>k < 4096. pmem (pg_pmm s') (a + of_nat k) = 0) \<and>
     (unmapped s' w \<or> (\<forall>x. drop_bit 12 x = drop_bit 12 w \<longrightarrow> paging_get_phys s' x = a OR (x AND 0xFFF)))"

lemma elf_map_pages_spec:
  assumes "pg_inv s" "k + n \<le> 1048576" "\<forall>j. k \<le> j \<and> j < k + n \<longrightarrow> small_pages s (page_k v j)" "off_tables s X"
    "elf_map_pages n (of_nat k) v s = (True, s')"
  shows "pg_inv s' \<and> pmm_owned (pg_pmm s) \<subseteq> pmm_owned (pg_pmm s') \<and> off_tables s' X \<and> same_frames X s s' \<and>
    (\<forall>w. small_pages s w \<longrightarrow> small_pages s' w) \<and>
    (\<forall>w. (\<forall>j. k \<le> j \<and> j < k + n \<longrightarrow> drop_bit 12 w \<noteq> drop_bit 12 (page_k v j)) \<longrightarrow> paging_get_phys s' w = paging_get_phys s w) \<and>
    (\<exists>F. inj_on F {k..<k + n} \<and> off_tables s' (F ` {k..<k + n}) \<and> (\<forall>j \<in> {k..<k + n}. fresh_page s s' (page_k v j) (F j)))"
  using assms
proof (induction n arbitrary: k s X)
  case 0
  then show ?case by (auto simp: same_frames_def off_tables_def)
next
  case (Suc n)
  obtain a pm where al: "pmm_alloc_page (pg_pmm s) = (a, pm)" by fastforce
  have nz: "a \<noteq> 0" using Suc.prems(5) al by (auto simp: Let_def)
  obtain r s1 where m: "paging_map_page (page_k v k) a (PDE_PRESENT OR PDE_WRITABLE OR PDE_USER) (s\<lparr>pg_pmm := pm\<rparr>) = (r, s1)" by fastforce
  have rest: "elf_map_pages n (of_nat (Suc k)) v s1 = (True, s')"
    using Suc.prems(5) al nz m by (simp add: page_k_def Let_def add.commute)
  note st = elf_map_step [OF Suc.prems(1) al nz Suc.prems(4) m]
  have kn: "Suc k + n \<le> 1048576" using Suc.prems(2) by simp
  have sm: "\<forall>j. Suc k \<le> j \<and> j < Suc k + n \<longrightarrow> small_pages s1 (page_k v j)" using Suc.prems(3) st(7) by auto
  from Suc.IH [OF st(1) kn sm st(3) rest] obtain F where
    IH: "pg_inv s'" "pmm_owned (pg_pmm s1) \<subseteq> pmm_owned (pg_pmm s')" "off_tables s' (insert a X)" "same_frames (insert a X) s1 s'"
      "\<And>w. small_pages s1 w \<Longrightarrow> small_pages s' w"
      "\<And>w. (\<forall>j. Suc k \<le> j \<and> j < Suc k + n \<longrightarrow> drop_bit 12 w \<noteq> drop_bit 12 (page_k v j)) \<Longrightarrow> paging_get_phys s' w = paging_get_phys s1 w"
    and F: "inj_on F {Suc k..<Suc k + n}" "off_tables s' (F ` {Suc k..<Suc k + n})"
      "\<forall>j \<in> {Suc k..<Suc k + n}. fresh_page s1 s' (page_k v j) (F j)"
    by blast
  let ?F = "F(k := a)"
  have a1: "a \<in> pmm_owned (pg_pmm s1)" using st(3) by (simp add: off_tables_def)
  have split: "{k..<k + Suc n} = insert k {Suc k..<Suc k + n}" by auto
  have img: "?F ` {k..<k + Suc n} = insert a (F ` {Suc k..<Suc k + n})" unfolding split by auto
  have inj: "inj_on ?F {k..<k + Suc n}"
    unfolding split using F(1,3) a1 by (auto simp: inj_on_def fresh_page_def)
  have offF: "off_tables s' (?F ` {k..<k + Suc n})"
    unfolding img using F(2) IH(3) by (auto simp: off_tables_def)
  have distinct_pages: "drop_bit 12 x \<noteq> drop_bit 12 (page_k v j)" if "drop_bit 12 x = drop_bit 12 (page_k v k)" "Suc k \<le> j \<and> j < Suc k + n" for x j
    using page_steps_distinct [of k j v] that Suc.prems(2) by (simp add: page_k_def)
  have pk: "paging_get_phys s' x = paging_get_phys s1 x" if "drop_bit 12 x = drop_bit 12 (page_k v k)" for x
    using distinct_pages [OF that] by (intro IH(6)) blast
  have "fresh_page s s' (page_k v k) a"
    unfolding fresh_page_def
  proof (intro conjI allI impI)
    show "a \<noteq> 0" by (rule nz)
    show "a \<notin> pmm_owned (pg_pmm s)" using alloc_keeps(6) [OF Suc.prems(1) al nz Suc.prems(4)] .
    show "pmem (pg_pmm s') (a + of_nat j) = 0" if "j < 4096" for j
      using IH(4) st(5) [OF that] that by (simp add: same_frames_def)
    show "unmapped s' (page_k v k) \<or> (\<forall>x. drop_bit 12 x = drop_bit 12 (page_k v k) \<longrightarrow> paging_get_phys s' x = a OR (x AND 0xFFF))"
    proof (cases "r = 0")
      case True
      then show ?thesis using pk st(6) by simp
    next
      case False
      then have "unmapped s1 (page_k v k)" using st(8) Suc.prems(3) by simp
      then show ?thesis using pk IH(5) by (auto simp: unmapped_def)
    qed
  qed
  moreover have "fresh_page s s' (page_k v j) (F j)" if "j \<in> {Suc k..<Suc k + n}" for j
    using F(3) that st(2) by (auto simp: fresh_page_def)
  ultimately have fr: "\<forall>j \<in> {k..<k + Suc n}. fresh_page s s' (page_k v j) (?F j)" unfolding split by auto
  have frame: "paging_get_phys s' w = paging_get_phys s w"
    if w: "\<forall>j. k \<le> j \<and> j < k + Suc n \<longrightarrow> drop_bit 12 w \<noteq> drop_bit 12 (page_k v j)" for w
  proof -
    have "drop_bit 12 w \<noteq> drop_bit 12 (page_k v k)" using w by simp
    then have "paging_get_phys s1 w = paging_get_phys s w" using st(6) [of w] by simp
    moreover have "paging_get_phys s' w = paging_get_phys s1 w" by (rule IH(6)) (use w in simp)
    ultimately show ?thesis by simp
  qed
  have "off_tables s' X" using IH(3) by (simp add: off_tables_def)
  moreover have "same_frames X s s'" using IH(4) st(4) by (simp add: same_frames_def)
  moreover have "\<forall>w. small_pages s w \<longrightarrow> small_pages s' w" using st(7) IH(5) by blast
  moreover have "pmm_owned (pg_pmm s) \<subseteq> pmm_owned (pg_pmm s')" using st(2) IH(2) by blast
  ultimately show ?case using IH(1) frame inj offF fr by blast
qed

lemma poke_keeps:
  assumes inv: "pg_inv s" and X: "off_tables s X" and a: "a \<in> X" and k: "k < 4096"
  shows "va_write (poke (a + of_nat k) b s) = va_write s" "paging_get_phys (poke (a + of_nat k) b s) = paging_get_phys s"
    "pg_inv (poke (a + of_nat k) b s)" "off_tables (poke (a + of_nat k) b s) Y = off_tables s Y"
proof -
  let ?s = "poke (a + of_nat k) b s"
  have own: "a \<in> pmm_owned (pg_pmm s)" using X a by (auto simp: off_tables_def)
  have tb: "kernel_pd ?s = kernel_pd s" "has_table ?s = has_table s" "table_of ?s = table_of s"
    by (auto simp: poke_def has_table_def table_of_def)
  have pte: "pte_of ?s w = pte_of s w" if "has_table s (pd_index w)" for w
  proof -
    have "table_of s (pd_index w) \<noteq> a" using X a that pd_index_bound by (auto simp: off_tables_def)
    moreover have "\<not> unat (x - a) < 4096 \<Longrightarrow> pmem (pg_pmm ?s) x = pmem (pg_pmm s) x" for x
      using in_own_frame [OF k, of a] by (auto simp: poke_def)
    ultimately show ?thesis
      using load32_other_frame [OF owned_aligned [OF inv own] table_aligned _ pt_index_less, of s "pd_index w" "pmem (pg_pmm ?s)" "pmem (pg_pmm s)" w]
      by (simp add: pte_of_def tb)
  qed
  show "paging_get_phys ?s = paging_get_phys s"
    by (rule ext) (simp add: paging_get_phys_cases tb pte)
  have vw: "va_write t w = (let pde = kernel_pd t ! pd_index w in
      if pde AND PDE_PRESENT = 0 \<or> pde AND PDE_WRITABLE = 0 then None
      else if \<not> has_table t (pd_index w) then Some ((pde AND 0xFFC00000) OR (w AND 0x3FFFFF))
      else if pte_of t w AND PDE_PRESENT = 0 \<or> pte_of t w AND PDE_WRITABLE = 0 then None
      else Some ((pte_of t w AND PAGE_MASK) OR (w AND 0xFFF)))" for t w
    by (simp add: va_write_def has_table_def pte_of_def table_of_def Let_def)
  show "va_write ?s = va_write s"
    by (rule ext) (simp add: vw tb pte Let_def)
  show "pg_inv ?s" using inv by (simp add: poke_def)
  show "off_tables ?s Y = off_tables s Y" by (simp add: off_tables_def tb) (simp add: poke_def pmm_owned_def)
qed

lemma vfill_spec:
  assumes "pg_inv s" "off_tables s X" "\<forall>i < length bs. \<forall>p. va_write s (v + of_nat i) = Some p \<longrightarrow> (\<exists>a \<in> X. \<exists>k < 4096. p = a + of_nat k)"
    "vfill v bs s = Some s'"
  shows "pg_inv s' \<and> off_tables s' X \<and> va_write s' = va_write s \<and> paging_get_phys s' = paging_get_phys s \<and>
    (\<forall>i < length bs. va_write s (v + of_nat i) \<noteq> None) \<and>
    (\<forall>x. (\<forall>i < length bs. va_write s (v + of_nat i) \<noteq> Some x) \<longrightarrow> pmem (pg_pmm s') x = pmem (pg_pmm s) x) \<and>
    ((\<forall>i j. i < j \<and> j < length bs \<longrightarrow> va_write s (v + of_nat i) \<noteq> va_write s (v + of_nat j)) \<longrightarrow>
      (\<forall>i < length bs. \<forall>p. va_write s (v + of_nat i) = Some p \<longrightarrow> pmem (pg_pmm s') p = bs ! i))"
  using assms
proof (induction bs arbitrary: v s)
  case Nil
  then show ?case by simp
next
  case (Cons b bs)
  obtain p where p: "va_write s v = Some p" using Cons.prems(4) by (auto split: option.splits)
  have rest: "vfill (v + 1) bs (poke p b s) = Some s'" using Cons.prems(4) p by simp
  obtain a k where a: "a \<in> X" "k < 4096" "p = a + of_nat k" using Cons.prems(3) p by force
  note pk = poke_keeps [OF Cons.prems(1,2) a(1,2), of b, folded a(3)]
  have shift: "v + 1 + of_nat i = v + of_nat (Suc i)" for i by simp
  have in_X: "\<forall>i < length bs. \<forall>p. va_write s (v + of_nat (Suc i)) = Some p \<longrightarrow> (\<exists>a \<in> X. \<exists>k < 4096. p = a + of_nat k)"
    using Cons.prems(3) by (metis Suc_less_eq length_Cons)
  have X': "off_tables (poke p b s) X" using Cons.prems(2) pk(4) by simp
  have hyp: "\<forall>i < length bs. \<forall>q. va_write (poke p b s) (v + 1 + of_nat i) = Some q \<longrightarrow> (\<exists>a \<in> X. \<exists>k < 4096. q = a + of_nat k)"
    unfolding pk(1) shift by (rule in_X)
  note all = Cons.IH [OF pk(3) X' hyp rest, unfolded pk(1,2) shift]
  have IH: "pg_inv s'" "off_tables s' X" "va_write s' = va_write s" "paging_get_phys s' = paging_get_phys s"
    "\<And>i. i < length bs \<Longrightarrow> va_write s (v + of_nat (Suc i)) \<noteq> None"
    "\<And>x. (\<forall>i < length bs. va_write s (v + of_nat (Suc i)) \<noteq> Some x) \<Longrightarrow> pmem (pg_pmm s') x = pmem (pg_pmm (poke p b s)) x"
    "(\<forall>i j. i < j \<and> j < length bs \<longrightarrow> va_write s (v + of_nat (Suc i)) \<noteq> va_write s (v + of_nat (Suc j))) \<Longrightarrow>
      \<forall>i < length bs. \<forall>p. va_write s (v + of_nat (Suc i)) = Some p \<longrightarrow> pmem (pg_pmm s') p = bs ! i"
    using all by blast+
  have "va_write s (v + of_nat i) \<noteq> None" if "i < length (b # bs)" for i
    using that IH(5) p by (cases i) (auto simp del: of_nat_Suc)
  moreover have "pmem (pg_pmm s') x = pmem (pg_pmm s) x" if x: "\<forall>i < length (b # bs). va_write s (v + of_nat i) \<noteq> Some x" for x
  proof -
    have "\<forall>i < length bs. va_write s (v + of_nat (Suc i)) \<noteq> Some x" using x by (metis Suc_less_eq length_Cons)
    moreover have "x \<noteq> p" using x p by force
    ultimately show ?thesis using IH(6) by (simp add: poke_def)
  qed
  moreover have "pmem (pg_pmm s') q = (b # bs) ! i"
    if inj: "\<forall>i j. i < j \<and> j < length (b # bs) \<longrightarrow> va_write s (v + of_nat i) \<noteq> va_write s (v + of_nat j)"
      and i: "i < length (b # bs)" "va_write s (v + of_nat i) = Some q" for i q
  proof (cases i)
    case 0
    then have "q = p" using i p by simp
    moreover have "va_write s (v + of_nat (Suc j)) \<noteq> Some p" if "j < length bs" for j
      using inj [rule_format, of 0 "Suc j"] that p by (simp del: of_nat_Suc)
    ultimately show ?thesis using IH(6) [of p] 0 by (simp add: poke_def)
  next
    case (Suc j)
    have "va_write s (v + of_nat (Suc i)) \<noteq> va_write s (v + of_nat (Suc j))" if "i < j \<and> j < length bs" for i j
      using inj [rule_format, of "Suc i" "Suc j"] that by (simp del: of_nat_Suc)
    then show ?thesis using IH(7) i Suc by (simp del: of_nat_Suc)
  qed
  ultimately show ?case using IH(1-4) by blast
qed

section \<open>One segment\<close>

text \<open>\<open>w\<close> lies in a page of the segment.\<close>

definition in_segment :: "elf32_phdr \<Rightarrow> u32 \<Rightarrow> bool" where
  "in_segment ph w \<longleftrightarrow> unat (p_vaddr ph) div 4096 \<le> unat w div 4096 \<and>
     unat w div 4096 < (unat (p_vaddr ph) + unat (p_memsz ph) + 4095) div 4096"

definition segment_page :: "elf32_phdr \<Rightarrow> u32 \<Rightarrow> nat" where
  "segment_page ph w = unat w div 4096 - unat (p_vaddr ph) div 4096"

definition segment_pages :: "elf32_phdr \<Rightarrow> nat" where
  "segment_pages ph = (unat (p_vaddr ph) + unat (p_memsz ph) + 4095) div 4096 - unat (p_vaddr ph) div 4096"

lemma frame_or_off:
  assumes "unat (a :: u32) mod 4096 = 0"
  shows "a OR (x AND 0xFFF) = a + of_nat (unat x mod 4096)"
proof -
  have m: "(0xFFF :: u32) = mask 12" by (simp add: mask_eq_exp_minus_1)
  have "a AND (x AND 0xFFF) = 0"
  proof (rule bit_word_eqI)
    fix n assume "n < LENGTH(32)"
    show "bit (a AND (x AND 0xFFF)) n = bit (0 :: u32) n"
      using aligned_bits [OF assms, of n] unfolding bit_and_iff bit_0xFFF by auto
  qed
  then have sum: "a OR (x AND 0xFFF) = a + (x AND 0xFFF)" by (simp add: disjunctive_add_eq_or)
  have "x AND 0xFFF = of_nat (unat x mod 4096)"
  proof -
    have "unat (take_bit 12 x) = unat x mod 4096" unfolding unsigned_take_bit_eq by (simp add: take_bit_eq_mod)
    then have "unat (x AND 0xFFF) = unat x mod 4096" by (simp only: m take_bit_eq_mask)
    moreover have "unat (of_nat (unat x mod 4096) :: u32) = unat x mod 4096" by (simp add: unat_of_nat)
    ultimately show ?thesis by (simp only: word_unat_eq_iff)
  qed
  then show ?thesis using sum by (simp only:)
qed

lemma page_k_unat:
  assumes "unat (v :: u32) div 4096 + j < 1048576"
  shows "unat (page_k (align_down v 4096) j) = (unat v div 4096 + j) * 4096"
proof -
  have "(unat v div 4096 + j) * 4096 < 2 ^ 32" using assms by simp
  moreover have "align_down v 4096 = of_nat (unat v div 4096 * 4096)"
    unfolding unat_align_down_page [symmetric] by simp
  then have "page_k (align_down v 4096) j = of_nat ((unat v div 4096 + j) * 4096)" by (simp add: page_k_def algebra_simps)
  ultimately show ?thesis by (simp only: unat_of_nat) simp
qed

lemma drop_12_iff: "drop_bit 12 (x :: u32) = drop_bit 12 y \<longleftrightarrow> unat x div 4096 = unat y div 4096"
  by (simp add: word_unat_eq_iff unat_drop_bit_div)

lemma segment_pages_unat:
  assumes "unat (p_vaddr ph) + unat (p_memsz ph) + 4095 < 2 ^ 32"
  shows "unat ((align_up (p_vaddr ph + p_memsz ph) 4096 - align_down (p_vaddr ph) 4096) div 4096) = segment_pages ph"
proof -
  let ?v = "unat (p_vaddr ph)" and ?m = "unat (p_memsz ph)"
  have s: "unat (p_vaddr ph + p_memsz ph) = ?v + ?m" using assms by (simp add: unat_word_ariths)
  have up: "unat (align_up (p_vaddr ph + p_memsz ph) 4096) = (?v + ?m + 4095) div 4096 * 4096"
    using unat_align_up_page [of "p_vaddr ph + p_memsz ph"] assms s by simp
  have dn: "unat (align_down (p_vaddr ph) 4096) = ?v div 4096 * 4096" by (rule unat_align_down_page)
  have le: "?v div 4096 * 4096 \<le> (?v + ?m + 4095) div 4096 * 4096" by (simp add: div_le_mono)
  then have "align_down (p_vaddr ph) 4096 \<le> align_up (p_vaddr ph + p_memsz ph) 4096" by (simp only: word_le_nat_alt up dn)
  then have "unat (align_up (p_vaddr ph + p_memsz ph) 4096 - align_down (p_vaddr ph) 4096) =
      (?v + ?m + 4095) div 4096 * 4096 - ?v div 4096 * 4096"
    by (simp only: unat_sub up dn)
  also have "\<dots> = segment_pages ph * 4096" by (simp only: segment_pages_def diff_mult_distrib)
  finally show ?thesis by (simp add: unat_div)
qed

lemma segment_page_less:
  "in_segment ph w \<Longrightarrow> segment_page ph w < segment_pages ph"
  by (simp add: in_segment_def segment_page_def segment_pages_def diff_less_mono)

lemma segment_page_same:
  assumes "unat (p_vaddr ph) + unat (p_memsz ph) + 4095 < 2 ^ 32" "j < segment_pages ph"
  shows "drop_bit 12 w = drop_bit 12 (page_k (align_down (p_vaddr ph) 4096) j) \<longleftrightarrow> in_segment ph w \<and> segment_page ph w = j"
proof -
  let ?v = "unat (p_vaddr ph)"
  have "(?v + unat (p_memsz ph) + 4095) div 4096 < 1048576"
    using assms(1) by (simp add: less_mult_imp_div_less)
  then have "?v div 4096 + j < 1048576" using assms(2) by (simp add: segment_pages_def)
  from page_k_unat [OF this] have "unat (page_k (align_down (p_vaddr ph) 4096) j) div 4096 = ?v div 4096 + j" by simp
  then show ?thesis
    unfolding drop_12_iff using assms(2) by (auto simp: in_segment_def segment_page_def segment_pages_def)
qed

lemma segment_addr:
  assumes "unat (p_vaddr ph) + unat (p_memsz ph) + 4095 < 2 ^ 32" "i < unat (p_memsz ph)"
  shows "unat (p_vaddr ph + of_nat i) = unat (p_vaddr ph) + i" "in_segment ph (p_vaddr ph + of_nat i)"
proof -
  show u: "unat (p_vaddr ph + of_nat i) = unat (p_vaddr ph) + i" using assms by (simp add: unat_word_ariths unat_of_nat)
  have "(unat (p_vaddr ph) + i) div 4096 * 4096 \<le> unat (p_vaddr ph) + i" by (rule div_times_less_eq_dividend)
  then have "((unat (p_vaddr ph) + i) div 4096 + 1) * 4096 \<le> unat (p_vaddr ph) + unat (p_memsz ph) + 4095" using assms(2) by simp
  then have "(unat (p_vaddr ph) + i) div 4096 + 1 \<le> (unat (p_vaddr ph) + unat (p_memsz ph) + 4095) div 4096"
    by (simp only: less_eq_div_iff_mult_less_eq [of 4096])
  then show "in_segment ph (p_vaddr ph + of_nat i)" by (simp add: in_segment_def u div_le_mono)
qed

text \<open>The situation after the mapping loop: the mapped addresses of the segment lie in fresh zeroed frames, no two in the same place.\<close>

lemma elf_mapped:
  assumes inv: "pg_inv s" and nov: "unat (p_vaddr ph) + unat (p_memsz ph) + 4095 < 2 ^ 32"
    and small: "\<And>w. in_segment ph w \<Longrightarrow> small_pages s w" and X: "off_tables s X"
    and m: "elf_map_pages (segment_pages ph) 0 (align_down (p_vaddr ph) 4096) s = (True, s1)"
  obtains Y where "pg_inv s1" "off_tables s1 Y" "off_tables s1 X" "X \<inter> Y = {}" "same_frames X s s1"
    "\<And>a k. a \<in> Y \<Longrightarrow> k < 4096 \<Longrightarrow> pmem (pg_pmm s1) (a + of_nat k) = 0"
    "\<And>w p. in_segment ph w \<Longrightarrow> va_write s1 w = Some p \<Longrightarrow> p \<noteq> 0 \<and> (\<exists>a \<in> Y. \<exists>k < 4096. p = a + of_nat k)"
    "\<And>w. in_segment ph w \<Longrightarrow> paging_get_phys s1 w \<noteq> 0 \<Longrightarrow> \<exists>a \<in> Y. \<exists>k < 4096. paging_get_phys s1 w = a + of_nat k"
    "\<And>w x. in_segment ph w \<Longrightarrow> in_segment ph x \<Longrightarrow> paging_get_phys s1 w \<noteq> 0 \<Longrightarrow> paging_get_phys s1 w = paging_get_phys s1 x \<Longrightarrow> w = x"
    "\<And>w. \<not> in_segment ph w \<Longrightarrow> paging_get_phys s1 w = paging_get_phys s w"
proof -
  let ?v = "align_down (p_vaddr ph) 4096" and ?n = "segment_pages ph"
  note same = segment_page_same [OF nov]
  have n: "?n \<le> 1048576" using nov by (auto simp: segment_pages_def less_mult_imp_div_less intro: le_trans)
  have sm: "\<forall>j. 0 \<le> j \<and> j < 0 + ?n \<longrightarrow> small_pages s (page_k ?v j)"
  proof (intro allI impI)
    fix j assume "0 \<le> j \<and> j < 0 + ?n"
    then have "j < ?n" by simp
    from same [OF this, of "page_k ?v j"] have "in_segment ph (page_k ?v j)" by simp
    then show "small_pages s (page_k ?v j)" by (rule small)
  qed
  from elf_map_pages_spec [OF inv _ sm X, of s1] n m obtain F where
    sp: "pg_inv s1" "pmm_owned (pg_pmm s) \<subseteq> pmm_owned (pg_pmm s1)" "off_tables s1 X" "same_frames X s s1"
      "\<And>w. (\<forall>j. 0 \<le> j \<and> j < 0 + ?n \<longrightarrow> drop_bit 12 w \<noteq> drop_bit 12 (page_k ?v j)) \<Longrightarrow> paging_get_phys s1 w = paging_get_phys s w"
    and F: "inj_on F {0..<0 + ?n}" "off_tables s1 (F ` {0..<0 + ?n})" "\<forall>j \<in> {0..<0 + ?n}. fresh_page s s1 (page_k ?v j) (F j)"
    by auto
  let ?f = "\<lambda>w. F (segment_page ph w)"
  have own: "?f w \<in> pmm_owned (pg_pmm s1)" "?f w \<in> F ` {0..<0 + ?n}" if "in_segment ph w" for w
    using F(2) segment_page_less [OF that] by (auto simp: off_tables_def)
  have al: "unat (?f w) mod 4096 = 0" if "in_segment ph w" for w by (rule owned_aligned [OF sp(1) own(1) [OF that]])
  have fp: "fresh_page s s1 (page_k ?v (segment_page ph w)) (?f w)" if "in_segment ph w" for w
    using F(3) segment_page_less [OF that] by simp
  have pg: "drop_bit 12 w = drop_bit 12 (page_k ?v (segment_page ph w))" if "in_segment ph w" for w
    using same [OF segment_page_less [OF that], of w] that by simp
  have at: "paging_get_phys s1 w = 0 \<and> va_write s1 w = None \<or> paging_get_phys s1 w = ?f w + of_nat (unat w mod 4096)" if "in_segment ph w" for w
  proof -
    have "unmapped s1 w \<or> paging_get_phys s1 w = ?f w OR (w AND 0xFFF)"
      using fp [OF that] pg [OF that] by (auto simp: fresh_page_def unmapped_def small_pages_def same_page_iff [symmetric])
    then show ?thesis
      using va_write_unmapped [of s1 w] frame_or_off [OF al [OF that], of w] by (auto simp: unmapped_def)
  qed
  have nz: "?f w + of_nat k \<noteq> 0" if "in_segment ph w" "k < 4096" for w k
  proof
    assume "?f w + of_nat k = 0"
    then have "unat (?f w + of_nat k) div 4096 = 0" by simp
    then have "unat (?f w) div 4096 = 0"
      using in_own_frame [OF that(2), of "?f w"] in_frame_iff [OF al [OF that(1)], of "?f w + of_nat k"] by metis
    then have "?f w = 0" using al [OF that(1)] by (metis div_mult_mod_eq mult_0 add_0 unat_eq_zero)
    then show False using fp [OF that(1)] by (simp add: fresh_page_def)
  qed
  have inj: "w = x" if "in_segment ph w" "in_segment ph x" "paging_get_phys s1 w \<noteq> 0" "paging_get_phys s1 w = paging_get_phys s1 x" for w x
  proof -
    have eq: "?f w + of_nat (unat w mod 4096) = ?f x + of_nat (unat x mod 4096)" using at [OF that(1)] at [OF that(2)] that(3,4) by auto
    have "?f w = ?f x"
    proof (rule ccontr)
      assume "?f w \<noteq> ?f x"
      from other_frame [OF al [OF that(1)] al [OF that(2)] this, of "unat w mod 4096"]
      have "\<not> unat (?f x + of_nat (unat x mod 4096) - ?f x) < 4096" unfolding eq by simp
      then show False using in_own_frame [of "unat x mod 4096" "?f x"] by simp
    qed
    have "unat w mod 4096 = unat x mod 4096"
    proof -
      have "(of_nat (unat w mod 4096) :: u32) = of_nat (unat x mod 4096)" using eq \<open>?f w = ?f x\<close> by simp
      then have "unat (of_nat (unat w mod 4096) :: u32) = unat (of_nat (unat x mod 4096) :: u32)" by (rule arg_cong)
      then show ?thesis by (simp add: unat_of_nat)
    qed
    moreover have "segment_page ph w = segment_page ph x"
      using F(1) \<open>?f w = ?f x\<close> segment_page_less [OF that(1)] segment_page_less [OF that(2)] by (auto simp: inj_on_def)
    then have "unat w div 4096 = unat x div 4096" using that(1,2) by (simp add: segment_page_def in_segment_def eq_diff_iff)
    ultimately show ?thesis by (metis div_mult_mod_eq word_unat_eq_iff)
  qed
  show thesis
  proof (rule that [of "F ` {0..<0 + ?n}"])
    show "X \<inter> F ` {0..<0 + ?n} = {}" using F(3) X by (auto simp: fresh_page_def off_tables_def)
    show "pmem (pg_pmm s1) (a + of_nat k) = 0" if "a \<in> F ` {0..<0 + ?n}" "k < 4096" for a k
      using F(3) that by (auto simp: fresh_page_def)
    show "p \<noteq> 0 \<and> (\<exists>a \<in> F ` {0..<0 + ?n}. \<exists>k < 4096. p = a + of_nat k)" if "in_segment ph w" "va_write s1 w = Some p" for w p
    proof -
      have "p = ?f w + of_nat (unat w mod 4096)" using at [OF that(1)] that(2) va_write_phys [OF that(2)] by auto
      then show ?thesis using nz [OF that(1), of "unat w mod 4096"] own(2) [OF that(1)] by (metis mod_less_divisor zero_less_numeral)
    qed
    show "\<exists>a \<in> F ` {0..<0 + ?n}. \<exists>k < 4096. paging_get_phys s1 w = a + of_nat k" if "in_segment ph w" "paging_get_phys s1 w \<noteq> 0" for w
      using at [OF that(1)] that(2) own(2) [OF that(1)] by (metis mod_less_divisor zero_less_numeral)
    show "paging_get_phys s1 w = paging_get_phys s w" if "\<not> in_segment ph w" for w
      using that same by (intro sp(5)) auto
  qed (use sp F inj in auto)
qed

text \<open>Whether the loader finds the segment's bytes in the file: the sum of offset and size wraps.\<close>

definition in_file :: "u32 \<Rightarrow> elf32_phdr \<Rightarrow> bool" where
  "in_file elf_size ph \<longleftrightarrow> p_filesz ph \<noteq> 0 \<and> p_offset ph + p_filesz ph \<le> elf_size"

lemma elf_segment_content:
  assumes inv: "pg_inv s" and nov: "unat (p_vaddr ph) + unat (p_memsz ph) + 4095 < 2 ^ 32" and fits: "p_filesz ph \<le> p_memsz ph"
    and small: "\<And>w. in_segment ph w \<Longrightarrow> small_pages s w" and ok: "elf_segment f elf_size ph s = Some (0, s')"
  shows "i < unat (p_memsz ph) \<Longrightarrow> paging_get_phys s' (p_vaddr ph + of_nat i) \<noteq> 0 \<and>
      pmem (pg_pmm s') (paging_get_phys s' (p_vaddr ph + of_nat i)) =
        (if in_file elf_size ph \<and> i < unat (p_filesz ph) then f (p_offset ph + of_nat i) else 0)"
    and "in_segment ph w \<Longrightarrow> unat w < unat (p_vaddr ph) \<or> unat (p_vaddr ph) + unat (p_memsz ph) \<le> unat w \<Longrightarrow>
      paging_get_phys s' w \<noteq> 0 \<Longrightarrow> pmem (pg_pmm s') (paging_get_phys s' w) = 0"
    and "\<not> in_segment ph w \<Longrightarrow> paging_get_phys s' w = paging_get_phys s w"
    and "off_tables s X \<Longrightarrow> same_frames X s s'"
    and "pg_inv s'"
proof -
  have main: "(\<forall>i < unat (p_memsz ph). paging_get_phys s' (p_vaddr ph + of_nat i) \<noteq> 0 \<and>
      pmem (pg_pmm s') (paging_get_phys s' (p_vaddr ph + of_nat i)) =
        (if in_file elf_size ph \<and> i < unat (p_filesz ph) then f (p_offset ph + of_nat i) else 0)) \<and>
    (\<forall>w. in_segment ph w \<longrightarrow> unat w < unat (p_vaddr ph) \<or> unat (p_vaddr ph) + unat (p_memsz ph) \<le> unat w \<longrightarrow>
      paging_get_phys s' w \<noteq> 0 \<longrightarrow> pmem (pg_pmm s') (paging_get_phys s' w) = 0) \<and>
    (\<forall>w. \<not> in_segment ph w \<longrightarrow> paging_get_phys s' w = paging_get_phys s w) \<and> same_frames X s s' \<and> pg_inv s'"
    if X: "off_tables s X" for X
  proof -
    let ?v = "p_vaddr ph" and ?m = "unat (p_memsz ph)" and ?fs = "unat (p_filesz ph)"
    obtain s1 where m: "elf_map_pages (segment_pages ph) 0 (align_down ?v 4096) s = (True, s1)"
      using ok segment_pages_unat [OF nov] by (auto simp: elf_segment_def Let_def split: if_splits prod.splits)
    obtain Y where Y: "pg_inv s1" "off_tables s1 Y" "off_tables s1 X" "X \<inter> Y = {}" "same_frames X s s1"
      "\<And>a k. a \<in> Y \<Longrightarrow> k < 4096 \<Longrightarrow> pmem (pg_pmm s1) (a + of_nat k) = 0"
      "\<And>w p. in_segment ph w \<Longrightarrow> va_write s1 w = Some p \<Longrightarrow> p \<noteq> 0 \<and> (\<exists>a \<in> Y. \<exists>k < 4096. p = a + of_nat k)"
      "\<And>w. in_segment ph w \<Longrightarrow> paging_get_phys s1 w \<noteq> 0 \<Longrightarrow> \<exists>a \<in> Y. \<exists>k < 4096. paging_get_phys s1 w = a + of_nat k"
      "\<And>w x. in_segment ph w \<Longrightarrow> in_segment ph x \<Longrightarrow> paging_get_phys s1 w \<noteq> 0 \<Longrightarrow> paging_get_phys s1 w = paging_get_phys s1 x \<Longrightarrow> w = x"
      "\<And>w. \<not> in_segment ph w \<Longrightarrow> paging_get_phys s1 w = paging_get_phys s w"
    proof (rule elf_mapped [OF inv nov _ X m])
      show "small_pages s w" if "in_segment ph w" for w using that by (rule small)
    qed (rule that)
    define a where "a i = ?v + of_nat i" for i :: nat
    have a: "in_segment ph (a i)" "unat (a i) = unat ?v + i" if "i < ?m" for i
      using segment_addr [OF nov that] by (simp_all add: a_def)
    have fm: "?fs \<le> ?m" using fits by (simp add: word_le_nat_alt)
    obtain s2 where z: "vfill ?v (replicate ?m 0) s1 = Some s2"
      and s': "s' = s2 \<and> \<not> in_file elf_size ph \<or>
        in_file elf_size ph \<and> vfill ?v (map (\<lambda>i. f (p_offset ph + of_nat i)) [0..<?fs]) s2 = Some s'"
      using ok segment_pages_unat [OF nov] m
      by (auto simp: elf_segment_def in_file_def Let_def split: if_splits option.splits)
    have tgt: "\<forall>i < n. \<forall>p. va_write s1 (?v + of_nat i) = Some p \<longrightarrow> (\<exists>a \<in> Y. \<exists>k < 4096. p = a + of_nat k)" if "n \<le> ?m" for n
    proof (intro allI impI)
      fix i p assume "i < n" and p: "va_write s1 (?v + of_nat i) = Some p"
      then have "in_segment ph (?v + of_nat i)" using a(1) [of i] that by (simp add: a_def)
      from Y(7) [OF this p] show "\<exists>a \<in> Y. \<exists>k < 4096. p = a + of_nat k" by blast
    qed
    from vfill_spec [OF Y(1,2) _ z] tgt [of ?m]
    have f1: "pg_inv s2" "off_tables s2 Y" "va_write s2 = va_write s1" "paging_get_phys s2 = paging_get_phys s1"
      "\<And>i. i < ?m \<Longrightarrow> va_write s1 (a i) \<noteq> None"
      "\<And>x. (\<forall>i < ?m. va_write s1 (a i) \<noteq> Some x) \<Longrightarrow> pmem (pg_pmm s2) x = pmem (pg_pmm s1) x"
      "(\<forall>i j. i < j \<and> j < ?m \<longrightarrow> va_write s1 (a i) \<noteq> va_write s1 (a j)) \<Longrightarrow>
         \<forall>i < ?m. \<forall>p. va_write s1 (a i) = Some p \<longrightarrow> pmem (pg_pmm s2) p = 0"
      by (simp_all add: a_def)
    have vw: "va_write s1 (a i) = Some (paging_get_phys s1 (a i))" "paging_get_phys s1 (a i) \<noteq> 0" if i: "i < ?m" for i
    proof -
      obtain p where p: "va_write s1 (a i) = Some p" using f1(5) [OF i] by blast
      from va_write_phys [OF this] Y(7) [OF a(1) [OF i] this] p
      show "va_write s1 (a i) = Some (paging_get_phys s1 (a i))" "paging_get_phys s1 (a i) \<noteq> 0" by auto
    qed
    have neq: "va_write s1 (a i) \<noteq> va_write s1 (a j)" if "i < j" "j < ?m" for i j
    proof
      assume "va_write s1 (a i) = va_write s1 (a j)"
      then have "paging_get_phys s1 (a i) = paging_get_phys s1 (a j)" using vw(1) [of i] vw(1) [of j] that by simp
      then have "a i = a j" using Y(9) [OF a(1) a(1)] vw(2) that by (meson less_trans)
      then show False using a(2) [of i] a(2) [of j] that by simp
    qed
    let ?gp = "paging_get_phys s1"
    have zero: "pmem (pg_pmm s2) (?gp (a i)) = 0" if "i < ?m" for i
      using f1(7) neq vw(1) that by blast
    have s'_eq: "pg_inv s' \<and> paging_get_phys s' = ?gp \<and>
      (\<forall>x. (\<forall>i < ?m. va_write s1 (a i) \<noteq> Some x) \<longrightarrow> pmem (pg_pmm s') x = pmem (pg_pmm s1) x) \<and>
      (\<forall>i < ?m. pmem (pg_pmm s') (?gp (a i)) = (if in_file elf_size ph \<and> i < ?fs then f (p_offset ph + of_nat i) else 0))"
    proof (cases "in_file elf_size ph")
      case False
      then show ?thesis using s' f1 zero by simp
    next
      case True
      let ?bs = "map (\<lambda>i. f (p_offset ph + of_nat i)) [0..<?fs]"
      have w: "vfill ?v ?bs s2 = Some s'" using s' True by blast
      have t2: "\<forall>i < length ?bs. \<forall>p. va_write s2 (?v + of_nat i) = Some p \<longrightarrow> (\<exists>a \<in> Y. \<exists>k < 4096. p = a + of_nat k)"
        using tgt [OF fm] by (simp add: f1(3))
      note sp2 = vfill_spec [OF f1(1,2) t2 w, unfolded f1(3,4) a_def [symmetric]]
      have keep: "pmem (pg_pmm s') x = pmem (pg_pmm s2) x" if "\<forall>i < ?fs. va_write s1 (a i) \<noteq> Some x" for x
        using sp2 that by simp
      have val: "pmem (pg_pmm s') (?gp (a i)) = f (p_offset ph + of_nat i)" if "i < ?fs" for i
      proof -
        have "\<forall>i j. i < j \<and> j < length ?bs \<longrightarrow> va_write s1 (a i) \<noteq> va_write s1 (a j)" using neq fm by simp
        then have "pmem (pg_pmm s') (?gp (a i)) = ?bs ! i" using sp2 vw(1) [of i] that fm by simp
        then show ?thesis using that by simp
      qed
      have rest: "pmem (pg_pmm s') (?gp (a i)) = 0" if "i < ?m" "?fs \<le> i" for i
      proof -
        have "va_write s1 (a j) \<noteq> Some (?gp (a i))" if "j < ?fs" for j
          using neq [of j i] vw(1) [of i] \<open>i < ?m\<close> \<open>?fs \<le> i\<close> that by simp
        then show ?thesis using keep zero [OF that(1)] by simp
      qed
      have nt: "pmem (pg_pmm s') x = pmem (pg_pmm s1) x" if "\<forall>i < ?m. va_write s1 (a i) \<noteq> Some x" for x
        using keep [of x] f1(6) [of x] that fm by simp
      show ?thesis using sp2 nt val rest True by simp
    qed
    have outside: "pmem (pg_pmm s') (?gp w) = 0"
      if w: "in_segment ph w" "unat w < unat ?v \<or> unat ?v + ?m \<le> unat w" "?gp w \<noteq> 0" for w
    proof -
      have "va_write s1 (a i) \<noteq> Some (?gp w)" if "i < ?m" for i
      proof
        assume "va_write s1 (a i) = Some (?gp w)"
        then have "?gp (a i) = ?gp w" by (rule va_write_phys)
        then have "a i = w" using Y(9) [OF a(1) [OF that] w(1)] vw(2) [OF that] by simp
        then show False using a(2) [OF that] w(2) that by auto
      qed
      then have "pmem (pg_pmm s') (?gp w) = pmem (pg_pmm s1) (?gp w)" using s'_eq by blast
      moreover obtain b k where "b \<in> Y" "k < 4096" "?gp w = b + of_nat k" using Y(8) [OF w(1,3)] by blast
      ultimately show ?thesis using Y(6) by simp
    qed
    have "same_frames X s1 s'"
      unfolding same_frames_def
    proof (intro ballI allI impI)
      fix b and k :: nat assume b: "b \<in> X" "k < 4096"
      have "va_write s1 (a i) \<noteq> Some (b + of_nat k)" if i: "i < ?m" for i
      proof
        assume "va_write s1 (a i) = Some (b + of_nat k)"
        then obtain c l where c: "c \<in> Y" "l < 4096" "b + of_nat k = c + of_nat l" using Y(7) [OF a(1) [OF i]] by blast
        have "c \<noteq> b" using b c Y(4) by auto
        from other_frame [OF owned_aligned [OF Y(1)] owned_aligned [OF Y(1)] this c(2)] c(1) b(1) Y(2,3)
        have "\<not> unat (c + of_nat l - b) < 4096" by (auto simp: off_tables_def)
        then show False using in_own_frame [OF b(2), of b] c(3) by simp
      qed
      then show "pmem (pg_pmm s') (b + of_nat k) = pmem (pg_pmm s1) (b + of_nat k)" using s'_eq by blast
    qed
    then have "same_frames X s s'" using Y(5) by (simp add: same_frames_def)
    then show ?thesis using s'_eq outside vw(2) Y(10) by (simp add: a_def)
  qed
  show "i < unat (p_memsz ph) \<Longrightarrow> paging_get_phys s' (p_vaddr ph + of_nat i) \<noteq> 0 \<and>
      pmem (pg_pmm s') (paging_get_phys s' (p_vaddr ph + of_nat i)) =
        (if in_file elf_size ph \<and> i < unat (p_filesz ph) then f (p_offset ph + of_nat i) else 0)"
    "in_segment ph w \<Longrightarrow> unat w < unat (p_vaddr ph) \<or> unat (p_vaddr ph) + unat (p_memsz ph) \<le> unat w \<Longrightarrow>
      paging_get_phys s' w \<noteq> 0 \<Longrightarrow> pmem (pg_pmm s') (paging_get_phys s' w) = 0"
    "\<not> in_segment ph w \<Longrightarrow> paging_get_phys s' w = paging_get_phys s w"
    "pg_inv s'"
    using main [of "{}"] by (auto simp: off_tables_def)
  show "off_tables s X \<Longrightarrow> same_frames X s s'" using main by blast
qed

section \<open>Segments in low memory\<close>

text \<open>The address lies in a large writable page that maps it to itself, as \<open>paging_init\<close> maps the first 256 MB.\<close>

definition identity_at :: "paging \<Rightarrow> u32 \<Rightarrow> bool" where
  "identity_at s w \<longleftrightarrow> (let pde = kernel_pd s ! pd_index w in
     pde AND PDE_PRESENT \<noteq> 0 \<and> pde AND PDE_WRITABLE \<noteq> 0 \<and> pde AND PDE_HUGE \<noteq> 0 \<and> (pde AND 0xFFC00000) OR (w AND 0x3FFFFF) = w)"

lemma identity_write: "identity_at s w \<Longrightarrow> va_write s w = Some w"
  by (simp add: identity_at_def va_write_def Let_def)

lemma identity_map_page: "identity_at s w \<Longrightarrow> paging_map_page w p f s = (- 1, s)"
  by (simp add: identity_at_def paging_map_page_def get_or_alloc_pt_def Let_def)

lemma elf_map_pages_identity:
  "\<forall>j. k \<le> j \<and> j < k + n \<longrightarrow> identity_at s (page_k v j) \<Longrightarrow> elf_map_pages n (of_nat k) v s = (True, s') \<Longrightarrow>
   kernel_pd s' = kernel_pd s \<and> free_pages (pg_pmm s') = free_pages (pg_pmm s) - of_nat n"
proof (induction n arbitrary: k s)
  case (Suc n)
  obtain a pm where al: "pmm_alloc_page (pg_pmm s) = (a, pm)" by fastforce
  have nz: "a \<noteq> 0" using Suc.prems(2) al by (auto simp: Let_def)
  let ?s = "s\<lparr>pg_pmm := pm\<rparr>"
  have fr: "free_pages pm = free_pages (pg_pmm s) - 1"
    using al nz by (auto simp: pmm_alloc_page_def Let_def split: option.splits)
  have "identity_at ?s (page_k v k)" using Suc.prems(1) by (simp add: identity_at_def)
  then have rest: "elf_map_pages n (of_nat (Suc k)) v ?s = (True, s')"
    using Suc.prems(2) al nz identity_map_page [of ?s "page_k v k"] by (simp add: page_k_def Let_def add.commute)
  have "\<forall>j. Suc k \<le> j \<and> j < Suc k + n \<longrightarrow> identity_at ?s (page_k v j)" using Suc.prems(1) by (simp add: identity_at_def)
  from Suc.IH [OF this rest] fr show ?case by simp
qed simp

lemma vfill_identity:
  assumes "\<And>i. i < length bs \<Longrightarrow> identity_at s (v + of_nat i)" "unat v + length bs < 2 ^ 32" "vfill v bs s = Some s'"
  shows "kernel_pd s' = kernel_pd s \<and> free_pages (pg_pmm s') = free_pages (pg_pmm s) \<and>
    (\<forall>i < length bs. pmem (pg_pmm s') (v + of_nat i) = bs ! i) \<and>
    (\<forall>x. \<not> (unat v \<le> unat x \<and> unat x < unat v + length bs) \<longrightarrow> pmem (pg_pmm s') x = pmem (pg_pmm s) x)"
  using assms
proof (induction bs arbitrary: v s)
  case (Cons b bs)
  have w: "va_write s v = Some v" using identity_write [of s v] Cons.prems(1) [of 0] by simp
  have v1: "unat (v + 1) = unat v + 1" using Cons.prems(2) by (simp add: unat_word_ariths)
  have idn: "identity_at (poke v b s) (v + 1 + of_nat i)" if "i < length bs" for i
    using Cons.prems(1) [of "Suc i"] that by (simp add: identity_at_def poke_def add.assoc)
  have "vfill (v + 1) bs (poke v b s) = Some s'" using Cons.prems(3) w by simp
  from Cons.IH [OF idn _ this] Cons.prems(2) v1
  have IH: "kernel_pd s' = kernel_pd s" "free_pages (pg_pmm s') = free_pages (pg_pmm s)"
    "\<And>i. i < length bs \<Longrightarrow> pmem (pg_pmm s') (v + 1 + of_nat i) = bs ! i"
    "\<And>x. \<not> (unat v + 1 \<le> unat x \<and> unat x < unat v + 1 + length bs) \<Longrightarrow> pmem (pg_pmm s') x = pmem (pg_pmm (poke v b s)) x"
    by (auto simp: poke_def)
  have "pmem (pg_pmm s') (v + of_nat i) = (b # bs) ! i" if "i < length (b # bs)" for i
    using that IH(3) IH(4) [of v] by (cases i) (auto simp: poke_def add.assoc)
  moreover have "pmem (pg_pmm s') x = pmem (pg_pmm s) x" if "\<not> (unat v \<le> unat x \<and> unat x < unat v + length (b # bs))" for x
    using IH(4) [of x] that by (auto simp: poke_def)
  ultimately show ?case using IH(1,2) by blast
qed simp

theorem elf_low_memory_overwritten:
  assumes nov: "unat (p_vaddr ph) + unat (p_memsz ph) + 4095 < 2 ^ 32" and fits: "p_filesz ph \<le> p_memsz ph"
    and idn: "\<And>w. in_segment ph w \<Longrightarrow> identity_at s w" and ok: "elf_segment f elf_size ph s = Some (0, s')"
  shows "kernel_pd s' = kernel_pd s" "free_pages (pg_pmm s') = free_pages (pg_pmm s) - of_nat (segment_pages ph)"
    and "i < unat (p_memsz ph) \<Longrightarrow> pmem (pg_pmm s') (p_vaddr ph + of_nat i) =
      (if in_file elf_size ph \<and> i < unat (p_filesz ph) then f (p_offset ph + of_nat i) else 0)"
proof -
  let ?v = "p_vaddr ph" and ?m = "unat (p_memsz ph)" and ?fs = "unat (p_filesz ph)"
  obtain s1 where m: "elf_map_pages (segment_pages ph) 0 (align_down ?v 4096) s = (True, s1)"
    using ok segment_pages_unat [OF nov] by (auto simp: elf_segment_def Let_def split: if_splits prod.splits)
  have "\<forall>j. 0 \<le> j \<and> j < 0 + segment_pages ph \<longrightarrow> identity_at s (page_k (align_down ?v 4096) j)"
    using segment_page_same [OF nov] idn by auto
  from elf_map_pages_identity [OF this, of s1] m
  have s1: "kernel_pd s1 = kernel_pd s" "free_pages (pg_pmm s1) = free_pages (pg_pmm s) - of_nat (segment_pages ph)" by simp_all
  have id1: "identity_at t (?v + of_nat i)" if "kernel_pd t = kernel_pd s" "i < ?m" for t i
    using idn [OF segment_addr(2) [OF nov that(2)]] that(1) by (simp add: identity_at_def)
  have fm: "?fs \<le> ?m" using fits by (simp add: word_le_nat_alt)
  obtain s2 where z: "vfill ?v (replicate ?m 0) s1 = Some s2"
    and s': "s' = s2 \<and> \<not> in_file elf_size ph \<or>
      in_file elf_size ph \<and> vfill ?v (map (\<lambda>i. f (p_offset ph + of_nat i)) [0..<?fs]) s2 = Some s'"
    using ok segment_pages_unat [OF nov] m by (auto simp: elf_segment_def in_file_def Let_def split: if_splits option.splits)
  have f1: "kernel_pd s2 = kernel_pd s" "free_pages (pg_pmm s2) = free_pages (pg_pmm s1)"
    "\<And>i. i < ?m \<Longrightarrow> pmem (pg_pmm s2) (?v + of_nat i) = 0"
    using vfill_identity [OF _ _ z] id1 [OF s1(1)] nov s1(1) by auto
  have "kernel_pd s' = kernel_pd s \<and> free_pages (pg_pmm s') = free_pages (pg_pmm s1) \<and>
    (\<forall>i < ?m. pmem (pg_pmm s') (?v + of_nat i) = (if in_file elf_size ph \<and> i < ?fs then f (p_offset ph + of_nat i) else 0))"
  proof (cases "in_file elf_size ph")
    case False
    then show ?thesis using s' f1 by simp
  next
    case True
    let ?bs = "map (\<lambda>i. f (p_offset ph + of_nat i)) [0..<?fs]"
    have w: "vfill ?v ?bs s2 = Some s'" using s' True by blast
    have "i < length ?bs \<Longrightarrow> identity_at s2 (?v + of_nat i)" for i using id1 [OF f1(1), of i] fm by simp
    from vfill_identity [OF this _ w] nov fm
    have f2: "kernel_pd s' = kernel_pd s2" "free_pages (pg_pmm s') = free_pages (pg_pmm s2)"
      "\<And>i. i < ?fs \<Longrightarrow> pmem (pg_pmm s') (?v + of_nat i) = f (p_offset ph + of_nat i)"
      "\<And>x. \<not> (unat ?v \<le> unat x \<and> unat x < unat ?v + ?fs) \<Longrightarrow> pmem (pg_pmm s') x = pmem (pg_pmm s2) x"
      by auto
    have "pmem (pg_pmm s') (?v + of_nat i) = 0" if "i < ?m" "?fs \<le> i" for i
      using f2(4) [of "?v + of_nat i"] segment_addr(1) [OF nov that(1)] that f1(3) by simp
    then show ?thesis using f1 f2 True by simp
  qed
  then show "kernel_pd s' = kernel_pd s" "free_pages (pg_pmm s') = free_pages (pg_pmm s) - of_nat (segment_pages ph)"
    "i < unat (p_memsz ph) \<Longrightarrow> pmem (pg_pmm s') (p_vaddr ph + of_nat i) =
      (if in_file elf_size ph \<and> i < unat (p_filesz ph) then f (p_offset ph + of_nat i) else 0)"
    using s1(2) by simp_all
qed

section \<open>Error codes\<close>

theorem elf32_load_errors:
  assumes "elf32_load elf elf_size s = Some (r, e, s')"
  shows "(r = - 1 \<longrightarrow> s' = s \<and> (elf = None \<or> elf_size < ELF_HDR_SIZE)) \<and> r \<in> {0, - 1, - 2, - 3, - 4, - 5} \<and> (e \<noteq> None \<longleftrightarrow> r = 0) \<and>
     (r \<in> {- 1, - 2, - 3, - 4} \<longrightarrow> s' = s)"
proof -
  have seg: "r \<in> {0, - 5}" if "elf_segments f es a n s = Some (r, s')" for f es a n s
    using that
  proof (induction n arbitrary: a s)
    case (Suc n)
    then show ?case
      by (auto simp: elf_segment_def Let_def split: if_splits option.splits prod.splits)
  qed simp
  show ?thesis
    using assms by (auto simp: elf32_load_def Let_def split: option.splits if_splits dest!: seg)
qed

section \<open>Segments that load\<close>

definition table_ready :: "paging \<Rightarrow> u32 \<Rightarrow> bool" where
  "table_ready s w \<longleftrightarrow> has_table s (pd_index w) \<and> kernel_pd s ! pd_index w AND PDE_WRITABLE \<noteq> 0"

definition page_ready :: "paging \<Rightarrow> u32 \<Rightarrow> bool" where
  "page_ready s w \<longleftrightarrow> table_ready s w \<and> pte_of s w AND PDE_PRESENT \<noteq> 0 \<and> pte_of s w AND PDE_WRITABLE \<noteq> 0"

definition spare_frames :: "paging \<Rightarrow> nat" where
  "spare_frames s = card (free_set (pg_pmm s) - {0})"

lemma page_ready_write: "page_ready s w \<Longrightarrow> va_write s w \<noteq> None"
  by (auto simp: page_ready_def table_ready_def va_write_def has_table_def pte_of_def table_of_def Let_def)

lemma elf_pte_flags:
  fixes a :: u32
  defines "e \<equiv> (a AND PAGE_MASK) OR PDE_PRESENT OR ((PDE_PRESENT OR PDE_WRITABLE OR PDE_USER) AND 0xFFF)"
  shows "e AND PDE_PRESENT \<noteq> 0" "e AND PDE_WRITABLE \<noteq> 0"
proof -
  have P: "PDE_PRESENT = push_bit 0 1" "PDE_WRITABLE = push_bit 1 1" "PDE_USER = push_bit 2 1"
    by (simp_all add: PDE_PRESENT_def PDE_WRITABLE_def PDE_USER_def)
  show "e AND PDE_PRESENT \<noteq> 0" unfolding e_def by (rule pte_value(1))
  have "bit e 1" unfolding e_def bit_or_iff bit_and_iff P bit_push1 bit_0xFFF by simp
  then show "e AND PDE_WRITABLE \<noteq> 0" unfolding P and_push1 by simp
qed

lemma alloc_spare:
  assumes inv: "pg_inv s" and al: "pmm_alloc_page (pg_pmm s) = (a, pm)"
  shows "0 < spare_frames s \<Longrightarrow> a \<noteq> 0" "a \<noteq> 0 \<Longrightarrow> card (free_set pm - {0}) + 1 = spare_frames s"
proof -
  have pinv: "pmm_inv (pg_pmm s)" using inv by (simp add: pg_inv_def)
  show "a \<noteq> 0" if "0 < spare_frames s"
  proof -
    have "free_set (pg_pmm s) - {0} \<noteq> {}" using that by (metis card.empty less_not_refl spare_frames_def)
    then obtain p where "p \<in> free_set (pg_pmm s)" "p \<noteq> 0" by blast
    then show ?thesis using pmm_alloc_page_avail [OF pinv] al by (metis fst_conv)
  qed
  assume nz: "a \<noteq> 0"
  show "card (free_set pm - {0}) + 1 = spare_frames s"
  proof (cases rule: pmm_alloc_page_cases [OF pinv, case_names found full])
    case (found p)
    have "free_set pm = free_set (pg_pmm s) - {p}"
    proof -
      have "pm = (pg_pmm s)\<lparr>bitmap := bm_set (bitmap (pg_pmm s)) p, free_pages := free_pages (pg_pmm s) - 1,
         pmem := memset (PFN_TO_ADDR p) 0 PAGE_SIZE (pmem (pg_pmm s))\<rparr>" using al found(4) by auto
      then show ?thesis using take_page(2) [OF pinv found(1)] by (simp add: free_set_def)
    qed
    then have "free_set pm - {0} = free_set (pg_pmm s) - {0} - {p}" by auto
    moreover have "p \<in> free_set (pg_pmm s) - {0}" using found(1,2) by simp
    ultimately show ?thesis
      by (metis (no_types, lifting) Suc_eq_plus1 card_Suc_Diff1 finite_Diff finite_free_set spare_frames_def)
  qed (use al nz in simp)
qed

lemma alloc_pte:
  assumes inv: "pg_inv s" and al: "pmm_alloc_page (pg_pmm s) = (a, pm)" and nz: "a \<noteq> 0" and t: "has_table s (pd_index w)"
  shows "pte_of (s\<lparr>pg_pmm := pm\<rparr>) w = pte_of s w"
proof -
  have pinv: "pmm_inv (pg_pmm s)" using inv by (simp add: pg_inv_def)
  note fresh = pmm_alloc_page_fresh [OF pinv al]
  have a: "a \<notin> pmm_owned (pg_pmm s)" "unat a mod 4096 = 0" using fresh(2) [OF nz] by blast+
  have "a \<noteq> table_of s (pd_index w)" using inv a(1) t pd_index_bound by (auto simp: pg_inv_def)
  from load32_other_frame [OF a(2) table_aligned this pt_index_less, of "pmem pm" "pmem (pg_pmm s)"] fresh(3) [OF nz]
  show ?thesis by (simp add: pte_of_def table_of_def)
qed

lemma elf_map_pages_succeeds:
  assumes "pg_inv s" "k + n \<le> 1048576" "\<forall>j. k \<le> j \<and> j < k + n \<longrightarrow> table_ready s (page_k v j)" "n \<le> spare_frames s"
  shows "\<exists>s'. elf_map_pages n (of_nat k) v s = (True, s') \<and> (\<forall>w. table_ready s w \<longrightarrow> table_ready s' w) \<and>
    (\<forall>w. page_ready s w \<longrightarrow> page_ready s' w) \<and>
    (\<forall>j w. k \<le> j \<and> j < k + n \<and> drop_bit 12 w = drop_bit 12 (page_k v j) \<longrightarrow> page_ready s' w)"
  using assms
proof (induction n arbitrary: k s)
  case (Suc n)
  obtain a pm where al: "pmm_alloc_page (pg_pmm s) = (a, pm)" by fastforce
  note spare = alloc_spare [OF Suc.prems(1) al]
  have nz: "a \<noteq> 0" using spare(1) Suc.prems(4) by simp
  let ?s = "s\<lparr>pg_pmm := pm\<rparr>" and ?e = "(a AND PAGE_MASK) OR PDE_PRESENT OR ((PDE_PRESENT OR PDE_WRITABLE OR PDE_USER) AND 0xFFF)"
  note k1 = alloc_keeps [OF Suc.prems(1) al nz, of "{}"]
  have inv1: "pg_inv ?s" by (rule k1) (simp add: off_tables_def)
  have ht: "has_table ?s = has_table s" by (rule k1) (simp add: off_tables_def)
  have tr: "table_ready s (page_k v k)" using Suc.prems(3) by simp
  then have t: "has_table ?s (pd_index (page_k v k))" by (simp add: ht table_ready_def)
  define s1 where "s1 = set_pte (page_k v k) ?e ?s"
  have m: "paging_map_page (page_k v k) a (PDE_PRESENT OR PDE_WRITABLE OR PDE_USER) ?s = (0, s1)"
    by (cases rule: paging_map_page_cases [OF inv1, of "page_k v k" a "PDE_PRESENT OR PDE_WRITABLE OR PDE_USER", case_names mapped failed])
      (use t s1_def in auto)
  have tr1: "table_ready s1 w = table_ready s w" for w by (simp add: table_ready_def s1_def ht)
  have pte1: "pte_of s1 w = (if drop_bit 12 w = drop_bit 12 (page_k v k) then ?e else pte_of s w)" if "table_ready s w" for w
    using pte_of_set_pte [OF inv1 t, of w ?e] alloc_pte [OF Suc.prems(1) al nz, of w] that by (simp add: s1_def ht table_ready_def)
  have pr1: "page_ready s1 w" if "page_ready s w" for w
    using that pte1 [of w] tr1 [of w] elf_pte_flags [of a] by (simp add: page_ready_def)
  have here: "page_ready s1 w" if "drop_bit 12 w = drop_bit 12 (page_k v k)" for w
  proof -
    have "pd_index w = pd_index (page_k v k)" using that same_page_iff by blast
    then have "table_ready s w" using tr by (simp add: table_ready_def)
    then show ?thesis using that pte1 [of w] tr1 [of w] elf_pte_flags [of a] by (simp add: page_ready_def)
  qed
  have "n \<le> spare_frames s1"
    using spare(2) [OF nz] Suc.prems(4) by (simp add: spare_frames_def s1_def set_pte_def)
  then obtain s' where s': "elf_map_pages n (of_nat (Suc k)) v s1 = (True, s')" "\<And>w. table_ready s1 w \<Longrightarrow> table_ready s' w"
    "\<And>w. page_ready s1 w \<Longrightarrow> page_ready s' w"
    "\<And>j w. Suc k \<le> j \<Longrightarrow> j < Suc k + n \<Longrightarrow> drop_bit 12 w = drop_bit 12 (page_k v j) \<Longrightarrow> page_ready s' w"
    using Suc.IH [of s1 "Suc k"] Suc.prems(2,3) inv1 tr1 by (auto simp: s1_def)
  have "elf_map_pages (Suc n) (of_nat k) v s = (True, s')"
    using s'(1) al nz m by (simp add: page_k_def Let_def add.commute)
  moreover have "page_ready s' w" if "k \<le> j" "j < k + Suc n" "drop_bit 12 w = drop_bit 12 (page_k v j)" for j w
  proof (cases "j = k")
    case True
    then show ?thesis using that(3) here s'(3) by simp
  next
    case False
    then have "Suc k \<le> j" using that(1) by simp
    then show ?thesis using s'(4) [of j w] that by simp
  qed
  ultimately show ?case using s'(2,3) tr1 pr1 by blast
qed auto

lemma vfill_succeeds:
  assumes "pg_inv s" "off_tables s X" "\<forall>i < length bs. \<exists>a \<in> X. \<exists>k < 4096. va_write s (v + of_nat i) = Some (a + of_nat k)"
  shows "vfill v bs s \<noteq> None"
  using assms
proof (induction bs arbitrary: v s)
  case (Cons b bs)
  obtain a k where a: "a \<in> X" "k < 4096" "va_write s v = Some (a + of_nat k)" using Cons.prems(3) by force
  note pk = poke_keeps [OF Cons.prems(1,2) a(1,2), of b]
  have "\<forall>i < length bs. \<exists>a \<in> X. \<exists>k < 4096. va_write s (v + 1 + of_nat i) = Some (a + of_nat k)"
  proof (intro allI impI)
    fix i assume "i < length bs"
    then have "Suc i < length (b # bs)" by simp
    from Cons.prems(3) [rule_format, OF this]
    show "\<exists>a \<in> X. \<exists>k < 4096. va_write s (v + 1 + of_nat i) = Some (a + of_nat k)" by (simp add: add.assoc)
  qed
  then have "vfill (v + 1) bs (poke (a + of_nat k) b s) \<noteq> None"
    by (intro Cons.IH) (use pk Cons.prems(2) in simp_all)
  then show ?case using a(3) by simp
qed simp

text \<open>Enough spare frames and writable page tables: the segment loads.\<close>

lemma elf_segment_succeeds:
  assumes inv: "pg_inv s" and nov: "unat (p_vaddr ph) + unat (p_memsz ph) + 4095 < 2 ^ 32" and fits: "p_filesz ph \<le> p_memsz ph"
    and ready: "\<And>w. in_segment ph w \<Longrightarrow> table_ready s w" and spare: "segment_pages ph \<le> spare_frames s"
  shows "\<exists>s'. elf_segment f elf_size ph s = Some (0, s')"
proof -
  let ?v = "p_vaddr ph" and ?base = "align_down (p_vaddr ph) 4096" and ?m = "unat (p_memsz ph)" and ?fs = "unat (p_filesz ph)"
  note same = segment_page_same [OF nov]
  have n: "segment_pages ph \<le> 1048576" using nov by (auto simp: segment_pages_def less_mult_imp_div_less intro: le_trans)
  have "\<forall>j. 0 \<le> j \<and> j < 0 + segment_pages ph \<longrightarrow> table_ready s (page_k ?base j)"
    using same ready by auto
  from elf_map_pages_succeeds [OF inv _ this spare] n obtain s1 where
    m: "elf_map_pages (segment_pages ph) 0 ?base s = (True, s1)"
    and rd: "\<And>j w. j < segment_pages ph \<Longrightarrow> drop_bit 12 w = drop_bit 12 (page_k ?base j) \<Longrightarrow> page_ready s1 w"
    by auto
  have small: "small_pages s w" if "in_segment ph w" for w
    using ready [OF that] by (simp add: small_pages_def table_ready_def)
  have X: "off_tables s {}" by (simp add: off_tables_def)
  obtain Y where Y: "pg_inv s1" "off_tables s1 Y"
      "\<And>w p. in_segment ph w \<Longrightarrow> va_write s1 w = Some p \<Longrightarrow> p \<noteq> 0 \<and> (\<exists>a \<in> Y. \<exists>k < 4096. p = a + of_nat k)"
  proof (rule elf_mapped [OF inv nov _ X m])
    show "small_pages s w" if "in_segment ph w" for w using that by (rule small)
  qed (rule that)
  have w1: "\<exists>a \<in> Y. \<exists>k < 4096. va_write s1 (?v + of_nat i) = Some (a + of_nat k)" if i: "i < ?m" for i
  proof -
    note a = segment_addr(2) [OF nov i]
    have "page_ready s1 (?v + of_nat i)"
      by (rule rd [OF segment_page_less [OF a]]) (use same [OF segment_page_less [OF a], of "?v + of_nat i"] a in simp)
    then obtain p where p: "va_write s1 (?v + of_nat i) = Some p" using page_ready_write by blast
    from Y(3) [OF a p] obtain b k where "b \<in> Y" "k < 4096" "p = b + of_nat k" by blast
    with p show ?thesis by blast
  qed
  have "vfill ?v (replicate ?m 0) s1 \<noteq> None"
    by (rule vfill_succeeds [OF Y(1,2)]) (simp add: w1)
  then obtain s2 where s2: "vfill ?v (replicate ?m 0) s1 = Some s2" by blast
  have "\<forall>i < length (replicate ?m (0 :: u8)). \<forall>p. va_write s1 (?v + of_nat i) = Some p \<longrightarrow> (\<exists>a \<in> Y. \<exists>k < 4096. p = a + of_nat k)"
    using w1 by fastforce
  from vfill_spec [OF Y(1,2) this s2] have k2: "pg_inv s2" "off_tables s2 Y" "va_write s2 = va_write s1" by blast+
  have fm: "?fs \<le> ?m" using fits by (simp add: word_le_nat_alt)
  have "vfill ?v (map (\<lambda>i. f (p_offset ph + of_nat i)) [0..<?fs]) s2 \<noteq> None"
    by (rule vfill_succeeds [OF k2(1,2)]) (use w1 fm in \<open>simp add: k2(3)\<close>)
  then show ?thesis
    using m s2 segment_pages_unat [OF nov] by (auto simp: elf_segment_def Let_def)
qed

section \<open>Properties\<close>

text \<open>
  C3: A program segment whose pages have writable page tables, with enough spare frames, loads: afterwards every address of the segment is mapped and holds the
  byte of the file, or zero past the file's part (or everywhere, if that part does not lie in the file); the rest of its pages
  reads zero; and every address outside its pages is mapped as before.
\<close>

theorem elf_segment_loaded:
  assumes "pg_inv s" "unat (p_vaddr ph) + unat (p_memsz ph) + 4095 < 2 ^ 32" "p_filesz ph \<le> p_memsz ph"
    "\<And>w. in_segment ph w \<Longrightarrow> table_ready s w" "segment_pages ph \<le> spare_frames s"
  shows "\<exists>s'. elf_segment f elf_size ph s = Some (0, s') \<and> pg_inv s' \<and>
    (\<forall>i < unat (p_memsz ph). paging_get_phys s' (p_vaddr ph + of_nat i) \<noteq> 0 \<and>
       pmem (pg_pmm s') (paging_get_phys s' (p_vaddr ph + of_nat i)) =
         (if in_file elf_size ph \<and> i < unat (p_filesz ph) then f (p_offset ph + of_nat i) else 0)) \<and>
    (\<forall>w. in_segment ph w \<and> (unat w < unat (p_vaddr ph) \<or> unat (p_vaddr ph) + unat (p_memsz ph) \<le> unat w) \<and> paging_get_phys s' w \<noteq> 0 \<longrightarrow>
       pmem (pg_pmm s') (paging_get_phys s' w) = 0) \<and>
    (\<forall>w. \<not> in_segment ph w \<longrightarrow> paging_get_phys s' w = paging_get_phys s w)"
proof -
  have small: "small_pages s w" if "in_segment ph w" for w
    using assms(4) [OF that] by (simp add: small_pages_def table_ready_def)
  obtain s' where s': "elf_segment f elf_size ph s = Some (0, s')" using elf_segment_succeeds [OF assms] by blast
  note c = elf_segment_content [OF assms(1-3) small s']
  show ?thesis using s' c(1-3,5) by blast
qed

definition elf_demo :: elf32_phdr where
  "elf_demo = \<lparr>p_type = PT_LOAD, p_offset = 1, p_vaddr = 0xD0001FFC, p_filesz = 2, p_memsz = 4\<rparr>"

theorem elf_segment_loaded_witness:
  "\<exists>s'. elf_segment (\<lambda>i. ucast i + 65) 16 elf_demo paging_example = Some (0, s') \<and>
    pmem (pg_pmm s') (paging_get_phys s' 0xD0001FFC) = 66 \<and> pmem (pg_pmm s') (paging_get_phys s' 0xD0001FFD) = 67 \<and>
    pmem (pg_pmm s') (paging_get_phys s' 0xD0001FFE) = 0"
proof -
  have ready: "table_ready paging_example w" if "in_segment elf_demo w" for w
  proof -
    have d: "unat w div 4096 = 0xD0001" using that by (simp add: in_segment_def elf_demo_def)
    have "pd_index w = unat w div 4096 div 1024" by (simp add: pd_index_def unat_drop_bit_div div_mult2_eq [symmetric])
    then have "pd_index w = 832" unfolding d by simp
    then show ?thesis
      by (simp add: table_ready_def paging_example_table PD_ENTRIES_def) (simp add: paging_example_def PDE_WRITABLE_def)
  qed
  have "free_set (pg_pmm paging_example) = {2}" using pmm_example_free by (simp add: paging_example_def)
  then have spare: "segment_pages elf_demo \<le> spare_frames paging_example"
    by (simp add: spare_frames_def segment_pages_def elf_demo_def)
  obtain s' where s': "elf_segment (\<lambda>i. ucast i + 65) 16 elf_demo paging_example = Some (0, s')"
    "\<And>i. i < 4 \<Longrightarrow> pmem (pg_pmm s') (paging_get_phys s' (0xD0001FFC + of_nat i)) =
       (if in_file 16 elf_demo \<and> i < 2 then ucast (1 + of_nat i :: u32) + 65 else 0)"
    using elf_segment_loaded [OF paging_example_inv _ _ ready spare, of "\<lambda>i. ucast i + 65" 16] by (auto simp: elf_demo_def)
  have "in_file 16 elf_demo" by (simp add: in_file_def elf_demo_def)
  then show ?thesis using s'(1) s'(2) [of 0] s'(2) [of 1] s'(2) [of 2] by auto
qed

end
