(* ===== verification/Syscall.thy ===== *)
theory Syscall
  imports Process Scheduler Interrupts Elf
begin

text \<open>
  The system call gateway (\<open>ipc/syscall.c\<close>). User pointers are virtual addresses read and written through the kernel's page tables, as the code
  does without checks; the serial line is the bytes waiting on it and the bytes sent. A call ends with a result, by
  stopping the machine (\<open>proc_exit\<close> does not return), by waiting for input, or in a page fault, for which there is no
  handler. Shown: which numbers have a handler and what the others return, what reading and writing do, and that no
  system call reaches the dispatcher.
\<close>

definition SYS_EXIT :: nat where "SYS_EXIT = 1"
definition SYS_READ :: nat where "SYS_READ = 3"
definition SYS_WRITE :: nat where "SYS_WRITE = 4"
definition SYS_GETPID :: nat where "SYS_GETPID = 20"
definition SYS_KILL :: nat where "SYS_KILL = 37"
definition SYS_YIELD :: nat where "SYS_YIELD = 158"
definition SYS_SLEEP :: nat where "SYS_SLEEP = 162"
definition NR_SYSCALLS :: nat where "NR_SYSCALLS = 256"

record ksys =
  ks_proc :: proc_table
  ks_sched :: sched
  ks_in :: "u8 list"
  ks_out :: "u8 list"

datatype sysres = Ret int ksys | Halts ksys | Waits ksys | Faults

definition va_read :: "paging \<Rightarrow> u32 \<Rightarrow> u32 option" where
  "va_read s va =
     (let pde = kernel_pd s ! pd_index va in
      if pde AND PDE_PRESENT = 0 then None
      else if pde AND PDE_HUGE \<noteq> 0 then Some ((pde AND 0xFFC00000) OR (va AND 0x3FFFFF))
      else
        let pte = load32 (pmem (pg_pmm s)) ((pde AND PAGE_MASK) + pt_index va * 4)
        in if pte AND PDE_PRESENT = 0 then None else Some ((pte AND PAGE_MASK) OR (va AND 0xFFF)))"

section \<open>The handlers\<close>

definition sys_exit :: "u32 \<Rightarrow> ksys \<Rightarrow> sysres" where
  "sys_exit code s = Halts (s\<lparr>ks_proc := proc_exit (sint code) (ks_proc s)\<rparr>)"

definition sys_getpid :: "ksys \<Rightarrow> sysres" where
  "sys_getpid s = Ret (case pt_current (ks_proc s) of Some c \<Rightarrow> sint (pr_pid (pt_procs (ks_proc s) ! c)) | None \<Rightarrow> 1) s"

text \<open>\<open>n\<close> characters from address \<open>a\<close> on; those before a fault have been sent.\<close>

fun write_chars :: "nat \<Rightarrow> u32 \<Rightarrow> ksys \<Rightarrow> ksys option" where
  "write_chars 0 a s = Some s"
| "write_chars (Suc n) a s =
     (case va_read (pt_pg (ks_proc s)) a of
        None \<Rightarrow> None
      | Some pa \<Rightarrow> write_chars n (a + 1) (s\<lparr>ks_out := ks_out s @ [pmem (pg_pmm (pt_pg (ks_proc s))) pa]\<rparr>))"

definition sys_write :: "u32 \<Rightarrow> u32 \<Rightarrow> u32 \<Rightarrow> ksys \<Rightarrow> sysres" where
  "sys_write fd buf len s =
     (if fd = 1 \<or> fd = 2 then
        (case write_chars (unat len) buf s of None \<Rightarrow> Faults | Some s \<Rightarrow> Ret (sint len) s)
      else Ret (- 1) s)"

definition put_user :: "u32 \<Rightarrow> u8 \<Rightarrow> ksys \<Rightarrow> ksys option" where
  "put_user a c s = map_option (\<lambda>pa. s\<lparr>ks_proc := (ks_proc s)\<lparr>pt_pg := poke pa c (pt_pg (ks_proc s))\<rparr>\<rparr>) (va_write (pt_pg (ks_proc s)) a)"

text \<open>\<open>n\<close> characters are left to read, \<open>i\<close> have been read.\<close>

fun read_chars :: "nat \<Rightarrow> u32 \<Rightarrow> u32 \<Rightarrow> ksys \<Rightarrow> sysres" where
  "read_chars 0 i buf s = Ret (sint i) s"
| "read_chars (Suc n) i buf s =
     (case ks_in s of
        [] \<Rightarrow> Waits s
      | c # inp \<Rightarrow>
          (case put_user (buf + i) c (s\<lparr>ks_in := inp\<rparr>) of
             None \<Rightarrow> Faults
           | Some s \<Rightarrow> if c = 10 then Ret (sint (i + 1)) s else read_chars n (i + 1) buf s))"

definition sys_read :: "u32 \<Rightarrow> u32 \<Rightarrow> u32 \<Rightarrow> ksys \<Rightarrow> sysres" where
  "sys_read fd buf len s = (if fd = 0 then read_chars (unat len) 0 buf s else Ret (- 1) s)"

text \<open>The calls that switch tasks return when the task runs again; the state is that at the switch.\<close>

definition sys_sleep :: "u32 \<Rightarrow> ksys \<Rightarrow> sysres" where
  "sys_sleep ms s = Ret 0 (s\<lparr>ks_sched := snd (task_sleep ms (ks_sched s))\<rparr>)"

definition sys_yield :: "ksys \<Rightarrow> sysres" where
  "sys_yield s = Ret 0 (s\<lparr>ks_sched := snd (task_yield (ks_sched s))\<rparr>)"

definition sys_kill :: "u32 \<Rightarrow> u32 \<Rightarrow> ksys \<Rightarrow> sysres" where
  "sys_kill pid sig s =
     (case proc_find pid (ks_proc s) of
        None \<Rightarrow> Ret (- 1) s
      | Some i \<Rightarrow> Ret 0 (s\<lparr>ks_proc := upd_proc i (proc_signal (sint sig)) (ks_proc s)\<rparr>))"

section \<open>The table and the dispatcher\<close>

datatype syscall_fn = Fn_exit | Fn_read | Fn_write | Fn_getpid | Fn_kill | Fn_sleep | Fn_yield

fun call_fn :: "syscall_fn \<Rightarrow> u32 \<Rightarrow> u32 \<Rightarrow> u32 \<Rightarrow> ksys \<Rightarrow> sysres" where
  "call_fn Fn_exit a b c = sys_exit a"
| "call_fn Fn_read a b c = sys_read a b c"
| "call_fn Fn_write a b c = sys_write a b c"
| "call_fn Fn_getpid a b c = sys_getpid"
| "call_fn Fn_kill a b c = sys_kill a b"
| "call_fn Fn_sleep a b c = sys_sleep a"
| "call_fn Fn_yield a b c = sys_yield"

definition syscall_table_init :: "syscall_fn option list" where
  "syscall_table_init = (replicate NR_SYSCALLS None)
     [SYS_EXIT := Some Fn_exit, SYS_READ := Some Fn_read, SYS_WRITE := Some Fn_write, SYS_GETPID := Some Fn_getpid,
      SYS_KILL := Some Fn_kill, SYS_SLEEP := Some Fn_sleep, SYS_YIELD := Some Fn_yield]"

text \<open>The registers afterwards go with a call that returns.\<close>

definition syscall_handler :: "syscall_fn option list \<Rightarrow> cpu_regs \<Rightarrow> ksys \<Rightarrow> cpu_regs \<times> sysres" where
  "syscall_handler table regs s =
     (let nr = unat (r_eax regs) in
      if nr \<ge> NR_SYSCALLS then (regs\<lparr>r_eax := - 1\<rparr>, Ret (- 1) s)
      else case table ! nr of
          None \<Rightarrow> (regs\<lparr>r_eax := - 1\<rparr>, Ret (- 1) s)
        | Some fn \<Rightarrow>
            (case call_fn fn (r_ebx regs) (r_ecx regs) (r_edx regs) s of
               Ret ret s \<Rightarrow> (regs\<lparr>r_eax := of_int ret\<rparr>, Ret ret s)
             | r \<Rightarrow> (regs, r)))"

definition syscall_init :: "'h \<Rightarrow> ('h, 'z) intr_scheme \<Rightarrow> syscall_fn option list \<times> ('h, 'z) intr_scheme" where
  "syscall_init syscall_h it = (syscall_table_init, exception_register 0x80 syscall_h it)"

section \<open>The gate\<close>

text \<open>
  The processor's \<open>int n\<close> (as its manual documents it): a general protection fault (vector 13) if the descriptor is no interrupt or trap gate or its
  level does not admit the caller, a not-present fault (vector 11) if it is absent, otherwise the gate's stub, which enters the dispatcher.
\<close>

definition cpu_int :: "('h \<Rightarrow> cpu_regs \<Rightarrow> ('h, 'z) intr_scheme \<Rightarrow> cpu_regs \<times> ('h, 'z) intr_scheme) \<Rightarrow> nat \<Rightarrow>
    cpu_regs \<Rightarrow> ('h, 'z) intr_scheme \<Rightarrow> (cpu_regs \<times> ('h, 'z) intr_scheme) option" where
  "cpu_int run n regs it =
     (let g = idt_entries it ! n; ty = ie_type_attr g; err = of_nat (n * 8 + 2) in
      if ty AND 0x0F \<noteq> 0x0E \<and> ty AND 0x0F \<noteq> 0x0F \<or> drop_bit 5 ty AND 3 < ucast (r_cs regs) AND 3
      then isr_dispatch run (regs\<lparr>r_int_no := 13, r_err_code := err\<rparr>) it
      else if \<not> gate_present g then isr_dispatch run (regs\<lparr>r_int_no := 11, r_err_code := err\<rparr>) it
      else isr_dispatch run (regs\<lparr>r_int_no := of_nat n, r_err_code := 0\<rparr>) it)"

text \<open>
  C28: No system call is ever served: \<open>syscall_init\<close> registers its handler under vector 128, which \<open>exception_register\<close> ignores, and no gate is installed for
  that vector, so the instruction \<open>int 0x80\<close> raises a general protection fault, which has no handler either and stops the kernel.
\<close>

theorem syscall_gate_dead:
  "let it = snd (syscall_init h (idt_init isr it0))
   in it = idt_init isr it0 \<and> \<not> gate_present (idt_entries it ! 0x80) \<and> cpu_int run 0x80 regs it = None"
proof -
  define it where "it = snd (syscall_init h (idt_init isr it0))"
  have it: "it = idt_init isr it0" by (simp add: it_def syscall_init_def exception_register_def)
  have g: "idt_entries it ! 0x80 = idt_zero" unfolding it by (simp add: idt_init_gate)
  then have "cpu_int run 0x80 regs it = None"
    by (simp add: cpu_int_def idt_zero_def isr_dispatch_exception) (simp add: it idt_init_tables)
  then show ?thesis using it g by (simp add: it_def [symmetric])
qed

section \<open>The calls\<close>

lemma syscall_table_init_nth:
  "n < NR_SYSCALLS \<Longrightarrow> syscall_table_init ! n =
    (if n = SYS_EXIT then Some Fn_exit else if n = SYS_READ then Some Fn_read else if n = SYS_WRITE then Some Fn_write
     else if n = SYS_GETPID then Some Fn_getpid else if n = SYS_KILL then Some Fn_kill else if n = SYS_SLEEP then Some Fn_sleep
     else if n = SYS_YIELD then Some Fn_yield else None)"
  by (auto simp: syscall_table_init_def NR_SYSCALLS_def nth_list_update SYS_EXIT_def SYS_READ_def SYS_WRITE_def SYS_GETPID_def
      SYS_KILL_def SYS_SLEEP_def SYS_YIELD_def)

text \<open>
  C0: The dispatcher serves exactly the seven numbers of the table; every other number, below or beyond the table's end, returns -1 in \<open>eax\<close> with the other registers
  and the system unchanged.
\<close>

theorem syscall_unknown_numbers:
  assumes "unat (r_eax regs) \<notin> {SYS_EXIT, SYS_READ, SYS_WRITE, SYS_GETPID, SYS_KILL, SYS_SLEEP, SYS_YIELD}"
  shows "syscall_handler syscall_table_init regs s = (regs\<lparr>r_eax := - 1\<rparr>, Ret (- 1) s)"
  using assms syscall_table_init_nth [of "unat (r_eax regs)"] by (auto simp: syscall_handler_def Let_def split: if_splits)

lemma put_user_poke:
  "put_user a c s = (case va_write (pt_pg (ks_proc s)) a of None \<Rightarrow> None
     | Some pa \<Rightarrow> Some (s\<lparr>ks_proc := (ks_proc s)\<lparr>pt_pg := poke pa c (pt_pg (ks_proc s))\<rparr>\<rparr>))"
  by (simp add: put_user_def split: option.split)

lemma sint_of_small: "n < 2 ^ 31 \<Longrightarrow> sint (of_nat n :: u32) = int n"
  by (simp add: signed_of_nat signed_take_bit_int_eq_self)

text \<open>Reading a line: the characters up to and including the newline, as stores through the page tables.\<close>

lemma read_chars_line:
  "10 \<notin> set l \<Longrightarrow> length l < n \<Longrightarrow> ks_in s = l @ 10 # rest \<Longrightarrow> vfill (buf + i) (l @ [10]) (pt_pg (ks_proc s)) = Some pg \<Longrightarrow>
   read_chars n i buf s = Ret (sint (i + of_nat (length l) + 1)) (s\<lparr>ks_in := rest, ks_proc := (ks_proc s)\<lparr>pt_pg := pg\<rparr>\<rparr>)"
proof (induction l arbitrary: n i s)
  case Nil
  then obtain n' where "n = Suc n'" by (cases n) auto
  with Nil show ?case by (auto simp: put_user_poke split: option.splits)
next
  case (Cons c l)
  then obtain n' where n: "n = Suc n'" by (cases n) auto
  obtain pa where pa: "va_write (pt_pg (ks_proc s)) (buf + i) = Some pa" using Cons.prems(4) by (auto split: option.splits)
  let ?s = "s\<lparr>ks_in := l @ 10 # rest, ks_proc := (ks_proc s)\<lparr>pt_pg := poke pa c (pt_pg (ks_proc s))\<rparr>\<rparr>"
  have "read_chars n i buf s = read_chars n' (i + 1) buf ?s"
    using Cons.prems(1,3) n pa by (simp add: put_user_poke)
  also have "\<dots> = Ret (sint (i + 1 + of_nat (length l) + 1)) (?s\<lparr>ks_in := rest, ks_proc := (ks_proc ?s)\<lparr>pt_pg := pg\<rparr>\<rparr>)"
    by (rule Cons.IH) (use Cons.prems n pa in \<open>auto simp: add.assoc\<close>)
  finally show ?case by (simp add: add_ac)
qed

lemma sys_read_line_spec:
  assumes "10 \<notin> set l" "length l < unat len" "unat len < 2 ^ 31" "ks_in s = l @ 10 # rest"
    "vfill buf (l @ [10]) (pt_pg (ks_proc s)) = Some pg"
  shows "sys_read 0 buf len s = Ret (int (length l) + 1) (s\<lparr>ks_in := rest, ks_proc := (ks_proc s)\<lparr>pt_pg := pg\<rparr>\<rparr>)"
proof -
  have "sint (of_nat (Suc (length l)) :: u32) = int (Suc (length l))" using assms(2,3) by (intro sint_of_small) simp
  then show ?thesis
    using read_chars_line [OF assms(1,2,4), of buf 0 pg] assms(5) by (simp add: sys_read_def add.commute)
qed

lemma write_chars_spec:
  assumes "\<forall>i < n. va_read (pt_pg (ks_proc s)) (a + of_nat i) = Some (pa i)"
  shows "write_chars n a s = Some (s\<lparr>ks_out := ks_out s @ map (\<lambda>i. pmem (pg_pmm (pt_pg (ks_proc s))) (pa i)) [0..<n]\<rparr>)"
  using assms
proof (induction n arbitrary: a s pa)
  case (Suc n)
  have "va_read (pt_pg (ks_proc s)) a = Some (pa 0)" using Suc.prems by force
  moreover have "\<forall>i < n. va_read (pt_pg (ks_proc s)) (a + 1 + of_nat i) = Some (pa (Suc i))"
    using Suc.prems by (metis (no_types, lifting) Suc_less_eq add.assoc of_nat_Suc)
  ultimately show ?case
    using Suc.IH [of "s\<lparr>ks_out := ks_out s @ [pmem (pg_pmm (pt_pg (ks_proc s))) (pa 0)]\<rparr>" "a + 1" "\<lambda>i. pa (Suc i)"]
    by (simp add: map_upt_Suc del: upt_Suc)
qed simp

text \<open>
  Neither call looks at where the buffer lies: any mapped byte, the kernel's included, is sent, and any writable one is overwritten.
\<close>

theorem sys_write_any_address:
  assumes "fd = 1 \<or> fd = 2" "\<forall>i < unat len. va_read (pt_pg (ks_proc s)) (buf + of_nat i) = Some (pa i)"
  shows "sys_write fd buf len s =
    Ret (sint len) (s\<lparr>ks_out := ks_out s @ map (\<lambda>i. pmem (pg_pmm (pt_pg (ks_proc s))) (pa i)) [0..<unat len]\<rparr>)"
  using assms write_chars_spec [OF assms(2)] by (auto simp: sys_write_def)

theorem sys_read_any_address:
  assumes "10 \<notin> set l" "length l < unat len" "unat len < 2 ^ 31" "ks_in s = l @ 10 # rest"
    "vfill buf (l @ [10]) (pt_pg (ks_proc s)) = Some pg"
  shows "sys_read 0 buf len s = Ret (int (length l) + 1) (s\<lparr>ks_in := rest, ks_proc := (ks_proc s)\<lparr>pt_pg := pg\<rparr>\<rparr>)"
  by (rule sys_read_line_spec [OF assms])

end
