(* ===== verification/Icons.thy ===== *)
theory Icons
  imports Prelude
begin

text \<open>The pictures of \<open>os/include/icons.h\<close>, 10 by 10 pixels each; 0 is the background.\<close>

definition ICON_FOLDER :: "u32 list" where
  "ICON_FOLDER = [
     0, 0, 0, 0, 0, 0, 0, 0, 0, 0,
     0, 0x00FFF0, 0x00FFF0, 0x00FFF0, 0, 0, 0, 0, 0, 0,
     0x00FFF0, 0x00FFF0, 0x00FFF0, 0x00FFF0, 0x00FFF0, 0x00FFF0, 0x00FFF0, 0x00FFF0, 0x00FFF0, 0,
     0x00FFF0, 0xFFFFFF, 0xFFFFFF, 0xFFFFFF, 0xFFFFFF, 0xFFFFFF, 0xFFFFFF, 0xFFFFFF, 0x00FFF0, 0,
     0x00FFF0, 0xFFFFFF, 0xFFFFFF, 0xFFFFFF, 0xFFFFFF, 0xFFFFFF, 0xFFFFFF, 0xFFFFFF, 0x00FFF0, 0,
     0x00FFF0, 0xFFFFFF, 0xFFFFFF, 0xFFFFFF, 0xFFFFFF, 0xFFFFFF, 0xFFFFFF, 0xFFFFFF, 0x00FFF0, 0,
     0x00FFF0, 0xFFFFFF, 0xFFFFFF, 0xFFFFFF, 0xFFFFFF, 0xFFFFFF, 0xFFFFFF, 0xFFFFFF, 0x00FFF0, 0,
     0x00FFF0, 0x00FFF0, 0x00FFF0, 0x00FFF0, 0x00FFF0, 0x00FFF0, 0x00FFF0, 0x00FFF0, 0x00FFF0, 0,
     0, 0, 0, 0, 0, 0, 0, 0, 0, 0,
     0, 0, 0, 0, 0, 0, 0, 0, 0, 0]"

definition ICON_TERMINAL :: "u32 list" where
  "ICON_TERMINAL = [
     0x07070F, 0x07070F, 0x07070F, 0x07070F, 0x07070F, 0x07070F, 0x07070F, 0x07070F, 0x07070F, 0x07070F,
     0x07070F, 0x00FFF0, 0, 0, 0, 0, 0, 0, 0x00FFF0, 0x07070F,
     0x07070F, 0, 0x00FFF0, 0x00FFF0, 0, 0, 0, 0, 0, 0x07070F,
     0x07070F, 0, 0, 0x00FFF0, 0x00FFF0, 0, 0, 0, 0, 0x07070F,
     0x07070F, 0, 0x00FFF0, 0x00FFF0, 0, 0, 0, 0, 0, 0x07070F,
     0x07070F, 0, 0, 0, 0x00FFF0, 0x00FFF0, 0x00FFF0, 0, 0, 0x07070F,
     0x07070F, 0, 0, 0, 0, 0, 0, 0, 0, 0x07070F,
     0x07070F, 0x00FFF0, 0, 0, 0, 0, 0, 0, 0x00FFF0, 0x07070F,
     0x07070F, 0x07070F, 0x07070F, 0x07070F, 0x07070F, 0x07070F, 0x07070F, 0x07070F, 0x07070F, 0x07070F,
     0, 0, 0, 0, 0, 0, 0, 0, 0, 0]"

definition ICON_SETTINGS :: "u32 list" where
  "ICON_SETTINGS = [
     0, 0, 0, 0x00FFF0, 0x00FFF0, 0x00FFF0, 0x00FFF0, 0, 0, 0,
     0, 0, 0x00FFF0, 0x555566, 0x555566, 0x555566, 0x555566, 0x00FFF0, 0, 0,
     0, 0x00FFF0, 0x555566, 0x555566, 0xFFFFFF, 0xFFFFFF, 0x555566, 0x555566, 0x00FFF0, 0,
     0x00FFF0, 0x555566, 0x555566, 0xFFFFFF, 0xFFFFFF, 0xFFFFFF, 0xFFFFFF, 0x555566, 0x555566, 0x00FFF0,
     0x00FFF0, 0x555566, 0xFFFFFF, 0xFFFFFF, 0xFFFFFF, 0xFFFFFF, 0xFFFFFF, 0xFFFFFF, 0x555566, 0x00FFF0,
     0x00FFF0, 0x555566, 0xFFFFFF, 0xFFFFFF, 0xFFFFFF, 0xFFFFFF, 0xFFFFFF, 0xFFFFFF, 0x555566, 0x00FFF0,
     0x00FFF0, 0x555566, 0x555566, 0xFFFFFF, 0xFFFFFF, 0xFFFFFF, 0xFFFFFF, 0x555566, 0x555566, 0x00FFF0,
     0, 0x00FFF0, 0x555566, 0x555566, 0xFFFFFF, 0xFFFFFF, 0x555566, 0x555566, 0x00FFF0, 0,
     0, 0, 0x00FFF0, 0x555566, 0x555566, 0x555566, 0x555566, 0x00FFF0, 0, 0,
     0, 0, 0, 0x00FFF0, 0x00FFF0, 0x00FFF0, 0x00FFF0, 0, 0, 0]"

definition ICON_USER :: "u32 list" where
  "ICON_USER = [
     0, 0, 0, 0x00FFF0, 0x00FFF0, 0x00FFF0, 0x00FFF0, 0, 0, 0,
     0, 0, 0x00FFF0, 0xFFFFFF, 0xFFFFFF, 0xFFFFFF, 0xFFFFFF, 0x00FFF0, 0, 0,
     0, 0, 0x00FFF0, 0xFFFFFF, 0xFFFFFF, 0xFFFFFF, 0xFFFFFF, 0x00FFF0, 0, 0,
     0, 0, 0, 0x00FFF0, 0x00FFF0, 0x00FFF0, 0x00FFF0, 0, 0, 0,
     0, 0x00FFF0, 0x00FFF0, 0, 0, 0, 0, 0x00FFF0, 0x00FFF0, 0,
     0x00FFF0, 0xFFFFFF, 0xFFFFFF, 0x00FFF0, 0x00FFF0, 0x00FFF0, 0x00FFF0, 0xFFFFFF, 0xFFFFFF, 0x00FFF0,
     0x00FFF0, 0xFFFFFF, 0xFFFFFF, 0xFFFFFF, 0xFFFFFF, 0xFFFFFF, 0xFFFFFF, 0xFFFFFF, 0xFFFFFF, 0x00FFF0,
     0x00FFF0, 0xFFFFFF, 0xFFFFFF, 0xFFFFFF, 0xFFFFFF, 0xFFFFFF, 0xFFFFFF, 0xFFFFFF, 0xFFFFFF, 0x00FFF0,
     0, 0x00FFF0, 0x00FFF0, 0x00FFF0, 0x00FFF0, 0x00FFF0, 0x00FFF0, 0x00FFF0, 0x00FFF0, 0,
     0, 0, 0, 0, 0, 0, 0, 0, 0, 0]"

definition ICON_POWER :: "u32 list" where
  "ICON_POWER = [
     0, 0, 0, 0xFF4444, 0xFF4444, 0xFF4444, 0xFF4444, 0, 0, 0,
     0, 0, 0xFF4444, 0, 0, 0, 0, 0xFF4444, 0, 0,
     0, 0xFF4444, 0, 0, 0xFFFFFF, 0xFFFFFF, 0, 0, 0xFF4444, 0,
     0xFF4444, 0, 0, 0xFFFFFF, 0xFFFFFF, 0xFFFFFF, 0xFFFFFF, 0, 0, 0xFF4444,
     0xFF4444, 0, 0, 0xFFFFFF, 0xFFFFFF, 0xFFFFFF, 0xFFFFFF, 0, 0, 0xFF4444,
     0xFF4444, 0, 0, 0xFFFFFF, 0xFFFFFF, 0xFFFFFF, 0xFFFFFF, 0, 0, 0xFF4444,
     0, 0xFF4444, 0, 0, 0xFFFFFF, 0xFFFFFF, 0, 0, 0xFF4444, 0,
     0, 0, 0xFF4444, 0xFF4444, 0, 0, 0xFF4444, 0xFF4444, 0, 0,
     0, 0, 0, 0xFF4444, 0xFF4444, 0xFF4444, 0xFF4444, 0, 0, 0,
     0, 0, 0, 0, 0, 0, 0, 0, 0, 0]"

definition ICON_PENGUIN :: "u32 list" where
  "ICON_PENGUIN = [
     0, 0, 0x00FFF0, 0x00FFF0, 0x00FFF0, 0x00FFF0, 0x00FFF0, 0x00FFF0, 0, 0,
     0, 0x00FFF0, 0xFFFFFF, 0xFFFFFF, 0xFFFFFF, 0xFFFFFF, 0xFFFFFF, 0xFFFFFF, 0x00FFF0, 0,
     0x00FFF0, 0xFFFFFF, 0x00FFF0, 0x00FFF0, 0xFFFFFF, 0xFFFFFF, 0x00FFF0, 0x00FFF0, 0xFFFFFF, 0x00FFF0,
     0x00FFF0, 0xFFFFFF, 0x00FFF0, 0xFFFFFF, 0xFFFFFF, 0xFFFFFF, 0xFFFFFF, 0x00FFF0, 0xFFFFFF, 0x00FFF0,
     0x00FFF0, 0xFFFFFF, 0xFFFFFF, 0x00FFF0, 0x00FFF0, 0x00FFF0, 0x00FFF0, 0xFFFFFF, 0xFFFFFF, 0x00FFF0,
     0x00FFF0, 0xFFFFFF, 0xFFFFFF, 0xFFFFFF, 0xFFFFFF, 0xFFFFFF, 0xFFFFFF, 0xFFFFFF, 0xFFFFFF, 0x00FFF0,
     0, 0x00FFF0, 0xFFFFFF, 0x00FFF0, 0xFFFFFF, 0xFFFFFF, 0x00FFF0, 0xFFFFFF, 0x00FFF0, 0,
     0, 0x00FFF0, 0x00FFF0, 0x00FFF0, 0xFFFFFF, 0xFFFFFF, 0x00FFF0, 0x00FFF0, 0x00FFF0, 0,
     0, 0, 0x00FFF0, 0x00FFF0, 0x00FFF0, 0x00FFF0, 0x00FFF0, 0x00FFF0, 0, 0,
     0, 0, 0, 0, 0, 0, 0, 0, 0, 0]"

definition ICON_INFO :: "u32 list" where
  "ICON_INFO = [
     0, 0, 0x00FFF0, 0x00FFF0, 0x00FFF0, 0x00FFF0, 0x00FFF0, 0x00FFF0, 0, 0,
     0, 0x00FFF0, 0xFFFFFF, 0xFFFFFF, 0xFFFFFF, 0xFFFFFF, 0xFFFFFF, 0xFFFFFF, 0x00FFF0, 0,
     0x00FFF0, 0xFFFFFF, 0xFFFFFF, 0x00FFF0, 0x00FFF0, 0xFFFFFF, 0xFFFFFF, 0xFFFFFF, 0xFFFFFF, 0x00FFF0,
     0x00FFF0, 0xFFFFFF, 0x00FFF0, 0xFFFFFF, 0xFFFFFF, 0x00FFF0, 0xFFFFFF, 0xFFFFFF, 0xFFFFFF, 0x00FFF0,
     0x00FFF0, 0xFFFFFF, 0xFFFFFF, 0x00FFF0, 0x00FFF0, 0xFFFFFF, 0xFFFFFF, 0xFFFFFF, 0xFFFFFF, 0x00FFF0,
     0x00FFF0, 0xFFFFFF, 0xFFFFFF, 0x00FFF0, 0x00FFF0, 0xFFFFFF, 0xFFFFFF, 0xFFFFFF, 0xFFFFFF, 0x00FFF0,
     0x00FFF0, 0xFFFFFF, 0xFFFFFF, 0x00FFF0, 0x00FFF0, 0xFFFFFF, 0xFFFFFF, 0xFFFFFF, 0xFFFFFF, 0x00FFF0,
     0x00FFF0, 0xFFFFFF, 0xFFFFFF, 0xFFFFFF, 0xFFFFFF, 0xFFFFFF, 0xFFFFFF, 0xFFFFFF, 0xFFFFFF, 0x00FFF0,
     0, 0x00FFF0, 0xFFFFFF, 0xFFFFFF, 0xFFFFFF, 0xFFFFFF, 0xFFFFFF, 0xFFFFFF, 0x00FFF0, 0,
     0, 0, 0x00FFF0, 0x00FFF0, 0x00FFF0, 0x00FFF0, 0x00FFF0, 0x00FFF0, 0, 0]"

definition ICON_BROWSER :: "u32 list" where
  "ICON_BROWSER = [
     0, 0x00FFF0, 0x00FFF0, 0x00FFF0, 0x00FFF0, 0x00FFF0, 0x00FFF0, 0x00FFF0, 0, 0,
     0, 0x00FFF0, 0xFFFFFF, 0xFFFFFF, 0xFFFFFF, 0xFFFFFF, 0xFFFFFF, 0x00FFF0, 0x00FFF0, 0,
     0, 0x00FFF0, 0xFFFFFF, 0xFFFFFF, 0xFFFFFF, 0xFFFFFF, 0xFFFFFF, 0xFFFFFF, 0x00FFF0, 0,
     0, 0x00FFF0, 0xFFFFFF, 0x00FFF0, 0x00FFF0, 0xFFFFFF, 0xFFFFFF, 0xFFFFFF, 0x00FFF0, 0,
     0, 0x00FFF0, 0xFFFFFF, 0x00FFF0, 0x00FFF0, 0xFFFFFF, 0xFFFFFF, 0xFFFFFF, 0x00FFF0, 0,
     0, 0x00FFF0, 0xFFFFFF, 0x00FFF0, 0x00FFF0, 0xFFFFFF, 0xFFFFFF, 0x00FFF0, 0, 0,
     0, 0x00FFF0, 0xFFFFFF, 0xFFFFFF, 0xFFFFFF, 0xFFFFFF, 0x00FFF0, 0, 0, 0,
     0, 0x00FFF0, 0xFFFFFF, 0xFFFFFF, 0xFFFFFF, 0xFFFFFF, 0xFFFFFF, 0x00FFF0, 0, 0,
     0, 0x00FFF0, 0x00FFF0, 0x00FFF0, 0x00FFF0, 0x00FFF0, 0x00FFF0, 0x00FFF0, 0, 0,
     0, 0, 0, 0, 0, 0, 0, 0, 0, 0]"

definition ICON_FILE :: "u32 list" where
  "ICON_FILE = [
     0, 0x00FFF0, 0x00FFF0, 0x00FFF0, 0x00FFF0, 0x00FFF0, 0x00FFF0, 0, 0, 0,
     0, 0x00FFF0, 0xFFFFFF, 0xFFFFFF, 0xFFFFFF, 0x00FFF0, 0x00FFF0, 0x00FFF0, 0, 0,
     0, 0x00FFF0, 0xFFFFFF, 0xFFFFFF, 0x00FFF0, 0xFFFFFF, 0xFFFFFF, 0x00FFF0, 0, 0,
     0, 0x00FFF0, 0xFFFFFF, 0xFFFFFF, 0xFFFFFF, 0xFFFFFF, 0xFFFFFF, 0x00FFF0, 0, 0,
     0, 0x00FFF0, 0x555566, 0x555566, 0x555566, 0x555566, 0x555566, 0x00FFF0, 0, 0,
     0, 0x00FFF0, 0xFFFFFF, 0xFFFFFF, 0xFFFFFF, 0xFFFFFF, 0xFFFFFF, 0x00FFF0, 0, 0,
     0, 0x00FFF0, 0x555566, 0x555566, 0x555566, 0x555566, 0x555566, 0x00FFF0, 0, 0,
     0, 0x00FFF0, 0xFFFFFF, 0xFFFFFF, 0xFFFFFF, 0xFFFFFF, 0xFFFFFF, 0x00FFF0, 0, 0,
     0, 0x00FFF0, 0x00FFF0, 0x00FFF0, 0x00FFF0, 0x00FFF0, 0x00FFF0, 0x00FFF0, 0, 0,
     0, 0, 0, 0, 0, 0, 0, 0, 0, 0]"

end
