(* ===== verification/Rtc.thy ===== *)
theory Rtc
  imports Prelude
begin

text \<open>
  The clock (\<open>drivers/rtc.c\<close>): reading the CMOS registers, seconds since 1970, and the HPET counter. What the chip answers is an
  argument: for each round of the reading loop the registers and the seconds read again at its end. The waits for the update
  flag and \<open>rtc_dump\<close> are left out.
\<close>

definition RTC_REG_SEC :: u8 where "RTC_REG_SEC = 0x00"
definition RTC_REG_MIN :: u8 where "RTC_REG_MIN = 0x02"
definition RTC_REG_HOUR :: u8 where "RTC_REG_HOUR = 0x04"
definition RTC_REG_WDAY :: u8 where "RTC_REG_WDAY = 0x06"
definition RTC_REG_MDAY :: u8 where "RTC_REG_MDAY = 0x07"
definition RTC_REG_MONTH :: u8 where "RTC_REG_MONTH = 0x08"
definition RTC_REG_YEAR :: u8 where "RTC_REG_YEAR = 0x09"

record rtc_time =
  rt_year :: u16
  rt_month :: u8
  rt_day :: u8
  rt_hour :: u8
  rt_minute :: u8
  rt_second :: u8
  rt_weekday :: u8

section \<open>Reading the registers\<close>

definition bcd_to_bin :: "u8 \<Rightarrow> u8" where
  "bcd_to_bin bcd = drop_bit 4 bcd * 10 + (bcd AND 0x0F)"

text \<open>The first round whose seconds did not change; \<open>None\<close> while there is none.\<close>

fun rtc_sample :: "((u8 \<Rightarrow> u8) \<times> u8) list \<Rightarrow> (u8 \<Rightarrow> u8) option" where
  "rtc_sample [] = None"
| "rtc_sample ((regs, again) # rounds) = (if regs RTC_REG_SEC \<noteq> again then rtc_sample rounds else Some regs)"

definition rtc_decode :: "u8 \<Rightarrow> (u8 \<Rightarrow> u8) \<Rightarrow> rtc_time" where
  "rtc_decode statusb regs =
     (let conv = (if statusb AND 0x04 = 0 then bcd_to_bin else (\<lambda>x. x)); hour = conv (regs RTC_REG_HOUR);
          hour = (if statusb AND 0x02 = 0 \<and> hour AND 0x80 \<noteq> 0 then ((hour AND 0x7F) + 12) mod 24 else hour)
      in \<lparr>rt_year = 2000 + ucast (conv (regs RTC_REG_YEAR)), rt_month = conv (regs RTC_REG_MONTH), rt_day = conv (regs RTC_REG_MDAY),
          rt_hour = hour, rt_minute = conv (regs RTC_REG_MIN), rt_second = conv (regs RTC_REG_SEC), rt_weekday = conv (regs RTC_REG_WDAY)\<rparr>)"

definition rtc_read :: "((u8 \<Rightarrow> u8) \<times> u8) list \<Rightarrow> u8 \<Rightarrow> rtc_time option" where
  "rtc_read rounds statusb = map_option (rtc_decode statusb) (rtc_sample rounds)"

text \<open>The registers of a clock in BCD mode.\<close>

definition to_bcd :: "nat \<Rightarrow> u8" where "to_bcd n = of_nat (n div 10 * 16 + n mod 10)"

lemma bcd_roundtrip: "n < 100 \<Longrightarrow> bcd_to_bin (to_bcd n) = of_nat n"
proof -
  have "list_all (\<lambda>n. bcd_to_bin (to_bcd n) = of_nat n) [0..<100]" by code_simp
  then show "n < 100 \<Longrightarrow> bcd_to_bin (to_bcd n) = of_nat n" by (simp add: list_all_iff)
qed

lemma rtc_read_bcd:
  assumes "statusb AND 0x04 = 0" "statusb AND 0x02 \<noteq> 0" "s < 100" "mi < 100" "h < 100" "d < 100" "mo < 100" "y < 100" "w < 100"
    and "regs RTC_REG_SEC = to_bcd s" "regs RTC_REG_MIN = to_bcd mi" "regs RTC_REG_HOUR = to_bcd h" "regs RTC_REG_MDAY = to_bcd d"
      "regs RTC_REG_MONTH = to_bcd mo" "regs RTC_REG_YEAR = to_bcd y" "regs RTC_REG_WDAY = to_bcd w" "again = to_bcd s"
  shows "rtc_read ((regs, again) # rounds) statusb =
    Some \<lparr>rt_year = of_nat (2000 + y), rt_month = of_nat mo, rt_day = of_nat d, rt_hour = of_nat h, rt_minute = of_nat mi,
      rt_second = of_nat s, rt_weekday = of_nat w\<rparr>"
proof -
  have "ucast (of_nat y :: u8) = (of_nat y :: u16)"
    using assms(8) by (intro word_unat_eq_iff [THEN iffD2]) (simp add: unat_ucast_up unat_of_nat take_bit_nat_eq_self)
  then show ?thesis using assms by (simp add: rtc_read_def rtc_decode_def bcd_roundtrip)
qed

text \<open>In 12-hour mode the afternoon bit of a BCD hour is lost in the conversion: 1 o'clock in the afternoon becomes hour 81.\<close>

lemma rtc_pm_lost:
  assumes "statusb AND 0x04 = 0" "regs RTC_REG_HOUR = 0x80 OR to_bcd h" "1 \<le> h" "h \<le> 12"
  shows "rt_hour (rtc_decode statusb regs) = of_nat (80 + h)"
proof -
  have "list_all (\<lambda>h. bcd_to_bin (0x80 OR to_bcd h) = of_nat (80 + h) \<and> of_nat (80 + h) AND (0x80 :: u8) = 0) [1..<13]" by code_simp
  then have "bcd_to_bin (0x80 OR to_bcd h) = of_nat (80 + h)" "of_nat (80 + h) AND (0x80 :: u8) = 0"
    using assms(3,4) by (simp_all add: list_all_iff del: of_nat_add)
  then show ?thesis using assms by (simp add: rtc_decode_def)
qed

section \<open>Seconds since 1970\<close>

definition days_in_month :: "nat list" where
  "days_in_month = [0, 31, 59, 90, 120, 151, 181, 212, 243, 273, 304, 334]"

text \<open>\<open>None\<close> for a month outside the table.\<close>

definition rtc_to_unix :: "rtc_time \<Rightarrow> u32 option" where
  "rtc_to_unix t =
     (let year = ucast (rt_year t) - 1970 :: u32; leaps = (year + 2) div 4; days = year * 365 + leaps;
          y = unat (rt_year t)
      in if rt_month t = 0 \<or> rt_month t > 12 then None
         else
           let days = days + of_nat (days_in_month ! (unat (rt_month t) - 1));
               days = (if rt_month t > 2 \<and> ((y mod 4 = 0 \<and> y mod 100 \<noteq> 0) \<or> y mod 400 = 0) then days + 1 else days);
               days = days + (ucast (rt_day t) - 1)
           in Some (days * 86400 + ucast (rt_hour t) * 3600 + ucast (rt_minute t) * 60 + ucast (rt_second t)))"

text \<open>The calendar: lengths of years and months.\<close>

definition leap :: "nat \<Rightarrow> bool" where "leap y \<longleftrightarrow> (4 dvd y \<and> \<not> 100 dvd y) \<or> 400 dvd y"

definition month_len :: "nat \<Rightarrow> nat \<Rightarrow> nat" where
  "month_len y m = (if m = 2 then (if leap y then 29 else 28) else if m \<in> {4, 6, 9, 11} then 30 else 31)"

definition year_len :: "nat \<Rightarrow> nat" where "year_len y = (if leap y then 366 else 365)"

definition day_number :: "nat \<Rightarrow> nat \<Rightarrow> nat \<Rightarrow> nat" where
  "day_number y m d = sum_list (map year_len [1970..<y]) + sum_list (map (month_len y) [1..<m]) + (d - 1)"

lemma leap_1970:
  assumes "n < 130"
  shows "leap (1970 + n) \<longleftrightarrow> n mod 4 = 2"
proof -
  have c: "n = 30" if h: "100 dvd 1970 + n"
  proof -
    obtain k where k: "1970 + n = 100 * k" using h unfolding dvd_def by blast
    have "k < 21" "19 < k" using k assms by linarith+
    then have "k = 20" by linarith
    then show ?thesis using k by linarith
  qed
  have f: "4 dvd 1970 + n \<longleftrightarrow> n mod 4 = 2"
  proof -
    have "(1970 + n) mod 4 = (2 + n) mod 4" by (simp add: mod_add_left_eq [of 1970 4 n, symmetric])
    then show ?thesis unfolding dvd_eq_mod_eq_0 by presburger
  qed
  have h: "100 dvd 1970 + n" if "400 dvd 1970 + n"
    by (rule dvd_trans [OF _ that]) simp
  show ?thesis
  proof (cases "100 dvd 1970 + n")
    case True
    have "400 dvd 1970 + (30 :: nat)" "(30 :: nat) mod 4 = 2" by simp_all
    then show ?thesis unfolding leap_def c [OF True] by blast
  next
    case False
    then show ?thesis using h f unfolding leap_def by blast
  qed
qed

lemma days_before_year: "n \<le> 130 \<Longrightarrow> sum_list (map year_len [1970..<1970 + n]) = 365 * n + (n + 1) div 4"
proof (induction n)
  case (Suc n)
  have "(n + 2) div 4 = (n + 1) div 4 + (if n mod 4 = 2 then 1 else 0)" by presburger
  moreover have "[1970..<1970 + Suc n] = [1970..<1970 + n] @ [1970 + n]" by (subst add_Suc_right) (rule upt_Suc_append, simp)
  ultimately show ?case using Suc leap_1970 [of n] by (simp add: year_len_def del: upt_Suc)
qed simp

lemma days_before_month:
  assumes "1 \<le> m" "m \<le> 12"
  shows "sum_list (map (month_len y) [1..<m]) = days_in_month ! (m - 1) + (if m > 2 \<and> leap y then 1 else 0)"
proof -
  have "list_all (\<lambda>m. sum_list (map (\<lambda>m. if m = 2 then (if l then 29 else 28) else if m \<in> {4, 6, 9, 11} then 30 else 31) [1..<m]) =
      days_in_month ! (m - 1) + (if m > 2 \<and> l then 1 else 0)) [1..<13]" for l
    by (cases l) (simp_all, code_simp+)
  from this [of "leap y"] show ?thesis using assms by (simp add: list_all_iff month_len_def [abs_def])
qed

text \<open>
  C36: \<open>rtc_to_unix\<close> against the calendar, from 1970 to 2099: in an ordinary year it is the number of seconds since 1970; in
  a leap year it is a whole day too late, because \<open>leaps\<close> already counts the leap day of the running year.
\<close>

theorem rtc_to_unix_calendar:
  assumes "n < 130" "1 \<le> m" "m \<le> 12" "1 \<le> d" "d \<le> 31" "h < 24" "mi < 60" "s < 60"
  shows "rtc_to_unix \<lparr>rt_year = of_nat (1970 + n), rt_month = of_nat m, rt_day = of_nat d, rt_hour = of_nat h, rt_minute = of_nat mi,
      rt_second = of_nat s, rt_weekday = w\<rparr> =
    Some (of_nat ((day_number (1970 + n) m d + (if leap (1970 + n) then 1 else 0)) * 86400 + h * 3600 + mi * 60 + s))"
proof -
  have y: "unat (of_nat (1970 + n) :: u16) = 1970 + n" using assms(1) by (simp add: unat_of_nat take_bit_nat_eq_self del: of_nat_add)
  have yc: "ucast (of_nat (1970 + n) :: u16) - 1970 = (of_nat n :: u32)"
  proof -
    have "(ucast (of_nat (1970 + n) :: u16) :: u32) = of_nat (1970 + n)"
      by (rule word_unat_eq_iff [THEN iffD2]) (use assms(1) y in \<open>simp add: unat_ucast_up unat_of_nat take_bit_nat_eq_self del: of_nat_add\<close>)
    then show ?thesis by simp
  qed
  have b: "unat (of_nat k :: u8) = k" "(ucast (of_nat k :: u8) :: u32) = of_nat k" if "k < 100" for k
  proof -
    show k: "unat (of_nat k :: u8) = k" using that by (simp add: unat_of_nat take_bit_nat_eq_self)
    show "(ucast (of_nat k :: u8) :: u32) = of_nat k"
      by (rule word_unat_eq_iff [THEN iffD2]) (use that k in \<open>simp add: unat_ucast_up unat_of_nat take_bit_nat_eq_self\<close>)
  qed
  have m: "(of_nat m :: u8) \<noteq> 0" "\<not> (of_nat m :: u8) > 12" "(of_nat m :: u8) > 2 \<longleftrightarrow> m > 2"
    using b(1) [of m] assms(2,3) by (auto simp: word_less_nat_alt unat_eq_0 [symmetric] simp del: unat_eq_0)
  have leaps: "(of_nat n + 2 :: u32) div 4 = of_nat ((n + 2) div 4)"
    by (rule word_unat_eq_iff [THEN iffD2])
      (use assms(1) in \<open>simp add: unat_div unat_word_ariths unat_of_nat take_bit_nat_eq_self\<close>)
  have leap: "((1970 + n) mod 4 = 0 \<and> (1970 + n) mod 100 \<noteq> 0) \<or> (1970 + n) mod 400 = 0 \<longleftrightarrow> leap (1970 + n)"
    by (auto simp: leap_def dvd_eq_mod_eq_0)
  have day: "(of_nat d - 1 :: u32) = of_nat (d - 1)" using assms(4) by simp
  have num: "day_number (1970 + n) m d + (if leap (1970 + n) then 1 else 0) =
      n * 365 + (n + 2) div 4 + days_in_month ! (m - 1) + (if m > 2 \<and> leap (1970 + n) then 1 else 0) + (d - 1)"
  proof -
    have "(n + 2) div 4 = (n + 1) div 4 + (if n mod 4 = 2 then 1 else 0)" by presburger
    then show ?thesis
      using days_before_year [of n] days_before_month [OF assms(2,3), of "1970 + n"] leap_1970 [OF assms(1)] assms(1)
      by (simp add: day_number_def)
  qed
  have c: "m < 100" "d < 100" "h < 100" "mi < 100" "s < 100" using assms by simp_all
  note bs = b(1) [OF c(1)] b(2) [OF c(2)] b(2) [OF c(3)] b(2) [OF c(4)] b(2) [OF c(5)]
  have "of_nat n * 365 + of_nat ((n + 2) div 4) + of_nat (days_in_month ! (m - 1)) + (if m > 2 \<and> leap (1970 + n) then 1 else 0) + of_nat (d - 1) =
      (of_nat (n * 365 + (n + 2) div 4 + days_in_month ! (m - 1) + (if m > 2 \<and> leap (1970 + n) then 1 else 0) + (d - 1)) :: u32)"
    by (cases "m > 2 \<and> leap (1970 + n)") simp_all
  then have days: "(if m > 2 \<and> leap (1970 + n) then of_nat n * 365 + of_nat ((n + 2) div 4) + of_nat (days_in_month ! (m - 1)) + 1
      else of_nat n * 365 + of_nat ((n + 2) div 4) + of_nat (days_in_month ! (m - 1))) + of_nat (d - 1) =
      (of_nat (day_number (1970 + n) m d + (if leap (1970 + n) then 1 else 0)) :: u32)"
    unfolding num by (simp only: split: if_split) simp
  show ?thesis
    unfolding rtc_to_unix_def Let_def rtc_time.select_convs y yc leap leaps bs m(3) day days
    using m(1,2) by (simp only: if_False de_Morgan_disj simp_thms of_nat_add of_nat_mult of_nat_numeral)
qed

theorem rtc_to_unix_calendar_witness:
  "day_number 2024 3 1 = 19783 \<and>
   rtc_to_unix \<lparr>rt_year = 2024, rt_month = 3, rt_day = 1, rt_hour = 0, rt_minute = 0, rt_second = 5, rt_weekday = 6\<rparr> =
     Some (of_nat (19784 * 86400 + 5))"
proof -
  have n: "day_number 2024 3 1 = 19783" "leap 2024"
    using days_before_year [of 54] days_before_month [of 3 2024]
    by (simp_all add: day_number_def days_in_month_def leap_def)
  then show ?thesis using rtc_to_unix_calendar [of 54 3 1 0 0 5 6] by simp
qed

section \<open>The HPET\<close>

text \<open>\<open>caps\<close> is the capability register; a period of 0 or of more than 100 ns disables the counter.\<close>

record hpet =
  hpet_mapped :: bool
  hpet_period_fs :: u64

definition hpet_init :: "u64 \<Rightarrow> hpet" where
  "hpet_init caps = (let period = drop_bit 32 caps
     in \<lparr>hpet_mapped = \<not> (period = 0 \<or> period > 100000000), hpet_period_fs = period\<rparr>)"

definition hpet_read_counter :: "hpet \<Rightarrow> u64 \<Rightarrow> u64" where
  "hpet_read_counter s counter = (if hpet_mapped s then counter else 0)"

definition hpet_freq_hz :: "hpet \<Rightarrow> u32" where
  "hpet_freq_hz s = (if hpet_period_fs s = 0 then 0 else ucast (1000000000000000 div hpet_period_fs s))"

definition hpet_ticks :: "u64 \<Rightarrow> hpet \<Rightarrow> u64" where
  "hpet_ticks us s = us * 1000000000 div hpet_period_fs s"

text \<open>The ticks of a sleep last at most the time asked for and less than one period short of it.\<close>

lemma hpet_ticks_bound:
  assumes "unat us < 18000000000" "hpet_period_fs s \<noteq> 0"
  shows "unat (hpet_ticks us s) * unat (hpet_period_fs s) \<le> unat us * 1000000000"
    "unat us * 1000000000 < (unat (hpet_ticks us s) + 1) * unat (hpet_period_fs s)"
proof -
  have p: "0 < unat (hpet_period_fs s)" using assms(2) by (simp add: unat_gt_0)
  have u: "unat (hpet_ticks us s) = unat us * 1000000000 div unat (hpet_period_fs s)"
    using assms(1) by (simp add: hpet_ticks_def unat_div unat_word_ariths)
  show "unat (hpet_ticks us s) * unat (hpet_period_fs s) \<le> unat us * 1000000000" unfolding u by simp
  show "unat us * 1000000000 < (unat (hpet_ticks us s) + 1) * unat (hpet_period_fs s)"
    unfolding u using dividend_less_div_times [OF p, of "unat us * 1000000000"] by (simp add: algebra_simps)
qed

end
