(* ===== verification/Entropy.thy ===== *)
theory Entropy
  imports Prelude
begin

text \<open>
  The random numbers (\<open>entropy.c\<close>): a pool of 32 words and a shift register. \<open>sched_uptime_ms\<close> is an argument of \<open>entropy_add\<close>.
\<close>

definition POOL_WORDS :: nat where "POOL_WORDS = 32"
definition LFSR_POLY :: u32 where "LFSR_POLY = 0xB4BCD35C"

record rng =
  pool :: "u32 list"
  pool_pos :: u32
  lfsr_state :: u32

definition rng_static :: rng where
  "rng_static = \<lparr>pool = replicate POOL_WORDS 0, pool_pos = 0, lfsr_state = 0xDEAD1337\<rparr>"

definition lfsr_step :: "u32 \<Rightarrow> u32" where
  "lfsr_step x = (if x AND 1 \<noteq> 0 then drop_bit 1 x XOR LFSR_POLY else drop_bit 1 x)"

definition lfsr_next :: "rng \<Rightarrow> u32 \<times> rng" where
  "lfsr_next s = (lfsr_step (lfsr_state s), s\<lparr>lfsr_state := lfsr_step (lfsr_state s)\<rparr>)"

definition entropy_init :: "rng \<Rightarrow> rng" where
  "entropy_init s =
     fold (\<lambda>i s. let (r, s) = lfsr_next s in s\<lparr>pool := (pool s)[i := r XOR (of_nat i * 0x9E3779B9)]\<rparr>) [4..<POOL_WORDS]
       (s\<lparr>pool := (pool s)[0 := 0xCAFEBABE, 1 := 0x31415926, 2 := 0xABCDEF01, 3 := 0x87654321]\<rparr>)"

definition rol7 :: "u32 \<Rightarrow> u32" where "rol7 v = push_bit 7 v OR drop_bit 25 v"

definition entropy_add :: "u32 \<Rightarrow> u32 \<Rightarrow> rng \<Rightarrow> rng" where
  "entropy_add t value s =
     (let (r, s) = lfsr_next s; value = value XOR (t XOR r); idx = unat (pool_pos s) mod POOL_WORDS;
          p = (pool s)[idx := pool s ! idx XOR value]; nxt = (idx + 1) mod POOL_WORDS
      in s\<lparr>pool := p[nxt := p ! nxt XOR rol7 value], pool_pos := pool_pos s + 1\<rparr>)"

definition xor_all :: "u32 list \<Rightarrow> u32" where "xor_all p = fold (\<lambda>w r. r XOR w) p 0"

text \<open>The final mixing of a result.\<close>

definition rng_mix :: "u32 \<Rightarrow> u32" where
  "rng_mix r = (let r = r XOR drop_bit 16 r; r = r * 0x45D9F3B in r XOR drop_bit 16 r)"

definition rand_u32 :: "rng \<Rightarrow> u32 \<times> rng" where
  "rand_u32 s =
     (let (r, s) = lfsr_next s; r = fold (\<lambda>w r. r XOR w) (pool s) r; i = unat (pool_pos s) mod POOL_WORDS
      in (rng_mix r, s\<lparr>pool := (pool s)[i := pool s ! i XOR r], pool_pos := pool_pos s + 1\<rparr>))"

text \<open>\<open>rand_range\<close> rejects until a draw is at least the threshold; \<open>draws'\<close> bounds the draws it may take.\<close>

fun rand_reject :: "nat \<Rightarrow> u32 \<Rightarrow> rng \<Rightarrow> (u32 \<times> rng) option" where
  "rand_reject 0 threshold s = None"
| "rand_reject (Suc n) threshold s =
     (let (r, s) = rand_u32 s in if r < threshold then rand_reject n threshold s else Some (r, s))"

definition rand_threshold :: "u32 \<Rightarrow> u32" where "rand_threshold mx = (NOT mx + 1) mod mx"

definition rand_range :: "nat \<Rightarrow> u32 \<Rightarrow> rng \<Rightarrow> (u32 \<times> rng) option" where
  "rand_range draws' mx s =
     (if mx \<le> 1 then Some (0, s)
      else map_option (\<lambda>(r, s). (r mod mx, s)) (rand_reject draws' (rand_threshold mx) s))"

definition word_bytes :: "u32 \<Rightarrow> u8 list" where
  "word_bytes r = map (\<lambda>i. ucast (drop_bit (8 * i) r)) [0..<4]"

function rand_bytes :: "nat \<Rightarrow> rng \<Rightarrow> u8 list \<times> rng" where
  "rand_bytes len s =
     (if len \<ge> 4 then let (r, s) = rand_u32 s; (bs, s) = rand_bytes (len - 4) s in (word_bytes r @ bs, s)
      else if len > 0 then let (r, s) = rand_u32 s in (take len (word_bytes r), s)
      else ([], s))"
  by pat_completeness auto
termination by (relation "measure fst") auto

declare rand_bytes.simps [simp del]

lemma length_rand_bytes: "length (fst (rand_bytes len s)) = len"
proof (induction len s rule: rand_bytes.induct)
  case (1 len s)
  obtain r s1 where r: "rand_u32 s = (r, s1)" by fastforce
  obtain bs s2 where bs: "rand_bytes (len - 4) s1 = (bs, s2)" by fastforce
  show ?case
  proof (cases "len \<ge> 4")
    case True
    then show ?thesis using "1.IH" [OF True, of "(r, s1)" r s1] r bs by (subst rand_bytes.simps) (simp add: word_bytes_def)
  qed (subst rand_bytes.simps, simp add: word_bytes_def r)
qed

section \<open>The pool is forgotten\<close>

lemma fold_xor: "fold (\<lambda>w r. r XOR w) p r = r XOR xor_all p"
  unfolding xor_all_def
proof (induction p arbitrary: r)
  case (Cons w p)
  show ?case using Cons [of "r XOR w"] Cons [of "0 XOR w"] by (simp add: xor.assoc)
qed simp

lemma xor_all_Cons: "xor_all (w # p) = w XOR xor_all p"
  using fold_xor [of p w] by (simp add: xor_all_def)

lemma xor_all_update: "i < length p \<Longrightarrow> xor_all (p[i := p ! i XOR v]) = xor_all p XOR v"
proof (induction p arbitrary: i)
  case (Cons w p)
  then show ?case by (cases i) (simp_all add: xor_all_Cons ac_simps)
qed simp

definition rng_ok :: "rng \<Rightarrow> bool" where "rng_ok s \<longleftrightarrow> length (pool s) = POOL_WORDS"

lemma rand_u32_eq:
  assumes "rng_ok s"
  shows "rand_u32 s = (rng_mix (lfsr_step (lfsr_state s) XOR xor_all (pool s)), snd (rand_u32 s))"
    "lfsr_state (snd (rand_u32 s)) = lfsr_step (lfsr_state s)"
    "xor_all (pool (snd (rand_u32 s))) = lfsr_step (lfsr_state s)" "rng_ok (snd (rand_u32 s))"
proof -
  have i: "unat (pool_pos s) mod POOL_WORDS < length (pool s)" using assms by (simp add: rng_ok_def POOL_WORDS_def)
  show "rand_u32 s = (rng_mix (lfsr_step (lfsr_state s) XOR xor_all (pool s)), snd (rand_u32 s))"
    "lfsr_state (snd (rand_u32 s)) = lfsr_step (lfsr_state s)" "rng_ok (snd (rand_u32 s))"
    using assms by (simp_all add: rand_u32_def lfsr_next_def fold_xor Let_def rng_ok_def)
  show "xor_all (pool (snd (rand_u32 s))) = lfsr_step (lfsr_state s)"
    using xor_all_update [OF i] by (simp add: rand_u32_def lfsr_next_def fold_xor Let_def xor.left_commute [of "xor_all (pool s)"] xor.assoc)
qed

text \<open>The sequence of \<open>n\<close> draws.\<close>

fun rand_seq :: "nat \<Rightarrow> rng \<Rightarrow> u32 list" where
  "rand_seq 0 s = []"
| "rand_seq (Suc n) s = (let (r, s) = rand_u32 s in r # rand_seq n s)"

text \<open>What the draws are after the first, from the register alone.\<close>

fun lfsr_seq :: "nat \<Rightarrow> u32 \<Rightarrow> u32 list" where
  "lfsr_seq 0 x = []"
| "lfsr_seq (Suc n) x = rng_mix (lfsr_step x XOR x) # lfsr_seq n (lfsr_step x)"

lemma rand_seq_lfsr: "rng_ok s \<Longrightarrow> xor_all (pool s) = lfsr_state s \<Longrightarrow> rand_seq n s = lfsr_seq n (lfsr_state s)"
proof (induction n arbitrary: s)
  case (Suc n)
  note e = rand_u32_eq [OF Suc.prems(1)]
  have "rand_seq n (snd (rand_u32 s)) = lfsr_seq n (lfsr_step (lfsr_state s))"
    using Suc.IH [OF e(4)] e(2,3) by simp
  then show ?case using e(1) Suc.prems(2) by (metis (no_types, lifting) case_prod_conv lfsr_seq.simps(2) rand_seq.simps(2))
qed simp

lemma entropy_add_lfsr: "lfsr_state (entropy_add t v s) = lfsr_step (lfsr_state s)"
  by (simp add: entropy_add_def lfsr_next_def Let_def)



section \<open>Ranges\<close>

lemma rand_threshold_eq:
  assumes "mx > 1"
  shows "unat (rand_threshold mx) = 2 ^ 32 mod unat mx"
proof -
  have m: "1 < unat mx" using assms by (simp add: word_less_nat_alt)
  have "unat (NOT mx + 1) = 2 ^ 32 - unat mx"
  proof -
    have "NOT mx + 1 = - mx" by (simp add: not_eq_complement)
    moreover have "unat (0 - mx) = 2 ^ 32 - unat mx" using m by (subst unat_sub_if_size) (simp add: word_size)
    ultimately show ?thesis by simp
  qed
  moreover have "(2 ^ 32 - unat mx) mod unat mx = 2 ^ 32 mod unat mx"
    using le_mod_geq [of "unat mx" 4294967296] less_imp_le [OF unat_u32_less [of mx]] by simp
  ultimately show ?thesis by (simp add: rand_threshold_def unat_mod)
qed

text \<open>The draws that are kept are a whole number of periods, so that every remainder is equally frequent.\<close>

lemma rand_range_unbiased:
  assumes "mx > 1"
  shows "unat mx dvd 2 ^ 32 - unat (rand_threshold mx)"
  unfolding rand_threshold_eq [OF assms] by (rule dvd_minus_mod)

lemma rand_range_bound:
  assumes "mx > 1" "rand_range n mx s = Some (r, s')"
  shows "r < mx"
  using assms by (auto simp: rand_range_def word_less_nat_alt unat_mod split: if_splits)

end
