(* ===== verification/Ui.thy ===== *)
theory Ui
  imports KString "HOL-Library.Signed_Division"
begin

text \<open>
  The drawing layer of the desktop (\<open>os/src/ui.c\<close>, \<open>os/include/ui.h\<close>, the font of \<open>font8x8.h\<close>). The back buffer is a function from
  the index of a pixel, over all integers, so that a store outside the array is a store one can see; \<open>ui_flip\<close> is a copy
  to the frame buffer. Coordinates are integers without overflow. A drawing routine is a function on buffers.
\<close>

definition SCREEN_W :: int where "SCREEN_W = 1280"
definition SCREEN_H :: int where "SCREEN_H = 720"
definition TASKBAR_H :: int where "TASKBAR_H = 40"
definition TASKBAR_Y :: int where "TASKBAR_Y = SCREEN_H - TASKBAR_H"
definition ICON_RAW_SIZE :: int where "ICON_RAW_SIZE = 10"
definition ICON_DRAW_SIZE :: int where "ICON_DRAW_SIZE = 32"
definition FONT_W :: int where "FONT_W = 6"
definition FONT_H :: int where "FONT_H = 8"

definition COL_BG :: u32 where "COL_BG = 0x07070F"
definition COL_PANEL :: u32 where "COL_PANEL = 0x0C0C1A"
definition COL_PANEL2 :: u32 where "COL_PANEL2 = 0x10101E"
definition COL_ACCENT :: u32 where "COL_ACCENT = 0x00FFF0"
definition COL_ACCENT_DIM :: u32 where "COL_ACCENT_DIM = 0x009988"
definition COL_WHITE :: u32 where "COL_WHITE = 0xFFFFFF"
definition COL_GRAY :: u32 where "COL_GRAY = 0x888899"
definition COL_DARK_GRAY :: u32 where "COL_DARK_GRAY = 0x333344"
definition COL_HOVER :: u32 where "COL_HOVER = 0x1A1A30"
definition COL_INPUT_BG :: u32 where "COL_INPUT_BG = 0x0F0F22"
definition COL_INPUT_FOCUS :: u32 where "COL_INPUT_FOCUS = 0x00FFF0"
definition COL_INPUT_IDLE :: u32 where "COL_INPUT_IDLE = 0x333355"
definition COL_BTN_BG :: u32 where "COL_BTN_BG = 0x00FFF0"
definition COL_BTN_TEXT :: u32 where "COL_BTN_TEXT = 0x07070F"
definition COL_BTN_HOVER :: u32 where "COL_BTN_HOVER = 0x00CCCC"
definition COL_SHADOW :: u32 where "COL_SHADOW = 0x02020A"
definition COL_SEPARATOR :: u32 where "COL_SEPARATOR = 0x1E1E35"
definition COL_ERROR :: u32 where "COL_ERROR = 0xFF4444"
definition COL_SUCCESS :: u32 where "COL_SUCCESS = 0x44FF88"
definition COL_ICON_BG :: u32 where "COL_ICON_BG = 0x131328"

definition font8x8 :: "u8 list list" where
  "font8x8 = [
     [0, 0, 0, 0, 0, 0, 0, 0], [4, 4, 4, 4, 4, 0, 4, 0], [10, 10, 10, 0, 0, 0, 0, 0], [10, 31, 10, 10, 31, 10, 0, 0],
     [4, 30, 5, 14, 20, 15, 4, 0], [3, 19, 8, 4, 2, 25, 24, 0], [6, 9, 5, 2, 21, 9, 22, 0], [6, 4, 2, 0, 0, 0, 0, 0],
     [16, 8, 4, 4, 4, 8, 16, 0], [2, 4, 8, 8, 8, 4, 2, 0], [0, 21, 14, 31, 14, 21, 0, 0], [0, 4, 4, 31, 4, 4, 0, 0],
     [0, 0, 0, 0, 6, 6, 2, 0], [0, 0, 0, 31, 0, 0, 0, 0], [0, 0, 0, 0, 0, 6, 6, 0], [16, 16, 8, 4, 2, 1, 1, 0],
     [14, 17, 25, 21, 19, 17, 14, 0], [4, 6, 4, 4, 4, 4, 14, 0], [14, 17, 16, 8, 4, 2, 31, 0], [14, 17, 16, 12, 16, 17, 14, 0],
     [8, 12, 10, 9, 31, 8, 8, 0], [31, 1, 15, 16, 16, 17, 14, 0], [12, 2, 1, 15, 17, 17, 14, 0], [31, 16, 8, 8, 4, 4, 2, 0],
     [14, 17, 17, 14, 17, 17, 14, 0], [14, 17, 17, 30, 16, 8, 6, 0], [0, 6, 6, 0, 6, 6, 0, 0], [0, 6, 6, 0, 6, 6, 4, 0],
     [16, 8, 4, 2, 4, 8, 16, 0], [0, 0, 31, 0, 31, 0, 0, 0], [1, 2, 4, 8, 4, 2, 1, 0], [14, 17, 16, 8, 4, 0, 4, 0],
     [14, 17, 23, 21, 23, 1, 14, 0], [14, 17, 17, 31, 17, 17, 17, 0], [15, 17, 17, 15, 17, 17, 15, 0], [14, 17, 1, 1, 1, 17, 14, 0],
     [7, 9, 17, 17, 17, 9, 7, 0], [31, 1, 1, 15, 1, 1, 31, 0], [31, 1, 1, 15, 1, 1, 1, 0], [14, 17, 1, 29, 17, 17, 14, 0],
     [17, 17, 17, 31, 17, 17, 17, 0], [14, 4, 4, 4, 4, 4, 14, 0], [31, 8, 8, 8, 8, 9, 6, 0], [17, 9, 5, 3, 5, 9, 17, 0],
     [1, 1, 1, 1, 1, 1, 31, 0], [17, 27, 21, 21, 17, 17, 17, 0], [17, 19, 21, 25, 17, 17, 17, 0], [14, 17, 17, 17, 17, 17, 14, 0],
     [15, 17, 17, 15, 1, 1, 1, 0], [14, 17, 17, 17, 21, 9, 22, 0], [15, 17, 17, 15, 5, 9, 17, 0], [30, 1, 1, 14, 16, 16, 15, 0],
     [31, 4, 4, 4, 4, 4, 4, 0], [17, 17, 17, 17, 17, 17, 14, 0], [17, 17, 17, 17, 10, 10, 4, 0], [17, 17, 21, 21, 21, 27, 17, 0],
     [17, 17, 10, 4, 10, 17, 17, 0], [17, 17, 10, 4, 4, 4, 4, 0], [31, 16, 8, 4, 2, 1, 31, 0], [14, 2, 2, 2, 2, 2, 14, 0],
     [1, 1, 2, 4, 8, 16, 16, 0], [14, 8, 8, 8, 8, 8, 14, 0], [4, 10, 17, 0, 0, 0, 0, 0], [0, 0, 0, 0, 0, 0, 31, 0],
     [2, 4, 8, 0, 0, 0, 0, 0], [0, 14, 16, 30, 17, 30, 0, 0], [1, 1, 15, 17, 17, 15, 0, 0], [0, 0, 14, 1, 1, 14, 0, 0],
     [16, 16, 30, 17, 17, 30, 0, 0], [0, 14, 17, 31, 1, 14, 0, 0], [12, 2, 7, 2, 2, 2, 0, 0], [0, 30, 17, 17, 30, 16, 14, 0],
     [1, 1, 15, 17, 17, 17, 0, 0], [4, 0, 6, 4, 4, 14, 0, 0], [8, 0, 12, 8, 8, 9, 6, 0], [1, 1, 9, 5, 3, 5, 9, 0],
     [6, 4, 4, 4, 4, 14, 0, 0], [0, 0, 11, 21, 21, 17, 0, 0], [0, 0, 15, 17, 17, 17, 0, 0], [0, 0, 14, 17, 17, 14, 0, 0],
     [0, 0, 15, 17, 17, 15, 1, 1], [0, 0, 30, 17, 17, 30, 16, 16], [0, 0, 13, 3, 1, 1, 0, 0], [0, 0, 14, 1, 14, 16, 15, 0],
     [4, 4, 15, 4, 4, 12, 0, 0], [0, 0, 17, 17, 17, 30, 0, 0], [0, 0, 17, 17, 10, 4, 0, 0], [0, 0, 17, 21, 21, 10, 0, 0],
     [0, 0, 17, 10, 4, 10, 17, 0], [0, 0, 17, 17, 30, 16, 14, 0], [0, 0, 31, 8, 4, 2, 31, 0], [12, 4, 4, 2, 4, 4, 12, 0],
     [4, 4, 4, 0, 4, 4, 4, 0], [6, 4, 4, 8, 4, 4, 6, 0], [0, 0, 8, 21, 2, 0, 0, 0], [0, 0, 0, 0, 0, 0, 0, 0]]"

type_synonym buf = "int \<Rightarrow> u32"
type_synonym draw = "buf \<Rightarrow> buf"

text \<open>Several drawing steps, one after the other.\<close>

definition draws :: "draw list \<Rightarrow> draw" where "draws = fold (\<lambda>f. f)"

definition draw_if :: "bool \<Rightarrow> draw \<Rightarrow> draw" where "draw_if c f = (if c then f else (\<lambda>b. b))"

section \<open>Primitives\<close>

definition fb_put :: "int \<Rightarrow> int \<Rightarrow> u32 \<Rightarrow> draw" where
  "fb_put x y col b = (if 0 \<le> x \<and> x < SCREEN_W \<and> 0 \<le> y \<and> y < SCREEN_H then b(y * SCREEN_W + x := col) else b)"

definition ui_put_pixel :: "int \<Rightarrow> int \<Rightarrow> u32 \<Rightarrow> draw" where "ui_put_pixel = fb_put"

definition ui_clear :: "u32 \<Rightarrow> draw" where
  "ui_clear colour b = fold (\<lambda>i b. b(i := colour)) [0..SCREEN_W * SCREEN_H - 1] b"

text \<open>The inner loops: one row from \<open>x1\<close> to below \<open>x2\<close>, one column from \<open>y1\<close> to below \<open>y2\<close>.\<close>

definition row_fill :: "int \<Rightarrow> int \<Rightarrow> int \<Rightarrow> u32 \<Rightarrow> draw" where
  "row_fill row x1 x2 colour b = fold (\<lambda>col b. b(row * SCREEN_W + col := colour)) [x1..x2 - 1] b"

definition ui_fill_rect :: "int \<Rightarrow> int \<Rightarrow> int \<Rightarrow> int \<Rightarrow> u32 \<Rightarrow> draw" where
  "ui_fill_rect x y w h colour b =
     (let x1 = (if x < 0 then 0 else x); y1 = (if y < 0 then 0 else y);
          x2 = (if x + w > SCREEN_W then SCREEN_W else x + w); y2 = (if y + h > SCREEN_H then SCREEN_H else y + h)
      in fold (\<lambda>row. row_fill row x1 x2 colour) [y1..y2 - 1] b)"

definition ui_hline :: "int \<Rightarrow> int \<Rightarrow> int \<Rightarrow> u32 \<Rightarrow> draw" where
  "ui_hline x y len colour b =
     (if y < 0 \<or> y \<ge> SCREEN_H then b
      else row_fill y (if x < 0 then 0 else x) (if x + len > SCREEN_W then SCREEN_W else x + len) colour b)"

definition ui_vline :: "int \<Rightarrow> int \<Rightarrow> int \<Rightarrow> u32 \<Rightarrow> draw" where
  "ui_vline x y len colour b =
     (if x < 0 \<or> x \<ge> SCREEN_W then b
      else let y1 = (if y < 0 then 0 else y); y2 = (if y + len > SCREEN_H then SCREEN_H else y + len)
           in fold (\<lambda>row b. b(row * SCREEN_W + x := colour)) [y1..y2 - 1] b)"

definition ui_draw_rect :: "int \<Rightarrow> int \<Rightarrow> int \<Rightarrow> int \<Rightarrow> u32 \<Rightarrow> draw" where
  "ui_draw_rect x y w h colour =
     draws [ui_hline x y w colour, ui_hline x (y + h - 1) w colour, ui_vline x y h colour, ui_vline (x + w - 1) y h colour]"

definition ui_draw_shadow_box :: "int \<Rightarrow> int \<Rightarrow> int \<Rightarrow> int \<Rightarrow> draw" where
  "ui_draw_shadow_box x y w h =
     draws [ui_fill_rect (x + 4) (y + 4) w h 0x02020A, ui_fill_rect (x + 2) (y + 2) (w + 1) (h + 1) 0x05050E,
            ui_fill_rect x y w h COL_PANEL, ui_hline x y w COL_ACCENT_DIM, ui_hline x (y + h - 1) w COL_DARK_GRAY,
            ui_vline x y h COL_DARK_GRAY, ui_vline (x + w - 1) y h COL_DARK_GRAY]"

definition ui_draw_separator :: "int \<Rightarrow> int \<Rightarrow> int \<Rightarrow> draw" where
  "ui_draw_separator x y w = draws [ui_hline x y w COL_SEPARATOR, ui_hline x (y + 1) w 0x252535]"

text \<open>\<open>ui_flip\<close>: what the frame buffer holds afterwards.\<close>

definition ui_flip :: "buf \<Rightarrow> buf \<Rightarrow> buf" where
  "ui_flip g_back g_fb = fold (\<lambda>i fb. fb(i := g_back i)) [0..SCREEN_W * SCREEN_H - 1] g_fb"

definition ui_init :: "buf \<Rightarrow> buf \<times> buf" where
  "ui_init g_fb = ((\<lambda>_. 0), ui_flip (\<lambda>_. 0) g_fb)"

section \<open>Text\<close>

definition glyph :: "u8 \<Rightarrow> u8 list" where
  "glyph c = font8x8 ! (unat (if c < 32 \<or> c > 127 then 63 else c) - 32)"

definition ui_draw_char :: "int \<Rightarrow> int \<Rightarrow> u8 \<Rightarrow> u32 \<Rightarrow> buf \<Rightarrow> int \<times> buf" where
  "ui_draw_char x y c colour b =
     (x + FONT_W + 1,
      fold (\<lambda>row. fold (\<lambda>col. draw_if (bit (glyph c ! row) col) (fb_put (x + int col) (y + int row) colour)) [0..<8]) [0..<8] b)"

fun ui_draw_text :: "int \<Rightarrow> int \<Rightarrow> cstr \<Rightarrow> u32 \<Rightarrow> buf \<Rightarrow> int \<times> buf" where
  "ui_draw_text x y [] colour b = (x, b)"
| "ui_draw_text x y (c # s) colour b =
     (if c = 0 then (x, b)
      else let (x, b) = ui_draw_char x y c colour b
           in if x \<ge> SCREEN_W then (x, b) else ui_draw_text x y s colour b)"

definition draw_text :: "int \<Rightarrow> int \<Rightarrow> cstr \<Rightarrow> u32 \<Rightarrow> draw" where
  "draw_text x y s colour b = snd (ui_draw_text x y s colour b)"

definition ui_draw_text_centered :: "int \<Rightarrow> int \<Rightarrow> int \<Rightarrow> int \<Rightarrow> cstr \<Rightarrow> u32 \<Rightarrow> draw" where
  "ui_draw_text_centered rx ry rw rh s colour =
     (let tw = int (length (cstring s)) * (FONT_W + 1)
      in draw_text (rx + (rw - tw) sdiv 2) (ry + (rh - FONT_H) sdiv 2) s colour)"

section \<open>Widgets\<close>

definition ui_draw_button :: "int \<Rightarrow> int \<Rightarrow> int \<Rightarrow> int \<Rightarrow> cstr \<Rightarrow> bool \<Rightarrow> draw" where
  "ui_draw_button x y w h label hover =
     (let tw = int (length (cstring label)) * (FONT_W + 1)
      in draws [ui_fill_rect x y w h (if hover then COL_BTN_HOVER else COL_BTN_BG),
                ui_draw_rect x y w h (if hover then COL_WHITE else COL_ACCENT_DIM),
                draw_text (x + (w - tw) sdiv 2) (y + (h - FONT_H) sdiv 2) label COL_BTN_TEXT])"

text \<open>The dots of a secret field from \<open>tx\<close> on, \<open>n\<close> of them left: the buffer, and \<open>tx\<close> after the loop.\<close>

fun secret_dots :: "nat \<Rightarrow> int \<Rightarrow> int \<Rightarrow> int \<Rightarrow> buf \<Rightarrow> int \<times> buf" where
  "secret_dots 0 tx ty lim b = (tx, b)"
| "secret_dots (Suc n) tx ty lim b =
     (if tx + 8 < lim then secret_dots n (tx + 9) ty lim (ui_fill_rect (tx + 1) (ty + 1) 5 5 COL_ACCENT b) else (tx, b))"

definition max_chars :: "int \<Rightarrow> int" where "max_chars w = (w - 16) sdiv (FONT_W + 1)"

text \<open>The text of an input field: the buffer, and \<open>tx\<close> after it.\<close>

definition input_text :: "int \<Rightarrow> int \<Rightarrow> int \<Rightarrow> int \<Rightarrow> cstr \<Rightarrow> bool \<Rightarrow> buf \<Rightarrow> int \<times> buf" where
  "input_text x w tx ty text' secret b =
     (if chr text' = 0 then (tx, b)
      else if secret then secret_dots (length (cstring text')) tx ty (x + w - 4) b
      else (tx, draw_text tx ty (drop (nat (int (length (cstring text')) - max_chars w)) (cstring text')) COL_WHITE b))"

definition input_cursor :: "int \<Rightarrow> int \<Rightarrow> int \<Rightarrow> cstr \<Rightarrow> bool \<Rightarrow> int" where
  "input_cursor x w tx text' secret =
     (let clen = int (length (cstring text')) in
      if secret then tx + clen * 9
      else x + 8 + (if clen < max_chars w then clen else max_chars w) * (FONT_W + 1))"

definition ui_draw_input :: "int \<Rightarrow> int \<Rightarrow> int \<Rightarrow> int \<Rightarrow> cstr \<Rightarrow> bool \<Rightarrow> bool \<Rightarrow> draw" where
  "ui_draw_input x y w h text' focused secret b =
     (let b = ui_fill_rect x y w h COL_INPUT_BG b;
          b = ui_draw_rect x y w h (if focused then COL_INPUT_FOCUS else COL_INPUT_IDLE) b;
          b = draw_if focused (ui_draw_rect (x + 1) (y + 1) (w - 2) (h - 2) 0x00887744) b;
          ty = y + (h - FONT_H) sdiv 2;
          (tx, b) = input_text x w (x + 8) ty text' secret b;
          cx = input_cursor x w tx text' secret
      in draw_if (focused \<and> cx < x + w - 4) (ui_vline cx ty FONT_H COL_ACCENT) b)"

definition ui_draw_icon :: "int \<Rightarrow> int \<Rightarrow> u32 list \<Rightarrow> draw" where
  "ui_draw_icon x y pixels =
     (let scale = ICON_DRAW_SIZE div ICON_RAW_SIZE; off = (ICON_DRAW_SIZE - ICON_RAW_SIZE * scale) div 2
      in fold (\<lambda>row. fold (\<lambda>col.
           let c = pixels ! nat (row * ICON_RAW_SIZE + col)
           in ui_fill_rect (x + off + col * scale) (y + off + row * scale) scale scale (if c = 0 then COL_ICON_BG else c))
             [0..ICON_RAW_SIZE - 1]) [0..ICON_RAW_SIZE - 1])"

definition ui_draw_icon_tile :: "int \<Rightarrow> int \<Rightarrow> u32 list \<Rightarrow> cstr \<Rightarrow> bool \<Rightarrow> draw" where
  "ui_draw_icon_tile x y pixels label selected =
     (let tile_w = 64; tile_h = 80; ix = x + (tile_w - ICON_DRAW_SIZE) div 2; iy = y + 4;
          lw = int (length (cstring label)) * (FONT_W + 1); lx = x + (tile_w - lw) sdiv 2
      in draws [ui_fill_rect x y tile_w tile_h (if selected then COL_HOVER else COL_BG),
                draw_if selected (ui_draw_rect x y tile_w tile_h COL_ACCENT_DIM),
                ui_fill_rect (ix - 2) (iy - 2) (ICON_DRAW_SIZE + 4) (ICON_DRAW_SIZE + 4) COL_ICON_BG,
                ui_draw_rect (ix - 2) (iy - 2) (ICON_DRAW_SIZE + 4) (ICON_DRAW_SIZE + 4) COL_DARK_GRAY,
                ui_draw_icon ix iy pixels,
                draw_text (if lx < x then x else lx) (iy + ICON_DRAW_SIZE + 6) label (if selected then COL_ACCENT else COL_WHITE)])"

section \<open>Pixels\<close>

definition on_screen :: "int \<Rightarrow> bool" where "on_screen i \<longleftrightarrow> 0 \<le> i \<and> i < SCREEN_W * SCREEN_H"
definition px :: "int \<Rightarrow> int" where "px i = i mod SCREEN_W"
definition py :: "int \<Rightarrow> int" where "py i = i div SCREEN_W"

lemma screen_consts [simp]: "SCREEN_W = 1280" "SCREEN_H = 720" "TASKBAR_Y = 680" "TASKBAR_H = 40"
  by (simp_all add: SCREEN_W_def SCREEN_H_def TASKBAR_Y_def TASKBAR_H_def)

lemma fold_upd: "fold (\<lambda>k b. b(f k := (c :: u32))) ks b = (\<lambda>i. if i \<in> f ` set ks then c else b i)"
  by (induction ks arbitrary: b) auto

lemma row_fill_eq: "row_fill row x1 x2 c b = (\<lambda>i. if x1 \<le> i - row * SCREEN_W \<and> i - row * SCREEN_W < x2 then c else b i)"
proof -
  have "i \<in> (\<lambda>col. row * SCREEN_W + col) ` {x1..x2 - 1} \<longleftrightarrow> x1 \<le> i - row * SCREEN_W \<and> i - row * SCREEN_W < x2" for i
    by (auto simp: image_iff intro!: bexI [of _ "i - row * SCREEN_W"])
  then show ?thesis unfolding row_fill_def fold_upd by (simp del: screen_consts)
qed

lemma fold_rows:
  "fold (\<lambda>row. row_fill row x1 x2 c) rows b = (\<lambda>i. if (\<exists>row \<in> set rows. x1 \<le> i - row * SCREEN_W \<and> i - row * SCREEN_W < x2) then c else b i)"
  by (induction rows arbitrary: b) (auto simp: row_fill_eq fun_eq_iff simp del: screen_consts)

lemma index_pixel:
  assumes "0 \<le> x1" "x2 \<le> SCREEN_W" "x1 \<le> i - row * SCREEN_W" "i - row * SCREEN_W < x2"
  shows "row = py i" "px i = i - row * SCREEN_W"
proof -
  have i: "i = (i - row * SCREEN_W) + row * SCREEN_W" by simp
  have r: "0 \<le> i - row * SCREEN_W" "i - row * SCREEN_W < SCREEN_W" using assms by linarith+
  have "py i = ((i - row * SCREEN_W) + row * SCREEN_W) div SCREEN_W" unfolding py_def by simp
  also have "\<dots> = row" using r by (subst div_mult_self1) (simp_all add: div_pos_pos_trivial)
  finally show "row = py i" by simp
  then show "px i = i - row * SCREEN_W" unfolding px_def py_def by (simp add: minus_div_mult_eq_mod)
qed

lemma pixel_index: "i - py i * SCREEN_W = px i"
  unfolding px_def py_def by (simp add: minus_div_mult_eq_mod)

lemma on_screen_iff: "on_screen i \<longleftrightarrow> 0 \<le> py i \<and> py i < SCREEN_H"
  unfolding on_screen_def py_def by (auto simp: pos_imp_zdiv_nonneg_iff)

lemma px_range: "0 \<le> px i" "px i < SCREEN_W" by (simp_all add: px_def)

text \<open>A filled rectangle is the part of it on the screen.\<close>

lemma ui_fill_rect_eq:
  "ui_fill_rect x y w h c b = (\<lambda>i. if on_screen i \<and> x \<le> px i \<and> px i < x + w \<and> y \<le> py i \<and> py i < y + h then c else b i)"
proof -
  let ?x1 = "if x < 0 then 0 else x" and ?y1 = "if y < 0 then 0 else y"
    and ?x2 = "if x + w > SCREEN_W then SCREEN_W else x + w" and ?y2 = "if y + h > SCREEN_H then SCREEN_H else y + h"
  have "(\<exists>row \<in> set [?y1..?y2 - 1]. ?x1 \<le> i - row * SCREEN_W \<and> i - row * SCREEN_W < ?x2) \<longleftrightarrow>
      on_screen i \<and> x \<le> px i \<and> px i < x + w \<and> y \<le> py i \<and> py i < y + h" (is "?L \<longleftrightarrow> ?R") for i
  proof
    assume ?L
    then obtain row where row: "?y1 \<le> row" "row < ?y2" "?x1 \<le> i - row * SCREEN_W" "i - row * SCREEN_W < ?x2"
      by (auto simp del: screen_consts)
    have "0 \<le> ?x1" "?x2 \<le> SCREEN_W" by simp_all
    note p = index_pixel [OF this row(3,4)]
    have "?x1 \<le> px i \<and> px i < ?x2 \<and> ?y1 \<le> py i \<and> py i < ?y2" using row p by metis
    then show ?R by (auto simp: on_screen_iff split: if_splits)
  next
    assume R: ?R
    then have "?y1 \<le> py i \<and> py i \<le> ?y2 - 1 \<and> ?x1 \<le> px i \<and> px i < ?x2" using px_range [of i] by (auto simp: on_screen_iff)
    then show ?L unfolding pixel_index [symmetric] by (intro bexI [of _ "py i"]) (simp_all del: screen_consts)
  qed
  then show ?thesis unfolding ui_fill_rect_def Let_def fold_rows by (simp del: screen_consts)
qed

section \<open>Nothing is drawn outside the buffer\<close>

definition inside :: "draw \<Rightarrow> bool" where
  "inside f \<longleftrightarrow> (\<forall>b i. \<not> on_screen i \<longrightarrow> f b i = b i)"

named_theorems drawing "drawing routines that stay inside the buffer"

lemma inside_id [drawing]: "inside (\<lambda>b. b)" by (simp add: inside_def)

lemma inside_comp: "inside f \<Longrightarrow> inside g \<Longrightarrow> inside (\<lambda>b. g (f b))" by (simp add: inside_def)

lemma inside_fold [drawing]: "(\<And>k. k \<in> set ks \<Longrightarrow> inside (f k)) \<Longrightarrow> inside (fold f ks)"
  by (induction ks) (auto simp: inside_def)

lemma inside_draws [drawing]: "list_all inside fs \<Longrightarrow> inside (draws fs)"
  unfolding draws_def by (rule inside_fold) (simp add: list_all_iff)

lemma inside_draw_if [drawing]: "(c \<Longrightarrow> inside f) \<Longrightarrow> inside (draw_if c f)"
  by (simp add: draw_if_def inside_id)

lemma inside_fill [drawing]: "inside (ui_fill_rect x y w h c)"
  by (simp add: inside_def ui_fill_rect_eq)

lemma inside_clear [drawing]: "inside (ui_clear c)"
  unfolding inside_def ui_clear_def fold_upd by (auto simp: on_screen_def)

lemma inside_put [drawing]: "inside (fb_put x y c)"
proof -
  have "on_screen (y * SCREEN_W + x)" if "0 \<le> x" "x < SCREEN_W" "0 \<le> y" "y < SCREEN_H"
    using that by (auto simp: on_screen_def)
  then show ?thesis by (auto simp: inside_def fb_put_def simp del: screen_consts)
qed

lemma inside_put_pixel [drawing]: "inside (ui_put_pixel x y c)"
  unfolding ui_put_pixel_def by (rule inside_put)

lemma inside_hline [drawing]: "inside (ui_hline x y len c)"
proof (cases "y < 0 \<or> y \<ge> SCREEN_H")
  case False
  let ?x1 = "if x < 0 then 0 else x" and ?x2 = "if x + len > SCREEN_W then SCREEN_W else x + len"
  have "on_screen i" if "?x1 \<le> i - y * SCREEN_W" "i - y * SCREEN_W < ?x2" for i
  proof -
    have "0 \<le> ?x1" "?x2 \<le> SCREEN_W" by simp_all
    from index_pixel(1) [OF this that] False show ?thesis by (simp add: on_screen_iff)
  qed
  then show ?thesis using False unfolding inside_def ui_hline_def row_fill_eq by (auto simp del: screen_consts)
qed (simp add: inside_def ui_hline_def)

lemma inside_vline [drawing]: "inside (ui_vline x y len c)"
proof (cases "x < 0 \<or> x \<ge> SCREEN_W")
  case False
  let ?y1 = "if y < 0 then 0 else y" and ?y2 = "if y + len > SCREEN_H then SCREEN_H else y + len"
  have "on_screen i" if "i \<in> (\<lambda>row. row * SCREEN_W + x) ` {?y1..?y2 - 1}" for i
    using that False by (auto simp: on_screen_def split: if_splits)
  then show ?thesis using False unfolding inside_def ui_vline_def Let_def fold_upd by (auto simp del: screen_consts)
qed (simp add: inside_def ui_vline_def)

lemma inside_draw_rect [drawing]: "inside (ui_draw_rect x y w h c)"
  unfolding ui_draw_rect_def by (intro drawing) (simp add: drawing)

lemma inside_shadow_box [drawing]: "inside (ui_draw_shadow_box x y w h)"
  unfolding ui_draw_shadow_box_def by (intro drawing) (simp add: drawing)

lemma inside_separator [drawing]: "inside (ui_draw_separator x y w)"
  unfolding ui_draw_separator_def by (intro drawing) (simp add: drawing)

lemma inside_char: "inside (\<lambda>b. snd (ui_draw_char x y c col b))"
  unfolding ui_draw_char_def snd_conv by (intro drawing)

lemma inside_text [drawing]: "inside (draw_text x y s c)"
proof -
  have "\<not> on_screen i \<Longrightarrow> snd (ui_draw_text x y s c b) i = b i" for b i
  proof (induction x y s c b rule: ui_draw_text.induct)
    case (2 x y ch s c b)
    have "\<not> on_screen i \<Longrightarrow> snd (ui_draw_char x y ch c b) i = b i"
      using inside_char by (simp add: inside_def)
    with 2 show ?case by (auto simp: Let_def split: prod.split)
  qed simp
  then show ?thesis by (simp add: inside_def draw_text_def)
qed

lemma inside_text_centered [drawing]: "inside (ui_draw_text_centered x y w h s c)"
  unfolding ui_draw_text_centered_def Let_def by (intro drawing)

lemma inside_button [drawing]: "inside (ui_draw_button x y w h s hover)"
  unfolding ui_draw_button_def Let_def by (intro drawing) (simp add: drawing)

lemma secret_dots_inside: "\<not> on_screen i \<Longrightarrow> snd (secret_dots n tx ty lim b) i = b i"
proof (induction n tx ty lim b rule: secret_dots.induct)
  case (2 n tx ty lim b)
  then show ?case using inside_fill by (simp add: inside_def)
qed simp

lemma inside_input [drawing]: "inside (ui_draw_input x y w h s focused secret)"
proof -
  have "inside (\<lambda>b. snd (input_text x w tx ty s secret b))" for tx ty
    using secret_dots_inside inside_text by (simp add: inside_def input_text_def)
  then have "\<not> on_screen i \<Longrightarrow> snd (input_text x w tx ty s secret b) i = b i" for tx ty b i by (simp add: inside_def)
  moreover have "\<not> on_screen i \<Longrightarrow> ui_fill_rect x' y' w' h' c b i = b i" "\<not> on_screen i \<Longrightarrow> ui_draw_rect x' y' w' h' c b i = b i"
    "\<not> on_screen i \<Longrightarrow> ui_vline x' y' w' c b i = b i" for x' y' w' h' c b i
    using inside_fill inside_draw_rect inside_vline by (simp_all add: inside_def)
  ultimately show ?thesis
    unfolding inside_def ui_draw_input_def Let_def by (auto simp: draw_if_def split: prod.split) (metis snd_conv)+
qed

lemma inside_icon [drawing]: "inside (ui_draw_icon x y pixels)"
  unfolding ui_draw_icon_def Let_def by (intro drawing)

lemma inside_icon_tile [drawing]: "inside (ui_draw_icon_tile x y pixels s sel)"
  unfolding ui_draw_icon_tile_def Let_def by (intro drawing) (simp add: drawing)

section \<open>Cursor of a secret field\<close>

lemma secret_dots_fit: "tx + 9 * int n < lim \<Longrightarrow> fst (secret_dots n tx ty lim b) = tx + 9 * int n"
  by (induction n arbitrary: tx b) (auto simp: algebra_simps)

text \<open>The dots of a secret field are 9 pixels apart, but its cursor moves by 18 with each.\<close>

lemma password_cursor_doubled:
  assumes "0 \<notin> set s" "s \<noteq> []" "8 + 9 * int (length s) < w - 4"
  shows "input_cursor x w (fst (input_text x w (x + 8) ty s True b)) s True = x + 8 + 18 * int (length s)"
proof -
  have "chr s \<noteq> 0" using assms by (cases s) auto
  then show ?thesis using assms by (simp add: input_text_def input_cursor_def secret_dots_fit)
qed

text \<open>
  C0: \<open>ui_fill_rect\<close> colours exactly the pixels of the rectangle that are on the screen, for any position and size, negative ones and
  ones past the edges included, and changes no other word of memory.
\<close>

theorem ui_fill_rect_exact:
  "ui_fill_rect x y w h c b =
     (\<lambda>i. if (\<exists>u v. i = v * SCREEN_W + u \<and> 0 \<le> u \<and> u < SCREEN_W \<and> 0 \<le> v \<and> v < SCREEN_H \<and> x \<le> u \<and> u < x + w \<and> y \<le> v \<and> v < y + h)
          then c else b i)"
proof -
  have "(\<exists>u v. i = v * SCREEN_W + u \<and> 0 \<le> u \<and> u < SCREEN_W \<and> 0 \<le> v \<and> v < SCREEN_H \<and> x \<le> u \<and> u < x + w \<and> y \<le> v \<and> v < y + h) \<longleftrightarrow>
      on_screen i \<and> x \<le> px i \<and> px i < x + w \<and> y \<le> py i \<and> py i < y + h" (is "?L \<longleftrightarrow> ?R") for i
  proof
    assume ?L
    then obtain u v where uv: "i = v * SCREEN_W + u" "0 \<le> u" "u < SCREEN_W" "0 \<le> v" "v < SCREEN_H" "x \<le> u" "u < x + w" "y \<le> v" "v < y + h"
      by blast
    have "v = py i" "px i = u" using index_pixel [of 0 SCREEN_W i v] uv by (simp_all del: screen_consts)
    then show ?R using uv by (simp add: on_screen_iff)
  next
    assume ?R
    then show ?L using px_range [of i] pixel_index [of i] by (intro exI [of _ "px i"] exI [of _ "py i"]) (auto simp: on_screen_iff)
  qed
  then show ?thesis by (simp add: ui_fill_rect_eq)
qed

end
