(* ===== verification/Login.thy ===== *)
theory Login
  imports Ui Icons KFormat Keyboard Rtc
begin

text \<open>
  The user database, the first-run form and the login form of the desktop (\<open>os/src/login.c\<close>). A frame is one pass of the
  loop of a form: the mouse as the drained event queue leaves it and what \<open>kbd_poll\<close> returns. The lines on the serial
  console and the pause of a frame are left out; the pictures of the forms are drawings on the buffer of \<open>Ui\<close>. The text of a field is the C string in its array.
\<close>

section \<open>The user database\<close>

definition LOGIN_USERNAME_MAX :: nat where "LOGIN_USERNAME_MAX = 32"
definition LOGIN_PASSWORD_MAX :: nat where "LOGIN_PASSWORD_MAX = 64"
definition LOGIN_MAX_USERS :: nat where "LOGIN_MAX_USERS = 8"

text \<open>The bytes of the arrays past what \<open>strncpy\<close> writes are never written and stay 0.\<close>

record os_user =
  u_username :: "u8 list"
  u_password_hash :: "u8 list"
  u_admin :: bool

text \<open>The entries below \<open>user_count\<close>.\<close>

type_synonym users = "os_user list"

definition users_init :: users where "users_init = []"

definition users_add :: "cstr \<Rightarrow> cstr \<Rightarrow> bool \<Rightarrow> users \<Rightarrow> bool \<times> users" where
  "users_add name pw adm db =
     (if length db \<ge> LOGIN_MAX_USERS then (False, db)
      else (True, db @ [\<lparr>u_username = strncpy name (LOGIN_USERNAME_MAX - 1) @ [0],
                         u_password_hash = strncpy pw (LOGIN_PASSWORD_MAX - 1) @ [0, 0], u_admin = adm\<rparr>]))"

definition check_login :: "cstr \<Rightarrow> cstr \<Rightarrow> users \<Rightarrow> os_user option" where
  "check_login name pw db = find (\<lambda>x. strcmp (u_username x) name = 0 \<and> strcmp (u_password_hash x) pw = 0) db"

section \<open>Frames\<close>

definition FIELD_H :: int where "FIELD_H = 36"
definition BTN_W :: int where "BTN_W = 140"
definition BTN_H :: int where "BTN_H = 36"
definition CARD_W :: int where "CARD_W = 380"
definition CARD_H :: int where "CARD_H = 340"
definition CARD_X :: int where "CARD_X = (SCREEN_W - CARD_W) div 2"
definition CARD_Y :: int where "CARD_Y = (SCREEN_H - CARD_H) div 2 - 20"
definition FIELD_W :: int where "FIELD_W = 300"
definition FIELD_X :: int where "FIELD_X = CARD_X + (CARD_W - FIELD_W) div 2"
definition USER_Y :: int where "USER_Y = CARD_Y + 170"
definition PASS_Y :: int where "PASS_Y = CARD_Y + 220"
definition BTN_Y :: int where "BTN_Y = CARD_Y + 275"
definition LOGIN_BTN_X :: int where "LOGIN_BTN_X = CARD_X + (CARD_W - BTN_W) div 2"
definition SETUP_W :: int where "SETUP_W = 380"
definition SETUP_H :: int where "SETUP_H = 400"
definition SETUP_X :: int where "SETUP_X = (SCREEN_W - SETUP_W) div 2"
definition SETUP_Y :: int where "SETUP_Y = (SCREEN_H - SETUP_H) div 2 - 10"
definition SF_W :: int where "SF_W = 300"
definition SF_X :: int where "SF_X = SETUP_X + (SETUP_W - SF_W) div 2"
definition SU_Y :: int where "SU_Y = SETUP_Y + 150"
definition SP_Y :: int where "SP_Y = SETUP_Y + 210"
definition SP2_Y :: int where "SP2_Y = SETUP_Y + 270"
definition SB_Y :: int where "SB_Y = SETUP_Y + 340"
definition SETUP_BTN_X :: int where "SETUP_BTN_X = SETUP_X + (SETUP_W - BTN_W) div 2"

definition hit :: "int \<Rightarrow> int \<Rightarrow> int \<Rightarrow> int \<Rightarrow> int \<Rightarrow> int \<Rightarrow> bool" where
  "hit mx my x y w h \<longleftrightarrow> mx \<ge> x \<and> mx < x + w \<and> my \<ge> y \<and> my < y + h"

definition KEY_BACKSPACE :: u8 where "KEY_BACKSPACE = 0x0E"
definition KEY_TAB :: u8 where "KEY_TAB = 0x0F"
definition KEY_ENTER :: u8 where "KEY_ENTER = 0x1C"
definition KEY_UP :: u8 where "KEY_UP = 0x48"
definition KEY_DOWN :: u8 where "KEY_DOWN = 0x50"
definition MOUSE_BTN_LEFT :: u8 where "MOUSE_BTN_LEFT = push_bit 0 1"

record frame =
  fr_x :: int
  fr_y :: int
  fr_buttons :: u8
  fr_key :: "kbd_event option"

record login_form =
  lf_username :: cstr
  lf_password :: cstr
  lf_focus :: int
  lf_error :: bool
  lf_error_msg :: "u8 list"
  lf_prev_btn :: u8

record setup_form = login_form +
  sf_password2 :: cstr

definition is_clicked :: "frame \<Rightarrow> ('a login_form_scheme) \<Rightarrow> bool" where
  "is_clicked fr s \<longleftrightarrow> fr_buttons fr AND MOUSE_BTN_LEFT \<noteq> 0 \<and> \<not> lf_prev_btn s AND MOUSE_BTN_LEFT \<noteq> 0"

definition set_focus :: "int \<Rightarrow> int \<Rightarrow> 'a login_form_scheme \<Rightarrow> 'a login_form_scheme" where
  "set_focus new_focus max_fields s =
     (let new_focus = (if new_focus < 0 then max_fields - 1 else new_focus);
          new_focus = (if new_focus \<ge> max_fields then 0 else new_focus)
      in s\<lparr>lf_focus := new_focus\<rparr>)"

definition set_error :: "cstr \<Rightarrow> 'a login_form_scheme \<Rightarrow> 'a login_form_scheme" where
  "set_error msg s = s\<lparr>lf_error := True, lf_error_msg := strncpy msg 63 @ [0]\<rparr>"

text \<open>Typing into a field and the backspace key.\<close>

definition type_char :: "nat \<Rightarrow> u8 \<Rightarrow> cstr \<Rightarrow> cstr" where
  "type_char maxlen c f = (if length f < maxlen - 1 then f @ [c] else f)"

definition printable :: "u8 \<Rightarrow> bool" where
  "printable c \<longleftrightarrow> c \<ge> 32 \<and> c < 127"

section \<open>The first-run form\<close>

text \<open>The two outcomes of \<open>try_create_user\<close>: the form with its message, or the database with the new user.\<close>

definition try_create_user :: "cstr \<Rightarrow> cstr \<Rightarrow> cstr \<Rightarrow> users \<Rightarrow> setup_form \<Rightarrow> setup_form + users" where
  "try_create_user name pw pw2 db s =
     (if length name < 1 then Inl (set_error (asc ''Benutzername darf nicht leer sein'') s)
      else if length pw < 1 then Inl (set_error (asc ''Passwort darf nicht leer sein'') s)
      else if strcmp pw pw2 \<noteq> 0 then Inl (set_error (asc ''Passwoerter stimmen nicht ueberein'') s)
      else Inr (snd (users_add name pw True db)))"

definition clear_passwords :: "setup_form \<Rightarrow> setup_form" where
  "clear_passwords s = s\<lparr>lf_password := [], sf_password2 := [], lf_focus := 1\<rparr>"

text \<open>The click of a frame; \<open>stale\<close> is the byte of the stack after the copy of the second password.\<close>

definition setup_click :: "u8 \<Rightarrow> frame \<Rightarrow> users \<Rightarrow> setup_form \<Rightarrow> setup_form + users" where
  "setup_click stale fr db s =
     (if hit (fr_x fr) (fr_y fr) SF_X SU_Y SF_W FIELD_H then Inl ((set_focus 0 3 s)\<lparr>lf_error := False\<rparr>)
      else if hit (fr_x fr) (fr_y fr) SF_X SP_Y SF_W FIELD_H then Inl ((set_focus 1 3 s)\<lparr>lf_error := False\<rparr>)
      else if hit (fr_x fr) (fr_y fr) SF_X SP2_Y SF_W FIELD_H then Inl ((set_focus 2 3 s)\<lparr>lf_error := False\<rparr>)
      else if hit (fr_x fr) (fr_y fr) SETUP_BTN_X SB_Y BTN_W BTN_H then
        (let pw2_tmp = strncpy (sf_password2 s) (LOGIN_PASSWORD_MAX - 1) @ [stale] in
         case try_create_user (lf_username s) (lf_password s) pw2_tmp db s of
           Inl s \<Rightarrow> Inl (clear_passwords s)
         | Inr db \<Rightarrow> Inr db)
      else Inl s)"

definition setup_edit :: "(cstr \<Rightarrow> cstr) \<Rightarrow> (cstr \<Rightarrow> cstr) \<Rightarrow> setup_form \<Rightarrow> setup_form" where
  "setup_edit fname fpass s =
     (if lf_focus s = 0 then s\<lparr>lf_username := fname (lf_username s)\<rparr>
      else if lf_focus s = 1 then s\<lparr>lf_password := fpass (lf_password s)\<rparr>
      else s\<lparr>sf_password2 := fpass (sf_password2 s)\<rparr>)"

definition setup_key :: "kbd_event \<Rightarrow> users \<Rightarrow> setup_form \<Rightarrow> setup_form + users" where
  "setup_key ev db s0 =
     (let s = s0\<lparr>lf_error := False\<rparr> in
      if ev_scancode ev = KEY_TAB then Inl (set_focus (lf_focus s + 1) 3 s)
      else if ev_scancode ev = KEY_UP then Inl (set_focus (lf_focus s - 1) 3 s)
      else if ev_scancode ev = KEY_DOWN then Inl (set_focus (lf_focus s + 1) 3 s)
      else if ev_scancode ev = KEY_ENTER then
        (case try_create_user (lf_username s) (lf_password s) (sf_password2 s) db s of
           Inl s \<Rightarrow> Inl (clear_passwords s)
         | Inr db \<Rightarrow> Inr db)
      else if ev_scancode ev = KEY_BACKSPACE then Inl (setup_edit butlast butlast s)
      else if printable (ev_ascii ev) then
        Inl (setup_edit (type_char LOGIN_USERNAME_MAX (ev_ascii ev)) (type_char LOGIN_PASSWORD_MAX (ev_ascii ev)) s)
      else Inl s)"

definition setup_frame :: "u8 \<Rightarrow> frame \<Rightarrow> users \<Rightarrow> setup_form \<Rightarrow> setup_form + users" where
  "setup_frame stale fr db s =
     (let c = is_clicked fr s; s = s\<lparr>lf_prev_btn := fr_buttons fr\<rparr> in
      case (if c then setup_click stale fr db s else Inl s) of
        Inr db \<Rightarrow> Inr db
      | Inl s \<Rightarrow>
          (case fr_key fr of
             Some ev \<Rightarrow> if \<not> ev_released ev then setup_key ev db s else Inl s
           | None \<Rightarrow> Inl s))"

definition setup_start :: setup_form where
  "setup_start = \<lparr>lf_username = [], lf_password = [], lf_focus = 0, lf_error = False, lf_error_msg = replicate 64 0, lf_prev_btn = 0,
     sf_password2 = []\<rparr>"

text \<open>The loop over the frames still to come; \<open>Inl\<close> when they end with the form still open.\<close>

fun setup_loop :: "u8 \<Rightarrow> frame list \<Rightarrow> users \<Rightarrow> setup_form \<Rightarrow> setup_form + users \<times> frame list" where
  "setup_loop stale [] db s = Inl s"
| "setup_loop stale (fr # frs) db s =
     (case setup_frame stale fr db s of
        Inl s \<Rightarrow> setup_loop stale frs db s
      | Inr db \<Rightarrow> Inr (db, frs))"

definition first_run_setup :: "u8 \<Rightarrow> frame list \<Rightarrow> users \<Rightarrow> setup_form + users \<times> frame list" where
  "first_run_setup stale frs db = setup_loop stale frs db setup_start"

section \<open>The login form\<close>

definition do_login :: "users \<Rightarrow> login_form \<Rightarrow> login_form + os_user" where
  "do_login db s =
     (case check_login (lf_username s) (lf_password s) db of
        Some found \<Rightarrow> Inr found
      | None \<Rightarrow> Inl ((set_error (asc ''Falscher Benutzername oder Passwort'') s)\<lparr>lf_password := [], lf_focus := 0\<rparr>))"

definition login_edit :: "(cstr \<Rightarrow> cstr) \<Rightarrow> (cstr \<Rightarrow> cstr) \<Rightarrow> login_form \<Rightarrow> login_form" where
  "login_edit fname fpass s =
     (if lf_focus s = 0 then s\<lparr>lf_username := fname (lf_username s)\<rparr> else s\<lparr>lf_password := fpass (lf_password s)\<rparr>)"

definition login_key :: "kbd_event \<Rightarrow> users \<Rightarrow> login_form \<Rightarrow> login_form + os_user" where
  "login_key ev db s0 =
     (let s = s0\<lparr>lf_error := False\<rparr> in
      if ev_scancode ev = KEY_TAB then Inl (set_focus (lf_focus s + 1) 2 s)
      else if ev_scancode ev = KEY_UP then Inl (set_focus 0 2 s)
      else if ev_scancode ev = KEY_DOWN then Inl (set_focus 1 2 s)
      else if ev_scancode ev = KEY_ENTER then do_login db s
      else if ev_scancode ev = KEY_BACKSPACE then Inl (login_edit butlast butlast s)
      else if printable (ev_ascii ev) then
        Inl (login_edit (type_char LOGIN_USERNAME_MAX (ev_ascii ev)) (type_char LOGIN_PASSWORD_MAX (ev_ascii ev)) s)
      else Inl s)"

text \<open>A click on the button goes straight to the check, past \<open>kbd_poll\<close>.\<close>

definition login_frame :: "frame \<Rightarrow> users \<Rightarrow> login_form \<Rightarrow> login_form + os_user" where
  "login_frame fr db s =
     (let c = is_clicked fr s; s = s\<lparr>lf_prev_btn := fr_buttons fr\<rparr>;
          on_user = hit (fr_x fr) (fr_y fr) FIELD_X USER_Y FIELD_W FIELD_H;
          on_pass = hit (fr_x fr) (fr_y fr) FIELD_X PASS_Y FIELD_W FIELD_H
      in if c \<and> \<not> on_user \<and> \<not> on_pass \<and> hit (fr_x fr) (fr_y fr) LOGIN_BTN_X BTN_Y BTN_W BTN_H then do_login db s
         else
           let s = (if c \<and> on_user then (set_focus 0 2 s)\<lparr>lf_error := False\<rparr>
                    else if c \<and> on_pass then (set_focus 1 2 s)\<lparr>lf_error := False\<rparr> else s)
           in case fr_key fr of
                Some ev \<Rightarrow> if \<not> ev_released ev then login_key ev db s else Inl s
              | None \<Rightarrow> Inl s)"

definition login_start :: login_form where
  "login_start = \<lparr>lf_username = [], lf_password = [], lf_focus = 0, lf_error = False, lf_error_msg = replicate 64 0, lf_prev_btn = 0\<rparr>"

fun login_loop :: "frame list \<Rightarrow> users \<Rightarrow> login_form \<Rightarrow> login_form + os_user \<times> frame list" where
  "login_loop [] db s = Inl s"
| "login_loop (fr # frs) db s =
     (case login_frame fr db s of
        Inl s \<Rightarrow> login_loop frs db s
      | Inr x \<Rightarrow> Inr (x, frs))"

text \<open>\<open>login_run\<close>: \<open>Some\<close> the user with the database and the frames left, or \<open>None\<close> while it waits for more input.\<close>

definition login_run :: "u8 \<Rightarrow> frame list \<Rightarrow> users \<Rightarrow> (os_user \<times> users \<times> frame list) option" where
  "login_run stale frs db =
     (case (if length db = 0 then first_run_setup stale frs db else Inr (db, frs)) of
        Inl _ \<Rightarrow> None
      | Inr (db, frs) \<Rightarrow>
          (case login_loop frs db login_start of Inl _ \<Rightarrow> None | Inr (x, frs) \<Rightarrow> Some (x, db, frs)))"

section \<open>Stored strings\<close>

lemma cstring_stored:
  assumes "length f \<le> n" "0 \<notin> set f"
  shows "cstring (strncpy f n @ 0 # t) = f"
  using assms by (simp add: strncpy_eq replicate_app_Cons_same)

definition stored_user :: "cstr \<Rightarrow> cstr \<Rightarrow> bool \<Rightarrow> os_user" where
  "stored_user name pw adm = \<lparr>u_username = strncpy name 31 @ [0], u_password_hash = strncpy pw 63 @ [0, 0], u_admin = adm\<rparr>"

lemma check_login_stored:
  assumes "length u \<le> 31" "length p \<le> 63" "0 \<notin> set u" "0 \<notin> set p" "0 \<notin> set v" "0 \<notin> set q"
  shows "check_login v q [stored_user u p adm] = (if v = u \<and> q = p then Some (stored_user u p adm) else None)"
  using assms cstring_stored [OF assms(1,3), of "[]"] cstring_stored [OF assms(2,4), of "[0]"]
  by (auto simp: check_login_def stored_user_def strcmp_cstring)

lemma users_add_first: "users_add u p adm [] = (True, [stored_user u p adm])"
  by (simp add: users_add_def stored_user_def LOGIN_MAX_USERS_def LOGIN_USERNAME_MAX_def LOGIN_PASSWORD_MAX_def)

section \<open>Typing\<close>

text \<open>A frame without a mouse button in which the key with a scan code, or a printable character, arrives.\<close>

definition presses :: "u8 \<Rightarrow> frame \<Rightarrow> bool" where
  "presses sc fr \<longleftrightarrow> fr_buttons fr = 0 \<and> (\<exists>ev. fr_key fr = Some ev \<and> ev_scancode ev = sc \<and> \<not> ev_released ev)"

definition types :: "u8 \<Rightarrow> frame \<Rightarrow> bool" where
  "types c fr \<longleftrightarrow> fr_buttons fr = 0 \<and> printable c \<and> (\<exists>ev. fr_key fr = Some ev \<and> ev_ascii ev = c \<and> \<not> ev_released ev \<and>
     ev_scancode ev \<notin> {KEY_TAB, KEY_UP, KEY_DOWN, KEY_ENTER, KEY_BACKSPACE})"

definition at_rest :: "'a login_form_scheme \<Rightarrow> bool" where
  "at_rest s \<longleftrightarrow> \<not> lf_error s \<and> lf_prev_btn s = 0"

lemmas form_simps = login_frame_def login_key_def setup_frame_def setup_key_def login_edit_def setup_edit_def type_char_def
  is_clicked_def set_focus_def Let_def

lemma at_rest_id: "at_rest s \<Longrightarrow> s\<lparr>lf_prev_btn := 0, lf_error := False\<rparr> = s"
  by (cases s) (simp add: at_rest_def)

lemma types_not_nul:
  assumes "list_all2 types w frs"
  shows "0 \<notin> set w"
proof -
  have n: "\<not> types 0 fr" for fr by (simp add: types_def printable_def)
  show ?thesis using assms by (induction rule: list_all2_induct) (auto simp: n)
qed

lemma login_types:
  assumes "at_rest s" "types c fr"
  shows "login_frame fr db s = Inl (login_edit (type_char 32 c) (type_char 64 c) s)"
  using assms by (cases s) (auto simp: form_simps types_def at_rest_def LOGIN_USERNAME_MAX_def LOGIN_PASSWORD_MAX_def)

lemma setup_types:
  assumes "at_rest s" "types c fr"
  shows "setup_frame stale fr db s = Inl (setup_edit (type_char 32 c) (type_char 64 c) s)"
  using assms by (cases s) (auto simp: form_simps types_def at_rest_def LOGIN_USERNAME_MAX_def LOGIN_PASSWORD_MAX_def)

lemma login_types_name:
  assumes "list_all2 types w frs" "at_rest s" "lf_focus s = 0" "length (lf_username s) + length w \<le> 31"
  shows "login_loop (frs @ rest) db s = login_loop rest db (s\<lparr>lf_username := lf_username s @ w\<rparr>)"
  using assms
proof (induction arbitrary: s rule: list_all2_induct)
  case (Cons c w fr frs)
  then show ?case
    by (simp add: login_types login_edit_def type_char_def at_rest_def)
qed simp

lemma login_types_pass:
  assumes "list_all2 types w frs" "at_rest s" "lf_focus s = 1" "length (lf_password s) + length w \<le> 63"
  shows "login_loop (frs @ rest) db s = login_loop rest db (s\<lparr>lf_password := lf_password s @ w\<rparr>)"
  using assms
proof (induction arbitrary: s rule: list_all2_induct)
  case (Cons c w fr frs)
  then show ?case
    by (simp add: login_types login_edit_def type_char_def at_rest_def)
qed simp

lemma setup_types_name:
  assumes "list_all2 types w frs" "at_rest s" "lf_focus s = 0" "length (lf_username s) + length w \<le> 31"
  shows "setup_loop stale (frs @ rest) db s = setup_loop stale rest db (s\<lparr>lf_username := lf_username s @ w\<rparr>)"
  using assms
proof (induction arbitrary: s rule: list_all2_induct)
  case (Cons c w fr frs)
  then show ?case
    by (simp add: setup_types setup_edit_def type_char_def at_rest_def)
qed simp

lemma setup_types_pass:
  assumes "list_all2 types w frs" "at_rest s" "lf_focus s = 1" "length (lf_password s) + length w \<le> 63"
  shows "setup_loop stale (frs @ rest) db s = setup_loop stale rest db (s\<lparr>lf_password := lf_password s @ w\<rparr>)"
  using assms
proof (induction arbitrary: s rule: list_all2_induct)
  case (Cons c w fr frs)
  then show ?case
    by (simp add: setup_types setup_edit_def type_char_def at_rest_def)
qed simp

lemma setup_types_pass2:
  assumes "list_all2 types w frs" "at_rest s" "lf_focus s = 2" "length (sf_password2 s) + length w \<le> 63"
  shows "setup_loop stale (frs @ rest) db s = setup_loop stale rest db (s\<lparr>sf_password2 := sf_password2 s @ w\<rparr>)"
  using assms
proof (induction arbitrary: s rule: list_all2_induct)
  case (Cons c w fr frs)
  then show ?case
    by (simp add: setup_types setup_edit_def type_char_def at_rest_def)
qed simp

lemma login_tab:
  "at_rest s \<Longrightarrow> presses KEY_TAB fr \<Longrightarrow> lf_focus s = 0 \<Longrightarrow> login_frame fr db s = Inl (s\<lparr>lf_focus := 1\<rparr>)"
  by (cases s) (auto simp: form_simps presses_def at_rest_def)

lemma setup_tab:
  "at_rest s \<Longrightarrow> presses KEY_TAB fr \<Longrightarrow> lf_focus s \<in> {0, 1} \<Longrightarrow> setup_frame stale fr db s = Inl (s\<lparr>lf_focus := lf_focus s + 1\<rparr>)"
  by (cases s) (auto simp: form_simps presses_def at_rest_def)

lemma KEYS_distinct [simp]:
  "KEY_ENTER \<noteq> KEY_TAB" "KEY_ENTER \<noteq> KEY_UP" "KEY_ENTER \<noteq> KEY_DOWN"
  by (simp_all add: KEY_ENTER_def KEY_TAB_def KEY_UP_def KEY_DOWN_def)

lemma login_enter:
  "at_rest s \<Longrightarrow> presses KEY_ENTER fr \<Longrightarrow> login_frame fr db s = do_login db s"
  by (cases s) (auto simp: form_simps presses_def at_rest_def)

lemma setup_enter:
  "at_rest s \<Longrightarrow> presses KEY_ENTER fr \<Longrightarrow> length (lf_username s) \<ge> 1 \<Longrightarrow> length (lf_password s) \<ge> 1 \<Longrightarrow> lf_password s = sf_password2 s \<Longrightarrow>
   setup_frame stale fr db s = Inr (snd (users_add (lf_username s) (lf_password s) True db))"
  by (cases s) (auto simp: form_simps presses_def at_rest_def try_create_user_def strcmp_cstring)


section \<open>The forms\<close>

lemma first_run_creates:
  assumes "list_all2 types u fs1" "presses KEY_TAB t1" "list_all2 types p fs2" "presses KEY_TAB t2" "list_all2 types p fs3"
    "presses KEY_ENTER e" "u \<noteq> []" "p \<noteq> []" "length u \<le> 31" "length p \<le> 63"
  shows "first_run_setup stale (fs1 @ t1 # fs2 @ t2 # fs3 @ e # rest) [] = Inr ([stored_user u p True], rest)"
proof -
  note [simp] = setup_tab setup_enter at_rest_def users_add_first
  have "first_run_setup stale (fs1 @ t1 # fs2 @ t2 # fs3 @ e # rest) [] =
      setup_loop stale (t1 # fs2 @ t2 # fs3 @ e # rest) [] (setup_start\<lparr>lf_username := u\<rparr>)"
    using setup_types_name [OF assms(1), of setup_start] assms(9) by (simp add: first_run_setup_def setup_start_def)
  also have "\<dots> = setup_loop stale (fs2 @ t2 # fs3 @ e # rest) [] (setup_start\<lparr>lf_username := u, lf_focus := 1\<rparr>)"
    using assms(2) by (simp add: setup_start_def)
  also have "\<dots> = setup_loop stale (t2 # fs3 @ e # rest) [] (setup_start\<lparr>lf_username := u, lf_focus := 1, lf_password := p\<rparr>)"
    using setup_types_pass [OF assms(3)] assms(10) by (simp add: setup_start_def)
  also have "\<dots> = setup_loop stale (fs3 @ e # rest) [] (setup_start\<lparr>lf_username := u, lf_focus := 2, lf_password := p\<rparr>)"
    using assms(4) by (simp add: setup_start_def)
  also have "\<dots> = setup_loop stale (e # rest) [] (setup_start\<lparr>lf_username := u, lf_focus := 2, lf_password := p, sf_password2 := p\<rparr>)"
    using setup_types_pass2 [OF assms(5)] assms(10) by (simp add: setup_start_def)
  also have "\<dots> = Inr ([stored_user u p True], rest)"
    using assms(6-8) by (simp add: setup_start_def Suc_le_eq)
  finally show ?thesis .
qed

lemma login_typed:
  assumes "list_all2 types u fs1" "presses KEY_TAB t1" "list_all2 types p fs2" "presses KEY_ENTER e" "length u \<le> 31" "length p \<le> 63"
  shows "login_loop (fs1 @ t1 # fs2 @ e # rest) db login_start =
    (case check_login u p db of
       Some x \<Rightarrow> Inr (x, rest)
     | None \<Rightarrow> login_loop rest db ((set_error (asc ''Falscher Benutzername oder Passwort'') login_start)\<lparr>lf_username := u\<rparr>))"
proof -
  note [simp] = login_tab login_enter at_rest_def
  have "login_loop (fs1 @ t1 # fs2 @ e # rest) db login_start = login_loop (t1 # fs2 @ e # rest) db (login_start\<lparr>lf_username := u\<rparr>)"
    using login_types_name [OF assms(1), of login_start] assms(5) by (simp add: login_start_def)
  also have "\<dots> = login_loop (fs2 @ e # rest) db (login_start\<lparr>lf_username := u, lf_focus := 1\<rparr>)"
    using assms(2) by (simp add: login_start_def)
  also have "\<dots> = login_loop (e # rest) db (login_start\<lparr>lf_username := u, lf_focus := 1, lf_password := p\<rparr>)"
    using login_types_pass [OF assms(3)] assms(6) by (simp add: login_start_def)
  also have "\<dots> = (case check_login u p db of
       Some x \<Rightarrow> Inr (x, rest)
     | None \<Rightarrow> login_loop rest db ((set_error (asc ''Falscher Benutzername oder Passwort'') login_start)\<lparr>lf_username := u\<rparr>))"
    using assms(4) by (simp add: login_start_def do_login_def set_error_def split: option.split)
  finally show ?thesis .
qed


definition key_frame :: "u8 \<Rightarrow> u8 \<Rightarrow> frame" where
  "key_frame sc c = \<lparr>fr_x = 0, fr_y = 0, fr_buttons = 0, fr_key = Some \<lparr>ev_scancode = sc, ev_ascii = c, ev_modifiers = 0, ev_released = False\<rparr>\<rparr>"


text \<open>Who logs in is in the database, under the name and the password in the form's fields.\<close>

lemma find_SomeD: "find P xs = Some x \<Longrightarrow> x \<in> set xs \<and> P x"
  by (induction xs) (auto split: if_splits)

lemma login_frame_success:
  "login_frame fr db s = Inr x \<Longrightarrow>
     x \<in> set db \<and> cstring (u_username x) = cstring (lf_username s) \<and> cstring (u_password_hash x) = cstring (lf_password s)"
  by (auto simp: form_simps do_login_def check_login_def strcmp_cstring set_error_def
      dest!: find_SomeD split: if_splits option.splits)

text \<open>A password of 63 characters is refused by a click on the button, whenever the byte left on the stack is not 0.\<close>

lemma long_password_refused:
  assumes "length (lf_password s) = 63" "sf_password2 s = lf_password s" "0 \<notin> set (lf_password s)" "stale \<noteq> 0" "lf_username s \<noteq> []"
    and "fr_x fr = SETUP_BTN_X" "fr_y fr = SB_Y"
  shows "setup_click stale fr db s = Inl (clear_passwords (set_error (asc ''Passwoerter stimmen nicht ueberein'') s))"
proof -
  have "strncpy (lf_password s) 63 = lf_password s" using assms(1,3) by (simp add: strncpy_eq)
  moreover have "cstring (lf_password s @ [stale]) = lf_password s @ [stale]" using assms(3,4) by (intro cstring_id) auto
  ultimately have "strcmp (lf_password s) (strncpy (sf_password2 s) (LOGIN_PASSWORD_MAX - 1) @ [stale]) \<noteq> 0"
    using assms(2,3) by (simp add: strcmp_cstring LOGIN_PASSWORD_MAX_def)
  moreover have "hit SETUP_BTN_X SB_Y SETUP_BTN_X SB_Y BTN_W BTN_H" "\<not> hit SETUP_BTN_X SB_Y SF_X SU_Y SF_W FIELD_H"
    "\<not> hit SETUP_BTN_X SB_Y SF_X SP_Y SF_W FIELD_H" "\<not> hit SETUP_BTN_X SB_Y SF_X SP2_Y SF_W FIELD_H"
    by (simp_all add: hit_def SB_Y_def SU_Y_def SP_Y_def SP2_Y_def FIELD_H_def BTN_W_def BTN_H_def SETUP_Y_def)
  ultimately show ?thesis using assms(1,5-7) by (simp add: setup_click_def try_create_user_def Let_def Suc_le_eq split: if_splits)
qed

section \<open>The pictures\<close>

text \<open>What \<open>snprintf\<close> into a buffer of \<open>n\<close> bytes leaves there, as a string.\<close>

definition snprintf_text :: "nat \<Rightarrow> cstr \<Rightarrow> varg list \<Rightarrow> cstr" where
  "snprintf_text n fmt args = (case vsnprintf (replicate n 0) n fmt args of Some (b, _) \<Rightarrow> cstring b | None \<Rightarrow> [])"

definition text_width :: "cstr \<Rightarrow> int" where "text_width s = int (length (cstring s)) * (FONT_W + 1)"

definition draw_background :: draw where
  "draw_background =
     draws [ui_clear COL_BG, ui_fill_rect 0 0 SCREEN_W 6 COL_ACCENT, ui_hline 0 8 SCREEN_W COL_ACCENT_DIM,
            fold (\<lambda>k. ui_vline (int k * 40) (TASKBAR_Y - 80) 80 0x0C0C1C) [0..<32]]"

text \<open>The year of \<open>rtc_read\<close> has its century already; the form adds 2000 once more.\<close>

definition clock_text :: "rtc_time \<Rightarrow> cstr" where
  "clock_text t = snprintf_text 32 (asc ''%02u:%02u  %02u.%02u.%04u'')
     [AInt (ucast (rt_hour t)), AInt (ucast (rt_minute t)), AInt (ucast (rt_day t)), AInt (ucast (rt_month t)), AInt (2000 + ucast (rt_year t))]"

definition draw_clock :: "rtc_time \<Rightarrow> draw" where
  "draw_clock t = draw_text (SCREEN_W - text_width (clock_text t) - 16) 14 (clock_text t) COL_GRAY"

definition draw_card :: "login_form \<Rightarrow> int \<Rightarrow> int \<Rightarrow> draw" where
  "draw_card s mx my =
     draws [ui_draw_shadow_box CARD_X CARD_Y CARD_W CARD_H, ui_fill_rect CARD_X CARD_Y CARD_W 50 0x0A0A18,
            ui_hline CARD_X (CARD_Y + 50) CARD_W COL_ACCENT, ui_draw_icon (CARD_X + 14) (CARD_Y + 9) ICON_PENGUIN,
            draw_text (CARD_X + 56) (CARD_Y + 16) (asc ''PinguinOS'') COL_ACCENT,
            draw_text (CARD_X + 56 + 9 * (FONT_W + 1) + 4) (CARD_Y + 16) (asc ''2.3'') COL_WHITE,
            ui_draw_text_centered CARD_X (CARD_Y + 58) CARD_W 16 (asc ''Bitte anmelden'') COL_GRAY,
            draw_text FIELD_X (USER_Y - 16) (asc ''Benutzername'') COL_GRAY,
            ui_draw_input FIELD_X USER_Y FIELD_W FIELD_H (lf_username s) (lf_focus s = 0) False,
            draw_text FIELD_X (PASS_Y - 16) (asc ''Passwort'') COL_GRAY,
            ui_draw_input FIELD_X PASS_Y FIELD_W FIELD_H (lf_password s) (lf_focus s = 1) True,
            draw_if (lf_error s) (ui_draw_text_centered CARD_X (CARD_Y + 262) CARD_W 12 (lf_error_msg s) COL_ERROR),
            ui_draw_button LOGIN_BTN_X BTN_Y BTN_W BTN_H (asc ''Anmelden'') (hit mx my LOGIN_BTN_X BTN_Y BTN_W BTN_H),
            ui_draw_separator (CARD_X + 16) (CARD_Y + CARD_H - 24) (CARD_W - 32),
            ui_draw_text_centered CARD_X (CARD_Y + CARD_H - 18) CARD_W 14 (asc ''PinguinOS v2.3  -  Secure Boot'') COL_DARK_GRAY]"

definition draw_setup_card :: "setup_form \<Rightarrow> int \<Rightarrow> int \<Rightarrow> draw" where
  "draw_setup_card s mx my =
     draws [ui_clear COL_BG, ui_fill_rect 0 0 SCREEN_W 6 COL_ACCENT, ui_draw_shadow_box SETUP_X SETUP_Y SETUP_W SETUP_H,
            ui_fill_rect SETUP_X SETUP_Y SETUP_W 50 0x0A0A18, ui_hline SETUP_X (SETUP_Y + 50) SETUP_W COL_ACCENT,
            ui_draw_icon (SETUP_X + 14) (SETUP_Y + 9) ICON_PENGUIN,
            draw_text (SETUP_X + 56) (SETUP_Y + 16) (asc ''PinguinOS'') COL_ACCENT,
            draw_text (SETUP_X + 56 + 9 * (FONT_W + 1) + 4) (SETUP_Y + 16) (asc ''2.3'') COL_WHITE,
            ui_draw_text_centered SETUP_X (SETUP_Y + 58) SETUP_W 16 (asc ''Ersten Benutzer anlegen'') COL_GRAY,
            ui_draw_text_centered SETUP_X (SETUP_Y + 80) SETUP_W 12 (asc ''Willkommen! Bitte Konto erstellen.'') COL_ACCENT,
            draw_text SF_X (SU_Y - 16) (asc ''Benutzername'') COL_GRAY,
            ui_draw_input SF_X SU_Y SF_W FIELD_H (lf_username s) (lf_focus s = 0) False,
            draw_text SF_X (SP_Y - 16) (asc ''Passwort'') COL_GRAY,
            ui_draw_input SF_X SP_Y SF_W FIELD_H (lf_password s) (lf_focus s = 1) True,
            draw_text SF_X (SP2_Y - 16) (asc ''Passwort wiederholen'') COL_GRAY,
            ui_draw_input SF_X SP2_Y SF_W FIELD_H (sf_password2 s) (lf_focus s = 2) True,
            draw_if (lf_error s) (ui_draw_text_centered SETUP_X (SETUP_Y + 315) SETUP_W 12 (lf_error_msg s) COL_ERROR),
            ui_draw_button SETUP_BTN_X SB_Y BTN_W BTN_H (asc ''Erstellen'') (hit mx my SETUP_BTN_X SB_Y BTN_W BTN_H)]"

lemma inside_background [drawing]: "inside draw_background"
  unfolding draw_background_def by (intro drawing) (simp add: drawing)

lemma inside_clock [drawing]: "inside (draw_clock t)"
  unfolding draw_clock_def by (intro drawing)

lemma inside_card [drawing]: "inside (draw_card s mx my)"
  unfolding draw_card_def by (intro drawing) (simp add: drawing)

lemma inside_setup_card [drawing]: "inside (draw_setup_card s mx my)"
  unfolding draw_setup_card_def by (intro drawing) (simp add: drawing)

text \<open>In 2026 the login screen shows the year 4026.\<close>

lemma clock_text_year:
  "clock_text \<lparr>rt_year = 2026, rt_month = 3, rt_day = 1, rt_hour = 9, rt_minute = 5, rt_second = 0, rt_weekday = 1\<rparr> = asc ''09:05  01.03.4026''"
  by code_simp

end
