(* ===== verification/Pe.thy ===== *)
theory Pe
  imports KMem KString
begin

text \<open>
  The loader of PE32 programs (\<open>fs/pe.c\<close>). The file and the image lie in one flat byte memory, so a header, a section or a
  relocation that leads outside the image really writes there. The address \<open>kzalloc\<close> returns is an argument; \<open>pw_live\<close> are
  the blocks it handed out that are not freed. Of the headers the fields that are used are records. Page faults are not modelled.
\<close>

definition PE_MZ_SIGNATURE :: u16 where "PE_MZ_SIGNATURE = 0x5A4D"
definition PE_PE_SIGNATURE :: u32 where "PE_PE_SIGNATURE = 0x00004550"
definition PE_MACHINE_I386 :: u16 where "PE_MACHINE_I386 = 0x014C"
definition PE_OPT_MAGIC_PE32 :: u16 where "PE_OPT_MAGIC_PE32 = 0x010B"
definition PE_DIR_BASERELOC :: u32 where "PE_DIR_BASERELOC = 5"
definition PE_REL_BASED_HIGHLOW :: u16 where "PE_REL_BASED_HIGHLOW = 3"

definition PE_OK :: int where "PE_OK = 0"
definition PE_ERR_NULL :: int where "PE_ERR_NULL = - 1"
definition PE_ERR_SMALL :: int where "PE_ERR_SMALL = - 2"
definition PE_ERR_MZ :: int where "PE_ERR_MZ = - 3"
definition PE_ERR_PE :: int where "PE_ERR_PE = - 4"
definition PE_ERR_ARCH :: int where "PE_ERR_ARCH = - 5"
definition PE_ERR_OPT :: int where "PE_ERR_OPT = - 6"
definition PE_ERR_ALLOC :: int where "PE_ERR_ALLOC = - 7"
definition PE_ERR_SECTION :: int where "PE_ERR_SECTION = - 8"

record pe_dos_header =
  e_magic :: u16
  e_lfanew :: u32

record pe_file_header =
  Machine :: u16
  NumberOfSections :: u16
  SizeOfOptionalHeader :: u16

record pe_optional_header32 =
  oh_Magic :: u16
  AddressOfEntryPoint :: u32
  ImageBase :: u32
  SizeOfImage :: u32
  SizeOfHeaders :: u32
  Subsystem :: u16
  NumberOfRvaAndSizes :: u32

record pe_section_header =
  VirtualSize :: u32
  sec_VirtualAddress :: u32
  SizeOfRawData :: u32
  PointerToRawData :: u32

record pe_loaded_image =
  im_base :: u32
  im_size :: u32
  im_entry_point :: u32
  im_num_sections :: u16
  im_subsystem :: u16
  im_name :: "u8 list"
  im_loaded :: bool

text \<open>The sizes of the packed structures.\<close>

definition DOS_HEADER_SIZE :: u32 where "DOS_HEADER_SIZE = 64"
definition FILE_HEADER_SIZE :: u32 where "FILE_HEADER_SIZE = 20"
definition OPT_HEADER_SIZE :: u32 where "OPT_HEADER_SIZE = 96"
definition SECTION_HEADER_SIZE :: u32 where "SECTION_HEADER_SIZE = 40"
definition RELOC_BLOCK_SIZE :: u32 where "RELOC_BLOCK_SIZE = 8"

definition dos_header_at :: "mem \<Rightarrow> u32 \<Rightarrow> pe_dos_header" where
  "dos_header_at m a = \<lparr>e_magic = load16 m a, e_lfanew = load32 m (a + 60)\<rparr>"

definition file_header_at :: "mem \<Rightarrow> u32 \<Rightarrow> pe_file_header" where
  "file_header_at m a = \<lparr>Machine = load16 m a, NumberOfSections = load16 m (a + 2), SizeOfOptionalHeader = load16 m (a + 16)\<rparr>"

definition optional_header_at :: "mem \<Rightarrow> u32 \<Rightarrow> pe_optional_header32" where
  "optional_header_at m a = \<lparr>oh_Magic = load16 m a, AddressOfEntryPoint = load32 m (a + 16), ImageBase = load32 m (a + 28),
     SizeOfImage = load32 m (a + 56), SizeOfHeaders = load32 m (a + 60), Subsystem = load16 m (a + 68),
     NumberOfRvaAndSizes = load32 m (a + 92)\<rparr>"

definition section_header_at :: "mem \<Rightarrow> u32 \<Rightarrow> pe_section_header" where
  "section_header_at m a = \<lparr>VirtualSize = load32 m (a + 8), sec_VirtualAddress = load32 m (a + 12),
     SizeOfRawData = load32 m (a + 16), PointerToRawData = load32 m (a + 20)\<rparr>"

definition image_zero :: pe_loaded_image where
  "image_zero = \<lparr>im_base = 0, im_size = 0, im_entry_point = 0, im_num_sections = 0, im_subsystem = 0, im_name = replicate 32 0, im_loaded = False\<rparr>"

record pe_world =
  pw_mem :: mem
  pw_live :: "u32 set"

section \<open>Relocations\<close>

text \<open>The entries of a block with \<open>n\<close> of them left; the block header is read again for each.\<close>

fun pe_patch_entries :: "nat \<Rightarrow> u32 \<Rightarrow> u32 \<Rightarrow> u32 \<Rightarrow> u32 \<Rightarrow> mem \<Rightarrow> mem" where
  "pe_patch_entries 0 p block base delta m = m"
| "pe_patch_entries (Suc n) p block base delta m =
     (let e = load16 m p; offset = ucast (e AND 0x0FFF); patch = base + load32 m block + offset;
          m = (if drop_bit 12 e = PE_REL_BASED_HIGHLOW then store32 m patch (load32 m patch + delta) else m)
      in pe_patch_entries n (p + 2) block base delta m)"

text \<open>The loop over the blocks; a block whose size wraps the pointer can keep it running for ever.\<close>

partial_function (option) pe_reloc_blocks :: "u32 \<Rightarrow> u32 \<Rightarrow> u32 \<Rightarrow> u32 \<Rightarrow> mem \<Rightarrow> mem option" where
  "pe_reloc_blocks reloc end' base delta m =
     (if reloc < end' then
        if load32 m (reloc + 4) = 0 then Some m
        else
          let m' = pe_patch_entries (unat ((load32 m (reloc + 4) - RELOC_BLOCK_SIZE) div 2)) (reloc + RELOC_BLOCK_SIZE) reloc base delta m
          in pe_reloc_blocks (reloc + load32 m' (reloc + 4)) end' base delta m'
      else Some m)"

definition pe_apply_relocations :: "u32 \<Rightarrow> u32 \<Rightarrow> u32 \<Rightarrow> u32 \<Rightarrow> mem \<Rightarrow> mem option" where
  "pe_apply_relocations base reloc_rva reloc_size delta m =
     (if delta = 0 \<or> reloc_size = 0 then Some m
      else pe_reloc_blocks (base + reloc_rva) (base + reloc_rva + reloc_size) base delta m)"

section \<open>Loading\<close>

text \<open>One section: \<open>None\<close> if it does not fit.\<close>

definition pe_load_section :: "u32 \<Rightarrow> u32 \<Rightarrow> u32 \<Rightarrow> u32 \<Rightarrow> pe_section_header \<Rightarrow> mem \<Rightarrow> mem option" where
  "pe_load_section raw len base image_size sec m =
     (let vaddr = sec_VirtualAddress sec; vsize = VirtualSize sec; rdata = SizeOfRawData sec; foff = PointerToRawData sec in
      if vaddr + vsize > image_size then None
      else if rdata > 0 \<and> foff + rdata \<le> len
      then Some (memcpy (base + vaddr) (raw + foff) (unat (if rdata < vsize then rdata else vsize)) m)
      else Some m)"

fun pe_load_sections :: "nat \<Rightarrow> u32 \<Rightarrow> u32 \<Rightarrow> u32 \<Rightarrow> u32 \<Rightarrow> u32 \<Rightarrow> mem \<Rightarrow> bool \<times> mem" where
  "pe_load_sections 0 p raw len base image_size m = (True, m)"
| "pe_load_sections (Suc n) p raw len base image_size m =
     (case pe_load_section raw len base image_size (section_header_at m p) m of
        None \<Rightarrow> (False, m)
      | Some m \<Rightarrow> pe_load_sections n (p + SECTION_HEADER_SIZE) raw len base image_size m)"

definition pe_hdr_size :: "u32 \<Rightarrow> u32 \<Rightarrow> u32" where
  "pe_hdr_size hdr_size len = (if hdr_size > len then len else hdr_size)"

definition pe_relocate :: "u32 \<Rightarrow> u32 \<Rightarrow> u32 \<Rightarrow> u32 \<Rightarrow> mem \<Rightarrow> mem option" where
  "pe_relocate raw opt_off base image_base m =
     (let delta = base - image_base in
      if delta \<noteq> 0 \<and> NumberOfRvaAndSizes (optional_header_at m (raw + opt_off)) > PE_DIR_BASERELOC then
        let dir = raw + opt_off + OPT_HEADER_SIZE + PE_DIR_BASERELOC * 8;
            reloc_rva = load32 m dir; reloc_size = load32 m (dir + 4)
        in if reloc_rva \<noteq> 0 \<and> reloc_size \<noteq> 0 then pe_apply_relocations base reloc_rva reloc_size delta m else Some m
      else Some m)"

text \<open>
  The checks of the headers, in the order of the code: the error, or the offset of the optional header. The sums are of
  32 bits and may have wrapped.
\<close>

definition pe_check :: "u32 \<Rightarrow> u32 \<Rightarrow> mem \<Rightarrow> int + u32" where
  "pe_check raw len m =
     (if len < DOS_HEADER_SIZE then Inl PE_ERR_SMALL
      else if e_magic (dos_header_at m raw) \<noteq> PE_MZ_SIGNATURE then Inl PE_ERR_MZ
      else
        let pe_off = e_lfanew (dos_header_at m raw) in
        if pe_off + 4 > len then Inl PE_ERR_SMALL
        else if load32 m (raw + pe_off) \<noteq> PE_PE_SIGNATURE then Inl PE_ERR_PE
        else
          let coff_off = pe_off + 4 in
          if coff_off + FILE_HEADER_SIZE > len then Inl PE_ERR_SMALL
          else if Machine (file_header_at m (raw + coff_off)) \<noteq> PE_MACHINE_I386 then Inl PE_ERR_ARCH
          else
            let opt_off = coff_off + FILE_HEADER_SIZE in
            if opt_off + OPT_HEADER_SIZE > len then Inl PE_ERR_SMALL
            else if oh_Magic (optional_header_at m (raw + opt_off)) \<noteq> PE_OPT_MAGIC_PE32 then Inl PE_ERR_OPT
            else Inr opt_off)"

text \<open>
  \<open>pe_load\<close>: the code, the image record and the memory; \<open>None\<close> when the relocations never end. The headers are read where the code
  reads them, the later fields after the image has been written;
  the number of sections is read once, before the loop.
\<close>

definition pe_load :: "u32 \<Rightarrow> u32 \<Rightarrow> cstr option \<Rightarrow> u32 \<Rightarrow> pe_loaded_image \<Rightarrow> pe_world \<Rightarrow> (int \<times> pe_loaded_image \<times> pe_world) option" where
  "pe_load raw len name kz img w =
     (if raw = 0 then Some (PE_ERR_NULL, img, w)
      else
        let img = (case name of None \<Rightarrow> image_zero | Some s \<Rightarrow> image_zero\<lparr>im_name := strncpy s 31 @ [0]\<rparr>); m = pw_mem w in
        case pe_check raw len m of
          Inl err \<Rightarrow> Some (err, img, w)
        | Inr opt_off \<Rightarrow>
            let coff_at = raw + (opt_off - FILE_HEADER_SIZE); opt_at = raw + opt_off;
                opt = optional_header_at m opt_at; image_size = SizeOfImage opt; base = kz
            in if base = 0 then Some (PE_ERR_ALLOC, img, w)
               else
                 let m = memset base 0 (unat image_size) m;
                     hdr_size = pe_hdr_size (SizeOfHeaders (optional_header_at m opt_at)) len;
                     m = memcpy base raw (unat hdr_size) m;
                     coff = file_header_at m coff_at;
                     sec_off = opt_off + ucast (SizeOfOptionalHeader coff);
                     (ok, m) = pe_load_sections (unat (NumberOfSections coff)) (raw + sec_off) raw len base image_size m
                 in if \<not> ok then Some (PE_ERR_SECTION, img, w\<lparr>pw_mem := m\<rparr>)
                    else
                      (case pe_relocate raw opt_off base (ImageBase opt) m of
                         None \<Rightarrow> None
                       | Some m \<Rightarrow>
                           Some (PE_OK,
                             img\<lparr>im_base := base, im_size := image_size, im_entry_point := base + AddressOfEntryPoint opt,
                               im_num_sections := NumberOfSections (file_header_at m coff_at),
                               im_subsystem := Subsystem (optional_header_at m opt_at), im_loaded := True\<rparr>,
                             \<lparr>pw_mem = m, pw_live = insert base (pw_live w)\<rparr>)))"

definition pe_exec :: "(u32 \<Rightarrow> int) \<Rightarrow> pe_loaded_image \<Rightarrow> int" where
  "pe_exec entry img = (if \<not> im_loaded img then - 1 else entry (im_entry_point img))"

definition pe_unload :: "pe_loaded_image \<Rightarrow> pe_world \<Rightarrow> pe_loaded_image \<times> pe_world" where
  "pe_unload img w =
     (image_zero, if im_loaded img \<and> im_base img \<noteq> 0 then w\<lparr>pw_live := pw_live w - {im_base img}\<rparr> else w)"

section \<open>The image over the memory\<close>

text \<open>The memory with an image of \<open>n\<close> bytes at \<open>base\<close>; a file that lies elsewhere reads the same through it.\<close>

definition overlay :: "u32 \<Rightarrow> nat \<Rightarrow> mem \<Rightarrow> mem \<Rightarrow> mem" where
  "overlay base n g m = (\<lambda>a. if unat (a - base) < n then g (a - base) else m a)"

definition apart :: "u32 \<Rightarrow> nat \<Rightarrow> u32 \<Rightarrow> nat \<Rightarrow> bool" where
  "apart raw k base n \<longleftrightarrow> unat raw + k \<le> 2 ^ 32 \<and> unat base + n \<le> 2 ^ 32 \<and> (unat raw + k \<le> unat base \<or> unat base + n \<le> unat raw)"

lemma unat_plus_below: "unat (p :: u32) + n < 2 ^ 32 \<Longrightarrow> unat (p + of_nat n) = unat p + n"
  by (simp add: unat_word_ariths unat_of_nat take_bit_eq_mod mod_add_right_eq)

lemma apart_outside:
  assumes "apart raw k base n" "i < k"
  shows "\<not> unat (raw + of_nat i - base) < n"
proof -
  have r: "unat (raw + of_nat i) = unat raw + i"
    using assms by (intro unat_plus_below) (auto simp: apart_def)
  show ?thesis
  proof (cases "unat base + n \<le> unat raw")
    case True
    then have "base \<le> raw + of_nat i" using r by (simp add: word_le_nat_alt)
    then show ?thesis using True r by (simp add: unat_sub)
  next
    case False
    then have lt: "unat (raw + of_nat i) < unat base" using assms r by (auto simp: apart_def)
    then have "unat (raw + of_nat i - base) = 2 ^ 32 + unat (raw + of_nat i) - unat base"
      by (simp add: unat_sub_if_size word_size word_le_nat_alt)
    then show ?thesis using assms(1) unfolding apart_def by linarith
  qed
qed

lemma overlay_file [simp]: "apart raw k base n \<Longrightarrow> i < k \<Longrightarrow> overlay base n g m (raw + of_nat i) = m (raw + of_nat i)"
  using apart_outside by (simp add: overlay_def)

lemma overlay_file_word: "apart raw k base n \<Longrightarrow> unat x < k \<Longrightarrow> overlay base n g m (raw + x) = m (raw + x)"
  using overlay_file [of raw k base n "unat x"] by simp

lemma overlay_load32:
  assumes "apart raw k base n" "unat o' + 4 \<le> k"
  shows "load32 (overlay base n g m) (raw + o') = load32 m (raw + o')"
proof -
  have "overlay base n g m (raw + (o' + of_nat j)) = m (raw + (o' + of_nat j))" if "j < 4" for j
  proof (rule overlay_file_word [OF assms(1)])
    have "unat (o' + of_nat j) = unat o' + j"
      using that assms by (intro unat_plus_below) (auto simp: apart_def)
    then show "unat (o' + of_nat j) < k" using that assms(2) by linarith
  qed
  from this [of 0] this [of 1] this [of 2] this [of 3] show ?thesis by (simp add: load32_def add.assoc)
qed

lemma overlay_load16:
  assumes "apart raw k base n" "unat o' + 2 \<le> k"
  shows "load16 (overlay base n g m) (raw + o') = load16 m (raw + o')"
proof -
  have "overlay base n g m (raw + (o' + of_nat j)) = m (raw + (o' + of_nat j))" if "j < 2" for j
  proof (rule overlay_file_word [OF assms(1)])
    have "unat (o' + of_nat j) = unat o' + j"
      using that assms by (intro unat_plus_below) (auto simp: apart_def)
    then show "unat (o' + of_nat j) < k" using that assms(2) by linarith
  qed
  from this [of 0] this [of 1] show ?thesis by (simp add: load16_def add.assoc)
qed

lemma memset_overlay: "n \<le> 2 ^ 32 \<Longrightarrow> memset base 0 n m = overlay base n (\<lambda>_. 0) m"
  by (simp add: memset_spec overlay_def)

lemma memcpy_overlay:
  assumes "apart raw k base n" "unat v + c \<le> n" "unat o' + c \<le> k"
  shows "memcpy (base + v) (raw + o') c (overlay base n g m) =
    overlay base n (\<lambda>x. if unat (x - v) < c then m (raw + (o' + (x - v))) else g x) m"
proof (cases "c = 0")
  case False
  have c: "c \<le> 2 ^ 32" using assms by (simp add: apart_def)
  have safe: "fwd_safe c (base + v) (raw + o')"
  proof -
    have rw: "unat (raw + o') = unat raw + unat o'" "unat (base + v) = unat base + unat v"
      using assms False by (simp_all add: apart_def unat_word_ariths)
    have "c \<le> unat (base + v - (raw + o'))"
    proof (cases "unat raw + k \<le> unat base")
      case True
      then have le: "raw + o' \<le> base + v" using rw assms(3) by (simp add: word_le_nat_alt)
      show ?thesis using True assms(3) rw unat_sub [OF le] by linarith
    next
      case F: False
      then have b: "unat base + n \<le> unat raw" using assms(1) by (auto simp: apart_def)
      then have lt: "\<not> raw + o' \<le> base + v" using rw assms(2) False by (simp add: word_le_nat_alt)
      then have "unat (base + v - (raw + o')) = 2 ^ 32 + unat (base + v) - unat (raw + o')"
        using lt by (simp add: unat_sub_if_size word_size word_le_nat_alt)
      then show ?thesis using rw assms b unfolding apart_def by linarith
    qed
    then show ?thesis by (simp add: fwd_safe_def)
  qed
  show ?thesis
  proof
    fix a
    let ?x = "a - base"
    have d: "a - (base + v) = ?x - v" by (simp add: algebra_simps)
    show "memcpy (base + v) (raw + o') c (overlay base n g m) a =
      overlay base n (\<lambda>x. if unat (x - v) < c then m (raw + (o' + (x - v))) else g x) m a"
    proof (cases "unat (?x - v) < c")
      case True
      have "unat (v + (?x - v)) = unat v + unat (?x - v)"
        using True assms(1,2) unat_plus_below [of v "unat (?x - v)"] by (simp add: apart_def)
      then have x: "unat ?x < n" using True assms(2) by simp
      have "unat (o' + (?x - v)) = unat o' + unat (?x - v)"
        using True assms(1,3) unat_plus_below [of o' "unat (?x - v)"] by (simp add: apart_def)
      then have "overlay base n g m (raw + (o' + (?x - v))) = m (raw + (o' + (?x - v)))"
        using True assms(3) by (intro overlay_file_word [OF assms(1)]) simp
      moreover have "memcpy (base + v) (raw + o') c (overlay base n g m) a = overlay base n g m (raw + o' + (?x - v))"
        unfolding memcpy_spec [OF c safe] copied_def d using True by (rule if_P)
      moreover have "overlay base n (\<lambda>x. if unat (x - v) < c then m (raw + (o' + (x - v))) else g x) m a = m (raw + (o' + (?x - v)))"
        using True x by (simp only: overlay_def if_True)
      ultimately show ?thesis by (simp only: add.assoc)
    next
      case False
      then show ?thesis unfolding memcpy_spec [OF c safe] copied_def d by (simp only: overlay_def if_False)
    qed
  qed
qed (use memcpy_spec [of 0] in \<open>simp add: fwd_safe_def copied_def\<close>)

section \<open>What a file means\<close>

text \<open>
  The section table, and the image a file stands for as a function of the relative address: the headers, over them each section in
  order (the shorter of its file part and its size; nothing if the file part does not lie in the file), zero elsewhere.
\<close>

fun section_table :: "nat \<Rightarrow> u32 \<Rightarrow> mem \<Rightarrow> pe_section_header list" where
  "section_table 0 p m = []"
| "section_table (Suc n) p m = section_header_at m p # section_table n (p + SECTION_HEADER_SIZE) m"

definition section_image :: "nat \<Rightarrow> mem \<Rightarrow> pe_section_header \<Rightarrow> mem \<Rightarrow> mem" where
  "section_image k f sec g = (\<lambda>x.
     if unat (PointerToRawData sec) + unat (SizeOfRawData sec) \<le> k \<and>
        unat (x - sec_VirtualAddress sec) < min (unat (SizeOfRawData sec)) (unat (VirtualSize sec))
     then f (PointerToRawData sec + (x - sec_VirtualAddress sec)) else g x)"

definition file_image :: "nat \<Rightarrow> nat \<Rightarrow> mem \<Rightarrow> pe_section_header list \<Rightarrow> mem" where
  "file_image k hdr f secs = fold (section_image k f) secs (\<lambda>x. if unat x < hdr then f x else 0)"

definition section_fits :: "nat \<Rightarrow> pe_section_header \<Rightarrow> bool" where
  "section_fits n sec \<longleftrightarrow> unat (sec_VirtualAddress sec) + unat (VirtualSize sec) \<le> n \<and>
     unat (PointerToRawData sec) + unat (SizeOfRawData sec) < 2 ^ 32"

lemma pe_load_section_overlay:
  assumes "apart raw (unat len) base (unat isz)" "section_fits (unat isz) sec"
  shows "pe_load_section raw len base isz sec (overlay base (unat isz) g m) =
    Some (overlay base (unat isz) (section_image (unat len) (\<lambda>i. m (raw + i)) sec g) m)"
proof -
  let ?v = "sec_VirtualAddress sec" and ?vs = "VirtualSize sec" and ?rd = "SizeOfRawData sec" and ?fo = "PointerToRawData sec"
  have fits: "unat ?v + unat ?vs \<le> unat isz" "unat ?fo + unat ?rd < 2 ^ 32" using assms(2) by (simp_all add: section_fits_def)
  have u: "unat (?v + ?vs) = unat ?v + unat ?vs" "unat (?fo + ?rd) = unat ?fo + unat ?rd"
    using fits unat_plus_fits [of ?v "unat ?vs" isz] unat_plus_below [of ?fo "unat ?rd"] by simp_all
  have c: "unat (if ?rd < ?vs then ?rd else ?vs) = min (unat ?rd) (unat ?vs)" by (simp add: word_less_nat_alt min_def)
  show ?thesis
  proof (cases "?rd > 0 \<and> ?fo + ?rd \<le> len")
    case True
    then have "unat ?fo + unat ?rd \<le> unat len" using u by (simp add: word_le_nat_alt)
    then have "memcpy (base + ?v) (raw + ?fo) (min (unat ?rd) (unat ?vs)) (overlay base (unat isz) g m) =
        overlay base (unat isz) (section_image (unat len) (\<lambda>i. m (raw + i)) sec g) m"
      using fits memcpy_overlay [OF assms(1), of ?v "min (unat ?rd) (unat ?vs)" ?fo g m] by (simp add: section_image_def min_def)
    then show ?thesis using True fits u c by (simp add: pe_load_section_def word_le_nat_alt not_less linorder_not_less Let_def)
  next
    case False
    then have "section_image (unat len) (\<lambda>i. m (raw + i)) sec g = g"
      using u by (auto simp: section_image_def word_le_nat_alt word_greater_zero_iff)
    moreover have "\<not> ?v + ?vs > isz" using fits u by (simp add: word_less_nat_alt)
    ultimately show ?thesis using False by (auto simp: pe_load_section_def Let_def)
  qed
qed

lemma section_header_overlay:
  assumes "apart raw k base n" "unat o' + 40 \<le> k"
  shows "section_header_at (overlay base n g m) (raw + o') = section_header_at m (raw + o')"
proof -
  have "load32 (overlay base n g m) (raw + (o' + of_nat j)) = load32 m (raw + (o' + of_nat j))" if "j \<le> 36" for j
  proof (rule overlay_load32 [OF assms(1)])
    have "unat (o' + of_nat j) = unat o' + j" using that assms by (intro unat_plus_below) (auto simp: apart_def)
    then show "unat (o' + of_nat j) + 4 \<le> k" using that assms(2) by linarith
  qed
  from this [of 8] this [of 12] this [of 16] this [of 20] show ?thesis by (simp add: section_header_at_def add.assoc)
qed

lemma pe_load_sections_overlay:
  assumes "apart raw (unat len) base (unat isz)" "unat so + 40 * n \<le> unat len" "\<forall>sec \<in> set (section_table n (raw + so) m). section_fits (unat isz) sec"
  shows "pe_load_sections n (raw + so) raw len base isz (overlay base (unat isz) g m) =
    (True, overlay base (unat isz) (fold (section_image (unat len) (\<lambda>i. m (raw + i))) (section_table n (raw + so) m) g) m)"
  using assms(2,3)
proof (induction n arbitrary: so g)
  case (Suc n)
  note h = section_header_overlay [OF assms(1), of so]
  have step: "pe_load_section raw len base isz (section_header_at m (raw + so)) (overlay base (unat isz) g m) =
      Some (overlay base (unat isz) (section_image (unat len) (\<lambda>i. m (raw + i)) (section_header_at m (raw + so)) g) m)"
    using Suc.prems(2) by (intro pe_load_section_overlay [OF assms(1)]) simp
  have next': "raw + so + SECTION_HEADER_SIZE = raw + (so + SECTION_HEADER_SIZE)" by (simp add: add.assoc)
  show ?case
  proof (cases n)
    case 0
    then show ?thesis using h step Suc.prems by simp
  next
    case (Suc k)
    have "unat (so + SECTION_HEADER_SIZE) = unat so + 40"
      using Suc.prems(1) Suc unat_plus_fits [of so 40 len] by (simp add: SECTION_HEADER_SIZE_def)
    then show ?thesis
      using h step Suc.prems Suc.IH [of "so + SECTION_HEADER_SIZE"] by (simp add: next')
  qed
qed simp

section \<open>Loading a well-formed file\<close>

text \<open>A file that passes the checks, whose section table lies in it and whose sections fit.\<close>

definition pe_opt_off :: "u32 \<Rightarrow> mem \<Rightarrow> u32" where
  "pe_opt_off raw m = e_lfanew (dos_header_at m raw) + 4 + FILE_HEADER_SIZE"

definition pe_sections_of :: "u32 \<Rightarrow> mem \<Rightarrow> pe_section_header list" where
  "pe_sections_of raw m = (let coff = file_header_at m (raw + (pe_opt_off raw m - FILE_HEADER_SIZE))
     in section_table (unat (NumberOfSections coff)) (raw + (pe_opt_off raw m + ucast (SizeOfOptionalHeader coff))) m)"

definition pe_accepted :: "u32 \<Rightarrow> u32 \<Rightarrow> mem \<Rightarrow> bool" where
  "pe_accepted raw len m \<longleftrightarrow>
     (let o' = pe_opt_off raw m; coff = file_header_at m (raw + (o' - FILE_HEADER_SIZE)); opt = optional_header_at m (raw + o') in
      pe_check raw len m = Inr o' \<and> 24 \<le> unat o' \<and> unat o' + 96 \<le> unat len \<and>
      unat o' + unat (SizeOfOptionalHeader coff) + 40 * unat (NumberOfSections coff) \<le> unat len \<and>
      SizeOfHeaders opt \<le> SizeOfImage opt \<and>
      list_all (section_fits (unat (SizeOfImage opt))) (pe_sections_of raw m))"

lemma optional_header_overlay:
  assumes "apart raw k base n" "unat o' + 96 \<le> k"
  shows "optional_header_at (overlay base n g m) (raw + o') = optional_header_at m (raw + o')"
proof -
  have u: "unat (o' + of_nat j) = unat o' + j" if "j \<le> 92" for j
    using that assms by (intro unat_plus_below) (auto simp: apart_def)
  have "load32 (overlay base n g m) (raw + (o' + of_nat j)) = load32 m (raw + (o' + of_nat j))" if "j \<le> 92" for j
    using u [OF that] that assms(2) by (intro overlay_load32 [OF assms(1)]) linarith
  moreover have "load16 (overlay base n g m) (raw + (o' + of_nat j)) = load16 m (raw + (o' + of_nat j))" if "j \<le> 92" for j
    using u [OF that] that assms(2) by (intro overlay_load16 [OF assms(1)]) linarith
  note this [of 0] this [of 68] calculation [of 16] calculation [of 28] calculation [of 56] calculation [of 60] calculation [of 92]
  then show ?thesis by (simp add: optional_header_at_def add.assoc)
qed

lemma file_header_overlay:
  assumes "apart raw k base n" "unat o' + 20 \<le> k"
  shows "file_header_at (overlay base n g m) (raw + o') = file_header_at m (raw + o')"
proof -
  have u: "unat (o' + of_nat j) = unat o' + j" if "j \<le> 16" for j
    using that assms by (intro unat_plus_below) (auto simp: apart_def)
  have "load16 (overlay base n g m) (raw + (o' + of_nat j)) = load16 m (raw + (o' + of_nat j))" if "j \<le> 16" for j
    using u [OF that] that assms(2) by (intro overlay_load16 [OF assms(1)]) linarith
  from this [of 0] this [of 2] this [of 16] show ?thesis by (simp add: file_header_at_def add.assoc)
qed

lemma pe_load_spec:
  fixes raw base :: u32 and m :: mem
  assumes wf: "pe_accepted raw len m" and z: "raw \<noteq> 0" "base \<noteq> 0" and m: "pw_mem w = m"
    and ap: "apart raw (unat len) base (unat (SizeOfImage (optional_header_at m (raw + pe_opt_off raw m))))"
  defines "opt \<equiv> optional_header_at m (raw + pe_opt_off raw m)"
  assumes rel: "pe_relocate raw (pe_opt_off raw m) base (ImageBase opt) (overlay base (unat (SizeOfImage opt))
          (file_image (unat len) (min (unat (SizeOfHeaders opt)) (unat len)) (\<lambda>i. m (raw + i)) (pe_sections_of raw m)) m) = Some m5"
    and keep: "\<And>a. unat (a - base) \<ge> unat (SizeOfImage opt) \<Longrightarrow> m5 a = m a"
  shows "\<exists>img'. pe_load raw len name base img w = Some (PE_OK, img', \<lparr>pw_mem = m5, pw_live = insert base (pw_live w)\<rparr>) \<and>
     im_base img' = base \<and> im_size img' = SizeOfImage opt \<and> im_entry_point img' = base + AddressOfEntryPoint opt \<and> im_loaded img' \<and>
     im_num_sections img' = NumberOfSections (file_header_at m (raw + (pe_opt_off raw m - FILE_HEADER_SIZE))) \<and> im_subsystem img' = Subsystem opt"
proof -
  define o' where "o' = pe_opt_off raw m"
  define n where "n = unat (SizeOfImage opt)"
  let ?k = "unat len" and ?f = "\<lambda>i. m (raw + i)" and ?ov = "overlay base n"
  have ap: "apart raw ?k base n" using ap by (simp add: n_def opt_def)
  have w: "pe_check raw len m = Inr o'" "24 \<le> unat o'" "unat o' + 96 \<le> ?k"
    "unat o' + unat (SizeOfOptionalHeader (file_header_at m (raw + (o' - FILE_HEADER_SIZE)))) +
       40 * unat (NumberOfSections (file_header_at m (raw + (o' - FILE_HEADER_SIZE)))) \<le> ?k"
    "unat (SizeOfHeaders opt) \<le> n" "list_all (section_fits n) (pe_sections_of raw m)"
    using wf by (simp_all add: pe_accepted_def Let_def o'_def opt_def n_def word_le_nat_alt)
  have opt: "opt = optional_header_at m (raw + o')" by (simp add: opt_def o'_def)
  have opt_ov: "optional_header_at (?ov g m) (raw + o') = opt" for g
    unfolding opt by (rule optional_header_overlay [OF ap w(3)])
  define hs where "hs = pe_hdr_size (SizeOfHeaders opt) len"
  have hs: "unat hs = min (unat (SizeOfHeaders opt)) ?k" by (auto simp: hs_def pe_hdr_size_def word_less_nat_alt)
  have m1: "memset base 0 n m = ?ov (\<lambda>_. 0) m"
    using ap by (intro memset_overlay) (simp add: apart_def)
  have m2: "memcpy base raw (unat hs) (?ov (\<lambda>_. 0) m) = ?ov (\<lambda>x. if unat x < unat hs then ?f x else 0) m"
    using memcpy_overlay [OF ap, of 0 "unat hs" 0 "\<lambda>_. 0" m] hs w(5) by (simp cong: if_cong)
  let ?m2 = "?ov (\<lambda>x. if unat x < unat hs then ?f x else 0) m"
  let ?co = "o' - FILE_HEADER_SIZE"
  have co: "unat ?co + 20 \<le> ?k"
  proof -
    have "FILE_HEADER_SIZE \<le> o'" using w(2) by (simp add: FILE_HEADER_SIZE_def word_le_nat_alt)
    then have "unat ?co = unat o' - 20" by (simp add: unat_sub FILE_HEADER_SIZE_def)
    then show ?thesis using w(2,3) by linarith
  qed
  have coff: "file_header_at (?ov g m) (raw + ?co) = file_header_at m (raw + ?co)" for g
    by (rule file_header_overlay [OF ap co])
  let ?coff = "file_header_at m (raw + ?co)"
  let ?so = "o' + ucast (SizeOfOptionalHeader ?coff)"
  have so: "unat ?so = unat o' + unat (SizeOfOptionalHeader ?coff)"
    using w(4) unat_plus_fits [of o' "unat (SizeOfOptionalHeader ?coff)" len] by simp
  have secs: "pe_sections_of raw m = section_table (unat (NumberOfSections ?coff)) (raw + ?so) m"
    by (simp add: pe_sections_of_def Let_def o'_def)
  let ?g = "file_image ?k (unat hs) ?f (pe_sections_of raw m)"
  have m3: "pe_load_sections (unat (NumberOfSections ?coff)) (raw + ?so) raw len base (SizeOfImage opt) ?m2 = (True, ?ov ?g m)"
    using pe_load_sections_overlay [OF ap [unfolded n_def], of ?so "unat (NumberOfSections ?coff)" m] w(4,6) so
    by (simp add: secs file_image_def n_def list_all_iff)
  have m4: "pe_relocate raw o' base (ImageBase opt) (?ov ?g m) = Some m5" using rel by (simp add: o'_def n_def hs)
  have m5: "m5 = ?ov (\<lambda>x. m5 (base + x)) m" using keep by (auto simp: overlay_def n_def)
  have opt5: "optional_header_at m5 (raw + o') = opt" "file_header_at m5 (raw + ?co) = file_header_at m (raw + ?co)"
    by (subst m5, rule opt_ov) (subst m5, rule coff)
  have eq: "pe_load raw len name base img w = Some (PE_OK,
      (case name of None \<Rightarrow> image_zero | Some s \<Rightarrow> image_zero\<lparr>im_name := strncpy s 31 @ [0]\<rparr>)
        \<lparr>im_base := base, im_size := SizeOfImage opt, im_entry_point := base + AddressOfEntryPoint opt,
         im_num_sections := NumberOfSections ?coff, im_subsystem := Subsystem opt, im_loaded := True\<rparr>,
      \<lparr>pw_mem = m5, pw_live = insert base (pw_live w)\<rparr>)"
    unfolding pe_load_def m using z w(1) m1 m2 m3 m4 opt_ov coff opt5
    by (simp add: Let_def opt [symmetric] n_def [symmetric] hs_def [symmetric] add.assoc)
  show ?thesis
    unfolding eq by (simp add: o'_def)
qed

section \<open>Relocating\<close>

text \<open>A relocation table from \<open>a\<close> up to \<open>e\<close>: blocks of a page address and entries; and the addresses the table names.\<close>

fun reloc_table :: "mem \<Rightarrow> u32 \<Rightarrow> (u32 \<times> u16 list) list \<Rightarrow> u32 \<Rightarrow> bool" where
  "reloc_table m a [] e \<longleftrightarrow> a = e"
| "reloc_table m a ((va, es) # bs) e \<longleftrightarrow>
     unat a + 8 + 2 * length es \<le> unat e \<and> load32 m a = va \<and> load32 m (a + 4) = of_nat (8 + 2 * length es) \<and>
     (\<forall>i < length es. load16 m (a + of_nat (8 + 2 * i)) = es ! i) \<and> reloc_table m (a + of_nat (8 + 2 * length es)) bs e"

definition block_fixups :: "u32 \<Rightarrow> u32 \<Rightarrow> u16 list \<Rightarrow> u32 list" where
  "block_fixups base va es = map (\<lambda>e. base + va + ucast (e AND 0x0FFF)) (filter (\<lambda>e. drop_bit 12 e = PE_REL_BASED_HIGHLOW) es)"

definition reloc_fixups :: "u32 \<Rightarrow> (u32 \<times> u16 list) list \<Rightarrow> u32 list" where
  "reloc_fixups base bs = concat (map (\<lambda>(va, es). block_fixups base va es) bs)"

definition patch :: "u32 \<Rightarrow> u32 \<Rightarrow> mem \<Rightarrow> mem" where
  "patch delta q m = store32 m q (load32 m q + delta)"

definition word_at :: "u32 \<Rightarrow> u32 set" where "word_at q = {q, q + 1, q + 2, q + 3}"

definition agree :: "u32 set \<Rightarrow> mem \<Rightarrow> mem \<Rightarrow> bool" where
  "agree R m m' \<longleftrightarrow> (\<forall>x \<in> R. m' x = m x)"

lemma agree_trans: "agree R m m' \<Longrightarrow> agree R m' m'' \<Longrightarrow> agree R m m''"
  by (simp add: agree_def)

lemma agree_load32: "agree R m m' \<Longrightarrow> word_at q \<subseteq> R \<Longrightarrow> load32 m' q = load32 m q"
  by (simp add: agree_def load32_def word_at_def)

lemma agree_load16: "agree R m m' \<Longrightarrow> q \<in> R \<Longrightarrow> q + 1 \<in> R \<Longrightarrow> load16 m' q = load16 m q"
  by (simp add: agree_def load16_def)

lemma agree_patch: "word_at q \<inter> R = {} \<Longrightarrow> agree R m (patch delta q m)"
  by (auto simp: agree_def patch_def store32_def word_at_def)

lemma agree_patches: "(\<forall>q \<in> set qs. word_at q \<inter> R = {}) \<Longrightarrow> agree R m (fold (patch delta) qs m)"
proof (induction qs arbitrary: m)
  case (Cons q qs)
  then show ?case using agree_trans [OF agree_patch [of q R m delta] Cons.IH [of "patch delta q m"]] by simp
qed (simp add: agree_def)

lemma pe_patch_entries_fold:
  assumes "word_at block \<subseteq> R" "\<forall>i < length es. p + of_nat (2 * i) \<in> R \<and> p + of_nat (2 * i) + 1 \<in> R"
    "\<forall>i < length es. load16 m (p + of_nat (2 * i)) = es ! i" "load32 m block = va"
    "\<forall>q \<in> set (block_fixups base va es). word_at q \<inter> R = {}"
  shows "pe_patch_entries (length es) p block base delta m = fold (patch delta) (block_fixups base va es) m"
  using assms(2-)
proof (induction es arbitrary: p m)
  case (Cons e es)
  let ?q = "base + va + ucast (e AND 0x0FFF)"
  define m1 where "m1 = (if drop_bit 12 e = PE_REL_BASED_HIGHLOW then patch delta ?q m else m)"
  have e: "load16 m p = e" using Cons.prems(2) by force
  have ag: "agree R m m1"
    using Cons.prems(4) by (auto simp: m1_def block_fixups_def intro!: agree_patch) (simp add: agree_def)
  have shift: "p + 2 + of_nat (2 * i) = p + of_nat (2 * Suc i)" for i by simp
  have in_R: "p + 2 + of_nat (2 * i) \<in> R \<and> p + 2 + of_nat (2 * i) + 1 \<in> R" if "i < length es" for i
    using Cons.prems(1) that unfolding shift by (metis Suc_less_eq length_Cons)
  have "load16 m1 (p + 2 + of_nat (2 * i)) = es ! i" if "i < length es" for i
  proof -
    have "load16 m1 (p + 2 + of_nat (2 * i)) = load16 m (p + 2 + of_nat (2 * i))"
      using in_R [OF that] by (intro agree_load16 [OF ag]) simp_all
    moreover have "load16 m (p + of_nat (2 * Suc i)) = (e # es) ! Suc i"
      using Cons.prems(2) that by (metis Suc_less_eq length_Cons)
    ultimately show ?thesis unfolding shift by simp
  qed
  moreover have "load32 m1 block = va" using agree_load32 [OF ag assms(1)] Cons.prems(3) by simp
  moreover have "\<forall>q \<in> set (block_fixups base va es). word_at q \<inter> R = {}" using Cons.prems(4) by (auto simp: block_fixups_def)
  ultimately have "pe_patch_entries (length es) (p + 2) block base delta m1 = fold (patch delta) (block_fixups base va es) m1"
    using in_R by (intro Cons.IH) blast+
  moreover have "pe_patch_entries (length (e # es)) p block base delta m = pe_patch_entries (length es) (p + 2) block base delta m1"
    using Cons.prems(3) by (simp add: e m1_def patch_def Let_def add.assoc)
  ultimately show ?case by (simp add: block_fixups_def m1_def)
qed (simp add: block_fixups_def)

lemma reloc_table_agree:
  "reloc_table m a bs e \<Longrightarrow> agree {x. a \<le> x \<and> x < e} m m' \<Longrightarrow> reloc_table m' a bs e"
proof (induction m a bs e rule: reloc_table.induct)
  case (2 m a va es bs e)
  let ?R = "{x. a \<le> x \<and> x < e}" and ?n = "8 + 2 * length es"
  have fits: "unat a + ?n \<le> unat e" using "2.prems"(1) by simp
  have u: "unat (a + of_nat j) = unat a + j" if "j \<le> ?n" for j
    using that fits unat_u32_less [of e] by (intro unat_plus_fits [of _ _ e]) linarith
  have R: "a + of_nat j \<in> ?R" if "j < ?n" for j
    using u [of j] that fits by (simp add: word_le_nat_alt word_less_nat_alt)
  have R4: "word_at a \<subseteq> ?R" "word_at (a + 4) \<subseteq> ?R"
    using R [of 0] R [of 1] R [of 2] R [of 3] R [of 4] R [of 5] R [of 6] R [of 7] by (auto simp: word_at_def add.assoc)
  have l16: "load16 m' (a + of_nat (8 + 2 * i)) = load16 m (a + of_nat (8 + 2 * i))" if "i < length es" for i
  proof (rule agree_load16 [OF "2.prems"(2)])
    show "a + of_nat (8 + 2 * i) \<in> ?R" using that by (intro R) simp
    have "a + of_nat (8 + 2 * i) + 1 = a + of_nat (9 + 2 * i)" by simp
    also have "\<dots> \<in> ?R" using that by (intro R) simp
    finally show "a + of_nat (8 + 2 * i) + 1 \<in> ?R" .
  qed
  have "{x. a + of_nat ?n \<le> x \<and> x < e} \<subseteq> ?R"
    using u [of ?n] by (auto simp: word_le_nat_alt)
  then have "agree {x. a + of_nat ?n \<le> x \<and> x < e} m m'" using "2.prems"(2) by (auto simp: agree_def)
  then have "reloc_table m' (a + of_nat ?n) bs e" using "2.prems"(1) "2.IH" by simp
  then show ?case
    using "2.prems" l16 agree_load32 [OF "2.prems"(2) R4(1)] agree_load32 [OF "2.prems"(2) R4(2)] by simp
qed simp

lemma pe_reloc_blocks_fold:
  assumes "reloc_table m a bs e" "\<forall>q \<in> set (reloc_fixups base bs). word_at q \<inter> {x. a \<le> x \<and> x < e} = {}"
  shows "pe_reloc_blocks a e base delta m = Some (fold (patch delta) (reloc_fixups base bs) m)"
  using assms
proof (induction bs arbitrary: a m)
  case Nil
  then show ?case by (simp add: pe_reloc_blocks.simps [of e e] reloc_fixups_def)
next
  case (Cons b bs)
  obtain va es where b: "b = (va, es)" by fastforce
  let ?n = "8 + 2 * length es" and ?R = "{x. a \<le> x \<and> x < e}"
  have t: "unat a + ?n \<le> unat e" "load32 m a = va" "load32 m (a + 4) = of_nat ?n"
    "\<forall>i < length es. load16 m (a + of_nat (8 + 2 * i)) = es ! i" "reloc_table m (a + of_nat ?n) bs e"
    using Cons.prems(1) b by simp_all
  have n32: "?n < 4294967296" using t(1) unat_u32_less [of e] by linarith
  have un: "unat (of_nat ?n :: u32) = ?n" using n32 by (simp only: unat_of_nat) simp
  have cnt: "unat ((of_nat ?n - RELOC_BLOCK_SIZE) div 2 :: u32) = length es"
  proof -
    have "(of_nat ?n - RELOC_BLOCK_SIZE :: u32) = of_nat (2 * length es)" by (simp add: RELOC_BLOCK_SIZE_def)
    moreover have "unat (of_nat (2 * length es) :: u32) = 2 * length es" using n32 by (simp only: unat_of_nat) simp
    ultimately show ?thesis by (simp add: unat_div)
  qed
  have u: "unat (a + of_nat j) = unat a + j" if "j \<le> ?n" for j
    using that t(1) by (intro unat_plus_fits [of _ _ e]) linarith
  have R: "a + of_nat j \<in> ?R" if "j < ?n" for j
    using u [of j] that t(1) by (simp add: word_le_nat_alt word_less_nat_alt)
  have R4: "word_at a \<subseteq> ?R" "word_at (a + 4) \<subseteq> ?R"
    using R [of 0] R [of 1] R [of 2] R [of 3] R [of 4] R [of 5] R [of 6] R [of 7] by (auto simp: word_at_def add.assoc)
  have pos: "a + 8 + of_nat (2 * i) = a + of_nat (8 + 2 * i)" for i by simp
  have R16: "a + 8 + of_nat (2 * i) \<in> ?R \<and> a + 8 + of_nat (2 * i) + 1 \<in> ?R" if "i < length es" for i
  proof -
    have "a + 8 + of_nat (2 * i) + 1 = a + of_nat (9 + 2 * i)" by simp
    also have "\<dots> \<in> ?R" using that by (intro R) simp
    finally show ?thesis unfolding pos using that by (intro conjI R) simp_all
  qed
  define m1 where "m1 = fold (patch delta) (block_fixups base va es) m"
  have fx: "reloc_fixups base (b # bs) = block_fixups base va es @ reloc_fixups base bs" by (simp add: b reloc_fixups_def)
  have out: "\<forall>q \<in> set (block_fixups base va es). word_at q \<inter> ?R = {}" using Cons.prems(2) fx by simp
  have entries: "pe_patch_entries (length es) (a + 8) a base delta m = m1"
  proof -
    have "\<forall>i < length es. load16 m (a + 8 + of_nat (2 * i)) = es ! i" unfolding pos by (rule t(4))
    moreover have "\<forall>i < length es. a + 8 + of_nat (2 * i) \<in> ?R \<and> a + 8 + of_nat (2 * i) + 1 \<in> ?R" using R16 by blast
    ultimately show ?thesis unfolding m1_def using pe_patch_entries_fold [OF R4(1)] t(2) out by blast
  qed
  have ag: "agree ?R m m1" unfolding m1_def by (rule agree_patches [OF out])
  have sub: "{x. a + of_nat ?n \<le> x \<and> x < e} \<subseteq> ?R" using u [of ?n] by (auto simp: word_le_nat_alt)
  then have "agree {x. a + of_nat ?n \<le> x \<and> x < e} m m1" using ag by (auto simp: agree_def)
  then have "reloc_table m1 (a + of_nat ?n) bs e" by (rule reloc_table_agree [OF t(5)])
  moreover have "\<forall>q \<in> set (reloc_fixups base bs). word_at q \<inter> {x. a + of_nat ?n \<le> x \<and> x < e} = {}"
    using Cons.prems(2) fx sub by fastforce
  ultimately have IH: "pe_reloc_blocks (a + of_nat ?n) e base delta m1 = Some (fold (patch delta) (reloc_fixups base bs) m1)"
    by (rule Cons.IH)
  have "a < e" using t(1) by (simp add: word_less_nat_alt)
  moreover have "load32 m (a + 4) \<noteq> 0" using t(3) un by (metis add_is_0 unat_0 zero_neq_numeral)
  moreover have "load32 m1 (a + 4) = of_nat ?n" using agree_load32 [OF ag R4(2)] t(3) by simp
  ultimately have "pe_reloc_blocks a e base delta m = pe_reloc_blocks (a + of_nat ?n) e base delta m1"
    using cnt entries t(3) by (subst pe_reloc_blocks.simps) (simp add: Let_def RELOC_BLOCK_SIZE_def)
  then show ?case using IH by (simp add: fx m1_def)
qed

text \<open>Patching words that do not overlap adds the difference to each of them once.\<close>

lemma load32_patch: "load32 (patch delta p m) p = load32 m p + delta"
  by (simp add: patch_def)

lemma word_at_disjoint: "word_at p \<inter> word_at q = {} \<Longrightarrow> load32 (patch delta p m) q = load32 m q"
  by (auto simp: patch_def load32_def store32_def word_at_def)

lemma patches_other: "(\<forall>p \<in> set ps. word_at p \<inter> word_at q = {}) \<Longrightarrow> load32 (fold (patch delta) ps m) q = load32 m q"
  by (induction ps arbitrary: m) (simp_all add: word_at_disjoint)

lemma patches_each:
  "pairwise (\<lambda>p q. word_at p \<inter> word_at q = {}) (set ps) \<Longrightarrow> distinct ps \<Longrightarrow> q \<in> set ps \<Longrightarrow>
     load32 (fold (patch delta) ps m) q = load32 m q + delta"
proof (induction ps arbitrary: m)
  case (Cons p ps)
  show ?case
  proof (cases "q = p")
    case True
    have "load32 (fold (patch delta) ps (patch delta p m)) p = load32 (patch delta p m) p"
      using Cons.prems(1,2) by (intro patches_other) (auto simp: pairwise_insert)
    then show ?thesis using True by (simp add: load32_patch)
  next
    case False
    then have "word_at p \<inter> word_at q = {}" using Cons.prems by (auto simp: pairwise_insert)
    then show ?thesis using False Cons by (simp add: pairwise_insert word_at_disjoint)
  qed
qed simp

text \<open>
  C31: Relocating an image ends and moves every address it should: for a table of blocks that lies in one piece and names words that
  overlap neither it nor each other, each named word has the difference of the load addresses added once, and no other byte changes.
\<close>

theorem pe_relocations_applied:
  assumes "reloc_table m (base + rva) bs (base + rva + size')" "delta \<noteq> 0" "size' \<noteq> 0"
    and "\<forall>q \<in> set (reloc_fixups base bs). word_at q \<inter> {x. base + rva \<le> x \<and> x < base + rva + size'} = {}"
    and "distinct (reloc_fixups base bs)" "pairwise (\<lambda>p q. word_at p \<inter> word_at q = {}) (set (reloc_fixups base bs))"
  shows "\<exists>m'. pe_apply_relocations base rva size' delta m = Some m' \<and>
    (\<forall>q \<in> set (reloc_fixups base bs). load32 m' q = load32 m q + delta) \<and>
    (\<forall>x. x \<notin> \<Union> (word_at ` set (reloc_fixups base bs)) \<longrightarrow> m' x = m x)"
proof -
  let ?ps = "reloc_fixups base bs"
  have "pe_apply_relocations base rva size' delta m = Some (fold (patch delta) ?ps m)"
    using assms(2,3) pe_reloc_blocks_fold [OF assms(1,4)] by (simp add: pe_apply_relocations_def)
  moreover have "agree (- \<Union> (word_at ` set ?ps)) m (fold (patch delta) ?ps m)" by (rule agree_patches) blast
  ultimately show ?thesis using patches_each [OF assms(6,5)] by (auto simp: agree_def)
qed

text \<open>A table of one block with two addresses, 0x10 and 0x20, and a padding entry.\<close>

definition reloc_demo :: mem where
  "reloc_demo a = (case map_of [(0x1080 :: u32, 0x00), (0x1084, 14), (0x1088, 0x10), (0x1089, 0x30), (0x108A, 0x20), (0x108B, 0x30), (0x1011, 0x40)] a of
     Some b \<Rightarrow> b | None \<Rightarrow> 0)"

theorem pe_relocations_applied_witness:
  "\<exists>m'. pe_apply_relocations 0x1000 0x80 14 0x100 reloc_demo = Some m' \<and> load32 m' 0x1010 = 0x4100 \<and> load32 m' 0x1020 = 0x100 \<and> m' 0x1084 = 14"
proof -
  have fx: "reloc_fixups 0x1000 [(0, [0x3010, 0x3020, 0])] = [0x1010, 0x1020]" by code_simp
  have t: "reloc_table reloc_demo (0x1000 + 0x80) [(0, [0x3010, 0x3020, 0])] (0x1000 + 0x80 + 14)"
    by (simp add: load32_def load16_def reloc_demo_def All_less_Suc)
  have w: "word_at 0x1010 \<inter> {x. 0x1000 + 0x80 \<le> x \<and> x < 0x1000 + 0x80 + 14} = {}"
    "word_at 0x1020 \<inter> {x. 0x1000 + 0x80 \<le> x \<and> x < 0x1000 + 0x80 + 14} = {}" "word_at 0x1010 \<inter> word_at 0x1020 = {}"
    by (auto simp: word_at_def)
  have l: "load32 reloc_demo 0x1010 = 0x4000" "load32 reloc_demo 0x1020 = 0" "reloc_demo 0x1084 = 14"
    by (simp_all add: load32_def reloc_demo_def)
  have o: "0x1084 \<notin> word_at 0x1010" "0x1084 \<notin> word_at 0x1020" by (simp_all add: word_at_def)
  show ?thesis
    using pe_relocations_applied [where delta = "0x100", OF t] fx w l o by (auto simp: pairwise_insert Int_commute)
qed

section \<open>What the format says\<close>

text \<open>
  A file as its bytes from 0 on, and the numbers in it, as the PE format has them: the offset of the PE header at 60; behind its signature machine, number
  of sections (6) and size of the optional header (20); in the optional header, at 24, its magic, the entry point (16), the image base (28), the sizes of
  image (56) and headers (60), the number of directories (92), the sixth of which, at 136, is the relocation table; sections of 40 bytes with size, address, size and
  offset in the file at 8, 12, 16 and 20.
\<close>

definition num16 :: "(nat \<Rightarrow> u8) \<Rightarrow> nat \<Rightarrow> nat" where "num16 f i = unat (f i) + 256 * unat (f (i + 1))"
definition num32 :: "(nat \<Rightarrow> u8) \<Rightarrow> nat \<Rightarrow> nat" where "num32 f i = le_nat [f i, f (i + 1), f (i + 2), f (i + 3)]"

definition pe_opt :: "(nat \<Rightarrow> u8) \<Rightarrow> nat" where "pe_opt f = num32 f 60 + 24"

record pe_section =
  ps_size :: nat
  ps_addr :: nat
  ps_raw :: nat
  ps_pos :: nat

definition pe_section_at :: "(nat \<Rightarrow> u8) \<Rightarrow> nat \<Rightarrow> pe_section" where
  "pe_section_at f a = \<lparr>ps_size = num32 f (a + 8), ps_addr = num32 f (a + 12), ps_raw = num32 f (a + 16), ps_pos = num32 f (a + 20)\<rparr>"

definition pe_sections :: "(nat \<Rightarrow> u8) \<Rightarrow> pe_section list" where
  "pe_sections f = map (\<lambda>i. pe_section_at f (pe_opt f + num16 f (num32 f 60 + 20) + 40 * i)) [0..<num16 f (num32 f 60 + 6)]"

definition pe_image_size :: "(nat \<Rightarrow> u8) \<Rightarrow> nat" where "pe_image_size f = num32 f (pe_opt f + 56)"

definition pe_file_ok :: "(nat \<Rightarrow> u8) \<Rightarrow> nat \<Rightarrow> bool" where
  "pe_file_ok f len \<longleftrightarrow>
     64 \<le> len \<and> f 0 = 0x4D \<and> f 1 = 0x5A \<and> pe_opt f + 96 \<le> len \<and>
     map f [num32 f 60..<num32 f 60 + 6] = [0x50, 0x45, 0, 0, 0x4C, 0x01] \<and> f (pe_opt f) = 0x0B \<and> f (pe_opt f + 1) = 0x01 \<and>
     pe_opt f + num16 f (num32 f 60 + 20) + 40 * num16 f (num32 f 60 + 6) \<le> len \<and>
     num32 f (pe_opt f + 60) \<le> pe_image_size f \<and> (5 < num32 f (pe_opt f + 92) \<longrightarrow> pe_opt f + 144 \<le> len) \<and>
     list_all (\<lambda>sec. ps_addr sec + ps_size sec \<le> pe_image_size f \<and> ps_pos sec + ps_raw sec < 2 ^ 32) (pe_sections f)"

text \<open>The byte at \<open>x\<close> of the image before relocation: of the last section that covers it with bytes of the file, else of the headers, else zero.\<close>

definition pe_image :: "(nat \<Rightarrow> u8) \<Rightarrow> nat \<Rightarrow> nat \<Rightarrow> u8" where
  "pe_image f len x =
     (case find (\<lambda>sec. ps_pos sec + ps_raw sec \<le> len \<and> ps_addr sec \<le> x \<and> x < ps_addr sec + min (ps_raw sec) (ps_size sec)) (rev (pe_sections f)) of
        Some sec \<Rightarrow> f (ps_pos sec + (x - ps_addr sec))
      | None \<Rightarrow> if x < min (num32 f (pe_opt f + 60)) len then f x else 0)"

definition image_at :: "(nat \<Rightarrow> u8) \<Rightarrow> nat \<Rightarrow> u32 \<Rightarrow> mem \<Rightarrow> mem" where
  "image_at f len base m = (\<lambda>a. if unat (a - base) < pe_image_size f then pe_image f len (unat (a - base)) else m a)"

text \<open>The words to relocate: none when the file is at the address it is linked for or has no table; else those of the table in the image, which are
  apart from it and from each other and in the image.\<close>

definition pe_relocated :: "(nat \<Rightarrow> u8) \<Rightarrow> u32 \<Rightarrow> bool" where
  "pe_relocated f base \<longleftrightarrow> unat base \<noteq> num32 f (pe_opt f + 28) \<and> 5 < num32 f (pe_opt f + 92) \<and>
     num32 f (pe_opt f + 136) \<noteq> 0 \<and> num32 f (pe_opt f + 140) \<noteq> 0"

definition pe_fixups :: "(nat \<Rightarrow> u8) \<Rightarrow> nat \<Rightarrow> u32 \<Rightarrow> mem \<Rightarrow> u32 list \<Rightarrow> bool" where
  "pe_fixups f len base m ps \<longleftrightarrow>
     (if pe_relocated f base then
        (let a = base + of_nat (num32 f (pe_opt f + 136)); e = a + of_nat (num32 f (pe_opt f + 140)) in
         (\<exists>bs. reloc_table (image_at f len base m) a bs e \<and> ps = reloc_fixups base bs) \<and> distinct ps \<and>
         pairwise (\<lambda>p q. word_at p \<inter> word_at q = {}) (set ps) \<and>
         (\<forall>q \<in> set ps. word_at q \<inter> {x. a \<le> x \<and> x < e} = {} \<and> (\<forall>x \<in> word_at q. unat (x - base) < pe_image_size f)))
      else ps = [])"

text \<open>The fields of the code's structures are these numbers.\<close>

lemma unat_load32: "unat (load32 m p) = le_nat [m p, m (p + 1), m (p + 2), m (p + 3)]"
  using unat_get32 [of 0 "[m p, m (p + 1), m (p + 2), m (p + 3)]"] by (simp add: load32_def get32_def)

lemma unat_load16: "unat (load16 m p) = unat (m p) + 256 * unat (m (p + 1))"
  using unat_get16 [of "[m p, m (p + 1)]" 0] by (simp add: load16_def get16_def)

definition file_of :: "mem \<Rightarrow> u32 \<Rightarrow> nat \<Rightarrow> u8" where "file_of m raw i = m (raw + of_nat i)"

lemma load_file:
  "unat (load32 m (raw + of_nat i)) = num32 (file_of m raw) i" "unat (load16 m (raw + of_nat i)) = num16 (file_of m raw) i"
  by (simp_all add: unat_load32 unat_load16 num32_def num16_def file_of_def ac_simps)

lemma pe_headers:
  fixes m :: mem and raw :: u32
  defines "f \<equiv> file_of m raw"
  assumes opt: "pe_opt f + 96 < 2 ^ 32"
  shows "pe_opt_off raw m = of_nat (pe_opt f)" "raw + (pe_opt_off raw m - FILE_HEADER_SIZE) = raw + of_nat (num32 f 60 + 4)"
    "unat (NumberOfSections (file_header_at m (raw + of_nat (num32 f 60 + 4)))) = num16 f (num32 f 60 + 6)"
    "unat (SizeOfOptionalHeader (file_header_at m (raw + of_nat (num32 f 60 + 4)))) = num16 f (num32 f 60 + 20)"
    "unat (Machine (file_header_at m (raw + of_nat (num32 f 60 + 4)))) = num16 f (num32 f 60 + 4)"
    "unat (oh_Magic (optional_header_at m (raw + of_nat (pe_opt f)))) = num16 f (pe_opt f)"
    "unat (SizeOfImage (optional_header_at m (raw + of_nat (pe_opt f)))) = pe_image_size f"
    "unat (SizeOfHeaders (optional_header_at m (raw + of_nat (pe_opt f)))) = num32 f (pe_opt f + 60)"
    "unat (AddressOfEntryPoint (optional_header_at m (raw + of_nat (pe_opt f)))) = num32 f (pe_opt f + 16)"
    "unat (ImageBase (optional_header_at m (raw + of_nat (pe_opt f)))) = num32 f (pe_opt f + 28)"
    "unat (NumberOfRvaAndSizes (optional_header_at m (raw + of_nat (pe_opt f)))) = num32 f (pe_opt f + 92)"
    "unat (Subsystem (optional_header_at m (raw + of_nat (pe_opt f)))) = num16 f (pe_opt f + 68)"
proof -
  have l: "e_lfanew (dos_header_at m raw) = of_nat (num32 f 60)"
    using load_file(1) [of m raw 60] by (simp add: dos_header_at_def f_def word_unat_eq_iff unat_of_nat) (metis mod_less unat_u32_less)
  show off: "pe_opt_off raw m = of_nat (pe_opt f)" by (simp add: pe_opt_off_def l pe_opt_def FILE_HEADER_SIZE_def)
  show "raw + (pe_opt_off raw m - FILE_HEADER_SIZE) = raw + of_nat (num32 f 60 + 4)" by (simp add: off pe_opt_def FILE_HEADER_SIZE_def)
  have ld: "unat (load32 m (raw + of_nat i + of_nat j)) = num32 f (i + j)" "unat (load16 m (raw + of_nat i + of_nat j)) = num16 f (i + j)" for i j
    using load_file [of m raw "i + j"] by (simp_all add: f_def add.assoc)
  show "unat (NumberOfSections (file_header_at m (raw + of_nat (num32 f 60 + 4)))) = num16 f (num32 f 60 + 6)"
    "unat (SizeOfOptionalHeader (file_header_at m (raw + of_nat (num32 f 60 + 4)))) = num16 f (num32 f 60 + 20)"
    "unat (Machine (file_header_at m (raw + of_nat (num32 f 60 + 4)))) = num16 f (num32 f 60 + 4)"
    using ld(2) [of "num32 f 60 + 4" 2] ld(2) [of "num32 f 60 + 4" 16] ld(2) [of "num32 f 60 + 4" 0] by (simp_all add: file_header_at_def ac_simps)
  show "unat (oh_Magic (optional_header_at m (raw + of_nat (pe_opt f)))) = num16 f (pe_opt f)"
    "unat (SizeOfImage (optional_header_at m (raw + of_nat (pe_opt f)))) = pe_image_size f"
    "unat (SizeOfHeaders (optional_header_at m (raw + of_nat (pe_opt f)))) = num32 f (pe_opt f + 60)"
    "unat (AddressOfEntryPoint (optional_header_at m (raw + of_nat (pe_opt f)))) = num32 f (pe_opt f + 16)"
    "unat (ImageBase (optional_header_at m (raw + of_nat (pe_opt f)))) = num32 f (pe_opt f + 28)"
    "unat (NumberOfRvaAndSizes (optional_header_at m (raw + of_nat (pe_opt f)))) = num32 f (pe_opt f + 92)"
    "unat (Subsystem (optional_header_at m (raw + of_nat (pe_opt f)))) = num16 f (pe_opt f + 68)"
    using ld(2) [of "pe_opt f" 0] ld(1) [of "pe_opt f" 56] ld(1) [of "pe_opt f" 60] ld(1) [of "pe_opt f" 16] ld(1) [of "pe_opt f" 28]
      ld(1) [of "pe_opt f" 92] ld(2) [of "pe_opt f" 68]
    by (simp_all add: optional_header_at_def pe_image_size_def ac_simps)
qed

definition of_section :: "pe_section_header \<Rightarrow> pe_section" where
  "of_section sec = \<lparr>ps_size = unat (VirtualSize sec), ps_addr = unat (sec_VirtualAddress sec), ps_raw = unat (SizeOfRawData sec), ps_pos = unat (PointerToRawData sec)\<rparr>"

lemma section_table_file:
  "map of_section (section_table n (raw + of_nat a) m) = map (\<lambda>i. pe_section_at (file_of m raw) (a + 40 * i)) [0..<n]"
proof (induction n arbitrary: a)
  case (Suc n)
  have ld: "unat (load32 m (raw + of_nat a + of_nat j)) = num32 (file_of m raw) (a + j)" for j
    using load_file(1) [of m raw "a + j"] by (simp add: add.assoc)
  have "of_section (section_header_at m (raw + of_nat a)) = pe_section_at (file_of m raw) a"
    using ld [of 8] ld [of 12] ld [of 16] ld [of 20] by (simp add: of_section_def section_header_at_def pe_section_at_def)
  moreover have "raw + of_nat a + SECTION_HEADER_SIZE = raw + of_nat (a + 40)" by (simp add: SECTION_HEADER_SIZE_def)
  ultimately show ?case using Suc [of "a + 40"] by (simp add: upt_rec [of 0 "Suc n"] map_Suc_upt [symmetric] comp_def add.assoc del: upt_Suc)
qed simp

text \<open>The image as the sections are copied one after the other is that of the last section that covers a byte.\<close>

lemma file_image_find:
  assumes "list_all (\<lambda>sec. unat (sec_VirtualAddress sec) + unat (VirtualSize sec) \<le> 2 ^ 32) secs"
  shows "file_image k hdr (\<lambda>i. m (raw + i)) secs x =
    (case find (\<lambda>sec. ps_pos sec + ps_raw sec \<le> k \<and> ps_addr sec \<le> unat x \<and> unat x < ps_addr sec + min (ps_raw sec) (ps_size sec)) (rev (map of_section secs)) of
       Some sec \<Rightarrow> file_of m raw (ps_pos sec + (unat x - ps_addr sec))
     | None \<Rightarrow> if unat x < hdr then m (raw + x) else 0)"
  using assms
proof (induction secs rule: rev_induct)
  case (snoc sec secs)
  let ?v = "sec_VirtualAddress sec" and ?c = "min (unat (SizeOfRawData sec)) (unat (VirtualSize sec))"
  have d: "unat (x - ?v) = (if unat ?v \<le> unat x then unat x - unat ?v else unat x + 2 ^ 32 - unat ?v)"
    by (simp add: unat_sub_if_size word_size word_le_nat_alt)
  have "unat (x - ?v) < ?c \<longleftrightarrow> unat ?v \<le> unat x \<and> unat x < unat ?v + ?c"
    using snoc.prems unfolding d by (auto simp: min_def)
  moreover have "PointerToRawData sec + (x - ?v) = of_nat (unat (PointerToRawData sec) + (unat x - unat ?v))" if "unat ?v \<le> unat x"
  proof -
    have "x - ?v = of_nat (unat x - unat ?v)" using that by (simp add: of_nat_diff)
    then show ?thesis by simp
  qed
  ultimately show ?case using snoc by (auto simp: file_image_def section_image_def of_section_def file_of_def add_diff_eq)
qed (simp add: file_image_def)

text \<open>A file that is well formed is accepted, and the image of its sections is the one of the format.\<close>

lemma u32_eq_nat: "unat (x :: u32) = n \<Longrightarrow> x = of_nat n"
  by auto

lemma pe_sections_of_file:
  assumes "pe_opt (file_of m raw) + 96 < 2 ^ 32"
  shows "map of_section (pe_sections_of raw m) = pe_sections (file_of m raw)"
proof -
  let ?f = "file_of m raw"
  note h = pe_headers [OF assms]
  let ?co = "file_header_at m (raw + of_nat (num32 ?f 60 + 4))"
  have "(ucast (SizeOfOptionalHeader ?co) :: u32) = of_nat (num16 ?f (num32 ?f 60 + 20))"
    using h(4) by (intro u32_eq_nat) simp
  then have so: "raw + (pe_opt_off raw m + ucast (SizeOfOptionalHeader ?co)) = raw + of_nat (pe_opt ?f + num16 ?f (num32 ?f 60 + 20))"
    by (simp add: h(1))
  show ?thesis
    unfolding pe_sections_of_def Let_def h(2) so section_table_file pe_sections_def h(3) ..
qed

lemma pe_file_accepted:
  assumes "pe_file_ok (file_of m raw) (unat len)"
  shows "pe_accepted raw len m"
proof -
  define f where "f = file_of m raw"
  have ok: "64 \<le> unat len" "f 0 = 0x4D" "f 1 = 0x5A" "pe_opt f + 96 \<le> unat len"
    "map f [num32 f 60..<num32 f 60 + 6] = [0x50, 0x45, 0, 0, 0x4C, 0x01]" "f (pe_opt f) = 0x0B" "f (pe_opt f + 1) = 0x01"
    "pe_opt f + num16 f (num32 f 60 + 20) + 40 * num16 f (num32 f 60 + 6) \<le> unat len" "num32 f (pe_opt f + 60) \<le> pe_image_size f"
    "list_all (\<lambda>sec. ps_addr sec + ps_size sec \<le> pe_image_size f \<and> ps_pos sec + ps_raw sec < 2 ^ 32) (pe_sections f)"
    using assms by (simp_all add: pe_file_ok_def f_def)
  have b: "pe_opt f + 96 < 2 ^ 32" by (rule le_less_trans [OF ok(4)]) simp
  note h = pe_headers [OF b [unfolded f_def], folded f_def]
  have un: "unat (of_nat k :: u32) = k" if "k \<le> pe_opt f + 96" for k
    using that b by (simp add: unat_of_nat)
  have o': "pe_opt_off raw m = of_nat (pe_opt f)" "unat (pe_opt_off raw m) = pe_opt f" "num32 f 60 + 24 = pe_opt f"
    using h(1) un [of "pe_opt f"] by (simp_all add: pe_opt_def)
  have b6: "f (num32 f 60) = 0x50" "f (num32 f 60 + 1) = 0x45" "f (num32 f 60 + 2) = 0" "f (num32 f 60 + 3) = 0"
    "f (num32 f 60 + 4) = 0x4C" "f (num32 f 60 + 5) = 0x01"
    using ok(5) by (simp_all add: upt_rec numeral_eq_Suc)
  have mz: "e_magic (dos_header_at m raw) = PE_MZ_SIGNATURE"
    using load_file(2) [of m raw 0] ok(2,3) by (simp add: f_def [symmetric] dos_header_at_def num16_def PE_MZ_SIGNATURE_def word_unat_eq_iff)
  have lf: "e_lfanew (dos_header_at m raw) = of_nat (num32 f 60)"
    using load_file(1) [of m raw 60] by (intro u32_eq_nat) (simp add: f_def dos_header_at_def)
  have pe: "load32 m (raw + of_nat (num32 f 60)) = PE_PE_SIGNATURE"
    using load_file(1) [of m raw "num32 f 60"] b6
    by (simp add: f_def [symmetric] num32_def le_nat_def PE_PE_SIGNATURE_def word_unat_eq_iff)
  have mach: "Machine (file_header_at m (raw + of_nat (num32 f 60 + 4))) = PE_MACHINE_I386"
  proof -
    have e: "num32 f 60 + 4 + 1 = num32 f 60 + 5" by simp
    have "num16 f (num32 f 60 + 4) = 0x14C" unfolding num16_def e b6(5,6) by simp
    then show ?thesis unfolding h(5) [symmetric] by (simp add: PE_MACHINE_I386_def word_unat_eq_iff)
  qed
  have magic: "oh_Magic (optional_header_at m (raw + of_nat (pe_opt f))) = PE_OPT_MAGIC_PE32"
    using h(6) ok(6,7) by (simp add: num16_def PE_OPT_MAGIC_PE32_def word_unat_eq_iff)
  have us: "unat (of_nat (num32 f 60) + 4 :: u32) = num32 f 60 + 4" "unat (of_nat (num32 f 60) + 24 :: u32) = num32 f 60 + 24"
    "unat (of_nat (num32 f 60) + 120 :: u32) = num32 f 60 + 120"
    using un [of "num32 f 60 + 4"] un [of "num32 f 60 + 24"] un [of "num32 f 60 + 120"]
    unfolding o'(3) [symmetric] by simp_all
  have pf: "num32 f 60 = pe_opt f - 24" "24 \<le> pe_opt f" using o'(3) by linarith+
  have "\<not> len < DOS_HEADER_SIZE" using ok(1) by (simp add: word_less_nat_alt DOS_HEADER_SIZE_def)
  then have "pe_check raw len m = Inr (pe_opt_off raw m)"
    using mz lf pe mach magic [folded o'(3)] us ok(4) [folded o'(3)] unfolding pe_check_def Let_def o'(1) o'(3) [symmetric]
    by (simp add: word_less_nat_alt FILE_HEADER_SIZE_def OPT_HEADER_SIZE_def ac_simps)
  moreover have "list_all (section_fits (unat (SizeOfImage (optional_header_at m (raw + of_nat (pe_opt f)))))) (pe_sections_of raw m)"
    using ok(10) unfolding h(7) pe_sections_of_file [OF b [unfolded f_def], folded f_def, symmetric]
    by (simp add: list_all_iff section_fits_def of_section_def)
  ultimately show ?thesis
    using ok(4,8,9) h pf o' by (simp add: pe_accepted_def Let_def word_le_nat_alt)
qed

lemma image_at_overlay:
  fixes len :: u32
  assumes "pe_file_ok (file_of m raw) (unat len)"
  shows "overlay base (pe_image_size (file_of m raw)) (file_image (unat len) (min (num32 (file_of m raw) (pe_opt (file_of m raw) + 60)) (unat len))
      (\<lambda>i. m (raw + i)) (pe_sections_of raw m)) m = image_at (file_of m raw) (unat len) base m"
proof -
  define f where "f = file_of m raw"
  have ok: "pe_opt f + 96 \<le> unat len"
    "list_all (\<lambda>sec. ps_addr sec + ps_size sec \<le> pe_image_size f \<and> ps_pos sec + ps_raw sec < 2 ^ 32) (pe_sections f)"
    using assms by (simp_all add: pe_file_ok_def f_def)
  have b: "pe_opt f + 96 < 2 ^ 32" by (rule le_less_trans [OF ok(1)]) simp
  note secs = pe_sections_of_file [OF b [unfolded f_def], folded f_def]
  have sz: "pe_image_size f \<le> 2 ^ 32" 
    unfolding pe_headers(7) [OF b [unfolded f_def], folded f_def, symmetric] by (rule less_imp_le) simp
  have "list_all (\<lambda>sec. unat (sec_VirtualAddress sec) + unat (VirtualSize sec) \<le> 2 ^ 32) (pe_sections_of raw m)"
    using ok(2) sz unfolding secs [symmetric] by (fastforce simp: list_all_iff of_section_def)
  from file_image_find [OF this, of "unat len" _ m raw]
  have "file_image (unat len) (min (num32 f (pe_opt f + 60)) (unat len)) (\<lambda>i. m (raw + i)) (pe_sections_of raw m) x =
      pe_image f (unat len) (unat x)" for x
    by (auto simp: pe_image_def secs f_def [symmetric] file_of_def split: option.splits) (simp_all add: f_def file_of_def)
  then show ?thesis unfolding f_def [symmetric] by (simp add: overlay_def image_at_def cong: if_cong)
qed

lemma pe_relocate_file:
  assumes "pe_file_ok (file_of m raw) (unat (len :: u32))" "apart raw (unat len) base (pe_image_size (file_of m raw))"
    and "pe_fixups (file_of m raw) (unat len) base m ps"
  shows "pe_relocate raw (pe_opt_off raw m) base (of_nat (num32 (file_of m raw) (pe_opt (file_of m raw) + 28))) (image_at (file_of m raw) (unat len) base m) =
    Some (fold (patch (base - of_nat (num32 (file_of m raw) (pe_opt (file_of m raw) + 28)))) ps (image_at (file_of m raw) (unat len) base m))"
proof -
  define f where "f = file_of m raw"
  define M where "M = image_at f (unat len) base m"
  define ib where "ib = (of_nat (num32 f (pe_opt f + 28)) :: u32)"
  let ?d = "raw + (of_nat (pe_opt f) + 136)"
  have ok: "pe_opt f + 96 \<le> unat len" "5 < num32 f (pe_opt f + 92) \<longrightarrow> pe_opt f + 144 \<le> unat len"
    using assms(1) by (simp_all add: pe_file_ok_def f_def)
  have b: "pe_opt f + 96 < 2 ^ 32" by (rule le_less_trans [OF ok(1)]) simp
  note h = pe_headers [OF b [unfolded f_def], folded f_def]
  have un: "unat (of_nat (pe_opt f) :: u32) = pe_opt f" using b by (simp add: unat_of_nat)
  note ap = assms(2) [folded f_def]
  obtain g where M: "M = overlay base (pe_image_size f) g m"
    using image_at_overlay [OF assms(1), of base] unfolding M_def f_def [symmetric] by metis
  have opt: "optional_header_at M (raw + of_nat (pe_opt f)) = optional_header_at m (raw + of_nat (pe_opt f))"
    unfolding M using ok(1) un by (intro optional_header_overlay [OF ap]) simp
  have uib: "unat ib = num32 f (pe_opt f + 28)" unfolding ib_def by (simp add: h(10) [symmetric])
  have delta: "base - ib \<noteq> 0 \<longleftrightarrow> unat base \<noteq> num32 f (pe_opt f + 28)"
    unfolding right_minus_eq uib [symmetric] by (simp add: word_unat_eq_iff)
  have dirs: "NumberOfRvaAndSizes (optional_header_at M (raw + of_nat (pe_opt f))) > PE_DIR_BASERELOC \<longleftrightarrow> 5 < num32 f (pe_opt f + 92)"
    unfolding opt by (simp add: word_less_nat_alt h(11) PE_DIR_BASERELOC_def)
  have dir: "load32 M ?d = of_nat (num32 f (pe_opt f + 136))" "load32 M (?d + 4) = of_nat (num32 f (pe_opt f + 140))"
    if "5 < num32 f (pe_opt f + 92)"
  proof -
    have l: "pe_opt f + 144 \<le> unat len" using ok(2) that by blast
    have u: "unat (of_nat (pe_opt f) + 136 :: u32) = pe_opt f + 136" "unat (of_nat (pe_opt f) + 140 :: u32) = pe_opt f + 140"
      using unat_plus_fits [of "of_nat (pe_opt f)" 136 len] unat_plus_fits [of "of_nat (pe_opt f)" 140 len] un l by simp_all
    have "load32 M ?d = load32 m ?d" "load32 M (raw + (of_nat (pe_opt f) + 140)) = load32 m (raw + (of_nat (pe_opt f) + 140))"
      unfolding M using u l by (intro overlay_load32 [OF ap], simp)+
    then show "load32 M ?d = of_nat (num32 f (pe_opt f + 136))" "load32 M (?d + 4) = of_nat (num32 f (pe_opt f + 140))"
      using load_file(1) [of m raw "pe_opt f + 136", THEN u32_eq_nat] load_file(1) [of m raw "pe_opt f + 140", THEN u32_eq_nat]
      by (simp_all add: f_def [symmetric] ac_simps)
  qed
  have nz: "(of_nat (num32 f i) :: u32) \<noteq> 0 \<longleftrightarrow> num32 f i \<noteq> 0" for i
    using load_file(1) [of m raw i] by (metis f_def u32_eq_nat of_nat_0 unat_0)
  have at: "raw + pe_opt_off raw m + OPT_HEADER_SIZE + PE_DIR_BASERELOC * 8 = ?d"
    by (simp add: h(1) OPT_HEADER_SIZE_def PE_DIR_BASERELOC_def)
  have "pe_relocate raw (pe_opt_off raw m) base ib M = Some (fold (patch (base - ib)) ps M)"
  proof (cases "pe_relocated f base")
    case True
    then have r: "unat base \<noteq> num32 f (pe_opt f + 28)" "5 < num32 f (pe_opt f + 92)" "num32 f (pe_opt f + 136) \<noteq> 0" "num32 f (pe_opt f + 140) \<noteq> 0"
      by (simp_all add: pe_relocated_def)
    let ?a = "base + of_nat (num32 f (pe_opt f + 136))" and ?s = "of_nat (num32 f (pe_opt f + 140)) :: u32"
    obtain bs where bs: "reloc_table M ?a bs (?a + ?s)" "ps = reloc_fixups base bs" "\<forall>q \<in> set ps. word_at q \<inter> {x. ?a \<le> x \<and> x < ?a + ?s} = {}"
      using assms(3) True unfolding f_def [symmetric] pe_fixups_def M_def by (auto simp: Let_def)
    have "pe_relocate raw (pe_opt_off raw m) base ib M = pe_apply_relocations base (of_nat (num32 f (pe_opt f + 136))) ?s (base - ib) M"
      unfolding pe_relocate_def Let_def at dir [OF r(2)] using r delta dirs nz by (simp add: h(1))
    also have "\<dots> = Some (fold (patch (base - ib)) ps M)"
      using pe_reloc_blocks_fold [OF bs(1), of base] bs(2,3) nz [THEN iffD2, OF r(4)] r delta by (simp add: pe_apply_relocations_def)
    finally show ?thesis .
  next
    case False
    then have "ps = []" using assms(3) by (simp add: f_def pe_fixups_def)
    then show ?thesis using False dir delta dirs nz unfolding pe_relocate_def Let_def at by (auto simp: pe_relocated_def h(1))
  qed
  then show ?thesis unfolding M_def ib_def f_def .
qed

text \<open>
  C0: A well-formed program is loaded as the PE format says, wherever the memory for its image is. Of the file, taken as bytes: the image is at
  every offset the byte of the last section that covers it with bytes of the file, else of the headers, else zero; if the file is linked for another address and
  has a relocation table, every word the table names has the difference of the addresses added once; no other byte of the image or of the memory changes; the entry point is
  the one of the header from the load address on. The sections and headers must fit the image, file and image lie apart in memory, and the table in the image
  is made of whole blocks naming words of the image that overlap neither it nor each other (without relocation there is no condition on it).
\<close>

theorem pe_load_image:
  assumes "f = file_of (pw_mem w) raw" "pe_file_ok f (unat len)" "raw \<noteq> 0" "base \<noteq> 0" "apart raw (unat len) base (pe_image_size f)"
    and "pe_fixups f (unat len) base (pw_mem w) ps"
  shows "\<exists>img' w'. pe_load raw len name base img w = Some (PE_OK, img', w') \<and>
    (\<forall>q \<in> set ps. load32 (pw_mem w') q = load32 (image_at f (unat len) base (pw_mem w)) q + (base - of_nat (num32 f (pe_opt f + 28)))) \<and>
    (\<forall>a. a \<notin> \<Union> (word_at ` set ps) \<longrightarrow> pw_mem w' a = image_at f (unat len) base (pw_mem w) a) \<and>
    im_base img' = base \<and> unat (im_size img') = pe_image_size f \<and> im_entry_point img' = base + of_nat (num32 f (pe_opt f + 16)) \<and>
    im_loaded img' \<and> pw_live w' = insert base (pw_live w)"
proof -
  define m where "m = pw_mem w"
  note f = assms(1) [folded m_def] and fx = assms(6) [folded m_def]
  let ?M = "image_at f (unat len) base m" and ?d = "base - of_nat (num32 f (pe_opt f + 28))"
  define m5 where "m5 = fold (patch ?d) ps ?M"
  have "pe_opt f + 96 \<le> unat len" using assms(2) by (simp add: pe_file_ok_def)
  then have b: "pe_opt f + 96 < 2 ^ 32" by (rule le_less_trans) simp
  note h = pe_headers [OF b [unfolded f], folded f]
  let ?opt = "optional_header_at m (raw + pe_opt_off raw m)"
  have ops: "unat (SizeOfImage ?opt) = pe_image_size f" "unat (SizeOfHeaders ?opt) = num32 f (pe_opt f + 60)"
    "ImageBase ?opt = of_nat (num32 f (pe_opt f + 28))" "AddressOfEntryPoint ?opt = of_nat (num32 f (pe_opt f + 16))"
    using h(7,8) h(9,10) [THEN u32_eq_nat] by (simp_all add: h(1))
  have ag: "agree (- \<Union> (word_at ` set ps)) ?M m5" unfolding m5_def by (rule agree_patches) blast
  have each: "\<forall>q \<in> set ps. load32 m5 q = load32 ?M q + ?d" and inside: "\<forall>q \<in> set ps. \<forall>x \<in> word_at q. unat (x - base) < pe_image_size f"
    using fx patches_each [of ps] unfolding m5_def by (auto simp: pe_fixups_def Let_def split: if_splits)
  have keep: "m5 a = m a" if "unat (a - base) \<ge> unat (SizeOfImage ?opt)" for a
  proof -
    have "a \<notin> \<Union> (word_at ` set ps)" using inside that ops(1) by fastforce
    then show ?thesis using ag that ops(1) by (simp add: agree_def image_at_def)
  qed
  have rel: "pe_relocate raw (pe_opt_off raw m) base (ImageBase ?opt) (overlay base (unat (SizeOfImage ?opt))
      (file_image (unat len) (min (unat (SizeOfHeaders ?opt)) (unat len)) (\<lambda>i. m (raw + i)) (pe_sections_of raw m)) m) = Some m5"
    unfolding ops f image_at_overlay [OF assms(2) [unfolded f]] m5_def
    by (rule pe_relocate_file [OF assms(2) [unfolded f] assms(5) [unfolded f] fx [unfolded f]])
  obtain img' where "pe_load raw len name base img w = Some (PE_OK, img', \<lparr>pw_mem = m5, pw_live = insert base (pw_live w)\<rparr>)"
    "im_base img' = base" "im_size img' = SizeOfImage ?opt" "im_entry_point img' = base + AddressOfEntryPoint ?opt" "im_loaded img'"
    using pe_load_spec [OF pe_file_accepted [OF assms(2) [unfolded f]] assms(3,4) m_def [symmetric] _ rel keep, of name img] assms(5) ops(1) by auto
  then show ?thesis using each ag ops by (auto simp: agree_def m_def [symmetric])
qed

text \<open>
  A small program at 0x1000, loaded at 0x9000: one section of 32 bytes at 0x80, 14 of them in the file at offset 0x110: a word and the
  relocation table that names it. It is linked for 0x400000.
\<close>

definition pe_demo_bytes :: "nat \<Rightarrow> u8" where
  "pe_demo_bytes i = (case map_of
     [(0, 0x4D), (1, 0x5A), (60, 64), (64, 0x50), (65, 0x45), (68, 0x4C), (69, 1), (70, 1), (84, 144), (88, 0x0B), (89, 1),
      (104, 0x82), (118, 0x40), (145, 1), (148, 64), (180, 6), (224, 0x84), (228, 10), (240, 32), (244, 0x80), (248, 14), (252, 0x10), (253, 1),
      (272, 0x10), (274, 0x40), (276, 0x80), (280, 10), (285, 0x30)] i of
     Some b \<Rightarrow> b | None \<Rightarrow> 0)"

definition pe_demo :: mem where "pe_demo a = pe_demo_bytes (unat (a - 0x1000))"

definition pe_demo_file :: "nat \<Rightarrow> u8" where "pe_demo_file = file_of pe_demo 0x1000"

lemma pe_demo_file: "pe_demo_file i = pe_demo_bytes (i mod 2 ^ 32)"
  by (simp add: pe_demo_file_def file_of_def pe_demo_def unat_of_nat)

lemma pe_demo_numbers:
  "num32 pe_demo_file 60 = 64" "pe_opt pe_demo_file = 88" "num16 pe_demo_file 84 = 144" "num16 pe_demo_file 70 = 1" "pe_image_size pe_demo_file = 256"
  "num32 pe_demo_file 104 = 0x82" "num32 pe_demo_file 116 = 0x400000" "num32 pe_demo_file 148 = 64" "num32 pe_demo_file 180 = 6"
  "num32 pe_demo_file 224 = 0x84" "num32 pe_demo_file 228 = 10"
  "pe_sections pe_demo_file = [\<lparr>ps_size = 32, ps_addr = 0x80, ps_raw = 14, ps_pos = 0x110\<rparr>]"
  by (simp_all add: num32_def num16_def le_nat_def pe_opt_def pe_image_size_def pe_sections_def pe_section_at_def pe_demo_file pe_demo_bytes_def)

lemma pe_demo_ok: "pe_file_ok pe_demo_file 286"
  using pe_demo_numbers by (simp add: pe_file_ok_def upt_rec pe_demo_file pe_demo_bytes_def)

lemma pe_demo_image:
  "load32 (image_at pe_demo_file 286 0x9000 pe_demo) 0x9080 = 0x400010" "load32 (image_at pe_demo_file 286 0x9000 pe_demo) 0x9084 = 0x80"
  "load32 (image_at pe_demo_file 286 0x9000 pe_demo) 0x9088 = 10" "load16 (image_at pe_demo_file 286 0x9000 pe_demo) 0x908C = 0x3000"
  "image_at pe_demo_file 286 0x9000 pe_demo 0x9000 = 0x4D"
  by (simp_all add: load32_def load16_def image_at_def pe_image_def pe_demo_numbers pe_demo_file pe_demo_bytes_def)

lemma pe_demo_fixups: "pe_fixups pe_demo_file 286 0x9000 pe_demo [0x9080]"
  proof -
  have "reloc_table (image_at pe_demo_file 286 0x9000 pe_demo) 0x9084 [(0x80, [0x3000])] 0x908E" by (simp add: pe_demo_image)
  moreover have "[0x9080] = reloc_fixups 0x9000 [(0x80, [0x3000])]" by code_simp
  ultimately have "\<exists>bs. reloc_table (image_at pe_demo_file 286 0x9000 pe_demo) 0x9084 bs 0x908E \<and> [0x9080] = reloc_fixups 0x9000 bs" by blast
  moreover have "word_at 0x9080 \<inter> {x. 0x9084 \<le> x \<and> x < 0x908E} = {}" by (auto simp: word_at_def)
  moreover have "\<forall>x \<in> word_at 0x9080. unat (x - 0x9000) < 256" by (simp add: word_at_def)
  ultimately show ?thesis
    by (simp add: pe_fixups_def pe_relocated_def pe_demo_numbers)
qed

theorem pe_load_image_witness:
  "\<exists>img' w'. pe_load 0x1000 286 (Some (asc ''a.exe'')) 0x9000 image_zero \<lparr>pw_mem = pe_demo, pw_live = {}\<rparr> = Some (PE_OK, img', w') \<and>
     load32 (pw_mem w') 0x9080 = 0x9010 \<and> pw_mem w' 0x9000 = 0x4D \<and> im_entry_point img' = 0x9082"
proof -
  have ap: "apart 0x1000 286 0x9000 256" by (simp add: apart_def)
  have o: "0x9000 \<notin> word_at 0x9080" by (simp add: word_at_def)
  show ?thesis
    using pe_load_image [where raw = "0x1000" and len = 286 and w = "\<lparr>pw_mem = pe_demo, pw_live = {}\<rparr>" and base = "0x9000" and ps = "[0x9080]"
        and name = "Some (asc ''a.exe'')" and img = image_zero] pe_demo_ok pe_demo_fixups pe_demo_numbers ap pe_demo_image o
    by (auto simp: pe_demo_file_def [symmetric])
qed

text \<open>A section whose end wraps passes the check and is copied below the image; headers longer than the image run past its end.\<close>

lemma pe_section_wraps:
  "pe_load_section raw 4 base 0x1000 \<lparr>VirtualSize = 4, sec_VirtualAddress = - 4, SizeOfRawData = 4, PointerToRawData = 0\<rparr> m =
     Some (memcpy (base - 4) raw 4 m)"
  by (simp add: pe_load_section_def)

end
