(* ===== verification/App.thy ===== *)
theory App
  imports Login Pe
begin

text \<open>
  The windows of the desktop and the applications in them (\<open>os/src/app.c\<close>, \<open>os/include/app.h\<close>). The content functions are the four
  constructors of \<open>builtin\<close>. \<open>app_launch_exe\<close> takes what \<open>vfs_open\<close>, \<open>kmalloc\<close> and \<open>vfs_read\<close> did as arguments.
\<close>

definition APP_MAX_RUNNING :: nat where "APP_MAX_RUNNING = 8"
definition APP_NAME_MAX :: nat where "APP_NAME_MAX = 32"
definition WIN_TITLE_H :: int where "WIN_TITLE_H = 28"
definition WIN_CLOSE_SIZE :: int where "WIN_CLOSE_SIZE = 18"
definition WIN_BG :: u32 where "WIN_BG = 0x0E0E1E"
definition WIN_TITLE_BG :: u32 where "WIN_TITLE_BG = 0x0A0A18"
definition WIN_TITLE_FOCUSED :: u32 where "WIN_TITLE_FOCUSED = 0x141428"
definition WIN_BORDER_COL :: u32 where "WIN_BORDER_COL = 0x00FFF0"
definition WIN_CLOSE_BG :: u32 where "WIN_CLOSE_BG = 0xFF4444"
definition WIN_TEXT_COL :: u32 where "WIN_TEXT_COL = 0xCCCCDD"

record app_window =
  win_x :: int
  win_y :: int
  win_w :: int
  win_h :: int
  win_title :: "u8 list"
  win_visible :: bool
  win_focused :: bool
  win_dragging :: bool
  drag_ox :: int
  drag_oy :: int
  win_content :: "u8 list"
  content_lines :: int
  bg_color :: u32
  title_color :: u32

datatype app_type = APP_TYPE_BUILTIN | APP_TYPE_PE_EXE

datatype builtin = Builtin_files | Builtin_terminal | Builtin_browser | Builtin_settings

record app_instance =
  app_name :: "u8 list"
  app_type :: app_type
  app_running :: bool
  app_win :: app_window
  app_pe_image :: pe_loaded_image
  app_builtin_fn :: "builtin option"

record app_state =
  apps :: "app_instance list"
  next_win_x :: int
  next_win_y :: int

definition window_zero :: app_window where
  "window_zero = \<lparr>win_x = 0, win_y = 0, win_w = 0, win_h = 0, win_title = replicate 32 0, win_visible = False, win_focused = False,
     win_dragging = False, drag_ox = 0, drag_oy = 0, win_content = replicate 512 0, content_lines = 0, bg_color = 0, title_color = 0\<rparr>"

definition app_zero :: app_instance where
  "app_zero = \<lparr>app_name = replicate 32 0, app_type = APP_TYPE_BUILTIN, app_running = False, app_win = window_zero,
     app_pe_image = image_zero, app_builtin_fn = None\<rparr>"

definition app_init :: app_state where
  "app_init = \<lparr>apps = replicate APP_MAX_RUNNING app_zero, next_win_x = 120, next_win_y = 60\<rparr>"

section \<open>Content of the built-in applications\<close>

text \<open>One line of a content string, and the rule below a heading (U+2500 in UTF-8).\<close>

definition tline :: "string \<Rightarrow> cstr" where "tline s = asc s @ [10]"
definition hrule :: "nat \<Rightarrow> cstr" where "hrule n = [32] @ concat (replicate n [0xE2, 0x94, 0x80]) @ [10]"

definition set_content :: "cstr \<Rightarrow> int \<Rightarrow> app_window \<Rightarrow> app_window" where
  "set_content s n win = win\<lparr>win_content := strncpy s 511 @ drop 511 (win_content win), content_lines := n\<rparr>"

definition files_text :: cstr where
  "files_text = tline '' Dateien in /'' @ hrule 21 @ tline ''   /dev       [Geraete]'' @ tline ''   /proc      [Prozesse]'' @
     tline ''   /sys       [System]'' @ tline ''   /mnt/disk  [Festplatte]'' @ tline ''   /tmp       [Temporaer]'' @ [10] @
     tline '' Klicke zum Oeffnen...''"

definition terminal_text :: cstr where
  "terminal_text = tline '' PinguinOS Terminal v1.0'' @ hrule 21 @ tline '' $ uname -a'' @ tline ''   PinguinOS 2.3 i686'' @
     tline '' $ uptime'' @ tline ''   Laufzeit: aktiv'' @ tline '' $ help'' @ tline ''   Befehle: ls, cd, cat,'' @
     tline ''   cp, mv, rm, clear'' @ tline '' $''"

definition browser_text :: cstr where
  "browser_text = tline '' Pinguin-Browser v1.0'' @ hrule 21 @ tline ''   [Adressleiste: _____ ]'' @ [10] @
     tline ''   Willkommen im Web!'' @ [10] @ tline ''   Netzwerk wird'' @ tline ''   konfiguriert...'' @ [10] @
     tline ''   (DHCP erforderlich)''"

definition settings_text :: cstr where
  "settings_text = tline '' Einstellungen'' @ hrule 21 @ tline ''   Anzeige:    1280x720'' @ tline ''   Farbtiefe:  32 bpp'' @
     tline ''   Maus:       USB-Tablet'' @ tline ''   Tastatur:   PS/2 DE'' @ tline ''   Netzwerk:   E1000/RTL'' @
     tline ''   Swap:       16 MB'' @ tline ''   Heap:       verfuegbar''"

fun run_builtin :: "builtin \<Rightarrow> app_window \<Rightarrow> app_window" where
  "run_builtin Builtin_files win = set_content files_text 9 win"
| "run_builtin Builtin_terminal win = set_content terminal_text 10 win"
| "run_builtin Builtin_browser win = set_content browser_text 10 win"
| "run_builtin Builtin_settings win = set_content settings_text 9 win"

section \<open>Starting and closing\<close>

definition upd_app :: "nat \<Rightarrow> (app_instance \<Rightarrow> app_instance) \<Rightarrow> app_instance list \<Rightarrow> app_instance list" where
  "upd_app i f as = as[i := f (as ! i)]"

definition set_focused :: "bool \<Rightarrow> app_instance \<Rightarrow> app_instance" where
  "set_focused c a = a\<lparr>app_win := (app_win a)\<lparr>win_focused := c\<rparr>\<rparr>"

definition focus_only :: "nat \<Rightarrow> app_instance list \<Rightarrow> app_instance list" where
  "focus_only i as = upd_app i (set_focused True) (map (set_focused False) as)"

definition new_window :: "cstr \<Rightarrow> app_state \<Rightarrow> app_window" where
  "new_window title s = window_zero\<lparr>win_x := next_win_x s, win_y := next_win_y s, win_w := 420, win_h := 300,
     win_title := strncpy title (APP_NAME_MAX - 1) @ [0], win_visible := True, win_focused := True, bg_color := WIN_BG, title_color := WIN_BORDER_COL\<rparr>"

definition app_launch_builtin :: "cstr \<Rightarrow> cstr \<Rightarrow> builtin option \<Rightarrow> app_state \<Rightarrow> int \<times> app_state" where
  "app_launch_builtin name title fn s =
     (case find_idx (\<lambda>a. app_running a \<and> strcmp (app_name a) name = 0) (apps s) of
        Some i \<Rightarrow> (int i, s\<lparr>apps := upd_app i (\<lambda>a. a\<lparr>app_win := (app_win a)\<lparr>win_visible := True\<rparr>\<rparr>) (focus_only i (apps s))\<rparr>)
      | None \<Rightarrow>
          (case find_idx (\<lambda>a. \<not> app_running a) (apps s) of
             None \<Rightarrow> (- 1, s)
           | Some slot \<Rightarrow>
               let win = new_window title s;
                   win = (case fn of Some f \<Rightarrow> run_builtin f win | None \<Rightarrow> win);
                   a = app_zero\<lparr>app_name := strncpy name (APP_NAME_MAX - 1) @ [0], app_type := APP_TYPE_BUILTIN, app_running := True,
                         app_win := win, app_builtin_fn := fn\<rparr>;
                   nx = next_win_x s + 30; ny = next_win_y s + 25
               in (int slot, \<lparr>apps = (map (set_focused False) (apps s))[slot := a],
                     next_win_x = (if nx > 500 then 120 else nx), next_win_y = (if ny > 350 then 60 else ny)\<rparr>)))"

text \<open>
  \<open>app_launch_exe\<close>: \<open>opened\<close> whether the file exists, \<open>fbuf\<close> the buffer of \<open>kmalloc\<close> (0 for none), \<open>bytes\<close> what \<open>vfs_read\<close> returned (the
  data are in the memory), \<open>kz\<close> the memory for the image. \<open>None\<close> when the loader does not return.
\<close>

definition app_launch_exe :: "cstr \<Rightarrow> bool \<Rightarrow> u32 \<Rightarrow> int \<Rightarrow> u32 \<Rightarrow> app_state \<times> pe_world \<Rightarrow> (int \<times> app_state \<times> pe_world) option" where
  "app_launch_exe path opened fbuf bytes kz sw =
     (case sw of (s, w) \<Rightarrow>
      if \<not> opened \<or> fbuf = 0 \<or> bytes \<le> 0 then Some (- 1, s, w)
      else case find_idx (\<lambda>a. \<not> app_running a) (apps s) of
        None \<Rightarrow> Some (- 1, s, w)
      | Some slot \<Rightarrow>
          (case pe_load fbuf (of_int bytes) (Some path) kz image_zero w of
             None \<Rightarrow> None
           | Some (err, img, w) \<Rightarrow>
               if err \<noteq> 0 then Some (- 1, s\<lparr>apps := (apps s)[slot := app_zero\<lparr>app_pe_image := img\<rparr>]\<rparr>, w)
               else
                 let text' = snprintf_text 512 (asc '' EXE geladen: %s'' @ [10] @ asc '' EP: 0x%08X'' @ [10] @ asc '' Groesse: %u Bytes'' @ [10])
                       [AStr (Some path), AInt (im_entry_point img), AInt (im_size img)];
                     win = (new_window path s)\<lparr>win_content := text' @ replicate (512 - length text') 0, content_lines := 3\<rparr>;
                     a = app_zero\<lparr>app_name := strncpy path (APP_NAME_MAX - 1) @ [0], app_type := APP_TYPE_PE_EXE, app_running := True,
                           app_win := win, app_pe_image := img\<rparr>
                 in Some (int slot, \<lparr>apps = (apps s)[slot := a], next_win_x = next_win_x s + 30, next_win_y = next_win_y s + 25\<rparr>, w)))"

text \<open>The highest index with a property.\<close>

definition find_top :: "('a \<Rightarrow> bool) \<Rightarrow> 'a list \<Rightarrow> nat option" where
  "find_top P xs = find (\<lambda>i. P (xs ! i)) (rev [0..<length xs])"

definition app_shown :: "app_instance \<Rightarrow> bool" where "app_shown a \<longleftrightarrow> app_running a \<and> win_visible (app_win a)"

definition app_close :: "int \<Rightarrow> app_state \<times> pe_world \<Rightarrow> app_state \<times> pe_world" where
  "app_close index sw =
     (case sw of (s, w) \<Rightarrow>
      if index < 0 \<or> index \<ge> int APP_MAX_RUNNING \<or> \<not> app_running (apps s ! nat index) then (s, w)
      else
        let i = nat index; a = apps s ! i;
            (img, w) = (if app_type a = APP_TYPE_PE_EXE then pe_unload (app_pe_image a) w else (app_pe_image a, w));
            as = (apps s)[i := a\<lparr>app_pe_image := img, app_running := False, app_win := (app_win a)\<lparr>win_visible := False\<rparr>\<rparr>]
        in (s\<lparr>apps := (case find_top app_shown as of Some k \<Rightarrow> upd_app k (set_focused True) as | None \<Rightarrow> as)\<rparr>, w))"

section \<open>Mouse\<close>

definition drag_to :: "int \<Rightarrow> int \<Rightarrow> app_window \<Rightarrow> app_window" where
  "drag_to mx my win =
     (let x = mx - drag_ox win; y = my - drag_oy win;
          x = (if x < 0 then 0 else x); y = (if y < 0 then 0 else y);
          x = (if x + win_w win > SCREEN_W then SCREEN_W - win_w win else x);
          y = (if y + win_h win > TASKBAR_Y then TASKBAR_Y - win_h win else y)
      in win\<lparr>win_x := x, win_y := y\<rparr>)"

fun app_drag :: "int \<Rightarrow> int \<Rightarrow> u8 \<Rightarrow> app_instance list \<Rightarrow> bool \<times> app_instance list" where
  "app_drag mx my buttons [] = (False, [])"
| "app_drag mx my buttons (a # as) =
     (if app_shown a \<and> win_dragging (app_win a) then
        if buttons AND MOUSE_BTN_LEFT \<noteq> 0 then (True, a\<lparr>app_win := drag_to mx my (app_win a)\<rparr> # as)
        else (let (r, as) = app_drag mx my buttons as in (r, a\<lparr>app_win := (app_win a)\<lparr>win_dragging := False\<rparr>\<rparr> # as))
      else (let (r, as) = app_drag mx my buttons as in (r, a # as)))"

definition win_hit :: "int \<Rightarrow> int \<Rightarrow> app_window \<Rightarrow> bool" where
  "win_hit mx my win \<longleftrightarrow> mx \<ge> win_x win \<and> mx < win_x win + win_w win \<and> my \<ge> win_y win \<and> my < win_y win + win_h win"

definition close_hit :: "int \<Rightarrow> int \<Rightarrow> app_window \<Rightarrow> bool" where
  "close_hit mx my win =
     (let cx = win_x win + win_w win - WIN_CLOSE_SIZE - 6; cy = win_y win + 5
      in mx \<ge> cx \<and> mx < cx + WIN_CLOSE_SIZE \<and> my \<ge> cy \<and> my < cy + WIN_CLOSE_SIZE)"

text \<open>The window a click is for: the two passes of the search.\<close>

definition click_target :: "int \<Rightarrow> int \<Rightarrow> app_instance list \<Rightarrow> nat option" where
  "click_target mx my as =
     (case find_top (\<lambda>a. app_shown a \<and> win_focused (app_win a) \<and> win_hit mx my (app_win a)) as of
        Some i \<Rightarrow> Some i
      | None \<Rightarrow> find_top (\<lambda>a. app_shown a \<and> \<not> win_focused (app_win a) \<and> win_hit mx my (app_win a)) as)"

definition start_drag :: "int \<Rightarrow> int \<Rightarrow> app_window \<Rightarrow> app_window" where
  "start_drag mx my win =
     (if my < win_y win + WIN_TITLE_H then win\<lparr>win_dragging := True, drag_ox := mx - win_x win, drag_oy := my - win_y win\<rparr> else win)"

definition app_handle_mouse :: "int \<Rightarrow> int \<Rightarrow> u8 \<Rightarrow> u8 \<Rightarrow> app_state \<times> pe_world \<Rightarrow> bool \<times> app_state \<times> pe_world" where
  "app_handle_mouse mx my buttons clicked sw =
     (case sw of (s, w) \<Rightarrow>
      let (dragged, as) = app_drag mx my buttons (apps s); s = s\<lparr>apps := as\<rparr> in
      if dragged then (True, s, w)
      else if clicked AND MOUSE_BTN_LEFT \<noteq> 0 then
        (case click_target mx my as of
           None \<Rightarrow> (False, s, w)
         | Some i \<Rightarrow>
             if close_hit mx my (app_win (as ! i)) then (True, app_close (int i) (s, w))
             else (True, s\<lparr>apps := focus_only i (upd_app i (\<lambda>a. a\<lparr>app_win := start_drag mx my (app_win a)\<rparr>) as)\<rparr>, w))
      else (False, s, w))"

definition app_running_count :: "app_state \<Rightarrow> nat" where
  "app_running_count s = length (filter app_running (apps s))"

definition app_get_instance :: "int \<Rightarrow> app_state \<Rightarrow> app_instance option" where
  "app_get_instance index s = (if index < 0 \<or> index \<ge> int APP_MAX_RUNNING then None else Some (apps s ! nat index))"

section \<open>Drawing\<close>

text \<open>One line of the content: characters up to its end or to the right edge.\<close>

fun draw_line :: "cstr \<Rightarrow> int \<Rightarrow> int \<Rightarrow> int \<Rightarrow> draw" where
  "draw_line [] lx ty lim b = b"
| "draw_line (c # s) lx ty lim b =
     (if c = 10 \<or> c = 0 \<or> lx \<ge> lim then b
      else let (lx, b) = ui_draw_char lx ty c WIN_TEXT_COL b in draw_line s lx ty lim b)"

definition next_line :: "cstr \<Rightarrow> cstr" where
  "next_line s = (case dropWhile (\<lambda>c. c \<noteq> 10 \<and> c \<noteq> 0) s of [] \<Rightarrow> [] | c # r \<Rightarrow> if c = 10 then r else c # r)"

function draw_content :: "cstr \<Rightarrow> int \<Rightarrow> int \<Rightarrow> int \<Rightarrow> int \<Rightarrow> draw" where
  "draw_content p tx ty xlim ylim b =
     (if chr p \<noteq> 0 \<and> ty < ylim then draw_content (next_line p) tx (ty + 12) xlim ylim (draw_line p tx ty xlim b) else b)"
  by pat_completeness auto
termination by (relation "measure (\<lambda>(p, tx, ty, xlim, ylim, b). nat (ylim - ty))") auto

declare draw_content.simps [simp del]

definition draw_window :: "app_window \<Rightarrow> draw" where
  "draw_window win =
     (if \<not> win_visible win then (\<lambda>b. b)
      else
        let x = win_x win; y = win_y win; w = win_w win; h = win_h win;
            border = (if win_focused win then WIN_BORDER_COL else 0x444466);
            cx = x + w - WIN_CLOSE_SIZE - 6; cy = y + 5
        in draws [ui_fill_rect (x + 4) (y + 4) w h 0x02020A, ui_fill_rect (x + 2) (y + 2) w h 0x05050E,
                  ui_fill_rect x y w h (bg_color win), ui_draw_rect x y w h border,
                  ui_fill_rect (x + 1) (y + 1) (w - 2) WIN_TITLE_H (if win_focused win then WIN_TITLE_FOCUSED else WIN_TITLE_BG),
                  ui_hline x (y + WIN_TITLE_H) w border,
                  draw_text (x + 10) (y + 10) (win_title win) (if win_focused win then title_color win else 0x666688),
                  ui_fill_rect cx cy WIN_CLOSE_SIZE WIN_CLOSE_SIZE WIN_CLOSE_BG, ui_draw_rect cx cy WIN_CLOSE_SIZE WIN_CLOSE_SIZE 0xCC3333,
                  fold (\<lambda>i. draws [ui_put_pixel (cx + i) (cy + i) COL_WHITE, ui_put_pixel (cx + WIN_CLOSE_SIZE - 1 - i) (cy + i) COL_WHITE])
                    [3..WIN_CLOSE_SIZE - 4],
                  draw_content (win_content win) (x + 10) (y + WIN_TITLE_H + 10) (x + w - 10) (y + h - 12)])"

definition app_draw_windows :: "app_state \<Rightarrow> draw" where
  "app_draw_windows s =
     draws (map (\<lambda>a. draw_window (app_win a)) (filter (\<lambda>a. app_running a \<and> \<not> win_focused (app_win a)) (apps s)) @
            map (\<lambda>a. draw_window (app_win a)) (filter (\<lambda>a. app_running a \<and> win_focused (app_win a)) (apps s)))"

section \<open>Nothing is drawn outside the buffer\<close>

lemma inside_line [drawing]: "inside (draw_line s lx ty lim)"
proof -
  have "\<not> Ui.on_screen i \<Longrightarrow> draw_line s lx ty lim b i = b i" for b i
  proof (induction s lx ty lim b rule: draw_line.induct)
    case (2 c s lx ty lim b)
    have "\<not> Ui.on_screen i \<Longrightarrow> snd (ui_draw_char lx ty c WIN_TEXT_COL b) i = b i" using inside_char by (simp add: inside_def)
    with 2 show ?case by (auto simp: Let_def split: prod.split)
  qed simp
  then show ?thesis by (simp add: inside_def)
qed

lemma inside_content [drawing]: "inside (draw_content p tx ty xlim ylim)"
proof -
  have "\<not> Ui.on_screen i \<Longrightarrow> draw_content p tx ty xlim ylim b i = b i" for b i
  proof (induction p tx ty xlim ylim b rule: draw_content.induct)
    case (1 p tx ty xlim ylim b)
    then show ?case using inside_line by (subst draw_content.simps) (simp add: inside_def)
  qed
  then show ?thesis by (simp add: inside_def)
qed

lemma inside_window [drawing]: "inside (draw_window win)"
proof (cases "win_visible win")
  case True
  then show ?thesis unfolding draw_window_def Let_def by (simp only: not_True_eq_False if_False, intro drawing) (simp add: drawing)
qed (simp add: draw_window_def inside_id)

lemma inside_windows [drawing]: "inside (app_draw_windows s)"
  unfolding app_draw_windows_def by (intro drawing) (auto simp: list_all_iff drawing)

text \<open>The bytes of a rule in a content string are no characters of the font: each is drawn as a question mark.\<close>

lemma rule_drawn_as_question_marks: "map glyph [0xE2, 0x94, 0x80] = replicate 3 (glyph 63)"
  by (simp add: glyph_def numeral_3_eq_3)

lemma builtin_contents_fit:
  "length files_text < 512 \<and> length terminal_text < 512 \<and> length browser_text < 512 \<and> length settings_text < 512"
  by code_simp

section \<open>Where the windows are\<close>

definition win_ok :: "app_window \<Rightarrow> bool" where
  "win_ok win \<longleftrightarrow> win_w win = 420 \<and> win_h win = 300 \<and> 0 \<le> win_x win \<and> win_x win + 420 \<le> SCREEN_W \<and>
     0 \<le> win_y win \<and> win_y win + 300 \<le> TASKBAR_Y"

definition slot_ok :: "app_instance \<Rightarrow> bool" where
  "slot_ok a \<longleftrightarrow> (app_running a \<longrightarrow> win_ok (app_win a))"

definition apps_ok :: "app_state \<Rightarrow> bool" where
  "apps_ok s \<longleftrightarrow> length (apps s) = APP_MAX_RUNNING \<and> list_all slot_ok (apps s) \<and>
     120 \<le> next_win_x s \<and> next_win_x s \<le> 500 \<and> 60 \<le> next_win_y s \<and> next_win_y s \<le> 350"

lemma length_upd_app [simp]: "length (upd_app i f as) = length as" by (simp add: upd_app_def)

lemma upd_app_nth: "k < length as \<Longrightarrow> upd_app i f as ! k = (if k = i then f (as ! k) else as ! k)"
  by (auto simp: upd_app_def)

lemma list_all_update: "list_all P xs \<Longrightarrow> P x \<Longrightarrow> list_all P (xs[i := x])"
  by (cases "i < length xs") (auto simp: list_all_length nth_list_update)

lemma list_all_upd_app: "list_all P as \<Longrightarrow> (\<And>a. P a \<Longrightarrow> P (f a)) \<Longrightarrow> list_all P (upd_app i f as)"
  by (auto simp: list_all_length upd_app_nth)

lemma list_all_map_same: "list_all P as \<Longrightarrow> (\<And>a. P a \<Longrightarrow> P (f a)) \<Longrightarrow> list_all P (map f as)"
  by (simp add: list_all_iff)

lemma slot_set_focused: "slot_ok a \<Longrightarrow> slot_ok (set_focused c a)"
  by (simp add: slot_ok_def set_focused_def win_ok_def)

lemma slots_focus_only: "list_all slot_ok as \<Longrightarrow> list_all slot_ok (focus_only i as)"
  unfolding focus_only_def by (intro list_all_upd_app list_all_map_same slot_set_focused)

lemma length_focus_only [simp]: "length (focus_only i as) = length as" by (simp add: focus_only_def)

lemma win_ok_builtin: "win_ok (run_builtin f win) = win_ok win"
  by (cases f) (simp_all add: set_content_def win_ok_def)

lemma win_ok_new: "apps_ok s \<Longrightarrow> win_ok (new_window t s)"
  by (simp add: apps_ok_def new_window_def win_ok_def)

lemma launch_ok:
  assumes "apps_ok s"
  shows "apps_ok (snd (app_launch_builtin name title fn s))"
proof (cases "find_idx (\<lambda>a. app_running a \<and> strcmp (app_name a) name = 0) (apps s)")
  case (Some i)
  have "slot_ok (a\<lparr>app_win := (app_win a)\<lparr>win_visible := True\<rparr>\<rparr>)" if "slot_ok a" for a
    using that by (simp add: slot_ok_def win_ok_def)
  then have "list_all slot_ok (upd_app i (\<lambda>a. a\<lparr>app_win := (app_win a)\<lparr>win_visible := True\<rparr>\<rparr>) (focus_only i (apps s)))"
    using assms by (intro list_all_upd_app slots_focus_only) (simp_all add: apps_ok_def)
  then show ?thesis using assms Some by (simp add: app_launch_builtin_def apps_ok_def)
next
  case None
  have "list_all slot_ok (map (set_focused False) (apps s))"
    using assms by (intro list_all_map_same slot_set_focused) (simp_all add: apps_ok_def)
  then show ?thesis using None assms win_ok_new [OF assms]
    by (auto simp: app_launch_builtin_def apps_ok_def slot_ok_def Let_def win_ok_builtin
        intro!: list_all_update split: option.split)
qed

lemma find_top_Some: "find_top P xs = Some k \<Longrightarrow> k < length xs \<and> P (xs ! k)"
  unfolding find_top_def by (auto dest!: find_SomeD)

lemma close_ok:
  assumes "apps_ok s"
  shows "apps_ok (fst (app_close i (s, w)))"
proof -
  have s: "length (apps s) = APP_MAX_RUNNING" "list_all slot_ok (apps s)" using assms by (simp_all add: apps_ok_def)
  have u: "list_all slot_ok (upd_app k (set_focused True) as)" if "list_all slot_ok as" for as k
    using that by (intro list_all_upd_app slot_set_focused)
  have c: "list_all slot_ok ((apps s)[k := a\<lparr>app_pe_image := img, app_running := False, app_win := win\<rparr>])" for k a img win
    using s(2) by (rule list_all_update) (simp add: slot_ok_def)
  show ?thesis
  proof (cases "i < 0 \<or> i \<ge> int APP_MAX_RUNNING \<or> \<not> app_running (apps s ! nat i)")
    case False
    let ?a = "apps s ! nat i"
    obtain img w' where r: "(if app_type ?a = APP_TYPE_PE_EXE then pe_unload (app_pe_image ?a) w else (app_pe_image ?a, w)) = (img, w')"
      by fastforce
    let ?as = "(apps s)[nat i := ?a\<lparr>app_pe_image := img, app_running := False, app_win := (app_win ?a)\<lparr>win_visible := False\<rparr>\<rparr>]"
    have "apps_ok (s\<lparr>apps := ?as\<rparr>)" "apps_ok (s\<lparr>apps := upd_app k (set_focused True) ?as\<rparr>)" for k
      using c u [OF c] assms by (simp_all add: apps_ok_def)
    moreover have "fst (app_close i (s, w)) = s\<lparr>apps := (case find_top app_shown ?as of Some k \<Rightarrow> upd_app k (set_focused True) ?as | None \<Rightarrow> ?as)\<rparr>"
      using False unfolding app_close_def Let_def prod.case r by simp
    ultimately show ?thesis by (auto split: option.split)
  qed (use assms in \<open>simp add: app_close_def\<close>)
qed

lemma win_ok_drag: "win_ok win \<Longrightarrow> win_ok (drag_to mx my win)"
  by (simp add: win_ok_def drag_to_def Let_def)

lemma drag_ok:
  assumes "list_all slot_ok as"
  shows "list_all slot_ok (snd (app_drag mx my buttons as)) \<and> length (snd (app_drag mx my buttons as)) = length as"
  using assms
proof (induction as)
  case (Cons a as)
  then show ?case
    by (auto simp: slot_ok_def app_shown_def win_ok_drag split: prod.split) (simp add: win_ok_def)+
qed simp

lemma mouse_ok:
  assumes "apps_ok s"
  shows "apps_ok (fst (snd (app_handle_mouse mx my buttons clicked (s, w))))"
proof -
  obtain d as where d: "app_drag mx my buttons (apps s) = (d, as)" by (cases "app_drag mx my buttons (apps s)")
  have as: "list_all slot_ok as" "length as = length (apps s)"
    using drag_ok [of "apps s" mx my buttons] assms d by (auto simp: apps_ok_def)
  have s1: "apps_ok (s\<lparr>apps := as\<rparr>)" using assms as by (simp add: apps_ok_def)
  have "slot_ok (a\<lparr>app_win := start_drag mx my (app_win a)\<rparr>)" if "slot_ok a" for a
    using that by (simp add: slot_ok_def start_drag_def win_ok_def)
  then have "list_all slot_ok (focus_only i (upd_app i (\<lambda>a. a\<lparr>app_win := start_drag mx my (app_win a)\<rparr>) as))" for i
    using as by (intro slots_focus_only list_all_upd_app)
  then have "apps_ok (s\<lparr>apps := focus_only i (upd_app i (\<lambda>a. a\<lparr>app_win := start_drag mx my (app_win a)\<rparr>) as)\<rparr>)" for i
    using s1 by (simp add: apps_ok_def)
  then show ?thesis using s1 close_ok [OF s1] d by (simp add: app_handle_mouse_def Let_def split: option.split)
qed

section \<open>Focus\<close>

lemma focus_only_nth: "k < length as \<Longrightarrow> win_focused (app_win (focus_only i as ! k)) \<longleftrightarrow> k = i"
  by (simp add: focus_only_def upd_app_nth set_focused_def)

lemma find_idx_lt: "find_idx P xs = Some i \<Longrightarrow> i < length xs"
  by (auto dest: find_idx_SomeD)

text \<open>A successful start leaves the focus with exactly the window whose slot it returns.\<close>

lemma launch_focuses_one:
  assumes "app_launch_builtin name title fn s = (r, s')" "r \<noteq> - 1" "k < length (apps s)"
  shows "win_focused (app_win (apps s' ! k)) \<longleftrightarrow> int k = r"
proof -
  have "win_focused (run_builtin f win) = win_focused win" for f win by (cases f) (simp_all add: set_content_def)
  then show ?thesis using assms
    by (auto simp: app_launch_builtin_def Let_def upd_app_nth focus_only_nth set_focused_def nth_list_update new_window_def
        dest: find_idx_SomeD(1) split: option.splits if_split_asm)
qed

text \<open>Closing a window gives the focus to the top one and takes it from none: two windows can have it.\<close>

lemma close_leaves_two_focused:
  assumes "i < 8" "length (apps s) = 8" "app_running (apps s ! i)" "app_type (apps s ! i) = APP_TYPE_BUILTIN"
    and "j \<noteq> i" "j < k" "k < 8" "k \<noteq> i" "app_shown (apps s ! k)" "\<forall>m. k < m \<and> m < 8 \<longrightarrow> \<not> app_shown (apps s ! m)"
    and "win_focused (app_win (apps s ! j))" "app_close (int i) (s, w) = (s', w')"
  shows "win_focused (app_win (apps s' ! j)) \<and> win_focused (app_win (apps s' ! k))"
proof -
  let ?as = "(apps s)[i := (apps s ! i)\<lparr>app_running := False, app_win := (app_win (apps s ! i))\<lparr>win_visible := False\<rparr>\<rparr>]"
  have "find_top app_shown ?as = Some k"
    unfolding find_top_def find_Some_iff using assms
    by (intro exI [of _ "7 - k"]) (auto simp: rev_nth nth_list_update app_shown_def less_diff_conv dest!: spec [of _ "7 - _"])
  then show ?thesis using assms
    by (auto simp: app_close_def APP_MAX_RUNNING_def Let_def upd_app_nth set_focused_def)
qed

text \<open>The start of a program file touches only its own slot: the other windows keep the focus, and the next position moves on without end.\<close>

lemma exe_launch_only_slot:
  assumes "app_launch_exe path opened fbuf bytes kz (s, w) = Some (r, s', w')" "r \<noteq> - 1" "int i \<noteq> r" "i < length (apps s)"
  shows "apps s' ! i = apps s ! i \<and> next_win_x s' = next_win_x s + 30 \<and> next_win_y s' = next_win_y s + 25"
  using assms by (auto simp: app_launch_exe_def Let_def split: if_splits option.splits prod.splits)

end
