(* ===== verification/Desktop.thy ===== *)
theory Desktop
  imports App
begin

text \<open>
  The desktop (\<open>os/src/desktop.c\<close>) and the main loop over it (\<open>os/src/pinguinos.c\<close>). A \<open>desk_input\<close> is what one pass of the loop reads:
  the drained mouse events, the position and buttons after them, the drained keys, the two readings of the clock (one for a
  message that is shown, one for drawing it) and the time of day. Serial output and the pause of a frame are left out.
\<close>

definition MOUSE_BTN_RIGHT :: u8 where "MOUSE_BTN_RIGHT = push_bit 1 1"
definition KEY_ESCAPE :: u8 where "KEY_ESCAPE = 0x01"
definition ICON_TILE_W :: int where "ICON_TILE_W = 70"
definition ICON_TILE_H :: int where "ICON_TILE_H = 85"
definition ICON_START_X :: int where "ICON_START_X = 24"
definition ICON_START_Y :: int where "ICON_START_Y = 40"
definition TOAST_DURATION_MS :: u32 where "TOAST_DURATION_MS = 2500"
definition TOAST_W :: int where "TOAST_W = 260"
definition TOAST_H :: int where "TOAST_H = 36"
definition TOAST_X :: int where "TOAST_X = SCREEN_W - TOAST_W - 16"
definition TOAST_Y :: int where "TOAST_Y = TASKBAR_Y - TOAST_H - 12"
definition CTX_W :: int where "CTX_W = 160"
definition CTX_H :: int where "CTX_H = 132"
definition CTX_ITEM_H :: int where "CTX_ITEM_H = 28"
definition CTX_ITEM_COUNT :: int where "CTX_ITEM_COUNT = 4"
definition START_BTN_W :: int where "START_BTN_W = 90"
definition START_BTN_H :: int where "START_BTN_H = 30"
definition START_BTN_X :: int where "START_BTN_X = 6"
definition START_BTN_Y :: int where "START_BTN_Y = TASKBAR_Y + 5"
definition MENU_W :: int where "MENU_W = 180"
definition MENU_H :: int where "MENU_H = 200"
definition MENU_X :: int where "MENU_X = START_BTN_X"
definition MENU_Y :: int where "MENU_Y = TASKBAR_Y - MENU_H"
definition MENU_ITEM_H :: int where "MENU_ITEM_H = 44"

fun action_open :: "builtin \<Rightarrow> app_state \<Rightarrow> app_state" where
  "action_open Builtin_files s = snd (app_launch_builtin (asc ''files'') (asc ''Dateien'') (Some Builtin_files) s)"
| "action_open Builtin_terminal s = snd (app_launch_builtin (asc ''terminal'') (asc ''Terminal'') (Some Builtin_terminal) s)"
| "action_open Builtin_browser s = snd (app_launch_builtin (asc ''browser'') (asc ''Pinguin-Browser'') (Some Builtin_browser) s)"
| "action_open Builtin_settings s = snd (app_launch_builtin (asc ''settings'') (asc ''Einstellungen'') (Some Builtin_settings) s)"

record desktop_icon =
  di_x :: int
  di_y :: int
  di_label :: cstr
  di_pixels :: "u32 list"
  di_on_click :: "builtin option"
  di_selected :: bool

datatype desktop_state = DESKTOP_RUNNING | DESKTOP_LOGOUT | DESKTOP_SHUTDOWN

definition desktop_icons :: "desktop_icon list" where
  "desktop_icons =
     [\<lparr>di_x = ICON_START_X, di_y = ICON_START_Y, di_label = asc ''Dateien'', di_pixels = ICON_FOLDER,
       di_on_click = Some Builtin_files, di_selected = False\<rparr>,
      \<lparr>di_x = ICON_START_X + ICON_TILE_W, di_y = ICON_START_Y, di_label = asc ''Terminal'', di_pixels = ICON_TERMINAL,
       di_on_click = Some Builtin_terminal, di_selected = False\<rparr>,
      \<lparr>di_x = ICON_START_X, di_y = ICON_START_Y + ICON_TILE_H, di_label = asc ''Browser'', di_pixels = ICON_BROWSER,
       di_on_click = Some Builtin_browser, di_selected = False\<rparr>,
      \<lparr>di_x = ICON_START_X + ICON_TILE_W, di_y = ICON_START_Y + ICON_TILE_H, di_label = asc ''Optionen'', di_pixels = ICON_SETTINGS,
       di_on_click = Some Builtin_settings, di_selected = False\<rparr>]"

text \<open>The variables of the file, the applications, the memory of the loader, and the two buffers.\<close>

record desk =
  start_open :: bool
  icons :: "desktop_icon list"
  toast_msg :: "u8 list"
  toast_end_time :: u32
  toast_color :: u32
  ctx_open :: bool
  ctx_x :: int
  ctx_y :: int
  dk_apps :: app_state
  dk_world :: pe_world
  back_buf :: buf
  frame_buf :: buf

definition desk_boot :: "pe_world \<Rightarrow> buf \<Rightarrow> buf \<Rightarrow> desk" where
  "desk_boot w back front =
     \<lparr>start_open = False, icons = desktop_icons, toast_msg = replicate 64 0, toast_end_time = 0, toast_color = COL_ACCENT,
      ctx_open = False, ctx_x = 0, ctx_y = 0, dk_apps = app_init, dk_world = w, back_buf = back, frame_buf = front\<rparr>"

section \<open>Messages\<close>

definition toast_show :: "cstr \<Rightarrow> u32 \<Rightarrow> u32 \<Rightarrow> desk \<Rightarrow> desk" where
  "toast_show msg colour now s =
     s\<lparr>toast_msg := strncpy msg 63 @ [0], toast_end_time := now + TOAST_DURATION_MS, toast_color := colour\<rparr>"

definition draw_toast :: "u32 \<Rightarrow> desk \<Rightarrow> draw" where
  "draw_toast now s =
     (if toast_end_time s = 0 \<or> now > toast_end_time s then (\<lambda>b. b)
      else draws [ui_fill_rect (TOAST_X - 2) (TOAST_Y - 2) (TOAST_W + 4) (TOAST_H + 4) 0x05050E,
                  ui_fill_rect TOAST_X TOAST_Y TOAST_W TOAST_H COL_PANEL2, ui_draw_rect TOAST_X TOAST_Y TOAST_W TOAST_H (toast_color s),
                  ui_fill_rect TOAST_X TOAST_Y 3 TOAST_H (toast_color s), draw_text (TOAST_X + 12) (TOAST_Y + 14) (toast_msg s) COL_WHITE])"

section \<open>Context menu\<close>

definition ctx_items :: "cstr list" where
  "ctx_items = [asc ''Aktualisieren'', asc ''Neuer Ordner'', asc ''Terminal hier'', asc ''Info anzeigen'']"

definition draw_context_menu :: "int \<Rightarrow> int \<Rightarrow> desk \<Rightarrow> draw" where
  "draw_context_menu mx my s =
     (if \<not> ctx_open s then (\<lambda>b. b)
      else draws [ui_fill_rect (ctx_x s + 3) (ctx_y s + 3) CTX_W CTX_H 0x02020A, ui_fill_rect (ctx_x s) (ctx_y s) CTX_W CTX_H COL_PANEL,
                  ui_draw_rect (ctx_x s) (ctx_y s) CTX_W CTX_H COL_ACCENT_DIM,
                  fold (\<lambda>i. let iy = ctx_y s + 6 + i * CTX_ITEM_H; hover = hit mx my (ctx_x s) iy CTX_W CTX_ITEM_H
                      in draws [draw_if hover (ui_fill_rect (ctx_x s + 2) iy (CTX_W - 4) CTX_ITEM_H COL_HOVER),
                                draw_text (ctx_x s + 14) (iy + 10) (ctx_items ! nat i) (if hover then COL_ACCENT else COL_WHITE),
                                draw_if (i < CTX_ITEM_COUNT - 1) (ui_hline (ctx_x s + 8) (iy + CTX_ITEM_H - 1) (CTX_W - 16) COL_SEPARATOR)])
                    [0..CTX_ITEM_COUNT - 1]])"

definition ctx_hit_test :: "int \<Rightarrow> int \<Rightarrow> desk \<Rightarrow> int" where
  "ctx_hit_test mx my s =
     (if \<not> ctx_open s then - 1
      else if mx < ctx_x s \<or> mx \<ge> ctx_x s + CTX_W then - 1
      else case find (\<lambda>i. let iy = ctx_y s + 6 + i * CTX_ITEM_H in my \<ge> iy \<and> my < iy + CTX_ITEM_H) [0..CTX_ITEM_COUNT - 1] of
             Some i \<Rightarrow> i | None \<Rightarrow> - 1)"

section \<open>Task bar\<close>

definition draw_tab :: "int \<Rightarrow> app_instance \<Rightarrow> draw" where
  "draw_tab tab_x inst =
     (let focused = win_focused (app_win inst)
      in draws [ui_fill_rect tab_x (TASKBAR_Y + 8) 100 24 (if focused then 0x1A1A30 else COL_PANEL2),
                ui_draw_rect tab_x (TASKBAR_Y + 8) 100 24 (if focused then COL_ACCENT_DIM else COL_DARK_GRAY),
                draw_text (tab_x + 6) (TASKBAR_Y + 16) (strncpy (win_title (app_win inst)) 13 @ [0]) (if focused then COL_ACCENT else COL_GRAY)])"

fun draw_tabs :: "app_instance list \<Rightarrow> int \<Rightarrow> draw" where
  "draw_tabs [] tab_x b = b"
| "draw_tabs (inst # insts) tab_x b =
     (if \<not> app_running inst then draw_tabs insts tab_x b
      else let b = draw_tab tab_x inst b; tab_x = tab_x + 100 + 4
           in if tab_x > SCREEN_W - 250 then b else draw_tabs insts tab_x b)"

text \<open>A small picture whose transparent pixels take the colour of the background.\<close>

definition draw_small_icon :: "int \<Rightarrow> int \<Rightarrow> u32 list \<Rightarrow> u32 \<Rightarrow> draw" where
  "draw_small_icon x y pixels bg =
     fold (\<lambda>row. fold (\<lambda>col. let c = pixels ! (row * 10 + col) in ui_put_pixel (x + int col) (y + int row) (if c = 0 then bg else c)) [0..<10]) [0..<10]"

definition draw_taskbar :: "cstr \<Rightarrow> bool \<Rightarrow> rtc_time \<Rightarrow> app_state \<Rightarrow> draw" where
  "draw_taskbar username op t as =
     (let sbg = (if op then COL_ACCENT else COL_PANEL2); stx = (if op then COL_BTN_TEXT else COL_ACCENT);
          timebuf = snprintf_text 16 (asc ''%02u:%02u'') [AInt (ucast (rt_hour t)), AInt (ucast (rt_minute t))];
          twid = text_width timebuf; ulen = text_width username
      in draws [ui_fill_rect 0 TASKBAR_Y SCREEN_W TASKBAR_H COL_PANEL, ui_hline 0 TASKBAR_Y SCREEN_W COL_ACCENT,
                ui_fill_rect START_BTN_X START_BTN_Y START_BTN_W START_BTN_H sbg,
                ui_draw_rect START_BTN_X START_BTN_Y START_BTN_W START_BTN_H COL_ACCENT_DIM,
                draw_small_icon (START_BTN_X + 5) (START_BTN_Y + 10) ICON_PENGUIN sbg,
                draw_text (START_BTN_X + 18) (START_BTN_Y + 11) (asc ''Start'') stx,
                draw_tabs (apps as) (START_BTN_X + START_BTN_W + 10),
                draw_text (SCREEN_W - twid - 14) (TASKBAR_Y + 14) timebuf COL_ACCENT,
                draw_text (SCREEN_W - twid - ulen - 28) (TASKBAR_Y + 14) username COL_GRAY,
                draw_text (SCREEN_W - twid - ulen - 30) (TASKBAR_Y + 14) (asc ''|'') COL_SEPARATOR])"

section \<open>Start menu\<close>

datatype menu_action = MENU_NONE | MENU_LOGOUT | MENU_SHUTDOWN | MENU_ABOUT

definition menu_items :: "(int \<times> cstr \<times> u32 list) list" where
  "menu_items = [(0, asc ''Uber PinguinOS'', ICON_INFO), (1, asc ''Einstellungen'', ICON_SETTINGS), (2, asc ''Abmelden'', ICON_USER),
     (3, asc ''Herunterfahren'', ICON_POWER)]"

definition menu_head :: draw where
  "menu_head =
     draws [ui_draw_shadow_box MENU_X MENU_Y MENU_W MENU_H, ui_fill_rect MENU_X MENU_Y MENU_W 30 0x0A0A18,
            ui_hline MENU_X (MENU_Y + 30) MENU_W COL_ACCENT, ui_draw_text_centered MENU_X (MENU_Y + 8) MENU_W 14 (asc ''PinguinOS'') COL_ACCENT]"

definition menu_hover :: "int \<Rightarrow> int \<Rightarrow> int \<Rightarrow> bool" where
  "menu_hover mx my i = hit mx my MENU_X (MENU_Y + 34 + i * MENU_ITEM_H) MENU_W MENU_ITEM_H"

definition draw_menu_item :: "int \<Rightarrow> cstr \<Rightarrow> u32 list \<Rightarrow> bool \<Rightarrow> draw" where
  "draw_menu_item i label icon hover =
     (let iy = MENU_Y + 34 + i * MENU_ITEM_H; bg = (if hover then COL_HOVER else COL_PANEL)
      in draws [ui_fill_rect (MENU_X + 1) iy (MENU_W - 2) (MENU_ITEM_H - 1) bg, draw_small_icon (MENU_X + 8) (iy + 17) icon bg,
                draw_text (MENU_X + 24) (iy + 18) label (if hover then COL_ACCENT else COL_WHITE),
                ui_hline (MENU_X + 8) (iy + MENU_ITEM_H - 1) (MENU_W - 16) COL_SEPARATOR])"

text \<open>The loop over the items: it ends at the one that is clicked, which it returns.\<close>

fun draw_menu_items :: "int \<Rightarrow> int \<Rightarrow> bool \<Rightarrow> (int \<times> cstr \<times> u32 list) list \<Rightarrow> buf \<Rightarrow> int option \<times> buf" where
  "draw_menu_items mx my clicked [] b = (None, b)"
| "draw_menu_items mx my clicked ((i, label, icon) # items) b =
     (let b = draw_menu_item i label icon (menu_hover mx my i) b
      in if clicked \<and> menu_hover mx my i then (Some i, b) else draw_menu_items mx my clicked items b)"

definition draw_menu_and_hit :: "int \<Rightarrow> int \<Rightarrow> bool \<Rightarrow> u32 \<Rightarrow> desk \<Rightarrow> menu_action \<times> desk" where
  "draw_menu_and_hit mx my clicked now s =
     (let (i, b) = draw_menu_items mx my clicked menu_items (menu_head (back_buf s)); s = s\<lparr>back_buf := b\<rparr> in
      if i = Some 0 then (MENU_NONE, toast_show (asc ''PinguinOS 2.3  |  x86-32  |  PE-Support'') COL_ACCENT now s)
      else if i = Some 1 then (MENU_NONE, s\<lparr>dk_apps := action_open Builtin_settings (dk_apps s)\<rparr>)
      else if i = Some 2 then (MENU_LOGOUT, s)
      else if i = Some 3 then (MENU_SHUTDOWN, s)
      else (MENU_NONE, s))"

section \<open>Background and pointer\<close>

definition draw_wallpaper :: draw where
  "draw_wallpaper =
     draws [ui_clear COL_BG, ui_fill_rect 0 0 SCREEN_W 4 COL_ACCENT, ui_hline 0 5 SCREEN_W COL_ACCENT_DIM,
            fold (\<lambda>k. ui_vline (int k * 80) 8 (TASKBAR_Y - 8) 0x0C0C1A) [0..<16],
            fold (\<lambda>k. ui_hline 0 (50 + int k * 80) SCREEN_W 0x0C0C1A) [0..<8],
            draw_text (SCREEN_W div 2 - 50) (SCREEN_H div 2 - 4) (asc ''PinguinOS 2.3'') 0x111122]"

definition draw_cursor :: "int \<Rightarrow> int \<Rightarrow> draw" where
  "draw_cursor x y =
     draws [fold (\<lambda>i. draws [ui_put_pixel x (y + i) COL_WHITE, ui_put_pixel (x + i) (y + i) COL_WHITE]) [0..11],
            fold (\<lambda>i. ui_put_pixel (x + 6 + i) (y + 6 + i) COL_WHITE) [0..5],
            fold (\<lambda>i. draws [ui_put_pixel (x - 1) (y + i) 0, ui_put_pixel (x + 1) (y + i) 0x0A0A0A, ui_put_pixel (x + i + 1) (y + i) 0x0A0A0A]) [0..11]]"

section \<open>A frame\<close>

record desk_input =
  in_events :: "mouse_event list"
  in_x :: int
  in_y :: int
  in_buttons :: u8
  in_keys :: "kbd_event list"
  in_now_show :: u32
  in_now_draw :: u32
  in_time :: rtc_time

definition last_clicked :: "desk_input \<Rightarrow> u8" where
  "last_clicked f = fold (\<lambda>me c. c OR me_clicked me) (in_events f) 0"

definition desk_key :: "kbd_event \<Rightarrow> desk \<Rightarrow> desk" where
  "desk_key ke s = (if \<not> ev_released ke \<and> ev_scancode ke = KEY_ESCAPE then s\<lparr>start_open := False, ctx_open := False\<rparr> else s)"

definition icon_hit :: "int \<Rightarrow> int \<Rightarrow> desktop_icon \<Rightarrow> bool" where
  "icon_hit mx my d = hit mx my (di_x d) (di_y d) ICON_TILE_W ICON_TILE_H"

definition desk_right_click :: "desk_input \<Rightarrow> desk \<Rightarrow> desk" where
  "desk_right_click f s =
     (if last_clicked f AND MOUSE_BTN_RIGHT \<noteq> 0 \<and> \<not> start_open s \<and> \<not> list_ex (icon_hit (in_x f) (in_y f)) (icons s) \<and> in_y f < TASKBAR_Y then
        s\<lparr>ctx_open := True, ctx_x := (if in_x f + CTX_W > SCREEN_W then SCREEN_W - CTX_W else in_x f),
          ctx_y := (if in_y f + CTX_H > TASKBAR_Y then TASKBAR_Y - CTX_H else in_y f)\<rparr>
      else s)"

definition ctx_choose :: "int \<Rightarrow> u32 \<Rightarrow> desk \<Rightarrow> desk" where
  "ctx_choose h now s =
     (if h = 0 then toast_show (asc ''Desktop aktualisiert'') COL_SUCCESS now s
      else if h = 1 then toast_show (asc ''Ordner erstellt'') COL_ACCENT now s
      else if h = 2 then s\<lparr>dk_apps := action_open Builtin_terminal (dk_apps s)\<rparr>
      else if h = 3 then toast_show (asc ''PinguinOS 2.3  |  PE/EXE Support'') COL_ACCENT now s
      else s)"

definition desk_ctx_click :: "desk_input \<Rightarrow> bool \<Rightarrow> desk \<Rightarrow> bool \<times> desk" where
  "desk_ctx_click f clicked s =
     (if clicked \<and> ctx_open s then
        (let h = ctx_hit_test (in_x f) (in_y f) s; s = s\<lparr>ctx_open := False\<rparr>
         in if h \<ge> 0 then (False, ctx_choose h (in_now_show f) s) else (clicked, s))
      else (clicked, s))"

definition desk_windows :: "desk_input \<Rightarrow> bool \<Rightarrow> desk \<Rightarrow> bool \<times> desk" where
  "desk_windows f clicked s =
     (let (taken, a, w) = app_handle_mouse (in_x f) (in_y f) (in_buttons f) (last_clicked f) (dk_apps s, dk_world s)
      in (clicked \<and> \<not> taken, s\<lparr>dk_apps := a, dk_world := w\<rparr>))"

definition on_start_btn :: "desk_input \<Rightarrow> bool" where
  "on_start_btn f = hit (in_x f) (in_y f) START_BTN_X START_BTN_Y START_BTN_W START_BTN_H"

definition desk_start :: "desk_input \<Rightarrow> bool \<Rightarrow> desk \<Rightarrow> bool \<times> desk" where
  "desk_start f clicked s =
     (let (clicked, s) = (if clicked \<and> on_start_btn f then (False, s\<lparr>start_open := \<not> start_open s\<rparr>) else (clicked, s))
      in (clicked,
          if clicked \<and> start_open s \<and> \<not> hit (in_x f) (in_y f) MENU_X MENU_Y MENU_W MENU_H \<and> \<not> on_start_btn f
          then s\<lparr>start_open := False\<rparr> else s))"

definition select_only :: "nat \<Rightarrow> desktop_icon list \<Rightarrow> desktop_icon list" where
  "select_only i ds = (let ds = map (\<lambda>d. d\<lparr>di_selected := False\<rparr>) ds in ds[i := (ds ! i)\<lparr>di_selected := True\<rparr>])"

definition desk_icons :: "desk_input \<Rightarrow> bool \<Rightarrow> desk \<Rightarrow> bool \<times> desk" where
  "desk_icons f clicked s =
     (if clicked \<and> \<not> start_open s then
        (case find_idx (icon_hit (in_x f) (in_y f)) (icons s) of
           Some i \<Rightarrow>
             (let s = s\<lparr>icons := select_only i (icons s)\<rparr>
              in (False, case di_on_click (icons s ! i) of
                           Some act \<Rightarrow> toast_show (di_label (icons s ! i)) COL_ACCENT (in_now_show f) (s\<lparr>dk_apps := action_open act (dk_apps s)\<rparr>)
                         | None \<Rightarrow> s))
         | None \<Rightarrow> (clicked, s\<lparr>icons := map (\<lambda>d. d\<lparr>di_selected := False\<rparr>) (icons s)\<rparr>))
      else (clicked, s))"

text \<open>The events of a frame: whether the click is left for the menu, and the state.\<close>

definition desk_events :: "desk_input \<Rightarrow> desk \<Rightarrow> bool \<times> desk" where
  "desk_events f s =
     (let s = desk_right_click f (fold desk_key (in_keys f) s);
          (clicked, s) = desk_ctx_click f (last_clicked f AND MOUSE_BTN_LEFT \<noteq> 0) s;
          (clicked, s) = desk_windows f clicked s;
          (clicked, s) = desk_start f clicked s
      in desk_icons f clicked s)"

definition on_back :: "draw \<Rightarrow> desk \<Rightarrow> desk" where "on_back d s = s\<lparr>back_buf := d (back_buf s)\<rparr>"

text \<open>What is drawn below the start menu, and above it.\<close>

definition desk_scene :: "cstr \<Rightarrow> desk_input \<Rightarrow> desk \<Rightarrow> draw" where
  "desk_scene username f s =
     draws [draw_wallpaper, fold (\<lambda>d. ui_draw_icon_tile (di_x d) (di_y d) (di_pixels d) (di_label d) (di_selected d)) (icons s),
            app_draw_windows (dk_apps s), draw_taskbar username (start_open s) (in_time f) (dk_apps s)]"

definition desk_overlay :: "desk_input \<Rightarrow> desk \<Rightarrow> draw" where
  "desk_overlay f s = draws [draw_context_menu (in_x f) (in_y f) s, draw_toast (in_now_draw f) s, draw_cursor (in_x f) (in_y f)]"

definition desk_frame :: "cstr \<Rightarrow> desk_input \<Rightarrow> desk \<Rightarrow> desktop_state \<times> desk" where
  "desk_frame username f s =
     (let (clicked, s) = desk_events f s;
          s = on_back (desk_scene username f s) s;
          (act, s) = (if start_open s then draw_menu_and_hit (in_x f) (in_y f) clicked (in_now_show f) s else (MENU_NONE, s));
          s = on_back (desk_overlay f s) s
      in (if act = MENU_LOGOUT then DESKTOP_LOGOUT else if act = MENU_SHUTDOWN then DESKTOP_SHUTDOWN else DESKTOP_RUNNING,
          s\<lparr>frame_buf := ui_flip (back_buf s) (frame_buf s)\<rparr>))"

text \<open>The loop over the frames still to come; \<open>DESKTOP_RUNNING\<close> when they end first.\<close>

fun desk_loop :: "cstr \<Rightarrow> desk_input list \<Rightarrow> desk \<Rightarrow> desktop_state \<times> desk" where
  "desk_loop username [] s = (DESKTOP_RUNNING, s)"
| "desk_loop username (f # fs) s =
     (let (r, s) = desk_frame username f s in if r = DESKTOP_RUNNING then desk_loop username fs s else (r, s))"

definition desktop_run :: "os_user \<Rightarrow> desk_input list \<Rightarrow> desk \<Rightarrow> desktop_state \<times> desk" where
  "desktop_run user fs s = desk_loop (u_username user) fs (s\<lparr>start_open := False, dk_apps := app_init\<rparr>)"

section \<open>Nothing is drawn outside the buffer\<close>

lemma inside_toast [drawing]: "inside (draw_toast now s)"
proof (cases "toast_end_time s = 0 \<or> now > toast_end_time s")
  case False
  then show ?thesis unfolding draw_toast_def by (simp only: if_False, intro drawing) (simp add: drawing)
qed (simp add: draw_toast_def inside_id)

lemma inside_context_menu [drawing]: "inside (draw_context_menu mx my s)"
proof -
  have "inside (draws [draw_if hover (ui_fill_rect x y w h c), draw_text x' y' t c', draw_if last (ui_hline x'' y'' w' c'')])"
    for hover x y w h c x' y' t c' last x'' y'' w' c'' by (intro drawing) (simp add: drawing)
  then show ?thesis
    by (cases "ctx_open s") (auto simp: draw_context_menu_def Let_def drawing inside_id intro!: inside_draws inside_fold)
qed

lemma inside_tab: "inside (draw_tab x a)"
  unfolding draw_tab_def Let_def by (intro drawing) (simp add: drawing)

lemma inside_tabs [drawing]: "inside (draw_tabs as x)"
proof -
  have "\<not> Ui.on_screen i \<Longrightarrow> draw_tabs as x b i = b i" for b i
    using inside_tab by (induction as x b rule: draw_tabs.induct) (simp_all add: inside_def Let_def)
  then show ?thesis by (simp add: inside_def)
qed

lemma inside_small_icon [drawing]: "inside (draw_small_icon x y pixels bg)"
  unfolding draw_small_icon_def Let_def by (intro drawing)

lemma inside_taskbar [drawing]: "inside (draw_taskbar u op t as)"
  unfolding draw_taskbar_def Let_def by (intro drawing) (simp add: drawing)

lemma inside_menu_head [drawing]: "inside menu_head"
  unfolding menu_head_def by (intro drawing) (simp add: drawing)

lemma inside_menu_item: "inside (draw_menu_item i label icon hover)"
  unfolding draw_menu_item_def Let_def by (intro drawing) (simp add: drawing)

lemma inside_menu_items: "\<not> Ui.on_screen i \<Longrightarrow> snd (draw_menu_items mx my clicked items b) i = b i"
  using inside_menu_item by (induction mx my clicked items b rule: draw_menu_items.induct) (simp_all add: inside_def Let_def)

lemma inside_wallpaper [drawing]: "inside draw_wallpaper"
  unfolding draw_wallpaper_def by (intro drawing) (simp add: drawing)

lemma inside_cursor [drawing]: "inside (draw_cursor x y)"
  unfolding draw_cursor_def by (intro drawing) (auto simp: drawing intro!: inside_fold inside_draws)

section \<open>The events leave the buffers alone\<close>

lemma toast_show_keeps [simp]:
  "back_buf (toast_show m c n s) = back_buf s" "frame_buf (toast_show m c n s) = frame_buf s" "dk_apps (toast_show m c n s) = dk_apps s"
  "start_open (toast_show m c n s) = start_open s" "icons (toast_show m c n s) = icons s"
  by (simp_all add: toast_show_def)

lemma desk_keys:
  "fold desk_key ks s = (if list_ex (\<lambda>k. \<not> ev_released k \<and> ev_scancode k = KEY_ESCAPE) ks then s\<lparr>start_open := False, ctx_open := False\<rparr> else s)"
  by (induction ks arbitrary: s) (auto simp: desk_key_def)

lemma right_click_keeps [simp]:
  "back_buf (desk_right_click f s) = back_buf s" "frame_buf (desk_right_click f s) = frame_buf s" "dk_apps (desk_right_click f s) = dk_apps s" "start_open (desk_right_click f s) = start_open s"
  "start_open s \<Longrightarrow> desk_right_click f s = s"
  by (simp_all add: desk_right_click_def)

lemma ctx_choose_keeps [simp]: "back_buf (ctx_choose h n s) = back_buf s" "frame_buf (ctx_choose h n s) = frame_buf s" "start_open (ctx_choose h n s) = start_open s"
  by (simp_all add: ctx_choose_def)

lemma ctx_click_keeps [simp]:
  "back_buf (snd (desk_ctx_click f c s)) = back_buf s" "frame_buf (snd (desk_ctx_click f c s)) = frame_buf s"
  "start_open (snd (desk_ctx_click f c s)) = start_open s"
  by (simp_all add: desk_ctx_click_def Let_def)

lemma windows_keep [simp]:
  "back_buf (snd (desk_windows f c s)) = back_buf s" "frame_buf (snd (desk_windows f c s)) = frame_buf s"
  "start_open (snd (desk_windows f c s)) = start_open s"
  by (simp_all add: desk_windows_def split: prod.split)

lemma start_keeps [simp]: "back_buf (snd (desk_start f c s)) = back_buf s" "frame_buf (snd (desk_start f c s)) = frame_buf s"
  "dk_apps (snd (desk_start f c s)) = dk_apps s"
  by (simp_all add: desk_start_def Let_def)

lemma icons_keep [simp]: "back_buf (snd (desk_icons f c s)) = back_buf s" "frame_buf (snd (desk_icons f c s)) = frame_buf s"
  "start_open (snd (desk_icons f c s)) = start_open s"
  by (simp_all add: desk_icons_def Let_def split: option.split)

lemma desk_events_eq:
  "desk_events f s =
     (let s1 = desk_right_click f (fold desk_key (in_keys f) s); r1 = desk_ctx_click f (last_clicked f AND MOUSE_BTN_LEFT \<noteq> 0) s1;
          r2 = desk_windows f (fst r1) (snd r1); r3 = desk_start f (fst r2) (snd r2)
      in desk_icons f (fst r3) (snd r3))"
  by (simp add: desk_events_def Let_def split: prod.split)

lemma events_keep: "back_buf (snd (desk_events f s)) = back_buf s" "frame_buf (snd (desk_events f s)) = frame_buf s"
  by (simp_all add: desk_events_eq Let_def desk_keys)

text \<open>A frame, from the events on.\<close>

lemma menu_result:
  "fst (draw_menu_and_hit mx my c now s) =
     (if c \<and> menu_hover mx my 2 then MENU_LOGOUT else if c \<and> menu_hover mx my 3 then MENU_SHUTDOWN else MENU_NONE)"
  by (auto simp: draw_menu_and_hit_def menu_items_def Let_def menu_hover_def hit_def MENU_ITEM_H_def)

lemma on_back_keeps [simp]:
  "start_open (on_back d s) = start_open s" "dk_apps (on_back d s) = dk_apps s" "frame_buf (on_back d s) = frame_buf s" "back_buf (on_back d s) = d (back_buf s)"
  by (simp_all add: on_back_def)

lemma desk_frame_result:
  "fst (desk_frame u f s) =
     (let (c, s') = desk_events f s in
      if start_open s' \<and> c \<and> menu_hover (in_x f) (in_y f) 2 then DESKTOP_LOGOUT
      else if start_open s' \<and> c \<and> menu_hover (in_x f) (in_y f) 3 then DESKTOP_SHUTDOWN else DESKTOP_RUNNING)"
  by (cases "desk_events f s") (simp add: desk_frame_def Let_def case_prod_unfold menu_result)

text \<open>The click reaches the open menu past the context menu, the windows and the start button.\<close>

definition menu_click :: "desk_input \<Rightarrow> desk \<Rightarrow> bool" where
  "menu_click f s \<longleftrightarrow> start_open s \<and> \<not> list_ex (\<lambda>k. \<not> ev_released k \<and> ev_scancode k = KEY_ESCAPE) (in_keys f) \<and>
     last_clicked f AND MOUSE_BTN_LEFT \<noteq> 0 \<and> \<not> (ctx_open s \<and> ctx_hit_test (in_x f) (in_y f) s \<ge> 0) \<and>
     \<not> fst (app_handle_mouse (in_x f) (in_y f) (in_buttons f) (last_clicked f) (dk_apps s, dk_world s)) \<and>
     hit (in_x f) (in_y f) MENU_X MENU_Y MENU_W MENU_H"

lemma ctx_click_clicked:
  "fst (desk_ctx_click f c s) \<longleftrightarrow> c \<and> \<not> (ctx_open s \<and> ctx_hit_test (in_x f) (in_y f) s \<ge> 0)"
  "fst (desk_ctx_click f c s) \<Longrightarrow> dk_apps (snd (desk_ctx_click f c s)) = dk_apps s \<and> dk_world (snd (desk_ctx_click f c s)) = dk_world s"
  by (auto simp: desk_ctx_click_def Let_def split: if_splits)

lemma windows_clicked:
  "fst (desk_windows f c s) \<longleftrightarrow>
     c \<and> \<not> fst (app_handle_mouse (in_x f) (in_y f) (in_buttons f) (last_clicked f) (dk_apps s, dk_world s))"
  by (simp add: desk_windows_def split: prod.split)

lemma start_clicked:
  "fst (desk_start f c s) \<and> start_open (snd (desk_start f c s)) \<longleftrightarrow>
     c \<and> start_open s \<and> hit (in_x f) (in_y f) MENU_X MENU_Y MENU_W MENU_H"
  by (auto simp: desk_start_def Let_def on_start_btn_def hit_def START_BTN_Y_def MENU_Y_def MENU_H_def)

lemma icons_clicked: "fst (desk_icons f c s) \<and> start_open (snd (desk_icons f c s)) \<longleftrightarrow> c \<and> start_open s"
  by (auto simp: desk_icons_def Let_def split: option.split)

lemma menu_click_reaches:
  "fst (desk_events f s) \<and> start_open (snd (desk_events f s)) \<longleftrightarrow> menu_click f s"
proof (cases "start_open s \<and> \<not> list_ex (\<lambda>k. \<not> ev_released k \<and> ev_scancode k = KEY_ESCAPE) (in_keys f)")
  case True
  then have "desk_right_click f (fold desk_key (in_keys f) s) = s" by (simp add: desk_keys)
  then show ?thesis using True ctx_click_clicked [of f "last_clicked f AND MOUSE_BTN_LEFT \<noteq> 0" s]
    unfolding desk_events_eq Let_def icons_clicked start_clicked windows_clicked menu_click_def by auto
next
  case False
  then have "\<not> start_open (fold desk_key (in_keys f) s)" by (auto simp: desk_keys)
  then show ?thesis using False unfolding desk_events_eq Let_def icons_clicked start_clicked menu_click_def by simp
qed

text \<open>
  C33: The desktop is left exactly by a left click on the open start menu: on the entry "Abmelden" to log out, on the part of "Herunterfahren"
  above the task bar to shut down; no key, no other click and no click on a window or the context menu ends it.
\<close>

theorem desktop_left_by_menu:
  "fst (desk_frame u f s) =
     (if menu_click f s \<and> MENU_Y + 122 \<le> in_y f \<and> in_y f < MENU_Y + 166 then DESKTOP_LOGOUT
      else if menu_click f s \<and> MENU_Y + 166 \<le> in_y f \<and> in_y f < TASKBAR_Y then DESKTOP_SHUTDOWN
      else DESKTOP_RUNNING)"
proof -
  obtain c s' where e: "desk_events f s = (c, s')" by fastforce
  have m: "c \<and> start_open s' \<longleftrightarrow> menu_click f s" using menu_click_reaches [of f s] e by simp
  have "menu_hover (in_x f) (in_y f) 2 \<longleftrightarrow> MENU_Y + 122 \<le> in_y f \<and> in_y f < MENU_Y + 166"
    "menu_hover (in_x f) (in_y f) 3 \<longleftrightarrow> MENU_Y + 166 \<le> in_y f \<and> in_y f < TASKBAR_Y" if "menu_click f s"
    using that by (auto simp: menu_click_def menu_hover_def hit_def MENU_ITEM_H_def MENU_Y_def MENU_H_def)
  then show ?thesis using m by (auto simp: desk_frame_result e)
qed

section \<open>The picture\<close>

lemma menu_keeps_off_screen:
  "\<not> Ui.on_screen i \<Longrightarrow> back_buf (snd (draw_menu_and_hit mx my c n s)) i = back_buf s i"
  using inside_menu_items inside_menu_head by (simp add: draw_menu_and_hit_def case_prod_unfold Let_def inside_def)

lemma inside_scene: "inside (desk_scene u f s)"
  unfolding desk_scene_def by (intro drawing) (simp add: drawing)

lemma inside_overlay: "inside (desk_overlay f s)"
  unfolding desk_overlay_def by (intro drawing) (simp add: drawing)

lemma desk_frame_inside: "\<not> Ui.on_screen i \<Longrightarrow> back_buf (snd (desk_frame u f s)) i = back_buf s i"
  using events_keep [of f s] inside_scene inside_overlay menu_keeps_off_screen
  by (cases "desk_events f s") (simp add: desk_frame_def Let_def case_prod_unfold inside_def)

lemma menu_keeps_frame_buf: "frame_buf (snd (draw_menu_and_hit mx my c n s)) = frame_buf s"
  by (simp add: draw_menu_and_hit_def case_prod_unfold Let_def)

lemma ui_flip_eq: "ui_flip g fb = (\<lambda>i. if Ui.on_screen i then g i else fb i)"
proof -
  have "fold (\<lambda>i fb. fb(i := g i)) ks fb = (\<lambda>i. if i \<in> set ks then g i else fb i)" for ks
    by (induction ks arbitrary: fb) auto
  then show ?thesis by (auto simp: ui_flip_def Ui.on_screen_def fun_eq_iff)
qed

text \<open>
  C35: A frame of the desktop shows its picture and touches nothing else: afterwards the frame buffer is the back buffer on the screen and
  unchanged outside of it, and no word outside the back buffer was written, wherever windows, icons, menus and the pointer are.
\<close>

theorem desk_frame_shows:
  "frame_buf (snd (desk_frame u f s)) = (\<lambda>i. if Ui.on_screen i then back_buf (snd (desk_frame u f s)) i else frame_buf s i) \<and>
   (\<forall>i. Ui.on_screen i \<or> back_buf (snd (desk_frame u f s)) i = back_buf s i)"
proof -
  have "frame_buf (snd (desk_frame u f s)) = ui_flip (back_buf (snd (desk_frame u f s))) (frame_buf s)"
    using events_keep(2) [of f s] menu_keeps_frame_buf
    by (cases "desk_events f s") (simp add: desk_frame_def Let_def case_prod_unfold)
  then show ?thesis using desk_frame_inside by (auto simp: ui_flip_eq)
qed

section \<open>The windows\<close>

lemma action_ok: "apps_ok s \<Longrightarrow> apps_ok (action_open a s)"
  by (cases a) (simp_all add: launch_ok)

lemma desk_events_ok:
  assumes "apps_ok (dk_apps s)"
  shows "apps_ok (dk_apps (snd (desk_events f s)))"
proof -
  have k: "apps_ok (dk_apps (desk_right_click f (fold desk_key (in_keys f) s)))" using assms by (simp add: desk_keys)
  have c: "apps_ok (dk_apps (snd (desk_ctx_click f c s)))" if "apps_ok (dk_apps s)" for c s
    using that action_ok [of "dk_apps s" Builtin_terminal]
    by (simp add: desk_ctx_click_def ctx_choose_def Let_def del: action_open.simps)
  have w: "apps_ok (dk_apps (snd (desk_windows f c s)))" if "apps_ok (dk_apps s)" for c s
    using mouse_ok [OF that] by (simp add: desk_windows_def case_prod_unfold Let_def)
  have i: "apps_ok (dk_apps (snd (desk_icons f c s)))" if "apps_ok (dk_apps s)" for c s
    using that action_ok by (auto simp: desk_icons_def Let_def split: option.split)
  show ?thesis unfolding desk_events_eq Let_def start_keeps by (intro i w c k | simp only: start_keeps)+
qed

lemma menu_ok: "apps_ok (dk_apps s) \<Longrightarrow> apps_ok (dk_apps (snd (draw_menu_and_hit mx my c n s)))"
  by (simp add: draw_menu_and_hit_def case_prod_unfold Let_def action_ok del: action_open.simps)

lemma desk_frame_ok: "apps_ok (dk_apps s) \<Longrightarrow> apps_ok (dk_apps (snd (desk_frame u f s)))"
  using desk_events_ok [of s f] menu_ok
  by (cases "desk_events f s") (simp add: desk_frame_def Let_def case_prod_unfold)

lemma app_init_ok: "apps_ok app_init"
  by (simp add: apps_ok_def app_init_def slot_ok_def app_zero_def list_all_iff)

lemma desk_loop_ok: "apps_ok (dk_apps s) \<Longrightarrow> apps_ok (dk_apps (snd (desk_loop u fs s)))"
  by (induction fs arbitrary: s) (simp_all add: Let_def case_prod_unfold desk_frame_ok)

text \<open>
  C34: Whatever the user does, every open window of the desktop stays whole on the screen above the task bar, with its full size: after
  any frames, starting windows, moving, closing and choosing from the menus included.
\<close>

theorem windows_stay_on_screen:
  "list_all (\<lambda>a. win_w (app_win a) = 420 \<and> win_h (app_win a) = 300 \<and> 0 \<le> win_x (app_win a) \<and> win_x (app_win a) + 420 \<le> SCREEN_W \<and>
       0 \<le> win_y (app_win a) \<and> win_y (app_win a) + 300 \<le> TASKBAR_Y)
     (filter app_running (apps (dk_apps (snd (desktop_run user fs s)))))"
proof -
  have "apps_ok (dk_apps (snd (desktop_run user fs s)))"
    unfolding desktop_run_def by (rule desk_loop_ok) (simp add: app_init_ok)
  then show ?thesis by (auto simp: apps_ok_def slot_ok_def win_ok_def list_all_iff)
qed

section \<open>Clicks that go astray\<close>

text \<open>A window under the open start menu takes the clicks on the menu drawn over it.\<close>

lemma window_covers_menu:
  assumes "fst (app_handle_mouse (in_x f) (in_y f) (in_buttons f) (last_clicked f) (dk_apps s, dk_world s))"
  shows "fst (desk_frame u f s) = DESKTOP_RUNNING"
  using assms menu_click_reaches [of f s] by (cases "desk_events f s") (auto simp: desk_frame_result menu_click_def)

text \<open>The last ten rows of "Herunterfahren" are below the menu: a click there, off the start button, closes the menu instead.\<close>

lemma shutdown_bottom_dead:
  assumes "TASKBAR_Y \<le> in_y f" "start_open s"
  shows "fst (desk_frame u f s) = DESKTOP_RUNNING"
  using assms menu_click_reaches [of f s]
  by (cases "desk_events f s") (auto simp: desk_frame_result menu_click_def hit_def MENU_Y_def MENU_H_def)

text \<open>A right click opens the context menu over a window, too: only the icons are looked at.\<close>

lemma right_click_over_window:
  assumes "last_clicked f AND MOUSE_BTN_RIGHT \<noteq> 0" "\<not> start_open s" "\<not> list_ex (icon_hit (in_x f) (in_y f)) (icons s)" "in_y f < TASKBAR_Y"
  shows "ctx_open (desk_right_click f s)"
  using assms by (simp add: desk_right_click_def)

text \<open>A click on an entry of the context menu is handed to the windows below it as well: the result of \<open>app_handle_mouse\<close> is not even looked at.\<close>

lemma context_click_falls_through:
  "dk_apps (snd (desk_windows f False s)) =
    fst (snd (app_handle_mouse (in_x f) (in_y f) (in_buttons f) (last_clicked f) (dk_apps s, dk_world s)))"
  by (simp add: desk_windows_def case_prod_unfold Let_def)

section \<open>The main loop\<close>

text \<open>
  \<open>pinguinos_main\<close> over the sessions to come: the frames at the login and the frames on the desktop. A session that shuts down ends it; so do,
  in the model, inputs that end with a form or the desktop open. Result: the users of the sessions, how the last one ended, the database
  and the state of the desktop.
\<close>

definition shutdown_screen :: "desk \<Rightarrow> desk" where
  "shutdown_screen s =
     (let bx = (SCREEN_W - 300) div 2; by' = SCREEN_H div 2 + 30;
          s = on_back (draws [ui_clear COL_BG, ui_fill_rect 0 0 SCREEN_W 4 COL_ACCENT,
            ui_draw_text_centered 0 (SCREEN_H div 2 - 20) SCREEN_W 16 (asc ''PinguinOS wird heruntergefahren...'') COL_ACCENT,
            ui_draw_text_centered 0 (SCREEN_H div 2 + 4) SCREEN_W 12 (asc ''Strom kann jetzt getrennt werden.'') COL_GRAY,
            ui_fill_rect bx by' 300 8 COL_DARK_GRAY, ui_fill_rect bx by' 300 8 COL_ACCENT,
            ui_draw_rect (bx - 1) (by' - 1) (300 + 2) (8 + 2) COL_ACCENT_DIM]) s
      in s\<lparr>frame_buf := ui_flip (back_buf s) (frame_buf s)\<rparr>)"

fun session_loop :: "u8 \<Rightarrow> (frame list \<times> desk_input list) list \<Rightarrow> users \<Rightarrow> desk \<Rightarrow> os_user list \<times> desktop_state \<times> users \<times> desk" where
  "session_loop stale [] db s = ([], DESKTOP_LOGOUT, db, s)"
| "session_loop stale ((frs, fs) # rest) db s =
     (case login_run stale frs db of
        None \<Rightarrow> ([], DESKTOP_LOGOUT, db, s)
      | Some (user, db, _) \<Rightarrow>
          let (r, s) = desktop_run user fs s
          in if r = DESKTOP_SHUTDOWN then ([user], DESKTOP_SHUTDOWN, db, shutdown_screen s)
             else if r = DESKTOP_RUNNING then ([user], DESKTOP_RUNNING, db, s)
             else let (us, e) = session_loop stale rest db s in (user # us, e))"

definition pinguinos_main :: "u8 \<Rightarrow> (frame list \<times> desk_input list) list \<Rightarrow> desk \<Rightarrow> os_user list \<times> desktop_state \<times> users \<times> desk" where
  "pinguinos_main stale sessions s = session_loop stale sessions users_init (s\<lparr>back_buf := fst (ui_init (frame_buf s)), frame_buf := snd (ui_init (frame_buf s))\<rparr>)"

lemma login_loop_in_db: "login_loop frs db s = Inr (x, rest) \<Longrightarrow> x \<in> set db"
  by (induction frs arbitrary: s) (auto dest: login_frame_success split: sum.splits)

text \<open>Everyone who gets a desktop has an account.\<close>

lemma login_run_user: "login_run stale frs db = Some (x, db', rest) \<Longrightarrow> x \<in> set db' \<and> (db = [] \<or> db' = db)"
  by (auto simp: login_run_def dest: login_loop_in_db split: sum.splits if_splits)

lemma session_users:
  "session_loop stale sessions db s = (us, r, db', s') \<Longrightarrow> set us \<subseteq> set db' \<and> (db = [] \<or> db' = db)"
proof (induction stale sessions db s arbitrary: us r db' s' rule: session_loop.induct)
  case (2 stale frs fs rest db s)
  show ?case
  proof (cases "login_run stale frs db")
    case (Some l)
    obtain x db1 left where l: "l = (x, db1, left)" by (cases l)
    obtain e s1 where d: "desktop_run x fs s = (e, s1)" by fastforce
    have u: "x \<in> set db1" "db = [] \<or> db1 = db" using login_run_user Some l by blast+
    then have ne: "db1 \<noteq> []" by auto
    show ?thesis
    proof (cases "e = DESKTOP_LOGOUT")
      case True
      obtain us1 e1 where r: "session_loop stale rest db1 s1 = (us1, e1)" by (cases "session_loop stale rest db1 s1")
      then have "us = x # us1" "(r, db', s') = e1" using 2(2) Some l d True by (auto simp: Let_def)
      then show ?thesis using 2(1) [OF Some l [symmetric] refl refl d [symmetric]] r u ne True by (cases e1) auto
    next
      case False
      then show ?thesis using 2(2) Some l d u by (cases e) (auto simp: Let_def)
    qed
  qed (use 2(2) in simp)
qed simp

lemma shutdown_inside: "\<not> Ui.on_screen i \<Longrightarrow> back_buf (shutdown_screen s) i = back_buf s i"
proof -
  have "inside (draws [ui_clear c, ui_fill_rect x y w h c1, ui_draw_text_centered x2 y2 w2 h2 t2 c2, ui_draw_text_centered x3 y3 w3 h3 t3 c3,
      ui_fill_rect x4 y4 w4 h4 c4, ui_fill_rect x5 y5 w5 h5 c5, ui_draw_rect x6 y6 w6 h6 c6])"
    for c x y w h c1 x2 y2 w2 h2 t2 c2 x3 y3 w3 h3 t3 c3 x4 y4 w4 h4 c4 x5 y5 w5 h5 c5 x6 y6 w6 h6 c6
    by (intro drawing) (simp add: drawing)
  then show "\<not> Ui.on_screen i \<Longrightarrow> back_buf (shutdown_screen s) i = back_buf s i"
    by (simp add: shutdown_screen_def Let_def inside_def)
qed

end
