(* ===== verification/Vga.thy ===== *)
theory Vga
  imports KMem KFormat
begin

text \<open>
  The text console and the linear frame buffer (\<open>drivers/vga.c\<close>, \<open>include/vga.h\<close>). The text memory is a function from the index of
  a cell, over all naturals, so that a store past the screen is a store one can see; what is written to the cursor ports is a log.
  The frame buffer lies in the byte memory of \<open>KMem\<close>.
\<close>

definition VGA_WIDTH :: nat where "VGA_WIDTH = 80"
definition VGA_HEIGHT :: nat where "VGA_HEIGHT = 25"
definition VGA_CRTC_ADDR :: u16 where "VGA_CRTC_ADDR = 0x3D4"
definition VGA_CRTC_DATA :: u16 where "VGA_CRTC_DATA = 0x3D5"
definition VGA_CURSOR_HI :: u8 where "VGA_CURSOR_HI = 0x0E"
definition VGA_CURSOR_LO :: u8 where "VGA_CURSOR_LO = 0x0F"
definition VGA_BLACK :: u32 where "VGA_BLACK = 0"
definition VGA_LIGHT_GREY :: u32 where "VGA_LIGHT_GREY = 7"

record vga =
  vmem :: "nat \<Rightarrow> u16"
  cur_col :: u8
  cur_row :: u8
  cur_attr :: u8
  crtc :: "(u16 \<times> u8) list"

definition vga_make_attr :: "u32 \<Rightarrow> u32 \<Rightarrow> u8" where "vga_make_attr fg bg = ucast (push_bit 4 bg OR (fg AND 0x0F))"

definition vga_make_entry :: "u8 \<Rightarrow> u8 \<Rightarrow> u16" where "vga_make_entry c attr = push_bit 8 (ucast attr) OR ucast c"

section \<open>Text mode\<close>

definition update_cursor :: "vga \<Rightarrow> vga" where
  "update_cursor s =
     (let pos = of_nat (unat (cur_row s) * VGA_WIDTH + unat (cur_col s)) :: u16
      in s\<lparr>crtc := crtc s @ [(VGA_CRTC_ADDR, VGA_CURSOR_HI), (VGA_CRTC_DATA, ucast (drop_bit 8 pos)),
                            (VGA_CRTC_ADDR, VGA_CURSOR_LO), (VGA_CRTC_DATA, ucast (pos AND 0xFF))]\<rparr>)"

definition scroll :: "vga \<Rightarrow> vga" where
  "scroll s =
     (let m = fold (\<lambda>row. fold (\<lambda>col m. m((row - 1) * VGA_WIDTH + col := m (row * VGA_WIDTH + col))) [0..<VGA_WIDTH]) [1..<VGA_HEIGHT] (vmem s);
          m = fold (\<lambda>col m. m((VGA_HEIGHT - 1) * VGA_WIDTH + col := vga_make_entry 32 (vga_make_attr VGA_LIGHT_GREY VGA_BLACK))) [0..<VGA_WIDTH] m
      in s\<lparr>vmem := m, cur_row := of_nat (VGA_HEIGHT - 1)\<rparr>)"

definition vga_clear :: "vga \<Rightarrow> vga" where
  "vga_clear s =
     update_cursor (s\<lparr>vmem := fold (\<lambda>i m. m(i := vga_make_entry 32 (cur_attr s))) [0..<VGA_WIDTH * VGA_HEIGHT] (vmem s), cur_col := 0, cur_row := 0\<rparr>)"

definition vga_init :: "vga \<Rightarrow> vga" where
  "vga_init s = vga_clear (s\<lparr>cur_attr := vga_make_attr VGA_LIGHT_GREY VGA_BLACK\<rparr>)"

definition vga_set_fg :: "u32 \<Rightarrow> vga \<Rightarrow> vga" where
  "vga_set_fg c s = s\<lparr>cur_attr := (cur_attr s AND 0xF0) OR ucast (c AND 0x0F)\<rparr>"

definition vga_set_bg :: "u32 \<Rightarrow> vga \<Rightarrow> vga" where
  "vga_set_bg c s = s\<lparr>cur_attr := (cur_attr s AND 0x0F) OR ucast (push_bit 4 (c AND 0x0F))\<rparr>"

definition vga_set_color :: "u32 \<Rightarrow> u32 \<Rightarrow> vga \<Rightarrow> vga" where
  "vga_set_color fg bg s = s\<lparr>cur_attr := vga_make_attr fg bg\<rparr>"

definition vga_set_cursor :: "u8 \<Rightarrow> u8 \<Rightarrow> vga \<Rightarrow> vga" where
  "vga_set_cursor col row s =
     update_cursor (s\<lparr>cur_col := (if unat col < VGA_WIDTH then col else of_nat (VGA_WIDTH - 1)),
                      cur_row := (if unat row < VGA_HEIGHT then row else of_nat (VGA_HEIGHT - 1))\<rparr>)"

definition put_cell :: "u8 \<Rightarrow> vga \<Rightarrow> vga" where
  "put_cell c s = s\<lparr>vmem := (vmem s)(unat (cur_row s) * VGA_WIDTH + unat (cur_col s) := vga_make_entry c (cur_attr s))\<rparr>"

text \<open>The end of a row reached: on to the next one.\<close>

definition wrap_row :: "vga \<Rightarrow> vga" where
  "wrap_row s = (if unat (cur_col s) \<ge> VGA_WIDTH then s\<lparr>cur_col := 0, cur_row := cur_row s + 1\<rparr> else s)"

definition vga_putchar :: "u8 \<Rightarrow> vga \<Rightarrow> vga" where
  "vga_putchar c s =
     (let s = (if c = 10 then s\<lparr>cur_col := 0, cur_row := cur_row s + 1\<rparr>
               else if c = 13 then s\<lparr>cur_col := 0\<rparr>
               else if c = 9 then wrap_row (s\<lparr>cur_col := (cur_col s + 4) AND NOT 3\<rparr>)
               else if c = 8 then (if cur_col s > 0 then put_cell 32 (s\<lparr>cur_col := cur_col s - 1\<rparr>) else s)
               else (let s = put_cell c s in wrap_row (s\<lparr>cur_col := cur_col s + 1\<rparr>)))
      in update_cursor (if unat (cur_row s) \<ge> VGA_HEIGHT then scroll s else s))"

definition vga_puts :: "cstr \<Rightarrow> vga \<Rightarrow> vga" where
  "vga_puts str s = fold vga_putchar (cstring str) s"

text \<open>\<open>None\<close> when the formatting leaves its arguments.\<close>

definition vga_printf :: "cstr \<Rightarrow> varg list \<Rightarrow> vga \<Rightarrow> vga option" where
  "vga_printf fmt args s = map_option (\<lambda>(buf, _). vga_puts buf s) (vsnprintf (replicate 512 0) 512 fmt args)"

section \<open>Linear frame buffer\<close>

definition console_font :: "u8 list list" where
  "console_font = [
     [0, 0, 0, 0, 0, 0, 0, 0], [24, 24, 24, 24, 0, 0, 24, 0], [102, 102, 102, 0, 0, 0, 0, 0], [54, 54, 127, 54, 127, 54, 54, 0],
     [12, 62, 3, 30, 48, 31, 12, 0], [0, 99, 51, 24, 12, 102, 99, 0], [28, 54, 28, 110, 59, 51, 110, 0], [6, 6, 3, 0, 0, 0, 0, 0],
     [24, 12, 6, 6, 6, 12, 24, 0], [6, 12, 24, 24, 24, 12, 6, 0], [0, 102, 60, 255, 60, 102, 0, 0], [0, 12, 12, 63, 12, 12, 0, 0],
     [0, 0, 0, 0, 0, 12, 12, 6], [0, 0, 0, 63, 0, 0, 0, 0], [0, 0, 0, 0, 0, 12, 12, 0], [96, 48, 24, 12, 6, 3, 1, 0],
     [62, 99, 115, 123, 111, 103, 62, 0], [12, 14, 12, 12, 12, 12, 63, 0], [30, 51, 48, 28, 6, 51, 63, 0], [30, 51, 48, 28, 48, 51, 30, 0],
     [56, 60, 54, 51, 127, 48, 120, 0], [63, 3, 31, 48, 48, 51, 30, 0], [28, 6, 3, 31, 51, 51, 30, 0], [63, 51, 48, 24, 12, 12, 12, 0],
     [30, 51, 51, 30, 51, 51, 30, 0], [30, 51, 51, 62, 48, 24, 14, 0], [0, 12, 12, 0, 0, 12, 12, 0], [0, 12, 12, 0, 0, 12, 12, 6],
     [24, 12, 6, 3, 6, 12, 24, 0], [0, 0, 63, 0, 0, 63, 0, 0], [6, 12, 24, 48, 24, 12, 6, 0], [30, 51, 48, 24, 12, 0, 12, 0],
     [62, 99, 123, 123, 123, 3, 30, 0], [12, 30, 51, 51, 63, 51, 51, 0], [63, 102, 102, 62, 102, 102, 63, 0], [60, 102, 3, 3, 3, 102, 60, 0],
     [31, 54, 102, 102, 102, 54, 31, 0], [127, 70, 22, 30, 22, 70, 127, 0], [127, 70, 22, 30, 22, 6, 15, 0], [60, 102, 3, 3, 115, 102, 124, 0],
     [51, 51, 51, 63, 51, 51, 51, 0], [30, 12, 12, 12, 12, 12, 30, 0], [120, 48, 48, 48, 51, 51, 30, 0], [103, 102, 54, 30, 54, 102, 103, 0],
     [15, 6, 6, 6, 70, 102, 127, 0], [99, 119, 127, 127, 107, 99, 99, 0], [99, 103, 111, 123, 115, 99, 99, 0], [28, 54, 99, 99, 99, 54, 28, 0],
     [63, 102, 102, 62, 6, 6, 15, 0], [30, 51, 51, 51, 59, 30, 56, 0], [63, 102, 102, 62, 54, 102, 103, 0], [30, 51, 7, 14, 56, 51, 30, 0],
     [63, 45, 12, 12, 12, 12, 30, 0], [51, 51, 51, 51, 51, 51, 63, 0], [51, 51, 51, 51, 51, 30, 12, 0], [99, 99, 99, 107, 127, 119, 99, 0],
     [99, 99, 54, 28, 28, 54, 99, 0], [51, 51, 51, 30, 12, 12, 30, 0], [127, 99, 49, 24, 76, 102, 127, 0], [30, 6, 6, 6, 6, 6, 30, 0],
     [3, 6, 12, 24, 48, 96, 64, 0], [30, 24, 24, 24, 24, 24, 30, 0], [8, 28, 54, 99, 0, 0, 0, 0], [0, 0, 0, 0, 0, 0, 0, 255],
     [12, 12, 24, 0, 0, 0, 0, 0], [0, 0, 30, 48, 62, 51, 110, 0], [7, 6, 6, 62, 102, 102, 59, 0], [0, 0, 30, 51, 3, 51, 30, 0],
     [56, 48, 48, 62, 51, 51, 110, 0], [0, 0, 30, 51, 63, 3, 30, 0], [28, 54, 6, 15, 6, 6, 15, 0], [0, 0, 110, 51, 51, 62, 48, 31],
     [7, 6, 54, 110, 102, 102, 103, 0], [12, 0, 14, 12, 12, 12, 30, 0], [48, 0, 48, 48, 48, 51, 51, 30], [7, 6, 102, 54, 30, 54, 103, 0],
     [14, 12, 12, 12, 12, 12, 30, 0], [0, 0, 51, 127, 127, 107, 99, 0], [0, 0, 31, 51, 51, 51, 51, 0], [0, 0, 30, 51, 51, 51, 30, 0],
     [0, 0, 59, 102, 102, 62, 6, 15], [0, 0, 110, 51, 51, 62, 48, 120], [0, 0, 59, 110, 102, 6, 15, 0], [0, 0, 62, 3, 30, 48, 31, 0],
     [8, 12, 62, 12, 12, 44, 24, 0], [0, 0, 51, 51, 51, 51, 110, 0], [0, 0, 51, 51, 51, 30, 12, 0], [0, 0, 99, 107, 127, 119, 99, 0],
     [0, 0, 99, 54, 28, 54, 99, 0], [0, 0, 51, 51, 51, 62, 48, 31], [0, 0, 63, 25, 12, 38, 63, 0], [56, 12, 12, 7, 12, 12, 56, 0],
     [24, 24, 24, 0, 24, 24, 24, 0], [7, 12, 12, 56, 12, 12, 7, 0], [110, 59, 0, 0, 0, 0, 0, 0], [255, 255, 255, 255, 255, 255, 255, 255]]"

record fb_state =
  fb_addr :: u32
  fb_pitch :: u32
  fb_width :: u32
  fb_height :: u32
  fb_bpp :: u8
  fb_active :: bool

definition MULTIBOOT_INFO_FB :: u32 where "MULTIBOOT_INFO_FB = push_bit 12 1"

text \<open>What \<open>fb_init\<close> reads of \<open>multiboot_info_t\<close>.\<close>

record fb_info =
  mbi_flags :: u32
  framebuffer_addr :: u64
  framebuffer_pitch :: u32
  framebuffer_width :: u32
  framebuffer_height :: u32
  framebuffer_bpp :: u8
  framebuffer_type :: u8

definition fb_static :: fb_state where
  "fb_static = \<lparr>fb_addr = 0, fb_pitch = 0, fb_width = 0, fb_height = 0, fb_bpp = 0, fb_active = False\<rparr>"

definition fb_init :: "fb_info \<Rightarrow> fb_state \<Rightarrow> bool \<times> fb_state" where
  "fb_init mbi s =
     (if mbi_flags mbi AND MULTIBOOT_INFO_FB = 0 then (False, s)
      else if framebuffer_type mbi \<noteq> 2 then (False, s)
      else if framebuffer_bpp mbi \<noteq> 32 then (False, s)
      else (True, \<lparr>fb_addr = ucast (framebuffer_addr mbi), fb_pitch = framebuffer_pitch mbi, fb_width = framebuffer_width mbi,
              fb_height = framebuffer_height mbi, fb_bpp = framebuffer_bpp mbi, fb_active = True\<rparr>))"

definition fb_put_pixel :: "fb_state \<Rightarrow> u32 \<Rightarrow> u32 \<Rightarrow> u32 \<Rightarrow> mem \<Rightarrow> mem" where
  "fb_put_pixel s x y color m =
     (if \<not> fb_active s \<or> x \<ge> fb_width s \<or> y \<ge> fb_height s then m
      else store32 m (fb_addr s + y * fb_pitch s + x * ucast (fb_bpp s div 8)) color)"

definition fb_clear :: "fb_state \<Rightarrow> u32 \<Rightarrow> mem \<Rightarrow> mem" where
  "fb_clear s color m =
     (if \<not> fb_active s then m
      else fold (\<lambda>y. fold (\<lambda>x. fb_put_pixel s (of_nat x) (of_nat y) color) [0..<unat (fb_width s)]) [0..<unat (fb_height s)] m)"

definition fb_fill_rect :: "fb_state \<Rightarrow> u32 \<Rightarrow> u32 \<Rightarrow> u32 \<Rightarrow> u32 \<Rightarrow> u32 \<Rightarrow> mem \<Rightarrow> mem" where
  "fb_fill_rect s x y w h color =
     fold (\<lambda>row. fold (\<lambda>col. fb_put_pixel s (of_nat col) (of_nat row) color) [unat x..<min (unat (x + w)) (unat (fb_width s))])
       [unat y..<min (unat (y + h)) (unat (fb_height s))]"

definition fb_put_char :: "fb_state \<Rightarrow> u32 \<Rightarrow> u32 \<Rightarrow> u8 \<Rightarrow> u32 \<Rightarrow> u32 \<Rightarrow> mem \<Rightarrow> mem" where
  "fb_put_char s x y c fg bg m =
     (if \<not> fb_active s then m
      else
        let idx = (if c < 32 \<or> c > 127 then 63 else c); glyph = console_font ! (unat idx - 32)
        in fold (\<lambda>row. fold (\<lambda>col.
             fb_put_pixel s (x + of_nat col) (y + of_nat row) (if glyph ! row AND drop_bit col 0x80 \<noteq> 0 then fg else bg)) [0..<8]) [0..<8] m)"

fun fb_text :: "fb_state \<Rightarrow> u32 \<Rightarrow> u32 \<Rightarrow> u32 \<Rightarrow> cstr \<Rightarrow> u32 \<Rightarrow> u32 \<Rightarrow> mem \<Rightarrow> mem" where
  "fb_text s x cx y [] fg bg m = m"
| "fb_text s x cx y (c # str) fg bg m =
     (if c = 0 then m
      else if c = 10 then fb_text s x x (y + 8) str fg bg m
      else fb_text s x (cx + 8) y str fg bg (fb_put_char s cx y c fg bg m))"

definition fb_puts :: "fb_state \<Rightarrow> u32 \<Rightarrow> u32 \<Rightarrow> cstr \<Rightarrow> u32 \<Rightarrow> u32 \<Rightarrow> mem \<Rightarrow> mem" where
  "fb_puts s x y str = fb_text s x x y str"

section \<open>Scrolling\<close>

lemma vga_consts [simp]: "VGA_WIDTH = 80" "VGA_HEIGHT = 25" by (simp_all add: VGA_WIDTH_def VGA_HEIGHT_def)

lemma fold_shift_row:
  "n \<le> 80 \<Longrightarrow> fold (\<lambda>col m. m(r * 80 + col := m ((r + 1) * 80 + col))) [0..<n] m =
     (\<lambda>i. if r * 80 \<le> i \<and> i < r * 80 + n then m (i + 80) else (m i :: u16))"
  by (induction n) (auto simp: fun_eq_iff algebra_simps)

lemma fold_shift_rows:
  "fold (\<lambda>row. fold (\<lambda>col m. m((row - 1) * 80 + col := m (row * 80 + col))) [0..<80]) [1..<Suc n] m =
     (\<lambda>i. if i < n * 80 then m (i + 80) else (m i :: u16))"
proof (induction n)
  case (Suc n)
  have "[1..<Suc (Suc n)] = [1..<Suc n] @ [Suc n]" by (rule upt_Suc_append) simp
  then have "fold (\<lambda>row. fold (\<lambda>col m. m((row - 1) * 80 + col := m (row * 80 + col))) [0..<80]) [1..<Suc (Suc n)] m =
      fold (\<lambda>col m. m(n * 80 + col := m ((n + 1) * 80 + col))) [0..<80] (\<lambda>i. if i < n * 80 then m (i + 80) else m i)"
    using Suc by (simp only: fold_append o_apply fold.simps id_apply) simp
  also have "\<dots> = (\<lambda>i. if i < Suc n * 80 then m (i + 80) else m i)"
    by (subst fold_shift_row) (auto simp: fun_eq_iff)
  finally show ?case .
qed simp

lemma fold_fill: "fold (\<lambda>k m. m(b + k := (c :: u16))) [0..<n] m = (\<lambda>i. if b \<le> i \<and> i < b + n then c else m i)"
  by (induction n) (auto simp: fun_eq_iff)

definition grey_blank :: u16 where "grey_blank = vga_make_entry 32 (vga_make_attr VGA_LIGHT_GREY VGA_BLACK)"

lemma scroll_eq:
  "scroll s = s\<lparr>vmem := (\<lambda>i. if i < 1920 then vmem s (i + 80) else if i < 2000 then grey_blank else vmem s i), cur_row := 24\<rparr>"
proof -
  have "[1..<VGA_HEIGHT] = [1..<Suc 24]" by simp
  then show ?thesis
    unfolding scroll_def Let_def vga_consts grey_blank_def [symmetric]
    using fold_shift_rows [of 24 "vmem s"] fold_fill [of 1920 grey_blank 80] by (auto simp: fun_eq_iff)
qed

section \<open>The console is a sheet of paper\<close>

text \<open>
  The contract of the console: an endless sheet of rows of 80 cells with a cursor on it. Nothing ever scrolls; \<open>pp_row\<close> counts all rows
  from the last clearing on.
\<close>

record paper =
  pp_cell :: "nat \<Rightarrow> nat \<Rightarrow> u16"
  pp_col :: nat
  pp_row :: nat

definition paper_start :: "u8 \<Rightarrow> paper" where
  "paper_start attr = \<lparr>pp_cell = (\<lambda>r j. if r < 25 then vga_make_entry 32 attr else grey_blank), pp_col = 0, pp_row = 0\<rparr>"

definition paper_write :: "nat \<Rightarrow> u8 \<Rightarrow> u8 \<Rightarrow> paper \<Rightarrow> paper" where
  "paper_write j c attr p = p\<lparr>pp_cell := (pp_cell p)(pp_row p := (pp_cell p (pp_row p))(j := vga_make_entry c attr))\<rparr>"

definition paper_move :: "nat \<Rightarrow> paper \<Rightarrow> paper" where
  "paper_move j p = (if j < 80 then p\<lparr>pp_col := j\<rparr> else p\<lparr>pp_col := 0, pp_row := pp_row p + 1\<rparr>)"

definition paper_put :: "u8 \<Rightarrow> u8 \<Rightarrow> paper \<Rightarrow> paper" where
  "paper_put attr c p =
     (if c = 10 then paper_move 80 p
      else if c = 13 then paper_move 0 p
      else if c = 9 then paper_move ((pp_col p div 4 + 1) * 4) p
      else if c = 8 then (if pp_col p > 0 then paper_move (pp_col p - 1) (paper_write (pp_col p - 1) 32 attr p) else p)
      else paper_move (pp_col p + 1) (paper_write (pp_col p) c attr p))"

text \<open>The screen shows the 25 rows from \<open>pp_row - cur_row\<close> on; the rows below it are still blank.\<close>

definition vga_shows :: "paper \<Rightarrow> vga \<Rightarrow> bool" where
  "vga_shows p s \<longleftrightarrow> pp_col p = unat (cur_col s) \<and> pp_col p < 80 \<and> unat (cur_row s) < 25 \<and> unat (cur_row s) \<le> pp_row p \<and>
     (\<forall>i < 25. \<forall>j < 80. vmem s (i * 80 + j) = pp_cell p (pp_row p - unat (cur_row s) + i) j) \<and>
     (\<forall>r > pp_row p - unat (cur_row s) + 24. \<forall>j. pp_cell p r j = grey_blank)"

lemma vga_shows_cursor [simp]: "vga_shows p (update_cursor s) = vga_shows p s"
  by (simp add: vga_shows_def update_cursor_def Let_def)

definition scroll_if :: "vga \<Rightarrow> vga" where "scroll_if s = (if unat (cur_row s) \<ge> VGA_HEIGHT then scroll s else s)"

lemma shows_write:
  assumes "vga_shows p s"
  shows "vga_shows (paper_write (pp_col p) c (cur_attr s) p) (put_cell c s)"
proof -
  have "i * 80 + j = unat (cur_row s) * 80 + unat (cur_col s) \<longleftrightarrow> i = unat (cur_row s) \<and> j = unat (cur_col s)" if "j < 80" for i j
  proof
    assume eq: "i * 80 + j = unat (cur_row s) * 80 + unat (cur_col s)"
    have "(i * 80 + j) div 80 = (unat (cur_row s) * 80 + unat (cur_col s)) div 80" using eq by simp
    then have "i = unat (cur_row s)" using that assms by (simp add: vga_shows_def)
    then show "i = unat (cur_row s) \<and> j = unat (cur_col s)" using eq by simp
  qed simp
  then show ?thesis using assms by (auto simp: vga_shows_def put_cell_def paper_write_def)
qed

lemma unat_col: "j < 256 \<Longrightarrow> unat (of_nat j :: u8) = j"
  by (simp add: unat_of_nat take_bit_nat_eq_self)

lemma shows_move_within: "vga_shows p s \<Longrightarrow> j < 80 \<Longrightarrow> vga_shows (paper_move j p) (scroll_if (s\<lparr>cur_col := of_nat j\<rparr>))"
  by (auto simp: vga_shows_def paper_move_def scroll_if_def unat_col)

lemma shows_next_row:
  assumes "vga_shows p s"
  shows "vga_shows (paper_move 80 p) (scroll_if (s\<lparr>cur_col := 0, cur_row := cur_row s + 1\<rparr>))"
proof -
  let ?r = "unat (cur_row s)"
  have r: "?r < 25" "?r \<le> pp_row p" using assms by (simp_all add: vga_shows_def)
  have u: "unat (cur_row s + 1) = ?r + 1" using r by (simp add: unat_word_ariths)
  show ?thesis
  proof (cases "?r = 24")
    case True
    have "vmem s (i * 80 + j + 80) = pp_cell p (Suc (pp_row p) - 24 + i) j" if "i < 24" "j < 80" for i j
    proof -
      have "\<forall>i < 25. \<forall>j < 80. vmem s (i * 80 + j) = pp_cell p (pp_row p - 24 + i) j" using assms True by (simp add: vga_shows_def)
      moreover have "i + 1 < 25" using that(1) by simp
      ultimately have "vmem s ((i + 1) * 80 + j) = pp_cell p (pp_row p - 24 + (i + 1)) j" using that(2) by blast
      moreover have "(i + 1) * 80 + j = i * 80 + j + 80" "pp_row p - 24 + (i + 1) = Suc (pp_row p) - 24 + i"
        using r True by (simp_all add: Suc_diff_le)
      ultimately show ?thesis by (simp only:)
    qed
    moreover have "i * 80 + j < 1920 \<longleftrightarrow> i < 24" "i < 25 \<Longrightarrow> i * 80 + j < 2000" if "j < 80" for i j :: nat using that by linarith+
    moreover have "pp_cell p (Suc (pp_row p) - 24 + 24) j = grey_blank" for j using assms r True by (simp add: vga_shows_def)
    moreover have "i = 24" if "i < 25" "\<not> i < 24" for i :: nat using that by simp
    ultimately show ?thesis using assms r True u
      by (auto simp: vga_shows_def paper_move_def scroll_if_def scroll_eq Suc_diff_le)
  next
    case False
    then show ?thesis using assms r u by (auto simp: vga_shows_def paper_move_def scroll_if_def)
  qed
qed

lemma tab_stop:
  assumes "unat (c :: u8) < 80"
  shows "(c + 4) AND NOT 3 = of_nat ((unat c div 4 + 1) * 4)"
proof -
  have "list_all (\<lambda>n. (of_nat n + 4 :: u8) AND NOT 3 = of_nat ((n div 4 + 1) * 4)) [0..<80]" by code_simp
  then have "(of_nat (unat c) + 4 :: u8) AND NOT 3 = of_nat ((unat c div 4 + 1) * 4)"
    unfolding list_all_iff by (rule bspec) (simp add: assms)
  then show ?thesis by simp
qed

text \<open>Moving to a column is the end of every character.\<close>

lemma shows_move:
  assumes "vga_shows p s" "j \<le> 80"
  shows "vga_shows (paper_move j p) (scroll_if (wrap_row (s\<lparr>cur_col := of_nat j\<rparr>)))"
proof (cases "j < 80")
  case True
  then show ?thesis using shows_move_within [OF assms(1)] by (simp add: wrap_row_def unat_col)
next
  case False
  then have "j = 80" using assms(2) by simp
  then show ?thesis using shows_next_row [OF assms(1)] by (simp add: wrap_row_def)
qed

lemma vga_putchar_eq:
  "vga_putchar c s = update_cursor (scroll_if
     (if c = 10 then s\<lparr>cur_col := 0, cur_row := cur_row s + 1\<rparr> else if c = 13 then s\<lparr>cur_col := 0\<rparr>
      else if c = 9 then wrap_row (s\<lparr>cur_col := (cur_col s + 4) AND NOT 3\<rparr>)
      else if c = 8 then (if cur_col s > 0 then put_cell 32 (s\<lparr>cur_col := cur_col s - 1\<rparr>) else s)
      else wrap_row ((put_cell c s)\<lparr>cur_col := cur_col s + 1\<rparr>)))"
  by (simp add: vga_putchar_def scroll_if_def Let_def put_cell_def)

lemma put_cell_keeps [simp]: "cur_col (put_cell c s) = cur_col s" "cur_row (put_cell c s) = cur_row s" "cur_attr (put_cell c s) = cur_attr s"
  by (simp_all add: put_cell_def)

lemma shows_putchar:
  assumes "vga_shows p s"
  shows "vga_shows (paper_put (cur_attr s) c p) (vga_putchar c s)"
proof -
  have c: "pp_col p = unat (cur_col s)" "unat (cur_col s) < 80" using assms by (simp_all add: vga_shows_def)
  have col: "cur_col s + 1 = of_nat (pp_col p + 1)" using c by simp
  consider "c = 10" | "c = 13" | "c = 9" | "c = 8" "cur_col s = 0" | "c = 8" "cur_col s \<noteq> 0" | "c \<notin> {8, 9, 10, 13}" by blast
  then show ?thesis
  proof cases
    case 1
    then show ?thesis using shows_next_row [OF assms] by (simp add: vga_putchar_eq paper_put_def)
  next
    case 2
    then show ?thesis using shows_move_within [OF assms, of 0] by (simp add: vga_putchar_eq paper_put_def)
  next
    case 3
    have "pp_col p div 4 < 20" using c by (simp add: div_less_iff_less_mult)
    then have "(pp_col p div 4 + 1) * 4 \<le> 80" by simp
    from shows_move [OF assms this] show ?thesis using 3 tab_stop [OF c(2)] c(1)
      by (simp only: vga_putchar_eq paper_put_def vga_shows_cursor) simp
  next
    case 4
    have "scroll_if s = s" using assms by (simp add: scroll_if_def vga_shows_def)
    then show ?thesis using 4 assms c by (simp add: vga_putchar_eq paper_put_def)
  next
    case 5
    have pos: "0 < cur_col s" "0 < pp_col p" using 5 c by (simp_all add: word_greater_zero_iff unat_gt_0)
    have u: "unat (cur_col s - 1) = pp_col p - 1" using 5 c by (simp add: unat_minus_one)
    have "vga_shows (p\<lparr>pp_col := pp_col p - 1\<rparr>) (s\<lparr>cur_col := cur_col s - 1\<rparr>)"
      using assms u by (simp add: vga_shows_def less_imp_diff_less)
    from shows_write [OF this, of 32] have "vga_shows (paper_move (pp_col p - 1) (paper_write (pp_col p - 1) 32 (cur_attr s) p))
        (put_cell 32 (s\<lparr>cur_col := cur_col s - 1\<rparr>))"
      using c by (cases p) (simp add: paper_move_def paper_write_def less_imp_diff_less)
    moreover have "scroll_if (put_cell 32 (s\<lparr>cur_col := cur_col s - 1\<rparr>)) = put_cell 32 (s\<lparr>cur_col := cur_col s - 1\<rparr>)"
      using assms by (simp add: scroll_if_def vga_shows_def)
    ultimately show ?thesis using 5 pos by (simp add: vga_putchar_eq paper_put_def)
  next
    case 6
    have "pp_col p + 1 \<le> 80" using c by simp
    from shows_move [OF shows_write [OF assms, of c] this] show ?thesis using 6
      by (simp add: vga_putchar_eq paper_put_def col [unfolded add.commute [of _ 1]] add.commute [of _ 1] del: of_nat_add of_nat_Suc)
  qed
qed

lemma putchar_attr [simp]: "cur_attr (vga_putchar c s) = cur_attr s"
  by (simp add: vga_putchar_def Let_def scroll_def update_cursor_def wrap_row_def)

lemma shows_text: "vga_shows p s \<Longrightarrow> vga_shows (fold (paper_put (cur_attr s)) cs p) (fold vga_putchar cs s)"
proof (induction cs arbitrary: p s)
  case (Cons c cs)
  from Cons.IH [OF shows_putchar [OF Cons.prems]] show ?case by simp
qed simp

lemma shows_clear: "vga_shows (paper_start (cur_attr s)) (vga_clear s)"
proof -
  have "fold (\<lambda>i m. m(i := c)) [0..<VGA_WIDTH * VGA_HEIGHT] m = (\<lambda>i. if i < 2000 then c else (m i :: u16))" for c m
    using fold_fill [of 0 c 2000 m] by simp
  then show ?thesis unfolding vga_clear_def vga_shows_cursor by (auto simp: vga_shows_def paper_start_def)
qed

text \<open>
  C26: The console behaves as an endless sheet of paper of which the screen shows the last rows: after clearing it and printing any text, with
  line feeds, tabs, carriage returns and backspaces, each of the 25 times 80 cells holds what the sheet holds there, and the cursor is on the sheet's.
\<close>

theorem vga_console_is_paper:
  "vga_shows (fold (paper_put (cur_attr s)) (cstring text') (paper_start (cur_attr s))) (vga_puts text' (vga_clear s))"
  using shows_text [OF shows_clear, of s "cstring text'"] by (simp add: vga_puts_def vga_clear_def update_cursor_def Let_def)

section \<open>Nothing is written outside the screen\<close>

lemma putchar_inside:
  assumes "vga_shows p s" "2000 \<le> i"
  shows "vmem (vga_putchar c s) i = vmem s i"
proof -
  have w: "unat (cur_row s) * 80 + unat (cur_col s) < 2000" using assms by (simp add: vga_shows_def)
  have b: "unat (cur_row s) * 80 + unat (cur_col s - 1) < 2000" if "cur_col s \<noteq> 0"
    using w that by (simp add: unat_minus_one)
  have "vmem (scroll_if x) i = vmem x i" for x using assms(2) by (simp add: scroll_if_def scroll_eq)
  then show ?thesis using w b assms(2)
    by (auto simp: vga_putchar_eq update_cursor_def Let_def put_cell_def wrap_row_def word_greater_zero_iff)
qed

lemma puts_inside:
  assumes "vga_shows p s" "2000 \<le> i"
  shows "vmem (fold vga_putchar cs s) i = vmem s i"
  using assms by (induction cs arbitrary: p s) (simp_all, metis shows_putchar putchar_inside)

text \<open>A pixel is stored inside the frame buffer that the boot loader described, when its rows do not overlap and it does not wrap.\<close>

lemma pixel_inside_fb:
  assumes "fb_bpp s = 32" "unat (fb_width s) * 4 \<le> unat (fb_pitch s)" "unat (fb_addr s) + unat (fb_height s) * unat (fb_pitch s) \<le> 2 ^ 32"
    and "unat a < unat (fb_addr s) \<or> unat (fb_addr s) + unat (fb_height s) * unat (fb_pitch s) \<le> unat a"
  shows "fb_put_pixel s x y color m a = m a"
proof (cases "fb_active s \<and> x < fb_width s \<and> y < fb_height s")
  case True
  let ?b = "unat (fb_addr s)" and ?p = "unat (fb_pitch s)"
  have "unat y + 1 \<le> unat (fb_height s)" "unat x + 1 \<le> unat (fb_width s)" using True by (simp_all add: word_less_nat_alt Suc_le_eq)
  then have "(unat y + 1) * ?p \<le> unat (fb_height s) * ?p" "(unat x + 1) * 4 \<le> ?p"
    using assms(2) by (simp_all only: mult_le_mono1) simp
  then have le: "?b + unat y * ?p + unat x * 4 + 4 \<le> ?b + unat (fb_height s) * ?p" by (simp add: algebra_simps)
  then have u: "unat (fb_addr s + y * fb_pitch s + x * 4) = ?b + unat y * ?p + unat x * 4"
    using assms(3) by (simp add: unat_word_ariths)
  then have "unat (fb_addr s + y * fb_pitch s + x * 4 + of_nat k) = ?b + unat y * ?p + unat x * 4 + k" if "k < 4" for k
    using le assms(3) that by (simp add: unat_word_ariths(1) [of "_ + x * 4"] unat_of_nat take_bit_nat_eq_self)
  then have "a \<noteq> fb_addr s + y * fb_pitch s + x * 4 + of_nat k" if "k < 4" for k using assms(4) le that by fastforce
  from this [of 0] this [of 1] this [of 2] this [of 3] show ?thesis using assms(1) by (simp add: fb_put_pixel_def store32_def)
qed (auto simp: fb_put_pixel_def not_less)

end
