(* ===== verification/Procfs.thy ===== *)
theory Procfs
  imports Vfs KFormat
begin

text \<open>
  The file systems that show the state of the kernel as text: \<open>/proc\<close> (\<open>fs/procfs.c\<close>) and \<open>/sys\<close> (\<open>fs/sysfs.c\<close>, \<open>include/sysfs.h\<close>). What
  the generators ask the rest of the kernel is a record of answers, part of the world of the file system; whether \<open>kzalloc\<close> finds room for
  another node is an argument of it, too. Output is the formatting of \<open>KFormat\<close> into the buffer on the stack.
\<close>

record kernel_view =
  kv_uptime_ms :: u32
  kv_heap_used :: u32
  kv_heap_avail :: u32
  kv_vendor :: "u8 list"
  kv_brand :: "u8 list"
  kv_family :: u32
  kv_model :: u32
  kv_stepping :: u32
  kv_edx :: u32
  kv_ecx :: u32
  kv_rx_packets :: u64
  kv_rx_bytes :: u64
  kv_tx_packets :: u64
  kv_tx_bytes :: u64
  kv_task_count :: u32
  kv_free_pages :: u32
  kv_can :: "nat \<Rightarrow> bool"

text \<open>A line of a format string.\<close>

definition fline :: "string \<Rightarrow> cstr" where "fline s = asc s @ [10]"

text \<open>\<open>snprintf\<close> into a fresh buffer: its content and the result, the length of the whole text. \<open>None\<close> when the format does not fit the arguments.\<close>

definition snprintf :: "nat \<Rightarrow> cstr \<Rightarrow> varg list \<Rightarrow> (u8 list \<times> u32) option" where
  "snprintf n fmt args = map_option (\<lambda>(b, l). (b, of_nat l)) (vsnprintf (replicate n 0) n fmt args)"

section \<open>/proc\<close>

definition gen_uptime :: "nat \<Rightarrow> kernel_view \<Rightarrow> (u8 list \<times> u32) option" where
  "gen_uptime sz v = snprintf sz (fline ''%u.%03u'') [AInt (kv_uptime_ms v div 1000), AInt (kv_uptime_ms v mod 1000)]"

definition gen_meminfo :: "nat \<Rightarrow> kernel_view \<Rightarrow> (u8 list \<times> u32) option" where
  "gen_meminfo sz v =
     snprintf sz (fline ''HeapUsed:      %8u kB'' @ fline ''HeapFree:      %8u kB'' @ fline ''HeapTotal:     %8u kB'')
       [AInt (kv_heap_used v div 1024), AInt (kv_heap_avail v div 1024), AInt ((kv_heap_used v + kv_heap_avail v) div 1024)]"

definition gen_cpuinfo :: "nat \<Rightarrow> kernel_view \<Rightarrow> (u8 list \<times> u32) option" where
  "gen_cpuinfo sz v =
     snprintf sz (fline ''vendor_id  : %s'' @ fline ''model name : %s'' @ fline ''cpu family : %u'' @ fline ''model      : %u'' @
         fline ''stepping   : %u'' @ fline ''flags_edx  : 0x%08x'' @ fline ''flags_ecx  : 0x%08x'')
       [AStr (Some (kv_vendor v)), AStr (Some (kv_brand v)), AInt (kv_family v), AInt (kv_model v), AInt (kv_stepping v),
        AInt (kv_edx v), AInt (kv_ecx v)]"

definition gen_netdev :: "nat \<Rightarrow> kernel_view \<Rightarrow> (u8 list \<times> u32) option" where
  "gen_netdev sz v =
     snprintf sz (fline ''%-8s  RX-pkts: %u  RX-bytes: %u  TX-pkts: %u  TX-bytes: %u'')
       [AStr (Some (asc ''all'')), AInt (ucast (kv_rx_packets v)), AInt (ucast (kv_rx_bytes v)), AInt (ucast (kv_tx_packets v)),
        AInt (ucast (kv_tx_bytes v))]"

definition gen_tasks :: "nat \<Rightarrow> kernel_view \<Rightarrow> (u8 list \<times> u32) option" where
  "gen_tasks sz v = snprintf sz (fline ''tasks_active: %u'' @ fline ''uptime_ms:    %u'') [AInt (kv_task_count v), AInt (kv_uptime_ms v)]"

record procfs_file =
  pf_name :: cstr
  pf_gen :: "nat \<Rightarrow> kernel_view \<Rightarrow> (u8 list \<times> u32) option"

definition procfs_files :: "procfs_file list" where
  "procfs_files = [\<lparr>pf_name = asc ''uptime'', pf_gen = gen_uptime\<rparr>, \<lparr>pf_name = asc ''meminfo'', pf_gen = gen_meminfo\<rparr>,
     \<lparr>pf_name = asc ''cpuinfo'', pf_gen = gen_cpuinfo\<rparr>, \<lparr>pf_name = asc ''net/dev'', pf_gen = gen_netdev\<rparr>,
     \<lparr>pf_name = asc ''tasks'', pf_gen = gen_tasks\<rparr>]"

text \<open>Node data: 0 for \<open>NULL\<close>, the number of the file plus one for a pointer to it.\<close>

type_synonym proc_world = "kernel_view fs_world"

definition procfs_read :: "nat \<Rightarrow> u32 \<Rightarrow> u32 \<Rightarrow> proc_world \<Rightarrow> int \<times> u8 list" where
  "procfs_read n offset sz w =
     (let d = vn_fs_data (fw_nodes w ! n) in
      if d = 0 then (- 1, [])
      else case pf_gen (procfs_files ! (d - 1)) 2048 (fw_data w) of
        None \<Rightarrow> (- 1, [])
      | Some (tmp, len) \<Rightarrow>
          if offset \<ge> len then (0, [])
          else let avail = len - offset; k = (if sz < avail then sz else avail)
               in (sint k, take (unat k) (drop (unat offset) tmp)))"

definition procfs_readdir :: "nat \<Rightarrow> u32 \<Rightarrow> vfs_dirent \<Rightarrow> proc_world \<Rightarrow> vfs_dirent option" where
  "procfs_readdir n index out w =
     (if unat index \<ge> length procfs_files then None
      else Some (out\<lparr>de_name := put_at (de_name out) 0 (strncpy (pf_name (procfs_files ! unat index)) 255), de_inode := 100 + index,
                   de_type := ucast VFS_FILE\<rparr>))"

text \<open>A node from \<open>kzalloc\<close>, or none.\<close>

definition proc_node :: "vfs_node \<Rightarrow> proc_world \<Rightarrow> nat option \<times> proc_world" where
  "proc_node v w =
     (if kv_can (fw_data w) (length (fw_nodes w)) then (Some (length (fw_nodes w)), w\<lparr>fw_nodes := fw_nodes w @ [v]\<rparr>) else (None, w))"

definition procfs_finddir :: "nat \<Rightarrow> nat \<Rightarrow> cstr \<Rightarrow> proc_world \<Rightarrow> nat option \<times> proc_world" where
  "procfs_finddir self n name w =
     (case find_idx (\<lambda>f. strcmp (pf_name f) name = 0) procfs_files of
        None \<Rightarrow> (None, w)
      | Some i \<Rightarrow>
          proc_node (node_zero\<lparr>vn_name := put_at (vn_name node_zero) 0 (strncpy name 255), vn_flags := VFS_FILE, vn_ops := Some self,
            vn_fs_data := i + 1, vn_size := 4096\<rparr>) w)"

definition procfs_mount :: "nat \<Rightarrow> cstr option \<Rightarrow> u32 \<Rightarrow> proc_world \<Rightarrow> nat option \<times> proc_world" where
  "procfs_mount self device flags w =
     proc_node (node_zero\<lparr>vn_name := put_at (vn_name node_zero) 0 (asc ''proc'' @ [0]), vn_flags := VFS_DIR, vn_ops := Some self\<rparr>) w"

definition procfs_ops :: "nat \<Rightarrow> kernel_view fs_ops" where
  "procfs_ops self = \<lparr>op_name = asc ''procfs'', op_read = Some procfs_read, op_write = None, op_close = None,
     op_readdir = Some procfs_readdir, op_finddir = Some (procfs_finddir self), op_mkdir = None, op_unlink = None,
     op_mount = Some (procfs_mount self)\<rparr>"

section \<open>/sys\<close>

definition SYSFS_ENTRIES_MAX :: nat where "SYSFS_ENTRIES_MAX = 64"
definition SYSFS_NAME_LEN :: nat where "SYSFS_NAME_LEN = 32"
definition SYSFS_VAL_LEN :: nat where "SYSFS_VAL_LEN = 256"

text \<open>A read callback fills a buffer of the given size and returns a length; a write callback changes the state \<open>'x\<close> of the drivers.\<close>

record 'x sysfs_entry =
  sy_name :: "u8 list"
  sy_rd :: "(nat \<Rightarrow> kernel_view \<times> 'x \<Rightarrow> (u8 list \<times> u32) option) option"
  sy_wr :: "(u8 list \<Rightarrow> u32 \<Rightarrow> 'x \<Rightarrow> int \<times> 'x) option"
  sy_belegt :: bool

record 'x sysfs =
  eintraege :: "'x sysfs_entry list"
  sy_view :: kernel_view
  sy_drivers :: 'x

definition sysfs_zero :: "'x sysfs_entry" where
  "sysfs_zero = \<lparr>sy_name = replicate SYSFS_NAME_LEN 0, sy_rd = None, sy_wr = None, sy_belegt = False\<rparr>"

definition sysfs_rd_version :: "nat \<Rightarrow> kernel_view \<times> 'x \<Rightarrow> (u8 list \<times> u32) option" where
  "sysfs_rd_version mx s = snprintf mx (fline ''PinguinOS 2.3'') []"

definition sysfs_rd_uptime :: "nat \<Rightarrow> kernel_view \<times> 'x \<Rightarrow> (u8 list \<times> u32) option" where
  "sysfs_rd_uptime mx s = snprintf mx (fline ''%u'') [AInt (kv_uptime_ms (fst s))]"

definition sysfs_rd_meminfo :: "nat \<Rightarrow> kernel_view \<times> 'x \<Rightarrow> (u8 list \<times> u32) option" where
  "sysfs_rd_meminfo mx s = snprintf mx (fline ''FreeKB: %u'') [AInt (kv_free_pages (fst s) * 4096 div 1024)]"

definition sysfs_rd_scheduler :: "nat \<Rightarrow> kernel_view \<times> 'x \<Rightarrow> (u8 list \<times> u32) option" where
  "sysfs_rd_scheduler mx s = snprintf mx (fline ''Tasks: %u  Laufzeit: %u ms'') [AInt (kv_task_count (fst s)), AInt (kv_uptime_ms (fst s))]"

definition sysfs_rd_cpuid :: "nat \<Rightarrow> kernel_view \<times> 'x \<Rightarrow> (u8 list \<times> u32) option" where
  "sysfs_rd_cpuid mx s = snprintf mx (fline ''%s'') [AStr (Some (kv_brand (fst s)))]"

definition sysfs_register :: "cstr \<Rightarrow> (nat \<Rightarrow> kernel_view \<times> 'x \<Rightarrow> (u8 list \<times> u32) option) option \<Rightarrow>
    (u8 list \<Rightarrow> u32 \<Rightarrow> 'x \<Rightarrow> int \<times> 'x) option \<Rightarrow> 'x sysfs \<Rightarrow> int \<times> 'x sysfs" where
  "sysfs_register name rd wr s =
     (case find_idx (\<lambda>e. \<not> sy_belegt e) (eintraege s) of
        None \<Rightarrow> (- 1, s)
      | Some i \<Rightarrow>
          (0, s\<lparr>eintraege := (eintraege s)[i := (eintraege s ! i)\<lparr>sy_name := put_at (sy_name (eintraege s ! i)) 0 (strncpy name (SYSFS_NAME_LEN - 1)),
                 sy_rd := rd, sy_wr := wr, sy_belegt := True\<rparr>]\<rparr>))"

definition sysfs_has :: "cstr \<Rightarrow> 'x sysfs_entry \<Rightarrow> bool" where
  "sysfs_has name e \<longleftrightarrow> sy_belegt e \<and> strcmp (sy_name e) name = 0"

definition sysfs_unregister :: "cstr \<Rightarrow> 'x sysfs \<Rightarrow> 'x sysfs" where
  "sysfs_unregister name s =
     (case find_idx (sysfs_has name) (eintraege s) of
        None \<Rightarrow> s
      | Some i \<Rightarrow> s\<lparr>eintraege := (eintraege s)[i := (eintraege s ! i)\<lparr>sy_belegt := False\<rparr>]\<rparr>)"

type_synonym 'x sys_world = "'x sysfs fs_world"

definition sysfs_read :: "nat \<Rightarrow> u32 \<Rightarrow> u32 \<Rightarrow> 'x sys_world \<Rightarrow> int \<times> u8 list" where
  "sysfs_read n offset sz w =
     (let s = fw_data w in
      case find_idx (sysfs_has (vn_name (fw_nodes w ! n))) (eintraege s) of
        None \<Rightarrow> (- 1, [])
      | Some i \<Rightarrow>
          (case sy_rd (eintraege s ! i) of
             None \<Rightarrow> (0, [])
           | Some rd \<Rightarrow>
               (case rd SYSFS_VAL_LEN (sy_view s, sy_drivers s) of
                  None \<Rightarrow> (- 1, [])
                | Some (tmp, len) \<Rightarrow>
                    if sint len \<le> 0 then (0, [])
                    else if offset \<ge> len then (0, [])
                    else let k = len - offset; k = (if k > sz then sz else k)
                         in (sint k, take (unat k) (drop (unat offset) tmp)))))"

definition sysfs_write :: "nat \<Rightarrow> u32 \<Rightarrow> u32 \<Rightarrow> u8 list \<Rightarrow> 'x sys_world \<Rightarrow> (int \<times> 'x sys_world) option" where
  "sysfs_write n offset sz buf w =
     (let s = fw_data w in
      case find_idx (sysfs_has (vn_name (fw_nodes w ! n))) (eintraege s) of
        None \<Rightarrow> Some (- 1, w)
      | Some i \<Rightarrow>
          (case sy_wr (eintraege s ! i) of
             None \<Rightarrow> Some (- 1, w)
           | Some wr \<Rightarrow>
               let (r, x) = wr buf sz (sy_drivers s) in Some (if r = 0 then sint sz else - 1, w\<lparr>fw_data := s\<lparr>sy_drivers := x\<rparr>\<rparr>)))"

definition sysfs_readdir :: "nat \<Rightarrow> u32 \<Rightarrow> vfs_dirent \<Rightarrow> 'x sys_world \<Rightarrow> vfs_dirent option" where
  "sysfs_readdir n index out w =
     (let es = filter sy_belegt (eintraege (fw_data w)) in
      if unat index < length es then
        Some (out\<lparr>de_name := put_at (de_name out) 0 (strncpy (sy_name (es ! unat index)) 255), de_type := ucast VFS_FILE\<rparr>)
      else None)"

definition sys_node :: "vfs_node \<Rightarrow> 'x sys_world \<Rightarrow> nat option \<times> 'x sys_world" where
  "sys_node v w =
     (if kv_can (sy_view (fw_data w)) (length (fw_nodes w)) then (Some (length (fw_nodes w)), w\<lparr>fw_nodes := fw_nodes w @ [v]\<rparr>) else (None, w))"

definition sysfs_finddir :: "nat \<Rightarrow> nat \<Rightarrow> cstr \<Rightarrow> 'x sys_world \<Rightarrow> nat option \<times> 'x sys_world" where
  "sysfs_finddir self parent name w =
     (let s = fw_data w in
      case find_idx (sysfs_has name) (eintraege s) of
        None \<Rightarrow> (None, w)
      | Some i \<Rightarrow>
          sys_node (node_zero\<lparr>vn_name := put_at (vn_name node_zero) 0 (strncpy (sy_name (eintraege s ! i)) 255), vn_flags := VFS_FILE,
            vn_size := of_nat SYSFS_VAL_LEN, vn_ops := Some self\<rparr>) w)"

definition sysfs_mount :: "nat \<Rightarrow> cstr option \<Rightarrow> u32 \<Rightarrow> 'x sys_world \<Rightarrow> nat option \<times> 'x sys_world" where
  "sysfs_mount self device flags w =
     (let s = (fw_data w)\<lparr>eintraege := replicate SYSFS_ENTRIES_MAX sysfs_zero\<rparr>;
          s = snd (sysfs_register (asc ''version'') (Some sysfs_rd_version) None s);
          s = snd (sysfs_register (asc ''uptime'') (Some sysfs_rd_uptime) None s);
          s = snd (sysfs_register (asc ''meminfo'') (Some sysfs_rd_meminfo) None s);
          s = snd (sysfs_register (asc ''scheduler'') (Some sysfs_rd_scheduler) None s);
          s = snd (sysfs_register (asc ''cpuid'') (Some sysfs_rd_cpuid) None s)
      in sys_node (node_zero\<lparr>vn_name := put_at (vn_name node_zero) 0 (asc ''/'' @ [0]), vn_flags := VFS_DIR, vn_ops := Some self\<rparr>)
           (w\<lparr>fw_data := s\<rparr>))"

definition sysfs_ops :: "nat \<Rightarrow> 'x sysfs fs_ops" where
  "sysfs_ops self = \<lparr>op_name = asc ''sysfs'', op_read = Some sysfs_read, op_write = Some sysfs_write, op_close = None,
     op_readdir = Some sysfs_readdir, op_finddir = Some (sysfs_finddir self), op_mkdir = None, op_unlink = None,
     op_mount = Some (sysfs_mount self)\<rparr>"

section \<open>The texts\<close>

lemma snprintf_text_of:
  assumes "vsn_out fmt args = Some out" "length out < n"
  shows "snprintf n fmt args = Some (out @ replicate (n - length out) 0, of_nat (length out))"
proof -
  have "vsnprintf (replicate n 0) n fmt args \<noteq> None" using assms(1) by (simp add: vsnprintf_def)
  then obtain b l where v: "vsnprintf (replicate n 0) n fmt args = Some (b, l)" by auto
  have "0 < n" "n \<le> length (replicate n (0 :: u8))" using assms(2) by simp_all
  from vsnprintf_writes [OF v this] obtain out' where o: "vsn_out fmt args = Some out'" "l = length out'"
    "b = take (n - 1) out' @ [0] @ drop (min (n - 1) l + 1) (replicate n 0)" by blast
  have "b = out @ replicate (Suc (n - (length out + 1))) 0" "l = length out" using o assms by (simp_all add: min_def)
  moreover have "Suc (n - (length out + 1)) = n - length out" using assms(2) by simp
  ultimately show ?thesis using v by (simp only: snprintf_def) simp
qed

lemma length_word_digits: "unat val < 2 ^ k \<Longrightarrow> length (word_digits base val) \<le> k"
proof (induction k arbitrary: val)
  case 0
  then have "val = 0" by (simp add: unat_eq_0)
  then show ?case by (simp add: word_digits.simps)
next
  case (Suc k)
  show ?case
  proof (cases "val = 0 \<or> base < 2")
    case False
    then have "2 \<le> unat base" by (simp add: word_le_nat_alt not_less)
    then have "unat val div unat base \<le> unat val div 2" by (rule div_le_mono2 [rotated]) simp
    then have "unat (val div base) < 2 ^ k" using Suc.prems by (simp add: unat_div)
    from Suc.IH [OF this] show ?thesis by (subst word_digits.simps) simp
  qed (auto simp: word_digits.simps)
qed

lemma length_uitoa: "length (uitoa val base up) \<le> 32"
  using length_word_digits [of val 32 "of_int base"] unat_u32_less [of val]
  by (simp add: uitoa_def uitoa_loop_digits Let_def)

abbreviation dec :: "u32 \<Rightarrow> cstr" where "dec n \<equiv> uitoa n 10 False"

abbreviation eol :: cstr where "eol \<equiv> [10]"

text \<open>What the five files say.\<close>

definition proc_text :: "kernel_view \<Rightarrow> nat \<Rightarrow> cstr" where
  "proc_text v i =
     (if i = 0 then dec (kv_uptime_ms v div 1000) @ asc ''.'' @ padded False 48 3 (dec (kv_uptime_ms v mod 1000)) @ eol
      else if i = 1 then
        asc ''HeapUsed:      '' @ padded False 32 8 (dec (kv_heap_used v div 1024)) @ fline '' kB'' @
        asc ''HeapFree:      '' @ padded False 32 8 (dec (kv_heap_avail v div 1024)) @ fline '' kB'' @
        asc ''HeapTotal:     '' @ padded False 32 8 (dec ((kv_heap_used v + kv_heap_avail v) div 1024)) @ fline '' kB''
      else if i = 2 then
        asc ''vendor_id  : '' @ cstring (kv_vendor v) @ eol @ asc ''model name : '' @ cstring (kv_brand v) @ eol @
        asc ''cpu family : '' @ dec (kv_family v) @ eol @ asc ''model      : '' @ dec (kv_model v) @ eol @
        asc ''stepping   : '' @ dec (kv_stepping v) @ eol @ asc ''flags_edx  : 0x'' @ padded False 48 8 (uitoa (kv_edx v) 16 False) @ eol @
        asc ''flags_ecx  : 0x'' @ padded False 48 8 (uitoa (kv_ecx v) 16 False) @ eol
      else if i = 3 then
        asc ''all       RX-pkts: '' @ dec (ucast (kv_rx_packets v)) @ asc ''  RX-bytes: '' @ dec (ucast (kv_rx_bytes v)) @
        asc ''  TX-pkts: '' @ dec (ucast (kv_tx_packets v)) @ asc ''  TX-bytes: '' @ dec (ucast (kv_tx_bytes v)) @ eol
      else asc ''tasks_active: '' @ dec (kv_task_count v) @ eol @ asc ''uptime_ms:    '' @ dec (kv_uptime_ms v) @ eol)"

lemmas vsn_eval = fline_def asc_def vsn_out.simps vsn_directive_def vsn_flags_def vsn_conv_def

lemma meminfo_text:
  "vsn_out (fline ''HeapUsed:      %8u kB'' @ fline ''HeapFree:      %8u kB'' @ fline ''HeapTotal:     %8u kB'') [AInt a, AInt b, AInt c] =
   Some (asc ''HeapUsed:      '' @ padded False 32 8 (dec a) @ fline '' kB'' @ asc ''HeapFree:      '' @ padded False 32 8 (dec b) @ fline '' kB'' @
         asc ''HeapTotal:     '' @ padded False 32 8 (dec c) @ fline '' kB'')"
  by (simp add: vsn_eval)

lemma cpuinfo_text:
  "vsn_out (fline ''vendor_id  : %s'' @ fline ''model name : %s'' @ fline ''cpu family : %u'' @ fline ''model      : %u'' @
         fline ''stepping   : %u'' @ fline ''flags_edx  : 0x%08x'' @ fline ''flags_ecx  : 0x%08x'')
     [AStr (Some s), AStr (Some t), AInt a, AInt b, AInt c, AInt d, AInt e] =
   Some (asc ''vendor_id  : '' @ cstring s @ eol @ asc ''model name : '' @ cstring t @ eol @
         asc ''cpu family : '' @ dec a @ eol @ asc ''model      : '' @ dec b @ eol @
         asc ''stepping   : '' @ dec c @ eol @ asc ''flags_edx  : 0x'' @ padded False 48 8 (uitoa d 16 False) @ eol @
         asc ''flags_ecx  : 0x'' @ padded False 48 8 (uitoa e 16 False) @ eol)"
  by (simp add: vsn_eval) (simp add: padded_def)

lemma netdev_text:
  "vsn_out (fline ''%-8s  RX-pkts: %u  RX-bytes: %u  TX-pkts: %u  TX-bytes: %u'') [AStr (Some (asc ''all'')), AInt a, AInt b, AInt c, AInt d] =
   Some (asc ''all       RX-pkts: '' @ dec a @ asc ''  RX-bytes: '' @ dec b @ asc ''  TX-pkts: '' @ dec c @ asc ''  TX-bytes: '' @ dec d @ eol)"
  by (simp add: vsn_eval) (simp add: padded_def cstring_def numeral_eq_Suc)

lemma tasks_text:
  "vsn_out (fline ''tasks_active: %u'' @ fline ''uptime_ms:    %u'') [AInt a, AInt b] =
   Some (asc ''tasks_active: '' @ dec a @ eol @ asc ''uptime_ms:    '' @ dec b @ eol)"
  by (simp add: vsn_eval) (simp add: padded_def)

lemma length_padded: "length (padded la pc w txt) \<le> w + length txt" by (simp add: padded_def)

lemma uptime_text_eol: "vsn_out (fline ''%u.%03u'') [AInt a, AInt b] = Some (dec a @ asc ''.'' @ padded False 48 3 (dec b) @ eol)"
  by (simp add: vsn_eval padded_def)

definition small_view :: "kernel_view \<Rightarrow> bool" where
  "small_view v \<longleftrightarrow> length (cstring (kv_vendor v)) < 13 \<and> length (cstring (kv_brand v)) < 49"

lemma length_proc_text:
  assumes "small_view v"
  shows "length (proc_text v i) < 2048"
proof -
  have u: "length (dec n) \<le> 32" "length (uitoa n 16 False) \<le> 32" for n by (rule length_uitoa)+
  have p: "length (padded False pc w (dec n)) \<le> w + 32" "length (padded False pc w (uitoa n 16 False)) \<le> w + 32" for pc w n
    using length_padded [of False pc w "dec n"] length_padded [of False pc w "uitoa n 16 False"] u(1) [of n] u(2) [of n] by linarith+
  note p1 = p(1) [where w = 3] p(1) [where w = 8] p(2) [where w = 8]
  consider "i = 0" | "i = 1" | "i = 2" | "i = 3" | "i > 3" by linarith
  then show ?thesis
  proof cases
    case 1
    then show ?thesis using u(1) [of "kv_uptime_ms v div 1000"] p(1) [of 48 3 "kv_uptime_ms v mod 1000"]
      by (simp add: proc_text_def asc_def fline_def)
  next
    case 2
    then show ?thesis using p(1) [of 32 8 "kv_heap_used v div 1024"] p(1) [of 32 8 "kv_heap_avail v div 1024"]
        p(1) [of 32 8 "(kv_heap_used v + kv_heap_avail v) div 1024"]
      by (simp add: proc_text_def asc_def fline_def)
  next
    case 3
    then show ?thesis using assms u(1) [of "kv_family v"] u(1) [of "kv_model v"] u(1) [of "kv_stepping v"]
        p(2) [of 48 8 "kv_edx v"] p(2) [of 48 8 "kv_ecx v"]
      by (simp add: proc_text_def asc_def fline_def small_view_def)
  next
    case 4
    then show ?thesis using u(1) [of "ucast (kv_rx_packets v)"] u(1) [of "ucast (kv_rx_bytes v)"] u(1) [of "ucast (kv_tx_packets v)"]
        u(1) [of "ucast (kv_tx_bytes v)"]
      by (simp add: proc_text_def asc_def fline_def)
  next
    case 5
    then show ?thesis using u(1) [of "kv_task_count v"] u(1) [of "kv_uptime_ms v"]
      by (simp add: proc_text_def asc_def fline_def)
  qed
qed

text \<open>A file of \<open>/proc\<close> is generated anew by each read, which returns the part asked for.\<close>

lemma gen_out:
  assumes "i < 5" "small_view v"
  shows "pf_gen (procfs_files ! i) 2048 v = Some (proc_text v i @ replicate (2048 - length (proc_text v i)) 0, of_nat (length (proc_text v i)))"
proof -
  have "\<exists>fmt args. pf_gen (procfs_files ! i) 2048 v = snprintf 2048 fmt args \<and> vsn_out fmt args = Some (proc_text v i)"
  proof -
    consider "i = 0" | "i = 1" | "i = 2" | "i = 3" | "i = 4" using assms(1) by linarith
    then show ?thesis
    proof cases
      case 1
      then show ?thesis by (simp add: procfs_files_def gen_uptime_def proc_text_def) (intro exI conjI, rule refl, simp add: uptime_text_eol)
    next
      case 2
      then show ?thesis by (simp add: procfs_files_def gen_meminfo_def proc_text_def) (intro exI conjI, rule refl, simp add: meminfo_text)
    next
      case 3
      then show ?thesis by (simp add: procfs_files_def gen_cpuinfo_def proc_text_def) (intro exI conjI, rule refl, simp add: cpuinfo_text)
    next
      case 4
      then show ?thesis by (simp add: procfs_files_def gen_netdev_def proc_text_def) (intro exI conjI, rule refl, simp add: netdev_text)
    next
      case 5
      then show ?thesis by (simp add: procfs_files_def gen_tasks_def proc_text_def) (intro exI conjI, rule refl, simp add: tasks_text)
    qed
  qed
  then show ?thesis using snprintf_text_of length_proc_text [OF assms(2), of i] by metis
qed

lemma procfs_read_slice:
  assumes "i < 5" "small_view (fw_data w)" "vn_fs_data (fw_nodes w ! n) = i + 1"
  shows "procfs_read n off sz w = (let b = take (unat sz) (drop (unat off) (proc_text (fw_data w) i)) in (int (length b), b))"
proof -
  let ?t = "proc_text (fw_data w) i"
  have len: "length ?t < 2048" by (rule length_proc_text [OF assms(2)])
  then have u: "unat (of_nat (length ?t) :: u32) = length ?t" by (simp add: unat_of_nat take_bit_nat_eq_self)
  show ?thesis
  proof (cases "off \<ge> of_nat (length ?t)")
    case True
    then show ?thesis using assms u by (simp add: procfs_read_def gen_out Let_def word_le_nat_alt)
  next
    case False
    define k where "k = (if sz < of_nat (length ?t) - off then sz else of_nat (length ?t) - off)"
    have "unat (of_nat (length ?t) - off) = length ?t - unat off" using False u by (simp add: unat_sub not_le word_le_nat_alt)
    then have k: "unat k = min (unat sz) (length ?t - unat off)" by (auto simp: k_def word_less_nat_alt)
    then have "sint k = int (unat k)" using len by (intro sint_small) simp
    then show ?thesis using False assms k len
      by (simp add: procfs_read_def gen_out Let_def k_def [symmetric] min_def)
  qed
qed

section \<open>From the mount to the text\<close>

lemma better_mount_unused: "\<not> mt_used m \<Longrightarrow> better_mount path m best = best"
  by (simp add: better_mount_def Let_def)

lemma best_mount_single:
  assumes "\<forall>m \<in> set ms. \<not> mt_used m"
  shows "fold (better_mount path) ms best = best"
  using assms by (induction ms) (simp_all add: better_mount_unused)

lemma strchr_absent: "c \<notin> set s \<Longrightarrow> c \<noteq> 0 \<Longrightarrow> strchr s c = None"
  by (induction s) auto

lemma walk_one:
  assumes "0 \<notin> set name" "47 \<notin> set name" "name \<noteq> []" "length name < 256" "node_op op_finddir tab n w = Some fd"
  shows "vfs_walk tab (Some n) name w = fd n (name @ [0]) w"
proof -
  have "component_len name = length name" using strchr_absent [OF assms(2)] by (simp add: component_len_def)
  moreover have "strncpy name (length name) = name" using assms(1) by (simp add: strncpy_eq)
  moreover have "vfs_walk tab node [] w' = (node, w')" for node w' by (cases node) (simp_all add: vfs_walk.simps)
  ultimately show ?thesis using assms(3-5) by (subst vfs_walk.simps) (simp add: Let_def skip_slashes_def case_prod_unfold)
qed

definition proc_mounted :: "nat \<Rightarrow> (nat \<Rightarrow> kernel_view fs_ops) \<Rightarrow> kernel_view vfs \<Rightarrow> kernel_view vfs" where
  "proc_mounted k tab s = snd (vfs_mount tab (asc ''/proc'') None (asc ''procfs'') 0 (vfs_register_fs k (vfs_init s)))"

definition proc_root :: "nat \<Rightarrow> vfs_node" where
  "proc_root k = node_zero\<lparr>vn_name := put_at (vn_name node_zero) 0 (asc ''proc'' @ [0]), vn_flags := VFS_DIR, vn_ops := Some k\<rparr>"

lemma proc_mounted_eq:
  assumes "tab k = procfs_ops k" "\<And>n. kv_can (fw_data (vf_world s)) n"
  shows "vf_world (proc_mounted k tab s) = (vf_world s)\<lparr>fw_nodes := fw_nodes (vf_world s) @ [proc_root k]\<rparr>"
    "\<exists>ms m. vf_mounts (proc_mounted k tab s) = m # ms \<and> mt_used m \<and> mount_path m = asc ''/proc'' \<and>
       mt_root m = length (fw_nodes (vf_world s)) \<and> (\<forall>x \<in> set ms. \<not> mt_used x)"
proof -
  have n: "strcmp (asc ''procfs'') (asc ''procfs'') = 0" by code_simp
  have p: "cstring (strncpy (asc ''/proc'') 255 @ [0]) = asc ''/proc''" by code_simp
  have e: "proc_mounted k tab s = \<lparr>vf_mounts = \<lparr>mt_path = strncpy (asc ''/proc'') 255 @ [0], mt_root = length (fw_nodes (vf_world s)), mt_ops = k, mt_used = True\<rparr> #
      replicate 15 \<lparr>mt_path = replicate VFS_PATH_MAX 0, mt_root = 0, mt_ops = 0, mt_used = False\<rparr>, vf_registry = [k],
      vf_world = (vf_world s)\<lparr>fw_nodes := fw_nodes (vf_world s) @ [proc_root k]\<rparr>\<rparr>"
    using assms n by (simp add: proc_mounted_def vfs_mount_def vfs_register_fs_def vfs_init_def VFS_MAX_MOUNTS_def VFS_MAX_FS_def
        procfs_ops_def procfs_mount_def proc_node_def proc_root_def numeral_eq_Suc VFS_PATH_MAX_def)
  show "vf_world (proc_mounted k tab s) = (vf_world s)\<lparr>fw_nodes := fw_nodes (vf_world s) @ [proc_root k]\<rparr>" by (simp add: e)
  show "\<exists>ms m. vf_mounts (proc_mounted k tab s) = m # ms \<and> mt_used m \<and> mount_path m = asc ''/proc'' \<and>
       mt_root m = length (fw_nodes (vf_world s)) \<and> (\<forall>x \<in> set ms. \<not> mt_used x)"
    by (simp add: e mount_path_def p)
qed

text \<open>A path below \<open>/proc\<close> with one component after it is looked up in the table of files.\<close>

lemma proc_lookup:
  assumes "tab k = procfs_ops k" "\<And>n. kv_can (fw_data (vf_world s)) n" "0 \<notin> set name"
    and "\<And>root w. node_op op_finddir tab root w = Some (procfs_finddir k) \<Longrightarrow> vfs_walk tab (Some root) name w = r root w" "name = [] \<or> hd name \<noteq> 47"
  shows "vfs_lookup tab (asc ''/proc/'' @ name) (proc_mounted k tab s) =
    (case r (length (fw_nodes (vf_world s))) (vf_world (proc_mounted k tab s)) of (n, w) \<Rightarrow> (n, (proc_mounted k tab s)\<lparr>vf_world := w\<rparr>))"
proof -
  let ?s = "proc_mounted k tab s"
  obtain ms m where m: "vf_mounts ?s = m # ms" "mt_used m" "mount_path m = asc ''/proc''" "mt_root m = length (fw_nodes (vf_world s))"
    "\<forall>x \<in> set ms. \<not> mt_used x" using proc_mounted_eq(2) [where k = k and tab = tab and s = s, OF assms(1,2)] by blast
  have nz: "0 \<notin> set (asc ''/proc/'' @ name)" using assms(3) by (simp add: asc_def)
  have a: "applies (asc ''/proc/'' @ name) m" using m(2,3) by (simp add: applies_def asc_def)
  have best: "best_mount (asc ''/proc/'' @ name) (m # ms) = Some m"
    using best_mount_single [OF m(5)] better_mount_eq [OF nz, of m None] a m(3) by (simp add: best_mount_def applies_def)
  have rel: "skip_slashes (drop (length (cstring (mt_path m))) (cstring (asc ''/proc/'' @ name))) = name"
    using m(3) cstring_id [OF nz] assms(5) unfolding mount_path_def by (cases name) (auto simp: skip_slashes_def asc_def)
  have "node_op op_finddir tab (length (fw_nodes (vf_world s))) (vf_world ?s) = Some (procfs_finddir k)"
    by (simp add: node_op_def proc_mounted_eq(1) [where k = k and tab = tab and s = s, OF assms(1,2)] proc_root_def assms(1) procfs_ops_def)
  from assms(4) [OF this] show ?thesis by (simp add: vfs_lookup_def m(1,4) best rel Let_def)
qed

lemma proc_names:
  "\<forall>i \<in> {0, 1, 2, 4}. let name = pf_name (procfs_files ! i) in 0 \<notin> set name \<and> 47 \<notin> set name \<and> name \<noteq> [] \<and> length name < 256 \<and>
     find_idx (\<lambda>f. strcmp (pf_name f) (name @ [0]) = 0) procfs_files = Some i"
  by code_simp


definition view_demo :: kernel_view where
  "view_demo = \<lparr>kv_uptime_ms = 12345, kv_heap_used = 0, kv_heap_avail = 0, kv_vendor = [0], kv_brand = [0], kv_family = 6, kv_model = 1,
     kv_stepping = 1, kv_edx = 0, kv_ecx = 0, kv_rx_packets = 0, kv_rx_bytes = 0, kv_tx_packets = 0, kv_tx_bytes = 0, kv_task_count = 1,
     kv_free_pages = 0, kv_can = (\<lambda>_. True)\<rparr>"

definition proc_demo :: "kernel_view vfs" where
  "proc_demo = \<lparr>vf_mounts = [], vf_registry = [], vf_world = \<lparr>fw_nodes = [], fw_data = view_demo\<rparr>\<rparr>"


text \<open>A path is split at each slash, so that the file "net/dev" is listed but can never be opened.\<close>

lemma procfs_netdev_unreachable:
  assumes "tab k = procfs_ops k" "\<And>n. kv_can (fw_data (vf_world s)) n"
  shows "fst (vfs_open tab (asc ''/proc/net/dev'') flags (proc_mounted k tab s)) = None"
proof -
  have walk: "vfs_walk tab (Some root) (asc ''net/dev'') w = (None, w)" if "node_op op_finddir tab root w = Some (procfs_finddir k)" for root w
  proof -
    have "component_len (asc ''net/dev'') = 3" "asc ''net/dev'' \<noteq> []"
      "find_idx (\<lambda>f. strcmp (pf_name f) (strncpy (asc ''net/dev'') 3 @ [0]) = 0) procfs_files = None" by code_simp+
    then show ?thesis using that by (subst vfs_walk.simps) (simp add: Let_def procfs_finddir_def)
  qed
  have nm: "asc ''/proc/net/dev'' = asc ''/proc/'' @ asc ''net/dev''" by (simp add: asc_def)
  have "0 \<notin> set (asc ''net/dev'')" "asc ''net/dev'' = [] \<or> hd (asc ''net/dev'') \<noteq> 47" by (simp_all add: asc_def)
  from proc_lookup [where k = k and tab = tab and s = s and r = "\<lambda>_ w. (None, w)", OF assms this(1) walk this(2)]
  show ?thesis by (simp add: vfs_open_def nm)
qed

section \<open>The table of /sys\<close>

definition sysfs_names_ok :: "'x sysfs \<Rightarrow> bool" where
  "sysfs_names_ok s \<longleftrightarrow> (\<forall>e \<in> set (eintraege s). length (sy_name e) = 32 \<and> sy_name e ! 31 = 0)"

lemma put_name:
  assumes "length buf = 32" "buf ! 31 = (0 :: u8)"
  shows "length (put_at buf 0 (strncpy name 31)) = 32" "put_at buf 0 (strncpy name 31) ! 31 = 0"
    "0 \<notin> set name \<Longrightarrow> length name \<le> 31 \<Longrightarrow> cstring (put_at buf 0 (strncpy name 31)) = name"
proof -
  have l: "length (strncpy name 31) = 31" by (simp add: strncpy_eq)
  have d: "drop 31 buf = [0]" using assms by (intro nth_equalityI) auto
  have e: "put_at buf 0 (strncpy name 31) = strncpy name 31 @ [0]" using l d by (simp add: put_at_def)
  show "length (put_at buf 0 (strncpy name 31)) = 32" "put_at buf 0 (strncpy name 31) ! 31 = 0" using l by (simp_all add: e nth_append)
  assume "0 \<notin> set name" "length name \<le> 31"
  then show "cstring (put_at buf 0 (strncpy name 31)) = name" unfolding e cstring_strncpy by (simp add: cstring_id)
qed

lemma sysfs_register_names: "sysfs_names_ok s \<Longrightarrow> sysfs_names_ok (snd (sysfs_register name rd wr s))"
  using put_name
  by (auto simp: sysfs_register_def sysfs_names_ok_def SYSFS_NAME_LEN_def dest!: subsetD [OF set_update_subset_insert] dest: find_idx_SomeD(1)
      split: option.splits)

text \<open>What is registered under a new name is what a node of that name reads.\<close>

lemma sysfs_register_found:
  assumes "sysfs_names_ok s" "0 \<notin> set name" "length name \<le> 31" "find_idx (sysfs_has name) (eintraege s) = None"
    and "sysfs_register name rd wr s = (0, s')"
  shows "\<exists>i. find_idx (sysfs_has name) (eintraege s') = Some i \<and> sy_rd (eintraege s' ! i) = rd \<and> sy_wr (eintraege s' ! i) = wr"
proof -
  obtain i where i: "find_idx (\<lambda>e. \<not> sy_belegt e) (eintraege s) = Some i"
    and s': "s' = s\<lparr>eintraege := (eintraege s)[i := (eintraege s ! i)\<lparr>sy_name := put_at (sy_name (eintraege s ! i)) 0 (strncpy name 31),
                 sy_rd := rd, sy_wr := wr, sy_belegt := True\<rparr>]\<rparr>"
    using assms(5) by (auto simp: sysfs_register_def SYSFS_NAME_LEN_def split: option.splits)
  have l: "i < length (eintraege s)" using i by (rule find_idx_SomeD)
  have "cstring (put_at (sy_name (eintraege s ! i)) 0 (strncpy name 31)) = name"
    using assms(1-3) l by (intro put_name(3)) (simp_all add: sysfs_names_ok_def)
  moreover have "\<not> sysfs_has name (eintraege s ! j)" if "j < length (eintraege s)" for j
    using assms(4) that by (simp add: find_idx_None)
  ultimately have "find_idx (sysfs_has name) (eintraege s') = Some i"
    using l assms(2) by (intro find_idx_unique) (auto simp: s' sysfs_has_def strcmp_cstring nth_list_update split: if_splits)
  then show ?thesis using l by (simp add: s')
qed

text \<open>A callback that reports more than the 256 bytes of the buffer makes the read return bytes behind it.\<close>

lemma sysfs_read_past_buffer:
  assumes "find_idx (sysfs_has (vn_name (fw_nodes w ! n))) (eintraege (fw_data w)) = Some i" "sy_rd (eintraege (fw_data w) ! i) = Some rd"
    and "rd 256 (sy_view (fw_data w), sy_drivers (fw_data w)) = Some (tmp, len)" "length tmp = 256" "256 < len" "len \<le> sz" "unat len < 2 ^ 31"
  shows "fst (sysfs_read n 0 sz w) > int (length (snd (sysfs_read n 0 sz w)))"
proof -
  have sl: "sint len = int (unat len)" by (rule sint_small [OF assms(7)])
  have "\<not> sz < len" "\<not> sint len \<le> 0" "\<not> 0 \<ge> len" "256 \<le> unat len"
    using assms(5-7) by (auto simp: sl word_less_nat_alt word_le_nat_alt simp del: of_nat_unat uint_0_iff)
  then have "sysfs_read n 0 sz w = (sint len, tmp)"
    using assms(1-4) by (simp only: sysfs_read_def SYSFS_VAL_LEN_def Let_def option.case prod.case if_False diff_zero unat_0 drop0) simp
  moreover have "int 256 < sint len" using assms(5) by (simp add: sl word_less_nat_alt del: of_nat_unat)
  ultimately show ?thesis using assms(4) by simp
qed

end
