(* ===== verification/Pci.thy ===== *)
theory Pci
  imports Prelude
begin

text \<open>
  The PCI bus (\<open>drivers/pci.c\<close>, \<open>include/pci.h\<close>): access to the configuration space, the enumeration of all buses into a table
  of 64 devices, and the searches of the drivers. The configuration space is an argument, a function from the value of the
  address port to the double word that the data port answers; what is written is a list of address and value. \<open>pci_dump\<close> only prints.
\<close>

section \<open>Constants and descriptors\<close>

definition PCI_REG_VENDOR_ID :: u8 where "PCI_REG_VENDOR_ID = 0x00"
definition PCI_REG_DEVICE_ID :: u8 where "PCI_REG_DEVICE_ID = 0x02"
definition PCI_REG_COMMAND :: u8 where "PCI_REG_COMMAND = 0x04"
definition PCI_REG_REVISION :: u8 where "PCI_REG_REVISION = 0x08"
definition PCI_REG_PROG_IF :: u8 where "PCI_REG_PROG_IF = 0x09"
definition PCI_REG_SUBCLASS :: u8 where "PCI_REG_SUBCLASS = 0x0A"
definition PCI_REG_CLASS :: u8 where "PCI_REG_CLASS = 0x0B"
definition PCI_REG_HEADER_TYPE :: u8 where "PCI_REG_HEADER_TYPE = 0x0E"
definition PCI_REG_BAR0 :: u8 where "PCI_REG_BAR0 = 0x10"
definition PCI_REG_INT_LINE :: u8 where "PCI_REG_INT_LINE = 0x3C"
definition PCI_REG_INT_PIN :: u8 where "PCI_REG_INT_PIN = 0x3D"
definition PCI_CMD_BUS_MASTER :: u16 where "PCI_CMD_BUS_MASTER = push_bit 2 1"
definition PCI_VENDOR_NONE :: u16 where "PCI_VENDOR_NONE = 0xFFFF"
definition PCI_MAX_BUS :: nat where "PCI_MAX_BUS = 256"
definition PCI_MAX_DEVICE :: nat where "PCI_MAX_DEVICE = 32"
definition PCI_MAX_FUNCTION :: nat where "PCI_MAX_FUNCTION = 8"
definition PCI_MAX_DEVICES :: nat where "PCI_MAX_DEVICES = 64"

record pci_device =
  pd_bus :: u8
  pd_device :: u8
  pd_function :: u8
  pd_vendor_id :: u16
  pd_device_id :: u16
  pd_class_code :: u8
  pd_subclass :: u8
  pd_prog_if :: u8
  pd_revision :: u8
  pd_header_type :: u8
  pd_int_line :: u8
  pd_int_pin :: u8
  pd_bar :: "u32 list"

record pci_table =
  devices :: "pci_device list"
  device_count :: u32

definition pci_device_zero :: pci_device where
  "pci_device_zero = \<lparr>pd_bus = 0, pd_device = 0, pd_function = 0, pd_vendor_id = 0, pd_device_id = 0, pd_class_code = 0, pd_subclass = 0,
     pd_prog_if = 0, pd_revision = 0, pd_header_type = 0, pd_int_line = 0, pd_int_pin = 0, pd_bar = replicate 6 0\<rparr>"

section \<open>Configuration space\<close>

type_synonym pci_cfg = "u32 \<Rightarrow> u32"

definition pci_addr :: "u8 \<Rightarrow> u8 \<Rightarrow> u8 \<Rightarrow> u8 \<Rightarrow> u32" where
  "pci_addr bus dev func reg =
     push_bit 31 1 OR push_bit 16 (ucast bus) OR push_bit 11 (ucast dev) OR push_bit 8 (ucast func) OR (ucast reg AND 0xFC)"

definition pci_read32 :: "pci_cfg \<Rightarrow> u8 \<Rightarrow> u8 \<Rightarrow> u8 \<Rightarrow> u8 \<Rightarrow> u32" where
  "pci_read32 cfg bus dev func reg = cfg (pci_addr bus dev func reg)"

definition pci_read16 :: "pci_cfg \<Rightarrow> u8 \<Rightarrow> u8 \<Rightarrow> u8 \<Rightarrow> u8 \<Rightarrow> u16" where
  "pci_read16 cfg bus dev func reg =
     (let val = pci_read32 cfg bus dev func (reg AND NOT 3) in ucast (drop_bit (unat (reg AND 2) * 8) val AND 0xFFFF))"

definition pci_read8 :: "pci_cfg \<Rightarrow> u8 \<Rightarrow> u8 \<Rightarrow> u8 \<Rightarrow> u8 \<Rightarrow> u8" where
  "pci_read8 cfg bus dev func reg =
     (let val = pci_read32 cfg bus dev func (reg AND NOT 3) in ucast (drop_bit (unat (reg AND 3) * 8) val AND 0xFF))"

definition pci_write32 :: "u8 \<Rightarrow> u8 \<Rightarrow> u8 \<Rightarrow> u8 \<Rightarrow> u32 \<Rightarrow> (u32 \<times> u32) list \<Rightarrow> (u32 \<times> u32) list" where
  "pci_write32 bus dev func reg val out = out @ [(pci_addr bus dev func reg, val)]"

definition pci_enable_bus_master :: "pci_cfg \<Rightarrow> pci_device \<Rightarrow> (u32 \<times> u32) list \<Rightarrow> (u32 \<times> u32) list" where
  "pci_enable_bus_master cfg d out =
     (let cmd = pci_read16 cfg (pd_bus d) (pd_device d) (pd_function d) PCI_REG_COMMAND in
      if cmd AND PCI_CMD_BUS_MASTER = 0
      then pci_write32 (pd_bus d) (pd_device d) (pd_function d) PCI_REG_COMMAND (ucast (cmd OR PCI_CMD_BUS_MASTER)) out else out)"

section \<open>Enumeration\<close>

definition pci_describe :: "pci_cfg \<Rightarrow> u8 \<Rightarrow> u8 \<Rightarrow> u8 \<Rightarrow> pci_device" where
  "pci_describe cfg bus dev func =
     \<lparr>pd_bus = bus, pd_device = dev, pd_function = func,
      pd_vendor_id = pci_read16 cfg bus dev func PCI_REG_VENDOR_ID, pd_device_id = pci_read16 cfg bus dev func PCI_REG_DEVICE_ID,
      pd_class_code = pci_read8 cfg bus dev func PCI_REG_CLASS, pd_subclass = pci_read8 cfg bus dev func PCI_REG_SUBCLASS,
      pd_prog_if = pci_read8 cfg bus dev func PCI_REG_PROG_IF, pd_revision = pci_read8 cfg bus dev func PCI_REG_REVISION,
      pd_header_type = pci_read8 cfg bus dev func PCI_REG_HEADER_TYPE, pd_int_line = pci_read8 cfg bus dev func PCI_REG_INT_LINE,
      pd_int_pin = pci_read8 cfg bus dev func PCI_REG_INT_PIN,
      pd_bar = map (\<lambda>i. pci_read32 cfg bus dev func (PCI_REG_BAR0 + of_nat i * 4)) [0..<6]\<rparr>"

definition pci_check_function :: "pci_cfg \<Rightarrow> u8 \<Rightarrow> u8 \<Rightarrow> u8 \<Rightarrow> pci_table \<Rightarrow> pci_table" where
  "pci_check_function cfg bus dev func s =
     (if pci_read16 cfg bus dev func PCI_REG_VENDOR_ID = PCI_VENDOR_NONE then s
      else if unat (device_count s) \<ge> PCI_MAX_DEVICES then s
      else s\<lparr>device_count := device_count s + 1, devices := (devices s)[unat (device_count s) := pci_describe cfg bus dev func]\<rparr>)"

text \<open>One device: the functions 1 to 7 are asked only when the header of function 0 says that there are several.\<close>

definition pci_probe :: "pci_cfg \<Rightarrow> u8 \<Rightarrow> u8 \<Rightarrow> pci_table \<Rightarrow> pci_table" where
  "pci_probe cfg bus dev s =
     (if pci_read16 cfg bus dev 0 PCI_REG_VENDOR_ID = PCI_VENDOR_NONE then s
      else let max_func = (if pci_read8 cfg bus dev 0 PCI_REG_HEADER_TYPE AND 0x80 \<noteq> 0 then PCI_MAX_FUNCTION else 1)
           in fold (\<lambda>func. pci_check_function cfg bus dev (of_nat func)) [0..<max_func] s)"

definition pci_init :: "pci_cfg \<Rightarrow> pci_table" where
  "pci_init cfg =
     fold (\<lambda>bus. fold (\<lambda>dev. pci_probe cfg (of_nat bus) (of_nat dev)) [0..<PCI_MAX_DEVICE]) [0..<PCI_MAX_BUS]
       \<lparr>devices = replicate PCI_MAX_DEVICES pci_device_zero, device_count = 0\<rparr>"

definition pci_find_class :: "u8 \<Rightarrow> u8 \<Rightarrow> pci_table \<Rightarrow> pci_device option" where
  "pci_find_class class_code subclass s =
     find (\<lambda>d. pd_class_code d = class_code \<and> pd_subclass d = subclass) (take (unat (device_count s)) (devices s))"

definition pci_find_device :: "u16 \<Rightarrow> u16 \<Rightarrow> pci_table \<Rightarrow> pci_device option" where
  "pci_find_device vendor device_id s =
     find (\<lambda>d. pd_vendor_id d = vendor \<and> pd_device_id d = device_id) (take (unat (device_count s)) (devices s))"

section \<open>Addresses\<close>

text \<open>The fields of the address do not overlap: registers of different functions have different addresses.\<close>

lemma bit_u8_ucast: "bit (ucast (x :: u8) :: u32) n \<longleftrightarrow> n < 8 \<and> bit x n"
  by (auto simp: bit_simps dest: bit_imp_le_length)

lemma bit_0xFC: "bit (0xFC :: u32) n \<longleftrightarrow> 2 \<le> n \<and> n < 8"
proof -
  have eq: "(0xFC :: u32) = push_bit 2 (mask 6)" by (simp add: mask_eq_exp_minus_1 push_bit_eq_mult)
  show ?thesis unfolding eq bit_push_bit_iff bit_mask_iff by auto
qed

lemma bit_small: "unat (x :: u8) < 2 ^ k \<Longrightarrow> bit x n \<Longrightarrow> n < k"
  unfolding bit_word_odd by (metis div_less linorder_not_less odd_pos order.strict_trans2 power_increasing_iff one_less_numeral_iff semiring_norm(76) not_less_iff_gr_or_eq zero_neq_one neq0_conv)

lemma pci_addr_bits:
  assumes "unat dev < 32" "unat func < 8"
  shows "n < 8 \<Longrightarrow> bit (pci_addr bus dev func reg) (n + 16) \<longleftrightarrow> bit bus n"
    and "n < 5 \<Longrightarrow> bit (pci_addr bus dev func reg) (n + 11) \<longleftrightarrow> bit dev n"
    and "n < 3 \<Longrightarrow> bit (pci_addr bus dev func reg) (n + 8) \<longleftrightarrow> bit func n"
    and "2 \<le> n \<Longrightarrow> n < 8 \<Longrightarrow> bit (pci_addr bus dev func reg) n \<longleftrightarrow> bit reg n"
  using bit_small [of dev 5] bit_small [of func 3] assms
  unfolding pci_addr_def bit_or_iff bit_and_iff bit_push1 bit_push_bit_iff bit_u8_ucast bit_0xFC by auto

lemma pci_addr_inj:
  assumes "pci_addr bus dev func reg = pci_addr bus' dev' func' reg'" "unat dev < 32" "unat func < 8" "unat dev' < 32" "unat func' < 8"
    and "reg AND 3 = 0" "reg' AND 3 = 0"
  shows "bus = bus' \<and> dev = dev' \<and> func = func' \<and> reg = reg'"
proof -
  note b = pci_addr_bits [OF assms(2,3), of _ bus reg] and b' = pci_addr_bits [OF assms(4,5), of _ bus' reg']
  have low: "\<not> bit r n" if "r AND 3 = 0" "n < 2" for r :: u8 and n
  proof -
    have "r AND mask 2 = 0" using that(1) by (simp add: mask_eq_exp_minus_1)
    then have "\<not> bit (r AND mask 2) n" by simp
    then show ?thesis using that(2) by (simp add: bit_and_iff bit_mask_iff)
  qed
  show ?thesis
  proof (intro conjI bit_word_eqI)
    fix n assume "n < LENGTH(8)"
    then show "bit bus n = bit bus' n" using b(1) [of n] b'(1) [of n] assms(1) by simp
  next
    fix n assume "n < LENGTH(8)"
    show "bit dev n = bit dev' n"
      using b(2) [of n] b'(2) [of n] assms(1) bit_small [of dev 5 n] bit_small [of dev' 5 n] assms(2,4) by (cases "n < 5") auto
  next
    fix n assume "n < LENGTH(8)"
    show "bit func n = bit func' n"
      using b(3) [of n] b'(3) [of n] assms(1) bit_small [of func 3 n] bit_small [of func' 3 n] assms(3,5) by (cases "n < 3") auto
  next
    fix n assume "n < LENGTH(8)"
    then show "bit reg n = bit reg' n"
      using b(4) [of n] b'(4) [of n] assms(1) low [OF assms(6), of n] low [OF assms(7), of n] by (cases "2 \<le> n") auto
  qed
qed

section \<open>The table lists the functions that answer\<close>

text \<open>What the loops of the code collect, in terms of its own readers.\<close>

definition pci_functions :: "pci_cfg \<Rightarrow> u8 \<Rightarrow> u8 \<Rightarrow> u8 list" where
  "pci_functions cfg bus dev =
     (if pci_read16 cfg bus dev 0 PCI_REG_VENDOR_ID = PCI_VENDOR_NONE then []
      else filter (\<lambda>f. pci_read16 cfg bus dev f PCI_REG_VENDOR_ID \<noteq> PCI_VENDOR_NONE)
             (map of_nat [0..<(if bit (pci_read8 cfg bus dev 0 PCI_REG_HEADER_TYPE) 7 then 8 else 1)]))"

definition pci_found :: "pci_cfg \<Rightarrow> pci_device list" where
  "pci_found cfg = concat (map (\<lambda>b. concat (map (\<lambda>d. map (pci_describe cfg (of_nat b) (of_nat d)) (pci_functions cfg (of_nat b) (of_nat d)))
     [0..<32])) [0..<256])"

definition pci_listed :: "pci_table \<Rightarrow> pci_device list" where
  "pci_listed s = take (unat (device_count s)) (devices s)"

definition pci_ok :: "pci_table \<Rightarrow> bool" where
  "pci_ok s \<longleftrightarrow> length (devices s) = 64 \<and> unat (device_count s) \<le> 64"

lemma pci_fold:
  assumes "\<And>x s. pci_ok s \<Longrightarrow> pci_ok (f x s) \<and> pci_listed (f x s) = take 64 (pci_listed s @ g x)" "pci_ok s"
  shows "pci_ok (fold f xs s) \<and> pci_listed (fold f xs s) = take 64 (pci_listed s @ concat (map g xs))"
  using assms(2)
proof (induction xs arbitrary: s)
  case Nil
  then show ?case by (simp add: pci_ok_def pci_listed_def)
next
  case (Cons x xs)
  have "take 64 (take 64 (as @ bs) @ cs) = take 64 (as @ bs @ cs)" for as bs cs :: "pci_device list"
    by (simp add: take_append min_def)
  then show ?case using assms(1) [OF Cons.prems, of x] Cons.IH [of "f x s"] by simp
qed

lemma check_function_lists:
  assumes "pci_ok s"
  shows "pci_ok (pci_check_function cfg b d f s) \<and> pci_listed (pci_check_function cfg b d f s) =
    take 64 (pci_listed s @ (if pci_read16 cfg b d f PCI_REG_VENDOR_ID = PCI_VENDOR_NONE then [] else [pci_describe cfg b d f]))"
proof -
  have c: "unat (device_count s + 1) = Suc (unat (device_count s))" if "unat (device_count s) < 64"
    using that by (simp add: unat_word_ariths)
  have "length (pci_listed s) = unat (device_count s)" using assms by (simp add: pci_listed_def pci_ok_def)
  then show ?thesis using assms c
    by (auto simp: pci_check_function_def pci_ok_def pci_listed_def PCI_MAX_DEVICES_def take_Suc_conv_app_nth)
qed

lemma probe_lists:
  assumes "pci_ok s"
  shows "pci_ok (pci_probe cfg b d s) \<and>
    pci_listed (pci_probe cfg b d s) = take 64 (pci_listed s @ map (pci_describe cfg b d) (pci_functions cfg b d))"
proof -
  have top: "(r AND 0x80 \<noteq> 0) = bit r 7" for r :: u8
    using and_push1 [of r 7] by (simp add: push_bit_eq_mult)
  have conc: "concat (map (\<lambda>x. if P x then [] else [h x]) xs) = map h (filter (\<lambda>x. \<not> P x) xs)" for P h and xs :: "u8 list"
    by (induction xs) simp_all
  have fold: "fold (\<lambda>x. pci_check_function cfg b d (of_nat x)) [0..<m] s = fold (pci_check_function cfg b d) (map of_nat [0..<m]) s" for m
    by (simp add: fold_map comp_def)
  have step: "pci_ok (fold (pci_check_function cfg b d) (map of_nat [0..<m]) s) \<and>
      pci_listed (fold (pci_check_function cfg b d) (map of_nat [0..<m]) s) = take 64 (pci_listed s @
        map (pci_describe cfg b d) (filter (\<lambda>f. pci_read16 cfg b d f PCI_REG_VENDOR_ID \<noteq> PCI_VENDOR_NONE) (map of_nat [0..<m])))" for m
    using pci_fold [where f = "pci_check_function cfg b d", OF check_function_lists assms, of "map of_nat [0..<m]"] unfolding conc .
  show ?thesis
    using step [of 8] step [of 1] assms
    by (auto simp: pci_probe_def pci_functions_def top fold PCI_MAX_FUNCTION_def Let_def pci_ok_def pci_listed_def split: if_splits)
qed

lemma pci_init_found: "pci_listed (pci_init cfg) = take 64 (pci_found cfg)"
proof -
  let ?s = "\<lparr>devices = replicate 64 pci_device_zero, device_count = 0\<rparr>"
  have bus: "pci_ok (fold (\<lambda>dev. pci_probe cfg (of_nat bus) (of_nat dev)) [0..<32] s) \<and>
      pci_listed (fold (\<lambda>dev. pci_probe cfg (of_nat bus) (of_nat dev)) [0..<32] s) =
      take 64 (pci_listed s @ concat (map (\<lambda>d. map (pci_describe cfg (of_nat bus) (of_nat d)) (pci_functions cfg (of_nat bus) (of_nat d))) [0..<32]))"
    if "pci_ok s" for bus s by (rule pci_fold [OF probe_lists that])
  have "pci_ok ?s" by (simp add: pci_ok_def)
  from pci_fold [OF bus this, where xs = "[0..<256]"] show ?thesis
    by (simp only: pci_init_def pci_found_def PCI_MAX_BUS_def PCI_MAX_DEVICE_def PCI_MAX_DEVICES_def) (simp add: pci_listed_def)
qed

section \<open>What the bus says\<close>

text \<open>
  The reference, from the PCI specification: the double word \<open>r\<close> of a function is read at \<open>2^31 + 65536 bus + 2048 device + 256 function + r\<close>;
  its bytes follow one another from the low end. A function exists when its first half word, the vendor, is not 0xFFFF; functions 1 to 7 of a device exist only
  when the header type of function 0 has its top bit.
\<close>

definition cfg_dword :: "pci_cfg \<Rightarrow> nat \<Rightarrow> nat \<Rightarrow> nat \<Rightarrow> nat \<Rightarrow> nat" where
  "cfg_dword cfg b d f r = unat (cfg (of_nat (2 ^ 31 + b * 65536 + d * 2048 + f * 256 + r)))"

definition cfg_byte :: "pci_cfg \<Rightarrow> nat \<Rightarrow> nat \<Rightarrow> nat \<Rightarrow> nat \<Rightarrow> nat" where
  "cfg_byte cfg b d f r = cfg_dword cfg b d f (r - r mod 4) div 256 ^ (r mod 4) mod 256"

definition cfg_half :: "pci_cfg \<Rightarrow> nat \<Rightarrow> nat \<Rightarrow> nat \<Rightarrow> nat \<Rightarrow> nat" where
  "cfg_half cfg b d f r = cfg_byte cfg b d f r + 256 * cfg_byte cfg b d f (r + 1)"

definition cfg_function :: "pci_cfg \<Rightarrow> nat \<Rightarrow> nat \<Rightarrow> nat \<Rightarrow> pci_device" where
  "cfg_function cfg b d f =
     \<lparr>pd_bus = of_nat b, pd_device = of_nat d, pd_function = of_nat f,
      pd_vendor_id = of_nat (cfg_half cfg b d f 0), pd_device_id = of_nat (cfg_half cfg b d f 2),
      pd_class_code = of_nat (cfg_byte cfg b d f 11), pd_subclass = of_nat (cfg_byte cfg b d f 10),
      pd_prog_if = of_nat (cfg_byte cfg b d f 9), pd_revision = of_nat (cfg_byte cfg b d f 8),
      pd_header_type = of_nat (cfg_byte cfg b d f 14), pd_int_line = of_nat (cfg_byte cfg b d f 60), pd_int_pin = of_nat (cfg_byte cfg b d f 61),
      pd_bar = map (\<lambda>i. of_nat (cfg_dword cfg b d f (16 + 4 * i))) [0..<6]\<rparr>"

definition pci_present :: "pci_cfg \<Rightarrow> pci_device list" where
  "pci_present cfg = [cfg_function cfg b d f. b \<leftarrow> [0..<256], d \<leftarrow> [0..<32], f \<leftarrow> [0..<8],
     cfg_half cfg b d f 0 \<noteq> 0xFFFF, f = 0 \<or> cfg_half cfg b d 0 0 \<noteq> 0xFFFF \<and> 128 \<le> cfg_byte cfg b d 0 14]"

lemma or_high_low:
  assumes "unat (x :: u32) < 2 ^ k"
  shows "push_bit k y OR x = push_bit k y + x"
proof (rule disjunctive_add [symmetric])
  fix n
  have "n < k" if "bit x n"
  proof (rule ccontr)
    assume "\<not> n < k"
    then have "unat x < 2 ^ n" using assms by (meson linorder_not_less less_le_trans one_le_numeral power_increasing)
    then show False using that by (simp add: bit_word_odd)
  qed
  then show "\<not> bit (push_bit k y) n \<or> \<not> bit x n" by (auto simp: bit_push_bit_iff)
qed

lemma or_of_nat: "a < 2 ^ k \<Longrightarrow> y * 2 ^ k + a < 2 ^ 32 \<Longrightarrow> push_bit k (of_nat y) OR (of_nat a :: u32) = of_nat (y * 2 ^ k + a)"
  using or_high_low [of "of_nat a" k "of_nat y"] by (simp add: unat_of_nat push_bit_eq_mult)

lemma reg_AND_FC: "r < 256 \<Longrightarrow> r mod 4 = 0 \<Longrightarrow> (ucast (of_nat r :: u8) AND 0xFC :: u32) = of_nat r"
proof -
  assume r: "r < 256" "r mod 4 = 0"
  have "\<forall>q \<in> set [0..<64]. (ucast (of_nat (4 * q) :: u8) AND 0xFC :: u32) = of_nat (4 * q)" by code_simp
  moreover have "r div 4 \<in> set [0..<64]" "r = 4 * (r div 4)" using r by auto
  ultimately show ?thesis by metis
qed

lemma pci_addr_sum:
  assumes "b < 256" "d < 32" "f < 8" "r < 256" "r mod 4 = 0"
  shows "pci_addr (of_nat b) (of_nat d) (of_nat f) (of_nat r) = of_nat (2 ^ 31 + b * 65536 + d * 2048 + f * 256 + r)"
proof -
  have small: "(ucast (of_nat k :: u8) :: u32) = of_nat k" if "k < 256" for k
    using that by (simp add: word_unat_eq_iff unat_of_nat unsigned_ucast_eq take_bit_eq_mod)
  have "pci_addr (of_nat b) (of_nat d) (of_nat f) (of_nat r) =
      push_bit 31 (of_nat 1) OR push_bit 16 (of_nat b) OR push_bit 11 (of_nat d) OR push_bit 8 (of_nat f) OR of_nat r"
    unfolding pci_addr_def reg_AND_FC [OF assms(4,5)] using assms by (simp add: small)
  also have "push_bit 8 (of_nat f) OR of_nat r = (of_nat (f * 2 ^ 8 + r) :: u32)" using assms by (intro or_of_nat) simp_all
  also have "push_bit 11 (of_nat d) OR of_nat (f * 2 ^ 8 + r) = (of_nat (d * 2 ^ 11 + (f * 2 ^ 8 + r)) :: u32)"
    using assms by (intro or_of_nat) simp_all
  also have "push_bit 16 (of_nat b) OR of_nat (d * 2 ^ 11 + (f * 2 ^ 8 + r)) = (of_nat (b * 2 ^ 16 + (d * 2 ^ 11 + (f * 2 ^ 8 + r))) :: u32)"
    using assms by (intro or_of_nat) simp_all
  also have "push_bit 31 (of_nat 1) OR of_nat (b * 2 ^ 16 + (d * 2 ^ 11 + (f * 2 ^ 8 + r))) =
      (of_nat (1 * 2 ^ 31 + (b * 2 ^ 16 + (d * 2 ^ 11 + (f * 2 ^ 8 + r)))) :: u32)"
    using assms by (intro or_of_nat) simp_all
  finally show ?thesis by (simp add: add.assoc)
qed

lemma ucast_part:
  "(ucast (drop_bit k (v :: u32) AND 0xFF) :: u8) = of_nat (unat v div 2 ^ k mod 256)"
  "(ucast (drop_bit k (v :: u32) AND 0xFFFF) :: u16) = of_nat (unat v div 2 ^ k mod 65536)"
proof -
  have m: "(0xFF :: u32) = mask 8" "(0xFFFF :: u32) = mask 16" by (simp_all add: mask_eq_exp_minus_1)
  show "(ucast (drop_bit k v AND 0xFF) :: u8) = of_nat (unat v div 2 ^ k mod 256)"
    "(ucast (drop_bit k v AND 0xFFFF) :: u16) = of_nat (unat v div 2 ^ k mod 65536)"
    unfolding m by (simp_all add: take_bit_eq_mask [symmetric] word_unat_eq_iff unat_of_nat unsigned_ucast_eq unsigned_take_bit_eq unsigned_drop_bit_eq
        take_bit_eq_mod [where 'a = nat] drop_bit_eq_div [where 'a = nat])
qed

lemma pci_read32_dword:
  "b < 256 \<Longrightarrow> d < 32 \<Longrightarrow> f < 8 \<Longrightarrow> r < 256 \<Longrightarrow> r mod 4 = 0 \<Longrightarrow>
     pci_read32 cfg (of_nat b) (of_nat d) (of_nat f) (of_nat r) = of_nat (cfg_dword cfg b d f r)"
  unfolding pci_read32_def pci_addr_sum cfg_dword_def by simp

lemma reg_parts:
  assumes "r < 256"
  shows "(of_nat r AND NOT 3 :: u8) = of_nat (r - r mod 4)" "unat (of_nat r AND 3 :: u8) = r mod 4"
    "r mod 2 = 0 \<Longrightarrow> unat (of_nat r AND 2 :: u8) = r mod 4"
proof -
  let ?w = "of_nat r :: u8"
  have m: "(3 :: u8) = mask 2" by (simp add: mask_eq_exp_minus_1)
  have and3: "?w AND 3 = of_nat (r mod 4)"
    unfolding m take_bit_eq_mask [symmetric] by (simp add: word_unat_eq_iff unsigned_take_bit_eq unat_of_nat take_bit_eq_mod [where 'a = nat] mod_mod_cancel)
  have "?w = (?w AND 3) + (?w AND NOT 3)"
    by (subst disjunctive_add) (auto simp: bit_simps intro!: bit_word_eqI)
  then have "?w AND NOT 3 = ?w - (?w AND 3)" by (simp add: eq_diff_eq add.commute)
  then show "?w AND NOT 3 = of_nat (r - r mod 4)" by (simp add: and3 of_nat_diff)
  have small: "unat (of_nat (r mod 4) :: u8) = r mod 4" by (simp add: unat_of_nat)
  then show "unat (?w AND 3) = r mod 4" by (simp add: and3)
  have "?w AND 2 = (?w AND 3) AND 2" by (simp add: and.assoc)
  moreover have "r mod 4 = 0 \<or> r mod 4 = 2" if "r mod 2 = 0" using that by presburger
  ultimately show "unat (?w AND 2) = r mod 4" if "r mod 2 = 0" using that unfolding and3 by auto
qed

lemma pci_read8_byte:
  assumes "b < 256" "d < 32" "f < 8" "r < 256"
  shows "pci_read8 cfg (of_nat b) (of_nat d) (of_nat f) (of_nat r) = of_nat (cfg_byte cfg b d f r)"
proof -
  have "(r - r mod 4) mod 4 = 0" by (simp add: minus_mod_eq_mult_div)
  then have "pci_read32 cfg (of_nat b) (of_nat d) (of_nat f) (of_nat (r - r mod 4)) = of_nat (cfg_dword cfg b d f (r - r mod 4))"
    using assms by (intro pci_read32_dword) simp_all
  moreover have "unat (of_nat (cfg_dword cfg b d f k) :: u32) = cfg_dword cfg b d f k" for k by (simp add: cfg_dword_def)
  moreover have "2 ^ (r mod 4 * 8) = (256 :: nat) ^ (r mod 4)" using power_mult [of "2 :: nat" 8 "r mod 4"] by (simp add: mult.commute)
  ultimately show ?thesis
    unfolding pci_read8_def Let_def reg_parts(1) [OF assms(4)] reg_parts(2) [OF assms(4)] ucast_part cfg_byte_def by (simp only:)
qed

lemma pci_read16_half:
  assumes "b < 256" "d < 32" "f < 8" "r < 256" "r mod 2 = 0"
  shows "pci_read16 cfg (of_nat b) (of_nat d) (of_nat f) (of_nat r) = of_nat (cfg_half cfg b d f r)"
proof -
  have m: "r mod 4 = 0 \<or> r mod 4 = 2" using assms(5) by presburger
  then have n: "(r + 1) mod 4 = r mod 4 + 1" by presburger
  let ?v = "cfg_dword cfg b d f (r - r mod 4)"
  have "(r - r mod 4) mod 4 = 0" by (simp add: minus_mod_eq_mult_div)
  then have "pci_read32 cfg (of_nat b) (of_nat d) (of_nat f) (of_nat (r - r mod 4)) = of_nat ?v"
    using assms by (intro pci_read32_dword) simp_all
  moreover have "unat (of_nat ?v :: u32) = ?v" by (simp add: cfg_dword_def)
  moreover have "2 ^ (r mod 4 * 8) = (256 :: nat) ^ (r mod 4)" using power_mult [of "2 :: nat" 8 "r mod 4"] by (simp add: mult.commute)
  moreover have "cfg_half cfg b d f r = ?v div 256 ^ (r mod 4) mod 65536"
    unfolding cfg_half_def cfg_byte_def n by (simp add: div_mult2_eq mod_mult2_eq [of _ 256 256, simplified] mult.commute [of 256])
  ultimately show ?thesis
    unfolding pci_read16_def Let_def reg_parts(1) [OF assms(4)] reg_parts(3) [OF assms(4,5)] ucast_part by (simp only:)
qed

lemma pci_describe_function:
  assumes "b < 256" "d < 32" "f < 8"
  shows "pci_describe cfg (of_nat b) (of_nat d) (of_nat f) = cfg_function cfg b d f"
proof -
  note r = pci_read16_half [OF assms, of 0 cfg] pci_read16_half [OF assms, of 2 cfg] pci_read8_byte [OF assms, of 8 cfg] pci_read8_byte [OF assms, of 9 cfg]
    pci_read8_byte [OF assms, of 10 cfg] pci_read8_byte [OF assms, of 11 cfg] pci_read8_byte [OF assms, of 14 cfg]
    pci_read8_byte [OF assms, of 60 cfg] pci_read8_byte [OF assms, of 61 cfg]
  have "pci_read32 cfg (of_nat b) (of_nat d) (of_nat f) (PCI_REG_BAR0 + of_nat i * 4) = of_nat (cfg_dword cfg b d f (16 + 4 * i))" if "i < 6" for i
    using pci_read32_dword [OF assms, of "16 + 4 * i" cfg] that by (simp add: PCI_REG_BAR0_def mult.commute)
  then show ?thesis using r
    by (simp add: pci_describe_def cfg_function_def PCI_REG_VENDOR_ID_def PCI_REG_DEVICE_ID_def PCI_REG_CLASS_def PCI_REG_SUBCLASS_def PCI_REG_PROG_IF_def
        PCI_REG_REVISION_def PCI_REG_HEADER_TYPE_def PCI_REG_INT_LINE_def PCI_REG_INT_PIN_def)
qed

lemma pci_functions_bus:
  assumes "b < 256" "d < 32"
  shows "map (pci_describe cfg (of_nat b) (of_nat d)) (pci_functions cfg (of_nat b) (of_nat d)) =
    [cfg_function cfg b d f. f \<leftarrow> [0..<8], cfg_half cfg b d f 0 \<noteq> 0xFFFF, f = 0 \<or> cfg_half cfg b d 0 0 \<noteq> 0xFFFF \<and> 128 \<le> cfg_byte cfg b d 0 14]"
proof -
  have half: "cfg_half cfg b d f 0 < 65536" for f by (simp add: cfg_half_def cfg_byte_def) 
  have v: "pci_read16 cfg (of_nat b) (of_nat d) (of_nat f) PCI_REG_VENDOR_ID = PCI_VENDOR_NONE \<longleftrightarrow> cfg_half cfg b d f 0 = 0xFFFF" if "f < 8" for f
    using pci_read16_half [OF assms that, of 0 cfg] half [of f]
    by (simp add: PCI_REG_VENDOR_ID_def PCI_VENDOR_NONE_def word_unat_eq_iff unat_of_nat)
  have top: "bit (pci_read8 cfg (of_nat b) (of_nat d) 0 PCI_REG_HEADER_TYPE) 7 \<longleftrightarrow> 128 \<le> cfg_byte cfg b d 0 14"
  proof -
    have x: "cfg_byte cfg b d 0 14 < 256" by (simp add: cfg_byte_def)
    have "odd (n div 128) \<longleftrightarrow> 128 \<le> n" if "n < 256" for n :: nat
    proof (cases "128 \<le> n")
      case True
      then have "n div 128 = 1" using that by simp
      then show ?thesis using True by simp
    qed simp
    then show ?thesis using pci_read8_byte [OF assms, of 0 14 cfg] x
      by (simp add: PCI_REG_HEADER_TYPE_def bit_word_odd unat_of_nat)
  qed
  have conc: "concat (map (\<lambda>x. if P x then if Q x then [h x] else [] else []) xs) = map h (filter (\<lambda>x. P x \<and> Q x) xs)" for P Q h and xs :: "nat list"
    by (induction xs) simp_all
  have first: "filter (\<lambda>f. P f \<and> (f = 0 \<or> Q)) [0..<8] = filter P [0..<(if Q then 8 else 1)]" for P and Q
    by (cases Q) (simp_all add: upt_rec)
  have code: "map (pci_describe cfg (of_nat b) (of_nat d)) (filter (\<lambda>f. pci_read16 cfg (of_nat b) (of_nat d) f PCI_REG_VENDOR_ID \<noteq> PCI_VENDOR_NONE)
      (map of_nat [0..<n])) = map (cfg_function cfg b d) (filter (\<lambda>f. cfg_half cfg b d f 0 \<noteq> 0xFFFF) [0..<n])" if "n \<le> 8" for n
    unfolding filter_map map_map using that assms v pci_describe_function
    by (intro map_cong filter_cong refl) (auto simp: comp_def intro!: filter_cong)
  show ?thesis
    unfolding conc first using code [of 8] code [of 1] v [of 0] top
    by (auto simp: pci_functions_def)
qed

lemma pci_found_present: "pci_found cfg = pci_present cfg"
  unfolding pci_found_def pci_present_def
  by (intro arg_cong [of _ _ concat] map_cong refl) (simp_all only: pci_functions_bus set_upt atLeastLessThan_iff)

text \<open>
  C0: The table that \<open>pci_init\<close> builds holds the first 64 of the functions that exist, in the order of bus, device and function, each with its
  registers as the PCI specification places them: vendor, device, class, subclass, programming interface, revision, header type, interrupt line and pin, and the six base addresses;
  functions 1 to 7 belong to it only where bit 7 of the header type of function 0 is set.
\<close>

theorem pci_init_lists_functions: "pci_listed (pci_init cfg) = take 64 (pci_present cfg)"
  by (simp only: pci_init_found pci_found_present)

text \<open>A search returns a device of the table, and one exactly when there is one.\<close>

lemma find_class_some:
  "pci_find_class c sc s = Some d \<Longrightarrow> d \<in> set (pci_listed s) \<and> pd_class_code d = c \<and> pd_subclass d = sc"
  by (auto simp: pci_find_class_def pci_listed_def find_Some_iff in_set_conv_nth)

lemma find_device_none:
  "pci_find_device v i s = None \<longleftrightarrow> (\<forall>d \<in> set (pci_listed s). \<not> (pd_vendor_id d = v \<and> pd_device_id d = i))"
  by (auto simp: pci_find_device_def pci_listed_def find_None_iff)

text \<open>A driver finds its card whenever one of the first 64 functions is it.\<close>

lemma driver_finds_card:
  assumes "d \<in> set (take 64 (pci_present cfg))" "pd_vendor_id d = v" "pd_device_id d = i"
  shows "pci_find_device v i (pci_init cfg) \<noteq> None"
  using assms unfolding find_device_none pci_init_found pci_found_present by blast

text \<open>The command word is written as a double word whose upper half, the status register, is 0.\<close>

lemma bus_master_once:
  "pci_enable_bus_master cfg d out = out \<or>
   (\<exists>c :: u16. bit c 2 \<and> pci_enable_bus_master cfg d out = out @ [(pci_addr (pd_bus d) (pd_device d) (pd_function d) 4, ucast c)])"
proof -
  have "bit (x OR PCI_CMD_BUS_MASTER) 2" for x by (simp add: PCI_CMD_BUS_MASTER_def bit_or_iff bit_push1 del: push_bit_of_1)
  then show ?thesis by (auto simp: pci_enable_bus_master_def pci_write32_def PCI_REG_COMMAND_def Let_def)
qed

end
