(* ===== verification/E1000.thy ===== *)
theory E1000
  imports Pci Loopback "HOL-Library.While_Combinator"
begin

text \<open>
  The driver of the Intel 82540EM network card (\<open>drivers/e1000.c\<close>): EEPROM, descriptor rings, interrupt handler and transmission.
  What the registers answer is an argument, what the driver writes to them is a list of register and value. The card writes the
  descriptors of received frames before the interrupt, and none while the handler runs. Shown: the handler gives the stack exactly
  the frames of the ring, in the order of the ring.
\<close>

section \<open>Registers and descriptors\<close>

definition E1000_VENDOR :: u16 where "E1000_VENDOR = 0x8086"
definition E1000_DEVICE :: u16 where "E1000_DEVICE = 0x100E"
definition E1000_REG_CTRL :: u32 where "E1000_REG_CTRL = 0x0000"
definition E1000_REG_EERD :: u32 where "E1000_REG_EERD = 0x0014"
definition E1000_REG_IMS :: u32 where "E1000_REG_IMS = 0x00D0"
definition E1000_REG_RCTL :: u32 where "E1000_REG_RCTL = 0x0100"
definition E1000_REG_TCTL :: u32 where "E1000_REG_TCTL = 0x0400"
definition E1000_REG_TIPG :: u32 where "E1000_REG_TIPG = 0x0410"
definition E1000_REG_RDBAL :: u32 where "E1000_REG_RDBAL = 0x2800"
definition E1000_REG_RDBAH :: u32 where "E1000_REG_RDBAH = 0x2804"
definition E1000_REG_RDLEN :: u32 where "E1000_REG_RDLEN = 0x2808"
definition E1000_REG_RDH :: u32 where "E1000_REG_RDH = 0x2810"
definition E1000_REG_RDT :: u32 where "E1000_REG_RDT = 0x2818"
definition E1000_REG_TDBAL :: u32 where "E1000_REG_TDBAL = 0x3800"
definition E1000_REG_TDBAH :: u32 where "E1000_REG_TDBAH = 0x3804"
definition E1000_REG_TDLEN :: u32 where "E1000_REG_TDLEN = 0x3808"
definition E1000_REG_TDH :: u32 where "E1000_REG_TDH = 0x3810"
definition E1000_REG_TDT :: u32 where "E1000_REG_TDT = 0x3818"
definition E1000_REG_MTA :: u32 where "E1000_REG_MTA = 0x5200"
definition E1000_CTRL_RST :: u32 where "E1000_CTRL_RST = push_bit 26 1"
definition E1000_CTRL_SLU :: u32 where "E1000_CTRL_SLU = push_bit 6 1"
definition E1000_CTRL_ASDE :: u32 where "E1000_CTRL_ASDE = push_bit 5 1"
definition E1000_RCTL_EN :: u32 where "E1000_RCTL_EN = push_bit 1 1"
definition E1000_RCTL_BAM :: u32 where "E1000_RCTL_BAM = push_bit 15 1"
definition E1000_RCTL_SECRC :: u32 where "E1000_RCTL_SECRC = push_bit 26 1"
definition E1000_TCTL_EN :: u32 where "E1000_TCTL_EN = push_bit 1 1"
definition E1000_TCTL_PSP :: u32 where "E1000_TCTL_PSP = push_bit 3 1"
definition E1000_ICR_RXT0 :: u32 where "E1000_ICR_RXT0 = push_bit 7 1"
definition E1000_ICR_LSC :: u32 where "E1000_ICR_LSC = push_bit 2 1"
definition E1000_EERD_START :: u32 where "E1000_EERD_START = push_bit 0 1"
definition E1000_EERD_DONE :: u32 where "E1000_EERD_DONE = push_bit 4 1"
definition E1000_RXD_STA_DD :: u8 where "E1000_RXD_STA_DD = push_bit 0 1"
definition E1000_TXD_CMD_EOP :: u8 where "E1000_TXD_CMD_EOP = push_bit 0 1"
definition E1000_TXD_CMD_IFCS :: u8 where "E1000_TXD_CMD_IFCS = push_bit 1 1"
definition E1000_TXD_CMD_RS :: u8 where "E1000_TXD_CMD_RS = push_bit 3 1"
definition E1000_NUM_RX_DESC :: nat where "E1000_NUM_RX_DESC = 8"
definition E1000_NUM_TX_DESC :: nat where "E1000_NUM_TX_DESC = 8"
definition E1000_BUF_SIZE :: nat where "E1000_BUF_SIZE = 2048"

record e1000_rx_desc =
  rd_addr :: u64
  rd_length :: u16
  rd_checksum :: u16
  rd_status :: u8
  rd_errors :: u8
  rd_special :: u16

record e1000_tx_desc =
  td_addr :: u64
  td_length :: u16
  td_cso :: u8
  td_cmd :: u8
  td_status :: u8
  td_css :: u8
  td_special :: u16

text \<open>The module state; the receive buffers are one memory of eight times 2048 bytes, which the card fills. The addresses of the static arrays are the record of the linker.\<close>

record e1000_link =
  lk_rx_descs :: u32
  lk_tx_descs :: u32
  lk_rx_buffers :: u32
  lk_tx_buffers :: u32

record e1000 =
  e1000_mmio :: u32
  e1000_mac :: "u8 list"
  rx_descs :: "e1000_rx_desc list"
  tx_descs :: "e1000_tx_desc list"
  rx_buffers :: "nat \<Rightarrow> u8"
  tx_buffers :: "u8 list list"
  rx_tail :: u32
  tx_tail :: u32
  e1000_present :: bool
  e1000_maps :: "(u32 \<times> u32 \<times> u32) list"
  e1000_out :: "(u32 \<times> u32) list"
  e1000_irq :: "u8 option"

definition e1000_write :: "u32 \<Rightarrow> u32 \<Rightarrow> e1000 \<Rightarrow> e1000" where
  "e1000_write reg val s = s\<lparr>e1000_out := e1000_out s @ [(reg div 4 * 4, val)]\<rparr>"

section \<open>EEPROM\<close>

text \<open>The value that ends the loop; \<open>reads i\<close> is what the register answers in pass \<open>i\<close>.\<close>

function eerd_wait :: "(nat \<Rightarrow> u32) \<Rightarrow> nat \<Rightarrow> u32 \<Rightarrow> u32" where
  "eerd_wait reads i timeout =
     (if reads i AND E1000_EERD_DONE \<noteq> 0 then reads i else if timeout - 1 = 0 then reads i else eerd_wait reads (i + 1) (timeout - 1))"
  by pat_completeness auto
termination
proof (relation "measure (\<lambda>(reads, i, timeout). unat (timeout - 1))")
  show "((reads, i + 1, timeout - 1), reads, i, timeout) \<in> measure (\<lambda>(reads, i, timeout). unat (timeout - 1))"
    if "timeout - 1 \<noteq> 0" for reads :: "nat \<Rightarrow> u32" and i :: nat and timeout :: u32
    using that unat_gt_0 [of "timeout - 1"] unat_minus_one [OF that] by simp
qed simp

definition e1000_eeprom_read :: "(nat \<Rightarrow> u32) \<Rightarrow> u8 \<Rightarrow> e1000 \<Rightarrow> u16 \<times> e1000" where
  "e1000_eeprom_read reads addr s =
     (ucast (drop_bit 16 (eerd_wait reads 0 1000000)),
      e1000_write E1000_REG_EERD (push_bit 8 (ucast addr) OR E1000_EERD_START) s)"

section \<open>Reception\<close>

text \<open>One pass of the loop: the frame goes to the network stack, the descriptor back to the card.\<close>

definition e1000_rx_step :: "(u32 \<Rightarrow> bool) \<Rightarrow> net_iface \<Rightarrow> e1000 \<times> net \<Rightarrow> e1000 \<times> net" where
  "e1000_rx_step can iface = (\<lambda>(s, n).
     let i = unat (rx_tail s); len = rd_length (rx_descs s ! i); packet = (\<lambda>k. rx_buffers s (i * E1000_BUF_SIZE + k));
         n = net_receive can iface packet (ucast len) n;
         s = e1000_write E1000_REG_RDT (rx_tail s) (s\<lparr>rx_descs := (rx_descs s)[i := (rx_descs s ! i)\<lparr>rd_status := 0\<rparr>]\<rparr>)
     in (s\<lparr>rx_tail := (rx_tail s + 1) mod of_nat E1000_NUM_RX_DESC\<rparr>, n))"

definition e1000_rx_more :: "e1000 \<times> net \<Rightarrow> bool" where
  "e1000_rx_more = (\<lambda>(s, n). rd_status (rx_descs s ! unat (rx_tail s)) AND E1000_RXD_STA_DD \<noteq> 0)"

text \<open>\<open>icr\<close> is the interrupt cause; \<open>None\<close> stands for a handler that does not return.\<close>

definition e1000_irq_handler :: "(u32 \<Rightarrow> bool) \<Rightarrow> net_iface \<Rightarrow> u32 \<Rightarrow> e1000 \<times> net \<Rightarrow> (e1000 \<times> net) option" where
  "e1000_irq_handler can iface icr st =
     (if icr AND E1000_ICR_RXT0 \<noteq> 0 then while_option e1000_rx_more (e1000_rx_step can iface) st else Some st)"

section \<open>Transmission\<close>

definition e1000_send_frame :: "e1000_link \<Rightarrow> u8 list \<Rightarrow> e1000 \<Rightarrow> int \<times> e1000" where
  "e1000_send_frame lk data s =
     (if \<not> e1000_present s \<or> length data > E1000_BUF_SIZE then (- 1, s)
      else
        let t = unat (tx_tail s);
            s = s\<lparr>tx_buffers := (tx_buffers s)[t := put_at (tx_buffers s ! t) 0 data],
                  tx_descs := (tx_descs s)[t := (tx_descs s ! t)\<lparr>td_addr := ucast (lk_tx_buffers lk + of_nat (t * E1000_BUF_SIZE)),
                    td_length := of_nat (length data), td_cmd := E1000_TXD_CMD_EOP OR E1000_TXD_CMD_IFCS OR E1000_TXD_CMD_RS,
                    td_status := 0\<rparr>],
                  tx_tail := (tx_tail s + 1) mod of_nat E1000_NUM_TX_DESC\<rparr>
        in (0, e1000_write E1000_REG_TDT (tx_tail s) s))"

definition e1000_send :: "e1000_link \<Rightarrow> u8 list \<Rightarrow> e1000 \<Rightarrow> bool \<times> e1000" where
  "e1000_send lk data s = (let (r, s) = e1000_send_frame lk data s in (r = 0, s))"

section \<open>Start\<close>

text \<open>The number of the first read of the control register after the wait for the end of the reset.\<close>

function ctrl_wait :: "(nat \<Rightarrow> u32) \<Rightarrow> nat \<Rightarrow> u32 \<Rightarrow> nat" where
  "ctrl_wait reads i timeout =
     (if reads i AND E1000_CTRL_RST = 0 then i + 1 else if timeout - 1 = 0 then i + 1 else ctrl_wait reads (i + 1) (timeout - 1))"
  by pat_completeness auto
termination
proof (relation "measure (\<lambda>(reads, i, timeout). unat (timeout - 1))")
  show "((reads, i + 1, timeout - 1), reads, i, timeout) \<in> measure (\<lambda>(reads, i, timeout). unat (timeout - 1))"
    if "timeout - 1 \<noteq> 0" for reads :: "nat \<Rightarrow> u32" and i :: nat and timeout :: u32
    using that unat_gt_0 [of "timeout - 1"] unat_minus_one [OF that] by simp
qed simp

definition tx_desc_zero :: e1000_tx_desc where
  "tx_desc_zero = \<lparr>td_addr = 0, td_length = 0, td_cso = 0, td_cmd = 0, td_status = 0, td_css = 0, td_special = 0\<rparr>"

definition e1000_map_mmio :: "u32 \<Rightarrow> e1000 \<Rightarrow> e1000" where
  "e1000_map_mmio mmio_phys s =
     s\<lparr>e1000_maps := e1000_maps s @ map (\<lambda>k. (mmio_phys + of_nat k * 4096, mmio_phys + of_nat k * 4096, 1 OR 2 OR 16)) [0..<0x20000 div 4096],
       e1000_mmio := mmio_phys\<rparr>"

definition e1000_reset :: "(nat \<Rightarrow> u32) \<Rightarrow> e1000 \<Rightarrow> e1000" where
  "e1000_reset ctrl s =
     (let s = e1000_write E1000_REG_CTRL (ctrl 0 OR E1000_CTRL_RST) s; i = ctrl_wait ctrl 1 1000000
      in e1000_write E1000_REG_CTRL (ctrl i OR E1000_CTRL_SLU OR E1000_CTRL_ASDE) s)"

definition e1000_read_mac :: "(u8 \<Rightarrow> nat \<Rightarrow> u32) \<Rightarrow> e1000 \<Rightarrow> e1000" where
  "e1000_read_mac eerd s =
     (let (w0, s) = e1000_eeprom_read (eerd 0) 0 s; (w1, s) = e1000_eeprom_read (eerd 1) 1 s; (w2, s) = e1000_eeprom_read (eerd 2) 2 s
      in s\<lparr>e1000_mac := [ucast (w0 AND 0xFF), ucast (drop_bit 8 w0 AND 0xFF), ucast (w1 AND 0xFF), ucast (drop_bit 8 w1 AND 0xFF),
                         ucast (w2 AND 0xFF), ucast (drop_bit 8 w2 AND 0xFF)]\<rparr>)"

definition e1000_setup_rx :: "e1000_link \<Rightarrow> e1000 \<Rightarrow> e1000" where
  "e1000_setup_rx lk s =
     (let s = fold (\<lambda>i s. s\<lparr>rx_descs := (rx_descs s)[i := (rx_descs s ! i)\<lparr>rd_addr := ucast (lk_rx_buffers lk + of_nat (i * E1000_BUF_SIZE)),
                rd_status := 0\<rparr>]\<rparr>) [0..<E1000_NUM_RX_DESC] s
      in fold (\<lambda>(r, v). e1000_write r v)
           [(E1000_REG_RDBAL, lk_rx_descs lk), (E1000_REG_RDBAH, 0), (E1000_REG_RDLEN, of_nat (E1000_NUM_RX_DESC * 16)), (E1000_REG_RDH, 0),
            (E1000_REG_RDT, of_nat (E1000_NUM_RX_DESC - 1)), (E1000_REG_RCTL, E1000_RCTL_EN OR E1000_RCTL_BAM OR E1000_RCTL_SECRC)] s)"

definition e1000_setup_tx :: "e1000_link \<Rightarrow> e1000 \<Rightarrow> e1000" where
  "e1000_setup_tx lk s =
     fold (\<lambda>(r, v). e1000_write r v)
       [(E1000_REG_TDBAL, lk_tx_descs lk), (E1000_REG_TDBAH, 0), (E1000_REG_TDLEN, of_nat (E1000_NUM_TX_DESC * 16)), (E1000_REG_TDH, 0),
        (E1000_REG_TDT, 0), (E1000_REG_TCTL, E1000_TCTL_EN OR E1000_TCTL_PSP OR push_bit 4 15 OR push_bit 12 63), (E1000_REG_TIPG, 0x0060200A)]
       (s\<lparr>tx_descs := replicate E1000_NUM_TX_DESC tx_desc_zero\<rparr>)"

text \<open>\<open>ctrl\<close> and \<open>eerd\<close> are what the control and the EEPROM register answer.\<close>

definition e1000_init :: "e1000_link \<Rightarrow> pci_table \<Rightarrow> (nat \<Rightarrow> u32) \<Rightarrow> (u8 \<Rightarrow> nat \<Rightarrow> u32) \<Rightarrow> e1000 \<times> net \<Rightarrow> bool \<times> e1000 \<times> net" where
  "e1000_init lk pci ctrl eerd = (\<lambda>(s, n).
     case pci_find_device E1000_VENDOR E1000_DEVICE pci of
       None \<Rightarrow> (False, s, n)
     | Some dev \<Rightarrow>
         let s = e1000_map_mmio (pd_bar dev ! 0 AND NOT 0xF) s;
             s = e1000_reset ctrl s;
             s = e1000_read_mac eerd s;
             s = fold (\<lambda>i. e1000_write (E1000_REG_MTA + of_nat i * 4) 0) [0..<128] s;
             s = e1000_setup_rx lk s;
             s = e1000_setup_tx lk s;
             s = e1000_write E1000_REG_IMS (E1000_ICR_RXT0 OR E1000_ICR_LSC) s;
             s = (if pd_int_line dev < 16 then s\<lparr>e1000_irq := Some (pd_int_line dev)\<rparr> else s);
             s = s\<lparr>e1000_present := True\<rparr>;
             iface = \<lparr>if_mac = e1000_mac s, if_ip = 0, if_netmask = 0, if_gateway = 0, if_up = False, if_send = Some (\<lambda>d. fst (e1000_send_frame lk d s))\<rparr>
         in (True, s, snd (net_register_iface iface n)))"

section \<open>The handler delivers the ring\<close>

definition e1000_ok :: "e1000 \<Rightarrow> bool" where
  "e1000_ok s \<longleftrightarrow> length (rx_descs s) = 8 \<and> unat (rx_tail s) < 8 \<and> length (tx_descs s) = 8 \<and> unat (tx_tail s) < 8 \<and>
     length (tx_buffers s) = 8 \<and> (\<forall>b \<in> set (tx_buffers s). length b = 2048)"

definition rx_done :: "e1000 \<Rightarrow> nat \<Rightarrow> bool" where
  "rx_done s i \<longleftrightarrow> rd_status (rx_descs s ! i) AND E1000_RXD_STA_DD \<noteq> 0"

text \<open>The finished descriptors among the next \<open>m\<close> of the ring, and the frame of a descriptor.\<close>

definition ring_ready :: "nat \<Rightarrow> e1000 \<Rightarrow> nat list" where
  "ring_ready m s = takeWhile (rx_done s) (map (\<lambda>k. (unat (rx_tail s) + k) mod 8) [0..<m])"

definition recv_frame :: "(u32 \<Rightarrow> bool) \<Rightarrow> net_iface \<Rightarrow> e1000 \<Rightarrow> nat \<Rightarrow> net \<Rightarrow> net" where
  "recv_frame can iface s i = net_receive can iface (\<lambda>k. rx_buffers s (i * 2048 + k)) (ucast (rd_length (rx_descs s ! i)))"

definition give_back :: "nat list \<Rightarrow> e1000_rx_desc list \<Rightarrow> e1000_rx_desc list" where
  "give_back xs d = fold (\<lambda>i d. d[i := (d ! i)\<lparr>rd_status := 0\<rparr>]) xs d"

definition drain :: "nat list \<Rightarrow> e1000 \<Rightarrow> e1000" where
  "drain xs s = s\<lparr>rx_descs := give_back xs (rx_descs s), rx_tail := of_nat ((unat (rx_tail s) + length xs) mod 8),
     e1000_out := e1000_out s @ map (\<lambda>i. (E1000_REG_RDT, of_nat i)) xs\<rparr>"

lemma give_back_simps [simp]:
  "length (give_back xs d) = length d" "give_back [] d = d"
  "give_back (x # xs) d = give_back xs (d[x := (d ! x)\<lparr>rd_status := 0\<rparr>])"
  by (induction xs arbitrary: d) (simp_all add: give_back_def)

lemma give_back_nth: "i < length d \<Longrightarrow> give_back xs d ! i = (if i \<in> set xs then (d ! i)\<lparr>rd_status := 0\<rparr> else d ! i)"
proof (induction xs arbitrary: d)
  case (Cons x xs)
  then show ?case by (cases "x = i") auto
qed simp

lemma unat_mod8 [simp]: "unat (of_nat (m mod 8) :: u32) = m mod 8"
proof -
  have "m mod 8 < 8" by simp
  then show ?thesis by (simp add: unat_of_nat take_bit_nat_eq_self)
qed

lemma next8: "unat (t :: u32) < 8 \<Longrightarrow> (t + 1) mod 8 = of_nat ((unat t + 1) mod 8)"
  by (simp only: word_unat_eq_iff unat_mod8) (simp add: unat_mod unat_word_ariths)

lemma rx_step_drain:
  assumes "e1000_ok s"
  shows "e1000_rx_step can iface (s, n) = (drain [unat (rx_tail s)] s, recv_frame can iface s (unat (rx_tail s)) n)"
proof -
  have "(rx_tail s + 1) mod 8 = of_nat ((unat (rx_tail s) + 1) mod 8)" using assms by (intro next8) (simp add: e1000_ok_def)
  moreover have "E1000_REG_RDT div 4 * 4 = E1000_REG_RDT" by (simp add: E1000_REG_RDT_def)
  ultimately show ?thesis
    by (simp add: e1000_rx_step_def drain_def recv_frame_def E1000_NUM_RX_DESC_def E1000_BUF_SIZE_def e1000_write_def Let_def)
qed

lemma drain_cons: "unat (rx_tail s) = x \<Longrightarrow> drain xs (drain [x] s) = drain (x # xs) s"
  by (simp add: drain_def mod_add_left_eq add.assoc del: of_nat_mod)

lemma drain_ok: "e1000_ok s \<Longrightarrow> e1000_ok (drain xs s)"
  by (simp add: e1000_ok_def drain_def del: of_nat_mod)

lemma drain_nil: "e1000_ok s \<Longrightarrow> drain [] s = s"
  by (simp add: drain_def e1000_ok_def word_unat_eq_iff)

text \<open>The loop over the next \<open>m\<close> descriptors of the ring.\<close>

definition loop_drains :: "(u32 \<Rightarrow> bool) \<Rightarrow> net_iface \<Rightarrow> nat \<Rightarrow> e1000 \<Rightarrow> bool" where
  "loop_drains can iface m s \<longleftrightarrow> (\<forall>n. while_option e1000_rx_more (e1000_rx_step can iface) (s, n) =
     Some (drain (ring_ready m s) s, fold (recv_frame can iface s) (ring_ready m s) n))"

lemma loop_stops: "e1000_ok s \<Longrightarrow> \<not> rx_done s (unat (rx_tail s)) \<Longrightarrow> loop_drains can iface m s"
proof -
  assume ok: "e1000_ok s" and no: "\<not> rx_done s (unat (rx_tail s))"
  have "ring_ready m s = []"
    using ok no by (cases m) (simp_all add: ring_ready_def upt_conv_Cons e1000_ok_def del: upt_Suc)
  moreover have "\<not> e1000_rx_more (s, n)" for n using no by (simp add: e1000_rx_more_def rx_done_def)
  ultimately show ?thesis using ok unfolding loop_drains_def by (subst while_option_unfold) (simp add: drain_nil)
qed

lemma ring_apart:
  assumes "t < 8" "k < 7"
  shows "Suc (t + k) mod 8 \<noteq> t"
proof
  assume "Suc (t + k) mod 8 = t"
  then have "(t + Suc k) mod 8 = (t + 0) mod 8" using assms(1) by simp
  then have "8 dvd Suc k" by (metis mod_eq_dvd_iff_nat add_diff_cancel_left add_0_right le_add1 diff_zero)
  then show False using assms(2) by (auto dest: dvd_imp_le)
qed

lemma loop_goes_on:
  assumes "e1000_ok s" "m \<le> 7" and dd: "rx_done s (unat (rx_tail s))" and rest: "loop_drains can iface m (drain [unat (rx_tail s)] s)"
  shows "loop_drains can iface (Suc m) s"
proof -
  let ?t = "unat (rx_tail s)"
  let ?s = "drain [?t] s"
  have t: "?t < 8" "length (rx_descs s) = 8" using assms(1) by (simp_all add: e1000_ok_def)
  note ne = ring_apart [OF t(1)]
  have same: "rx_descs ?s ! i = rx_descs s ! i" if "i \<noteq> ?t" for i using that by (simp add: drain_def)
  have idx: "(unat (rx_tail ?s) + k) mod 8 = (?t + Suc k) mod 8" for k by (simp add: drain_def mod_Suc_eq mod_add_left_eq del: of_nat_mod)
  have ready: "ring_ready (Suc m) s = ?t # ring_ready m ?s"
  proof -
    have "map (\<lambda>k. (?t + k) mod 8) [0..<Suc m] = ?t # map (\<lambda>k. (?t + Suc k) mod 8) [0..<m]"
      using t(1) by (simp add: upt_conv_Cons map_Suc_upt [symmetric] comp_def del: upt_Suc)
    moreover have "takeWhile (rx_done s) (map (\<lambda>k. (?t + Suc k) mod 8) [0..<m]) = takeWhile (rx_done ?s) (map (\<lambda>k. (?t + Suc k) mod 8) [0..<m])"
      using assms(2) by (intro takeWhile_cong refl) (auto simp: rx_done_def same ne)
    ultimately show ?thesis using dd by (simp only: ring_ready_def takeWhile.simps idx) simp
  qed
  have bufs: "rx_buffers ?s = rx_buffers s" by (simp add: drain_def)
  have far: "i \<noteq> ?t" if "i \<in> set (ring_ready m ?s)" for i
    using set_takeWhileD [OF that [unfolded ring_ready_def]] assms(2) ne by (auto simp: idx)
  have recv: "fold (recv_frame can iface ?s) (ring_ready m ?s) n' = fold (recv_frame can iface s) (ring_ready m ?s) n'" for n'
    by (intro fold_cong refl) (simp add: recv_frame_def fun_eq_iff bufs same [OF far])
  show ?thesis using dd rest assms(1) unfolding loop_drains_def
    by (subst while_option_unfold) (simp add: ready rx_step_drain e1000_rx_more_def rx_done_def drain_cons recv)
qed

lemma rx_loop_drains:
  "m \<le> 7 \<Longrightarrow> e1000_ok s \<Longrightarrow> \<not> rx_done s ((unat (rx_tail s) + m) mod 8) \<Longrightarrow> loop_drains can iface m s"
proof (induction m arbitrary: s)
  case 0
  then show ?case by (simp add: loop_stops e1000_ok_def)
next
  case (Suc m)
  have t: "unat (rx_tail s) < 8" using Suc.prems(2) by (simp add: e1000_ok_def)
  show ?case
  proof (cases "rx_done s (unat (rx_tail s))")
    case True
    have "\<not> rx_done (drain [unat (rx_tail s)] s) ((unat (rx_tail (drain [unat (rx_tail s)] s)) + m) mod 8)"
      using Suc.prems(1,3) ring_apart [OF t, of m] by (simp add: drain_def rx_done_def mod_Suc_eq mod_add_left_eq del: of_nat_mod)
    from Suc.IH [OF _ drain_ok [OF Suc.prems(2)] this] Suc.prems(1) show ?thesis
      by (intro loop_goes_on [OF Suc.prems(2) _ True]) simp_all
  qed (simp add: loop_stops Suc.prems(2))
qed

lemma rx_loop_ring:
  assumes "e1000_ok s"
  shows "loop_drains can iface 8 s"
proof (cases "rx_done s (unat (rx_tail s))")
  case True
  have t: "unat (rx_tail s) < 8" "length (rx_descs s) = 8" using assms by (simp_all add: e1000_ok_def)
  have "(Suc (unat (rx_tail s)) mod 8 + 7) mod 8 = unat (rx_tail s)" using t(1) by (simp add: mod_add_left_eq)
  then have "\<not> rx_done (drain [unat (rx_tail s)] s) ((unat (rx_tail (drain [unat (rx_tail s)] s)) + 7) mod 8)"
    using t by (simp add: drain_def rx_done_def del: of_nat_mod)
  from loop_goes_on [OF assms _ True rx_loop_drains [OF _ drain_ok [OF assms] this]] show ?thesis by simp
qed (simp add: loop_stops assms)

text \<open>
  C39: on a receive interrupt the handler ends and gives the network stack exactly the frames whose descriptors the card has finished,
  in the order of the ring from the tail on, each with its length; it hands these descriptors back, in the same order, and
  goes on with the first one that is not finished.
\<close>

theorem e1000_irq_delivers:
  assumes "e1000_ok s" "bit icr 7" "xs = takeWhile (rx_done s) (map (\<lambda>k. (unat (rx_tail s) + k) mod 8) [0..<8])"
  shows "e1000_irq_handler can iface icr (s, n) =
    Some (s\<lparr>rx_descs := map (\<lambda>i. if i \<in> set xs then (rx_descs s ! i)\<lparr>rd_status := 0\<rparr> else rx_descs s ! i) [0..<8],
            rx_tail := of_nat ((unat (rx_tail s) + length xs) mod 8), e1000_out := e1000_out s @ map (\<lambda>i. (E1000_REG_RDT, of_nat i)) xs\<rparr>,
          fold (\<lambda>i. net_receive can iface (\<lambda>k. rx_buffers s (i * 2048 + k)) (ucast (rd_length (rx_descs s ! i)))) xs n)"
proof -
  have "give_back xs (rx_descs s) = map (\<lambda>i. if i \<in> set xs then (rx_descs s ! i)\<lparr>rd_status := 0\<rparr> else rx_descs s ! i) [0..<8]"
    using assms(1) by (intro nth_equalityI) (simp_all add: e1000_ok_def give_back_nth)
  moreover have "while_option e1000_rx_more (e1000_rx_step can iface) (s, n) = Some (drain xs s, fold (recv_frame can iface s) xs n)"
    using rx_loop_ring [OF assms(1)] assms(3) by (simp add: loop_drains_def ring_ready_def)
  moreover have "icr AND E1000_ICR_RXT0 \<noteq> 0" using assms(2) by (simp add: E1000_ICR_RXT0_def and_push1 del: push_bit_of_1)
  ultimately show ?thesis by (simp add: e1000_irq_handler_def drain_def recv_frame_def [abs_def])
qed

text \<open>The tail at the last descriptor; it and the first one hold a frame of 14 bytes each.\<close>

definition e1000_demo :: e1000 where
  "e1000_demo =
     (let d = \<lparr>rd_addr = 0, rd_length = 14, rd_checksum = 0, rd_status = 3, rd_errors = 0, rd_special = 0\<rparr>
      in \<lparr>e1000_mmio = 0xF0000000, e1000_mac = [2, 0, 0, 0, 0, 1], rx_descs = d # replicate 6 (d\<lparr>rd_status := 0\<rparr>) @ [d],
          tx_descs = replicate 8 tx_desc_zero, rx_buffers = (\<lambda>_. 0), tx_buffers = replicate 8 (replicate 2048 0), rx_tail = 7, tx_tail = 0,
          e1000_present = True, e1000_maps = [], e1000_out = [], e1000_irq = Some 11\<rparr>)"

lemma e1000_demo_ok: "e1000_ok e1000_demo"
  by (simp add: e1000_ok_def e1000_demo_def Let_def)

theorem e1000_irq_delivers_witness:
  "map_option (\<lambda>(s, n). (rx_tail s, e1000_out s, rx_packets (nt_stats n)))
     (e1000_irq_handler (\<lambda>_. True) iface_a 0x84 (e1000_demo, net_demo iface_a)) =
   Some (1, [(E1000_REG_RDT, 7), (E1000_REG_RDT, 0)], rx_packets (nt_stats (net_demo iface_a)) + 2)"
proof -
  have xs: "[7, 0] = takeWhile (rx_done e1000_demo) (map (\<lambda>k. (unat (rx_tail e1000_demo) + k) mod 8) [0..<8])"
    by (simp add: upt_rec rx_done_def e1000_demo_def E1000_RXD_STA_DD_def Let_def nth_append)
  have one: "rx_packets (nt_stats (net_receive can iface_a (\<lambda>k. 0) 14 n)) = rx_packets (nt_stats n) + 1" for can n
    by (simp add: net_receive_def ETH_HDR_def be16_at_def ETH_TYPE_ARP_def ETH_TYPE_IPV4_def count_stat_def)
  have bit: "bit (0x84 :: u32) 7" by (simp add: bit_numeral_rec)
  show ?thesis
    unfolding e1000_irq_delivers [OF e1000_demo_ok bit xs]
    by (simp add: e1000_demo_def one Let_def nth_append)
qed

section \<open>Transmission and start\<close>

text \<open>The frame is in the buffer of the tail, the descriptor names it, and the card is told the new tail.\<close>

lemma e1000_send_queues:
  assumes "e1000_ok s" "e1000_present s" "length data \<le> 2048" "t = unat (tx_tail s)" "(r, s') = e1000_send_frame lk data s"
  shows "r = 0" "e1000_ok s'" "take (length data) (tx_buffers s' ! t) = data" "td_length (tx_descs s' ! t) = of_nat (length data)"
    "tx_tail s' = of_nat ((t + 1) mod 8)" "last (e1000_out s') = (E1000_REG_TDT, tx_tail s')"
    "k \<noteq> t \<Longrightarrow> tx_buffers s' ! k = tx_buffers s ! k"
proof -
  have t: "t < 8" "length (tx_buffers s) = 8" "length (tx_descs s) = 8" "length (tx_buffers s ! t) = 2048"
    using assms(1,4) by (auto simp: e1000_ok_def)
  have nx: "(tx_tail s + 1) mod 8 = of_nat ((t + 1) mod 8)" using next8 [of "tx_tail s"] t(1) assms(4) by simp
  note s' = assms(5) [unfolded e1000_send_frame_def E1000_BUF_SIZE_def E1000_NUM_TX_DESC_def e1000_write_def Let_def, simplified]
  show "r = 0" using s' assms(2,3) by simp
  show "e1000_ok s'" using s' assms(1-4) t nx by (auto simp: e1000_ok_def dest: set_update_subset_insert [THEN subsetD] simp del: of_nat_mod)
  show "take (length data) (tx_buffers s' ! t) = data" using s' assms(2,3,4) t by (simp add: put_at_def)
  show "td_length (tx_descs s' ! t) = of_nat (length data)" using s' assms(2,3,4) t by simp
  show "tx_tail s' = of_nat ((t + 1) mod 8)" using s' assms(2,3,4) nx by (simp del: of_nat_mod)
  show "last (e1000_out s') = (E1000_REG_TDT, tx_tail s')" using s' assms(2,3) by (simp add: E1000_REG_TDT_def)
  show "tx_buffers s' ! k = tx_buffers s ! k" if "k \<noteq> t" using s' assms(2,3,4) that by simp
qed

text \<open>The status that the card sets when it has sent a frame is not looked at: a ninth frame overwrites the first, sent or not.\<close>

lemma e1000_send_overwrites:
  assumes "e1000_ok s" "e1000_present s" "length data \<le> 2048"
  shows "fst (e1000_send_frame lk data (s\<lparr>tx_descs := d\<rparr>)) = 0"
    "tx_buffers (snd (e1000_send_frame lk data (s\<lparr>tx_descs := d\<rparr>))) = tx_buffers (snd (e1000_send_frame lk data s))"
  using assms by (simp_all add: e1000_send_frame_def E1000_BUF_SIZE_def e1000_write_def Let_def)

text \<open>A register that answers with the done bit at once is read once.\<close>

lemma eerd_at_once: "bit (reads i) 4 \<Longrightarrow> eerd_wait reads i t = reads i"
  by (subst eerd_wait.simps) (simp add: E1000_EERD_DONE_def and_push1 del: push_bit_of_1 eerd_wait.simps)

lemma write_regs: "fold (\<lambda>(r, v). e1000_write r v) ps s = s\<lparr>e1000_out := e1000_out s @ map (\<lambda>(r, v). (r div 4 * 4, v)) ps\<rparr>"
  by (induction ps arbitrary: s) (auto simp: e1000_write_def)

lemma clear_mta: "fold (\<lambda>i. e1000_write (f i) 0) xs s = s\<lparr>e1000_out := e1000_out s @ map (\<lambda>i. (f i div 4 * 4, 0)) xs\<rparr>"
  by (induction xs arbitrary: s) (simp_all add: e1000_write_def)

lemma setup_rx_descs:
  "rx_descs (e1000_setup_rx lk s) =
     fold (\<lambda>i d. d[i := (d ! i)\<lparr>rd_addr := ucast (lk_rx_buffers lk + of_nat (i * 2048)), rd_status := 0\<rparr>]) [0..<8] (rx_descs s)"
  "e1000_setup_rx lk s = s\<lparr>rx_descs := rx_descs (e1000_setup_rx lk s), e1000_out := e1000_out (e1000_setup_rx lk s)\<rparr>"
proof -
  have f: "fold (\<lambda>i s. s\<lparr>rx_descs := (rx_descs s)[i := (rx_descs s ! i)\<lparr>rd_addr := g i, rd_status := 0\<rparr>]\<rparr>) xs s =
      s\<lparr>rx_descs := fold (\<lambda>i d. d[i := (d ! i)\<lparr>rd_addr := g i, rd_status := 0\<rparr>]) xs (rx_descs s)\<rparr>" for g xs s
    by (induction xs arbitrary: s) simp_all
  have sel: "rx_descs (s\<lparr>rx_descs := d, e1000_out := out\<rparr>) = d" for d out by simp
  show "rx_descs (e1000_setup_rx lk s) =
      fold (\<lambda>i d. d[i := (d ! i)\<lparr>rd_addr := ucast (lk_rx_buffers lk + of_nat (i * 2048)), rd_status := 0\<rparr>]) [0..<8] (rx_descs s)"
    unfolding e1000_setup_rx_def Let_def write_regs f E1000_NUM_RX_DESC_def E1000_BUF_SIZE_def by (rule sel)
  show "e1000_setup_rx lk s = s\<lparr>rx_descs := rx_descs (e1000_setup_rx lk s), e1000_out := e1000_out (e1000_setup_rx lk s)\<rparr>"
    unfolding e1000_setup_rx_def Let_def write_regs f by simp
qed

lemma fold_update_length: "length (fold (\<lambda>i d. d[i := g i d]) xs d) = length d"
  by (induction xs arbitrary: d) simp_all

text \<open>What the stages of the start keep.\<close>

lemma stages_ok:
  "e1000_ok (e1000_write r v s) = e1000_ok s" "e1000_ok (e1000_map_mmio p s) = e1000_ok s" "e1000_ok (e1000_reset ctrl s) = e1000_ok s"
  "e1000_ok (snd (e1000_eeprom_read reads a s)) = e1000_ok s" "e1000_ok (e1000_read_mac eerd s) = e1000_ok s"
  "e1000_ok (fold (\<lambda>i. e1000_write (f i) 0) xs s) = e1000_ok s" "e1000_ok (e1000_setup_rx lk s) = e1000_ok s"
  "e1000_ok s \<Longrightarrow> e1000_ok (e1000_setup_tx lk s)"
proof -
  show w: "e1000_ok (e1000_write r v s) = e1000_ok s" for r v s by (simp add: e1000_ok_def e1000_write_def)
  show "e1000_ok (e1000_map_mmio p s) = e1000_ok s" by (simp add: e1000_ok_def e1000_map_mmio_def)
  show "e1000_ok (e1000_reset ctrl s) = e1000_ok s" by (simp add: e1000_reset_def w Let_def)
  show "e1000_ok (snd (e1000_eeprom_read reads a s)) = e1000_ok s" by (simp add: e1000_eeprom_read_def w)
  show "e1000_ok (e1000_read_mac eerd s) = e1000_ok s"
    by (simp add: e1000_read_mac_def e1000_eeprom_read_def e1000_ok_def e1000_write_def del: eerd_wait.simps)
  show "e1000_ok (fold (\<lambda>i. e1000_write (f i) 0) xs s) = e1000_ok s" by (induction xs arbitrary: s) (simp_all add: w)
  show "e1000_ok (e1000_setup_rx lk s) = e1000_ok s"
    by (subst setup_rx_descs(2)) (simp add: e1000_ok_def setup_rx_descs(1) fold_update_length del: upt_Suc)
  show "e1000_ok s \<Longrightarrow> e1000_ok (e1000_setup_tx lk s)"
    unfolding e1000_setup_tx_def write_regs by (simp add: e1000_ok_def E1000_NUM_TX_DESC_def)
qed

lemma stages_mac:
  "e1000_mac (e1000_write r v s) = e1000_mac s" "e1000_mac (fold (\<lambda>i. e1000_write (f i) 0) xs s) = e1000_mac s"
  "e1000_mac (e1000_setup_rx lk s) = e1000_mac s" "e1000_mac (e1000_setup_tx lk s) = e1000_mac s"
proof -
  show w: "e1000_mac (e1000_write r v s) = e1000_mac s" for r v s by (simp add: e1000_write_def)
  show "e1000_mac (fold (\<lambda>i. e1000_write (f i) 0) xs s) = e1000_mac s" by (induction xs arbitrary: s) (simp_all add: w)
  show "e1000_mac (e1000_setup_rx lk s) = e1000_mac s" by (subst setup_rx_descs(2)) simp
  show "e1000_mac (e1000_setup_tx lk s) = e1000_mac s" unfolding e1000_setup_tx_def write_regs by simp
qed

text \<open>The address is that of the EEPROM when the done bit comes with the first answer.\<close>

lemma read_mac_words:
  assumes "\<And>a. bit (eerd a 0) 4" "\<And>a. w a = (ucast (drop_bit 16 (eerd a 0)) :: u16)"
  shows "e1000_mac (e1000_read_mac eerd s) =
    [ucast (w 0), ucast (drop_bit 8 (w 0)), ucast (w 1), ucast (drop_bit 8 (w 1)), ucast (w 2), ucast (drop_bit 8 (w 2))]"
proof -
  have m: "(0xFF :: u16) = mask 8" by (simp add: mask_eq_exp_minus_1)
  have low: "(ucast (v AND 0xFF) :: u8) = ucast v" "(ucast (drop_bit 8 v AND 0xFF) :: u8) = ucast (drop_bit 8 v)" for v :: u16
    unfolding m by (auto simp: bit_eq_iff bit_simps)
  have once: "eerd_wait (eerd a) 0 t = eerd a 0" for a t by (rule eerd_at_once) (rule assms(1))
  show ?thesis by (simp only: e1000_read_mac_def e1000_eeprom_read_def once assms(2) [symmetric] prod.case Let_def low) simp
qed

text \<open>With a card on the bus the driver starts: its state is well-formed and its interface is the last one of the network stack.\<close>

lemma e1000_init_starts:
  assumes "pci_find_device E1000_VENDOR E1000_DEVICE pci = Some dev" "e1000_ok s"
  shows "\<exists>s' iface. e1000_init lk pci ctrl eerd (s, n) = (True, s', snd (net_register_iface iface n)) \<and> e1000_ok s' \<and> e1000_present s' \<and>
    e1000_mac s' = e1000_mac (e1000_read_mac eerd (e1000_reset ctrl (e1000_map_mmio (pd_bar dev ! 0 AND NOT 0xF) s))) \<and> if_mac iface = e1000_mac s'"
proof -
  have set: "e1000_ok (s\<lparr>e1000_irq := q\<rparr>) = e1000_ok s" "e1000_ok (s\<lparr>e1000_present := b\<rparr>) = e1000_ok s" for s q b
    by (simp_all add: e1000_ok_def)
  show ?thesis
    unfolding e1000_init_def assms(1) Let_def prod.case option.case
    by (intro exI conjI, rule refl) (use assms(2) in \<open>simp_all add: stages_ok stages_mac set\<close>)
qed

text \<open>With or without a card at most one interface is added, at the end of the list.\<close>

lemma e1000_init_ifaces: "\<exists>ifs. snd (snd (e1000_init lk pci ctrl eerd (s, n))) = n\<lparr>nt_ifaces := nt_ifaces n @ ifs\<rparr>"
proof -
  have reg: "\<exists>ifs. snd (net_register_iface iface n) = n\<lparr>nt_ifaces := nt_ifaces n @ ifs\<rparr>" for iface
    by (cases "length (nt_ifaces n) \<ge> MAX_IFACES") (auto simp: net_register_iface_def intro: exI [where x = "[]"])
  show ?thesis
  proof (cases "pci_find_device E1000_VENDOR E1000_DEVICE pci")
    case None
    then show ?thesis by (auto simp: e1000_init_def intro: exI [where x = "[]"])
  next
    case (Some dev)
    have "\<exists>iface. snd (snd (e1000_init lk pci ctrl eerd (s, n))) = snd (net_register_iface iface n)"
      unfolding e1000_init_def Some Let_def prod.case option.case snd_conv by (intro exI, rule refl)
    then show ?thesis using reg by metis
  qed
qed

end
