(* ===== verification/Rtl8139.thy ===== *)
theory Rtl8139
  imports Pci Net
begin

text \<open>
  The driver of the Realtek RTL8139 network card (\<open>drivers/rtl8139.c\<close>). What the card answers is an argument: the values of the command
  register pass by pass, the answers of \<open>kmalloc\<close>, the configuration of the card. What the driver writes to the ports is a list.
  The receive buffer is a memory that the card fills; reading behind its 9708 bytes is not excluded by the code and not by the model.
\<close>

section \<open>Ports\<close>

definition RTL_VENDOR :: u16 where "RTL_VENDOR = 0x10EC"
definition RTL_DEVICE :: u16 where "RTL_DEVICE = 0x8139"
definition RTL_TXSTATUS :: "u32 \<Rightarrow> u16" where "RTL_TXSTATUS n = 0x10 + ucast n * 4"
definition RTL_TXADDR :: "u32 \<Rightarrow> u16" where "RTL_TXADDR n = 0x20 + ucast n * 4"
definition RTL_RXBUF :: u16 where "RTL_RXBUF = 0x30"
definition RTL_CMD :: u16 where "RTL_CMD = 0x37"
definition RTL_CAPR :: u16 where "RTL_CAPR = 0x38"
definition RTL_IMR :: u16 where "RTL_IMR = 0x3C"
definition RTL_ISR :: u16 where "RTL_ISR = 0x3E"
definition RTL_TCR :: u16 where "RTL_TCR = 0x40"
definition RTL_RCR :: u16 where "RTL_RCR = 0x44"
definition RTL_CMD_TE :: u8 where "RTL_CMD_TE = 0x04"
definition RTL_CMD_RE :: u8 where "RTL_CMD_RE = 0x08"
definition RTL_CMD_RST :: u8 where "RTL_CMD_RST = 0x10"
definition RTL_IMR_ROK :: u16 where "RTL_IMR_ROK = 0x01"
definition RTL_IMR_TOK :: u16 where "RTL_IMR_TOK = 0x04"
definition RTL_IMR_RER :: u16 where "RTL_IMR_RER = 0x02"
definition RTL_RCR_AAP :: u32 where "RTL_RCR_AAP = push_bit 0 1"
definition RTL_RCR_APM :: u32 where "RTL_RCR_APM = push_bit 1 1"
definition RTL_RCR_AM :: u32 where "RTL_RCR_AM = push_bit 2 1"
definition RTL_RCR_AB :: u32 where "RTL_RCR_AB = push_bit 3 1"
definition RTL_RCR_WRAP :: u32 where "RTL_RCR_WRAP = push_bit 7 1"
definition RTL_RCR_RBLEN_8K :: u32 where "RTL_RCR_RBLEN_8K = push_bit 11 0"
definition RTL_TX_BUFS :: nat where "RTL_TX_BUFS = 4"
definition RTL_TX_BUF_SIZE :: nat where "RTL_TX_BUF_SIZE = 1536"

text \<open>A write of 8, 16 or 32 bits to a port.\<close>

datatype rtl_port = OutB u16 u8 | OutW u16 u16 | OutL u16 u32

record rtl8139 =
  io_base :: u16
  rx_buf :: "nat \<Rightarrow> u8"
  tx_buf :: "u8 list list"
  tx_cur :: u32
  rx_pos :: u32
  rtl_mac :: "u8 list"
  rtl_out :: "rtl_port list"
  rtl_irq :: "u8 option"
  rtl_pci :: "(u32 \<times> u32) list"

definition rtl_outb :: "u16 \<Rightarrow> u8 \<Rightarrow> rtl8139 \<Rightarrow> rtl8139" where "rtl_outb reg v s = s\<lparr>rtl_out := rtl_out s @ [OutB (io_base s + reg) v]\<rparr>"
definition rtl_outw :: "u16 \<Rightarrow> u16 \<Rightarrow> rtl8139 \<Rightarrow> rtl8139" where "rtl_outw reg v s = s\<lparr>rtl_out := rtl_out s @ [OutW (io_base s + reg) v]\<rparr>"
definition rtl_outl :: "u16 \<Rightarrow> u32 \<Rightarrow> rtl8139 \<Rightarrow> rtl8139" where "rtl_outl reg v s = s\<lparr>rtl_out := rtl_out s @ [OutL (io_base s + reg) v]\<rparr>"

section \<open>Reception\<close>

definition rtl_le16 :: "(nat \<Rightarrow> u8) \<Rightarrow> nat \<Rightarrow> u16" where
  "rtl_le16 m a = ucast (m a) OR push_bit 8 (ucast (m (a + 1)))"

definition rtl_advance :: "u16 \<Rightarrow> rtl8139 \<Rightarrow> rtl8139" where
  "rtl_advance pkt_len s =
     (let s = s\<lparr>rx_pos := (rx_pos s + ucast pkt_len + 4 + 3) AND NOT 3\<rparr> in rtl_outw RTL_CAPR (ucast (rx_pos s - 16)) s)"

definition rtl_rx_step :: "(u32 \<Rightarrow> bool) \<Rightarrow> net_iface \<Rightarrow> rtl8139 \<times> net \<Rightarrow> rtl8139 \<times> net" where
  "rtl_rx_step can iface = (\<lambda>(s, n).
     let hdr = unat (rx_pos s mod (8192 + 16)); pkt_status = rtl_le16 (rx_buf s) hdr; pkt_len = rtl_le16 (rx_buf s) (hdr + 2)
     in if pkt_status AND 1 = 0 \<or> pkt_len > 1514 \<or> pkt_len < 4 then (rtl_advance pkt_len s, n)
        else (rtl_advance pkt_len s, net_receive can iface (\<lambda>k. rx_buf s (hdr + 4 + k)) (ucast pkt_len - 4) n))"

text \<open>\<open>cmds\<close> are the values that the command register answers; the loop ends when bit 0 of one is set. While there is none the model stops with the last one.\<close>

fun rtl_rx_loop :: "(u32 \<Rightarrow> bool) \<Rightarrow> net_iface \<Rightarrow> u8 list \<Rightarrow> rtl8139 \<times> net \<Rightarrow> rtl8139 \<times> net" where
  "rtl_rx_loop can iface [] st = st"
| "rtl_rx_loop can iface (cmd # cmds) st = (if cmd AND 1 \<noteq> 0 then st else rtl_rx_loop can iface cmds (rtl_rx_step can iface st))"

definition rtl_irq_handler :: "(u32 \<Rightarrow> bool) \<Rightarrow> net_iface \<Rightarrow> u16 \<Rightarrow> u8 list \<Rightarrow> rtl8139 \<times> net \<Rightarrow> rtl8139 \<times> net" where
  "rtl_irq_handler can iface isr cmds = (\<lambda>(s, n). rtl_rx_loop can iface cmds (rtl_outw RTL_ISR isr s, n))"

section \<open>Transmission\<close>

definition rtl8139_send_frame :: "u8 list \<Rightarrow> rtl8139 \<Rightarrow> int \<times> rtl8139" where
  "rtl8139_send_frame data s =
     (if io_base s = 0 \<or> length data > RTL_TX_BUF_SIZE then (- 1, s)
      else
        let t = unat (tx_cur s);
            s = s\<lparr>tx_buf := (tx_buf s)[t := put_at (tx_buf s ! t) 0 data]\<rparr>;
            s = rtl_outl (RTL_TXSTATUS (tx_cur s)) (of_nat (length data)) s
        in (0, s\<lparr>tx_cur := (tx_cur s + 1) mod of_nat RTL_TX_BUFS\<rparr>))"

definition rtl8139_send :: "u8 list \<Rightarrow> rtl8139 \<Rightarrow> int \<times> rtl8139" where
  "rtl8139_send data s = rtl8139_send_frame data s"

section \<open>Start\<close>

text \<open>The counter after the wait for the end of the reset, and whether the wait ran out.\<close>

function rtl_reset_wait :: "(nat \<Rightarrow> u8) \<Rightarrow> nat \<Rightarrow> u32 \<Rightarrow> u32" where
  "rtl_reset_wait cmd i timeout =
     (if cmd i AND RTL_CMD_RST = 0 then timeout else if timeout = 0 then timeout - 1 else rtl_reset_wait cmd (i + 1) (timeout - 1))"
  by pat_completeness auto
termination
proof (relation "measure (\<lambda>(cmd, i, timeout). unat timeout)")
  show "((cmd, i + 1, timeout - 1), cmd, i, timeout) \<in> measure (\<lambda>(cmd, i, timeout). unat timeout)"
    if "timeout \<noteq> 0" for cmd :: "nat \<Rightarrow> u8" and i :: nat and timeout :: u32
    using that unat_gt_0 [of timeout] unat_minus_one [OF that] by simp
qed simp

text \<open>What the card and the allocator answer: the command register after the reset, the address registers, the addresses of the buffers.\<close>

record rtl_answers =
  ra_cmd :: "nat \<Rightarrow> u8"
  ra_idr :: "nat \<Rightarrow> u8"
  ra_rx :: "u32 option"
  ra_tx :: "nat \<Rightarrow> u32 option"

text \<open>The transmit buffers one after the other, until an allocation fails.\<close>

fun rtl_setup_tx :: "(nat \<Rightarrow> u32 option) \<Rightarrow> nat list \<Rightarrow> rtl8139 \<Rightarrow> bool \<times> rtl8139" where
  "rtl_setup_tx alloc [] s = (True, s)"
| "rtl_setup_tx alloc (i # is) s =
     (case alloc i of
        None \<Rightarrow> (False, s)
      | Some p \<Rightarrow> rtl_setup_tx alloc is (rtl_outl (RTL_TXADDR (of_nat i)) p (s\<lparr>tx_buf := (tx_buf s)[i := replicate RTL_TX_BUF_SIZE 0]\<rparr>)))"

definition rtl_enable :: "pci_device \<Rightarrow> rtl8139 \<Rightarrow> rtl8139" where
  "rtl_enable dev s =
     (let s = (if pd_int_line dev < 16 then s\<lparr>rtl_irq := Some (pd_int_line dev)\<rparr> else s);
          s = rtl_outw RTL_IMR (RTL_IMR_ROK OR RTL_IMR_RER OR RTL_IMR_TOK) s;
          s = rtl_outl RTL_RCR (RTL_RCR_AAP OR RTL_RCR_APM OR RTL_RCR_AM OR RTL_RCR_AB OR RTL_RCR_WRAP OR RTL_RCR_RBLEN_8K) s;
          s = rtl_outl RTL_TCR 0x03000700 s
      in rtl_outb RTL_CMD (RTL_CMD_TE OR RTL_CMD_RE) s)"

definition rtl8139_init :: "rtl_answers \<Rightarrow> pci_cfg \<Rightarrow> pci_table \<Rightarrow> rtl8139 \<times> net \<Rightarrow> int \<times> rtl8139 \<times> net" where
  "rtl8139_init a cfg pci = (\<lambda>(s, n).
     case pci_find_device RTL_VENDOR RTL_DEVICE pci of
       None \<Rightarrow> (- 1, s, n)
     | Some dev \<Rightarrow>
         let s = s\<lparr>rtl_pci := pci_enable_bus_master cfg dev (rtl_pci s)\<rparr>; s = s\<lparr>io_base := ucast (pd_bar dev ! 0 AND NOT 3)\<rparr> in
         if io_base s = 0 then (- 1, s, n)
         else
           let s = rtl_outb RTL_CMD RTL_CMD_RST s in
           if rtl_reset_wait (ra_cmd a) 0 100000 = 0 then (- 1, s, n)
           else
             let s = s\<lparr>rtl_mac := map (ra_idr a) [0..<6]\<rparr> in
             case ra_rx a of
               None \<Rightarrow> (- 1, s, n)
             | Some p \<Rightarrow>
                 let s = rtl_outl RTL_RXBUF p (s\<lparr>rx_buf := (\<lambda>_. 0)\<rparr>) in
                 case rtl_setup_tx (ra_tx a) [0..<RTL_TX_BUFS] s of
                   (False, s) \<Rightarrow> (- 1, s, n)
                 | (True, s) \<Rightarrow>
                     let s = rtl_enable dev s;
                         iface = \<lparr>if_mac = rtl_mac s, if_ip = 0, if_netmask = 0, if_gateway = 0, if_up = True, if_send = Some (\<lambda>d. fst (rtl8139_send_frame d s))\<rparr>
                     in (0, s, snd (net_register_iface iface n)))"

definition rtl8139_get_mac :: "rtl8139 \<Rightarrow> u8 list" where
  "rtl8139_get_mac s = rtl_mac s"

section \<open>A packet of the ring\<close>

text \<open>The layout of the card: status, length with the checksum of four bytes, the frame, the checksum.\<close>

definition packet_at :: "(nat \<Rightarrow> u8) \<Rightarrow> nat \<Rightarrow> u8 list \<Rightarrow> bool" where
  "packet_at m a f \<longleftrightarrow> bit (rtl_le16 m a) 0 \<and> rtl_le16 m (a + 2) = of_nat (length f + 4) \<and> (\<forall>i < length f. m (a + 4 + i) = f ! i)"

text \<open>Below the first wrap a frame of up to 1510 bytes goes to the stack with its length, and the position moves to the next packet.\<close>

lemma rtl_step_delivers:
  assumes "packet_at (rx_buf s) (unat (rx_pos s)) f" "unat (rx_pos s) < 8208" "length f \<le> 1510"
  shows "rtl_rx_step can iface (s, n) =
    (rtl_advance (of_nat (length f + 4)) s, net_receive can iface (\<lambda>k. rx_buf s (unat (rx_pos s) + 4 + k)) (of_nat (length f)) n)"
proof -
  have p: "unat (rx_pos s mod 8208) = unat (rx_pos s)" using assms(2) by (simp add: unat_mod)
  have st: "rtl_le16 (rx_buf s) (unat (rx_pos s)) AND 1 \<noteq> 0"
    using assms(1) and_push1 [of "rtl_le16 (rx_buf s) (unat (rx_pos s))" 0] by (simp add: packet_at_def)
  have len: "unat (of_nat (length f + 4) :: u16) = length f + 4" using assms(3) by (simp add: unat_of_nat take_bit_nat_eq_self del: of_nat_add)
  then have range: "\<not> (of_nat (length f + 4) :: u16) > 1514" "\<not> (of_nat (length f + 4) :: u16) < 4"
    using assms(3) by (simp_all add: word_less_nat_alt del: of_nat_add)
  have "(ucast (of_nat (length f + 4) :: u16) :: u32) - 4 = of_nat (length f)"
    using len assms(3) by (simp add: word_unat_eq_iff unat_sub word_le_nat_alt unat_of_nat take_bit_nat_eq_self del: of_nat_add)
  then show ?thesis using assms(1) st range
    by (simp add: rtl_rx_step_def p packet_at_def Let_def del: of_nat_add)
qed

text \<open>Frames of 1511 to 1514 bytes, which Ethernet allows, have a length field above 1514 and are skipped.\<close>

lemma rtl_skips_full_frames:
  assumes "packet_at (rx_buf s) (unat (rx_pos s)) f" "unat (rx_pos s) < 8208" "length f \<in> {1511..1514}"
  shows "snd (rtl_rx_step can iface (s, n)) = n"
proof -
  have p: "unat (rx_pos s mod 8208) = unat (rx_pos s)" using assms(2) by (simp add: unat_mod)
  have "unat (of_nat (length f + 4) :: u16) = length f + 4" using assms(3) by (simp add: unat_of_nat take_bit_nat_eq_self del: of_nat_add)
  then have "(of_nat (length f + 4) :: u16) > 1514" using assms(3) by (simp add: word_less_nat_alt del: of_nat_add)
  then show ?thesis using assms(1) by (simp add: rtl_rx_step_def p packet_at_def Let_def del: of_nat_add)
qed

text \<open>
  The ring that the configuration asks for has 8192 bytes (\<open>RTL_RCR_RBLEN_8K\<close>); the card puts the packet after position 8192 at its
  beginning. The driver looks for it at 8192, in the room for overlong packets.
\<close>

lemma rtl_wraps_late:
  assumes "rx_pos s = 8192" "rtl_le16 (rx_buf s) 8192 = 0"
  shows "snd (rtl_rx_step can iface (s, n)) = n"
  using assms by (simp add: rtl_rx_step_def Let_def)

text \<open>A card that never ends its reset: the counter has gone through 0 and is not 0 when it is tested.\<close>

lemma rtl_reset_timeout_unnoticed: "(\<And>i. cmd i AND RTL_CMD_RST \<noteq> 0) \<Longrightarrow> rtl_reset_wait cmd i t = - 1"
proof (induction cmd i t rule: rtl_reset_wait.induct)
  case (1 cmd i t)
  then show ?case by (subst rtl_reset_wait.simps) (cases "t = 0", simp_all del: rtl_reset_wait.simps)
qed

text \<open>A card that ends its reset at once is accepted.\<close>

lemma rtl_reset_at_once: "cmd i AND RTL_CMD_RST = 0 \<Longrightarrow> rtl_reset_wait cmd i t = t"
  by (simp add: rtl_reset_wait.simps [of cmd i t] del: rtl_reset_wait.simps)

text \<open>The four transmit buffers take turns; whether the card has sent what one holds is not looked at.\<close>

lemma rtl_send_turns:
  assumes "io_base s \<noteq> 0" "length (tx_buf s) = 4" "unat (tx_cur s) < 4" "length (tx_buf s ! unat (tx_cur s)) = 1536" "length data \<le> 1536"
  shows "\<exists>s'. rtl8139_send_frame data s = (0, s') \<and> take (length data) (tx_buf s' ! unat (tx_cur s)) = data \<and>
    unat (tx_cur s') = (unat (tx_cur s) + 1) mod 4 \<and> rtl_out s' = rtl_out s @ [OutL (io_base s + RTL_TXSTATUS (tx_cur s)) (of_nat (length data))]"
proof -
  have "unat ((tx_cur s + 1) mod 4) = (unat (tx_cur s) + 1) mod 4"
    using assms(3) by (simp add: unat_mod unat_word_ariths)
  then show ?thesis using assms
    by (simp add: rtl8139_send_frame_def RTL_TX_BUF_SIZE_def RTL_TX_BUFS_def rtl_outl_def put_at_def Let_def)
qed

text \<open>Whatever happens, at most one interface is added, at the end of the list.\<close>

lemma rtl_init_ifaces: "\<exists>ifs. snd (snd (rtl8139_init a cfg pci (s, n))) = n\<lparr>nt_ifaces := nt_ifaces n @ ifs\<rparr>"
proof -
  define Q where "Q r \<longleftrightarrow> (\<exists>ifs. snd (snd r) = n\<lparr>nt_ifaces := nt_ifaces n @ ifs\<rparr>)" for r :: "int \<times> rtl8139 \<times> net"
  have reg: "\<exists>ifs. snd (net_register_iface iface n) = n\<lparr>nt_ifaces := nt_ifaces n @ ifs\<rparr>" for iface
    by (cases "length (nt_ifaces n) \<ge> MAX_IFACES") (auto simp: net_register_iface_def intro: exI [where x = "[]"])
  have "Q (c, t, n)" for c t unfolding Q_def by (rule exI [where x = "[]"]) simp
  moreover have "Q (c, t, snd (net_register_iface x n))" for c t x using reg [of x] by (simp add: Q_def)
  ultimately have leaf: "Q (c, t, n)" "Q (c, t, snd (net_register_iface x n))" for c t x by blast+
  have lets: "(\<And>x. Q (f x)) \<Longrightarrow> Q (Let t f)" for t f by (simp add: Let_def)
  have opts: "Q c \<Longrightarrow> (\<And>x. Q (f x)) \<Longrightarrow> Q (case t of None \<Rightarrow> c | Some x \<Rightarrow> f x)" for t c f by (cases t) simp_all
  have ifs: "Q c \<Longrightarrow> Q d \<Longrightarrow> Q (if b then c else d)" for b c d by simp
  have prods: "(\<And>x y. Q (f x y)) \<Longrightarrow> Q (case t of (x, y) \<Rightarrow> f x y)" for t f by (cases t) simp
  have bools: "Q c \<Longrightarrow> Q d \<Longrightarrow> Q (case b of True \<Rightarrow> c | False \<Rightarrow> d)" for b c d by (cases b) simp_all
  have "Q (rtl8139_init a cfg pci (s, n))"
    unfolding rtl8139_init_def prod.case by (intro lets opts ifs prods bools leaf)
  then show ?thesis by (simp add: Q_def)
qed

end
