(* ===== verification/NetInit.thy ===== *)
theory NetInit
  imports E1000 Rtl8139 Dhcp Dns Tcp
begin

text \<open>
  The task that starts the network (\<open>net_init_task\<close> of \<open>kernel.c\<close>): the loopback interface, both cards, DHCP on the primary interface.
  Shown: whatever cards there are, the primary interface, which everything is sent on, is the loopback one.
\<close>

record net_system =
  ns_tcp :: tcp
  ns_e1000 :: e1000
  ns_rtl :: rtl8139
  ns_dhcp :: dhcp
  ns_dns :: dns

text \<open>What the hardware and the allocator answer during the start, and what the socket receives in the two waits of DHCP.\<close>

record net_answers =
  na_lo :: "u8 list \<Rightarrow> int"
  na_link :: e1000_link
  na_cfg :: pci_cfg
  na_ctrl :: "nat \<Rightarrow> u32"
  na_eerd :: "u8 \<Rightarrow> nat \<Rightarrow> u32"
  na_rtl :: rtl_answers
  na_can :: "u32 \<Rightarrow> bool"
  na_offer :: "(int \<times> (nat \<Rightarrow> u8)) list"
  na_ack :: "(int \<times> (nat \<Rightarrow> u8)) list"

definition net_add_cards :: "net_answers \<Rightarrow> net_system \<Rightarrow> net_system" where
  "net_add_cards a s =
     (let n = loopback_init (na_lo a) (tp_net (ns_tcp s)); pci = pci_init (na_cfg a);
          (_, e, n) = e1000_init (na_link a) pci (na_ctrl a) (na_eerd a) (ns_e1000 s, n);
          (_, r, n) = rtl8139_init (na_rtl a) (na_cfg a) pci (ns_rtl s, n)
      in s\<lparr>ns_e1000 := e, ns_rtl := r, ns_tcp := (ns_tcp s)\<lparr>tp_net := n\<rparr>\<rparr>)"

definition net_configure :: "net_answers \<Rightarrow> net_system \<Rightarrow> net_system" where
  "net_configure a s =
     (case net_get_primary (tp_net (ns_tcp s)) of
        None \<Rightarrow> s
      | Some iface \<Rightarrow>
          if \<not> if_up iface then s
          else
            let (ok, iface, d, n) = dhcp_discover (na_can a) (na_offer a) (na_ack a) iface (ns_dhcp s, tp_net (ns_tcp s));
                s = s\<lparr>ns_dhcp := d, ns_tcp := (ns_tcp s)\<lparr>tp_net := n\<lparr>nt_ifaces := (nt_ifaces n)[0 := iface]\<rparr>\<rparr>\<rparr>
            in if ok then s\<lparr>ns_dns := dns_set_server (if_gateway iface) (ns_dns s)\<rparr> else s)"

definition net_init_task :: "net_answers \<Rightarrow> net_system \<Rightarrow> net_system" where
  "net_init_task a s = (let s = net_configure a (net_add_cards a s) in s\<lparr>ns_tcp := tcp_init (ns_tcp s)\<rparr>)"

section \<open>Nothing leaves the machine\<close>

text \<open>An ARP cache without entries, and what keeps it.\<close>

definition arp_void :: "net \<Rightarrow> bool" where
  "arp_void n \<longleftrightarrow> (\<forall>ip. arp_lookup ip (nt_arp n) = None)"

lemma arp_request_keeps [simp]:
  "nt_arp (arp_send_request iface ip n) = nt_arp n" "nt_ifaces (arp_send_request iface ip n) = nt_ifaces n"
  by (simp_all add: arp_send_request_def count_stat_def transmit_def split: option.split)

lemma send_void:
  assumes "arp_void n"
  shows "fst (sock_sendto can fd dst port data n) < 0"
  using assms by (simp add: sock_sendto_def udp_send_def ip4_send_def arp_void_def Let_def split: list.split)

lemma send_keeps:
  assumes "arp_void n"
  shows "nt_arp (snd (sock_sendto can fd dst port data n)) = nt_arp n" "nt_ifaces (snd (sock_sendto can fd dst port data n)) = nt_ifaces n"
  using assms by (simp_all add: sock_sendto_def udp_send_def ip4_send_def arp_void_def Let_def count_stat_def split: list.split)

lemma sock_keeps:
  "nt_arp (snd (sock_open p n)) = nt_arp n" "nt_ifaces (snd (sock_open p n)) = nt_ifaces n"
  "nt_arp (snd (sock_bind fd port n)) = nt_arp n" "nt_ifaces (snd (sock_bind fd port n)) = nt_ifaces n"
  "nt_arp (sock_close fd n) = nt_arp n" "nt_ifaces (sock_close fd n) = nt_ifaces n"
  by (simp_all add: sock_open_def sock_bind_def sock_close_def split: option.split)

lemma dhcp_keeps:
  assumes "arp_void n" "(ok, iface', d', n') = dhcp_discover can p1 p2 iface (d, n)"
  shows "nt_arp n' = nt_arp n" "nt_ifaces n' = nt_ifaces n" "if_mac iface' = if_mac iface" "if_send iface' = if_send iface"
proof -
  have void: "arp_void m" if "nt_arp m = nt_arp n" for m using assms(1) that by (simp add: arp_void_def)
  obtain sock n1 where o: "sock_open IP_PROTO_UDP n = (sock, n1)" by (cases "sock_open IP_PROTO_UDP n")
  define n2 where "n2 = snd (sock_bind sock DHCP_CLIENT_PORT n1)"
  have k1: "nt_arp n1 = nt_arp n" "nt_ifaces n1 = nt_ifaces n" using sock_keeps(1,2) [of IP_PROTO_UDP n] by (simp_all add: o)
  then have k2: "nt_arp n2 = nt_arp n" "nt_ifaces n2 = nt_ifaces n" by (simp_all add: n2_def sock_keeps)
  have k3: "nt_arp (snd (sock_sendto can fd dst port data m)) = nt_arp n" "nt_ifaces (snd (sock_sendto can fd dst port data m)) = nt_ifaces n"
    if "nt_arp m = nt_arp n" "nt_ifaces m = nt_ifaces n" for fd dst port data m
    using send_keeps [OF void [OF that(1)]] that by simp_all
  show "nt_arp n' = nt_arp n" "nt_ifaces n' = nt_ifaces n" "if_mac iface' = if_mac iface" "if_send iface' = if_send iface"
    using assms(2) k1 k2
    by (auto simp: dhcp_discover_def o n2_def [symmetric] k3 sock_keeps Let_def split: if_splits prod.splits)
qed

text \<open>The first interface of the list is the loopback one before and after the configuration.\<close>

lemma add_cards_net:
  "\<exists>ifs. tp_net (ns_tcp (net_add_cards a s)) = loopback_init (na_lo a) (tp_net (ns_tcp s))
     \<lparr>nt_ifaces := nt_ifaces (loopback_init (na_lo a) (tp_net (ns_tcp s))) @ ifs\<rparr>"
proof -
  define n pci where "n = loopback_init (na_lo a) (tp_net (ns_tcp s))" and "pci = pci_init (na_cfg a)"
  obtain b e m where e: "e1000_init (na_link a) pci (na_ctrl a) (na_eerd a) (ns_e1000 s, n) = (b, e, m)"
    by (metis prod_cases3)
  obtain b' r m' where r: "rtl8139_init (na_rtl a) (na_cfg a) pci (ns_rtl s, m) = (b', r, m')"
    by (metis prod_cases3)
  obtain ifs where m: "m = n\<lparr>nt_ifaces := nt_ifaces n @ ifs\<rparr>"
    using e1000_init_ifaces [of "na_link a" pci "na_ctrl a" "na_eerd a" "ns_e1000 s" n] by (auto simp: e)
  obtain ifs' where m': "m' = m\<lparr>nt_ifaces := nt_ifaces m @ ifs'\<rparr>"
    using rtl_init_ifaces [of "na_rtl a" "na_cfg a" pci "ns_rtl s" m] by (auto simp: r)
  have "tp_net (ns_tcp (net_add_cards a s)) = m'"
    by (simp only: net_add_cards_def n_def [symmetric] pci_def [symmetric] Let_def e r prod.case) simp
  then show ?thesis by (auto simp: m m' n_def)
qed

lemma add_cards_primary:
  assumes "nt_ifaces (tp_net (ns_tcp s)) = []"
  shows "\<exists>ifs. nt_ifaces (tp_net (ns_tcp (net_add_cards a s))) = lo_iface (na_lo a) # ifs"
    "nt_arp (tp_net (ns_tcp (net_add_cards a s))) = nt_arp (tp_net (ns_tcp s))"
  using add_cards_net [of a s] assms by (auto simp: loopback_init_def net_register_iface_def MAX_IFACES_def)

lemma configure_primary:
  assumes "arp_void (tp_net (ns_tcp s))" "nt_ifaces (tp_net (ns_tcp s)) = iface # ifs"
  shows "\<exists>iface'. nt_ifaces (tp_net (ns_tcp (net_configure a s))) = iface' # ifs \<and> if_mac iface' = if_mac iface \<and> if_send iface' = if_send iface"
    "nt_arp (tp_net (ns_tcp (net_configure a s))) = nt_arp (tp_net (ns_tcp s))"
proof -
  obtain ok iface' d n where d: "(ok, iface', d, n) = dhcp_discover (na_can a) (na_offer a) (na_ack a) iface (ns_dhcp s, tp_net (ns_tcp s))"
    by (metis prod_cases4)
  note k = dhcp_keeps [OF assms(1) d]
  have p: "net_get_primary (tp_net (ns_tcp s)) = Some iface" by (simp add: net_get_primary_def assms(2))
  show "\<exists>iface'. nt_ifaces (tp_net (ns_tcp (net_configure a s))) = iface' # ifs \<and> if_mac iface' = if_mac iface \<and> if_send iface' = if_send iface"
    "nt_arp (tp_net (ns_tcp (net_configure a s))) = nt_arp (tp_net (ns_tcp s))"
    using k assms(2) by (auto simp: net_configure_def p d [symmetric] Let_def)
qed

text \<open>
  C40: the start of the network leaves the loopback interface as the primary one, whatever cards are found, whatever they answer and whatever DHCP
  receives; as long as the ARP cache is empty, as it is at the start, every datagram is refused.
\<close>

theorem net_start_sends_nothing:
  assumes "nt_ifaces (tp_net (ns_tcp s)) = []" "arp_void (tp_net (ns_tcp s))" "n = tp_net (ns_tcp (net_init_task a s))"
  shows "\<exists>iface. net_get_primary n = Some iface \<and> if_send iface = Some (na_lo a) \<and> if_mac iface = replicate 6 0 \<and>
    (\<forall>fd dst port data. fst (sock_sendto can fd dst port data n) < 0)"
proof -
  obtain ifs where c: "nt_ifaces (tp_net (ns_tcp (net_add_cards a s))) = lo_iface (na_lo a) # ifs"
    "nt_arp (tp_net (ns_tcp (net_add_cards a s))) = nt_arp (tp_net (ns_tcp s))"
    using add_cards_primary [OF assms(1)] by blast
  then have void: "arp_void (tp_net (ns_tcp (net_add_cards a s)))" using assms(2) by (simp add: arp_void_def)
  have n: "n = tp_net (ns_tcp (net_configure a (net_add_cards a s)))" by (simp add: assms(3) net_init_task_def tcp_init_def Let_def)
  obtain iface where i: "nt_ifaces n = iface # ifs" "if_mac iface = replicate 6 0" "if_send iface = Some (na_lo a)" "nt_arp n = nt_arp (tp_net (ns_tcp s))"
    using configure_primary [OF void c(1), of a] c(2) by (auto simp: n lo_iface_def)
  have "arp_void n" using assms(2) i(4) by (simp add: arp_void_def)
  from send_void [OF this] i show ?thesis by (auto simp: net_get_primary_def)
qed

definition net_boot :: net_system where
  "net_boot = \<lparr>ns_tcp = \<lparr>tp_conns = [], tp_net = (net_demo iface_a)\<lparr>nt_ifaces := [], nt_arp := []\<rparr>\<rparr>, ns_e1000 = e1000_demo,
     ns_rtl = \<lparr>io_base = 0, rx_buf = (\<lambda>_. 0), tx_buf = replicate 4 [], tx_cur = 0, rx_pos = 0, rtl_mac = [], rtl_out = [], rtl_irq = None, rtl_pci = []\<rparr>,
     ns_dhcp = \<lparr>dh_lease = lease_zero, dh_valid = False, dh_xid = 0\<rparr>, ns_dns = \<lparr>dns_server = 0, dns_txid = 1\<rparr>\<rparr>"

text \<open>A machine whose bus has a card in every slot.\<close>

definition answers_demo :: net_answers where
  "answers_demo = \<lparr>na_lo = (\<lambda>_. 0), na_link = \<lparr>lk_rx_descs = 0x10000, lk_tx_descs = 0x11000, lk_rx_buffers = 0x20000, lk_tx_buffers = 0x30000\<rparr>,
     na_cfg = (\<lambda>_. 0x100E8086), na_ctrl = (\<lambda>_. 0), na_eerd = (\<lambda>_ _. 0x10), na_rtl = \<lparr>ra_cmd = (\<lambda>_. 0), ra_idr = (\<lambda>_. 0), ra_rx = None, ra_tx = (\<lambda>_. None)\<rparr>,
     na_can = (\<lambda>_. True), na_offer = [], na_ack = []\<rparr>"

theorem net_start_sends_nothing_witness:
  "map_option if_mac (net_get_primary (tp_net (ns_tcp (net_init_task answers_demo net_boot)))) = Some (replicate 6 0) \<and>
   fst (sock_sendto (\<lambda>_. True) 0 0x0A000202 7 [1] (tp_net (ns_tcp (net_init_task answers_demo net_boot)))) < 0"
proof -
  have "nt_ifaces (tp_net (ns_tcp net_boot)) = []" "arp_void (tp_net (ns_tcp net_boot))"
    by (simp_all add: net_boot_def arp_void_def arp_lookup_def)
  from net_start_sends_nothing [OF this refl, of answers_demo "\<lambda>_. True"] show ?thesis by auto
qed

end
