(* ===== verification/Nvme.thy ===== *)
theory Nvme
  imports Pci
begin

text \<open>
  The NVMe disk driver (\<open>drivers/nvme.c\<close>, \<open>include/nvme.h\<close>). The controller is an argument: what its registers answer, what \<open>kmalloc\<close>
  returns, and for each command the completion queue pass by pass while the driver waits. What is written to registers is a list of
  offset and value. Shown: a completion in the next slot is told from the older entries by the phase bit, round after round; a late one is taken for that of the next command; the doorbells are rung at wrong registers.
  \<open>nvme_dump\<close> only prints.
\<close>

section \<open>Constants and entries (include/nvme.h)\<close>

definition NVME_PCI_CLASS :: u8 where "NVME_PCI_CLASS = 0x01"
definition NVME_PCI_SUBCLASS :: u8 where "NVME_PCI_SUBCLASS = 0x08"
definition NVME_CC :: u32 where "NVME_CC = 0x14"
definition NVME_AQA :: u32 where "NVME_AQA = 0x24"
definition NVME_ASQ :: u32 where "NVME_ASQ = 0x28"
definition NVME_ACQ :: u32 where "NVME_ACQ = 0x30"
definition NVME_CC_EN :: u32 where "NVME_CC_EN = push_bit 0 1"
definition NVME_CC_CSS :: u32 where "NVME_CC_CSS = push_bit 4 0"
definition NVME_CC_MPS :: u32 where "NVME_CC_MPS = push_bit 7 0"
definition NVME_CC_AMS :: u32 where "NVME_CC_AMS = push_bit 11 0"
definition NVME_CC_SHN :: u32 where "NVME_CC_SHN = push_bit 14 0"
definition NVME_CC_IOSQES :: u32 where "NVME_CC_IOSQES = push_bit 16 6"
definition NVME_CC_IOCQES :: u32 where "NVME_CC_IOCQES = push_bit 20 4"
definition NVME_CSTS_RDY :: u32 where "NVME_CSTS_RDY = push_bit 0 1"
definition NVME_CSTS_CFS :: u32 where "NVME_CSTS_CFS = push_bit 1 1"
definition NVME_ADMIN_QUEUE_SIZE :: nat where "NVME_ADMIN_QUEUE_SIZE = 16"
definition NVME_IO_QUEUE_SIZE :: nat where "NVME_IO_QUEUE_SIZE = 16"
definition NVME_ADMIN_CREATE_SQ :: u32 where "NVME_ADMIN_CREATE_SQ = 0x01"
definition NVME_ADMIN_CREATE_CQ :: u32 where "NVME_ADMIN_CREATE_CQ = 0x05"
definition NVME_ADMIN_IDENTIFY :: u32 where "NVME_ADMIN_IDENTIFY = 0x06"
definition NVME_IO_WRITE :: u32 where "NVME_IO_WRITE = 0x01"
definition NVME_IO_READ :: u32 where "NVME_IO_READ = 0x02"

record nvme_sqe =
  sq_cdw0 :: u32
  sq_nsid :: u32
  sq_rsvd :: u64
  sq_mptr :: u64
  sq_prp1 :: u64
  sq_prp2 :: u64
  sq_cdw10 :: u32
  sq_cdw11 :: u32
  sq_cdw12 :: u32
  sq_cdw13 :: u32
  sq_cdw14 :: u32
  sq_cdw15 :: u32

record nvme_cqe =
  cq_dw0 :: u32
  cq_dw1 :: u32
  cq_sq_head :: u16
  cq_sq_id :: u16
  cq_cmd_id :: u16
  cq_status :: u16

definition sqe_zero :: nvme_sqe where
  "sqe_zero = \<lparr>sq_cdw0 = 0, sq_nsid = 0, sq_rsvd = 0, sq_mptr = 0, sq_prp1 = 0, sq_prp2 = 0, sq_cdw10 = 0, sq_cdw11 = 0, sq_cdw12 = 0,
     sq_cdw13 = 0, sq_cdw14 = 0, sq_cdw15 = 0\<rparr>"

text \<open>A pair of queues as the driver sees it: its entries, the next free one, the next completion and the phase it will have.\<close>

record nvme_queue =
  nq_sq :: "nvme_sqe list"
  nq_tail :: u32
  nq_head :: u32
  nq_phase :: u8

record nvme =
  nvme_ok :: bool
  nvme_db_stride :: u32
  nvme_page_size :: u32
  nvme_sector_sz :: u32
  nvme_sectors :: u64
  nv_admin :: nvme_queue
  nv_io :: nvme_queue
  nv_cmd_id :: u16
  nv_out :: "(u32 \<times> u32) list"
  nv_pci :: "(u32 \<times> u32) list"
  nv_maps :: "u32 list"

definition nvme_writel :: "u32 \<Rightarrow> u32 \<Rightarrow> nvme \<Rightarrow> nvme" where
  "nvme_writel off val s = s\<lparr>nv_out := nv_out s @ [(off div 4 * 4, val)]\<rparr>"

definition nvme_writeq :: "u32 \<Rightarrow> u64 \<Rightarrow> nvme \<Rightarrow> nvme" where
  "nvme_writeq off val s = nvme_writel (off + 4) (ucast (drop_bit 32 val)) (nvme_writel off (ucast val) s)"

definition sq_doorbell :: "u32 \<Rightarrow> u16 \<Rightarrow> u32" where
  "sq_doorbell stride qid = 0x1000 + (2 * ucast qid) * 4 * stride"

definition cq_doorbell :: "u32 \<Rightarrow> u16 \<Rightarrow> u32" where
  "cq_doorbell stride qid = 0x1000 + (2 * ucast qid + 1) * 4 * stride"

definition nvme_ring_sq_db :: "u16 \<Rightarrow> u32 \<Rightarrow> nvme \<Rightarrow> nvme" where
  "nvme_ring_sq_db qid tail s = nvme_writel (sq_doorbell (nvme_db_stride s) qid) tail s"

definition nvme_ring_cq_db :: "u16 \<Rightarrow> u32 \<Rightarrow> nvme \<Rightarrow> nvme" where
  "nvme_ring_cq_db qid head s = nvme_writel (cq_doorbell (nvme_db_stride s) qid) head s"

section \<open>Commands\<close>

text \<open>Both submission functions enter a command into their queue with the next identifier.\<close>

definition nvme_enter :: "u16 \<Rightarrow> nat \<Rightarrow> nvme_sqe \<Rightarrow> nvme_queue \<Rightarrow> nvme_queue" where
  "nvme_enter cid len sqe q =
     (let sqe = sqe\<lparr>sq_cdw0 := (sq_cdw0 sqe AND 0xFFFF) OR push_bit 16 (ucast cid)\<rparr>
      in q\<lparr>nq_sq := (nq_sq q)[unat (nq_tail q) := sqe], nq_tail := (nq_tail q + 1) mod of_nat len\<rparr>)"

text \<open>Waiting: \<open>passes\<close> are the contents of the completion queue; the result is the entry whose phase is the expected one.\<close>

fun nvme_poll :: "nvme_cqe list list \<Rightarrow> nvme_queue \<Rightarrow> nvme_cqe option" where
  "nvme_poll [] q = None"
| "nvme_poll (cq # passes) q =
     (let cqe = cq ! unat (nq_head q) in if cq_status cqe AND 1 = ucast (nq_phase q) then Some cqe else nvme_poll passes q)"

definition nvme_take :: "nat \<Rightarrow> nvme_queue \<Rightarrow> nvme_queue" where
  "nvme_take len q =
     (let h = (nq_head q + 1) mod of_nat len in q\<lparr>nq_head := h, nq_phase := (if h = 0 then nq_phase q XOR 1 else nq_phase q)\<rparr>)"

definition nvme_code :: "nvme_cqe \<Rightarrow> int" where
  "nvme_code cqe = (if drop_bit 1 (cq_status cqe) AND 0xFF = 0 then 0 else - 1)"

definition nvme_admin_submit :: "nvme_cqe list list \<Rightarrow> nvme_sqe \<Rightarrow> nvme \<Rightarrow> int \<times> nvme" where
  "nvme_admin_submit passes sqe s =
     (let q = nvme_enter (nv_cmd_id s) NVME_ADMIN_QUEUE_SIZE sqe (nv_admin s);
          s = nvme_ring_sq_db 0 (nq_tail q) (s\<lparr>nv_admin := q, nv_cmd_id := nv_cmd_id s + 1\<rparr>)
      in case nvme_poll (take 1000000 passes) q of
           None \<Rightarrow> (- 1, s)
         | Some cqe \<Rightarrow> let q = nvme_take NVME_ADMIN_QUEUE_SIZE q in (nvme_code cqe, nvme_ring_cq_db 0 (nq_head q) (s\<lparr>nv_admin := q\<rparr>)))"

definition nvme_io_submit :: "nvme_cqe list list \<Rightarrow> nvme_sqe \<Rightarrow> nvme \<Rightarrow> int \<times> nvme" where
  "nvme_io_submit passes sqe s =
     (let q = nvme_enter (nv_cmd_id s) NVME_IO_QUEUE_SIZE sqe (nv_io s);
          s = nvme_ring_sq_db 1 (nq_tail q) (s\<lparr>nv_io := q, nv_cmd_id := nv_cmd_id s + 1\<rparr>)
      in case nvme_poll (take 2000000 passes) q of
           None \<Rightarrow> (- 1, s)
         | Some cqe \<Rightarrow> let q = nvme_take NVME_IO_QUEUE_SIZE q in (nvme_code cqe, nvme_ring_cq_db 1 (nq_head q) (s\<lparr>nv_io := q\<rparr>)))"

definition nvme_command :: "u32 \<Rightarrow> u64 \<Rightarrow> u32 \<Rightarrow> u32 \<Rightarrow> nvme \<Rightarrow> nvme_sqe" where
  "nvme_command op lba count buf s =
     sqe_zero\<lparr>sq_cdw0 := op, sq_nsid := 1, sq_prp1 := ucast buf, sq_prp2 := ucast buf + ucast (nvme_page_size s), sq_cdw10 := ucast lba,
       sq_cdw11 := ucast (drop_bit 32 lba), sq_cdw12 := count - 1\<rparr>"

definition nvme_read :: "nvme_cqe list list \<Rightarrow> u64 \<Rightarrow> u32 \<Rightarrow> u32 \<Rightarrow> nvme \<Rightarrow> int \<times> nvme" where
  "nvme_read passes lba count buf s =
     (if \<not> nvme_ok s \<or> buf = 0 \<or> count = 0 then (- 1, s) else nvme_io_submit passes (nvme_command NVME_IO_READ lba count buf s) s)"

definition nvme_write :: "nvme_cqe list list \<Rightarrow> u64 \<Rightarrow> u32 \<Rightarrow> u32 \<Rightarrow> nvme \<Rightarrow> int \<times> nvme" where
  "nvme_write passes lba count buf s =
     (if \<not> nvme_ok s \<or> buf = 0 \<or> count = 0 then (- 1, s) else nvme_io_submit passes (nvme_command NVME_IO_WRITE lba count buf s) s)"

section \<open>Start\<close>

text \<open>The waits for the ready bit: the number of the next read of the status register and the counter.\<close>

function csts_wait :: "bool \<Rightarrow> (nat \<Rightarrow> u32) \<Rightarrow> nat \<Rightarrow> u32 \<Rightarrow> nat \<times> u32" where
  "csts_wait up csts i timeout =
     (if (csts i AND NVME_CSTS_RDY \<noteq> 0) = up then (i + 1, timeout)
      else if timeout = 0 then (i + 1, timeout - 1) else csts_wait up csts (i + 1) (timeout - 1))"
  by pat_completeness auto
termination
proof (relation "measure (\<lambda>(up, csts, i, timeout). unat timeout)")
  show "((up, csts, i + 1, timeout - 1), up, csts, i, timeout) \<in> measure (\<lambda>(up, csts, i, timeout). unat timeout)"
    if "timeout \<noteq> 0" for up and csts :: "nat \<Rightarrow> u32" and i :: nat and timeout :: u32
    using that unat_gt_0 [of timeout] unat_minus_one [OF that] by simp
qed simp

text \<open>What controller and allocator answer: registers, addresses (\<open>None\<close> for a failed \<open>kmalloc\<close>), completions of the four admin commands, identify data.\<close>

record nvme_answers =
  an_cap :: u64
  an_cc :: u32
  an_csts :: "nat \<Rightarrow> u32"
  an_admin_sq :: "u32 option"
  an_admin_cq :: "u32 option"
  an_io_sq :: "u32 option"
  an_io_cq :: "u32 option"
  an_id_buf :: "u32 option"
  an_passes :: "nat \<Rightarrow> nvme_cqe list list"
  an_ident :: "nat \<Rightarrow> u8"

definition nvme_start_controller :: "nvme_answers \<Rightarrow> nvme \<Rightarrow> bool \<times> nvme" where
  "nvme_start_controller a s =
     (let s = s\<lparr>nvme_db_stride := push_bit (unat (drop_bit 32 (an_cap a) AND 0xF) + 2) 1,
                nvme_page_size := push_bit (12 + unat (drop_bit 48 (an_cap a) AND 0xF)) 1\<rparr>;
          s = nvme_writel NVME_CC (an_cc a AND NOT NVME_CC_EN) s;
          (i, _) = csts_wait False (an_csts a) 0 100000
      in case (an_admin_sq a, an_admin_cq a) of
           (Some sq, Some cq) \<Rightarrow>
             let s = s\<lparr>nv_admin := (nv_admin s)\<lparr>nq_sq := replicate NVME_ADMIN_QUEUE_SIZE sqe_zero\<rparr>\<rparr>;
                 s = nvme_writel NVME_AQA (push_bit 16 (of_nat (NVME_ADMIN_QUEUE_SIZE - 1)) OR of_nat (NVME_ADMIN_QUEUE_SIZE - 1)) s;
                 s = nvme_writeq NVME_ASQ (ucast sq) s;
                 s = nvme_writeq NVME_ACQ (ucast cq) s;
                 s = nvme_writel NVME_CC (NVME_CC_EN OR NVME_CC_CSS OR NVME_CC_MPS OR NVME_CC_AMS OR NVME_CC_SHN OR NVME_CC_IOSQES OR NVME_CC_IOCQES) s;
                 (j, t) = csts_wait True (an_csts a) i 2000000
             in (t \<noteq> 0 \<and> an_csts a j AND NVME_CSTS_CFS = 0, s)
         | _ \<Rightarrow> (False, s))"

definition nvme_create_queues :: "nvme_answers \<Rightarrow> nvme \<Rightarrow> bool \<times> nvme" where
  "nvme_create_queues a s =
     (case (an_io_sq a, an_io_cq a) of
        (Some sq, Some cq) \<Rightarrow>
          let s = s\<lparr>nv_io := (nv_io s)\<lparr>nq_sq := replicate NVME_IO_QUEUE_SIZE sqe_zero\<rparr>\<rparr>;
              (r, s) = nvme_admin_submit (an_passes a 0) (sqe_zero\<lparr>sq_cdw0 := NVME_ADMIN_CREATE_CQ, sq_prp1 := ucast cq,
                 sq_cdw10 := push_bit 16 (of_nat (NVME_IO_QUEUE_SIZE - 1)) OR 1, sq_cdw11 := 1\<rparr>) s
          in if r < 0 then (False, s)
             else
               let (r, s) = nvme_admin_submit (an_passes a 1) (sqe_zero\<lparr>sq_cdw0 := NVME_ADMIN_CREATE_SQ, sq_prp1 := ucast sq,
                     sq_cdw10 := push_bit 16 (of_nat (NVME_IO_QUEUE_SIZE - 1)) OR 1, sq_cdw11 := push_bit 16 1 OR 1\<rparr>) s
               in (r \<ge> 0, s)
      | _ \<Rightarrow> (False, s))"

definition nvme_identify :: "nvme_answers \<Rightarrow> nvme \<Rightarrow> nvme" where
  "nvme_identify a s =
     (case an_id_buf a of
        None \<Rightarrow> s
      | Some p \<Rightarrow>
          let (_, s) = nvme_admin_submit (an_passes a 2) (sqe_zero\<lparr>sq_cdw0 := NVME_ADMIN_IDENTIFY, sq_prp1 := ucast p, sq_cdw10 := 1\<rparr>) s;
              (r, s) = nvme_admin_submit (an_passes a 3) (sqe_zero\<lparr>sq_cdw0 := NVME_ADMIN_IDENTIFY, sq_nsid := 1, sq_prp1 := ucast p, sq_cdw10 := 0\<rparr>) s
          in if r \<noteq> 0 then s
             else
               let idx = an_ident a 26 AND 0x0F; lbads = unat (an_ident a (128 + unat idx * 4 + 1))
               in s\<lparr>nvme_sectors := fold (\<lambda>k v. v OR push_bit (8 * k) (ucast (an_ident a k))) [0..<8] 0,
                    nvme_sector_sz := (if lbads \<ge> 9 then push_bit lbads 1 else 512)\<rparr>)"

definition nvme_init :: "nvme_answers \<Rightarrow> pci_cfg \<Rightarrow> pci_table \<Rightarrow> nvme \<Rightarrow> bool \<times> nvme" where
  "nvme_init a cfg pci s =
     (case pci_find_class NVME_PCI_CLASS NVME_PCI_SUBCLASS pci of
        None \<Rightarrow> (False, s)
      | Some dev \<Rightarrow>
          let mmio_phys = pd_bar dev ! 0 AND NOT 0xF in
          if mmio_phys = 0 then (False, s)
          else
            let s = s\<lparr>nv_maps := nv_maps s @ map (\<lambda>k. mmio_phys + of_nat k * 4096) [0..<0x20000 div 4096],
                      nv_pci := pci_enable_bus_master cfg dev (nv_pci s)\<rparr>;
                (up, s) = nvme_start_controller a s
            in if \<not> up then (False, s)
               else
                 let (made, s) = nvme_create_queues a s
                 in if \<not> made then (False, s) else (True, (nvme_identify a s)\<lparr>nvme_ok := True\<rparr>))"

section \<open>The phase bit\<close>

text \<open>After \<open>k\<close> completions the next one comes into slot \<open>k mod 16\<close> with this phase; the slots before it have it already, the others the opposite one.\<close>

definition phase_of :: "nat \<Rightarrow> bool" where "phase_of k \<longleftrightarrow> even (k div 16)"

definition entry_phase :: "nvme_cqe \<Rightarrow> bool" where "entry_phase e \<longleftrightarrow> bit (cq_status e) 0"

definition in_step :: "nat \<Rightarrow> nvme_cqe list \<Rightarrow> nvme_queue \<Rightarrow> bool" where
  "in_step k cq q \<longleftrightarrow> nq_head q = of_nat (k mod 16) \<and> nq_phase q = of_bool (phase_of k) \<and> length cq = 16 \<and>
     (\<forall>i < 16. entry_phase (cq ! i) = (if i < k mod 16 then phase_of k else \<not> phase_of k))"

lemma unat_slot [simp]: "unat (of_nat (k mod 16) :: u32) = k mod 16"
proof -
  have "k mod 16 < 16" by simp
  then show ?thesis by (simp add: unat_of_nat take_bit_nat_eq_self)
qed

lemma phase_test: "cq_status e AND 1 = ucast (of_bool b :: u8) \<longleftrightarrow> entry_phase e = b"
  by (cases b) (simp_all add: entry_phase_def and_one_eq odd_iff_mod_2_eq_one [symmetric] bit_0 even_iff_mod_2_eq_zero [symmetric])

lemma poll_waits:
  assumes "in_step k cq q"
  shows "nvme_poll (replicate j cq @ passes) q = nvme_poll passes q"
proof -
  have "nq_head q = of_nat (k mod 16)" "nq_phase q = of_bool (phase_of k)" "entry_phase (cq ! (k mod 16)) \<noteq> phase_of k"
    using assms by (auto simp: in_step_def)
  then show ?thesis by (induction j) (simp_all add: phase_test del: of_nat_mod)
qed

lemma poll_takes:
  assumes "in_step k cq q" "entry_phase e = phase_of k"
  shows "nvme_poll (cq[k mod 16 := e] # passes) q = Some e"
proof -
  have "nq_head q = of_nat (k mod 16)" "nq_phase q = of_bool (phase_of k)" "length cq = 16" using assms(1) by (auto simp: in_step_def)
  then show ?thesis using assms(2) by (simp add: phase_test del: of_nat_mod)
qed

text \<open>Nothing of an earlier round is taken for an answer, and after the answer both sides agree again, across the end of the queue.\<close>

lemma take_keeps_step:
  assumes "in_step k cq q" "entry_phase e = phase_of k"
  shows "in_step (Suc k) (cq[k mod 16 := e]) (nvme_take 16 q)"
proof -
  have q: "nq_head q = of_nat (k mod 16)" "nq_phase q = of_bool (phase_of k)" "length cq = 16" using assms(1) by (auto simp: in_step_def)
  have k: "k mod 16 < 16" by simp
  have "unat ((nq_head q + 1) mod 16) = Suc (k mod 16) mod 16"
    unfolding q(1) using k by (simp add: unat_mod unat_word_ariths del: of_nat_mod)
  also have "\<dots> = Suc k mod 16" by (simp add: mod_Suc_eq)
  finally have head: "(nq_head q + 1) mod 16 = of_nat (Suc k mod 16)" by (simp only: word_unat_eq_iff unat_slot)
  have phase: "phase_of (Suc k) = (if Suc k mod 16 = 0 then \<not> phase_of k else phase_of k)"
    by (simp add: phase_of_def div_Suc)
  have zero: "(of_nat (Suc k mod 16) = (0 :: u32)) = (Suc k mod 16 = 0)" by (simp only: word_unat_eq_iff unat_slot unat_0)
  have "nq_phase (nvme_take 16 q) = of_bool (phase_of (Suc k))"
    unfolding nvme_take_def Let_def of_nat_numeral head phase zero by (simp add: q(2))
  moreover have "nq_head (nvme_take 16 q) = of_nat (Suc k mod 16)" unfolding nvme_take_def Let_def of_nat_numeral head by simp
  moreover have "entry_phase (cq[k mod 16 := e] ! i) = (if i < Suc k mod 16 then phase_of (Suc k) else \<not> phase_of (Suc k))" if "i < 16" for i
    using that assms q(3) phase by (auto simp: in_step_def nth_list_update mod_Suc split: if_splits)
  ultimately show ?thesis using q(3) by (simp add: in_step_def del: of_nat_mod)
qed


text \<open>The start: a queue that was set to zero, and a driver that expects phase 1.\<close>

definition cqe_zero :: nvme_cqe where
  "cqe_zero = \<lparr>cq_dw0 = 0, cq_dw1 = 0, cq_sq_head = 0, cq_sq_id = 0, cq_cmd_id = 0, cq_status = 0\<rparr>"

lemma in_step_start: "nq_head q = 0 \<Longrightarrow> nq_phase q = 1 \<Longrightarrow> in_step 0 (replicate 16 cqe_zero) q"
  by (simp add: in_step_def phase_of_def entry_phase_def cqe_zero_def)

definition nvme_demo :: nvme where
  "nvme_demo = (let q = \<lparr>nq_sq = replicate 16 sqe_zero, nq_tail = 0, nq_head = 0, nq_phase = 1\<rparr> in
     \<lparr>nvme_ok = True, nvme_db_stride = 4, nvme_page_size = 4096, nvme_sector_sz = 512, nvme_sectors = 1000, nv_admin = q, nv_io = q,
      nv_cmd_id = 0, nv_out = [], nv_pci = [], nv_maps = []\<rparr>)"


text \<open>The identifier in the completion is not compared: an answer that comes after the time-out of its command is taken for that of the next one.\<close>

lemma nvme_late_answer:
  assumes "in_step k cq (nv_io s)" "entry_phase e = phase_of k"
  shows "\<exists>s'. nvme_io_submit (replicate 2000000 cq) sqe s = (- 1, s') \<and> fst (nvme_io_submit [cq[k mod 16 := e]] sqe' s') = nvme_code e"
proof -
  define q where "q = nvme_enter (nv_cmd_id s) NVME_IO_QUEUE_SIZE sqe (nv_io s)"
  have step: "in_step k cq q" using assms(1) by (simp add: q_def nvme_enter_def in_step_def Let_def)
  have poll: "nvme_poll (take 2000000 (replicate 2000000 cq)) q = None" using poll_waits [OF step, of 2000000 "[]"] by simp
  have "\<exists>s'. nvme_io_submit (replicate 2000000 cq) sqe s = (- 1, s') \<and> nv_io s' = q"
    unfolding nvme_io_submit_def q_def [symmetric] Let_def poll option.case
    by (intro exI conjI, rule refl) (simp add: nvme_ring_sq_db_def nvme_writel_def)
  then obtain s' where s': "nvme_io_submit (replicate 2000000 cq) sqe s = (- 1, s')" "nv_io s' = q" by blast
  have two: "take 2000000 [cq[k mod 16 := e]] = [cq[k mod 16 := e]]" by simp
  have "in_step k cq (nvme_enter (nv_cmd_id s') NVME_IO_QUEUE_SIZE sqe' (nv_io s'))"
    using step by (simp add: s'(2) nvme_enter_def in_step_def Let_def)
  from poll_takes [OF this assms(2), of "[]"] have "fst (nvme_io_submit [cq[k mod 16 := e]] sqe' s') = nvme_code e"
    by (simp only: nvme_io_submit_def Let_def two option.case fst_conv)
  with s'(1) show ?thesis by blast
qed

text \<open>
  NVM Express puts the doorbells of queue \<open>q\<close> at \<open>0x1000 + 2 q (4 << DSTRD)\<close> and \<open>0x1000 + (2 q + 1) (4 << DSTRD)\<close>. The field \<open>nvme_db_stride\<close> is
  already \<open>4 << DSTRD\<close>; it is multiplied by 4 once more, so that only the first of the four doorbells is rung where it is.
\<close>

lemma nvme_doorbells_off:
  "sq_doorbell 4 0 = 0x1000" "cq_doorbell 4 0 \<noteq> 0x1000 + 1 * 4" "sq_doorbell 4 1 \<noteq> 0x1000 + 2 * 4" "cq_doorbell 4 1 \<noteq> 0x1000 + 3 * 4"
  by (simp_all add: sq_doorbell_def cq_doorbell_def)

lemma nvme_start_unnoticed: "(\<And>i. csts i AND NVME_CSTS_RDY = 0) \<Longrightarrow> snd (csts_wait True csts i t) = - 1"
proof (induction True csts i t rule: csts_wait.induct)
  case (1 csts i t)
  then show ?case by (subst csts_wait.simps) (cases "t = 0", simp_all del: csts_wait.simps)
qed

end
