(* ===== verification/Acpi.thy ===== *)
theory Acpi
  imports KString KMem
begin

text \<open>
  The tables of the firmware and the ways to switch off and restart (\<open>drivers/acpi.c\<close>, \<open>include/acpi.h\<close>). Physical memory is a function from
  addresses to bytes. Shown: on well-formed tables the driver finds the ports and the values it needs, and switching off writes them.
  Not modelled: messages, \<open>acpi_dump\<close>, and the loops and faults behind the last port write.
\<close>

section \<open>State (include/acpi.h)\<close>

definition ACPI_SIG_RSDP :: cstr where "ACPI_SIG_RSDP = asc ''RSD PTR ''"
definition ACPI_SIG_FADT :: cstr where "ACPI_SIG_FADT = asc ''FACP''"
definition ACPI_SIG_HPET :: cstr where "ACPI_SIG_HPET = asc ''HPET''"
definition ACPI_FADT_RESET_REG_SUP :: u32 where "ACPI_FADT_RESET_REG_SUP = push_bit 10 1"
definition ACPI_HEADER :: u32 where "ACPI_HEADER = 36"

record acpi_state =
  ac_initialised :: bool
  ac_rsdt_phys :: u32
  ac_fadt_phys :: u32
  ac_hpet_phys :: u32
  ac_madt_phys :: u32
  ac_pm1a_control :: u16
  ac_pm1b_control :: u16
  ac_slp_typa :: u16
  ac_slp_typb :: u16
  ac_reset_reg_addr :: u64
  ac_reset_value :: u8
  ac_reset_supported :: bool

definition acpi_zero :: acpi_state where
  "acpi_zero = \<lparr>ac_initialised = False, ac_rsdt_phys = 0, ac_fadt_phys = 0, ac_hpet_phys = 0, ac_madt_phys = 0, ac_pm1a_control = 0,
     ac_pm1b_control = 0, ac_slp_typa = 0, ac_slp_typb = 0, ac_reset_reg_addr = 0, ac_reset_value = 0, ac_reset_supported = False\<rparr>"

section \<open>Searching tables\<close>

definition sig_at :: "mem \<Rightarrow> u32 \<Rightarrow> cstr \<Rightarrow> bool" where
  "sig_at m a sig \<longleftrightarrow> map (\<lambda>i. m (a + of_nat i)) [0..<length sig] = sig"

definition acpi_checksum :: "mem \<Rightarrow> u32 \<Rightarrow> nat \<Rightarrow> bool" where
  "acpi_checksum m a len \<longleftrightarrow> fold (\<lambda>i sum. sum + m (a + of_nat i)) [0..<len] 0 = 0"

text \<open>Every 16 bytes of an area; the end does not belong to it.\<close>

definition rsdp_area :: "nat \<Rightarrow> nat \<Rightarrow> u32 list" where
  "rsdp_area lo hi = map (\<lambda>k. of_nat (lo + 16 * k)) [0..<(hi - lo + 15) div 16]"

definition rsdp_find :: "mem \<Rightarrow> u32 option" where
  "rsdp_find m = find (\<lambda>a. sig_at m a ACPI_SIG_RSDP \<and> acpi_checksum m a 20) (rsdp_area 0x000E0000 0x000FFFFF @ rsdp_area 0x00080000 0x0009FFFF)"

definition rsdt_find_table :: "mem \<Rightarrow> cstr \<Rightarrow> acpi_state \<Rightarrow> u32 option" where
  "rsdt_find_table m sig s =
     (if ac_rsdt_phys s = 0 then None
      else
        let rsdt = ac_rsdt_phys s; count = (load32 m (rsdt + 4) - ACPI_HEADER) div 4;
            entry = (\<lambda>i. load32 m (rsdt + ACPI_HEADER + of_nat i * 4))
        in map_option entry (find (\<lambda>i. entry i \<noteq> 0 \<and> sig_at m (entry i) sig) [0..<unat count]))"

definition load64 :: "mem \<Rightarrow> u32 \<Rightarrow> u64" where
  "load64 m p = ucast (load32 m p) OR push_bit 32 (ucast (load32 m (p + 4)))"

definition parse_fadt :: "mem \<Rightarrow> acpi_state \<Rightarrow> acpi_state" where
  "parse_fadt m s =
     (case rsdt_find_table m ACPI_SIG_FADT s of
        None \<Rightarrow> s
      | Some f \<Rightarrow>
          let s = s\<lparr>ac_fadt_phys := f, ac_pm1a_control := ucast (load32 m (f + 64)), ac_pm1b_control := ucast (load32 m (f + 68))\<rparr>;
              s = (if m (f + 8) \<ge> 2 \<and> load32 m (f + 112) AND ACPI_FADT_RESET_REG_SUP \<noteq> 0
                   then s\<lparr>ac_reset_reg_addr := load64 m (f + 120), ac_reset_value := m (f + 128), ac_reset_supported := True\<rparr> else s)
          in s\<lparr>ac_slp_typa := push_bit 10 5, ac_slp_typb := push_bit 10 5\<rparr>)"

definition parse_hpet :: "mem \<Rightarrow> acpi_state \<Rightarrow> acpi_state" where
  "parse_hpet m s = (case rsdt_find_table m ACPI_SIG_HPET s of None \<Rightarrow> s | Some h \<Rightarrow> s\<lparr>ac_hpet_phys := ucast (load64 m (h + 44))\<rparr>)"

definition acpi_init :: "mem \<Rightarrow> acpi_state" where
  "acpi_init m =
     (case rsdp_find m of
        None \<Rightarrow> acpi_zero
      | Some rsdp \<Rightarrow> (parse_hpet m (parse_fadt m (acpi_zero\<lparr>ac_rsdt_phys := load32 m (rsdp + 16)\<rparr>)))\<lparr>ac_initialised := True\<rparr>)"

section \<open>Switching off and restarting\<close>

datatype port_out = PortB u16 u8 | PortW u16 u16

definition acpi_shutdown :: "acpi_state \<Rightarrow> port_out list" where
  "acpi_shutdown s =
     (if ac_pm1a_control s \<noteq> 0
      then PortW (ac_pm1a_control s) (ac_slp_typa s OR push_bit 13 1) #
           (if ac_pm1b_control s \<noteq> 0 then [PortW (ac_pm1b_control s) (ac_slp_typb s OR push_bit 13 1)] else [])
      else []) @ [PortW 0x0604 0x2000]"

text \<open>The counter after the wait for the keyboard controller; \<open>status i\<close> is what its status port answers in pass \<open>i\<close>.\<close>

function ps2_wait :: "(nat \<Rightarrow> u8) \<Rightarrow> nat \<Rightarrow> u32 \<Rightarrow> u32" where
  "ps2_wait status i timeout =
     (if timeout = 0 then timeout - 1 else if status i AND 0x02 = 0 then timeout - 1 else ps2_wait status (i + 1) (timeout - 1))"
  by pat_completeness auto
termination
proof (relation "measure (\<lambda>(status, i, timeout). unat timeout)")
  show "((status, i + 1, timeout - 1), status, i, timeout) \<in> measure (\<lambda>(status, i, timeout). unat timeout)"
    if "timeout \<noteq> 0" for status :: "nat \<Rightarrow> u8" and i :: nat and timeout :: u32
    using that unat_gt_0 [of timeout] unat_minus_one [OF that] by simp
qed simp

definition acpi_reboot :: "(nat \<Rightarrow> u8) \<Rightarrow> acpi_state \<Rightarrow> port_out list" where
  "acpi_reboot status s =
     (if ac_reset_supported s \<and> ac_reset_reg_addr s \<noteq> 0 \<and> ac_reset_reg_addr s < 0x10000
      then [PortB (ucast (ac_reset_reg_addr s)) (ac_reset_value s)] else []) @
     (if ps2_wait status 0 100000 > 0 then [PortB 0x64 0xFE] else [])"

section \<open>Well-formed tables are found\<close>

text \<open>What the firmware puts into memory: a pointer with checksum at one of the places of the areas, and no other one before it; a root table with entries.\<close>

definition rsdp_ok :: "mem \<Rightarrow> u32 \<Rightarrow> bool" where
  "rsdp_ok m a \<longleftrightarrow> sig_at m a ACPI_SIG_RSDP \<and> sum_list (map (\<lambda>i. m (a + of_nat i)) [0..<20]) = 0"

definition rsdt_lists :: "mem \<Rightarrow> u32 \<Rightarrow> u32 list \<Rightarrow> bool" where
  "rsdt_lists m rsdt ts \<longleftrightarrow> load32 m (rsdt + 4) = of_nat (36 + 4 * length ts) \<and> length ts < 1000 \<and>
     (\<forall>i < length ts. load32 m (rsdt + 36 + of_nat i * 4) = ts ! i)"

lemma fold_sum: "fold (\<lambda>i sum. sum + (f i :: u8)) xs c = c + sum_list (map f xs)"
  by (induction xs arbitrary: c) (simp_all add: add.assoc)

lemma checksum_sum: "acpi_checksum m a len \<longleftrightarrow> sum_list (map (\<lambda>i. m (a + of_nat i)) [0..<len]) = 0"
  by (simp add: acpi_checksum_def fold_sum)

lemma rsdp_find_first:
  assumes "places = rsdp_area 0x000E0000 0x000FFFFF @ rsdp_area 0x00080000 0x0009FFFF" "places = before @ a # behind"
    and "rsdp_ok m a" "\<forall>b \<in> set before. \<not> rsdp_ok m b"
  shows "rsdp_find m = Some a"
proof -
  have ok: "rsdp_ok m b \<longleftrightarrow> sig_at m b ACPI_SIG_RSDP \<and> acpi_checksum m b 20" for b by (simp add: rsdp_ok_def checksum_sum)
  have "find (rsdp_ok m) before = None" using assms(4) by (auto simp: find_None_iff)
  then have "find (rsdp_ok m) (before @ a # behind) = Some a" using assms(3) by (induction before) (auto split: if_splits)
  then show ?thesis using assms(1,2) unfolding rsdp_find_def ok [symmetric, abs_def] by simp
qed

lemma find_upt_nth: "map_option (\<lambda>i. ts ! i) (find (\<lambda>i. P (ts ! i)) [0..<length ts]) = find P ts"
proof -
  have "map_option f (find (\<lambda>i. P (f i)) xs) = find P (map f xs)" for f and xs :: "nat list" by (induction xs) auto
  then show ?thesis by (simp add: map_nth)
qed

text \<open>The search gives the first table of the list with the signature.\<close>

lemma rsdt_find_first:
  assumes "rsdt_lists m (ac_rsdt_phys s) ts" "ac_rsdt_phys s \<noteq> 0" "0 \<notin> set ts"
  shows "rsdt_find_table m sig s = find (\<lambda>t. sig_at m t sig) ts"
proof -
  have "unat ((of_nat (36 + 4 * length ts) :: u32) - 36) = 4 * length ts"
    using assms(1) by (simp add: rsdt_lists_def unat_sub word_le_nat_alt unat_of_nat take_bit_nat_eq_self del: of_nat_add)
  then have count: "unat ((load32 m (ac_rsdt_phys s + 4) - ACPI_HEADER) div 4) = length ts"
    using assms(1) by (simp add: rsdt_lists_def ACPI_HEADER_def unat_div)
  have "find (\<lambda>i. load32 m (ac_rsdt_phys s + ACPI_HEADER + of_nat i * 4) \<noteq> 0 \<and> sig_at m (load32 m (ac_rsdt_phys s + ACPI_HEADER + of_nat i * 4)) sig)
      [0..<length ts] = find (\<lambda>i. sig_at m (ts ! i) sig) [0..<length ts]"
    using assms(1,3) by (intro find_cong refl) (auto simp: rsdt_lists_def ACPI_HEADER_def dest: nth_mem)
  moreover have "map_option (\<lambda>i. load32 m (ac_rsdt_phys s + ACPI_HEADER + of_nat i * 4)) (find (\<lambda>i. sig_at m (ts ! i) sig) [0..<length ts]) =
      map_option (\<lambda>i. ts ! i) (find (\<lambda>i. sig_at m (ts ! i) sig) [0..<length ts])"
    using assms(1) by (intro option.map_cong refl) (auto simp: rsdt_lists_def ACPI_HEADER_def find_Some_iff)
  ultimately show ?thesis using assms(2) find_upt_nth [of ts "\<lambda>t. sig_at m t sig"] by (simp add: rsdt_find_table_def count Let_def)
qed

text \<open>From the pointer to the port: switching off writes the sleep type with the enable bit to the control block of the FADT, and to the second one when it has one.\<close>

lemma acpi_shutdown_reaches_pm1:
  assumes "rsdp_find m = Some a" "load32 m (a + 16) = rsdt" "rsdt \<noteq> 0" "rsdt_lists m rsdt ts" "0 \<notin> set ts"
    and "find (\<lambda>t. sig_at m t ACPI_SIG_FADT) ts = Some f" "unat (load32 m (f + 64)) < 65536" "load32 m (f + 64) \<noteq> 0"
    and "unat (load32 m (f + 68)) < 65536"
  shows "acpi_shutdown (acpi_init m) = PortW (ucast (load32 m (f + 64))) 0x3400 #
    (if load32 m (f + 68) = 0 then [] else [PortW (ucast (load32 m (f + 68))) 0x3400]) @ [PortW 0x604 0x2000]"
proof -
  have low: "(ucast v :: u16) = 0 \<longleftrightarrow> v = 0" if "unat v < 65536" for v :: u32
    using that by (simp add: word_unat_eq_iff unsigned_ucast_eq take_bit_nat_eq_self)
  have fadt: "rsdt_find_table m ACPI_SIG_FADT (acpi_zero\<lparr>ac_rsdt_phys := rsdt\<rparr>) = Some f"
    using rsdt_find_first [of m "acpi_zero\<lparr>ac_rsdt_phys := rsdt\<rparr>" ts] assms(3-6) by simp
  have hpet: "ac_pm1a_control (parse_hpet m s) = ac_pm1a_control s" "ac_pm1b_control (parse_hpet m s) = ac_pm1b_control s"
    "ac_slp_typa (parse_hpet m s) = ac_slp_typa s" "ac_slp_typb (parse_hpet m s) = ac_slp_typb s" for s
    by (simp_all add: parse_hpet_def split: option.split)
  show ?thesis
    using assms(7-9) by (simp add: acpi_init_def assms(1,2) hpet parse_fadt_def fadt Let_def acpi_shutdown_def low)
qed

text \<open>A root table whose length is below 36 has about a thousand million entries for the code: the subtraction wraps.\<close>

lemma rsdt_short_length: "load32 m (rsdt + 4) = 35 \<Longrightarrow> unat ((load32 m (rsdt + 4) - ACPI_HEADER) div 4) = 1073741823"
  by (simp add: ACPI_HEADER_def unat_div)

text \<open>A keyboard controller that never gets ready is pulsed nevertheless: the counter of the wait has wrapped and is above 0.\<close>

lemma ps2_wait_runs_out: "(\<And>i. status i AND 0x02 \<noteq> 0) \<Longrightarrow> ps2_wait status i t = - 1"
proof (induction status i t rule: ps2_wait.induct)
  case (1 status i t)
  then show ?case by (subst ps2_wait.simps) (cases "t = 0", simp_all del: ps2_wait.simps)
qed

lemma reboot_timeout_unnoticed: "(\<And>i. status i AND 0x02 \<noteq> 0) \<Longrightarrow> PortB 0x64 0xFE \<in> set (acpi_reboot status s)"
  by (simp add: acpi_reboot_def ps2_wait_runs_out word_less_nat_alt unsigned_minus_1_eq_mask mask_eq_exp_minus_1 del: ps2_wait.simps)

end
