(* ===== verification/Devfs.thy ===== *)
theory Devfs
  imports Vfs Ide Entropy
begin

text \<open>
  The devices under /dev (\<open>fs/devfs.c\<close>): a table of 32 entries with a read and a write function each, and the five devices that
  \<open>devfs_init\<close> registers. Reading changes the state of the random numbers, so that a read function returns the state besides the bytes; the file
  system switch of \<open>Vfs\<close> has no such result, and the operations are stated on their own. A write that reads behind its buffer is \<open>None\<close>.
\<close>

section \<open>Devices\<close>

definition VFS_BLOCKDEV :: u8 where "VFS_BLOCKDEV = 0x10"
definition DEVFS_MAX_DEVICES :: nat where "DEVFS_MAX_DEVICES = 32"

text \<open>What the devices act on: random numbers, the output of the serial line, the disks and the sector at which the disk reports an error.\<close>

record dev_io =
  io_rng :: rng
  io_tty :: "u8 list"
  io_ide :: ide_state
  io_fault :: "nat option"

type_synonym dev_read_fn = "u32 \<Rightarrow> u32 \<Rightarrow> dev_io \<Rightarrow> int \<times> u8 list \<times> dev_io"
type_synonym dev_write_fn = "u32 \<Rightarrow> u32 \<Rightarrow> u8 list \<Rightarrow> dev_io \<Rightarrow> (int \<times> dev_io) option"

record devfs_dev =
  dv_name :: "u8 list"
  dv_type :: u8
  dv_read :: "dev_read_fn option"
  dv_write :: "dev_write_fn option"
  dv_used :: bool

definition dev_zero :: devfs_dev where
  "dev_zero = \<lparr>dv_name = replicate 32 0, dv_type = 0, dv_read = None, dv_write = None, dv_used = False\<rparr>"

definition null_read :: dev_read_fn where "null_read off sz io = (0, [], io)"

definition null_write :: dev_write_fn where "null_write off sz b io = Some (sint sz, io)"

definition zero_read :: dev_read_fn where "zero_read off sz io = (sint sz, replicate (unat sz) 0, io)"

definition random_read :: dev_read_fn where
  "random_read off sz io = (let (b, r) = rand_bytes (unat sz) (io_rng io) in (sint sz, b, io\<lparr>io_rng := r\<rparr>))"

definition tty_write :: dev_write_fn where
  "tty_write off sz b io = (if unat sz \<le> length b then Some (sint sz, io\<lparr>io_tty := io_tty io @ take (unat sz) b\<rparr>) else None)"

definition tty_read :: dev_read_fn where "tty_read off sz io = (0, [], io)"

definition hd0_count :: "u32 \<Rightarrow> u32" where
  "hd0_count sz = (let count = (sz + 511) div 512 in if count > 127 then 127 else count)"

definition hd0_read :: dev_read_fn where
  "hd0_read off sz io =
     (let count = hd0_count sz; (r, tmp) = ide_read (io_fault io) 0 (off div 512) (ucast count) (io_ide io) in
      if r \<noteq> 0 then (- 1, [], io)
      else let copy = (if count * 512 > sz then sz else count * 512) in (sint copy, take (unat copy) tmp, io))"

definition hd0_write :: dev_write_fn where
  "hd0_write off sz b io =
     (let count = hd0_count sz; n = unat (count * 512) in
      if n > length b then None
      else let (r, d) = ide_write (io_fault io) 0 (off div 512) (ucast count) (take n b) (io_ide io)
           in Some (if r \<noteq> 0 then - 1 else sint (count * 512), io\<lparr>io_ide := d\<rparr>))"

section \<open>The table\<close>

text \<open>Node data: 0 for \<open>NULL\<close>, the number of the entry plus one for a pointer to it.\<close>

definition devfs_read :: "vfs_node \<Rightarrow> u32 \<Rightarrow> u32 \<Rightarrow> devfs_dev list \<Rightarrow> dev_io \<Rightarrow> int \<times> u8 list \<times> dev_io" where
  "devfs_read v off sz tab io =
     (if vn_fs_data v = 0 then (- 1, [], io)
      else case dv_read (tab ! (vn_fs_data v - 1)) of None \<Rightarrow> (- 1, [], io) | Some f \<Rightarrow> f off sz io)"

definition devfs_write :: "vfs_node \<Rightarrow> u32 \<Rightarrow> u32 \<Rightarrow> u8 list \<Rightarrow> devfs_dev list \<Rightarrow> dev_io \<Rightarrow> (int \<times> dev_io) option" where
  "devfs_write v off sz b tab io =
     (if vn_fs_data v = 0 then Some (- 1, io)
      else case dv_write (tab ! (vn_fs_data v - 1)) of None \<Rightarrow> Some (- 1, io) | Some f \<Rightarrow> f off sz b io)"

definition devfs_readdir :: "u32 \<Rightarrow> vfs_dirent \<Rightarrow> devfs_dev list \<Rightarrow> vfs_dirent option" where
  "devfs_readdir index out tab =
     (let used = filter (\<lambda>i. dv_used (tab ! i)) [0..<DEVFS_MAX_DEVICES] in
      if unat index < length used then
        let i = used ! unat index
        in Some (out\<lparr>de_name := put_at (de_name out) 0 (strncpy (dv_name (tab ! i)) 255), de_inode := 200 + of_nat i, de_type := dv_type (tab ! i)\<rparr>)
      else None)"

definition dev_named :: "cstr \<Rightarrow> devfs_dev \<Rightarrow> bool" where
  "dev_named name d \<longleftrightarrow> dv_used d \<and> strncmp (dv_name d) name 31 = 0"

text \<open>\<open>can\<close>: the node can be allocated; \<open>self\<close> is the number of the operations.\<close>

definition devfs_finddir :: "bool \<Rightarrow> nat \<Rightarrow> cstr \<Rightarrow> devfs_dev list \<Rightarrow> vfs_node option" where
  "devfs_finddir can self name tab =
     (case find_idx (dev_named name) tab of
        None \<Rightarrow> None
      | Some i \<Rightarrow>
          if \<not> can then None
          else Some (node_zero\<lparr>vn_name := put_at (vn_name node_zero) 0 (strncpy name 255), vn_flags := ucast (dv_type (tab ! i)),
                 vn_ops := Some self, vn_fs_data := i + 1\<rparr>))"

definition devfs_mount :: "bool \<Rightarrow> nat \<Rightarrow> vfs_node option" where
  "devfs_mount can self =
     (if can then Some (node_zero\<lparr>vn_name := put_at (vn_name node_zero) 0 (asc ''dev'' @ [0]), vn_flags := VFS_DIR, vn_ops := Some self\<rparr>) else None)"

definition devfs_register :: "cstr \<Rightarrow> u8 \<Rightarrow> dev_read_fn option \<Rightarrow> dev_write_fn option \<Rightarrow> devfs_dev list \<Rightarrow> int \<times> devfs_dev list" where
  "devfs_register name ty rd wr tab =
     (case find_idx (\<lambda>d. \<not> dv_used d) tab of
        None \<Rightarrow> (- 1, tab)
      | Some i \<Rightarrow> (0, tab[i := (tab ! i)\<lparr>dv_name := put_at (dv_name (tab ! i)) 0 (strncpy name 31), dv_type := ty, dv_read := rd,
                             dv_write := wr, dv_used := True\<rparr>]))"

definition devfs_init :: "devfs_dev list" where
  "devfs_init =
     (let t = replicate DEVFS_MAX_DEVICES dev_zero;
          t = snd (devfs_register (asc ''null'') (ucast VFS_CHARDEV) (Some null_read) (Some null_write) t);
          t = snd (devfs_register (asc ''zero'') (ucast VFS_CHARDEV) (Some zero_read) (Some null_write) t);
          t = snd (devfs_register (asc ''random'') (ucast VFS_CHARDEV) (Some random_read) None t);
          t = snd (devfs_register (asc ''tty'') (ucast VFS_CHARDEV) (Some tty_read) (Some tty_write) t)
      in snd (devfs_register (asc ''hd0'') VFS_BLOCKDEV (Some hd0_read) (Some hd0_write) t))"

section \<open>The devices are found\<close>

lemma register_simps:
  "find_idx (\<lambda>d. \<not> dv_used d) tab = Some i \<Longrightarrow> snd (devfs_register name ty rd wr tab) =
     tab[i := (tab ! i)\<lparr>dv_name := put_at (dv_name (tab ! i)) 0 (strncpy name 31), dv_type := ty, dv_read := rd, dv_write := wr, dv_used := True\<rparr>]"
  by (simp add: devfs_register_def)

definition dev_entry :: "string \<Rightarrow> u8 \<Rightarrow> dev_read_fn option \<Rightarrow> dev_write_fn option \<Rightarrow> devfs_dev" where
  "dev_entry name ty rd wr = \<lparr>dv_name = strncpy (asc name) 31 @ [0], dv_type = ty, dv_read = rd, dv_write = wr, dv_used = True\<rparr>"

lemma register_next:
  assumes "\<forall>d \<in> set ds. dv_used d"
  shows "snd (devfs_register (asc name) ty rd wr (ds @ replicate (Suc n) dev_zero)) = ds @ dev_entry name ty rd wr # replicate n dev_zero"
proof -
  have "find_idx (\<lambda>d. \<not> dv_used d) (ds @ replicate (Suc n) dev_zero) = Some (length ds)"
    using assms by (induction ds) (simp_all add: dev_zero_def)
  moreover have "length (strncpy (asc name) 31) = 31" by (simp add: strncpy_eq)
  then have "put_at (replicate 32 0) 0 (strncpy (asc name) 31) = strncpy (asc name) 31 @ [0 :: u8]" by (simp add: put_at_def)
  ultimately show ?thesis by (simp add: register_simps nth_append dev_entry_def dev_zero_def)
qed

lemma devfs_init_table:
  "devfs_init = [dev_entry ''null'' (ucast VFS_CHARDEV) (Some null_read) (Some null_write), dev_entry ''zero'' (ucast VFS_CHARDEV) (Some zero_read) (Some null_write),
     dev_entry ''random'' (ucast VFS_CHARDEV) (Some random_read) None, dev_entry ''tty'' (ucast VFS_CHARDEV) (Some tty_read) (Some tty_write),
     dev_entry ''hd0'' VFS_BLOCKDEV (Some hd0_read) (Some hd0_write)] @ replicate 27 dev_zero"
proof -
  have step: "snd (devfs_register (asc name) ty rd wr (ds @ replicate m dev_zero)) = (ds @ [dev_entry name ty rd wr]) @ replicate (m - 1) dev_zero"
    if "\<forall>d \<in> set ds. dv_used d" "0 < m" for ds name ty rd wr m
    using register_next [OF that(1), of name ty rd wr "m - 1"] that(2) by simp
  have used: "dv_used (dev_entry name ty rd wr)" for name ty rd wr by (simp add: dev_entry_def)
  have s1: "snd (devfs_register (asc name) ty rd wr (replicate 32 dev_zero)) = [dev_entry name ty rd wr] @ replicate 31 dev_zero" for name ty rd wr
    using step [of "[]" 32 name ty rd wr] by (simp only: append_Nil) simp
  have s2: "snd (devfs_register (asc name) ty rd wr ([a] @ replicate 31 dev_zero)) = [a, dev_entry name ty rd wr] @ replicate 30 dev_zero"
    if "dv_used a" for name ty rd wr a using step [of "[a]" 31 name ty rd wr] that by simp
  have s3: "snd (devfs_register (asc name) ty rd wr ([a, b] @ replicate 30 dev_zero)) = [a, b, dev_entry name ty rd wr] @ replicate 29 dev_zero"
    if "dv_used a" "dv_used b" for name ty rd wr a b using step [of "[a, b]" 30 name ty rd wr] that by simp
  have s4: "snd (devfs_register (asc name) ty rd wr ([a, b, c] @ replicate 29 dev_zero)) = [a, b, c, dev_entry name ty rd wr] @ replicate 28 dev_zero"
    if "dv_used a" "dv_used b" "dv_used c" for name ty rd wr a b c using step [of "[a, b, c]" 29 name ty rd wr] that by simp
  have s5: "snd (devfs_register (asc name) ty rd wr ([a, b, c, d] @ replicate 28 dev_zero)) = [a, b, c, d, dev_entry name ty rd wr] @ replicate 27 dev_zero"
    if "dv_used a" "dv_used b" "dv_used c" "dv_used d" for name ty rd wr a b c d using step [of "[a, b, c, d]" 28 name ty rd wr] that by simp
  show ?thesis
    by (simp only: devfs_init_def DEVFS_MAX_DEVICES_def Let_def s1 s2 [OF used] s3 [OF used used] s4 [OF used used used] s5 [OF used used used used])
qed

text \<open>The names, and the entry that a node for each of them points to.\<close>

lemma devfs_names: "strncmp (strncpy (asc n) 31 @ [0]) (asc m) 31 = 0 \<longleftrightarrow> n = m"
  if "n \<in> {''null'', ''zero'', ''random'', ''tty'', ''hd0''}" "m \<in> {''null'', ''zero'', ''random'', ''tty'', ''hd0''}"
proof -
  have "list_all (\<lambda>n. list_all (\<lambda>m. (strncmp (strncpy (asc n) 31 @ [0]) (asc m) 31 = 0) = (n = m)) [''null'', ''zero'', ''random'', ''tty'', ''hd0''])
      [''null'', ''zero'', ''random'', ''tty'', ''hd0'']" by code_simp
  then show ?thesis using that by (auto simp: list_all_iff)
qed

lemma devfs_finds:
  "find_idx (dev_named (asc ''null'')) devfs_init = Some 0" "find_idx (dev_named (asc ''zero'')) devfs_init = Some 1"
  "find_idx (dev_named (asc ''random'')) devfs_init = Some 2" "find_idx (dev_named (asc ''tty'')) devfs_init = Some 3"
  "find_idx (dev_named (asc ''hd0'')) devfs_init = Some 4"
  by (simp_all add: devfs_init_table dev_named_def dev_entry_def devfs_names)

text \<open>Whole sectors written through /dev/hd0 at the start of a sector are read back.\<close>

lemma hd0_count_sectors: "k \<le> 127 \<Longrightarrow> hd0_count (of_nat (k * 512)) = of_nat k"
proof -
  assume k: "k \<le> 127"
  have "unat ((of_nat (k * 512) + 511) div 512 :: u32) = k"
    using k by (simp add: unat_div unat_word_ariths unat_of_nat take_bit_nat_eq_self)
  then have d: "(of_nat (k * 512) + 511) div 512 = (of_nat k :: u32)" using k by (simp add: word_unat_eq_iff unat_of_nat take_bit_nat_eq_self)
  have "\<not> (of_nat k :: u32) > 127" using k by (simp add: word_less_nat_alt unat_of_nat take_bit_nat_eq_self)
  with d show ?thesis by (simp add: hd0_count_def Let_def)
qed

lemma hd0_roundtrip:
  assumes "length b = k * 512" "k \<le> 127" "io_fault io = None" "hd0_write off (of_nat (k * 512)) b io = Some (r, io')" "ide_has 0 (io_ide io)"
  shows "r = int (k * 512) \<and> hd0_read off (of_nat (k * 512)) io' = (r, b, io')"
proof -
  have hc: "hd0_count (of_nat k * 512) = of_nat k" using hd0_count_sectors [OF assms(2)] by simp
  have n: "unat ((of_nat k :: u32) * 512) = k * 512" using assms(2) by (simp add: unat_word_ariths unat_of_nat take_bit_nat_eq_self)
  have c: "unat (ucast (of_nat k :: u32) :: u8) = k" using assms(2) by (simp add: unsigned_ucast_eq take_bit_nat_eq_self unat_of_nat)
  have s: "sint ((of_nat k :: u32) * 512) = int (k * 512)" using assms(2) by (simp add: sint_small n)
  obtain d where w: "ide_write None 0 (off div 512) (ucast (of_nat k :: u32)) b (io_ide io) = (0, d)"
    using assms(5) by (simp add: ide_write_def Let_def)
  have io': "io' = io\<lparr>io_ide := d\<rparr>" "r = int (k * 512)"
    using assms(1,3,4) w s by (simp_all add: hd0_write_def hc n Let_def split: if_splits)
  have "ide_read None 0 (off div 512) (ucast (of_nat k :: u32)) d = (0, b)"
    by (rule ide_read_write [OF w]) (simp add: c assms(1) IDE_SECTOR_SIZE_def)
  then show ?thesis
    using assms(1,3) n s by (simp add: io' hd0_read_def hc Let_def)
qed

text \<open>The offset inside a sector is lost: reading at any byte of a sector gives its beginning.\<close>

lemma hd0_offset_lost: "off div 512 = off' div 512 \<Longrightarrow> hd0_read off sz io = hd0_read off' sz io"
  by (simp add: hd0_read_def)

text \<open>A write of a part of a sector reads the buffer up to the end of the sector, behind what the caller gave.\<close>

lemma hd0_write_past_buffer: "length b = 100 \<Longrightarrow> hd0_write off 100 b io = None"
  by (simp add: hd0_write_def hd0_count_def Let_def)

end
