(* ===== verification/Watchdog.thy ===== *)
theory Watchdog
  imports Prelude
begin

text \<open>
  The watchdog (\<open>drivers/watchdog.c\<close>): a tick counter of the clock chip and the tick of the last sign of life. A fired watchdog restarts the
  machine and is a state of its own. Shown: it fires at the first tick that is a whole time-out after the last sign of life, and never
  before, also across the wrap of the counter. What is written to the clock chip is an argument and a result of \<open>watchdog_init\<close>.
\<close>

definition WDT_RATE :: u8 where "WDT_RATE = 6"
definition WDT_TICKS_PER_S :: u32 where "WDT_TICKS_PER_S = 1024"

record wdt =
  wdt_ticks :: u32
  wdt_pet_ticks :: u32
  wdt_timeout_ticks :: u32
  wdt_active :: bool
  wdt_fired :: bool

definition rtc_wdt_handler :: "wdt \<Rightarrow> wdt" where
  "rtc_wdt_handler s =
     (if \<not> wdt_active s then s
      else
        let s = s\<lparr>wdt_ticks := wdt_ticks s + 1\<rparr>; elapsed = wdt_ticks s - wdt_pet_ticks s
        in if elapsed \<ge> wdt_timeout_ticks s then s\<lparr>wdt_fired := True\<rparr> else s)"

text \<open>The values written to registers A and B of the clock, from what they held.\<close>

definition watchdog_init :: "u32 \<Rightarrow> u8 \<Rightarrow> u8 \<Rightarrow> wdt \<Rightarrow> (u8 \<times> u8) \<times> wdt" where
  "watchdog_init timeout_seconds reg_a reg_b s =
     (let t = (if timeout_seconds = 0 then 5 else timeout_seconds); t = (if t > 60 then 60 else t)
      in (((reg_a AND 0xF0) OR WDT_RATE, reg_b OR 0x40), s\<lparr>wdt_timeout_ticks := t * WDT_TICKS_PER_S\<rparr>))"

definition watchdog_pet :: "wdt \<Rightarrow> wdt" where "watchdog_pet s = s\<lparr>wdt_pet_ticks := wdt_ticks s\<rparr>"

definition watchdog_enable :: "wdt \<Rightarrow> wdt" where "watchdog_enable s = s\<lparr>wdt_pet_ticks := wdt_ticks s, wdt_active := True\<rparr>"

definition watchdog_disable :: "wdt \<Rightarrow> wdt" where "watchdog_disable s = s\<lparr>wdt_active := False\<rparr>"

definition watchdog_enabled :: "wdt \<Rightarrow> bool" where "watchdog_enabled s = wdt_active s"

section \<open>When it fires\<close>

text \<open>What happens to the watchdog, and the number of ticks without a sign of life that each counted tick ends.\<close>

datatype wdt_event = Tick | Pet | Enable | Disable

definition wdt_step :: "wdt_event \<Rightarrow> wdt \<Rightarrow> wdt" where
  "wdt_step e s = (case e of Tick \<Rightarrow> rtc_wdt_handler s | Pet \<Rightarrow> watchdog_pet s | Enable \<Rightarrow> watchdog_enable s | Disable \<Rightarrow> watchdog_disable s)"

fun silent :: "wdt_event list \<Rightarrow> bool \<Rightarrow> nat \<Rightarrow> nat list" where
  "silent [] on n = []"
| "silent (Tick # es) on n = (if on then Suc n # silent es on (Suc n) else silent es on n)"
| "silent (Pet # es) on n = silent es on 0"
| "silent (Enable # es) on n = silent es True 0"
| "silent (Disable # es) on n = silent es False n"

lemmas wdt_defs = wdt_step_def rtc_wdt_handler_def watchdog_pet_def watchdog_enable_def watchdog_disable_def

lemma wdt_step_timeout: "wdt_timeout_ticks (wdt_step e s) = wdt_timeout_ticks s"
  by (cases e) (simp_all add: wdt_defs Let_def)

lemma watchdog_timeout:
  "unat (wdt_timeout_ticks (snd (watchdog_init t a b s))) = 1024 * (if t = 0 then 5 else min 60 (unat t))"
proof -
  have "unat (v * 1024) = 1024 * unat v" if "\<not> v > 60" for v :: u32
    using that by (simp add: word_less_nat_alt unat_word_ariths)
  then show ?thesis by (auto simp: watchdog_init_def WDT_TICKS_PER_S_def Let_def word_less_nat_alt min_def)
qed

lemma wdt_tick:
  assumes "wdt_active s" "unat (wdt_ticks s - wdt_pet_ticks s) = n" "n < unat (wdt_timeout_ticks s)"
  shows "unat (wdt_ticks (rtc_wdt_handler s) - wdt_pet_ticks (rtc_wdt_handler s)) = Suc n"
    "wdt_fired (rtc_wdt_handler s) = (wdt_fired s \<or> unat (wdt_timeout_ticks s) \<le> Suc n)"
proof -
  have "wdt_ticks s + 1 - wdt_pet_ticks s = wdt_ticks s - wdt_pet_ticks s + 1" by simp
  moreover have "Suc n < 2 ^ 32" using assms(3) unat_less_u32 [of "wdt_timeout_ticks s"] by linarith
  ultimately have e: "unat (wdt_ticks s + 1 - wdt_pet_ticks s) = Suc n"
    using assms(2) by (simp only: unat_word_ariths) simp
  then show "unat (wdt_ticks (rtc_wdt_handler s) - wdt_pet_ticks (rtc_wdt_handler s)) = Suc n"
    using assms(1) by (simp add: rtc_wdt_handler_def Let_def)
  show "wdt_fired (rtc_wdt_handler s) = (wdt_fired s \<or> unat (wdt_timeout_ticks s) \<le> Suc n)"
    using assms(1) e by (simp add: rtc_wdt_handler_def Let_def word_le_nat_alt)
qed

lemma fired_stays: "wdt_fired s \<Longrightarrow> wdt_fired (fold wdt_step es s)"
proof (induction es arbitrary: s)
  case (Cons e es)
  have "wdt_fired (wdt_step e s)" using Cons.prems by (cases e) (simp_all add: wdt_defs Let_def)
  then show ?case by (simp add: Cons.IH)
qed simp

lemma wdt_fires:
  assumes "unat (wdt_ticks s - wdt_pet_ticks s) = n" "n < unat (wdt_timeout_ticks s)" "\<not> wdt_fired s"
  shows "wdt_fired (fold wdt_step es s) \<longleftrightarrow> (\<exists>k \<in> set (silent es (wdt_active s) n). unat (wdt_timeout_ticks s) \<le> k)"
  using assms
proof (induction es arbitrary: s n)
  case (Cons e es)
  note IH = Cons.IH [of "wdt_step e s", unfolded wdt_step_timeout]
  show ?case
  proof (cases "e = Tick \<and> wdt_active s")
    case True
    note t = wdt_tick [OF _ Cons.prems(1,2)]
    have act: "wdt_active (wdt_step e s)" using True by (simp add: wdt_defs Let_def)
    show ?thesis
    proof (cases "unat (wdt_timeout_ticks s) \<le> Suc n")
      case le: True
      then have "wdt_fired (wdt_step e s)" using t(2) True by (simp add: wdt_step_def)
      then show ?thesis using le True by (simp add: fired_stays)
    next
      case False
      have "unat (wdt_ticks (wdt_step e s) - wdt_pet_ticks (wdt_step e s)) = Suc n" "\<not> wdt_fired (wdt_step e s)"
        using t False Cons.prems(3) True by (simp_all add: wdt_step_def)
      from IH [OF this(1) _ this(2)] False show ?thesis using True act by simp
    qed
  next
    case False
    have "\<not> wdt_fired (wdt_step e s)" using False Cons.prems(3) by (cases e) (simp_all add: wdt_defs)
    from IH [OF refl _ this] Cons.prems(1,2) False show ?thesis by (cases e) (simp_all add: wdt_defs)
  qed
qed simp

text \<open>
  C0: After \<open>watchdog_init\<close> (with a time-out of 0 taken for 5 seconds and limited to 60) and \<open>watchdog_enable\<close>, through any sequence of
  ticks of the clock, signs of life, stops and restarts of the watchdog: it fires exactly when, while it is on, the ticks since the last sign of life or
  start reach 1024 for each second of the time-out; also when the 32-bit counter wraps. What a watchdog that has fired does then, restarting the
  machine, is the flag.
\<close>

theorem watchdog_fires_on_silence:
  "wdt_fired (fold wdt_step es (watchdog_enable (snd (watchdog_init t a b s)))) \<longleftrightarrow>
     wdt_fired s \<or> (\<exists>k \<in> set (silent es True 0). 1024 * (if t = 0 then 5 else min 60 (unat t)) \<le> k)"
proof -
  let ?s = "watchdog_enable (snd (watchdog_init t a b s))"
  have "unat (wdt_ticks ?s - wdt_pet_ticks ?s) = 0" "wdt_active ?s" by (simp_all add: watchdog_enable_def)
  moreover have T: "unat (wdt_timeout_ticks ?s) = 1024 * (if t = 0 then 5 else min 60 (unat t))"
    using watchdog_timeout [of t a b s] by (simp add: watchdog_enable_def)
  moreover have "0 < unat (wdt_timeout_ticks ?s)" unfolding T by (simp add: unat_gt_0)
  moreover have "wdt_fired ?s = wdt_fired s" by (simp add: watchdog_enable_def watchdog_init_def Let_def)
  ultimately show ?thesis using wdt_fires [of ?s 0 es] fired_stays [of ?s es] by (cases "wdt_fired s") simp_all
qed

theorem watchdog_fires_on_silence_witness:
  "wdt_fired (fold wdt_step ([Tick, Disable, Tick, Enable] @ replicate 1024 Tick)
     (watchdog_enable (snd (watchdog_init 1 0x26 0x02
       \<lparr>wdt_ticks = 0xFFFFFFFF, wdt_pet_ticks = 0, wdt_timeout_ticks = 0, wdt_active = False, wdt_fired = False\<rparr>))))"
proof -
  have last: "n + Suc k \<in> set (silent (replicate (Suc k) Tick) True n)" for k n
  proof (induction k arbitrary: n)
    case (Suc k)
    from Suc.IH [of "Suc n"] show ?case by simp
  qed simp
  have k: "(1024 :: nat) = Suc 1023" by simp
  have "0 + Suc 1023 \<in> set (silent (replicate 1024 Tick) True 0)" unfolding k by (rule last)
  then have "\<exists>k \<in> set (silent ([Tick, Disable, Tick, Enable] @ replicate 1024 Tick) True 0). 1024 * (if (1 :: u32) = 0 then 5 else min 60 (unat (1 :: u32))) \<le> k"
    by (intro bexI [of _ "0 + Suc 1023"]) simp_all
  then show ?thesis unfolding watchdog_fires_on_silence by blast
qed

end
