(* ===== verification/Ioapic.thy ===== *)
theory Ioapic
  imports Prelude
begin

text \<open>
  The I/O APIC (\<open>drivers/ioapic.c\<close>, \<open>include/ioapic.h\<close>): 24 lines with a redirection entry of two registers each. The registers are a function
  from their index; as the data sheet says, a redirection register answers what was written to it. The mapping of the device, messages and
  \<open>ioapic_dump\<close> are left out. Nothing in the kernel calls \<open>ioapic_init\<close>.
\<close>

definition IOAPIC_REG_ID :: u8 where "IOAPIC_REG_ID = 0x00"
definition IOAPIC_REG_VER :: u8 where "IOAPIC_REG_VER = 0x01"
definition IOAPIC_REG_REDIR :: "u8 \<Rightarrow> u8" where "IOAPIC_REG_REDIR n = 0x10 + n * 2"
definition IOAPIC_RTE_MASKED :: u32 where "IOAPIC_RTE_MASKED = push_bit 16 1"
definition IOAPIC_RTE_DEST_SHIFT :: nat where "IOAPIC_RTE_DEST_SHIFT = 24"
definition IOAPIC_DELMODE_FIXED :: u32 where "IOAPIC_DELMODE_FIXED = 0x00"
definition IOAPIC_MAX_IRQS :: u8 where "IOAPIC_MAX_IRQS = 24"

record ioapic =
  ioapic_base :: bool
  ioapic_max :: u8
  ioapic_regs :: "u8 \<Rightarrow> u32"
  pic_masks :: "u8 \<times> u8"

definition ioapic_read :: "u8 \<Rightarrow> ioapic \<Rightarrow> u32" where "ioapic_read reg s = ioapic_regs s reg"

definition ioapic_write :: "u8 \<Rightarrow> u32 \<Rightarrow> ioapic \<Rightarrow> ioapic" where "ioapic_write reg val s = s\<lparr>ioapic_regs := (ioapic_regs s)(reg := val)\<rparr>"

definition ioapic_write_rte :: "u8 \<Rightarrow> u32 \<Rightarrow> u32 \<Rightarrow> ioapic \<Rightarrow> ioapic" where
  "ioapic_write_rte irq lo hi s = ioapic_write (IOAPIC_REG_REDIR irq) lo (ioapic_write (IOAPIC_REG_REDIR irq + 1) hi s)"

definition ioapic_read_rte :: "u8 \<Rightarrow> ioapic \<Rightarrow> u32 \<times> u32" where
  "ioapic_read_rte irq s = (ioapic_read (IOAPIC_REG_REDIR irq) s, ioapic_read (IOAPIC_REG_REDIR irq + 1) s)"

definition ioapic_set_redir :: "u8 \<Rightarrow> u8 \<Rightarrow> u8 \<Rightarrow> u32 \<Rightarrow> ioapic \<Rightarrow> ioapic" where
  "ioapic_set_redir irq vector dest_apic flags s =
     (if \<not> ioapic_base s \<or> irq \<ge> ioapic_max s then s
      else ioapic_write_rte irq (ucast vector OR flags) (push_bit IOAPIC_RTE_DEST_SHIFT (ucast dest_apic)) s)"

definition ioapic_mask :: "u8 \<Rightarrow> ioapic \<Rightarrow> ioapic" where
  "ioapic_mask irq s =
     (if \<not> ioapic_base s \<or> irq \<ge> ioapic_max s then s
      else let (lo, hi) = ioapic_read_rte irq s in ioapic_write_rte irq (lo OR IOAPIC_RTE_MASKED) hi s)"

definition ioapic_unmask :: "u8 \<Rightarrow> ioapic \<Rightarrow> ioapic" where
  "ioapic_unmask irq s =
     (if \<not> ioapic_base s \<or> irq \<ge> ioapic_max s then s
      else let (lo, hi) = ioapic_read_rte irq s in ioapic_write_rte irq (lo AND NOT IOAPIC_RTE_MASKED) hi s)"

definition ioapic_get_id :: "ioapic \<Rightarrow> u8" where
  "ioapic_get_id s = (if \<not> ioapic_base s then 0xFF else ucast (drop_bit 24 (ioapic_read IOAPIC_REG_ID s) AND 0x0F))"

definition ioapic_max_irqs :: "ioapic \<Rightarrow> u8" where "ioapic_max_irqs s = ioapic_max s"

definition pic_disable :: "ioapic \<Rightarrow> ioapic" where "pic_disable s = s\<lparr>pic_masks := (0xFF, 0xFF)\<rparr>"

definition ioapic_init :: "ioapic \<Rightarrow> ioapic" where
  "ioapic_init s =
     (let s = s\<lparr>ioapic_base := True\<rparr>; mx = ucast ((drop_bit 16 (ioapic_read IOAPIC_REG_VER s) AND 0xFF) + 1);
          s = s\<lparr>ioapic_max := (if mx > IOAPIC_MAX_IRQS then IOAPIC_MAX_IRQS else mx)\<rparr>;
          s = fold (\<lambda>i. ioapic_write_rte (of_nat i) (of_nat (0x20 + i) OR IOAPIC_RTE_MASKED) 0) [0..<unat (ioapic_max s)] s;
          s = fold (\<lambda>irq s. ioapic_unmask (of_nat irq) (ioapic_set_redir (of_nat irq) (of_nat (0x20 + irq)) 0 (push_bit 8 IOAPIC_DELMODE_FIXED) s))
                [0..<min 16 (unat (ioapic_max s))] s
      in pic_disable s)"

section \<open>Entries\<close>

text \<open>The registers of one line are not those of another.\<close>

lemma redir_inj:
  assumes "unat i < 24" "unat j < 24"
  shows "IOAPIC_REG_REDIR i = IOAPIC_REG_REDIR j \<longleftrightarrow> i = j" "IOAPIC_REG_REDIR i + 1 = IOAPIC_REG_REDIR j + 1 \<longleftrightarrow> i = j"
    "IOAPIC_REG_REDIR i \<noteq> IOAPIC_REG_REDIR j + 1"
proof -
  have r: "unat (IOAPIC_REG_REDIR n) = 16 + 2 * unat n" "unat (IOAPIC_REG_REDIR n + 1) = 17 + 2 * unat n" if "unat n < 24" for n
    using that by (simp_all add: IOAPIC_REG_REDIR_def unat_word_ariths)
  show "IOAPIC_REG_REDIR i = IOAPIC_REG_REDIR j \<longleftrightarrow> i = j" using r(1) [OF assms(1)] r(1) [OF assms(2)] by (auto simp: word_unat_eq_iff)
  show "IOAPIC_REG_REDIR i + 1 = IOAPIC_REG_REDIR j + 1 \<longleftrightarrow> i = j" using r(2) [OF assms(1)] r(2) [OF assms(2)] by (auto simp: word_unat_eq_iff)
  show "IOAPIC_REG_REDIR i \<noteq> IOAPIC_REG_REDIR j + 1" using r(1) [OF assms(1)] r(2) [OF assms(2)] by (metis even_add even_mult_iff even_numeral odd_numeral)
qed

lemma read_write_rte:
  assumes "unat i < 24" "unat j < 24"
  shows "ioapic_read_rte j (ioapic_write_rte i lo hi s) = (if i = j then (lo, hi) else ioapic_read_rte j s)"
  using redir_inj [OF assms] redir_inj [OF assms(2,1)]
  by (auto simp: ioapic_read_rte_def ioapic_write_rte_def ioapic_read_def ioapic_write_def)

lemma rte_keeps [simp]:
  "ioapic_base (ioapic_write_rte i lo hi s) = ioapic_base s" "ioapic_max (ioapic_write_rte i lo hi s) = ioapic_max s"
  "ioapic_base (ioapic_set_redir i v d f s) = ioapic_base s" "ioapic_max (ioapic_set_redir i v d f s) = ioapic_max s"
  "ioapic_base (ioapic_unmask i s) = ioapic_base s" "ioapic_max (ioapic_unmask i s) = ioapic_max s"
  by (simp_all add: ioapic_write_rte_def ioapic_write_def ioapic_set_redir_def ioapic_unmask_def split: prod.split)

text \<open>Masking and unmasking change that bit of that line only.\<close>

lemma mask_unmask:
  assumes "ioapic_base s" "irq < ioapic_max s" "unat (ioapic_max s) \<le> 24" "unat j < 24"
  shows "ioapic_read_rte j (ioapic_mask irq s) =
      (if irq = j then (fst (ioapic_read_rte j s) OR IOAPIC_RTE_MASKED, snd (ioapic_read_rte j s)) else ioapic_read_rte j s)"
    "ioapic_read_rte j (ioapic_unmask irq s) =
      (if irq = j then (fst (ioapic_read_rte j s) AND NOT IOAPIC_RTE_MASKED, snd (ioapic_read_rte j s)) else ioapic_read_rte j s)"
proof -
  have "unat irq < 24" "\<not> ioapic_max s \<le> irq" using assms(2,3) by (simp_all add: not_le word_less_nat_alt)
  then show "ioapic_read_rte j (ioapic_mask irq s) =
      (if irq = j then (fst (ioapic_read_rte j s) OR IOAPIC_RTE_MASKED, snd (ioapic_read_rte j s)) else ioapic_read_rte j s)"
    "ioapic_read_rte j (ioapic_unmask irq s) =
      (if irq = j then (fst (ioapic_read_rte j s) AND NOT IOAPIC_RTE_MASKED, snd (ioapic_read_rte j s)) else ioapic_read_rte j s)"
    using assms(1,4) by (simp_all add: ioapic_mask_def ioapic_unmask_def read_write_rte split: prod.split)
qed

text \<open>One pass of the second loop of the start: the line is routed to its vector, enabled.\<close>

lemma route_line:
  assumes "ioapic_base s" "i < unat (ioapic_max s)" "unat (ioapic_max s) \<le> 24" "unat j < 24"
  shows "ioapic_read_rte j (ioapic_unmask (of_nat i) (ioapic_set_redir (of_nat i) (of_nat (32 + i)) 0 0 s)) =
    (if j = of_nat i then (of_nat (32 + i), 0) else ioapic_read_rte j s)"
proof -
  have u: "unat (of_nat i :: u8) = i" using assms(2,3) by (simp add: unat_of_nat take_bit_nat_eq_self)
  have lt: "(of_nat i :: u8) < ioapic_max s" "\<not> ioapic_max s \<le> of_nat i" using assms(2) u by (auto simp: word_less_nat_alt word_le_nat_alt)
  have v: "(ucast (of_nat (32 + i) :: u8) :: u32) = of_nat (32 + i)"
    using assms(2,3) by (simp add: word_unat_eq_iff unat_of_nat take_bit_nat_eq_self unat_ucast_up del: of_nat_add)
  have nb: "of_nat (32 + i) AND NOT IOAPIC_RTE_MASKED = (of_nat (32 + i) :: u32)"
  proof -
    have "unat (of_nat (32 + i) :: u32) = 32 + i" using assms(2,3) by (simp add: unat_of_nat take_bit_nat_eq_self del: of_nat_add)
    then have "\<not> bit (of_nat (32 + i) :: u32) 16" using assms(2,3) by (simp add: bit_word_odd)
    then show ?thesis by (intro bit_word_eqI) (auto simp: IOAPIC_RTE_MASKED_def bit_and_iff bit_not_iff bit_push1 simp del: push_bit_of_1 of_nat_add)
  qed
  show ?thesis
    using assms(1,3,4) assms(2) u lt order.strict_trans2 [OF assms(2,3)]
    by (subst mask_unmask) (auto simp: ioapic_set_redir_def read_write_rte v nb IOAPIC_RTE_DEST_SHIFT_def simp del: of_nat_add)
qed

lemma mask_lines:
  "unat j < 24 \<Longrightarrow> n \<le> 24 \<Longrightarrow> ioapic_read_rte j (fold (\<lambda>i. ioapic_write_rte (of_nat i) (lo i) 0) [0..<n] s) =
     (if unat j < n then (lo (unat j), 0) else ioapic_read_rte j s)"
  "ioapic_base (fold (\<lambda>i. ioapic_write_rte (of_nat i) (lo i) 0) [0..<n] s) = ioapic_base s"
  "ioapic_max (fold (\<lambda>i. ioapic_write_rte (of_nat i) (lo i) 0) [0..<n] s) = ioapic_max s"
proof (induction n)
  case (Suc n)
  {
    case 1
    then have "unat (of_nat n :: u8) = n" "unat (of_nat n :: u8) < 24" "(of_nat n = j) = (n = unat j)"
      by (auto simp: unat_of_nat take_bit_nat_eq_self word_unat_eq_iff)
    then show ?case using 1 Suc.IH(1) by (auto simp: read_write_rte)
  }
qed simp_all

lemma route_lines:
  assumes "ioapic_base s" "n \<le> unat (ioapic_max s)" "unat (ioapic_max s) \<le> 24"
  shows "unat j < 24 \<Longrightarrow> ioapic_read_rte j (fold (\<lambda>i s. ioapic_unmask (of_nat i) (ioapic_set_redir (of_nat i) (of_nat (32 + i)) 0 0 s)) [0..<n] s) =
      (if unat j < n then (of_nat (32 + unat j), 0) else ioapic_read_rte j s)"
    "ioapic_base (fold (\<lambda>i s. ioapic_unmask (of_nat i) (ioapic_set_redir (of_nat i) (of_nat (32 + i)) 0 0 s)) [0..<n] s) = ioapic_base s"
    "ioapic_max (fold (\<lambda>i s. ioapic_unmask (of_nat i) (ioapic_set_redir (of_nat i) (of_nat (32 + i)) 0 0 s)) [0..<n] s) = ioapic_max s"
  using assms(2)
proof (induction n)
  case (Suc n)
  let ?s = "fold (\<lambda>i s. ioapic_unmask (of_nat i) (ioapic_set_redir (of_nat i) (of_nat (32 + i)) 0 0 s)) [0..<n] s"
  {
    case 1
    have k: "ioapic_base ?s" "ioapic_max ?s = ioapic_max s" using Suc.IH(2,3) 1 assms(1) by simp_all
    have "unat (of_nat n :: u8) = n" "(j = of_nat n) = (n = unat j)"
      using 1 assms(3) by (auto simp: unat_of_nat take_bit_nat_eq_self word_unat_eq_iff)
    then show ?case using 1 Suc.IH(1) assms(3) k by (simp add: route_line del: of_nat_add)
  }
qed simp_all

text \<open>After the start the first 16 lines go to the vectors 32 to 47 of processor 0, enabled; the others are masked; the old controllers are silent.\<close>

theorem ioapic_init_routes:
  assumes "unat j < unat (ioapic_max (ioapic_init s))"
  shows "ioapic_read_rte j (ioapic_init s) = (if unat j < 16 then of_nat (32 + unat j) else of_nat (32 + unat j) OR IOAPIC_RTE_MASKED, 0) \<and>
    pic_masks (ioapic_init s) = (0xFF, 0xFF)"
proof -
  define mx :: u8 where "mx = ucast ((drop_bit 16 (ioapic_regs s IOAPIC_REG_VER) AND 0xFF) + 1)"
  define mx' where "mx' = (if mx > IOAPIC_MAX_IRQS then IOAPIC_MAX_IRQS else mx)"
  have le: "unat mx' \<le> 24" by (auto simp: mx'_def IOAPIC_MAX_IRQS_def word_less_nat_alt)
  let ?m = "fold (\<lambda>i. ioapic_write_rte (of_nat i) (of_nat (0x20 + i) OR IOAPIC_RTE_MASKED) 0) [0..<unat mx'] (s\<lparr>ioapic_base := True, ioapic_max := mx'\<rparr>)"
  let ?r = "fold (\<lambda>i s. ioapic_unmask (of_nat i) (ioapic_set_redir (of_nat i) (of_nat (32 + i)) 0 0 s)) [0..<min 16 (unat mx')] ?m"
  have init: "ioapic_init s = pic_disable ?r"
    by (simp add: ioapic_init_def ioapic_read_def mx_def mx'_def IOAPIC_DELMODE_FIXED_def mask_lines Let_def)
  have m: "ioapic_base ?m" "ioapic_max ?m = mx'" by (simp_all add: mask_lines)
  have keep: "ioapic_read_rte j (pic_disable t) = ioapic_read_rte j t" "ioapic_max (pic_disable t) = ioapic_max t" for t
    by (simp_all add: pic_disable_def ioapic_read_rte_def ioapic_read_def)
  have "ioapic_max ?r = mx'" using route_lines(3) [of ?m "min 16 (unat mx')"] m le by simp
  then have j: "unat j < unat mx'" using assms by (simp add: init keep)
  then have "ioapic_read_rte j ?r = (if unat j < 16 then (of_nat (32 + unat j), 0) else (of_nat (32 + unat j) OR IOAPIC_RTE_MASKED, 0))"
    using route_lines(1) [of ?m "min 16 (unat mx')" j] mask_lines(1) [of j "unat mx'"] m le by (simp del: of_nat_add)
  then show ?thesis by (simp add: init keep) (simp add: pic_disable_def)
qed

end
