(* ===== verification/Ahci.thy ===== *)
theory Ahci
  imports Pci Ide
begin

text \<open>
  The SATA driver (\<open>drivers/ahci.c\<close>): finding the drives on the ports of the controller, and transfers, which the code hands to the IDE driver.
  What the controller's registers answer is an argument. \<open>ahci_dump\<close> only prints; the mapping of the registers is the list of its pages.
\<close>

definition AHCI_PCI_CLASS :: u8 where "AHCI_PCI_CLASS = 0x01"
definition AHCI_PCI_SUBCLASS :: u8 where "AHCI_PCI_SUBCLASS = 0x06"
definition AHCI_MAX_PORTS :: nat where "AHCI_MAX_PORTS = 32"
definition HBA_PI_OFFSET :: u32 where "HBA_PI_OFFSET = 0x0C"
definition HBA_PORT_BASE :: u32 where "HBA_PORT_BASE = 0x100"
definition HBA_PORT_SIZE :: u32 where "HBA_PORT_SIZE = 0x080"
definition PORT_SIG :: u32 where "PORT_SIG = 0x24"
definition PORT_SSTS :: u32 where "PORT_SSTS = 0x28"
definition SATA_SIG_ATA :: u32 where "SATA_SIG_ATA = 0x00000101"
definition SSTS_DET_PRESENT :: u8 where "SSTS_DET_PRESENT = 0x3"
definition SSTS_IPM_ACTIVE :: u8 where "SSTS_IPM_ACTIVE = 0x1"

record ahci_drive =
  ad_port :: u8
  ad_present :: bool

record ahci =
  hba_base :: u32
  ahci_drives :: "ahci_drive list"
  ahci_count :: u32

text \<open>\<open>hba off\<close> is what the register at offset \<open>off\<close> answers.\<close>

definition port_read :: "(u32 \<Rightarrow> u32) \<Rightarrow> u8 \<Rightarrow> u32 \<Rightarrow> u32" where
  "port_read hba port reg = hba (HBA_PORT_BASE + ucast port * HBA_PORT_SIZE + reg)"

definition port_has_drive :: "(u32 \<Rightarrow> u32) \<Rightarrow> u8 \<Rightarrow> bool" where
  "port_has_drive hba port \<longleftrightarrow>
     (let ssts = port_read hba port PORT_SSTS in
      ucast (ssts AND 0xF) = SSTS_DET_PRESENT \<and> ucast (drop_bit 8 ssts AND 0xF) = SSTS_IPM_ACTIVE \<and> port_read hba port PORT_SIG = SATA_SIG_ATA)"

definition ahci_check_port :: "(u32 \<Rightarrow> u32) \<Rightarrow> nat \<Rightarrow> ahci \<Rightarrow> ahci" where
  "ahci_check_port hba p s =
     (if hba HBA_PI_OFFSET AND push_bit p 1 = 0 \<or> \<not> port_has_drive hba (of_nat p) then s
      else s\<lparr>ahci_drives := (ahci_drives s)[unat (ahci_count s) := \<lparr>ad_port = of_nat p, ad_present = True\<rparr>], ahci_count := ahci_count s + 1\<rparr>)"

definition ahci_init :: "(u32 \<Rightarrow> u32) \<Rightarrow> pci_table \<Rightarrow> ahci \<Rightarrow> int \<times> ahci" where
  "ahci_init hba pci s =
     (case pci_find_class AHCI_PCI_CLASS AHCI_PCI_SUBCLASS pci of
        None \<Rightarrow> (0, s)
      | Some dev \<Rightarrow>
          let s = s\<lparr>hba_base := pd_bar dev ! 5 AND NOT 0xF\<rparr> in
          if hba_base s = 0 then (0, s)
          else let s = fold (ahci_check_port hba) [0..<AHCI_MAX_PORTS] (s\<lparr>ahci_count := 0\<rparr>) in (sint (ahci_count s), s))"

text \<open>The count is passed to a function whose parameter has eight bits.\<close>

definition ahci_read :: "nat option \<Rightarrow> u8 \<Rightarrow> u64 \<Rightarrow> u32 \<Rightarrow> ahci \<Rightarrow> ide_state \<Rightarrow> int \<times> u8 list" where
  "ahci_read fault port_idx lba count s d =
     (if hba_base s = 0 \<or> ucast port_idx \<ge> ahci_count s then (- 1, [])
      else ide_read fault (ad_port (ahci_drives s ! unat port_idx)) (ucast lba) (ucast count) d)"

definition ahci_write :: "nat option \<Rightarrow> u8 \<Rightarrow> u64 \<Rightarrow> u32 \<Rightarrow> u8 list \<Rightarrow> ahci \<Rightarrow> ide_state \<Rightarrow> int \<times> ide_state" where
  "ahci_write fault port_idx lba count buf s d =
     (if hba_base s = 0 \<or> ucast port_idx \<ge> ahci_count s then (- 1, d)
      else ide_write fault (ad_port (ahci_drives s ! unat port_idx)) (ucast lba) (ucast count) buf d)"

definition ahci_drive_count :: "ahci \<Rightarrow> u32" where "ahci_drive_count s = ahci_count s"

section \<open>The drives that are found\<close>

definition ahci_has :: "(u32 \<Rightarrow> u32) \<Rightarrow> nat \<Rightarrow> bool" where
  "ahci_has hba p \<longleftrightarrow> bit (hba HBA_PI_OFFSET) p \<and> port_has_drive hba (of_nat p)"

text \<open>The table starts with the ports that are implemented and have a drive, in their order.\<close>

lemma ahci_scan:
  assumes "length (ahci_drives s) = 32" "n \<le> 32" "ahci_count s = 0"
  shows "\<exists>t. fold (ahci_check_port hba) [0..<n] s = t \<and> length (ahci_drives t) = 32 \<and> unat (ahci_count t) = length (filter (ahci_has hba) [0..<n]) \<and>
    map ad_port (take (unat (ahci_count t)) (ahci_drives t)) = map of_nat (filter (ahci_has hba) [0..<n])"
  using assms(2)
proof (induction n)
  case 0
  then show ?case using assms by simp
next
  case (Suc n)
  let ?t = "fold (ahci_check_port hba) [0..<n] s" and ?c = "length (filter (ahci_has hba) [0..<n])"
  have ih: "length (ahci_drives ?t) = 32" "unat (ahci_count ?t) = ?c"
    "map ad_port (take ?c (ahci_drives ?t)) = map of_nat (filter (ahci_has hba) [0..<n])" using Suc by auto
  have c: "?c \<le> n" using length_filter_le [of "ahci_has hba" "[0..<n]"] by simp
  then have next1: "unat (ahci_count ?t + 1) = Suc ?c" using ih(2) Suc.prems by (simp add: unat_word_ariths)
  have "(hba HBA_PI_OFFSET AND push_bit n 1 = 0 \<or> \<not> port_has_drive hba (of_nat n)) = (\<not> ahci_has hba n)"
    by (simp add: ahci_has_def and_push1 del: push_bit_of_1)
  then have step: "ahci_check_port hba n ?t = (if ahci_has hba n then ?t\<lparr>ahci_drives := (ahci_drives ?t)[?c := \<lparr>ad_port = of_nat n, ad_present = True\<rparr>],
      ahci_count := ahci_count ?t + 1\<rparr> else ?t)"
    using ih(2) by (simp only: ahci_check_port_def) simp
  show ?case using ih c next1 Suc.prems by (simp add: step take_Suc_conv_app_nth)
qed

lemma ahci_init_finds:
  assumes "pci_find_class AHCI_PCI_CLASS AHCI_PCI_SUBCLASS pci = Some dev" "pd_bar dev ! 5 AND NOT 0xF \<noteq> 0" "length (ahci_drives s) = 32"
  shows "\<exists>t. ahci_init hba pci s = (int (length (filter (ahci_has hba) [0..<32])), t) \<and>
    map ad_port (take (unat (ahci_count t)) (ahci_drives t)) = map of_nat (filter (ahci_has hba) [0..<32])"
proof -
  let ?s = "s\<lparr>hba_base := pd_bar dev ! 5 AND NOT 0xF, ahci_count := 0\<rparr>"
  obtain t where t: "fold (ahci_check_port hba) [0..<32] ?s = t" "unat (ahci_count t) = length (filter (ahci_has hba) [0..<32])"
    "map ad_port (take (unat (ahci_count t)) (ahci_drives t)) = map of_nat (filter (ahci_has hba) [0..<32])"
    using ahci_scan [of ?s 32 hba] assms(3) by auto
  have "length (filter (ahci_has hba) [0..<32]) \<le> 32" using length_filter_le [of "ahci_has hba" "[0..<32]"] by simp
  then have "sint (ahci_count t) = int (length (filter (ahci_has hba) [0..<32]))" using t(2) by (simp add: sint_small del: of_nat_unat)
  then show ?thesis using t(1,3) assms(1,2) by (simp add: ahci_init_def AHCI_MAX_PORTS_def Let_def del: upt_rec_numeral)
qed

text \<open>A transfer never reaches the SATA drive: its port number is taken for the number of an IDE drive. Beyond port 3 there is none.\<close>

lemma ahci_high_port_fails:
  assumes "4 \<le> unat (ad_port (ahci_drives s ! unat i))"
  shows "ahci_read fault i lba count s d = (- 1, [])"
  using assms by (simp add: ahci_read_def ide_read_def ide_has_def IDE_MAX_DRIVES_def)

lemma ahci_reads_ide_disk:
  assumes "hba_base s \<noteq> 0" "ucast i < ahci_count s"
  shows "ahci_read fault i lba count s d = ide_read fault (ad_port (ahci_drives s ! unat i)) (ucast lba) (ucast count) d"
  using assms by (simp add: ahci_read_def not_le [symmetric])

text \<open>256 sectors are none: only eight bits of the count arrive.\<close>

lemma ahci_count_lost:
  assumes "hba_base s \<noteq> 0" "ucast i < ahci_count s" "ide_has (ad_port (ahci_drives s ! unat i)) d"
  shows "ahci_read None i lba 256 s d = (0, [])"
  using assms by (simp add: ahci_read_def ide_read_def not_le [symmetric])

end
