(* ===== verification/Spec2Isabelle.thy ===== *)
theory Spec2Isabelle
  imports KMem KString KFormat KArith Interfaces Keyboard Sync Env MsgQueue Pipe UnixSock PhysAlloc Paging Heap Ide Swap Slab Process Scheduler Vfs Ramfs Initrd Fat32 Ext2 Iso9660 Partition Dns NetBytes Net Tcp Dhcp Loopback Interrupts Kprobes Gdbstub Profiler Elf Syscall Icons Rtc Entropy Ui Login Pe App Desktop Vga Procfs Pci E1000 Rtl8139 NetInit Nvme Acpi Devfs Watchdog Ioapic Ahci
begin

text \<open>
  A verification library for PinguinOS: a 32-bit x86 kernel in C (\<open>src/kernal\<close>) and the desktop that runs on it (\<open>src/os\<close>).

  \<^bold>\<open>The program.\<close> \<open>klib.c\<close> is the C library of the kernel. Memory is managed in layers: physical frames
  (\<open>mm/phys_alloc.c\<close>), page tables over them (\<open>mm/paging.c\<close>), the block heap and the slab caches
  (\<open>mm/heap.c\<close>, \<open>mm/slab.c\<close>), and swapping of pages to an IDE disk (\<open>mm/swap.c\<close>, \<open>drivers/ide.c\<close>). Processes
  and signals (\<open>mm/process.c\<close>) sit beside the priority scheduler (\<open>sched/scheduler.c\<close>), whose task switches the
  synchronisation primitives (\<open>sync/sync.c\<close>) and everything blocking above them use: message queues, pipes,
  local sockets and the environment table (\<open>ipc/\<close>). Files go through \<open>fs/vfs.c\<close> to one of the file systems;
  the network stack (\<open>net/\<close>) goes from Ethernet frames up to DNS and DHCP. On top, \<open>os/src\<close> is a desktop: a drawing layer over
  a frame buffer, a login, windows with built-in applications or programs of the PE loader, and the loop that runs them.

  \<^bold>\<open>Theories.\<close> Each component has one theory; definitions keep the names of the functions they model.
  \<^item> \<open>Prelude\<close> holds machine types, table scans, bitmaps, little-endian fields and their lemmas; \<open>Interfaces\<close>
    the contracts (locales) that several components satisfy: first-in first-out queues, keyed tables and sources of pages.
    Every locale is interpreted on the model of the component that provides it.
  \<^item> \<open>KMem\<close>, \<open>KString\<close>, \<open>KFormat\<close>, \<open>KArith\<close> model \<open>klib.c\<close>: the word-at-a-time memory routines over a
    function from addresses to bytes, the string functions over byte lists, printing and parsing of numbers, the
    64-bit division and the checksums.
  \<^item> \<open>Keyboard\<close>: scan codes and the event rings of \<open>drivers/keyboard.c\<close> and \<open>drivers/mouse.c\<close>.
  \<^item> \<open>Sync\<close>, \<open>Env\<close>, \<open>MsgQueue\<close>, \<open>Pipe\<close>, \<open>UnixSock\<close>: \<open>sync/sync.c\<close> and the files of \<open>ipc/\<close>.
  \<^item> \<open>PhysAlloc\<close>, \<open>Paging\<close>, \<open>Heap\<close>, \<open>Slab\<close>, \<open>Swap\<close>, \<open>Process\<close>: the files of \<open>mm/\<close>. \<open>Ide\<close> is the disk
    driver. Page tables live in the same byte memory the frames do, so that a map operation really reads and
    writes physical memory.
  \<^item> \<open>Scheduler\<close>: \<open>sched/scheduler.c\<close> as a state of tasks and priority bitmap with an event step function.
  \<^item> \<open>Vfs\<close>, \<open>Ramfs\<close>, \<open>Initrd\<close>: the file system switch and two of its file systems; an operation table is a record of
    optional functions, as the C structure of function pointers is.
  \<^item> \<open>Fat32\<close>, \<open>Ext2\<close>, \<open>Iso9660\<close>: the read-only file systems of a disk, over \<open>Ide\<close>. The two directory scans of
    FAT32 share the locale \<open>dir_scan\<close>; the reads of all three rest on the lemmas of \<open>Prelude\<close> on files made of
    blocks of one size. \<open>Partition\<close> reads MBR and GPT tables from the same disk.
  \<^item> \<open>NetBytes\<close>, \<open>Net\<close>, \<open>Tcp\<close>, \<open>Dns\<close>, \<open>Dhcp\<close>, \<open>Loopback\<close>: the files of \<open>net/\<close>, over received frames as byte memories.
  \<^item> \<open>Interrupts\<close>: the descriptor tables, gates and interrupt masks of \<open>cpu/gdt.c\<close> and \<open>cpu/idt.c\<close>, with the output to the
    interrupt controllers as a log. \<open>Kprobes\<close>, \<open>Gdbstub\<close>, \<open>Profiler\<close> model \<open>debug/\<close> on top of it.
  \<^item> \<open>Elf\<close>, \<open>Syscall\<close>: the program loader and the system calls of \<open>ipc/syscall.c\<close>; what a program or the kernel reads and
    writes at a virtual address goes through the page tables of \<open>Paging\<close>. \<open>Pe\<close> is the loader of PE32 programs (\<open>fs/pe.c\<close>).
  \<^item> \<open>Rtc\<close>, \<open>Entropy\<close>: the clock chip and the HPET counter (\<open>drivers/rtc.c\<close>), the random numbers (\<open>entropy.c\<close>).
  \<^item> \<open>Pci\<close>, \<open>E1000\<close>, \<open>Rtl8139\<close>: the enumeration of the PCI bus (\<open>drivers/pci.c\<close>); the rings of the two network
    cards (\<open>drivers/e1000.c\<close>, \<open>drivers/rtl8139.c\<close>). \<open>NetInit\<close> is the task of \<open>kernel.c\<close> that starts the network over them.
  \<^item> \<open>Nvme\<close>, \<open>Ahci\<close>: the disk controllers beside IDE. \<open>Acpi\<close>, \<open>Ioapic\<close>, \<open>Watchdog\<close>: firmware tables, interrupt routing
    and the restart of a machine that hangs. \<open>Devfs\<close>: the devices under /dev.
  \<^item> \<open>Vga\<close>: the text console and the pixel console of \<open>drivers/vga.c\<close>; the text screen is a window on an endless sheet of paper.
  \<^item> \<open>Procfs\<close>: the files under /proc and /sys (\<open>fs/procfs.c\<close>, \<open>fs/sysfs.c\<close>), whose contents are printed when they are read.
  \<^item> \<open>Ui\<close>, \<open>Icons\<close>, \<open>Login\<close>, \<open>App\<close>, \<open>Desktop\<close>: the files of \<open>os/src\<close>. A drawing routine is a function on buffers of pixels;
    the predicate \<open>inside\<close> says that it writes no word outside, and the collection \<open>drawing\<close> proves it for each of them. A frame of a
    form or of the desktop is a function of the state and of what mouse, keyboard and clocks give in that pass.

  \<^bold>\<open>Conventions.\<close> Machine integers are words of their width, so every addition wraps as the code's does. C
  strings are byte lists read up to a NUL. A pointer to an entry of a table is its index, \<open>NULL\<close> is \<open>None\<close> or 0.
  An error return is the value the code returns, a kernel panic or an access outside a buffer is \<open>None\<close>, and
  blocking is an explicit outcome (the step that would wait says so), since waiting is a return to the scheduler.
  Sections under a spin lock with interrupts off are atomic steps. Whether \<open>kmalloc\<close> succeeds, what a device
  answers and what a packet holds are arguments. Loops with a counter are structural recursion on the rounds
  left; loops that stop for another reason have a termination proof; the loops that may not stop (the name decoder
  of DNS, the walks along a FAT cluster chain) are \<open>partial_function\<close>s over options, with theorems that they return on
  well-formed input and lemmas that they diverge on a cyclic one.

  \<^bold>\<open>Lemmas.\<close> For each component there are an invariant with its preservation by every operation, the functional
  behaviour of its operations, and where it has one its abstract contract: the event rings refine a queue,
  a pipe and a connected socket are byte streams, the ARP and environment tables are keyed tables, the heap is
  a set of disjoint live blocks, the page tables are a partial map from pages to frames, a file is a list of
  bytes, a received TCP segment moves a connection along the arrows of RFC 793. Theorems that compose
  components are in the uppermost theory they mention (a datagram from \<open>sock_sendto\<close> to \<open>sock_recvfrom\<close>, a page
  through the disk and back, an archive through the boot module and the file system).

  \<^bold>\<open>Not modelled.\<close> Logging and the dump functions, which only print; the rest of the boot sequence (\<open>kernel.c\<close>); code whose
  effect is on devices or processor registers alone (the registers of the Bochs display adapter, sound, USB, local APIC,
  start of the other cores); the interactive debug shell; the pause between two frames
  of the desktop and what its programs print on the serial line.
\<close>

end
